(* ===== verification/Prelude.thy ===== *)
theory Prelude
  imports Main "HOL-Library.Char_ord" "HOL-Library.List_Lexorder" "HOL-Library.Sublist"
begin

text \<open>
  Shared ground of the development: the part of Go and of its standard library that the modelled
  packages use, the run-time panics as values, 64-bit wrap-around and saturation, byte strings and
  the list lemmas that several components need.

  Conventions.  A Go \<open>string\<close> or \<open>[]byte\<close> is a \<open>string\<close> (a list of bytes), compared
  bytewise by the lexicographic order of \<open>List_Lexorder\<close> over \<open>Char_ord\<close>.  A \<open>time.Time\<close> is the
  instant it denotes, an \<open>int\<close> counting nanoseconds from the Unix epoch (the zero value of the type
  is 1 January of year 1).  A \<open>time.Duration\<close> is an \<open>int\<close> in nanoseconds; where the code computes
  with durations the 64-bit wrap-around is written out with \<open>wrap64\<close>, and \<open>Time.Sub\<close> saturates.
  An identifier (\<open>uuid.UUID\<close>) is a \<open>nat\<close> whose zero is \<open>uuid.Nil\<close>.
\<close>

named_theorems go_defs \<open>small definitions of the Go layer that proofs unfold\<close>
named_theorems go_bounds \<open>range facts on wrapped and saturated integers\<close>

type_synonym go_id = nat
type_synonym go_time = int
type_synonym duration = int

definition NilID :: go_id where
  "NilID = 0"

subsection \<open>Run-time panics\<close>

datatype go_panic =
    DivideByZero
  | IndexOutOfRange
  | NilDereference
  | SendOnClosedChannel
  | CloseOfClosedChannel

subsection \<open>Machine integers\<close>

definition min_int64 :: int where
  "min_int64 = - (2 ^ 63)"

definition max_int64 :: int where
  "max_int64 = 2 ^ 63 - 1"

definition wrap64 :: "int \<Rightarrow> int" where
  "wrap64 x = (x + 2 ^ 63) mod 2 ^ 64 - 2 ^ 63"

definition sat64 :: "int \<Rightarrow> int" where
  "sat64 x = max min_int64 (min max_int64 x)"

text \<open>Go's integer division and remainder truncate towards zero.\<close>

definition go_div :: "int \<Rightarrow> int \<Rightarrow> int" where
  "go_div a b = sgn a * sgn b * (\<bar>a\<bar> div \<bar>b\<bar>)"

definition go_mod :: "int \<Rightarrow> int \<Rightarrow> int" where
  "go_mod a b = a - go_div a b * b"

definition second :: duration where
  "second = 1000000000"

definition minute :: duration where
  "minute = 60 * second"

definition hour :: duration where
  "hour = 60 * minute"

definition day :: duration where
  "day = 24 * hour"

lemmas duration_defs = second_def minute_def hour_def day_def

definition zero_time :: go_time where
  "zero_time = - 62135596800 * second"

definition time_sub :: "go_time \<Rightarrow> go_time \<Rightarrow> duration" where
  "time_sub t u = sat64 (t - u)"

lemma wrap64_id [go_bounds]: "min_int64 \<le> x \<Longrightarrow> x \<le> max_int64 \<Longrightarrow> wrap64 x = x"
  by (simp add: wrap64_def min_int64_def max_int64_def)

lemma wrap64_range [go_bounds]: "min_int64 \<le> wrap64 x" "wrap64 x \<le> max_int64"
  by (simp_all add: wrap64_def min_int64_def max_int64_def)

lemma int_le_div_iff: "0 < d \<Longrightarrow> q \<le> n div d \<longleftrightarrow> q * d \<le> n" for d q n :: int
proof
  assume d: "0 < d" and "q \<le> n div d"
  then have "q * d \<le> n div d * d" by (simp add: mult_right_mono)
  also have "\<dots> \<le> n" using div_mult_mod_eq [of n d] pos_mod_sign [OF d, of n] by linarith
  finally show "q * d \<le> n" .
next
  assume d: "0 < d" and "q * d \<le> n"
  then show "q \<le> n div d" using zdiv_mono1 [of "q * d" n d] by simp
qed

lemma int_div_bounds: "0 < d \<Longrightarrow> d * (n div d) \<le> n \<and> n < d * (n div d) + d" for d n :: int
  using mult_div_mod_eq [of d n] pos_mod_sign [of d n] pos_mod_bound [of d n] by linarith

lemma int_div_unique: "d * q \<le> n \<Longrightarrow> n < d * q + d \<Longrightarrow> n div d = q" for d q n :: int
  by (metis add.commute add_diff_cancel_left' div_pos_geq int_div_pos_eq le_add_diff_inverse
      diff_less_eq diff_ge_0_iff_ge)

lemma div_pred: "0 < d \<Longrightarrow> n div d = (n - 1) div d + (if n mod d = 0 then 1 else 0)" for d n :: int
proof -
  assume d: "0 < d"
  define q where "q = n div d"
  define r where "r = n mod d"
  have n: "n = d * q + r" "0 \<le> r" "r < d" using d by (simp_all add: q_def r_def)
  have "(n - 1) div d = (if r = 0 then q - 1 else q)"
    using n d by (intro int_div_unique) (auto simp: algebra_simps)
  then show ?thesis by (simp add: q_def r_def)
qed

lemma sat64_id [go_bounds]: "min_int64 \<le> x \<Longrightarrow> x \<le> max_int64 \<Longrightarrow> sat64 x = x"
  by (simp add: sat64_def)

lemma sat64_range [go_bounds]: "min_int64 \<le> sat64 x" "sat64 x \<le> max_int64"
  by (simp_all add: sat64_def min_int64_def max_int64_def)

lemma sat64_pos_iff: "0 < sat64 x \<longleftrightarrow> 0 < x"
  by (auto simp: sat64_def min_int64_def max_int64_def)

lemma sat64_nonneg_iff: "0 \<le> sat64 x \<longleftrightarrow> 0 \<le> x"
  by (auto simp: sat64_def min_int64_def max_int64_def)

lemma go_div_nonneg: "0 \<le> a \<Longrightarrow> 0 < b \<Longrightarrow> go_div a b = a div b"
  by (cases "a = 0") (simp_all add: go_div_def)

lemma go_mod_nonneg: "0 \<le> a \<Longrightarrow> 0 < b \<Longrightarrow> go_mod a b = a mod b"
  by (simp add: go_mod_def go_div_nonneg minus_div_mult_eq_mod)

lemma go_mod_mod: "go_mod a b mod b = a mod b"
  by (simp add: go_mod_def mod_diff_right_eq [symmetric, of a])

lemma go_mod_neg: "a < 0 \<Longrightarrow> 0 < b \<Longrightarrow> go_mod a b = - (- a mod b)"
  by (simp add: go_mod_def go_div_def minus_div_mult_eq_mod [symmetric])

lemma go_mod_bound: "0 < b \<Longrightarrow> - b < go_mod a b \<and> go_mod a b < b"
proof (cases "0 \<le> a")
  case False
  assume b: "0 < b"
  have "0 \<le> - a mod b" "- a mod b < b" using b by simp_all
  then show ?thesis using go_mod_neg [of a b] False b by linarith
next
  case True
  assume b: "0 < b"
  have "0 \<le> a mod b" "a mod b < b" using b by simp_all
  then show ?thesis using go_mod_nonneg [of a b] True b by linarith
qed

subsection \<open>Byte strings\<close>

text \<open>
  The byte sequences of the runes that \<open>unicode.IsSpace\<close> accepts, in UTF-8:
  \<open>strings.TrimSpace\<close> and \<open>strings.Fields\<close> work on them.
\<close>

definition space_seqs :: "string list" where
  "space_seqs = [[CHR 0x09], [CHR 0x0A], [CHR 0x0B], [CHR 0x0C], [CHR 0x0D], [CHR 0x20],
     [CHR 0xC2, CHR 0x85], [CHR 0xC2, CHR 0xA0], [CHR 0xE1, CHR 0x9A, CHR 0x80],
     [CHR 0xE2, CHR 0x80, CHR 0x80], [CHR 0xE2, CHR 0x80, CHR 0x81],
     [CHR 0xE2, CHR 0x80, CHR 0x82], [CHR 0xE2, CHR 0x80, CHR 0x83],
     [CHR 0xE2, CHR 0x80, CHR 0x84], [CHR 0xE2, CHR 0x80, CHR 0x85],
     [CHR 0xE2, CHR 0x80, CHR 0x86], [CHR 0xE2, CHR 0x80, CHR 0x87],
     [CHR 0xE2, CHR 0x80, CHR 0x88], [CHR 0xE2, CHR 0x80, CHR 0x89],
     [CHR 0xE2, CHR 0x80, CHR 0x8A], [CHR 0xE2, CHR 0x80, CHR 0xA8],
     [CHR 0xE2, CHR 0x80, CHR 0xA9], [CHR 0xE2, CHR 0x80, CHR 0xAF],
     [CHR 0xE2, CHR 0x81, CHR 0x9F], [CHR 0xE3, CHR 0x80, CHR 0x80]]"

fun has_prefix :: "string \<Rightarrow> string \<Rightarrow> bool" where
  "has_prefix s [] = True"
| "has_prefix [] (p # ps) = False"
| "has_prefix (c # s) (p # ps) = (c = p \<and> has_prefix s ps)"

text \<open>Strip leading byte sequences of the list \<open>seqs\<close>, at most \<open>n\<close> times.\<close>

fun strip :: "string list \<Rightarrow> nat \<Rightarrow> string \<Rightarrow> string" where
  "strip seqs 0 s = s"
| "strip seqs (Suc n) s =
     (case find (has_prefix s) seqs of
        None \<Rightarrow> s
      | Some p \<Rightarrow> strip seqs n (drop (length p) s))"

definition trim_left :: "string \<Rightarrow> string" where
  "trim_left s = strip space_seqs (length s) s"

definition trim_right :: "string \<Rightarrow> string" where
  "trim_right s = rev (strip (map rev space_seqs) (length s) (rev s))"

text \<open>\<open>strings.TrimSpace\<close>.\<close>

definition trim_space :: "string \<Rightarrow> string" where
  "trim_space s = trim_right (trim_left s)"

text \<open>\<open>strings.TrimPrefix\<close>, \<open>strings.CutPrefix\<close>, \<open>strings.Cut\<close>, \<open>strings.Split\<close> and \<open>strings.Join\<close>
  on one-byte separators.\<close>

definition trim_prefix :: "string \<Rightarrow> string \<Rightarrow> string" where
  "trim_prefix s p = (if has_prefix s p then drop (length p) s else s)"

definition cut_prefix :: "string \<Rightarrow> string \<Rightarrow> string option" where
  "cut_prefix s p = (if has_prefix s p then Some (drop (length p) s) else None)"

fun cut :: "string \<Rightarrow> char \<Rightarrow> (string \<times> string) option" where
  "cut [] c = None"
| "cut (x # s) c = (if x = c then Some ([], s) else map_option (apfst ((#) x)) (cut s c))"

fun split :: "string \<Rightarrow> char \<Rightarrow> string list" where
  "split [] c = [[]]"
| "split (x # s) c =
     (if x = c then [] # split s c
      else (case split s c of [] \<Rightarrow> [[x]] | p # ps \<Rightarrow> (x # p) # ps))"

fun join :: "string list \<Rightarrow> string \<Rightarrow> string" where
  "join [] sep = []"
| "join [p] sep = p"
| "join (p # q # ps) sep = p @ sep @ join (q # ps) sep"

text \<open>\<open>strings.ToLower\<close> and \<open>strings.ToUpper\<close> on the ASCII range; other bytes are left as they are.\<close>

definition lower_char :: "char \<Rightarrow> char" where
  "lower_char c = (if CHR ''A'' \<le> c \<and> c \<le> CHR ''Z'' then char_of (of_char c + 32 :: nat) else c)"

definition to_lower :: "string \<Rightarrow> string" where
  "to_lower = map lower_char"

definition upper_char :: "char \<Rightarrow> char" where
  "upper_char c = (if CHR ''a'' \<le> c \<and> c \<le> CHR ''z'' then char_of (of_char c - 32 :: nat) else c)"

definition to_upper :: "string \<Rightarrow> string" where
  "to_upper = map upper_char"

definition is_digit :: "char \<Rightarrow> bool" where
  "is_digit c \<longleftrightarrow> CHR ''0'' \<le> c \<and> c \<le> CHR ''9''"

definition is_upper :: "char \<Rightarrow> bool" where
  "is_upper c \<longleftrightarrow> CHR ''A'' \<le> c \<and> c \<le> CHR ''Z''"

definition is_lower :: "char \<Rightarrow> bool" where
  "is_lower c \<longleftrightarrow> CHR ''a'' \<le> c \<and> c \<le> CHR ''z''"

definition is_alnum :: "char \<Rightarrow> bool" where
  "is_alnum c \<longleftrightarrow> is_digit c \<or> is_upper c \<or> is_lower c"

text \<open>\<open>utf8.ValidString\<close>: the well-formed byte sequences of Unicode.\<close>

definition in_range :: "nat \<Rightarrow> nat \<Rightarrow> nat \<Rightarrow> bool" where
  "in_range lo hi b \<longleftrightarrow> lo \<le> b \<and> b \<le> hi"

fun utf8_bytes :: "nat list \<Rightarrow> bool" where
  "utf8_bytes [] = True"
| "utf8_bytes (a # s) =
     (if a < 0x80 then utf8_bytes s
      else case s of [] \<Rightarrow> False
      | b # s1 \<Rightarrow>
        if in_range 0xC2 0xDF a then in_range 0x80 0xBF b \<and> utf8_bytes s1
        else case s1 of [] \<Rightarrow> False
        | c # s2 \<Rightarrow>
          if in_range 0xE0 0xEF a
          then in_range (if a = 0xE0 then 0xA0 else 0x80) (if a = 0xED then 0x9F else 0xBF) b \<and>
               in_range 0x80 0xBF c \<and> utf8_bytes s2
          else case s2 of [] \<Rightarrow> False
          | d # s3 \<Rightarrow>
              in_range 0xF0 0xF4 a \<and>
              in_range (if a = 0xF0 then 0x90 else 0x80) (if a = 0xF4 then 0x8F else 0xBF) b \<and>
              in_range 0x80 0xBF c \<and> in_range 0x80 0xBF d \<and> utf8_bytes s3)"

definition utf8_valid :: "string \<Rightarrow> bool" where
  "utf8_valid s = utf8_bytes (map of_char s)"

text \<open>The runes of a string: the width of the well-formed sequence at its start, 0 for none, and the
  pieces that \<open>range\<close> visits, a byte that starts no sequence being a piece of its own.\<close>

definition utf8_width :: "nat list \<Rightarrow> nat" where
  "utf8_width s =
     (if s \<noteq> [] \<and> utf8_bytes (take 1 s) then 1
      else if length s \<ge> 2 \<and> utf8_bytes (take 2 s) then 2
      else if length s \<ge> 3 \<and> utf8_bytes (take 3 s) then 3
      else if length s \<ge> 4 \<and> utf8_bytes (take 4 s) then 4 else 0)"

fun utf8_pieces_n :: "nat \<Rightarrow> string \<Rightarrow> (bool \<times> string) list" where
  "utf8_pieces_n 0 s = []"
| "utf8_pieces_n (Suc n) s =
     (if s = [] then []
      else let w = utf8_width (map of_char s) in
           if w = 0 then (False, take 1 s) # utf8_pieces_n n (drop 1 s)
           else (True, take w s) # utf8_pieces_n n (drop w s))"

definition utf8_pieces :: "string \<Rightarrow> (bool \<times> string) list" where
  "utf8_pieces s = utf8_pieces_n (length s) s"

definition runes :: "string \<Rightarrow> string list" where
  "runes s = map (\<lambda>(ok, b). if ok then b else [CHR 0xEF, CHR 0xBF, CHR 0xBD]) (utf8_pieces s)"

text \<open>\<open>utf8.RuneCountInString\<close>.\<close>

definition rune_count :: "string \<Rightarrow> int" where
  "rune_count s = int (length (utf8_pieces s))"

text \<open>\<open>strings.ToValidUTF8\<close> with an empty replacement.\<close>

definition to_valid_utf8 :: "string \<Rightarrow> string" where
  "to_valid_utf8 s = concat (map snd (filter fst (utf8_pieces s)))"

definition ascii :: "string \<Rightarrow> bool" where
  "ascii s = list_all (\<lambda>c. of_char c < (128 :: nat)) s"

lemma utf8_pieces_n_ascii: "ascii s \<Longrightarrow> length s \<le> n \<Longrightarrow> utf8_pieces_n n s = map (\<lambda>c. (True, [c])) s"
  by (induction s arbitrary: n; case_tac n) (auto simp: ascii_def utf8_width_def Let_def)

lemma rune_count_ascii: "ascii s \<Longrightarrow> rune_count s = int (length s)"
  by (simp add: rune_count_def utf8_pieces_def utf8_pieces_n_ascii)

lemma runes_ascii: "ascii s \<Longrightarrow> runes s = map (\<lambda>c. [c]) s"
  by (simp add: runes_def utf8_pieces_def utf8_pieces_n_ascii)

lemma ascii_Cons [simp]: "ascii [] = True" "ascii (c # s) \<longleftrightarrow> of_char c < (128 :: nat) \<and> ascii s"
  by (simp_all add: ascii_def)

text \<open>\<open>strconv.Itoa\<close>: decimal digits with a sign.\<close>

fun nat_digits :: "nat \<Rightarrow> string" where
  "nat_digits n = (if n < 10 then [char_of (48 + n)] else nat_digits (n div 10) @ [char_of (48 + n mod 10)])"

declare nat_digits.simps [simp del]

definition itoa :: "int \<Rightarrow> string" where
  "itoa i = (if i < 0 then ''-'' @ nat_digits (nat (- i)) else nat_digits (nat i))"

lemma nat_digits_not_Nil [simp]: "nat_digits n \<noteq> []"
  by (subst nat_digits.simps) simp

lemma char_codes:
  "of_char (CHR ''0'') = (48 :: nat)" "of_char (CHR ''9'') = (57 :: nat)" "of_char (CHR ''a'') = (97 :: nat)"
  "of_char (CHR ''z'') = (122 :: nat)" "of_char (CHR 0x21) = (33 :: nat)" "of_char (CHR 0x7E) = (126 :: nat)"
  by code_simp+

lemma char_of_48: "char_of (48 :: nat) = CHR ''0''"
  by code_simp

lemma has_prefix_append [simp]: "has_prefix (p @ s) p"
  by (induction p) auto

lemma has_prefix_iff: "has_prefix s p \<longleftrightarrow> prefix p s"
  by (induction s p rule: has_prefix.induct) auto

lemma trim_prefix_append [simp]: "trim_prefix (p @ s) p = s"
  by (simp add: trim_prefix_def)

lemma cut_append: "c \<notin> set s \<Longrightarrow> cut (s @ c # t) c = Some (s, t)"
  by (induction s) auto

lemma cut_Some: "cut s c = Some (a, b) \<Longrightarrow> s = a @ c # b \<and> c \<notin> set a"
  by (induction s arbitrary: a) (auto split: if_splits)

lemma cut_None: "cut s c = None \<longleftrightarrow> c \<notin> set s"
  by (induction s) auto

lemma split_not_empty [simp]: "split s c \<noteq> []"
  by (induction s) (auto split: list.splits)

lemma join_split: "join (split s c) [c] = s"
proof (induction s)
  case (Cons x s)
  obtain p ps where "split s c = p # ps"
    by (cases "split s c") auto
  with Cons.IH show ?case
    by (cases ps) auto
qed simp

lemma split_no_sep: "c \<notin> set s \<Longrightarrow> split s c = [s]"
  by (induction s) auto

lemma split_append: "c \<notin> set p \<Longrightarrow> split (p @ c # s) c = p # split s c"
  by (induction p) auto

lemma split_pieces: "p \<in> set (split s c) \<Longrightarrow> c \<notin> set p"
  by (induction s arbitrary: p) (auto split: list.splits if_splits)

lemma strip_length: "length (strip seqs n s) \<le> length s"
proof (induction n arbitrary: s)
  case (Suc n)
  show ?case
  proof (cases "find (has_prefix s) seqs")
    case (Some p)
    have "length (strip seqs n (drop (length p) s)) \<le> length (drop (length p) s)"
      by (rule Suc.IH)
    then show ?thesis using Some by simp
  qed simp
qed simp

lemma trim_space_length: "length (trim_space s) \<le> length s"
  unfolding trim_space_def trim_right_def trim_left_def
  using strip_length le_trans by (metis length_rev)

text \<open>A string that starts and ends with a printable ASCII character is not trimmed.\<close>

definition plain :: "char \<Rightarrow> bool" where
  "plain c \<longleftrightarrow> CHR 0x21 \<le> c \<and> c \<le> CHR 0x7E"

lemma strip_none: "\<forall>q \<in> set seqs. \<not> has_prefix s q \<Longrightarrow> strip seqs n s = s"
  by (cases n) (auto simp: find_Some_iff split: option.splits)

lemma space_seqs_ends: "\<forall>q \<in> set space_seqs. q \<noteq> [] \<and> \<not> plain (hd q) \<and> \<not> plain (last q)"
  by code_simp

lemma space_seqs_hd: "q \<in> set space_seqs \<Longrightarrow> q \<noteq> [] \<and> \<not> plain (hd q) \<and> \<not> plain (last q)"
  using space_seqs_ends by blast

lemma has_prefix_hd: "has_prefix s q \<Longrightarrow> q \<noteq> [] \<Longrightarrow> s \<noteq> [] \<and> hd s = hd q"
  by (cases "(s, q)" rule: has_prefix.cases) auto

lemma trim_space_plain:
  assumes "s = [] \<or> plain (hd s) \<and> plain (last s)"
  shows "trim_space s = s"
proof -
  have "\<not> has_prefix s q" if "q \<in> set space_seqs" for q
    using has_prefix_hd [of s q] space_seqs_hd [OF that] assms by auto
  then have l: "trim_left s = s" by (simp add: trim_left_def strip_none)
  have "\<not> has_prefix (rev s) (rev q)" if "q \<in> set space_seqs" for q
    using has_prefix_hd [of "rev s" "rev q"] space_seqs_hd [OF that] assms by (auto simp: hd_rev)
  then have "trim_right s = s" by (simp add: trim_right_def strip_none)
  with l show ?thesis by (simp add: trim_space_def)
qed

subsection \<open>Lists\<close>

text \<open>\<open>slices.IndexFunc\<close>: the position of the first element with the property.\<close>

fun index_func :: "('a \<Rightarrow> bool) \<Rightarrow> 'a list \<Rightarrow> nat option" where
  "index_func P [] = None"
| "index_func P (x # xs) = (if P x then Some 0 else map_option Suc (index_func P xs))"

lemma index_func_Some:
  "index_func P xs = Some i \<Longrightarrow> i < length xs \<and> P (xs ! i) \<and> (\<forall>j < i. \<not> P (xs ! j))"
proof (induction xs arbitrary: i)
  case (Cons x xs)
  then show ?case
    by (cases "P x") (auto simp: nth_Cons split: nat.splits)
qed simp

lemma index_func_None: "index_func P xs = None \<longleftrightarrow> (\<forall>x \<in> set xs. \<not> P x)"
  by (induction xs) auto

text \<open>\<open>slices.Compact\<close> and \<open>slices.CompactFunc\<close>: keep the first element of every run.\<close>

fun compact :: "('a \<Rightarrow> 'a \<Rightarrow> bool) \<Rightarrow> 'a list \<Rightarrow> 'a list" where
  "compact eq [] = []"
| "compact eq [x] = [x]"
| "compact eq (x # y # zs) = (if eq x y then compact eq (x # zs) else x # compact eq (y # zs))"

lemma compact_eq_remdups_adj: "compact (=) xs = remdups_adj xs"
proof (induction "(=) :: 'a \<Rightarrow> 'a \<Rightarrow> bool" xs rule: compact.induct)
  case (3 x y zs)
  then show ?case by (cases "x = y") auto
qed simp_all

lemma compact_sorted_distinct:
  fixes xs :: "'a::linorder list"
  assumes "sorted xs"
  shows "sorted_wrt (<) (compact (=) xs)" and "set (compact (=) xs) = set xs"
proof -
  have "sorted_wrt (<) (remdups_adj xs)"
    using assms
  proof (induction xs rule: remdups_adj.induct)
    case (3 x y xs)
    then show ?case by (cases "x = y") fastforce+
  qed simp_all
  then show "sorted_wrt (<) (compact (=) xs)"
    by (simp add: compact_eq_remdups_adj)
qed (simp add: compact_eq_remdups_adj)

end
