(* ===== verification/Position.thy ===== *)
theory Position
  imports Prelude
begin

text \<open>
  Fractional position keys, \<open>internal/domain/position.go\<close>: the strings that order todos and
  checklist items.  A key is a base-62 fraction; \<open>KeyBetween\<close> returns a key strictly between its
  bounds, so an item can be placed between any two neighbours without renumbering.
\<close>

subsection \<open>The code\<close>

definition positionDigits :: string where
  "positionDigits = ''0123456789ABCDEFGHIJKLMNOPQRSTUVWXYZabcdefghijklmnopqrstuvwxyz''"

definition digit :: "char \<Rightarrow> nat" where
  "digit c = (case index_func ((=) c) positionDigits of None \<Rightarrow> 0 | Some i \<Rightarrow> i)"

fun keyAfter_from :: "string \<Rightarrow> string \<Rightarrow> string option" where
  "keyAfter_from pre [] = None"
| "keyAfter_from pre (c # rest) =
     (if digit c < length positionDigits - 1 then Some (pre @ [positionDigits ! (digit c + 1)])
      else keyAfter_from (pre @ [c]) rest)"

definition keyAfter :: "string \<Rightarrow> string" where
  "keyAfter a = (case keyAfter_from [] a of Some k \<Rightarrow> k | None \<Rightarrow> a @ ''V'')"

text \<open>The first loop of \<open>midpoint\<close>: how many leading bytes of \<open>b\<close> equal those of \<open>a\<close>, where \<open>a\<close> is
  continued with zeros.\<close>

fun common :: "string \<Rightarrow> string \<Rightarrow> nat" where
  "common a [] = 0"
| "common a (c # b) =
     (if (case a of [] \<Rightarrow> CHR ''0'' | x # _ \<Rightarrow> x) = c then Suc (common (tl a) b) else 0)"

function midpoint :: "string \<Rightarrow> string \<Rightarrow> string" where
  "midpoint a b =
     (let n = common a b in
      if b \<noteq> [] \<and> n > 0 then take n b @ midpoint (drop n a) (drop n b)
      else
        let da = (if a \<noteq> [] then digit (hd a) else 0);
            db = (if b \<noteq> [] then digit (hd b) else length positionDigits)
        in if int db - int da > 1 then [positionDigits ! ((da + db + 1) div 2)]
           else if b \<noteq> [] \<and> length b > 1 then take 1 b
           else if a = [] \<and> b = [] then []
           else positionDigits ! da # midpoint (tl a) [])"
  by pat_completeness auto
termination
proof (relation "measure (\<lambda>(a, b). length a + length b)", goal_cases)
  case (2 a b n)
  then have "0 < length b" and "0 < n" by simp_all
  then have "length (drop n b) < length b" by simp
  then have "length (drop n a) + length (drop n b) < length a + length b"
    by (intro add_le_less_mono) simp_all
  then show ?case by simp
next
  case (3 a b n da db)
  then show ?case by (cases a; cases b) auto
qed simp

declare midpoint.simps [simp del]

fun keyBefore_from :: "string \<Rightarrow> string \<Rightarrow> string option" where
  "keyBefore_from pre [] = None"
| "keyBefore_from pre (c # rest) =
     (if digit c > 1 then Some (pre @ [positionDigits ! (digit c - 1)])
      else if digit c = 1 then Some (pre @ ''0V'')
      else keyBefore_from (pre @ [c]) rest)"

definition keyBefore :: "string \<Rightarrow> string" where
  "keyBefore b = (case keyBefore_from [] b of Some k \<Rightarrow> k | None \<Rightarrow> midpoint [] b)"

definition KeyBetween :: "string \<Rightarrow> string \<Rightarrow> string" where
  "KeyBetween a b0 =
     (let b = (if b0 \<noteq> [] \<and> a \<ge> b0 then [] else b0) in
      if b = [] then keyAfter a
      else if a = [] then keyBefore b
      else midpoint a b)"

text \<open>
  In \<open>midpoint\<close> the branch \<open>a = [] \<and> b = []\<close> cannot be reached (there the digits are 0 and 62, which
  the preceding test catches); it only makes the recursion well-founded.
\<close>

text \<open>The keys the application stores: digits only, at least one, the last of them not zero.\<close>

definition digits_only :: "string \<Rightarrow> bool" where
  "digits_only s \<longleftrightarrow> set s \<subseteq> set positionDigits"

definition valid_key :: "string \<Rightarrow> bool" where
  "valid_key s \<longleftrightarrow> digits_only s \<and> s \<noteq> [] \<and> last s \<noteq> CHR ''0''"

text \<open>Keys handed out one after another, as the check lists do: \<open>prev = KeyBetween prev ""\<close>.\<close>

fun append_keys :: "string \<Rightarrow> nat \<Rightarrow> string list" where
  "append_keys prev 0 = []"
| "append_keys prev (Suc n) = KeyBetween prev [] # append_keys (KeyBetween prev []) n"

subsection \<open>Digits\<close>

lemma length_positionDigits [simp]: "length positionDigits = 62"
  by (simp add: positionDigits_def)

lemma positionDigits_sorted: "sorted_wrt (<) positionDigits"
  unfolding positionDigits_def by code_simp

lemma positionDigits_nth_less_iff:
  "i < 62 \<Longrightarrow> j < 62 \<Longrightarrow> positionDigits ! i < positionDigits ! j \<longleftrightarrow> i < j"
  using sorted_wrt_nth_less [OF positionDigits_sorted, of i j]
    sorted_wrt_nth_less [OF positionDigits_sorted, of j i]
  by (cases i j rule: linorder_cases) auto

lemma digit_less [simp]: "digit c < 62"
  by (auto simp: digit_def split: option.splits dest!: index_func_Some)

lemma nth_digit: "c \<in> set positionDigits \<Longrightarrow> positionDigits ! digit c = c"
  by (auto simp: digit_def index_func_None split: option.splits dest!: index_func_Some)

lemma digit_nth: "i < 62 \<Longrightarrow> digit (positionDigits ! i) = i"
  using nth_digit [of "positionDigits ! i"] positionDigits_nth_less_iff
  by (metis digit_less length_positionDigits linorder_neq_iff nth_mem)

lemma digit_mono:
  "c \<in> set positionDigits \<Longrightarrow> d \<in> set positionDigits \<Longrightarrow> c < d \<longleftrightarrow> digit c < digit d"
  using nth_digit positionDigits_nth_less_iff by (metis digit_less)

lemma digit_zero [simp]: "digit CHR ''0'' = 0" and digit_V [simp]: "digit CHR ''V'' = 31"
  by code_simp+

lemma nth_zero [simp]: "positionDigits ! 0 = CHR ''0''"
  by (simp add: positionDigits_def)

lemma V_digit [simp]: "CHR ''V'' \<in> set positionDigits" "CHR ''0'' \<in> set positionDigits"
  by (simp_all add: positionDigits_def)

lemma nth_in_digits [simp]: "i < 62 \<Longrightarrow> positionDigits ! i \<in> set positionDigits"
  by simp

lemma nth_eq_zero_iff: "i < 62 \<Longrightarrow> positionDigits ! i = CHR ''0'' \<longleftrightarrow> i = 0"
  using digit_nth [of i] by auto

lemma digit_pos_iff: "c \<in> set positionDigits \<Longrightarrow> 0 < digit c \<longleftrightarrow> c \<noteq> CHR ''0''"
  using nth_digit [of c] by (metis digit_zero gr0I less_irrefl nth_zero)

lemma digits_only_simps [simp]:
  "digits_only []" "digits_only (c # s) \<longleftrightarrow> c \<in> set positionDigits \<and> digits_only s"
  "digits_only (s @ t) \<longleftrightarrow> digits_only s \<and> digits_only t"
  by (auto simp: digits_only_def)

lemma digits_only_take [simp]: "digits_only s \<Longrightarrow> digits_only (take n s)"
  by (auto simp: digits_only_def dest: in_set_takeD)

lemma digits_only_drop [simp]: "digits_only s \<Longrightarrow> digits_only (drop n s)"
  by (auto simp: digits_only_def dest: in_set_dropD)

subsection \<open>Lexicographic order of byte strings\<close>

lemma append_less_append [simp]: "p @ (x :: string) < p @ y \<longleftrightarrow> x < y"
  by (induction p) auto

lemma less_append_nonempty: "y \<noteq> [] \<Longrightarrow> (x :: string) < x @ y"
  by (induction x) (auto simp: neq_Nil_conv)

lemma prefix_of_take_less:
  assumes "r \<noteq> []" and "(x :: string) = take (length x) p"
  shows "x < p @ r"
proof -
  have "p @ r = x @ drop (length x) p @ r"
    using assms(2) append_take_drop_id [of "length x" p] by simp
  moreover have "x < x @ drop (length x) p @ r"
    using assms(1) by (intro less_append_nonempty) simp
  ultimately show ?thesis by (simp only:)
qed

subsection \<open>The midpoint of two keys\<close>

lemma common_le: "common a b \<le> length b"
  by (induction a b rule: common.induct) auto

lemma common_long: "common a b \<le> length a \<Longrightarrow> take (common a b) b = take (common a b) a"
proof (induction a b rule: common.induct)
  case (2 a c b)
  then show ?case by (cases a) auto
qed simp

lemma common_short: "length a \<le> common a b \<Longrightarrow> take (length a) b = a"
proof (induction a b rule: common.induct)
  case (2 a c b)
  then show ?case by (cases a) (auto split: if_splits)
qed simp

lemma common_Nil_zeros: "i < common [] b \<Longrightarrow> b ! i = CHR ''0''"
  by (induction "[] :: string" b arbitrary: i rule: common.induct)
    (auto simp: nth_Cons split: nat.splits if_splits)

lemma common_all_zero_tail:
  "common a b = length b \<Longrightarrow> length a < length b \<Longrightarrow> last b = CHR ''0''"
proof (induction a b rule: common.induct)
  case (2 a c b)
  then show ?case
  proof (cases a)
    case Nil
    with 2 have "common [] (c # b) = length (c # b)" by simp
    then have "(c # b) ! length b = CHR ''0''"
      using common_Nil_zeros [of "length b" "c # b"] by simp
    then have "last (c # b) = CHR ''0''"
      using last_conv_nth [of "c # b"] by simp
    then show ?thesis .
  qed (use 2 in \<open>auto split: if_splits\<close>)
qed simp

lemma common_less_length:
  assumes "a < b" and "valid_key b"
  shows "common a b < length b"
proof (rule ccontr)
  assume "\<not> common a b < length b"
  then have eq: "common a b = length b" using common_le [of a b] by linarith
  show False
  proof (cases "length b \<le> length a")
    case True
    then have "a = b @ drop (length b) a"
      using common_long [of a b] eq by (metis append_take_drop_id take_all order_refl)
    with assms(1) show False
      by (metis append_Nil2 less_append_nonempty not_less_iff_gr_or_eq)
  next
    case False
    then show False
      using common_all_zero_tail [OF eq] assms(2) by (simp add: valid_key_def)
  qed
qed

lemma common_split:
  assumes "a < b" and "valid_key b"
  defines "n \<equiv> common a b"
  shows "drop n a < drop n b" and "valid_key (drop n b)"
    and "\<And>r. drop n a < r \<Longrightarrow> a < take n b @ r"
proof -
  have n: "n < length b" using common_less_length [OF assms(1,2)] by (simp add: n_def)
  then show "valid_key (drop n b)"
    using assms(2) by (auto simp: valid_key_def)
  show "drop n a < drop n b"
  proof (cases "length a \<le> n")
    case True
    then show ?thesis using n by (cases "drop n b") auto
  next
    case False
    then have "a = take n b @ drop n a"
      using common_long [of a b] by (simp add: n_def)
    with assms(1) show ?thesis
      by (metis append_less_append append_take_drop_id)
  qed
  fix r assume r: "drop n a < r"
  show "a < take n b @ r"
  proof (cases "length a \<le> n")
    case True
    then have "a = take (length a) (take n b)"
      using common_short [of a b] by (simp add: n_def min_def)
    moreover have "r \<noteq> []" using r by auto
    ultimately show ?thesis by (rule prefix_of_take_less [rotated])
  next
    case False
    then have "a = take n b @ drop n a"
      using common_long [of a b] by (simp add: n_def)
    with r show ?thesis by (metis append_less_append)
  qed
qed

lemma common_zero_heads:
  assumes "common a b = 0" and "b \<noteq> []" and "a < b" and "digits_only a" and "digits_only b"
  shows "(if a \<noteq> [] then digit (hd a) else 0) < digit (hd b)"
proof -
  obtain c b' where b: "b = c # b'" using assms(2) by (cases b) auto
  show ?thesis
  proof (cases a)
    case Nil
    then show ?thesis using assms b digit_pos_iff [of c] by (auto split: if_splits)
  next
    case (Cons x a')
    then show ?thesis using assms b digit_mono [of x c] by (auto split: if_splits)
  qed
qed

text \<open>The bounds of the middle digit and the comparison with the bounds' first digits.\<close>

lemma middle_digit:
  assumes "int db - int da > 1" and "db \<le> 62"
  defines "m \<equiv> (da + db + 1) div 2"
  shows "da < m" and "m < db" and "m < 62"
  using assms by (auto simp: m_def)

lemma less_single:
  "digits_only a \<Longrightarrow> d < 62 \<Longrightarrow> (if a \<noteq> [] then digit (hd a) else 0) < d \<Longrightarrow> a < [positionDigits ! d]"
  by (cases a) (auto simp: digit_mono digit_nth)

lemma single_less:
  assumes "digits_only b" and "b \<noteq> []" and "d < digit (hd b)"
  shows "positionDigits ! d # r < b"
proof -
  have "d < 62" using assms(3) digit_less [of "hd b"] by linarith
  then show ?thesis using assms by (cases b) (auto simp: digit_mono digit_nth)
qed

lemma valid_key_single: "0 < d \<Longrightarrow> d < 62 \<Longrightarrow> valid_key [positionDigits ! d]"
  by (simp add: valid_key_def nth_eq_zero_iff)

lemma valid_key_append: "digits_only p \<Longrightarrow> valid_key r \<Longrightarrow> valid_key (p @ r)"
  by (simp add: valid_key_def)

lemma valid_key_Cons: "c \<in> set positionDigits \<Longrightarrow> valid_key r \<Longrightarrow> valid_key (c # r)"
  by (simp add: valid_key_def)

lemma midpoint_common:
  "b \<noteq> [] \<Longrightarrow> common a b > 0 \<Longrightarrow>
     midpoint a b = take (common a b) b @ midpoint (drop (common a b) a) (drop (common a b) b)"
  by (subst midpoint.simps) (simp add: Let_def)

text \<open>\<open>midpoint\<close> with no upper bound returns a key after \<open>a\<close>.\<close>

lemma midpoint_open:
  "digits_only a \<Longrightarrow> a < midpoint a [] \<and> valid_key (midpoint a [])"
proof (induction "length a" arbitrary: a rule: less_induct)
  case less
  let ?da = "if a \<noteq> [] then digit (hd a) else 0"
  show ?case
  proof (cases "62 - int ?da > 1")
    case True
    then have eq: "midpoint a [] = [positionDigits ! ((?da + 62 + 1) div 2)]"
      by (subst midpoint.simps) (simp add: Let_def)
    show ?thesis
      using middle_digit [of 62 ?da] True less.prems unfolding eq
      by (intro conjI less_single valid_key_single) auto
  next
    case False
    then obtain x xs where a: "a = x # xs"
      by (cases a) auto
    from False a less.prems have eq: "midpoint a [] = x # midpoint xs []"
      by (subst midpoint.simps) (simp add: Let_def nth_digit)
    show ?thesis
      using less.hyps [of xs] less.prems a unfolding eq by (simp add: valid_key_Cons)
  qed
qed

lemma midpoint_between:
  "digits_only a \<Longrightarrow> valid_key b \<Longrightarrow> a < b \<Longrightarrow>
     a < midpoint a b \<and> midpoint a b < b \<and> valid_key (midpoint a b)"
proof (induction "length b" arbitrary: a b rule: less_induct)
  case less
  let ?n = "common a b"
  let ?da = "if a \<noteq> [] then digit (hd a) else 0"
  have b: "b \<noteq> []" "digits_only b" using less.prems(2) by (simp_all add: valid_key_def)
  show ?case
  proof (cases "?n = 0")
    case False
    note sp = common_split [OF less.prems(3,2)]
    have "length (drop ?n b) < length b" using False b(1) by simp
    then have IH: "drop ?n a < midpoint (drop ?n a) (drop ?n b)"
      "midpoint (drop ?n a) (drop ?n b) < drop ?n b"
      "valid_key (midpoint (drop ?n a) (drop ?n b))"
      using less.hyps [OF _ digits_only_drop [OF less.prems(1)] sp(2) sp(1)] by auto
    have "take ?n b @ midpoint (drop ?n a) (drop ?n b) < take ?n b @ drop ?n b"
      using IH(2) by (simp only: append_less_append)
    then show ?thesis
      using False b IH sp(3) by (simp add: midpoint_common valid_key_append)
  next
    case True
    have less_digit: "?da < digit (hd b)"
      by (rule common_zero_heads [OF True b(1) less.prems(3,1) b(2)])
    consider (gap) "int (digit (hd b)) - int ?da > 1"
      | (long) "\<not> int (digit (hd b)) - int ?da > 1" "length b > 1"
      | (short) "\<not> int (digit (hd b)) - int ?da > 1" "length b = 1"
      using b(1) by (cases "length b") fastforce+
    then show ?thesis
    proof cases
      case gap
      then have eq: "midpoint a b = [positionDigits ! ((?da + digit (hd b) + 1) div 2)]"
        using True b(1) by (subst midpoint.simps) (simp add: Let_def)
      have le: "digit (hd b) \<le> 62" by (rule less_imp_le) (rule digit_less)
      show ?thesis
        using middle_digit [OF gap le] less.prems b unfolding eq
        by (intro conjI less_single single_less valid_key_single) auto
    next
      case long
      then have eq: "midpoint a b = [hd b]"
        using True b(1) by (subst midpoint.simps) (simp add: Let_def take_Suc)
      have hd_in: "hd b \<in> set positionDigits" using b by (cases b) auto
      have "a < [positionDigits ! digit (hd b)]"
        using less_digit less.prems(1) by (intro less_single) auto
      moreover have "valid_key [positionDigits ! digit (hd b)]"
        using less_digit by (intro valid_key_single) auto
      moreover have "[hd b] < b" using long(2) by (cases b; cases "tl b") auto
      ultimately show ?thesis unfolding eq by (simp add: nth_digit [OF hd_in])
    next
      case short
      let ?r = "midpoint (tl a) []"
      have eq: "midpoint a b = positionDigits ! ?da # ?r"
        using True b(1) short by (subst midpoint.simps) (simp add: Let_def)
      have "digits_only (tl a)" using less.prems(1) by (cases a) auto
      then have r: "tl a < ?r" "valid_key ?r" using midpoint_open by blast+
      have "a < positionDigits ! ?da # ?r"
        using r(1) less.prems(1) by (cases a) (auto simp: nth_digit)
      moreover have "positionDigits ! ?da # ?r < b"
        by (rule single_less [OF b(2,1) less_digit])
      moreover have "valid_key (positionDigits ! ?da # ?r)"
        by (rule valid_key_Cons [OF _ r(2)]) simp
      ultimately show ?thesis unfolding eq by blast
    qed
  qed
qed

subsection \<open>Keys after and before\<close>

lemma keyAfter_from_Some:
  "keyAfter_from pre a = Some k \<Longrightarrow> digits_only pre \<Longrightarrow> digits_only a \<Longrightarrow> pre @ a < k \<and> valid_key k"
proof (induction pre a rule: keyAfter_from.induct)
  case (2 pre c rest)
  show ?case
  proof (cases "digit c < 61")
    case True
    with "2.prems" have "k = pre @ [positionDigits ! (digit c + 1)]" by simp
    moreover have "c # rest < [positionDigits ! (digit c + 1)]"
      using True "2.prems" by (intro less_single) auto
    ultimately show ?thesis
      using True "2.prems" valid_key_single [of "digit c + 1"] by (simp add: valid_key_append)
  qed (use 2 in simp)
qed simp

lemma keyAfter_correct:
  "digits_only a \<Longrightarrow> a < keyAfter a \<and> valid_key (keyAfter a)"
  using keyAfter_from_Some [of "[]" a]
  by (auto simp: keyAfter_def valid_key_def less_append_nonempty split: option.splits)

lemma keyBefore_from_Some:
  "keyBefore_from pre b = Some k \<Longrightarrow> digits_only pre \<Longrightarrow> digits_only b \<Longrightarrow> k < pre @ b \<and> valid_key k"
proof (induction pre b rule: keyBefore_from.induct)
  case (2 pre c rest)
  consider (big) "digit c > 1" | (one) "digit c = 1" | (zero) "digit c = 0" by linarith
  then show ?case
  proof cases
    case big
    then have "k = pre @ [positionDigits ! (digit c - 1)]" using "2.prems" by simp
    moreover have "[positionDigits ! (digit c - 1)] < c # rest"
      using big "2.prems" by (intro single_less) auto
    moreover have "valid_key [positionDigits ! (digit c - 1)]"
      using big digit_less [of c] by (intro valid_key_single) linarith+
    ultimately show ?thesis using "2.prems" by (simp add: valid_key_append)
  next
    case one
    then have "k = pre @ ''0V''" using "2.prems" by simp
    moreover have "''0V'' < c # rest"
      using one "2.prems" digit_mono [of "CHR ''0''" c] by simp
    ultimately show ?thesis using "2.prems" by (simp add: valid_key_def)
  next
    case zero
    with 2 show ?thesis by simp
  qed
qed simp

lemma keyBefore_from_None: "keyBefore_from pre b = None \<Longrightarrow> digits_only b \<Longrightarrow> \<forall>c \<in> set b. c = CHR ''0''"
proof (induction pre b rule: keyBefore_from.induct)
  case (2 pre c rest)
  then show ?case using digit_pos_iff [of c] by (auto split: if_splits)
qed simp

lemma keyBefore_correct:
  assumes "valid_key b"
  shows "keyBefore b < b \<and> valid_key (keyBefore b)"
proof (cases "keyBefore_from [] b")
  case None
  moreover have "digits_only b" and "last b \<in> set b"
    using assms by (simp_all add: valid_key_def)
  ultimately have "last b = CHR ''0''"
    using keyBefore_from_None [of "[]" b] by blast
  with assms show ?thesis by (simp add: valid_key_def)
next
  case (Some k)
  then show ?thesis
    using keyBefore_from_Some [of "[]" b k] assms by (simp add: keyBefore_def valid_key_def)
qed

subsection \<open>KeyBetween\<close>

lemma KeyBetween_after: "digits_only a \<Longrightarrow> a < KeyBetween a [] \<and> valid_key (KeyBetween a [])"
  using keyAfter_correct by (simp add: KeyBetween_def)

lemma KeyBetween_bounded:
  assumes "digits_only a" and "valid_key b" and "a < b"
  shows "a < KeyBetween a b \<and> KeyBetween a b < b \<and> valid_key (KeyBetween a b)"
proof (cases "a = []")
  case True
  then show ?thesis
    using keyBefore_correct [OF assms(2)] assms by (auto simp: KeyBetween_def valid_key_def neq_Nil_conv)
next
  case False
  then show ?thesis
    using midpoint_between [OF assms] assms by (auto simp: KeyBetween_def valid_key_def)
qed

text \<open>
  What a component that keeps an ordered collection needs from its position keys: a key between
  any two neighbours and after the last one.  The client lemmas show that handing out keys one
  after another yields a strictly increasing list, and that an insertion keeps a list sorted.
\<close>

locale dense_keys =
  fixes between :: "'k::linorder \<Rightarrow> 'k \<Rightarrow> 'k"
    and after :: "'k \<Rightarrow> 'k"
    and ok :: "'k \<Rightarrow> bool"
  assumes between_less: "ok a \<Longrightarrow> ok b \<Longrightarrow> a < b \<Longrightarrow> a < between a b"
    and less_between: "ok a \<Longrightarrow> ok b \<Longrightarrow> a < b \<Longrightarrow> between a b < b"
    and ok_between: "ok a \<Longrightarrow> ok b \<Longrightarrow> a < b \<Longrightarrow> ok (between a b)"
    and after_less: "ok a \<Longrightarrow> a < after a"
    and ok_after: "ok a \<Longrightarrow> ok (after a)"
begin

fun chain :: "'k \<Rightarrow> nat \<Rightarrow> 'k list" where
  "chain prev 0 = []"
| "chain prev (Suc n) = after prev # chain (after prev) n"

lemma chain_length: "length (chain prev n) = n"
  by (induction n arbitrary: prev) auto

lemma chain_bounds: "ok prev \<Longrightarrow> k \<in> set (chain prev n) \<Longrightarrow> prev < k \<and> ok k"
proof (induction n arbitrary: prev)
  case (Suc n)
  have "prev < after prev" and "ok (after prev)"
    using after_less [OF Suc.prems(1)] ok_after [OF Suc.prems(1)] by auto
  with Suc show ?case
    by (metis chain.simps(2) order_less_trans set_ConsD)
qed simp

lemma chain_sorted: "ok prev \<Longrightarrow> sorted_wrt (<) (chain prev n)"
proof (induction n arbitrary: prev)
  case (Suc n)
  have "ok (after prev)" using ok_after [OF Suc.prems] .
  then show ?case
    using Suc.IH [of "after prev"] chain_bounds [of "after prev"] by auto
qed simp

lemma insert_between_sorted:
  assumes "sorted_wrt (<) (xs @ a # b # ys)" and "ok a" and "ok b"
  shows "sorted_wrt (<) (xs @ a # between a b # b # ys)"
proof -
  have "a < b" using assms(1) by (simp add: sorted_wrt_append)
  then have "a < between a b" and "between a b < b"
    using between_less less_between assms(2,3) by auto
  with assms(1) show ?thesis
    by (auto simp: sorted_wrt_append dest: order_less_trans)
qed

end

interpretation pos_keys: dense_keys KeyBetween "\<lambda>a. KeyBetween a []" valid_key
proof (unfold_locales, goal_cases)
  case (1 a b) then show ?case using KeyBetween_bounded by (auto simp: valid_key_def)
next
  case (2 a b) then show ?case using KeyBetween_bounded by (auto simp: valid_key_def)
next
  case (3 a b) then show ?case using KeyBetween_bounded by (auto simp: valid_key_def)
next
  case (4 a) then show ?case using KeyBetween_after by (auto simp: valid_key_def)
next
  case (5 a) then show ?case using KeyBetween_after by (auto simp: valid_key_def)
qed

lemma append_keys_chain: "append_keys prev n = pos_keys.chain prev n"
  by (induction n arbitrary: prev) auto

lemma append_keys_sorted:
  assumes "digits_only prev"
  shows "sorted_wrt (<) (append_keys prev n)" and "\<forall>k \<in> set (append_keys prev n). prev < k \<and> valid_key k"
proof -
  note first = KeyBetween_after [OF assms]
  have "sorted_wrt (<) (append_keys prev n) \<and> (\<forall>k \<in> set (append_keys prev n). prev < k \<and> valid_key k)"
  proof (cases n)
    case (Suc m)
    have "\<And>k. k \<in> set (pos_keys.chain (KeyBetween prev []) m) \<Longrightarrow> KeyBetween prev [] < k \<and> valid_key k"
      using pos_keys.chain_bounds first by blast
    then show ?thesis
      using Suc first pos_keys.chain_sorted [of "KeyBetween prev []" m]
      by (auto simp: append_keys_chain intro: order_less_trans)
  qed simp
  then show "sorted_wrt (<) (append_keys prev n)"
    and "\<forall>k \<in> set (append_keys prev n). prev < k \<and> valid_key k" by blast+
qed

subsection \<open>Properties\<close>

text \<open>
  C5.  \<open>KeyBetween\<close> yields a valid position key strictly after \<open>a\<close>, and strictly before \<open>b\<close> whenever
  the bounds are in order; with no upper bound or with inverted bounds it still lies after \<open>a\<close>.
\<close>

theorem KeyBetween_strict:
  assumes "digits_only a" and "b = [] \<or> valid_key b"
  shows "a < KeyBetween a b \<and> (a < b \<longrightarrow> KeyBetween a b < b) \<and> valid_key (KeyBetween a b)"
proof (cases "b \<noteq> [] \<and> a < b")
  case True
  then show ?thesis using KeyBetween_bounded [OF assms(1)] assms(2) by auto
next
  case False
  then have "KeyBetween a b = KeyBetween a []" and "\<not> a < b"
    by (auto simp: KeyBetween_def not_less)
  then show ?thesis using KeyBetween_after [OF assms(1)] by simp
qed

lemma KeyBetween_strict_witness:
  "''A'' < KeyBetween ''A'' ''B'' \<and> KeyBetween ''A'' ''B'' < ''B'' \<and> valid_key (KeyBetween ''A'' ''B'')"
proof -
  have "digits_only ''A''" and "valid_key ''B''" and "''A'' < ''B''" by code_simp+
  then show ?thesis using KeyBetween_strict [of "''A''" "''B''"] by blast
qed

text \<open>
  Keys keep a list in order.  Handing out keys with \<open>KeyBetween prev ""\<close> one after another
  gives strictly increasing valid keys, all of them after \<open>prev\<close>, and giving an item a key between
  two neighbours of a list in strict order keeps the list in strict order.
\<close>

theorem position_keys_sorted:
  assumes "digits_only prev" and "sorted_wrt (<) (xs @ a # b # ys)" and "valid_key a" and "valid_key b"
  shows "sorted_wrt (<) (prev # append_keys prev n) \<and> (\<forall>k \<in> set (append_keys prev n). valid_key k) \<and>
         length (append_keys prev n) = n \<and> sorted_wrt (<) (xs @ a # KeyBetween a b # b # ys)"
  using append_keys_sorted [OF assms(1)] pos_keys.insert_between_sorted [OF assms(2-4)]
    pos_keys.chain_length [of prev n]
  by (simp add: append_keys_chain [symmetric])

lemma position_keys_sorted_witness:
  "sorted_wrt (<) (''z'' # append_keys ''z'' 3) \<and> sorted_wrt (<) [''V'', KeyBetween ''V'' ''V1'', ''V1'']"
proof -
  have "digits_only ''z''" and "sorted_wrt (<) ([] @ ''V'' # ''V1'' # [])" and "valid_key ''V''"
    and "valid_key ''V1''" by code_simp+
  then show ?thesis
    using position_keys_sorted [of "''z''" "[]" "''V''" "''V1''" "[]" 3] by (simp only: append_Nil)
qed

end
