(* ===== verification/Ratelimit.thy ===== *)
theory Ratelimit
  imports Prelude "HOL-Library.AList" "HOL-Library.Word"
begin

text \<open>
  The rate limiter, \<open>internal/ratelimit/limiter.go\<close> and \<open>http.go\<close> with \<open>config.Rate\<close> of
  \<open>internal/config/types.go\<close>: the generic cell rate algorithm over a bounded table of theoretical
  arrival times.

  The Go map \<open>tat\<close> is an association list with distinct keys; its order is the (unspecified) order
  in which a range loop visits the map, so a statement about every such list covers every order.
  The mutex makes each method one atomic step, which is how the methods appear here: a function
  from the limiter to its result and the limiter afterwards, with the clock reading as an argument.
\<close>

subsection \<open>The code\<close>

record rate =
  Count :: int
  Per :: duration

definition Interval :: "rate \<Rightarrow> duration" where
  "Interval r = (if Count r \<le> 0 then Per r else go_div (Per r) (Count r))"

definition sweepEvery :: nat where
  "sweepEvery = 1024"

definition maxKeys :: nat where
  "maxKeys = 100000"

definition evictFraction :: nat where
  "evictFraction = 10"

record Decision =
  Allowed :: bool
  Limit :: int
  Remaining :: int
  RetryAfter :: duration
  Reset_in :: duration

record Limiter =
  limit :: int
  period :: duration
  interval :: duration
  tat :: "(string \<times> go_time) list"
  calls :: "64 word"
  lastSweep :: go_time

definition New :: "rate \<Rightarrow> Limiter" where
  "New r = \<lparr>limit = Count r, period = Per r, interval = Interval r, tat = [], calls = 0,
            lastSweep = zero_time\<rparr>"

definition expire :: "Limiter \<Rightarrow> go_time \<Rightarrow> Limiter" where
  "expire l now = l\<lparr>lastSweep := now, tat := filter (\<lambda>(k, t). t > now) (tat l)\<rparr>"

definition sweep :: "Limiter \<Rightarrow> go_time \<Rightarrow> Limiter" where
  "sweep l now =
     (let l1 = l\<lparr>calls := calls l + 1\<rparr> in
      if unat (calls l1) mod sweepEvery \<noteq> 0 then l1 else expire l1 now)"

definition evict :: "Limiter \<Rightarrow> go_time \<Rightarrow> Limiter" where
  "evict l now =
     (let l1 = expire l now in
      if length (tat l1) < maxKeys then l1
      else
        let all = sort_key snd (tat l1);
            victims = map fst (take (length all div evictFraction) all)
        in l1\<lparr>tat := fold AList.delete victims (tat l1)\<rparr>)"

definition remaining :: "Limiter \<Rightarrow> go_time \<Rightarrow> go_time \<Rightarrow> go_panic + int" where
  "remaining l now t =
     (if interval l = 0 then Inl DivideByZero
      else Inr (min (max (go_div (wrap64 (period l - time_sub t now)) (interval l)) 0) (limit l)))"

definition AllowN :: "Limiter \<Rightarrow> string \<Rightarrow> int \<Rightarrow> go_time \<Rightarrow> go_panic + (Decision \<times> Limiter)" where
  "AllowN l0 key n now =
     (let l1 = sweep l0 now;
          found = map_of (tat l1) key;
          l = (if found = None \<and> length (tat l1) \<ge> maxKeys then evict l1 now else l1);
          t0 = (case found of None \<Rightarrow> zero_time | Some t \<Rightarrow> t);
          t = (if t0 < now then now else t0);
          next = t + wrap64 (n * interval l);
          allowAt = next + wrap64 (- period l)
      in if now < allowAt
         then (case remaining l now t of
                 Inl p \<Rightarrow> Inl p
               | Inr r \<Rightarrow> Inr (\<lparr>Allowed = False, Limit = limit l, Remaining = r,
                                RetryAfter = time_sub allowAt now, Reset_in = time_sub t now\<rparr>, l))
         else let l' = l\<lparr>tat := AList.update key next (tat l)\<rparr> in
              (case remaining l' now next of
                 Inl p \<Rightarrow> Inl p
               | Inr r \<Rightarrow> Inr (\<lparr>Allowed = True, Limit = limit l, Remaining = r,
                                RetryAfter = 0, Reset_in = time_sub next now\<rparr>, l')))"

definition Allow :: "Limiter \<Rightarrow> string \<Rightarrow> go_time \<Rightarrow> go_panic + (Decision \<times> Limiter)" where
  "Allow l key now = AllowN l key 1 now"

text \<open>\<open>Check\<close> returns \<open>nil\<close> or the retry delay inside the error.\<close>

definition Check_limit :: "Limiter \<Rightarrow> string \<Rightarrow> go_time \<Rightarrow> go_panic + (duration option \<times> Limiter)" where
  "Check_limit l key now =
     (case Allow l key now of
        Inl p \<Rightarrow> Inl p
      | Inr (d, l') \<Rightarrow> Inr (if \<not> Allowed d then Some (RetryAfter d) else None, l'))"

definition Blocked :: "Limiter \<Rightarrow> string \<Rightarrow> go_time \<Rightarrow> duration \<times> bool" where
  "Blocked l key now =
     (case map_of (tat l) key of
        None \<Rightarrow> (0, False)
      | Some t \<Rightarrow> let wait = time_sub (t + wrap64 (interval l - period l)) now in (wait, wait > 0))"

definition Reset :: "Limiter \<Rightarrow> string \<Rightarrow> Limiter" where
  "Reset l key = l\<lparr>tat := AList.delete key (tat l)\<rparr>"

definition Len :: "Limiter \<Rightarrow> nat" where
  "Len l = length (tat l)"

definition ceilSeconds :: "duration \<Rightarrow> int" where
  "ceilSeconds d = go_div (wrap64 (wrap64 (d + second) - 1)) second"

definition Seconds :: "duration \<Rightarrow> int" where
  "Seconds d = max 1 (ceilSeconds d)"

type_synonym header = "(string \<times> string) list"

definition SetHeaders :: "header \<Rightarrow> Decision \<Rightarrow> header" where
  "SetHeaders h d =
     AList.update ''RateLimit-Reset'' (itoa (ceilSeconds (Reset_in d)))
       (AList.update ''RateLimit-Remaining'' (itoa (Remaining d))
         (AList.update ''RateLimit-Limit'' (itoa (Limit d)) h))"

definition SetRetryAfter :: "header \<Rightarrow> duration \<Rightarrow> header" where
  "SetRetryAfter h d = AList.update ''Retry-After'' (itoa (Seconds d)) h"

text \<open>What the middleware does with one request: hand it on, or fail with the retry delay.\<close>

datatype served = Next | Fail duration

definition Middleware ::
  "Limiter \<Rightarrow> ('r \<Rightarrow> string) \<Rightarrow> 'r \<Rightarrow> header \<Rightarrow> go_time \<Rightarrow> go_panic + (served \<times> header \<times> Limiter)" where
  "Middleware l key r h now =
     (let k = key r in
      if k = [] then Inr (Next, h, l)
      else (case Allow l k now of
              Inl p \<Rightarrow> Inl p
            | Inr (d, l') \<Rightarrow>
                let h1 = SetHeaders h d in
                if \<not> Allowed d then Inr (Fail (RetryAfter d), SetRetryAfter h1 (RetryAfter d), l')
                else Inr (Next, h1, l')))"

text \<open>A run of the limiter: one \<open>Allow\<close> per (time, key), with the decisions in order.\<close>

fun run :: "Limiter \<Rightarrow> (go_time \<times> string) list \<Rightarrow> go_panic + (Decision list \<times> Limiter)" where
  "run l [] = Inr ([], l)"
| "run l ((now, k) # cs) =
     (case Allow l k now of
        Inl p \<Rightarrow> Inl p
      | Inr (d, l') \<Rightarrow>
          (case run l' cs of Inl p \<Rightarrow> Inl p | Inr (ds, l'') \<Rightarrow> Inr (d # ds, l'')))"

text \<open>The times at which a run admitted a key.\<close>

definition hits :: "string \<Rightarrow> (go_time \<times> string) list \<Rightarrow> bool list \<Rightarrow> go_time list" where
  "hits k cs bs = map (fst \<circ> fst) (filter (\<lambda>(c, b). snd c = k \<and> b) (zip cs bs))"

subsection \<open>The invariant\<close>

text \<open>The configurations the service builds: a positive rate whose interval fits the period.\<close>

definition rate_ok :: "rate \<Rightarrow> bool" where
  "rate_ok r \<longleftrightarrow> 0 < Count r \<and> Count r \<le> Per r \<and> Per r \<le> max_int64"

definition limiter_wf :: "Limiter \<Rightarrow> bool" where
  "limiter_wf l \<longleftrightarrow> 0 < interval l \<and> interval l \<le> period l \<and> period l \<le> max_int64 \<and>
     0 \<le> limit l \<and> distinct (map fst (tat l)) \<and> length (tat l) \<le> maxKeys"

lemma Interval_ok: "rate_ok r \<Longrightarrow> 0 < Interval r \<and> Interval r \<le> Per r"
proof -
  assume r: "rate_ok r"
  then have "Interval r = Per r div Count r"
    by (simp add: Interval_def rate_ok_def go_div_nonneg)
  moreover have "0 < Per r div Count r"
    using r by (simp add: rate_ok_def pos_imp_zdiv_pos_iff)
  moreover have "Per r div Count r \<le> Per r"
    using zdiv_mono2 [of "Per r" 1 "Count r"] r by (simp add: rate_ok_def)
  ultimately show ?thesis by simp
qed

lemma New_wf: "rate_ok r \<Longrightarrow> limiter_wf (New r)"
  using Interval_ok [of r] by (simp add: limiter_wf_def New_def rate_ok_def)

lemma distinct_filter_fst: "distinct (map fst xs) \<Longrightarrow> distinct (map fst (filter P xs))"
  by (induction xs) auto

lemma map_of_filter_distinct:
  "distinct (map fst xs) \<Longrightarrow>
     map_of (filter (\<lambda>(k, t). P t) xs) k =
       (case map_of xs k of None \<Rightarrow> None | Some t \<Rightarrow> if P t then Some t else None)"
  by (induction xs) (auto simp: map_of_eq_None_iff image_iff split: option.splits)

lemma expire_simps [simp]:
  "limit (expire l now) = limit l" "period (expire l now) = period l"
  "interval (expire l now) = interval l"
  by (simp_all add: expire_def)

lemma sweep_simps [simp]:
  "limit (sweep l now) = limit l" "period (sweep l now) = period l"
  "interval (sweep l now) = interval l"
  by (simp_all add: sweep_def Let_def)

lemma evict_simps [simp]:
  "limit (evict l now) = limit l" "period (evict l now) = period l"
  "interval (evict l now) = interval l"
  by (simp_all add: evict_def Let_def)

lemma expire_wf: "limiter_wf l \<Longrightarrow> limiter_wf (expire l now)"
  by (auto simp: limiter_wf_def expire_def distinct_filter_fst intro: le_trans [OF length_filter_le])

lemma sweep_wf: "limiter_wf l \<Longrightarrow> limiter_wf (sweep l now)"
proof -
  assume "limiter_wf l"
  then have "limiter_wf (l\<lparr>calls := calls l + 1\<rparr>)" by (simp add: limiter_wf_def)
  then show ?thesis by (simp add: sweep_def Let_def expire_wf)
qed

lemma sweep_length: "length (tat (sweep l now)) \<le> length (tat l)"
  by (simp add: sweep_def Let_def expire_def)

lemma delete_length: "length (AList.delete k xs) \<le> length xs"
  by (simp add: AList.delete_eq)

lemma fold_delete_length: "length (fold AList.delete ks xs) \<le> length xs"
  by (induction ks arbitrary: xs) (auto intro: le_trans delete_length)

lemma fold_delete_distinct: "distinct (map fst xs) \<Longrightarrow> distinct (map fst (fold AList.delete ks xs))"
  by (induction ks arbitrary: xs) (auto simp: AList.distinct_delete)

lemma delete_length_known:
  "distinct (map fst xs) \<Longrightarrow> k \<in> fst ` set xs \<Longrightarrow> Suc (length (AList.delete k xs)) = length xs"
proof (induction xs)
  case (Cons x xs)
  show ?case
  proof (cases "fst x = k")
    case True
    then have "k \<notin> fst ` set xs" using Cons.prems by auto
    with True show ?thesis by (cases x) (simp add: AList.delete_id)
  next
    case False
    with Cons show ?thesis by (cases x) (simp add: AList.delete_eq)
  qed
qed simp

lemma fold_delete_removes:
  "distinct (map fst xs) \<Longrightarrow> distinct ks \<Longrightarrow> set ks \<subseteq> fst ` set xs \<Longrightarrow>
     length (fold AList.delete ks xs) + length ks = length xs"
proof (induction ks arbitrary: xs)
  case (Cons k ks)
  have "Suc (length (AList.delete k xs)) = length xs"
    using Cons.prems by (intro delete_length_known) auto
  moreover have "set ks \<subseteq> fst ` set (AList.delete k xs)"
    using Cons.prems by (auto simp: AList.delete_eq image_iff) force+
  ultimately show ?case
    using Cons.IH [of "AList.delete k xs"] Cons.prems by (simp add: AList.distinct_delete)
qed simp

lemma evict_wf: "limiter_wf l \<Longrightarrow> limiter_wf (evict l now)"
  using expire_wf [of l now]
  by (auto simp: evict_def Let_def limiter_wf_def fold_delete_distinct
      intro: le_trans [OF fold_delete_length])

text \<open>Eviction makes room: the table is below its bound afterwards.\<close>

lemma evict_room:
  assumes "limiter_wf l"
  shows "length (tat (evict l now)) < maxKeys"
proof (cases "length (tat (expire l now)) < maxKeys")
  case False
  let ?xs = "tat (expire l now)"
  let ?all = "sort_key snd ?xs"
  let ?ks = "map fst (take (length ?all div evictFraction) ?all)"
  have wf: "limiter_wf (expire l now)" using expire_wf [OF assms] .
  then have len: "length ?xs = maxKeys" and d: "distinct (map fst ?xs)"
    using False by (auto simp: limiter_wf_def)
  have "distinct (map fst ?all)"
    using d distinct_map by (metis distinct_map distinct_sort set_sort)
  then have "distinct ?ks" by (metis distinct_take take_map)
  moreover have "set ?ks \<subseteq> fst ` set ?xs"
    using set_take_subset [of _ ?all] by (force simp: image_iff)
  ultimately have "length (fold AList.delete ?ks ?xs) + length ?ks = length ?xs"
    using fold_delete_removes [OF d] by blast
  moreover have "0 < length ?ks"
    using len by (simp add: maxKeys_def evictFraction_def)
  ultimately show ?thesis
    using False len by (simp add: evict_def Let_def)
qed (simp add: evict_def Let_def)

lemma AList_update_length: "length (AList.update k v xs) \<le> Suc (length xs)"
  by (induction xs) auto

lemma AList_update_length_known: "k \<in> fst ` set xs \<Longrightarrow> length (AList.update k v xs) = length xs"
  by (induction xs) auto

subsection \<open>One admission\<close>

text \<open>
  The arrival time a key has at an instant, with a missing or past entry read as the instant
  itself.  The admission test and the new entry depend on the table only through it.
\<close>

definition tat_at :: "Limiter \<Rightarrow> string \<Rightarrow> go_time \<Rightarrow> go_time" where
  "tat_at l key now = max now (case map_of (tat l) key of None \<Rightarrow> zero_time | Some t \<Rightarrow> t)"

lemma tat_at_expire:
  assumes "distinct (map fst (tat l))" and "now \<le> now'" and "zero_time \<le> now'"
  shows "tat_at (expire l now) key now' = tat_at l key now'"
  using assms
  by (auto simp: tat_at_def expire_def map_of_filter_distinct split: option.splits)

lemma tat_at_sweep:
  assumes "distinct (map fst (tat l))" and "now \<le> now'" and "zero_time \<le> now'"
  shows "tat_at (sweep l now) key now' = tat_at l key now'"
proof -
  have "tat_at (l\<lparr>calls := c\<rparr>) key now' = tat_at l key now'" for c
    by (simp add: tat_at_def)
  then show ?thesis
    using tat_at_expire [of "l\<lparr>calls := calls l + 1\<rparr>" now now' key] assms
    by (simp add: sweep_def Let_def)
qed

lemma wf_wraps:
  assumes "limiter_wf l"
  shows "wrap64 (interval l) = interval l" and "wrap64 (- period l) = - period l"
    and "wrap64 (interval l - period l) = interval l - period l"
  using assms by (auto simp: limiter_wf_def min_int64_def max_int64_def intro!: wrap64_id)

text \<open>The limiter the admission test works on: swept, and with room made for a new key.\<close>

definition prepared :: "Limiter \<Rightarrow> string \<Rightarrow> go_time \<Rightarrow> Limiter" where
  "prepared l key now =
     (let l1 = sweep l now in
      if map_of (tat l1) key = None \<and> length (tat l1) \<ge> maxKeys then evict l1 now else l1)"

lemma prepared_simps [simp]:
  "limit (prepared l k now) = limit l" "period (prepared l k now) = period l"
  "interval (prepared l k now) = interval l"
  by (simp_all add: prepared_def Let_def)

lemma prepared_wf: "limiter_wf l \<Longrightarrow> limiter_wf (prepared l key now)"
  using sweep_wf [of l now] evict_wf by (simp add: prepared_def Let_def)

lemma remaining_wf:
  "limiter_wf l \<Longrightarrow> \<exists>r. remaining l now t = Inr r \<and> 0 \<le> r \<and> r \<le> limit l"
  by (auto simp: remaining_def limiter_wf_def)

lemma remaining_update [simp]: "remaining (l\<lparr>tat := xs\<rparr>) now t = remaining l now t"
  by (simp add: remaining_def)

lemma max_now_tat:
  "zero_time \<le> now \<Longrightarrow>
     (if (case m of None \<Rightarrow> zero_time | Some t \<Rightarrow> t) < now then now
      else (case m of None \<Rightarrow> zero_time | Some t \<Rightarrow> t)) =
     max now (case m of None \<Rightarrow> zero_time | Some t \<Rightarrow> t)"
  by (auto split: option.splits)

lemma Allow_step:
  fixes l :: Limiter and key :: string
  assumes wf: "limiter_wf l" and now: "zero_time \<le> now"
  defines "t \<equiv> tat_at l key now"
  defines "lp \<equiv> prepared l key now"
  shows "\<exists>d. Allow l key now =
           Inr (d, if t + interval l \<le> now + period l
                   then lp\<lparr>tat := AList.update key (t + interval l) (tat lp)\<rparr> else lp) \<and>
         Allowed d = (t + interval l \<le> now + period l) \<and>
         Limit d = limit l \<and> 0 \<le> Remaining d \<and> Remaining d \<le> limit l \<and>
         (\<not> Allowed d \<longrightarrow> RetryAfter d = time_sub (t + interval l - period l) now) \<and>
         (Allowed d \<longrightarrow> remaining l now (t + interval l) = Inr (Remaining d))"
proof -
  have wf_s: "limiter_wf (sweep l now)" using sweep_wf [OF wf] .
  have wf_p: "limiter_wf lp" unfolding lp_def using prepared_wf [OF wf] .
  have "distinct (map fst (tat l))" using wf by (simp add: limiter_wf_def)
  then have "t = max now (case map_of (tat (sweep l now)) key of None \<Rightarrow> zero_time | Some x \<Rightarrow> x)"
    using tat_at_sweep [of l now now key] now by (simp add: t_def tat_at_def)
  moreover obtain r1 where "remaining lp now t = Inr r1" "0 \<le> r1" "r1 \<le> limit l"
    using remaining_wf [OF wf_p, of now t] by (auto simp: lp_def)
  moreover obtain r2 where "remaining lp now (t + interval l) = Inr r2" "0 \<le> r2" "r2 \<le> limit l"
    using remaining_wf [OF wf_p, of now "t + interval l"] by (auto simp: lp_def)
  moreover have "remaining lp now x = remaining l now x" for x
    by (simp add: remaining_def lp_def)
  moreover have "interval lp = interval l" "period lp = period l" "limit lp = limit l"
    by (simp_all add: lp_def)
  ultimately show ?thesis
    using wf_wraps [OF wf] max_now_tat [OF now, of "map_of (tat (sweep l now)) key"]
    by (auto simp: Allow_def AllowN_def Let_def lp_def prepared_def not_less)
qed

lemma prepared_length:
  assumes "limiter_wf l"
  shows "map_of (tat (prepared l key now)) key = None \<Longrightarrow> length (tat (prepared l key now)) < maxKeys"
  using assms evict_room [OF sweep_wf [OF assms], of now now]
  by (auto simp: prepared_def Let_def split: if_splits)

lemma Allow_wf:
  assumes wf: "limiter_wf l" and now: "zero_time \<le> now" and res: "Allow l key now = Inr (d, l')"
  shows "limiter_wf l'"
proof -
  let ?lp = "prepared l key now"
  have wf_p: "limiter_wf ?lp" using prepared_wf [OF wf] .
  have "length (AList.update key t (tat ?lp)) \<le> maxKeys" for t
  proof (cases "map_of (tat ?lp) key")
    case None
    then show ?thesis
      using prepared_length [OF wf, of key now] AList_update_length [of key t "tat ?lp"] by linarith
  next
    case (Some u)
    then have "key \<in> fst ` set (tat ?lp)" by (force dest: map_of_SomeD)
    then show ?thesis using wf_p by (simp add: AList_update_length_known limiter_wf_def)
  qed
  moreover have "distinct (map fst (AList.update key t (tat ?lp)))" for t
    using wf_p by (simp add: limiter_wf_def AList.distinct_update)
  ultimately show ?thesis
    using Allow_step [OF wf now, of key] res wf_p by (auto simp: limiter_wf_def)
qed

text \<open>With fewer keys than the bound nothing is evicted, and an admission moves one entry only.\<close>

lemma Allow_tat_at:
  assumes wf: "limiter_wf l" and now: "zero_time \<le> now" "now \<le> now'"
    and room: "map_of (tat l) key \<noteq> None \<or> length (tat l) < maxKeys"
    and res: "Allow l key now = Inr (d, l')"
  shows "tat_at l' k now' =
           (if Allowed d \<and> k = key then max now' (tat_at l key now + interval l) else tat_at l k now')"
proof -
  have d: "distinct (map fst (tat l))" using wf by (simp add: limiter_wf_def)
  have now'0: "zero_time \<le> now'" using now by simp
  have swept: "tat_at (prepared l key now) k now' = tat_at l k now'"
  proof (cases "map_of (tat (sweep l now)) key = None \<and> length (tat (sweep l now)) \<ge> maxKeys")
    case True
    then have full: "length (tat l) \<ge> maxKeys" using sweep_length [of l now] by linarith
    then have some: "map_of (tat l) key \<noteq> None" using room by auto
    then have "tat (sweep l now) \<noteq> tat l" using True by metis
    then have "sweep l now = expire (l\<lparr>calls := calls l + 1\<rparr>) now"
      by (auto simp: sweep_def Let_def split: if_splits)
    then have "length (tat (sweep l now)) < length (tat l)"
      using \<open>tat (sweep l now) \<noteq> tat l\<close>
      by (auto simp: expire_def) (metis (no_types, lifting) filter_id_conv length_filter_less nless_le length_filter_le)
    with True wf show ?thesis by (auto simp: limiter_wf_def)
  next
    case False
    then have "prepared l key now = sweep l now" by (auto simp: prepared_def Let_def)
    then show ?thesis using tat_at_sweep [OF d now(2) now'0] by simp
  qed
  have upd: "tat_at (x\<lparr>tat := AList.update key v (tat x)\<rparr>) k now' =
      (if k = key then max now' v else tat_at x k now')" for x v
    by (simp add: tat_at_def AList.update_conv')
  show ?thesis
    using Allow_step [OF wf now(1), of key] res swept upd by (auto split: if_splits)
qed

subsection \<open>The admission contract\<close>

text \<open>
  What a client may rely on: every key has an arrival time, a request is admitted when the arrival
  time plus one interval is at most one period ahead, and an admission moves the arrival time of
  its key by one interval.  From these laws alone follows the bound on the number of admissions in
  any window.
\<close>

locale rate_gate =
  fixes adm :: "'s \<Rightarrow> int \<Rightarrow> string \<Rightarrow> bool \<times> 's"
    and arr :: "'s \<Rightarrow> string \<Rightarrow> int \<Rightarrow> int"
    and inv :: "'s \<Rightarrow> bool"
    and K :: "string set"
    and I :: int
    and P :: int
    and origin :: int
  assumes arr_ge: "now \<le> arr s k now"
    and arr_mono: "now \<le> now' \<Longrightarrow> arr s k now \<le> arr s k now'"
    and adm_iff: "inv s \<Longrightarrow> k \<in> K \<Longrightarrow> origin \<le> now \<Longrightarrow> fst (adm s now k) \<longleftrightarrow> arr s k now + I \<le> now + P"
    and adm_inv: "inv s \<Longrightarrow> k \<in> K \<Longrightarrow> origin \<le> now \<Longrightarrow> inv (snd (adm s now k))"
    and adm_arr: "inv s \<Longrightarrow> k \<in> K \<Longrightarrow> origin \<le> now \<Longrightarrow> now \<le> now' \<Longrightarrow>
      arr (snd (adm s now k)) k' now' =
        (if fst (adm s now k) \<and> k' = k then max now' (arr s k now + I) else arr s k' now')"
begin

fun drive :: "'s \<Rightarrow> (int \<times> string) list \<Rightarrow> bool list" where
  "drive s [] = []"
| "drive s ((now, k) # cs) = fst (adm s now k) # drive (snd (adm s now k)) cs"

definition legal :: "int \<Rightarrow> (int \<times> string) list \<Rightarrow> bool" where
  "legal t0 cs \<longleftrightarrow> sorted (t0 # map fst cs) \<and> snd ` set cs \<subseteq> K \<and> origin \<le> t0"

lemma legal_Cons: "legal t0 ((now, k) # cs) \<longleftrightarrow> t0 \<le> now \<and> k \<in> K \<and> origin \<le> t0 \<and> legal now cs"
  by (auto simp: legal_def)

lemma hits_Cons:
  "hits key ((now, k) # cs) (b # bs) = (if k = key \<and> b then now # hits key cs bs else hits key cs bs)"
  by (simp add: hits_def)

lemma drive_from_arrival:
  "inv s \<Longrightarrow> legal t0 cs \<Longrightarrow> j < length (hits key cs (drive s cs)) \<Longrightarrow> 0 \<le> I \<Longrightarrow>
     arr s key t0 + (int j + 1) * I \<le> hits key cs (drive s cs) ! j + P"
proof (induction cs arbitrary: s t0 j)
  case Nil
  then show ?case by (simp add: hits_def)
next
  case (Cons c cs)
  obtain now k where c: "c = (now, k)" by force
  have l: "t0 \<le> now" "k \<in> K" "origin \<le> now" "legal now cs"
    using Cons.prems(2) by (auto simp: c legal_Cons)
  let ?s = "snd (adm s now k)"
  have inv: "inv ?s" using adm_inv [OF Cons.prems(1) l(2,3)] .
  note step = adm_arr [OF Cons.prems(1) l(2,3), of now key]
  have mono: "arr s key t0 \<le> arr s key now" using arr_mono [OF l(1)] .
  show ?case
  proof (cases "k = key \<and> fst (adm s now k)")
    case True
    show ?thesis
    proof (cases j)
      case 0
      have "arr s key now + I \<le> now + P" using adm_iff [OF Cons.prems(1) l(2,3)] True by blast
      moreover have "hits key (c # cs) (drive s (c # cs)) ! j = now" using 0 True by (auto simp: c hits_Cons)
      ultimately show ?thesis using 0 mono by simp
    next
      case (Suc j')
      then have "j' < length (hits key cs (drive ?s cs))"
        using Cons.prems(3) True by (auto simp: c hits_Cons)
      then have "arr ?s key now + (int j' + 1) * I \<le> hits key cs (drive ?s cs) ! j' + P"
        using Cons.IH [OF inv l(4)] Cons.prems(4) by blast
      moreover have "arr s key now + I \<le> arr ?s key now" using step True by auto
      ultimately show ?thesis using mono Suc True by (auto simp: c hits_Cons algebra_simps)
    qed
  next
    case False
    then have "arr ?s key now = arr s key now" using step by auto
    moreover have "j < length (hits key cs (drive ?s cs))"
      using Cons.prems(3) False by (auto simp: c hits_Cons)
    ultimately have "arr s key now + (int j + 1) * I \<le> hits key cs (drive ?s cs) ! j + P"
      using Cons.IH [OF inv l(4)] Cons.prems(4) by metis
    with False mono show ?thesis by (auto simp: c hits_Cons)
  qed
qed

lemma drive_window:
  "inv s \<Longrightarrow> legal t0 cs \<Longrightarrow> 0 \<le> I \<Longrightarrow> i \<le> j \<Longrightarrow> j < length (hits key cs (drive s cs)) \<Longrightarrow>
     (int j - int i + 1) * I \<le> hits key cs (drive s cs) ! j - hits key cs (drive s cs) ! i + P"
proof (induction cs arbitrary: s t0 i j)
  case Nil
  then show ?case by (simp add: hits_def)
next
  case (Cons c cs)
  obtain now k where c: "c = (now, k)" by force
  have l: "k \<in> K" "origin \<le> now" "legal now cs" "legal now (c # cs)"
    using Cons.prems(2) by (auto simp: c legal_Cons)
  let ?s = "snd (adm s now k)"
  let ?h = "hits key cs (drive ?s cs)"
  have inv: "inv ?s" using adm_inv [OF Cons.prems(1) l(1,2)] .
  show ?case
  proof (cases "k = key \<and> fst (adm s now k)")
    case False
    then have eq: "hits key (c # cs) (drive s (c # cs)) = ?h" by (auto simp: c hits_Cons)
    then have "j < length ?h" using Cons.prems(5) by metis
    with Cons.IH [OF inv l(3) Cons.prems(3,4)] show ?thesis unfolding eq .
  next
    case True
    then have eq: "hits key (c # cs) (drive s (c # cs)) = now # ?h" by (auto simp: c hits_Cons)
    show ?thesis
    proof (cases i)
      case 0
      have "arr s key now + (int j + 1) * I \<le> (now # ?h) ! j + P"
        using drive_from_arrival [OF Cons.prems(1) l(4) Cons.prems(5,3)] unfolding eq .
      then show ?thesis using arr_ge [of now s key] 0 unfolding eq by simp
    next
      case (Suc i')
      then obtain j' where j: "j = Suc j'" using Cons.prems(4) by (cases j) auto
      then have "j' < length ?h" using Cons.prems(5) unfolding eq by simp
      then show ?thesis
        using Cons.IH [OF inv l(3) Cons.prems(3), of i' j'] Cons.prems(4) Suc j unfolding eq by simp
    qed
  qed
qed

text \<open>Simultaneous requests of one key: a prefix is admitted, as long as the period allows.\<close>

lemma drive_burst:
  "inv s \<Longrightarrow> k \<in> K \<Longrightarrow> origin \<le> now \<Longrightarrow> 0 \<le> I \<Longrightarrow>
     drive s (replicate n (now, k)) = map (\<lambda>i. arr s k now + (int i + 1) * I \<le> now + P) [0..<n]"
proof (induction n arbitrary: s)
  case (Suc n)
  let ?s = "snd (adm s now k)"
  have inv: "inv ?s" using adm_inv [OF Suc.prems(1,2,3)] .
  have iff: "fst (adm s now k) \<longleftrightarrow> arr s k now + I \<le> now + P"
    using adm_iff [OF Suc.prems(1,2,3)] .
  have arr: "arr ?s k now = (if arr s k now + I \<le> now + P then arr s k now + I else arr s k now)"
    using adm_arr [OF Suc.prems(1,2,3), of now k] iff arr_ge [of now s k] Suc.prems(4) by simp
  have step: "arr ?s k now + (int i + 1) * I \<le> now + P \<longleftrightarrow> arr s k now + (int (Suc i) + 1) * I \<le> now + P" for i
  proof -
    have "0 \<le> int i * I" using Suc.prems(4) by simp
    moreover have "arr s k now + (int (Suc i) + 1) * I = arr s k now + int i * I + I + I"
      "arr s k now + (int i + 1) * I = arr s k now + int i * I + I" by (simp_all add: algebra_simps)
    ultimately show ?thesis unfolding arr using Suc.prems(4) by (smt (verit))
  qed
  show ?case
    using Suc.IH [OF inv Suc.prems(2,3,4)]
    by (simp add: iff step upt_conv_Cons map_Suc_upt [symmetric] del: upt_Suc)
qed simp

end

subsection \<open>The limiter fulfils the contract\<close>

definition gate :: "Limiter \<Rightarrow> go_time \<Rightarrow> string \<Rightarrow> bool \<times> Limiter" where
  "gate l now k = (case Allow l k now of Inl p \<Rightarrow> (False, l) | Inr (d, l') \<Rightarrow> (Allowed d, l'))"

text \<open>A limiter of a given rate whose table holds keys of \<open>K\<close> only, with \<open>K\<close> within the bound.\<close>

definition limiter_for :: "string set \<Rightarrow> int \<Rightarrow> int \<Rightarrow> Limiter \<Rightarrow> bool" where
  "limiter_for K i p l \<longleftrightarrow> limiter_wf l \<and> interval l = i \<and> period l = p \<and>
     fst ` set (tat l) \<subseteq> K \<and> finite K \<and> card K \<le> maxKeys"

lemma fold_delete_subset: "set (fold AList.delete ks xs) \<subseteq> set xs"
proof (induction ks arbitrary: xs)
  case (Cons k ks)
  have "set (AList.delete k xs) \<subseteq> set xs" by (auto simp: AList.delete_eq)
  with Cons.IH [of "AList.delete k xs"] show ?case by auto
qed simp

lemma prepared_keys: "fst ` set (tat (prepared l k now)) \<subseteq> fst ` set (tat l)"
proof -
  have e: "fst ` set (tat (expire x now)) \<subseteq> fst ` set (tat x)" for x
    by (auto simp: expire_def)
  have s: "fst ` set (tat (sweep x now)) \<subseteq> fst ` set (tat x)" for x
    using e [of "x\<lparr>calls := calls x + 1\<rparr>"] by (simp add: sweep_def Let_def)
  have "fst ` set (tat (evict x now)) \<subseteq> fst ` set (tat (expire x now))" for x
    by (simp add: evict_def Let_def image_mono [OF fold_delete_subset])
  then have "fst ` set (tat (evict x now)) \<subseteq> fst ` set (tat x)" for x
    using e [of x] by blast
  then have "fst ` set (tat (evict (sweep l now) now)) \<subseteq> fst ` set (tat l)"
    using s [of l] by (rule order_trans)
  with s [of l] show ?thesis by (simp add: prepared_def Let_def)
qed

lemma limiter_for_room:
  assumes "limiter_for K i p l" and "k \<in> K"
  shows "map_of (tat l) k \<noteq> None \<or> length (tat l) < maxKeys"
proof (rule disjCI)
  assume "\<not> length (tat l) < maxKeys"
  then have len: "length (tat l) = maxKeys"
    using assms(1) by (simp add: limiter_for_def limiter_wf_def)
  have d: "distinct (map fst (tat l))"
    using assms(1) by (simp add: limiter_for_def limiter_wf_def)
  have "card (fst ` set (tat l)) = maxKeys"
    using distinct_card [OF d] len by simp
  then have "fst ` set (tat l) = K"
    using assms(1) by (intro card_seteq) (auto simp: limiter_for_def)
  then show "map_of (tat l) k \<noteq> None"
    using assms(2) by (auto simp: map_of_eq_None_iff)
qed

lemma AList_update_keys: "fst ` set (AList.update k v xs) = insert k (fst ` set xs)"
  using AList.dom_update [of k v xs] by simp

lemma Allow_limiter_for:
  assumes "limiter_for K i p l" and "k \<in> K" and "zero_time \<le> now" and "Allow l k now = Inr (d, l')"
  shows "limiter_for K i p l'"
proof -
  have wf: "limiter_wf l" using assms(1) by (simp add: limiter_for_def)
  have wf': "limiter_wf l'" using Allow_wf [OF wf assms(3,4)] .
  have "fst ` set (tat l') \<subseteq> K"
    using Allow_step [OF wf assms(3), of k] assms prepared_keys [of l k now]
    by (auto simp: limiter_for_def AList_update_keys simp del: set_map split: if_splits)
  moreover have "interval l' = interval l" "period l' = period l"
    using Allow_step [OF wf assms(3), of k] assms(4) by (auto split: if_splits)
  ultimately show ?thesis using assms(1) wf' by (simp add: limiter_for_def)
qed

interpretation gcra: rate_gate gate tat_at "limiter_for K i p" K i p zero_time for K i p
proof (unfold_locales, goal_cases)
  case (1 now s k) then show ?case by (simp add: tat_at_def)
next
  case (2 now now' s k) then show ?case by (simp add: tat_at_def)
next
  case (3 s k now)
  then show ?case
    using Allow_step [of s now k] by (auto simp: gate_def limiter_for_def)
next
  case (4 s k now)
  then show ?case
    using Allow_step [of s now k] Allow_limiter_for [of K i p s k now]
    by (fastforce simp: gate_def limiter_for_def split: sum.splits)
next
  case (5 s k now now' k')
  then obtain d l' where r: "Allow s k now = Inr (d, l')"
    using Allow_step [of s now k] by (auto simp: limiter_for_def)
  have wf: "limiter_wf s" and i: "interval s = i" using 5 by (simp_all add: limiter_for_def)
  show ?case
    using Allow_tat_at [OF wf 5(3,4) limiter_for_room [OF 5(1,2)] r, of k'] r i by (simp add: gate_def)
qed

lemma limiter_for_New:
  "rate_ok r \<Longrightarrow> finite K \<Longrightarrow> card K \<le> maxKeys \<Longrightarrow> limiter_for K (Interval r) (Per r) (New r)"
  using New_wf [of r] by (simp add: limiter_for_def New_def)

lemma run_drive:
  "limiter_for K i p l \<Longrightarrow> snd ` set cs \<subseteq> K \<Longrightarrow> \<forall>t \<in> fst ` set cs. zero_time \<le> t \<Longrightarrow>
     \<exists>ds l'. run l cs = Inr (ds, l') \<and> map Allowed ds = gcra.drive l cs \<and> limiter_for K i p l'"
proof (induction cs arbitrary: l)
  case (Cons c cs)
  obtain now k where c: "c = (now, k)" by force
  then have l: "k \<in> K" "zero_time \<le> now" "snd ` set cs \<subseteq> K" "\<forall>t \<in> fst ` set cs. zero_time \<le> t"
    using Cons.prems by auto
  obtain d l' where r: "Allow l k now = Inr (d, l')"
    using Allow_step [of l now k] Cons.prems(1) l(2) by (auto simp: limiter_for_def)
  have "limiter_for K i p l'" using Allow_limiter_for [OF Cons.prems(1) l(1,2) r] .
  moreover have "gate l now k = (Allowed d, l')" using r by (simp add: gate_def)
  ultimately show ?case using r Cons.IH [OF _ l(3,4)] by (fastforce simp: c)
qed simp

lemma run_total:
  "limiter_wf l \<Longrightarrow> \<forall>t \<in> fst ` set cs. zero_time \<le> t \<Longrightarrow>
     \<exists>ds l'. run l cs = Inr (ds, l') \<and> length ds = length cs \<and> limiter_wf l'"
proof (induction cs arbitrary: l)
  case (Cons c cs)
  obtain now k where c: "c = (now, k)" by force
  obtain d l' where r: "Allow l k now = Inr (d, l')"
    using Allow_step [of l now k] Cons.prems c by auto
  then have "limiter_wf l'" using Allow_wf [of l now k d l'] Cons.prems c by auto
  then show ?case using r Cons.IH [of l'] Cons.prems(2) by (fastforce simp: c)
qed simp

subsection \<open>Denial and retry\<close>

lemma denied_entry:
  assumes wf: "limiter_wf l" and now: "zero_time \<le> now"
    and res: "Allow l key now = Inr (d, l')" and den: "\<not> Allowed d"
  shows "tat_at l' key now' = (if zero_time \<le> now' \<and> now \<le> now' then tat_at l key now' else tat_at l' key now')"
    and "limiter_wf l'" and "interval l' = interval l" and "period l' = period l"
    and "RetryAfter d = sat64 (tat_at l key now + interval l - period l - now)"
    and "now < tat_at l key now + interval l - period l"
proof -
  have step: "l' = prepared l key now" "now + period l < tat_at l key now + interval l"
    "RetryAfter d = time_sub (tat_at l key now + interval l - period l) now"
    using Allow_step [OF wf now, of key] res den by (auto split: if_splits)
  have d: "distinct (map fst (tat l))" using wf by (simp add: limiter_wf_def)
  have "now < tat_at l key now" using step(2) wf by (simp add: limiter_wf_def)
  then have "now < tat_at (sweep l now) key now" using tat_at_sweep [OF d, of now now key] now by simp
  then have "map_of (tat (sweep l now)) key \<noteq> None" using now by (auto simp: tat_at_def split: option.splits)
  then have l': "l' = sweep l now" using step(1) by (auto simp: prepared_def Let_def)
  show "tat_at l' key now' = (if zero_time \<le> now' \<and> now \<le> now' then tat_at l key now' else tat_at l' key now')"
    using tat_at_sweep [OF d] by (simp add: l')
  show "limiter_wf l'" using sweep_wf [OF wf] by (simp add: l')
  show "interval l' = interval l" "period l' = period l" by (simp_all add: l')
  show "RetryAfter d = sat64 (tat_at l key now + interval l - period l - now)"
    using step(3) by (simp add: time_sub_def)
  show "now < tat_at l key now + interval l - period l" using step(2) by simp
qed

lemma Allowed_iff:
  assumes "limiter_wf l" and "zero_time \<le> now" and "Allow l key now = Inr (d, l')"
  shows "Allowed d \<longleftrightarrow> tat_at l key now + interval l \<le> now + period l"
  using Allow_step [OF assms(1,2), of key] assms(3) by auto

lemma Interval_dvd:
  assumes "rate_ok r"
  shows "Count r \<le> Per r div Interval r" and "Count r dvd Per r \<Longrightarrow> Per r div Interval r = Count r"
proof -
  have I: "Interval r = Per r div Count r" "0 < Interval r" "0 < Count r"
    using assms Interval_ok [OF assms] by (simp_all add: Interval_def rate_ok_def go_div_nonneg)
  have "Count r * Interval r \<le> Per r"
    using mult_div_mod_eq [of "Count r" "Per r"] pos_mod_sign [OF I(3), of "Per r"]
    unfolding I(1) by linarith
  then show "Count r \<le> Per r div Interval r"
    using int_le_div_iff [OF I(2)] by simp
  assume "Count r dvd Per r"
  then have "Per r = Count r * Interval r" using I(1) by simp
  then show "Per r div Interval r = Count r" using I(2) by simp
qed

subsection \<open>Properties\<close>

text \<open>
  C1.  Rate bound.  A limiter made by \<open>New\<close> and driven by any sequence of \<open>Allow\<close> calls with a
  clock that never goes back, over at most \<open>maxKeys\<close> different keys, admits the requests of one
  key so slowly that any \<open>m\<close> admissions in a row span at least \<open>m\<close> intervals less one period:
  sweeps, other keys and the order of the calls make no difference.
\<close>

theorem limiter_window:
  assumes "rate_ok r" and "sorted (map fst cs)" and "\<forall>t \<in> fst ` set cs. zero_time \<le> t"
    and "card (snd ` set cs) \<le> maxKeys"
    and "run (New r) cs = Inr (ds, l')"
    and "i \<le> j" and "j < length (hits key cs (map Allowed ds))"
  shows "(int j - int i + 1) * Interval r
           \<le> hits key cs (map Allowed ds) ! j - hits key cs (map Allowed ds) ! i + Per r"
proof -
  let ?K = "snd ` set cs"
  have f: "limiter_for ?K (Interval r) (Per r) (New r)"
    using limiter_for_New [OF assms(1) _ assms(4)] by simp
  have "map Allowed ds = gcra.drive (New r) cs"
    using run_drive [OF f subset_refl assms(3)] assms(5) by auto
  moreover have "gcra.legal ?K zero_time cs"
    using assms(2,3) by (simp add: gcra.legal_def)
  ultimately show ?thesis
    using gcra.drive_window [OF f _ _ assms(6)] assms(7) Interval_ok [OF assms(1)] by simp
qed

lemma run_two:
  "run (New \<lparr>Count = 2, Per = 10\<rparr>) [(0, ''a''), (1, ''a'')] =
     Inr ([\<lparr>Allowed = True, Limit = 2, Remaining = 1, RetryAfter = 0, Reset_in = 5\<rparr>,
           \<lparr>Allowed = True, Limit = 2, Remaining = 0, RetryAfter = 0, Reset_in = 9\<rparr>],
          \<lparr>limit = 2, period = 10, interval = 5, tat = [(''a'', 10)], calls = 2, lastSweep = zero_time\<rparr>)"
  by (simp add: New_def Interval_def Allow_def AllowN_def sweep_def Let_def sweepEvery_def maxKeys_def
      remaining_def wrap64_def min_int64_def max_int64_def go_div_def time_sub_def sat64_def
      zero_time_def second_def)

lemma limiter_window_witness:
  "(int 1 - int 0 + 1) * Interval \<lparr>Count = 2, Per = 10\<rparr> \<le> 1 - 0 + Per \<lparr>Count = 2, Per = 10\<rparr>"
proof -
  have "rate_ok \<lparr>Count = 2, Per = 10\<rparr>" by (simp add: rate_ok_def max_int64_def)
  moreover have "\<forall>t \<in> fst ` set [(0::int, ''a''), (1, ''a'')]. zero_time \<le> t"
    by (simp add: zero_time_def second_def)
  ultimately show ?thesis
    using limiter_window [OF _ _ _ _ run_two, of 0 1 "''a''"]
    by (simp add: hits_def maxKeys_def)
qed

text \<open>
  The limiter never panics and its table stays bounded: from a limiter made by \<open>New\<close>, every
  sequence of \<open>Allow\<close> calls runs to the end with one decision per call, and at most \<open>maxKeys\<close> keys
  are kept whatever keys the callers send.
\<close>

theorem limiter_total_bounded:
  assumes "rate_ok r" and "\<forall>t \<in> fst ` set cs. zero_time \<le> t"
  shows "\<exists>ds l'. run (New r) cs = Inr (ds, l') \<and> length ds = length cs \<and> Len l' \<le> maxKeys"
  using run_total [OF New_wf [OF assms(1)] assms(2)] by (auto simp: limiter_wf_def Len_def)

lemma limiter_total_bounded_witness:
  "\<exists>ds l'. run (New \<lparr>Count = 5, Per = 60 * second\<rparr>) [(0, ''a''), (7, ''b'')] = Inr (ds, l') \<and>
     length ds = 2 \<and> Len l' \<le> maxKeys"
  using limiter_total_bounded [of "\<lparr>Count = 5, Per = 60 * second\<rparr>" "[(0, ''a''), (7, ''b'')]"]
  by (simp add: rate_ok_def max_int64_def zero_time_def second_def numeral_2_eq_2)

text \<open>
  The retry delay is exact.  After a denied request the same key is denied again at every
  moment before the delay has passed, and admitted as soon as it has, when no other call comes
  between; and \<open>Blocked\<close> says beforehand whether the key is denied.
\<close>

theorem limiter_retry_exact:
  assumes "limiter_wf l" and "zero_time \<le> now" and "Allow l key now = Inr (d, l')"
    and "RetryAfter d < max_int64"
  shows "(Allowed d \<longleftrightarrow> \<not> snd (Blocked l key now)) \<and>
         (\<not> Allowed d \<longrightarrow> 0 < RetryAfter d \<and>
            (\<forall>now' d' l''. now \<le> now' \<and> Allow l' key now' = Inr (d', l'') \<longrightarrow>
               (Allowed d' \<longleftrightarrow> now + RetryAfter d \<le> now')))"
proof (intro conjI impI allI; (elim conjE)?)
  have wf: "0 < interval l" "interval l \<le> period l" using assms(1) by (simp_all add: limiter_wf_def)
  show "Allowed d \<longleftrightarrow> \<not> snd (Blocked l key now)"
    using Allowed_iff [OF assms(1,2,3)] wf wf_wraps(3) [OF assms(1)] assms(2)
    by (auto simp: Blocked_def Let_def time_sub_def sat64_pos_iff tat_at_def split: option.splits)
  assume den: "\<not> Allowed d"
  note D = denied_entry [OF assms(1,2,3) den]
  have pos: "0 < tat_at l key now + interval l - period l - now" using D(6) by simp
  then show "0 < RetryAfter d" unfolding D(5) by (simp add: sat64_pos_iff)
  have ra: "RetryAfter d = tat_at l key now + interval l - period l - now"
    using pos assms(4) unfolding D(5) by (auto simp: sat64_def min_int64_def max_int64_def)
  fix now' d' l'' assume later: "now \<le> now'" and res: "Allow l' key now' = Inr (d', l'')"
  have "Allowed d' \<longleftrightarrow> tat_at l key now' + interval l \<le> now' + period l"
    using Allowed_iff [OF D(2) _ res] D(1) [of now'] D(3,4) later assms(2) by simp
  then show "Allowed d' \<longleftrightarrow> now + RetryAfter d \<le> now'"
    using ra wf pos later by (auto simp: tat_at_def split: option.splits)
qed

lemma limiter_retry_exact_witness:
  "\<exists>d l'. Allow \<lparr>limit = 1, period = 10, interval = 10, tat = [(''a'', 10)], calls = 2, lastSweep = zero_time\<rparr>
       ''a'' 4 = Inr (d, l') \<and> 0 < RetryAfter d"
proof -
  let ?l = "\<lparr>limit = 1, period = 10, interval = 10, tat = [(''a'', 10)], calls = 2, lastSweep = zero_time\<rparr>"
  let ?d = "\<lparr>Allowed = False, Limit = 1, Remaining = 0, RetryAfter = 6, Reset_in = 6\<rparr>"
  have wf: "limiter_wf ?l" by (simp add: limiter_wf_def maxKeys_def max_int64_def)
  have now: "zero_time \<le> 4" by (simp add: zero_time_def second_def)
  have res: "Allow ?l ''a'' 4 = Inr (?d, ?l\<lparr>calls := 3\<rparr>)"
    by (simp add: Allow_def AllowN_def sweep_def Let_def sweepEvery_def maxKeys_def
      remaining_def wrap64_def min_int64_def max_int64_def go_div_def time_sub_def sat64_def)
  have "0 < RetryAfter ?d" using limiter_retry_exact [OF wf now res] by (simp add: max_int64_def)
  with res show ?thesis by blast
qed

text \<open>
  Burst.  Of \<open>n\<close> simultaneous requests of a fresh key the first \<open>Per div Interval\<close> are admitted
  and the others denied; that is at least the configured count, and exactly it when the count
  divides the period.
\<close>

theorem limiter_burst:
  assumes "rate_ok r" and "zero_time \<le> now"
  shows "(\<exists>ds l'. run (New r) (replicate n (now, key)) = Inr (ds, l') \<and>
           map Allowed ds = map (\<lambda>i. int i < Per r div Interval r) [0..<n]) \<and>
         Count r \<le> Per r div Interval r \<and>
         (Count r dvd Per r \<longrightarrow> Per r div Interval r = Count r)"
proof (intro conjI impI)
  have f: "limiter_for {key} (Interval r) (Per r) (New r)"
    using limiter_for_New [OF assms(1), of "{key}"] by (simp add: maxKeys_def)
  have fresh: "tat_at (New r) key now = now" using assms(2) by (simp add: tat_at_def New_def)
  have I: "0 < Interval r" using Interval_ok [OF assms(1)] by simp
  have le: "(int i + 1) * Interval r \<le> Per r \<longleftrightarrow> int i < Per r div Interval r" for i
    using int_le_div_iff [OF I, of "int i + 1" "Per r"] by linarith
  have "gcra.drive (New r) (replicate n (now, key)) = map (\<lambda>i. int i < Per r div Interval r) [0..<n]"
    using gcra.drive_burst [OF f _ assms(2)] I le by (simp add: fresh)
  then show "\<exists>ds l'. run (New r) (replicate n (now, key)) = Inr (ds, l') \<and>
      map Allowed ds = map (\<lambda>i. int i < Per r div Interval r) [0..<n]"
    using run_drive [OF f, of "replicate n (now, key)"] assms(2) by fastforce
qed (use Interval_dvd [OF assms(1)] in auto)

lemma limiter_burst_witness:
  "\<exists>ds l'. run (New \<lparr>Count = 2, Per = 10\<rparr>) (replicate 3 (0, ''a'')) = Inr (ds, l') \<and>
     map Allowed ds = [True, True, False]"
  using limiter_burst [of "\<lparr>Count = 2, Per = 10\<rparr>" 0 3 "''a''"]
  by (simp add: rate_ok_def max_int64_def zero_time_def second_def Interval_def go_div_def
      eval_nat_numeral)

end
