(* ===== verification/Gotime.thy ===== *)
theory Gotime
  imports Prelude
begin

text \<open>
  The parts of Go's \<open>time\<close> package the calendar computes with: the proleptic Gregorian calendar,
  locations, \<open>time.Date\<close> with its normalisation, \<open>Time.Date\<close>, \<open>Clock\<close>, \<open>Weekday\<close>, \<open>AddDate\<close> and
  the month arithmetic built on them.  An instant is a number of nanoseconds since the Unix epoch;
  the location a \<open>time.Time\<close> carries is an argument of the operations that read it.

  A location is its lookup function, from a Unix second to the offset in force and the interval
  \<open>[start, end)\<close> in which it is.  The zone database is data of the system: what
  \<open>time.LoadLocation\<close> finds in it is an argument of the definitions that load a zone.
\<close>

subsection \<open>The calendar\<close>

definition leap :: "int \<Rightarrow> bool" where
  "leap y \<longleftrightarrow> y mod 4 = 0 \<and> (y mod 100 \<noteq> 0 \<or> y mod 400 = 0)"

definition month_days :: "int \<Rightarrow> int \<Rightarrow> int" where
  "month_days y m =
     (if m = 2 then (if leap y then 29 else 28) else if m \<in> {4, 6, 9, 11} then 30 else 31)"

text \<open>Days from 1 January of year 1 to 1 January of a year.\<close>

definition year_start :: "int \<Rightarrow> int" where
  "year_start y = 365 * (y - 1) + (y - 1) div 4 - (y - 1) div 100 + (y - 1) div 400"

text \<open>Days from 1 January to the first of a month, for months 1 to 13.\<close>

definition month_start :: "int \<Rightarrow> int \<Rightarrow> int" where
  "month_start y m =
     (if m \<le> 1 then 0 else if m = 2 then 31 else
      (if leap y then 1 else 0) +
      (if m = 3 then 59 else if m = 4 then 90 else if m = 5 then 120 else if m = 6 then 151
       else if m = 7 then 181 else if m = 8 then 212 else if m = 9 then 243 else if m = 10 then 273
       else if m = 11 then 304 else if m = 12 then 334 else 365))"

definition epoch_days :: int where
  "epoch_days = 719162"

text \<open>The day number (day 0 is 1 January 1970) of a date; the month and the day may overflow.\<close>

definition days_of :: "int \<Rightarrow> int \<Rightarrow> int \<Rightarrow> int" where
  "days_of y m d =
     (let y' = y + (m - 1) div 12; m' = (m - 1) mod 12 + 1
      in year_start y' + month_start y' m' + (d - 1) - epoch_days)"

definition year_of :: "int \<Rightarrow> int" where
  "year_of n = (let y = (400 * n) div 146097 + 1 in if year_start (y + 1) \<le> n then y + 1 else y)"

definition month_of :: "int \<Rightarrow> int \<Rightarrow> int" where
  "month_of y k =
     (if k < month_start y 2 then 1 else if k < month_start y 3 then 2 else if k < month_start y 4 then 3
      else if k < month_start y 5 then 4 else if k < month_start y 6 then 5 else if k < month_start y 7 then 6
      else if k < month_start y 8 then 7 else if k < month_start y 9 then 8 else if k < month_start y 10 then 9
      else if k < month_start y 11 then 10 else if k < month_start y 12 then 11 else 12)"

type_synonym civil = "int \<times> int \<times> int"

definition civil_of :: "int \<Rightarrow> civil" where
  "civil_of n =
     (let k = n + epoch_days; y = year_of k; j = k - year_start y; m = month_of y j
      in (y, m, j - month_start y m + 1))"

definition valid_civil :: "civil \<Rightarrow> bool" where
  "valid_civil c = (case c of (y, m, d) \<Rightarrow> 1 \<le> m \<and> m \<le> 12 \<and> 1 \<le> d \<and> d \<le> month_days y m)"

text \<open>Sunday is 0, as in \<open>time.Weekday\<close>.\<close>

definition weekday_of :: "int \<Rightarrow> int" where
  "weekday_of n = (n + 4) mod 7"

subsection \<open>Locations and instants\<close>

type_synonym location = "int \<Rightarrow> int \<times> int \<times> int"

definition UTC :: location where
  "UTC sec = (0, min_int64, max_int64)"

definition offset :: "location \<Rightarrow> int \<Rightarrow> int" where
  "offset loc sec = fst (loc sec)"

text \<open>What every lookup gives: an interval around the instant on which the answer is the same.\<close>

definition location_wf :: "location \<Rightarrow> bool" where
  "location_wf loc \<longleftrightarrow>
     (\<forall>sec. case loc sec of (off, lo, hi) \<Rightarrow>
        (\<forall>u. lo \<le> u \<and> u < hi \<longrightarrow> loc u = (off, lo, hi)) \<and>
        (min_int64 \<le> sec \<and> sec < max_int64 \<longrightarrow> lo \<le> sec \<and> sec < hi))"

definition unix :: "go_time \<Rightarrow> int" where
  "unix t = t div second"

text \<open>The wall clock of an instant in a location, as seconds since the epoch on that clock.\<close>

definition local_sec :: "location \<Rightarrow> go_time \<Rightarrow> int" where
  "local_sec loc t = unix t + offset loc (unix t)"

definition local_days :: "location \<Rightarrow> go_time \<Rightarrow> int" where
  "local_days loc t = local_sec loc t div 86400"

definition time_date :: "location \<Rightarrow> go_time \<Rightarrow> civil" where
  "time_date loc t = civil_of (local_days loc t)"

definition time_clock :: "location \<Rightarrow> go_time \<Rightarrow> int \<times> int \<times> int" where
  "time_clock loc t =
     (let s = local_sec loc t mod 86400 in (s div 3600, s mod 3600 div 60, s mod 60))"

definition time_hour :: "location \<Rightarrow> go_time \<Rightarrow> int" where
  "time_hour loc t = fst (time_clock loc t)"

definition time_minute :: "location \<Rightarrow> go_time \<Rightarrow> int" where
  "time_minute loc t = fst (snd (time_clock loc t))"

definition time_weekday :: "location \<Rightarrow> go_time \<Rightarrow> int" where
  "time_weekday loc t = weekday_of (local_days loc t)"

definition nanosecond :: "go_time \<Rightarrow> int" where
  "nanosecond t = t mod second"

text \<open>\<open>time.Date\<close>: the wall clock is first looked up as if it were UTC, then with the offset found
  there when that instant lies outside the interval of the offset.\<close>

definition at_offset :: "location \<Rightarrow> int \<Rightarrow> int" where
  "at_offset loc wall =
     (case loc wall of (off, lo, hi) \<Rightarrow>
        if off = 0 then wall
        else let utc = wall - off in
             if utc < lo \<or> utc \<ge> hi then wall - offset loc utc else utc)"

definition go_date :: "location \<Rightarrow> int \<Rightarrow> int \<Rightarrow> int \<Rightarrow> int \<Rightarrow> int \<Rightarrow> int \<Rightarrow> int \<Rightarrow> go_time" where
  "go_date loc y m d h mi s ns =
     at_offset loc (days_of y m d * 86400 + h * 3600 + mi * 60 + s + ns div second) * second + ns mod second"

definition add_date :: "location \<Rightarrow> go_time \<Rightarrow> int \<Rightarrow> int \<Rightarrow> int \<Rightarrow> go_time" where
  "add_date loc t years months days =
     (case time_date loc t of (y, m, d) \<Rightarrow>
      case time_clock loc t of (h, mi, s) \<Rightarrow>
        go_date loc (y + years) (m + months) (d + days) h mi s (nanosecond t))"

subsection \<open>Years and months\<close>

lemma year_start_Suc: "year_start (y + 1) = year_start y + (if leap y then 366 else 365)"
proof -
  have q: "y div n = (y - 1) div n + (if y mod n = 0 then 1 else 0)" if "0 < n" for n
    using div_pred [OF that] .
  have m: "y mod 400 = 0 \<Longrightarrow> y mod 100 = 0" "y mod 100 = 0 \<Longrightarrow> y mod 4 = 0"
    unfolding mod_eq_0_iff_dvd using dvd_trans [of 100 400 y] dvd_trans [of 4 100 y] by simp_all
  have "year_start (y + 1) = 365 * y + y div 4 - y div 100 + y div 400" by (simp add: year_start_def)
  also have "\<dots> = year_start y + 365 + (if y mod 4 = 0 then 1 else 0) - (if y mod 100 = 0 then 1 else 0)
      + (if y mod 400 = 0 then 1 else 0)"
    unfolding year_start_def q [of 4, simplified] q [of 100, simplified] q [of 400, simplified]
    by (simp only: algebra_simps)
  also have "\<dots> = year_start y + (if leap y then 366 else 365)"
  proof -
    have gen: "z + 365 + (if P then 1 else 0) - (if Q then 1 else 0) + (if R then 1 else 0) =
        z + (if P \<and> (\<not> Q \<or> R) then 366 else 365)" if "R \<longrightarrow> Q" "Q \<longrightarrow> P" for P Q R and z :: int
      using that by (cases P; cases Q; cases R) simp_all
    show ?thesis unfolding leap_def by (rule gen) (rule impI, erule m)+
  qed
  finally show ?thesis .
qed

lemma year_start_bounds:
  "400 * year_start (k + 1) \<le> 146097 * k + 399" "146097 * k \<le> 400 * year_start (k + 1) + 799"
proof -
  have "4 * (k div 4) \<le> k" "k \<le> 4 * (k div 4) + 3" "100 * (k div 100) \<le> k" "k \<le> 100 * (k div 100) + 99"
    "400 * (k div 400) \<le> k" "k \<le> 400 * (k div 400) + 399"
    using int_div_bounds [of 4 k] int_div_bounds [of 100 k] int_div_bounds [of 400 k] by simp_all
  then show "400 * year_start (k + 1) \<le> 146097 * k + 399" "146097 * k \<le> 400 * year_start (k + 1) + 799"
    unfolding year_start_def by simp_all
qed

lemma year_of_bounds: "year_start (year_of n) \<le> n" "n < year_start (year_of n + 1)"
proof -
  define k where "k = (400 * n) div 146097"
  have k: "146097 * k \<le> 400 * n" "400 * n < 146097 * (k + 1)" 
    using int_div_bounds [of 146097 "400 * n"] unfolding k_def by simp_all
  have lo: "year_start (k + 1) \<le> n" using year_start_bounds(1) [of k] k by linarith
  have "146097 * (k + 1) \<le> 400 * year_start (k + 1 + 1) + 799" using year_start_bounds(2) [of "k + 1"] .
  then have "n < year_start (k + 1 + 1) + 2" using k(2) by linarith
  moreover have "year_start (k + 1 + 1) + 365 \<le> year_start (k + 1 + 1 + 1)"
    using year_start_Suc [of "k + 1 + 1"] by simp
  ultimately have hi: "n < year_start (k + 1 + 1 + 1)" by linarith
  show "year_start (year_of n) \<le> n" "n < year_start (year_of n + 1)"
    using lo hi by (auto simp: year_of_def Let_def k_def)
qed

lemma year_start_mono: "y \<le> z \<Longrightarrow> year_start y \<le> year_start z"
proof -
  have "year_start y \<le> year_start (y + int n)" for n
  proof (induction n)
    case (Suc n)
    have "year_start (y + int n) \<le> year_start (y + int n + 1)" using year_start_Suc [of "y + int n"] by simp
    with Suc show ?case by (simp add: algebra_simps)
  qed simp
  from this [of "nat (z - y)"] show "y \<le> z \<Longrightarrow> ?thesis" by simp
qed

lemma year_of_unique:
  assumes "year_start y \<le> n" and "n < year_start (y + 1)"
  shows "year_of n = y"
proof (rule ccontr)
  assume "year_of n \<noteq> y"
  then consider "year_of n + 1 \<le> y" | "y + 1 \<le> year_of n" by linarith
  then show False
    using assms year_of_bounds [of n] year_start_mono by (cases; fastforce dest: year_start_mono)
qed

lemma month_cases:
  assumes "1 \<le> m" and "m \<le> 12"
  obtains "m = 1" | "m = 2" | "m = 3" | "m = 4" | "m = 5" | "m = 6" | "m = 7" | "m = 8" | "m = 9"
    | "m = 10" | "m = 11" | "m = (12 :: int)"
proof -
  have "m \<in> {1..12}" using assms by simp
  also have "{1..12} = {1, 2, 3, 4, 5, 6, 7, 8, 9, 10, 11, 12 :: int}" by code_simp
  finally show ?thesis using that by blast
qed

lemma month_start_Suc:
  "1 \<le> m \<Longrightarrow> m \<le> 12 \<Longrightarrow> month_start y (m + 1) = month_start y m + month_days y m"
  by (erule (1) month_cases) (simp_all add: month_start_def month_days_def)

lemma month_start_13: "month_start y 13 = (if leap y then 366 else 365)"
  by (simp add: month_start_def)

lemma month_of_bounds:
  assumes "0 \<le> j" and "j < month_start y 13"
  shows "1 \<le> month_of y j \<and> month_of y j \<le> 12 \<and> month_start y (month_of y j) \<le> j \<and>
         j < month_start y (month_of y j + 1)"
  using assms by (simp add: month_of_def month_start_def)

lemma month_of_unique:
  assumes "1 \<le> m" and "m \<le> 12" and "month_start y m \<le> j" and "j < month_start y (m + 1)"
  shows "month_of y j = m"
  using assms(1,2)
  by (rule month_cases) (use assms(3,4) in \<open>simp_all add: month_of_def month_start_def split: if_splits\<close>)

subsection \<open>Dates and day numbers\<close>

lemma days_of_valid:
  "1 \<le> m \<Longrightarrow> m \<le> 12 \<Longrightarrow> days_of y m d = year_start y + month_start y m + d - 1 - epoch_days"
  by (simp add: days_of_def Let_def div_pos_pos_trivial mod_pos_pos_trivial)

theorem civil_of_valid: "valid_civil (civil_of n)"
  and days_of_civil_of: "civil_of n = (y, m, d) \<Longrightarrow> days_of y m d = n"
proof -
  define k where "k = n + epoch_days"
  define z where "z = year_of k"
  define j where "j = k - year_start z"
  define a where "a = month_of z j"
  have c: "civil_of n = (z, a, j - month_start z a + 1)"
    by (simp add: civil_of_def Let_def k_def z_def j_def a_def)
  have "0 \<le> j" "j < month_start z 13"
    using year_of_bounds [of k] year_start_Suc [of z] by (simp_all add: j_def z_def month_start_13)
  then have a: "1 \<le> a \<and> a \<le> 12 \<and> month_start z a \<le> j \<and> j < month_start z (a + 1)"
    unfolding a_def by (rule month_of_bounds)
  then show "valid_civil (civil_of n)" using month_start_Suc [of a z] by (simp add: c valid_civil_def)
  show "civil_of n = (y, m, d) \<Longrightarrow> days_of y m d = n"
    using a by (auto simp: c days_of_valid j_def k_def)
qed

lemma civil_of_days_of:
  assumes "valid_civil (y, m, d)"
  shows "civil_of (days_of y m d) = (y, m, d)"
proof -
  have m: "1 \<le> m" "m \<le> 12" "1 \<le> d" "d \<le> month_days y m" using assms by (simp_all add: valid_civil_def)
  define j where "j = month_start y m + d - 1"
  have j: "month_start y m \<le> j" "j < month_start y (m + 1)"
    using m month_start_Suc [of m y] by (simp_all add: j_def)
  have le: "0 \<le> month_start y m" "month_start y (m + 1) \<le> month_start y 13"
    using m(1,2) by (erule_tac [!] month_cases, simp_all add: month_start_def)
  have k: "days_of y m d + epoch_days = year_start y + j" using m by (simp add: days_of_valid j_def)
  have "year_of (year_start y + j) = y"
    using j le year_start_Suc [of y] month_start_13 [of y] by (intro year_of_unique) (auto split: if_splits)
  moreover have "month_of y j = m" using m j by (intro month_of_unique) auto
  ultimately show ?thesis by (simp add: civil_of_def Let_def k j_def)
qed

lemma civil_of_inject: "civil_of a = civil_of b \<Longrightarrow> a = b"
  using days_of_civil_of by (cases "civil_of a") metis

lemma days_of_add [simp]: "days_of y m (d + k) = days_of y m d + k"
  by (simp add: days_of_def Let_def)

lemma weekday_range: "0 \<le> weekday_of n" "weekday_of n < 7"
  by (simp_all add: weekday_of_def)

lemma weekday_of_add: "weekday_of (n + k) = (weekday_of n + k) mod 7"
  by (simp add: weekday_of_def mod_simps algebra_simps)

subsection \<open>Instants in UTC\<close>

lemma UTC_wf: "location_wf UTC"
  by (simp add: location_wf_def UTC_def)

lemma offset_UTC [simp]: "offset UTC s = 0"
  by (simp add: offset_def UTC_def)

lemma at_offset_UTC [simp]: "at_offset UTC w = w"
  by (simp add: at_offset_def UTC_def)

lemma unix_mult [simp]: "0 \<le> r \<Longrightarrow> r < second \<Longrightarrow> unix (s * second + r) = s"
  by (simp add: unix_def second_def)

lemma unix_add_ns: "unix (s * second + ns mod second) = s"
  by (rule unix_mult) (simp_all add: second_def)

lemma local_sec_UTC [simp]: "local_sec UTC t = unix t"
  by (simp add: local_sec_def)

lemma midnight_date:
  "time_date UTC (go_date UTC y m d 0 0 0 0) = civil_of (days_of y m d)"
  using unix_add_ns [of "days_of y m d * 86400" 0]
  by (simp add: time_date_def local_days_def go_date_def)

lemma go_date_midnight: "go_date UTC y m d 0 0 0 0 = days_of y m d * day"
  by (simp add: go_date_def duration_defs)

lemma day_eq: "day = 86400 * second"
  by (simp add: duration_defs)

lemma clock_sum:
  "time_clock loc t = (h, mi, s) \<Longrightarrow> h * 3600 + mi * 60 + s = local_sec loc t mod 86400"
proof -
  define x where "x = local_sec loc t mod 86400"
  assume "time_clock loc t = (h, mi, s)"
  then have "h = x div 3600" "mi = x mod 3600 div 60" "s = x mod 60"
    by (auto simp: time_clock_def Let_def x_def)
  moreover have "x mod 60 = x mod 3600 mod 60" by (simp add: mod_mod_cancel)
  ultimately show ?thesis
    using div_mult_mod_eq [of x 3600] div_mult_mod_eq [of "x mod 3600" 60] unfolding x_def by linarith
qed

lemma clock_range:
  "time_clock loc t = (h, mi, s) \<Longrightarrow> 0 \<le> h \<and> h < 24 \<and> 0 \<le> mi \<and> mi < 60 \<and> 0 \<le> s \<and> s < 60"
proof -
  define x where "x = local_sec loc t mod 86400"
  assume "time_clock loc t = (h, mi, s)"
  then have "h = x div 3600" "mi = x mod 3600 div 60" "s = x mod 60"
    by (auto simp: time_clock_def Let_def x_def)
  moreover have "0 \<le> x" "x < 86400" by (simp_all add: x_def)
  moreover have "0 \<le> x mod 3600" "x mod 3600 < 3600" by simp_all
  moreover have "60 * (x mod 3600 div 60) \<le> x mod 3600 \<and> x mod 3600 < 60 * (x mod 3600 div 60) + 60"
    "3600 * (x div 3600) \<le> x \<and> x < 3600 * (x div 3600) + 3600" "0 \<le> x mod 60 \<and> x mod 60 < 60"
    using int_div_bounds by simp_all
  ultimately show ?thesis by linarith
qed

text \<open>\<open>AddDate(0, 0, n)\<close> rebuilds the wall clock \<open>n\<close> days later.\<close>

lemma add_date_days:
  "add_date loc t 0 0 n =
     at_offset loc (local_sec loc t + n * 86400) * second + nanosecond t"
proof -
  obtain y m d where c: "time_date loc t = (y, m, d)" by (cases "time_date loc t") auto
  obtain h mi s where k: "time_clock loc t = (h, mi, s)" by (cases "time_clock loc t") auto
  define q r where "q = local_days loc t" and "r = local_sec loc t mod 86400"
  have "local_sec loc t = q * 86400 + r" by (simp add: q_def r_def local_days_def)
  moreover have "days_of y m d = q" using c by (simp add: time_date_def days_of_civil_of q_def)
  moreover have "h * 3600 + mi * 60 + s = r" using clock_sum [OF k] by (simp add: r_def)
  ultimately have "days_of y m (d + n) * 86400 + h * 3600 + mi * 60 + s = local_sec loc t + n * 86400"
    by (simp add: algebra_simps)
  moreover have "nanosecond t div second = 0" "nanosecond t mod second = nanosecond t"
    by (simp_all add: nanosecond_def second_def)
  ultimately show ?thesis by (simp add: add_date_def c k go_date_def del: days_of_add)
qed

lemma add_date_UTC: "add_date UTC t 0 0 n = t + n * day"
proof -
  have "t = unix t * second + nanosecond t" by (simp add: unix_def nanosecond_def)
  then show ?thesis by (simp add: add_date_days day_eq algebra_simps)
qed

text \<open>A wall clock that \<open>time.Date\<close> hits exactly is read back unchanged; it misses one only inside a
  gap of the location.\<close>

lemma at_offset_exact:
  assumes "location_wf loc" and "min_int64 \<le> w" and "w < max_int64"
    and "off = offset loc w" and "offset loc (w - off) = off"
  shows "at_offset loc w = w - off"
  using assms by (auto simp: at_offset_def offset_def Let_def split: prod.splits)

end
