(* ===== verification/Domain.thy ===== *)
theory Domain
  imports Gotime
begin

text \<open>
  The domain package, \<open>internal/domain\<close>: error values, partial patches, validation, entity tags,
  clock times, the records of the entities with their methods, and the fingerprints by which
  duplicates are found.  Field names carry a prefix per record (\<open>ev_\<close> for \<open>Event\<close>, \<open>td_\<close> for \<open>Todo\<close>,
  and so on) because records share field names in the source.
\<close>

subsection \<open>Errors\<close>

datatype sentinel = ErrNotFound | ErrConflict | ErrForbidden | ErrUnauthorized | ErrPrecondition
  | ErrRateLimited | ErrInvalid

record FieldError =
  fe_Field :: string
  fe_Message :: string

type_synonym ValidationError = "FieldError list"

text \<open>A sentinel, wrapped with a text by \<open>fmt.Errorf\<close> or bare; a validation error; any other error.\<close>

datatype go_error = Wrap sentinel string | Validation ValidationError | Other string

definition err_is :: "go_error \<Rightarrow> sentinel \<Rightarrow> bool" where
  "err_is e s = (case e of Wrap t m \<Rightarrow> t = s | Validation v \<Rightarrow> s = ErrInvalid | Other m \<Rightarrow> False)"

definition Error :: "ValidationError \<Rightarrow> string" where
  "Error e = ''invalid input: '' @ join (map (\<lambda>f. fe_Field f @ '': '' @ fe_Message f) e) ''; ''"

definition Add :: "ValidationError \<Rightarrow> string \<Rightarrow> string \<Rightarrow> ValidationError" where
  "Add e f m = e @ [\<lparr>fe_Field = f, fe_Message = m\<rparr>]"

definition Err :: "ValidationError \<Rightarrow> go_error option" where
  "Err e = (if e = [] then None else Some (Validation e))"

subsection \<open>Patches\<close>

record 'a Opt =
  opt_Set :: bool
  opt_Null :: bool
  opt_V :: 'a

definition Opt_Some :: "'a \<Rightarrow> 'a Opt" where
  "Opt_Some v = \<lparr>opt_Set = True, opt_Null = False, opt_V = v\<rparr>"

definition Opt_unset :: "'a \<Rightarrow> 'a Opt" where
  "Opt_unset zero = \<lparr>opt_Set = False, opt_Null = False, opt_V = zero\<rparr>"

text \<open>The decoder of the field's type, with unknown fields refused, is an argument.\<close>

definition UnmarshalJSON :: "(string \<Rightarrow> go_error + 'a) \<Rightarrow> 'a \<Rightarrow> 'a Opt \<Rightarrow> string \<Rightarrow> (go_error option \<times> 'a Opt)" where
  "UnmarshalJSON decode zero o1 b =
     (if b = ''null'' then (None, o1\<lparr>opt_Set := True, opt_Null := True, opt_V := zero\<rparr>)
      else case decode b of
             Inl e \<Rightarrow> (Some e, o1\<lparr>opt_Set := True, opt_Null := False\<rparr>)
           | Inr v \<Rightarrow> (None, o1\<lparr>opt_Set := True, opt_Null := False, opt_V := v\<rparr>))"

text \<open>The value with its \<open>ok\<close> flag as an option; no caller reads the value when the flag is false.\<close>

definition Value :: "'a Opt \<Rightarrow> ValidationError \<Rightarrow> string \<Rightarrow> ValidationError \<times> 'a option" where
  "Value o1 v field =
     (if \<not> opt_Set o1 then (v, None)
      else if opt_Null o1 then (Add v field ''must not be null'', None)
      else (v, Some (opt_V o1)))"

subsection \<open>Validation\<close>

definition MaxReminders :: nat where
  "MaxReminders = 5"

definition MaxReminderMinutes :: int where
  "MaxReminderMinutes = 40320"

definition hex_lower :: "char \<Rightarrow> bool" where
  "hex_lower c \<longleftrightarrow> is_digit c \<or> (CHR ''a'' \<le> c \<and> c \<le> CHR ''f'')"

definition colorPattern :: "string \<Rightarrow> bool" where
  "colorPattern s \<longleftrightarrow> length s = 7 \<and> hd s = CHR ''#'' \<and> list_all hex_lower (tl s)"

definition NormalizeColor :: "string \<Rightarrow> string \<times> bool" where
  "NormalizeColor s0 = (let s = to_lower (trim_space s0) in (s, colorPattern s))"

text \<open>\<open>time.LoadLocation\<close> over a zone database.\<close>

type_synonym zoneinfo = "string \<Rightarrow> location option"

definition LoadLocation :: "zoneinfo \<Rightarrow> string \<Rightarrow> location option" where
  "LoadLocation zi name = (if name = [] \<or> name = ''UTC'' then Some UTC else zi name)"

definition ValidTimezone :: "zoneinfo \<Rightarrow> string \<Rightarrow> bool" where
  "ValidTimezone zi tz \<longleftrightarrow> tz \<noteq> [] \<and> tz \<noteq> ''Local'' \<and> LoadLocation zi tz \<noteq> None"

definition Length :: "ValidationError \<Rightarrow> string \<Rightarrow> string \<Rightarrow> int \<Rightarrow> int \<Rightarrow> ValidationError" where
  "Length e field s lo hi =
     (let n = rune_count s in
      if n \<ge> lo \<and> n \<le> hi then e
      else if lo = 0 then Add e field (''must be at most '' @ itoa hi @ '' characters'')
      else Add e field (''must be '' @ itoa lo @ '' to '' @ itoa hi @ '' characters''))"

definition NormalizeReminders :: "ValidationError \<Rightarrow> string \<Rightarrow> int list \<Rightarrow> ValidationError \<times> int list" where
  "NormalizeReminders v field xs =
     (let out = compact (=) (sort xs);
          v1 = (if length out > MaxReminders
                then Add v field (''must have at most '' @ itoa (int MaxReminders) @ '' reminders'') else v);
          v2 = (if list_ex (\<lambda>m. m < 0 \<or> m > MaxReminderMinutes) out
                then Add v1 field (''must be between 0 and '' @ itoa MaxReminderMinutes @ '' minutes'') else v1)
      in (v2, out))"

subsection \<open>Entity tags\<close>

definition digit36 :: "nat \<Rightarrow> char" where
  "digit36 d = (if d < 10 then char_of (48 + d) else char_of (87 + d))"

fun base36 :: "nat \<Rightarrow> string" where
  "base36 n = (if n < 36 then [digit36 n] else base36 (n div 36) @ [digit36 (n mod 36)])"

declare base36.simps [simp del]

text \<open>\<open>strconv.FormatInt\<close> in base 36.\<close>

definition format36 :: "int \<Rightarrow> string" where
  "format36 i = (if i < 0 then ''-'' @ base36 (nat (- i)) else base36 (nat i))"

definition TimeTag :: "go_time \<Rightarrow> string" where
  "TimeTag t = [CHR 0x22] @ format36 (t div 1000) @ [CHR 0x22]"

definition VersionTag :: "int \<Rightarrow> string" where
  "VersionTag n = [CHR 0x22] @ ''v'' @ format36 n @ [CHR 0x22]"

definition MatchETag :: "string \<Rightarrow> string \<Rightarrow> bool" where
  "MatchETag header0 etag =
     (let header = trim_space header0 in
      if header = [] then False
      else if header = ''*'' then True
      else let want = trim_prefix etag ''W/'' in
           list_ex (\<lambda>part. trim_prefix (trim_space part) ''W/'' = want) (split header (CHR '','')))"

definition CheckIfMatch :: "string \<Rightarrow> string \<Rightarrow> go_error option" where
  "CheckIfMatch header etag =
     (if trim_space header = [] \<or> MatchETag header etag then None
      else Some (Wrap ErrPrecondition ''resource was modified, reload it and retry''))"

subsection \<open>Clock times\<close>

text \<open>\<open>%02d\<close>.\<close>

definition pad2 :: "int \<Rightarrow> string" where
  "pad2 i = (if 0 \<le> i \<and> i < 10 then ''0'' @ itoa i else itoa i)"

definition FormatClock :: "int \<Rightarrow> string" where
  "FormatClock m = pad2 (go_div m 60) @ '':'' @ pad2 (go_mod m 60)"

definition digit_val :: "char \<Rightarrow> int" where
  "digit_val c = int (of_char c) - 48"

text \<open>The number reader of \<open>time.Parse\<close>: two digits, or one where the layout allows it.\<close>

fun getnum :: "string \<Rightarrow> bool \<Rightarrow> (int \<times> string) option" where
  "getnum [] fixed = None"
| "getnum [c] fixed = (if is_digit c \<and> \<not> fixed then Some (digit_val c, []) else None)"
| "getnum (c # d # s) fixed =
     (if \<not> is_digit c then None
      else if \<not> is_digit d then (if fixed then None else Some (digit_val c, d # s))
      else Some (digit_val c * 10 + digit_val d, s))"

text \<open>After the seconds \<open>time.Parse\<close> accepts a fraction even when the layout has none.\<close>

definition skip_fraction :: "string \<Rightarrow> string" where
  "skip_fraction s =
     (case s of
        p # d # _ \<Rightarrow> if (p = CHR ''.'' \<or> p = CHR '','') \<and> is_digit d then dropWhile is_digit (tl s) else s
      | _ \<Rightarrow> s)"

definition skip_char :: "char \<Rightarrow> string \<Rightarrow> string option" where
  "skip_char c s = (case s of [] \<Rightarrow> None | x # r \<Rightarrow> if x = c then Some r else None)"

definition parse_hm :: "string \<Rightarrow> ((int \<times> int) \<times> string) option" where
  "parse_hm s =
     (case getnum s False of None \<Rightarrow> None
      | Some (h, r) \<Rightarrow> if h < 0 \<or> 24 \<le> h then None else
        (case skip_char (CHR '':'') r of None \<Rightarrow> None
         | Some r1 \<Rightarrow>
           (case getnum r1 True of None \<Rightarrow> None
            | Some (m, r2) \<Rightarrow> if m < 0 \<or> 60 \<le> m then None else Some ((h, m), r2))))"

definition parse_layout_hm :: "string \<Rightarrow> (int \<times> int) option" where
  "parse_layout_hm s = (case parse_hm s of Some (hm, []) \<Rightarrow> Some hm | _ \<Rightarrow> None)"

definition parse_layout_hms :: "string \<Rightarrow> (int \<times> int) option" where
  "parse_layout_hms s =
     (case parse_hm s of None \<Rightarrow> None
      | Some (hm, r) \<Rightarrow>
        (case skip_char (CHR '':'') r of None \<Rightarrow> None
         | Some r1 \<Rightarrow>
           (case getnum r1 True of None \<Rightarrow> None
            | Some (sec, r2) \<Rightarrow>
                if sec < 0 \<or> 60 \<le> sec then None
                else if skip_fraction r2 = [] then Some hm else None)))"

definition ParseClock :: "string \<Rightarrow> int option" where
  "ParseClock s =
     (case parse_layout_hm (trim_space s) of
        Some (h, m) \<Rightarrow> Some (h * 60 + m)
      | None \<Rightarrow> (case parse_layout_hms (trim_space s) of
                  Some (h, m) \<Rightarrow> Some (h * 60 + m) | None \<Rightarrow> None))"

record TimeOfDay =
  tod_Hour :: int
  tod_Minute :: int

definition minutesPerDay :: int where
  "minutesPerDay = 24 * 60"

definition Minutes :: "TimeOfDay \<Rightarrow> int" where
  "Minutes t = tod_Hour t * 60 + tod_Minute t"

definition TimeOfDay_String :: "TimeOfDay \<Rightarrow> string" where
  "TimeOfDay_String t = FormatClock (Minutes t)"

definition TimeOfDay_Add :: "TimeOfDay \<Rightarrow> int \<Rightarrow> TimeOfDay" where
  "TimeOfDay_Add t minutes =
     (let m = go_mod (go_mod (Minutes t + minutes) minutesPerDay + minutesPerDay) minutesPerDay
      in \<lparr>tod_Hour = go_div m 60, tod_Minute = go_mod m 60\<rparr>)"

definition DayOf :: "location \<Rightarrow> go_time \<Rightarrow> go_time" where
  "DayOf loc t = (case time_date loc t of (y, m, d) \<Rightarrow> go_date loc y m d 0 0 0 0)"

subsection \<open>Calendars and events\<close>

record Calendar =
  cal_ID :: go_id
  cal_OwnerID :: go_id
  cal_Name :: string
  cal_Color :: string
  cal_Description :: string
  cal_Timezone :: string
  cal_Kind :: string
  cal_ReadOnly :: bool
  cal_IsDefault :: bool
  cal_Hidden :: bool
  cal_Position :: int
  cal_DefaultReminders :: "int list"
  cal_CreatedAt :: go_time
  cal_UpdatedAt :: go_time

definition Calendar_ETag :: "Calendar \<Rightarrow> string" where
  "Calendar_ETag c = TimeTag (cal_UpdatedAt c)"

record CalendarPatch =
  calp_Name :: "string Opt"
  calp_Color :: "string Opt"
  calp_Description :: "string Opt"
  calp_Timezone :: "string Opt"
  calp_Hidden :: "bool Opt"
  calp_Position :: "int Opt"
  calp_DefaultReminders :: "int list Opt"

record Event =
  ev_ID :: go_id
  ev_OwnerID :: go_id
  ev_CalendarID :: go_id
  ev_UID :: string
  ev_SeriesID :: "go_id option"
  ev_RecurrenceID :: "go_time option"
  ev_Title :: string
  ev_Body :: string
  ev_Location :: string
  ev_URL :: string
  ev_AllDay :: bool
  ev_Start :: go_time
  ev_End :: go_time
  ev_TZ :: string
  ev_RRule :: string
  ev_RDate :: "go_time list"
  ev_ExDate :: "go_time list"
  ev_Status :: string
  ev_Transparency :: string
  ev_Visibility :: string
  ev_Color :: string
  ev_ReadOnly :: bool
  ev_Sequence :: int
  ev_Version :: int
  ev_Reminders :: "int list"
  ev_SourceHash :: string
  ev_CreatedAt :: go_time
  ev_UpdatedAt :: go_time
  ev_DeletedAt :: "go_time option"

text \<open>The zero value of the struct, the base of the events the code builds field by field.\<close>

definition Event0 :: Event where
  "Event0 = \<lparr>ev_ID = NilID, ev_OwnerID = NilID, ev_CalendarID = NilID, ev_UID = [], ev_SeriesID = None,
     ev_RecurrenceID = None, ev_Title = [], ev_Body = [], ev_Location = [], ev_URL = [], ev_AllDay = False,
     ev_Start = zero_time, ev_End = zero_time, ev_TZ = [], ev_RRule = [], ev_RDate = [], ev_ExDate = [],
     ev_Status = [], ev_Transparency = [], ev_Visibility = [], ev_Color = [], ev_ReadOnly = False,
     ev_Sequence = 0, ev_Version = 0, ev_Reminders = [], ev_SourceHash = [], ev_CreatedAt = zero_time,
     ev_UpdatedAt = zero_time, ev_DeletedAt = None\<rparr>"

definition MaxEventDuration :: duration where
  "MaxEventDuration = 366 * 24 * hour"

definition MaxSequence :: int where
  "MaxSequence = 2 ^ 24"

definition Event_ETag :: "Event \<Rightarrow> string" where
  "Event_ETag e = VersionTag (ev_Version e)"

definition IsMaster :: "Event \<Rightarrow> bool" where
  "IsMaster e \<longleftrightarrow> ev_SeriesID e = None \<and> (ev_RRule e \<noteq> [] \<or> length (ev_RDate e) > 0)"

definition IsOverride :: "Event \<Rightarrow> bool" where
  "IsOverride e \<longleftrightarrow> ev_SeriesID e \<noteq> None"

definition Duration :: "Event \<Rightarrow> duration" where
  "Duration e = time_sub (ev_End e) (ev_Start e)"

definition Event_Zone :: "zoneinfo \<Rightarrow> Event \<Rightarrow> location" where
  "Event_Zone zi e =
     (if ev_AllDay e \<or> ev_TZ e = [] then UTC
      else case LoadLocation zi (ev_TZ e) of None \<Rightarrow> UTC | Some loc \<Rightarrow> loc)"

record Occurrence =
  oc_Event :: Event
  oc_Instance :: "go_time option"

record EventPatch =
  evp_CalendarID :: "string Opt"
  evp_UID :: "string Opt"
  evp_Title :: "string Opt"
  evp_Body :: "string Opt"
  evp_Location :: "string Opt"
  evp_URL :: "string Opt"
  evp_AllDay :: "bool Opt"
  evp_Start :: "string Opt"
  evp_End :: "string Opt"
  evp_Timezone :: "string Opt"
  evp_RRule :: "string Opt"
  evp_RDate :: "string list Opt"
  evp_ExDate :: "string list Opt"
  evp_Status :: "string Opt"
  evp_Transparency :: "string Opt"
  evp_Visibility :: "string Opt"
  evp_Color :: "string Opt"
  evp_Reminders :: "int list Opt"

subsection \<open>Todos\<close>

record TodoList =
  tl_ID :: go_id
  tl_OwnerID :: go_id
  tl_Name :: string
  tl_Color :: string
  tl_Position :: int
  tl_IsDefault :: bool
  tl_CreatedAt :: go_time
  tl_UpdatedAt :: go_time

definition TodoList_ETag :: "TodoList \<Rightarrow> string" where
  "TodoList_ETag l = TimeTag (tl_UpdatedAt l)"

record TodoListPatch =
  tlp_Name :: "string Opt"
  tlp_Color :: "string Opt"
  tlp_Position :: "int Opt"

record Check =
  ck_ID :: go_id
  ck_TodoID :: go_id
  ck_Text :: string
  ck_Done :: bool
  ck_Position :: string
  ck_DoneAt :: "go_time option"
  ck_CreatedAt :: go_time

record CheckInput =
  ci_Text :: string
  ci_Done :: bool

record Todo =
  td_ID :: go_id
  td_OwnerID :: go_id
  td_ListID :: go_id
  td_ParentID :: "go_id option"
  td_UID :: string
  td_Title :: string
  td_Body :: string
  td_Status :: string
  td_Priority :: int
  td_Position :: string
  td_DueDate :: "go_time option"
  td_DueTime :: "int option"
  td_Duration :: int
  td_TZ :: string
  td_RRule :: string
  td_ShowOnCalendar :: bool
  td_CompletedAt :: "go_time option"
  td_Version :: int
  td_Reminders :: "int list"
  td_Checks :: "Check list"
  td_CreatedAt :: go_time
  td_UpdatedAt :: go_time
  td_DeletedAt :: "go_time option"

definition Todo0 :: Todo where
  "Todo0 = \<lparr>td_ID = NilID, td_OwnerID = NilID, td_ListID = NilID, td_ParentID = None, td_UID = [],
     td_Title = [], td_Body = [], td_Status = [], td_Priority = 0, td_Position = [], td_DueDate = None,
     td_DueTime = None, td_Duration = 0, td_TZ = [], td_RRule = [], td_ShowOnCalendar = False,
     td_CompletedAt = None, td_Version = 0, td_Reminders = [], td_Checks = [], td_CreatedAt = zero_time,
     td_UpdatedAt = zero_time, td_DeletedAt = None\<rparr>"

definition DefaultTodoMinutes :: int where
  "DefaultTodoMinutes = 30"

definition Todo_ETag :: "Todo \<Rightarrow> string" where
  "Todo_ETag t = VersionTag (td_Version t)"

definition Done :: "Todo \<Rightarrow> bool" where
  "Done t \<longleftrightarrow> td_Status t = ''completed''"

definition Todo_Zone :: "zoneinfo \<Rightarrow> Todo \<Rightarrow> location" where
  "Todo_Zone zi t =
     (if td_TZ t = [] then UTC
      else case LoadLocation zi (td_TZ t) of None \<Rightarrow> UTC | Some loc \<Rightarrow> loc)"

text \<open>Dates are stored as UTC midnights, so the date of \<open>DueDate\<close> is read in UTC.\<close>

definition DueStart :: "zoneinfo \<Rightarrow> Todo \<Rightarrow> go_time option" where
  "DueStart zi t =
     (case td_DueDate t of None \<Rightarrow> None
      | Some dd \<Rightarrow>
        (case time_date UTC dd of (y, m, d) \<Rightarrow>
          (case td_DueTime t of
             None \<Rightarrow> Some (go_date UTC y m d 0 0 0 0)
           | Some mins \<Rightarrow> Some (go_date (Todo_Zone zi t) y m d 0 mins 0 0))))"

text \<open>The start, the end and the all-day flag, or nothing for a todo without a date.\<close>

definition Span :: "zoneinfo \<Rightarrow> Todo \<Rightarrow> (go_time \<times> go_time \<times> bool) option" where
  "Span zi t =
     (case DueStart zi t of None \<Rightarrow> None
      | Some start \<Rightarrow>
          if td_DueTime t = None then Some (start, add_date UTC start 0 0 1, True)
          else let mins = (if td_Duration t \<le> 0 then DefaultTodoMinutes else td_Duration t)
               in Some (start, start + wrap64 (mins * minute), False))"

definition ChecksDone :: "Todo \<Rightarrow> nat" where
  "ChecksDone t = foldl (\<lambda>n c. if ck_Done c then n + 1 else n) 0 (td_Checks t)"

record TodoPatch =
  tdp_ListID :: "string Opt"
  tdp_ParentID :: "string Opt"
  tdp_Title :: "string Opt"
  tdp_Body :: "string Opt"
  tdp_Priority :: "int Opt"
  tdp_DueDate :: "string Opt"
  tdp_DueTime :: "string Opt"
  tdp_DurationMin :: "int Opt"
  tdp_Timezone :: "string Opt"
  tdp_RRule :: "string Opt"
  tdp_ShowOnCalendar :: "bool Opt"
  tdp_Reminders :: "int list Opt"
  tdp_Checks :: "CheckInput list Opt"

record TodoMove =
  tdm_ListID :: "string Opt"
  tdm_ParentID :: "string Opt"
  tdm_AfterID :: "string Opt"

subsection \<open>Shares, users and tokens\<close>

record Share =
  sh_ID :: go_id
  sh_OwnerID :: go_id
  sh_Name :: string
  sh_Token :: string
  sh_TokenHash :: string
  sh_TokenEnc :: string
  sh_View :: string
  sh_Period :: go_time
  sh_Detail :: string
  sh_IncludeTodos :: bool
  sh_ShowSleep :: bool
  sh_TZMode :: string
  sh_Calendars :: "go_id list"
  sh_Version :: int
  sh_AccessCount :: int
  sh_LastAccessedAt :: "go_time option"
  sh_CreatedAt :: go_time
  sh_UpdatedAt :: go_time
  sh_RevokedAt :: "go_time option"

definition Share_ETag :: "Share \<Rightarrow> string" where
  "Share_ETag s = VersionTag (sh_Version s)"

definition Share_Active :: "Share \<Rightarrow> bool" where
  "Share_Active s \<longleftrightarrow> sh_RevokedAt s = None"

definition Includes :: "Share \<Rightarrow> go_id \<Rightarrow> bool" where
  "Includes s cal \<longleftrightarrow> List.member (sh_Calendars s) cal"

record User =
  us_ID :: go_id
  us_Email :: string
  us_EmailVerifiedAt :: "go_time option"
  us_PasswordHash :: string
  us_DisplayName :: string
  us_Timezone :: string
  us_WeekStart :: int
  us_TimeFormat :: string
  us_DefaultView :: string
  us_SleepEnabled :: bool
  us_DedupPolicy :: string
  us_DateOnlyReminder :: int
  us_CreatedAt :: go_time
  us_UpdatedAt :: go_time
  us_DisabledAt :: "go_time option"

definition User_ETag :: "User \<Rightarrow> string" where
  "User_ETag u = TimeTag (us_UpdatedAt u)"

definition User_Location :: "zoneinfo \<Rightarrow> User \<Rightarrow> location" where
  "User_Location zi u =
     (if us_Timezone u \<noteq> []
      then (case LoadLocation zi (us_Timezone u) of Some loc \<Rightarrow> loc | None \<Rightarrow> UTC)
      else UTC)"

definition Disabled :: "User \<Rightarrow> bool" where
  "Disabled u \<longleftrightarrow> us_DisabledAt u \<noteq> None"

definition Verified :: "User \<Rightarrow> bool" where
  "Verified u \<longleftrightarrow> us_EmailVerifiedAt u \<noteq> None"

definition HasPassword :: "User \<Rightarrow> bool" where
  "HasPassword u \<longleftrightarrow> us_PasswordHash u \<noteq> []"

definition Name :: "User \<Rightarrow> string" where
  "Name u =
     (if us_DisplayName u \<noteq> [] then us_DisplayName u
      else case cut (us_Email u) (CHR ''@'') of Some (l, _) \<Rightarrow> l | None \<Rightarrow> us_Email u)"

record Session =
  se_ID :: go_id
  se_UserID :: go_id
  se_TokenHash :: string
  se_CSRFSecret :: string
  se_IP :: string
  se_UserAgent :: string
  se_CreatedAt :: go_time
  se_LastSeenAt :: go_time
  se_ExpiresAt :: go_time
  se_AbsoluteExpiresAt :: go_time
  se_ReauthAt :: "go_time option"

record APIToken =
  at_ID :: go_id
  at_UserID :: go_id
  at_Name :: string
  at_Prefix :: string
  at_SecretHash :: string
  at_Scopes :: "string list"
  at_CreatedAt :: go_time
  at_ExpiresAt :: "go_time option"
  at_LastUsedAt :: "go_time option"
  at_LastUsedIP :: string
  at_RevokedAt :: "go_time option"

definition APIToken_Active :: "APIToken \<Rightarrow> go_time \<Rightarrow> bool" where
  "APIToken_Active t now \<longleftrightarrow>
     at_RevokedAt t = None \<and> (case at_ExpiresAt t of None \<Rightarrow> True | Some e \<Rightarrow> now < e)"

subsection \<open>Undo entries and sync bindings\<close>

record UndoEntry =
  un_ID :: go_id
  un_OwnerID :: go_id
  un_Kind :: string
  un_Label :: string
  un_Payload :: string
  un_CreatedAt :: go_time
  un_UsedAt :: "go_time option"

definition Entity :: "UndoEntry \<Rightarrow> string" where
  "Entity e = (case cut (un_Kind e) (CHR ''.'') of Some (a, _) \<Rightarrow> a | None \<Rightarrow> un_Kind e)"

record SyncBinding =
  sb_ID :: go_id
  sb_OwnerID :: go_id
  sb_AccountID :: go_id
  sb_Entity :: string
  sb_CalendarID :: "go_id option"
  sb_ListID :: "go_id option"
  sb_RemoteID :: string
  sb_RemoteName :: string
  sb_RemoteAccess :: string
  sb_Direction :: string
  sb_Enabled :: bool
  sb_SyncToken :: string
  sb_UpdatedMin :: "go_time option"
  sb_WatchChannelID :: string
  sb_WatchResourceID :: string
  sb_WatchTokenHash :: string
  sb_WatchExpiresAt :: "go_time option"
  sb_NextPollAt :: go_time
  sb_LastSyncedAt :: "go_time option"
  sb_LastError :: string

definition Pulls :: "SyncBinding \<Rightarrow> bool" where
  "Pulls b \<longleftrightarrow> sb_Enabled b \<and> sb_Direction b \<noteq> ''push''"

definition Pushes :: "SyncBinding \<Rightarrow> bool" where
  "Pushes b \<longleftrightarrow> sb_Enabled b \<and> sb_Direction b \<noteq> ''pull''"

definition Watching :: "SyncBinding \<Rightarrow> go_time \<Rightarrow> bool" where
  "Watching b now \<longleftrightarrow>
     sb_WatchChannelID b \<noteq> [] \<and> (case sb_WatchExpiresAt b of None \<Rightarrow> False | Some e \<Rightarrow> e > now)"

definition LocalID :: "SyncBinding \<Rightarrow> go_id" where
  "LocalID b =
     (case sb_CalendarID b of Some c \<Rightarrow> c
      | None \<Rightarrow> (case sb_ListID b of Some l \<Rightarrow> l | None \<Rightarrow> NilID))"

subsection \<open>Fingerprints\<close>

text \<open>\<open>strings.Fields\<close>: the pieces between runs of white space; \<open>cur\<close> is the piece being read.\<close>

function fields_from :: "string \<Rightarrow> string \<Rightarrow> string list" where
  "fields_from cur s =
     (case s of
        [] \<Rightarrow> (if cur = [] then [] else [cur])
      | c # r \<Rightarrow>
          (case find (has_prefix s) space_seqs of
             None \<Rightarrow> fields_from (cur @ [c]) r
           | Some p \<Rightarrow> (if cur = [] then [] else [cur]) @ fields_from [] (drop (length p - 1) r)))"
  by pat_completeness auto
termination
  by (relation "measure (\<lambda>(cur, s). length s)") auto

declare fields_from.simps [simp del]

definition normText :: "string \<Rightarrow> string" where
  "normText s = join (fields_from [] (to_lower s)) '' ''"

text \<open>\<open>binary.BigEndian.PutUint64\<close> of the two's complement of an integer.\<close>

definition put_uint64 :: "int \<Rightarrow> string" where
  "put_uint64 i = map (\<lambda>k. char_of (nat ((i mod 2 ^ 64) div 256 ^ (7 - k) mod 256))) [0..<8]"

definition event_preimage :: "Event \<Rightarrow> string" where
  "event_preimage e =
     normText (ev_Title e) @ [CHR 0x00] @ normText (ev_Location e) @
     put_uint64 (unix (ev_Start e)) @ put_uint64 (unix (ev_End e)) @ [if ev_AllDay e then CHR 0x01 else CHR 0x00]"

text \<open>The hash function is an argument.\<close>

definition EventFingerprint :: "(string \<Rightarrow> string) \<Rightarrow> Event \<Rightarrow> string" where
  "EventFingerprint sha256 e = take 16 (sha256 (event_preimage e))"

definition pad4 :: "int \<Rightarrow> string" where
  "pad4 i = replicate (4 - length (itoa i)) (CHR ''0'') @ itoa i"

text \<open>\<open>Format("2006-01-02")\<close> for the years 0 to 9999.\<close>

definition format_date :: "civil \<Rightarrow> string" where
  "format_date c = (case c of (y, m, d) \<Rightarrow> pad4 y @ ''-'' @ pad2 m @ ''-'' @ pad2 d)"

definition todo_preimage :: "Todo \<Rightarrow> string" where
  "todo_preimage t =
     normText (td_Title t) @ [CHR 0x00] @
     (case td_DueDate t of None \<Rightarrow> [] | Some d \<Rightarrow> format_date (time_date UTC d)) @ [CHR 0x00] @
     (case td_DueTime t of None \<Rightarrow> [] | Some m \<Rightarrow> FormatClock m)"

definition TodoFingerprint :: "(string \<Rightarrow> string) \<Rightarrow> Todo \<Rightarrow> string" where
  "TodoFingerprint sha256 t = take 16 (sha256 (todo_preimage t))"

subsection \<open>Entity tags tell versions apart\<close>

lemma digit36_less: "d < 36 \<Longrightarrow> of_char (digit36 d) = (if d < 10 then 48 + d else 87 + d)"
  by (simp add: digit36_def of_char_of)

lemma digit36_inject: "d < 36 \<Longrightarrow> e < 36 \<Longrightarrow> digit36 d = digit36 e \<Longrightarrow> d = e"
proof -
  assume d: "d < 36" "e < 36" and "digit36 d = digit36 e"
  then have "(if d < 10 then 48 + d else 87 + d) = (if e < 10 then 48 + e else 87 + e)"
    using digit36_less by metis
  with d show "d = e" by (simp split: if_splits)
qed

definition tag_char :: "char \<Rightarrow> bool" where
  "tag_char c \<longleftrightarrow> is_digit c \<or> is_lower c"

lemma tag_char_digit36: "d < 36 \<Longrightarrow> tag_char (digit36 d)"
  by (cases "d < 10")
    (simp_all add: digit36_less tag_char_def is_digit_def is_lower_def less_eq_char_def char_codes)

lemma base36_chars: "c \<in> set (base36 n) \<Longrightarrow> tag_char c"
proof (induction n rule: base36.induct)
  case (1 n)
  then show ?case using tag_char_digit36 by (cases "n < 36") (auto simp: base36.simps [of n])
qed

lemma base36_not_Nil [simp]: "base36 n \<noteq> []"
  by (simp add: base36.simps [of n])

lemma base36_inject: "base36 m = base36 n \<Longrightarrow> m = n"
proof (induction m arbitrary: n rule: base36.induct)
  case (1 m)
  show ?case
  proof (cases "m < 36 \<or> n < 36")
    case True
    then show ?thesis
      using 1 digit36_inject base36_not_Nil [symmetric]
      by (auto simp: base36.simps [of m] base36.simps [of n] split: if_splits)
  next
    case False
    then have "base36 (m div 36) = base36 (n div 36)" "digit36 (m mod 36) = digit36 (n mod 36)"
      using 1(2) by (auto simp: base36.simps [of m] base36.simps [of n])
    then have "m div 36 = n div 36" "m mod 36 = n mod 36"
      using 1(1) False digit36_inject by auto
    then show ?thesis by (metis div_mult_mod_eq)
  qed
qed

lemma format36_chars: "c \<in> set (format36 i) \<Longrightarrow> tag_char c \<or> c = CHR ''-''"
  using base36_chars by (auto simp: format36_def split: if_splits)

lemma base36_no_sign: "base36 n \<noteq> CHR ''-'' # x"
proof
  assume "base36 n = CHR ''-'' # x"
  then have "tag_char (CHR ''-'')" using base36_chars [of "CHR ''-''" n] by simp
  then show False by (simp add: tag_char_def is_digit_def is_lower_def)
qed

lemma format36_inject: "format36 i = format36 j \<Longrightarrow> i = j"
  using base36_no_sign base36_no_sign [symmetric]
  by (auto simp: format36_def split: if_splits dest!: base36_inject)

lemma VersionTag_inject: "VersionTag m = VersionTag n \<Longrightarrow> m = n"
  by (simp add: VersionTag_def format36_inject)

lemma VersionTag_no_comma: "CHR '','' \<notin> set (VersionTag n)"
  using format36_chars [of "CHR '',''" n]
  by (auto simp: VersionTag_def tag_char_def is_digit_def is_lower_def)

lemma VersionTag_trim [simp]: "trim_space (VersionTag n) = VersionTag n"
  by (rule trim_space_plain) (simp add: VersionTag_def plain_def)

lemma VersionTag_shape [simp]:
  "VersionTag n \<noteq> []" "hd (VersionTag n) = CHR 0x22" "last (VersionTag n) = CHR 0x22"
  "trim_prefix (VersionTag n) ''W/'' = VersionTag n"
  by (simp_all add: VersionTag_def trim_prefix_def)

lemma trim_space_Cons_space:
  assumes "s \<noteq> []" and "plain (hd s)" and "plain (last s)"
  shows "trim_space (CHR '' '' # s) = s"
proof -
  have f: "find (has_prefix (CHR '' '' # s)) space_seqs = Some '' ''"
    by (simp add: space_seqs_def)
  have n: "\<forall>q \<in> set space_seqs. \<not> has_prefix s q"
    using has_prefix_hd [of s] space_seqs_hd assms by metis
  have "trim_left (CHR '' '' # s) = s" using f n by (simp add: trim_left_def strip_none)
  moreover have "trim_space s = s" using assms by (intro trim_space_plain) simp
  moreover have "trim_left s = s" using n by (simp add: trim_left_def strip_none)
  ultimately show ?thesis by (simp add: trim_space_def)
qed

lemma split_join_tags:
  "ms \<noteq> [] \<Longrightarrow>
     split (join (map VersionTag ms) '', '') (CHR '','') =
       VersionTag (hd ms) # map (\<lambda>m. CHR '' '' # VersionTag m) (tl ms)"
proof (induction ms)
  case (Cons m ms)
  show ?case
  proof (cases ms)
    case Nil
    then show ?thesis using VersionTag_no_comma by (simp add: split_no_sep)
  next
    case (Cons n ns)
    then show ?thesis
      using \<open>ms \<noteq> [] \<Longrightarrow> _\<close> split_append [OF VersionTag_no_comma, of m] by simp
  qed
qed simp

lemma join_tags_ends:
  "ms \<noteq> [] \<Longrightarrow> join (map VersionTag ms) '', '' \<noteq> [] \<and>
     hd (join (map VersionTag ms) '', '') = CHR 0x22 \<and> last (join (map VersionTag ms) '', '') = CHR 0x22"
  by (induction ms rule: induct_list012) auto

subsection \<open>Clock times\<close>

lemma nat_digits_small: "n < 10 \<Longrightarrow> nat_digits n = [char_of (48 + n)]"
  by (simp add: nat_digits.simps)

lemma nat_digits_two: "10 \<le> n \<Longrightarrow> n < 100 \<Longrightarrow> nat_digits n = [char_of (48 + n div 10), char_of (48 + n mod 10)]"
  by (subst nat_digits.simps) (simp add: nat_digits_small)

lemma pad2_two:
  assumes "0 \<le> i" and "i < 100"
  shows "pad2 i = [char_of (48 + nat i div 10), char_of (48 + nat i mod 10)]"
proof (cases "i < 10")
  case True
  then show ?thesis using assms by (simp add: pad2_def itoa_def nat_digits_small char_of_48)
next
  case False
  then show ?thesis using assms by (simp add: pad2_def itoa_def nat_digits_two)
qed

lemma digit_char:
  "d < 10 \<Longrightarrow> is_digit (char_of (48 + d :: nat))" "d < 10 \<Longrightarrow> digit_val (char_of (48 + d :: nat)) = int d"
  by (simp_all add: is_digit_def digit_val_def less_eq_char_def of_char_of)

lemma digit_plain: "d < 10 \<Longrightarrow> plain (char_of (48 + d :: nat))"
  by (simp add: plain_def less_eq_char_def of_char_of char_codes)

lemma getnum_pad2: "0 \<le> i \<Longrightarrow> i < 100 \<Longrightarrow> getnum (pad2 i @ r) fixed = Some (i, r)"
proof -
  assume i: "0 \<le> i" "i < 100"
  have "int (nat i div 10) * 10 + int (nat i mod 10) = i"
    using i by (metis int_nat_eq of_nat_add of_nat_mult of_nat_numeral div_mult_mod_eq)
  then show ?thesis using i by (simp add: pad2_two digit_char)
qed

lemma FormatClock_trim:
  assumes "0 \<le> m" and "m < minutesPerDay"
  shows "trim_space (FormatClock m) = FormatClock m"
proof -
  have "m div 60 < 24" "0 \<le> m div 60" "m mod 60 < 60" "0 \<le> m mod 60"
    using assms int_div_bounds [of 60 m] by (auto simp: minutesPerDay_def pos_imp_zdiv_nonneg_iff)
  then have "plain (hd (pad2 (m div 60)))" "plain (last (pad2 (m mod 60)))"
    by (simp_all add: pad2_two digit_plain)
  moreover have "pad2 i \<noteq> []" for i by (simp add: pad2_def itoa_def)
  ultimately show ?thesis
    using assms by (intro trim_space_plain) (simp add: FormatClock_def go_div_nonneg go_mod_nonneg)
qed

subsection \<open>Spans\<close>

lemma Span_all_day:
  "Span zi t = Some (s, e, True) \<Longrightarrow> e = s + day"
  by (auto simp: Span_def add_date_UTC Let_def split: option.splits if_splits)

lemma Span_timed:
  assumes "Span zi t = Some (s, e, False)"
  shows "e = s + wrap64 ((if td_Duration t \<le> 0 then DefaultTodoMinutes else td_Duration t) * minute)"
  using assms by (auto simp: Span_def Let_def split: option.splits if_splits)

subsection \<open>Reminders\<close>

lemma NormalizeReminders_out:
  "NormalizeReminders v f xs = (v', out) \<Longrightarrow> sorted_wrt (<) out \<and> set out = set xs"
  using compact_sorted_distinct [of "sort xs"] by (auto simp: NormalizeReminders_def Let_def)

lemma Add_neq [simp]: "Add v f m \<noteq> v" "Add (Add v f m) f n \<noteq> v"
  by (simp_all add: Add_def)

lemma NormalizeReminders_ok:
  "NormalizeReminders v f xs = (v', out) \<Longrightarrow>
     v' = v \<longleftrightarrow> length out \<le> MaxReminders \<and> (\<forall>m \<in> set out. 0 \<le> m \<and> m \<le> MaxReminderMinutes)"
  by (auto simp: NormalizeReminders_def Let_def list_ex_iff not_le split: if_splits)

subsection \<open>Fingerprint preimages\<close>

lemma put_uint64_length [simp]: "length (put_uint64 i) = 8"
  by (simp add: put_uint64_def)

text \<open>The bytes of a number determine it.\<close>

lemma base256_sum:
  fixes x :: nat
  assumes "x < 256 ^ n"
  shows "x = (\<Sum>k < n. (x div 256 ^ k mod 256) * 256 ^ k)"
  using assms
proof (induction n arbitrary: x)
  case (Suc n)
  have "x div 256 < 256 ^ n" using Suc.prems by (simp add: less_mult_imp_div_less mult.commute)
  then have "x div 256 = (\<Sum>k < n. (x div 256 div 256 ^ k mod 256) * 256 ^ k)" by (rule Suc.IH)
  then have "x = x mod 256 + 256 * (\<Sum>k < n. (x div 256 ^ Suc k mod 256) * 256 ^ k)"
    by (metis (no_types, lifting) div_mult2_eq mod_mult_div_eq power_Suc sum.cong)
  also have "\<dots> = (\<Sum>k < Suc n. (x div 256 ^ k mod 256) * 256 ^ k)"
    by (simp add: sum.lessThan_Suc_shift sum_distrib_left mult_ac del: sum.lessThan_Suc)
  finally show ?case .
qed simp

lemma put_uint64_nth:
  "k < 8 \<Longrightarrow> of_char (put_uint64 i ! (7 - k)) = nat (i mod 2 ^ 64) div 256 ^ k mod 256"
proof -
  assume "k < 8"
  then have "[0..<8] ! (7 - k) = 7 - k" "7 - (7 - k) = k" using nth_upt [of 0 "7 - k" 8] by simp_all
  then have "put_uint64 i ! (7 - k) = char_of (nat ((i mod 2 ^ 64) div 256 ^ k mod 256))"
    by (simp add: put_uint64_def)
  moreover have "nat ((i mod 2 ^ 64) div 256 ^ k mod 256) = nat (i mod 2 ^ 64) div 256 ^ k mod 256"
    by (simp add: nat_div_distrib nat_mod_distrib nat_power_eq pos_imp_zdiv_nonneg_iff)
  ultimately show ?thesis by (simp add: of_char_of)
qed

lemma put_uint64_inject: "put_uint64 i = put_uint64 j \<Longrightarrow> i mod 2 ^ 64 = j mod 2 ^ 64"
proof -
  assume eq: "put_uint64 i = put_uint64 j"
  have b: "nat (x mod 2 ^ 64) < 256 ^ 8" for x :: int
    by (simp add: nat_less_iff)
  have "nat (i mod 2 ^ 64) div 256 ^ k mod 256 = nat (j mod 2 ^ 64) div 256 ^ k mod 256" if "k < 8" for k
    using eq put_uint64_nth [OF that] by metis
  then have "nat (i mod 2 ^ 64) = nat (j mod 2 ^ 64)"
    using base256_sum [OF b [of i]] base256_sum [OF b [of j]] by (metis (no_types, lifting) lessThan_iff sum.cong)
  then show ?thesis by simp
qed

lemma split_at_nul:
  "CHR 0x00 \<notin> set a \<Longrightarrow> CHR 0x00 \<notin> set b \<Longrightarrow> a @ CHR 0x00 # x = b @ CHR 0x00 # y \<Longrightarrow> a = b \<and> x = y"
  by (metis cut_append option.inject prod.inject)

lemma mod_inject64: "min_int64 \<le> i \<Longrightarrow> i \<le> max_int64 \<Longrightarrow> min_int64 \<le> j \<Longrightarrow> j \<le> max_int64 \<Longrightarrow>
    i mod 2 ^ 64 = j mod 2 ^ 64 \<Longrightarrow> i = j"
proof -
  assume b: "min_int64 \<le> i" "i \<le> max_int64" "min_int64 \<le> j" "j \<le> max_int64"
    and "i mod 2 ^ 64 = j mod 2 ^ 64"
  then have "2 ^ 64 dvd (i - j)" by (simp add: mod_eq_dvd_iff)
  then obtain k where "i - j = 2 ^ 64 * k" by (rule dvdE)
  moreover have "\<bar>i - j\<bar> < 2 ^ 64" using b by (simp add: min_int64_def max_int64_def)
  ultimately show "i = j" by (cases "k = 0") (auto simp: abs_mult)
qed

subsection \<open>Properties\<close>

text \<open>
  Lost updates are refused.  A client that sends the tags of versions it has seen, as an
  \<open>If-Match\<close> list, passes \<open>CheckIfMatch\<close> exactly when the current version is one of them; without
  the header, or with \<open>*\<close>, it always passes.
\<close>

theorem CheckIfMatch_versions:
  assumes "ms \<noteq> []"
  shows "(CheckIfMatch (join (map VersionTag ms) '', '') (VersionTag n) = None \<longleftrightarrow> n \<in> set ms) \<and>
         CheckIfMatch [] (VersionTag n) = None \<and> CheckIfMatch ''*'' (VersionTag n) = None"
proof (intro conjI)
  let ?h = "join (map VersionTag ms) '', ''"
  have ends: "?h \<noteq> []" "hd ?h = CHR 0x22" "last ?h = CHR 0x22" using join_tags_ends [OF assms] by auto
  then have trim: "trim_space ?h = ?h" by (intro trim_space_plain) (simp add: plain_def)
  have star: "?h \<noteq> ''*''"
  proof
    assume "?h = ''*''"
    then have "hd ?h = CHR ''*''" by simp
    with ends(2) show False by simp
  qed
  have sp: "trim_space (CHR '' '' # VersionTag m) = VersionTag m" for m
    by (rule trim_space_Cons_space) (simp_all add: plain_def)
  have "MatchETag ?h (VersionTag n) \<longleftrightarrow> (\<exists>m \<in> set ms. VersionTag m = VersionTag n)"
    unfolding MatchETag_def Let_def trim split_join_tags [OF assms]
    using assms ends(1) star by (cases ms) (simp_all add: list_ex_iff sp)
  then show "CheckIfMatch ?h (VersionTag n) = None \<longleftrightarrow> n \<in> set ms"
    using ends VersionTag_inject by (auto simp: CheckIfMatch_def trim)
  show "CheckIfMatch [] (VersionTag n) = None" by (simp add: CheckIfMatch_def trim_space_plain)
  have "trim_space ''*'' = ''*''" by (rule trim_space_plain) (simp add: plain_def)
  then show "CheckIfMatch ''*'' (VersionTag n) = None" by (simp add: CheckIfMatch_def MatchETag_def Let_def)
qed

lemma CheckIfMatch_versions_witness:
  "CheckIfMatch (join (map VersionTag [3, 41]) '', '') (VersionTag 41) = None \<and>
   CheckIfMatch (join (map VersionTag [3, 41]) '', '') (VersionTag 42) \<noteq> None"
  using CheckIfMatch_versions [of "[3, 41]" 41] CheckIfMatch_versions [of "[3, 41]" 42] by simp

text \<open>
  Clock times survive printing and parsing: \<open>ParseClock\<close> reads back what \<open>FormatClock\<close> writes
  for every minute of the day, and \<open>TimeOfDay.Add\<close> moves around the clock modulo one day and
  stays a valid time.
\<close>

theorem clock_round_trip:
  assumes "0 \<le> m" and "m < minutesPerDay"
  shows "ParseClock (FormatClock m) = Some m \<and>
         Minutes (TimeOfDay_Add t n) = (Minutes t + n) mod minutesPerDay \<and>
         ParseClock (TimeOfDay_String (TimeOfDay_Add t n)) = Some ((Minutes t + n) mod minutesPerDay)"
proof -
  have parse: "ParseClock (FormatClock k) = Some k" if k: "0 \<le> k" "k < minutesPerDay" for k
  proof -
    define q r where "q = go_div k 60" and "r = go_mod k 60"
    have "q = k div 60" "r = k mod 60" using k by (simp_all add: q_def r_def go_div_nonneg go_mod_nonneg)
    then have h: "0 \<le> q" "q < 24" "0 \<le> r" "r < 60" "q * 60 + r = k"
      using k int_div_bounds [of 60 k] by (auto simp: minutesPerDay_def pos_imp_zdiv_nonneg_iff)
    then have "parse_layout_hm (FormatClock k) = Some (q, r)"
      using getnum_pad2 [of r "[]" True]
      by (simp add: FormatClock_def q_def [symmetric] r_def [symmetric] parse_layout_hm_def parse_hm_def
          getnum_pad2 skip_char_def)
    then show ?thesis using FormatClock_trim [OF k] h(5) by (simp add: ParseClock_def)
  qed
  define k where "k = go_mod (go_mod (Minutes t + n) minutesPerDay + minutesPerDay) minutesPerDay"
  have day: "0 < minutesPerDay" by (simp add: minutesPerDay_def)
  have "0 \<le> go_mod (Minutes t + n) minutesPerDay + minutesPerDay"
    using go_mod_bound [OF day, of "Minutes t + n"] by simp
  then have k: "k = (Minutes t + n) mod minutesPerDay"
    unfolding k_def using day by (simp add: go_mod_nonneg go_mod_mod)
  then have "0 \<le> k" "k < minutesPerDay" by (simp_all add: minutesPerDay_def)
  moreover from this have "Minutes (TimeOfDay_Add t n) = k"
    unfolding TimeOfDay_Add_def Let_def k_def [symmetric]
    by (simp add: Minutes_def go_div_nonneg go_mod_nonneg)
  ultimately show ?thesis using parse assms k by (simp add: TimeOfDay_String_def)
qed

lemma clock_round_trip_witness:
  "ParseClock (FormatClock 605) = Some 605 \<and>
   Minutes (TimeOfDay_Add \<lparr>tod_Hour = 23, tod_Minute = 30\<rparr> 45) = 15"
  using clock_round_trip [of 605 "\<lparr>tod_Hour = 23, tod_Minute = 30\<rparr>" 45]
  by (simp add: minutesPerDay_def Minutes_def)

text \<open>
  Reminders are normalised: the result is strictly increasing with the same members as the
  input, and a field error is added exactly when there are more than \<open>MaxReminders\<close> of them or one
  lies outside \<open>0\<close> to \<open>MaxReminderMinutes\<close>.
\<close>

theorem NormalizeReminders_spec:
  "case NormalizeReminders v field xs of (v', out) \<Rightarrow>
     sorted_wrt (<) out \<and> set out = set xs \<and>
     (v' = v \<longleftrightarrow> card (set xs) \<le> MaxReminders \<and> (\<forall>m. m \<in> set xs \<longrightarrow> 0 \<le> m \<and> m \<le> MaxReminderMinutes))"
proof -
  obtain v' out where r: "NormalizeReminders v field xs = (v', out)" by force
  have o: "sorted_wrt (<) out" "set out = set xs" using NormalizeReminders_out [OF r] by auto
  then have "distinct out" by (simp add: strict_sorted_iff)
  then have "length out = card (set xs)" using o(2) distinct_card by metis
  then show ?thesis using r o NormalizeReminders_ok [OF r] by auto
qed

lemma NormalizeReminders_spec_witness:
  "case NormalizeReminders [] ''reminders'' [30, 10, 30] of (v', out) \<Rightarrow>
     sorted_wrt (<) out \<and> set out = {10, 30}"
  using NormalizeReminders_spec [of "[30, 10, 30]" "[]" "''reminders''"]
  by (auto split: prod.splits)

text \<open>
  Fingerprints compare what they should.  For titles without NUL bytes and times in the range
  of 64 bits, two events feed the same bytes to the hash exactly when their normalised titles and
  locations, their start and end seconds and their all-day flags agree.
\<close>

theorem event_preimage_iff:
  assumes "CHR 0x00 \<notin> set (normText (ev_Title e))" and "CHR 0x00 \<notin> set (normText (ev_Title f))"
    and "min_int64 \<le> unix (ev_Start e)" "unix (ev_Start e) \<le> max_int64"
    and "min_int64 \<le> unix (ev_Start f)" "unix (ev_Start f) \<le> max_int64"
    and "min_int64 \<le> unix (ev_End e)" "unix (ev_End e) \<le> max_int64"
    and "min_int64 \<le> unix (ev_End f)" "unix (ev_End f) \<le> max_int64"
  shows "event_preimage e = event_preimage f \<longleftrightarrow>
           normText (ev_Title e) = normText (ev_Title f) \<and>
           normText (ev_Location e) = normText (ev_Location f) \<and>
           unix (ev_Start e) = unix (ev_Start f) \<and> unix (ev_End e) = unix (ev_End f) \<and>
           ev_AllDay e = ev_AllDay f"
proof
  let ?tail = "\<lambda>x. put_uint64 (unix (ev_Start x)) @ put_uint64 (unix (ev_End x)) @
      [if ev_AllDay x then CHR 0x01 else CHR 0x00]"
  have len: "length (?tail e) = length (?tail f)" by simp
  assume "event_preimage e = event_preimage f"
  then have "normText (ev_Title e) @ CHR 0x00 # (normText (ev_Location e) @ ?tail e) =
      normText (ev_Title f) @ CHR 0x00 # (normText (ev_Location f) @ ?tail f)"
    by (simp only: event_preimage_def append_Cons append_Nil)
  from split_at_nul [OF assms(1,2) this]
  have t: "normText (ev_Title e) = normText (ev_Title f)"
    and r: "normText (ev_Location e) @ ?tail e = normText (ev_Location f) @ ?tail f" by auto
  have l: "normText (ev_Location e) = normText (ev_Location f)" and tl: "?tail e = ?tail f"
    using r append_eq_append_conv [OF disjI2 [OF len]] by auto
  have "put_uint64 (unix (ev_Start e)) = put_uint64 (unix (ev_Start f))"
    "put_uint64 (unix (ev_End e)) = put_uint64 (unix (ev_End f))" "ev_AllDay e = ev_AllDay f"
    using tl by (auto simp: append_eq_append_conv split: if_splits)
  then show "normText (ev_Title e) = normText (ev_Title f) \<and>
      normText (ev_Location e) = normText (ev_Location f) \<and> unix (ev_Start e) = unix (ev_Start f) \<and>
      unix (ev_End e) = unix (ev_End f) \<and> ev_AllDay e = ev_AllDay f"
    using t l mod_inject64 [OF assms(3-6)] mod_inject64 [OF assms(7-10)]
      put_uint64_inject [of "unix (ev_Start e)" "unix (ev_Start f)"]
      put_uint64_inject [of "unix (ev_End e)" "unix (ev_End f)"] by blast
qed (simp add: event_preimage_def)

lemma event_preimage_iff_witness:
  "event_preimage (Event0\<lparr>ev_AllDay := True\<rparr>) \<noteq> event_preimage Event0"
proof -
  have "normText [] = []" by (simp add: normText_def to_lower_def fields_from.simps)
  then show ?thesis
    using event_preimage_iff [of "Event0\<lparr>ev_AllDay := True\<rparr>" Event0]
    by (simp add: Event0_def unix_def zero_time_def second_def min_int64_def max_int64_def)
qed

end
