(* ===== verification/Realtime.thy ===== *)
theory Realtime
  imports Domain "HOL-Library.AList"
begin

text \<open>
  Live updates, \<open>internal/realtime\<close> with \<open>domain.Change\<close> and \<open>domain.Notice\<close>: the change filters
  (\<open>filter.go\<close>), the payload check of the listener (\<open>listener.go\<close>), the hub that fans changes out to
  buffered subscriptions (\<open>hub.go\<close>), and the stream loop that turns what a subscription receives
  into messages to the browser (\<open>stream.go\<close>).

  Subscriptions live in a heap, a list indexed by the pointer, because the hub and the stream hold
  the same object.  A send on a closed channel and a second close are panics, so that their absence
  is a theorem.  Each hub method runs under the hub's mutex and is one step; a stream receives in
  one step and reads the loss flag in a later one, so other steps may come between.
\<close>

subsection \<open>Changes and filters\<close>

record Change =
  ch_Seq :: int
  ch_OwnerID :: go_id
  ch_Entity :: string
  ch_EntityID :: go_id
  ch_Op :: string
  ch_CalendarID :: "go_id option"
  ch_ListID :: "go_id option"
  ch_From :: "go_time option"
  ch_To :: "go_time option"
  ch_Origin :: string

definition Change0 :: Change where
  "Change0 = \<lparr>ch_Seq = 0, ch_OwnerID = NilID, ch_Entity = [], ch_EntityID = NilID, ch_Op = [],
     ch_CalendarID = None, ch_ListID = None, ch_From = None, ch_To = None, ch_Origin = []\<rparr>"

record Notice =
  no_OwnerID :: go_id
  no_Title :: string
  no_Body :: string
  no_URL :: string
  no_Tag :: string

datatype Action = Skip | Refresh | Reload

fun action_rank :: "Action \<Rightarrow> nat" where
  "action_rank Skip = 0"
| "action_rank Refresh = 1"
| "action_rank Reload = 2"

instantiation Action :: linorder
begin

definition less_eq_Action :: "Action \<Rightarrow> Action \<Rightarrow> bool" where
  "less_eq_Action a b \<longleftrightarrow> action_rank a \<le> action_rank b"

definition less_Action :: "Action \<Rightarrow> Action \<Rightarrow> bool" where
  "less_Action a b \<longleftrightarrow> action_rank a < action_rank b"

instance
proof
  fix a b :: Action
  show "a \<le> b \<Longrightarrow> b \<le> a \<Longrightarrow> a = b"
    by (cases a; cases b) (simp_all add: less_eq_Action_def)
qed (auto simp: less_eq_Action_def less_Action_def)

end

lemma action_order [simp]: "Skip \<le> a" "a \<noteq> Skip \<longleftrightarrow> Refresh \<le> a"
  by (cases a; simp add: less_eq_Action_def)+

definition Overlaps :: "Change \<Rightarrow> go_time \<Rightarrow> go_time \<Rightarrow> bool" where
  "Overlaps c from to =
     (case ch_From c of None \<Rightarrow> False
      | Some a \<Rightarrow>
          if \<not> a < to then False
          else (case ch_To c of None \<Rightarrow> True
                | Some b \<Rightarrow> b > from \<or> (\<not> b > a \<and> \<not> a < from)))"

definition RangeFilter :: "go_time \<Rightarrow> go_time \<Rightarrow> Change \<Rightarrow> Action" where
  "RangeFilter from to c =
     (if ch_Entity c = ''event'' \<or> ch_Entity c = ''todo''
      then (if Overlaps c from to then Refresh else Skip)
      else if ch_Entity c = ''calendar'' \<or> ch_Entity c = ''list'' \<or> ch_Entity c = ''settings'' then Refresh
      else Skip)"

definition ShareFilter :: "go_id \<Rightarrow> go_id list \<Rightarrow> bool \<Rightarrow> go_time \<Rightarrow> go_time \<Rightarrow> Change \<Rightarrow> Action" where
  "ShareFilter share cals todos from to c =
     (if ch_Entity c = ''share'' then (if ch_EntityID c = share then Reload else Skip)
      else if ch_Entity c = ''calendar'' then (if List.member cals (ch_EntityID c) then Refresh else Skip)
      else if ch_Entity c = ''event''
        then (case ch_CalendarID c of
                None \<Rightarrow> Skip
              | Some k \<Rightarrow> if List.member cals k \<and> Overlaps c from to then Refresh else Skip)
      else if ch_Entity c = ''todo'' then (if todos \<and> Overlaps c from to then Refresh else Skip)
      else if ch_Entity c = ''list'' then (if todos then Refresh else Skip)
      else if ch_Entity c = ''settings'' then Refresh
      else Skip)"

subsection \<open>The payload of a notification\<close>

record payload =
  p_Seq :: int
  p_Owner :: go_id
  p_Entity :: string
  p_ID :: go_id
  p_Op :: string
  p_Calendar :: "go_id option"
  p_List :: "go_id option"
  p_From :: "go_time option"
  p_To :: "go_time option"
  p_Origin :: "string option"

text \<open>The JSON decoder is an argument.\<close>

definition ParsePayload :: "(string \<Rightarrow> go_error + payload) \<Rightarrow> string \<Rightarrow> go_error + Change" where
  "ParsePayload unmarshal s =
     (case unmarshal s of
        Inl e \<Rightarrow> Inl e
      | Inr p \<Rightarrow>
          if p_Seq p \<le> 0 \<or> p_Owner p = NilID \<or> p_Entity p = []
          then Inl (Other ''realtime: incomplete change payload'')
          else Inr \<lparr>ch_Seq = p_Seq p, ch_OwnerID = p_Owner p, ch_Entity = p_Entity p, ch_EntityID = p_ID p,
                    ch_Op = p_Op p, ch_CalendarID = p_Calendar p, ch_ListID = p_List p, ch_From = p_From p,
                    ch_To = p_To p, ch_Origin = (case p_Origin p of None \<Rightarrow> [] | Some x \<Rightarrow> x)\<rparr>)"

subsection \<open>The hub\<close>

definition maxSubsPerOwner :: nat where
  "maxSubsPerOwner = 8"

definition subBuffer :: nat where
  "subBuffer = 64"

record Sub =
  su_owner :: go_id
  su_C :: "Change list"
  su_N :: "Notice list"
  su_closed :: bool
  su_lost :: bool
  su_refused :: bool

record Hub =
  heap :: "Sub list"
  subs :: "(go_id \<times> nat list) list"
  closed :: bool

definition NewHub :: Hub where
  "NewHub = \<lparr>heap = [], subs = [], closed = False\<rparr>"

definition Refused :: "Sub \<Rightarrow> bool" where
  "Refused s = su_refused s"

text \<open>\<open>Swap(false)\<close>: the old flag and the subscription with the flag cleared.\<close>

definition Lost :: "Sub \<Rightarrow> bool \<times> Sub" where
  "Lost s = (su_lost s, s\<lparr>su_lost := False\<rparr>)"

definition owner_set :: "Hub \<Rightarrow> go_id \<Rightarrow> nat list" where
  "owner_set h o1 = (case map_of (subs h) o1 of None \<Rightarrow> [] | Some ps \<Rightarrow> ps)"

definition close_sub :: "Sub \<Rightarrow> go_panic + Sub" where
  "close_sub s = (if su_closed s then Inl CloseOfClosedChannel else Inr (s\<lparr>su_closed := True\<rparr>))"

definition Subscribe :: "Hub \<Rightarrow> go_id \<Rightarrow> nat \<times> Hub" where
  "Subscribe h owner =
     (let p = length (heap h);
          s = \<lparr>su_owner = owner, su_C = [], su_N = [], su_closed = False, su_lost = False, su_refused = False\<rparr>
      in if closed h then (p, h\<lparr>heap := heap h @ [s\<lparr>su_closed := True\<rparr>]\<rparr>)
         else if length (owner_set h owner) \<ge> maxSubsPerOwner
         then (p, h\<lparr>heap := heap h @ [s\<lparr>su_refused := True, su_closed := True\<rparr>]\<rparr>)
         else (p, h\<lparr>heap := heap h @ [s], subs := AList.update owner (p # owner_set h owner) (subs h)\<rparr>))"

text \<open>Apply an operation to every subscription of a list of pointers.\<close>

fun each_sub :: "(Sub \<Rightarrow> go_panic + Sub) \<Rightarrow> nat list \<Rightarrow> Sub list \<Rightarrow> go_panic + Sub list" where
  "each_sub f [] hp = Inr hp"
| "each_sub f (p # ps) hp =
     (if p < length hp
      then (case f (hp ! p) of Inl e \<Rightarrow> Inl e | Inr s \<Rightarrow> each_sub f ps (hp[p := s]))
      else Inl NilDereference)"

definition deliver :: "Change \<Rightarrow> Sub \<Rightarrow> go_panic + Sub" where
  "deliver c s =
     (if su_closed s then Inl SendOnClosedChannel
      else if length (su_C s) < subBuffer then Inr (s\<lparr>su_C := su_C s @ [c]\<rparr>)
      else Inr (s\<lparr>su_lost := True\<rparr>))"

definition notify_one :: "Notice \<Rightarrow> Sub \<Rightarrow> go_panic + Sub" where
  "notify_one n s =
     (if su_closed s then Inl SendOnClosedChannel
      else if length (su_N s) < subBuffer then Inr (s\<lparr>su_N := su_N s @ [n]\<rparr>)
      else Inr s)"

definition Notify :: "Hub \<Rightarrow> Notice \<Rightarrow> go_panic + Hub" where
  "Notify h n =
     (case each_sub (notify_one n) (owner_set h (no_OwnerID n)) (heap h) of
        Inl e \<Rightarrow> Inl e | Inr hp \<Rightarrow> Inr (h\<lparr>heap := hp\<rparr>))"

definition Unsubscribe :: "Hub \<Rightarrow> nat \<Rightarrow> Hub" where
  "Unsubscribe h p =
     (let owner = su_owner (heap h ! p); set1 = owner_set h owner in
      if p \<notin> set set1 then h
      else let set2 = removeAll p set1 in
           if set2 = [] then h\<lparr>subs := AList.delete owner (subs h)\<rparr>
           else h\<lparr>subs := AList.update owner set2 (subs h)\<rparr>)"

definition Publish :: "Hub \<Rightarrow> Change \<Rightarrow> go_panic + Hub" where
  "Publish h c =
     (case each_sub (deliver c) (owner_set h (ch_OwnerID c)) (heap h) of
        Inl e \<Rightarrow> Inl e | Inr hp \<Rightarrow> Inr (h\<lparr>heap := hp\<rparr>))"

definition all_subs :: "Hub \<Rightarrow> nat list" where
  "all_subs h = concat (map snd (subs h))"

definition Resync :: "Hub \<Rightarrow> go_panic + Hub" where
  "Resync h =
     (case each_sub (\<lambda>s. deliver Change0 (s\<lparr>su_lost := True\<rparr>)) (all_subs h) (heap h) of
        Inl e \<Rightarrow> Inl e | Inr hp \<Rightarrow> Inr (h\<lparr>heap := hp\<rparr>))"

definition Close :: "Hub \<Rightarrow> go_panic + Hub" where
  "Close h =
     (if closed h then Inr h
      else (case each_sub close_sub (all_subs h) (heap h) of
              Inl e \<Rightarrow> Inl e
            | Inr hp \<Rightarrow> Inr (h\<lparr>heap := hp, subs := [], closed := True\<rparr>)))"

definition hub_Len :: "Hub \<Rightarrow> nat" where
  "hub_Len h = sum_list (map (length \<circ> snd) (subs h))"

subsection \<open>The stream\<close>

definition replayLimit :: nat where
  "replayLimit = 1000"

text \<open>What the stream sends before its loop: the strongest action among the replayed changes, and
  at least a refresh when the replay was cut off.\<close>

definition replay_action :: "(Change \<Rightarrow> Action) \<Rightarrow> Change list \<Rightarrow> Action" where
  "replay_action flt pending =
     (let act = foldl (\<lambda>a ch. max a (flt ch)) Skip pending in
      if length pending \<ge> replayLimit then max act Refresh else act)"

text \<open>What the loop sends for a received change.\<close>

definition stream_action :: "(Change \<Rightarrow> Action) \<Rightarrow> bool \<Rightarrow> Change \<Rightarrow> Action" where
  "stream_action flt lost ch =
     (let act = (if lost then Refresh else Skip) in
      if ch_Seq ch \<noteq> 0 then max act (flt ch) else act)"

definition send_type :: "Action \<Rightarrow> string" where
  "send_type a = (if a = Reload then ''reload'' else ''refresh'')"

subsection \<open>The hub's invariant\<close>

definition hub_wf :: "Hub \<Rightarrow> bool" where
  "hub_wf h \<longleftrightarrow>
     distinct (map fst (subs h)) \<and>
     (\<forall>(o1, ps) \<in> set (subs h). distinct ps \<and> ps \<noteq> [] \<and> length ps \<le> maxSubsPerOwner \<and>
        (\<forall>p \<in> set ps. p < length (heap h) \<and> su_owner (heap h ! p) = o1 \<and> \<not> su_closed (heap h ! p))) \<and>
     (closed h \<longrightarrow> subs h = []) \<and>
     (\<forall>s \<in> set (heap h). length (su_C s) \<le> subBuffer \<and> length (su_N s) \<le> subBuffer)"

lemma owner_set_wf:
  assumes "hub_wf h"
  shows "distinct (owner_set h o1)" and "length (owner_set h o1) \<le> maxSubsPerOwner"
    and "p \<in> set (owner_set h o1) \<Longrightarrow>
           p < length (heap h) \<and> su_owner (heap h ! p) = o1 \<and> \<not> su_closed (heap h ! p)"
  using assms by (force simp: owner_set_def hub_wf_def split: option.splits dest: map_of_SomeD)+

lemma all_subs_wf:
  assumes "hub_wf h"
  shows "distinct (all_subs h)"
    and "p \<in> set (all_subs h) \<Longrightarrow> p < length (heap h) \<and> \<not> su_closed (heap h ! p)"
proof -
  have "distinct (concat (map snd xs))"
    if "distinct (map fst xs)"
      and "\<forall>(o1, ps) \<in> set xs. distinct ps \<and> (\<forall>p \<in> set ps. su_owner (heap h ! p) = o1)" for xs
    using that by (induction xs) (fastforce simp: image_iff)+
  then show "distinct (all_subs h)" using assms by (fastforce simp: all_subs_def hub_wf_def)
  show "p \<in> set (all_subs h) \<Longrightarrow> p < length (heap h) \<and> \<not> su_closed (heap h ! p)"
    using assms by (fastforce simp: all_subs_def hub_wf_def)
qed

lemma all_subs_owner:
  assumes "hub_wf h"
  shows "p \<in> set (all_subs h) \<longleftrightarrow> (\<exists>o1. p \<in> set (owner_set h o1))"
proof -
  have d: "distinct (map fst (subs h))" using assms by (simp add: hub_wf_def)
  have "p \<in> set (all_subs h) \<longleftrightarrow> (\<exists>o1 ps. map_of (subs h) o1 = Some ps \<and> p \<in> set ps)"
    using d by (force simp: all_subs_def map_of_eq_Some_iff)
  also have "\<dots> \<longleftrightarrow> (\<exists>o1. p \<in> set (owner_set h o1))"
  proof (rule ex_cong1)
    fix o1
    show "(\<exists>ps. map_of (subs h) o1 = Some ps \<and> p \<in> set ps) \<longleftrightarrow> p \<in> set (owner_set h o1)"
      by (cases "map_of (subs h) o1") (simp_all add: owner_set_def)
  qed
  finally show ?thesis .
qed

lemma each_sub_ok:
  assumes "distinct ps" and "\<forall>p \<in> set ps. p < length hp \<and> f (hp ! p) = Inr (g (hp ! p))"
  shows "\<exists>hp'. each_sub f ps hp = Inr hp' \<and> length hp' = length hp \<and>
           (\<forall>i < length hp. hp' ! i = (if i \<in> set ps then g (hp ! i) else hp ! i))"
  using assms
proof (induction ps arbitrary: hp)
  case (Cons p ps)
  let ?hp = "hp[p := g (hp ! p)]"
  have "\<forall>q \<in> set ps. q < length ?hp \<and> f (?hp ! q) = Inr (g (?hp ! q))"
    using Cons.prems by (auto simp: nth_list_update)
  then obtain hp' where "each_sub f ps ?hp = Inr hp'" "length hp' = length hp"
    "\<forall>i < length hp. hp' ! i = (if i \<in> set ps then g (?hp ! i) else ?hp ! i)"
    using Cons.IH [of ?hp] Cons.prems(1) by auto
  then show ?case using Cons.prems by (auto simp: nth_list_update)
qed simp

text \<open>The pure effects of a delivery on an open subscription.\<close>

definition put :: "Change \<Rightarrow> Sub \<Rightarrow> Sub" where
  "put c s = (if length (su_C s) < subBuffer then s\<lparr>su_C := su_C s @ [c]\<rparr> else s\<lparr>su_lost := True\<rparr>)"

definition put_notice :: "Notice \<Rightarrow> Sub \<Rightarrow> Sub" where
  "put_notice n s = (if length (su_N s) < subBuffer then s\<lparr>su_N := su_N s @ [n]\<rparr> else s)"

lemma deliver_open: "\<not> su_closed s \<Longrightarrow> deliver c s = Inr (put c s)"
  by (simp add: deliver_def put_def)

lemma notify_open: "\<not> su_closed s \<Longrightarrow> notify_one n s = Inr (put_notice n s)"
  by (simp add: notify_one_def put_notice_def)

lemma put_simps [simp]:
  "su_owner (put c s) = su_owner s" "su_closed (put c s) = su_closed s"
  "su_owner (put_notice n s) = su_owner s" "su_closed (put_notice n s) = su_closed s"
  "su_C (put_notice n s) = su_C s" "su_lost (put_notice n s) = su_lost s" "su_N (put c s) = su_N s"
  by (simp_all add: put_def put_notice_def)

lemma put_bounded:
  "length (su_C s) \<le> subBuffer \<Longrightarrow> length (su_C (put c s)) \<le> subBuffer"
  "length (su_N s) \<le> subBuffer \<Longrightarrow> length (su_N (put_notice n s)) \<le> subBuffer"
  by (simp_all add: put_def put_notice_def)

text \<open>A heap changed by a function that keeps owners, closed flags and the buffer bounds.\<close>

lemma heap_update_wf:
  assumes "hub_wf h" and "length hp = length (heap h)"
    and "\<forall>i < length (heap h). su_owner (hp ! i) = su_owner (heap h ! i) \<and>
           su_closed (hp ! i) = su_closed (heap h ! i) \<and>
           length (su_C (hp ! i)) \<le> subBuffer \<and> length (su_N (hp ! i)) \<le> subBuffer"
  shows "hub_wf (h\<lparr>heap := hp\<rparr>)"
  using assms by (fastforce simp: hub_wf_def in_set_conv_nth)

lemma heap_bounds:
  "hub_wf h \<Longrightarrow> i < length (heap h) \<Longrightarrow>
     length (su_C (heap h ! i)) \<le> subBuffer \<and> length (su_N (heap h ! i)) \<le> subBuffer"
  by (auto simp: hub_wf_def)

lemma NewHub_wf: "hub_wf NewHub"
  by (simp add: hub_wf_def NewHub_def)

lemma Publish_effect:
  assumes "hub_wf h"
  shows "\<exists>hp. Publish h c = Inr (h\<lparr>heap := hp\<rparr>) \<and> hub_wf (h\<lparr>heap := hp\<rparr>) \<and> length hp = length (heap h) \<and>
           (\<forall>i < length (heap h). hp ! i =
              (if i \<in> set (owner_set h (ch_OwnerID c)) then put c (heap h ! i) else heap h ! i))"
proof -
  let ?ps = "owner_set h (ch_OwnerID c)"
  have "\<forall>p \<in> set ?ps. p < length (heap h) \<and> deliver c (heap h ! p) = Inr (put c (heap h ! p))"
    using owner_set_wf(3) [OF assms] deliver_open by blast
  then obtain hp where hp: "each_sub (deliver c) ?ps (heap h) = Inr hp" "length hp = length (heap h)"
    "\<forall>i < length (heap h). hp ! i = (if i \<in> set ?ps then put c (heap h ! i) else heap h ! i)"
    using each_sub_ok [OF owner_set_wf(1) [OF assms]] by blast
  have "hub_wf (h\<lparr>heap := hp\<rparr>)"
    using hp(2,3) heap_bounds [OF assms] put_bounded(1) by (intro heap_update_wf [OF assms]) auto
  with hp show ?thesis by (auto simp: Publish_def)
qed

lemma Notify_effect:
  assumes "hub_wf h"
  shows "\<exists>hp. Notify h n = Inr (h\<lparr>heap := hp\<rparr>) \<and> hub_wf (h\<lparr>heap := hp\<rparr>) \<and> length hp = length (heap h) \<and>
           (\<forall>i < length (heap h). hp ! i =
              (if i \<in> set (owner_set h (no_OwnerID n)) then put_notice n (heap h ! i) else heap h ! i))"
proof -
  let ?ps = "owner_set h (no_OwnerID n)"
  have "\<forall>p \<in> set ?ps. p < length (heap h) \<and> notify_one n (heap h ! p) = Inr (put_notice n (heap h ! p))"
    using owner_set_wf(3) [OF assms] notify_open by blast
  then obtain hp where hp: "each_sub (notify_one n) ?ps (heap h) = Inr hp" "length hp = length (heap h)"
    "\<forall>i < length (heap h). hp ! i = (if i \<in> set ?ps then put_notice n (heap h ! i) else heap h ! i)"
    using each_sub_ok [OF owner_set_wf(1) [OF assms]] by blast
  have "hub_wf (h\<lparr>heap := hp\<rparr>)"
    using hp(2,3) heap_bounds [OF assms] put_bounded(2) by (intro heap_update_wf [OF assms]) auto
  with hp show ?thesis by (auto simp: Notify_def)
qed

lemma Resync_effect:
  assumes "hub_wf h"
  shows "\<exists>hp. Resync h = Inr (h\<lparr>heap := hp\<rparr>) \<and> hub_wf (h\<lparr>heap := hp\<rparr>) \<and> length hp = length (heap h) \<and>
           (\<forall>i < length (heap h). hp ! i =
              (if i \<in> set (all_subs h) then put Change0 ((heap h ! i)\<lparr>su_lost := True\<rparr>) else heap h ! i))"
proof -
  let ?g = "\<lambda>s. put Change0 (s\<lparr>su_lost := True\<rparr>)"
  have f: "\<forall>p \<in> set (all_subs h). p < length (heap h) \<and>
      deliver Change0 ((heap h ! p)\<lparr>su_lost := True\<rparr>) = Inr (?g (heap h ! p))"
    using all_subs_wf(2) [OF assms] by (simp add: deliver_open)
  obtain hp where hp: "each_sub (\<lambda>s. deliver Change0 (s\<lparr>su_lost := True\<rparr>)) (all_subs h) (heap h) = Inr hp"
    "length hp = length (heap h)"
    "\<forall>i < length (heap h). hp ! i = (if i \<in> set (all_subs h) then ?g (heap h ! i) else heap h ! i)"
    using each_sub_ok [where f = "\<lambda>s. deliver Change0 (s\<lparr>su_lost := True\<rparr>)" and g = ?g,
      OF all_subs_wf(1) [OF assms] f] by auto
  have b: "length (su_C (?g s)) \<le> subBuffer" if "length (su_C s) \<le> subBuffer" for s
    using put_bounded(1) [of "s\<lparr>su_lost := True\<rparr>" Change0] that by simp
  have "hub_wf (h\<lparr>heap := hp\<rparr>)"
    by (rule heap_update_wf [OF assms hp(2)]) (simp add: hp(3) heap_bounds [OF assms] b)
  with hp show ?thesis by (auto simp: Resync_def)
qed

lemma Close_effect:
  assumes "hub_wf h"
  shows "\<exists>h'. Close h = Inr h' \<and> hub_wf h' \<and> closed h' \<and> length (heap h') = length (heap h) \<and>
           (\<forall>i < length (heap h). \<exists>b. heap h' ! i = (heap h ! i)\<lparr>su_closed := b\<rparr>)"
proof (cases "closed h")
  case True
  have "\<exists>b. s = s\<lparr>su_closed := b\<rparr>" for s :: Sub by (rule exI [of _ "su_closed s"]) simp
  with True assms show ?thesis by (auto simp: Close_def)
next
  case False
  let ?g = "\<lambda>s. s\<lparr>su_closed := True\<rparr>"
  have f: "\<forall>p \<in> set (all_subs h). p < length (heap h) \<and> close_sub (heap h ! p) = Inr (?g (heap h ! p))"
    using all_subs_wf(2) [OF assms] by (simp add: close_sub_def)
  obtain hp where hp: "each_sub close_sub (all_subs h) (heap h) = Inr hp" "length hp = length (heap h)"
    "\<forall>i < length (heap h). hp ! i = (if i \<in> set (all_subs h) then ?g (heap h ! i) else heap h ! i)"
    using each_sub_ok [where f = close_sub and g = ?g, OF all_subs_wf(1) [OF assms] f] by auto
  have "hub_wf (h\<lparr>heap := hp, subs := [], closed := True\<rparr>)"
    using hp(2,3) heap_bounds [OF assms] by (auto simp: hub_wf_def in_set_conv_nth)
  moreover have "\<exists>b. s = s\<lparr>su_closed := b\<rparr>" for s :: Sub by (rule exI [of _ "su_closed s"]) simp
  ultimately show ?thesis using False hp by (auto simp: Close_def)
qed

lemma owner_set_update:
  "map_of (AList.update o1 ps xs) o2 = (if o2 = o1 then Some ps else map_of xs o2)"
  by (simp add: AList.update_conv')

lemma subs_update_wf:
  assumes "hub_wf h" and "\<not> closed h" and "distinct ps" and "ps \<noteq> []" and "length ps \<le> maxSubsPerOwner"
    and "\<forall>p \<in> set ps. p < length (heap h) \<and> su_owner (heap h ! p) = o1 \<and> \<not> su_closed (heap h ! p)"
  shows "hub_wf (h\<lparr>subs := AList.update o1 ps (subs h)\<rparr>)"
proof -
  have "set (AList.update o1 ps xs) \<subseteq> insert (o1, ps) (set xs)" for xs
    by (induction xs) auto
  then show ?thesis
    using assms by (fastforce simp: hub_wf_def AList.distinct_update)
qed

lemma Subscribe_effect:
  assumes "hub_wf h" and "Subscribe h o1 = (p, h')"
  shows "hub_wf h'" and "p = length (heap h)" and "p < length (heap h')"
    and "\<forall>i < length (heap h). heap h' ! i = heap h ! i"
    and "p \<in> set (owner_set h' o1) \<longleftrightarrow> \<not> su_closed (heap h' ! p)"
    and "su_lost (heap h' ! p) = False" and "su_C (heap h' ! p) = []"
proof -
  define s where "s = \<lparr>su_owner = o1, su_C = [], su_N = [], su_closed = False, su_lost = False, su_refused = False\<rparr>"
  have grow: "hub_wf (h\<lparr>heap := heap h @ [x]\<rparr>)" if "su_C x = []" "su_N x = []" for x
    using assms(1) that by (fastforce simp: hub_wf_def nth_append)
  have new: "length (heap h) \<notin> set (owner_set h o1)" using owner_set_wf(3) [OF assms(1)] by blast
  show "hub_wf h'"
  proof (cases "closed h \<or> length (owner_set h o1) \<ge> maxSubsPerOwner")
    case True
    then show ?thesis using assms(2) grow by (auto simp: Subscribe_def Let_def split: if_splits)
  next
    case False
    let ?h = "h\<lparr>heap := heap h @ [s]\<rparr>"
    have "hub_wf ?h" using grow by (simp add: s_def)
    then have "hub_wf (?h\<lparr>subs := AList.update o1 (length (heap h) # owner_set h o1) (subs ?h)\<rparr>)"
      using False new owner_set_wf(3) [OF assms(1), of _ o1] owner_set_wf(1,2) [OF assms(1), of o1]
      by (intro subs_update_wf) (auto simp: nth_append s_def less_Suc_eq)
    then show ?thesis using False assms(2) by (auto simp: Subscribe_def Let_def s_def)
  qed
  show "p = length (heap h)" and "p < length (heap h')" and "\<forall>i < length (heap h). heap h' ! i = heap h ! i"
    and "su_lost (heap h' ! p) = False" and "su_C (heap h' ! p) = []"
    using assms(2) by (auto simp: Subscribe_def Let_def nth_append split: if_splits)
  show "p \<in> set (owner_set h' o1) \<longleftrightarrow> \<not> su_closed (heap h' ! p)"
    using assms(2) new
    by (auto simp: Subscribe_def Let_def owner_set_def owner_set_update split: if_splits)
qed

lemma Unsubscribe_effect:
  assumes "hub_wf h"
  shows "hub_wf (Unsubscribe h p)" and "heap (Unsubscribe h p) = heap h"
proof -
  let ?o = "su_owner (heap h ! p)"
  let ?ps = "removeAll p (owner_set h ?o)"
  have del: "hub_wf (h\<lparr>subs := AList.delete o1 (subs h)\<rparr>)" for o1
  proof -
    have "set (AList.delete o1 (subs h)) \<subseteq> set (subs h)" by (auto simp: AList.delete_eq)
    moreover have "distinct (map fst (AList.delete o1 (subs h)))"
      using assms AList.distinct_delete [of "subs h" o1] by (simp add: hub_wf_def)
    ultimately show ?thesis using assms by (fastforce simp: hub_wf_def)
  qed
  have upd: "hub_wf (h\<lparr>subs := AList.update ?o ?ps (subs h)\<rparr>)" if "p \<in> set (owner_set h ?o)" "?ps \<noteq> []"
  proof (rule subs_update_wf)
    show "\<not> closed h"
    proof
      assume "closed h"
      then have "subs h = []" using assms by (simp add: hub_wf_def)
      with that(1) show False by (simp add: owner_set_def)
    qed
    show "length ?ps \<le> maxSubsPerOwner"
      by (rule le_trans [OF length_removeAll_less_eq owner_set_wf(2) [OF assms]])
    show "distinct ?ps" using owner_set_wf(1) [OF assms, of ?o] by (simp add: distinct_removeAll)
    show "\<forall>q \<in> set ?ps. q < length (heap h) \<and> su_owner (heap h ! q) = ?o \<and> \<not> su_closed (heap h ! q)"
      using owner_set_wf(3) [OF assms, of _ ?o] by simp
  qed (fact that assms)+
  show "hub_wf (Unsubscribe h p)" using assms del upd by (auto simp: Unsubscribe_def Let_def)
  show "heap (Unsubscribe h p) = heap h" by (simp add: Unsubscribe_def Let_def)
qed

subsection \<open>What a lossy subscription promises\<close>

text \<open>
  A sender that never blocks may drop an element, but then it raises a flag while something is
  still queued, so a reader that keeps reading and checks the flag after each element learns of it.
\<close>

locale lossy_channel =
  fixes put1 :: "'c \<Rightarrow> 's \<Rightarrow> 's"
    and queue :: "'s \<Rightarrow> 'c list"
    and flag :: "'s \<Rightarrow> bool"
    and ok :: "'s \<Rightarrow> bool"
  assumes put1_ok: "ok s \<Longrightarrow> ok (put1 c s)"
    and put1_cases: "ok s \<Longrightarrow>
      queue (put1 c s) = queue s @ [c] \<and> flag (put1 c s) = flag s \<or>
      queue (put1 c s) = queue s \<and> queue s \<noteq> [] \<and> flag (put1 c s)"
begin

definition noticed :: "bool \<Rightarrow> 's \<Rightarrow> bool" where
  "noticed busy s \<longleftrightarrow> (flag s \<longrightarrow> queue s \<noteq> [] \<or> busy)"

lemma put1_noticed: "ok s \<Longrightarrow> noticed busy s \<Longrightarrow> noticed busy (put1 c s)"
  using put1_cases [of s c] by (auto simp: noticed_def)

lemma put1_covers: "ok s \<Longrightarrow> c \<in> set (queue (put1 c s)) \<or> flag (put1 c s)"
  using put1_cases [of s c] by auto

lemma put1_keeps: "ok s \<Longrightarrow> d \<in> set (queue s) \<or> flag s \<Longrightarrow> d \<in> set (queue (put1 c s)) \<or> flag (put1 c s)"
  using put1_cases [of s c] by auto

lemma put1_flag: "ok s \<Longrightarrow> flag s \<Longrightarrow> flag (put1 c s)"
  using put1_cases [of s c] by auto

lemma put1_queue: "ok s \<Longrightarrow> queue (put1 c s) \<noteq> []"
  using put1_cases [of s c] by auto

end

interpretation sub_channel: lossy_channel put su_C su_lost "\<lambda>s. True"
  by unfold_locales (auto simp: put_def subBuffer_def)

subsection \<open>Hub and stream together\<close>

datatype pc = Looping | Received Change | Finished

text \<open>What happens to one subscription: changes and resyncs sent to it, and messages to its client.\<close>

datatype happening = Published Change | Resynced | Sent Action

record sys =
  sy_hub :: Hub
  sy_pc :: pc
  sy_trace :: "happening list"

definition receive :: "Hub \<Rightarrow> nat \<Rightarrow> Hub" where
  "receive h p = h\<lparr>heap := (heap h)[p := (heap h ! p)\<lparr>su_C := tl (su_C (heap h ! p))\<rparr>]\<rparr>"

definition clear_lost :: "Hub \<Rightarrow> nat \<Rightarrow> Hub" where
  "clear_lost h p = h\<lparr>heap := (heap h)[p := snd (Lost (heap h ! p))]\<rparr>"

inductive step :: "(Change \<Rightarrow> Action) \<Rightarrow> nat \<Rightarrow> sys \<Rightarrow> sys \<Rightarrow> bool" for flt p where
  publish: "Publish (sy_hub s) c = Inr h' \<Longrightarrow>
    step flt p s (s\<lparr>sy_hub := h', sy_trace := sy_trace s @
      (if p \<in> set (owner_set (sy_hub s) (ch_OwnerID c)) then [Published c] else [])\<rparr>)"
| resync: "Resync (sy_hub s) = Inr h' \<Longrightarrow>
    step flt p s (s\<lparr>sy_hub := h', sy_trace := sy_trace s @
      (if p \<in> set (all_subs (sy_hub s)) then [Resynced] else [])\<rparr>)"
| notify: "Notify (sy_hub s) n = Inr h' \<Longrightarrow> step flt p s (s\<lparr>sy_hub := h'\<rparr>)"
| subscribe: "Subscribe (sy_hub s) o1 = (q, h') \<Longrightarrow> step flt p s (s\<lparr>sy_hub := h'\<rparr>)"
| unsubscribe: "q \<noteq> p \<Longrightarrow> step flt p s (s\<lparr>sy_hub := Unsubscribe (sy_hub s) q\<rparr>)"
| shutdown: "Close (sy_hub s) = Inr h' \<Longrightarrow> step flt p s (s\<lparr>sy_hub := h'\<rparr>)"
| recv: "sy_pc s = Looping \<Longrightarrow> su_C (heap (sy_hub s) ! p) = c # cs \<Longrightarrow>
    step flt p s (s\<lparr>sy_hub := receive (sy_hub s) p, sy_pc := Received c\<rparr>)"
| handle: "sy_pc s = Received c \<Longrightarrow>
    a = stream_action flt (fst (Lost (heap (sy_hub s) ! p))) c \<Longrightarrow>
    step flt p s (s\<lparr>sy_hub := clear_lost (sy_hub s) p, sy_pc := Looping,
      sy_trace := sy_trace s @ (if a \<noteq> Skip then [Sent a] else [])\<rparr>)"
| drained: "sy_pc s = Looping \<Longrightarrow> su_C (heap (sy_hub s) ! p) = [] \<Longrightarrow> su_closed (heap (sy_hub s) ! p) \<Longrightarrow>
    step flt p s (s\<lparr>sy_pc := Finished\<rparr>)"

inductive reachable :: "(Change \<Rightarrow> Action) \<Rightarrow> nat \<Rightarrow> sys \<Rightarrow> sys \<Rightarrow> bool" for flt p s0 where
  start: "reachable flt p s0 s0"
| next_step: "reachable flt p s0 s \<Longrightarrow> step flt p s s' \<Longrightarrow> reachable flt p s0 s'"

text \<open>The happenings that oblige the stream to tell its client something.\<close>

definition due :: "(Change \<Rightarrow> Action) \<Rightarrow> happening \<Rightarrow> bool" where
  "due flt x = (case x of Published c \<Rightarrow> ch_Seq c \<noteq> 0 \<and> flt c \<noteq> Skip | Resynced \<Rightarrow> True | Sent a \<Rightarrow> False)"

definition answered :: "happening list \<Rightarrow> nat \<Rightarrow> bool" where
  "answered tr i \<longleftrightarrow> (\<exists>j a. i < j \<and> j < length tr \<and> tr ! j = Sent a \<and> a \<noteq> Skip)"

definition waiting :: "happening \<Rightarrow> Sub \<Rightarrow> pc \<Rightarrow> bool" where
  "waiting x s pc1 \<longleftrightarrow> su_lost s \<or>
     (case x of Published c \<Rightarrow> c \<in> set (su_C s) \<or> pc1 = Received c | _ \<Rightarrow> False)"

definition busy :: "pc \<Rightarrow> bool" where
  "busy pc1 = (case pc1 of Received c \<Rightarrow> True | _ \<Rightarrow> False)"

definition sys_inv :: "(Change \<Rightarrow> Action) \<Rightarrow> nat \<Rightarrow> sys \<Rightarrow> bool" where
  "sys_inv flt p s \<longleftrightarrow> hub_wf (sy_hub s) \<and> p < length (heap (sy_hub s)) \<and>
     sub_channel.noticed (busy (sy_pc s)) (heap (sy_hub s) ! p) \<and>
     (\<forall>i < length (sy_trace s). due flt (sy_trace s ! i) \<longrightarrow>
        answered (sy_trace s) i \<or> waiting (sy_trace s ! i) (heap (sy_hub s) ! p) (sy_pc s))"

lemma answered_append: "answered tr i \<Longrightarrow> answered (tr @ xs) i"
  unfolding answered_def by (metis length_append nth_append trans_less_add1)

lemma due_Sent [simp]: "\<not> due flt (Sent a)"
  by (simp add: due_def)

lemma answered_sent: "i < length tr \<Longrightarrow> Refresh \<le> a \<Longrightarrow> answered (tr @ [Sent a]) i"
  unfolding answered_def by (rule exI [of _ "length tr"]) auto

text \<open>A step that only adds to the trace and keeps what the subscription waits for.\<close>

lemma sys_inv_keep:
  assumes "sys_inv flt p s" and "hub_wf h'" and "length (heap (sy_hub s)) \<le> length (heap h')"
    and "sub_channel.noticed (busy (sy_pc s)) (heap h' ! p)"
    and "\<And>x. waiting x (heap (sy_hub s) ! p) (sy_pc s) \<Longrightarrow> waiting x (heap h' ! p) (sy_pc s)"
    and "\<And>x. x \<in> set xs \<Longrightarrow> waiting x (heap h' ! p) (sy_pc s)"
  shows "sys_inv flt p (s\<lparr>sy_hub := h', sy_trace := sy_trace s @ xs\<rparr>)"
  using assms unfolding sys_inv_def
  by (auto simp: nth_append intro: answered_append)

lemma waiting_same:
  "su_C s' = su_C s \<Longrightarrow> su_lost s' = su_lost s \<Longrightarrow> waiting x s' pc1 = waiting x s pc1"
  "su_C s' = su_C s \<Longrightarrow> su_lost s' = su_lost s \<Longrightarrow> sub_channel.noticed b s' = sub_channel.noticed b s"
  by (simp_all add: waiting_def sub_channel.noticed_def split: happening.splits)

lemma waiting_put: "waiting x s pc1 \<Longrightarrow> waiting x (put c s) pc1"
  using sub_channel.put1_keeps [OF TrueI, of _ s c] sub_channel.put1_flag [OF TrueI, of s c]
  by (auto simp: waiting_def split: happening.splits)

lemma step_inv: "step flt p s s' \<Longrightarrow> sys_inv flt p s \<Longrightarrow> sys_inv flt p s'"
proof (induction rule: step.induct)
  case (publish s c h')
  let ?sub = "heap (sy_hub s) ! p"
  have inv: "hub_wf (sy_hub s)" "p < length (heap (sy_hub s))"
    "sub_channel.noticed (busy (sy_pc s)) ?sub" using publish(2) by (auto simp: sys_inv_def)
  obtain hp where h': "h' = (sy_hub s)\<lparr>heap := hp\<rparr>" "hub_wf h'" "length hp = length (heap (sy_hub s))"
    "hp ! p = (if p \<in> set (owner_set (sy_hub s) (ch_OwnerID c)) then put c ?sub else ?sub)"
    using Publish_effect [OF inv(1), of c] publish(1) inv(2) by auto
  show ?case
    using h' inv sub_channel.put1_noticed [OF TrueI inv(3), of c] sub_channel.put1_covers [of c ?sub] waiting_put
    by (intro sys_inv_keep [OF publish(2)]) (auto simp: waiting_def split: if_splits)
next
  case (resync s h')
  let ?sub = "heap (sy_hub s) ! p"
  let ?sub' = "put Change0 (?sub\<lparr>su_lost := True\<rparr>)"
  have inv: "hub_wf (sy_hub s)" "p < length (heap (sy_hub s))"
    "sub_channel.noticed (busy (sy_pc s)) ?sub" using resync(2) by (auto simp: sys_inv_def)
  obtain hp where h': "h' = (sy_hub s)\<lparr>heap := hp\<rparr>" "hub_wf h'" "length hp = length (heap (sy_hub s))"
    "hp ! p = (if p \<in> set (all_subs (sy_hub s)) then ?sub' else ?sub)"
    using Resync_effect [OF inv(1)] resync(1) inv(2) by auto
  have lost: "su_lost ?sub'" by (simp add: put_def)
  have "su_C ?sub' \<noteq> []" by (rule sub_channel.put1_queue) simp
  then have "sub_channel.noticed b ?sub'" for b by (simp add: sub_channel.noticed_def)
  then show ?case
    using h' inv lost by (intro sys_inv_keep [OF resync(2)]) (auto simp: waiting_def split: if_splits)
next
  case (notify s n h')
  have inv: "hub_wf (sy_hub s)" "p < length (heap (sy_hub s))"
    "sub_channel.noticed (busy (sy_pc s)) (heap (sy_hub s) ! p)" using notify(2) by (auto simp: sys_inv_def)
  obtain hp where h': "h' = (sy_hub s)\<lparr>heap := hp\<rparr>" "hub_wf h'" "length hp = length (heap (sy_hub s))"
    "su_C (hp ! p) = su_C (heap (sy_hub s) ! p)" "su_lost (hp ! p) = su_lost (heap (sy_hub s) ! p)"
    using Notify_effect [OF inv(1), of n] notify(1) inv(2) by auto
  show ?case
    using sys_inv_keep [OF notify(2) h'(2), of "[]"] h'(1,3) inv waiting_same [OF h'(4,5)] by simp
next
  case (subscribe s o1 q h')
  have inv: "hub_wf (sy_hub s)" "p < length (heap (sy_hub s))"
    "sub_channel.noticed (busy (sy_pc s)) (heap (sy_hub s) ! p)" using subscribe(2) by (auto simp: sys_inv_def)
  note e = Subscribe_effect [OF inv(1) subscribe(1)]
  show ?case
    using sys_inv_keep [OF subscribe(2) e(1), of "[]"] e inv by simp
next
  case (unsubscribe q s)
  have inv: "hub_wf (sy_hub s)" "p < length (heap (sy_hub s))"
    "sub_channel.noticed (busy (sy_pc s)) (heap (sy_hub s) ! p)" using unsubscribe(2) by (auto simp: sys_inv_def)
  show ?case
    using sys_inv_keep [OF unsubscribe(2) Unsubscribe_effect(1) [OF inv(1), of q], of "[]"]
      Unsubscribe_effect(2) [OF inv(1), of q] inv by simp
next
  case (shutdown s h')
  have inv: "hub_wf (sy_hub s)" "p < length (heap (sy_hub s))"
    "sub_channel.noticed (busy (sy_pc s)) (heap (sy_hub s) ! p)" using shutdown(2) by (auto simp: sys_inv_def)
  obtain b where h': "hub_wf h'" "length (heap h') = length (heap (sy_hub s))"
    and sub: "heap h' ! p = (heap (sy_hub s) ! p)\<lparr>su_closed := b\<rparr>"
    using Close_effect [OF inv(1)] shutdown(1) inv(2) by auto
  show ?case
    using sys_inv_keep [OF shutdown(2) h'(1), of "[]"] h'(2) inv
      waiting_same [of "heap h' ! p" "heap (sy_hub s) ! p", unfolded sub] by (simp add: sub)
next
  case (recv s c cs)
  have inv: "hub_wf (sy_hub s)" "p < length (heap (sy_hub s))" using recv(3) by (auto simp: sys_inv_def)
  have "hub_wf (receive (sy_hub s) p)"
    unfolding receive_def using heap_bounds [OF inv(1)] inv(2)
    by (intro heap_update_wf [OF inv(1)]) (auto simp: nth_list_update intro: le_trans [OF diff_le_self])
  moreover have "waiting x (heap (sy_hub s) ! p) (sy_pc s) \<Longrightarrow>
      waiting x ((heap (sy_hub s) ! p)\<lparr>su_C := cs\<rparr>) (Received c)" for x
    using recv(1,2) by (auto simp: waiting_def split: happening.splits)
  ultimately show ?case
    using recv inv unfolding sys_inv_def
    by (auto simp: receive_def sub_channel.noticed_def busy_def)
next
  case (handle s c a)
  have inv: "hub_wf (sy_hub s)" "p < length (heap (sy_hub s))" using handle(3) by (auto simp: sys_inv_def)
  have wf: "hub_wf (clear_lost (sy_hub s) p)"
    unfolding clear_lost_def Lost_def using heap_bounds [OF inv(1)] inv(2)
    by (intro heap_update_wf [OF inv(1)]) (auto simp: nth_list_update)
  have act: "due flt x \<Longrightarrow> waiting x (heap (sy_hub s) ! p) (sy_pc s) \<Longrightarrow>
      a \<noteq> Skip \<or> waiting x ((heap (sy_hub s) ! p)\<lparr>su_lost := False\<rparr>) Looping" for x
    using handle(1,2)
    by (auto simp: waiting_def due_def stream_action_def Let_def Lost_def max_def split: happening.splits if_splits)
  show ?case
    using handle(3) inv wf act unfolding sys_inv_def
    by (auto simp: clear_lost_def Lost_def sub_channel.noticed_def nth_append
        intro: answered_append answered_sent)
next
  case (drained s)
  then have "waiting x (heap (sy_hub s) ! p) Looping \<Longrightarrow> waiting x (heap (sy_hub s) ! p) Finished" for x
    by (auto simp: waiting_def split: happening.splits)
  with drained show ?case
    by (auto simp: sys_inv_def sub_channel.noticed_def busy_def)
qed

lemma reachable_inv: "reachable flt p s0 s \<Longrightarrow> sys_inv flt p s0 \<Longrightarrow> sys_inv flt p s"
  by (induction rule: reachable.induct) (auto intro: step_inv)

definition start_sys :: "Hub \<Rightarrow> sys" where
  "start_sys h = \<lparr>sy_hub = h, sy_pc = Looping, sy_trace = []\<rparr>"

lemma start_inv:
  assumes "hub_wf h" and "Subscribe h o1 = (p, h')"
  shows "sys_inv flt p (start_sys h')"
  using Subscribe_effect [OF assms]
  by (simp add: sys_inv_def start_sys_def sub_channel.noticed_def)

subsection \<open>Runs of the hub\<close>

datatype hub_op = OpSubscribe go_id | OpUnsubscribe nat | OpPublish Change | OpNotify Notice | OpResync | OpClose

definition hub_step :: "hub_op \<Rightarrow> Hub \<Rightarrow> go_panic + Hub" where
  "hub_step op h =
     (case op of
        OpSubscribe o1 \<Rightarrow> Inr (snd (Subscribe h o1))
      | OpUnsubscribe p \<Rightarrow> Inr (Unsubscribe h p)
      | OpPublish c \<Rightarrow> Publish h c
      | OpNotify n \<Rightarrow> Notify h n
      | OpResync \<Rightarrow> Resync h
      | OpClose \<Rightarrow> Close h)"

fun hub_run :: "hub_op list \<Rightarrow> Hub \<Rightarrow> go_panic + Hub" where
  "hub_run [] h = Inr h"
| "hub_run (op # ops) h = (case hub_step op h of Inl e \<Rightarrow> Inl e | Inr h' \<Rightarrow> hub_run ops h')"

lemma hub_step_wf: "hub_wf h \<Longrightarrow> \<exists>h'. hub_step op h = Inr h' \<and> hub_wf h'"
proof (cases op)
  case (OpSubscribe o1)
  then show "hub_wf h \<Longrightarrow> ?thesis" using Subscribe_effect(1) [of h o1] by (cases "Subscribe h o1") (simp add: hub_step_def)
next
  case (OpUnsubscribe p)
  then show "hub_wf h \<Longrightarrow> ?thesis" using Unsubscribe_effect(1) [of h p] by (simp add: hub_step_def)
next
  case (OpPublish c)
  then show "hub_wf h \<Longrightarrow> ?thesis" using Publish_effect [of h c] by (auto simp: hub_step_def)
next
  case (OpNotify n)
  then show "hub_wf h \<Longrightarrow> ?thesis" using Notify_effect [of h n] by (auto simp: hub_step_def)
next
  case OpResync
  then show "hub_wf h \<Longrightarrow> ?thesis" using Resync_effect [of h] by (auto simp: hub_step_def)
next
  case OpClose
  then show "hub_wf h \<Longrightarrow> ?thesis" using Close_effect [of h] by (auto simp: hub_step_def)
qed

lemma hub_run_wf: "hub_wf h \<Longrightarrow> \<exists>h'. hub_run ops h = Inr h' \<and> hub_wf h'"
proof (induction ops arbitrary: h)
  case (Cons op ops)
  obtain h1 where "hub_step op h = Inr h1" "hub_wf h1" using hub_step_wf [OF Cons.prems] by blast
  then show ?case using Cons.IH by simp
qed simp

subsection \<open>Properties\<close>



text \<open>
  The hub never sends on a closed channel, never closes one twice, and never keeps more than
  \<open>maxSubsPerOwner\<close> subscriptions of an owner, whatever calls come in whatever order.
\<close>

theorem hub_never_panics:
  "\<exists>h. hub_run ops NewHub = Inr h \<and> hub_wf h \<and> length (owner_set h owner) \<le> maxSubsPerOwner \<and>
     (closed h \<longrightarrow> hub_Len h = 0)"
proof -
  obtain h where h: "hub_run ops NewHub = Inr h" "hub_wf h" using hub_run_wf [OF NewHub_wf] by blast
  moreover have "closed h \<Longrightarrow> hub_Len h = 0" using h(2) by (simp add: hub_wf_def hub_Len_def)
  ultimately show ?thesis using owner_set_wf(2) [OF h(2)] by blast
qed

lemma hub_never_panics_witness:
  "\<exists>h. hub_run [OpSubscribe 7, OpClose, OpPublish Change0, OpClose] NewHub = Inr h \<and> hub_wf h"
  using hub_never_panics [of "[OpSubscribe 7, OpClose, OpPublish Change0, OpClose]" 7] by blast

text \<open>
  \<open>Overlaps\<close> decides whether a change touches a view: for a non-empty window it holds exactly
  when some instant of the window lies in the span of the change, where a span without an end is
  unbounded and an empty span is its start.
\<close>

theorem Overlaps_iff_instant:
  assumes "from < to"
  shows "Overlaps c from to \<longleftrightarrow>
    (\<exists>t a. from \<le> t \<and> t < to \<and> ch_From c = Some a \<and> a \<le> t \<and>
       (case ch_To c of None \<Rightarrow> True | Some b \<Rightarrow> t < b \<or> b \<le> a \<and> t = a))"
proof
  assume o: "Overlaps c from to"
  then obtain a where a: "ch_From c = Some a" "a < to" by (auto simp: Overlaps_def split: option.splits if_splits)
  show "\<exists>t a. from \<le> t \<and> t < to \<and> ch_From c = Some a \<and> a \<le> t \<and>
      (case ch_To c of None \<Rightarrow> True | Some b \<Rightarrow> t < b \<or> b \<le> a \<and> t = a)"
  proof (cases "ch_To c")
    case None
    then show ?thesis using a assms by (intro exI [of _ "max a from"] exI [of _ a]) auto
  next
    case (Some b)
    then consider "b > from" "b > a" | "b \<le> a" "from \<le> a" | "b > from" "b \<le> a" 
      using o a by (auto simp: Overlaps_def) (metis linorder_not_le)+
    then show ?thesis
    proof cases
      case 1
      then show ?thesis using a Some assms by (intro exI [of _ "max a from"] exI [of _ a]) auto
    qed (use a Some in \<open>auto intro!: exI [of _ a]\<close>)
  qed
next
  assume "\<exists>t a. from \<le> t \<and> t < to \<and> ch_From c = Some a \<and> a \<le> t \<and>
      (case ch_To c of None \<Rightarrow> True | Some b \<Rightarrow> t < b \<or> b \<le> a \<and> t = a)"
  then show "Overlaps c from to" by (auto simp: Overlaps_def split: option.splits)
qed

lemma Overlaps_iff_instant_witness: "Overlaps (Change0\<lparr>ch_From := Some 5, ch_To := Some 9\<rparr>) 8 20"
  using Overlaps_iff_instant [of 8 20 "Change0\<lparr>ch_From := Some 5, ch_To := Some 9\<rparr>"]
  by (auto simp: Change0_def intro!: exI [of _ 8])

text \<open>
  A shared view leaks nothing through its stream.  A change makes a share's stream speak only
  if it is about the share itself, about one of its calendars, about an event of one of them inside
  the shared window, about todos when the share includes them, or about the settings.
\<close>

theorem ShareFilter_scope:
  "ShareFilter share cals todos from to c \<noteq> Skip \<longleftrightarrow>
     ch_Entity c = ''share'' \<and> ch_EntityID c = share \<or>
     ch_Entity c = ''calendar'' \<and> ch_EntityID c \<in> set cals \<or>
     ch_Entity c = ''event'' \<and> (\<exists>k. k \<in> set cals \<and> ch_CalendarID c = Some k) \<and> Overlaps c from to \<or>
     ch_Entity c = ''todo'' \<and> todos \<and> Overlaps c from to \<or>
     ch_Entity c = ''list'' \<and> todos \<or> ch_Entity c = ''settings''"
  by (auto simp: ShareFilter_def simp del: action_order split: option.splits)

end
