(* ===== verification/Jobs.thy ===== *)
theory Jobs
  imports Domain
begin

text \<open>
  The job queue, \<open>internal/jobs\<close>: \<open>Enqueue\<close>, the statements a worker runs (claim, complete, fail, drop
  stale, reap), what the worker does with a claimed job, and its backoff.

  The table is a list of rows; its order is the order in which the database happens to visit them,
  so a statement about every list covers every order.  A statement is one atomic step, and the partial
  unique index \<open>jobs_unique_key_idx\<close> of the table makes it fail as a whole.  The columns \<open>created_at\<close>
  and \<open>updated_at\<close>, which no statement reads, are left out.
\<close>

subsection \<open>The table\<close>

datatype job_status = Queued | Running | Failed

record job_row =
  j_id :: int
  j_kind :: string
  j_payload :: string
  j_key :: "string option"
  j_status :: job_status
  j_priority :: int
  j_run_at :: go_time
  j_attempts :: int
  j_max_attempts :: int
  j_locked_by :: "string option"
  j_locked_at :: "go_time option"
  j_last_error :: "string option"

record jobs_db =
  rows :: "job_row list"
  next_id :: int

datatype sql_error = UniqueViolation | CheckViolation

definition same_key :: "job_row \<Rightarrow> job_row \<Rightarrow> bool" where
  "same_key a b \<longleftrightarrow> j_key a \<noteq> None \<and> j_kind a = j_kind b \<and> j_key a = j_key b"

text \<open>The partial unique index: no two queued rows with the same kind and key.\<close>

definition index_ok :: "job_row list \<Rightarrow> bool" where
  "index_ok rs = (let qs = filter (\<lambda>r. j_status r = Queued \<and> j_key r \<noteq> None) rs
                  in distinct (map (\<lambda>r. (j_kind r, j_key r)) qs))"

text \<open>The check constraints of the table.\<close>

definition row_ok :: "job_row \<Rightarrow> bool" where
  "row_ok r \<longleftrightarrow>
     1 \<le> rune_count (j_kind r) \<and> rune_count (j_kind r) \<le> 64 \<and>
     (case j_key r of None \<Rightarrow> True | Some k \<Rightarrow> 1 \<le> rune_count k \<and> rune_count k \<le> 255) \<and>
     0 \<le> j_attempts r \<and> 1 \<le> j_max_attempts r \<and>
     ((j_status r = Running) = (j_locked_at r \<noteq> None))"

text \<open>A statement that rewrites the table succeeds when the constraints hold afterwards.\<close>

definition commit :: "jobs_db \<Rightarrow> job_row list \<Rightarrow> sql_error + jobs_db" where
  "commit db rs =
     (if \<not> list_all row_ok rs then Inl CheckViolation
      else if \<not> index_ok rs then Inl UniqueViolation
      else Inr (db\<lparr>rows := rs\<rparr>))"

subsection \<open>Enqueue\<close>

definition defaultMaxAttempts :: int where
  "defaultMaxAttempts = 10"

record Options =
  opt_UniqueKey :: string
  opt_RunAt :: go_time
  opt_Priority :: int
  opt_MaxAttempts :: int

definition wrap16 :: "int \<Rightarrow> int" where
  "wrap16 x = (x + 2 ^ 15) mod 2 ^ 16 - 2 ^ 15"

definition wrap32 :: "int \<Rightarrow> int" where
  "wrap32 x = (x + 2 ^ 31) mod 2 ^ 32 - 2 ^ 31"

definition enqueueSQL :: "jobs_db \<Rightarrow> go_time \<Rightarrow> string \<Rightarrow> string \<Rightarrow> string option \<Rightarrow> go_time option \<Rightarrow> int \<Rightarrow> int \<Rightarrow> sql_error + jobs_db" where
  "enqueueSQL db now kind body key runAt prio maxAttempts =
     (let r = \<lparr>j_id = next_id db, j_kind = kind, j_payload = body, j_key = key, j_status = Queued,
               j_priority = prio, j_run_at = (case runAt of None \<Rightarrow> now | Some t \<Rightarrow> t), j_attempts = 0,
               j_max_attempts = maxAttempts, j_locked_by = None, j_locked_at = None, j_last_error = None\<rparr>;
          db1 = db\<lparr>next_id := next_id db + 1\<rparr>
      in if row_ok r \<and> list_ex (\<lambda>q. j_status q = Queued \<and> same_key r q) (rows db) then Inr db1
         else commit db1 (rows db @ [r]))"

text \<open>The payload arrives as its JSON text, or not at all.\<close>

definition Enqueue :: "jobs_db \<Rightarrow> go_time \<Rightarrow> string \<Rightarrow> string option \<Rightarrow> Options \<Rightarrow> sql_error + jobs_db" where
  "Enqueue db now kind payload opts =
     (let body = (case payload of None \<Rightarrow> ''{}'' | Some b \<Rightarrow> b);
          key = (if opt_UniqueKey opts \<noteq> [] then Some (opt_UniqueKey opts) else None);
          runAt = (if opt_RunAt opts \<noteq> zero_time then Some (opt_RunAt opts) else None);
          maxA = (if opt_MaxAttempts opts \<le> 0 then defaultMaxAttempts else opt_MaxAttempts opts)
      in enqueueSQL db now kind body key runAt (wrap16 (opt_Priority opts)) (wrap32 maxA))"

subsection \<open>The worker's statements\<close>

definition lockTimeout :: duration where
  "lockTimeout = 15 * minute"

definition jobTimeout :: duration where
  "jobTimeout = 10 * minute"

record Job =
  jb_ID :: int
  jb_Kind :: string
  jb_Payload :: string
  jb_Attempts :: int
  jb_MaxAttempts :: int

text \<open>\<open>ORDER BY priority DESC, run_at\<close>: the row that comes first.\<close>

definition before :: "job_row \<Rightarrow> job_row \<Rightarrow> bool" where
  "before a b \<longleftrightarrow> j_priority a > j_priority b \<or> j_priority a = j_priority b \<and> j_run_at a \<le> j_run_at b"

definition ready :: "go_time \<Rightarrow> string list \<Rightarrow> job_row \<Rightarrow> bool" where
  "ready now kinds r \<longleftrightarrow> j_status r = Queued \<and> j_run_at r \<le> now \<and> j_kind r \<in> set kinds"

fun first_row :: "job_row list \<Rightarrow> job_row option" where
  "first_row [] = None"
| "first_row (r # rs) =
     (case first_row rs of None \<Rightarrow> Some r | Some q \<Rightarrow> if before r q then Some r else Some q)"

definition claimed :: "string \<Rightarrow> go_time \<Rightarrow> job_row \<Rightarrow> job_row" where
  "claimed w now r = r\<lparr>j_status := Running, j_locked_by := Some w, j_locked_at := Some now,
                        j_attempts := j_attempts r + 1\<rparr>"

definition update_row :: "int \<Rightarrow> (job_row \<Rightarrow> job_row) \<Rightarrow> job_row list \<Rightarrow> job_row list" where
  "update_row i f = map (\<lambda>r. if j_id r = i then f r else r)"

definition claimSQL :: "jobs_db \<Rightarrow> string \<Rightarrow> go_time \<Rightarrow> string list \<Rightarrow> sql_error + (job_row option \<times> jobs_db)" where
  "claimSQL db w now kinds =
     (case first_row (filter (ready now kinds) (rows db)) of
        None \<Rightarrow> Inr (None, db)
      | Some r \<Rightarrow>
          (case commit db (update_row (j_id r) (claimed w now) (rows db)) of
             Inl e \<Rightarrow> Inl e
           | Inr db' \<Rightarrow> Inr (Some (claimed w now r), db')))"

definition claim :: "jobs_db \<Rightarrow> string \<Rightarrow> go_time \<Rightarrow> string list \<Rightarrow> sql_error + (Job option \<times> jobs_db)" where
  "claim db w now kinds =
     (case claimSQL db w now kinds of
        Inl e \<Rightarrow> Inl e
      | Inr (None, db') \<Rightarrow> Inr (None, db')
      | Inr (Some r, db') \<Rightarrow>
          Inr (Some \<lparr>jb_ID = j_id r, jb_Kind = j_kind r, jb_Payload = j_payload r,
                     jb_Attempts = j_attempts r, jb_MaxAttempts = j_max_attempts r\<rparr>, db'))"

definition completeSQL :: "jobs_db \<Rightarrow> int \<Rightarrow> jobs_db" where
  "completeSQL db i = db\<lparr>rows := filter (\<lambda>r. j_id r \<noteq> i) (rows db)\<rparr>"

definition failSQL :: "jobs_db \<Rightarrow> int \<Rightarrow> job_status \<Rightarrow> string \<Rightarrow> go_time \<Rightarrow> sql_error + jobs_db" where
  "failSQL db i st msg runAt =
     commit db (update_row i (\<lambda>r. r\<lparr>j_status := st, j_last_error := Some msg, j_run_at := runAt,
                                    j_locked_by := None, j_locked_at := None\<rparr>) (rows db))"

definition stale :: "go_time \<Rightarrow> job_row \<Rightarrow> bool" where
  "stale cutoff r \<longleftrightarrow> j_status r = Running \<and> (case j_locked_at r of None \<Rightarrow> False | Some t \<Rightarrow> t < cutoff)"

definition dropStaleSQL :: "jobs_db \<Rightarrow> go_time \<Rightarrow> jobs_db" where
  "dropStaleSQL db cutoff =
     db\<lparr>rows := filter (\<lambda>j. \<not> (stale cutoff j \<and> j_key j \<noteq> None \<and>
                            list_ex (\<lambda>q. j_status q = Queued \<and> same_key j q) (rows db))) (rows db)\<rparr>"

definition reapSQL :: "jobs_db \<Rightarrow> go_time \<Rightarrow> go_time \<Rightarrow> sql_error + jobs_db" where
  "reapSQL db now cutoff =
     commit db (map (\<lambda>r. if stale cutoff r
                         then r\<lparr>j_status := Queued, j_locked_by := None, j_locked_at := None, j_run_at := now,
                                j_last_error := Some ''worker stopped responding''\<rparr>
                         else r) (rows db))"

text \<open>\<open>reap\<close> runs both statements and only logs a failure.\<close>

definition reap :: "jobs_db \<Rightarrow> go_time \<Rightarrow> jobs_db" where
  "reap db now =
     (let cutoff = now + wrap64 (- lockTimeout);
          db1 = dropStaleSQL db cutoff
      in case reapSQL db1 now cutoff of Inl e \<Rightarrow> db1 | Inr db2 \<Rightarrow> db2)"

subsection \<open>Running a job\<close>

definition baseBackoff :: duration where
  "baseBackoff = 10 * second"

definition maxBackoff :: duration where
  "maxBackoff = hour"

text \<open>The random part is an argument, at least 0 and below \<open>d/2+1\<close>.\<close>

definition backoff_base :: "int \<Rightarrow> duration" where
  "backoff_base attempt = min (wrap64 (baseBackoff * 2 ^ nat (min (max (attempt - 1) 0) 12))) maxBackoff"

definition backoff :: "int \<Rightarrow> int \<Rightarrow> duration" where
  "backoff attempt jitter = go_div (backoff_base attempt) 2 + jitter"

text \<open>What the handler of a job comes to: no error, an error (permanent or not), or a panic.\<close>

datatype outcome = Ok | Err string bool | Panicked string

text \<open>\<open>call\<close>: a job without a handler fails for good, and a panic becomes an ordinary error.\<close>

definition call :: "(string \<Rightarrow> (Job \<Rightarrow> outcome) option) \<Rightarrow> Job \<Rightarrow> (string \<times> bool) option" where
  "call handlers j =
     (case handlers (jb_Kind j) of
        None \<Rightarrow> Some (''no handler for '' @ jb_Kind j, True)
      | Some h \<Rightarrow>
          (case h j of
             Ok \<Rightarrow> None
           | Err m perm \<Rightarrow> Some (m, perm)
           | Panicked m \<Rightarrow> Some (''panic: '' @ m, False)))"

text \<open>\<open>fail\<close>: requeue or give up; a requeue that meets a queued twin drops the row.  The scrubbed
  and shortened message is an argument.\<close>

definition fail :: "jobs_db \<Rightarrow> Job \<Rightarrow> string \<Rightarrow> bool \<Rightarrow> go_time \<Rightarrow> int \<Rightarrow> sql_error + jobs_db" where
  "fail db j msg final now jitter =
     (let st = (if final then Failed else Queued) in
      case failSQL db (jb_ID j) st msg (now + backoff (jb_Attempts j) jitter) of
        Inl UniqueViolation \<Rightarrow> Inr (completeSQL db (jb_ID j))
      | Inl e \<Rightarrow> Inl e
      | Inr db' \<Rightarrow> Inr db')"

text \<open>\<open>run\<close>: a database error while recording the result is only logged.\<close>

definition run_job ::
  "(string \<Rightarrow> (Job \<Rightarrow> outcome) option) \<Rightarrow> jobs_db \<Rightarrow> Job \<Rightarrow> go_time \<Rightarrow> int \<Rightarrow> jobs_db" where
  "run_job handlers db j now jitter =
     (case call handlers j of
        None \<Rightarrow> completeSQL db (jb_ID j)
      | Some (msg, perm) \<Rightarrow>
          (let final = (jb_Attempts j \<ge> jb_MaxAttempts j \<or> perm) in
           case fail db j msg final now jitter of Inl e \<Rightarrow> db | Inr db' \<Rightarrow> db'))"

record periodic =
  pe_kind :: string
  pe_every :: duration

text \<open>One round of \<open>schedule\<close>: enqueue what is due and move its next time on.\<close>

fun schedule_round :: "jobs_db \<Rightarrow> go_time \<Rightarrow> (periodic \<times> go_time) list \<Rightarrow> jobs_db \<times> (periodic \<times> go_time) list" where
  "schedule_round db now [] = (db, [])"
| "schedule_round db now ((p, nxt) # ps) =
     (let (db1, nxt1) =
        (if now < nxt then (db, nxt)
         else case Enqueue db now (pe_kind p) None
                \<lparr>opt_UniqueKey = pe_kind p, opt_RunAt = zero_time, opt_Priority = 0, opt_MaxAttempts = 0\<rparr> of
                Inl e \<Rightarrow> (db, nxt)
              | Inr db' \<Rightarrow> (db', now + pe_every p));
          (db2, rest) = schedule_round db1 now ps
      in (db2, (p, nxt1) # rest))"

subsection \<open>The invariant\<close>

definition jobs_wf :: "jobs_db \<Rightarrow> bool" where
  "jobs_wf db \<longleftrightarrow> list_all row_ok (rows db) \<and> index_ok (rows db) \<and> distinct (map j_id (rows db)) \<and>
     (\<forall>r \<in> set (rows db). j_id r < next_id db)"

lemma commit_Inr:
  "commit db rs = Inr db' \<Longrightarrow> db' = db\<lparr>rows := rs\<rparr> \<and> list_all row_ok rs \<and> index_ok rs"
  by (auto simp: commit_def split: if_splits)

lemma commit_ok: "list_all row_ok rs \<Longrightarrow> index_ok rs \<Longrightarrow> commit db rs = Inr (db\<lparr>rows := rs\<rparr>)"
  by (simp add: commit_def)

lemma index_ok_filter: "index_ok rs \<Longrightarrow> index_ok (filter P rs)"
proof -
  have "distinct (map g (filter Q rs)) \<Longrightarrow> distinct (map g (filter Q (filter P rs)))" for g :: "job_row \<Rightarrow> 'b" and Q
    by (induction rs) auto
  then show "index_ok rs \<Longrightarrow> ?thesis" unfolding index_ok_def Let_def .
qed

text \<open>A rewrite that queues nothing new keeps the index.\<close>

lemma index_ok_map:
  assumes "\<And>r. r \<in> set rs \<Longrightarrow> j_status (f r) = Queued \<Longrightarrow> j_key (f r) \<noteq> None \<Longrightarrow>
      j_status r = Queued \<and> j_kind (f r) = j_kind r \<and> j_key (f r) = j_key r"
  shows "index_ok rs \<Longrightarrow> index_ok (map f rs)"
  using assms
proof (induction rs)
  case (Cons r rs)
  let ?Q = "\<lambda>r. j_status r = Queued \<and> j_key r \<noteq> None" and ?g = "\<lambda>r. (j_kind r, j_key r)"
  have "set (map ?g (filter ?Q (map f rs))) \<subseteq> set (map ?g (filter ?Q rs))"
    using Cons.prems(2) by (auto simp: image_iff)
  moreover have "index_ok rs" using Cons.prems(1) by (auto simp: index_ok_def Let_def split: if_splits)
  moreover have "index_ok (map f rs)" using Cons.IH [OF \<open>index_ok rs\<close>] Cons.prems(2) by simp
  ultimately show ?case
    using Cons.prems by (auto simp: index_ok_def Let_def split: if_splits)
qed simp

lemma index_ok_Cons:
  "index_ok (r # rs) \<longleftrightarrow> index_ok rs \<and>
     (j_status r = Queued \<and> j_key r \<noteq> None \<longrightarrow>
        (j_kind r, j_key r) \<notin> set (map (\<lambda>r. (j_kind r, j_key r)) (filter (\<lambda>r. j_status r = Queued \<and> j_key r \<noteq> None) rs)))"
  by (auto simp: index_ok_def Let_def)

lemma update_row_ids [simp]: "(\<And>r. j_id (f r) = j_id r) \<Longrightarrow> map j_id (update_row i f rs) = map j_id rs"
  by (simp add: update_row_def)

lemma commit_wf:
  assumes "jobs_wf db" and "commit db rs = Inr db'" and "map j_id rs = map j_id (rows db)"
  shows "jobs_wf db'"
proof -
  have "j_id ` set rs = j_id ` set (rows db)" using assms(3) by (metis list.set_map)
  then show ?thesis using commit_Inr [OF assms(2)] assms(1,3) by (force simp: jobs_wf_def image_iff)
qed

lemma Enqueue_wf:
  assumes "jobs_wf db" and "Enqueue db now kind payload opts = Inr db'"
  shows "jobs_wf db'"
proof -
  obtain body key runAt prio maxA where "enqueueSQL db now kind body key runAt prio maxA = Inr db'"
    using assms(2) by (auto simp: Enqueue_def Let_def)
  then show ?thesis
    using assms(1) unfolding enqueueSQL_def Let_def
    by (auto simp: jobs_wf_def less_le_trans dest!: commit_Inr split: if_splits) force+
qed

lemma completeSQL_wf: "jobs_wf db \<Longrightarrow> jobs_wf (completeSQL db i)"
  by (auto simp: jobs_wf_def completeSQL_def index_ok_filter list_all_iff distinct_map inj_on_def)

lemma dropStaleSQL_wf: "jobs_wf db \<Longrightarrow> jobs_wf (dropStaleSQL db c)"
  unfolding dropStaleSQL_def
  by (auto simp: jobs_wf_def index_ok_filter list_all_iff distinct_map inj_on_def)

lemma failSQL_wf: "jobs_wf db \<Longrightarrow> failSQL db i st msg t = Inr db' \<Longrightarrow> jobs_wf db'"
  unfolding failSQL_def by (erule (1) commit_wf) simp

lemma reapSQL_wf: "jobs_wf db \<Longrightarrow> reapSQL db now c = Inr db' \<Longrightarrow> jobs_wf db'"
  unfolding reapSQL_def by (erule (1) commit_wf) simp

lemma reap_wf: "jobs_wf db \<Longrightarrow> jobs_wf (reap db now)"
  using dropStaleSQL_wf reapSQL_wf [OF dropStaleSQL_wf [of db]]
  by (auto simp: reap_def Let_def split: sum.splits)

lemma fail_wf: "jobs_wf db \<Longrightarrow> fail db j msg final now jitter = Inr db' \<Longrightarrow> jobs_wf db'"
  using failSQL_wf completeSQL_wf
  by (auto simp: fail_def Let_def split: sum.splits sql_error.splits)

lemma run_job_wf: "jobs_wf db \<Longrightarrow> jobs_wf (run_job handlers db j now jitter)"
  using fail_wf completeSQL_wf
  by (auto simp: run_job_def Let_def split: sum.splits option.splits)

lemma schedule_round_wf: "jobs_wf db \<Longrightarrow> schedule_round db now ps = (db', ps') \<Longrightarrow> jobs_wf db'"
  by (induction db now ps arbitrary: ps' rule: schedule_round.induct)
    (auto simp: Let_def split: prod.splits if_splits sum.splits dest: Enqueue_wf)

subsection \<open>Claims\<close>

lemma first_row_None: "first_row rs = None \<longleftrightarrow> rs = []"
  by (cases rs) (auto split: option.splits)

lemma first_row_best: "first_row rs = Some r \<Longrightarrow> r \<in> set rs \<and> (\<forall>q \<in> set rs. before r q)"
proof (induction rs arbitrary: r)
  case (Cons x xs)
  have total: "before a b \<or> before b a" for a b by (auto simp: before_def)
  have trans: "before a b \<Longrightarrow> before b c \<Longrightarrow> before a c" for a b c by (auto simp: before_def)
  have refl: "before a a" for a by (simp add: before_def)
  show ?case
  proof (cases "first_row xs")
    case None
    then show ?thesis using Cons.prems refl by (simp add: first_row_None)
  next
    case (Some q)
    then show ?thesis
      using Cons.IH [OF Some] Cons.prems total [of x q] trans [of x q] refl
      by (auto split: if_splits)
  qed
qed simp

lemma claimed_simps [simp]: "j_id (claimed w now r) = j_id r" "j_status (claimed w now r) = Running"
  by (simp_all add: claimed_def)

lemma claim_commits:
  assumes "jobs_wf db"
  shows "commit db (update_row i (claimed w now) (rows db)) =
           Inr (db\<lparr>rows := update_row i (claimed w now) (rows db)\<rparr>)"
proof (rule commit_ok)
  show "list_all row_ok (update_row i (claimed w now) (rows db))"
    using assms by (auto simp: jobs_wf_def list_all_iff update_row_def claimed_def row_ok_def)
  have "index_ok (rows db)" using assms by (simp add: jobs_wf_def)
  then show "index_ok (update_row i (claimed w now) (rows db))"
    unfolding update_row_def by (rule index_ok_map [rotated]) (auto split: if_splits)
qed

lemma claimSQL_total:
  assumes "jobs_wf db"
  shows "\<exists>j db'. claimSQL db w now kinds = Inr (j, db') \<and> jobs_wf db'"
proof (cases "first_row (filter (ready now kinds) (rows db))")
  case None
  then show ?thesis using assms by (simp add: claimSQL_def)
next
  case (Some r)
  let ?rs = "update_row (j_id r) (claimed w now) (rows db)"
  have "jobs_wf (db\<lparr>rows := ?rs\<rparr>)"
    using commit_wf [OF assms claim_commits [OF assms]] by simp
  then show ?thesis using Some claim_commits [OF assms] by (simp add: claimSQL_def)
qed

lemma claimSQL_Some:
  assumes "jobs_wf db" and "claimSQL db w now kinds = Inr (Some c, db')"
  shows "\<exists>r. r \<in> set (rows db) \<and> ready now kinds r \<and> c = claimed w now r \<and>
           (\<forall>q \<in> set (rows db). ready now kinds q \<longrightarrow> before r q) \<and>
           rows db' = update_row (j_id r) (claimed w now) (rows db) \<and> jobs_wf db'"
proof -
  obtain r where r: "first_row (filter (ready now kinds) (rows db)) = Some r"
    using assms(2) by (auto simp: claimSQL_def split: option.splits)
  then have "c = claimed w now r" "rows db' = update_row (j_id r) (claimed w now) (rows db)"
    using assms(2) claim_commits [OF assms(1)] by (auto simp: claimSQL_def)
  moreover have "jobs_wf db'" using claimSQL_total [OF assms(1), of w now kinds] assms(2) by auto
  ultimately show ?thesis using first_row_best [OF r] by auto
qed

lemma claimSQL_None:
  assumes "jobs_wf db" and "claimSQL db w now kinds = Inr (None, db')"
  shows "db' = db \<and> (\<forall>q \<in> set (rows db). \<not> ready now kinds q)"
  using assms(2) claim_commits [OF assms(1)]
  by (auto simp: claimSQL_def first_row_None filter_empty_conv split: option.splits)

subsection \<open>Exclusive claims\<close>

text \<open>
  What several workers that share a queue rely on: taking hands out a free item and leaves it no
  longer free, and frees nothing.
\<close>

locale exclusive_queue =
  fixes take1 :: "'d \<Rightarrow> 'w \<Rightarrow> 'i option \<times> 'd"
    and free :: "'d \<Rightarrow> 'i \<Rightarrow> bool"
    and inv :: "'d \<Rightarrow> bool"
  assumes take1_inv: "inv d \<Longrightarrow> inv (snd (take1 d w))"
    and take1_free: "inv d \<Longrightarrow> fst (take1 d w) = Some i \<Longrightarrow> free d i \<and> \<not> free (snd (take1 d w)) i"
    and take1_keeps: "inv d \<Longrightarrow> free (snd (take1 d w)) i \<Longrightarrow> free d i"
begin

fun takes :: "'d \<Rightarrow> 'w list \<Rightarrow> 'i list \<times> 'd" where
  "takes d [] = ([], d)"
| "takes d (w # ws) =
     (let (x, d1) = take1 d w; (is, d2) = takes d1 ws
      in (case x of None \<Rightarrow> is | Some i \<Rightarrow> i # is, d2))"

lemma takes_exclusive:
  "inv d \<Longrightarrow> takes d ws = (is, d') \<Longrightarrow>
     distinct is \<and> (\<forall>i \<in> set is. free d i \<and> \<not> free d' i) \<and> inv d' \<and> (\<forall>i. free d' i \<longrightarrow> free d i)"
proof (induction ws arbitrary: d "is")
  case (Cons w ws)
  obtain x d1 where t: "take1 d w = (x, d1)" by force
  obtain js where r: "takes d1 ws = (js, d')" and is_eq: "is = (case x of None \<Rightarrow> js | Some i \<Rightarrow> i # js)"
    using Cons.prems(2) by (auto simp: Let_def t split: prod.splits)
  have inv1: "inv d1" using take1_inv [OF Cons.prems(1), of w] t by simp
  have keep: "free d1 i \<Longrightarrow> free d i" for i using take1_keeps [OF Cons.prems(1), of w i] t by simp
  note IH = Cons.IH [OF inv1 r]
  show ?case
    using IH keep take1_free [OF Cons.prems(1), of w] t is_eq by (auto split: option.splits)
qed simp

end

definition queued_id :: "jobs_db \<Rightarrow> int \<Rightarrow> bool" where
  "queued_id db i \<longleftrightarrow> list_ex (\<lambda>r. j_id r = i \<and> j_status r = Queued) (rows db)"

definition take_job :: "jobs_db \<Rightarrow> string \<times> go_time \<times> string list \<Rightarrow> int option \<times> jobs_db" where
  "take_job db c =
     (case c of (w, now, kinds) \<Rightarrow>
        (case claim db w now kinds of Inl e \<Rightarrow> (None, db) | Inr (j, db') \<Rightarrow> (map_option jb_ID j, db')))"

lemma take_job_cases:
  assumes "jobs_wf db"
  shows "take_job db (w, now, kinds) = (None, db) \<or>
    (\<exists>r. r \<in> set (rows db) \<and> j_status r = Queued \<and> fst (take_job db (w, now, kinds)) = Some (j_id r) \<and>
       rows (snd (take_job db (w, now, kinds))) = update_row (j_id r) (claimed w now) (rows db) \<and>
       jobs_wf (snd (take_job db (w, now, kinds))))"
proof -
  obtain c db' where c: "claimSQL db w now kinds = Inr (c, db')"
    using claimSQL_total [OF assms] by blast
  show ?thesis
  proof (cases c)
    case None
    then show ?thesis using c claimSQL_None [OF assms, of w now kinds db'] by (simp add: take_job_def claim_def)
  next
    case (Some x)
    then obtain r where r: "r \<in> set (rows db)" "ready now kinds r" "x = claimed w now r"
      "rows db' = update_row (j_id r) (claimed w now) (rows db)" "jobs_wf db'"
      using claimSQL_Some [OF assms, of w now kinds x db'] c by blast
    then show ?thesis using c Some by (auto simp: take_job_def claim_def ready_def)
  qed
qed

interpretation job_queue: exclusive_queue take_job queued_id jobs_wf
proof (unfold_locales, goal_cases)
  case (1 d w)
  then show ?case using take_job_cases [of d "fst w" "fst (snd w)" "snd (snd w)"] by (auto simp: prod.collapse)
next
  case (2 d w i)
  then show ?case
    using take_job_cases [of d "fst w" "fst (snd w)" "snd (snd w)"]
    by (auto simp: queued_id_def list_ex_iff update_row_def)
next
  case (3 d w i)
  then show ?case
    using take_job_cases [of d "fst w" "fst (snd w)" "snd (snd w)"]
    by (auto simp: queued_id_def list_ex_iff update_row_def split: if_splits)
qed

text \<open>Claims one after another, by any workers at any times: the claimed ids and the table.\<close>

fun claims :: "jobs_db \<Rightarrow> (string \<times> go_time \<times> string list) list \<Rightarrow> int list \<times> jobs_db" where
  "claims db [] = ([], db)"
| "claims db (c # cs) =
     (let (x, db1) = take_job db c; (is, db2) = claims db1 cs
      in (case x of None \<Rightarrow> is | Some i \<Rightarrow> i # is, db2))"

lemma claims_takes: "claims db cs = job_queue.takes db cs"
  by (induction cs arbitrary: db) simp_all

subsection \<open>Reaping\<close>

lemma twins_break_index:
  assumes "a \<in> set rs" "b \<in> set rs" "j_id a \<noteq> j_id b" "same_key a b" "j_status a = Queued" "j_status b = Queued"
  shows "\<not> index_ok rs"
proof
  let ?Q = "\<lambda>r. j_status r = Queued \<and> j_key r \<noteq> None" and ?g = "\<lambda>r. (j_kind r, j_key r)"
  assume "index_ok rs"
  then have "inj_on ?g (set (filter ?Q rs))" by (simp add: index_ok_def Let_def distinct_map)
  moreover have "a \<in> set (filter ?Q rs)" "b \<in> set (filter ?Q rs)" "?g a = ?g b"
    using assms by (auto simp: same_key_def)
  ultimately have "a = b" unfolding inj_on_def by blast
  with assms(3) show False by simp
qed

definition requeued :: "go_time \<Rightarrow> job_row \<Rightarrow> job_row" where
  "requeued now r = r\<lparr>j_status := Queued, j_locked_by := None, j_locked_at := None, j_run_at := now,
                      j_last_error := Some ''worker stopped responding''\<rparr>"

lemma requeued_not_stale: "\<not> stale c (requeued now r)"
  by (simp add: stale_def requeued_def)

lemma reapSQL_requeued:
  "reapSQL db now c = commit db (map (\<lambda>r. if stale c r then requeued now r else r) (rows db))"
  unfolding reapSQL_def requeued_def ..

text \<open>The index after requeueing, when neither a queued row nor another stale one has the key.\<close>

lemma index_ok_select:
  assumes "index_ok rs" and "distinct (map j_id rs)"
    and "\<And>a b. a \<in> set rs \<Longrightarrow> b \<in> set rs \<Longrightarrow> S a \<Longrightarrow> same_key a b \<Longrightarrow>
           j_status b = Queued \<or> S b \<Longrightarrow> a = b"
    and keeps: "\<And>r. S r \<Longrightarrow> j_kind (f r) = j_kind r \<and> j_key (f r) = j_key r"
  shows "index_ok (map (\<lambda>r. if S r then f r else r) rs)"
  using assms(1,2,3)
proof (induction rs)
  case (Cons r rs)
  let ?f = "\<lambda>r. if S r then f r else r"
  let ?Q = "\<lambda>r. j_status r = Queued \<and> j_key r \<noteq> None" and ?g = "\<lambda>r. (j_kind r, j_key r)"
  have keep: "j_kind (?f x) = j_kind x" "j_key (?f x) = j_key x"
    "?Q (?f x) \<Longrightarrow> j_key x \<noteq> None \<and> (S x \<or> j_status x = Queued)" for x
    using keeps [of x] by (auto split: if_splits)
  have IH: "index_ok (map ?f rs)"
  proof (rule Cons.IH)
    show "index_ok rs" using Cons.prems(1) by (auto simp: index_ok_def Let_def split: if_splits)
    show "distinct (map j_id rs)" using Cons.prems(2) by simp
  qed (use Cons.prems(3) in auto)
  show ?case
  proof (cases "?Q (?f r)")
    case False
    then show ?thesis using IH unfolding list.map index_ok_Cons by blast
  next
    case True
    have "?g (?f r) \<notin> set (map ?g (filter ?Q (map ?f rs)))"
    proof
      assume "?g (?f r) \<in> set (map ?g (filter ?Q (map ?f rs)))"
      then obtain x where "x \<in> set rs" "?Q (?f x)" "?g (?f x) = ?g (?f r)" by (auto simp: image_iff)
      then have x: "x \<in> set rs" "?Q (?f x)" "j_kind x = j_kind r" "j_key x = j_key r"
        unfolding prod.inject keep(1,2) by auto
      then have ne: "x \<noteq> r" using Cons.prems(2) by auto
      have sk: "same_key r x" "same_key x r" using x keep(3) [OF True] by (auto simp: same_key_def)
      show False
      proof (cases "S r \<or> S x")
        case True
        then show False using Cons.prems(3) [of r x] Cons.prems(3) [of x r] sk x(1) ne
            keep(3) [OF x(2)] keep(3) [OF \<open>?Q (?f r)\<close>] by auto
      next
        case False
        then have "j_status r = Queued" "j_status x = Queued"
          using keep(3) [OF x(2)] keep(3) [OF \<open>?Q (?f r)\<close>] by auto
        then show False
          using twins_break_index [of r "r # rs" x] x sk Cons.prems(1,2) by force
      qed
    qed
    then show ?thesis using IH unfolding list.map index_ok_Cons by blast
  qed
qed simp

subsection \<open>Runs of the queue\<close>

datatype job_op = OpEnqueue go_time string "string option" Options
  | OpClaim go_time string "string list"
  | OpRun Job go_time int
  | OpReap go_time
  | OpSchedule go_time "(periodic \<times> go_time) list"

definition job_step :: "(string \<Rightarrow> (Job \<Rightarrow> outcome) option) \<Rightarrow> job_op \<Rightarrow> jobs_db \<Rightarrow> jobs_db" where
  "job_step handlers op db =
     (case op of
        OpEnqueue now kind payload opts \<Rightarrow>
          (case Enqueue db now kind payload opts of Inl e \<Rightarrow> db | Inr db' \<Rightarrow> db')
      | OpClaim now w kinds \<Rightarrow> snd (take_job db (w, now, kinds))
      | OpRun j now jitter \<Rightarrow> run_job handlers db j now jitter
      | OpReap now \<Rightarrow> reap db now
      | OpSchedule now ps \<Rightarrow> fst (schedule_round db now ps))"

lemma job_step_wf: "jobs_wf db \<Longrightarrow> jobs_wf (job_step handlers op db)"
proof -
  assume wf: "jobs_wf db"
  show ?thesis
  proof (cases op)
    case (OpEnqueue now kind payload opts)
    then show ?thesis using wf Enqueue_wf [OF wf] by (simp add: job_step_def split: sum.splits)
  next
    case (OpClaim now w kinds)
    then show ?thesis using job_queue.take1_inv [OF wf] by (simp add: job_step_def)
  next
    case (OpSchedule now ps)
    then show ?thesis
      using schedule_round_wf [OF wf prod.collapse [symmetric]] by (simp add: job_step_def)
  qed (simp_all add: job_step_def run_job_wf [OF wf] reap_wf [OF wf])
qed

definition empty_db :: jobs_db where
  "empty_db = \<lparr>rows = [], next_id = 1\<rparr>"

lemma empty_wf: "jobs_wf empty_db"
  by (simp add: jobs_wf_def empty_db_def index_ok_def)

lemma jobs_run_wf: "jobs_wf db \<Longrightarrow> jobs_wf (fold (job_step handlers) ops db)"
  by (induction ops arbitrary: db) (auto intro: job_step_wf)

subsection \<open>Properties\<close>



text \<open>
  No job is handed out twice.  Any number of claims, by any workers at any times, return
  pairwise different jobs, each of which was queued before and is no longer queued afterwards.
\<close>

theorem claims_exclusive:
  assumes "jobs_wf db" and "claims db cs = (ids, db')"
  shows "distinct ids \<and> (\<forall>i \<in> set ids. queued_id db i \<and> \<not> queued_id db' i) \<and> jobs_wf db'"
  using job_queue.takes_exclusive [OF assms(1), of cs ids db'] assms(2) by (simp add: claims_takes)

definition two_rows :: jobs_db where
  "two_rows = projr (Enqueue (projr (Enqueue empty_db 0 ''a'' None
       \<lparr>opt_UniqueKey = ''x'', opt_RunAt = zero_time, opt_Priority = 0, opt_MaxAttempts = 0\<rparr>)) 0 ''a'' None
       \<lparr>opt_UniqueKey = ''y'', opt_RunAt = zero_time, opt_Priority = 5, opt_MaxAttempts = 3\<rparr>)"

lemma two_rows_eval:
  "two_rows = \<lparr>rows =
     [\<lparr>j_id = 1, j_kind = ''a'', j_payload = ''{}'', j_key = Some ''x'', j_status = Queued, j_priority = 0,
       j_run_at = 0, j_attempts = 0, j_max_attempts = 10, j_locked_by = None, j_locked_at = None, j_last_error = None\<rparr>,
      \<lparr>j_id = 2, j_kind = ''a'', j_payload = ''{}'', j_key = Some ''y'', j_status = Queued, j_priority = 5,
       j_run_at = 0, j_attempts = 0, j_max_attempts = 3, j_locked_by = None, j_locked_at = None, j_last_error = None\<rparr>],
     next_id = 3\<rparr>"
  by (simp add: two_rows_def Enqueue_def enqueueSQL_def empty_db_def commit_def row_ok_def index_ok_def Let_def
      same_key_def rune_count_ascii wrap16_def wrap32_def defaultMaxAttempts_def)

lemma two_rows_wf: "jobs_wf two_rows"
  by (simp add: two_rows_eval jobs_wf_def row_ok_def index_ok_def rune_count_ascii)

lemma claims_exclusive_witness:
  "\<exists>ids db'. claims two_rows [(''w1'', 1, [''a'']), (''w2'', 1, [''a''])] = (ids, db') \<and> distinct ids"
proof -
  obtain ids db' where c: "claims two_rows [(''w1'', 1, [''a'']), (''w2'', 1, [''a''])] = (ids, db')" by force
  then show ?thesis using claims_exclusive [OF two_rows_wf c] by blast
qed

text \<open>
  A claim takes the right job: one that is queued, due and of a kind the worker handles, with no
  such job of a higher priority, or of the same priority and due earlier; it is then running with one
  more attempt.  A claim finds nothing only when no such job exists.
\<close>

theorem claim_best:
  assumes "jobs_wf db"
  shows "\<exists>j db'. claim db w now kinds = Inr (j, db') \<and>
    (case j of
       None \<Rightarrow> db' = db \<and> (\<forall>q. q \<in> set (rows db) \<longrightarrow> \<not> ready now kinds q)
     | Some x \<Rightarrow> (\<exists>r. r \<in> set (rows db) \<and> ready now kinds r \<and> jb_ID x = j_id r \<and>
                   jb_Attempts x = j_attempts r + 1 \<and>
                   (\<forall>q. q \<in> set (rows db) \<and> ready now kinds q \<longrightarrow>
                      j_priority q \<le> j_priority r \<and> (j_priority q = j_priority r \<longrightarrow> j_run_at r \<le> j_run_at q)) \<and>
                   claimed w now r \<in> set (rows db')))"
proof -
  obtain c db' where c: "claimSQL db w now kinds = Inr (c, db')"
    using claimSQL_total [OF assms] by blast
  show ?thesis
  proof (cases c)
    case None
    then show ?thesis using c claimSQL_None [OF assms, of w now kinds db'] by (simp add: claim_def)
  next
    case (Some x)
    then obtain r where r: "r \<in> set (rows db)" "ready now kinds r" "x = claimed w now r"
      "\<forall>q \<in> set (rows db). ready now kinds q \<longrightarrow> before r q"
      "rows db' = update_row (j_id r) (claimed w now) (rows db)"
      using claimSQL_Some [OF assms, of w now kinds x db'] c by blast
    have "j_attempts x = j_attempts r + 1" using r(3) by (simp add: claimed_def)
    moreover have "claimed w now r \<in> set (rows db')" using r(1,5) by (auto simp: update_row_def)
    moreover have "\<forall>q. q \<in> set (rows db) \<and> ready now kinds q \<longrightarrow>
        j_priority q \<le> j_priority r \<and> (j_priority q = j_priority r \<longrightarrow> j_run_at r \<le> j_run_at q)"
      using r(4) by (fastforce simp: before_def)
    ultimately show ?thesis using c Some r(1,2,3) by (auto simp: claim_def)
  qed
qed

lemma claim_best_witness: "\<exists>j db'. claim two_rows ''w1'' 1 [''a''] = Inr (j, db')"
  using claim_best [OF two_rows_wf] by blast

text \<open>
  C29.  Failed work is never lost.  When the run of a claimed job fails, its row is still there with
  the error recorded: given up when the attempts are used up or the error is permanent, otherwise
  queued again after the backoff; it is dropped only when a queued row with the same key takes over.
\<close>

theorem run_job_keeps_work:
  assumes "jobs_wf db" and "r \<in> set (rows db)" and "j_id r = jb_ID j"
    and "call handlers j = Some (msg, perm)"
    and "final \<longleftrightarrow> jb_MaxAttempts j \<le> jb_Attempts j \<or> perm"
  shows "(\<exists>q. q \<in> set (rows (run_job handlers db j now jitter)) \<and> j_id q = j_id r \<and>
            j_kind q = j_kind r \<and> j_payload q = j_payload r \<and> j_last_error q = Some msg \<and>
            j_status q = (if final then Failed else Queued) \<and>
            j_run_at q = now + backoff (jb_Attempts j) jitter) \<or>
         \<not> final \<and> (\<exists>q. q \<in> set (rows (run_job handlers db j now jitter)) \<and> j_status q = Queued \<and> same_key r q)"
proof -
  let ?st = "if final then Failed else Queued"
  let ?f = "\<lambda>r. r\<lparr>j_status := ?st, j_last_error := Some msg, j_run_at := now + backoff (jb_Attempts j) jitter,
                  j_locked_by := None, j_locked_at := None\<rparr>"
  let ?rs = "update_row (jb_ID j) ?f (rows db)"
  have run: "run_job handlers db j now jitter =
      (case fail db j msg final now jitter of Inl e \<Rightarrow> db | Inr db' \<Rightarrow> db')"
    using assms(4,5) by (simp add: run_job_def Let_def)
  have rows_ok: "list_all row_ok ?rs"
    using assms(1) by (auto simp: jobs_wf_def list_all_iff update_row_def row_ok_def)
  show ?thesis
  proof (cases "index_ok ?rs")
    case True
    then have "rows (run_job handlers db j now jitter) = ?rs"
      using run rows_ok by (simp add: fail_def failSQL_def commit_def Let_def)
    moreover have "?f r \<in> set ?rs" using assms(2,3) by (auto simp: update_row_def)
    ultimately show ?thesis by (intro disjI1 exI [of _ "?f r"]) simp
  next
    case False
    then have rows': "rows (run_job handlers db j now jitter) = filter (\<lambda>r. j_id r \<noteq> jb_ID j) (rows db)"
      using run rows_ok by (simp add: fail_def failSQL_def commit_def Let_def completeSQL_def)
    have "index_ok (rows db)" and ids: "distinct (map j_id (rows db))"
      using assms(1) by (simp_all add: jobs_wf_def)
    have nf: "\<not> final"
    proof
      assume final
      then have "index_ok ?rs" unfolding update_row_def using \<open>index_ok (rows db)\<close>
        by (intro index_ok_map) (auto split: if_splits)
      with False show False ..
    qed
    have "\<exists>q. q \<in> set (rows db) \<and> j_id q \<noteq> jb_ID j \<and> j_status q = Queued \<and> same_key r q"
    proof (rule ccontr)
      assume none: "\<not> ?thesis"
      have "index_ok ?rs"
        unfolding update_row_def
      proof (rule index_ok_select [OF \<open>index_ok (rows db)\<close> ids])
        fix a b
        assume ab: "a \<in> set (rows db)" "b \<in> set (rows db)" "j_id a = jb_ID j" "same_key a b"
          "j_status b = Queued \<or> j_id b = jb_ID j"
        then have "a = r" using ids assms(2,3) by (metis eq_key_imp_eq_value distinct_map inj_on_eq_iff)
        with ab none have "j_id b = jb_ID j" by blast
        then show "a = b" using ids ab by (metis distinct_map inj_on_eq_iff)
      qed simp
      with False show False ..
    qed
    then show ?thesis using nf rows' by auto
  qed
qed

lemma run_job_keeps_work_witness:
  "\<exists>q. q \<in> set (rows (run_job (\<lambda>k. None) two_rows
       \<lparr>jb_ID = 1, jb_Kind = ''a'', jb_Payload = ''{}'', jb_Attempts = 1, jb_MaxAttempts = 10\<rparr> 100 0)) \<and>
     j_id q = 1 \<and> j_status q = Failed"
proof -
  let ?j = "\<lparr>jb_ID = 1, jb_Kind = ''a'', jb_Payload = ''{}'', jb_Attempts = 1, jb_MaxAttempts = 10\<rparr>"
  have call: "call (\<lambda>k. None) ?j = Some (''no handler for a'', True)" by (simp add: call_def)
  have r: "rows two_rows ! 0 \<in> set (rows two_rows)" "j_id (rows two_rows ! 0) = jb_ID ?j" "j_id (rows two_rows ! 0) = 1"
    by (simp_all add: two_rows_eval)
  show ?thesis
    using run_job_keeps_work [OF two_rows_wf r(1,2) call, of True 100 0] unfolding r(3) by auto
qed

text \<open>
  Reaping.  When no two stale rows share a key, a reap leaves no stale row behind: each one is
  queued again, or was dropped because a queued row with its key exists.
\<close>

theorem reap_clears_stale:
  assumes "jobs_wf db" and "cutoff = now - lockTimeout"
    and "\<forall>a b. a \<in> set (rows db) \<and> b \<in> set (rows db) \<and> stale cutoff a \<and> stale cutoff b \<and> same_key a b \<longrightarrow> a = b"
  shows "(\<forall>r. r \<in> set (rows (reap db now)) \<longrightarrow> \<not> stale cutoff r) \<and>
         (\<forall>r. r \<in> set (rows db) \<and> stale cutoff r \<longrightarrow>
            (\<exists>q. q \<in> set (rows (reap db now)) \<and> j_status q = Queued \<and> (j_id q = j_id r \<or> same_key r q)))"
proof -
  let ?c = "now + wrap64 (- lockTimeout)"
  have c: "?c = cutoff" by (simp add: assms(2) wrap64_def lockTimeout_def duration_defs)
  let ?db = "dropStaleSQL db cutoff"
  let ?f = "\<lambda>r. if stale cutoff r then requeued now r else r"
  have sub: "set (rows ?db) \<subseteq> set (rows db)" by (auto simp: dropStaleSQL_def)
  have wf: "jobs_wf ?db" using dropStaleSQL_wf [OF assms(1)] .
  have q_kept: "q \<in> set (rows db) \<Longrightarrow> j_status q = Queued \<Longrightarrow> q \<in> set (rows ?db)" for q
    by (auto simp: dropStaleSQL_def stale_def)
  have "index_ok (map ?f (rows ?db))"
  proof (rule index_ok_select)
    show "index_ok (rows ?db)" "distinct (map j_id (rows ?db))" using wf by (simp_all add: jobs_wf_def)
    fix a b
    assume ab: "a \<in> set (rows ?db)" "b \<in> set (rows ?db)" "stale cutoff a" "same_key a b"
      "j_status b = Queued \<or> stale cutoff b"
    have "j_status b \<noteq> Queued"
    proof
      assume "j_status b = Queued"
      then have "list_ex (\<lambda>q. j_status q = Queued \<and> same_key a q) (rows db)"
        using ab sub by (auto simp: list_ex_iff)
      then show False using ab(1,3,4) by (auto simp: dropStaleSQL_def same_key_def)
    qed
    then show "a = b" using ab sub assms(3) by blast
  qed (simp add: requeued_def)
  moreover have "list_all row_ok (map ?f (rows ?db))"
    using wf by (auto simp: jobs_wf_def list_all_iff row_ok_def requeued_def)
  ultimately have reap: "rows (reap db now) = map ?f (rows ?db)"
    unfolding reap_def Let_def c reapSQL_requeued by (simp add: commit_ok)
  have "\<exists>q. q \<in> set (map ?f (rows ?db)) \<and> j_status q = Queued \<and> (j_id q = j_id r \<or> same_key r q)"
    if r: "r \<in> set (rows db)" "stale cutoff r" for r
  proof (cases "r \<in> set (rows ?db)")
    case True
    then have "requeued now r \<in> set (map ?f (rows ?db))" using r(2) by force
    then show ?thesis by (intro exI [of _ "requeued now r"]) (simp add: requeued_def)
  next
    case False
    then obtain q where q: "q \<in> set (rows db)" "j_status q = Queued" "same_key r q"
      using r by (auto simp: dropStaleSQL_def list_ex_iff)
    then have "q \<in> set (map ?f (rows ?db))" using q_kept by (force simp: stale_def)
    with q show ?thesis by blast
  qed
  moreover have "\<not> stale cutoff r" if "r \<in> set (map ?f (rows ?db))" for r
  proof -
    from that have "r \<in> ?f ` set (rows ?db)" by (simp only: set_map)
    then obtain x where "r = ?f x" by (rule imageE)
    then show ?thesis using requeued_not_stale by (simp split: if_splits)
  qed
  ultimately show ?thesis unfolding reap by blast
qed

lemma reap_clears_stale_witness:
  "list_all (\<lambda>r. \<not> stale (- lockTimeout) r) (rows (reap two_rows 0))"
proof -
  have "\<forall>r \<in> set (rows two_rows). j_status r = Queued" by (simp add: two_rows_eval)
  then have none: "\<not> stale c r" if "r \<in> set (rows two_rows)" for c r using that by (simp add: stale_def)
  have "- lockTimeout = 0 - lockTimeout" by simp
  from reap_clears_stale [OF two_rows_wf this] none show ?thesis unfolding list_all_iff by blast
qed

text \<open>
  One pair of stale rows with the same key stops all reaping.  If two stale rows share a kind
  and a key and no queued row has it, the reaping statement violates the unique index as a whole, so
  every stale row of the table that has no queued twin stays locked.
\<close>

theorem reap_blocked:
  assumes "jobs_wf db" and "cutoff = now - lockTimeout"
    and "a \<in> set (rows db)" "b \<in> set (rows db)" "j_id a \<noteq> j_id b" "stale cutoff a" "stale cutoff b" "same_key a b"
    and "\<not> (\<exists>q. q \<in> set (rows db) \<and> j_status q = Queued \<and> same_key a q)"
    and "r \<in> set (rows db)" and "\<not> (\<exists>q. q \<in> set (rows db) \<and> j_status q = Queued \<and> same_key r q)"
  shows "r \<in> set (rows (reap db now))"
proof -
  let ?c = "now + wrap64 (- lockTimeout)"
  have c: "?c = cutoff" by (simp add: assms(2) wrap64_def lockTimeout_def duration_defs)
  let ?db = "dropStaleSQL db cutoff"
  let ?f = "\<lambda>r. if stale cutoff r then requeued now r else r"
  have kept: "x \<in> set (rows ?db)" if "x \<in> set (rows db)" "\<not> (\<exists>q. q \<in> set (rows db) \<and> j_status q = Queued \<and> same_key x q)" for x
    using that by (auto simp: dropStaleSQL_def list_ex_iff)
  have "same_key a q \<longleftrightarrow> same_key b q" for q using assms(8) by (auto simp: same_key_def)
  then have "a \<in> set (rows ?db)" "b \<in> set (rows ?db)" using kept assms(3,4,9) by auto
  then have "?f a \<in> set (map ?f (rows ?db))" "?f b \<in> set (map ?f (rows ?db))" unfolding set_map by blast+
  then have "requeued now a \<in> set (map ?f (rows ?db))" "requeued now b \<in> set (map ?f (rows ?db))"
    using assms(6,7) by (simp_all only: if_True)
  then have "\<not> index_ok (map ?f (rows ?db))"
    by (rule twins_break_index) (use assms(5,8) in \<open>auto simp: requeued_def same_key_def\<close>)
  then have "rows (reap db now) = rows ?db"
    unfolding reap_def Let_def c reapSQL_requeued by (auto simp: commit_def)
  then show ?thesis using kept [OF assms(10,11)] by simp
qed

definition stuck_rows :: jobs_db where
  "stuck_rows = \<lparr>rows =
     [\<lparr>j_id = 1, j_kind = ''a'', j_payload = ''{}'', j_key = Some ''x'', j_status = Running, j_priority = 0,
       j_run_at = 0, j_attempts = 1, j_max_attempts = 10, j_locked_by = Some ''w1'', j_locked_at = Some 1, j_last_error = None\<rparr>,
      \<lparr>j_id = 2, j_kind = ''a'', j_payload = ''{}'', j_key = Some ''x'', j_status = Running, j_priority = 0,
       j_run_at = 0, j_attempts = 1, j_max_attempts = 10, j_locked_by = Some ''w2'', j_locked_at = Some 2, j_last_error = None\<rparr>],
     next_id = 3\<rparr>"

lemma reap_blocked_witness: "rows stuck_rows ! 0 \<in> set (rows (reap stuck_rows (lockTimeout + 10)))"
proof -
  have wf: "jobs_wf stuck_rows" by (simp add: stuck_rows_def jobs_wf_def row_ok_def index_ok_def rune_count_ascii)
  have "\<forall>q \<in> set (rows stuck_rows). j_status q = Running" by (simp add: stuck_rows_def)
  then have none: "\<not> (\<exists>q. q \<in> set (rows stuck_rows) \<and> j_status q = Queued \<and> P q)" for P by auto
  show ?thesis
    by (rule reap_blocked [OF wf _ _ _ _ _ _ _ none _ none, of 10 _ "rows stuck_rows ! 0" "rows stuck_rows ! 1"])
      (simp_all add: stuck_rows_def stale_def same_key_def)
qed

text \<open>
  Backoff.  For every attempt and every value of the random part, the delay before the next try
  is between half of the exponential base and the base, hence at least five seconds and at most an
  hour, and the base never shrinks from one attempt to the next.
\<close>

theorem backoff_bounds:
  assumes "0 \<le> jitter" and "jitter < go_div (backoff_base n) 2 + 1"
  shows "5 * second \<le> backoff n jitter \<and> backoff n jitter \<le> backoff_base n \<and> backoff n jitter \<le> hour \<and>
         backoff_base n \<le> backoff_base (n + 1)"
proof -
  have eq: "backoff_base m = min (baseBackoff * 2 ^ nat (min (max (m - 1) 0) 12)) hour" for m
  proof -
    let ?k = "nat (min (max (m - 1) 0) 12)"
    define x :: int where "x = 2 ^ ?k"
    have "x \<le> 2 ^ 12" unfolding x_def by (rule power_increasing) auto
    moreover have "0 \<le> x" by (simp add: x_def)
    ultimately have "wrap64 (baseBackoff * x) = baseBackoff * x"
      unfolding baseBackoff_def second_def by (intro wrap64_id) (simp_all add: min_int64_def max_int64_def)
    then show ?thesis by (simp add: backoff_base_def maxBackoff_def x_def)
  qed
  have one: "(1::int) \<le> 2 ^ k" for k :: nat by simp
  then have "baseBackoff * 1 \<le> baseBackoff * 2 ^ nat (min (max (n - 1) 0) 12)"
    by (intro mult_left_mono) (simp_all add: baseBackoff_def second_def)
  then have lo: "10 * second \<le> backoff_base n"
    by (simp add: eq baseBackoff_def duration_defs)
  have "(2::int) ^ nat (min (max (n - 1) 0) 12) \<le> 2 ^ nat (min (max (n + 1 - 1) 0) 12)"
    by (rule power_increasing) auto
  then have mono: "backoff_base n \<le> backoff_base (n + 1)"
    unfolding eq by (intro min.mono mult_left_mono) (simp_all add: baseBackoff_def second_def)
  have half: "go_div (backoff_base n) 2 = backoff_base n div 2"
    using lo by (intro go_div_nonneg) (auto simp: second_def)
  have "2 * (backoff_base n div 2) \<le> backoff_base n" "backoff_base n \<le> 2 * (backoff_base n div 2) + 1"
    using int_div_bounds [of 2 "backoff_base n"] by auto
  moreover have "backoff_base n \<le> hour" by (simp add: eq)
  ultimately show ?thesis using assms lo mono unfolding backoff_def half by (simp add: second_def)
qed

lemma backoff_bounds_witness: "5 * second \<le> backoff 3 7 \<and> backoff 3 7 \<le> hour"
  using backoff_bounds [of 7 3]
  by (simp add: backoff_base_def baseBackoff_def maxBackoff_def wrap64_def go_div_def duration_defs)

end
