(* ===== verification/Crypto.thy ===== *)
theory Crypto
  imports Prelude
begin

unbundle bit_operations_syntax

text \<open>
  Cryptography as the program composes it, \<open>internal/crypto\<close>: the key ring with its sealed values and
  signatures, and the unpadded base64 codecs and byte-wise masks used by the authentication code.
  AES-GCM, HKDF and HMAC are arguments, with what the code relies on as the predicate \<open>primitives_ok\<close>.
\<close>

subsection \<open>Bytes\<close>

definition byte :: "char \<Rightarrow> nat" where
  "byte c = of_char c"

definition xor_byte :: "char \<Rightarrow> char \<Rightarrow> char" where
  "xor_byte a b = char_of (byte a XOR byte b)"

lemma byte_less [simp]: "byte c < 256"
  by (simp add: byte_def)

lemma char_of_byte [simp]: "char_of (byte c) = c"
  by (simp add: byte_def)

lemma byte_char_of: "n < 256 \<Longrightarrow> byte (char_of n) = n"
  by (simp add: byte_def of_char_of)

lemma byte_char_of_mod: "byte (char_of n) = n mod 256"
  by (simp add: byte_def of_char_of)

lemma byte_inject: "byte a = byte b \<longleftrightarrow> a = b"
  by (simp add: byte_def)

lemma xor_less_256: "(a :: nat) < 256 \<Longrightarrow> b < 256 \<Longrightarrow> a XOR b < 256"
  using take_bit_nat_eq_self_iff [of 8 "a XOR b"] take_bit_nat_eq_self_iff [of 8 a] take_bit_nat_eq_self_iff [of 8 b]
  by (simp add: take_bit_xor)

lemma xor_byte_cancel [simp]: "xor_byte (xor_byte a m) m = a"
  by (simp add: xor_byte_def byte_char_of xor_less_256 xor.assoc)

text \<open>Big-endian 32-bit numbers.\<close>

definition put_uint32 :: "nat \<Rightarrow> string" where
  "put_uint32 n = [char_of (n div 2 ^ 24 mod 256), char_of (n div 2 ^ 16 mod 256), char_of (n div 2 ^ 8 mod 256),
                   char_of (n mod 256)]"

definition get_uint32 :: "string \<Rightarrow> nat" where
  "get_uint32 s = ((byte (s ! 0) * 256 + byte (s ! 1)) * 256 + byte (s ! 2)) * 256 + byte (s ! 3)"

lemma put_uint32_length [simp]: "length (put_uint32 n) = 4"
  by (simp add: put_uint32_def)

lemma get_put_uint32:
  assumes "n < 2 ^ 32"
  shows "get_uint32 (put_uint32 n @ s) = n"
proof -
  define a where "a = n div 256"
  define b where "b = a div 256"
  define c where "c = b div 256"
  have q: "n div 2 ^ 8 = a" "n div 2 ^ 16 = b" "n div 2 ^ 24 = c"
    by (simp_all add: a_def b_def c_def div_mult2_eq [symmetric])
  have "c < 256" using assms by (simp add: a_def b_def c_def div_mult2_eq [symmetric] less_mult_imp_div_less)
  then have "get_uint32 (put_uint32 n @ s) = ((c * 256 + b mod 256) * 256 + a mod 256) * 256 + n mod 256"
    unfolding get_uint32_def put_uint32_def q by (simp add: byte_char_of_mod)
  also have "c * 256 + b mod 256 = b" by (simp add: c_def)
  also have "b * 256 + a mod 256 = a" by (simp add: b_def)
  also have "a * 256 + n mod 256 = n" by (simp add: a_def)
  finally show ?thesis .
qed

lemma get_uint32_append: "4 \<le> length s \<Longrightarrow> get_uint32 (s @ t) = get_uint32 s"
  by (cases s) (auto simp: get_uint32_def nth_append)

lemma put_get_uint32:
  assumes "length s = 4"
  shows "put_uint32 (get_uint32 s) = s"
proof -
  obtain w x y z where s: "s = [w, x, y, z]" using assms by (auto simp: length_Suc_conv eval_nat_numeral)
  define m where "m = byte w * 256 + byte x"
  define n where "n = m * 256 + byte y"
  define k where "k = n * 256 + byte z"
  have m: "m div 256 = byte w" "m mod 256 = byte x" using byte_less [of x] by (simp_all add: m_def)
  have n: "n div 256 = m" "n mod 256 = byte y" using byte_less [of y] by (simp_all add: n_def)
  have k: "k div 256 = n" "k mod 256 = byte z" using byte_less [of z] by (simp_all add: k_def)
  have "k div 2 ^ 8 = n" "k div 2 ^ 16 = m" "k div 2 ^ 24 = byte w"
    unfolding m(1) [symmetric] n(1) [symmetric] k(1) [symmetric] by (simp_all add: div_mult2_eq [symmetric])
  moreover have "get_uint32 s = k" by (simp add: s get_uint32_def m_def n_def k_def)
  moreover have "byte w mod 256 = byte w" using byte_less [of w] by simp
  ultimately show ?thesis unfolding put_uint32_def s by (simp only: m n k char_of_byte)
qed

subsection \<open>Base64 without padding\<close>

definition std_alphabet :: string where
  "std_alphabet = ''ABCDEFGHIJKLMNOPQRSTUVWXYZabcdefghijklmnopqrstuvwxyz0123456789+/''"

definition url_alphabet :: string where
  "url_alphabet = ''ABCDEFGHIJKLMNOPQRSTUVWXYZabcdefghijklmnopqrstuvwxyz0123456789-_''"

definition sextet :: "string \<Rightarrow> nat \<Rightarrow> char" where
  "sextet al i = al ! (i mod 64)"

definition unsextet :: "string \<Rightarrow> char \<Rightarrow> nat option" where
  "unsextet al c = index_func (\<lambda>x. x = c) al"

fun b64_encode :: "string \<Rightarrow> string \<Rightarrow> string" where
  "b64_encode al [] = []"
| "b64_encode al [a] = [sextet al (byte a div 4), sextet al (byte a * 16)]"
| "b64_encode al [a, b] =
     [sextet al (byte a div 4), sextet al (byte a * 16 + byte b div 16), sextet al (byte b * 4)]"
| "b64_encode al (a # b # c # s) =
     sextet al (byte a div 4) # sextet al (byte a * 16 + byte b div 16) #
     sextet al (byte b * 4 + byte c div 64) # sextet al (byte c) # b64_encode al s"

text \<open>The decoder skips line breaks and does not look at the unused bits of the last sextet.\<close>

fun b64_groups :: "string \<Rightarrow> string \<Rightarrow> string option" where
  "b64_groups al [] = Some []"
| "b64_groups al [p] = None"
| "b64_groups al [p, q] =
     (case (unsextet al p, unsextet al q) of
        (Some i, Some j) \<Rightarrow> Some [char_of ((i * 4 + j div 16) mod 256)]
      | _ \<Rightarrow> None)"
| "b64_groups al [p, q, r] =
     (case (unsextet al p, unsextet al q, unsextet al r) of
        (Some i, Some j, Some k) \<Rightarrow> Some [char_of ((i * 4 + j div 16) mod 256), char_of ((j * 16 + k div 4) mod 256)]
      | _ \<Rightarrow> None)"
| "b64_groups al (p # q # r # t # s) =
     (case (unsextet al p, unsextet al q, unsextet al r, unsextet al t) of
        (Some i, Some j, Some k, Some l) \<Rightarrow>
          map_option (\<lambda>rest. char_of ((i * 4 + j div 16) mod 256) # char_of ((j * 16 + k div 4) mod 256) #
                             char_of ((k * 64 + l) mod 256) # rest) (b64_groups al s)
      | _ \<Rightarrow> None)"

definition b64_decode :: "string \<Rightarrow> string \<Rightarrow> string option" where
  "b64_decode al s = b64_groups al (filter (\<lambda>c. c \<noteq> CHR 0x0A \<and> c \<noteq> CHR 0x0D) s)"

definition alphabet_ok :: "string \<Rightarrow> bool" where
  "alphabet_ok al \<longleftrightarrow> length al = 64 \<and> distinct al \<and> CHR 0x0A \<notin> set al \<and> CHR 0x0D \<notin> set al"

lemma alphabets_ok: "alphabet_ok std_alphabet" "alphabet_ok url_alphabet"
  by code_simp+

lemma index_func_nth:
  "distinct al \<Longrightarrow> i < length al \<Longrightarrow> index_func (\<lambda>x. x = al ! i) al = Some i"
proof (induction al arbitrary: i)
  case (Cons a al)
  then show ?case by (cases i) auto
qed simp

lemma unsextet_sextet: "alphabet_ok al \<Longrightarrow> unsextet al (sextet al i) = Some (i mod 64)"
  by (simp add: unsextet_def sextet_def alphabet_ok_def index_func_nth)

lemma encode_no_breaks:
  assumes "alphabet_ok al"
  shows "filter (\<lambda>c. c \<noteq> CHR 0x0A \<and> c \<noteq> CHR 0x0D) (b64_encode al s) = b64_encode al s"
proof -
  have "sextet al i \<in> set al" for i using assms by (simp add: sextet_def alphabet_ok_def)
  then have "set (b64_encode al s) \<subseteq> set al"
    by (induction al s rule: b64_encode.induct) auto
  then show ?thesis using assms by (intro filter_True) (auto simp: alphabet_ok_def)
qed

text \<open>How three bytes come back from four sextets.\<close>

lemma mod_join: "0 < k \<Longrightarrow> y < k \<Longrightarrow> (x * k + y) mod (k * m) = k * (x mod m) + y" for x y k m :: nat
  by (simp add: mod_mult2_eq)

lemma byte_splits:
  fixes a b c :: nat
  assumes "a < 256" "b < 256" "c < 256"
  shows "(a div 4 mod 64 * 4 + (a * 16 + b div 16) mod 64 div 16) mod 256 = a"
    and "(a div 4 mod 64 * 4 + a * 16 mod 64 div 16) mod 256 = a"
    and "((a * 16 + b div 16) mod 64 * 16 + (b * 4 + c div 64) mod 64 div 4) mod 256 = b"
    and "((a * 16 + b div 16) mod 64 * 16 + b * 4 mod 64 div 4) mod 256 = b"
    and "((b * 4 + c div 64) mod 64 * 64 + c mod 64) mod 256 = c"
proof -
  have lt: "b div 16 < 16" "c div 64 < 4" "a div 4 < 64" using assms by (simp_all add: less_mult_imp_div_less)
  have ab: "(a * 16 + b div 16) mod 64 = 16 * (a mod 4) + b div 16" using mod_join [of 16 "b div 16" a 4] lt by simp
  have a0: "a * 16 mod 64 = 16 * (a mod 4)" using mod_join [of 16 0 a 4] by simp
  have bc: "(b * 4 + c div 64) mod 64 = 4 * (b mod 16) + c div 64" using mod_join [of 4 "c div 64" b 16] lt by simp
  have b0: "b * 4 mod 64 = 4 * (b mod 16)" using mod_join [of 4 0 b 16] by simp
  have am: "a div 4 mod 64 = a div 4" using lt(3) by simp
  have "(16 * (a mod 4) + b div 16) div 16 = a mod 4" using lt(1) by simp
  then show "(a div 4 mod 64 * 4 + (a * 16 + b div 16) mod 64 div 16) mod 256 = a"
    unfolding ab am using assms(1) by simp
  show "(a div 4 mod 64 * 4 + a * 16 mod 64 div 16) mod 256 = a" unfolding a0 am using assms(1) by simp
  have bb: "(16 * (a mod 4) + b div 16) * 16 + b mod 16 = (a mod 4) * 256 + b"
    using div_mult_mod_eq [of b 16] by simp
  have "(4 * (b mod 16) + c div 64) div 4 = b mod 16" using lt(2) by simp
  then show "((a * 16 + b div 16) mod 64 * 16 + (b * 4 + c div 64) mod 64 div 4) mod 256 = b"
    unfolding ab bc using bb assms(2) by simp
  show "((a * 16 + b div 16) mod 64 * 16 + b * 4 mod 64 div 4) mod 256 = b"
    unfolding ab b0 using bb assms(2) by simp
  have "(4 * (b mod 16) + c div 64) * 64 + c mod 64 = (b mod 16) * 256 + c"
    using div_mult_mod_eq [of c 64] by simp
  then show "((b * 4 + c div 64) mod 64 * 64 + c mod 64) mod 256 = c" unfolding bc using assms(3) by simp
qed

lemma char_of_mod_byte: "n mod 256 = byte a \<Longrightarrow> char_of n = a"
  by (metis byte_char_of_mod byte_inject)

lemmas char_splits = byte_splits [OF byte_less byte_less byte_less, THEN char_of_mod_byte]

lemma b64_groups_encode:
  assumes "alphabet_ok al"
  shows "b64_groups al (b64_encode al s) = Some s"
  using assms
  by (induction al s rule: b64_encode.induct) (simp_all add: unsextet_sextet char_splits)

lemma b64_round_trip: "alphabet_ok al \<Longrightarrow> b64_decode al (b64_encode al s) = Some s"
  by (simp add: b64_decode_def encode_no_breaks b64_groups_encode)

subsection \<open>The key ring\<close>

text \<open>AES-GCM under a key, HKDF with SHA-256, and HMAC with SHA-256.\<close>

record primitives =
  NonceSize :: nat
  Overhead :: nat
  aead_Seal :: "string \<Rightarrow> string \<Rightarrow> string \<Rightarrow> string \<Rightarrow> string"
  aead_Open :: "string \<Rightarrow> string \<Rightarrow> string \<Rightarrow> string \<Rightarrow> string option"
  hkdf_Key :: "string \<Rightarrow> string \<Rightarrow> string"
  HMACSHA256 :: "string \<Rightarrow> string \<Rightarrow> string"

text \<open>What the code relies on: opening undoes sealing, a sealed text is the overhead longer, and
  opening accepts only what sealing under the same key, nonce and associated data produces.\<close>

definition primitives_ok :: "primitives \<Rightarrow> bool" where
  "primitives_ok P \<longleftrightarrow>
     (\<forall>k n p a. length n = NonceSize P \<longrightarrow>
        aead_Open P k n (aead_Seal P k n p a) a = Some p \<and>
        length (aead_Seal P k n p a) = length p + Overhead P) \<and>
     (\<forall>k n c a p. aead_Open P k n c a = Some p \<longrightarrow> c = aead_Seal P k n p a) \<and>
     (\<forall>k m. length (HMACSHA256 P k m) = 32)"

definition keyIDSize :: nat where
  "keyIDSize = 4"

definition KeySize :: nat where
  "KeySize = 32"

definition MACSize :: nat where
  "MACSize = keyIDSize + 32"

datatype crypto_error = ErrMalformed | ErrUnknownKey | ErrDecrypt | ErrNoKeys | ErrReservedID | ErrKeySize | ErrNoActive

record KeyRing =
  raw :: "(nat \<times> string) list"
  active :: nat

text \<open>The ids are 32-bit numbers and the map has distinct keys.\<close>

definition NewKeyRing :: "(nat \<times> string) list \<Rightarrow> nat \<Rightarrow> crypto_error + KeyRing" where
  "NewKeyRing keys act0 =
     (if keys = [] then Inl ErrNoKeys
      else if list_ex (\<lambda>(i, k). i = 0) keys then Inl ErrReservedID
      else if list_ex (\<lambda>(i, k). length k \<noteq> KeySize) keys then Inl ErrKeySize
      else let highest = foldl max 0 (map fst keys);
               act = (if act0 = 0 then highest else act0)
           in if map_of keys act = None then Inl ErrNoActive
              else Inr \<lparr>raw = keys, active = act\<rparr>)"

definition AAD :: "string list \<Rightarrow> string" where
  "AAD parts = join parts [CHR 0x00]"

definition KeyID :: "string \<Rightarrow> crypto_error + nat" where
  "KeyID c = (if length c < keyIDSize then Inl ErrMalformed else Inr (get_uint32 c))"

text \<open>The nonce is an argument, drawn from the system's random source.\<close>

definition Seal :: "primitives \<Rightarrow> KeyRing \<Rightarrow> string \<Rightarrow> string \<Rightarrow> string \<Rightarrow> string" where
  "Seal P k nonce plaintext aad =
     put_uint32 (active k) @ nonce @ aead_Seal P (the (map_of (raw k) (active k))) nonce plaintext aad"

definition Open :: "primitives \<Rightarrow> KeyRing \<Rightarrow> string \<Rightarrow> string \<Rightarrow> crypto_error + string" where
  "Open P k c aad =
     (case KeyID c of Inl e \<Rightarrow> Inl e
      | Inr i \<Rightarrow>
        (case map_of (raw k) i of None \<Rightarrow> Inl ErrUnknownKey
         | Some key \<Rightarrow>
             if length c < keyIDSize + NonceSize P + Overhead P then Inl ErrMalformed
             else let nonce = take (NonceSize P) (drop keyIDSize c) in
                  (case aead_Open P key nonce (drop (keyIDSize + NonceSize P) c) aad of
                     None \<Rightarrow> Inl ErrDecrypt
                   | Some p \<Rightarrow> Inr p)))"

definition NeedsRotation :: "KeyRing \<Rightarrow> string \<Rightarrow> bool" where
  "NeedsRotation k c = (case KeyID c of Inl e \<Rightarrow> False | Inr i \<Rightarrow> i \<noteq> active k)"

definition Reseal :: "primitives \<Rightarrow> KeyRing \<Rightarrow> string \<Rightarrow> string \<Rightarrow> string \<Rightarrow> crypto_error + string" where
  "Reseal P k nonce c aad =
     (case Open P k c aad of Inl e \<Rightarrow> Inl e | Inr p \<Rightarrow> Inr (Seal P k nonce p aad))"

definition DeriveFor :: "primitives \<Rightarrow> KeyRing \<Rightarrow> nat \<Rightarrow> string \<Rightarrow> crypto_error + string" where
  "DeriveFor P k i purpose =
     (case map_of (raw k) i of None \<Rightarrow> Inl ErrUnknownKey
      | Some key \<Rightarrow> Inr (hkdf_Key P key (''calendar:'' @ purpose)))"

definition Sign :: "primitives \<Rightarrow> KeyRing \<Rightarrow> string \<Rightarrow> string \<Rightarrow> string" where
  "Sign P k purpose msg =
     put_uint32 (active k) @ HMACSHA256 P (projr (DeriveFor P k (active k) (''mac:'' @ purpose))) msg"

definition Verify :: "primitives \<Rightarrow> KeyRing \<Rightarrow> string \<Rightarrow> string \<Rightarrow> string \<Rightarrow> bool" where
  "Verify P k purpose msg sig =
     (if length sig \<noteq> MACSize then False
      else case DeriveFor P k (get_uint32 sig) (''mac:'' @ purpose) of
             Inl e \<Rightarrow> False
           | Inr key \<Rightarrow> drop keyIDSize sig = HMACSHA256 P key msg)"

definition ring_ok :: "KeyRing \<Rightarrow> bool" where
  "ring_ok k \<longleftrightarrow> map_of (raw k) (active k) \<noteq> None \<and> (\<forall>(i, x) \<in> set (raw k). i < 2 ^ 32)"

lemma NewKeyRing_ok:
  "NewKeyRing keys a = Inr k \<Longrightarrow> \<forall>(i, x) \<in> set keys. i < 2 ^ 32 \<Longrightarrow> ring_ok k \<and> raw k = keys"
  by (auto simp: NewKeyRing_def ring_ok_def Let_def split: if_splits)

lemma ring_active: "ring_ok k \<Longrightarrow> active k < 2 ^ 32 \<and> (\<exists>x. map_of (raw k) (active k) = Some x)"
  by (force simp: ring_ok_def dest: map_of_SomeD)

lemma KeyID_Seal: "ring_ok k \<Longrightarrow> KeyID (Seal P k nonce p aad) = Inr (active k)"
  using ring_active [of k] by (simp add: KeyID_def Seal_def keyIDSize_def get_put_uint32)

text \<open>Opening a value sealed by any ring whose key the opening ring still has.\<close>

lemma Open_Seal:
  assumes "primitives_ok P" and "ring_ok k0" and "length nonce = NonceSize P"
    and "map_of (raw k) (active k0) = map_of (raw k0) (active k0)"
  shows "Open P k (Seal P k0 nonce p aad) aad = Inr p"
proof -
  obtain key where key: "map_of (raw k0) (active k0) = Some key" using ring_active [OF assms(2)] by blast
  have "aead_Open P key nonce (aead_Seal P key nonce p aad) aad = Some p"
    "length (aead_Seal P key nonce p aad) = length p + Overhead P"
    using assms(1,3) by (auto simp: primitives_ok_def)
  then show ?thesis
    using KeyID_Seal [OF assms(2), of P nonce p aad] assms(3,4) key
    by (simp add: Open_def Let_def) (simp add: Seal_def keyIDSize_def)
qed

lemma Open_sound:
  assumes "primitives_ok P" and "Open P k c aad = Inr p"
  shows "\<exists>i key nonce. map_of (raw k) i = Some key \<and> length nonce = NonceSize P \<and>
           c = put_uint32 i @ nonce @ aead_Seal P key nonce p aad"
proof -
  let ?i = "get_uint32 c" and ?n = "take (NonceSize P) (drop keyIDSize c)"
  obtain key where key: "map_of (raw k) ?i = Some key" "keyIDSize + NonceSize P + Overhead P \<le> length c"
    "aead_Open P key ?n (drop (keyIDSize + NonceSize P) c) aad = Some p"
    using assms(2) by (auto simp: Open_def KeyID_def Let_def split: if_splits option.splits)
  have "drop (keyIDSize + NonceSize P) c = aead_Seal P key ?n p aad"
    using assms(1) key(3) by (simp add: primitives_ok_def)
  moreover have "put_uint32 ?i = take keyIDSize c"
    using put_get_uint32 [of "take 4 c"] get_uint32_append [of "take 4 c" "drop 4 c"] key(2)
    by (simp add: keyIDSize_def)
  moreover have "c = take keyIDSize c @ ?n @ drop (keyIDSize + NonceSize P) c"
    by (metis append_take_drop_id drop_drop add.commute)
  ultimately show ?thesis using key by (intro exI [of _ ?i] exI [of _ key] exI [of _ ?n]) auto
qed

subsection \<open>Properties\<close>

text \<open>
  C30.  Key rotation keeps secrets readable and sound.  A value sealed by one ring opens under every
  ring that still has that key, to the same text; resealing moves it to the active key, after which it
  needs no rotation and opens to the same text; and a ring opens only values that sealing with one of
  its own keys and the same associated data produces.
\<close>

theorem keyring_rotation:
  assumes "primitives_ok P" and "ring_ok old" and "ring_ok k"
    and "map_of (raw k) (active old) = map_of (raw old) (active old)"
    and "length n1 = NonceSize P" and "length n2 = NonceSize P"
  shows "Open P k (Seal P old n1 p aad) aad = Inr p \<and>
         (\<exists>c. Reseal P k n2 (Seal P old n1 p aad) aad = Inr c \<and> \<not> NeedsRotation k c \<and> Open P k c aad = Inr p) \<and>
         (\<forall>c q. Open P k c aad = Inr q \<longrightarrow>
            (\<exists>i key nonce. map_of (raw k) i = Some key \<and> c = put_uint32 i @ nonce @ aead_Seal P key nonce q aad))"
  using Open_Seal [OF assms(1,2,5,4)] Open_Seal [OF assms(1,3,6)] KeyID_Seal [OF assms(3)] Open_sound [OF assms(1)]
  by (fastforce simp: Reseal_def NeedsRotation_def)

definition demo_primitives :: primitives where
  "demo_primitives = \<lparr>NonceSize = 1, Overhead = 0, aead_Seal = (\<lambda>k n p a. p), aead_Open = (\<lambda>k n c a. Some c),
     hkdf_Key = (\<lambda>k i. k), HMACSHA256 = (\<lambda>k m. replicate 32 (CHR ''x''))\<rparr>"

lemma demo_primitives_ok: "primitives_ok demo_primitives"
  by (simp add: primitives_ok_def demo_primitives_def)

lemma keyring_rotation_witness:
  "Open demo_primitives \<lparr>raw = [(1, ''k1''), (2, ''k2'')], active = 2\<rparr>
     (Seal demo_primitives \<lparr>raw = [(1, ''k1'')], active = 1\<rparr> ''n'' ''secret'' ''aad'') ''aad'' = Inr ''secret''"
  using keyring_rotation [OF demo_primitives_ok, of "\<lparr>raw = [(1, ''k1'')], active = 1\<rparr>"
      "\<lparr>raw = [(1, ''k1''), (2, ''k2'')], active = 2\<rparr>" "''n''" "''m''" "''secret''" "''aad''"]
  by (simp add: ring_ok_def demo_primitives_def)

text \<open>
  Signatures.  A ring accepts exactly the signatures made with one of its keys for the purpose
  and the message, whichever of them is active now; in particular what a ring signs it accepts.
\<close>

theorem keyring_signatures:
  assumes "primitives_ok P" and "ring_ok k"
  shows "Verify P k purpose msg (Sign P k purpose msg) \<and>
         (Verify P k purpose msg sig \<longleftrightarrow>
            (\<exists>i key. i < 2 ^ 32 \<and> map_of (raw k) i = Some key \<and>
               sig = put_uint32 i @ HMACSHA256 P (hkdf_Key P key (''calendar:mac:'' @ purpose)) msg))"
proof
  obtain key where key: "map_of (raw k) (active k) = Some key" "active k < 2 ^ 32"
    using ring_active [OF assms(2)] by blast
  have len: "length (HMACSHA256 P x m) = 32" for x m using assms(1) by (simp add: primitives_ok_def)
  show "Verify P k purpose msg (Sign P k purpose msg)"
    using key len by (simp add: Verify_def Sign_def DeriveFor_def MACSize_def keyIDSize_def get_put_uint32)
  show "Verify P k purpose msg sig \<longleftrightarrow>
      (\<exists>i key. i < 2 ^ 32 \<and> map_of (raw k) i = Some key \<and>
         sig = put_uint32 i @ HMACSHA256 P (hkdf_Key P key (''calendar:mac:'' @ purpose)) msg)"
  proof
    assume v: "Verify P k purpose msg sig"
    then obtain x where x: "length sig = MACSize" "map_of (raw k) (get_uint32 sig) = Some x"
      "drop keyIDSize sig = HMACSHA256 P (hkdf_Key P x (''calendar:mac:'' @ purpose)) msg"
      by (auto simp: Verify_def DeriveFor_def split: if_splits option.splits)
    have "put_uint32 (get_uint32 sig) = take 4 sig"
      using put_get_uint32 [of "take 4 sig"] get_uint32_append [of "take 4 sig" "drop 4 sig"] x(1)
      by (simp add: MACSize_def keyIDSize_def)
    then have "sig = put_uint32 (get_uint32 sig) @ HMACSHA256 P (hkdf_Key P x (''calendar:mac:'' @ purpose)) msg"
      using x(3) by (simp add: keyIDSize_def) (metis append_take_drop_id)
    moreover have "get_uint32 sig < 2 ^ 32"
      using x(2) assms(2) by (force simp: ring_ok_def dest: map_of_SomeD)
    ultimately show "\<exists>i key. i < 2 ^ 32 \<and> map_of (raw k) i = Some key \<and>
        sig = put_uint32 i @ HMACSHA256 P (hkdf_Key P key (''calendar:mac:'' @ purpose)) msg" using x(2) by blast
  qed (auto simp: Verify_def DeriveFor_def MACSize_def keyIDSize_def get_put_uint32 len)
qed

lemma keyring_signatures_witness:
  "Verify demo_primitives \<lparr>raw = [(1, ''k1'')], active = 1\<rparr> ''oauth'' ''m''
     (Sign demo_primitives \<lparr>raw = [(1, ''k1'')], active = 1\<rparr> ''oauth'' ''m'')"
proof -
  have "ring_ok \<lparr>raw = [(1, ''k1'')], active = 1\<rparr>" by (simp add: ring_ok_def)
  from keyring_signatures [OF demo_primitives_ok this] show ?thesis by blast
qed

end
