(* ===== verification/Tokens.thy ===== *)
theory Tokens
  imports Domain Crypto
begin

text \<open>
  The pure parts of \<open>internal/auth\<close>: scopes (\<open>scopes.go\<close>), session lifetimes and the cookie token
  (\<open>session.go\<close>), anti-forgery tokens and the origin check (\<open>csrf.go\<close>), API tokens (\<open>apitoken.go\<close>),
  encoded password hashes and the password rules (\<open>password.go\<close>), and principals (\<open>context.go\<close>).
\<close>

subsection \<open>Scopes\<close>

type_synonym Scope = string

definition AllScopes :: "Scope list" where
  "AllScopes = [''account:read'', ''account:write'', ''calendars:read'', ''calendars:write'', ''todos:read'',
     ''todos:write'', ''shares:read'', ''shares:write'', ''imports:write'', ''exports:read'', ''sync:write'',
     ''display:read'']"

fun parse_scopes_from :: "Scope list \<Rightarrow> string list \<Rightarrow> go_error + Scope list" where
  "parse_scopes_from out [] = Inr out"
| "parse_scopes_from out (s # rest) =
     (let sc = to_lower (trim_space s) in
      if sc = [] then parse_scopes_from out rest
      else if sc \<notin> set AllScopes then Inl (Wrap ErrInvalid (''unknown scope '' @ s))
      else parse_scopes_from (if sc \<in> set out then out else out @ [sc]) rest)"

definition ParseScopes :: "string list \<Rightarrow> go_error + Scope list" where
  "ParseScopes xs =
     (case parse_scopes_from [] xs of
        Inl e \<Rightarrow> Inl e
      | Inr out \<Rightarrow> if out = [] then Inl (Wrap ErrInvalid ''at least one scope is required'') else Inr (sort out))"

definition Allows :: "Scope list \<Rightarrow> Scope \<Rightarrow> bool" where
  "Allows granted need \<longleftrightarrow>
     need \<in> set granted \<or>
     (case cut need (CHR '':'') of
        None \<Rightarrow> False
      | Some (resource, action) \<Rightarrow> action = ''read'' \<and> resource @ '':write'' \<in> set granted)"

definition storedScopes :: "string list \<Rightarrow> Scope list" where
  "storedScopes xs = filter (\<lambda>s. s \<in> set AllScopes) xs"

subsection \<open>Sessions\<close>

definition TouchInterval :: duration where
  "TouchInterval = minute"

definition SudoWindow :: duration where
  "SudoWindow = 10 * minute"

definition sessionTokenLen :: nat where
  "sessionTokenLen = 43"

record SessionPolicy =
  pol_TTL :: duration
  pol_AbsoluteTTL :: duration
  pol_Secure :: bool

definition Extend :: "SessionPolicy \<Rightarrow> go_time \<Rightarrow> go_time \<Rightarrow> go_time" where
  "Extend p now absolute = (let e = now + pol_TTL p in if e < absolute then e else absolute)"

definition NewExpiry :: "SessionPolicy \<Rightarrow> go_time \<Rightarrow> go_time \<times> go_time" where
  "NewExpiry p now = (let absolute = now + pol_AbsoluteTTL p in (Extend p now absolute, absolute))"

definition NeedsTouch :: "go_time \<Rightarrow> go_time \<Rightarrow> bool" where
  "NeedsTouch lastSeen now \<longleftrightarrow> time_sub now lastSeen \<ge> TouchInterval"

definition CookieName :: "SessionPolicy \<Rightarrow> string" where
  "CookieName p = (if pol_Secure p then ''__Host-sid'' else ''sid'')"

record Cookie =
  co_Name :: string
  co_Value :: string
  co_Path :: string
  co_Expires :: "go_time option"
  co_MaxAge :: int
  co_HttpOnly :: bool
  co_Secure :: bool

definition make_Cookie :: "SessionPolicy \<Rightarrow> string \<Rightarrow> go_time \<Rightarrow> go_time \<Rightarrow> Cookie" where
  "make_Cookie p value expires now =
     (let maxAge0 = go_div (time_sub expires now) second; maxAge = (if maxAge0 \<le> 0 then -1 else maxAge0)
      in \<lparr>co_Name = CookieName p, co_Value = value, co_Path = ''/'', co_Expires = Some expires,
          co_MaxAge = maxAge, co_HttpOnly = True, co_Secure = pol_Secure p\<rparr>)"

definition ClearCookie :: "SessionPolicy \<Rightarrow> Cookie" where
  "ClearCookie p = \<lparr>co_Name = CookieName p, co_Value = [], co_Path = ''/'', co_Expires = None, co_MaxAge = -1,
     co_HttpOnly = True, co_Secure = pol_Secure p\<rparr>"

text \<open>The value of the session cookie, when the request has one.\<close>

definition ReadToken :: "string option \<Rightarrow> string option" where
  "ReadToken cookie =
     (case cookie of None \<Rightarrow> None
      | Some v \<Rightarrow>
          if length v \<noteq> sessionTokenLen then None
          else if \<not> list_all (\<lambda>ch. is_alnum ch \<or> ch = CHR ''-'' \<or> ch = CHR ''_'') v then None
          else Some v)"

definition Fresh :: "go_time \<Rightarrow> go_time \<Rightarrow> bool" where
  "Fresh reauthAt now \<longleftrightarrow>
     reauthAt \<noteq> zero_time \<and> \<not> reauthAt > now + minute \<and> time_sub now reauthAt < SudoWindow"

subsection \<open>Principals\<close>

record Principal =
  pr_UserID :: go_id
  pr_SessionID :: go_id
  pr_TokenID :: go_id
  pr_Scopes :: "Scope list"
  pr_CSRFSecret :: string
  pr_ReauthAt :: go_time
  pr_ExpiresAt :: go_time
  pr_Refreshed :: bool

definition IsSession :: "Principal option \<Rightarrow> bool" where
  "IsSession p = (case p of None \<Rightarrow> False | Some x \<Rightarrow> pr_SessionID x \<noteq> NilID)"

definition Can :: "Principal option \<Rightarrow> Scope \<Rightarrow> bool" where
  "Can p s =
     (case p of None \<Rightarrow> False
      | Some x \<Rightarrow> if IsSession p then True else Allows (pr_Scopes x) s)"

definition Principal_Fresh :: "Principal option \<Rightarrow> go_time \<Rightarrow> bool" where
  "Principal_Fresh p now \<longleftrightarrow> IsSession p \<and> Fresh (pr_ReauthAt (the p)) now"

subsection \<open>Anti-forgery tokens and origins\<close>

definition csrfLabel :: string where
  "csrfLabel = ''calendar:csrf:v1''"

text \<open>The mask is an argument, drawn from the random source.\<close>

definition CSRFToken :: "primitives \<Rightarrow> string \<Rightarrow> string \<Rightarrow> string" where
  "CSRFToken P secret msk =
     (let raw1 = HMACSHA256 P secret csrfLabel
      in b64_encode url_alphabet (msk @ map2 xor_byte raw1 msk))"

definition VerifyCSRF :: "primitives \<Rightarrow> string \<Rightarrow> string \<Rightarrow> bool" where
  "VerifyCSRF P secret token =
     (case b64_decode url_alphabet token of
        None \<Rightarrow> False
      | Some b \<Rightarrow>
          if length b \<noteq> 64 then False
          else map2 xor_byte (drop 32 b) (take 32 b) = HMACSHA256 P secret csrfLabel)"

definition IsSafeMethod :: "string \<Rightarrow> bool" where
  "IsSafeMethod m \<longleftrightarrow> m \<in> {''GET'', ''HEAD'', ''OPTIONS'', ''TRACE''}"

text \<open>The parts of a request the guards read; a missing header is the empty string.\<close>

record request =
  rq_Method :: string
  rq_SecFetchSite :: string
  rq_Origin :: string
  rq_Authorization :: string
  rq_CSRFHeader :: string
  rq_CSRFField :: string
  rq_Cookie :: "string option"
  rq_IP :: string
  rq_UserAgent :: string

definition ErrCrossOrigin :: go_error where
  "ErrCrossOrigin = Wrap ErrForbidden ''cross-origin request rejected''"

definition ErrCSRF :: go_error where
  "ErrCSRF = Wrap ErrForbidden ''invalid csrf token''"

definition CheckOrigin :: "request \<Rightarrow> string \<Rightarrow> go_error option" where
  "CheckOrigin r origin =
     (if IsSafeMethod (rq_Method r) then None
      else let site = rq_SecFetchSite r; o1 = rq_Origin r in
        if site \<notin> {[], ''same-origin'', ''none''} then Some ErrCrossOrigin
        else if o1 = [] then None
        else if o1 = ''null'' then (if site \<noteq> ''same-origin'' then Some ErrCrossOrigin else None)
        else if to_lower o1 \<noteq> to_lower origin then Some ErrCrossOrigin
        else None)"

subsection \<open>API tokens\<close>

definition PrefixLen :: nat where
  "PrefixLen = 12"

definition SecretLen :: nat where
  "SecretLen = 43"

definition isBase62 :: "string \<Rightarrow> bool" where
  "isBase62 s = list_all is_alnum s"

text \<open>The token text of a random prefix and a random secret.\<close>

definition NewAPIToken :: "string \<Rightarrow> string \<Rightarrow> string" where
  "NewAPIToken pre secret = ''cal_'' @ pre @ ''_'' @ secret"

definition ParseAPIToken :: "string \<Rightarrow> string option" where
  "ParseAPIToken s =
     (case cut_prefix s ''cal_'' of None \<Rightarrow> None
      | Some rest \<Rightarrow>
        (case cut rest (CHR ''_'') of None \<Rightarrow> None
         | Some (pre, secret) \<Rightarrow>
             if length pre \<noteq> PrefixLen \<or> length secret \<noteq> SecretLen \<or> \<not> isBase62 pre \<or> \<not> isBase62 secret
             then None else Some pre))"

definition BearerToken :: "request \<Rightarrow> string option" where
  "BearerToken r =
     (case cut (rq_Authorization r) (CHR '' '') of None \<Rightarrow> None
      | Some (scheme, tok) \<Rightarrow>
          if to_lower scheme \<noteq> to_lower ''Bearer'' then None
          else let t = trim_space tok in if t \<noteq> [] then Some t else None)"

subsection \<open>Passwords\<close>

definition MaxPasswordBytes :: nat where
  "MaxPasswordBytes = 1024"

record Params =
  pa_Memory :: nat
  pa_Time :: nat
  pa_Threads :: nat
  pa_SaltLen :: nat
  pa_KeyLen :: nat

definition params_check :: "Params \<Rightarrow> bool" where
  "params_check p \<longleftrightarrow> \<not> (pa_Time p < 1 \<or> pa_Time p > 16 \<or> pa_Threads p < 1 \<or> pa_Threads p > 16 \<or>
     pa_Memory p < 8 * pa_Threads p \<or> pa_Memory p > 2 ^ 20 \<or> pa_SaltLen p < 8 \<or> pa_SaltLen p > 64 \<or>
     pa_KeyLen p < 16 \<or> pa_KeyLen p > 64)"

definition params_text :: "nat \<Rightarrow> nat \<Rightarrow> nat \<Rightarrow> string" where
  "params_text m t p = ''m='' @ nat_digits m @ '',t='' @ nat_digits t @ '',p='' @ nat_digits p"

text \<open>\<open>argon2.Version\<close> is 19.\<close>

definition encode :: "Params \<Rightarrow> string \<Rightarrow> string \<Rightarrow> string" where
  "encode p salt key =
     ''$argon2id$v=19$'' @ params_text (pa_Memory p) (pa_Time p) (pa_Threads p) @ ''$'' @
     b64_encode std_alphabet salt @ ''$'' @ b64_encode std_alphabet key"

definition digits_value :: "string \<Rightarrow> nat" where
  "digits_value s = foldl (\<lambda>n c. n * 10 + (byte c - 48)) 0 s"

text \<open>\<open>Sscanf\<close> reads a literal, then the longest run of digits; too large a number is an error.\<close>

definition scan_number :: "string \<Rightarrow> nat \<Rightarrow> string \<Rightarrow> (nat \<times> string) option" where
  "scan_number lit bound s =
     (case cut_prefix s lit of None \<Rightarrow> None
      | Some r \<Rightarrow>
          let ds = takeWhile is_digit r in
          if ds = [] \<or> digits_value ds \<ge> bound then None else Some (digits_value ds, dropWhile is_digit r))"

definition scan_params :: "string \<Rightarrow> (nat \<times> nat \<times> nat) option" where
  "scan_params s =
     (case scan_number ''m='' (2 ^ 32) s of None \<Rightarrow> None
      | Some (m, r1) \<Rightarrow>
        (case scan_number '',t='' (2 ^ 32) r1 of None \<Rightarrow> None
         | Some (t, r2) \<Rightarrow>
           (case scan_number '',p='' (2 ^ 8) r2 of None \<Rightarrow> None
            | Some (p, r3) \<Rightarrow> Some (m, t, p))))"

definition decode :: "string \<Rightarrow> (Params \<times> string \<times> string) option" where
  "decode s =
     (case split s (CHR ''$'') of
        [p0, p1, p2, p3, p4, p5] \<Rightarrow>
          if p0 \<noteq> [] \<or> p1 \<noteq> ''argon2id'' \<or> p2 \<noteq> ''v=19'' then None
          else (case scan_params p3 of None \<Rightarrow> None
                | Some (m, t, p) \<Rightarrow>
                    if p3 \<noteq> params_text m t p then None
                    else (case b64_decode std_alphabet p4 of None \<Rightarrow> None
                          | Some salt \<Rightarrow>
                            (case b64_decode std_alphabet p5 of None \<Rightarrow> None
                             | Some key \<Rightarrow>
                                 let q = \<lparr>pa_Memory = m, pa_Time = t, pa_Threads = p,
                                          pa_SaltLen = length salt, pa_KeyLen = length key\<rparr>
                                 in if params_check q then Some (q, salt, key) else None)))
      | _ \<Rightarrow> None)"

text \<open>Argon2id is an argument: password, salt and parameters to the key.\<close>

type_synonym kdf = "string \<Rightarrow> string \<Rightarrow> Params \<Rightarrow> string"

definition Hash :: "kdf \<Rightarrow> Params \<Rightarrow> string \<Rightarrow> string \<Rightarrow> string" where
  "Hash kd p password salt = encode p salt (kd password salt p)"

text \<open>Nothing for a malformed hash, otherwise whether the password fits and whether to rehash.\<close>

definition Verify_password :: "kdf \<Rightarrow> Params \<Rightarrow> string \<Rightarrow> string \<Rightarrow> (bool \<times> bool) option" where
  "Verify_password kd cur password encoded =
     (case decode encoded of None \<Rightarrow> None
      | Some (p, salt, key) \<Rightarrow>
          if kd password salt p \<noteq> key then Some (False, False) else Some (True, p \<noteq> cur))"

definition ValidatePassword :: "string \<Rightarrow> int \<Rightarrow> go_error option" where
  "ValidatePassword password minLen =
     Err (if \<not> utf8_valid password then Add [] ''password'' ''must be valid UTF-8''
          else if length password > MaxPasswordBytes
          then Add [] ''password'' (''must be at most '' @ itoa (int MaxPasswordBytes) @ '' bytes'')
          else if trim_space password = [] then Add [] ''password'' ''must not be blank''
          else if rune_count password < minLen
          then Add [] ''password'' (''must be at least '' @ itoa minLen @ '' characters'')
          else [])"

subsection \<open>Lifetimes\<close>

lemma Extend_le: "Extend p now absolute \<le> absolute"
  by (simp add: Extend_def Let_def)

lemma NewExpiry_le: "NewExpiry p now = (e, a) \<Longrightarrow> e \<le> a \<and> a = now + pol_AbsoluteTTL p"
  using Extend_le by (auto simp: NewExpiry_def Let_def)

subsection \<open>Scopes\<close>

lemma parse_scopes_from_inv:
  "parse_scopes_from out xs = Inr ys \<Longrightarrow> distinct out \<Longrightarrow> set out \<subseteq> set AllScopes \<Longrightarrow>
     distinct ys \<and> set ys \<subseteq> set AllScopes \<and>
     set ys = set out \<union> {to_lower (trim_space s) | s. s \<in> set xs \<and> to_lower (trim_space s) \<noteq> []}"
proof (induction out xs rule: parse_scopes_from.induct)
  case (2 out s rest)
  then show ?case by (auto simp: Let_def split: if_splits)
qed auto

subsection \<open>Tokens and hashes\<close>

lemma underscore_not_alnum: "isBase62 s \<Longrightarrow> CHR ''_'' \<notin> set s"
  by (auto simp: isBase62_def list_all_iff is_alnum_def is_digit_def is_upper_def is_lower_def)

lemma cut_prefix_append [simp]: "cut_prefix (p @ s) p = Some s"
  by (simp add: cut_prefix_def)

lemma nat_digits_digits: "c \<in> set (nat_digits n) \<Longrightarrow> is_digit c"
proof (induction n rule: nat_digits.induct)
  case (1 n)
  then show ?case using digit_char(1) by (cases "n < 10") (auto simp: nat_digits.simps [of n])
qed

lemma digits_value_append: "digits_value (s @ [c]) = digits_value s * 10 + (byte c - 48)"
  by (simp add: digits_value_def)

lemma digits_value_nat_digits: "digits_value (nat_digits n) = n"
proof (induction n rule: nat_digits.induct)
  case (1 n)
  show ?case
  proof (cases "n < 10")
    case True
    then show ?thesis by (simp add: nat_digits.simps [of n] digits_value_def byte_char_of_mod)
  next
    case False
    have "byte (char_of (48 + n mod 10)) - 48 = n mod 10" by (simp add: byte_char_of_mod)
    then show ?thesis
      using 1 [OF False] False by (simp add: nat_digits.simps [of n] digits_value_append)
  qed
qed

lemma takeWhile_digits:
  "(r = [] \<or> \<not> is_digit (hd r)) \<Longrightarrow> takeWhile is_digit (nat_digits n @ r) = nat_digits n"
  "(r = [] \<or> \<not> is_digit (hd r)) \<Longrightarrow> dropWhile is_digit (nat_digits n @ r) = r"
  by (cases r; simp add: nat_digits_digits takeWhile_append2 dropWhile_append2)+

lemma scan_number_print:
  assumes "n < bound" and "r = [] \<or> \<not> is_digit (hd r)"
  shows "scan_number lit bound (lit @ nat_digits n @ r) = Some (n, r)"
  using assms by (simp add: scan_number_def Let_def takeWhile_digits digits_value_nat_digits)

lemma scan_params_text:
  assumes "m < 2 ^ 32" "t < 2 ^ 32" "p < 2 ^ 8"
  shows "scan_params (params_text m t p) = Some (m, t, p)"
proof -
  have c: "\<not> is_digit (CHR '','')" by (simp add: is_digit_def)
  have "scan_number ''m='' (2 ^ 32) (params_text m t p) = Some (m, '',t='' @ nat_digits t @ '',p='' @ nat_digits p)"
    unfolding params_text_def using assms(1) c by (intro scan_number_print) simp_all
  moreover have "scan_number '',t='' (2 ^ 32) ('',t='' @ nat_digits t @ '',p='' @ nat_digits p) =
      Some (t, '',p='' @ nat_digits p)"
    using assms(2) c by (intro scan_number_print) simp_all
  moreover have "scan_number '',p='' (2 ^ 8) ('',p='' @ nat_digits p) = Some (p, [])"
    using scan_number_print [of p "2 ^ 8" "[]" "'',p=''"] assms(3) by simp
  ultimately show ?thesis by (simp add: scan_params_def)
qed

lemma dollar_free:
  "CHR ''$'' \<notin> set (nat_digits n)" "CHR ''$'' \<notin> set (b64_encode std_alphabet s)"
proof -
  show "CHR ''$'' \<notin> set (nat_digits n)" using nat_digits_digits [of "CHR ''$''" n] by (auto simp: is_digit_def)
  have "CHR ''$'' \<notin> set std_alphabet" "length std_alphabet = 64" by code_simp+
  then have "sextet std_alphabet i \<noteq> CHR ''$''" for i by (auto simp: sextet_def in_set_conv_nth)
  then show "CHR ''$'' \<notin> set (b64_encode std_alphabet s)"
    by (induction std_alphabet s rule: b64_encode.induct) (auto dest: sym)
qed

lemma split_encode:
  "split (encode p salt key) (CHR ''$'') =
     [[], ''argon2id'', ''v=19'', params_text (pa_Memory p) (pa_Time p) (pa_Threads p),
      b64_encode std_alphabet salt, b64_encode std_alphabet key]"
proof -
  have pt: "CHR ''$'' \<notin> set (params_text m t q)" for m t q by (simp add: params_text_def dollar_free)
  have "split (params_text m t q @ CHR ''$'' # b64_encode std_alphabet salt @ CHR ''$'' # b64_encode std_alphabet key)
      (CHR ''$'') = [params_text m t q, b64_encode std_alphabet salt, b64_encode std_alphabet key]" for m t q
    using pt dollar_free by (simp add: split_append split_no_sep)
  then show ?thesis by (simp add: encode_def)
qed

lemma map2_xor_cancel: "length a = length m \<Longrightarrow> map2 xor_byte (map2 xor_byte a m) m = a"
  by (induction a m rule: list_induct2) auto

subsection \<open>Properties\<close>

text \<open>
  Anti-forgery tokens.  For every mask, a token made for one session secret verifies for
  another one exactly when both secrets give the same keyed hash: each session accepts its own tokens
  and no other session's, and masking loses nothing.
\<close>

theorem csrf_own_tokens:
  assumes "primitives_ok P" and "length msk = 32"
  shows "VerifyCSRF P s' (CSRFToken P s msk) \<longleftrightarrow> HMACSHA256 P s csrfLabel = HMACSHA256 P s' csrfLabel"
proof -
  have len: "length (HMACSHA256 P x csrfLabel) = 32" for x using assms(1) by (simp add: primitives_ok_def)
  have "map2 xor_byte (map2 xor_byte (HMACSHA256 P s csrfLabel) msk) msk = HMACSHA256 P s csrfLabel"
    using len assms(2) by (intro map2_xor_cancel) simp
  then show ?thesis
    using len assms(2) by (simp add: VerifyCSRF_def CSRFToken_def Let_def b64_round_trip alphabets_ok)
qed

lemma csrf_own_tokens_witness:
  "VerifyCSRF demo_primitives ''s'' (CSRFToken demo_primitives ''s'' (replicate 32 (CHR ''m'')))"
  using csrf_own_tokens [OF demo_primitives_ok, of "replicate 32 (CHR ''m'')" "''s''" "''s''"] by simp

lemma decode_Hash:
  assumes "params_check p" and "length salt = pa_SaltLen p" and "length (kd pw salt p) = pa_KeyLen p"
  shows "decode (Hash kd p pw salt) = Some (p, salt, kd pw salt p)"
proof -
  have b: "pa_Memory p < 2 ^ 32" "pa_Time p < 2 ^ 32" "pa_Threads p < 2 ^ 8"
    using assms(1) by (auto simp: params_check_def)
  have "\<lparr>pa_Memory = pa_Memory p, pa_Time = pa_Time p, pa_Threads = pa_Threads p, pa_SaltLen = length salt,
      pa_KeyLen = length (kd pw salt p)\<rparr> = p" using assms(2,3) by simp
  then show ?thesis
    using assms(1) scan_params_text [OF b]
    by (simp add: Hash_def decode_def split_encode b64_round_trip alphabets_ok Let_def)
qed

text \<open>
  Password hashes survive storage: \<open>decode\<close> gives back exactly the parameters, the salt and the
  key that \<open>encode\<close> wrote, so a password verifies against its own hash, and needs a new one exactly
  when the parameters have changed since.
\<close>

theorem password_hash_round_trip:
  assumes "params_check p" and "length salt = pa_SaltLen p" and "length (kd pw salt p) = pa_KeyLen p"
  shows "decode (Hash kd p pw salt) = Some (p, salt, kd pw salt p) \<and>
         Verify_password kd cur pw (Hash kd p pw salt) = Some (True, p \<noteq> cur) \<and>
         (kd other salt p \<noteq> kd pw salt p \<longrightarrow> Verify_password kd cur other (Hash kd p pw salt) = Some (False, False))"
  using decode_Hash [where kd = kd, OF assms] by (simp add: Verify_password_def)

lemma password_hash_round_trip_witness:
  "Verify_password (\<lambda>pw salt p. replicate 16 (hd pw)) \<lparr>pa_Memory = 65536, pa_Time = 4, pa_Threads = 2, pa_SaltLen = 8, pa_KeyLen = 16\<rparr> ''secret''
     (Hash (\<lambda>pw salt p. replicate 16 (hd pw)) \<lparr>pa_Memory = 65536, pa_Time = 3, pa_Threads = 2, pa_SaltLen = 8, pa_KeyLen = 16\<rparr>
        ''secret'' ''saltsalt'') = Some (True, True)"
  using password_hash_round_trip [of "\<lparr>pa_Memory = 65536, pa_Time = 3, pa_Threads = 2, pa_SaltLen = 8, pa_KeyLen = 16\<rparr>"
      "''saltsalt''" "\<lambda>pw salt p. replicate 16 (hd pw)" "''secret''" "\<lparr>pa_Memory = 65536, pa_Time = 4, pa_Threads = 2, pa_SaltLen = 8, pa_KeyLen = 16\<rparr>"]
  by (simp add: params_check_def)

text \<open>
  API tokens.  \<open>ParseAPIToken\<close> accepts exactly the texts that \<open>NewAPIToken\<close> can produce from a
  prefix of twelve and a secret of forty-three letters and digits, and returns the prefix.
\<close>

theorem api_token_format:
  "ParseAPIToken s = Some pre \<longleftrightarrow>
     (\<exists>secret. s = NewAPIToken pre secret \<and> length pre = PrefixLen \<and> length secret = SecretLen \<and>
        isBase62 pre \<and> isBase62 secret)"
proof
  assume "ParseAPIToken s = Some pre"
  then obtain rest secret where r: "cut_prefix s ''cal_'' = Some rest" "cut rest (CHR ''_'') = Some (pre, secret)"
    "length pre = PrefixLen" "length secret = SecretLen" "isBase62 pre" "isBase62 secret"
    by (auto simp: ParseAPIToken_def split: option.splits if_splits prod.splits)
  have "s = ''cal_'' @ rest" using r(1) by (auto simp: cut_prefix_def has_prefix_iff prefix_def split: if_splits)
  moreover have "rest = pre @ ''_'' @ secret" using cut_Some [OF r(2)] by simp
  ultimately show "\<exists>secret. s = NewAPIToken pre secret \<and> length pre = PrefixLen \<and> length secret = SecretLen \<and>
      isBase62 pre \<and> isBase62 secret" using r by (auto simp: NewAPIToken_def)
next
  assume "\<exists>secret. s = NewAPIToken pre secret \<and> length pre = PrefixLen \<and> length secret = SecretLen \<and>
      isBase62 pre \<and> isBase62 secret"
  then obtain secret where s: "s = ''cal_'' @ pre @ ''_'' @ secret" "length pre = PrefixLen" "length secret = SecretLen"
    "isBase62 pre" "isBase62 secret" by (auto simp: NewAPIToken_def)
  have "cut_prefix s ''cal_'' = Some (pre @ CHR ''_'' # secret)"
    unfolding s(1) using cut_prefix_append [of "''cal_''"] by simp
  then show "ParseAPIToken s = Some pre"
    using s(2-) cut_append [OF underscore_not_alnum [OF s(4)], of secret] by (simp add: ParseAPIToken_def)
qed

text \<open>
  Scopes.  Parsed scopes are known, sorted and without duplicates, and are exactly the normalised
  non-blank inputs; a granted set allows a scope only if it contains it, or its write scope when a
  read is needed, so read access never grants a write.
\<close>

theorem scopes_sound:
  "(\<forall>ys. ParseScopes xs = Inr ys \<longrightarrow>
      sorted_wrt (<) ys \<and> set ys \<subseteq> set AllScopes \<and>
      set ys = {to_lower (trim_space s) | s. s \<in> set xs \<and> to_lower (trim_space s) \<noteq> []} \<and> ys \<noteq> []) \<and>
   (CHR '':'' \<notin> set res \<longrightarrow> (Allows granted (res @ '':write'') \<longleftrightarrow> res @ '':write'' \<in> set granted)) \<and>
   (CHR '':'' \<notin> set res \<longrightarrow> (Allows granted (res @ '':read'') \<longleftrightarrow>
      res @ '':read'' \<in> set granted \<or> res @ '':write'' \<in> set granted))"
proof (intro conjI allI impI)
  fix ys
  assume "ParseScopes xs = Inr ys"
  then obtain out where out: "parse_scopes_from [] xs = Inr out" "out \<noteq> []" "ys = sort out"
    by (auto simp: ParseScopes_def split: sum.splits if_splits)
  note inv = parse_scopes_from_inv [OF out(1)]
  show "sorted_wrt (<) ys" using inv out(3) by (simp add: strict_sorted_iff)
  show "set ys \<subseteq> set AllScopes" using inv out(3) by (metis distinct.simps(1) empty_subsetI list.set(1) set_sort)
  show "set ys = {to_lower (trim_space s) | s. s \<in> set xs \<and> to_lower (trim_space s) \<noteq> []}"
    using inv out(3) by simp
  show "ys \<noteq> []" using out by (metis length_0_conv length_sort)
next
  assume "CHR '':'' \<notin> set res"
  then have "cut (res @ CHR '':'' # x) (CHR '':'') = Some (res, x)" for x by (rule cut_append)
  then show "Allows granted (res @ '':write'') \<longleftrightarrow> res @ '':write'' \<in> set granted"
    and "Allows granted (res @ '':read'') \<longleftrightarrow> res @ '':read'' \<in> set granted \<or> res @ '':write'' \<in> set granted"
    by (simp_all add: Allows_def)
qed

lemma scopes_sound_witness:
  "\<not> Allows [''todos:read''] (''todos'' @ '':write'') \<and> Allows [''todos:write''] (''todos'' @ '':read'')"
  using scopes_sound [of "[]" "''todos''" "[''todos:read'']"] scopes_sound [of "[]" "''todos''" "[''todos:write'']"]
  by simp

end
