(* ===== verification/Auth.thy ===== *)
theory Auth
  imports Tokens Ratelimit
begin

text \<open>
  Authentication, \<open>internal/auth\<close>: the service (\<open>service.go\<close>, \<open>email.go\<close>, \<open>external.go\<close>) over the rows its
  repository keeps (\<open>internal/store/pg\<close> with the queries of \<open>internal/db/queries\<close>), and the guards of
  \<open>middleware.go\<close>.

  The database is a record of lists and its own clock; each repository call is one step on it, and the joins with the
  users table that hide disabled users are part of the lookups.  Random values, fresh ids and clock
  readings are arguments.  Failures of the database itself are not modelled.  A panic inside a limiter
  ends the request, which the server answers like any internal error.
\<close>

subsection \<open>The store\<close>

record Identity =
  id_ID :: go_id
  id_UserID :: go_id
  id_Provider :: string
  id_Subject :: string
  id_Email :: string
  id_LinkedAt :: go_time

record EmailToken =
  et_ID :: go_id
  et_UserID :: go_id
  et_Purpose :: string
  et_TokenHash :: string
  et_CreatedAt :: go_time
  et_ExpiresAt :: go_time
  et_UsedAt :: "go_time option"

record auth_db =
  db_users :: "User list"
  db_sessions :: "Session list"
  db_tokens :: "APIToken list"
  db_identities :: "Identity list"
  db_emails :: "EmailToken list"
  db_audit :: "(go_id \<times> string) list"
  db_calendars :: "(go_id \<times> string) list"
  db_lists :: "(go_id \<times> string) list"
  db_now :: go_time

definition ErrNoRow :: go_error where
  "ErrNoRow = Wrap ErrNotFound []"

definition or_not_found :: "'a option \<Rightarrow> go_error + 'a" where
  "or_not_found x = (case x of None \<Rightarrow> Inl ErrNoRow | Some v \<Rightarrow> Inr v)"

definition UserByID :: "auth_db \<Rightarrow> go_id \<Rightarrow> go_error + User" where
  "UserByID db i = or_not_found (find (\<lambda>u. us_ID u = i) (db_users db))"

text \<open>The column compares without case.\<close>

definition UserByEmail :: "auth_db \<Rightarrow> string \<Rightarrow> go_error + User" where
  "UserByEmail db email = or_not_found (find (\<lambda>u. to_lower (us_Email u) = to_lower email) (db_users db))"

definition update_user :: "auth_db \<Rightarrow> go_id \<Rightarrow> (User \<Rightarrow> bool) \<Rightarrow> (User \<Rightarrow> User) \<Rightarrow> go_error option \<times> auth_db" where
  "update_user db i P f =
     (if list_ex (\<lambda>u. us_ID u = i \<and> P u) (db_users db)
      then (None, db\<lparr>db_users := map (\<lambda>u. if us_ID u = i \<and> P u then (f u)\<lparr>us_UpdatedAt := db_now db\<rparr> else u) (db_users db)\<rparr>)
      else (Some ErrNoRow, db))"

definition SetPasswordHash :: "auth_db \<Rightarrow> go_id \<Rightarrow> string \<Rightarrow> go_error option \<times> auth_db" where
  "SetPasswordHash db i hash = update_user db i (\<lambda>u. True) (\<lambda>u. u\<lparr>us_PasswordHash := hash\<rparr>)"

definition SetUserDisabled :: "auth_db \<Rightarrow> go_id \<Rightarrow> go_time option \<Rightarrow> go_error option \<times> auth_db" where
  "SetUserDisabled db i at = update_user db i (\<lambda>u. True) (\<lambda>u. u\<lparr>us_DisabledAt := at\<rparr>)"

definition SetEmailVerified :: "auth_db \<Rightarrow> go_id \<Rightarrow> go_time \<Rightarrow> go_error option \<times> auth_db" where
  "SetEmailVerified db i at =
     update_user db i (\<lambda>u. us_EmailVerifiedAt u = None) (\<lambda>u. u\<lparr>us_EmailVerifiedAt := Some at\<rparr>)"

record NewUser =
  nu_ID :: go_id
  nu_Email :: string
  nu_EmailVerifiedAt :: "go_time option"
  nu_PasswordHash :: string
  nu_DisplayName :: string
  nu_Timezone :: string
  nu_Identity :: "Identity option"

text \<open>The unique constraints of the identity table: provider and subject, user and provider.\<close>

definition identity_clash :: "auth_db \<Rightarrow> Identity \<Rightarrow> bool" where
  "identity_clash db i =
     list_ex (\<lambda>x. id_Provider x = id_Provider i \<and> (id_Subject x = id_Subject i \<or> id_UserID x = id_UserID i)) (db_identities db)"

text \<open>A user is created with the defaults of the table, one calendar, one todo list and, for a sign-up
  through a provider, the identity; a failure undoes all of it.\<close>

definition CreateUser_row :: "auth_db \<Rightarrow> NewUser \<Rightarrow> (go_error + User) \<times> auth_db" where
  "CreateUser_row db nu =
     (let u = \<lparr>us_ID = nu_ID nu, us_Email = nu_Email nu, us_EmailVerifiedAt = nu_EmailVerifiedAt nu,
               us_PasswordHash = nu_PasswordHash nu, us_DisplayName = nu_DisplayName nu, us_Timezone = nu_Timezone nu,
               us_WeekStart = 1, us_TimeFormat = ''24h'', us_DefaultView = ''week'', us_SleepEnabled = False,
               us_DedupPolicy = ''flag'', us_DateOnlyReminder = 9 * 60, us_CreatedAt = db_now db,
               us_UpdatedAt = db_now db, us_DisabledAt = None\<rparr>;
          ids = (case nu_Identity nu of None \<Rightarrow> [] | Some i \<Rightarrow> [i\<lparr>id_UserID := us_ID u\<rparr>])
      in if list_ex (\<lambda>x. us_ID x = us_ID u \<or> to_lower (us_Email x) = to_lower (us_Email u)) (db_users db) \<or>
            list_ex (identity_clash db) ids
         then (Inl (Wrap ErrConflict []), db)
         else (Inr u, db\<lparr>db_users := db_users db @ [u], db_identities := db_identities db @ ids,
                         db_calendars := db_calendars db @ [(us_ID u, ''Calendar'')],
                         db_lists := db_lists db @ [(us_ID u, ''Inbox'')]\<rparr>))"

definition IdentityBySubject :: "auth_db \<Rightarrow> string \<Rightarrow> string \<Rightarrow> go_error + Identity" where
  "IdentityBySubject db provider subject =
     or_not_found (find (\<lambda>i. id_Provider i = provider \<and> id_Subject i = subject) (db_identities db))"

definition CreateIdentity :: "auth_db \<Rightarrow> Identity \<Rightarrow> go_error option \<times> auth_db" where
  "CreateIdentity db i =
     (if identity_clash db i then (Some (Wrap ErrConflict []), db)
      else (None, db\<lparr>db_identities := db_identities db @ [i]\<rparr>))"

definition DeleteIdentity :: "auth_db \<Rightarrow> go_id \<Rightarrow> string \<Rightarrow> go_error option \<times> auth_db" where
  "DeleteIdentity db user provider =
     (if list_ex (\<lambda>x. id_UserID x = user \<and> id_Provider x = provider) (db_identities db)
      then (None, db\<lparr>db_identities := filter (\<lambda>x. \<not> (id_UserID x = user \<and> id_Provider x = provider)) (db_identities db)\<rparr>)
      else (Some ErrNoRow, db))"

definition user_enabled :: "auth_db \<Rightarrow> go_id \<Rightarrow> bool" where
  "user_enabled db i = list_ex (\<lambda>u. us_ID u = i \<and> us_DisabledAt u = None) (db_users db)"

definition CreateSession :: "auth_db \<Rightarrow> Session \<Rightarrow> go_error option \<times> auth_db" where
  "CreateSession db s =
     (if list_ex (\<lambda>x. se_TokenHash x = se_TokenHash s \<or> se_ID x = se_ID s) (db_sessions db)
      then (Some (Wrap ErrConflict []), db)
      else (None, db\<lparr>db_sessions := db_sessions db @ [s]\<rparr>))"

definition SessionByTokenHash :: "auth_db \<Rightarrow> string \<Rightarrow> go_error + Session" where
  "SessionByTokenHash db hash =
     or_not_found (find (\<lambda>s. se_TokenHash s = hash \<and> user_enabled db (se_UserID s)) (db_sessions db))"

definition TouchSession :: "auth_db \<Rightarrow> go_id \<Rightarrow> go_time \<Rightarrow> go_time \<Rightarrow> auth_db" where
  "TouchSession db i lastSeen expires =
     db\<lparr>db_sessions := map (\<lambda>s. if se_ID s = i then s\<lparr>se_LastSeenAt := lastSeen, se_ExpiresAt := expires\<rparr> else s) (db_sessions db)\<rparr>"

definition SetSessionReauth :: "auth_db \<Rightarrow> go_id \<Rightarrow> go_time \<Rightarrow> auth_db" where
  "SetSessionReauth db i at =
     db\<lparr>db_sessions := map (\<lambda>s. if se_ID s = i then s\<lparr>se_ReauthAt := Some at\<rparr> else s) (db_sessions db)\<rparr>"

definition DeleteSession :: "auth_db \<Rightarrow> go_id \<Rightarrow> go_id \<Rightarrow> go_error option \<times> auth_db" where
  "DeleteSession db user i =
     (if list_ex (\<lambda>s. se_ID s = i \<and> se_UserID s = user) (db_sessions db)
      then (None, db\<lparr>db_sessions := filter (\<lambda>s. \<not> (se_ID s = i \<and> se_UserID s = user)) (db_sessions db)\<rparr>)
      else (Some ErrNoRow, db))"

definition DeleteUserSessions :: "auth_db \<Rightarrow> go_id \<Rightarrow> go_id \<Rightarrow> auth_db" where
  "DeleteUserSessions db user except =
     db\<lparr>db_sessions := filter (\<lambda>s. \<not> (se_UserID s = user \<and> se_ID s \<noteq> except)) (db_sessions db)\<rparr>"

definition CreateAPIToken_row :: "auth_db \<Rightarrow> APIToken \<Rightarrow> go_error option \<times> auth_db" where
  "CreateAPIToken_row db t =
     (if list_ex (\<lambda>x. at_Prefix x = at_Prefix t) (db_tokens db) then (Some (Wrap ErrConflict []), db)
      else (None, db\<lparr>db_tokens := db_tokens db @ [t]\<rparr>))"

definition APITokenByPrefix :: "auth_db \<Rightarrow> string \<Rightarrow> go_error + APIToken" where
  "APITokenByPrefix db pre =
     or_not_found (find (\<lambda>t. at_Prefix t = pre \<and> user_enabled db (at_UserID t)) (db_tokens db))"

definition TouchAPIToken :: "auth_db \<Rightarrow> go_id \<Rightarrow> go_time \<Rightarrow> string \<Rightarrow> auth_db" where
  "TouchAPIToken db i at ip =
     db\<lparr>db_tokens := map (\<lambda>t. if at_ID t = i then t\<lparr>at_LastUsedAt := Some at, at_LastUsedIP := ip\<rparr> else t) (db_tokens db)\<rparr>"

definition RevokeAPIToken_row :: "auth_db \<Rightarrow> go_id \<Rightarrow> go_id \<Rightarrow> go_time \<Rightarrow> go_error option \<times> auth_db" where
  "RevokeAPIToken_row db user i at =
     (let P = (\<lambda>t. at_ID t = i \<and> at_UserID t = user \<and> at_RevokedAt t = None) in
      if list_ex P (db_tokens db)
      then (None, db\<lparr>db_tokens := map (\<lambda>t. if P t then t\<lparr>at_RevokedAt := Some at\<rparr> else t) (db_tokens db)\<rparr>)
      else (Some ErrNoRow, db))"

definition CreateEmailToken :: "auth_db \<Rightarrow> EmailToken \<Rightarrow> go_error option \<times> auth_db" where
  "CreateEmailToken db t =
     (if list_ex (\<lambda>x. et_TokenHash x = et_TokenHash t) (db_emails db) then (Some (Wrap ErrConflict []), db)
      else (None, db\<lparr>db_emails := db_emails db @ [t]\<rparr>))"

definition usable :: "string \<Rightarrow> string \<Rightarrow> go_time \<Rightarrow> EmailToken \<Rightarrow> bool" where
  "usable purpose hash at t \<longleftrightarrow> et_TokenHash t = hash \<and> et_Purpose t = purpose \<and> et_UsedAt t = None \<and> et_ExpiresAt t > at"

definition ConsumeEmailToken :: "auth_db \<Rightarrow> string \<Rightarrow> string \<Rightarrow> go_time \<Rightarrow> (go_error + EmailToken) \<times> auth_db" where
  "ConsumeEmailToken db purpose hash at =
     (case find (usable purpose hash at) (db_emails db) of
        None \<Rightarrow> (Inl ErrNoRow, db)
      | Some t \<Rightarrow>
          (Inr (t\<lparr>et_UsedAt := Some at\<rparr>),
           db\<lparr>db_emails := map (\<lambda>x. if usable purpose hash at x then x\<lparr>et_UsedAt := Some at\<rparr> else x) (db_emails db)\<rparr>))"

definition DeleteEmailTokens :: "auth_db \<Rightarrow> go_id \<Rightarrow> string \<Rightarrow> auth_db" where
  "DeleteEmailTokens db user purpose =
     db\<lparr>db_emails := filter (\<lambda>t. \<not> (et_UserID t = user \<and> et_Purpose t = purpose)) (db_emails db)\<rparr>"

definition audit :: "auth_db \<Rightarrow> go_id \<Rightarrow> string \<Rightarrow> auth_db" where
  "audit db user action = db\<lparr>db_audit := db_audit db @ [(user, action)]\<rparr>"

subsection \<open>The service\<close>

definition maxUserAgent :: nat where
  "maxUserAgent = 512"

definition truncate_text :: "string \<Rightarrow> nat \<Rightarrow> string" where
  "truncate_text s n = (if length s \<le> n then s else to_valid_utf8 (take n s))"

definition clip :: "string \<Rightarrow> nat \<Rightarrow> string" where
  "clip s n = (let r = runes s in if length r \<le> n then s else concat (take n r))"

definition maxDisplayName :: int where
  "maxDisplayName = 100"

definition maxTokenName :: int where
  "maxTokenName = 100"

definition maxTokenTTL :: duration where
  "maxTokenTTL = 5 * 365 * 24 * hour"

definition verifyTTL :: duration where
  "verifyTTL = 24 * hour"

definition resetTTL :: duration where
  "resetTTL = hour"

definition "ErrInvalidCredentials = Wrap ErrUnauthorized ''invalid email or password''"
definition "ErrSessionExpired = Wrap ErrUnauthorized ''session expired''"
definition "ErrInvalidToken = Wrap ErrUnauthorized ''invalid api token''"
definition "ErrRegistrationClosed = Wrap ErrForbidden ''registration is closed''"
definition "ErrDisabled = Wrap ErrForbidden ''account is disabled''"
definition "ErrReauthRequired = Wrap ErrForbidden ''recent authentication required''"
definition "ErrNoPassword = Wrap ErrInvalid ''account has no password''"
definition "ErrUnverified = Wrap ErrForbidden ''confirm your email address first''"
definition "ErrBadToken = Wrap ErrInvalid ''this link expired or was already used''"
definition "ErrIdentityTaken = Wrap ErrConflict ''this Google account is linked to another user''"
definition "ErrAlreadyLinked = Wrap ErrConflict ''a Google account is already linked''"
definition "ErrLastLogin = Wrap ErrConflict ''set a password before unlinking the only sign-in method''"
definition "ErrEmailUnverified = Wrap ErrForbidden ''the Google account email is not verified''"
definition "ErrDomainNotAllowed = Wrap ErrForbidden ''this email domain cannot register''"
definition "ErrWrongIdentity = Wrap ErrForbidden ''sign in with the Google account linked to this user''"

record Registration =
  reg_Enabled :: bool
  reg_AllowedDomains :: "string list"
  reg_PasswordEnabled :: bool
  reg_GoogleEnabled :: bool

definition after_last :: "char \<Rightarrow> string \<Rightarrow> string option" where
  "after_last c s = (if c \<in> set s then Some (rev (takeWhile (\<lambda>x. x \<noteq> c) (rev s))) else None)"

definition EmailAllowed :: "Registration \<Rightarrow> string \<Rightarrow> bool" where
  "EmailAllowed r email =
     (if reg_AllowedDomains r = [] then True
      else case after_last (CHR ''@'') email of
             None \<Rightarrow> False
           | Some dm \<Rightarrow> if dm = [] then False else to_lower (trim_space dm) \<in> set (reg_AllowedDomains r))"

text \<open>The configuration: the hash of tokens, Argon2id, the address parser of \<open>net/mail\<close> (name and
  address), the text form of ids and the zone database come from outside the program.\<close>

record auth_cfg =
  ac_policy :: SessionPolicy
  ac_reg :: Registration
  ac_minLen :: int
  ac_defaultTZ :: string
  ac_verify :: bool
  ac_params :: Params
  ac_kdf :: kdf
  ac_HashToken :: "string \<Rightarrow> string"
  ac_ParseAddress :: "string \<Rightarrow> (string \<times> string) option"
  ac_id_text :: "go_id \<Rightarrow> string"
  ac_zones :: zoneinfo

record auth_state =
  as_db :: auth_db
  as_loginIP :: Limiter
  as_loginEmail :: Limiter

record Meta =
  me_IP :: string
  me_UserAgent :: string

definition limit_check :: "Limiter \<Rightarrow> string \<Rightarrow> go_time \<Rightarrow> go_error option \<times> Limiter" where
  "limit_check l key now =
     (case Check_limit l key now of
        Inl p \<Rightarrow> (Some (Other ''panic''), l)
      | Inr (None, l') \<Rightarrow> (None, l')
      | Inr (Some d, l') \<Rightarrow> (Some (Wrap ErrRateLimited ''too many attempts''), l'))"

definition check_ip :: "auth_state \<Rightarrow> string \<Rightarrow> go_time \<Rightarrow> go_error option \<times> auth_state" where
  "check_ip st key now = (let (e, l) = limit_check (as_loginIP st) key now in (e, st\<lparr>as_loginIP := l\<rparr>))"

definition check_email :: "auth_state \<Rightarrow> string \<Rightarrow> go_time \<Rightarrow> go_error option \<times> auth_state" where
  "check_email st key now = (let (e, l) = limit_check (as_loginEmail st) key now in (e, st\<lparr>as_loginEmail := l\<rparr>))"

definition count_char :: "char \<Rightarrow> string \<Rightarrow> nat" where
  "count_char c s = length (filter (\<lambda>x. x = c) s)"

definition NormalizeEmail :: "auth_cfg \<Rightarrow> string \<Rightarrow> go_error + string" where
  "NormalizeEmail cfg s0 =
     (let bad = Inl (Wrap ErrInvalid ''invalid email address''); s = trim_space s0 in
      if length s < 3 \<or> length s > 254 \<or> count_char (CHR ''@'') s \<noteq> 1 then bad
      else case ac_ParseAddress cfg s of
             None \<Rightarrow> bad
           | Some (name, address) \<Rightarrow>
               if name \<noteq> [] \<or> address \<noteq> s then bad
               else case cut s (CHR ''@'') of
                      None \<Rightarrow> bad
                    | Some (local, host) \<Rightarrow>
                        if local = [] \<or> CHR ''.'' \<notin> set host \<or> hd host = CHR ''.'' \<or> last host = CHR ''.'' then bad
                        else Inr (local @ ''@'' @ to_lower host))"

text \<open>A fresh session: the token value, its secret and its id are drawn outside.\<close>

record fresh =
  fr_token :: string
  fr_secret :: string
  fr_id :: go_id
  fr_salt :: string
  fr_prefix :: string

definition StartSession :: "auth_cfg \<Rightarrow> auth_db \<Rightarrow> User \<Rightarrow> Meta \<Rightarrow> fresh \<Rightarrow> go_time \<Rightarrow> (go_error + Session) \<times> auth_db" where
  "StartSession cfg db user m f now =
     (let (exp, abs) = NewExpiry (ac_policy cfg) now;
          sess = \<lparr>se_ID = fr_id f, se_UserID = us_ID user, se_TokenHash = ac_HashToken cfg (fr_token f),
                  se_CSRFSecret = fr_secret f, se_IP = me_IP m,
                  se_UserAgent = truncate_text (me_UserAgent m) maxUserAgent, se_CreatedAt = now,
                  se_LastSeenAt = now, se_ExpiresAt = exp, se_AbsoluteExpiresAt = abs, se_ReauthAt = Some now\<rparr>
      in (case CreateSession db sess of (Some e, db') \<Rightarrow> (Inl e, db') | (None, db') \<Rightarrow> (Inr sess, db')))"

definition upgradeHash :: "auth_cfg \<Rightarrow> auth_db \<Rightarrow> go_id \<Rightarrow> string \<Rightarrow> fresh \<Rightarrow> auth_db" where
  "upgradeHash cfg db i password f = snd (SetPasswordHash db i (Hash (ac_kdf cfg) (ac_params cfg) password (fr_salt f)))"

definition verify_pw :: "auth_cfg \<Rightarrow> string \<Rightarrow> User \<Rightarrow> go_error + bool \<times> bool" where
  "verify_pw cfg password u =
     (case Verify_password (ac_kdf cfg) (ac_params cfg) password (us_PasswordHash u) of
        None \<Rightarrow> Inl (Other ''auth: malformed password hash'') | Some r \<Rightarrow> Inr r)"

definition Login ::
  "auth_cfg \<Rightarrow> auth_state \<Rightarrow> string \<Rightarrow> string \<Rightarrow> Meta \<Rightarrow> fresh \<Rightarrow> go_time \<Rightarrow> (go_error + Session) \<times> auth_state" where
  "Login cfg st0 email password m f now =
     (let key = to_lower (trim_space email);
          (e1, st1) = check_ip st0 (''login:'' @ me_IP m) now in
      case e1 of Some e \<Rightarrow> (Inl e, st1) | None \<Rightarrow>
     (let (e2, st) = check_email st1 key now in
      case e2 of Some e \<Rightarrow> (Inl e, st) | None \<Rightarrow>
      if key = [] \<or> length password > MaxPasswordBytes then (Inl ErrInvalidCredentials, st)
      else case UserByEmail (as_db st) key of
        Inl e \<Rightarrow> (Inl ErrInvalidCredentials, st)
      | Inr user \<Rightarrow>
          if \<not> HasPassword user then (Inl ErrInvalidCredentials, st)
          else case verify_pw cfg password user of
            Inl e \<Rightarrow> (Inl e, st)
          | Inr (ok, rehash) \<Rightarrow>
              if \<not> ok then (Inl ErrInvalidCredentials, st\<lparr>as_db := audit (as_db st) (us_ID user) ''login.failed''\<rparr>)
              else if Disabled user then (Inl ErrDisabled, st)
              else if ac_verify cfg \<and> \<not> Verified user then (Inl ErrUnverified, st)
              else
                let st1 = st\<lparr>as_loginEmail := Reset (as_loginEmail st) key\<rparr>;
                    db1 = (if rehash then upgradeHash cfg (as_db st) (us_ID user) password f else as_db st)
                in (case StartSession cfg db1 user m f now of
                      (Inl e, db2) \<Rightarrow> (Inl e, st1\<lparr>as_db := db2\<rparr>)
                    | (Inr sess, db2) \<Rightarrow> (Inr sess, st1\<lparr>as_db := audit db2 (us_ID user) ''login''\<rparr>))))"

definition Authenticate :: "auth_cfg \<Rightarrow> auth_db \<Rightarrow> string \<Rightarrow> go_time \<Rightarrow> (go_error + Principal) \<times> auth_db" where
  "Authenticate cfg db token now =
     (case SessionByTokenHash db (ac_HashToken cfg token) of
        Inl e \<Rightarrow> (Inl ErrSessionExpired, db)
      | Inr sess \<Rightarrow>
          if \<not> now < se_ExpiresAt sess \<or> \<not> now < se_AbsoluteExpiresAt sess
          then (Inl ErrSessionExpired, snd (DeleteSession db (se_UserID sess) (se_ID sess)))
          else
            let p = \<lparr>pr_UserID = se_UserID sess, pr_SessionID = se_ID sess, pr_TokenID = NilID, pr_Scopes = [],
                     pr_CSRFSecret = se_CSRFSecret sess,
                     pr_ReauthAt = (case se_ReauthAt sess of None \<Rightarrow> zero_time | Some t \<Rightarrow> t),
                     pr_ExpiresAt = se_ExpiresAt sess, pr_Refreshed = False\<rparr>
            in if NeedsTouch (se_LastSeenAt sess) now
               then let exp = Extend (ac_policy cfg) now (se_AbsoluteExpiresAt sess)
                    in (Inr (p\<lparr>pr_ExpiresAt := exp, pr_Refreshed := True\<rparr>), TouchSession db (se_ID sess) now exp)
               else (Inr p, db))"

definition Logout :: "auth_db \<Rightarrow> Principal option \<Rightarrow> auth_db" where
  "Logout db p =
     (if \<not> IsSession p then db
      else let x = the p in audit (snd (DeleteSession db (pr_UserID x) (pr_SessionID x))) (pr_UserID x) ''logout'')"

definition MarkReauth :: "auth_db \<Rightarrow> Principal \<Rightarrow> go_time \<Rightarrow> Principal \<times> auth_db" where
  "MarkReauth db p now =
     (p\<lparr>pr_ReauthAt := now\<rparr>, audit (SetSessionReauth db (pr_SessionID p) now) (pr_UserID p) ''reauth'')"

definition RevokeSession :: "auth_db \<Rightarrow> go_id \<Rightarrow> go_id \<Rightarrow> go_error option \<times> auth_db" where
  "RevokeSession db user i =
     (case DeleteSession db user i of
        (Some e, db') \<Rightarrow> (Some e, db')
      | (None, db') \<Rightarrow> (None, audit db' user ''session.revoke''))"

definition RevokeOtherSessions :: "auth_db \<Rightarrow> Principal \<Rightarrow> auth_db" where
  "RevokeOtherSessions db p =
     audit (DeleteUserSessions db (pr_UserID p) (pr_SessionID p)) (pr_UserID p) ''session.revoke_others''"

text \<open>The message of a scope error, with the text of \<open>ErrInvalid\<close> cut off.\<close>

definition scope_text :: "go_error \<Rightarrow> string" where
  "scope_text e = (case e of Wrap s msg \<Rightarrow> msg | _ \<Rightarrow> [])"

record TokenInput =
  ti_Name :: string
  ti_Scopes :: "string list"
  ti_ExpiresAt :: "go_time option"

definition token_errors :: "TokenInput \<Rightarrow> go_time \<Rightarrow> ValidationError" where
  "token_errors inp now =
     (let n = rune_count (trim_space (ti_Name inp));
          v1 = (if n = 0 \<or> n > maxTokenName then Add [] ''name'' ''must be 1 to 100 characters'' else []);
          v2 = (case ParseScopes (ti_Scopes inp) of Inl e \<Rightarrow> Add v1 ''scopes'' (scope_text e) | Inr s \<Rightarrow> v1)
      in case ti_ExpiresAt inp of
           None \<Rightarrow> v2
         | Some e \<Rightarrow> if \<not> e > now \<or> time_sub e now > maxTokenTTL
                     then Add v2 ''expires_at'' ''must be in the future and within 5 years'' else v2)"

definition CreateAPIToken ::
  "auth_cfg \<Rightarrow> auth_db \<Rightarrow> Principal option \<Rightarrow> TokenInput \<Rightarrow> fresh \<Rightarrow> go_time \<Rightarrow> (go_error + string \<times> APIToken) \<times> auth_db" where
  "CreateAPIToken cfg db p inp f now =
     (if \<not> Principal_Fresh p now then (Inl ErrReauthRequired, db)
      else case Err (token_errors inp now) of
             Some e \<Rightarrow> (Inl e, db)
           | None \<Rightarrow>
               let tok = NewAPIToken (fr_prefix f) (fr_secret f);
                   t = \<lparr>at_ID = fr_id f, at_UserID = pr_UserID (the p), at_Name = trim_space (ti_Name inp), at_Prefix = fr_prefix f,
                        at_SecretHash = ac_HashToken cfg tok, at_Scopes = projr (ParseScopes (ti_Scopes inp)), at_CreatedAt = now,
                        at_ExpiresAt = ti_ExpiresAt inp, at_LastUsedAt = None, at_LastUsedIP = [], at_RevokedAt = None\<rparr>
               in (case CreateAPIToken_row db t of
                     (Some e, db') \<Rightarrow> (Inl e, db')
                   | (None, db') \<Rightarrow> (Inr (tok, t), audit db' (pr_UserID (the p)) ''api_token.create'')))"

definition AuthenticateAPIToken ::
  "auth_cfg \<Rightarrow> auth_db \<Rightarrow> string \<Rightarrow> Meta \<Rightarrow> go_time \<Rightarrow> (go_error + Principal) \<times> auth_db" where
  "AuthenticateAPIToken cfg db tok m now =
     (case ParseAPIToken tok of None \<Rightarrow> (Inl ErrInvalidToken, db)
      | Some pre \<Rightarrow>
        (case APITokenByPrefix db pre of Inl e \<Rightarrow> (Inl ErrInvalidToken, db)
         | Inr t \<Rightarrow>
             if ac_HashToken cfg tok \<noteq> at_SecretHash t \<or> \<not> APIToken_Active t now then (Inl ErrInvalidToken, db)
             else
               let touch = (case at_LastUsedAt t of None \<Rightarrow> True
                            | Some u \<Rightarrow> time_sub now u \<ge> TouchInterval \<or> at_LastUsedIP t \<noteq> me_IP m);
                   db' = (if touch then TouchAPIToken db (at_ID t) now (me_IP m) else db)
               in (Inr \<lparr>pr_UserID = at_UserID t, pr_SessionID = NilID, pr_TokenID = at_ID t,
                        pr_Scopes = storedScopes (at_Scopes t), pr_CSRFSecret = [], pr_ReauthAt = zero_time,
                        pr_ExpiresAt = zero_time, pr_Refreshed = False\<rparr>, db')))"

definition RevokeAPIToken :: "auth_db \<Rightarrow> go_id \<Rightarrow> go_id \<Rightarrow> go_time \<Rightarrow> go_error option \<times> auth_db" where
  "RevokeAPIToken db user i now =
     (case RevokeAPIToken_row db user i now of
        (Some e, db') \<Rightarrow> (Some e, db')
      | (None, db') \<Rightarrow> (None, audit db' user ''api_token.revoke''))"

definition SetPassword :: "auth_cfg \<Rightarrow> auth_db \<Rightarrow> go_id \<Rightarrow> string \<Rightarrow> fresh \<Rightarrow> go_error option \<times> auth_db" where
  "SetPassword cfg db user password f =
     (case ValidatePassword password (ac_minLen cfg) of
        Some e \<Rightarrow> (Some e, db)
      | None \<Rightarrow>
          (case SetPasswordHash db user (Hash (ac_kdf cfg) (ac_params cfg) password (fr_salt f)) of
             (Some e, db') \<Rightarrow> (Some e, db')
           | (None, db') \<Rightarrow> (None, audit (DeleteUserSessions db' user NilID) user ''user.password_set'')))"

definition SetDisabled :: "auth_db \<Rightarrow> go_id \<Rightarrow> bool \<Rightarrow> go_time \<Rightarrow> go_error option \<times> auth_db" where
  "SetDisabled db user disabled now =
     (case SetUserDisabled db user (if disabled then Some now else None) of
        (Some e, db') \<Rightarrow> (Some e, db')
      | (None, db') \<Rightarrow>
          if disabled then (None, audit (DeleteUserSessions db' user NilID) user ''user.disable'')
          else (None, audit db' user ''user.enable''))"

record RegisterInput =
  ri_Email :: string
  ri_Password :: string
  ri_DisplayName :: string
  ri_Timezone :: string

definition password_fields :: "string \<Rightarrow> int \<Rightarrow> ValidationError" where
  "password_fields password minLen =
     (case ValidatePassword password minLen of Some (Validation fs) \<Rightarrow> fs | _ \<Rightarrow> [])"

definition createUser ::
  "auth_cfg \<Rightarrow> auth_db \<Rightarrow> RegisterInput \<Rightarrow> bool \<Rightarrow> bool \<Rightarrow> fresh \<Rightarrow> go_time \<Rightarrow> (go_error + User) \<times> auth_db" where
  "createUser cfg db inp verified public f now =
     (let e = NormalizeEmail cfg (ri_Email inp);
          v1 = (case e of Inl x \<Rightarrow> Add [] ''email'' ''must be a valid email address''
                | Inr email \<Rightarrow> if public \<and> \<not> EmailAllowed (ac_reg cfg) email
                                then Add [] ''email'' ''this email domain cannot register'' else []);
          v2 = v1 @ password_fields (ri_Password inp) (ac_minLen cfg);
          name = trim_space (ri_DisplayName inp);
          v3 = (if rune_count name > maxDisplayName then Add v2 ''display_name'' ''must be at most 100 characters'' else v2);
          tz0 = trim_space (ri_Timezone inp);
          tz = (if tz0 = [] then ac_defaultTZ cfg else tz0);
          v4 = (if tz0 \<noteq> [] \<and> (LoadLocation (ac_zones cfg) tz0 = None \<or> tz0 = ''Local'')
                then Add v3 ''timezone'' ''unknown timezone'' else v3)
      in case Err v4 of
           Some x \<Rightarrow> (Inl x, db)
         | None \<Rightarrow>
             (case CreateUser_row db
                \<lparr>nu_ID = fr_id f, nu_Email = projr e, nu_EmailVerifiedAt = (if verified \<or> \<not> ac_verify cfg then Some now else None),
                 nu_PasswordHash = Hash (ac_kdf cfg) (ac_params cfg) (ri_Password inp) (fr_salt f),
                 nu_DisplayName = name, nu_Timezone = tz, nu_Identity = None\<rparr> of
                (Inl x, db') \<Rightarrow>
                   if err_is x ErrConflict then (Inl (Validation (Add [] ''email'' ''is already registered'')), db')
                   else (Inl x, db')
              | (Inr u, db') \<Rightarrow> (Inr u, db')))"

definition Register ::
  "auth_cfg \<Rightarrow> auth_state \<Rightarrow> RegisterInput \<Rightarrow> Meta \<Rightarrow> fresh \<Rightarrow> go_time \<Rightarrow> (go_error + User) \<times> auth_state" where
  "Register cfg st0 inp m f now =
     (if \<not> reg_Enabled (ac_reg cfg) \<or> \<not> reg_PasswordEnabled (ac_reg cfg) then (Inl ErrRegistrationClosed, st0)
      else let (e1, st) = check_ip st0 (''register:'' @ me_IP m) now in
        case e1 of Some e \<Rightarrow> (Inl e, st) | None \<Rightarrow>
          (case createUser cfg (as_db st) inp False True f now of
             (Inl e, db) \<Rightarrow> (Inl e, st\<lparr>as_db := db\<rparr>)
           | (Inr u, db) \<Rightarrow> (Inr u, st\<lparr>as_db := audit db (us_ID u) ''user.register''\<rparr>)))"

definition CreateUser :: "auth_cfg \<Rightarrow> auth_db \<Rightarrow> RegisterInput \<Rightarrow> bool \<Rightarrow> fresh \<Rightarrow> go_time \<Rightarrow> (go_error + User) \<times> auth_db" where
  "CreateUser cfg db inp verified f now =
     (case createUser cfg db inp verified False f now of
        (Inl e, db') \<Rightarrow> (Inl e, db')
      | (Inr u, db') \<Rightarrow> (Inr u, audit db' (us_ID u) ''user.create''))"

definition Reauth ::
  "auth_cfg \<Rightarrow> auth_state \<Rightarrow> Principal option \<Rightarrow> string \<Rightarrow> go_time \<Rightarrow> (go_error + Principal) \<times> auth_state" where
  "Reauth cfg st0 p password now =
     (if \<not> IsSession p then (Inl ErrReauthRequired, st0)
      else let x = the p; (e1, st) = check_email st0 (''reauth:'' @ ac_id_text cfg (pr_UserID x)) now in
        case e1 of Some e \<Rightarrow> (Inl e, st) | None \<Rightarrow>
          (case UserByID (as_db st) (pr_UserID x) of Inl e \<Rightarrow> (Inl e, st)
           | Inr user \<Rightarrow>
               if \<not> HasPassword user then (Inl ErrNoPassword, st)
               else if length password > MaxPasswordBytes then (Inl ErrInvalidCredentials, st)
               else case verify_pw cfg password user of Inl e \<Rightarrow> (Inl e, st)
                 | Inr (ok, rehash) \<Rightarrow>
                     if \<not> ok then (Inl ErrInvalidCredentials, st\<lparr>as_db := audit (as_db st) (pr_UserID x) ''reauth.failed''\<rparr>)
                     else let (p', db) = MarkReauth (as_db st) x now in (Inr p', st\<lparr>as_db := db\<rparr>)))"

subsection \<open>Links by mail\<close>

definition PurposeVerify :: string where
  "PurposeVerify = ''verify''"

definition PurposeReset :: string where
  "PurposeReset = ''reset''"

definition issue ::
  "auth_cfg \<Rightarrow> auth_db \<Rightarrow> go_id \<Rightarrow> string \<Rightarrow> duration \<Rightarrow> fresh \<Rightarrow> go_time \<Rightarrow> (go_error + string) \<times> auth_db" where
  "issue cfg db user purpose ttl f now =
     (let db1 = DeleteEmailTokens db user purpose in
      case CreateEmailToken db1
        \<lparr>et_ID = fr_id f, et_UserID = user, et_Purpose = purpose, et_TokenHash = ac_HashToken cfg (fr_token f),
         et_CreatedAt = db_now db, et_ExpiresAt = now + ttl, et_UsedAt = None\<rparr> of
        (Some e, db') \<Rightarrow> (Inl e, db')
      | (None, db') \<Rightarrow> (Inr (fr_token f), db'))"

definition IssueVerify :: "auth_cfg \<Rightarrow> auth_db \<Rightarrow> User \<Rightarrow> fresh \<Rightarrow> go_time \<Rightarrow> (go_error + string option) \<times> auth_db" where
  "IssueVerify cfg db u f now =
     (if \<not> ac_verify cfg \<or> Verified u then (Inr None, db)
      else case issue cfg db (us_ID u) PurposeVerify verifyTTL f now of
             (Inl e, db') \<Rightarrow> (Inl e, db')
           | (Inr tok, db') \<Rightarrow> (Inr (Some tok), db'))"

definition ConfirmVerify ::
  "auth_cfg \<Rightarrow> auth_state \<Rightarrow> string \<Rightarrow> Meta \<Rightarrow> go_time \<Rightarrow> (go_error + User) \<times> auth_state" where
  "ConfirmVerify cfg st0 tok m now =
     (let (e1, st) = check_ip st0 (''verify:'' @ me_IP m) now in
      case e1 of Some e \<Rightarrow> (Inl e, st) | None \<Rightarrow>
        (case ConsumeEmailToken (as_db st) PurposeVerify (ac_HashToken cfg tok) now of
           (Inl e, db) \<Rightarrow> (Inl ErrBadToken, st\<lparr>as_db := db\<rparr>)
         | (Inr t, db1) \<Rightarrow>
             let db2 = snd (SetEmailVerified db1 (et_UserID t) now) in
             (case UserByID db2 (et_UserID t) of
                Inl e \<Rightarrow> (Inl e, st\<lparr>as_db := db2\<rparr>)
              | Inr u \<Rightarrow> (Inr u, st\<lparr>as_db := audit db2 (us_ID u) ''user.verify''\<rparr>))))"

text \<open>The user and the token to mail, or nothing.\<close>

definition IssueReset ::
  "auth_cfg \<Rightarrow> auth_state \<Rightarrow> string \<Rightarrow> Meta \<Rightarrow> fresh \<Rightarrow> go_time \<Rightarrow> (go_error + (User \<times> string) option) \<times> auth_state" where
  "IssueReset cfg st0 email m f now =
     (let (e1, st) = check_ip st0 (''reset:'' @ me_IP m) now in
      case e1 of Some e \<Rightarrow> (Inl e, st) | None \<Rightarrow>
        (case NormalizeEmail cfg email of Inl e \<Rightarrow> (Inr None, st)
         | Inr key \<Rightarrow>
           (case UserByEmail (as_db st) key of Inl e \<Rightarrow> (Inr None, st)
            | Inr u \<Rightarrow>
                if \<not> HasPassword u \<or> Disabled u then (Inr None, st)
                else case issue cfg (as_db st) (us_ID u) PurposeReset resetTTL f now of
                       (Inl e, db) \<Rightarrow> (Inl e, st\<lparr>as_db := db\<rparr>)
                     | (Inr tok, db) \<Rightarrow> (Inr (Some (u, tok)), st\<lparr>as_db := db\<rparr>))))"

definition ResetPassword :: "auth_cfg \<Rightarrow> auth_db \<Rightarrow> string \<Rightarrow> string \<Rightarrow> fresh \<Rightarrow> go_time \<Rightarrow> go_error option \<times> auth_db" where
  "ResetPassword cfg db tok password f now =
     (case ConsumeEmailToken db PurposeReset (ac_HashToken cfg tok) now of
        (Inl e, db1) \<Rightarrow> (Some ErrBadToken, db1)
      | (Inr t, db1) \<Rightarrow>
          (case ValidatePassword password (ac_minLen cfg) of
             Some e \<Rightarrow> (Some e, db1)
           | None \<Rightarrow>
               (case SetPasswordHash db1 (et_UserID t) (Hash (ac_kdf cfg) (ac_params cfg) password (fr_salt f)) of
                  (Some e, db2) \<Rightarrow> (Some e, db2)
                | (None, db2) \<Rightarrow>
                    let db3 = DeleteUserSessions db2 (et_UserID t) NilID;
                        db4 = snd (SetEmailVerified db3 (et_UserID t) now)
                    in (None, audit db4 (et_UserID t) ''user.password_reset''))))"

subsection \<open>Sign-in through a provider\<close>

record External =
  ex_Provider :: string
  ex_Subject :: string
  ex_Email :: string
  ex_EmailVerified :: bool
  ex_Name :: string
  ex_Timezone :: string

definition LinkIdentity ::
  "auth_cfg \<Rightarrow> auth_db \<Rightarrow> go_id \<Rightarrow> External \<Rightarrow> go_id \<Rightarrow> go_time \<Rightarrow> go_error option \<times> auth_db" where
  "LinkIdentity cfg db user x newid now =
     (case IdentityBySubject db (ex_Provider x) (ex_Subject x) of
        Inr i \<Rightarrow> if id_UserID i = user then (None, db) else (Some ErrIdentityTaken, db)
      | Inl e \<Rightarrow>
          let email = (case NormalizeEmail cfg (ex_Email x) of Inl e \<Rightarrow> to_lower (trim_space (ex_Email x)) | Inr m \<Rightarrow> m) in
          (case CreateIdentity db \<lparr>id_ID = newid, id_UserID = user, id_Provider = ex_Provider x, id_Subject = ex_Subject x,
                                   id_Email = email, id_LinkedAt = now\<rparr> of
             (Some e', db') \<Rightarrow> (Some (if err_is e' ErrConflict then ErrAlreadyLinked else e'), db')
           | (None, db') \<Rightarrow> (None, audit db' user ''identity.link'')))"

definition adopt :: "auth_cfg \<Rightarrow> auth_db \<Rightarrow> User \<Rightarrow> External \<Rightarrow> go_id \<Rightarrow> go_time \<Rightarrow> go_error option \<times> auth_db" where
  "adopt cfg db u x newid now =
     (if Disabled u then (Some ErrDisabled, db)
      else if \<not> Verified u \<and> HasPassword u
      then (case SetPasswordHash db (us_ID u) [] of
              (Some e, db1) \<Rightarrow> (Some e, db1)
            | (None, db1) \<Rightarrow> LinkIdentity cfg (DeleteUserSessions db1 (us_ID u) NilID) (us_ID u) x newid now)
      else LinkIdentity cfg db (us_ID u) x newid now)"

definition externalSignup ::
  "auth_cfg \<Rightarrow> auth_db \<Rightarrow> External \<Rightarrow> string \<Rightarrow> go_id \<Rightarrow> go_id \<Rightarrow> go_time \<Rightarrow> (go_error + User) \<times> auth_db" where
  "externalSignup cfg db x email newuser newid now =
     (if \<not> reg_Enabled (ac_reg cfg) \<or> \<not> reg_GoogleEnabled (ac_reg cfg) then (Inl ErrRegistrationClosed, db)
      else if \<not> EmailAllowed (ac_reg cfg) email then (Inl ErrDomainNotAllowed, db)
      else CreateUser_row db
        \<lparr>nu_ID = newuser, nu_Email = email, nu_EmailVerifiedAt = Some now, nu_PasswordHash = [],
         nu_DisplayName = clip (trim_space (ex_Name x)) (nat maxDisplayName),
         nu_Timezone = (if ValidTimezone (ac_zones cfg) (ex_Timezone x) then ex_Timezone x else ac_defaultTZ cfg),
         nu_Identity = Some \<lparr>id_ID = newid, id_UserID = NilID, id_Provider = ex_Provider x, id_Subject = ex_Subject x,
                             id_Email = email, id_LinkedAt = now\<rparr>\<rparr>)"

definition externalSession ::
  "auth_cfg \<Rightarrow> auth_db \<Rightarrow> User \<Rightarrow> Meta \<Rightarrow> string \<Rightarrow> fresh \<Rightarrow> go_time \<Rightarrow> (go_error + Session) \<times> auth_db" where
  "externalSession cfg db u m action f now =
     (if Disabled u then (Inl ErrDisabled, db)
      else case StartSession cfg db u m f now of
             (Inl e, db') \<Rightarrow> (Inl e, db')
           | (Inr s, db') \<Rightarrow> (Inr s, audit db' (us_ID u) action))"

definition ExternalLogin ::
  "auth_cfg \<Rightarrow> auth_state \<Rightarrow> External \<Rightarrow> Meta \<Rightarrow> go_id \<Rightarrow> go_id \<Rightarrow> fresh \<Rightarrow> go_time \<Rightarrow> (go_error + Session) \<times> auth_state" where
  "ExternalLogin cfg st0 x m newuser newid f now =
     (let (e1, st) = check_ip st0 (''login:'' @ me_IP m) now; db = as_db st;
          session = (\<lambda>db u action. let (r, db') = externalSession cfg db u m action f now in (r, st\<lparr>as_db := db'\<rparr>)) in
      case e1 of Some e \<Rightarrow> (Inl e, st) | None \<Rightarrow>
        (case IdentityBySubject db (ex_Provider x) (ex_Subject x) of
           Inr i \<Rightarrow>
             (case UserByID db (id_UserID i) of Inl e \<Rightarrow> (Inl e, st) | Inr u \<Rightarrow> session db u ''login'')
         | Inl e0 \<Rightarrow>
             if \<not> ex_EmailVerified x then (Inl ErrEmailUnverified, st)
             else (case NormalizeEmail cfg (ex_Email x) of
                     Inl e \<Rightarrow> (Inl ErrEmailUnverified, st)
                   | Inr email \<Rightarrow>
                     (case UserByEmail db email of
                        Inr u \<Rightarrow>
                          (case adopt cfg db u x newid now of
                             (Some e, db') \<Rightarrow> (Inl e, st\<lparr>as_db := db'\<rparr>)
                           | (None, db') \<Rightarrow> session db' u ''login'')
                      | Inl e \<Rightarrow>
                          (case externalSignup cfg db x email newuser newid now of
                             (Inl e, db') \<Rightarrow> (Inl e, st\<lparr>as_db := db'\<rparr>)
                           | (Inr u, db') \<Rightarrow> session db' u ''user.register'')))))"

definition UnlinkIdentity :: "auth_db \<Rightarrow> go_id \<Rightarrow> string \<Rightarrow> go_error option \<times> auth_db" where
  "UnlinkIdentity db user provider =
     (case UserByID db user of Inl e \<Rightarrow> (Some e, db)
      | Inr u \<Rightarrow>
          if \<not> HasPassword u then (Some ErrLastLogin, db)
          else case DeleteIdentity db user provider of
                 (Some e, db') \<Rightarrow> (Some e, db')
               | (None, db') \<Rightarrow> (None, audit db' user ''identity.unlink''))"

definition ExternalReauth :: "auth_db \<Rightarrow> Principal option \<Rightarrow> External \<Rightarrow> go_time \<Rightarrow> (go_error + Principal) \<times> auth_db" where
  "ExternalReauth db p x now =
     (if \<not> IsSession p then (Inl ErrReauthRequired, db)
      else let q = the p; bad = (Inl ErrWrongIdentity, audit db (pr_UserID q) ''reauth.failed'') in
        case IdentityBySubject db (ex_Provider x) (ex_Subject x) of
          Inl e \<Rightarrow> bad
        | Inr i \<Rightarrow> if id_UserID i \<noteq> pr_UserID q then bad
                   else let (p', db') = MarkReauth db q now in (Inr p', db'))"

definition ChangePassword ::
  "auth_cfg \<Rightarrow> auth_state \<Rightarrow> Principal option \<Rightarrow> string \<Rightarrow> string \<Rightarrow> fresh \<Rightarrow> go_time \<Rightarrow> go_error option \<times> auth_state" where
  "ChangePassword cfg st0 p current next f now =
     (if \<not> IsSession p then (Some ErrReauthRequired, st0)
      else let x = the p in
        case UserByID (as_db st0) (pr_UserID x) of Inl e \<Rightarrow> (Some e, st0)
        | Inr u \<Rightarrow>
            let change = (\<lambda>st.
                  case ValidatePassword next (ac_minLen cfg) of Some e \<Rightarrow> (Some e, st)
                  | None \<Rightarrow>
                      (case SetPasswordHash (as_db st) (us_ID u) (Hash (ac_kdf cfg) (ac_params cfg) next (fr_salt f)) of
                         (Some e, db) \<Rightarrow> (Some e, st\<lparr>as_db := db\<rparr>)
                       | (None, db) \<Rightarrow>
                           (None, st\<lparr>as_db := audit (DeleteUserSessions db (us_ID u) (pr_SessionID x)) (us_ID u)
                                      (if HasPassword u then ''user.password_change'' else ''user.password_set'')\<rparr>)))
            in if HasPassword u
               then let (e1, st) = check_email st0 (''reauth:'' @ ac_id_text cfg (pr_UserID x)) now in
                 (case e1 of Some e \<Rightarrow> (Some e, st) | None \<Rightarrow>
                   (case (if length current \<le> MaxPasswordBytes then verify_pw cfg current u else Inr (False, False)) of
                      Inl e \<Rightarrow> (Some e, st)
                    | Inr (ok, r) \<Rightarrow>
                        if \<not> ok
                        then (Err (Add [] ''current_password'' ''is incorrect''), st\<lparr>as_db := audit (as_db st) (us_ID u) ''password.failed''\<rparr>)
                        else change st))
               else if \<not> Principal_Fresh p now then (Some ErrReauthRequired, st0)
               else change st0)"

subsection \<open>Guards\<close>

text \<open>What a guard does with a request: answer with an error, or pass it on with a principal or none.\<close>

datatype outcome = Failed go_error | Served "Principal option"

record guard_cfg =
  gd_auth :: auth_cfg
  gd_origin :: string
  gd_prims :: primitives

record guard_state =
  gs_db :: auth_db
  gs_failures :: "Limiter option"

definition MetaFrom :: "request \<Rightarrow> Meta" where
  "MetaFrom r = \<lparr>me_IP = rq_IP r, me_UserAgent = rq_UserAgent r\<rparr>"

text \<open>The cookie set on the response is the second component.\<close>

definition Session_guard :: "guard_cfg \<Rightarrow> auth_db \<Rightarrow> request \<Rightarrow> go_time \<Rightarrow> outcome \<times> Cookie option \<times> auth_db" where
  "Session_guard g db r now =
     (case ReadToken (rq_Cookie r) of
        None \<Rightarrow> (Served None, None, db)
      | Some tok \<Rightarrow>
          (case Authenticate (gd_auth g) db tok now of
             (Inl e, db') \<Rightarrow>
               if err_is e ErrUnauthorized then (Served None, Some (ClearCookie (ac_policy (gd_auth g))), db')
               else (Failed e, None, db')
           | (Inr p, db') \<Rightarrow>
               (Served (Some p),
                if pr_Refreshed p then Some (make_Cookie (ac_policy (gd_auth g)) tok (pr_ExpiresAt p) now) else None, db')))"

definition RequireUser :: "Principal option \<Rightarrow> outcome" where
  "RequireUser p = (if p = None then Failed (Wrap ErrUnauthorized []) else Served p)"

definition CSRF_guard :: "guard_cfg \<Rightarrow> request \<Rightarrow> Principal option \<Rightarrow> outcome" where
  "CSRF_guard g r p =
     (if IsSafeMethod (rq_Method r) then Served p
      else case CheckOrigin r (gd_origin g) of Some e \<Rightarrow> Failed e
        | None \<Rightarrow>
            if \<not> IsSession p
            then (if rq_Origin r = [] \<and> rq_SecFetchSite r = [] then Failed ErrCrossOrigin else Served p)
            else let tok = (if rq_CSRFHeader r = [] then rq_CSRFField r else rq_CSRFHeader r) in
                 if \<not> VerifyCSRF (gd_prims g) (pr_CSRFSecret (the p)) tok then Failed ErrCSRF else Served p)"

definition ByIP_key :: "request \<Rightarrow> string" where
  "ByIP_key r = (if rq_IP r = [] then [] else ''ip:'' @ rq_IP r)"

definition ByPrincipal :: "auth_cfg \<Rightarrow> request \<Rightarrow> Principal option \<Rightarrow> string" where
  "ByPrincipal cfg r p = (case p of Some x \<Rightarrow> ''user:'' @ ac_id_text cfg (pr_UserID x) | None \<Rightarrow> ByIP_key r)"

definition bearer :: "guard_cfg \<Rightarrow> guard_state \<Rightarrow> request \<Rightarrow> string \<Rightarrow> go_time \<Rightarrow> outcome \<times> guard_state" where
  "bearer g st r tok now =
     (let key = ByIP_key r;
          track = (gs_failures st \<noteq> None \<and> key \<noteq> []) in
      if track \<and> snd (Blocked (the (gs_failures st)) key now)
      then (Failed (Wrap ErrRateLimited ''too many attempts''), st)
      else
        (case AuthenticateAPIToken (gd_auth g) (gs_db st) tok (MetaFrom r) now of
           (Inl e, db) \<Rightarrow>
             let st' = st\<lparr>gs_db := db\<rparr> in
             if track \<and> err_is e ErrUnauthorized
             then (case Allow (the (gs_failures st)) key now of
                     Inl p \<Rightarrow> (Failed (Other ''panic''), st')
                   | Inr (d, l) \<Rightarrow> (Failed e, st'\<lparr>gs_failures := Some l\<rparr>))
             else (Failed e, st')
         | (Inr p, db) \<Rightarrow> (Served (Some p), st\<lparr>gs_db := db\<rparr>)))"

definition API_guard :: "guard_cfg \<Rightarrow> guard_state \<Rightarrow> request \<Rightarrow> Principal option \<Rightarrow> go_time \<Rightarrow> outcome \<times> guard_state" where
  "API_guard g st r p now =
     (case BearerToken r of
        Some tok \<Rightarrow> bearer g st r tok now
      | None \<Rightarrow>
          (case p of None \<Rightarrow> (Failed (Wrap ErrUnauthorized []), st)
           | Some x \<Rightarrow>
               if \<not> IsSafeMethod (rq_Method r)
               then (case CheckOrigin r (gd_origin g) of
                       Some e \<Rightarrow> (Failed e, st)
                     | None \<Rightarrow> if \<not> VerifyCSRF (gd_prims g) (pr_CSRFSecret x) (rq_CSRFHeader r) then (Failed ErrCSRF, st)
                               else (Served p, st))
               else (Served p, st)))"

definition RequireScope :: "Scope \<Rightarrow> Principal option \<Rightarrow> outcome" where
  "RequireScope s p =
     (if p = None then Failed (Wrap ErrUnauthorized [])
      else if \<not> Can p s then Failed (Wrap ErrForbidden (''token lacks scope '' @ s))
      else Served p)"

definition RequireFresh :: "Principal option \<Rightarrow> go_time \<Rightarrow> outcome" where
  "RequireFresh p now =
     (if p = None then Failed (Wrap ErrUnauthorized [])
      else if \<not> Principal_Fresh p now then Failed ErrReauthRequired
      else Served p)"

text \<open>An API route: the session cookie, the API guard, the rate limit per principal and the scope of the
  route, as \<open>api.Routes\<close> and \<open>app.wire\<close> chain them.\<close>

definition api_route ::
  "guard_cfg \<Rightarrow> guard_state \<Rightarrow> Limiter \<Rightarrow> Scope \<Rightarrow> request \<Rightarrow> go_time \<Rightarrow> outcome \<times> guard_state \<times> Limiter" where
  "api_route g st lim scope r now =
     (let (o1, c, db) = Session_guard g (gs_db st) r now; st1 = st\<lparr>gs_db := db\<rparr> in
      case o1 of Failed e \<Rightarrow> (Failed e, st1, lim)
      | Served p \<Rightarrow>
        (case API_guard g st1 r p now of
           (Failed e, st2) \<Rightarrow> (Failed e, st2, lim)
         | (Served q, st2) \<Rightarrow>
             let k = ByPrincipal (gd_auth g) r q in
             if k = [] then (RequireScope scope q, st2, lim)
             else (case Allow lim k now of
                     Inl x \<Rightarrow> (Failed (Other ''panic''), st2, lim)
                   | Inr (d, lim') \<Rightarrow>
                       if \<not> Allowed d then (Failed (Wrap ErrRateLimited ''too many attempts''), st2, lim')
                       else (RequireScope scope q, st2, lim'))))"

end
