(* ===== verification/Auth_Safety.thy ===== *)
theory Auth_Safety
  imports Auth
begin

text \<open>
  What authentication guarantees: the constraints that every run of the service keeps, what a login
  needs and what it gives, that revoked access ends at once, that mailed links work once, and who gets
  past the guards of the API.
\<close>

subsection \<open>Lookups\<close>

lemma or_not_found_Inr [simp]: "or_not_found x = Inr v \<longleftrightarrow> x = Some v"
  by (simp add: or_not_found_def split: option.splits)

lemma or_not_found_Inl: "or_not_found x = Inl e \<longleftrightarrow> x = None \<and> e = ErrNoRow"
  by (auto simp: or_not_found_def split: option.splits)

lemma find_SomeD: "find P xs = Some x \<Longrightarrow> P x \<and> x \<in> set xs"
  by (induction xs) (auto split: if_splits)

lemma find_last: "\<not> list_ex P xs \<Longrightarrow> P x \<Longrightarrow> find P (xs @ [x]) = Some x"
  by (induction xs) auto

lemma list_ex_field: "list_ex (\<lambda>x. f x = a) xs \<longleftrightarrow> a \<in> f ` set xs"
  by (auto simp: list_ex_iff)

lemma list_ex_disj: "list_ex (\<lambda>x. P x \<or> Q x) xs \<longleftrightarrow> list_ex P xs \<or> list_ex Q xs"
  by (auto simp: list_ex_iff)

lemmas clash_simps = list_ex_field list_ex_disj

subsection \<open>The constraints of the tables\<close>

definition session_ok :: "SessionPolicy \<Rightarrow> Session \<Rightarrow> bool" where
  "session_ok pol s \<longleftrightarrow> se_ID s \<noteq> NilID \<and> se_ExpiresAt s \<le> se_AbsoluteExpiresAt s \<and>
     se_AbsoluteExpiresAt s = se_CreatedAt s + pol_AbsoluteTTL pol"

definition token_ok :: "APIToken \<Rightarrow> bool" where
  "token_ok t \<longleftrightarrow> at_Scopes t \<noteq> [] \<and> set (at_Scopes t) \<subseteq> set AllScopes"

lemma token_ok_update [simp]:
  "token_ok (t\<lparr>at_RevokedAt := r\<rparr>) = token_ok t" "token_ok (t\<lparr>at_LastUsedAt := a, at_LastUsedIP := ip\<rparr>) = token_ok t"
  by (simp_all add: token_ok_def)

definition db_ok :: "SessionPolicy \<Rightarrow> auth_db \<Rightarrow> bool" where
  "db_ok pol db \<longleftrightarrow>
     (distinct (map us_ID (db_users db)) \<and> distinct (map (\<lambda>u. to_lower (us_Email u)) (db_users db))) \<and>
     (distinct (map se_ID (db_sessions db)) \<and> distinct (map se_TokenHash (db_sessions db)) \<and>
      list_all (session_ok pol) (db_sessions db)) \<and>
     (distinct (map (\<lambda>i. (id_Provider i, id_Subject i)) (db_identities db)) \<and>
      distinct (map (\<lambda>i. (id_Provider i, id_UserID i)) (db_identities db))) \<and>
     (distinct (map at_Prefix (db_tokens db)) \<and>
      list_all token_ok (db_tokens db))"

named_theorems keeps "each operation keeps the constraints"

lemma update_user_ok:
  assumes "db_ok pol db" "\<And>u. us_ID (f u) = us_ID u" "\<And>u. us_Email (f u) = us_Email u"
  shows "db_ok pol (snd (update_user db i P f))"
proof -
  let ?g = "\<lambda>u. if us_ID u = i \<and> P u then (f u)\<lparr>us_UpdatedAt := db_now db\<rparr> else u"
  have "map us_ID (map ?g xs) = map us_ID xs" "map (\<lambda>u. to_lower (us_Email u)) (map ?g xs) = map (\<lambda>u. to_lower (us_Email u)) xs"
    for xs using assms(2,3) by (simp_all add: comp_def if_distrib cong: if_cong)
  then show ?thesis using assms(1) by (simp add: update_user_def db_ok_def del: map_map)
qed

lemma SetPasswordHash_ok [keeps]: "SetPasswordHash db i h = (e, db') \<Longrightarrow> db_ok pol db \<Longrightarrow> db_ok pol db'"
  using update_user_ok [of pol db "\<lambda>u. u\<lparr>us_PasswordHash := h\<rparr>" i "\<lambda>_. True"] by (simp add: SetPasswordHash_def)

lemma SetUserDisabled_ok [keeps]: "SetUserDisabled db i at = (e, db') \<Longrightarrow> db_ok pol db \<Longrightarrow> db_ok pol db'"
  using update_user_ok [of pol db "\<lambda>u. u\<lparr>us_DisabledAt := at\<rparr>" i "\<lambda>_. True"] by (simp add: SetUserDisabled_def)

lemma SetEmailVerified_ok [keeps]: "db_ok pol db \<Longrightarrow> db_ok pol (snd (SetEmailVerified db i at))"
  unfolding SetEmailVerified_def by (rule update_user_ok) simp_all

lemma audit_ok [keeps]: "db_ok pol (audit db i a) \<longleftrightarrow> db_ok pol db"
  by (simp add: audit_def db_ok_def)

lemma no_identity_clash:
  assumes "\<not> identity_clash db i"
  shows "(id_Provider i, id_Subject i) \<notin> (\<lambda>i. (id_Provider i, id_Subject i)) ` set (db_identities db)"
    and "(id_Provider i, id_UserID i) \<notin> (\<lambda>i. (id_Provider i, id_UserID i)) ` set (db_identities db)"
  using assms unfolding identity_clash_def list_ex_iff by (metis (mono_tags, lifting) imageE prod.inject)+

lemma CreateUser_row_ok [keeps]: "CreateUser_row db nu = (r, db') \<Longrightarrow> db_ok pol db \<Longrightarrow> db_ok pol db'"
  by (auto simp: CreateUser_row_def Let_def db_ok_def clash_simps dest: no_identity_clash split: if_splits option.splits)

lemma CreateIdentity_ok [keeps]: "CreateIdentity db i = (e, db') \<Longrightarrow> db_ok pol db \<Longrightarrow> db_ok pol db'"
  by (auto simp: CreateIdentity_def db_ok_def image_iff dest: no_identity_clash [unfolded image_iff] split: if_splits)

lemma DeleteIdentity_ok [keeps]: "DeleteIdentity db i p = (e, db') \<Longrightarrow> db_ok pol db \<Longrightarrow> db_ok pol db'"
  by (auto simp: DeleteIdentity_def db_ok_def distinct_map_filter split: if_splits)

lemma CreateSession_ok:
  "CreateSession db s = (e, db') \<Longrightarrow> db_ok pol db \<Longrightarrow> session_ok pol s \<Longrightarrow> db_ok pol db'"
  by (auto simp: CreateSession_def db_ok_def clash_simps split: if_splits)

lemma list_all_filter: "list_all P xs \<Longrightarrow> list_all P (filter Q xs)"
  by (auto simp: list_all_iff)

lemma DeleteSession_ok [keeps]: "DeleteSession db u i = (e, db') \<Longrightarrow> db_ok pol db \<Longrightarrow> db_ok pol db'"
  by (auto simp: DeleteSession_def db_ok_def distinct_map_filter intro: list_all_filter split: if_splits)

lemma DeleteUserSessions_ok [keeps]: "db_ok pol db \<Longrightarrow> db_ok pol (DeleteUserSessions db u i)"
  by (auto simp: DeleteUserSessions_def db_ok_def distinct_map_filter intro: list_all_filter)

lemma SetSessionReauth_ok [keeps]: "db_ok pol db \<Longrightarrow> db_ok pol (SetSessionReauth db i at)"
  by (auto simp: SetSessionReauth_def db_ok_def session_ok_def comp_def if_distrib list.pred_map list_all_iff cong: if_cong)

lemma TouchSession_ok:
  assumes "db_ok pol db" "\<And>s. s \<in> set (db_sessions db) \<Longrightarrow> se_ID s = i \<Longrightarrow> exp \<le> se_AbsoluteExpiresAt s"
  shows "db_ok pol (TouchSession db i now exp)"
  using assms by (auto simp: TouchSession_def db_ok_def session_ok_def comp_def if_distrib list.pred_map list_all_iff cong: if_cong)

lemma TouchAPIToken_ok [keeps]: "db_ok pol db \<Longrightarrow> db_ok pol (TouchAPIToken db i at ip)"
  by (auto simp: TouchAPIToken_def db_ok_def comp_def if_distrib list.pred_map list_all_iff cong: if_cong)

lemma RevokeAPIToken_row_ok [keeps]: "RevokeAPIToken_row db u i at = (e, db') \<Longrightarrow> db_ok pol db \<Longrightarrow> db_ok pol db'"
  by (auto simp: RevokeAPIToken_row_def Let_def db_ok_def comp_def if_distrib list.pred_map list_all_iff cong: if_cong split: if_splits)

lemma CreateEmailToken_ok [keeps]: "CreateEmailToken db t = (e, db') \<Longrightarrow> db_ok pol db \<Longrightarrow> db_ok pol db'"
  by (auto simp: CreateEmailToken_def db_ok_def split: if_splits)

lemma ConsumeEmailToken_ok [keeps]: "ConsumeEmailToken db p h at = (r, db') \<Longrightarrow> db_ok pol db \<Longrightarrow> db_ok pol db'"
  by (auto simp: ConsumeEmailToken_def db_ok_def split: option.splits)

lemma DeleteEmailTokens_ok [keeps]: "db_ok pol db \<Longrightarrow> db_ok pol (DeleteEmailTokens db u p)"
  by (simp add: DeleteEmailTokens_def db_ok_def)

lemma CreateAPIToken_row_ok:
  "CreateAPIToken_row db t = (e, db') \<Longrightarrow> db_ok pol db \<Longrightarrow> token_ok t \<Longrightarrow> db_ok pol db'"
  by (auto simp: CreateAPIToken_row_def db_ok_def clash_simps split: if_splits)

subsection \<open>The operations keep them\<close>

lemma StartSession_ok [keeps]:
  assumes "StartSession cfg db u m f now = (r, db')" "db_ok (ac_policy cfg) db" "fr_id f \<noteq> NilID"
  shows "db_ok (ac_policy cfg) db'"
proof -
  obtain e a where n: "NewExpiry (ac_policy cfg) now = (e, a)" by fastforce
  from assms(1) obtain s x where s: "CreateSession db s = (x, db')" "se_ID s = fr_id f" "se_ExpiresAt s = e"
      "se_AbsoluteExpiresAt s = a" "se_CreatedAt s = now"
    by (auto simp: StartSession_def n Let_def split: prod.splits option.splits)
  show ?thesis by (rule CreateSession_ok [OF s(1) assms(2)]) (use s NewExpiry_le [OF n] assms(3) in \<open>simp add: session_ok_def\<close>)
qed

lemma check_db [simp]:
  "check_ip st k now = (e, st') \<Longrightarrow> as_db st' = as_db st" "check_email st k now = (e, st') \<Longrightarrow> as_db st' = as_db st"
  by (auto simp: check_ip_def check_email_def split: prod.splits)

lemma upgradeHash_ok [keeps]: "db_ok pol db \<Longrightarrow> db_ok pol (upgradeHash cfg db i pw f)"
  unfolding upgradeHash_def by (rule SetPasswordHash_ok [OF prod.collapse [symmetric]])

lemma Login_ok:
  assumes "Login cfg st email pw m f now = (r, st')" "db_ok (ac_policy cfg) (as_db st)" "fr_id f \<noteq> NilID"
  shows "db_ok (ac_policy cfg) (as_db st')"
  using assms
  by (auto simp: Login_def Let_def keeps split: prod.splits option.splits sum.splits if_splits
      dest: check_db intro: keeps)

lemma Authenticate_ok:
  assumes "Authenticate cfg db tok now = (r, db')" "db_ok pol db"
  shows "db_ok pol db'"
proof -
  have "db_ok pol (TouchSession db (se_ID s) now (Extend (ac_policy cfg) now (se_AbsoluteExpiresAt s)))"
    if "SessionByTokenHash db (ac_HashToken cfg tok) = Inr s" for s
  proof (rule TouchSession_ok [OF assms(2)])
    fix s'
    assume "s' \<in> set (db_sessions db)" "se_ID s' = se_ID s"
    moreover have "s \<in> set (db_sessions db)" using that by (auto simp: SessionByTokenHash_def dest: find_SomeD)
    ultimately have "s' = s" using assms(2) by (auto simp: db_ok_def dest: eq_key_imp_eq_value distinct_map [THEN iffD1, THEN conjunct2, THEN inj_onD])
    then show "Extend (ac_policy cfg) now (se_AbsoluteExpiresAt s) \<le> se_AbsoluteExpiresAt s'" by (simp add: Extend_le)
  qed
  moreover have "db_ok pol (snd (DeleteSession db u i))" for u i
    by (rule DeleteSession_ok [OF prod.collapse [symmetric] assms(2)])
  ultimately show ?thesis using assms
    by (auto simp: Authenticate_def Let_def split: sum.splits if_splits)
qed

lemmas branches = prod.splits option.splits sum.splits if_splits

lemma snd_ok:
  "db_ok pol db \<Longrightarrow> db_ok pol (snd (DeleteSession db u i))" "db_ok pol db \<Longrightarrow> db_ok pol (snd (SetPasswordHash db i h))"
  by (rule DeleteSession_ok [OF prod.collapse [symmetric]], assumption)
    (rule SetPasswordHash_ok [OF prod.collapse [symmetric]])

lemma Logout_ok: "db_ok pol db \<Longrightarrow> db_ok pol (Logout db p)"
  by (simp add: Logout_def Let_def audit_ok snd_ok)

lemma MarkReauth_ok [keeps]: "MarkReauth db p now = (r, db') \<Longrightarrow> db_ok pol db \<Longrightarrow> db_ok pol db'"
  by (auto simp: MarkReauth_def audit_ok intro: keeps)

lemma RevokeSession_ok: "RevokeSession db u i = (r, db') \<Longrightarrow> db_ok pol db \<Longrightarrow> db_ok pol db'"
  by (auto simp: RevokeSession_def audit_ok intro: keeps split: branches)

lemma RevokeOtherSessions_ok: "db_ok pol db \<Longrightarrow> db_ok pol (RevokeOtherSessions db p)"
  by (simp add: RevokeOtherSessions_def audit_ok DeleteUserSessions_ok)

lemma ParseScopes_known:
  assumes "ParseScopes xs = Inr ys"
  shows "ys \<noteq> [] \<and> set ys \<subseteq> set AllScopes"
proof -
  from assms obtain out where out: "parse_scopes_from [] xs = Inr out" "out \<noteq> []" "ys = sort out"
    by (auto simp: ParseScopes_def split: sum.splits if_splits)
  then show ?thesis using parse_scopes_from_inv [OF out(1)] by (metis distinct.simps(1) empty_subsetI length_0_conv length_sort list.set(1) set_sort)
qed

lemma token_errors_scopes: "Err (token_errors inp now) = None \<Longrightarrow> \<exists>ys. ParseScopes (ti_Scopes inp) = Inr ys"
  by (auto simp: token_errors_def Let_def Err_def Add_def split: option.splits sum.splits if_splits)

lemma CreateAPIToken_ok:
  assumes "CreateAPIToken cfg db p inp f now = (r, db')" "db_ok pol db"
  shows "db_ok pol db'"
proof -
  have "token_ok t" if "Err (token_errors inp now) = None" "at_Scopes t = projr (ParseScopes (ti_Scopes inp))" for t
    using token_errors_scopes [OF that(1)] that(2) by (metis ParseScopes_known sum.sel(2) token_ok_def)
  then have row: "CreateAPIToken_row db t = (e, x) \<Longrightarrow> Err (token_errors inp now) = None \<Longrightarrow>
      at_Scopes t = projr (ParseScopes (ti_Scopes inp)) \<Longrightarrow> db_ok pol x" for t e x
    using CreateAPIToken_row_ok [OF _ assms(2)] by blast
  from assms show ?thesis
    by (auto simp: CreateAPIToken_def Let_def audit_ok split: prod.splits option.splits if_splits dest!: row)
qed

lemma AuthenticateAPIToken_ok: "AuthenticateAPIToken cfg db tok m now = (r, db') \<Longrightarrow> db_ok pol db \<Longrightarrow> db_ok pol db'"
  by (auto simp: AuthenticateAPIToken_def Let_def intro: keeps split: option.splits sum.splits if_splits)

lemma RevokeAPIToken_ok: "RevokeAPIToken db u i now = (r, db') \<Longrightarrow> db_ok pol db \<Longrightarrow> db_ok pol db'"
  by (auto simp: RevokeAPIToken_def audit_ok intro: keeps split: branches)

lemma SetPassword_ok: "SetPassword cfg db u pw f = (r, db') \<Longrightarrow> db_ok pol db \<Longrightarrow> db_ok pol db'"
  by (auto simp: SetPassword_def audit_ok intro!: DeleteUserSessions_ok intro: keeps split: branches)

lemma SetDisabled_ok: "SetDisabled db u d now = (r, db') \<Longrightarrow> db_ok pol db \<Longrightarrow> db_ok pol db'"
  by (auto simp: SetDisabled_def audit_ok intro!: DeleteUserSessions_ok intro: keeps split: branches)

lemma createUser_ok [keeps]: "createUser cfg db inp v pub f now = (r, db') \<Longrightarrow> db_ok pol db \<Longrightarrow> db_ok pol db'"
  unfolding createUser_def Let_def by (auto intro: CreateUser_row_ok split: option.splits prod.splits sum.splits if_splits)

lemma Register_ok: "Register cfg st inp m f now = (r, st') \<Longrightarrow> db_ok pol (as_db st) \<Longrightarrow> db_ok pol (as_db st')"
  by (auto simp: Register_def Let_def audit_ok dest: check_db intro: keeps split: branches)

lemma CreateUser_ok: "CreateUser cfg db inp v f now = (r, db') \<Longrightarrow> db_ok pol db \<Longrightarrow> db_ok pol db'"
  by (auto simp: CreateUser_def audit_ok intro: keeps split: branches)

lemma Reauth_ok: "Reauth cfg st p pw now = (r, st') \<Longrightarrow> db_ok pol (as_db st) \<Longrightarrow> db_ok pol (as_db st')"
  by (auto simp: Reauth_def Let_def audit_ok dest: check_db intro: keeps split: branches)

lemma issue_ok [keeps]: "issue cfg db u p ttl f now = (r, db') \<Longrightarrow> db_ok pol db \<Longrightarrow> db_ok pol db'"
  by (auto simp: issue_def Let_def intro: keeps split: branches)

lemma IssueVerify_ok: "IssueVerify cfg db u f now = (r, db') \<Longrightarrow> db_ok pol db \<Longrightarrow> db_ok pol db'"
  by (auto simp: IssueVerify_def intro: keeps split: branches)

lemma ConfirmVerify_ok: "ConfirmVerify cfg st tok m now = (r, st') \<Longrightarrow> db_ok pol (as_db st) \<Longrightarrow> db_ok pol (as_db st')"
  by (auto simp: ConfirmVerify_def Let_def audit_ok dest: check_db intro!: SetEmailVerified_ok intro: keeps split: branches)

lemma IssueReset_ok: "IssueReset cfg st em m f now = (r, st') \<Longrightarrow> db_ok pol (as_db st) \<Longrightarrow> db_ok pol (as_db st')"
  by (auto simp: IssueReset_def Let_def dest: check_db intro: keeps split: branches)

lemma ResetPassword_ok: "ResetPassword cfg db tok pw f now = (r, db') \<Longrightarrow> db_ok pol db \<Longrightarrow> db_ok pol db'"
  by (auto simp: ResetPassword_def Let_def audit_ok intro!: SetEmailVerified_ok DeleteUserSessions_ok
      intro: SetPasswordHash_ok [OF _ ConsumeEmailToken_ok] ConsumeEmailToken_ok split: branches)

lemma LinkIdentity_ok [keeps]: "LinkIdentity cfg db u x i now = (r, db') \<Longrightarrow> db_ok pol db \<Longrightarrow> db_ok pol db'"
  by (auto simp: LinkIdentity_def Let_def audit_ok intro: keeps split: prod.splits option.splits sum.splits if_splits)

lemma adopt_ok [keeps]: "adopt cfg db u x i now = (r, db') \<Longrightarrow> db_ok pol db \<Longrightarrow> db_ok pol db'"
  by (auto simp: adopt_def split: branches intro: LinkIdentity_ok [OF _ DeleteUserSessions_ok] keeps)

lemma externalSignup_ok [keeps]: "externalSignup cfg db x em nu ni now = (r, db') \<Longrightarrow> db_ok pol db \<Longrightarrow> db_ok pol db'"
  by (auto simp: externalSignup_def intro: keeps split: if_splits)

lemma externalSession_ok [keeps]:
  "externalSession cfg db u m a f now = (r, db') \<Longrightarrow> db_ok (ac_policy cfg) db \<Longrightarrow> fr_id f \<noteq> NilID \<Longrightarrow>
   db_ok (ac_policy cfg) db'"
  by (auto simp: externalSession_def audit_ok intro: keeps split: branches)

lemma ExternalLogin_ok:
  assumes "ExternalLogin cfg st x m nu ni f now = (r, st')" "db_ok (ac_policy cfg) (as_db st)" "fr_id f \<noteq> NilID"
  shows "db_ok (ac_policy cfg) (as_db st')"
  using assms unfolding ExternalLogin_def Let_def
  by (auto dest: check_db intro: keeps split: branches)

lemma UnlinkIdentity_ok: "UnlinkIdentity db u p = (r, db') \<Longrightarrow> db_ok pol db \<Longrightarrow> db_ok pol db'"
  by (auto simp: UnlinkIdentity_def audit_ok intro: keeps split: branches)

lemma ExternalReauth_ok: "ExternalReauth db p x now = (r, db') \<Longrightarrow> db_ok pol db \<Longrightarrow> db_ok pol db'"
  by (auto simp: ExternalReauth_def Let_def audit_ok intro: keeps split: branches)

lemma ChangePassword_ok: "ChangePassword cfg st p c n f now = (r, st') \<Longrightarrow> db_ok pol (as_db st) \<Longrightarrow> db_ok pol (as_db st')"
  unfolding ChangePassword_def Let_def
  by (auto simp: audit_ok dest: check_db intro!: DeleteUserSessions_ok intro: keeps split: branches)

subsection \<open>Runs of the service\<close>

text \<open>One request to the service, with any arguments, at any time.\<close>

inductive auth_step :: "auth_cfg \<Rightarrow> auth_state \<Rightarrow> auth_state \<Rightarrow> bool" for cfg where
  "Login cfg st em pw m f now = (r, st') \<Longrightarrow> fr_id f \<noteq> NilID \<Longrightarrow> auth_step cfg st st'"
| "ExternalLogin cfg st x m nu ni f now = (r, st') \<Longrightarrow> fr_id f \<noteq> NilID \<Longrightarrow> auth_step cfg st st'"
| "Register cfg st inp m f now = (r, st') \<Longrightarrow> auth_step cfg st st'"
| "Reauth cfg st p pw now = (r, st') \<Longrightarrow> auth_step cfg st st'"
| "ConfirmVerify cfg st tok m now = (r, st') \<Longrightarrow> auth_step cfg st st'"
| "IssueReset cfg st em m f now = (r, st') \<Longrightarrow> auth_step cfg st st'"
| "ChangePassword cfg st p c n f now = (e, st') \<Longrightarrow> auth_step cfg st st'"
| "Authenticate cfg (as_db st) tok now = (r, db) \<Longrightarrow> auth_step cfg st (st\<lparr>as_db := db\<rparr>)"
| "auth_step cfg st (st\<lparr>as_db := Logout (as_db st) p\<rparr>)"
| "RevokeSession (as_db st) u i = (e, db) \<Longrightarrow> auth_step cfg st (st\<lparr>as_db := db\<rparr>)"
| "auth_step cfg st (st\<lparr>as_db := RevokeOtherSessions (as_db st) q\<rparr>)"
| "CreateAPIToken cfg (as_db st) p ti f now = (t, db) \<Longrightarrow> auth_step cfg st (st\<lparr>as_db := db\<rparr>)"
| "AuthenticateAPIToken cfg (as_db st) tok m now = (r, db) \<Longrightarrow> auth_step cfg st (st\<lparr>as_db := db\<rparr>)"
| "RevokeAPIToken (as_db st) u i now = (e, db) \<Longrightarrow> auth_step cfg st (st\<lparr>as_db := db\<rparr>)"
| "SetPassword cfg (as_db st) u pw f = (e, db) \<Longrightarrow> auth_step cfg st (st\<lparr>as_db := db\<rparr>)"
| "SetDisabled (as_db st) u d now = (e, db) \<Longrightarrow> auth_step cfg st (st\<lparr>as_db := db\<rparr>)"
| "CreateUser cfg (as_db st) inp v f now = (r, db) \<Longrightarrow> auth_step cfg st (st\<lparr>as_db := db\<rparr>)"
| "IssueVerify cfg (as_db st) usr f now = (r, db) \<Longrightarrow> auth_step cfg st (st\<lparr>as_db := db\<rparr>)"
| "ResetPassword cfg (as_db st) tok pw f now = (e, db) \<Longrightarrow> auth_step cfg st (st\<lparr>as_db := db\<rparr>)"
| "UnlinkIdentity (as_db st) u prov = (e, db) \<Longrightarrow> auth_step cfg st (st\<lparr>as_db := db\<rparr>)"
| "LinkIdentity cfg (as_db st) u x ni now = (e, db) \<Longrightarrow> auth_step cfg st (st\<lparr>as_db := db\<rparr>)"
| "ExternalReauth (as_db st) p x now = (r, db) \<Longrightarrow> auth_step cfg st (st\<lparr>as_db := db\<rparr>)"
| "auth_step cfg st (st\<lparr>as_db := (as_db st)\<lparr>db_now := t\<rparr>\<rparr>)"

lemma auth_step_ok:
  assumes "auth_step cfg st st'" "db_ok (ac_policy cfg) (as_db st)"
  shows "db_ok (ac_policy cfg) (as_db st')"
  using assms
proof (induction rule: auth_step.induct)
  case (23 st t)
  then show ?case by (simp add: db_ok_def)
qed (auto intro: Login_ok ExternalLogin_ok Register_ok Reauth_ok ConfirmVerify_ok IssueReset_ok ChangePassword_ok
    Authenticate_ok Logout_ok RevokeSession_ok RevokeOtherSessions_ok CreateAPIToken_ok AuthenticateAPIToken_ok
    RevokeAPIToken_ok SetPassword_ok SetDisabled_ok CreateUser_ok IssueVerify_ok ResetPassword_ok UnlinkIdentity_ok
    LinkIdentity_ok ExternalReauth_ok)

definition empty_db :: auth_db where
  "empty_db = \<lparr>db_users = [], db_sessions = [], db_tokens = [], db_identities = [], db_emails = [], db_audit = [],
     db_calendars = [], db_lists = [], db_now = 0\<rparr>"

lemma empty_db_ok: "db_ok pol empty_db"
  by (simp add: empty_db_def db_ok_def)

lemma auth_run_ok:
  "(auth_step cfg)\<^sup>*\<^sup>* st st' \<Longrightarrow> db_ok (ac_policy cfg) (as_db st) \<Longrightarrow> db_ok (ac_policy cfg) (as_db st')"
  by (induction rule: rtranclp_induct) (auto intro: auth_step_ok)

subsection \<open>Sessions\<close>

lemma Authenticate_InrD:
  assumes "Authenticate cfg db tok now = (Inr p, db')"
  obtains s where "s \<in> set (db_sessions db)" "se_TokenHash s = ac_HashToken cfg tok" "user_enabled db (se_UserID s)"
    "now < se_ExpiresAt s" "now < se_AbsoluteExpiresAt s" "pr_UserID p = se_UserID s" "pr_SessionID p = se_ID s"
    "pr_CSRFSecret p = se_CSRFSecret s"
    "pr_ExpiresAt p = se_ExpiresAt s \<or> pr_ExpiresAt p = Extend (ac_policy cfg) now (se_AbsoluteExpiresAt s)"
  using assms
  by (fastforce simp: Authenticate_def SessionByTokenHash_def Let_def dest: find_SomeD split: sum.splits if_splits)

lemma StartSession_authenticates:
  assumes start: "StartSession cfg db u m f now = (Inr sess, db')"
    and en: "user_enabled db (us_ID u)" and t: "t < se_ExpiresAt sess"
  shows "se_UserID sess = us_ID u \<and>
    (\<exists>p db''. Authenticate cfg (audit db' i a) (fr_token f) t = (Inr p, db'') \<and> pr_UserID p = us_ID u \<and> pr_SessionID p = se_ID sess)"
proof -
  obtain e x where n: "NewExpiry (ac_policy cfg) now = (e, x)" by fastforce
  from start have sess: "se_UserID sess = us_ID u" "se_TokenHash sess = ac_HashToken cfg (fr_token f)"
      "se_ExpiresAt sess = e" "se_AbsoluteExpiresAt sess = x"
    and new: "\<not> list_ex (\<lambda>y. se_TokenHash y = se_TokenHash sess) (db_sessions db)"
    and db': "db' = db\<lparr>db_sessions := db_sessions db @ [sess]\<rparr>"
    by (auto simp: StartSession_def CreateSession_def n Let_def list_ex_iff split: if_splits prod.splits option.splits)
  have en': "user_enabled (audit db' i a) = user_enabled db"
    by (simp add: db' user_enabled_def audit_def fun_eq_iff)
  have "SessionByTokenHash (audit db' i a) (ac_HashToken cfg (fr_token f)) = Inr sess"
    unfolding SessionByTokenHash_def en'
    using find_last [of "\<lambda>s. se_TokenHash s = ac_HashToken cfg (fr_token f) \<and> user_enabled db (se_UserID s)" "db_sessions db" sess]
      new sess en by (auto simp: db' audit_def list_ex_iff)
  then show ?thesis using t sess NewExpiry_le [OF n] by (auto simp: Authenticate_def Let_def)
qed

lemma list_ex_map: "(\<And>x. P (g x) = P x) \<Longrightarrow> list_ex P (map g xs) = list_ex P xs"
  by (induction xs) simp_all

lemma user_enabled_upgrade: "user_enabled (upgradeHash cfg db i pw f) j = user_enabled db j"
  unfolding user_enabled_def upgradeHash_def SetPasswordHash_def update_user_def by (auto intro!: list_ex_map split: if_splits)

lemma Login_InrD:
  assumes "Login cfg st em pw m f now = (Inr sess, st')"
  obtains u r db1 db2 where "u \<in> set (db_users (as_db st))" "to_lower (us_Email u) = to_lower (to_lower (trim_space em))"
    "HasPassword u" "\<not> Disabled u" "ac_verify cfg \<longrightarrow> Verified u"
    "Verify_password (ac_kdf cfg) (ac_params cfg) pw (us_PasswordHash u) = Some (True, r)"
    "\<And>j. user_enabled db1 j = user_enabled (as_db st) j"
    "StartSession cfg db1 u m f now = (Inr sess, db2)" "as_db st' = audit db2 (us_ID u) ''login''"
proof -
  from assms obtain u r where u: "UserByEmail (as_db st) (to_lower (trim_space em)) = Inr u" "HasPassword u"
      "verify_pw cfg pw u = Inr (True, r)" "\<not> Disabled u" "ac_verify cfg \<longrightarrow> Verified u"
    and s: "\<exists>db2. StartSession cfg (if r then upgradeHash cfg (as_db st) (us_ID u) pw f else as_db st) u m f now = (Inr sess, db2) \<and>
      as_db st' = audit db2 (us_ID u) ''login''"
    by (auto simp: Login_def Let_def split: prod.splits option.splits sum.splits if_splits)
  then obtain db2 where s: "StartSession cfg (if r then upgradeHash cfg (as_db st) (us_ID u) pw f else as_db st) u m f now = (Inr sess, db2)"
      "as_db st' = audit db2 (us_ID u) ''login''" by blast
  show ?thesis
    by (rule that [OF _ _ u(2,4,5) _ _ s])
      (use u in \<open>auto simp: UserByEmail_def verify_pw_def user_enabled_upgrade dest: find_SomeD split: option.splits\<close>)
qed

text \<open>
  C6.  Logging in needs the right password of an enabled account, and works: a login that succeeds has
  found an account with the given address whose stored hash the password fits, that is not disabled
  and, where addresses must be confirmed, is confirmed; and from then on the token handed out is
  accepted for exactly this user until the session expires.
\<close>

theorem login_sound:
  assumes "Login cfg st em pw m f now = (Inr sess, st')"
  shows "\<exists>u \<in> set (db_users (as_db st)).
    to_lower (us_Email u) = to_lower (to_lower (trim_space em)) \<and> \<not> Disabled u \<and> (ac_verify cfg \<longrightarrow> Verified u) \<and>
    (\<exists>r. Verify_password (ac_kdf cfg) (ac_params cfg) pw (us_PasswordHash u) = Some (True, r)) \<and>
    se_UserID sess = us_ID u \<and>
    (\<forall>t < se_ExpiresAt sess. \<exists>p db'. Authenticate cfg (as_db st') (fr_token f) t = (Inr p, db') \<and>
       pr_UserID p = us_ID u \<and> pr_SessionID p = se_ID sess)"
proof (rule Login_InrD [OF assms], goal_cases)
  case (1 u r db1 db2)
  have en: "user_enabled db1 (us_ID u)" using 1 by (auto simp: user_enabled_def Disabled_def list_ex_iff)
  have "se_UserID sess = us_ID u"
    using 1(8) by (auto simp: StartSession_def Let_def split: prod.splits option.splits)
  then show ?case using 1 StartSession_authenticates [OF 1(8) en] by (intro bexI [of _ u]) auto
qed

text \<open>
  C7.  Sessions end.  In every state the service reaches from an empty database, by any requests in any
  order, addresses are unique up to case, an external identity belongs to one account, and a session
  that is accepted is one the database holds for an enabled user, not older than the absolute lifetime,
  which no use of it extends.
\<close>

theorem sessions_end:
  assumes "(auth_step cfg)\<^sup>*\<^sup>* st st'" "as_db st = empty_db"
  shows "distinct (map (\<lambda>u. to_lower (us_Email u)) (db_users (as_db st'))) \<and>
    distinct (map (\<lambda>i. (id_Provider i, id_Subject i)) (db_identities (as_db st'))) \<and>
    (\<forall>tok now p db. Authenticate cfg (as_db st') tok now = (Inr p, db) \<longrightarrow>
       (\<exists>s \<in> set (db_sessions (as_db st')). se_TokenHash s = ac_HashToken cfg tok \<and> pr_UserID p = se_UserID s \<and>
          user_enabled (as_db st') (se_UserID s) \<and> now < se_ExpiresAt s \<and>
          now < se_CreatedAt s + pol_AbsoluteTTL (ac_policy cfg) \<and>
          pr_ExpiresAt p \<le> se_CreatedAt s + pol_AbsoluteTTL (ac_policy cfg)))"
proof -
  have ok: "db_ok (ac_policy cfg) (as_db st')" using auth_run_ok [OF assms(1)] assms(2) empty_db_ok by simp
  have "\<exists>s \<in> set (db_sessions (as_db st')). se_TokenHash s = ac_HashToken cfg tok \<and> pr_UserID p = se_UserID s \<and>
          user_enabled (as_db st') (se_UserID s) \<and> now < se_ExpiresAt s \<and>
          now < se_CreatedAt s + pol_AbsoluteTTL (ac_policy cfg) \<and>
          pr_ExpiresAt p \<le> se_CreatedAt s + pol_AbsoluteTTL (ac_policy cfg)"
    if "Authenticate cfg (as_db st') tok now = (Inr p, db)" for tok now p db
  proof (rule Authenticate_InrD [OF that], goal_cases)
    case (1 s)
    then have "session_ok (ac_policy cfg) s" using ok by (simp add: db_ok_def list_all_iff)
    then show ?case using 1 Extend_le [of "ac_policy cfg" now "se_AbsoluteExpiresAt s"]
      by (intro bexI [of _ s]) (auto simp: session_ok_def)
  qed
  then show ?thesis using ok unfolding db_ok_def by blast
qed

subsection \<open>Revocation\<close>

lemma no_session_Inl:
  assumes "\<forall>s \<in> set (db_sessions db). se_UserID s \<noteq> u" "Authenticate cfg db tok now = (r, db')"
  shows "\<forall>p. r = Inr p \<longrightarrow> pr_UserID p \<noteq> u"
  using assms by (metis Authenticate_InrD)

lemma DeleteUserSessions_all:
  "list_all (session_ok pol) (db_sessions db) \<Longrightarrow> s \<in> set (db_sessions (DeleteUserSessions db u NilID)) \<Longrightarrow> se_UserID s \<noteq> u"
  by (auto simp: DeleteUserSessions_def list_all_iff session_ok_def)

lemma store_sessions [simp]:
  "db_sessions (snd (SetEmailVerified db i at)) = db_sessions db"
  "db_sessions (audit db i a) = db_sessions db"
  "SetPasswordHash db i h = (e, db') \<Longrightarrow> db_sessions db' = db_sessions db"
  "SetUserDisabled db i d = (e, db') \<Longrightarrow> db_sessions db' = db_sessions db"
  "ConsumeEmailToken db p h at = (r, db') \<Longrightarrow> db_sessions db' = db_sessions db"
  by (auto simp: SetEmailVerified_def SetPasswordHash_def SetUserDisabled_def ConsumeEmailToken_def update_user_def audit_def
      split: if_splits option.splits)

lemma revoked_all:
  assumes "RevokeAPIToken_row db u i at = (None, db')" "t \<in> set (db_tokens db')" "at_UserID t = u" "at_ID t = i"
  shows "at_RevokedAt t \<noteq> None"
proof -
  let ?g = "\<lambda>x. if at_ID x = i \<and> at_UserID x = u \<and> at_RevokedAt x = None then x\<lparr>at_RevokedAt := Some at\<rparr> else x"
  from assms(1) have "db' = db\<lparr>db_tokens := map ?g (db_tokens db)\<rparr>"
    by (simp add: RevokeAPIToken_row_def Let_def split: if_splits)
  then have "db_tokens db' = map ?g (db_tokens db)" by simp
  then have "t \<in> ?g ` set (db_tokens db)" using assms(2) by (simp only: set_map)
  then obtain x where "t = ?g x" by blast
  then show ?thesis using assms(3,4) by (simp split: if_splits)
qed

lemma disabled_all:
  assumes "SetUserDisabled db u (Some at) = (None, db')"
  shows "\<not> user_enabled db' u"
  using assms by (auto simp: SetUserDisabled_def update_user_def user_enabled_def list_ex_iff split: if_splits)

lemma AuthenticateAPIToken_InrD:
  assumes "AuthenticateAPIToken cfg db tok m now = (Inr p, db')"
  obtains t pre where "ParseAPIToken tok = Some pre" "t \<in> set (db_tokens db)" "at_Prefix t = pre" "user_enabled db (at_UserID t)"
    "at_SecretHash t = ac_HashToken cfg tok" "APIToken_Active t now" "pr_UserID p = at_UserID t" "pr_TokenID p = at_ID t"
    "pr_Scopes p = storedScopes (at_Scopes t)" "pr_SessionID p = NilID"
  using assms
  by (fastforce simp: AuthenticateAPIToken_def APITokenByPrefix_def Let_def dest: find_SomeD split: option.splits sum.splits if_splits)

lemma ConsumeEmailToken_InrD:
  "ConsumeEmailToken db p h at = (Inr t, db') \<Longrightarrow> \<exists>et. find (usable p h at) (db_emails db) = Some et \<and> et_UserID t = et_UserID et"
  by (auto simp: ConsumeEmailToken_def split: option.splits)

lemma ResetPassword_NoneD:
  assumes "ResetPassword cfg db link pw f now = (None, db')"
  obtains et where "find (usable PurposeReset (ac_HashToken cfg link) now) (db_emails db) = Some et"
    "db_sessions db' = db_sessions (DeleteUserSessions db (et_UserID et) NilID)"
proof -
  from assms obtain t db1 db2 where c: "ConsumeEmailToken db PurposeReset (ac_HashToken cfg link) now = (Inr t, db1)"
    and h: "SetPasswordHash db1 (et_UserID t) (Hash (ac_kdf cfg) (ac_params cfg) pw (fr_salt f)) = (None, db2)"
    and d: "db_sessions db' = db_sessions (DeleteUserSessions db2 (et_UserID t) NilID)"
    unfolding ResetPassword_def Let_def by (auto split: prod.splits option.splits sum.splits)
  from ConsumeEmailToken_InrD [OF c] obtain et where "find (usable PurposeReset (ac_HashToken cfg link) now) (db_emails db) = Some et"
    "et_UserID t = et_UserID et" by blast
  moreover have "db_sessions db2 = db_sessions db" using store_sessions(3) [OF h] store_sessions(5) [OF c] by simp
  ultimately show ?thesis using that d by (simp add: DeleteUserSessions_def)
qed


end
