(* ===== verification/Auth_Access.thy ===== *)
theory Auth_Access
  imports Auth_Safety
begin

text \<open>
  The life of a reset link, the way a request takes through the guards of an API route, and the
  concrete accounts on which the properties of authentication are exercised.
\<close>

subsection \<open>Reset links\<close>

lemma store_emails:
  "db_emails (audit db i a) = db_emails db" "db_emails (DeleteUserSessions db i x) = db_emails db"
  "db_emails (snd (update_user db i P g)) = db_emails db"
  by (simp_all add: audit_def DeleteUserSessions_def update_user_def)

lemma consume_None:
  assumes "\<forall>t \<in> set (db_emails db). \<not> usable p h at t"
  shows "ConsumeEmailToken db p h at = (Inl ErrNoRow, db)"
proof -
  have "find (usable p h at) (db_emails db) = None" using assms find_None_iff by metis
  then show ?thesis by (simp add: ConsumeEmailToken_def)
qed

lemma issue_InrD:
  assumes "issue cfg db u p ttl f now = (Inr tok, db')"
  obtains es new where "tok = fr_token f" "db' = db\<lparr>db_emails := es @ [new]\<rparr>"
    "\<forall>t \<in> set es. et_TokenHash t \<noteq> ac_HashToken cfg tok" "\<forall>t \<in> set es. \<not> (et_UserID t = u \<and> et_Purpose t = p)"
    "et_TokenHash new = ac_HashToken cfg tok" "et_Purpose new = p" "et_UserID new = u" "et_UsedAt new = None"
    "et_ExpiresAt new = now + ttl"
proof (rule that)
  let ?es = "filter (\<lambda>t. \<not> (et_UserID t = u \<and> et_Purpose t = p)) (db_emails db)"
  let ?new = "\<lparr>et_ID = fr_id f, et_UserID = u, et_Purpose = p, et_TokenHash = ac_HashToken cfg (fr_token f),
         et_CreatedAt = db_now db, et_ExpiresAt = now + ttl, et_UsedAt = None\<rparr>"
  show "tok = fr_token f" "db' = db\<lparr>db_emails := ?es @ [?new]\<rparr>" "\<forall>t \<in> set ?es. et_TokenHash t \<noteq> ac_HashToken cfg tok"
    using assms by (auto simp: issue_def Let_def CreateEmailToken_def DeleteEmailTokens_def list_ex_iff split: if_splits)
  show "et_TokenHash ?new = ac_HashToken cfg tok" using \<open>tok = fr_token f\<close> by simp
qed auto

lemma consume_new:
  assumes "db_emails db = es @ [new]" "\<forall>t \<in> set es. et_TokenHash t \<noteq> h" "usable p h at new"
  shows "ConsumeEmailToken db p h at = (Inr (new\<lparr>et_UsedAt := Some at\<rparr>), db\<lparr>db_emails := es @ [new\<lparr>et_UsedAt := Some at\<rparr>]\<rparr>)"
proof -
  have *: "\<forall>t \<in> set es. \<not> usable p h at t" using assms(2) by (auto simp: usable_def)
  then have "find (usable p h at) (es @ [new]) = Some new" using assms(3) by (intro find_last) (auto simp: list_ex_iff)
  moreover have "map (\<lambda>x. if usable p h at x then x\<lparr>et_UsedAt := Some at\<rparr> else x) es = es" using * by (intro map_idI) auto
  ultimately show ?thesis using assms(1,3) by (simp add: ConsumeEmailToken_def)
qed

lemma consume_spent:
  assumes "db_emails db = es @ [new\<lparr>et_UsedAt := Some at\<rparr>]" "\<forall>t \<in> set es. et_TokenHash t \<noteq> h"
  shows "ConsumeEmailToken db p h t = (Inl ErrNoRow, db)"
  by (rule consume_None) (use assms in \<open>auto simp: usable_def\<close>)

lemma Reset_bad: "ConsumeEmailToken db PurposeReset (ac_HashToken cfg tok) t = (Inl ErrNoRow, db) \<Longrightarrow>
    ResetPassword cfg db tok pw f t = (Some ErrBadToken, db)"
  by (simp add: ResetPassword_def)

lemma SetPasswordHash_hit:
  "u \<in> set (db_users db) \<Longrightarrow> SetPasswordHash db (us_ID u) h =
     (None, snd (update_user db (us_ID u) (\<lambda>_. True) (\<lambda>u. u\<lparr>us_PasswordHash := h\<rparr>)))"
  by (auto simp: SetPasswordHash_def update_user_def list_ex_iff)


subsection \<open>The guards of an API route\<close>

lemma Authenticate_frame:
  assumes "Authenticate cfg db tok now = (r, db')"
  shows "db_users db' = db_users db" and "db_tokens db' = db_tokens db"
  using assms
  by (auto simp: Authenticate_def DeleteSession_def TouchSession_def Let_def split: sum.splits if_splits)

lemma Session_guard_ServedD:
  assumes "Session_guard g db r now = (Served q, c, db')"
  shows "db_users db' = db_users db \<and> db_tokens db' = db_tokens db \<and>
    (\<forall>p. q = Some p \<longrightarrow> (\<exists>tok. ReadToken (rq_Cookie r) = Some tok \<and> Authenticate (gd_auth g) db tok now = (Inr p, db')))"
  using assms
  by (auto simp: Session_guard_def dest: Authenticate_frame split: option.splits prod.splits sum.splits if_splits)

lemma API_guard_ServedD:
  assumes "API_guard g st r p now = (Served q, st')"
  shows "(\<exists>tok. BearerToken r = Some tok \<and>
        (\<exists>x db'. q = Some x \<and> AuthenticateAPIToken (gd_auth g) (gs_db st) tok (MetaFrom r) now = (Inr x, db'))) \<or>
    (BearerToken r = None \<and> q = p \<and> (\<exists>x. p = Some x \<and> (IsSafeMethod (rq_Method r) \<or>
        CheckOrigin r (gd_origin g) = None \<and> VerifyCSRF (gd_prims g) (pr_CSRFSecret x) (rq_CSRFHeader r))))"
proof (cases "BearerToken r")
  case None
  then show ?thesis using assms by (auto simp: API_guard_def split: option.splits if_splits)
next
  case (Some tok)
  then have "bearer g st r tok now = (Served q, st')" using assms by (simp add: API_guard_def)
  then show ?thesis using Some
    unfolding bearer_def Let_def by (auto split: prod.splits sum.splits if_splits)
qed

lemma api_route_ServedD:
  assumes "api_route g st lim scope r now = (Served q, st', lim')"
  obtains p c db st2 where "Session_guard g (gs_db st) r now = (Served p, c, db)"
    "API_guard g (st\<lparr>gs_db := db\<rparr>) r p now = (Served q, st2)" "q \<noteq> None" "Can q scope"
  using assms unfolding api_route_def Let_def
  by (auto simp: RequireScope_def split: prod.splits outcome.splits sum.splits if_splits)

text \<open>
  C4.  Who gets through to an API route.  A request is served only for an enabled user and with the scope
  of the route: either with a bearer token that is stored, unrevoked and unexpired, and whose own
  scopes allow it, or without one but with the cookie of a live session, and then, for a method that
  changes something, only from the same origin and with an anti-forgery token of that very session.
\<close>

theorem api_route_sound:
  assumes "api_route g st lim scope r now = (Served q, st', lim')"
  shows "\<exists>p. q = Some p \<and> user_enabled (gs_db st) (pr_UserID p) \<and>
    (case BearerToken r of
       Some tok \<Rightarrow> \<exists>t \<in> set (db_tokens (gs_db st)). at_SecretHash t = ac_HashToken (gd_auth g) tok \<and> APIToken_Active t now \<and>
         pr_UserID p = at_UserID t \<and> Allows (storedScopes (at_Scopes t)) scope
     | None \<Rightarrow> \<exists>tok. \<exists>s \<in> set (db_sessions (gs_db st)). ReadToken (rq_Cookie r) = Some tok \<and>
         se_TokenHash s = ac_HashToken (gd_auth g) tok \<and> now < se_ExpiresAt s \<and> pr_UserID p = se_UserID s \<and>
         (IsSafeMethod (rq_Method r) \<or> CheckOrigin r (gd_origin g) = None \<and>
            VerifyCSRF (gd_prims g) (se_CSRFSecret s) (rq_CSRFHeader r)))"
proof (rule api_route_ServedD [OF assms], goal_cases)
  case (1 p c db st2)
  note frame = Session_guard_ServedD [OF 1(1)]
  from frame have en: "user_enabled db = user_enabled (gs_db st)" by (simp add: user_enabled_def fun_eq_iff)
  show ?case
  proof (cases "BearerToken r")
    case (Some tok)
    then obtain x db' where x: "q = Some x" "AuthenticateAPIToken (gd_auth g) db tok (MetaFrom r) now = (Inr x, db')"
      using API_guard_ServedD [OF 1(2)] by auto
    show ?thesis
    proof (rule AuthenticateAPIToken_InrD [OF x(2)], goal_cases)
      case (1 t pre)
      moreover have "Allows (storedScopes (at_Scopes t)) scope"
        using \<open>Can q scope\<close> x(1) 1(9,10) by (auto simp: Can_def IsSession_def split: if_splits)
      ultimately show ?thesis using x(1) Some frame en by auto
    qed
  next
    case None
    then obtain x where x: "q = p" "p = Some x" "IsSafeMethod (rq_Method r) \<or>
        CheckOrigin r (gd_origin g) = None \<and> VerifyCSRF (gd_prims g) (pr_CSRFSecret x) (rq_CSRFHeader r)"
      using API_guard_ServedD [OF 1(2)] by auto
    then obtain tok where tok: "ReadToken (rq_Cookie r) = Some tok" "Authenticate (gd_auth g) (gs_db st) tok now = (Inr x, db)"
      using frame by auto
    show ?thesis
      by (rule Authenticate_InrD [OF tok(2)]) (use x tok None in auto)
  qed
qed

subsection \<open>Concrete accounts\<close>

definition demo_kdf :: kdf where
  "demo_kdf pw salt p = take 16 (pw @ replicate 16 (CHR ''k''))"

definition demo_params :: Params where
  "demo_params = \<lparr>pa_Memory = 1024, pa_Time = 3, pa_Threads = 2, pa_SaltLen = 9, pa_KeyLen = 16\<rparr>"

definition demo_cfg :: auth_cfg where
  "demo_cfg = \<lparr>ac_policy = \<lparr>pol_TTL = hour, pol_AbsoluteTTL = 24 * hour, pol_Secure = True\<rparr>,
     ac_reg = \<lparr>reg_Enabled = True, reg_AllowedDomains = [], reg_PasswordEnabled = True, reg_GoogleEnabled = False\<rparr>,
     ac_minLen = 10, ac_defaultTZ = ''UTC'', ac_verify = False, ac_params = demo_params, ac_kdf = demo_kdf,
     ac_HashToken = (\<lambda>t. t), ac_ParseAddress = (\<lambda>a. Some ([], a)), ac_id_text = (\<lambda>i. ''u''), ac_zones = (\<lambda>z. None)\<rparr>"

definition demo_limiter :: Limiter where
  "demo_limiter = \<lparr>limit = 2, period = 10, interval = 5, tat = [], calls = 1, lastSweep = 0\<rparr>"

definition demo_meta :: Meta where
  "demo_meta = \<lparr>me_IP = ''::1'', me_UserAgent = ''ua''\<rparr>"

definition demo_fresh :: fresh where
  "demo_fresh = \<lparr>fr_token = replicate 43 (CHR ''t''), fr_secret = replicate 43 (CHR ''s''), fr_id = 7, fr_salt = ''nine salt'',
     fr_prefix = replicate 12 (CHR ''p'')\<rparr>"

definition demo_user :: User where
  "demo_user = \<lparr>us_ID = 3, us_Email = ''a@b.org'', us_EmailVerifiedAt = None,
     us_PasswordHash = Hash demo_kdf demo_params ''correct horse'' ''nine salt'', us_DisplayName = [], us_Timezone = ''UTC'',
     us_WeekStart = 1, us_TimeFormat = ''24h'', us_DefaultView = ''week'', us_SleepEnabled = False, us_DedupPolicy = ''flag'',
     us_DateOnlyReminder = 540, us_CreatedAt = 0, us_UpdatedAt = 0, us_DisabledAt = None\<rparr>"

definition demo_state :: auth_state where
  "demo_state = \<lparr>as_db = empty_db\<lparr>db_users := [demo_user]\<rparr>, as_loginIP = demo_limiter, as_loginEmail = demo_limiter\<rparr>"

definition demo_session :: Session where
  "demo_session = \<lparr>se_ID = 7, se_UserID = 3, se_TokenHash = replicate 43 (CHR ''t''), se_CSRFSecret = replicate 43 (CHR ''s''),
     se_IP = ''::1'', se_UserAgent = ''ua'', se_CreatedAt = 0, se_LastSeenAt = 0, se_ExpiresAt = hour,
     se_AbsoluteExpiresAt = 24 * hour, se_ReauthAt = Some 0\<rparr>"

lemma demo_verify: "Verify_password demo_kdf demo_params ''correct horse'' (us_PasswordHash demo_user) = Some (True, False)"
  using decode_Hash [of demo_params "''nine salt''" demo_kdf "''correct horse''"]
  by (simp add: Verify_password_def demo_user_def demo_params_def demo_kdf_def params_check_def)

lemma demo_has_password: "HasPassword demo_user"
  by (simp add: HasPassword_def demo_user_def Hash_def encode_def)

lemma demo_check: "limit_check demo_limiter k 0 = (None, demo_limiter\<lparr>tat := [(k, 5)], calls := 2\<rparr>)"
  by (simp add: limit_check_def Check_limit_def Allow_def AllowN_def sweep_def Let_def sweepEvery_def maxKeys_def demo_limiter_def
      remaining_def wrap64_def min_int64_def max_int64_def go_div_def time_sub_def sat64_def zero_time_def second_def AList.update.simps)

lemma demo_email: "to_lower (trim_space '' A@B.org'') = ''a@b.org''" "to_lower ''a@b.org'' = ''a@b.org''"
  "isl (NormalizeEmail demo_cfg ''a@b.org'') = False \<and> projr (NormalizeEmail demo_cfg ''a@b.org'') = ''a@b.org''"
  by code_simp+

lemma demo_login:
  "\<exists>st'. Login demo_cfg demo_state '' A@B.org'' ''correct horse'' demo_meta demo_fresh 0 = (Inr demo_session, st')"
proof -
  have "UserByEmail (empty_db\<lparr>db_users := [demo_user]\<rparr>) ''a@b.org'' = Inr demo_user"
    by (simp add: UserByEmail_def or_not_found_def demo_user_def demo_email)
  then show ?thesis
    using demo_verify demo_has_password
    by (simp add: Login_def Let_def check_ip_def check_email_def demo_state_def demo_check demo_email(1) verify_pw_def demo_cfg_def
        MaxPasswordBytes_def Disabled_def StartSession_def NewExpiry_def Extend_def CreateSession_def empty_db_def
        demo_session_def demo_fresh_def demo_meta_def truncate_text_def maxUserAgent_def)
      (simp add: demo_user_def hour_def minute_def second_def)
qed

lemma login_sound_witness:
  "\<exists>st' p db'. Login demo_cfg demo_state '' A@B.org'' ''correct horse'' demo_meta demo_fresh 0 = (Inr demo_session, st') \<and>
     Authenticate demo_cfg (as_db st') (fr_token demo_fresh) minute = (Inr p, db') \<and> pr_UserID p = 3"
proof -
  obtain st' where st': "Login demo_cfg demo_state '' A@B.org'' ''correct horse'' demo_meta demo_fresh 0 = (Inr demo_session, st')"
    using demo_login by blast
  have "minute < se_ExpiresAt demo_session" "se_UserID demo_session = 3"
    by (simp_all add: demo_session_def hour_def minute_def second_def)
  then show ?thesis using login_sound [OF st'] st' by auto
qed

definition demo_input :: RegisterInput where
  "demo_input = \<lparr>ri_Email = ''a@b.org'', ri_Password = ''correct horse'', ri_DisplayName = [], ri_Timezone = []\<rparr>"

lemma sessions_end_witness:
  "\<exists>r db. CreateUser demo_cfg empty_db demo_input True demo_fresh 0 = (r, db) \<and>
     distinct (map (\<lambda>u. to_lower (us_Email u)) (db_users db))"
proof -
  obtain r db where r: "CreateUser demo_cfg empty_db demo_input True demo_fresh 0 = (r, db)" by fastforce
  let ?st = "demo_state\<lparr>as_db := empty_db\<rparr>"
  have "auth_step demo_cfg ?st (?st\<lparr>as_db := db\<rparr>)" by (rule auth_step.intros(17)) (use r in simp)
  then show ?thesis using sessions_end [of demo_cfg ?st "?st\<lparr>as_db := db\<rparr>"] r by auto
qed

definition demo_db :: auth_db where
  "demo_db = empty_db\<lparr>db_users := [demo_user], db_sessions := [demo_session]\<rparr>"

lemma demo_db_ok: "db_ok (ac_policy demo_cfg) demo_db"
  by (simp add: db_ok_def demo_db_def empty_db_def demo_session_def session_ok_def demo_cfg_def NilID_def hour_def minute_def second_def)



definition demo_guard :: guard_cfg where
  "demo_guard = \<lparr>gd_auth = demo_cfg, gd_origin = ''https://c.org'', gd_prims = demo_primitives\<rparr>"

definition demo_request :: request where
  "demo_request = \<lparr>rq_Method = ''GET'', rq_SecFetchSite = [], rq_Origin = [], rq_Authorization = [], rq_CSRFHeader = [],
     rq_CSRFField = [], rq_Cookie = Some (replicate 43 (CHR ''t'')), rq_IP = ''::1'', rq_UserAgent = []\<rparr>"

lemma demo_request_parts: "BearerToken demo_request = None" "ReadToken (rq_Cookie demo_request) = Some (replicate 43 (CHR ''t''))"
  "IsSafeMethod (rq_Method demo_request)"
  by code_simp+

lemma demo_route:
  "\<exists>q st' lim'. api_route demo_guard \<lparr>gs_db = demo_db, gs_failures = None\<rparr> demo_limiter ''todos:read'' demo_request 0 = (Served q, st', lim')"
proof -
  have a: "Authenticate demo_cfg demo_db (replicate 43 (CHR ''t'')) 0 = (Inr \<lparr>pr_UserID = 3, pr_SessionID = 7, pr_TokenID = NilID, pr_Scopes = [],
      pr_CSRFSecret = replicate 43 (CHR ''s''), pr_ReauthAt = 0, pr_ExpiresAt = hour, pr_Refreshed = False\<rparr>, demo_db)"
    by (simp add: Authenticate_def SessionByTokenHash_def or_not_found_def demo_db_def empty_db_def demo_session_def user_enabled_def demo_user_def
        demo_cfg_def NeedsTouch_def TouchInterval_def time_sub_def sat64_def hour_def minute_def second_def min_int64_def max_int64_def)
  have "\<exists>d l. Allow demo_limiter k 0 = Inr (d, l) \<and> Allowed d" for k
    using demo_check [of k] by (auto simp: limit_check_def Check_limit_def split: sum.splits prod.splits if_splits option.splits)
  then obtain d l where al: "Allow demo_limiter (''user:'' @ ''u'') 0 = Inr (d, l)" "Allowed d" by blast
  show ?thesis
    using al
    by (simp add: api_route_def Session_guard_def demo_request_parts demo_guard_def a API_guard_def ByPrincipal_def
        RequireScope_def Can_def IsSession_def NilID_def)
      (simp add: demo_cfg_def RequireScope_def Can_def IsSession_def NilID_def)
qed

lemma api_route_sound_witness:
  "\<exists>q st' lim'. api_route demo_guard \<lparr>gs_db = demo_db, gs_failures = None\<rparr> demo_limiter ''todos:read'' demo_request 0 = (Served q, st', lim') \<and>
     user_enabled demo_db (pr_UserID (the q))"
proof -
  obtain q st' lim' where "api_route demo_guard \<lparr>gs_db = demo_db, gs_failures = None\<rparr> demo_limiter ''todos:read'' demo_request 0 = (Served q, st', lim')"
    using demo_route by blast
  then show ?thesis using api_route_sound by force
qed

end
