(* ===== verification/Recurrence.thy ===== *)
theory Recurrence
  imports Domain
begin

text \<open>
  Recurring events, \<open>internal/recurrence\<close>: rules (\<open>rule.go\<close>) and series (\<open>series.go\<close>).

  The rule language itself belongs to the library \<open>rrule-go\<close>.  It enters as a record of functions: the
  parser of a rule in a zone, the check that builds a rule, the printer, the search for the next time,
  and the iterator as the function from the number of earlier calls to the next time.  What the
  program relies on is the predicate \<open>rrule_ok\<close>: an iterator yields strictly increasing times, none
  before the start of the rule, none after its end, and no more than its count.
\<close>

subsection \<open>The library\<close>

datatype frequency = YEARLY | MONTHLY | WEEKLY | DAILY | HOURLY | MINUTELY | SECONDLY

record roption =
  ro_Freq :: frequency
  ro_Dtstart :: go_time
  ro_Interval :: int
  ro_Count :: int
  ro_Until :: go_time
  ro_Byhour :: "int list"
  ro_Byminute :: "int list"
  ro_Bysecond :: "int list"
  ro_Other :: string

record rrule_lib =
  StrToROption :: "string \<Rightarrow> location \<Rightarrow> roption option"
  NewRRule :: "roption \<Rightarrow> bool"
  rr_next :: "roption \<Rightarrow> location \<Rightarrow> nat \<Rightarrow> go_time option"
  RRuleString :: "roption \<Rightarrow> string"
  rr_After :: "roption \<Rightarrow> location \<Rightarrow> go_time \<Rightarrow> go_time"

definition iter_ok :: "(nat \<Rightarrow> go_time option) \<Rightarrow> bool" where
  "iter_ok it \<longleftrightarrow> (\<forall>k t. it (Suc k) = Some t \<longrightarrow> (\<exists>s. it k = Some s \<and> s < t))"

definition rrule_ok :: "rrule_lib \<Rightarrow> bool" where
  "rrule_ok lib \<longleftrightarrow> (\<forall>opt loc. iter_ok (rr_next lib opt loc) \<and>
     (\<forall>k t. rr_next lib opt loc k = Some t \<longrightarrow> ro_Dtstart opt \<le> t \<and>
        (ro_Until opt \<noteq> zero_time \<longrightarrow> t \<le> ro_Until opt) \<and> (ro_Count opt > 0 \<longrightarrow> int k < ro_Count opt)))"

subsection \<open>Rules\<close>

definition pad4 :: "int \<Rightarrow> string" where
  "pad4 y = (if y < 0 then ''-'' else []) @ (let s = nat_digits (nat \<bar>y\<bar>) in replicate (4 - length s) (CHR ''0'') @ s)"

definition format_date :: "location \<Rightarrow> go_time \<Rightarrow> string" where
  "format_date loc t = (case time_date loc t of (y, m, d) \<Rightarrow> pad4 y @ ''-'' @ pad2 m @ ''-'' @ pad2 d)"

definition format_stamp :: "go_time \<Rightarrow> string" where
  "format_stamp t =
     (case time_date UTC t of (y, m, d) \<Rightarrow> case time_clock UTC t of (hh, mm, ss) \<Rightarrow>
        pad4 y @ pad2 m @ pad2 d @ ''T'' @ pad2 hh @ pad2 mm @ pad2 ss @ ''Z'')"

record Rule =
  ru_Freq :: string
  ru_Interval :: int
  ru_Until :: "go_time option"
  ru_Count :: int

definition Rule0 :: Rule where
  "Rule0 = \<lparr>ru_Freq = [], ru_Interval = 0, ru_Until = None, ru_Count = 0\<rparr>"

definition freqName :: "frequency \<Rightarrow> string" where
  "freqName f = (case f of DAILY \<Rightarrow> ''DAILY'' | WEEKLY \<Rightarrow> ''WEEKLY'' | MONTHLY \<Rightarrow> ''MONTHLY'' | YEARLY \<Rightarrow> ''YEARLY'' | _ \<Rightarrow> [])"

definition ParseRule :: "rrule_lib \<Rightarrow> string \<Rightarrow> location \<Rightarrow> Rule \<times> bool" where
  "ParseRule lib spec0 loc =
     (let spec = trim_space spec0 in
      if spec = [] then (Rule0, False)
      else case StrToROption lib spec loc of
             None \<Rightarrow> (Rule0, False)
           | Some opt \<Rightarrow>
               let r = \<lparr>ru_Freq = freqName (ro_Freq opt), ru_Interval = (if ro_Interval opt < 1 then 1 else ro_Interval opt),
                        ru_Until = (if ro_Until opt \<noteq> zero_time then Some (ro_Until opt) else None), ru_Count = ro_Count opt\<rparr>
               in (r, ru_Freq r \<noteq> []))"

definition UntilDate :: "location \<Rightarrow> Rule \<Rightarrow> string" where
  "UntilDate loc r = (case ru_Until r of None \<Rightarrow> [] | Some t \<Rightarrow> format_date loc t)"

definition Rule_String :: "Rule \<Rightarrow> go_time \<Rightarrow> location \<Rightarrow> string" where
  "Rule_String r start loc =
     (if ru_Freq r = [] then []
      else join ([''FREQ='' @ ru_Freq r] @
        (if ru_Interval r > 1 then [''INTERVAL='' @ itoa (ru_Interval r)] else []) @
        (if ru_Count r > 0 then [''COUNT='' @ itoa (ru_Count r)]
         else case ru_Until r of None \<Rightarrow> []
              | Some u \<Rightarrow>
                  let e = (case time_date loc u of (y, m, d) \<Rightarrow> go_date loc y m d 23 59 59 0);
                      e' = (if e < start then start else e)
                  in [''UNTIL='' @ format_stamp e'])) '';'')"

definition FreqOf :: "rrule_lib \<Rightarrow> string \<Rightarrow> location \<Rightarrow> string" where
  "FreqOf lib spec loc =
     (case ParseRule lib spec loc of (r, ok) \<Rightarrow> if \<not> ok then [] else if ru_Interval r > 1 then [] else ru_Freq r)"

subsection \<open>Series\<close>

definition maxIterations :: nat where
  "maxIterations = 200000"

definition maxRuleLength :: nat where
  "maxRuleLength = 1000"

definition allDayMargin :: duration where
  "allDayMargin = 14 * hour"

definition ErrTooMany :: go_error where
  "ErrTooMany = Wrap ErrInvalid ''too many occurrences in the range, narrow it''"

definition UnixMicro :: "go_time \<Rightarrow> int" where
  "UnixMicro t = wrap64 (t div 1000)"

record Series =
  sr_Start :: go_time
  sr_loc :: location
  sr_Duration :: duration
  sr_rule :: "roption option"
  sr_extra :: "go_time list"
  sr_excluded :: "int list"

definition dtstart_loc :: "zoneinfo \<Rightarrow> Event \<Rightarrow> location" where
  "dtstart_loc zi e = (if ev_AllDay e then UTC else Event_Zone zi e)"

definition invalid_rule :: go_error where
  "invalid_rule = Other ''is not a valid RRULE''"

definition parseOption :: "rrule_lib \<Rightarrow> string \<Rightarrow> location \<Rightarrow> go_error + roption" where
  "parseOption lib rule0 loc =
     (let rule = trim_space rule0 in
      if length rule > maxRuleLength then Inl (Other ''must be at most 1000 characters'')
      else case StrToROption lib (trim_prefix (to_upper rule) ''RRULE:'') loc of
             None \<Rightarrow> Inl invalid_rule
           | Some opt \<Rightarrow>
               if ro_Freq opt \<in> {HOURLY, MINUTELY, SECONDLY} then Inl (Other ''must repeat daily or less often'')
               else if length (ro_Byhour opt) > 0 \<or> length (ro_Byminute opt) > 0 \<or> length (ro_Bysecond opt) > 0
               then Inl (Other ''BYHOUR, BYMINUTE and BYSECOND are not supported'')
               else if ro_Count opt > 0 \<and> ro_Until opt \<noteq> zero_time then Inl (Other ''cannot combine COUNT and UNTIL'')
               else if ro_Count opt < 0 \<or> ro_Interval opt < 0 then Inl invalid_rule
               else Inr opt)"

definition FromEvent :: "rrule_lib \<Rightarrow> zoneinfo \<Rightarrow> Event \<Rightarrow> go_error + Series" where
  "FromEvent lib zi e =
     (let start = ev_Start e; loc = dtstart_loc zi e;
          s = \<lparr>sr_Start = start, sr_loc = loc, sr_Duration = Duration e, sr_rule = None,
               sr_extra = sort (start # ev_RDate e), sr_excluded = map UnixMicro (ev_ExDate e)\<rparr>
      in if ev_RRule e \<noteq> []
         then (case parseOption lib (ev_RRule e) loc of
                 Inl x \<Rightarrow> Inl x
               | Inr opt \<Rightarrow>
                   let opt' = opt\<lparr>ro_Dtstart := start\<rparr> in
                   if \<not> NewRRule lib opt' then Inl invalid_rule else Inr (s\<lparr>sr_rule := Some opt'\<rparr>))
         else Inr s)"

text \<open>
  The loop of \<open>each\<close>: \<open>steps\<close> counts the calls of the iterator, \<open>cur\<close> is its last answer, \<open>extra\<close> what
  is left of the sorted extra times, \<open>prev\<close> the last time delivered.  The callback works on an
  accumulator and says whether to go on; the first component of the result is the error.
\<close>

function each_loop ::
  "(nat \<Rightarrow> go_time option) \<Rightarrow> (go_time \<Rightarrow> bool) \<Rightarrow> ('a \<Rightarrow> go_time \<Rightarrow> bool \<times> 'a) \<Rightarrow> nat \<Rightarrow> go_time option \<Rightarrow>
   go_time list \<Rightarrow> go_time option \<Rightarrow> 'a \<Rightarrow> bool \<times> 'a" where
  "each_loop it excl fn steps cur extra prev acc =
     (if steps > maxIterations then (True, acc)
      else
        let take_rule = (cur \<noteq> None \<and> (extra = [] \<or> \<not> hd extra < the cur)) in
        if \<not> take_rule \<and> extra = [] then (False, acc)
        else
          let t = (if take_rule then the cur else hd extra);
              steps' = (if take_rule then Suc steps else steps);
              cur' = (if take_rule then it steps else cur);
              extra' = (if take_rule then extra else tl extra)
          in if prev \<noteq> None \<and> \<not> t > the prev then each_loop it excl fn steps' cur' extra' prev acc
             else if excl t then each_loop it excl fn steps' cur' extra' (Some t) acc
             else case fn acc t of
                    (go_on, acc') \<Rightarrow> if \<not> go_on then (False, acc') else each_loop it excl fn steps' cur' extra' (Some t) acc')"
  by pat_completeness auto
termination
  by (relation "measure (\<lambda>(it, excl, fn, steps, cur, extra, prev, acc). (maxIterations + 1 - steps) + length extra)")
    (auto simp: neq_Nil_conv)

declare each_loop.simps [simp del]

definition rule_times :: "rrule_lib \<Rightarrow> Series \<Rightarrow> nat \<Rightarrow> go_time option" where
  "rule_times lib s = (case sr_rule s of None \<Rightarrow> (\<lambda>k. None) | Some opt \<Rightarrow> rr_next lib opt (sr_loc s))"

definition excludes :: "Series \<Rightarrow> go_time \<Rightarrow> bool" where
  "excludes s t \<longleftrightarrow> UnixMicro t \<in> set (sr_excluded s)"

definition each :: "rrule_lib \<Rightarrow> Series \<Rightarrow> ('a \<Rightarrow> go_time \<Rightarrow> bool \<times> 'a) \<Rightarrow> 'a \<Rightarrow> bool \<times> 'a" where
  "each lib s fn acc =
     (let it = rule_times lib s; ruled = (sr_rule s \<noteq> None) in
      each_loop it (excludes s) fn (if ruled then 1 else 0) (if ruled then it 0 else None) (sr_extra s) None acc)"

definition Overlaps_times :: "go_time \<Rightarrow> go_time \<Rightarrow> go_time \<Rightarrow> go_time \<Rightarrow> bool" where
  "Overlaps_times start fin from to =
     (if \<not> start < to then False else if fin > from then True else \<not> fin > start \<and> \<not> start < from)"

definition Between :: "rrule_lib \<Rightarrow> Series \<Rightarrow> go_time \<Rightarrow> go_time \<Rightarrow> int \<Rightarrow> go_error + go_time list" where
  "Between lib s from to limit =
     (case each lib s
        (\<lambda>(out, full) t.
           if \<not> t < to then (False, (out, full))
           else if Overlaps_times t (t + sr_Duration s) from to
                then (if int (length out) \<ge> limit then (False, (out, True)) else (True, (out @ [t], full)))
                else (True, (out, full)))
        ([], False) of
        (err, (out, full)) \<Rightarrow> if err \<or> full then Inl ErrTooMany else Inr out)"

definition Contains :: "rrule_lib \<Rightarrow> Series \<Rightarrow> go_time \<Rightarrow> go_error + bool" where
  "Contains lib s t =
     (case each lib s (\<lambda>found x. (x < t, found \<or> x = t)) False of
        (err, found) \<Rightarrow> if err then Inl ErrTooMany else Inr found)"

function last_loop :: "(nat \<Rightarrow> go_time option) \<Rightarrow> nat \<Rightarrow> go_time \<Rightarrow> go_time option" where
  "last_loop it k lst =
     (if k \<ge> maxIterations then None
      else case it k of None \<Rightarrow> Some lst | Some t \<Rightarrow> last_loop it (Suc k) (if t > lst then t else lst))"
  by pat_completeness auto
termination
  by (relation "measure (\<lambda>(it, k, lst). maxIterations - k)") auto

declare last_loop.simps [simp del]

definition LastStart :: "rrule_lib \<Rightarrow> Series \<Rightarrow> go_time option" where
  "LastStart lib s =
     (let lst = last (sr_extra s) in
      case sr_rule s of
        None \<Rightarrow> Some lst
      | Some opt \<Rightarrow>
          if ro_Until opt \<noteq> zero_time then Some (if ro_Until opt > lst then ro_Until opt else lst)
          else if ro_Count opt = 0 then None
          else last_loop (rule_times lib s) 0 lst)"

definition event_Span :: "rrule_lib \<Rightarrow> zoneinfo \<Rightarrow> Event \<Rightarrow> go_time \<times> go_time option" where
  "event_Span lib zi e =
     (let margin = (if ev_AllDay e then allDayMargin else 0);
          plain = (ev_Start e - margin, Some (ev_End e + margin)) in
      if IsMaster e
      then (case FromEvent lib zi e of
              Inl x \<Rightarrow> plain
            | Inr s \<Rightarrow>
                (case LastStart lib s of
                   None \<Rightarrow> (hd (sr_extra s) - margin, None)
                 | Some lst \<Rightarrow> (hd (sr_extra s) - margin, Some (lst + Duration e + margin))))
      else plain)"

definition Normalize :: "rrule_lib \<Rightarrow> string \<Rightarrow> location \<Rightarrow> go_error + string" where
  "Normalize lib rule loc =
     (case parseOption lib rule loc of
        Inl x \<Rightarrow> Inl x
      | Inr opt \<Rightarrow> if \<not> NewRRule lib opt then Inl invalid_rule else Inr (RRuleString lib opt))"

text \<open>The occurrences of a counted rule before the cut.\<close>

function count_before :: "(nat \<Rightarrow> go_time option) \<Rightarrow> go_time \<Rightarrow> int \<Rightarrow> nat \<Rightarrow> nat" where
  "count_before it at limit n =
     (if \<not> int n < limit then n
      else case it n of None \<Rightarrow> n | Some t \<Rightarrow> if \<not> t < at then n else count_before it at limit (Suc n))"
  by pat_completeness auto
termination
  by (relation "measure (\<lambda>(it, at, limit, n). nat (limit - int n))") auto

declare count_before.simps [simp del]

definition Split :: "rrule_lib \<Rightarrow> zoneinfo \<Rightarrow> Event \<Rightarrow> go_time \<Rightarrow> go_error + string \<times> string" where
  "Split lib zi e at =
     (let loc = dtstart_loc zi e in
      case parseOption lib (ev_RRule e) loc of
        Inl x \<Rightarrow> Inl x
      | Inr opt \<Rightarrow>
          if ro_Count opt = 0
          then Inr (RRuleString lib (opt\<lparr>ro_Until := at - second\<rparr>), RRuleString lib opt)
          else
            let opt' = opt\<lparr>ro_Dtstart := ev_Start e\<rparr> in
            if \<not> NewRRule lib opt' then Inl invalid_rule
            else let n = int (count_before (rr_next lib opt' loc) at (ro_Count opt) 0)
                 in Inr (if n > 0 then RRuleString lib (opt\<lparr>ro_Count := n\<rparr>) else [],
                         if ro_Count opt - n > 0 then RRuleString lib (opt\<lparr>ro_Count := ro_Count opt - n\<rparr>) else []))"

text \<open>The next start of a repeating todo and the rule that is left, or nothing.\<close>

definition Next :: "rrule_lib \<Rightarrow> string \<Rightarrow> go_time \<Rightarrow> location \<Rightarrow> go_error + (go_time \<times> string) option" where
  "Next lib rule start loc =
     (case parseOption lib rule loc of
        Inl x \<Rightarrow> Inl x
      | Inr opt \<Rightarrow>
          if ro_Count opt = 1 then Inr None
          else
            let rest = (if ro_Count opt > 1 then opt\<lparr>ro_Count := ro_Count opt - 1\<rparr> else opt);
                opt' = opt\<lparr>ro_Dtstart := start\<rparr>
            in if \<not> NewRRule lib opt' then Inl invalid_rule
               else let t = rr_After lib opt' loc start
                    in if t = zero_time then Inr None else Inr (Some (t, RRuleString lib rest)))"

subsection \<open>What the loop delivers\<close>

lemma iter_ok_mono:
  assumes "iter_ok it" "it k = Some t" "j < k"
  shows "\<exists>s. it j = Some s \<and> s < t"
  using assms(2,3)
proof (induction k arbitrary: t)
  case (Suc k)
  then obtain u where u: "it k = Some u" "u < t" using assms(1) unfolding iter_ok_def by blast
  then show ?case using Suc by (cases "j = k") force+
qed simp

text \<open>The times still to come: of the rule, and of the extra list.\<close>

definition ahead :: "(nat \<Rightarrow> go_time option) \<Rightarrow> nat \<Rightarrow> go_time option \<Rightarrow> go_time set" where
  "ahead it steps cur = (case cur of None \<Rightarrow> {} | Some c \<Rightarrow> insert c {t. \<exists>k \<ge> steps. it k = Some t})"

lemma ahead_None: "ahead it steps None = {}"
  by (simp add: ahead_def)

lemma ahead_le:
  assumes "iter_ok it" "it (steps - 1) = Some c" "1 \<le> steps" "t \<in> ahead it steps (Some c)"
  shows "c \<le> t"
proof (cases "t = c")
  case False
  then obtain k where "k \<ge> steps" "it k = Some t" using assms(4) by (auto simp: ahead_def)
  then show ?thesis using iter_ok_mono [OF assms(1), of k t "steps - 1"] assms(2,3) by force
qed simp

lemma ahead_advance:
  assumes "iter_ok it"
  shows "ahead it steps (Some c) = insert c (ahead it (Suc steps) (it steps))"
proof (cases "it steps")
  case None
  have "it k = None" if "k \<ge> steps" for k
    using that None iter_ok_mono [OF assms, of k _ steps] by (cases "k = steps") (auto intro: ccontr)
  then show ?thesis using None by (auto simp: ahead_def)
next
  case (Some d)
  have "(\<exists>k \<ge> steps. it k = Some t) \<longleftrightarrow> t = d \<or> (\<exists>k \<ge> Suc steps. it k = Some t)" for t
    using Some by (metis Suc_leD le_antisym not_less_eq_eq option.inject order_refl)
  then show ?thesis using Some by (auto simp: ahead_def)
qed

text \<open>The state of the loop, and the time it takes next.\<close>

definition loop_ok :: "(nat \<Rightarrow> go_time option) \<Rightarrow> nat \<Rightarrow> go_time option \<Rightarrow> go_time list \<Rightarrow> bool" where
  "loop_ok it steps cur extra \<longleftrightarrow> sorted extra \<and> (2 \<le> steps \<longrightarrow> it (steps - 2) \<noteq> None) \<and>
     (\<forall>c. cur = Some c \<longrightarrow> 1 \<le> steps \<and> it (steps - 1) = Some c)"

lemma loop_pick_rule:
  assumes "iter_ok it" "loop_ok it steps (Some c) extra" "extra = [] \<or> \<not> hd extra < c"
  shows "loop_ok it (Suc steps) (it steps) extra"
    and "ahead it steps (Some c) \<union> set extra = insert c (ahead it (Suc steps) (it steps) \<union> set extra)"
    and "\<forall>x \<in> ahead it steps (Some c) \<union> set extra. c \<le> x"
proof -
  show "loop_ok it (Suc steps) (it steps) extra" using assms(2) by (auto simp: loop_ok_def numeral_2_eq_2)
  show "ahead it steps (Some c) \<union> set extra = insert c (ahead it (Suc steps) (it steps) \<union> set extra)"
    using ahead_advance [OF assms(1)] by auto
  have "\<forall>x \<in> set extra. c \<le> x" using assms(2,3) by (cases extra) (auto simp: loop_ok_def)
  then show "\<forall>x \<in> ahead it steps (Some c) \<union> set extra. c \<le> x"
    using ahead_le [OF assms(1)] assms(2) by (auto simp: loop_ok_def)
qed

lemma loop_pick_extra:
  assumes "iter_ok it" "loop_ok it steps cur (x # xs)" "cur = None \<or> x < the cur"
  shows "loop_ok it steps cur xs"
    and "\<forall>y \<in> ahead it steps cur \<union> set (x # xs). x \<le> y"
proof -
  show "loop_ok it steps cur xs" using assms(2) by (auto simp: loop_ok_def)
  show "\<forall>y \<in> ahead it steps cur \<union> set (x # xs). x \<le> y"
  proof (cases cur)
    case None
    then show ?thesis using assms(2) by (auto simp: loop_ok_def ahead_None)
  next
    case (Some c)
    then show ?thesis using assms(2,3) ahead_le [OF assms(1), of steps c] by (fastforce simp: loop_ok_def)
  qed
qed

text \<open>
  The loop delivers the times of \<open>U\<close> that are not excluded, each once and in order.  \<open>P acc D\<close> describes
  the accumulator after delivering exactly \<open>D\<close>; \<open>Q\<close> what holds when the callback stops.
\<close>

definition loop_inv :: "go_time set \<Rightarrow> go_time set \<Rightarrow> go_time option \<Rightarrow> bool" where
  "loop_inv U R prev \<longleftrightarrow> R \<subseteq> U \<and> (\<forall>x \<in> U. x \<in> R \<or> (\<exists>l. prev = Some l \<and> x \<le> l))"

definition upto :: "go_time option \<Rightarrow> go_time set \<Rightarrow> go_time set" where
  "upto prev V = {x \<in> V. \<exists>l. prev = Some l \<and> x \<le> l}"

lemma loop_inv_skip: "loop_inv U (insert t R) prev \<Longrightarrow> prev \<noteq> None \<and> \<not> t > the prev \<Longrightarrow> loop_inv U R prev"
  by (auto simp: loop_inv_def)

lemma loop_inv_take:
  assumes "loop_inv U (insert t R) prev" "\<forall>x \<in> insert t R. t \<le> x" "\<not> (prev \<noteq> None \<and> \<not> t > the prev)"
  shows "loop_inv U R (Some t)" "t \<in> U" "{x \<in> U. \<exists>l. prev = Some l \<and> x \<le> l} = {x \<in> U. x < t}"
proof -
  show "loop_inv U R (Some t)" "t \<in> U" using assms by (force simp: loop_inv_def)+
  show "{x \<in> U. \<exists>l. prev = Some l \<and> x \<le> l} = {x \<in> U. x < t}"
    using assms by (cases prev) (force simp: loop_inv_def)+
qed

lemma each_loop_rule:
  fixes P :: "'a \<Rightarrow> go_time set \<Rightarrow> bool"
  assumes "iter_ok it" and "\<And>t. t \<in> U \<Longrightarrow> t \<in> V \<longleftrightarrow> \<not> excl t" and "V \<subseteq> U"
    and "\<And>acc t acc'. P acc {x \<in> V. x < t} \<Longrightarrow> t \<in> V \<Longrightarrow> fn acc t = (True, acc') \<Longrightarrow> P acc' (upto (Some t) V)"
    and "\<And>acc t acc'. P acc {x \<in> V. x < t} \<Longrightarrow> t \<in> V \<Longrightarrow> fn acc t = (False, acc') \<Longrightarrow> Q acc'"
    and "loop_ok it steps cur extra" and "loop_inv U (ahead it steps cur \<union> set extra) prev"
    and "P acc (upto prev V)"
  shows "case each_loop it excl fn steps cur extra prev acc of (e, r) \<Rightarrow>
    (if e then it (maxIterations - 1) \<noteq> None else Q r \<or> P r V)"
  using assms
proof (induction it excl fn steps cur extra prev acc rule: each_loop.induct)
  case (1 it excl fn steps cur extra prev acc)
  note hyps = "1.prems"
  let ?loop = "each_loop it excl fn steps cur extra prev acc"
  define tr where "tr = (cur \<noteq> None \<and> (extra = [] \<or> \<not> hd extra < the cur))"
  define t where "t = (if tr then the cur else hd extra)"
  define steps' where "steps' = (if tr then Suc steps else steps)"
  define cur' where "cur' = (if tr then it steps else cur)"
  define extra' where "extra' = (if tr then extra else tl extra)"
  consider (many) "steps > maxIterations" | (fin) "\<not> steps > maxIterations" "\<not> tr" "extra = []"
    | (go) "\<not> steps > maxIterations" "\<not> (\<not> tr \<and> extra = [])" by blast
  then show ?case
  proof cases
    case many
    then have "2 \<le> steps" by (simp add: maxIterations_def)
    then obtain s where "it (steps - 2) = Some s" using hyps(6) by (auto simp: loop_ok_def)
    moreover have "maxIterations - 1 = steps - 2 \<or> maxIterations - 1 < steps - 2" using many by linarith
    ultimately have "it (maxIterations - 1) \<noteq> None"
      using iter_ok_mono [OF hyps(1), of "steps - 2" s "maxIterations - 1"] by auto
    then show ?thesis using many by (simp add: each_loop.simps)
  next
    case fin
    then have "cur = None" by (auto simp: tr_def)
    then have "upto prev V = V" using hyps(3,7) fin by (auto simp: loop_inv_def ahead_None upto_def)
    then show ?thesis using hyps(8) fin by (simp add: each_loop.simps tr_def)
  next
    case go
    have pick: "loop_ok it steps' cur' extra'" "\<forall>x \<in> ahead it steps cur \<union> set extra. t \<le> x"
      "ahead it steps cur \<union> set extra = insert t (ahead it steps' cur' \<union> set extra')"
    proof -
      have "loop_ok it steps' cur' extra' \<and> (\<forall>x \<in> ahead it steps cur \<union> set extra. t \<le> x) \<and>
        ahead it steps cur \<union> set extra = insert t (ahead it steps' cur' \<union> set extra')"
      proof (cases tr)
        case True
        then obtain c where c: "cur = Some c" "extra = [] \<or> \<not> hd extra < c" by (auto simp: tr_def)
        with hyps(6) have ok: "loop_ok it steps (Some c) extra" by simp
        have eqs: "steps' = Suc steps" "cur' = it steps" "extra' = extra" "t = c"
          using True c by (simp_all add: t_def steps'_def cur'_def extra'_def)
        show ?thesis using loop_pick_rule [OF hyps(1) ok c(2)] unfolding eqs c(1) by (intro conjI)
      next
        case False
        then obtain x xs where x: "extra = x # xs" using go(2) by (cases extra) auto
        with hyps(6) have ok: "loop_ok it steps cur (x # xs)" by simp
        have "cur = None \<or> x < the cur" using False x by (auto simp: tr_def)
        moreover have eqs: "steps' = steps" "cur' = cur" "extra' = xs" "t = x"
          using False x by (simp_all add: t_def steps'_def cur'_def extra'_def)
        ultimately show ?thesis using loop_pick_extra [OF hyps(1) ok] unfolding eqs x by auto
      qed
      then show "loop_ok it steps' cur' extra'" "\<forall>x \<in> ahead it steps cur \<union> set extra. t \<le> x"
        "ahead it steps cur \<union> set extra = insert t (ahead it steps' cur' \<union> set extra')" by auto
    qed
    have "?loop = (if steps > maxIterations then (True, acc) else if \<not> tr \<and> extra = [] then (False, acc)
        else if prev \<noteq> None \<and> \<not> t > the prev then each_loop it excl fn steps' cur' extra' prev acc
        else if excl t then each_loop it excl fn steps' cur' extra' (Some t) acc
        else case fn acc t of (go_on, acc') \<Rightarrow> if \<not> go_on then (False, acc') else each_loop it excl fn steps' cur' extra' (Some t) acc')"
      by (subst each_loop.simps, unfold Let_def tr_def t_def steps'_def cur'_def extra'_def, rule refl)
    then have loop: "?loop = (if prev \<noteq> None \<and> \<not> t > the prev then each_loop it excl fn steps' cur' extra' prev acc
        else if excl t then each_loop it excl fn steps' cur' extra' (Some t) acc
        else case fn acc t of (go_on, acc') \<Rightarrow> if \<not> go_on then (False, acc') else each_loop it excl fn steps' cur' extra' (Some t) acc')"
      unfolding if_not_P [OF go(1)] if_not_P [OF go(2)] .
    note inv = hyps(7)[unfolded pick(3)]
    note ih = "1.IH"[OF go(1) tr_def go(2) t_def steps'_def cur'_def extra'_def]
    show ?thesis
    proof (cases "prev \<noteq> None \<and> \<not> t > the prev")
      case True
      then show ?thesis
        unfolding loop if_P [OF True] using ih(1) [OF True hyps(1-5) pick(1) loop_inv_skip [OF inv True] hyps(8)] by simp
    next
      case False
      note take = loop_inv_take [OF inv pick(2)[unfolded pick(3)] False]
      have before: "upto prev V = {x \<in> V. x < t}" using take(3) hyps(3) by (auto simp: upto_def)
      show ?thesis
      proof (cases "excl t")
        case True
        then have "upto (Some t) V = upto prev V" unfolding before using hyps(2,3) take(2) by (force simp: upto_def)
        then show ?thesis
          unfolding loop if_not_P [OF False] if_P [OF True]
          using ih(2) [OF False True hyps(1-5) pick(1) take(1)] hyps(8) by simp
      next
        case fresh: False
        then have tV: "t \<in> V" using hyps(2) take(2) by blast
        obtain b acc' where fn: "fn acc t = (b, acc')" by fastforce
        have Pb: "P acc {x \<in> V. x < t}" using hyps(8) before by simp
        show ?thesis
        proof (cases b)
          case True
          with fn have fn': "fn acc t = (True, acc')" by simp
          have "P acc' (upto (Some t) V)" by (rule hyps(4) [OF Pb tV fn'])
          then show ?thesis
            unfolding loop if_not_P [OF False] if_not_P [OF fresh]
            using ih(3) [OF False fresh fn'[symmetric] _ hyps(1-5) pick(1) take(1)] by (simp add: fn')
        next
          case no: False
          with fn have fn': "fn acc t = (False, acc')" by simp
          have "Q acc'" by (rule hyps(5) [OF Pb tV fn'])
          then show ?thesis unfolding loop if_not_P [OF False] if_not_P [OF fresh] by (simp add: fn')
        qed
      qed
    qed
  qed
qed

subsection \<open>Occurrences\<close>

text \<open>The reference: the times of the rule and the extra times, less the excluded ones.\<close>

definition occs :: "rrule_lib \<Rightarrow> Series \<Rightarrow> go_time set" where
  "occs lib s = {t. (t \<in> set (sr_extra s) \<or> (\<exists>k. rule_times lib s k = Some t)) \<and> \<not> excludes s t}"

lemma rule_times_ok: "rrule_ok lib \<Longrightarrow> iter_ok (rule_times lib s)"
  by (auto simp: rule_times_def rrule_ok_def iter_ok_def split: option.splits)

lemma each_rule:
  fixes P :: "'a \<Rightarrow> go_time set \<Rightarrow> bool"
  assumes "rrule_ok lib" "sorted (sr_extra s)" "P acc {}"
    and "\<And>acc t acc'. P acc {x \<in> occs lib s. x < t} \<Longrightarrow> t \<in> occs lib s \<Longrightarrow> fn acc t = (True, acc') \<Longrightarrow>
      P acc' {x \<in> occs lib s. x \<le> t}"
    and "\<And>acc t acc'. P acc {x \<in> occs lib s. x < t} \<Longrightarrow> t \<in> occs lib s \<Longrightarrow> fn acc t = (False, acc') \<Longrightarrow> Q acc'"
    and "each lib s fn acc = (e, r)"
  shows "if e then rule_times lib s (maxIterations - 1) \<noteq> None else Q r \<or> P r (occs lib s)"
proof -
  let ?it = "rule_times lib s"
  define U where "U = {t. t \<in> set (sr_extra s) \<or> (\<exists>k. ?it k = Some t)}"
  define st where "st = (if sr_rule s \<noteq> None then (1::nat) else 0)"
  define cur where "cur = (if sr_rule s \<noteq> None then ?it 0 else None)"
  note it = rule_times_ok [OF assms(1), of s]
  have ok: "loop_ok ?it st cur (sr_extra s)" using assms(2) by (auto simp: loop_ok_def st_def cur_def)
  have "ahead ?it st cur = {t. \<exists>k. ?it k = Some t}"
  proof (cases "?it 0")
    case None
    have "?it k = None" for k using None iter_ok_mono [OF it, of k _ 0] by (cases k) (auto intro: ccontr)
    then show ?thesis using None by (auto simp: cur_def ahead_None)
  next
    case (Some c)
    then have "sr_rule s \<noteq> None" by (auto simp: rule_times_def split: option.splits)
    moreover have "(\<exists>k. ?it k = Some t) \<longleftrightarrow> t = c \<or> (\<exists>k \<ge> 1. ?it k = Some t)" for t
      using Some by (metis One_nat_def Suc_leI neq0_conv option.inject)
    ultimately show ?thesis using Some by (auto simp: cur_def st_def ahead_def)
  qed
  then have inv: "loop_inv U (ahead ?it st cur \<union> set (sr_extra s)) None" by (auto simp: loop_inv_def U_def)
  have "case each_loop ?it (excludes s) fn st cur (sr_extra s) None acc of (e, r) \<Rightarrow>
    (if e then ?it (maxIterations - 1) \<noteq> None else Q r \<or> P r (occs lib s))"
    by (rule each_loop_rule [where U = U and V = "occs lib s", OF it _ _ _ _ ok inv])
      (use assms(3-5) in \<open>auto simp: U_def occs_def upto_def\<close>)
  moreover have "each_loop ?it (excludes s) fn st cur (sr_extra s) None acc = (e, r)"
    using assms(6) by (auto simp: each_def st_def cur_def Let_def split: if_splits)
  ultimately show ?thesis by simp
qed

lemma sorted_snoc_strict: "sorted_wrt (<) xs \<Longrightarrow> (\<forall>x \<in> set xs. x < t) \<Longrightarrow> sorted_wrt (<) (xs @ [t])" for t :: go_time
  by (simp add: sorted_wrt_append)

lemma length_strict: "sorted_wrt (<) xs \<Longrightarrow> length xs = card (set xs)" for xs :: "go_time list"
  by (metis distinct_card strict_sorted_iff)

lemma Overlaps_times_before: "Overlaps_times t u from to \<Longrightarrow> t < to"
  by (simp add: Overlaps_times_def split: if_splits)

lemma Between_spec:
  assumes "rrule_ok lib" "sorted (sr_extra s)" "0 \<le> limit"
  shows "case Between lib s from to limit of
      Inr out \<Rightarrow> sorted_wrt (<) out \<and> set out = {t \<in> occs lib s. Overlaps_times t (t + sr_Duration s) from to} \<and> int (length out) \<le> limit
    | Inl e \<Rightarrow> e = ErrTooMany \<and>
        ((\<exists>xs. set xs \<subseteq> {t \<in> occs lib s. Overlaps_times t (t + sr_Duration s) from to} \<and> distinct xs \<and> int (length xs) > limit) \<or>
         rule_times lib s (maxIterations - 1) \<noteq> None)"
proof -
  let ?hit = "\<lambda>t. Overlaps_times t (t + sr_Duration s) from to"
  let ?fn = "\<lambda>(out, full) t. if \<not> t < to then (False, (out, full))
           else if ?hit t then (if int (length out) \<ge> limit then (False, (out, True)) else (True, (out @ [t], full)))
                else (True, (out, full))"
  let ?P = "\<lambda>(out, full) D. \<not> full \<and> sorted_wrt (<) out \<and> set out = {t \<in> D. ?hit t} \<and> int (length out) \<le> limit"
  let ?Q = "\<lambda>(out, full). if full then (\<exists>xs. set xs \<subseteq> {t \<in> occs lib s. ?hit t} \<and> distinct xs \<and> int (length xs) > limit)
    else ?P (out, full) (occs lib s)"
  obtain e acc where "each lib s ?fn ([], False) = (e, acc)" by (rule prod.exhaust)
  moreover obtain out full where "acc = (out, full)" by (rule prod.exhaust)
  ultimately have r: "each lib s ?fn ([], False) = (e, (out, full))" by simp
  have "if e then rule_times lib s (maxIterations - 1) \<noteq> None else ?Q (out, full) \<or> ?P (out, full) (occs lib s)"
  proof (rule each_rule [OF assms(1,2) _ _ _ r, where P = ?P and Q = ?Q], goal_cases)
    case 1
    then show ?case using assms(3) by simp
  next
    case (2 acc t acc')
    obtain o1 f1 where acc: "acc = (o1, f1)" by fastforce
    have eq: "{x \<in> occs lib s. x \<le> t} = insert t {x \<in> occs lib s. x < t}" using 2(2) by auto
    from 2(1) have P: "\<not> f1" "sorted_wrt (<) o1" "set o1 = {x \<in> {x \<in> occs lib s. x < t}. ?hit x}" "int (length o1) \<le> limit"
      unfolding acc by simp_all
    show ?case
    proof (cases "?hit t")
      case True
      then have "acc' = (o1 @ [t], f1)" "int (length o1) < limit" using 2(3) unfolding acc by (simp_all split: if_splits)
      moreover have "sorted_wrt (<) (o1 @ [t])" by (rule sorted_snoc_strict [OF P(2)]) (use P(3) in simp)
      moreover have "set (o1 @ [t]) = {x \<in> insert t {x \<in> occs lib s. x < t}. ?hit x}" using P(3) True by auto
      ultimately show ?thesis using P(1) unfolding eq by simp
    next
      case False
      then have "acc' = (o1, f1)" using 2(3) unfolding acc by (simp split: if_splits)
      moreover have "set o1 = {x \<in> insert t {x \<in> occs lib s. x < t}. ?hit x}" using P(3) False by auto
      ultimately show ?thesis using P(1,2,4) unfolding eq by simp
    qed
  next
    case (3 acc t acc')
    obtain o1 f1 where acc: "acc = (o1, f1)" by fastforce
    show ?case
    proof (cases "t < to")
      case True
      then have hit: "?hit t" "int (length o1) \<ge> limit" "acc' = (o1, True)" using 3(3) unfolding acc by (auto split: if_splits)
      have "set (o1 @ [t]) \<subseteq> {t \<in> occs lib s. ?hit t}" "distinct (o1 @ [t])"
        using 3(1,2) hit(1) unfolding acc by (auto simp: strict_sorted_iff)
      then show ?thesis using hit by (auto intro!: exI [of _ "o1 @ [t]"])
    next
      case False
      then have "acc' = (o1, f1)" using 3(3) unfolding acc by simp
      moreover have "{x \<in> {x \<in> occs lib s. x < t}. ?hit x} = {x \<in> occs lib s. ?hit x}"
        using False Overlaps_times_before by force
      ultimately show ?thesis using 3(1) unfolding acc by auto
    qed
  qed
  then show ?thesis using r by (auto simp: Between_def split: if_splits)
qed

text \<open>
  C12.  Expansion is exact.  For every window, \<open>Between\<close> either returns the occurrences of the series that
  meet it, all of them, each once and in order, or it refuses; and it refuses only when there are more
  than the limit, or when the rule alone has gone through \<open>maxIterations\<close> times.
\<close>

theorem Between_exact:
  assumes "rrule_ok lib" "sorted (sr_extra s)" "0 \<le> limit"
  shows "case Between lib s from to limit of
      Inr out \<Rightarrow> sorted_wrt (<) out \<and> set out = {t \<in> occs lib s. Overlaps_times t (t + sr_Duration s) from to} \<and> int (length out) \<le> limit
    | Inl e \<Rightarrow> e = ErrTooMany \<and>
        ((\<exists>xs. set xs \<subseteq> {t \<in> occs lib s. Overlaps_times t (t + sr_Duration s) from to} \<and> distinct xs \<and> int (length xs) > limit) \<or>
         rule_times lib s (maxIterations - 1) \<noteq> None)"
  using assms by (rule Between_spec)

lemma Contains_spec:
  assumes "rrule_ok lib" "sorted (sr_extra s)"
  shows "case Contains lib s t of Inr b \<Rightarrow> b \<longleftrightarrow> t \<in> occs lib s
    | Inl e \<Rightarrow> e = ErrTooMany \<and> rule_times lib s (maxIterations - 1) \<noteq> None"
proof -
  let ?fn = "\<lambda>found x. (x < t, found \<or> x = t)"
  let ?P = "\<lambda>found D. found \<longleftrightarrow> t \<in> D" and ?Q = "\<lambda>found. found \<longleftrightarrow> t \<in> occs lib s"
  obtain e b where r: "each lib s ?fn False = (e, b)" by fastforce
  have "if e then rule_times lib s (maxIterations - 1) \<noteq> None else ?Q b \<or> ?P b (occs lib s)"
    by (rule each_rule [OF assms _ _ _ r, where P = ?P and Q = ?Q]) auto
  then show ?thesis using r by (auto simp: Contains_def split: if_splits)
qed

text \<open>
  \<open>Contains\<close> decides membership in the series: it answers whether the time is an occurrence, for
  every series whose rule is not exhausted by \<open>maxIterations\<close> times.
\<close>

theorem Contains_iff:
  assumes "rrule_ok lib" "sorted (sr_extra s)"
  shows "case Contains lib s t of Inr b \<Rightarrow> b \<longleftrightarrow> t \<in> occs lib s
    | Inl e \<Rightarrow> e = ErrTooMany \<and> rule_times lib s (maxIterations - 1) \<noteq> None"
  using assms by (rule Contains_spec)

subsection \<open>Spans and splits\<close>

lemma rrule_okD:
  assumes "rrule_ok lib" "rr_next lib opt loc k = Some t"
  shows "ro_Dtstart opt \<le> t" "ro_Until opt \<noteq> zero_time \<Longrightarrow> t \<le> ro_Until opt" "ro_Count opt > 0 \<Longrightarrow> int k < ro_Count opt"
  using assms unfolding rrule_ok_def by blast+

lemma FromEvent_facts:
  assumes "FromEvent lib zi e = Inr s"
  shows "sr_extra s = sort (ev_Start e # ev_RDate e)" "sr_Duration s = Duration e" "sr_excluded s = map UnixMicro (ev_ExDate e)"
    "\<forall>opt. sr_rule s = Some opt \<longrightarrow> ro_Dtstart opt = ev_Start e"
  using assms by (auto simp: FromEvent_def Let_def split: if_splits sum.splits)

lemma last_loop_bound:
  assumes "iter_ok it"
  shows "last_loop it k lst = Some l \<Longrightarrow> lst \<le> l \<and> (\<forall>j t. j \<ge> k \<longrightarrow> it j = Some t \<longrightarrow> t \<le> l)"
  using assms
proof (induction it k lst rule: last_loop.induct)
  case (1 it k lst)
  show ?case
  proof (cases "it k")
    case None
    then have "it j = None" if "j \<ge> k" for j
      using that iter_ok_mono [OF 1(3), of j _ k] by (cases "j = k") (auto intro: ccontr)
    then show ?thesis using 1(2) None by (auto simp: last_loop.simps [of it k lst] split: if_splits)
  next
    case (Some t)
    have k: "\<not> maxIterations \<le> k" and nx: "last_loop it (Suc k) (if t > lst then t else lst) = Some l"
      using 1(2) Some by (auto simp: last_loop.simps [of it k lst] split: if_splits)
    from 1(1) [OF k Some nx 1(3)] have ih: "(if t > lst then t else lst) \<le> l" "\<forall>j u. Suc k \<le> j \<longrightarrow> it j = Some u \<longrightarrow> u \<le> l" by auto
    have "u \<le> l" if "j \<ge> k" "it j = Some u" for j u
    proof (cases "j = k")
      case True
      then show ?thesis using that ih(1) Some by (auto split: if_splits)
    next
      case False
      then have "Suc k \<le> j" using that(1) by simp
      then show ?thesis using ih(2) that(2) by blast
    qed
    then show ?thesis using ih(1) by (auto split: if_splits)
  qed
qed

lemma LastStart_bound:
  assumes "rrule_ok lib" "sorted (sr_extra s)" "sr_extra s \<noteq> []" "LastStart lib s = Some l" "t \<in> occs lib s"
  shows "t \<le> l"
proof -
  have ext: "x \<le> last (sr_extra s)" if "x \<in> set (sr_extra s)" for x
    using that assms(2,3) by (cases "sr_extra s" rule: rev_cases) (auto simp: sorted_append)
  have lib: "u \<le> ro_Until opt" if "sr_rule s = Some opt" "ro_Until opt \<noteq> zero_time" "rule_times lib s k = Some u" for opt k u
    using that rrule_okD(2) [OF assms(1)] by (auto simp: rule_times_def)
  consider "t \<in> set (sr_extra s)" | k where "rule_times lib s k = Some t" using assms(5) by (auto simp: occs_def)
  then show ?thesis
  proof cases
    case 1
    then show ?thesis
      using ext [OF 1] assms(4) last_loop_bound [OF rule_times_ok [OF assms(1)], of s 0 "last (sr_extra s)" l]
      by (auto simp: LastStart_def Let_def split: option.splits if_splits)
  next
    case (2 k)
    then have "sr_rule s \<noteq> None" by (auto simp: rule_times_def split: option.splits)
    then show ?thesis
      using 2 lib assms(4) last_loop_bound [OF rule_times_ok [OF assms(1)], of s 0 "last (sr_extra s)" l]
      by (fastforce simp: LastStart_def Let_def split: option.splits if_splits)
  qed
qed

lemma first_bound:
  assumes "rrule_ok lib" "FromEvent lib zi e = Inr s" "t \<in> occs lib s"
  shows "hd (sr_extra s) \<le> t"
proof -
  have ext: "hd (sr_extra s) \<le> x" if "x \<in> set (sr_extra s)" for x
    using that sorted_sort [of "ev_Start e # ev_RDate e"] unfolding FromEvent_facts(1) [OF assms(2), symmetric]
    by (cases "sr_extra s") auto
  have "ev_Start e \<in> set (sr_extra s)" unfolding FromEvent_facts(1) [OF assms(2)] set_sort by simp
  moreover have "ev_Start e \<le> t" if "rule_times lib s k = Some t" for k
    using that rrule_okD(1) [OF assms(1)] FromEvent_facts(4) [OF assms(2)]
    by (fastforce simp: rule_times_def split: option.splits)
  ultimately show ?thesis using ext assms(3) by (fastforce simp: occs_def)
qed

lemma Span_spec:
  assumes "rrule_ok lib" "IsMaster e" "FromEvent lib zi e = Inr s" "event_Span lib zi e = (lo, hi)" "t \<in> occs lib s"
  shows "lo \<le> t \<and> (\<forall>h. hi = Some h \<longrightarrow> t + Duration e \<le> h) \<and> (hi = None \<longrightarrow> LastStart lib s = None)"
proof -
  have m: "0 \<le> (if ev_AllDay e then allDayMargin else 0)" by (simp add: allDayMargin_def duration_defs)
  have "set (sr_extra s) \<noteq> {}" unfolding FromEvent_facts(1) [OF assms(3)] set_sort by simp
  then have ne: "sr_extra s \<noteq> []" "sorted (sr_extra s)" using FromEvent_facts(1) [OF assms(3)] by (auto simp only: sorted_sort)
  have "lo = hd (sr_extra s) - (if ev_AllDay e then allDayMargin else 0)"
    "\<And>l. LastStart lib s = Some l \<Longrightarrow> hi = Some (l + Duration e + (if ev_AllDay e then allDayMargin else 0))"
    "LastStart lib s = None \<Longrightarrow> hi = None"
    using assms(2-4) by (auto simp: event_Span_def Let_def split: option.splits)
  then show ?thesis
    using first_bound [OF assms(1,3,5)] LastStart_bound [OF assms(1) ne(2,1) _ assms(5)] m
    by (cases "LastStart lib s") fastforce+
qed


lemma count_before_spec:
  assumes "iter_ok it" "n = count_before it at limit m" "int m \<le> limit" "\<forall>k t. k < m \<longrightarrow> it k = Some t \<longrightarrow> t < at"
    "\<forall>k t. it k = Some t \<longrightarrow> int k < limit"
  shows "int n \<le> limit \<and> (\<forall>k t. it k = Some t \<longrightarrow> (t < at \<longleftrightarrow> k < n))"
  using assms
proof (induction it at limit m rule: count_before.induct)
  case (1 it at limit m)
  have later: "it k = Some u \<Longrightarrow> m \<le> k \<Longrightarrow> \<exists>t. it m = Some t \<and> t \<le> u" for k u
    using iter_ok_mono [OF 1(2), of k u m] by (cases "k = m") force+
  show ?case
  proof (cases "int m < limit \<and> (\<exists>t. it m = Some t \<and> t < at)")
    case True
    then obtain t where t: "it m = Some t" "t < at" by blast
    have n: "n = count_before it at limit (Suc m)" using 1(3) True t by (simp add: count_before.simps [of it at limit m])
    show ?thesis by (rule 1(1) [OF _ t(1) _ 1(2) n]) (use True t 1(5,6) in \<open>auto simp: less_Suc_eq\<close>)
  next
    case False
    then have n: "n = m" using 1(3) by (auto simp: count_before.simps [of it at limit m] split: option.splits)
    have "t < at \<longleftrightarrow> k < m" if kt: "it k = Some t" for k t
    proof (cases "k < m")
      case True
      then show ?thesis using 1(5) kt by auto
    next
      case nlt: False
      then obtain u where "it m = Some u" "u \<le> t" using later [OF kt] by auto
      then show ?thesis using False nlt 1(6) by force
    qed
    then show ?thesis using n 1(4) by simp
  qed
qed

text \<open>
  Splitting a counted series loses no occurrence and adds none: the head keeps the count of exactly
  those times of the rule that lie before the cut, the tail gets the rest, and a side without times
  gets no rule.
\<close>

theorem Split_counts:
  assumes "rrule_ok lib" "parseOption lib (ev_RRule e) (dtstart_loc zi e) = Inr opt" "ro_Count opt > 0"
    "NewRRule lib (opt\<lparr>ro_Dtstart := ev_Start e\<rparr>)"
  shows "\<exists>n. int n \<le> ro_Count opt \<and>
    (\<forall>k t. rr_next lib (opt\<lparr>ro_Dtstart := ev_Start e\<rparr>) (dtstart_loc zi e) k = Some t \<longrightarrow> (t < at \<longleftrightarrow> k < n)) \<and>
    Split lib zi e at = Inr (if n > 0 then RRuleString lib (opt\<lparr>ro_Count := int n\<rparr>) else [],
      if int n < ro_Count opt then RRuleString lib (opt\<lparr>ro_Count := ro_Count opt - int n\<rparr>) else [])"
proof -
  let ?opt = "opt\<lparr>ro_Dtstart := ev_Start e\<rparr>"
  let ?it = "rr_next lib ?opt (dtstart_loc zi e)"
  define n where "n = count_before ?it at (ro_Count opt) 0"
  have ok: "iter_ok ?it" "\<forall>k t. ?it k = Some t \<longrightarrow> int k < ro_Count opt"
    using assms(1) rrule_okD(3) [OF assms(1), of ?opt] assms(3) by (auto simp: rrule_ok_def)
  have "int n \<le> ro_Count opt \<and> (\<forall>k t. ?it k = Some t \<longrightarrow> (t < at \<longleftrightarrow> k < n))"
    by (rule count_before_spec [OF ok(1) n_def _ _ ok(2)]) (use assms(3) in auto)
  moreover have "Split lib zi e at = Inr (if n > 0 then RRuleString lib (opt\<lparr>ro_Count := int n\<rparr>) else [],
      if int n < ro_Count opt then RRuleString lib (opt\<lparr>ro_Count := ro_Count opt - int n\<rparr>) else [])"
    using assms(2-4) by (simp add: Split_def Let_def n_def)
  ultimately show ?thesis by blast
qed

subsection \<open>A concrete series\<close>

text \<open>A library that knows one rule, three days in a row.\<close>

definition demo_lib :: rrule_lib where
  "demo_lib = \<lparr>StrToROption = (\<lambda>s loc. if s = ''FREQ=DAILY;COUNT=3''
       then Some \<lparr>ro_Freq = DAILY, ro_Dtstart = 0, ro_Interval = 1, ro_Count = 3, ro_Until = zero_time, ro_Byhour = [],
                   ro_Byminute = [], ro_Bysecond = [], ro_Other = []\<rparr> else None),
     NewRRule = (\<lambda>opt. True),
     rr_next = (\<lambda>opt loc k. let t = ro_Dtstart opt + int k * day in
       if (ro_Count opt > 0 \<longrightarrow> int k < ro_Count opt) \<and> (ro_Until opt \<noteq> zero_time \<longrightarrow> t \<le> ro_Until opt) then Some t else None),
     RRuleString = (\<lambda>opt. ''FREQ=DAILY;COUNT='' @ itoa (ro_Count opt)),
     rr_After = (\<lambda>opt loc t. t + day)\<rparr>"

lemma demo_lib_ok: "rrule_ok demo_lib"
  by (auto simp: rrule_ok_def iter_ok_def demo_lib_def Let_def duration_defs split: if_splits)

definition demo_event :: Event where
  "demo_event = Event0\<lparr>ev_AllDay := True, ev_Start := 0, ev_End := day, ev_RRule := ''FREQ=DAILY;COUNT=3'', ev_ExDate := [day]\<rparr>"

definition demo_opt :: roption where
  "demo_opt = \<lparr>ro_Freq = DAILY, ro_Dtstart = 0, ro_Interval = 1, ro_Count = 3, ro_Until = zero_time, ro_Byhour = [],
     ro_Byminute = [], ro_Bysecond = [], ro_Other = []\<rparr>"

definition demo_series :: Series where
  "demo_series = \<lparr>sr_Start = 0, sr_loc = UTC, sr_Duration = day, sr_rule = Some demo_opt, sr_extra = [0], sr_excluded = [86400000000]\<rparr>"

lemma demo_option: "parseOption demo_lib ''FREQ=DAILY;COUNT=3'' UTC = Inr demo_opt"
proof -
  have "trim_space ''FREQ=DAILY;COUNT=3'' = ''FREQ=DAILY;COUNT=3''"
    "trim_prefix (to_upper ''FREQ=DAILY;COUNT=3'') ''RRULE:'' = ''FREQ=DAILY;COUNT=3''" by code_simp+
  then show ?thesis by (simp add: parseOption_def demo_lib_def demo_opt_def maxRuleLength_def)
qed

lemma demo_from: "FromEvent demo_lib (\<lambda>z. None) demo_event = Inr demo_series"
proof -
  have "Duration demo_event = day" "UnixMicro day = 86400000000"
    by (simp_all add: Duration_def demo_event_def time_sub_def sat64_def min_int64_def max_int64_def UnixMicro_def wrap64_def duration_defs)
  moreover have "demo_opt\<lparr>ro_Dtstart := 0\<rparr> = demo_opt" "NewRRule demo_lib demo_opt" by (simp_all add: demo_opt_def demo_lib_def)
  ultimately show ?thesis
    using demo_option by (simp add: FromEvent_def demo_event_def Event0_def dtstart_loc_def demo_series_def)
qed

lemma demo_sorted: "sorted (sr_extra demo_series)"
  by (simp add: demo_series_def)

lemma demo_times: "rule_times demo_lib demo_series k = (if k < 3 then Some (int k * day) else None)"
  by (auto simp: rule_times_def demo_series_def demo_lib_def demo_opt_def Let_def)

lemma demo_occs: "occs demo_lib demo_series = {0, 2 * day}"
proof -
  have "t \<in> occs demo_lib demo_series \<longleftrightarrow> t \<in> {0, day, 2 * day} \<and> \<not> excludes demo_series t" for t
  proof -
    have "(\<exists>k. rule_times demo_lib demo_series k = Some t) \<longleftrightarrow> t \<in> {0, day, 2 * day}"
      unfolding demo_times by (auto simp: less_Suc_eq numeral_3_eq_3 numeral_2_eq_2 intro: exI [of _ 0] exI [of _ 1] exI [of _ 2])
    then show ?thesis by (auto simp: occs_def demo_series_def)
  qed
  moreover have "excludes demo_series day" "\<not> excludes demo_series 0" "\<not> excludes demo_series (2 * day)"
    by (simp_all add: excludes_def demo_series_def UnixMicro_def wrap64_def duration_defs)
  ultimately show ?thesis by auto
qed

lemma Between_exact_witness:
  "\<exists>out. Between demo_lib demo_series 0 (3 * day) 10 = Inr out \<and> set out = {0, 2 * day} \<and> sorted_wrt (<) out"
proof -
  have hits: "{t \<in> occs demo_lib demo_series. Overlaps_times t (t + sr_Duration demo_series) 0 (3 * day)} = {0, 2 * day}"
    unfolding demo_occs by (auto simp: demo_series_def Overlaps_times_def duration_defs)
  have few: "\<not> (\<exists>xs. set xs \<subseteq> {0, 2 * day} \<and> distinct xs \<and> int (length xs) > 10)"
  proof (intro notI, elim exE conjE)
    fix xs :: "go_time list"
    assume "set xs \<subseteq> {0, 2 * day}" "distinct xs" "int (length xs) > 10"
    then have "card (set xs) \<le> card {0, 2 * day}" "card (set xs) = length xs"
      using card_mono [of "{0, 2 * day}" "set xs"] distinct_card [of xs] by auto
    moreover have "card {0, 2 * day} \<le> 2" by (simp add: card_insert_if)
    ultimately show False using \<open>int (length xs) > 10\<close> by linarith
  qed
  have "rule_times demo_lib demo_series (maxIterations - 1) = None" by (simp add: demo_times maxIterations_def)
  then show ?thesis
    using Between_exact [OF demo_lib_ok demo_sorted, of 10 0 "3 * day"] few
    by (auto simp: hits split: sum.splits)
qed

lemma Contains_iff_witness: "Contains demo_lib demo_series (2 * day) = Inr True"
proof -
  have "rule_times demo_lib demo_series (maxIterations - 1) = None" by (simp add: demo_times maxIterations_def)
  then show ?thesis
    using Contains_iff [OF demo_lib_ok demo_sorted, of "2 * day"] by (simp add: demo_occs split: sum.splits)
qed


lemma Split_counts_witness: "\<exists>n::nat. int n \<le> 3 \<and> Split demo_lib (\<lambda>z. None) demo_event (2 * day) =
    Inr (if n > 0 then ''FREQ=DAILY;COUNT='' @ itoa (int n) else [], if int n < 3 then ''FREQ=DAILY;COUNT='' @ itoa (3 - int n) else [])"
proof -
  have "parseOption demo_lib (ev_RRule demo_event) (dtstart_loc (\<lambda>z. None) demo_event) = Inr demo_opt"
    using demo_option by (simp add: demo_event_def dtstart_loc_def)
  moreover have "ro_Count demo_opt = 3" "NewRRule demo_lib x" "RRuleString demo_lib x = ''FREQ=DAILY;COUNT='' @ itoa (ro_Count x)" for x
    by (simp_all add: demo_opt_def demo_lib_def)
  ultimately show ?thesis using Split_counts [OF demo_lib_ok, of demo_event "\<lambda>z. None" demo_opt "2 * day"] by auto
qed

end
