(* ===== verification/Timeparse.thy ===== *)
theory Timeparse
  imports Domain
begin

text \<open>
  The layouts of \<open>time.Parse\<close> that the services read dates and instants with: \<open>2006-01-02\<close>, RFC 3339,
  and the two local layouts with and without seconds.  The readers follow the rules of the time
  package: months and days take two digits, the hour one or two, a fraction may follow the seconds,
  and a day must exist in its month.
\<close>

definition parse_year :: "string \<Rightarrow> (int \<times> string) option" where
  "parse_year s =
     (if length s \<ge> 4 \<and> list_all is_digit (take 4 s)
      then Some (foldl (\<lambda>n c. n * 10 + digit_val c) 0 (take 4 s), drop 4 s) else None)"

definition parse_civil :: "string \<Rightarrow> (civil \<times> string) option" where
  "parse_civil s =
     (case parse_year s of None \<Rightarrow> None
      | Some (y, r1) \<Rightarrow> (case skip_char (CHR ''-'') r1 of None \<Rightarrow> None
      | Some r2 \<Rightarrow> (case getnum r2 True of None \<Rightarrow> None
      | Some (m, r3) \<Rightarrow> if m \<le> 0 \<or> 12 < m then None else
        (case skip_char (CHR ''-'') r3 of None \<Rightarrow> None
      | Some r4 \<Rightarrow> (case getnum r4 True of None \<Rightarrow> None
      | Some (d, r5) \<Rightarrow> if d < 1 \<or> month_days y m < d then None else Some ((y, m, d), r5))))))"

text \<open>At most nine digits of the fraction count.\<close>

definition parse_fraction :: "string \<Rightarrow> int \<times> string" where
  "parse_fraction s =
     (case s of
        p # d # _ \<Rightarrow>
          if (p = CHR ''.'' \<or> p = CHR '','') \<and> is_digit d
          then let ds = take 9 (takeWhile is_digit (tl s))
               in (foldl (\<lambda>n c. n * 10 + digit_val c) 0 ds * 10 ^ (9 - length ds), dropWhile is_digit (tl s))
          else (0, s)
      | _ \<Rightarrow> (0, s))"

definition parse_seconds :: "string \<Rightarrow> ((int \<times> int) \<times> string) option" where
  "parse_seconds r =
     (case skip_char (CHR '':'') r of None \<Rightarrow> None
      | Some r1 \<Rightarrow> (case getnum r1 True of None \<Rightarrow> None
      | Some (sec, r2) \<Rightarrow> if sec < 0 \<or> 60 \<le> sec then None
          else case parse_fraction r2 of (ns, r3) \<Rightarrow> Some ((sec, ns), r3)))"

text \<open>The offset of the zone in seconds, at the end of the text.\<close>

definition parse_zone :: "string \<Rightarrow> int option" where
  "parse_zone s =
     (if s = ''Z'' then Some 0
      else if length s = 6 \<and> s ! 3 = CHR '':'' \<and> hd s \<in> {CHR ''+'', CHR ''-''}
      then (case (getnum (take 2 (drop 1 s)) True, getnum (drop 4 s) True) of
              (Some (hh, _), Some (mm, _)) \<Rightarrow>
                if hh > 24 \<or> mm > 60 then None
                else Some ((if hd s = CHR ''+'' then 1 else -1) * (hh * 60 + mm) * 60)
            | _ \<Rightarrow> None)
      else None)"

definition parse_date_layout :: "string \<Rightarrow> civil option" where
  "parse_date_layout s = (case parse_civil s of Some (c, []) \<Rightarrow> Some c | _ \<Rightarrow> None)"

definition parse_stamp :: "string \<Rightarrow> ((civil \<times> int \<times> int) \<times> string) option" where
  "parse_stamp s =
     (case parse_civil s of None \<Rightarrow> None
      | Some (c, r1) \<Rightarrow> (case skip_char (CHR ''T'') r1 of None \<Rightarrow> None
      | Some r2 \<Rightarrow> (case parse_hm r2 of None \<Rightarrow> None
      | Some ((h, m), r3) \<Rightarrow> Some ((c, h, m), r3))))"

definition parse_rfc3339 :: "string \<Rightarrow> go_time option" where
  "parse_rfc3339 s =
     (case parse_stamp s of None \<Rightarrow> None
      | Some (((y, mo, d), h, m), r) \<Rightarrow> (case parse_seconds r of None \<Rightarrow> None
      | Some ((sec, ns), r1) \<Rightarrow> (case parse_zone r1 of None \<Rightarrow> None
      | Some off \<Rightarrow> Some (go_date UTC y mo d h m sec ns - off * second))))"

definition parse_local_seconds :: "string \<Rightarrow> location \<Rightarrow> go_time option" where
  "parse_local_seconds s loc =
     (case parse_stamp s of None \<Rightarrow> None
      | Some (((y, mo, d), h, m), r) \<Rightarrow> (case parse_seconds r of
          Some ((sec, ns), []) \<Rightarrow> Some (go_date loc y mo d h m sec ns) | _ \<Rightarrow> None))"

definition parse_local_minutes :: "string \<Rightarrow> location \<Rightarrow> go_time option" where
  "parse_local_minutes s loc =
     (case parse_stamp s of Some (((y, mo, d), h, m), []) \<Rightarrow> Some (go_date loc y mo d h m 0 0) | _ \<Rightarrow> None)"

text \<open>\<open>time.RFC3339\<close> in UTC, for the years 0 to 9999 that the code stores.\<close>

definition format_rfc3339 :: "go_time \<Rightarrow> string" where
  "format_rfc3339 t =
     (case time_clock UTC t of (h, mi, s) \<Rightarrow>
        Domain.format_date (time_date UTC t) @ ''T'' @ pad2 h @ '':'' @ pad2 mi @ '':'' @ pad2 s @ ''Z'')"

end
