(* ===== verification/Event_Apply.thy ===== *)
theory Event_Apply
  imports Recurrence Timeparse
begin

text \<open>
  How a patch becomes an event: \<open>internal/service/event_apply.go\<close>.  Every step takes the errors found so
  far and the event, and returns both.  The parser of URLs is an argument, as are the zone database
  and the recurrence library.
\<close>

record service_env =
  en_lib :: rrule_lib
  en_zones :: zoneinfo
  en_url :: "string \<Rightarrow> (string \<times> string) option"
  en_id_text :: "go_id \<Rightarrow> string"
  en_ParseID :: "string \<Rightarrow> go_id option"

subsection \<open>Reading times\<close>

definition maxRDates :: nat where
  "maxRDates = 1000"

definition maxExDates :: nat where
  "maxExDates = 5000"

definition maxRange :: duration where
  "maxRange = 400 * 24 * hour"

definition replace_char :: "char \<Rightarrow> char \<Rightarrow> string \<Rightarrow> string" where
  "replace_char a b s = map (\<lambda>c. if c = a then b else c) s"

definition parseDateTime :: "string \<Rightarrow> location \<Rightarrow> go_time option" where
  "parseDateTime s0 loc =
     (let s = replace_char (CHR '' '') (CHR ''+'') (trim_space s0) in
      case parse_rfc3339 s of Some t \<Rightarrow> Some t
      | None \<Rightarrow> (case parse_local_seconds s loc of Some t \<Rightarrow> Some t | None \<Rightarrow> parse_local_minutes s loc))"

definition parseDate :: "string \<Rightarrow> go_time option" where
  "parseDate s = (case parse_date_layout (trim_space s) of None \<Rightarrow> None | Some (y, m, d) \<Rightarrow> Some (go_date UTC y m d 0 0 0 0))"

definition parseEventTime :: "string \<Rightarrow> bool \<Rightarrow> location \<Rightarrow> go_time option" where
  "parseEventTime s allDay loc = (if allDay then parseDate s else parseDateTime s loc)"

definition parseInstant :: "string \<Rightarrow> location \<Rightarrow> go_time option" where
  "parseInstant s loc =
     (case parseDateTime s loc of Some t \<Rightarrow> Some t
      | None \<Rightarrow> (case parseDate s of None \<Rightarrow> None
        | Some t \<Rightarrow> (case time_date UTC t of (y, m, d) \<Rightarrow> Some (go_date loc y m d 0 0 0 0))))"

definition timeFormatHint :: "bool \<Rightarrow> string" where
  "timeFormatHint allDay =
     (if allDay then ''must be a date like 2026-09-20'' else ''must be a date-time like 2026-09-10T10:00:00+03:00'')"

subsection \<open>Fields\<close>

definition setText :: "string Opt \<Rightarrow> string \<Rightarrow> bool \<Rightarrow> string" where
  "setText o1 dst trim = (if \<not> opt_Set o1 then dst else if trim then trim_space (opt_V o1) else opt_V o1)"

definition applyTimezone :: "service_env \<Rightarrow> ValidationError \<Rightarrow> Event \<Rightarrow> string Opt \<Rightarrow> ValidationError \<times> Event" where
  "applyTimezone env v e o1 =
     (if \<not> opt_Set o1 then (v, e)
      else let tz = trim_space (opt_V o1) in
        if opt_Null o1 \<or> tz = [] then (if \<not> ev_AllDay e then Add v ''timezone'' ''is required for timed events'' else v, e)
        else if ValidTimezone (en_zones env) tz then (v, e\<lparr>ev_TZ := tz\<rparr>)
        else (Add v ''timezone'' ''unknown timezone'', e))"

definition defaultDuration :: "bool \<Rightarrow> duration" where
  "defaultDuration allDay = (if allDay then 24 * hour else hour)"

text \<open>The start: nothing when the function returns early, otherwise the event and whether it was set.\<close>

definition applyStart ::
  "service_env \<Rightarrow> ValidationError \<Rightarrow> Event \<Rightarrow> EventPatch \<Rightarrow> bool \<Rightarrow> ValidationError + Event \<times> bool" where
  "applyStart env v e p needStart =
     (let o1 = evp_Start p in
      if opt_Set o1 \<and> \<not> opt_Null o1
      then (case parseEventTime (opt_V o1) (ev_AllDay e) (Event_Zone (en_zones env) e) of
              None \<Rightarrow> Inl (Add v ''start'' (timeFormatHint (ev_AllDay e)))
            | Some t \<Rightarrow> Inr (e\<lparr>ev_Start := t\<rparr>, True))
      else if opt_Set o1 then Inl (Add v ''start'' ''must not be null'')
      else if needStart then Inl (Add v ''start'' ''is required'')
      else Inr (e, False))"

definition applyTiming ::
  "service_env \<Rightarrow> ValidationError \<Rightarrow> Event \<Rightarrow> Event \<Rightarrow> EventPatch \<Rightarrow> bool \<Rightarrow> ValidationError \<times> Event" where
  "applyTiming env v e0 bef p needStart =
     (case applyStart env v e0 p needStart of
        Inl v' \<Rightarrow> (v', e0)
      | Inr (e, startSet) \<Rightarrow>
          let o1 = evp_End p in
          if opt_Set o1 \<and> \<not> opt_Null o1
          then (case parseEventTime (opt_V o1) (ev_AllDay e) (Event_Zone (en_zones env) e0) of
                  None \<Rightarrow> (Add v ''end'' (timeFormatHint (ev_AllDay e)), e)
                | Some t \<Rightarrow> (v, e\<lparr>ev_End := t\<rparr>))
          else if needStart \<or> (opt_Set o1 \<and> opt_Null o1) then (v, e\<lparr>ev_End := ev_Start e + defaultDuration (ev_AllDay e)\<rparr>)
          else if startSet then (v, e\<lparr>ev_End := ev_Start e + Duration bef\<rparr>)
          else (v, e))"

fun parse_all :: "service_env \<Rightarrow> Event \<Rightarrow> string list \<Rightarrow> go_time list option" where
  "parse_all env e [] = Some []"
| "parse_all env e (s # rest) =
     (case parseEventTime s (ev_AllDay e) (Event_Zone (en_zones env) e) of None \<Rightarrow> None
      | Some t \<Rightarrow> (case parse_all env e rest of None \<Rightarrow> None | Some ts \<Rightarrow> Some (t # ts)))"

definition applyDates ::
  "service_env \<Rightarrow> ValidationError \<Rightarrow> string \<Rightarrow> string list Opt \<Rightarrow> go_time list \<Rightarrow> Event \<Rightarrow> nat \<Rightarrow> ValidationError \<times> go_time list" where
  "applyDates env v field o1 cur e limit =
     (if \<not> opt_Set o1 then (v, cur)
      else if opt_Null o1 \<or> opt_V o1 = [] then (v, [])
      else if length (opt_V o1) > limit then (Add v field (''must have at most '' @ itoa (int limit) @ '' entries''), cur)
      else case parse_all env e (opt_V o1) of
             None \<Rightarrow> (Add v field (timeFormatHint (ev_AllDay e)), cur)
           | Some out \<Rightarrow> (v, compact (=) (sort out)))"

definition error_text :: "go_error \<Rightarrow> string" where
  "error_text e = (case e of Other m \<Rightarrow> m | Wrap s m \<Rightarrow> m | Validation v \<Rightarrow> Error v)"

definition applyRule :: "service_env \<Rightarrow> ValidationError \<Rightarrow> Event \<Rightarrow> EventPatch \<Rightarrow> ValidationError \<times> Event" where
  "applyRule env v e p =
     (let rule = trim_space (opt_V (evp_RRule p)) in
      if \<not> opt_Set (evp_RRule p) then (v, e)
      else if opt_Null (evp_RRule p) \<or> rule = [] then (v, e\<lparr>ev_RRule := []\<rparr>)
      else case Normalize (en_lib env) rule (Event_Zone (en_zones env) e) of
             Inl x \<Rightarrow> (Add v ''rrule'' (error_text x), e)
           | Inr norm \<Rightarrow> (v, e\<lparr>ev_RRule := norm\<rparr>))"

definition applyRecurrence :: "service_env \<Rightarrow> ValidationError \<Rightarrow> Event \<Rightarrow> EventPatch \<Rightarrow> bool \<Rightarrow> ValidationError \<times> Event" where
  "applyRecurrence env v e0 p switched =
     (let e = (if switched
               then e0\<lparr>ev_RDate := (if \<not> opt_Set (evp_RDate p) then [] else ev_RDate e0),
                       ev_ExDate := (if \<not> opt_Set (evp_ExDate p) then [] else ev_ExDate e0)\<rparr>
               else e0)
      in if IsOverride e
         then (if (opt_Set (evp_RRule p) \<and> opt_V (evp_RRule p) \<noteq> []) \<or>
                  (opt_Set (evp_RDate p) \<and> opt_V (evp_RDate p) \<noteq> []) \<or>
                  (opt_Set (evp_ExDate p) \<and> opt_V (evp_ExDate p) \<noteq> [])
               then Add v ''rrule'' ''only the whole series can change recurrence'' else v, e)
         else
           let (v1, e1) = applyRule env v e p;
               (v2, rd) = applyDates env v1 ''rdate'' (evp_RDate p) (ev_RDate e1) e1 maxRDates;
               (v3, xd) = applyDates env v2 ''exdate'' (evp_ExDate p) (ev_ExDate e1) e1 maxExDates
           in (v3, e1\<lparr>ev_RDate := rd, ev_ExDate := xd\<rparr>))"

definition choice :: "ValidationError \<Rightarrow> string Opt \<Rightarrow> string \<Rightarrow> string \<Rightarrow> string list \<Rightarrow> ValidationError \<times> string" where
  "choice v o1 field dst allowed =
     (case Value o1 v field of
        (v', None) \<Rightarrow> (v', dst)
      | (v', Some x) \<Rightarrow>
          if x \<notin> set allowed then (Add v' field (''must be one of '' @ join allowed '', ''), dst) else (v', x))"

definition statuses :: "string list" where
  "statuses = [''confirmed'', ''tentative'', ''cancelled'']"

definition transparencies :: "string list" where
  "transparencies = [''opaque'', ''transparent'']"

definition visibilities :: "string list" where
  "visibilities = [''default'', ''private'']"

definition applyChoices :: "ValidationError \<Rightarrow> Event \<Rightarrow> EventPatch \<Rightarrow> ValidationError \<times> Event" where
  "applyChoices v e p =
     (let (v1, st) = choice v (evp_Status p) ''status'' (ev_Status e) statuses;
          (v2, tr) = choice v1 (evp_Transparency p) ''transparency'' (ev_Transparency e) transparencies;
          (v3, vi) = choice v2 (evp_Visibility p) ''visibility'' (ev_Visibility e) visibilities;
          (v4, co) =
            (if \<not> opt_Set (evp_Color p) then (v3, ev_Color e)
             else if opt_Null (evp_Color p) \<or> trim_space (opt_V (evp_Color p)) = [] then (v3, [])
             else case NormalizeColor (opt_V (evp_Color p)) of
                    (c, ok) \<Rightarrow> if ok then (v3, c) else (Add v3 ''color'' ''must be a hex color like #3b6ea5'', ev_Color e));
          (v5, re) = (if opt_Set (evp_Reminders p) then NormalizeReminders v4 ''reminders'' (opt_V (evp_Reminders p))
                      else (v4, ev_Reminders e))
      in (v5, e\<lparr>ev_Status := st, ev_Transparency := tr, ev_Visibility := vi, ev_Color := co, ev_Reminders := re\<rparr>))"

definition hasField :: "ValidationError \<Rightarrow> string \<Rightarrow> bool" where
  "hasField v field = list_ex (\<lambda>f. fe_Field f = field) v"

text \<open>\<open>unicode.IsControl\<close> on the runes of a text: the C0 and C1 controls and DEL.\<close>

definition is_control_piece :: "bool \<times> string \<Rightarrow> bool" where
  "is_control_piece p =
     (case p of
        (True, [c]) \<Rightarrow> of_char c < (32 :: nat) \<or> of_char c = (127 :: nat)
      | (True, [c, d]) \<Rightarrow> of_char c = (0xC2 :: nat) \<and> of_char d < (0xA0 :: nat)
      | _ \<Rightarrow> False)"

definition has_control :: "string \<Rightarrow> bool" where
  "has_control s = list_ex is_control_piece (utf8_pieces s)"

definition validURL :: "service_env \<Rightarrow> string \<Rightarrow> bool" where
  "validURL env s =
     (case en_url env s of None \<Rightarrow> False
      | Some (scheme, host) \<Rightarrow> (scheme = ''http'' \<or> scheme = ''https'') \<and> host \<noteq> [] \<and>
          \<not> list_ex (\<lambda>c. c \<in> {CHR '' '', CHR 0x09, CHR 0x0D, CHR 0x0A}) s)"

definition validateFields :: "service_env \<Rightarrow> ValidationError \<Rightarrow> Event \<Rightarrow> bool \<Rightarrow> ValidationError" where
  "validateFields env v e uidSet =
     (let v1 = (if uidSet \<and> (rune_count (ev_UID e) < 1 \<or> length (ev_UID e) > 1000 \<or> has_control (ev_UID e))
                then Add v ''uid'' ''must be 1 to 1000 printable characters'' else v);
          v2 = Length v1 ''title'' (ev_Title e) 0 1000;
          v3 = Length v2 ''body'' (ev_Body e) 0 100000;
          v4 = Length v3 ''location'' (ev_Location e) 0 1000;
          v5 = (if ev_URL e \<noteq> [] \<and> (length (ev_URL e) > 2048 \<or> \<not> validURL env (ev_URL e))
                then Add v4 ''url'' ''must be an http or https URL of at most 2048 characters'' else v4)
      in if \<not> ev_AllDay e \<and> ev_TZ e = [] then Add v5 ''timezone'' ''is required for timed events'' else v5)"

definition validateTimes :: "ValidationError \<Rightarrow> Event \<Rightarrow> ValidationError" where
  "validateTimes v e =
     (if hasField v ''start'' \<or> hasField v ''end'' then v
      else if ev_AllDay e \<and> \<not> ev_End e > ev_Start e then Add v ''end'' ''must be after start''
      else if \<not> ev_AllDay e \<and> ev_End e < ev_Start e then Add v ''end'' ''must not be before start''
      else if time_sub (ev_End e) (ev_Start e) > MaxEventDuration then Add v ''end'' ''event must not be longer than 366 days''
      else v)"

definition validateEvent :: "service_env \<Rightarrow> ValidationError \<Rightarrow> Event \<Rightarrow> bool \<Rightarrow> ValidationError" where
  "validateEvent env v e uidSet = validateTimes (validateFields env v e uidSet) e"

definition sameTiming :: "Event \<Rightarrow> Event \<Rightarrow> bool" where
  "sameTiming a b \<longleftrightarrow> ev_Start a = ev_Start b \<and> ev_End a = ev_End b \<and> ev_AllDay a = ev_AllDay b \<and>
     (ev_AllDay a \<or> ev_TZ a = ev_TZ b) \<and> ev_RRule a = ev_RRule b \<and> ev_RDate a = ev_RDate b \<and> ev_ExDate a = ev_ExDate b"

text \<open>The texts and the all-day flag, the first steps of \<open>applyEvent\<close>.\<close>

definition applyTexts :: "Event \<Rightarrow> EventPatch \<Rightarrow> bool \<Rightarrow> ValidationError \<times> Event" where
  "applyTexts e p isNew =
     (let (v1, uid) =
            (if opt_Set (evp_UID p)
             then (if \<not> isNew then (Add [] ''uid'' ''cannot be changed'', ev_UID e)
                   else case Value (evp_UID p) [] ''uid'' of (v, Some x) \<Rightarrow> (v, trim_space x) | (v, None) \<Rightarrow> (v, ev_UID e))
             else ([], ev_UID e));
          e1 = e\<lparr>ev_UID := uid, ev_Title := setText (evp_Title p) (ev_Title e) True,
                 ev_Body := setText (evp_Body p) (ev_Body e) False,
                 ev_Location := setText (evp_Location p) (ev_Location e) True,
                 ev_URL := setText (evp_URL p) (ev_URL e) True\<rparr>
      in case Value (evp_AllDay p) v1 ''all_day'' of
           (v2, Some x) \<Rightarrow> (v2, e1\<lparr>ev_AllDay := x\<rparr>)
         | (v2, None) \<Rightarrow> (v2, e1))"

definition applyEvent :: "service_env \<Rightarrow> Event \<Rightarrow> EventPatch \<Rightarrow> bool \<Rightarrow> go_error option \<times> Event" where
  "applyEvent env bef p isNew =
     (let (v1, e1) = applyTexts bef p isNew;
          switched = (ev_AllDay e1 \<noteq> ev_AllDay bef);
          (v2, e2) = applyTimezone env v1 e1 (evp_Timezone p);
          (v3, e3) = applyTiming env v2 e2 bef p (isNew \<or> switched);
          (v4, e4) = applyRecurrence env v3 e3 p switched;
          (v5, e5) = applyChoices v4 e4 p;
          v6 = validateEvent env v5 e5 (opt_Set (evp_UID p));
          e6 = (if \<not> isNew \<and> \<not> sameTiming bef e5 then e5\<lparr>ev_Sequence := ev_Sequence e5 + 1\<rparr> else e5)
      in (Err v6, e6))"

definition range_check :: "ValidationError \<Rightarrow> string \<Rightarrow> string \<Rightarrow> bool \<Rightarrow> ValidationError" where
  "range_check v field given ok =
     (if trim_space given = [] then Add v field ''is required''
      else if \<not> ok then Add v field ''must be a date-time like 2026-09-07T00:00:00+03:00 or a date like 2026-09-07''
      else v)"

definition parseRange :: "ValidationError \<Rightarrow> string \<Rightarrow> string \<Rightarrow> location \<Rightarrow> ValidationError \<times> go_time \<times> go_time" where
  "parseRange v from to loc =
     (let f = parseInstant from loc; t = parseInstant to loc;
          v1 = range_check v ''from'' from (f \<noteq> None);
          v2 = range_check v1 ''to'' to (t \<noteq> None);
          v3 = (case (f, t) of
                  (Some x, Some y) \<Rightarrow>
                    if \<not> y > x then Add v2 ''to'' ''must be after from''
                    else if time_sub y x > maxRange then Add v2 ''to'' ''range must be at most 400 days'' else v2
                | _ \<Rightarrow> v2)
      in (v3, (case f of Some x \<Rightarrow> x | None \<Rightarrow> zero_time), (case t of Some y \<Rightarrow> y | None \<Rightarrow> zero_time)))"

subsection \<open>What a patch may do\<close>

definition event_valid :: "service_env \<Rightarrow> Event \<Rightarrow> bool" where
  "event_valid env e \<longleftrightarrow>
     (if ev_AllDay e then ev_Start e < ev_End e else ev_Start e \<le> ev_End e \<and> ev_TZ e \<noteq> []) \<and>
     time_sub (ev_End e) (ev_Start e) \<le> MaxEventDuration \<and>
     rune_count (ev_Title e) \<le> 1000 \<and> rune_count (ev_Body e) \<le> 100000 \<and> rune_count (ev_Location e) \<le> 1000 \<and>
     (ev_URL e = [] \<or> length (ev_URL e) \<le> 2048 \<and> validURL env (ev_URL e))"

definition choices_ok :: "Event \<Rightarrow> bool" where
  "choices_ok e \<longleftrightarrow> ev_Status e \<in> set statuses \<and> ev_Transparency e \<in> set transparencies \<and> ev_Visibility e \<in> set visibilities"

definition lists_ok :: "Event \<Rightarrow> bool" where
  "lists_ok e \<longleftrightarrow> sorted_wrt (<) (ev_RDate e) \<and> length (ev_RDate e) \<le> maxRDates \<and>
     sorted_wrt (<) (ev_ExDate e) \<and> length (ev_ExDate e) \<le> maxExDates \<and>
     (IsOverride e \<longrightarrow> ev_RRule e = [] \<and> ev_RDate e = [] \<and> ev_ExDate e = [])"

text \<open>What no patch changes.\<close>

definition event_key :: "Event \<Rightarrow> go_id \<times> go_id \<times> go_id \<times> go_id option \<times> go_time option \<times> bool \<times> int" where
  "event_key e = (ev_ID e, ev_OwnerID e, ev_CalendarID e, ev_SeriesID e, ev_RecurrenceID e, ev_ReadOnly e, ev_Version e)"

lemma Add_not_Nil [simp]: "Add v f m \<noteq> []"
  by (simp add: Add_def)

lemma rune_count_nonneg: "0 \<le> rune_count s"
  by (simp add: rune_count_def)

lemma Length_Nil: "Length v f s 0 hi = [] \<longleftrightarrow> v = [] \<and> rune_count s \<le> hi"
  using rune_count_nonneg [of s] by (auto simp: Length_def Let_def)

lemma validateFields_Nil:
  "validateFields env v e u = [] \<longleftrightarrow> v = [] \<and> \<not> (u \<and> (rune_count (ev_UID e) < 1 \<or> length (ev_UID e) > 1000 \<or> has_control (ev_UID e))) \<and>
     rune_count (ev_Title e) \<le> 1000 \<and> rune_count (ev_Body e) \<le> 100000 \<and> rune_count (ev_Location e) \<le> 1000 \<and>
     (ev_URL e = [] \<or> length (ev_URL e) \<le> 2048 \<and> validURL env (ev_URL e)) \<and> (ev_AllDay e \<or> ev_TZ e \<noteq> [])"
  by (auto simp: validateFields_def Let_def Length_Nil split: if_splits)

lemma validateEvent_Nil:
  "validateEvent env v e u = [] \<longleftrightarrow> v = [] \<and> event_valid env e \<and>
     \<not> (u \<and> (rune_count (ev_UID e) < 1 \<or> length (ev_UID e) > 1000 \<or> has_control (ev_UID e)))"
proof (cases "validateFields env v e u = []")
  case True
  note facts = True [unfolded validateFields_Nil]
  have "validateTimes [] e = [] \<longleftrightarrow> (if ev_AllDay e then ev_Start e < ev_End e else ev_Start e \<le> ev_End e) \<and>
      time_sub (ev_End e) (ev_Start e) \<le> MaxEventDuration"
    by (auto simp: validateTimes_def hasField_def)
  moreover have "validateEvent env v e u = validateTimes [] e" by (simp add: validateEvent_def True)
  ultimately show ?thesis unfolding event_valid_def using facts by (cases "ev_AllDay e") simp_all
next
  case False
  then have "validateTimes (validateFields env v e u) e \<noteq> []" by (simp add: validateTimes_def)
  then have "validateEvent env v e u \<noteq> []" by (simp add: validateEvent_def)
  with False [unfolded validateFields_Nil] show ?thesis unfolding event_valid_def by (cases "ev_AllDay e"; simp; blast)
qed

text \<open>No step removes an error.\<close>

lemma Value_Nil: "Value o1 v f = ([], x) \<Longrightarrow> v = []"
  by (auto simp: Value_def split: if_splits)

lemma applyTexts_shape:
  assumes "applyTexts e p n = (v, e')"
  obtains uid ti bo lo ur ad where "e' = e\<lparr>ev_UID := uid, ev_Title := ti, ev_Body := bo, ev_Location := lo, ev_URL := ur, ev_AllDay := ad\<rparr>"
    "\<not> n \<Longrightarrow> v = [] \<Longrightarrow> uid = ev_UID e"
proof -
  obtain v1 uid where u: "(if opt_Set (evp_UID p)
      then (if \<not> n then (Add [] ''uid'' ''cannot be changed'', ev_UID e)
            else case Value (evp_UID p) [] ''uid'' of (v, Some x) \<Rightarrow> (v, trim_space x) | (v, None) \<Rightarrow> (v, ev_UID e))
      else ([], ev_UID e)) = (v1, uid)" by fastforce
  obtain v2 a where w: "Value (evp_AllDay p) v1 ''all_day'' = (v2, a)" by fastforce
  have "v2 = [] \<Longrightarrow> v1 = []" using Value_Nil w by blast
  moreover have "\<not> n \<Longrightarrow> v1 = [] \<Longrightarrow> uid = ev_UID e" using u by (auto split: if_splits)
  moreover have "v2 = v \<and> e' = e\<lparr>ev_UID := uid, ev_Title := setText (evp_Title p) (ev_Title e) True,
      ev_Body := setText (evp_Body p) (ev_Body e) False, ev_Location := setText (evp_Location p) (ev_Location e) True,
      ev_URL := setText (evp_URL p) (ev_URL e) True, ev_AllDay := (case a of Some x \<Rightarrow> x | None \<Rightarrow> ev_AllDay e)\<rparr>"
    using assms [unfolded applyTexts_def u Let_def prod.case w] by (cases a) auto
  ultimately show thesis using that by blast
qed

lemma applyTexts_key: "applyTexts e p n = (v, e') \<Longrightarrow> event_key e' = event_key e \<and> choices_ok e' = choices_ok e \<and> lists_ok e' = lists_ok e \<and>
    ev_Sequence e' = ev_Sequence e"
  by (erule applyTexts_shape) (simp add: event_key_def choices_ok_def lists_ok_def IsOverride_def)

lemma applyTexts_UID: "applyTexts e p False = ([], e') \<Longrightarrow> ev_UID e' = ev_UID e"
  by (erule applyTexts_shape) simp

lemma applyTimezone_key: "applyTimezone env v e o1 = (v', e') \<Longrightarrow> event_key e' = event_key e \<and> choices_ok e' = choices_ok e \<and>
    lists_ok e' = lists_ok e \<and> ev_Sequence e' = ev_Sequence e \<and> ev_UID e' = ev_UID e \<and> (v' = [] \<longrightarrow> v = [])"
  by (auto simp: applyTimezone_def Let_def event_key_def choices_ok_def lists_ok_def IsOverride_def split: if_splits)

lemma applyStart_key: "applyStart env v e p n = Inr (e', b) \<Longrightarrow> \<exists>t. e' = e\<lparr>ev_Start := t\<rparr>"
  by (auto simp: applyStart_def Let_def split: if_splits option.splits intro: exI [of _ "ev_Start e"])

lemma applyStart_Inl: "applyStart env v e p n = Inl v' \<Longrightarrow> v' \<noteq> []"
  by (auto simp: applyStart_def Let_def split: if_splits option.splits)

lemma applyTiming_key:
  assumes "applyTiming env v e bef p n = (v', e')"
  shows "event_key e' = event_key e \<and> choices_ok e' = choices_ok e \<and> lists_ok e' = lists_ok e \<and>
    ev_Sequence e' = ev_Sequence e \<and> ev_UID e' = ev_UID e \<and> (v' = [] \<longrightarrow> v = [])"
proof -
  have "\<exists>t u. e' = e\<lparr>ev_Start := t, ev_End := u\<rparr>"
  proof (cases "applyStart env v e p n")
    case (Inl x)
    then have "e' = e\<lparr>ev_Start := ev_Start e, ev_End := ev_End e\<rparr>" using assms by (simp add: applyTiming_def)
    then show ?thesis by blast
  next
    case (Inr q)
    then obtain t b where "applyStart env v e p n = Inr (e\<lparr>ev_Start := t\<rparr>, b)" using applyStart_key by (metis prod.collapse)
    then have "e' = e\<lparr>ev_Start := t, ev_End := ev_End e'\<rparr>"
      using assms by (auto simp: applyTiming_def Let_def split: if_splits option.splits)
    then show ?thesis by blast
  qed
  moreover have "v' = [] \<longrightarrow> v = []"
    using assms by (auto simp: applyTiming_def Let_def dest: applyStart_Inl split: if_splits option.splits sum.splits)
  ultimately show ?thesis by (auto simp: event_key_def choices_ok_def lists_ok_def IsOverride_def)
qed

lemma compact_sort: "sorted_wrt (<) (compact (=) (sort xs))" "length (compact (=) (sort xs)) \<le> length xs" for xs :: "go_time list"
  using compact_sorted_distinct(1) [of "sort xs"] remdups_adj_length [of "sort xs"] by (simp_all add: compact_eq_remdups_adj)

lemma parse_all_length: "parse_all env e ss = Some ts \<Longrightarrow> length ts = length ss"
  by (induction ss arbitrary: ts) (auto split: option.splits)

lemma applyDates_ok:
  assumes "applyDates env v f o1 cur e limit = (v', out)" "sorted_wrt (<) cur" "length cur \<le> limit"
  shows "sorted_wrt (<) out \<and> length out \<le> limit \<and> (v' = [] \<longrightarrow> v = [])"
proof (cases "parse_all env e (opt_V o1)")
  case None
  then show ?thesis using assms by (auto simp: applyDates_def split: if_splits)
next
  case (Some ts)
  have "length (compact (=) (sort ts)) \<le> length (opt_V o1)" using compact_sort(2) [of ts] parse_all_length [OF Some] by simp
  then show ?thesis using assms Some compact_sort(1) [of ts] by (auto simp: applyDates_def split: if_splits)
qed

lemma applyRecurrence_key:
  assumes "applyRecurrence env v e p sw = (v', e')" "lists_ok e"
  shows "event_key e' = event_key e \<and> choices_ok e' = choices_ok e \<and> lists_ok e' \<and>
    ev_Sequence e' = ev_Sequence e \<and> ev_UID e' = ev_UID e \<and> (v' = [] \<longrightarrow> v = [])"
proof -
  define x where "x = (if sw then e\<lparr>ev_RDate := (if \<not> opt_Set (evp_RDate p) then [] else ev_RDate e),
                       ev_ExDate := (if \<not> opt_Set (evp_ExDate p) then [] else ev_ExDate e)\<rparr> else e)"
  have x: "event_key x = event_key e" "choices_ok x = choices_ok e" "lists_ok x" "ev_Sequence x = ev_Sequence e" "ev_UID x = ev_UID e"
    using assms(2) by (auto simp: x_def event_key_def choices_ok_def lists_ok_def IsOverride_def)
  show ?thesis
  proof (cases "IsOverride x")
    case True
    then show ?thesis using assms(1) x by (auto simp: applyRecurrence_def x_def [symmetric] Let_def split: if_splits)
  next
    case False
    obtain v1 e1 where r1: "applyRule env v x p = (v1, e1)" by fastforce
    then have e1: "\<exists>u. e1 = x\<lparr>ev_RRule := u\<rparr>" "v1 = [] \<longrightarrow> v = []"
      by (auto simp: applyRule_def Let_def split: if_splits sum.splits intro: exI [of _ "ev_RRule x"])
    obtain v2 rd where d1: "applyDates env v1 ''rdate'' (evp_RDate p) (ev_RDate e1) e1 maxRDates = (v2, rd)" by fastforce
    obtain v3 xd where d2: "applyDates env v2 ''exdate'' (evp_ExDate p) (ev_ExDate e1) e1 maxExDates = (v3, xd)" by fastforce
    have "(v', e') = (v3, e1\<lparr>ev_RDate := rd, ev_ExDate := xd\<rparr>)"
      using assms(1) False r1 d1 d2 by (simp add: applyRecurrence_def x_def [symmetric] Let_def)
    moreover have "sorted_wrt (<) rd \<and> length rd \<le> maxRDates \<and> (v2 = [] \<longrightarrow> v1 = [])"
      by (rule applyDates_ok [OF d1]) (use e1 x(3) in \<open>auto simp: lists_ok_def\<close>)
    moreover have "sorted_wrt (<) xd \<and> length xd \<le> maxExDates \<and> (v3 = [] \<longrightarrow> v2 = [])"
      by (rule applyDates_ok [OF d2]) (use e1 x(3) in \<open>auto simp: lists_ok_def\<close>)
    moreover obtain u where "e1 = x\<lparr>ev_RRule := u\<rparr>" using e1 by blast
    ultimately have e': "e' = x\<lparr>ev_RRule := u, ev_RDate := rd, ev_ExDate := xd\<rparr>" and
      lists: "sorted_wrt (<) rd" "length rd \<le> maxRDates" "sorted_wrt (<) xd" "length xd \<le> maxExDates" and "v' = [] \<longrightarrow> v = []"
      using e1(2) by auto
    have "\<not> IsOverride e'" using False by (simp add: e' IsOverride_def)
    then have "lists_ok e'" using lists by (simp add: lists_ok_def e')
    moreover have "event_key e' = event_key x \<and> choices_ok e' = choices_ok x \<and> ev_Sequence e' = ev_Sequence x \<and> ev_UID e' = ev_UID x"
      by (simp add: e' event_key_def choices_ok_def)
    ultimately show ?thesis using x \<open>v' = [] \<longrightarrow> v = []\<close> by simp
  qed
qed

text \<open>The sequence number is not part of any check.\<close>

lemma sequence_irrelevant:
  "event_valid env (e\<lparr>ev_Sequence := n\<rparr>) = event_valid env e" "choices_ok (e\<lparr>ev_Sequence := n\<rparr>) = choices_ok e"
  "lists_ok (e\<lparr>ev_Sequence := n\<rparr>) = lists_ok e" "event_key (e\<lparr>ev_Sequence := n\<rparr>) = event_key e"
  "sameTiming b (e\<lparr>ev_Sequence := n\<rparr>) = sameTiming b e"
  by (simp_all add: event_valid_def choices_ok_def lists_ok_def IsOverride_def event_key_def sameTiming_def)

lemma choice_ok: "choice v o1 f dst allowed = (v', x) \<Longrightarrow> dst \<in> set allowed \<Longrightarrow> x \<in> set allowed \<and> (v' = [] \<longrightarrow> v = [])"
  by (auto simp: choice_def dest: Value_Nil split: prod.splits option.splits if_splits)

lemma NormalizeReminders_Nil: "NormalizeReminders v f xs = ([], out) \<Longrightarrow> v = []"
  by (auto simp: NormalizeReminders_def Let_def split: if_splits)

lemma applyChoices_key:
  assumes "applyChoices v e p = (v', e')" "choices_ok e"
  shows "event_key e' = event_key e \<and> choices_ok e' \<and> lists_ok e' = lists_ok e \<and> sameTiming e e' \<and>
    ev_Sequence e' = ev_Sequence e \<and> ev_UID e' = ev_UID e \<and> (v' = [] \<longrightarrow> v = [])"
proof -
  obtain v1 st where c1: "choice v (evp_Status p) ''status'' (ev_Status e) statuses = (v1, st)" by fastforce
  obtain v2 tr where c2: "choice v1 (evp_Transparency p) ''transparency'' (ev_Transparency e) transparencies = (v2, tr)" by fastforce
  obtain v3 vi where c3: "choice v2 (evp_Visibility p) ''visibility'' (ev_Visibility e) visibilities = (v3, vi)" by fastforce
  have in_lists: "st \<in> set statuses" "tr \<in> set transparencies" "vi \<in> set visibilities" "v3 = [] \<longrightarrow> v = []"
    using choice_ok [OF c1] choice_ok [OF c2] choice_ok [OF c3] assms(2) by (auto simp: choices_ok_def)
  have "\<exists>co re. e' = e\<lparr>ev_Status := st, ev_Transparency := tr, ev_Visibility := vi, ev_Color := co, ev_Reminders := re\<rparr>"
    using assms(1) c1 c2 c3 by (auto simp: applyChoices_def Let_def split: prod.splits)
  moreover have "v' = [] \<longrightarrow> v3 = []"
    using assms(1) c1 c2 c3 by (auto simp: applyChoices_def Let_def dest: NormalizeReminders_Nil split: prod.splits if_splits)
  ultimately show ?thesis using in_lists by (auto simp: event_key_def choices_ok_def lists_ok_def IsOverride_def sameTiming_def)
qed

text \<open>Whatever a patch does, accepted or not, it does not touch the key.\<close>

lemma applyRecurrence_event_key:
  assumes "applyRecurrence env v e p sw = (v', e')"
  shows "event_key e' = event_key e"
proof -
  define x where "x = (if sw then e\<lparr>ev_RDate := (if \<not> opt_Set (evp_RDate p) then [] else ev_RDate e),
                       ev_ExDate := (if \<not> opt_Set (evp_ExDate p) then [] else ev_ExDate e)\<rparr> else e)"
  have x: "event_key x = event_key e" by (simp add: x_def event_key_def)
  obtain v1 e1 where r1: "applyRule env v x p = (v1, e1)" by fastforce
  then have "\<exists>u. e1 = x\<lparr>ev_RRule := u\<rparr>"
    by (auto simp: applyRule_def Let_def split: if_splits sum.splits intro: exI [of _ "ev_RRule x"])
  then have "event_key (e1\<lparr>ev_RDate := rd, ev_ExDate := xd\<rparr>) = event_key x" for rd xd by (auto simp: event_key_def)
  then show ?thesis using assms x r1
    by (auto simp: applyRecurrence_def x_def [symmetric] Let_def case_prod_beta split: if_splits)
qed

lemma applyChoices_event_key: "event_key (snd (applyChoices v e p)) = event_key e"
  by (simp add: applyChoices_def Let_def case_prod_beta event_key_def)

lemma applyEvent_key:
  assumes "applyEvent env e p isNew = (r, e')"
  shows "event_key e' = event_key e"
proof -
  obtain v1 e1 where s1: "applyTexts e p isNew = (v1, e1)" by fastforce
  define sw where "sw = (ev_AllDay e1 \<noteq> ev_AllDay e)"
  obtain v2 e2 where s2: "applyTimezone env v1 e1 (evp_Timezone p) = (v2, e2)" by fastforce
  obtain v3 e3 where s3: "applyTiming env v2 e2 e p (isNew \<or> sw) = (v3, e3)" by fastforce
  obtain v4 e4 where s4: "applyRecurrence env v3 e3 p sw = (v4, e4)" by fastforce
  obtain v5 e5 where s5: "applyChoices v4 e4 p = (v5, e5)" by fastforce
  have "event_key e' = event_key e5"
    using assms [unfolded applyEvent_def Let_def s1 prod.case, folded sw_def, unfolded s2 prod.case s3 s4 s5]
    by (auto simp: sequence_irrelevant split: if_splits)
  then show ?thesis using applyTexts_key [OF s1] applyTimezone_key [OF s2] applyTiming_key [OF s3]
      applyRecurrence_event_key [OF s4] applyChoices_event_key [of v4 e4 p] s5 by simp
qed


definition EventPatch0 :: EventPatch where
  "EventPatch0 = \<lparr>evp_CalendarID = Opt_unset [], evp_UID = Opt_unset [], evp_Title = Opt_unset [], evp_Body = Opt_unset [],
     evp_Location = Opt_unset [], evp_URL = Opt_unset [], evp_AllDay = Opt_unset False, evp_Start = Opt_unset [],
     evp_End = Opt_unset [], evp_Timezone = Opt_unset [], evp_RRule = Opt_unset [], evp_RDate = Opt_unset [],
     evp_ExDate = Opt_unset [], evp_Status = Opt_unset [], evp_Transparency = Opt_unset [], evp_Visibility = Opt_unset [],
     evp_Color = Opt_unset [], evp_Reminders = Opt_unset []\<rparr>"

definition demo_env :: service_env where
  "demo_env = \<lparr>en_lib = demo_lib, en_zones = (\<lambda>z. None), en_url = (\<lambda>s. None), en_id_text = (\<lambda>i. nat_digits i), en_ParseID = (\<lambda>s. None)\<rparr>"

definition demo_plain :: Event where
  "demo_plain = Event0\<lparr>ev_AllDay := True, ev_Start := 0, ev_End := day, ev_Status := ''confirmed'',
     ev_Transparency := ''opaque'', ev_Visibility := ''default''\<rparr>"

definition demo_patch :: EventPatch where
  "demo_patch = EventPatch0\<lparr>evp_Title := Opt_Some '' trip '', evp_Start := Opt_Some ''1970-01-03''\<rparr>"


end
