(* ===== verification/Event_Store.thy ===== *)
theory Event_Store
  imports Event_Apply Realtime Jobs
begin

text \<open>
  The tables behind events, \<open>internal/store/pg/events.go\<close> with \<open>changes.go\<close>, \<open>reminders.go\<close> and the queue
  of \<open>sync.go\<close>: one function per statement on a record of tables, with the checks, unique indexes and
  foreign keys the migrations declare.  Times have the resolution of a database column, and an event
  is kept beside its \<open>span\<close> column.
\<close>

subsection \<open>Tables\<close>

record SyncMapping =
  sm_BindingID :: go_id
  sm_Entity :: string
  sm_LocalID :: go_id
  sm_RemoteID :: string
  sm_RemoteETag :: string
  sm_RemoteUpdated :: "go_time option"
  sm_LocalVersion :: int
  sm_RemoteDueDate :: "go_time option"

record outbox_row =
  ob_ID :: int
  ob_BindingID :: go_id
  ob_Entity :: string
  ob_LocalID :: go_id
  ob_Op :: string
  ob_RemoteID :: "string option"
  ob_Attempts :: int
  ob_NextAttempt :: go_time
  ob_LastError :: "string option"

text \<open>A range of times: its lower bound, and its upper bound, when it has one, with its kind.\<close>

type_synonym db_span = "go_time \<times> (go_time \<times> bool) option"

type_synonym event_row = "Event \<times> db_span"

record cal_db =
  cd_users :: "User list"
  cd_calendars :: "Calendar list"
  cd_events :: "event_row list"
  cd_bindings :: "SyncBinding list"
  cd_mappings :: "SyncMapping list"
  cd_outbox :: "outbox_row list"
  cd_outbox_next :: int
  cd_jobs :: jobs_db
  cd_changes :: "Change list"
  cd_now :: go_time

text \<open>What a transaction is opened with.\<close>

record tx_ctx =
  tx_env :: service_env
  tx_owner :: go_id
  tx_origin :: string

subsection \<open>Columns\<close>

text \<open>A timestamp column holds whole microseconds, a date column whole days.\<close>

definition db_time :: "go_time \<Rightarrow> go_time" where
  "db_time t = t div 1000 * 1000"

definition db_date :: "go_time \<Rightarrow> go_time" where
  "db_date t = t div day * day"

definition tstzrange :: "go_time \<Rightarrow> go_time option \<Rightarrow> db_span" where
  "tstzrange from to = (db_time from, map_option (\<lambda>t. (db_time t, \<not> t > from)) to)"

definition rangeBounds :: "db_span \<Rightarrow> go_time option \<times> go_time option" where
  "rangeBounds r = (Some (fst r), map_option fst (snd r))"

definition range_merge :: "db_span \<Rightarrow> db_span \<Rightarrow> db_span" where
  "range_merge a b =
     (min (fst a) (fst b),
      case (snd a, snd b) of (Some x, Some y) \<Rightarrow> Some (if fst x < fst y \<or> fst x = fst y \<and> snd y then y else x) | _ \<Rightarrow> None)"

text \<open>\<open>span && tstzrange(from, to)\<close>, the second range without its upper end.\<close>

definition range_overlaps :: "db_span \<Rightarrow> go_time \<Rightarrow> go_time \<Rightarrow> bool" where
  "range_overlaps r from to \<longleftrightarrow> db_time from < db_time to \<and> fst r < db_time to \<and>
     (case snd r of None \<Rightarrow> True | Some (u, incl) \<Rightarrow> if incl then db_time from \<le> u else db_time from < u)"

text \<open>An event as its row gives it back: \<open>toEventRow\<close>, then \<open>scanEvent\<close> and the reminders of their own table.\<close>

definition stored_event :: "Event \<Rightarrow> Event" where
  "stored_event e =
     e\<lparr>ev_RecurrenceID := map_option db_time (ev_RecurrenceID e),
       ev_Start := (if ev_AllDay e then db_date (ev_Start e) else db_time (ev_Start e)),
       ev_End := (if ev_AllDay e then db_date (ev_End e) else db_time (ev_End e)),
       ev_TZ := (if ev_AllDay e then [] else ev_TZ e),
       ev_RDate := map db_time (ev_RDate e), ev_ExDate := map db_time (ev_ExDate e),
       ev_Sequence := wrap32 (ev_Sequence e), ev_Reminders := compact (=) (sort (ev_Reminders e))\<rparr>"

definition row_span :: "service_env \<Rightarrow> Event \<Rightarrow> db_span" where
  "row_span env e = (case event_Span (en_lib env) (en_zones env) e of (from, to) \<Rightarrow> tstzrange from to)"

subsection \<open>Constraints\<close>

definition url_check :: "string \<Rightarrow> bool" where
  "url_check u \<longleftrightarrow> u = [] \<or>
     (let low = to_lower u;
          rest = (if has_prefix low ''https://'' then drop 8 u else drop 7 u)
      in (has_prefix low ''http://'' \<or> has_prefix low ''https://'') \<and> rest \<noteq> [] \<and>
         hd rest \<notin> {CHR ''/'', CHR ''?'', CHR ''#''} \<and> \<not> list_ex (\<lambda>c. [c] \<in> set space_seqs) rest)"

definition event_check :: "event_row \<Rightarrow> bool" where
  "event_check r \<longleftrightarrow> (case r of (e, lo, hi) \<Rightarrow>
     (if ev_AllDay e then ev_End e > ev_Start e else ev_End e \<ge> ev_Start e \<and> ev_TZ e \<noteq> []) \<and>
     (case hi of None \<Rightarrow> True | Some (u, incl) \<Rightarrow> lo < u \<or> lo = u \<and> incl) \<and>
     ((ev_SeriesID e = None) = (ev_RecurrenceID e = None)) \<and>
     (ev_SeriesID e = None \<or> ev_RRule e = [] \<and> ev_RDate e = [] \<and> ev_ExDate e = []) \<and>
     ev_SeriesID e \<noteq> Some (ev_ID e) \<and>
     ev_Status e \<in> set statuses \<and> ev_Transparency e \<in> set transparencies \<and> ev_Visibility e \<in> set visibilities \<and>
     (ev_Color e = [] \<or> colorPattern (ev_Color e)) \<and>
     1 \<le> rune_count (ev_UID e) \<and> rune_count (ev_UID e) \<le> 1000 \<and> rune_count (ev_Title e) \<le> 1000 \<and>
     rune_count (ev_Body e) \<le> 100000 \<and> rune_count (ev_Location e) \<le> 1000 \<and> rune_count (ev_URL e) \<le> 2048 \<and>
     url_check (ev_URL e) \<and> rune_count (ev_RRule e) \<le> 1000 \<and>
     length (ev_RDate e) \<le> maxRDates \<and> length (ev_ExDate e) \<le> maxExDates \<and>
     list_all (\<lambda>m. 0 \<le> m \<and> m \<le> MaxReminderMinutes) (ev_Reminders e))"

definition live_rows :: "event_row list \<Rightarrow> Event list" where
  "live_rows evs = filter (\<lambda>e. ev_DeletedAt e = None) (map fst evs)"

text \<open>The primary key, the calendar's unique UIDs and the series' unique recurrence ids.\<close>

definition event_keys :: "event_row list \<Rightarrow> bool" where
  "event_keys evs \<longleftrightarrow> distinct (map (ev_ID \<circ> fst) evs) \<and>
     distinct (map (\<lambda>e. (ev_CalendarID e, ev_UID e)) (filter (\<lambda>e. ev_SeriesID e = None) (live_rows evs))) \<and>
     distinct (map (\<lambda>e. (ev_SeriesID e, ev_RecurrenceID e)) (filter (\<lambda>e. ev_SeriesID e \<noteq> None) (live_rows evs)))"

definition event_refs :: "Calendar list \<Rightarrow> event_row list \<Rightarrow> bool" where
  "event_refs cals evs \<longleftrightarrow> list_all (\<lambda>(e, s).
     list_ex (\<lambda>c. cal_ID c = ev_CalendarID e \<and> cal_OwnerID c = ev_OwnerID e) cals \<and>
     (case ev_SeriesID e of None \<Rightarrow> True
      | Some m \<Rightarrow> list_ex (\<lambda>(x, s). ev_ID x = m \<and> ev_CalendarID x = ev_CalendarID e) evs)) evs"

text \<open>A statement that rewrites the table succeeds when every constraint holds afterwards; \<open>mapErr\<close> names the failure.\<close>

definition commit_events :: "cal_db \<Rightarrow> event_row list \<Rightarrow> go_error + cal_db" where
  "commit_events db evs =
     (if \<not> list_all event_check evs then Inl (Wrap ErrInvalid ''check violation'')
      else if \<not> event_keys evs then Inl (Wrap ErrConflict ''unique violation'')
      else if \<not> event_refs (cd_calendars db) evs then Inl (Wrap ErrNotFound ''foreign key violation'')
      else Inr (db\<lparr>cd_events := evs\<rparr>))"

subsection \<open>Changes and the outgoing queue\<close>

definition recordChange :: "tx_ctx \<Rightarrow> cal_db \<Rightarrow> Change \<Rightarrow> cal_db" where
  "recordChange t db c =
     db\<lparr>cd_changes := cd_changes db @ [c\<lparr>ch_Seq := int (length (cd_changes db)) + 1,
          ch_Origin := (if ch_Origin c = [] then tx_origin t else ch_Origin c)\<rparr>]\<rparr>"

text \<open>The bindings a change concerns, each with the remote id of its mapping.\<close>

definition push_targets :: "tx_ctx \<Rightarrow> cal_db \<Rightarrow> string \<Rightarrow> go_id \<Rightarrow> go_id option \<Rightarrow> go_id option \<Rightarrow> (go_id \<times> string option) list" where
  "push_targets t db entity i cal lst =
     map (\<lambda>b. (sb_ID b, map_option sm_RemoteID
                 (find (\<lambda>m. sm_BindingID m = sb_ID b \<and> sm_Entity m = entity \<and> sm_LocalID m = i) (cd_mappings db))))
       (filter (\<lambda>b. sb_OwnerID b = tx_owner t \<and> sb_Enabled b \<and> sb_Direction b \<in> {''both'', ''push''} \<and>
                    (cal \<noteq> None \<and> sb_CalendarID b = cal \<or> lst \<noteq> None \<and> sb_ListID b = lst)) (cd_bindings db))"

definition same_item :: "go_id \<Rightarrow> string \<Rightarrow> go_id \<Rightarrow> outbox_row \<Rightarrow> bool" where
  "same_item b entity i o1 \<longleftrightarrow> ob_BindingID o1 = b \<and> ob_Entity o1 = entity \<and> ob_LocalID o1 = i"

definition outbox_upsert :: "cal_db \<Rightarrow> string \<Rightarrow> go_id \<Rightarrow> string \<Rightarrow> go_id \<times> string option \<Rightarrow> cal_db" where
  "outbox_upsert db entity i op b =
     (if list_ex (same_item (fst b) entity i) (cd_outbox db)
      then db\<lparr>cd_outbox := map (\<lambda>o1. if same_item (fst b) entity i o1
                then o1\<lparr>ob_Op := op, ob_RemoteID := (case snd b of Some r \<Rightarrow> Some r | None \<Rightarrow> ob_RemoteID o1), ob_Attempts := 0,
                        ob_NextAttempt := cd_now db, ob_LastError := None\<rparr> else o1) (cd_outbox db),
              cd_outbox_next := cd_outbox_next db + 1\<rparr>
      else db\<lparr>cd_outbox := cd_outbox db @ [\<lparr>ob_ID = cd_outbox_next db, ob_BindingID = fst b, ob_Entity = entity, ob_LocalID = i,
                ob_Op = op, ob_RemoteID = snd b, ob_Attempts = 0, ob_NextAttempt = cd_now db, ob_LastError = None\<rparr>],
              cd_outbox_next := cd_outbox_next db + 1\<rparr>)"

definition push_job :: "tx_ctx \<Rightarrow> cal_db \<Rightarrow> go_id \<Rightarrow> cal_db" where
  "push_job t db b =
     (let txt = en_id_text (tx_env t) b in
      case enqueueSQL (cd_jobs db) (cd_now db) ''google_push'' (''{\"binding\": \"'' @ txt @ ''\"}'') (Some txt) None 0 10 of
        Inl x \<Rightarrow> db | Inr j \<Rightarrow> db\<lparr>cd_jobs := j\<rparr>)"

definition queueSync ::
  "tx_ctx \<Rightarrow> cal_db \<Rightarrow> string \<Rightarrow> go_id \<Rightarrow> string \<Rightarrow> go_id option \<Rightarrow> go_id option \<Rightarrow> cal_db" where
  "queueSync t db entity i op cal lst =
     (if tx_origin t = ''google'' then db
      else
        let syncOp = (if op = ''delete'' then ''delete'' else ''upsert'');
            b = push_targets t db entity i cal lst;
            ins = filter (\<lambda>x. syncOp = ''upsert'' \<or> snd x \<noteq> None) b;
            gone = filter (\<lambda>x. syncOp = ''delete'' \<and> snd x = None) b;
            db1 = fold (\<lambda>x d. outbox_upsert d entity i syncOp x) ins db;
            db2 = db1\<lparr>cd_outbox := filter (\<lambda>o1. \<not> list_ex (\<lambda>x. same_item (fst x) entity i o1) gone) (cd_outbox db1)\<rparr>
        in fold (\<lambda>x d. push_job t d (fst x)) ins db2)"

subsection \<open>Reading\<close>

definition event_visible :: "go_id \<Rightarrow> Event \<Rightarrow> bool" where
  "event_visible owner e \<longleftrightarrow> ev_OwnerID e = owner \<and> ev_DeletedAt e = None"

definition Event_get :: "cal_db \<Rightarrow> go_id \<Rightarrow> go_id \<Rightarrow> go_error + Event" where
  "Event_get db owner i =
     (case find (\<lambda>e. ev_ID e = i \<and> event_visible owner e) (map fst (cd_events db)) of
        None \<Rightarrow> Inl (Wrap ErrNotFound []) | Some e \<Rightarrow> Inr e)"

definition EventsInRange :: "cal_db \<Rightarrow> go_id \<Rightarrow> go_id list \<Rightarrow> go_time \<Rightarrow> go_time \<Rightarrow> Event list" where
  "EventsInRange db owner cals from to =
     map fst (filter (\<lambda>(e, s). event_visible owner e \<and> ev_CalendarID e \<in> set cals \<and> range_overlaps s from to) (cd_events db))"

definition OverridesOf :: "cal_db \<Rightarrow> go_id \<Rightarrow> go_id list \<Rightarrow> Event list" where
  "OverridesOf db owner ids =
     (if ids = [] then []
      else filter (\<lambda>e. event_visible owner e \<and> (case ev_SeriesID e of None \<Rightarrow> False | Some m \<Rightarrow> m \<in> set ids)) (map fst (cd_events db)))"

definition Override :: "cal_db \<Rightarrow> go_id \<Rightarrow> go_id \<Rightarrow> go_time \<Rightarrow> go_error + Event" where
  "Override db owner m at =
     (case find (\<lambda>e. event_visible owner e \<and> ev_SeriesID e = Some m \<and> ev_RecurrenceID e = Some (db_time at)) (map fst (cd_events db)) of
        None \<Rightarrow> Inl (Wrap ErrNotFound []) | Some e \<Rightarrow> Inr e)"

definition Overrides :: "cal_db \<Rightarrow> go_id \<Rightarrow> go_id \<Rightarrow> Event list" where
  "Overrides db owner m =
     sort_key (\<lambda>e. case ev_RecurrenceID e of None \<Rightarrow> 0 | Some t \<Rightarrow> t)
       (filter (\<lambda>e. event_visible owner e \<and> ev_SeriesID e = Some m) (map fst (cd_events db)))"

subsection \<open>Writing\<close>

definition event_change :: "tx_ctx \<Rightarrow> cal_db \<Rightarrow> Event \<Rightarrow> string \<Rightarrow> go_time option \<Rightarrow> go_time option \<Rightarrow> cal_db" where
  "event_change t db e op from to =
     (let db1 = recordChange t db (Change0\<lparr>ch_OwnerID := tx_owner t, ch_Entity := ''event'', ch_EntityID := ev_ID e, ch_Op := op,
                  ch_CalendarID := Some (ev_CalendarID e), ch_From := map_option db_time from, ch_To := map_option db_time to\<rparr>)
      in queueSync t db1 ''event'' (ev_ID e) op (Some (ev_CalendarID e)) None)"

definition span_reversed :: "db_span \<Rightarrow> bool" where
  "span_reversed s = (case snd s of None \<Rightarrow> False | Some (u, b) \<Rightarrow> u < fst s)"

definition badRange :: go_error where
  "badRange = Other ''range lower bound must be less than or equal to range upper bound''"

definition Event_Insert :: "tx_ctx \<Rightarrow> cal_db \<Rightarrow> Event \<Rightarrow> go_error + Event \<times> cal_db" where
  "Event_Insert t db e =
     (let row = (stored_event e)\<lparr>ev_OwnerID := tx_owner t, ev_Version := 1, ev_CreatedAt := cd_now db,
                  ev_UpdatedAt := cd_now db, ev_DeletedAt := None\<rparr>;
          s = row_span (tx_env t) e
      in if span_reversed s then Inl badRange
         else case commit_events db (cd_events db @ [(row, s)]) of
           Inl x \<Rightarrow> Inl x
         | Inr db1 \<Rightarrow>
             (case event_Span (en_lib (tx_env t)) (en_zones (tx_env t)) row of
                (from, to) \<Rightarrow> Inr (row, event_change t db1 row ''create'' (Some from) to)))"

text \<open>The new row of an update: the identity, the UID and the creation time stay.\<close>

definition updated_event :: "cal_db \<Rightarrow> Event \<Rightarrow> Event \<Rightarrow> Event" where
  "updated_event db e old =
     (stored_event e)\<lparr>ev_ID := ev_ID old, ev_OwnerID := ev_OwnerID old, ev_UID := ev_UID old, ev_Version := ev_Version old + 1,
       ev_CreatedAt := ev_CreatedAt old, ev_UpdatedAt := cd_now db, ev_DeletedAt := ev_DeletedAt old\<rparr>"

text \<open>The overrides of a row follow it to another calendar (\<open>ON UPDATE CASCADE\<close>).\<close>

definition cascade :: "Event \<Rightarrow> go_id \<Rightarrow> event_row \<Rightarrow> event_row" where
  "cascade old cal r =
     (if ev_SeriesID (fst r) = Some (ev_ID old) \<and> ev_CalendarID (fst r) = ev_CalendarID old
      then ((fst r)\<lparr>ev_CalendarID := cal\<rparr>, snd r) else r)"

definition updates_row :: "go_id \<Rightarrow> go_id \<Rightarrow> event_row \<Rightarrow> bool" where
  "updates_row owner i r \<longleftrightarrow> ev_ID (fst r) = i \<and> event_visible owner (fst r)"

definition Event_Update :: "tx_ctx \<Rightarrow> cal_db \<Rightarrow> Event \<Rightarrow> go_error + Event \<times> cal_db" where
  "Event_Update t db e =
     (let s = row_span (tx_env t) e in
      if span_reversed s then Inl badRange
      else case find (updates_row (tx_owner t) (ev_ID e)) (cd_events db) of
        None \<Rightarrow> Inl (Wrap ErrNotFound [])
      | Some (old, oldSpan) \<Rightarrow>
          let out = updated_event db e old;
              evs = map (\<lambda>r. if updates_row (tx_owner t) (ev_ID e) r then (out, s)
                             else cascade old (ev_CalendarID out) r) (cd_events db)
          in case commit_events db evs of
               Inl x \<Rightarrow> Inl x
             | Inr db1 \<Rightarrow>
                 let db2 = (if ev_CalendarID old \<noteq> ev_CalendarID out
                            then queueSync t db1 ''event'' (ev_ID out) ''delete'' (Some (ev_CalendarID old)) None else db1)
                 in (case rangeBounds (range_merge oldSpan s) of
                       (from, to) \<Rightarrow> Inr (out, event_change t db2 out ''update'' from to)))"

definition deletes_row :: "go_id \<Rightarrow> go_id \<Rightarrow> event_row \<Rightarrow> bool" where
  "deletes_row owner i r \<longleftrightarrow> event_visible owner (fst r) \<and> (ev_ID (fst r) = i \<or> ev_SeriesID (fst r) = Some i)"

definition Event_Delete :: "tx_ctx \<Rightarrow> cal_db \<Rightarrow> Event \<Rightarrow> go_time \<Rightarrow> go_error + cal_db" where
  "Event_Delete t db e at =
     (if \<not> list_ex (deletes_row (tx_owner t) (ev_ID e)) (cd_events db) then Inl (Wrap ErrNotFound [])
      else
        let db1 = db\<lparr>cd_events := map (\<lambda>r. if deletes_row (tx_owner t) (ev_ID e) r
                       then ((fst r)\<lparr>ev_DeletedAt := Some (db_time at), ev_Version := ev_Version (fst r) + 1,
                                     ev_UpdatedAt := cd_now db\<rparr>, snd r) else r) (cd_events db)\<rparr>
        in case event_Span (en_lib (tx_env t)) (en_zones (tx_env t)) e of
             (from, to) \<Rightarrow> Inr (event_change t db1 e ''delete'' (Some from) to))"

definition moves_row :: "go_id \<Rightarrow> go_id \<Rightarrow> go_time \<Rightarrow> event_row \<Rightarrow> bool" where
  "moves_row owner m since r \<longleftrightarrow> event_visible owner (fst r) \<and> ev_SeriesID (fst r) = Some m \<and>
     (case ev_RecurrenceID (fst r) of None \<Rightarrow> False | Some rid \<Rightarrow> db_time since \<le> rid)"

definition MoveOverrides :: "tx_ctx \<Rightarrow> cal_db \<Rightarrow> go_id \<Rightarrow> Event \<Rightarrow> go_time \<Rightarrow> go_error + cal_db" where
  "MoveOverrides t db from to since =
     commit_events db (map (\<lambda>r. if moves_row (tx_owner t) from since r
        then ((fst r)\<lparr>ev_SeriesID := Some (ev_ID to), ev_CalendarID := ev_CalendarID to, ev_UID := ev_UID to,
                      ev_Version := ev_Version (fst r) + 1, ev_UpdatedAt := cd_now db\<rparr>, snd r) else r) (cd_events db))"

text \<open>\<open>WithEvents\<close>: the work is kept when it succeeds and rolled back when it fails.\<close>

definition WithEvents :: "cal_db \<Rightarrow> (cal_db \<Rightarrow> go_error + 'a \<times> cal_db) \<Rightarrow> (go_error + 'a) \<times> cal_db" where
  "WithEvents db fn = (case fn db of Inl x \<Rightarrow> (Inl x, db) | Inr (r, db') \<Rightarrow> (Inr r, db'))"

end
