(* ===== verification/Events.thy ===== *)
theory Events
  imports Event_Store
begin

text \<open>
  The event service: \<open>internal/service/events.go\<close> with the helpers of \<open>common.go\<close>, over the tables of
  \<open>Event_Store\<close>.  Listings expand the series of a window; creation, edits and deletions of one
  occurrence, of the following ones or of the whole series run in one transaction.  Fresh ids and the
  clock are arguments; a nil pointer that the code would follow is the error \<open>nilPanic\<close>.
\<close>

subsection \<open>Shared helpers\<close>

text \<open>Later items replace earlier ones in the map; the default is the last one marked, or the first.\<close>

fun index_loop :: "('a \<Rightarrow> go_id \<times> bool) \<Rightarrow> 'a list \<Rightarrow> (go_id \<rightharpoonup> 'a) \<times> 'a \<times> bool \<Rightarrow> (go_id \<rightharpoonup> 'a) \<times> 'a \<times> bool" where
  "index_loop key [] r = r"
| "index_loop key (it # rest) (m, def1, found) =
     (case key it of (i, isDefault) \<Rightarrow>
        index_loop key rest (m(i \<mapsto> it), if isDefault \<or> \<not> found then (it, True) else (def1, found)))"

definition indexByID :: "'a \<Rightarrow> 'a list \<Rightarrow> ('a \<Rightarrow> go_id \<times> bool) \<Rightarrow> (go_id \<rightharpoonup> 'a) \<times> 'a" where
  "indexByID zero items key = (case index_loop key items (Map.empty, zero, False) of (m, d, f) \<Rightarrow> (m, d))"

definition userZone :: "service_env \<Rightarrow> cal_db \<Rightarrow> go_id \<Rightarrow> go_error + string \<times> location" where
  "userZone env db owner =
     (case find (\<lambda>u. us_ID u = owner) (cd_users db) of
        None \<Rightarrow> Inl (Wrap ErrNotFound [])
      | Some u \<Rightarrow>
          if us_Timezone u = [] then Inr (''UTC'', UTC)
          else case LoadLocation (en_zones env) (us_Timezone u) of None \<Rightarrow> Inr (''UTC'', UTC) | Some loc \<Rightarrow> Inr (us_Timezone u, loc))"

definition Calendar0 :: Calendar where
  "Calendar0 = \<lparr>cal_ID = NilID, cal_OwnerID = NilID, cal_Name = [], cal_Color = [], cal_Description = [], cal_Timezone = [],
     cal_Kind = [], cal_ReadOnly = False, cal_IsDefault = False, cal_Hidden = False, cal_Position = 0,
     cal_DefaultReminders = [], cal_CreatedAt = zero_time, cal_UpdatedAt = zero_time\<rparr>"

definition ListCalendars :: "cal_db \<Rightarrow> go_id \<Rightarrow> Calendar list" where
  "ListCalendars db owner =
     sort_key cal_Position (sort_key cal_CreatedAt (sort_key cal_ID (filter (\<lambda>c. cal_OwnerID c = owner) (cd_calendars db))))"

type_synonym cal_map = "go_id \<rightharpoonup> Calendar"

definition calendarMap :: "cal_db \<Rightarrow> go_id \<Rightarrow> cal_map \<times> Calendar" where
  "calendarMap db owner = indexByID Calendar0 (ListCalendars db owner) (\<lambda>c. (cal_ID c, cal_IsDefault c))"

definition pickCalendars :: "service_env \<Rightarrow> cal_db \<Rightarrow> go_id \<Rightarrow> ValidationError \<Rightarrow> string list \<Rightarrow> ValidationError \<times> go_id list" where
  "pickCalendars env db owner v ids =
     (case calendarMap db owner of (cals, d) \<Rightarrow>
        if ids = []
        then (v, remdups (map cal_ID (filter (\<lambda>c. case cals (cal_ID c) of None \<Rightarrow> False | Some x \<Rightarrow> \<not> cal_Hidden x) (ListCalendars db owner))))
        else fold (\<lambda>raw1 (w, out).
               case en_ParseID env raw1 of
                 None \<Rightarrow> (Add w ''calendar_id'' (''unknown calendar \"'' @ raw1 @ ''\"''), out)
               | Some i \<Rightarrow> if cals i = None then (Add w ''calendar_id'' (''unknown calendar \"'' @ raw1 @ ''\"''), out) else (w, out @ [i]))
             ids (v, []))"

definition pickCalendar :: "service_env \<Rightarrow> cal_map \<Rightarrow> Calendar \<Rightarrow> string Opt \<Rightarrow> go_error + Calendar" where
  "pickCalendar env cals def1 o1 =
     (let raw1 = trim_space (opt_V o1);
          chosen = (if opt_Set o1 \<and> \<not> opt_Null o1 \<and> raw1 \<noteq> []
                    then (case en_ParseID env raw1 of None \<Rightarrow> None | Some i \<Rightarrow> cals i)
                    else Some def1)
      in case chosen of
           None \<Rightarrow> Inl (Validation (Add [] ''calendar_id'' ''unknown calendar''))
         | Some c \<Rightarrow>
             if cal_ID c = NilID then Inl (Wrap ErrConflict ''the account has no calendar'')
             else if cal_ReadOnly c then Inl (Validation (Add [] ''calendar_id'' ''calendar is read-only''))
             else Inr c)"

definition writable :: "cal_map \<Rightarrow> Event \<Rightarrow> go_error option" where
  "writable cals e =
     (case cals (ev_CalendarID e) of
        None \<Rightarrow> Some (Wrap ErrNotFound [])
      | Some c \<Rightarrow> if cal_ReadOnly c \<or> ev_ReadOnly e then Some (Wrap ErrForbidden ''event is read-only'') else None)"

definition fillTZ :: "cal_map \<Rightarrow> string \<Rightarrow> Event \<Rightarrow> Event" where
  "fillTZ cals userTZ e =
     (if ev_TZ e \<noteq> [] then e
      else case cals (ev_CalendarID e) of
             Some c \<Rightarrow> if cal_Timezone c \<noteq> [] then e\<lparr>ev_TZ := cal_Timezone c\<rparr> else e\<lparr>ev_TZ := userTZ\<rparr>
           | None \<Rightarrow> e\<lparr>ev_TZ := userTZ\<rparr>)"

definition uidConflict :: "go_error \<Rightarrow> go_error" where
  "uidConflict x =
     (if err_is x ErrConflict then Validation (Add [] ''uid'' ''is already used by another event in this calendar'') else x)"

definition nilPanic :: go_error where
  "nilPanic = Other ''invalid memory address or nil pointer dereference''"

subsection \<open>Listing\<close>

record window =
  wi_from :: go_time
  wi_to :: go_time
  wi_dayFrom :: go_time
  wi_dayTo :: go_time

definition midnight :: "location \<Rightarrow> go_time \<Rightarrow> go_time" where
  "midnight loc t = (case time_date loc t of (y, m, d) \<Rightarrow> go_date UTC y m d 0 0 0 0)"

definition newWindow :: "go_time \<Rightarrow> go_time \<Rightarrow> location \<Rightarrow> window" where
  "newWindow from to loc =
     \<lparr>wi_from = from, wi_to = to, wi_dayFrom = midnight loc from, wi_dayTo = add_date UTC (midnight loc (to - 1)) 0 0 1\<rparr>"

definition bounds :: "window \<Rightarrow> bool \<Rightarrow> go_time \<times> go_time" where
  "bounds w allDay = (if allDay then (wi_dayFrom w, wi_dayTo w) else (wi_from w, wi_to w))"

definition window_overlaps :: "window \<Rightarrow> Event \<Rightarrow> bool" where
  "window_overlaps w e = (case bounds w (ev_AllDay e) of (f, t) \<Rightarrow> Overlaps_times (ev_Start e) (ev_End e) f t)"

definition occurrenceKey :: "service_env \<Rightarrow> go_id \<Rightarrow> go_time \<Rightarrow> string" where
  "occurrenceKey env s at = en_id_text env s @ ''/'' @ itoa (UnixMicro at)"

definition sortOccurrences :: "service_env \<Rightarrow> Occurrence list \<Rightarrow> Occurrence list" where
  "sortOccurrences env xs = sort_key (\<lambda>o1. ev_Start (oc_Event o1)) (sort_key (\<lambda>o1. en_id_text env (ev_ID (oc_Event o1))) xs)"

text \<open>The overrides by id: a later row replaces an earlier one.\<close>

definition put_override :: "Event \<Rightarrow> Event list \<Rightarrow> Event list" where
  "put_override e os = (if list_ex (\<lambda>x. ev_ID x = ev_ID e) os then map (\<lambda>x. if ev_ID x = ev_ID e then e else x) os else os @ [e])"

definition instance_of :: "Event \<Rightarrow> go_time \<Rightarrow> Occurrence" where
  "instance_of m st = \<lparr>oc_Event = m\<lparr>ev_Start := st, ev_End := st + Duration m\<rparr>, oc_Instance = Some st\<rparr>"

fun expand_masters :: "service_env \<Rightarrow> int \<Rightarrow> window \<Rightarrow> string set \<Rightarrow> Event list \<Rightarrow> Occurrence list \<Rightarrow> go_error + Occurrence list" where
  "expand_masters env mx w taken [] out = Inr out"
| "expand_masters env mx w taken (m # rest) out =
     (if ev_Status m = ''cancelled'' then expand_masters env mx w taken rest out
      else let limit = mx - int (length out) in
        if limit \<le> 0 then Inl ErrTooMany
        else case FromEvent (en_lib env) (en_zones env) m of
          Inl x \<Rightarrow> expand_masters env mx w taken rest out
        | Inr ser \<Rightarrow>
            (case bounds w (ev_AllDay m) of (f, t) \<Rightarrow>
             (case Between (en_lib env) ser f t limit of
                Inl x \<Rightarrow> Inl x
              | Inr starts \<Rightarrow> expand_masters env mx w taken rest
                  (out @ map (instance_of m) (filter (\<lambda>st. occurrenceKey env (ev_ID m) st \<notin> taken) starts)))))"

definition occurrences :: "service_env \<Rightarrow> int \<Rightarrow> cal_db \<Rightarrow> go_id \<Rightarrow> Event list \<Rightarrow> window \<Rightarrow> go_error + Occurrence list" where
  "occurrences env mx db owner evs w =
     (let own = filter IsOverride evs;
          masters = filter (\<lambda>e. \<not> IsOverride e \<and> IsMaster e) evs;
          singles = filter (\<lambda>e. \<not> IsOverride e \<and> \<not> IsMaster e \<and> ev_Status e \<noteq> ''cancelled'' \<and> window_overlaps w e) evs;
          overrides = fold put_override (own @ (if masters = [] then [] else OverridesOf db owner (map ev_ID masters))) []
      in if list_ex (\<lambda>o1. ev_RecurrenceID o1 = None \<or> ev_SeriesID o1 = None) overrides then Inl nilPanic
         else
           let taken = set (map (\<lambda>o1. occurrenceKey env (the (ev_SeriesID o1)) (the (ev_RecurrenceID o1))) overrides);
               out = map (\<lambda>e. \<lparr>oc_Event = e, oc_Instance = None\<rparr>) singles @
                     map (\<lambda>o1. \<lparr>oc_Event = o1, oc_Instance = ev_RecurrenceID o1\<rparr>)
                       (filter (\<lambda>o1. ev_Status o1 \<noteq> ''cancelled'' \<and> window_overlaps w o1) overrides)
           in case expand_masters env mx w taken masters out of
                Inl x \<Rightarrow> Inl x
              | Inr res \<Rightarrow> if int (length res) > mx then Inl ErrTooMany else Inr (sortOccurrences env res))"

record EventQuery =
  eq_From :: string
  eq_To :: string
  eq_Calendars :: "string list"
  eq_Expand :: bool

definition Events_List :: "service_env \<Rightarrow> int \<Rightarrow> cal_db \<Rightarrow> go_id \<Rightarrow> EventQuery \<Rightarrow> go_error + Occurrence list" where
  "Events_List env mx db owner q =
     (case userZone env db owner of
        Inl x \<Rightarrow> Inl x
      | Inr (tz, loc) \<Rightarrow>
          (case parseRange [] (eq_From q) (eq_To q) loc of (v1, from, to) \<Rightarrow>
           (case pickCalendars env db owner v1 (eq_Calendars q) of (v2, cals) \<Rightarrow>
            (case Domain.Err v2 of
               Some x \<Rightarrow> Inl x
             | None \<Rightarrow>
                 if cals = [] then Inr []
                 else
                   let found = EventsInRange db owner cals from to in
                   if \<not> eq_Expand q
                   then Inr (sortOccurrences env (map (\<lambda>e. \<lparr>oc_Event = e, oc_Instance = ev_RecurrenceID e\<rparr>) found))
                   else occurrences env mx db owner found (newWindow from to loc)))))"

definition Instances :: "service_env \<Rightarrow> int \<Rightarrow> cal_db \<Rightarrow> go_id \<Rightarrow> go_id \<Rightarrow> string \<Rightarrow> string \<Rightarrow> go_error + Occurrence list" where
  "Instances env mx db owner i from to =
     (case Event_get db owner i of
        Inl x \<Rightarrow> Inl x
      | Inr e \<Rightarrow>
        (case userZone env db owner of
           Inl x \<Rightarrow> Inl x
         | Inr (tz, loc) \<Rightarrow>
           (case parseRange [] from to loc of (v, f, t) \<Rightarrow>
            (case Domain.Err v of Some x \<Rightarrow> Inl x | None \<Rightarrow> occurrences env mx db owner [e] (newWindow f t loc)))))"

subsection \<open>What an edit is about\<close>

record Edit =
  ed_Scope :: string
  ed_Instance :: string
  ed_IfMatch :: string

record eventTarget =
  et_target :: Event
  et_master :: Event
  et_inst :: "go_time option"
  et_scope :: string

definition target_of :: "service_env \<Rightarrow> Event \<Rightarrow> Edit \<Rightarrow> go_error + eventTarget" where
  "target_of env e ed =
     (case parseEventTime (ed_Instance ed) (ev_AllDay e) (Event_Zone (en_zones env) e) of
        None \<Rightarrow> Inl (Validation (Add [] ''instance'' (timeFormatHint (ev_AllDay e))))
      | Some inst \<Rightarrow>
        (case FromEvent (en_lib env) (en_zones env) e of
           Inl x \<Rightarrow> Inl x
         | Inr ser \<Rightarrow>
           (case Contains (en_lib env) ser inst of
              Inl x \<Rightarrow> Inl x
            | Inr found \<Rightarrow>
                if \<not> found then Inl (Wrap ErrNotFound (''the series has no occurrence at '' @ ed_Instance ed))
                else Inr \<lparr>et_target = e, et_master = e, et_inst = Some inst,
                          et_scope = (if ed_Scope ed = [] then ''this'' else ed_Scope ed)\<rparr>)))"

definition resolve :: "service_env \<Rightarrow> go_id \<Rightarrow> cal_db \<Rightarrow> cal_map \<Rightarrow> string \<Rightarrow> go_id \<Rightarrow> Edit \<Rightarrow> go_error + eventTarget" where
  "resolve env owner db cals tz i ed =
     (if ed_Scope ed \<notin> {[], ''this'', ''following'', ''all''}
      then Inl (Validation (Add [] ''scope'' ''must be this, following or all''))
      else case Event_get db owner i of
        Inl x \<Rightarrow> Inl x
      | Inr e0 \<Rightarrow>
        (case CheckIfMatch (ed_IfMatch ed) (Event_ETag e0) of
           Some x \<Rightarrow> Inl x
         | None \<Rightarrow>
           (case writable cals e0 of
              Some x \<Rightarrow> Inl x
            | None \<Rightarrow>
              let e = fillTZ cals tz e0 in
              if IsOverride e
              then (case ev_SeriesID e of
                      None \<Rightarrow> Inl nilPanic
                    | Some sid \<Rightarrow>
                      (case Event_get db owner sid of
                         Inl x \<Rightarrow> Inl x
                       | Inr m \<Rightarrow>
                         (case ev_RecurrenceID e of
                            None \<Rightarrow> Inl nilPanic
                          | Some rid \<Rightarrow> Inr \<lparr>et_target = e, et_master = fillTZ cals tz m, et_inst = Some rid,
                              et_scope = (if ed_Scope ed = [] then ''this'' else ed_Scope ed)\<rparr>)))
              else if IsMaster e \<and> ed_Instance ed \<noteq> [] then target_of env e ed
              else if IsMaster e \<and> ed_Scope ed \<in> {''this'', ''following''}
              then Inl (Validation (Add [] ''instance'' ''is required for this scope''))
              else Inr \<lparr>et_target = e, et_master = e, et_inst = None, et_scope = ''all''\<rparr>)))"

subsection \<open>Series\<close>

definition newOverride :: "Event \<Rightarrow> go_time \<Rightarrow> go_id \<Rightarrow> Event" where
  "newOverride m inst newID =
     m\<lparr>ev_ID := newID, ev_SeriesID := Some (ev_ID m), ev_RecurrenceID := Some inst, ev_Start := inst,
       ev_End := inst + Duration m, ev_RRule := [], ev_RDate := [], ev_ExDate := [], ev_Version := 1\<rparr>"

definition splitTimes :: "go_time list \<Rightarrow> go_time \<Rightarrow> go_time list \<times> go_time list" where
  "splitTimes ts at = (filter (\<lambda>t. t < at) ts, filter (\<lambda>t. \<not> t < at) ts)"

definition shiftTimes :: "go_time list \<Rightarrow> duration \<Rightarrow> go_time list" where
  "shiftTimes ts d = map (\<lambda>t. t + d) ts"

definition splitUID :: "service_env \<Rightarrow> string \<Rightarrow> go_time \<Rightarrow> go_id \<Rightarrow> string" where
  "splitUID env uid at newID =
     (let suffix = ''_R'' @ format_stamp at in
      if length uid + length suffix > 1000 then en_id_text env newID else uid @ suffix)"

definition shiftSeries :: "Event \<Rightarrow> Event \<Rightarrow> EventPatch \<Rightarrow> Event" where
  "shiftSeries bef aft p =
     (let d = time_sub (ev_Start aft) (ev_Start bef) in
      if d = 0 \<or> \<not> IsMaster bef \<or> ev_AllDay bef \<noteq> ev_AllDay aft \<or> ev_RRule bef \<noteq> ev_RRule aft then aft
      else aft\<lparr>ev_ExDate := (if opt_Set (evp_ExDate p) then ev_ExDate aft else shiftTimes (ev_ExDate aft) d),
               ev_RDate := (if opt_Set (evp_RDate p) then ev_RDate aft else shiftTimes (ev_RDate aft) d)\<rparr>)"

fun delete_all :: "tx_ctx \<Rightarrow> cal_db \<Rightarrow> Event list \<Rightarrow> go_time \<Rightarrow> go_error + cal_db" where
  "delete_all t db [] at = Inr db"
| "delete_all t db (o1 # rest) at = (case Event_Delete t db o1 at of Inl x \<Rightarrow> Inl x | Inr db' \<Rightarrow> delete_all t db' rest at)"

fun sync_loop :: "tx_ctx \<Rightarrow> Series \<Rightarrow> Event \<Rightarrow> duration \<Rightarrow> bool \<Rightarrow> cal_db \<Rightarrow> Event list \<Rightarrow> go_error + cal_db" where
  "sync_loop t ser aft d shift1 db [] = Inr db"
| "sync_loop t ser aft d shift1 db (o1 # rest) =
     (case ev_RecurrenceID o1 of
        None \<Rightarrow> Inl nilPanic
      | Some r0 \<Rightarrow>
          let rid = (if shift1 then r0 + d else r0) in
          case Contains (en_lib (tx_env t)) ser rid of
            Inl x \<Rightarrow> Inl x
          | Inr ok \<Rightarrow>
              (case (if \<not> ok then Event_Delete t db o1 (ev_UpdatedAt aft)
                     else if shift1
                     then (case Event_Update t db (o1\<lparr>ev_RecurrenceID := Some rid, ev_CalendarID := ev_CalendarID aft\<rparr>) of
                             Inl x \<Rightarrow> Inl x | Inr (e, db') \<Rightarrow> Inr db')
                     else Inr db) of
                 Inl x \<Rightarrow> Inl x
               | Inr db' \<Rightarrow> sync_loop t ser aft d shift1 db' rest))"

definition syncOverrides :: "tx_ctx \<Rightarrow> cal_db \<Rightarrow> Event \<Rightarrow> Event \<Rightarrow> go_error + cal_db" where
  "syncOverrides t db bef aft =
     (let ovs = Overrides db (tx_owner t) (ev_ID aft) in
      if ovs = [] then Inr db
      else if \<not> IsMaster aft then delete_all t db ovs (ev_UpdatedAt aft)
      else case FromEvent (en_lib (tx_env t)) (en_zones (tx_env t)) aft of
        Inl x \<Rightarrow> Inl x
      | Inr ser \<Rightarrow>
          let d = time_sub (ev_Start aft) (ev_Start bef);
              shift1 = (d \<noteq> 0 \<and> ev_AllDay bef = ev_AllDay aft \<and> ev_RRule bef = ev_RRule aft)
          in sync_loop t ser aft d shift1 db (if shift1 \<and> d > 0 then rev ovs else ovs))"

subsection \<open>Edits\<close>

text \<open>The override an edit of one occurrence works on, and whether it is new.\<close>

definition override_of :: "tx_ctx \<Rightarrow> cal_db \<Rightarrow> eventTarget \<Rightarrow> go_id \<Rightarrow> go_error + Event \<times> bool" where
  "override_of t db tg newID =
     (if IsOverride (et_target tg) then Inr (et_target tg, False)
      else case et_inst tg of
        None \<Rightarrow> Inl nilPanic
      | Some inst \<Rightarrow>
          (case Override db (tx_owner t) (ev_ID (et_master tg)) inst of
             Inr ex \<Rightarrow> Inr (ex\<lparr>ev_TZ := ev_TZ (et_master tg)\<rparr>, False)
           | Inl x \<Rightarrow> if err_is x ErrNotFound then Inr (newOverride (et_master tg) inst newID, True) else Inl x))"

definition updateThis :: "tx_ctx \<Rightarrow> cal_db \<Rightarrow> eventTarget \<Rightarrow> EventPatch \<Rightarrow> go_id \<Rightarrow> go_error + Event \<times> cal_db" where
  "updateThis t db tg p newID =
     (case override_of t db tg newID of
        Inl x \<Rightarrow> Inl x
      | Inr (ov, isNew) \<Rightarrow>
          (case applyEvent (tx_env t) ov p False of
             (Some x, e') \<Rightarrow> Inl x
           | (None, ov') \<Rightarrow> if isNew then Event_Insert t db ov' else Event_Update t db ov'))"

definition move_to :: "Calendar option \<Rightarrow> Event \<Rightarrow> Event" where
  "move_to mv e = (case mv of None \<Rightarrow> e | Some c \<Rightarrow> e\<lparr>ev_CalendarID := cal_ID c\<rparr>)"

definition updateAll :: "tx_ctx \<Rightarrow> cal_db \<Rightarrow> Event \<Rightarrow> EventPatch \<Rightarrow> Calendar option \<Rightarrow> go_error + Event \<times> cal_db" where
  "updateAll t db m p mv =
     (case applyEvent (tx_env t) m p False of
        (Some x, e') \<Rightarrow> Inl x
      | (None, m') \<Rightarrow>
        (case Event_Update t db (move_to mv (shiftSeries m m' p)) of
           Inl x \<Rightarrow> Inl x
         | Inr (out, db1) \<Rightarrow>
             if IsMaster m
             then (case syncOverrides t db1 m out of Inl x \<Rightarrow> Inl x | Inr db2 \<Rightarrow> Inr (out, db2))
             else Inr (out, db1)))"

text \<open>The second half of a split series, before it is patched.\<close>

definition split_base :: "service_env \<Rightarrow> Event \<Rightarrow> go_time \<Rightarrow> string \<Rightarrow> go_id \<Rightarrow> go_id \<Rightarrow> Event" where
  "split_base env m at tail newID uidID =
     m\<lparr>ev_ID := newID, ev_UID := splitUID env (ev_UID m) at uidID, ev_Start := at, ev_End := at + Duration m, ev_RRule := tail,
       ev_RDate := snd (splitTimes (ev_RDate m) at), ev_ExDate := snd (splitTimes (ev_ExDate m) at),
       ev_Sequence := 0, ev_Version := 1\<rparr>"

definition split_head :: "Event \<Rightarrow> go_time \<Rightarrow> string \<Rightarrow> Event" where
  "split_head m at head =
     m\<lparr>ev_RRule := head, ev_RDate := fst (splitTimes (ev_RDate m) at), ev_ExDate := fst (splitTimes (ev_ExDate m) at),
       ev_Sequence := ev_Sequence m + 1\<rparr>"

definition updateFollowing ::
  "tx_ctx \<Rightarrow> cal_db \<Rightarrow> Event \<Rightarrow> go_time \<Rightarrow> EventPatch \<Rightarrow> Calendar option \<Rightarrow> go_id \<Rightarrow> go_id \<Rightarrow> go_error + Event \<times> cal_db" where
  "updateFollowing t db m at p mv newID uidID =
     (case Split (en_lib (tx_env t)) (en_zones (tx_env t)) m at of
        Inl x \<Rightarrow> Inl x
      | Inr (head, tail) \<Rightarrow>
        let base = split_base (tx_env t) m at tail newID uidID in
        (case applyEvent (tx_env t) base p False of
           (Some x, e') \<Rightarrow> Inl x
         | (None, n1) \<Rightarrow>
           (case Event_Update t db (split_head m at head) of
              Inl x \<Rightarrow> Inl x
            | Inr (h, db1) \<Rightarrow>
              (case Event_Insert t db1 (move_to mv (shiftSeries base n1 p)) of
                 Inl x \<Rightarrow> Inl x
               | Inr (created, db2) \<Rightarrow>
                 (case MoveOverrides t db2 (ev_ID m) created at of
                    Inl x \<Rightarrow> Inl x
                  | Inr db3 \<Rightarrow>
                    (case syncOverrides t db3 base created of
                       Inl x \<Rightarrow> Inl x
                     | Inr db4 \<Rightarrow> Inr (created, db4)))))))"

definition with_exdate :: "Event \<Rightarrow> go_time \<Rightarrow> Event" where
  "with_exdate m at =
     (if at \<in> set (ev_ExDate m) then m else m\<lparr>ev_ExDate := sort (ev_ExDate m @ [at])\<rparr>)"

definition excludeInstance :: "tx_ctx \<Rightarrow> cal_db \<Rightarrow> Event \<Rightarrow> go_time \<Rightarrow> go_time \<Rightarrow> go_error + cal_db" where
  "excludeInstance t db m at now =
     (case Event_Update t db ((with_exdate m at)\<lparr>ev_Sequence := ev_Sequence m + 1\<rparr>) of
        Inl x \<Rightarrow> Inl x
      | Inr (e, db1) \<Rightarrow>
        (case Override db1 (tx_owner t) (ev_ID m) at of
           Inl x \<Rightarrow> if err_is x ErrNotFound then Inr db1 else Inl x
         | Inr ov \<Rightarrow> Event_Delete t db1 ov now))"

definition truncateSeries :: "tx_ctx \<Rightarrow> cal_db \<Rightarrow> Event \<Rightarrow> go_time \<Rightarrow> go_time \<Rightarrow> go_error + cal_db" where
  "truncateSeries t db m at now =
     (case Split (en_lib (tx_env t)) (en_zones (tx_env t)) m at of
        Inl x \<Rightarrow> Inl x
      | Inr (head, tail) \<Rightarrow>
        (case Event_Update t db (split_head m at head) of
           Inl x \<Rightarrow> Inl x
         | Inr (h, db1) \<Rightarrow>
             let ovs = Overrides db1 (tx_owner t) (ev_ID m) in
             if list_ex (\<lambda>o1. ev_RecurrenceID o1 = None) ovs then Inl nilPanic
             else delete_all t db1 (filter (\<lambda>o1. \<not> the (ev_RecurrenceID o1) < at) ovs) now))"

subsection \<open>The service\<close>

definition Events_Create ::
  "service_env \<Rightarrow> cal_db \<Rightarrow> go_id \<Rightarrow> string \<Rightarrow> EventPatch \<Rightarrow> go_id \<Rightarrow> (go_error + Event) \<times> cal_db" where
  "Events_Create env db owner origin p newID =
     (case calendarMap db owner of (cals, def1) \<Rightarrow>
      (case pickCalendar env cals def1 (evp_CalendarID p) of
         Inl x \<Rightarrow> (Inl x, db)
       | Inr cal \<Rightarrow>
         (case userZone env db owner of
            Inl x \<Rightarrow> (Inl x, db)
          | Inr (tz, loc) \<Rightarrow>
            let e0 = Event0\<lparr>ev_ID := newID, ev_OwnerID := owner, ev_CalendarID := cal_ID cal, ev_Status := ''confirmed'',
                       ev_Transparency := ''opaque'', ev_Visibility := ''default'', ev_Reminders := cal_DefaultReminders cal,
                       ev_Version := 1, ev_UID := en_id_text env newID\<rparr>
            in (case applyEvent env (fillTZ cals tz e0) p True of
                  (Some x, e') \<Rightarrow> (Inl x, db)
                | (None, e) \<Rightarrow>
                    (case WithEvents db (\<lambda>d. Event_Insert \<lparr>tx_env = env, tx_owner = owner, tx_origin = origin\<rparr> d e) of
                       (Inl x, d) \<Rightarrow> (Inl (uidConflict x), d)
                     | (Inr e, d) \<Rightarrow> (Inr e, d))))))"

text \<open>The transaction of \<open>Update\<close>.\<close>

definition update_tx ::
  "tx_ctx \<Rightarrow> cal_map \<Rightarrow> Calendar \<Rightarrow> string \<Rightarrow> go_id \<Rightarrow> EventPatch \<Rightarrow> Edit \<Rightarrow> go_id \<Rightarrow> go_id \<Rightarrow> cal_db \<Rightarrow> go_error + Event \<times> cal_db" where
  "update_tx t cals def1 tz i p ed newID uidID db =
     (case resolve (tx_env t) (tx_owner t) db cals tz i ed of
        Inl x \<Rightarrow> Inl x
      | Inr tg \<Rightarrow>
        let m = et_master tg;
            move = (if opt_Set (evp_CalendarID p)
                    then (case pickCalendar (tx_env t) cals def1 (evp_CalendarID p) of
                            Inl x \<Rightarrow> Inl x
                          | Inr c \<Rightarrow>
                              if cal_ID c \<noteq> ev_CalendarID m
                              then (if et_scope tg = ''this'' \<and> IsMaster m
                                    then Inl (Validation (Add [] ''calendar_id'' ''can only change for the whole series or following occurrences''))
                                    else Inr (Some c))
                              else Inr None)
                    else Inr None)
        in case move of
             Inl x \<Rightarrow> Inl x
           | Inr mv \<Rightarrow>
               if et_scope tg = ''this'' \<and> IsMaster m then updateThis t db tg p newID
               else if et_scope tg = ''following'' \<and> IsMaster m
               then (case et_inst tg of
                       None \<Rightarrow> Inl nilPanic
                     | Some at \<Rightarrow> if at > ev_Start m then updateFollowing t db m at p mv newID uidID else updateAll t db m p mv)
               else updateAll t db m p mv)"

definition Events_Update ::
  "service_env \<Rightarrow> cal_db \<Rightarrow> go_id \<Rightarrow> string \<Rightarrow> go_id \<Rightarrow> EventPatch \<Rightarrow> Edit \<Rightarrow> go_id \<Rightarrow> go_id \<Rightarrow> (go_error + Event) \<times> cal_db" where
  "Events_Update env db owner origin i p ed newID uidID =
     (case calendarMap db owner of (cals, def1) \<Rightarrow>
      (case userZone env db owner of
         Inl x \<Rightarrow> (Inl x, db)
       | Inr (tz, loc) \<Rightarrow>
         (case WithEvents db (update_tx \<lparr>tx_env = env, tx_owner = owner, tx_origin = origin\<rparr> cals def1 tz i p ed newID uidID) of
            (Inl x, d) \<Rightarrow> (Inl (uidConflict x), d)
          | (Inr e, d) \<Rightarrow> (Inr e, d))))"

definition delete_tx :: "tx_ctx \<Rightarrow> cal_map \<Rightarrow> go_id \<Rightarrow> Edit \<Rightarrow> go_time \<Rightarrow> cal_db \<Rightarrow> go_error + cal_db" where
  "delete_tx t cals i ed now db =
     (case resolve (tx_env t) (tx_owner t) db cals ''UTC'' i ed of
        Inl x \<Rightarrow> Inl x
      | Inr tg \<Rightarrow>
        let m = et_master tg in
        if \<not> IsMaster m \<or> et_scope tg = ''all'' then Event_Delete t db m now
        else case et_inst tg of
               None \<Rightarrow> Inl nilPanic
             | Some at \<Rightarrow>
                 if et_scope tg = ''following'' \<and> \<not> at > ev_Start m then Event_Delete t db m now
                 else if et_scope tg = ''following'' then truncateSeries t db m at now
                 else excludeInstance t db m at now)"

definition Events_Delete ::
  "service_env \<Rightarrow> cal_db \<Rightarrow> go_id \<Rightarrow> string \<Rightarrow> go_id \<Rightarrow> Edit \<Rightarrow> go_time \<Rightarrow> go_error option \<times> cal_db" where
  "Events_Delete env db owner origin i ed now =
     (case calendarMap db owner of (cals, def1) \<Rightarrow>
      (case WithEvents db (\<lambda>d. map_sum id (Pair ()) (delete_tx \<lparr>tx_env = env, tx_owner = owner, tx_origin = origin\<rparr> cals i ed now d)) of
         (Inl x, d) \<Rightarrow> (Some x, d)
       | (Inr u, d) \<Rightarrow> (None, d)))"

end
