(* ===== verification/Events_Safety.thy ===== *)
theory Events_Safety
  imports Events
begin

text \<open>
  What the event service keeps: the constraints of its tables, the shape of series, and everything
  outside the series an edit is about.
\<close>

subsection \<open>Frames\<close>

definition same_base :: "cal_db \<Rightarrow> cal_db \<Rightarrow> bool" where
  "same_base db db' \<longleftrightarrow> cd_users db' = cd_users db \<and> cd_calendars db' = cd_calendars db \<and> cd_now db' = cd_now db"

lemma same_base_refl [simp]: "same_base db db"
  by (simp add: same_base_def)

lemma same_base_trans: "same_base a b \<Longrightarrow> same_base b c \<Longrightarrow> same_base a c"
  by (simp add: same_base_def)

lemma outbox_upsert_keeps: "cd_events (outbox_upsert db a i x b) = cd_events db \<and> same_base db (outbox_upsert db a i x b)"
  by (simp add: outbox_upsert_def same_base_def)

lemma push_job_keeps: "cd_events (push_job t db b) = cd_events db \<and> same_base db (push_job t db b)"
  by (simp add: push_job_def same_base_def Let_def split: sum.splits)

lemma fold_keeps:
  "(\<And>x d. cd_events (f x d) = cd_events d \<and> same_base d (f x d)) \<Longrightarrow> cd_events (fold f xs db) = cd_events db \<and> same_base db (fold f xs db)"
  by (induction xs arbitrary: db) (auto intro: same_base_trans)

lemma queueSync_keeps: "cd_events (queueSync t db a i op c l) = cd_events db \<and> same_base db (queueSync t db a i op c l)"
proof -
  have up: "cd_events (fold (\<lambda>x d. outbox_upsert d a i op' x) xs d) = cd_events d \<and> same_base d (fold (\<lambda>x d. outbox_upsert d a i op' x) xs d)"
    for op' xs d by (rule fold_keeps) (rule outbox_upsert_keeps)
  have pj: "cd_events (fold (\<lambda>x d. push_job t d (fst x)) (xs :: (go_id \<times> string option) list) d) = cd_events d \<and>
      same_base d (fold (\<lambda>x d. push_job t d (fst x)) xs d)" for xs d
    by (rule fold_keeps) (rule push_job_keeps)
  show ?thesis by (simp add: queueSync_def Let_def pj up same_base_def [of db] pj [unfolded same_base_def] up [unfolded same_base_def])
qed

lemma event_change_keeps: "cd_events (event_change t db e op f u) = cd_events db \<and> same_base db (event_change t db e op f u)"
proof -
  have "cd_events (recordChange t db c) = cd_events db \<and> same_base db (recordChange t db c)" for c
    by (simp add: recordChange_def same_base_def)
  then show ?thesis unfolding event_change_def Let_def
    by (intro conjI same_base_trans [OF _ queueSync_keeps [THEN conjunct2]]) (simp_all add: queueSync_keeps)
qed

subsection \<open>Statements\<close>

definition table_ok :: "Calendar list \<Rightarrow> event_row list \<Rightarrow> bool" where
  "table_ok cals evs \<longleftrightarrow> list_all event_check evs \<and> event_keys evs \<and> event_refs cals evs"

lemma commit_events_Inr: "commit_events db evs = Inr db' \<longleftrightarrow> table_ok (cd_calendars db) evs \<and> db' = db\<lparr>cd_events := evs\<rparr>"
  by (auto simp: commit_events_def table_ok_def)

lemma event_refs_iff: "event_refs cals evs \<longleftrightarrow> (\<forall>r \<in> set evs.
    (\<exists>c \<in> set cals. cal_ID c = ev_CalendarID (fst r) \<and> cal_OwnerID c = ev_OwnerID (fst r)) \<and>
    (\<forall>m. ev_SeriesID (fst r) = Some m \<longrightarrow> (\<exists>x \<in> set evs. ev_ID (fst x) = m \<and> ev_CalendarID (fst x) = ev_CalendarID (fst r))))"
  unfolding event_refs_def list_all_iff list_ex_iff case_prod_beta by (intro ball_cong refl) (simp split: option.split)

lemma Event_Insert_rows:
  assumes "Event_Insert t db e = Inr (out, db')"
  obtains s where "out = (stored_event e)\<lparr>ev_OwnerID := tx_owner t, ev_Version := 1, ev_CreatedAt := cd_now db, ev_UpdatedAt := cd_now db, ev_DeletedAt := None\<rparr>"
    "cd_events db' = cd_events db @ [(out, s)]" "table_ok (cd_calendars db) (cd_events db')" "same_base db db'"
proof -
  define row where "row = (stored_event e)\<lparr>ev_OwnerID := tx_owner t, ev_Version := 1, ev_CreatedAt := cd_now db, ev_UpdatedAt := cd_now db, ev_DeletedAt := None\<rparr>"
  let ?s = "row_span (tx_env t) e"
  obtain db1 where c: "commit_events db (cd_events db @ [(row, ?s)]) = Inr db1"
    "out = row" "\<exists>f u. db' = event_change t db1 row ''create'' f u"
    using assms unfolding Event_Insert_def Let_def row_def [symmetric] by (auto split: if_splits sum.splits prod.splits)
  then have "db1 = db\<lparr>cd_events := cd_events db @ [(row, ?s)]\<rparr>" "table_ok (cd_calendars db) (cd_events db @ [(row, ?s)])"
    by (auto simp: commit_events_Inr)
  moreover from this c(3) have "cd_events db' = cd_events db1" "same_base db1 db'" using event_change_keeps by auto
  ultimately show thesis using that [of ?s] c(2) row_def by (simp add: same_base_def)
qed

lemma Event_Update_rows:
  assumes "Event_Update t db e = Inr (out, db')"
  obtains old os s where "(old, os) \<in> set (cd_events db)" "updates_row (tx_owner t) (ev_ID e) (old, os)" "out = updated_event db e old"
    "cd_events db' = map (\<lambda>r. if updates_row (tx_owner t) (ev_ID e) r then (out, s) else cascade old (ev_CalendarID out) r) (cd_events db)"
    "table_ok (cd_calendars db) (cd_events db')" "same_base db db'"
proof -
  let ?s = "row_span (tx_env t) e"
  obtain old os where f: "find (updates_row (tx_owner t) (ev_ID e)) (cd_events db) = Some (old, os)"
    using assms by (auto simp: Event_Update_def Let_def split: if_splits option.splits)
  define evs where "evs = map (\<lambda>r. if updates_row (tx_owner t) (ev_ID e) r then (updated_event db e old, ?s)
      else cascade old (ev_CalendarID (updated_event db e old)) r) (cd_events db)"
  obtain db1 db2 where c: "commit_events db evs = Inr db1" "out = updated_event db e old"
    "db2 = db1 \<or> (\<exists>i c. db2 = queueSync t db1 ''event'' i ''delete'' c None)" "\<exists>f u. db' = event_change t db2 out ''update'' f u"
    using assms unfolding Event_Update_def Let_def f option.case prod.case evs_def [symmetric]
    by (auto split: if_splits sum.splits prod.splits)
  have "db1 = db\<lparr>cd_events := evs\<rparr>" "table_ok (cd_calendars db) evs" using c(1) by (auto simp: commit_events_Inr)
  moreover have "cd_events db2 = cd_events db1 \<and> same_base db1 db2" using c(3) queueSync_keeps by auto
  moreover have "cd_events db' = cd_events db2 \<and> same_base db2 db'" using c(4) event_change_keeps by auto
  moreover have "(old, os) \<in> set (cd_events db)" "updates_row (tx_owner t) (ev_ID e) (old, os)"
    using f by (auto simp: find_Some_iff)
  ultimately show thesis using that [of old os ?s] c(2) unfolding evs_def by (simp add: same_base_def)
qed

definition deleted_row :: "cal_db \<Rightarrow> go_time \<Rightarrow> event_row \<Rightarrow> event_row" where
  "deleted_row db at r = ((fst r)\<lparr>ev_DeletedAt := Some (db_time at), ev_Version := ev_Version (fst r) + 1, ev_UpdatedAt := cd_now db\<rparr>, snd r)"

lemma Event_Delete_rows:
  assumes "Event_Delete t db e at = Inr db'"
  shows "cd_events db' = map (\<lambda>r. if deletes_row (tx_owner t) (ev_ID e) r then deleted_row db at r else r) (cd_events db)"
    "same_base db db'" "\<exists>r \<in> set (cd_events db). deletes_row (tx_owner t) (ev_ID e) r"
proof -
  let ?evs = "map (\<lambda>r. if deletes_row (tx_owner t) (ev_ID e) r then deleted_row db at r else r) (cd_events db)"
  have "\<exists>f u. db' = event_change t (db\<lparr>cd_events := ?evs\<rparr>) e ''delete'' f u" "\<exists>r \<in> set (cd_events db). deletes_row (tx_owner t) (ev_ID e) r"
    using assms unfolding deleted_row_def by (auto simp: Event_Delete_def Let_def list_ex_iff split: if_splits prod.splits)
  moreover from this(1) have "cd_events db' = ?evs" "same_base (db\<lparr>cd_events := ?evs\<rparr>) db'" using event_change_keeps by auto
  ultimately show "cd_events db' = ?evs" "same_base db db'" "\<exists>r \<in> set (cd_events db). deletes_row (tx_owner t) (ev_ID e) r"
    by (auto simp: same_base_def)
qed

lemma MoveOverrides_rows:
  assumes "MoveOverrides t db m to since = Inr db'"
  shows "cd_events db' = map (\<lambda>r. if moves_row (tx_owner t) m since r
        then ((fst r)\<lparr>ev_SeriesID := Some (ev_ID to), ev_CalendarID := ev_CalendarID to, ev_UID := ev_UID to,
                      ev_Version := ev_Version (fst r) + 1, ev_UpdatedAt := cd_now db\<rparr>, snd r) else r) (cd_events db)"
    "table_ok (cd_calendars db) (cd_events db')" "same_base db db'"
  using assms unfolding MoveOverrides_def commit_events_Inr by (auto simp: same_base_def)

subsection \<open>The invariant\<close>

text \<open>Columns hold stored values; an override belongs to a row that is no override, of the same owner.\<close>

definition links :: "event_row list \<Rightarrow> (go_id \<times> go_id option \<times> go_id) list" where
  "links evs = map (\<lambda>r. (ev_ID (fst r), ev_SeriesID (fst r), ev_OwnerID (fst r))) evs"

definition flat :: "(go_id \<times> go_id option \<times> go_id) list \<Rightarrow> bool" where
  "flat ls \<longleftrightarrow> (\<forall>(i, s, w) \<in> set ls. \<forall>(j, s', w') \<in> set ls. s = Some j \<longrightarrow> s' = None \<and> w' = w)"

definition tables_ok :: "cal_db \<Rightarrow> bool" where
  "tables_ok db \<longleftrightarrow> table_ok (cd_calendars db) (cd_events db) \<and> flat (links (cd_events db)) \<and>
     list_all (\<lambda>r. stored_event (fst r) = fst r) (cd_events db)"

text \<open>The rows outside a set of series, and those of other owners.\<close>

definition outside :: "go_id set \<Rightarrow> go_id \<Rightarrow> event_row \<Rightarrow> bool" where
  "outside S owner r \<longleftrightarrow> ev_OwnerID (fst r) \<noteq> owner \<or> ev_ID (fst r) \<notin> S \<and> (\<forall>s. ev_SeriesID (fst r) = Some s \<longrightarrow> s \<notin> S)"

definition kept :: "go_id set \<Rightarrow> go_id \<Rightarrow> cal_db \<Rightarrow> cal_db \<Rightarrow> bool" where
  "kept S owner db db' \<longleftrightarrow> tables_ok db' \<and> same_base db db' \<and>
     filter (outside S owner) (cd_events db') = filter (outside S owner) (cd_events db)"

lemma kept_refl: "tables_ok db \<Longrightarrow> kept S owner db db"
  by (simp add: kept_def)

lemma kept_trans: "kept S owner a b \<Longrightarrow> kept S owner b c \<Longrightarrow> kept S owner a c"
  unfolding kept_def using same_base_trans by auto

lemma db_time_idem [simp]: "db_time (db_time t) = db_time t" "db_date (db_date t) = db_date t"
  by (simp_all add: db_time_def db_date_def duration_defs)

lemma wrap32_idem [simp]: "wrap32 (wrap32 x) = wrap32 x"
  by (simp add: wrap32_def)

lemma stored_idem [simp]: "stored_event (stored_event e) = stored_event e"
proof -
  have "compact (=) (sort (compact (=) (sort xs))) = compact (=) (sort xs)" for xs :: "int list"
    using compact_sorted_distinct(1) [of "sort xs"]
    by (simp add: compact_eq_remdups_adj sorted_sort_id strict_sorted_iff remdups_adj_distinct)
  then show ?thesis by (simp add: stored_event_def option.map_comp comp_def)
qed

lemma stored_fields:
  "stored_event (e\<lparr>ev_OwnerID := a, ev_Version := b, ev_CreatedAt := c, ev_UpdatedAt := d, ev_DeletedAt := x\<rparr>) =
     (stored_event e)\<lparr>ev_OwnerID := a, ev_Version := b, ev_CreatedAt := c, ev_UpdatedAt := d, ev_DeletedAt := x\<rparr>"
  "stored_event (e\<lparr>ev_ID := i, ev_OwnerID := a, ev_UID := u, ev_Version := b, ev_CreatedAt := c, ev_UpdatedAt := d, ev_DeletedAt := x\<rparr>) =
     (stored_event e)\<lparr>ev_ID := i, ev_OwnerID := a, ev_UID := u, ev_Version := b, ev_CreatedAt := c, ev_UpdatedAt := d, ev_DeletedAt := x\<rparr>"
  "stored_event (e\<lparr>ev_DeletedAt := x, ev_Version := b, ev_UpdatedAt := d\<rparr>) = (stored_event e)\<lparr>ev_DeletedAt := x, ev_Version := b, ev_UpdatedAt := d\<rparr>"
  "stored_event (e\<lparr>ev_SeriesID := s, ev_CalendarID := i, ev_UID := u, ev_Version := b, ev_UpdatedAt := d\<rparr>) =
     (stored_event e)\<lparr>ev_SeriesID := s, ev_CalendarID := i, ev_UID := u, ev_Version := b, ev_UpdatedAt := d\<rparr>"
  "stored_event (e\<lparr>ev_CalendarID := i\<rparr>) = (stored_event e)\<lparr>ev_CalendarID := i\<rparr>"
  by (simp_all add: stored_event_def)

lemma stored_same [simp]:
  "ev_ID (stored_event e) = ev_ID e" "ev_SeriesID (stored_event e) = ev_SeriesID e" "ev_OwnerID (stored_event e) = ev_OwnerID e"
  "ev_CalendarID (stored_event e) = ev_CalendarID e" "ev_RRule (stored_event e) = ev_RRule e" "ev_AllDay (stored_event e) = ev_AllDay e"
  by (simp_all add: stored_event_def)

lemma filter_map_same:
  "(\<And>r. r \<in> set xs \<Longrightarrow> P (f r) = P r \<and> (P r \<longrightarrow> f r = r)) \<Longrightarrow> filter P (map f xs) = filter P xs"
  by (induction xs) auto

subsection \<open>Each statement keeps it\<close>

lemma flat_links: "flat (links evs) \<longleftrightarrow> (\<forall>r \<in> set evs. \<forall>x \<in> set evs. ev_SeriesID (fst r) = Some (ev_ID (fst x)) \<longrightarrow>
    ev_SeriesID (fst x) = None \<and> ev_OwnerID (fst x) = ev_OwnerID (fst r))"
  by (simp add: flat_def links_def)

lemma flatD: "flat (links evs) \<Longrightarrow> r \<in> set evs \<Longrightarrow> x \<in> set evs \<Longrightarrow> ev_SeriesID (fst r) = Some (ev_ID (fst x)) \<Longrightarrow>
    ev_SeriesID (fst x) = None \<and> ev_OwnerID (fst x) = ev_OwnerID (fst r)"
  unfolding flat_links by blast

lemma links_map: "(\<And>r. r \<in> set evs \<Longrightarrow> ev_ID (fst (f r)) = ev_ID (fst r) \<and> ev_SeriesID (fst (f r)) = ev_SeriesID (fst r) \<and>
    ev_OwnerID (fst (f r)) = ev_OwnerID (fst r)) \<Longrightarrow> links (map f evs) = links evs"
  by (simp add: links_def)

lemma Event_Update_kept:
  assumes up: "Event_Update t db e = Inr (out, db')" and ok: "tables_ok db"
    and sid: "\<forall>(i, s, w) \<in> set (links (cd_events db)). i = ev_ID e \<longrightarrow> s = ev_SeriesID e"
    and S: "ev_ID e \<in> S \<or> (\<exists>s \<in> S. ev_SeriesID e = Some s)"
  shows "kept S (tx_owner t) db db' \<and> links (cd_events db') = links (cd_events db)"
proof -
  obtain old os s where r: "(old, os) \<in> set (cd_events db)" "updates_row (tx_owner t) (ev_ID e) (old, os)" "out = updated_event db e old"
    and evs: "cd_events db' = map (\<lambda>r. if updates_row (tx_owner t) (ev_ID e) r then (out, s) else cascade old (ev_CalendarID out) r) (cd_events db)"
    and tok: "table_ok (cd_calendars db) (cd_events db')" and base: "same_base db db'"
    by (rule Event_Update_rows [OF up])
  let ?f = "\<lambda>r. if updates_row (tx_owner t) (ev_ID e) r then (out, s) else cascade old (ev_CalendarID out) r"
  have old: "ev_ID old = ev_ID e" "ev_OwnerID old = tx_owner t" using r(2) by (simp_all add: updates_row_def event_visible_def)
  have out: "ev_ID out = ev_ID e" "ev_OwnerID out = tx_owner t" "ev_SeriesID out = ev_SeriesID e"
    using r(3) old by (simp_all add: updated_event_def)
  have rs: "ev_SeriesID (fst x) = ev_SeriesID e" if "x \<in> set (cd_events db)" "ev_ID (fst x) = ev_ID e" for x
    using sid that by (auto simp: links_def)
  have lk: "links (map ?f (cd_events db)) = links (cd_events db)"
    by (rule links_map) (auto simp: out rs updates_row_def event_visible_def cascade_def)
  have "filter (outside S (tx_owner t)) (map ?f (cd_events db)) = filter (outside S (tx_owner t)) (cd_events db)"
  proof (rule filter_map_same)
    fix x assume x: "x \<in> set (cd_events db)"
    show "outside S (tx_owner t) (?f x) = outside S (tx_owner t) x \<and> (outside S (tx_owner t) x \<longrightarrow> ?f x = x)"
    proof (cases "updates_row (tx_owner t) (ev_ID e) x")
      case True
      then have "\<not> outside S (tx_owner t) x" "\<not> outside S (tx_owner t) (out, s)"
        using S out rs [OF x] by (auto simp: outside_def updates_row_def event_visible_def)
      then show ?thesis using True by simp
    next
      case False
      show ?thesis
      proof (cases "ev_SeriesID (fst x) = Some (ev_ID old) \<and> ev_CalendarID (fst x) = ev_CalendarID old")
        case True
        then have fd: "ev_SeriesID old = None" "ev_OwnerID old = ev_OwnerID (fst x)"
          using flatD [of "cd_events db" x "(old, os)"] ok x r(1) by (simp_all add: tables_ok_def)
        have "ev_SeriesID e = None" using rs [OF r(1)] old fd by simp
        then have "\<not> outside S (tx_owner t) x" "\<not> outside S (tx_owner t) (cascade old (ev_CalendarID out) x)"
          using S True fd old by (auto simp: outside_def cascade_def)
        then show ?thesis using False by simp
      next
        case no: False
        then have "cascade old (ev_CalendarID out) x = x" by (auto simp: cascade_def)
        then show ?thesis using False by simp
      qed
    qed
  qed
  moreover have "list_all (\<lambda>r. stored_event (fst r) = fst r) (map ?f (cd_events db))"
    using ok by (auto simp: tables_ok_def list_all_iff cascade_def r(3) updated_event_def stored_fields)
  ultimately show ?thesis
    using tok base lk ok unfolding kept_def tables_ok_def evs by (simp add: same_base_def)
qed

lemma table_ok_delete:
  assumes "table_ok cals evs"
  shows "table_ok cals (map (\<lambda>r. if D r then deleted_row db at r else r) evs)"
proof -
  let ?f = "\<lambda>r. if D r then deleted_row db at r else r"
  have same: "ev_ID (fst (?f r)) = ev_ID (fst r)" "ev_CalendarID (fst (?f r)) = ev_CalendarID (fst r)"
    "ev_SeriesID (fst (?f r)) = ev_SeriesID (fst r)" "ev_OwnerID (fst (?f r)) = ev_OwnerID (fst r)"
    "event_check (?f r) = event_check r" for r
    by (auto simp: deleted_row_def event_check_def split: prod.splits)
  have live: "live_rows (map ?f evs) = filter (\<lambda>e. ev_DeletedAt e = None) (map fst (filter (\<lambda>r. \<not> D r) evs))"
    by (induction evs) (auto simp: live_rows_def deleted_row_def)
  have sub: "distinct (map g (filter P (live_rows evs))) \<Longrightarrow> distinct (map g (filter P (live_rows (map ?f evs))))" for g :: "Event \<Rightarrow> 'b" and P
    unfolding live unfolding live_rows_def
    by (induction evs) (auto split: if_splits)
  have "distinct (map (ev_ID \<circ> fst) (map ?f evs)) = distinct (map (ev_ID \<circ> fst) evs)" by (simp only: map_map comp_def same)
  then have "event_keys (map ?f evs)" using assms unfolding table_ok_def event_keys_def by (intro conjI sub) simp_all
  moreover have "event_refs cals (map ?f evs)"
    using assms unfolding table_ok_def event_refs_iff by (simp only: set_map ball_simps bex_simps same) blast
  moreover have "list_all event_check (map ?f evs)"
    using assms unfolding table_ok_def list_all_iff by (simp only: set_map ball_simps same) simp
  ultimately show ?thesis by (simp add: table_ok_def)
qed

lemma Event_Delete_kept:
  assumes del: "Event_Delete t db e at = Inr db'" and ok: "tables_ok db"
    and S: "ev_ID e \<in> S \<or> (\<exists>s \<in> S. ev_SeriesID e = Some s)"
    and sid: "\<forall>(i, s, w) \<in> set (links (cd_events db)). i = ev_ID e \<longrightarrow> s = ev_SeriesID e"
  shows "kept S (tx_owner t) db db' \<and> links (cd_events db') = links (cd_events db)"
proof -
  let ?f = "\<lambda>r. if deletes_row (tx_owner t) (ev_ID e) r then deleted_row db at r else r"
  note rows = Event_Delete_rows [OF del]
  have lk: "links (map ?f (cd_events db)) = links (cd_events db)" by (rule links_map) (simp add: deleted_row_def)
  have inS: "\<not> outside S (tx_owner t) x" if x1: "x \<in> set (cd_events db)" and x2: "deletes_row (tx_owner t) (ev_ID e) x" for x
  proof (cases "ev_ID (fst x) = ev_ID e")
    case True
    then have "ev_SeriesID (fst x) = ev_SeriesID e" using sid x1 by (auto simp: links_def)
    then show ?thesis using S True x2 by (auto simp: outside_def deletes_row_def event_visible_def)
  next
    case False
    then have x: "ev_SeriesID (fst x) = Some (ev_ID e)" "ev_OwnerID (fst x) = tx_owner t"
      using x2 by (auto simp: deletes_row_def event_visible_def)
    have "event_refs (cd_calendars db) (cd_events db)" using ok by (simp add: tables_ok_def table_ok_def)
    then obtain y where y: "y \<in> set (cd_events db)" "ev_ID (fst y) = ev_ID e"
      using x1 x(1) unfolding event_refs_iff by blast
    have "ev_SeriesID (fst y) = None" using flatD [of "cd_events db" x y] ok x1 y x(1) by (simp add: tables_ok_def)
    then have "ev_SeriesID e = None" using sid y by (auto simp: links_def)
    then show ?thesis using S x by (auto simp: outside_def)
  qed
  have "filter (outside S (tx_owner t)) (map ?f (cd_events db)) = filter (outside S (tx_owner t)) (cd_events db)"
    by (rule filter_map_same) (use inS in \<open>auto simp: outside_def deleted_row_def\<close>)
  moreover have "list_all (\<lambda>r. stored_event (fst r) = fst r) (map ?f (cd_events db))"
    using ok by (auto simp: tables_ok_def list_all_iff deleted_row_def stored_fields)
  ultimately show ?thesis
    using rows ok table_ok_delete [of "cd_calendars db" "cd_events db"] lk by (simp add: kept_def tables_ok_def same_base_def)
qed


lemma event_keys_links:
  assumes "event_keys evs" "r \<in> set evs"
  shows "\<forall>(i, s, w) \<in> set (links evs). i = ev_ID (fst r) \<longrightarrow> s = ev_SeriesID (fst r) \<and> w = ev_OwnerID (fst r)"
proof -
  have "inj_on (ev_ID \<circ> fst) (set evs)" using assms(1) by (simp add: event_keys_def distinct_map)
  then have "x = r" if "x \<in> set evs" "ev_ID (fst x) = ev_ID (fst r)" for x using that assms(2) by (simp add: inj_on_def)
  then have "\<forall>x \<in> set evs. ev_ID (fst x) = ev_ID (fst r) \<longrightarrow> ev_SeriesID (fst x) = ev_SeriesID (fst r) \<and> ev_OwnerID (fst x) = ev_OwnerID (fst r)"
    by blast
  then show ?thesis by (simp add: links_def)
qed

lemma flat_snoc:
  assumes "flat ls" "\<forall>(j, s', w') \<in> set ls. s = Some j \<longrightarrow> s' = None \<and> w' = w" "\<forall>(j, s', w') \<in> set ls. s' \<noteq> Some i" "s \<noteq> Some i"
  shows "flat (ls @ [(i, s, w)])"
  using assms unfolding flat_def set_append list.set ball_Un by auto

lemma tables_okD:
  assumes "tables_ok db"
  shows "event_keys (cd_events db)" "event_refs (cd_calendars db) (cd_events db)" "flat (links (cd_events db))" "list_all event_check (cd_events db)"
    "table_ok (cd_calendars db) (cd_events db)"
  using assms by (simp_all add: tables_ok_def table_ok_def)

lemma Event_Insert_kept:
  assumes ins: "Event_Insert t db e = Inr (out, db')" and ok: "tables_ok db"
    and S: "ev_ID e \<in> S \<or> (\<exists>s \<in> S. ev_SeriesID e = Some s)"
    and sid: "\<forall>(i, s, w) \<in> set (links (cd_events db)). ev_SeriesID e = Some i \<longrightarrow> s = None \<and> w = tx_owner t"
  shows "kept S (tx_owner t) db db' \<and> links (cd_events db') = links (cd_events db) @ [(ev_ID e, ev_SeriesID e, tx_owner t)]"
proof -
  obtain s where out: "out = (stored_event e)\<lparr>ev_OwnerID := tx_owner t, ev_Version := 1, ev_CreatedAt := cd_now db, ev_UpdatedAt := cd_now db, ev_DeletedAt := None\<rparr>"
    and evs: "cd_events db' = cd_events db @ [(out, s)]" and tok: "table_ok (cd_calendars db) (cd_events db')" and base: "same_base db db'"
    by (rule Event_Insert_rows [OF ins])
  have f: "ev_ID out = ev_ID e" "ev_SeriesID out = ev_SeriesID e" "ev_OwnerID out = tx_owner t" by (simp_all add: out)
  have lk: "links (cd_events db') = links (cd_events db) @ [(ev_ID e, ev_SeriesID e, tx_owner t)]" by (simp add: links_def evs f)
  have fresh: "ev_ID (fst x) \<noteq> ev_ID e" if "x \<in> set (cd_events db)" for x
    using tok that by (auto simp: table_ok_def event_keys_def evs f image_iff)
  have self: "ev_SeriesID e \<noteq> Some (ev_ID e)"
    using tok f by (auto simp: table_ok_def evs event_check_def split: prod.splits)
  have orphan: "ev_SeriesID (fst x) \<noteq> Some (ev_ID e)" if "x \<in> set (cd_events db)" for x
    using tables_okD(2) [OF ok] fresh that unfolding event_refs_iff by blast
  have "\<forall>(j, s', w') \<in> set (links (cd_events db)). s' \<noteq> Some (ev_ID e)" using orphan by (simp add: links_def)
  then have "flat (links (cd_events db'))" unfolding lk by (rule flat_snoc [OF tables_okD(3) [OF ok] sid _ self])
  moreover have "filter (outside S (tx_owner t)) (cd_events db') = filter (outside S (tx_owner t)) (cd_events db)"
    using S by (auto simp: evs outside_def f)
  moreover have "list_all (\<lambda>r. stored_event (fst r) = fst r) (cd_events db')"
    using ok by (simp add: tables_ok_def evs out stored_fields)
  ultimately show ?thesis using tok base lk by (simp add: kept_def tables_ok_def same_base_def)
qed

lemma MoveOverrides_kept:
  assumes mv: "MoveOverrides t db m to since = Inr db'" and ok: "tables_ok db" and S: "m \<in> S" "ev_ID to \<in> S"
    and lk: "\<forall>(i, s, w) \<in> set (links (cd_events db)). i = ev_ID to \<longrightarrow> s = None \<and> w = tx_owner t"
  shows "kept S (tx_owner t) db db'"
proof -
  let ?f = "\<lambda>r. if moves_row (tx_owner t) m since r
        then ((fst r)\<lparr>ev_SeriesID := Some (ev_ID to), ev_CalendarID := ev_CalendarID to, ev_UID := ev_UID to,
                      ev_Version := ev_Version (fst r) + 1, ev_UpdatedAt := cd_now db\<rparr>, snd r) else r"
  note mr = MoveOverrides_rows [OF mv]
  have row: "ev_ID (fst (?f r)) = ev_ID (fst r)" "ev_OwnerID (fst (?f r)) = ev_OwnerID (fst r)"
    "ev_SeriesID (fst (?f r)) = (if moves_row (tx_owner t) m since r then Some (ev_ID to) else ev_SeriesID (fst r))" for r by simp_all
  have moved: "moves_row (tx_owner t) m since r \<Longrightarrow> ev_SeriesID (fst r) = Some m \<and> ev_OwnerID (fst r) = tx_owner t" for r
    by (auto simp: moves_row_def event_visible_def)
  have to: "ev_SeriesID (fst x) = None \<and> ev_OwnerID (fst x) = tx_owner t" if "x \<in> set (cd_events db)" "ev_ID (fst x) = ev_ID to" for x
    using lk that by (auto simp: links_def)
  have "flat (links (map ?f (cd_events db)))"
    unfolding flat_links set_map ball_simps row
  proof (intro ballI impI)
    fix r x assume rx: "r \<in> set (cd_events db)" "x \<in> set (cd_events db)"
      and link: "(if moves_row (tx_owner t) m since r then Some (ev_ID to) else ev_SeriesID (fst r)) = Some (ev_ID (fst x))"
    show "(if moves_row (tx_owner t) m since x then Some (ev_ID to) else ev_SeriesID (fst x)) = None \<and> ev_OwnerID (fst x) = ev_OwnerID (fst r)"
    proof (cases "moves_row (tx_owner t) m since r")
      case True
      then show ?thesis using link to [OF rx(2)] moved [OF True] moved [of x] by auto
    next
      case False
      then show ?thesis using link flatD [OF tables_okD(3) [OF ok] rx] moved [of x] by auto
    qed
  qed
  moreover have "filter (outside S (tx_owner t)) (map ?f (cd_events db)) = filter (outside S (tx_owner t)) (cd_events db)"
    by (rule filter_map_same) (use S moved in \<open>auto simp: outside_def\<close>)
  moreover have "list_all (\<lambda>r. stored_event (fst r) = fst r) (map ?f (cd_events db))"
    using ok by (auto simp: tables_ok_def list_all_iff stored_fields)
  ultimately show ?thesis using mr unfolding kept_def tables_ok_def by (simp add: same_base_def)
qed

subsection \<open>Edits\<close>

definition known :: "event_row list \<Rightarrow> go_id set \<Rightarrow> Event \<Rightarrow> bool" where
  "known evs S e \<longleftrightarrow> (\<forall>(i, s, w) \<in> set (links evs). i = ev_ID e \<longrightarrow> s = ev_SeriesID e) \<and> (ev_ID e \<in> S \<or> (\<exists>s \<in> S. ev_SeriesID e = Some s))"

lemma known_links: "links a = links b \<Longrightarrow> known a S e = known b S e"
  by (simp add: known_def)

lemma known_cong: "ev_ID a = ev_ID b \<Longrightarrow> ev_SeriesID a = ev_SeriesID b \<Longrightarrow> known evs S a = known evs S b"
  by (simp add: known_def)

lemma known_row:
  assumes "tables_ok db" "r \<in> set (cd_events db)" "ev_ID e = ev_ID (fst r)" "ev_SeriesID e = ev_SeriesID (fst r)"
    "ev_ID e \<in> S \<or> (\<exists>s \<in> S. ev_SeriesID e = Some s)"
  shows "known (cd_events db) S e"
  using event_keys_links [OF tables_okD(1) [OF assms(1)] assms(2)] assms(3-5) unfolding known_def by auto

lemma Overrides_row: "e \<in> set (Overrides db w m) \<Longrightarrow> \<exists>s. (e, s) \<in> set (cd_events db) \<and> ev_SeriesID e = Some m \<and> event_visible w e"
  by (auto simp: Overrides_def) blast

lemma Override_row: "Override db w m at = Inr e \<Longrightarrow> \<exists>s. (e, s) \<in> set (cd_events db) \<and> ev_SeriesID e = Some m \<and> event_visible w e"
  by (auto simp: Override_def find_Some_iff split: option.splits) (metis fst_conv nth_mem surj_pair)

lemma Event_get_row: "Event_get db w i = Inr e \<Longrightarrow> \<exists>s. (e, s) \<in> set (cd_events db) \<and> ev_ID e = i \<and> event_visible w e"
  by (auto simp: Event_get_def find_Some_iff split: option.splits) (metis fst_conv nth_mem surj_pair)

definition step_kept :: "go_id set \<Rightarrow> go_id \<Rightarrow> cal_db \<Rightarrow> cal_db \<Rightarrow> bool" where
  "step_kept S w db db' \<longleftrightarrow> kept S w db db' \<and> links (cd_events db') = links (cd_events db)"

lemma step_kept_trans: "step_kept S w a b \<Longrightarrow> step_kept S w b c \<Longrightarrow> step_kept S w a c"
  unfolding step_kept_def using kept_trans by auto

lemma step_kept_ok: "step_kept S w a b \<Longrightarrow> tables_ok b"
  by (simp add: step_kept_def kept_def)

lemma Update_step:
  assumes "Event_Update t db e = Inr (out, db')" "tables_ok db" "known (cd_events db) S e"
  shows "step_kept S (tx_owner t) db db'"
  unfolding step_kept_def
  by (rule Event_Update_kept [OF assms(1,2) assms(3) [unfolded known_def, THEN conjunct1] assms(3) [unfolded known_def, THEN conjunct2]])

lemma Delete_step:
  assumes "Event_Delete t db e at = Inr db'" "tables_ok db" "known (cd_events db) S e"
  shows "step_kept S (tx_owner t) db db'"
  unfolding step_kept_def
  by (rule Event_Delete_kept [OF assms(1,2) assms(3) [unfolded known_def, THEN conjunct2] assms(3) [unfolded known_def, THEN conjunct1]])

lemma delete_all_step:
  "delete_all t db os at = Inr db' \<Longrightarrow> tables_ok db \<Longrightarrow> \<forall>e \<in> set os. known (cd_events db) S e \<Longrightarrow> step_kept S (tx_owner t) db db'"
proof (induction t db os at arbitrary: db' rule: delete_all.induct)
  case (1 t db at)
  then show ?case by (simp add: step_kept_def kept_refl)
next
  case (2 t db o1 rest at)
  then obtain db1 where d: "Event_Delete t db o1 at = Inr db1" "delete_all t db1 rest at = Inr db'" by (auto split: sum.splits)
  have kn: "known (cd_events db) S o1" "\<forall>e \<in> set rest. known (cd_events db) S e" using 2(4) by simp_all
  note st = Delete_step [OF d(1) 2(3) kn(1)]
  have "\<forall>e \<in> set rest. known (cd_events db1) S e" using kn(2) st by (simp add: step_kept_def known_def)
  then show ?case using 2(1) [OF d(1,2) step_kept_ok [OF st]] step_kept_trans [OF st] by blast
qed

lemma sync_loop_step:
  "sync_loop t ser aft d sh db os = Inr db' \<Longrightarrow> tables_ok db \<Longrightarrow> \<forall>e \<in> set os. known (cd_events db) S e \<Longrightarrow> step_kept S (tx_owner t) db db'"
proof (induction os arbitrary: db)
  case Nil
  then show ?case by (simp add: step_kept_def kept_refl)
next
  case (Cons o1 rest)
  obtain r0 where r0: "ev_RecurrenceID o1 = Some r0" using Cons(2) by (auto split: option.splits)
  define e where "e = o1\<lparr>ev_RecurrenceID := Some (if sh then r0 + d else r0), ev_CalendarID := ev_CalendarID aft\<rparr>"
  have kn: "known (cd_events db) S e" "known (cd_events db) S o1"
    using Cons(4) known_cong [of e o1 "cd_events db" S] by (simp_all add: e_def)
  obtain ok where ok: "Contains (en_lib (tx_env t)) ser (if sh then r0 + d else r0) = Inr ok"
    using Cons(2) r0 by (auto simp: Let_def split: sum.splits)
  obtain db1 where s1: "(if \<not> ok then Event_Delete t db o1 (ev_UpdatedAt aft)
       else if sh then (case Event_Update t db e of Inl x \<Rightarrow> Inl x | Inr (e, db') \<Rightarrow> Inr db') else Inr db) = Inr db1"
    and rest: "sync_loop t ser aft d sh db1 rest = Inr db'"
    using Cons(2) unfolding sync_loop.simps Let_def r0 option.case ok sum.case e_def [symmetric] by (auto split: sum.splits)
  have st: "step_kept S (tx_owner t) db db1"
  proof (cases "\<not> ok")
    case True
    then show ?thesis using s1 Delete_step [OF _ Cons(3) kn(2)] by simp
  next
    case False
    then show ?thesis
      using s1 Update_step [OF _ Cons(3) kn(1)] Cons(3) by (auto simp: step_kept_def kept_refl split: if_splits sum.splits prod.splits)
  qed
  then have "\<forall>e \<in> set rest. known (cd_events db1) S e" using Cons(4) by (simp add: step_kept_def known_def)
  then show ?case using Cons(1) [OF rest step_kept_ok [OF st]] step_kept_trans [OF st] by blast
qed

lemma syncOverrides_step:
  assumes "syncOverrides t db bef aft = Inr db'" "tables_ok db" "ev_ID aft \<in> S"
  shows "step_kept S (tx_owner t) db db'"
proof -
  let ?ovs = "Overrides db (tx_owner t) (ev_ID aft)"
  have kn: "\<forall>e \<in> set ?ovs. known (cd_events db) S e"
  proof
    fix e assume "e \<in> set ?ovs"
    then obtain s where "(e, s) \<in> set (cd_events db)" "ev_SeriesID e = Some (ev_ID aft)" using Overrides_row by blast
    then show "known (cd_events db) S e" using known_row [OF assms(2), of "(e, s)" e S] assms(3) by simp
  qed
  then have kr: "\<forall>e \<in> set (rev ?ovs). known (cd_events db) S e" by simp
  have sync: "step_kept S (tx_owner t) db db'" if "sync_loop t ser aft d sh db (if b then rev ?ovs else ?ovs) = Inr db'" for ser d sh b
    using that sync_loop_step [OF _ assms(2) kn] sync_loop_step [OF _ assms(2) kr] by (cases b) simp_all
  show ?thesis
  proof (cases "?ovs = []")
    case True
    then show ?thesis using assms by (simp add: syncOverrides_def step_kept_def kept_refl)
  next
    case no: False
    show ?thesis
    proof (cases "IsMaster aft")
      case False
      then have "delete_all t db ?ovs (ev_UpdatedAt aft) = Inr db'" using assms(1) no by (simp add: syncOverrides_def)
      then show ?thesis by (rule delete_all_step [OF _ assms(2) kn])
    next
      case True
      then show ?thesis using assms(1) no sync by (simp add: syncOverrides_def Let_def split: sum.splits)
    qed
  qed
qed

lemma key_fields: "event_key a = event_key b \<Longrightarrow> ev_ID a = ev_ID b \<and> ev_SeriesID a = ev_SeriesID b"
  by (simp add: event_key_def)

lemma shiftSeries_key [simp]: "ev_ID (shiftSeries a b p) = ev_ID b" "ev_SeriesID (shiftSeries a b p) = ev_SeriesID b"
  by (simp_all add: shiftSeries_def Let_def)

lemma move_to_key [simp]: "ev_ID (move_to c e) = ev_ID e" "ev_SeriesID (move_to c e) = ev_SeriesID e"
  by (simp_all add: move_to_def split: option.splits)

lemma Update_out: "Event_Update t db e = Inr (out, db') \<Longrightarrow> ev_ID out = ev_ID e"
  by (erule Event_Update_rows) (auto simp: updated_event_def updates_row_def)

lemma updateAll_step:
  assumes "updateAll t db m p mv = Inr (out, db')" "tables_ok db" "known (cd_events db) S m" "ev_ID m \<in> S"
  shows "step_kept S (tx_owner t) db db'"
proof -
  obtain m' out1 db1 where a: "applyEvent (tx_env t) m p False = (None, m')"
    "Event_Update t db (move_to mv (shiftSeries m m' p)) = Inr (out1, db1)"
    and fin: "db' = db1 \<or> syncOverrides t db1 m out1 = Inr db'"
    using assms(1) by (auto simp: updateAll_def split: prod.splits option.splits sum.splits if_splits)
  note k = key_fields [OF applyEvent_key [OF a(1)]]
  have "known (cd_events db) S (move_to mv (shiftSeries m m' p))"
    using assms(3) known_cong [of "move_to mv (shiftSeries m m' p)" m] k by simp
  then have st: "step_kept S (tx_owner t) db db1" using Update_step [OF a(2) assms(2)] by simp
  have "ev_ID out1 \<in> S" using Update_out [OF a(2)] k assms(4) by simp
  then show ?thesis using fin syncOverrides_step [OF _ step_kept_ok [OF st]] step_kept_trans [OF st] st by blast
qed

lemma step_keptD: "step_kept S w a b \<Longrightarrow> kept S w a b"
  by (simp add: step_kept_def)

lemma kept_ok: "kept S w a b \<Longrightarrow> tables_ok b"
  by (simp add: kept_def)

text \<open>An event that was read under an id: its row, with the zone filled in.\<close>

definition read_as :: "cal_db \<Rightarrow> go_id \<Rightarrow> go_id \<Rightarrow> Event \<Rightarrow> bool" where
  "read_as db w i e \<longleftrightarrow> (\<exists>r z. Event_get db w i = Inr r \<and> e = r\<lparr>ev_TZ := z\<rparr>)"

lemma read_as_row:
  assumes "read_as db w i e"
  obtains r s where "(r, s) \<in> set (cd_events db)" "ev_ID r = i" "ev_ID e = i" "ev_SeriesID r = ev_SeriesID e" "event_visible w r"
proof -
  obtain r z where r: "Event_get db w i = Inr r" "e = r\<lparr>ev_TZ := z\<rparr>" using assms by (auto simp: read_as_def)
  then obtain s where "(r, s) \<in> set (cd_events db)" "ev_ID r = i" "event_visible w r" using Event_get_row by blast
  then show thesis using that r(2) by simp
qed

lemma read_as_known:
  assumes "read_as db w i e" "tables_ok db" "i \<in> S \<or> (\<exists>s \<in> S. ev_SeriesID e = Some s)"
  shows "known (cd_events db) S e"
proof -
  obtain r s where "(r, s) \<in> set (cd_events db)" "ev_ID r = i" "ev_ID e = i" "ev_SeriesID r = ev_SeriesID e"
    by (rule read_as_row [OF assms(1)])
  then show ?thesis using known_row [OF assms(2), of "(r, s)" e S] assms(3) by simp
qed

lemma read_as_master:
  assumes "read_as db w i m" "tables_ok db" "ev_SeriesID m = None"
  shows "\<forall>(j, s, v) \<in> set (links (cd_events db)). j = i \<longrightarrow> s = None \<and> v = w"
proof -
  obtain r s where r: "(r, s) \<in> set (cd_events db)" "ev_ID r = i" "ev_SeriesID r = ev_SeriesID m" "event_visible w r"
    by (rule read_as_row [OF assms(1)])
  then show ?thesis using event_keys_links [OF tables_okD(1) [OF assms(2)] r(1)] assms(3) by (simp add: event_visible_def)
qed

lemma fillTZ_shape: "\<exists>z. fillTZ cals tz e = e\<lparr>ev_TZ := z\<rparr>"
proof -
  have "fillTZ cals tz e = e\<lparr>ev_TZ := if ev_TZ e \<noteq> [] then ev_TZ e
      else case cals (ev_CalendarID e) of None \<Rightarrow> tz | Some c \<Rightarrow> if cal_Timezone c \<noteq> [] then cal_Timezone c else tz\<rparr>"
    by (simp add: fillTZ_def split: option.split)
  then show ?thesis by blast
qed

lemma read_as_fill: "Event_get db w i = Inr e \<Longrightarrow> read_as db w i (fillTZ cals tz e)"
  using fillTZ_shape [of cals tz e] by (auto simp: read_as_def)

lemma fillTZ_same [simp]: "ev_SeriesID (fillTZ cals tz e) = ev_SeriesID e" "ev_RecurrenceID (fillTZ cals tz e) = ev_RecurrenceID e"
  using fillTZ_shape [of cals tz e] by auto

text \<open>The id of the series an event belongs to, its own when it is no override.\<close>

definition series_of :: "Event \<Rightarrow> go_id" where
  "series_of e = (case ev_SeriesID e of Some m \<Rightarrow> m | None \<Rightarrow> ev_ID e)"

lemma target_of_facts:
  assumes "target_of env e ed = Inr tg"
  shows "et_target tg = e" "et_master tg = e" "et_inst tg \<noteq> None"
  using assms by (auto simp: target_of_def split: option.splits sum.splits if_splits)

lemma resolve_facts:
  assumes "resolve env w db cals tz i ed = Inr tg"
  obtains e where "Event_get db w i = Inr e" "CheckIfMatch (ed_IfMatch ed) (Event_ETag e) = None" "writable cals e = None"
    "read_as db w i (et_target tg)" "ev_SeriesID (et_target tg) = ev_SeriesID e" "read_as db w (series_of e) (et_master tg)"
    "IsMaster (et_master tg) \<Longrightarrow> et_scope tg \<noteq> ''all'' \<Longrightarrow> et_inst tg \<noteq> None"
    "IsOverride (et_target tg) \<or> et_master tg = et_target tg"
proof -
  obtain e where e: "Event_get db w i = Inr e" "CheckIfMatch (ed_IfMatch ed) (Event_ETag e) = None" "writable cals e = None"
    using assms by (auto simp: resolve_def split: if_splits sum.splits option.splits)
  have idi: "ev_ID e = i" using Event_get_row [OF e(1)] by blast
  let ?e = "fillTZ cals tz e"
  have res: "(if IsOverride ?e
              then (case ev_SeriesID ?e of
                      None \<Rightarrow> Inl nilPanic
                    | Some sid \<Rightarrow>
                      (case Event_get db w sid of
                         Inl x \<Rightarrow> Inl x
                       | Inr m \<Rightarrow>
                         (case ev_RecurrenceID ?e of
                            None \<Rightarrow> Inl nilPanic
                          | Some rid \<Rightarrow> Inr \<lparr>et_target = ?e, et_master = fillTZ cals tz m, et_inst = Some rid,
                              et_scope = (if ed_Scope ed = [] then ''this'' else ed_Scope ed)\<rparr>)))
              else if IsMaster ?e \<and> ed_Instance ed \<noteq> [] then target_of env ?e ed
              else if IsMaster ?e \<and> ed_Scope ed \<in> {''this'', ''following''}
              then Inl (Validation (Add [] ''instance'' ''is required for this scope''))
              else Inr \<lparr>et_target = ?e, et_master = ?e, et_inst = None, et_scope = ''all''\<rparr>) = Inr tg"
    using assms e unfolding resolve_def Let_def by (auto split: if_splits)
  show thesis
  proof (cases "IsOverride ?e")
    case True
    then obtain sid m rid where o1: "ev_SeriesID e = Some sid" "Event_get db w sid = Inr m"
      "tg = \<lparr>et_target = ?e, et_master = fillTZ cals tz m, et_inst = Some rid, et_scope = (if ed_Scope ed = [] then ''this'' else ed_Scope ed)\<rparr>"
      using res by (auto split: option.splits sum.splits)
    show thesis using that [OF e] read_as_fill [OF e(1)] read_as_fill [OF o1(2)] o1(1) True by (simp add: o1(3) series_of_def)
  next
    case False
    then have none: "ev_SeriesID e = None" by (simp add: IsOverride_def)
    then have tg: "et_target tg = ?e \<and> et_master tg = ?e \<and> (et_scope tg = ''all'' \<or> et_inst tg \<noteq> None)"
      using res False target_of_facts [of env ?e ed tg] by (auto split: if_splits)
    have "read_as db w (series_of e) ?e" using read_as_fill [OF e(1)] none idi by (simp add: series_of_def)
    then show thesis using that [OF e] read_as_fill [OF e(1)] tg none by auto
  qed
qed

lemma updateThis_kept:
  assumes up: "updateThis t db tg p newID = Inr (out, db')" and ok: "tables_ok db"
    and tgt: "read_as db (tx_owner t) i (et_target tg)" and mst: "read_as db (tx_owner t) mid (et_master tg)" "IsMaster (et_master tg)"
    and ovr: "IsOverride (et_target tg) \<Longrightarrow> ev_SeriesID (et_target tg) = Some mid"
  shows "kept {mid} (tx_owner t) db db'"
proof -
  have mID: "ev_ID (et_master tg) = mid" by (rule read_as_row [OF mst(1)])
  obtain ov isNew ov' where ap: "applyEvent (tx_env t) ov p False = (None, ov')"
    and fin: "(if isNew then Event_Insert t db ov' else Event_Update t db ov') = Inr (out, db')"
    and ov: "if isNew then \<exists>inst. ov = newOverride (et_master tg) inst newID
      else ov = et_target tg \<and> IsOverride (et_target tg) \<or>
        (\<exists>ex inst. Override db (tx_owner t) mid inst = Inr ex \<and> ov = ex\<lparr>ev_TZ := ev_TZ (et_master tg)\<rparr>)"
  proof -
    obtain ov isNew where q: "override_of t db tg newID = Inr (ov, isNew)" using up by (auto simp: updateThis_def split: sum.splits)
    obtain ov' where ap: "applyEvent (tx_env t) ov p False = (None, ov')"
      and fin: "(if isNew then Event_Insert t db ov' else Event_Update t db ov') = Inr (out, db')"
      using up by (auto simp: updateThis_def q split: prod.splits option.splits)
    show thesis
      by (rule that [OF ap fin]) (use q in \<open>auto simp: override_of_def mID split: if_splits option.splits sum.splits\<close>)
  qed
  note k = key_fields [OF applyEvent_key [OF ap]]
  show ?thesis
  proof (cases isNew)
    case True
    then have new: "ev_SeriesID ov' = Some mid" "Event_Insert t db ov' = Inr (out, db')" using ov fin k mID by (auto simp: newOverride_def)
    have "\<forall>(j, s, v) \<in> set (links (cd_events db)). ev_SeriesID ov' = Some j \<longrightarrow> s = None \<and> v = tx_owner t"
      using read_as_master [OF mst(1) ok] mst(2) new(1) by (auto simp: IsMaster_def)
    then show ?thesis using Event_Insert_kept [OF new(2) ok, of "{mid}"] new(1) by auto
  next
    case False
    have "known (cd_events db) {mid} ov"
    proof (cases "ov = et_target tg \<and> IsOverride (et_target tg)")
      case True
      then show ?thesis using read_as_known [OF tgt ok] ovr by auto
    next
      case no: False
      then obtain ex inst where ex: "Override db (tx_owner t) mid inst = Inr ex" "ov = ex\<lparr>ev_TZ := ev_TZ (et_master tg)\<rparr>"
        using ov False by auto
      then obtain s where "(ex, s) \<in> set (cd_events db)" "ev_SeriesID ex = Some mid" using Override_row by blast
      then show ?thesis using known_row [OF ok, of "(ex, s)" ov "{mid}"] ex(2) by simp
    qed
    then have "known (cd_events db) {mid} ov'" using known_cong k by blast
    moreover have "Event_Update t db ov' = Inr (out, db')" using fin False by simp
    ultimately show ?thesis using Update_step [OF _ ok] step_keptD by blast
  qed
qed

lemma kept_weaken:
  assumes "kept S w a b" "S \<subseteq> T"
  shows "kept T w a b"
proof -
  have sub: "filter (outside T w) xs = filter (outside T w) (filter (outside S w) xs)" for xs
    using assms(2) by (induction xs) (auto simp: outside_def)
  have "filter (outside S w) (cd_events b) = filter (outside S w) (cd_events a)" using assms(1) by (simp add: kept_def)
  then have "filter (outside T w) (cd_events b) = filter (outside T w) (cd_events a)"
    using sub [of "cd_events a"] sub [of "cd_events b"] by simp
  then show ?thesis using assms(1) by (simp add: kept_def)
qed

lemma split_head_step:
  assumes "Event_Update t db (split_head m at head) = Inr (h, db')" "tables_ok db" "known (cd_events db) S m"
  shows "step_kept S (tx_owner t) db db'"
  using Update_step [OF assms(1,2), of S] assms(3) known_cong [of "split_head m at head" m] by (simp add: split_head_def)

lemma updateFollowing_kept:
  assumes up: "updateFollowing t db m at p mv newID uidID = Inr (out, db')" and ok: "tables_ok db"
    and m: "read_as db (tx_owner t) mid m" "ev_SeriesID m = None"
  shows "kept {mid, newID} (tx_owner t) db db'"
proof -
  let ?S = "{mid, newID}"
  have mID: "ev_ID m = mid" by (rule read_as_row [OF m(1)])
  obtain head tail where sp: "Split (en_lib (tx_env t)) (en_zones (tx_env t)) m at = Inr (head, tail)"
    using up by (auto simp: updateFollowing_def split: sum.splits)
  define base where "base = split_base (tx_env t) m at tail newID uidID"
  obtain n1 where ap: "applyEvent (tx_env t) base p False = (None, n1)"
    using up by (auto simp: updateFollowing_def sp base_def [symmetric] Let_def split: option.splits prod.splits)
  obtain h db1 where hd: "Event_Update t db (split_head m at head) = Inr (h, db1)"
    using up by (auto simp: updateFollowing_def sp base_def [symmetric] Let_def ap split: sum.splits)
  obtain created db2 where ins: "Event_Insert t db1 (move_to mv (shiftSeries base n1 p)) = Inr (created, db2)"
    using up by (auto simp: updateFollowing_def sp base_def [symmetric] Let_def ap hd split: sum.splits)
  obtain db3 where mv: "MoveOverrides t db2 (ev_ID m) created at = Inr db3"
    using up by (auto simp: updateFollowing_def sp base_def [symmetric] Let_def ap hd ins split: sum.splits)
  have sy: "syncOverrides t db3 base created = Inr db'"
    using up by (auto simp: updateFollowing_def sp base_def [symmetric] Let_def ap hd ins mv split: sum.splits)
  let ?n = "move_to mv (shiftSeries base n1 p)"
  have n: "ev_ID ?n = newID" "ev_SeriesID ?n = None"
    using key_fields [OF applyEvent_key [OF ap]] m(2) by (simp_all add: base_def split_base_def)
  have "known (cd_events db) ?S m" by (rule read_as_known [OF m(1) ok]) simp
  then have s1: "step_kept ?S (tx_owner t) db db1" by (rule split_head_step [OF hd ok])
  have k2: "kept ?S (tx_owner t) db1 db2"
    using Event_Insert_kept [OF ins step_kept_ok [OF s1], of ?S] n by auto
  obtain s where cr: "(created, s) \<in> set (cd_events db2)" "ev_ID created = newID" "ev_SeriesID created = None" "ev_OwnerID created = tx_owner t"
    by (rule Event_Insert_rows [OF ins]) (use n in auto)
  have "\<forall>(i, s, w) \<in> set (links (cd_events db2)). i = ev_ID created \<longrightarrow> s = None \<and> w = tx_owner t"
    using event_keys_links [OF tables_okD(1) [OF kept_ok [OF k2]] cr(1)] cr(3,4) by simp
  then have k3: "kept ?S (tx_owner t) db2 db3" by (intro MoveOverrides_kept [OF mv kept_ok [OF k2]]) (simp_all add: mID cr(2))
  have "step_kept ?S (tx_owner t) db3 db'" by (rule syncOverrides_step [OF sy kept_ok [OF k3]]) (simp add: cr(2))
  then show ?thesis using kept_trans [OF kept_trans [OF kept_trans [OF step_keptD [OF s1] k2] k3]] step_keptD by blast
qed

lemma excludeInstance_kept:
  assumes ex: "excludeInstance t db m at now = Inr db'" and ok: "tables_ok db" and m: "read_as db (tx_owner t) mid m"
  shows "kept {mid} (tx_owner t) db db'"
proof -
  have mID: "ev_ID m = mid" by (rule read_as_row [OF m])
  obtain e db1 where up: "Event_Update t db ((with_exdate m at)\<lparr>ev_Sequence := ev_Sequence m + 1\<rparr>) = Inr (e, db1)"
    using ex by (auto simp: excludeInstance_def split: sum.splits)
  have "known (cd_events db) {mid} m" by (rule read_as_known [OF m ok]) simp
  then have "known (cd_events db) {mid} ((with_exdate m at)\<lparr>ev_Sequence := ev_Sequence m + 1\<rparr>)"
    by (simp add: known_def with_exdate_def)
  then have s1: "step_kept {mid} (tx_owner t) db db1" by (rule Update_step [OF up ok])
  have "db' = db1 \<or> (\<exists>ov. Override db1 (tx_owner t) mid at = Inr ov \<and> Event_Delete t db1 ov now = Inr db')"
    using ex up mID by (auto simp: excludeInstance_def split: sum.splits if_splits)
  then show ?thesis
  proof
    assume "\<exists>ov. Override db1 (tx_owner t) mid at = Inr ov \<and> Event_Delete t db1 ov now = Inr db'"
    then obtain ov where ov: "Override db1 (tx_owner t) mid at = Inr ov" "Event_Delete t db1 ov now = Inr db'" by blast
    then obtain s where "(ov, s) \<in> set (cd_events db1)" "ev_SeriesID ov = Some mid" using Override_row by blast
    then have "known (cd_events db1) {mid} ov" using known_row [OF step_kept_ok [OF s1], of "(ov, s)" ov "{mid}"] by simp
    then show ?thesis using kept_trans [OF step_keptD [OF s1] step_keptD [OF Delete_step [OF ov(2) step_kept_ok [OF s1]]]] by simp
  qed (simp add: step_keptD [OF s1])
qed

lemma truncateSeries_kept:
  assumes tr: "truncateSeries t db m at now = Inr db'" and ok: "tables_ok db" and m: "read_as db (tx_owner t) mid m"
  shows "kept {mid} (tx_owner t) db db'"
proof -
  have mID: "ev_ID m = mid" by (rule read_as_row [OF m])
  obtain head tail h db1 where up: "Event_Update t db (split_head m at head) = Inr (h, db1)"
    and dl: "delete_all t db1 (filter (\<lambda>o1. \<not> the (ev_RecurrenceID o1) < at) (Overrides db1 (tx_owner t) mid)) now = Inr db'"
    using tr by (auto simp: truncateSeries_def mID Let_def split: sum.splits if_splits)
  have "known (cd_events db) {mid} m" by (rule read_as_known [OF m ok]) simp
  then have s1: "step_kept {mid} (tx_owner t) db db1" by (rule split_head_step [OF up ok])
  have "\<forall>e \<in> set (filter (\<lambda>o1. \<not> the (ev_RecurrenceID o1) < at) (Overrides db1 (tx_owner t) mid)). known (cd_events db1) {mid} e"
  proof
    fix e assume "e \<in> set (filter (\<lambda>o1. \<not> the (ev_RecurrenceID o1) < at) (Overrides db1 (tx_owner t) mid))"
    then obtain s where "(e, s) \<in> set (cd_events db1)" "ev_SeriesID e = Some mid" using Overrides_row by auto blast
    then show "known (cd_events db1) {mid} e" using known_row [OF step_kept_ok [OF s1], of "(e, s)" e "{mid}"] by simp
  qed
  then show ?thesis using kept_trans [OF step_keptD [OF s1] step_keptD [OF delete_all_step [OF dl step_kept_ok [OF s1]]]] by blast
qed

lemma update_tx_kept:
  assumes up: "update_tx t cals def1 tz i p ed newID uidID db = Inr (out, db')" and ok: "tables_ok db"
  shows "\<exists>e. Event_get db (tx_owner t) i = Inr e \<and> CheckIfMatch (ed_IfMatch ed) (Event_ETag e) = None \<and> writable cals e = None \<and>
    kept {series_of e, newID} (tx_owner t) db db'"
proof -
  obtain tg where rs: "resolve (tx_env t) (tx_owner t) db cals tz i ed = Inr tg"
    using up by (auto simp: update_tx_def split: sum.splits)
  obtain e where e: "Event_get db (tx_owner t) i = Inr e" "CheckIfMatch (ed_IfMatch ed) (Event_ETag e) = None" "writable cals e = None"
    "read_as db (tx_owner t) i (et_target tg)" "ev_SeriesID (et_target tg) = ev_SeriesID e" "read_as db (tx_owner t) (series_of e) (et_master tg)"
    by (rule resolve_facts [OF rs])
  obtain mv where edit: "updateThis t db tg p newID = Inr (out, db') \<and> IsMaster (et_master tg) \<or>
      (\<exists>at. updateFollowing t db (et_master tg) at p mv newID uidID = Inr (out, db') \<and> IsMaster (et_master tg)) \<or>
      updateAll t db (et_master tg) p mv = Inr (out, db')"
    using up unfolding update_tx_def rs Let_def sum.case by (auto split: if_splits option.splits sum.splits)
  have mID: "ev_ID (et_master tg) = series_of e" by (rule read_as_row [OF e(6)])
  have "kept {series_of e, newID} (tx_owner t) db db'"
    using edit
  proof (elim disjE exE conjE)
    assume a: "updateThis t db tg p newID = Inr (out, db')" "IsMaster (et_master tg)"
    have "kept {series_of e} (tx_owner t) db db'"
      by (rule updateThis_kept [OF a(1) ok e(4,6) a(2)]) (use e(5) in \<open>auto simp: IsOverride_def series_of_def\<close>)
    then show ?thesis by (rule kept_weaken) simp
  next
    fix at assume a: "updateFollowing t db (et_master tg) at p mv newID uidID = Inr (out, db')" "IsMaster (et_master tg)"
    then show ?thesis using updateFollowing_kept [OF a(1) ok e(6)] by (simp add: IsMaster_def)
  next
    assume a: "updateAll t db (et_master tg) p mv = Inr (out, db')"
    have "known (cd_events db) {series_of e, newID} (et_master tg)" by (rule read_as_known [OF e(6) ok]) simp
    then show ?thesis using updateAll_step [OF a ok] mID step_keptD by simp
  qed
  then show ?thesis using e by blast
qed

lemma delete_tx_kept:
  assumes del: "delete_tx t cals i ed now db = Inr db'" and ok: "tables_ok db"
  shows "\<exists>e. Event_get db (tx_owner t) i = Inr e \<and> CheckIfMatch (ed_IfMatch ed) (Event_ETag e) = None \<and> writable cals e = None \<and>
    kept {series_of e} (tx_owner t) db db'"
proof -
  obtain tg where rs: "resolve (tx_env t) (tx_owner t) db cals ''UTC'' i ed = Inr tg"
    using del by (auto simp: delete_tx_def split: sum.splits)
  obtain e where e: "Event_get db (tx_owner t) i = Inr e" "CheckIfMatch (ed_IfMatch ed) (Event_ETag e) = None" "writable cals e = None"
    "read_as db (tx_owner t) (series_of e) (et_master tg)"
    by (rule resolve_facts [OF rs])
  have "Event_Delete t db (et_master tg) now = Inr db' \<or> (\<exists>at. truncateSeries t db (et_master tg) at now = Inr db') \<or>
      (\<exists>at. excludeInstance t db (et_master tg) at now = Inr db')"
    using del unfolding delete_tx_def rs Let_def sum.case by (auto split: if_splits option.splits)
  then have "kept {series_of e} (tx_owner t) db db'"
  proof (elim disjE exE)
    assume d: "Event_Delete t db (et_master tg) now = Inr db'"
    have "known (cd_events db) {series_of e} (et_master tg)" by (rule read_as_known [OF e(4) ok]) simp
    then show ?thesis using Delete_step [OF d ok] step_keptD by blast
  next
    fix at assume "truncateSeries t db (et_master tg) at now = Inr db'"
    then show ?thesis by (rule truncateSeries_kept [OF _ ok e(4)])
  next
    fix at assume "excludeInstance t db (et_master tg) at now = Inr db'"
    then show ?thesis by (rule excludeInstance_kept [OF _ ok e(4)])
  qed
  then show ?thesis using e by blast
qed

lemma Events_Update_kept:
  assumes "Events_Update env db w origin i p ed newID uidID = (Inr out, db')" "tables_ok db"
  shows "\<exists>e. Event_get db w i = Inr e \<and> CheckIfMatch (ed_IfMatch ed) (Event_ETag e) = None \<and> writable (fst (calendarMap db w)) e = None \<and>
    kept {series_of e, newID} w db db'"
proof -
  obtain tz loc where "userZone env db w = Inr (tz, loc)" using assms(1) by (auto simp: Events_Update_def split: sum.splits prod.splits)
  moreover obtain cals def1 where "calendarMap db w = (cals, def1)" by fastforce
  ultimately have "update_tx \<lparr>tx_env = env, tx_owner = w, tx_origin = origin\<rparr> cals def1 tz i p ed newID uidID db = Inr (out, db')"
    "fst (calendarMap db w) = cals"
    using assms(1) by (auto simp: Events_Update_def WithEvents_def split: sum.splits prod.splits)
  then show ?thesis using update_tx_kept [OF _ assms(2)] by fastforce
qed

lemma Events_Delete_kept:
  assumes "Events_Delete env db w origin i ed now = (None, db')" "tables_ok db"
  shows "\<exists>e. Event_get db w i = Inr e \<and> CheckIfMatch (ed_IfMatch ed) (Event_ETag e) = None \<and> writable (fst (calendarMap db w)) e = None \<and>
    kept {series_of e} w db db'"
proof -
  obtain cals def1 where "calendarMap db w = (cals, def1)" by fastforce
  then have "delete_tx \<lparr>tx_env = env, tx_owner = w, tx_origin = origin\<rparr> cals i ed now db = Inr db'" "fst (calendarMap db w) = cals"
    using assms(1) by (auto simp: Events_Delete_def WithEvents_def map_sum_def split: sum.splits prod.splits)
  then show ?thesis using delete_tx_kept [OF _ assms(2)] by fastforce
qed

lemma Events_Create_kept:
  assumes "Events_Create env db w origin p newID = (Inr out, db')" "tables_ok db"
  shows "kept {newID} w db db'"
proof -
  let ?t = "\<lparr>tx_env = env, tx_owner = w, tx_origin = origin\<rparr>"
  obtain cals def1 where cm: "calendarMap db w = (cals, def1)" by fastforce
  obtain cal where pc: "pickCalendar env cals def1 (evp_CalendarID p) = Inr cal"
    using assms(1) cm by (auto simp: Events_Create_def split: sum.splits)
  obtain tz loc where uz: "userZone env db w = Inr (tz, loc)" using assms(1) cm pc by (auto simp: Events_Create_def split: sum.splits)
  define e0 where "e0 = fillTZ cals tz (Event0\<lparr>ev_ID := newID, ev_OwnerID := w, ev_CalendarID := cal_ID cal, ev_Status := ''confirmed'',
                       ev_Transparency := ''opaque'', ev_Visibility := ''default'', ev_Reminders := cal_DefaultReminders cal,
                       ev_Version := 1, ev_UID := en_id_text env newID\<rparr>)"
  obtain r e where ap: "applyEvent env e0 p True = (r, e)" by fastforce
  then have "Event_Insert ?t db e = Inr (out, db')"
    using assms(1) by (auto simp: Events_Create_def cm pc uz Let_def e0_def [symmetric] WithEvents_def split: option.splits sum.splits prod.splits)
  moreover have "ev_ID e0 = newID" "ev_SeriesID e0 = None"
    using fillTZ_shape [of cals tz "Event0\<lparr>ev_ID := newID, ev_OwnerID := w, ev_CalendarID := cal_ID cal, ev_Status := ''confirmed'',
                       ev_Transparency := ''opaque'', ev_Visibility := ''default'', ev_Reminders := cal_DefaultReminders cal,
                       ev_Version := 1, ev_UID := en_id_text env newID\<rparr>"] by (auto simp: e0_def Event0_def)
  moreover note key_fields [OF applyEvent_key [OF ap]]
  ultimately show ?thesis using Event_Insert_kept [of ?t db e out db' "{newID}"] assms(2) by simp
qed

lemma failed_unchanged:
  "Events_Create env db w origin p newID = (Inl x, db') \<Longrightarrow> db' = db"
  "Events_Update env db w origin i p ed newID uidID = (Inl x, db') \<Longrightarrow> db' = db"
  "Events_Delete env db w origin i ed now = (Some x, db') \<Longrightarrow> db' = db"
  by (auto simp: Events_Create_def Events_Update_def Events_Delete_def WithEvents_def Let_def split: sum.splits prod.splits option.splits)

subsection \<open>Properties\<close>

inductive events_step :: "go_id \<Rightarrow> cal_db \<Rightarrow> cal_db \<Rightarrow> bool" where
  create: "Events_Create env db w origin p newID = (r, db') \<Longrightarrow> events_step w db db'"
| update: "Events_Update env db w origin i p ed newID uidID = (r, db') \<Longrightarrow> events_step w db db'"
| delete: "Events_Delete env db w origin i ed now = (x, db') \<Longrightarrow> events_step w db db'"

definition rows_of :: "go_id \<Rightarrow> cal_db \<Rightarrow> event_row list" where
  "rows_of w db = filter (\<lambda>r. ev_OwnerID (fst r) = w) (cd_events db)"

lemma kept_others:
  assumes "kept S w a b" "v \<noteq> w"
  shows "rows_of v b = rows_of v a"
proof -
  have sub: "rows_of v db = filter (\<lambda>r. ev_OwnerID (fst r) = v) (filter (outside S w) (cd_events db))" for db
    unfolding rows_of_def filter_filter by (rule filter_cong) (use assms(2) in \<open>auto simp: outside_def\<close>)
  have "filter (outside S w) (cd_events b) = filter (outside S w) (cd_events a)" using assms(1) by (simp add: kept_def)
  then show ?thesis by (simp only: sub)
qed

lemma events_step_kept:
  assumes "events_step w db db'" "tables_ok db"
  obtains S where "kept S w db db'"
  using assms(1)
proof (cases rule: events_step.cases)
  case (create env origin p newID r)
  then show thesis
    using that Events_Create_kept [OF _ assms(2)] failed_unchanged(1) [of env db w origin p newID] kept_refl [OF assms(2)] by (cases r) blast+
next
  case (update env origin i p ed newID uidID r)
  show thesis
  proof (cases r)
    case (Inl x)
    then show thesis using that [of "{}"] kept_refl [OF assms(2)] failed_unchanged(2) [OF update [unfolded Inl]] by simp
  next
    case (Inr out)
    then show thesis using that Events_Update_kept [OF update [unfolded Inr] assms(2)] by blast
  qed
next
  case (delete env origin i ed now x)
  show thesis
  proof (cases x)
    case None
    then show thesis using that Events_Delete_kept [OF delete [unfolded None] assms(2)] by blast
  next
    case (Some y)
    then show thesis using that [of "{}"] kept_refl [OF assms(2)] failed_unchanged(3) [OF delete [unfolded Some]] by simp
  qed
qed

text \<open>
  C11.  Tenants are isolated.  However many events other users create, edit and delete, with whatever
  patches, scopes and instances, the tables keep every constraint and the shape of series, calendars
  and users stay as they are, and the rows of this user do not change at all.
\<close>

theorem events_isolated:
  assumes "(\<lambda>a b. \<exists>w. w \<noteq> v \<and> events_step w a b)\<^sup>*\<^sup>* db db'" "tables_ok db"
  shows "tables_ok db' \<and> rows_of v db' = rows_of v db \<and> cd_calendars db' = cd_calendars db \<and> cd_users db' = cd_users db"
  using assms
proof (induction rule: rtranclp_induct)
  case (step a b)
  then obtain w where w: "w \<noteq> v" "events_step w a b" "tables_ok a" by blast
  obtain S where k: "kept S w a b" by (rule events_step_kept [OF w(2,3)])
  then show ?case using step w kept_others [OF k] by (auto simp: kept_def same_base_def)
qed simp

text \<open>
  C10.  An edit is guarded and confined.  An update or a deletion that succeeds had a live event of this
  user whose entity tag matched the \<open>If-Match\<close> header, in a calendar of this user, and neither was
  read-only; and the only rows it touched belong to the series of that event or are new.
\<close>

theorem edit_confined:
  assumes "tables_ok db" "newID \<notin> set (map (ev_ID \<circ> fst) (cd_events db))"
    and "Events_Update env db w origin i p ed newID uidID = (Inr out, db') \<or> Events_Delete env db w origin i ed now = (None, db')"
  shows "\<exists>e c. Event_get db w i = Inr e \<and> CheckIfMatch (ed_IfMatch ed) (Event_ETag e) = None \<and>
     fst (calendarMap db w) (ev_CalendarID e) = Some c \<and> \<not> cal_ReadOnly c \<and> \<not> ev_ReadOnly e \<and>
     (\<forall>r \<in> set (cd_events db). outside {series_of e} w r \<longrightarrow> r \<in> set (cd_events db')) \<and>
     (\<forall>r \<in> set (cd_events db'). outside {series_of e, newID} w r \<longrightarrow> r \<in> set (cd_events db))"
proof -
  obtain e where e: "Event_get db w i = Inr e" "CheckIfMatch (ed_IfMatch ed) (Event_ETag e) = None"
    "writable (fst (calendarMap db w)) e = None" "kept {series_of e, newID} w db db'"
    using assms(3) Events_Update_kept [OF _ assms(1)] Events_Delete_kept [OF _ assms(1)] kept_weaken [of "{series_of e}" w db db' "{series_of e, newID}" for e]
    by blast
  have same: "filter (outside {series_of e, newID} w) (cd_events db') = filter (outside {series_of e, newID} w) (cd_events db)"
    using e(4) by (simp add: kept_def)
  have fresh: "ev_ID (fst r) \<noteq> newID" if "r \<in> set (cd_events db)" for r using assms(2) that by auto
  have orphan: "ev_SeriesID (fst r) \<noteq> Some newID" if "r \<in> set (cd_events db)" for r
    using tables_okD(2) [OF assms(1)] that fresh unfolding event_refs_iff by blast
  then have out: "outside {series_of e, newID} w r" if "r \<in> set (cd_events db)" "outside {series_of e} w r" for r
    using that(2) fresh [OF that(1)] orphan [OF that(1)] by (auto simp: outside_def)
  have "set (filter (outside {series_of e, newID} w) (cd_events db')) = set (filter (outside {series_of e, newID} w) (cd_events db))"
    using same by simp
  then have "(\<forall>r \<in> set (cd_events db). outside {series_of e} w r \<longrightarrow> r \<in> set (cd_events db')) \<and>
      (\<forall>r \<in> set (cd_events db'). outside {series_of e, newID} w r \<longrightarrow> r \<in> set (cd_events db))"
    using out by auto
  then show ?thesis using e by (auto simp: writable_def split: option.splits if_splits)
qed

subsection \<open>An example\<close>

definition demo_calendar :: "go_id \<Rightarrow> go_id \<Rightarrow> Calendar" where
  "demo_calendar i w = Calendar0\<lparr>cal_ID := i, cal_OwnerID := w, cal_Name := ''home'', cal_IsDefault := True\<rparr>"

definition demo_user :: "go_id \<Rightarrow> User" where
  "demo_user w = \<lparr>us_ID = w, us_Email = [], us_EmailVerifiedAt = None, us_PasswordHash = [], us_DisplayName = [], us_Timezone = [],
     us_WeekStart = 1, us_TimeFormat = [], us_DefaultView = [], us_SleepEnabled = False, us_DedupPolicy = [],
     us_DateOnlyReminder = 0, us_CreatedAt = 0, us_UpdatedAt = 0, us_DisabledAt = None\<rparr>"

definition demo_row :: "go_id \<Rightarrow> go_id \<Rightarrow> go_id \<Rightarrow> event_row" where
  "demo_row i cal w = (demo_plain\<lparr>ev_ID := i, ev_OwnerID := w, ev_CalendarID := cal, ev_UID := ''u'', ev_Version := 1\<rparr>, (0, Some (day, False)))"

definition demo_db :: cal_db where
  "demo_db = \<lparr>cd_users = [demo_user 1, demo_user 2], cd_calendars = [demo_calendar 5 1, demo_calendar 6 2],
     cd_events = [demo_row 10 5 1, demo_row 11 6 2], cd_bindings = [], cd_mappings = [], cd_outbox = [], cd_outbox_next = 1,
     cd_jobs = \<lparr>rows = [], next_id = 1\<rparr>, cd_changes = [], cd_now = 0\<rparr>"

lemma demo_tables: "tables_ok demo_db"
  by code_simp

definition demo_edit :: Edit where
  "demo_edit = \<lparr>ed_Scope = [], ed_Instance = [], ed_IfMatch = VersionTag 1\<rparr>"

lemma demo_deletes: "fst (Events_Delete demo_env demo_db 1 [] 10 demo_edit 0) = None"
  by code_simp

lemma events_isolated_witness:
  "fst (Events_Delete demo_env demo_db 1 [] 10 demo_edit 0) = None \<and> rows_of 2 (snd (Events_Delete demo_env demo_db 1 [] 10 demo_edit 0)) = rows_of 2 demo_db"
proof -
  let ?db' = "snd (Events_Delete demo_env demo_db 1 [] 10 demo_edit 0)"
  have "events_step 1 demo_db ?db'" by (rule events_step.delete [OF prod.collapse [symmetric]])
  then have "(\<lambda>a b. \<exists>w. w \<noteq> 2 \<and> events_step w a b)\<^sup>*\<^sup>* demo_db ?db'" by (intro r_into_rtranclp exI [of _ 1]) simp
  then show ?thesis using events_isolated [OF _ demo_tables] demo_deletes by blast
qed

lemma edit_confined_witness:
  "\<exists>e. Event_get demo_db 1 10 = Inr e \<and> \<not> ev_ReadOnly e \<and> CheckIfMatch (VersionTag 1) (Event_ETag e) = None"
proof -
  let ?r = "Events_Delete demo_env demo_db 1 [] 10 demo_edit 0"
  have "?r = (None, snd ?r)" using demo_deletes by (simp add: prod_eq_iff)
  then show ?thesis
    using edit_confined [OF demo_tables, of 99 demo_env 1 "[]" 10 EventPatch0 demo_edit 0 undefined "snd ?r" 0]
    by (auto simp: demo_db_def demo_row_def demo_edit_def)
qed

end
