(* ===== verification/Events_Expand.thy ===== *)
theory Events_Expand
  imports Events_Safety Tokens
begin

text \<open>
  What a listing shows, and what the deletion of one occurrence removes.
\<close>

subsection \<open>Keys of occurrences\<close>

text \<open>The text of an id: different for different ids, without a slash.\<close>

definition ids_ok :: "service_env \<Rightarrow> bool" where
  "ids_ok env \<longleftrightarrow> (\<forall>i j. en_id_text env i = en_id_text env j \<longrightarrow> i = j) \<and> (\<forall>i. CHR ''/'' \<notin> set (en_id_text env i))"

lemma nat_digits_inject: "nat_digits m = nat_digits n \<Longrightarrow> m = n"
  by (metis digits_value_nat_digits)

lemma itoa_inject: "itoa i = itoa j \<Longrightarrow> i = j"
proof -
  have no_sign: "nat_digits n \<noteq> CHR ''-'' # x" for n x
    using nat_digits_digits [of "CHR ''-''" n] by (auto simp: is_digit_def)
  assume "itoa i = itoa j"
  then show "i = j" using no_sign no_sign [symmetric] by (auto simp: itoa_def dest!: nat_digits_inject split: if_splits)
qed

lemma split_at: "x \<notin> set a \<Longrightarrow> x \<notin> set b \<Longrightarrow> a @ x # c = b @ x # d \<Longrightarrow> a = b \<and> c = d"
  by (induction a arbitrary: b) (auto simp: Cons_eq_append_conv append_eq_Cons_conv)

lemma occurrenceKey_iff:
  assumes "ids_ok env"
  shows "occurrenceKey env i s = occurrenceKey env j t \<longleftrightarrow> i = j \<and> UnixMicro s = UnixMicro t"
proof
  assume "occurrenceKey env i s = occurrenceKey env j t"
  then have "en_id_text env i = en_id_text env j \<and> itoa (UnixMicro s) = itoa (UnixMicro t)"
    using assms by (intro split_at [of "CHR ''/''"]) (auto simp: occurrenceKey_def ids_ok_def)
  then show "i = j \<and> UnixMicro s = UnixMicro t" using assms itoa_inject by (auto simp: ids_ok_def)
qed (simp add: occurrenceKey_def)

subsection \<open>Expansion\<close>

definition consistent :: "Event set \<Rightarrow> bool" where
  "consistent E \<longleftrightarrow> (\<forall>x \<in> E. \<forall>y \<in> E. ev_ID x = ev_ID y \<longrightarrow> x = y)"

lemma put_override_set:
  assumes "consistent (insert e (set os))"
  shows "set (put_override e os) = insert e (set os)"
proof (cases "list_ex (\<lambda>x. ev_ID x = ev_ID e) os")
  case True
  then obtain x where "x \<in> set os" "ev_ID x = ev_ID e" by (auto simp: list_ex_iff)
  then have "e \<in> set os" using assms by (auto simp: consistent_def)
  moreover have "map (\<lambda>x. if ev_ID x = ev_ID e then e else x) os = os"
    using assms by (intro map_idI) (auto simp: consistent_def)
  ultimately show ?thesis using True by (auto simp: put_override_def)
next
  case False
  then show ?thesis by (auto simp: put_override_def)
qed

lemma put_overrides_set: "consistent (set xs \<union> set os) \<Longrightarrow> set (fold put_override xs os) = set xs \<union> set os"
proof (induction xs arbitrary: os)
  case (Cons e xs)
  have s: "set (put_override e os) = insert e (set os)"
    by (rule put_override_set) (use Cons(2) in \<open>auto simp: consistent_def\<close>)
  have "consistent (set xs \<union> set (put_override e os))" unfolding s using Cons(2) by simp
  then show ?case using Cons(1) s by simp
qed simp

lemma put_overrides_distinct: "distinct (map ev_ID os) \<Longrightarrow> distinct (map ev_ID (fold put_override xs os))"
proof (induction xs arbitrary: os)
  case (Cons e xs)
  have "map ev_ID (map (\<lambda>x. if ev_ID x = ev_ID e then e else x) os) = map ev_ID os" by (simp only: map_map comp_def) simp
  moreover have "\<not> list_ex (\<lambda>x. ev_ID x = ev_ID e) os \<Longrightarrow> distinct (map ev_ID (os @ [e]))" using Cons(2) by (auto simp: list_ex_iff)
  ultimately have "distinct (map ev_ID (put_override e os))" unfolding put_override_def using Cons(2) by (simp del: map_map)
  then show ?case using Cons(1) by simp
qed simp

text \<open>The instances of a series that a window shows: those that no override replaces.\<close>

definition shown_starts :: "service_env \<Rightarrow> window \<Rightarrow> string set \<Rightarrow> Event \<Rightarrow> go_time set" where
  "shown_starts env w taken m =
     (if ev_Status m = ''cancelled'' then {} else
      case FromEvent (en_lib env) (en_zones env) m of
        Inl x \<Rightarrow> {}
      | Inr ser \<Rightarrow> {st \<in> occs (en_lib env) ser. (case bounds w (ev_AllDay m) of (f, t) \<Rightarrow> Overlaps_times st (st + Duration m) f t) \<and>
                     occurrenceKey env (ev_ID m) st \<notin> taken})"

lemma FromEvent_sorted: "FromEvent lib zi e = Inr s \<Longrightarrow> sorted (sr_extra s)"
  by (simp only: FromEvent_facts(1) sorted_sort)

lemma instance_inject: "instance_of m s = instance_of m' t \<Longrightarrow> s = t \<and> ev_ID m = ev_ID m'"
  by (auto simp: instance_of_def dest: arg_cong [where f = ev_ID])

lemma expand_masters_spec:
  assumes "rrule_ok (en_lib env)"
  shows "expand_masters env mx w taken ms out = Inr res \<Longrightarrow> distinct (map ev_ID ms) \<Longrightarrow>
    \<exists>more. res = out @ more \<and> set more = {instance_of m st | m st. m \<in> set ms \<and> st \<in> shown_starts env w taken m} \<and> distinct more"
proof (induction ms arbitrary: out)
  case Nil
  then show ?case by simp
next
  case (Cons m rest)
  obtain xs where xs: "set xs = shown_starts env w taken m" "distinct xs"
    and go: "expand_masters env mx w taken rest (out @ map (instance_of m) xs) = Inr res"
  proof (cases "ev_Status m = ''cancelled''")
    case True
    then show thesis using that [of "[]"] Cons(2) by (simp add: shown_starts_def)
  next
    case live: False
    then have lim: "\<not> mx - int (length out) \<le> 0" using Cons(2) by (auto simp: Let_def)
    show thesis
    proof (cases "FromEvent (en_lib env) (en_zones env) m")
      case (Inl x)
      then show thesis using that [of "[]"] Cons(2) live lim by (simp add: shown_starts_def Let_def)
    next
      case (Inr ser)
      obtain f t where ft: "bounds w (ev_AllDay m) = (f, t)" by fastforce
      obtain starts where st: "Between (en_lib env) ser f t (mx - int (length out)) = Inr starts"
        using Cons(2) live lim Inr ft by (auto simp: Let_def split: sum.splits)
      have "0 \<le> mx - int (length out)" using lim by simp
      note b = Between_spec [OF assms FromEvent_sorted [OF Inr] this, of f t, unfolded st sum.case]
      let ?xs = "filter (\<lambda>st. occurrenceKey env (ev_ID m) st \<notin> taken) starts"
      have "set ?xs = shown_starts env w taken m"
        using b live Inr ft FromEvent_facts(2) [OF Inr] by (auto simp: shown_starts_def)
      moreover have "distinct ?xs" using b by (simp add: strict_sorted_iff)
      moreover have "expand_masters env mx w taken rest (out @ map (instance_of m) ?xs) = Inr res"
        using Cons(2) live lim Inr ft st by (simp add: Let_def)
      ultimately show thesis by (rule that)
    qed
  qed
  obtain more where more: "res = (out @ map (instance_of m) xs) @ more"
    "set more = {instance_of m st | m st. m \<in> set rest \<and> st \<in> shown_starts env w taken m}" "distinct more"
    using Cons(1) [OF go] Cons(3) by auto
  have "distinct (map (instance_of m) xs)" using xs(2) instance_inject [of m _ m] by (simp add: distinct_map inj_on_def)
  moreover have "instance_of m st \<notin> set more" for st
  proof
    assume "instance_of m st \<in> set more"
    then obtain m' st' where "m' \<in> set rest" "instance_of m st = instance_of m' st'" unfolding more(2) by blast
    then have "ev_ID m \<in> ev_ID ` set rest" using instance_inject [of m st m' st'] by simp
    then show False using Cons(3) by simp
  qed
  moreover have "set (map (instance_of m) xs @ more) = {instance_of n st | n st. n \<in> set (m # rest) \<and> st \<in> shown_starts env w taken n}"
    unfolding set_append set_map xs(1) more(2) by auto
  ultimately show ?case using more(1,3) by (intro exI [of _ "map (instance_of m) xs @ more"]) auto
qed

text \<open>What a window shows of the events that were found, with the overrides of their series.\<close>

definition relevant_overrides :: "cal_db \<Rightarrow> go_id \<Rightarrow> Event list \<Rightarrow> Event set" where
  "relevant_overrides db owner evs =
     {o1. o1 \<in> set evs \<and> IsOverride o1} \<union> {o1 \<in> set (map fst (cd_events db)). event_visible owner o1 \<and>
        (\<exists>m \<in> set evs. IsMaster m \<and> ev_SeriesID o1 = Some (ev_ID m))}"

definition shown :: "service_env \<Rightarrow> cal_db \<Rightarrow> go_id \<Rightarrow> window \<Rightarrow> Event list \<Rightarrow> Occurrence set" where
  "shown env db owner w evs =
     {\<lparr>oc_Event = e, oc_Instance = None\<rparr> | e. e \<in> set evs \<and> \<not> IsOverride e \<and> \<not> IsMaster e \<and> ev_Status e \<noteq> ''cancelled'' \<and> window_overlaps w e} \<union>
     {\<lparr>oc_Event = o1, oc_Instance = ev_RecurrenceID o1\<rparr> | o1. o1 \<in> relevant_overrides db owner evs \<and> ev_Status o1 \<noteq> ''cancelled'' \<and> window_overlaps w o1} \<union>
     {instance_of m st | m st ser. m \<in> set evs \<and> IsMaster m \<and> ev_Status m \<noteq> ''cancelled'' \<and>
        FromEvent (en_lib env) (en_zones env) m = Inr ser \<and> st \<in> occs (en_lib env) ser \<and>
        (case bounds w (ev_AllDay m) of (f, t) \<Rightarrow> Overlaps_times st (st + Duration m) f t) \<and>
        \<not> (\<exists>o1 \<in> relevant_overrides db owner evs. ev_SeriesID o1 = Some (ev_ID m) \<and> UnixMicro (the (ev_RecurrenceID o1)) = UnixMicro st)}"

lemma sortOccurrences_props:
  "set (sortOccurrences env xs) = set xs" "distinct (sortOccurrences env xs) = distinct xs" "length (sortOccurrences env xs) = length xs"
  "sorted (map (\<lambda>o1. ev_Start (oc_Event o1)) (sortOccurrences env xs))"
  by (simp_all add: sortOccurrences_def)

lemma listing_spec:
  assumes "occurrences env mx db owner evs w = Inr out"
    and "rrule_ok (en_lib env)" "ids_ok env" "tables_ok db" "distinct evs" "\<forall>e \<in> set evs. e \<in> set (map fst (cd_events db)) \<and> event_visible owner e"
  shows "set out = shown env db owner w evs \<and> distinct out \<and> sorted (map (\<lambda>o1. ev_Start (oc_Event o1)) out) \<and> int (length out) \<le> mx"
proof -
  have "distinct (map ev_ID (map fst (cd_events db)))" using tables_okD(1) [OF assms(4)] by (simp add: event_keys_def)
  then have uniq: "consistent (set (map fst (cd_events db)))" unfolding consistent_def by (metis distinct_map inj_onD)
  define masters where "masters = filter (\<lambda>e. \<not> IsOverride e \<and> IsMaster e) evs"
  define ovs where "ovs = fold put_override (filter IsOverride evs @ (if masters = [] then [] else OverridesOf db owner (map ev_ID masters))) []"
  define taken where "taken = set (map (\<lambda>o1. occurrenceKey env (the (ev_SeriesID o1)) (the (ev_RecurrenceID o1))) ovs)"
  define singles where "singles = filter (\<lambda>e. \<not> IsOverride e \<and> \<not> IsMaster e \<and> ev_Status e \<noteq> ''cancelled'' \<and> window_overlaps w e) evs"
  define pre where "pre = map (\<lambda>e. \<lparr>oc_Event = e, oc_Instance = None\<rparr>) singles @
       map (\<lambda>o1. \<lparr>oc_Event = o1, oc_Instance = ev_RecurrenceID o1\<rparr>) (filter (\<lambda>o1. ev_Status o1 \<noteq> ''cancelled'' \<and> window_overlaps w o1) ovs)"
  note folds = masters_def [symmetric] singles_def [symmetric] ovs_def [symmetric] taken_def [symmetric] pre_def [symmetric]
  note run = assms(1) [unfolded occurrences_def Let_def folds]
  obtain res where res: "expand_masters env mx w taken masters pre = Inr res" "int (length res) \<le> mx" "out = sortOccurrences env res"
    and ok: "\<not> list_ex (\<lambda>o1. ev_RecurrenceID o1 = None \<or> ev_SeriesID o1 = None) ovs"
    using run by (auto split: if_splits sum.splits)
  have inE: "set evs \<subseteq> set (map fst (cd_events db))" using assms(6) by blast
  have cons: "consistent E" if "E \<subseteq> set (map fst (cd_events db))" for E using uniq that unfolding consistent_def by blast
  have IsM: "IsMaster e \<Longrightarrow> \<not> IsOverride e" for e by (simp add: IsMaster_def IsOverride_def)
  have ms: "set masters = {m \<in> set evs. IsMaster m}" using IsM by (auto simp: masters_def)
  have dm: "distinct (map ev_ID masters)"
    using assms(5) cons [of "set masters"] inE ms by (auto simp: distinct_map masters_def inj_on_def consistent_def)
  have os: "set ovs = relevant_overrides db owner evs"
  proof -
    let ?xs = "filter IsOverride evs @ (if masters = [] then [] else OverridesOf db owner (map ev_ID masters))"
    have "set ?xs = relevant_overrides db owner evs"
      using ms by (auto simp: relevant_overrides_def OverridesOf_def split: option.splits)
    moreover have "set ?xs \<subseteq> set (map fst (cd_events db))" using inE by (auto simp: OverridesOf_def)
    ultimately show ?thesis using put_overrides_set [of ?xs "[]"] cons [of "set ?xs"] by (simp add: ovs_def)
  qed
  have od: "distinct ovs"
    using put_overrides_distinct [of "[]" "filter IsOverride evs @ (if masters = [] then [] else OverridesOf db owner (map ev_ID masters))"]
    by (simp add: ovs_def distinct_map)
  have some: "ev_RecurrenceID o1 \<noteq> None" "ev_SeriesID o1 \<noteq> None" if "o1 \<in> set ovs" for o1
    using ok that by (auto simp: list_ex_iff)
  obtain more where more: "res = pre @ more" "distinct more"
    "set more = {instance_of m st | m st. m \<in> set masters \<and> st \<in> shown_starts env w taken m}"
    using expand_masters_spec [OF assms(2) res(1) dm] by blast
  have tk: "occurrenceKey env i st \<in> taken \<longleftrightarrow>
      (\<exists>o1 \<in> set ovs. ev_SeriesID o1 = Some i \<and> UnixMicro (the (ev_RecurrenceID o1)) = UnixMicro st)" for i st
    unfolding taken_def set_map image_iff occurrenceKey_iff [OF assms(3)]
  proof (rule bex_cong [OF refl])
    fix o1 assume "o1 \<in> set ovs"
    then obtain j where "ev_SeriesID o1 = Some j" using some(2) by blast
    then show "(i = the (ev_SeriesID o1) \<and> UnixMicro st = UnixMicro (the (ev_RecurrenceID o1))) =
        (ev_SeriesID o1 = Some i \<and> UnixMicro (the (ev_RecurrenceID o1)) = UnixMicro st)" by auto
  qed
  define P where "P m st ser \<longleftrightarrow> ev_Status m \<noteq> ''cancelled'' \<and>
        FromEvent (en_lib env) (en_zones env) m = Inr ser \<and> st \<in> occs (en_lib env) ser \<and>
        (case bounds w (ev_AllDay m) of (f, t) \<Rightarrow> Overlaps_times st (st + Duration m) f t) \<and>
        \<not> (\<exists>o1 \<in> set ovs. ev_SeriesID o1 = Some (ev_ID m) \<and> UnixMicro (the (ev_RecurrenceID o1)) = UnixMicro st)" for m st ser
  have sP: "st \<in> shown_starts env w taken m \<longleftrightarrow> (\<exists>ser. P m st ser)" for st m
    by (cases "FromEvent (en_lib env) (en_zones env) m") (simp_all add: shown_starts_def P_def tk)
  have "set more = {instance_of m st | m st ser. m \<in> set evs \<and> IsMaster m \<and> P m st ser}"
    unfolding more(3) ms sP mem_Collect_eq by blast
  then have "set more = {instance_of m st | m st ser. m \<in> set evs \<and> IsMaster m \<and> ev_Status m \<noteq> ''cancelled'' \<and>
        FromEvent (en_lib env) (en_zones env) m = Inr ser \<and> st \<in> occs (en_lib env) ser \<and>
        (case bounds w (ev_AllDay m) of (f, t) \<Rightarrow> Overlaps_times st (st + Duration m) f t) \<and>
        \<not> (\<exists>o1 \<in> set ovs. ev_SeriesID o1 = Some (ev_ID m) \<and> UnixMicro (the (ev_RecurrenceID o1)) = UnixMicro st)}"
    unfolding P_def .
  moreover have "set pre = {\<lparr>oc_Event = e, oc_Instance = None\<rparr> | e. e \<in> set evs \<and> \<not> IsOverride e \<and> \<not> IsMaster e \<and> ev_Status e \<noteq> ''cancelled'' \<and> window_overlaps w e} \<union>
     {\<lparr>oc_Event = o1, oc_Instance = ev_RecurrenceID o1\<rparr> | o1. o1 \<in> set ovs \<and> ev_Status o1 \<noteq> ''cancelled'' \<and> window_overlaps w o1}"
    by (auto simp: pre_def singles_def)
  ultimately have set: "set out = shown env db owner w evs"
    unfolding res(3) sortOccurrences_props(1) more(1) set_append shown_def os by simp
  have "distinct pre"
    unfolding pre_def distinct_append
    using assms(5) od not_sym [OF some(1)] by (auto simp: distinct_map inj_on_def singles_def)
  moreover have "set pre \<inter> set more = {}"
  proof -
    have "oc_Instance x = None \<or> ev_SeriesID (oc_Event x) \<noteq> None" if "x \<in> set pre" for x using that some(2) by (auto simp: pre_def)
    moreover have "oc_Instance x \<noteq> None \<and> ev_SeriesID (oc_Event x) = None" if "x \<in> set more" for x
      using that unfolding more(3) ms by (auto simp: instance_of_def IsMaster_def)
    ultimately show ?thesis by blast
  qed
  ultimately have "distinct out" unfolding res(3) sortOccurrences_props(2) more(1) using more(2) by simp
  then show ?thesis using set res(2,3) sortOccurrences_props(3,4) by simp
qed

text \<open>
  C26.  A listing is exact.  When the expansion of a window succeeds, it is sorted by start, without
  duplicates and within the limit, and it holds exactly: the single events and the overrides that meet
  the window and are not cancelled, and every occurrence of every series that meets it, unless the series is
  cancelled or an override takes the place of that occurrence.
\<close>

theorem listing_exact:
  assumes "occurrences env mx db owner evs w = Inr out"
    and "rrule_ok (en_lib env)" "ids_ok env" "tables_ok db" "distinct evs" "\<forall>e \<in> set evs. e \<in> set (map fst (cd_events db)) \<and> event_visible owner e"
  shows "set out = shown env db owner w evs \<and> distinct out \<and> sorted (map (\<lambda>o1. ev_Start (oc_Event o1)) out) \<and> int (length out) \<le> mx"
  using assms by (rule listing_spec)

subsection \<open>Deleting one occurrence\<close>

lemma FromEvent_same:
  assumes "ev_Start b = ev_Start a" "ev_End b = ev_End a" "ev_AllDay b = ev_AllDay a" "ev_AllDay a \<or> ev_TZ b = ev_TZ a"
    "ev_RRule b = ev_RRule a" "ev_RDate b = ev_RDate a"
  shows "FromEvent lib zi b = map_sum id (\<lambda>s. s\<lparr>sr_excluded := map UnixMicro (ev_ExDate b)\<rparr>) (FromEvent lib zi a)"
proof -
  have "dtstart_loc zi b = dtstart_loc zi a" "Duration b = Duration a"
    using assms by (auto simp: dtstart_loc_def Event_Zone_def Duration_def)
  then show ?thesis using assms by (simp add: FromEvent_def Let_def split: sum.splits)
qed

lemma UnixMicro_db_time [simp]: "UnixMicro (db_time t) = UnixMicro t"
  by (simp add: UnixMicro_def db_time_def)

lemma occs_excluded:
  "occs lib (s\<lparr>sr_excluded := xs\<rparr>) = {t. (t \<in> set (sr_extra s) \<or> (\<exists>k. rule_times lib s k = Some t)) \<and> UnixMicro t \<notin> set xs}"
  by (cases "sr_rule s") (simp_all add: occs_def excludes_def rule_times_def)

lemma Event_get_row_eq:
  assumes "tables_ok db" "(e, s) \<in> set (cd_events db)" "event_visible w e"
  shows "Event_get db w (ev_ID e) = Inr e"
proof -
  have d: "distinct (map ev_ID (map fst (cd_events db)))" using tables_okD(1) [OF assms(1)] by (simp add: event_keys_def)
  have e: "e \<in> set (map fst (cd_events db))" using assms(2) by force
  then obtain x where x: "Event_get db w (ev_ID e) = Inr x"
    using assms(3) by (cases "Event_get db w (ev_ID e)") (auto simp: Event_get_def find_None_iff split: option.splits)
  then obtain s' where "(x, s') \<in> set (cd_events db)" "ev_ID x = ev_ID e" using Event_get_row by blast
  then have "x \<in> set (map fst (cd_events db))" "ev_ID x = ev_ID e" by force+
  moreover have "inj_on ev_ID (set (map fst (cd_events db)))" using d by (simp only: distinct_map)
  ultimately have "x = e" using e by (simp only: inj_on_def)
  then show ?thesis using x by simp
qed

lemma stored_row:
  assumes "tables_ok db" "(e, s) \<in> set (cd_events db)"
  shows "stored_event e = e" "event_check (e, s)"
  using assms by (auto simp: tables_ok_def table_ok_def list_all_iff)

lemma stored_times:
  assumes "stored_event e = e" "ev_Start e' = ev_Start e" "ev_End e' = ev_End e" "ev_AllDay e' = ev_AllDay e" "ev_RDate e' = ev_RDate e"
  shows "ev_Start (stored_event e') = ev_Start e" "ev_End (stored_event e') = ev_End e" "map db_time (ev_RDate e') = ev_RDate e"
    "ev_TZ (stored_event e') = (if ev_AllDay e then [] else ev_TZ e')"
proof -
  have "ev_Start (stored_event e) = ev_Start e" "ev_End (stored_event e) = ev_End e" "ev_RDate (stored_event e) = ev_RDate e"
    by (simp_all only: assms(1))
  then show "ev_Start (stored_event e') = ev_Start e" "ev_End (stored_event e') = ev_End e" "map db_time (ev_RDate e') = ev_RDate e"
    "ev_TZ (stored_event e') = (if ev_AllDay e then [] else ev_TZ e')"
    using assms(2-5) by (cases "ev_AllDay e"; simp add: stored_event_def)+
qed

lemma excluded_series:
  assumes row: "stored_event e = e" "ev_AllDay e \<or> ev_TZ e \<noteq> []" and m: "m = fillTZ cals tz e"
    and X: "X = (with_exdate m at)\<lparr>ev_Sequence := n\<rparr>" and s: "FromEvent lib zi e = Inr s"
  shows "\<exists>s'. FromEvent lib zi (updated_event db X e) = Inr s' \<and> occs lib s' = {t \<in> occs lib s. UnixMicro t \<noteq> UnixMicro at}"
proof -
  let ?e = "updated_event db X e"
  define z where "z = ev_TZ m"
  have z: "m = e\<lparr>ev_TZ := z\<rparr>" "\<not> ev_AllDay e \<longrightarrow> z = ev_TZ e"
    using fillTZ_shape [of cals tz e] row(2) unfolding z_def m by (auto simp: fillTZ_def)
  have eqs: "ev_Start X = ev_Start e" "ev_End X = ev_End e" "ev_AllDay X = ev_AllDay e" "ev_RDate X = ev_RDate e" "ev_RRule X = ev_RRule e"
    "ev_TZ X = z"
    unfolding X z(1) by (simp_all add: with_exdate_def)
  note st = stored_times [OF row(1) eqs(1-4)]
  have ue: "ev_Start ?e = ev_Start e" "ev_End ?e = ev_End e" "ev_AllDay ?e = ev_AllDay e" "ev_RDate ?e = ev_RDate e" "ev_RRule ?e = ev_RRule e"
    "ev_AllDay e \<or> ev_TZ ?e = ev_TZ e"
    using st eqs z(2) by (simp_all add: updated_event_def stored_event_def)
  have "ev_ExDate ?e = map db_time (ev_ExDate X)" by (simp add: updated_event_def stored_event_def)
  then have ex: "set (map UnixMicro (ev_ExDate ?e)) = UnixMicro ` insert at (set (ev_ExDate e))"
    unfolding X z(1) by (auto simp: with_exdate_def image_comp)
  have "FromEvent lib zi ?e = Inr (s\<lparr>sr_excluded := map UnixMicro (ev_ExDate ?e)\<rparr>)"
    using FromEvent_same [of ?e e lib zi] ue s by simp
  moreover have "occs lib (s\<lparr>sr_excluded := map UnixMicro (ev_ExDate ?e)\<rparr>) = {t \<in> occs lib s. UnixMicro t \<noteq> UnixMicro at}"
    unfolding occs_excluded ex using FromEvent_facts(3) [OF s] by (auto simp: occs_def excludes_def)
  ultimately show ?thesis by blast
qed

lemma fillTZ_series:
  assumes "ev_AllDay e \<or> ev_TZ e \<noteq> []"
  shows "FromEvent lib zi (fillTZ cals tz e) = FromEvent lib zi e" "Event_Zone zi (fillTZ cals tz e) = Event_Zone zi e"
    "ev_AllDay (fillTZ cals tz e) = ev_AllDay e" "IsMaster (fillTZ cals tz e) = IsMaster e" "IsOverride (fillTZ cals tz e) = IsOverride e"
proof -
  obtain z where z: "fillTZ cals tz e = e\<lparr>ev_TZ := z\<rparr>" using fillTZ_shape by blast
  have tz: "ev_AllDay e \<or> z = ev_TZ e" using assms arg_cong [OF z, of ev_TZ] by (auto simp: fillTZ_def)
  then have "dtstart_loc zi (e\<lparr>ev_TZ := z\<rparr>) = dtstart_loc zi e" by (auto simp: dtstart_loc_def Event_Zone_def)
  then show "FromEvent lib zi (fillTZ cals tz e) = FromEvent lib zi e" by (simp add: z FromEvent_def Duration_def Let_def)
  show "Event_Zone zi (fillTZ cals tz e) = Event_Zone zi e" using tz by (auto simp: z Event_Zone_def)
qed (use fillTZ_shape [of cals tz e] in \<open>auto simp: IsMaster_def IsOverride_def\<close>)

lemma delete_occurrence_run:
  assumes del: "Events_Delete env db w origin i ed now = (None, db')" and ok: "tables_ok db" and e: "Event_get db w i = Inr e" "IsMaster e"
    and ed: "ed_Scope ed \<in> {[], ''this''}" "ed_Instance ed \<noteq> []"
  obtains at ser cals where "parseEventTime (ed_Instance ed) (ev_AllDay e) (Event_Zone (en_zones env) e) = Some at"
    "FromEvent (en_lib env) (en_zones env) e = Inr ser" "Contains (en_lib env) ser at = Inr True"
    "excludeInstance \<lparr>tx_env = env, tx_owner = w, tx_origin = origin\<rparr> db (fillTZ cals ''UTC'' e) at now = Inr db'"
proof -
  let ?t = "\<lparr>tx_env = env, tx_owner = w, tx_origin = origin\<rparr>"
  obtain s where row: "(e, s) \<in> set (cd_events db)" "ev_ID e = i" using Event_get_row [OF e(1)] by blast
  have tz: "ev_AllDay e \<or> ev_TZ e \<noteq> []" using stored_row(2) [OF ok row(1)] by (auto simp: event_check_def split: prod.splits if_splits)
  obtain cals def1 where cm: "calendarMap db w = (cals, def1)" by fastforce
  note fz = fillTZ_series [OF tz, where cals = cals and tz = "''UTC''"]
  let ?m = "fillTZ cals ''UTC'' e"
  have dt: "delete_tx ?t cals i ed now db = Inr db'"
    using del cm by (auto simp: Events_Delete_def WithEvents_def map_sum_def split: sum.splits prod.splits)
  then obtain tg where rs: "resolve env w db cals ''UTC'' i ed = Inr tg" by (auto simp: delete_tx_def split: sum.splits)
  have "IsMaster ?m" "\<not> IsOverride ?m" using e(2) fz by (simp_all add: IsMaster_def IsOverride_def)
  then have "target_of env ?m ed = Inr tg"
    using rs e(1) ed by (auto simp: resolve_def Let_def split: if_splits option.splits)
  then obtain at ser where t: "parseEventTime (ed_Instance ed) (ev_AllDay ?m) (Event_Zone (en_zones env) ?m) = Some at"
    "FromEvent (en_lib env) (en_zones env) ?m = Inr ser" "Contains (en_lib env) ser at = Inr True"
    "tg = \<lparr>et_target = ?m, et_master = ?m, et_inst = Some at, et_scope = ''this''\<rparr>"
    using ed by (auto simp: target_of_def split: option.splits sum.splits if_splits)
  have "excludeInstance ?t db ?m at now = Inr db'"
    using dt rs t(4) \<open>IsMaster ?m\<close> by (simp add: delete_tx_def Let_def)
  then show thesis using that t fz by simp
qed


subsection \<open>An example\<close>

definition demo_master :: Event where
  "demo_master = demo_event\<lparr>ev_UID := ''u'', ev_Status := ''confirmed'', ev_Transparency := ''opaque'', ev_Visibility := ''default'', ev_Version := 1\<rparr>"

definition demo_series_db :: cal_db where
  "demo_series_db = demo_db\<lparr>cd_calendars := [demo_calendar 0 0], cd_events := [(demo_master, (0, None))]\<rparr>"

lemma demo_series_tables: "tables_ok demo_series_db"
  by code_simp

lemma demo_ids: "ids_ok demo_env"
  using nat_digits_digits [of "CHR ''/''"] by (auto simp: ids_ok_def demo_env_def is_digit_def dest: nat_digits_inject)

lemma demo_master_from: "FromEvent (en_lib demo_env) (en_zones demo_env) demo_master = Inr demo_series"
proof -
  have "FromEvent demo_lib (\<lambda>z. None) demo_master =
      map_sum id (\<lambda>s. s\<lparr>sr_excluded := map UnixMicro (ev_ExDate demo_master)\<rparr>) (FromEvent demo_lib (\<lambda>z. None) demo_event)"
    by (rule FromEvent_same) (simp_all add: demo_master_def)
  moreover have "map UnixMicro (ev_ExDate demo_master) = sr_excluded demo_series"
    by (simp add: demo_master_def demo_event_def demo_series_def UnixMicro_def wrap64_def duration_defs)
  ultimately show ?thesis by (simp add: demo_from demo_env_def)
qed

definition demo_window :: window where
  "demo_window = \<lparr>wi_from = 0, wi_to = 3 * day, wi_dayFrom = 0, wi_dayTo = 3 * day\<rparr>"

lemma demo_between: "Between demo_lib demo_series 0 (3 * day) 10 = Inr [0, 2 * day]"
proof -
  have hits: "{t \<in> occs demo_lib demo_series. Overlaps_times t (t + sr_Duration demo_series) 0 (3 * day)} = {0, 2 * day}"
    unfolding demo_occs by (auto simp: demo_series_def Overlaps_times_def duration_defs)
  have few: "\<not> (\<exists>xs. set xs \<subseteq> {0, 2 * day} \<and> distinct xs \<and> int (length xs) > 10)"
  proof safe
    fix xs :: "go_time list" assume "set xs \<subseteq> {0, 2 * day}" "distinct xs" "int (length xs) > 10"
    then have "card (set xs) \<le> card {0, 2 * day}" "card (set xs) = length xs"
      using card_mono [of "{0, 2 * day}" "set xs"] distinct_card [of xs] by auto
    moreover have "card {0, 2 * day} \<le> 2" by (simp add: card_insert_if)
    ultimately show False using \<open>int (length xs) > 10\<close> by linarith
  qed
  have "rule_times demo_lib demo_series (maxIterations - 1) = None" by (simp add: demo_times maxIterations_def)
  then obtain out where out: "Between demo_lib demo_series 0 (3 * day) 10 = Inr out" "sorted_wrt (<) out" "set out = {0, 2 * day}"
    using Between_spec [OF demo_lib_ok demo_sorted, of 10 0 "3 * day"] few by (auto simp: hits split: sum.splits)
  have "sorted_wrt (<) [0, 2 * day]" by (simp add: duration_defs)
  then have "out = [0, 2 * day]" using out(2,3) by (intro strict_sorted_equal) simp_all
  then show ?thesis using out(1) by simp
qed

lemma listing_exact_witness:
  "\<exists>out. occurrences demo_env 10 demo_series_db 0 [demo_master] demo_window = Inr out \<and>
    instance_of demo_master (2 * day) \<in> set out \<and> distinct out"
proof -
  have kinds: "IsMaster demo_master" "\<not> IsOverride demo_master" "ev_Status demo_master = ''confirmed''" "ev_AllDay demo_master"
    "OverridesOf demo_series_db 0 [ev_ID demo_master] = []" by code_simp+
  have expand: "expand_masters demo_env 10 demo_window {} [demo_master] [] = Inr [instance_of demo_master 0, instance_of demo_master (2 * day)]"
    using kinds demo_master_from demo_between by (simp add: Let_def bounds_def demo_window_def) (simp add: demo_env_def)
  obtain out where out: "occurrences demo_env 10 demo_series_db 0 [demo_master] demo_window = Inr out"
    using kinds expand by (simp add: occurrences_def Let_def del: expand_masters.simps)
  have "rrule_ok (en_lib demo_env)" using demo_lib_ok by (simp add: demo_env_def)
  moreover have "demo_master \<in> set (map fst (cd_events demo_series_db))" "event_visible 0 demo_master" by code_simp+
  ultimately have "set out = shown demo_env demo_series_db 0 demo_window [demo_master] \<and> distinct out"
    using listing_exact [OF out _ demo_ids demo_series_tables] by simp
  moreover have "relevant_overrides demo_series_db 0 [demo_master] = {}"
    by (auto simp: relevant_overrides_def demo_series_db_def demo_master_def demo_event_def Event0_def IsOverride_def)
  then have "instance_of demo_master (2 * day) \<in> shown demo_env demo_series_db 0 demo_window [demo_master]"
    using kinds demo_master_from demo_occs unfolding shown_def
    by (intro UnI2 CollectI exI [of _ demo_master] exI [of _ "2 * day"] exI [of _ demo_series])
      (auto simp: demo_env_def bounds_def demo_window_def Overlaps_times_def duration_defs)
  ultimately show ?thesis using out by blast
qed

definition rd_master :: Event where
  "rd_master = demo_plain\<lparr>ev_UID := ''u'', ev_RDate := [day, 2 * day], ev_Version := 1\<rparr>"

definition rd_db :: cal_db where
  "rd_db = demo_db\<lparr>cd_calendars := [demo_calendar 0 0], cd_events := [(rd_master, (0, Some (3 * day, False)))]\<rparr>"

definition rd_edit :: Edit where
  "rd_edit = \<lparr>ed_Scope = [], ed_Instance = ''1970-01-03'', ed_IfMatch = []\<rparr>"

definition rd_series :: Series where
  "rd_series = \<lparr>sr_Start = 0, sr_loc = UTC, sr_Duration = day, sr_rule = None, sr_extra = [0, day, 2 * day], sr_excluded = []\<rparr>"

lemma rd_from: "FromEvent demo_lib zi (rd_master\<lparr>ev_TZ := z\<rparr>) = Inr rd_series"
  by (simp add: FromEvent_def Let_def rd_master_def demo_plain_def Event0_def Duration_def dtstart_loc_def rd_series_def
      time_sub_def sat64_def min_int64_def max_int64_def duration_defs)

lemma rd_occs: "occs demo_lib rd_series = {0, day, 2 * day}"
  by (auto simp: occs_def rule_times_def excludes_def rd_series_def)

lemma rd_contains: "Contains demo_lib rd_series (2 * day) = Inr True"
proof -
  have "sorted (sr_extra rd_series)" "rule_times demo_lib rd_series (maxIterations - 1) = None" by (simp_all add: rd_series_def rule_times_def duration_defs)
  then show ?thesis using Contains_spec [OF demo_lib_ok, of rd_series "2 * day"] rd_occs by (auto split: sum.splits)
qed

lemma rd_deletes: "fst (Events_Delete demo_env rd_db 0 [] 0 rd_edit 0) = None"
proof -
  let ?t = "\<lparr>tx_env = demo_env, tx_owner = 0, tx_origin = []\<rparr>"
  let ?m = "rd_master\<lparr>ev_TZ := ''UTC''\<rparr>"
  have cal: "calendarMap rd_db 0 = (fst (calendarMap rd_db 0), demo_calendar 0 0)" by (simp add: prod_eq_iff) code_simp
  have get: "Event_get rd_db 0 0 = Inr rd_master" by code_simp
  have wr: "writable (fst (calendarMap rd_db 0)) rd_master = None" "fillTZ (fst (calendarMap rd_db 0)) ''UTC'' rd_master = ?m" by code_simp+
  have kinds: "CheckIfMatch (ed_IfMatch rd_edit) (Event_ETag rd_master) = None" "IsMaster ?m" "\<not> IsOverride ?m"
    "parseEventTime ''1970-01-03'' (ev_AllDay ?m) (Event_Zone (en_zones demo_env) ?m) = Some (2 * day)" by code_simp+
  have "en_lib demo_env = demo_lib" by (simp add: demo_env_def)
  then have "resolve demo_env 0 rd_db (fst (calendarMap rd_db 0)) ''UTC'' 0 rd_edit =
      Inr \<lparr>et_target = ?m, et_master = ?m, et_inst = Some (2 * day), et_scope = ''this''\<rparr>"
    using get wr kinds rd_from rd_contains by (simp add: resolve_def target_of_def Let_def rd_edit_def)
  moreover have "case excludeInstance ?t rd_db ?m (2 * day) 0 of Inl x \<Rightarrow> False | Inr d \<Rightarrow> True" by code_simp
  then obtain d where "excludeInstance ?t rd_db ?m (2 * day) 0 = Inr d" by (auto split: sum.splits)
  ultimately have "delete_tx ?t (fst (calendarMap rd_db 0)) 0 rd_edit 0 rd_db = Inr d"
    using kinds(2) by (simp add: delete_tx_def Let_def)
  then show ?thesis by (simp add: Events_Delete_def cal [symmetric] case_prod_beta WithEvents_def)
qed


end
