(* ===== verification/View_Period.thy ===== *)
theory View_Period
  imports Domain
begin

text \<open>
  The periods the calendar shows (\<open>internal/view/period.go\<close>): a day, three days, a week, the weeks of a month, a
  year, or the agenda of the next thirty days.  Dates are midnights in UTC.  The lemmas show which days a
  period holds and that stepping forward and back returns to it.
\<close>

subsection \<open>Periods\<close>

datatype Kind = Day | ThreeDay | Week | Month | Year | Agenda

definition Kinds :: "Kind list" where
  "Kinds = [Day, ThreeDay, Week, Month, Year, Agenda]"

definition kind_text :: "Kind \<Rightarrow> string" where
  "kind_text k = (case k of Day \<Rightarrow> ''day'' | ThreeDay \<Rightarrow> ''3day'' | Week \<Rightarrow> ''week'' | Month \<Rightarrow> ''month'' | Year \<Rightarrow> ''year'' | Agenda \<Rightarrow> ''agenda'')"

definition ParseKind :: "string \<Rightarrow> Kind option" where
  "ParseKind s = find (\<lambda>k. kind_text k = s) Kinds"

definition Kind_Label :: "Kind \<Rightarrow> string" where
  "Kind_Label k = (case k of Day \<Rightarrow> ''Day'' | ThreeDay \<Rightarrow> ''3 days'' | Week \<Rightarrow> ''Week'' | Month \<Rightarrow> ''Month'' | Year \<Rightarrow> ''Year'' | Agenda \<Rightarrow> ''Agenda'')"

definition Kind_Key :: "Kind \<Rightarrow> string" where
  "Kind_Key k = (case k of Day \<Rightarrow> ''d'' | ThreeDay \<Rightarrow> ''3'' | Week \<Rightarrow> ''w'' | Month \<Rightarrow> ''m'' | Year \<Rightarrow> ''y'' | Agenda \<Rightarrow> ''a'')"

definition Timed :: "Kind \<Rightarrow> bool" where
  "Timed k \<longleftrightarrow> k \<in> {Day, ThreeDay, Week}"

definition agendaDays :: int where
  "agendaDays = 30"

record Period =
  pe_Kind :: Kind
  pe_Anchor :: go_time
  pe_Start :: go_time
  pe_End :: go_time

text \<open>The date of a time in a zone, as midnight in UTC, and back.\<close>

definition date_of :: "location \<Rightarrow> go_time \<Rightarrow> go_time" where
  "date_of loc t = (case time_date loc t of (y, m, d) \<Rightarrow> go_date UTC y m d 0 0 0 0)"

definition inLoc :: "location \<Rightarrow> go_time \<Rightarrow> go_time" where
  "inLoc loc d = (case time_date UTC d of (y, m, k) \<Rightarrow> go_date loc y m k 0 0 0 0)"

definition StartOfWeek :: "go_time \<Rightarrow> int \<Rightarrow> go_time" where
  "StartOfWeek d start =
     (let diff = go_mod (time_weekday UTC d - start + 7) 7 in add_date UTC d 0 0 (- diff))"

definition firstOfMonth :: "go_time \<Rightarrow> go_time" where
  "firstOfMonth d = (case time_date UTC d of (y, m, k) \<Rightarrow> go_date UTC y m 1 0 0 0 0)"

definition firstOfYear :: "go_time \<Rightarrow> int \<Rightarrow> go_time" where
  "firstOfYear d n = (case time_date UTC d of (y, m, k) \<Rightarrow> go_date UTC (y + n) 1 1 0 0 0 0)"

definition NewPeriod :: "Kind \<Rightarrow> go_time \<Rightarrow> int \<Rightarrow> Period" where
  "NewPeriod k anchor weekStart =
     (let a = date_of UTC anchor in
      case k of
        Day \<Rightarrow> \<lparr>pe_Kind = Day, pe_Anchor = a, pe_Start = a, pe_End = add_date UTC a 0 0 1\<rparr>
      | ThreeDay \<Rightarrow> \<lparr>pe_Kind = ThreeDay, pe_Anchor = a, pe_Start = a, pe_End = add_date UTC a 0 0 3\<rparr>
      | Week \<Rightarrow> \<lparr>pe_Kind = Week, pe_Anchor = a, pe_Start = StartOfWeek a weekStart,
                  pe_End = add_date UTC (StartOfWeek a weekStart) 0 0 7\<rparr>
      | Month \<Rightarrow> \<lparr>pe_Kind = Month, pe_Anchor = firstOfMonth a, pe_Start = StartOfWeek (firstOfMonth a) weekStart,
                   pe_End = add_date UTC (StartOfWeek (add_date UTC (firstOfMonth a) 0 1 (-1)) weekStart) 0 0 7\<rparr>
      | Year \<Rightarrow> \<lparr>pe_Kind = Year, pe_Anchor = a, pe_Start = firstOfYear a 0, pe_End = add_date UTC (firstOfYear a 0) 1 0 0\<rparr>
      | Agenda \<Rightarrow> \<lparr>pe_Kind = Agenda, pe_Anchor = a, pe_Start = a, pe_End = add_date UTC a 0 0 agendaDays\<rparr>)"

definition Shift :: "Period \<Rightarrow> int \<Rightarrow> go_time" where
  "Shift p n =
     (case pe_Kind p of
        Day \<Rightarrow> add_date UTC (pe_Anchor p) 0 0 n
      | ThreeDay \<Rightarrow> add_date UTC (pe_Anchor p) 0 0 (3 * n)
      | Week \<Rightarrow> add_date UTC (pe_Anchor p) 0 0 (7 * n)
      | Month \<Rightarrow> add_date UTC (firstOfMonth (pe_Anchor p)) 0 n 0
      | Year \<Rightarrow> firstOfYear (pe_Anchor p) n
      | Agenda \<Rightarrow> add_date UTC (pe_Anchor p) 0 0 (agendaDays * n))"

text \<open>Titles.  The names are those of Go's layouts \<open>Monday\<close>, \<open>Mon\<close>, \<open>January\<close> and \<open>Jan\<close>; the dash is
  the three bytes of U+2013.\<close>

definition en_dash :: string where
  "en_dash = [CHR 0xE2, CHR 0x80, CHR 0x93]"

definition month_name :: "int \<Rightarrow> string" where
  "month_name m = [''January'', ''February'', ''March'', ''April'', ''May'', ''June'', ''July'', ''August'',
     ''September'', ''October'', ''November'', ''December''] ! nat (m - 1)"

definition weekday_name :: "int \<Rightarrow> string" where
  "weekday_name w = [''Sunday'', ''Monday'', ''Tuesday'', ''Wednesday'', ''Thursday'', ''Friday'', ''Saturday''] ! nat w"

definition fmt_d_month :: "bool \<Rightarrow> go_time \<Rightarrow> string" where
  "fmt_d_month short t = (case time_date UTC t of (y, m, d) \<Rightarrow>
     itoa d @ '' '' @ (if short then take 3 (month_name m) else month_name m))"

definition fmt_year :: "go_time \<Rightarrow> string" where
  "fmt_year t = pad4 (fst (time_date UTC t))"

definition DateRange :: "go_time \<Rightarrow> go_time \<Rightarrow> string" where
  "DateRange a b =
     (case time_date UTC a of (ya, ma, da) \<Rightarrow> case time_date UTC b of (yb, mb, db) \<Rightarrow>
      if a = b then fmt_d_month False a @ '' '' @ fmt_year a
      else if ya \<noteq> yb then fmt_d_month True a @ '' '' @ fmt_year a @ '' '' @ en_dash @ '' '' @ fmt_d_month True b @ '' '' @ fmt_year b
      else if ma \<noteq> mb then fmt_d_month True a @ '' '' @ en_dash @ '' '' @ fmt_d_month True b @ '' '' @ fmt_year b
      else itoa da @ '' '' @ en_dash @ '' '' @ fmt_d_month False b @ '' '' @ fmt_year b)"

definition Period_Title :: "Period \<Rightarrow> string" where
  "Period_Title p =
     (if pe_Kind p = Day then weekday_name (time_weekday UTC (pe_Start p)) @ '', '' @ fmt_d_month False (pe_Start p) @ '' '' @ fmt_year (pe_Start p)
      else if pe_Kind p = Month then month_name (fst (snd (time_date UTC (pe_Anchor p)))) @ '' '' @ fmt_year (pe_Anchor p)
      else if pe_Kind p = Year then fmt_year (pe_Start p)
      else DateRange (pe_Start p) (add_date UTC (pe_End p) 0 0 (-1)))"

text \<open>The loop over the days stops, because each step adds a day.\<close>

function days_from :: "go_time \<Rightarrow> go_time \<Rightarrow> go_time list" where
  "days_from d fin = (if d < fin then d # days_from (add_date UTC d 0 0 1) fin else [])"
  by pat_completeness auto
termination
proof (relation "measure (\<lambda>(d, fin). nat (fin - d))")
  fix d fin :: go_time assume "d < fin"
  then show "((add_date UTC d 0 0 1, fin), d, fin) \<in> measure (\<lambda>(d, fin). nat (fin - d))"
    by (simp add: add_date_UTC duration_defs)
qed simp

declare days_from.simps [simp del]

definition Days :: "Period \<Rightarrow> go_time list" where
  "Days p = days_from (pe_Start p) (pe_End p)"

definition Period_Contains :: "Period \<Rightarrow> go_time \<Rightarrow> bool" where
  "Period_Contains p d \<longleftrightarrow> \<not> d < pe_Start p \<and> d < pe_End p"

definition Range :: "Period \<Rightarrow> location \<Rightarrow> go_time \<times> go_time" where
  "Range p loc = (inLoc loc (pe_Start p), inLoc loc (pe_End p))"

definition Origin :: "Period \<Rightarrow> go_time" where
  "Origin p = (if pe_Kind p = Month then pe_Anchor p else pe_Start p)"

subsection \<open>The days of a period\<close>

lemma midnight_unix [simp]: "unix (q * day) = q * 86400" "unix (day * q) = q * 86400"
  by (simp_all add: unix_def day_eq second_def)

lemma midnight_local [simp]: "local_days UTC (q * day) = q"
  by (simp add: local_days_def)

lemma midnight_time_date [simp]: "time_date UTC (q * day) = civil_of q"
  by (simp add: time_date_def)

lemma midnight_weekday [simp]: "time_weekday UTC (q * day) = weekday_of q"
  by (simp add: time_weekday_def)

lemma date_of_midnight: "date_of loc t = local_days loc t * day"
proof -
  obtain y m d where c: "time_date loc t = (y, m, d)" by (cases "time_date loc t")
  then have "days_of y m d = local_days loc t" by (simp add: time_date_def days_of_civil_of)
  then show ?thesis by (simp add: date_of_def c go_date_midnight)
qed

lemma date_of_UTC [simp]: "date_of UTC (q * day) = q * day"
  by (simp add: date_of_midnight)

lemma midnight_clock [simp]: "time_clock UTC (q * day) = (0, 0, 0)"
  by (simp add: time_clock_def Let_def)

lemma midnight_nanosecond [simp]: "nanosecond (q * day) = 0"
  by (simp add: nanosecond_def day_eq)

lemma add_date_midnight:
  "civil_of q = (y, m, d) \<Longrightarrow> add_date UTC (q * day) a b c = days_of (y + a) (m + b) (d + c) * day"
  by (simp add: add_date_def go_date_midnight del: days_of_add)

lemma days_from_steps: "days_from s (s + int n * day) = map (\<lambda>k. s + int k * day) [0..<n]"
proof (induction n arbitrary: s)
  case 0
  show ?case by (simp add: days_from.simps)
next
  case (Suc n)
  have "s < s + int (Suc n) * day" by (simp add: duration_defs)
  moreover have "s + int (Suc n) * day = (s + day) + int n * day" by (simp add: algebra_simps)
  ultimately have "days_from s (s + int (Suc n) * day) = s # days_from (s + day) (s + day + int n * day)"
    by (subst days_from.simps) (simp add: add_date_UTC add.assoc)
  also have "\<dots> = s # map (\<lambda>k. s + day + int k * day) [0..<n]" by (simp add: Suc.IH)
  also have "\<dots> = map (\<lambda>k. s + int k * day) [0..<Suc n]"
    by (simp add: map_upt_Suc algebra_simps del: upt_Suc)
  finally show ?case .
qed

subsection \<open>Weeks and months\<close>

lemma StartOfWeek_midnight:
  assumes "0 \<le> ws" "ws < 7"
  obtains k where "StartOfWeek (q * day) ws = (q - k) * day" "0 \<le> k" "k < 7" "weekday_of (q - k) = ws"
proof
  let ?k = "(weekday_of q - ws + 7) mod 7"
  have "go_mod (weekday_of q - ws + 7) 7 = ?k" using weekday_range [of q] assms by (simp add: go_mod_nonneg)
  then have "StartOfWeek (q * day) ws = q * day + (- ?k) * day"
    unfolding StartOfWeek_def Let_def midnight_weekday add_date_UTC by simp
  then show "StartOfWeek (q * day) ws = (q - ?k) * day" by (simp add: left_diff_distrib)
  show "0 \<le> ?k" "?k < 7" by simp_all
  have "weekday_of (q + (- ?k)) = (weekday_of q + (- ?k)) mod 7" by (rule weekday_of_add)
  also have "\<dots> = (weekday_of q - (weekday_of q - ws + 7)) mod 7" by (simp only: mod_simps add_uminus_conv_diff)
  also have "\<dots> = ws mod 7" by (simp add: minus_mod_self2)
  finally show "weekday_of (q - ?k) = ws" using assms by simp
qed

lemma month_start_pos: "month_start y m \<ge> 0"
  by (simp add: month_start_def)

lemma days_of_month:
  assumes "civil_of q = (y, m, d)"
  shows "days_of y m 1 \<le> q" "q < days_of y (m + 1) 1" "days_of y m 1 + 28 \<le> days_of y (m + 1) 1"
proof -
  have v: "1 \<le> m" "m \<le> 12" "1 \<le> d" "d \<le> month_days y m" "days_of y m d = q"
    using civil_of_valid [of q] days_of_civil_of [OF assms] assms by (simp_all add: valid_civil_def)
  have nxt: "days_of y (m + 1) 1 = days_of y m 1 + month_days y m"
  proof (cases "m = 12")
    case True
    then show ?thesis using year_start_Suc [of y]
      by (simp add: days_of_def Let_def month_start_def month_days_def)
  next
    case False
    then show ?thesis using v month_start_Suc [of m y] by (simp add: days_of_valid)
  qed
  have "days_of y m d = days_of y m 1 + (d - 1)" using days_of_add [of y m 1 "d - 1"] by simp
  then show "days_of y m 1 \<le> q" "q < days_of y (m + 1) 1" using v nxt by linarith+
  have "month_days y m \<ge> 28" by (simp add: month_days_def)
  then show "days_of y m 1 + 28 \<le> days_of y (m + 1) 1" using nxt by simp
qed

lemma first_civil: "1 \<le> m \<Longrightarrow> m \<le> 12 \<Longrightarrow> civil_of (days_of y m 1) = (y, m, 1)"
  by (rule civil_of_days_of) (simp add: valid_civil_def month_days_def)

text \<open>A month counted from 0 in the year 0, whatever the month number overflows to.\<close>

lemma days_of_month_number: "days_of y m d = days_of ((12 * y + m - 1) div 12) ((12 * y + m - 1) mod 12 + 1) d"
proof -
  have e: "12 * y + m - 1 = (m - 1) + 12 * y" by simp
  have "(12 * y + m - 1) div 12 = y + (m - 1) div 12" "(12 * y + m - 1) mod 12 = (m - 1) mod 12"
    unfolding e by (simp_all add: div_mult_self2)
  then show ?thesis by (simp add: days_of_def Let_def)
qed

lemma civil_of_first: "civil_of (days_of y m 1) = ((12 * y + m - 1) div 12, (12 * y + m - 1) mod 12 + 1, 1)"
  unfolding days_of_month_number [of y m] by (rule first_civil) simp_all

lemma month_number_shift:
  "12 * ((k::int) div 12) + (k mod 12 + 1) - 1 = k"
  by (simp add: mult_div_mod_eq)

text \<open>Where each period starts and how many days it has, for an anchor on day \<open>q\<close> of the epoch.\<close>

definition day_span :: "Kind \<Rightarrow> int \<Rightarrow> int \<Rightarrow> int \<Rightarrow> int \<Rightarrow> int \<Rightarrow> nat \<Rightarrow> bool" where
  "day_span k q y m ws a n \<longleftrightarrow>
     (k = Day \<longrightarrow> a = q \<and> n = 1) \<and> (k = ThreeDay \<longrightarrow> a = q \<and> n = 3) \<and> (k = Agenda \<longrightarrow> a = q \<and> n = 30) \<and>
     (k = Week \<longrightarrow> weekday_of a = ws \<and> n = 7) \<and>
     (k = Month \<longrightarrow> weekday_of a = ws \<and> 7 dvd n \<and> 28 \<le> n \<and> n \<le> 42 \<and> a \<le> days_of y m 1 \<and> days_of y (m + 1) 1 \<le> a + int n) \<and>
     (k = Year \<longrightarrow> a = days_of y 1 1 \<and> a + int n = days_of (y + 1) 1 1)"

lemma NewPeriod_shape:
  assumes ws: "0 \<le> ws" "ws < 7" and q: "q = local_days UTC t" and c: "civil_of q = (y, m, d)"
  obtains a n where "pe_Start (NewPeriod k t ws) = a * day" "pe_End (NewPeriod k t ws) = (a + int n) * day"
    "a \<le> q" "q < a + int n"
    "day_span k q y m ws a n"
proof -
  have a: "date_of UTC t = q * day" by (simp add: q date_of_midnight)
  have first: "firstOfMonth (q * day) = days_of y m 1 * day" by (simp add: firstOfMonth_def c go_date_midnight)
  have vm: "1 \<le> m" "m \<le> 12" using civil_of_valid [of q] c by (simp_all add: valid_civil_def)
  show thesis
  proof (cases k)
    case Day
    show thesis by (rule that [of q 1]) (use Day in \<open>simp_all add: day_span_def NewPeriod_def Let_def a add_date_UTC algebra_simps\<close>)
  next
    case ThreeDay
    show thesis by (rule that [of q 3]) (use ThreeDay in \<open>simp_all add: day_span_def NewPeriod_def Let_def a add_date_UTC algebra_simps\<close>)
  next
    case Agenda
    show thesis by (rule that [of q 30]) (use Agenda in \<open>simp_all add: day_span_def NewPeriod_def Let_def a add_date_UTC agendaDays_def algebra_simps\<close>)
  next
    case Week
    obtain b where b: "StartOfWeek (q * day) ws = (q - b) * day" "0 \<le> b" "b < 7" "weekday_of (q - b) = ws"
      by (rule StartOfWeek_midnight [OF ws])
    show thesis
      by (rule that [of "q - b" 7]) (use Week b in \<open>simp_all add: day_span_def NewPeriod_def Let_def a add_date_UTC algebra_simps\<close>)
  next
    case Year
    have "firstOfYear (q * day) 0 = days_of y 1 1 * day" by (simp add: firstOfYear_def c go_date_midnight)
    moreover have "add_date UTC (days_of y 1 1 * day) 1 0 0 = days_of (y + 1) 1 1 * day"
      using add_date_midnight [OF first_civil [of 1 y], of 1 0 0] by simp
    moreover have "days_of y 1 1 \<le> q" "q < days_of (y + 1) 1 1"
    proof -
      define j where "j = q + epoch_days"
      have "y = year_of j" using c by (simp add: civil_of_def Let_def j_def)
      then show "days_of y 1 1 \<le> q" "q < days_of (y + 1) 1 1"
        using year_of_bounds [of j] by (simp_all add: days_of_valid month_start_def j_def)
    qed
    ultimately show thesis
      by (intro that [of "days_of y 1 1" "nat (days_of (y + 1) 1 1 - days_of y 1 1)"])
        (use Year in \<open>simp_all add: day_span_def NewPeriod_def Let_def a\<close>)
  next
    case Month
    define f where "f = days_of y m 1"
    define l where "l = days_of y (m + 1) 1 - 1"
    have fl: "f \<le> q" "q \<le> l" "f + 27 \<le> l" using days_of_month [OF c] by (simp_all add: f_def l_def)
    have mx: "l \<le> f + 30"
    proof -
      have "days_of y (m + 1) 1 \<le> days_of y m 1 + 31"
      proof (cases "m = 12")
        case True then show ?thesis using year_start_Suc [of y] by (simp add: days_of_def Let_def month_start_def)
      next
        case False
        then show ?thesis using vm month_start_Suc [of m y] by (simp add: days_of_valid month_days_def)
      qed
      then show ?thesis by (simp add: f_def l_def)
    qed
    have lst: "add_date UTC (f * day) 0 1 (-1) = l * day"
      using add_date_midnight [OF first_civil [OF vm, of y], of 0 1 "-1"] days_of_add [of y "m + 1" 1 "-1"]
      by (simp add: f_def l_def del: days_of_add)
    obtain b where b: "StartOfWeek (f * day) ws = (f - b) * day" "0 \<le> b" "b < 7" "weekday_of (f - b) = ws"
      by (rule StartOfWeek_midnight [OF ws])
    obtain e where e: "StartOfWeek (l * day) ws = (l - e) * day" "0 \<le> e" "e < 7" "weekday_of (l - e) = ws"
      by (rule StartOfWeek_midnight [OF ws])
    define n where "n = nat (l - e + 7 - (f - b))"
    have n: "int n = l - e + 7 - (f - b)" using fl b e by (simp add: n_def)
    have "(l - e + 4) mod 7 = (f - b + 4) mod 7" using b(4) e(4) by (simp add: weekday_of_def)
    then have "7 dvd (l - e + 4 - (f - b + 4))" by (simp only: mod_eq_dvd_iff)
    then have "7 dvd (l - e - (f - b))" by (simp add: algebra_simps)
    then have "7 dvd (l - e - (f - b) + 7)" by (rule dvd_add) simp
    then have dv: "7 dvd int n" unfolding n by (simp add: algebra_simps)
    then have dv': "7 dvd n" using int_dvd_int_iff [of 7 n] by simp
    have "int n < 49" "21 < int n" using n fl mx b e by linarith+
    with dv obtain w where "int n = 7 * w" "w < 7" "3 < w" by (elim dvdE) simp
    then have le: "28 \<le> n" "n \<le> 42" by linarith+
    show thesis
    proof (rule that [of "f - b" n])
      show "pe_Start (NewPeriod k t ws) = (f - b) * day"
        using Month b by (simp add: NewPeriod_def Let_def a first f_def [symmetric])
      have "pe_End (NewPeriod k t ws) = (l - e) * day + 7 * day"
        using Month by (simp add: NewPeriod_def Let_def a first f_def [symmetric] lst add_date_UTC e(1))
      also have "\<dots> = (f - b + int n) * day" unfolding n by (simp add: algebra_simps)
      finally show "pe_End (NewPeriod k t ws) = (f - b + int n) * day" .
    qed (use Month b e n fl le dv' in \<open>simp_all add: day_span_def f_def [symmetric] l_def [symmetric]\<close>,
        use l_def in linarith)
  qed
qed

lemma Period_Contains_midnight:
  assumes "pe_Start p = a * day" "pe_End p = (a + int n) * day"
  shows "Period_Contains p (q * day) \<longleftrightarrow> a \<le> q \<and> q < a + int n"
    and "Days p = map (\<lambda>i. (a + int i) * day) [0..<n]"
    and "q * day \<in> set (Days p) \<longleftrightarrow> a \<le> q \<and> q < a + int n"
proof -
  have pos: "0 < day" by (simp add: duration_defs)
  then show "Period_Contains p (q * day) \<longleftrightarrow> a \<le> q \<and> q < a + int n"
    using assms by (auto simp: Period_Contains_def not_less)
  have "pe_End p = a * day + int n * day" using assms by (simp add: algebra_simps)
  then have "Days p = map (\<lambda>i. a * day + int i * day) [0..<n]" using assms days_from_steps by (simp add: Days_def)
  then show d: "Days p = map (\<lambda>i. (a + int i) * day) [0..<n]" by (simp add: algebra_simps)
  have "q = a + int i \<Longrightarrow> i < n \<Longrightarrow> a \<le> q \<and> q < a + int n" for i by simp
  moreover have "q = a + int (nat (q - a)) \<and> nat (q - a) < n" if "a \<le> q" "q < a + int n" using that by linarith
  ultimately have "(\<exists>i<n. q = a + int i) \<longleftrightarrow> a \<le> q \<and> q < a + int n" by blast
  then show "q * day \<in> set (Days p) \<longleftrightarrow> a \<le> q \<and> q < a + int n" using pos by (auto simp: d image_iff)
qed

text \<open>
  The days of a period are consecutive, start at its start, end before its end, and hold the date the
  period was made for.  A week and a month start on the first day of the week; a month is shown as four to
  six whole weeks that hold every day of the month; a year holds the days of the year and no others.
\<close>

theorem period_days:
  assumes "0 \<le> ws" and "ws < 7" and "p = NewPeriod k t ws"
  shows "(\<exists>n>0. Days p = map (\<lambda>i. pe_Start p + int i * day) [0..<n] \<and> pe_End p = pe_Start p + int n * day) \<and>
         date_of UTC t \<in> set (Days p) \<and>
         (\<forall>u. date_of UTC u \<in> set (Days p) \<longleftrightarrow> Period_Contains p (date_of UTC u)) \<and>
         (k \<in> {Week, Month} \<longrightarrow> time_weekday UTC (pe_Start p) = ws) \<and>
         (k = Month \<longrightarrow> length (Days p) \<in> {28, 35, 42} \<and>
            (\<forall>u y m d e. time_date UTC t = (y, m, d) \<and> time_date UTC u = (y, m, e) \<longrightarrow> date_of UTC u \<in> set (Days p))) \<and>
         (k = Year \<longrightarrow> (\<forall>u. date_of UTC u \<in> set (Days p) \<longleftrightarrow> fst (time_date UTC u) = fst (time_date UTC t)))"
proof -
  define q where "q = local_days UTC t"
  obtain y m d where c: "civil_of q = (y, m, d)" by (cases "civil_of q")
  obtain a n where sh: "pe_Start p = a * day" "pe_End p = (a + int n) * day" "a \<le> q" "q < a + int n"
    "day_span k q y m ws a n"
    by (rule NewPeriod_shape [OF assms(1,2) q_def c, of k, folded assms(3)])
  note D = Period_Contains_midnight [OF sh(1,2)]
  have len: "length (Days p) = n" by (simp add: D(2))
  have 1: "\<exists>n>0. Days p = map (\<lambda>i. pe_Start p + int i * day) [0..<n] \<and> pe_End p = pe_Start p + int n * day"
    using sh D(2) by (intro exI [of _ n]) (simp add: algebra_simps)
  have 2: "date_of UTC t \<in> set (Days p)" unfolding date_of_midnight q_def [symmetric] D(3) using sh(3,4) by simp
  have 3: "date_of UTC u \<in> set (Days p) \<longleftrightarrow> Period_Contains p (date_of UTC u)" for u
    unfolding date_of_midnight D(1,3) ..
  have 4: "time_weekday UTC (pe_Start p) = ws" if "k \<in> {Week, Month}" using that sh(1,5) by (auto simp: day_span_def)
  have 5: "length (Days p) \<in> {28, 35, 42}" if "k = Month"
  proof -
    have "7 dvd n" "28 \<le> n" "n \<le> 42" using sh(5) that unfolding day_span_def by blast+
    then show ?thesis unfolding len by (elim dvdE) (simp, linarith)
  qed
  have 6: "date_of UTC u \<in> set (Days p)" if k: "k = Month" and u: "time_date UTC t = (y', m', d')" "time_date UTC u = (y', m', e)" for u y' m' d' e
  proof -
    have "civil_of (local_days UTC u) = (y, m, e)" using u c by (simp add: time_date_def q_def)
    from days_of_month [OF this] show ?thesis unfolding date_of_midnight D(3) using sh(5) k unfolding day_span_def by linarith
  qed
  have 7: "date_of UTC u \<in> set (Days p) \<longleftrightarrow> fst (time_date UTC u) = fst (time_date UTC t)" if "k = Year" for u
  proof -
    define v where "v = local_days UTC u"
    obtain y1 m1 d1 where c1: "civil_of v = (y1, m1, d1)" by (cases "civil_of v")
    have "date_of UTC u \<in> set (Days p) \<longleftrightarrow> days_of y 1 1 \<le> v \<and> v < days_of (y + 1) 1 1"
      unfolding date_of_midnight v_def [symmetric] D(3) using sh(5) that by (auto simp: day_span_def)
    also have "\<dots> \<longleftrightarrow> year_start y \<le> v + epoch_days \<and> v + epoch_days < year_start (y + 1)"
      by (simp add: days_of_valid month_start_def) linarith
    also have "\<dots> \<longleftrightarrow> year_of (v + epoch_days) = y"
      using year_of_unique [of y "v + epoch_days"] year_of_bounds [of "v + epoch_days"] by auto
    also have "year_of (v + epoch_days) = y1" using c1 by (simp add: civil_of_def Let_def)
    finally show ?thesis using c c1 by (auto simp: time_date_def v_def [symmetric] q_def [symmetric])
  qed
  show ?thesis using 1 2 3 4 5 6 7 by blast
qed

definition demo_day :: go_time where
  "demo_day = 20500 * day"

lemma period_days_witness:
  "date_of UTC demo_day \<in> set (Days (NewPeriod Month demo_day 1)) \<and>
   time_weekday UTC (pe_Start (NewPeriod Month demo_day 1)) = 1 \<and>
   length (Days (NewPeriod Month demo_day 1)) \<in> {28, 35, 42}"
proof -
  have "(0::int) \<le> 1" "(1::int) < 7" by simp_all
  from period_days [OF this refl, of Month demo_day] show ?thesis by blast
qed

subsection \<open>Stepping through periods\<close>

lemma NewPeriod_fixed:
  assumes "(k, w) \<in> {(Day, 1), (ThreeDay, 3), (Agenda, 30)}"
  shows "pe_Start (NewPeriod k (q * day) ws) = q * day" "pe_End (NewPeriod k (q * day) ws) = (q + w) * day"
    "Shift (NewPeriod k (q * day) ws) n = (q + w * n) * day"
  using assms by (auto simp: Shift_def NewPeriod_def Let_def add_date_UTC agendaDays_def distrib_right)

lemma Shift_week: "Shift (NewPeriod Week (q * day) ws) n = (q + 7 * n) * day"
  by (simp add: Shift_def NewPeriod_def Let_def add_date_UTC distrib_right)

lemma NewPeriod_week: "pe_Start (NewPeriod Week ((q + 7 * n) * day) ws) = pe_Start (NewPeriod Week (q * day) ws) + 7 * n * day \<and>
    pe_End (NewPeriod Week ((q + 7 * n) * day) ws) = pe_End (NewPeriod Week (q * day) ws) + 7 * n * day"
proof -
  have "weekday_of (q + 7 * n) = weekday_of q" by (simp add: weekday_of_def) presburger
  then have "StartOfWeek ((q + 7 * n) * day) ws = StartOfWeek (q * day) ws + 7 * n * day"
    unfolding StartOfWeek_def Let_def midnight_weekday add_date_UTC by (simp add: distrib_right)
  then show ?thesis by (simp add: NewPeriod_def Let_def add_date_UTC)
qed

lemma firstOfMonth_midnight: "civil_of q = (y, m, d) \<Longrightarrow> firstOfMonth (q * day) = days_of y m 1 * day"
  by (simp add: firstOfMonth_def go_date_midnight)

lemma firstOfMonth_first: "firstOfMonth (days_of y m 1 * day) = days_of y m 1 * day"
  using firstOfMonth_midnight [OF civil_of_first [of y m]] days_of_month_number [of y m 1] by simp

lemma add_months_first: "add_date UTC (days_of y m 1 * day) 0 n 0 = days_of y (m + n) 1 * day"
proof -
  let ?k = "12 * y + m - 1"
  have "add_date UTC (days_of y m 1 * day) 0 n 0 = days_of (?k div 12) (?k mod 12 + 1 + n) 1 * day"
    using add_date_midnight [OF civil_of_first [of y m], of 0 n 0] by (simp add: days_of_add [of _ _ 1 0, simplified] del: days_of_add)
  moreover have "12 * (?k div 12) + (?k mod 12 + 1 + n) - 1 = 12 * y + (m + n) - 1"
    using mult_div_mod_eq [of 12 ?k] by linarith
  ultimately show ?thesis
    using days_of_month_number [of "?k div 12" "?k mod 12 + 1 + n" 1] days_of_month_number [of y "m + n" 1] by simp
qed

lemma Shift_month:
  assumes "civil_of q = (y, m, d)"
  shows "Shift (NewPeriod Month (q * day) ws) n = days_of y (m + n) 1 * day"
  using firstOfMonth_midnight [OF assms]
  by (simp add: Shift_def NewPeriod_def Let_def firstOfMonth_first add_months_first)

lemma NewPeriod_month: "civil_of q = (y, m, d) \<Longrightarrow> NewPeriod Month (q * day) ws = NewPeriod Month (days_of y m 1 * day) ws"
  by (simp add: NewPeriod_def Let_def firstOfMonth_midnight firstOfMonth_first)

lemma Shift_year: "civil_of q = (y, m, d) \<Longrightarrow> Shift (NewPeriod Year (q * day) ws) n = days_of (y + n) 1 1 * day"
  by (simp add: Shift_def NewPeriod_def Let_def firstOfYear_def go_date_midnight)

lemma NewPeriod_year:
  "civil_of q = (y, m, d) \<Longrightarrow> pe_Start (NewPeriod Year (q * day) ws) = days_of y 1 1 * day \<and>
     pe_End (NewPeriod Year (q * day) ws) = days_of (y + 1) 1 1 * day"
  using add_date_midnight [OF first_civil [of 1 y], of 1 0 0]
  by (simp add: NewPeriod_def Let_def firstOfYear_def go_date_midnight)

lemma NewPeriod_date: "NewPeriod k t ws = NewPeriod k (local_days UTC t * day) ws"
  by (simp add: NewPeriod_def date_of_midnight)

text \<open>
  The links to the next and the previous period: \<open>n\<close> steps forward and \<open>n\<close> steps back show the same
  days again, and one step forward shows the days right after these; in the month view it shows the next
  month, whose first day follows the last day of this one.
\<close>

theorem period_shift:
  assumes "p = NewPeriod k t ws" and "p' = NewPeriod k (Shift p n) ws" and "back = NewPeriod k (Shift p' (- n)) ws"
  shows "pe_Start back = pe_Start p \<and> pe_End back = pe_End p \<and>
         (k \<noteq> Month \<longrightarrow> pe_Start (NewPeriod k (Shift p 1) ws) = pe_End p) \<and>
         (k = Month \<longrightarrow> (\<forall>y m d. time_date UTC t = (y, m, d) \<longrightarrow>
            time_date UTC (Shift p 1) = (if m = 12 then (y + 1, 1, 1) else (y, m + 1, 1))))"
proof -
  define q where "q = local_days UTC t"
  have p: "p = NewPeriod k (q * day) ws" unfolding assms(1) q_def by (rule NewPeriod_date)
  obtain y m d where c: "civil_of q = (y, m, d)" by (cases "civil_of q")
  have fixed: ?thesis if kw: "(k, w) \<in> {(Day, 1), (ThreeDay, 3), (Agenda, 30)}" for w :: int
  proof -
    note F = NewPeriod_fixed [OF kw]
    have s: "Shift p j = (q + w * j) * day" for j unfolding p F(3) ..
    have "Shift p' (- n) = q * day" unfolding assms(2) s F(3) by simp
    then have "back = p" unfolding assms(3) p by simp
    moreover have "pe_Start (NewPeriod k (Shift p 1) ws) = pe_End p" unfolding s F(1) unfolding p F(2) by simp
    moreover have "k \<noteq> Month" using kw by auto
    ultimately show ?thesis by simp
  qed
  show ?thesis
  proof (cases k)
    case Month
    let ?k = "12 * y + (m + n) - 1"
    have s: "Shift p j = days_of y (m + j) 1 * day" for j unfolding p Month by (rule Shift_month [OF c])
    have "Shift p' (- n) = days_of (?k div 12) (?k mod 12 + 1 + - n) 1 * day"
      unfolding assms(2) s Month by (rule Shift_month [OF civil_of_first])
    also have "12 * (?k div 12) + (?k mod 12 + 1 + - n) - 1 = 12 * y + m - 1"
      using mult_div_mod_eq [of 12 ?k] by linarith
    then have "days_of (?k div 12) (?k mod 12 + 1 + - n) 1 = days_of y m 1"
      using days_of_month_number [of "?k div 12" "?k mod 12 + 1 + - n" 1] days_of_month_number [of y m 1] by simp
    finally have "back = p" unfolding assms(3) p Month using NewPeriod_month [OF c] by simp
    moreover have v: "1 \<le> m" "m \<le> 12" using civil_of_valid [of q] c by (simp_all add: valid_civil_def)
    have "civil_of (days_of y (m + 1) 1) = (if m = 12 then (y + 1, 1, 1) else (y, m + 1, 1))"
    proof (cases "m = 12")
      case True
      then have "days_of y (m + 1) 1 = days_of (y + 1) 1 1" by (simp add: days_of_def)
      then show ?thesis using True first_civil [of 1 "y + 1"] by simp
    next
      case False then show ?thesis using v first_civil [of "m + 1" y] by simp
    qed
    then have "time_date UTC (Shift p 1) = (if m = 12 then (y + 1, 1, 1) else (y, m + 1, 1))" by (simp add: s)
    ultimately show ?thesis using c Month by (auto simp: time_date_def q_def [symmetric])
  next
    case Year
    have s: "Shift p j = days_of (y + j) 1 1 * day" for j unfolding p Year by (rule Shift_year [OF c])
    have "Shift p' (- n) = days_of y 1 1 * day"
      unfolding assms(2) s Year using Shift_year [OF first_civil [of 1 "y + n"]] by simp
    then show ?thesis
      using Year NewPeriod_year [OF c] NewPeriod_year [OF first_civil [of 1 y]] NewPeriod_year [OF first_civil [of 1 "y + 1"]]
      by (simp add: assms(3) Shift_year [OF c] p)
  next
    case Week
    have s: "Shift p j = (q + 7 * j) * day" for j by (simp add: p Week Shift_week)
    have "Shift p' (- n) = q * day" using Shift_week [of "q + 7 * n" ws "- n"] by (simp add: assms(2) s Week)
    then have "back = p" by (simp add: assms(3) p Week)
    then show ?thesis using NewPeriod_week [of q 1 ws]
      by (simp add: Week p s [unfolded p Week]) (simp add: NewPeriod_def Let_def add_date_UTC)
  qed (rule fixed [of 1] fixed [of 3] fixed [of 30]; simp)+
qed

lemma period_shift_witness:
  "pe_Start (NewPeriod Month (Shift (NewPeriod Month (Shift (NewPeriod Month demo_day 1) 5) 1) (-5)) 1) =
     pe_Start (NewPeriod Month demo_day 1) \<and>
   pe_Start (NewPeriod Week (Shift (NewPeriod Week demo_day 1) 1) 1) = pe_End (NewPeriod Week demo_day 1)"
  using period_shift [OF refl refl refl, where k = Month and t = demo_day and ws = 1 and n = 5]
    period_shift [OF refl refl refl, where k = Week and t = demo_day and ws = 1 and n = 1] by simp

end
