(* ===== verification/View_Layout.thy ===== *)
theory View_Layout
  imports View_Period Recurrence "HOL-Library.Multiset"
begin

text \<open>
  The layout of the calendar pages (\<open>internal/view/item.go\<close>, \<open>layout.go\<close>, \<open>internal/domain/sleep.go\<close>): items,
  the placement of the blocks of a day and of the bars of a row of days into lanes, and the sleep bands.
  The lemmas show that the greedy lane assignment keeps intervals of a lane apart and takes no more lanes
  than overlap at one point.
\<close>

subsection \<open>Items\<close>

record Item =
  it_ID :: string
  it_Instance :: string
  it_Title :: string
  it_Location :: string
  it_Excerpt :: string
  it_Color :: string
  it_CalendarName :: string
  it_AllDay :: bool
  it_Tentative :: bool
  it_Private :: bool
  it_Todo :: bool
  it_Done :: bool
  it_Static :: bool
  it_ReadOnly :: bool
  it_ChecksDone :: int
  it_ChecksTotal :: int
  it_Start :: go_time
  it_End :: go_time

text \<open>\<open>url.QueryEscape\<close>: unreserved characters stay, a blank becomes a plus, the rest is in percent form.\<close>

definition hex_upper :: "nat \<Rightarrow> char" where
  "hex_upper n = ''0123456789ABCDEF'' ! n"

definition unreserved :: "char \<Rightarrow> bool" where
  "unreserved c \<longleftrightarrow> (let n = of_char c :: nat in
     48 \<le> n \<and> n \<le> 57 \<or> 65 \<le> n \<and> n \<le> 90 \<or> 97 \<le> n \<and> n \<le> 122) \<or> c \<in> {CHR ''-'', CHR ''_'', CHR ''.'', CHR ''~''}"

definition QueryEscape :: "string \<Rightarrow> string" where
  "QueryEscape s = concat (map (\<lambda>c. if unreserved c then [c] else if c = CHR '' '' then ''+''
     else [CHR ''%'', hex_upper (of_char c div 16), hex_upper (of_char c mod 16)]) s)"

definition Item_Href :: "Item \<Rightarrow> string" where
  "Item_Href i =
     (if it_Static i then []
      else if it_Todo i then ''/todos/'' @ it_ID i
      else ''/events/'' @ it_ID i @ (if it_Instance i \<noteq> [] then ''?instance='' @ QueryEscape (it_Instance i) else []))"

definition MoveHref :: "Item \<Rightarrow> string" where
  "MoveHref i =
     (if it_Static i \<or> it_ReadOnly i then []
      else if it_Todo i then ''/todos/'' @ it_ID i @ ''/move-time'' else ''/events/'' @ it_ID i @ ''/move'')"

definition ToggleHref :: "Item \<Rightarrow> string" where
  "ToggleHref i = (if it_Static i then [] else ''/todos/'' @ it_ID i @ ''/toggle'')"

definition Progress :: "Item \<Rightarrow> string" where
  "Progress i = (if it_ChecksTotal i = 0 then [] else itoa (it_ChecksDone i) @ ''/'' @ itoa (it_ChecksTotal i))"

definition DisplayTitle :: "Item \<Rightarrow> string" where
  "DisplayTitle i = (if it_Title i = [] then ''(no title)'' else it_Title i)"

definition Long :: "Item \<Rightarrow> bool" where
  "Long i \<longleftrightarrow> it_AllDay i \<or> time_sub (it_End i) (it_Start i) \<ge> 24 * hour"

definition dates :: "Item \<Rightarrow> location \<Rightarrow> go_time \<times> go_time" where
  "dates i loc =
     (let (first, lst) =
            (if it_AllDay i then (date_of UTC (it_Start i), add_date UTC (date_of UTC (it_End i)) 0 0 (-1))
             else (date_of loc (it_Start i), date_of loc (if it_End i > it_Start i then it_End i - 1 else it_End i)))
      in (first, if lst < first then first else lst))"

subsection \<open>Blocks of a day\<close>

definition SlotMinutes :: int where "SlotMinutes = 5"

definition SlotsPerHour :: int where "SlotsPerHour = go_div 60 SlotMinutes"

definition SlotsPerDay :: int where "SlotsPerDay = 24 * SlotsPerHour"

definition MinSpan :: int where "MinSpan = 3"

definition ShortSpan :: int where "ShortSpan = 6"

definition MaxLanes :: int where "MaxLanes = 8"

record Block =
  bl_Item :: Item
  bl_Row :: int
  bl_Span :: int
  bl_Lane :: int
  bl_Lanes :: int
  bl_TimeLabel :: string
  bl_Short :: bool
  bl_Before :: bool
  bl_After :: bool

definition minuteOf :: "location \<Rightarrow> go_time \<Rightarrow> int" where
  "minuteOf loc t = time_hour loc t * 60 + time_minute loc t"

definition later :: "go_time \<Rightarrow> go_time \<Rightarrow> go_time" where
  "later a b = (if a > b then a else b)"

text \<open>The lane a new item takes: the first one that is free at its start.\<close>

fun free_lane :: "int list \<Rightarrow> int \<Rightarrow> nat" where
  "free_lane [] x = 0"
| "free_lane (e # ends) x = (if e \<le> x then 0 else Suc (free_lane ends x))"

definition take_lane :: "int list \<Rightarrow> nat \<Rightarrow> int \<Rightarrow> int list" where
  "take_lane ends lane e = (if lane < length ends then ends[lane := e] else ends @ [e])"

definition setLanes :: "Block list \<Rightarrow> nat \<Rightarrow> Block list" where
  "setLanes bs n = map (\<lambda>b. b\<lparr>bl_Lanes := max 1 (min (int n) MaxLanes)\<rparr>) bs"

text \<open>The loop: \<open>cur\<close> holds the blocks of the open cluster, \<open>ends\<close> where each lane is free again.\<close>

fun layout_loop :: "Block list \<Rightarrow> Block list \<Rightarrow> int list \<Rightarrow> int \<Rightarrow> Block list" where
  "layout_loop [] cur ends clusterEnd = setLanes cur (length ends)"
| "layout_loop (b # bs) cur ends clusterEnd =
     (let fresh = (cur \<noteq> [] \<and> bl_Row b \<ge> clusterEnd);
          out = (if fresh then setLanes cur (length ends) else []);
          cur1 = (if fresh then [] else cur);
          ends1 = (if fresh then [] else ends);
          ce1 = (if fresh then 0 else clusterEnd);
          lane = free_lane ends1 (bl_Row b)
      in out @ layout_loop bs (cur1 @ [b\<lparr>bl_Lane := min (int lane) (MaxLanes - 1)\<rparr>])
                 (take_lane ends1 lane (bl_Row b + bl_Span b)) (max ce1 (bl_Row b + bl_Span b)))"

text \<open>The stable sort: by row, then by falling span.\<close>

definition layoutBlocks :: "Block list \<Rightarrow> Block list" where
  "layoutBlocks bs = layout_loop (sort_key bl_Row (sort_key (\<lambda>b. - bl_Span b) bs)) [] [] 0"

record SleepWindow =
  sw_Weekday :: int
  sw_Start :: int
  sw_End :: int

record View_Options =
  op_Loc :: "location option"
  op_Now :: go_time
  op_Clock24 :: bool
  op_WeekStart :: int
  op_Sleep :: "SleepWindow list"
  op_Link :: "(Kind \<Rightarrow> go_time \<Rightarrow> string) option"
  op_NewLink :: "(go_time \<Rightarrow> int \<Rightarrow> bool \<Rightarrow> string) option"

definition op_loc :: "View_Options \<Rightarrow> location" where
  "op_loc o1 = (case op_Loc o1 of None \<Rightarrow> UTC | Some l \<Rightarrow> l)"

definition today :: "View_Options \<Rightarrow> go_time" where
  "today o1 = date_of (op_loc o1) (op_Now o1)"

definition op_link :: "View_Options \<Rightarrow> Kind \<Rightarrow> go_time \<Rightarrow> string" where
  "op_link o1 k d = (case op_Link o1 of None \<Rightarrow> [] | Some f \<Rightarrow> f k d)"

definition op_newLink :: "View_Options \<Rightarrow> go_time \<Rightarrow> int \<Rightarrow> bool \<Rightarrow> string" where
  "op_newLink o1 d mi allDay = (case op_NewLink o1 of None \<Rightarrow> [] | Some f \<Rightarrow> f d mi allDay)"

text \<open>The layouts \<open>15:04\<close>, \<open>3:04 PM\<close> and \<open>3 PM\<close>.\<close>

definition half_day :: "int \<Rightarrow> string" where
  "half_day h = (if h < 12 then ''AM'' else ''PM'')"

definition hour12 :: "int \<Rightarrow> int" where
  "hour12 h = (if h mod 12 = 0 then 12 else h mod 12)"

definition Clock :: "location \<Rightarrow> go_time \<Rightarrow> bool \<Rightarrow> string" where
  "Clock loc t clock24 =
     (if clock24 then pad2 (time_hour loc t) @ '':'' @ pad2 (time_minute loc t)
      else itoa (hour12 (time_hour loc t)) @ '':'' @ pad2 (time_minute loc t) @ '' '' @ half_day (time_hour loc t))"

definition op_clock :: "View_Options \<Rightarrow> go_time \<Rightarrow> string" where
  "op_clock o1 t = Clock (op_loc o1) t (op_Clock24 o1)"

definition hourLabel :: "int \<Rightarrow> bool \<Rightarrow> string" where
  "hourLabel h clock24 =
     (let t = go_date UTC 2000 1 1 h 0 0 0 in
      if clock24 then pad2 (time_hour UTC t) @ '':'' @ pad2 (time_minute UTC t)
      else itoa (hour12 (time_hour UTC t)) @ '' '' @ half_day (time_hour UTC t))"

definition countLabel :: "int \<Rightarrow> string" where
  "countLabel n = (if n = 1 then ''1 event'' else itoa n @ '' events'')"

definition TimeRange :: "go_time \<Rightarrow> go_time \<Rightarrow> View_Options \<Rightarrow> string" where
  "TimeRange a b o1 =
     (if a = b then op_clock o1 a else op_clock o1 a @ '' '' @ en_dash @ '' '' @ op_clock o1 b)"

definition block_of :: "View_Options \<Rightarrow> go_time \<Rightarrow> go_time \<Rightarrow> Item \<Rightarrow> Block" where
  "block_of o1 start fin i =
     (let loc = op_loc o1;
          from = minuteOf loc (later (it_Start i) start);
          to = max (if it_End i < fin then minuteOf loc (it_End i) else 24 * 60) from;
          row = min (go_div from SlotMinutes) (SlotsPerDay - 1);
          span = min (max (go_div (to + SlotMinutes - 1) SlotMinutes - row) MinSpan) (SlotsPerDay - row)
      in \<lparr>bl_Item = i, bl_Row = row + 1, bl_Span = span, bl_Lane = 0, bl_Lanes = 0,
          bl_TimeLabel = TimeRange (it_Start i) (it_End i) o1, bl_Short = (span < ShortSpan),
          bl_Before = (it_Start i < start), bl_After = (it_End i > fin)\<rparr>)"

definition dayBlocks :: "go_time \<Rightarrow> Item list \<Rightarrow> View_Options \<Rightarrow> Block list" where
  "dayBlocks d items o1 =
     (let loc = op_loc o1; start = inLoc loc d; fin = inLoc loc (add_date UTC d 0 0 1) in
      layoutBlocks (map (block_of o1 start fin)
        (filter (\<lambda>i. \<not> Long i \<and> Overlaps_times (it_Start i) (it_End i) start fin) items)))"

subsection \<open>Bars across days\<close>

record Bar =
  ba_Item :: Item
  ba_Col :: int
  ba_Span :: int
  ba_Row :: int
  ba_Before :: bool
  ba_After :: bool
  ba_TimeLabel :: string

text \<open>Whole days between two times, rounded half away from zero.\<close>

definition dayIndex :: "go_time \<Rightarrow> go_time \<Rightarrow> int" where
  "dayIndex a b = (let d = time_sub b a in if d \<ge> 0 then (2 * d + day) div (2 * day) else - ((2 * (- d) + day) div (2 * day)))"

definition toBar :: "Item \<Rightarrow> go_time list \<Rightarrow> location \<Rightarrow> Bar option" where
  "toBar i days loc =
     (if days = [] then None
      else case dates i loc of (first, lst) \<Rightarrow>
        let d0 = hd days; dn = last days in
        if lst < d0 \<or> first > dn then None
        else let s = (if first < d0 then d0 else first); e = (if lst > dn then dn else lst); c = dayIndex d0 s in
          Some \<lparr>ba_Item = i, ba_Col = c, ba_Span = dayIndex d0 e - c + 1, ba_Row = 0, ba_Before = (first < d0), ba_After = (lst > dn),
                ba_TimeLabel = []\<rparr>)"

text \<open>One more hidden item in each column of a bar.\<close>

definition hide :: "nat \<Rightarrow> Bar \<Rightarrow> int list \<Rightarrow> int list" where
  "hide cols b hidden = map (\<lambda>c. if ba_Col b \<le> int c \<and> int c < ba_Col b + ba_Span b then hidden ! c + 1 else hidden ! c) [0..<cols]"

fun bars_loop :: "nat \<Rightarrow> nat \<Rightarrow> int \<Rightarrow> Bar list \<Rightarrow> int list \<Rightarrow> Bar list \<Rightarrow> int list \<Rightarrow> Bar list \<times> int list" where
  "bars_loop cols maxLanes rowOffset [] ends out hidden = (out, hidden)"
| "bars_loop cols maxLanes rowOffset (b # bs) ends out hidden =
     (let lane = free_lane ends (ba_Col b); ends' = take_lane ends lane (ba_Col b + ba_Span b) in
      if lane \<ge> maxLanes then bars_loop cols maxLanes rowOffset bs ends' out (hide cols b hidden)
      else bars_loop cols maxLanes rowOffset bs ends' (out @ [b\<lparr>ba_Row := int lane + rowOffset\<rparr>]) hidden)"

text \<open>The stable sort: by column, long items first, longer bars first, then by start.\<close>

definition sort_bars :: "Bar list \<Rightarrow> Bar list" where
  "sort_bars bs = sort_key ba_Col (sort_key (\<lambda>b. if Long (ba_Item b) then 0 else 1 :: nat)
     (sort_key (\<lambda>b. - ba_Span b) (sort_key (\<lambda>b. it_Start (ba_Item b)) bs)))"

definition layoutBars :: "Bar list \<Rightarrow> nat \<Rightarrow> nat \<Rightarrow> int \<Rightarrow> Bar list \<times> int list" where
  "layoutBars bs cols maxLanes rowOffset = bars_loop cols maxLanes rowOffset (sort_bars bs) [] [] (replicate cols 0)"

record More =
  mo_Col :: int
  mo_Row :: int
  mo_Count :: int
  mo_Href :: string

definition moreCells :: "int list \<Rightarrow> int \<Rightarrow> go_time list \<Rightarrow> View_Options \<Rightarrow> More list" where
  "moreCells hidden row days o1 =
     map (\<lambda>c. \<lparr>mo_Col = int c, mo_Row = row, mo_Count = hidden ! c, mo_Href = op_link o1 Day (days ! c)\<rparr>)
       (filter (\<lambda>c. hidden ! c > 0) [0..<length hidden])"

definition Block_Class :: "Block \<Rightarrow> string" where
  "Block_Class b = ''gr-'' @ itoa (bl_Row b) @ '' gs-'' @ itoa (bl_Span b) @ '' lane-'' @ itoa (bl_Lane b) @ ''-'' @ itoa (bl_Lanes b)
     @ '' hex-'' @ it_Color (bl_Item b)"

definition Bar_Class :: "Bar \<Rightarrow> string" where
  "Bar_Class b = ''gcol-'' @ itoa (ba_Col b + 1) @ '' gspan-'' @ itoa (ba_Span b) @ '' grow-'' @ itoa (ba_Row b)
     @ '' hex-'' @ it_Color (ba_Item b)"

definition More_Class :: "More \<Rightarrow> string" where
  "More_Class m = ''gcol-'' @ itoa (mo_Col m + 1) @ '' grow-'' @ itoa (mo_Row m)"

subsection \<open>Sleep\<close>

record Band =
  bd_Row :: int
  bd_Span :: int

definition Band_Class :: "Band \<Rightarrow> string" where
  "Band_Class b = ''gr-'' @ itoa (bd_Row b) @ '' gs-'' @ itoa (bd_Span b)"

definition appendBand :: "Band list \<Rightarrow> int \<Rightarrow> int \<Rightarrow> Band list" where
  "appendBand out from to =
     (if to \<le> from then out
      else let r = go_div from SlotMinutes in out @ [\<lparr>bd_Row = r + 1, bd_Span = go_div (to + SlotMinutes - 1) SlotMinutes - r\<rparr>])"

definition sleepBands :: "go_time \<Rightarrow> SleepWindow list \<Rightarrow> Band list" where
  "sleepBands d ws =
     (let prev = time_weekday UTC (add_date UTC d 0 0 (-1)) in
      fold (\<lambda>w out.
        let out1 = (if sw_Weekday w = prev \<and> sw_Start w > sw_End w then appendBand out 0 (sw_End w) else out) in
        if sw_Weekday w = time_weekday UTC d
        then (if sw_Start w < sw_End w then appendBand out1 (sw_Start w) (sw_End w) else appendBand out1 (sw_Start w) (24 * 60))
        else out1) ws [])"

fun scroll_loop :: "int \<Rightarrow> int \<Rightarrow> SleepWindow list \<Rightarrow> int" where
  "scroll_loop prev cur [] = 7"
| "scroll_loop prev cur (w # ws) =
     (let wake = (if sw_Weekday w = prev \<and> sw_Start w > sw_End w then sw_End w
                  else if sw_Weekday w = cur \<and> sw_Start w < sw_End w \<and> sw_Start w < 12 * 60 then sw_End w else - 1)
      in if wake \<ge> 0 then max 0 (min 23 (go_div wake 60 - 1)) else scroll_loop prev cur ws)"

definition scrollHour :: "go_time \<Rightarrow> SleepWindow list \<Rightarrow> int" where
  "scrollHour d ws = scroll_loop (time_weekday UTC (add_date UTC d 0 0 (-1))) (time_weekday UTC d) ws"

subsection \<open>Lanes\<close>

text \<open>What the greedy assignment keeps, for the intervals placed so far with their lanes: each lane is
  free after all of its intervals, an interval of the lane ends there, the intervals of a lane follow one
  another, and at some point as many intervals overlap as there are lanes.\<close>

definition in_span :: "int \<Rightarrow> int \<times> int \<times> nat \<Rightarrow> bool" where
  "in_span x g \<longleftrightarrow> fst g \<le> x \<and> x < fst (snd g)"

definition apart :: "int \<times> int \<times> nat \<Rightarrow> int \<times> int \<times> nat \<Rightarrow> bool" where
  "apart g h \<longleftrightarrow> snd (snd g) = snd (snd h) \<longrightarrow> fst (snd g) \<le> fst h"

definition lane_inv :: "(int \<times> int \<times> nat) list \<Rightarrow> int list \<Rightarrow> bool" where
  "lane_inv gs ends \<longleftrightarrow>
     (\<forall>g\<in>set gs. snd (snd g) < length ends \<and> fst (snd g) \<le> ends ! snd (snd g)) \<and>
     (\<forall>l<length ends. \<exists>g\<in>set gs. snd (snd g) = l \<and> fst (snd g) = ends ! l) \<and>
     sorted_wrt apart gs \<and>
     (gs \<noteq> [] \<longrightarrow> (\<exists>x. length ends \<le> length (filter (in_span x) gs)))"

lemma free_lane_le: "free_lane ends x \<le> length ends"
  by (induction ends x rule: free_lane.induct) auto

lemma free_lane_busy: "k < free_lane ends x \<Longrightarrow> x < ends ! k"
  by (induction ends x arbitrary: k rule: free_lane.induct) (auto simp: nth_Cons' split: if_splits)

lemma free_lane_free: "free_lane ends x < length ends \<Longrightarrow> ends ! free_lane ends x \<le> x"
  by (induction ends x rule: free_lane.induct) auto

lemma lane_inv_Nil [simp]: "lane_inv [] []"
  by (simp add: lane_inv_def)

lemma count_lanes:
  assumes "\<And>l. l < k \<Longrightarrow> \<exists>g\<in>set gs. snd (snd g) = l \<and> P g"
  shows "k \<le> length (filter P gs)"
proof -
  have "{..<k} \<subseteq> (\<lambda>g. snd (snd g)) ` set (filter P gs)" using assms by fastforce
  then have "card {..<k} \<le> card ((\<lambda>g. snd (snd g)) ` set (filter P gs))" by (rule card_mono [rotated]) simp
  also have "\<dots> \<le> card (set (filter P gs))" by (rule card_image_le) simp
  also have "\<dots> \<le> length (filter P gs)" by (rule card_length)
  finally show ?thesis by simp
qed

text \<open>The lanes below the one chosen are all taken at the start of the new interval.\<close>

lemma lanes_taken:
  assumes "lane_inv gs ends" and "\<forall>g\<in>set gs. fst g \<le> s" and "k \<le> free_lane ends s"
  shows "k \<le> length (filter (in_span s) (filter (\<lambda>g. snd (snd g) < k) gs))"
proof -
  have "\<exists>g\<in>set gs. snd (snd g) = l \<and> (in_span s g \<and> snd (snd g) < k)" if "l < k" for l
  proof -
    have l: "l < free_lane ends s" using that assms(3) by simp
    then have "l < length ends" using free_lane_le [of ends s] by simp
    then obtain g where g: "g \<in> set gs" "snd (snd g) = l" "fst (snd g) = ends ! l"
      using assms(1) unfolding lane_inv_def by blast
    then have "in_span s g" using free_lane_busy [OF l] assms(2) by (simp add: in_span_def)
    with g that show ?thesis by blast
  qed
  then have "k \<le> length (filter (\<lambda>g. in_span s g \<and> snd (snd g) < k) gs)" by (rule count_lanes)
  then show ?thesis by (simp add: conj_commute)
qed

lemma lane_inv_step:
  assumes inv: "lane_inv gs ends" and le: "\<forall>g\<in>set gs. fst g \<le> s" and "s < e"
  defines "l \<equiv> free_lane ends s"
  shows "lane_inv (gs @ [(s, e, l)]) (take_lane ends l e)"
proof -
  have le_l: "l \<le> length ends" by (simp add: l_def free_lane_le)
  have below: "snd (snd g) < length ends" "fst (snd g) \<le> ends ! snd (snd g)" if "g \<in> set gs" for g
    using inv that unfolding lane_inv_def by blast+
  have free: "fst (snd g) \<le> s" if "g \<in> set gs" "snd (snd g) = l" for g
    using below [OF that(1)] that(2) free_lane_free [of ends s] by (simp add: l_def)
  have nth: "take_lane ends l e ! k = (if k = l then e else ends ! k)" if "k < length (take_lane ends l e)" for k
    using that le_l by (auto simp: take_lane_def nth_append split: if_splits)
  have len: "length (take_lane ends l e) = max (length ends) (Suc l)" using le_l by (simp add: take_lane_def)
  have 1: "\<forall>g\<in>set (gs @ [(s, e, l)]). snd (snd g) < length (take_lane ends l e) \<and> fst (snd g) \<le> take_lane ends l e ! snd (snd g)"
  proof
    fix g assume "g \<in> set (gs @ [(s, e, l)])"
    then consider "g \<in> set gs" | "g = (s, e, l)" by auto
    then show "snd (snd g) < length (take_lane ends l e) \<and> fst (snd g) \<le> take_lane ends l e ! snd (snd g)"
    proof cases
      case 1
      have "snd (snd g) < length (take_lane ends l e)" using below [OF 1] len by simp
      with nth [OF this] below [OF 1] free [OF 1] \<open>s < e\<close> show ?thesis by auto
    next
      case 2 then show ?thesis using nth [of l] len by simp
    qed
  qed
  have 2: "\<exists>g\<in>set (gs @ [(s, e, l)]). snd (snd g) = k \<and> fst (snd g) = take_lane ends l e ! k" if "k < length (take_lane ends l e)" for k
  proof (cases "k = l")
    case True then show ?thesis using nth [OF that] by simp
  next
    case False
    then have "k < length ends" using that len le_l by simp
    then obtain g where "g \<in> set gs" "snd (snd g) = k" "fst (snd g) = ends ! k" using inv unfolding lane_inv_def by blast
    then show ?thesis using nth [OF that] False by auto
  qed
  have 3: "sorted_wrt apart (gs @ [(s, e, l)])"
    using inv free by (simp add: lane_inv_def sorted_wrt_append apart_def)
  have 4: "\<exists>x. length (take_lane ends l e) \<le> length (filter (in_span x) (gs @ [(s, e, l)]))"
  proof (cases "l < length ends")
    case True
    then have "gs \<noteq> []" using inv unfolding lane_inv_def by fastforce
    then obtain x where "length ends \<le> length (filter (in_span x) gs)" using inv unfolding lane_inv_def by blast
    moreover have "length (take_lane ends l e) = length ends" using True len by simp
    ultimately show ?thesis by (intro exI [of _ x]) simp
  next
    case False
    then have l: "l = length ends" using le_l by simp
    then have "length ends \<le> length (filter (in_span s) (filter (\<lambda>g. snd (snd g) < length ends) gs))"
      by (intro lanes_taken [OF inv le]) (simp add: l_def)
    also have "filter (\<lambda>g. snd (snd g) < length ends) gs = gs" using below by simp
    finally have "length ends + 1 \<le> length (filter (in_span s) (gs @ [(s, e, l)]))"
      using \<open>s < e\<close> by (simp add: in_span_def [of s "(s, e, l)"])
    then show ?thesis using len l by (intro exI [of _ s]) simp
  qed
  show ?thesis unfolding lane_inv_def using 1 2 3 4 by blast
qed

subsection \<open>Blocks side by side\<close>

definition bl_end :: "Block \<Rightarrow> int" where
  "bl_end b = bl_Row b + bl_Span b"

definition covers :: "int \<Rightarrow> Block \<Rightarrow> bool" where
  "covers x b \<longleftrightarrow> bl_Row b \<le> x \<and> x < bl_end b"

text \<open>Two blocks that meet share the width and stand in different lanes, except that all lanes beyond the
  last one are drawn in it.\<close>

definition side_by_side :: "Block \<Rightarrow> Block \<Rightarrow> bool" where
  "side_by_side a b \<longleftrightarrow>
     (bl_Row a < bl_end b \<and> bl_Row b < bl_end a \<longrightarrow>
      bl_Lanes a = bl_Lanes b \<and> (bl_Lane a = bl_Lane b \<longrightarrow> bl_Lane a = MaxLanes - 1))"

text \<open>A block without its place.\<close>

definition unplaced :: "Block \<Rightarrow> Block" where
  "unplaced b = b\<lparr>bl_Lane := 0, bl_Lanes := 0\<rparr>"

text \<open>The width is no more than the blocks at one point need.\<close>

definition tight :: "Block list \<Rightarrow> Block \<Rightarrow> bool" where
  "tight bs b \<longleftrightarrow> (\<exists>x. bl_Lanes b \<le> int (length (filter (covers x) bs)))"

definition laid_out :: "Block list \<Rightarrow> bool" where
  "laid_out bs \<longleftrightarrow>
     sorted_wrt side_by_side bs \<and>
     (\<forall>b\<in>set bs. 0 \<le> bl_Lane b \<and> bl_Lane b < bl_Lanes b \<and> bl_Lanes b \<le> MaxLanes \<and> tight bs b)"

text \<open>The blocks of the open cluster, from their unclamped lanes.\<close>

definition placed :: "Block \<times> nat \<Rightarrow> Block" where
  "placed p = (fst p)\<lparr>bl_Lane := min (int (snd p)) (MaxLanes - 1)\<rparr>"

definition ivl :: "Block \<times> nat \<Rightarrow> int \<times> int \<times> nat" where
  "ivl p = (bl_Row (fst p), bl_end (fst p), snd p)"

lemma side_by_side_sym: "side_by_side a b \<Longrightarrow> side_by_side b a"
  by (auto simp: side_by_side_def)

lemma tight_mono: "tight bs b \<Longrightarrow> tight (as @ bs @ cs) b"
proof -
  assume "tight bs b"
  then obtain x where "bl_Lanes b \<le> int (length (filter (covers x) bs))" by (auto simp: tight_def)
  then have "bl_Lanes b \<le> int (length (filter (covers x) (as @ bs @ cs)))" by simp
  then show ?thesis unfolding tight_def by blast
qed

lemma laid_out_append:
  assumes "laid_out as" "laid_out bs" "\<forall>a\<in>set as. \<forall>b\<in>set bs. bl_end a \<le> bl_Row b"
  shows "laid_out (as @ bs)"
proof -
  have "tight (as @ bs) b" if "b \<in> set as" for b
    using that assms(1) tight_mono [of as b "[]" bs] by (simp add: laid_out_def)
  moreover have "tight (as @ bs) b" if "b \<in> set bs" for b
    using that assms(2) tight_mono [of bs b as "[]"] by (simp add: laid_out_def)
  moreover have "side_by_side a b" if "a \<in> set as" "b \<in> set bs" for a b
  proof -
    have "bl_end a \<le> bl_Row b" using assms(3) that by blast
    then show ?thesis by (simp add: side_by_side_def)
  qed
  ultimately show ?thesis using assms(1,2) by (auto simp: laid_out_def sorted_wrt_append)
qed

lemma setLanes_set: "b \<in> set (setLanes bs n) \<Longrightarrow> bl_Lanes b = max 1 (min (int n) MaxLanes)"
  by (auto simp: setLanes_def)

lemma setLanes_unplaced: "map unplaced (setLanes (map placed ps) n) = map unplaced (map fst ps)"
  by (simp add: setLanes_def unplaced_def placed_def)

lemma cluster_laid_out:
  assumes inv: "lane_inv (map ivl ps) ends"
  shows "laid_out (setLanes (map placed ps) (length ends))"
proof -
  let ?n = "length ends" and ?r = "setLanes (map placed ps) (length ends)"
  have lane: "snd p < ?n" if "p \<in> set ps" for p
    using inv that by (force simp: lane_inv_def ivl_def)
  have "sorted_wrt apart (map ivl ps)" using inv by (simp add: lane_inv_def)
  then have "sorted_wrt (\<lambda>p q. apart (ivl p) (ivl q)) ps" by (simp add: sorted_wrt_map)
  then have "sorted_wrt side_by_side ?r"
    by (auto simp: setLanes_def sorted_wrt_map apart_def ivl_def side_by_side_def placed_def bl_end_def MaxLanes_def
        elim: sorted_wrt_mono_rel [rotated])
  moreover have "0 \<le> bl_Lane b \<and> bl_Lane b < bl_Lanes b \<and> bl_Lanes b \<le> MaxLanes \<and> tight ?r b" if b: "b \<in> set ?r" for b
  proof -
    obtain p where p: "p \<in> set ps" "bl_Lane b = min (int (snd p)) (MaxLanes - 1)" "bl_Lanes b = max 1 (min (int ?n) MaxLanes)"
      using b by (auto simp: setLanes_def placed_def)
    have "map ivl ps \<noteq> []" using p(1) by auto
    then obtain x where "?n \<le> length (filter (in_span x) (map ivl ps))" using inv unfolding lane_inv_def by blast
    also have "\<dots> = length (filter (covers x) ?r)"
      by (simp add: setLanes_def filter_map o_def in_span_def covers_def ivl_def bl_end_def placed_def)
    finally have "tight ?r b" using p(3) lane [OF p(1)] unfolding tight_def by (intro exI [of _ x]) (simp add: MaxLanes_def)
    then show ?thesis using p lane [OF p(1)] by (auto simp: MaxLanes_def min_less_iff_disj)
  qed
  ultimately show ?thesis unfolding laid_out_def by blast
qed

lemma layout_loop_sound:
  assumes "lane_inv (map ivl ps) ends"
    and "sorted (map bl_Row (map fst ps @ bs))" and "\<forall>b\<in>set bs. 0 < bl_Span b"
    and "\<forall>p\<in>set ps. bl_end (fst p) \<le> ce"
  shows "laid_out (layout_loop bs (map placed ps) ends ce) \<and>
         map unplaced (layout_loop bs (map placed ps) ends ce) = map unplaced (map fst ps @ bs)"
  using assms
proof (induction bs arbitrary: ps ends ce)
  case Nil
  then show ?case using cluster_laid_out [of ps ends] setLanes_unplaced [of ps] by simp
next
  case (Cons b bs)
  define fresh where "fresh \<longleftrightarrow> ps \<noteq> [] \<and> bl_Row b \<ge> ce"
  define out where "out = (if fresh then setLanes (map placed ps) (length ends) else [])"
  define ps1 where "ps1 = (if fresh then [] else ps)"
  define ends1 where "ends1 = (if fresh then [] else ends)"
  define l where "l = free_lane ends1 (bl_Row b)"
  define ps2 where "ps2 = ps1 @ [(b, l)]"
  define ce2 where "ce2 = max (if fresh then 0 else ce) (bl_Row b + bl_Span b)"
  have rows: "\<forall>p\<in>set ps. bl_Row (fst p) \<le> bl_Row b" "\<forall>c\<in>set bs. bl_Row b \<le> bl_Row c"
    using Cons.prems(2) by (auto simp: sorted_append)
  have loop: "layout_loop (b # bs) (map placed ps) ends ce = out @ layout_loop bs (map placed ps2) (take_lane ends1 l (bl_end b)) ce2"
    by (simp add: Let_def fresh_def out_def ps1_def ends1_def l_def ps2_def ce2_def placed_def bl_end_def)
  have inv1: "lane_inv (map ivl ps1) ends1" using Cons.prems(1) by (simp add: ps1_def ends1_def)
  have "map ivl ps2 = map ivl ps1 @ [(bl_Row b, bl_end b, l)]" by (simp add: ps2_def ivl_def)
  moreover have "\<forall>g\<in>set (map ivl ps1). fst g \<le> bl_Row b" using rows(1) by (auto simp: ps1_def ivl_def)
  ultimately have inv2: "lane_inv (map ivl ps2) (take_lane ends1 l (bl_end b))"
    using lane_inv_step [OF inv1, of "bl_Row b" "bl_end b"] Cons.prems(3) by (simp add: l_def bl_end_def)
  have sorted2: "sorted (map bl_Row (map fst ps2 @ bs))"
    using Cons.prems(2) by (auto simp: ps2_def ps1_def sorted_append)
  have "\<forall>p\<in>set ps2. bl_end (fst p) \<le> ce2"
    using Cons.prems(4) by (force simp: ps2_def ps1_def ce2_def bl_end_def)
  then have IH: "laid_out (layout_loop bs (map placed ps2) (take_lane ends1 l (bl_end b)) ce2)"
    "map unplaced (layout_loop bs (map placed ps2) (take_lane ends1 l (bl_end b)) ce2) = map unplaced (map fst ps2 @ bs)"
    using Cons.IH [OF inv2 sorted2] Cons.prems(3) by auto
  show ?case
  proof (cases fresh)
    case False
    then show ?thesis using IH loop by (simp add: out_def ps2_def ps1_def)
  next
    case True
    then have o: "out = setLanes (map placed ps) (length ends)" and p2: "ps2 = [(b, l)]" by (simp_all add: out_def ps2_def ps1_def)
    have row_unplaced: "bl_Row (unplaced c) = bl_Row c" for c by (simp add: unplaced_def)
    let ?rest = "layout_loop bs (map placed ps2) (take_lane ends1 l (bl_end b)) ce2"
    have "map bl_Row ?rest = map bl_Row (map unplaced ?rest)" by (simp add: row_unplaced)
    also have "\<dots> = map bl_Row (b # bs)" unfolding IH(2) using p2 by (simp add: row_unplaced)
    finally have "\<forall>c\<in>set ?rest. bl_Row b \<le> bl_Row c" using rows(2) by (metis (no_types, lifting) list.set_map image_iff list.simps(9) order_refl set_ConsD)
    moreover have "\<forall>a\<in>set out. bl_end a \<le> bl_Row b"
      using Cons.prems(4) True by (auto simp: o setLanes_def placed_def bl_end_def fresh_def)
    ultimately have "\<forall>a\<in>set out. \<forall>c\<in>set ?rest. bl_end a \<le> bl_Row c" by force
    then have "laid_out (out @ ?rest)" using laid_out_append IH(1) cluster_laid_out [OF Cons.prems(1)] o by blast
    then show ?thesis using loop IH(2) setLanes_unplaced [of ps] by (simp add: o p2)
  qed
qed

lemma layoutBlocks_laid_out:
  assumes "\<forall>b\<in>set bs. 0 < bl_Span b"
  shows "laid_out (layoutBlocks bs)" and "mset (map unplaced (layoutBlocks bs)) = mset (map unplaced bs)"
    and "sorted (map bl_Row (layoutBlocks bs))"
proof -
  let ?s = "sort_key bl_Row (sort_key (\<lambda>b. - bl_Span b) bs)"
  have *: "laid_out (layoutBlocks bs) \<and> map unplaced (layoutBlocks bs) = map unplaced ?s"
    using layout_loop_sound [of "[]" "[]" ?s 0] assms by (simp add: layoutBlocks_def)
  then show "laid_out (layoutBlocks bs)" by blast
  show "mset (map unplaced (layoutBlocks bs)) = mset (map unplaced bs)" using * by simp
  have "map bl_Row (layoutBlocks bs) = map bl_Row (map unplaced (layoutBlocks bs))" by (simp add: unplaced_def)
  also have "\<dots> = map bl_Row ?s" using * by (simp add: unplaced_def)
  finally show "sorted (map bl_Row (layoutBlocks bs))" by simp
qed

subsection \<open>The blocks of a day\<close>

lemma minuteOf_range: "0 \<le> minuteOf loc t" "minuteOf loc t < 1440"
proof -
  obtain h mi sec where "time_clock loc t = (h, mi, sec)" by (cases "time_clock loc t")
  with clock_range [OF this] show "0 \<le> minuteOf loc t" "minuteOf loc t < 1440"
    by (simp_all add: minuteOf_def time_hour_def time_minute_def)
qed

lemma slots: "SlotsPerDay = 288"
  by (simp add: SlotsPerDay_def SlotsPerHour_def SlotMinutes_def go_div_def)

lemma block_of_range:
  "1 \<le> bl_Row (block_of o1 a b i)" "0 < bl_Span (block_of o1 a b i)"
  "bl_Row (block_of o1 a b i) + bl_Span (block_of o1 a b i) \<le> SlotsPerDay + 1"
proof -
  define m where "m = minuteOf (op_loc o1) (later (it_Start i) a)"
  have "0 \<le> go_div m SlotMinutes" using minuteOf_range by (simp add: m_def SlotMinutes_def go_div_nonneg pos_imp_zdiv_nonneg_iff)
  then show "1 \<le> bl_Row (block_of o1 a b i)" "0 < bl_Span (block_of o1 a b i)"
    "bl_Row (block_of o1 a b i) + bl_Span (block_of o1 a b i) \<le> SlotsPerDay + 1"
    unfolding block_of_def Let_def m_def [symmetric] by (auto simp: slots MinSpan_def less_max_iff_disj min_less_iff_disj)
qed

lemma unplaced_block_of [simp]: "unplaced (block_of o1 a b i) = block_of o1 a b i"
  by (simp add: unplaced_def block_of_def Let_def)

lemma unplaced_fields [simp]:
  "bl_Item (unplaced b) = bl_Item b" "bl_Row (unplaced b) = bl_Row b" "bl_Span (unplaced b) = bl_Span b"
  by (simp_all add: unplaced_def)

definition day_items :: "go_time \<Rightarrow> Item list \<Rightarrow> View_Options \<Rightarrow> Item list" where
  "day_items d items o1 =
     filter (\<lambda>i. \<not> Long i \<and> Overlaps_times (it_Start i) (it_End i) (inLoc (op_loc o1) d)
       (inLoc (op_loc o1) (add_date UTC d 0 0 1))) items"

text \<open>
  The column of a day: exactly the short items that meet the day are drawn, each once; every block lies in
  the 288 rows of the day and has a lane below its number of lanes, of which there are at most eight and
  never more than blocks that meet at some row; two blocks that meet get the same width and different
  lanes, except that whatever is beyond the last lane is drawn in it.
\<close>

theorem dayBlocks_sound:
  assumes "bs = dayBlocks d items o1"
  shows "mset (map bl_Item bs) = mset (day_items d items o1) \<and> sorted (map bl_Row bs) \<and>
         (\<forall>b\<in>set bs. 1 \<le> bl_Row b \<and> 0 < bl_Span b \<and> bl_end b \<le> SlotsPerDay + 1 \<and>
            0 \<le> bl_Lane b \<and> bl_Lane b < bl_Lanes b \<and> bl_Lanes b \<le> MaxLanes \<and>
            (\<exists>x. bl_Lanes b \<le> int (length (filter (\<lambda>c. bl_Row c \<le> x \<and> x < bl_end c) bs)))) \<and>
         (\<forall>i < length bs. \<forall>j < length bs. i \<noteq> j \<and> bl_Row (bs ! i) < bl_end (bs ! j) \<and> bl_Row (bs ! j) < bl_end (bs ! i) \<longrightarrow>
            bl_Lanes (bs ! i) = bl_Lanes (bs ! j) \<and>
            (bl_Lane (bs ! i) = bl_Lane (bs ! j) \<longrightarrow> bl_Lane (bs ! i) = MaxLanes - 1))"
proof -
  define fresh where "fresh = map (block_of o1 (inLoc (op_loc o1) d) (inLoc (op_loc o1) (add_date UTC d 0 0 1))) (day_items d items o1)"
  have bs: "bs = layoutBlocks fresh" by (simp add: assms dayBlocks_def Let_def fresh_def day_items_def)
  have "\<forall>b\<in>set fresh. 0 < bl_Span b" by (simp add: fresh_def block_of_range)
  note L = layoutBlocks_laid_out [OF this, folded bs]
  have same: "mset (map unplaced bs) = mset fresh" using L(2) by (simp add: fresh_def comp_def)
  have "mset (map bl_Item bs) = image_mset bl_Item (mset (map unplaced bs))" by (simp add: comp_def multiset.map_comp)
  also have "\<dots> = mset (day_items d items o1)" unfolding same by (simp add: fresh_def comp_def multiset.map_comp block_of_def Let_def)
  finally have 1: "mset (map bl_Item bs) = mset (day_items d items o1)" .
  have 2: "1 \<le> bl_Row b \<and> 0 < bl_Span b \<and> bl_end b \<le> SlotsPerDay + 1" if "b \<in> set bs" for b
  proof -
    have "unplaced b \<in># mset (map unplaced bs)" using that by simp
    then have "unplaced b \<in> set fresh" unfolding same by simp
    then obtain i s e where "unplaced b = block_of o1 s e i" unfolding fresh_def by auto
    then have "bl_Row b = bl_Row (block_of o1 s e i)" "bl_Span b = bl_Span (block_of o1 s e i)"
      using unplaced_fields(2,3) [of b] by simp_all
    then show ?thesis using block_of_range [of o1 s e i] by (simp add: bl_end_def)
  qed
  have 3: "0 \<le> bl_Lane b \<and> bl_Lane b < bl_Lanes b \<and> bl_Lanes b \<le> MaxLanes \<and>
      (\<exists>x. bl_Lanes b \<le> int (length (filter (\<lambda>c. bl_Row c \<le> x \<and> x < bl_end c) bs)))" if "b \<in> set bs" for b
    using L(1) that unfolding laid_out_def tight_def covers_def by blast
  have 4: "side_by_side (bs ! i) (bs ! j)" if "i < length bs" "j < length bs" "i \<noteq> j" for i j
  proof -
    have "sorted_wrt side_by_side bs" using L(1) by (simp add: laid_out_def)
    then show ?thesis using that side_by_side_sym by (metis linorder_neqE_nat sorted_wrt_nth_less)
  qed
  show ?thesis using 1 2 3 4 L(3) unfolding side_by_side_def by blast
qed

definition demo_item :: "int \<Rightarrow> int \<Rightarrow> Item" where
  "demo_item a b = \<lparr>it_ID = ''a'', it_Instance = [], it_Title = ''Call'', it_Location = [], it_Excerpt = [], it_Color = [],
     it_CalendarName = [], it_AllDay = False, it_Tentative = False, it_Private = False, it_Todo = False, it_Done = False,
     it_Static = False, it_ReadOnly = False, it_ChecksDone = 0, it_ChecksTotal = 0,
     it_Start = demo_day + a * minute, it_End = demo_day + b * minute\<rparr>"

definition demo_options :: View_Options where
  "demo_options = \<lparr>op_Loc = None, op_Now = demo_day, op_Clock24 = True, op_WeekStart = 1, op_Sleep = [], op_Link = None, op_NewLink = None\<rparr>"

lemma demo_blocks:
  "map (\<lambda>b. (bl_Row b, bl_Span b, bl_Lane b, bl_Lanes b)) (dayBlocks demo_day [demo_item 600 660, demo_item 630 690, demo_item 720 721] demo_options)
     = [(121, 12, 0, 2), (127, 12, 1, 2), (145, 3, 0, 1)]"
  by code_simp

lemma dayBlocks_sound_witness:
  "mset (map bl_Item (dayBlocks demo_day [demo_item 600 660, demo_item 630 690, demo_item 720 721] demo_options)) =
     mset (day_items demo_day [demo_item 600 660, demo_item 630 690, demo_item 720 721] demo_options)"
  using dayBlocks_sound [OF refl, of demo_day "[demo_item 600 660, demo_item 630 690, demo_item 720 721]" demo_options]
  by (rule conjunct1)

subsection \<open>Bars in a row of days\<close>

definition bcovers :: "int \<Rightarrow> Bar \<Rightarrow> bool" where
  "bcovers c b \<longleftrightarrow> ba_Col b \<le> c \<and> c < ba_Col b + ba_Span b"

text \<open>The bars placed so far with their lanes: those shown, and the counts of the others.\<close>

definition bivl :: "Bar \<times> nat \<Rightarrow> int \<times> int \<times> nat" where
  "bivl p = (ba_Col (fst p), ba_Col (fst p) + ba_Span (fst p), snd p)"

definition shown :: "nat \<Rightarrow> int \<Rightarrow> (Bar \<times> nat) list \<Rightarrow> Bar list" where
  "shown ml off ps = map (\<lambda>p. (fst p)\<lparr>ba_Row := int (snd p) + off\<rparr>) (filter (\<lambda>p. snd p < ml) ps)"

definition concealed :: "nat \<Rightarrow> nat \<Rightarrow> (Bar \<times> nat) list \<Rightarrow> int list" where
  "concealed cols ml ps = map (\<lambda>c. int (length (filter (\<lambda>p. ml \<le> snd p \<and> bcovers (int c) (fst p)) ps))) [0..<cols]"

text \<open>A bar is concealed only where its first column is full.\<close>

definition crowded :: "nat \<Rightarrow> (Bar \<times> nat) list \<Rightarrow> bool" where
  "crowded ml ps \<longleftrightarrow>
     (\<forall>p\<in>set ps. ml \<le> snd p \<longrightarrow> ml \<le> length (filter (\<lambda>r. snd r < ml \<and> bcovers (ba_Col (fst p)) (fst r)) ps))"

lemma crowded_step:
  assumes "crowded ml ps"
    and "ml \<le> l \<Longrightarrow> ml \<le> length (filter (\<lambda>r. snd r < ml \<and> bcovers (ba_Col b) (fst r)) ps)"
  shows "crowded ml (ps @ [(b, l)])"
  using assms unfolding crowded_def by (auto intro: le_SucI)

lemma bars_loop_sound:
  assumes "lane_inv (map bivl ps) ends" and "crowded ml ps"
    and "sorted (map ba_Col (map fst ps @ bs))" and "\<forall>b\<in>set bs. 0 < ba_Span b"
  shows "\<exists>ps'. bars_loop cols ml off bs ends (shown ml off ps) (concealed cols ml ps) = (shown ml off ps', concealed cols ml ps') \<and>
           map fst ps' = map fst ps @ bs \<and> sorted_wrt apart (map bivl ps') \<and> crowded ml ps'"
  using assms
proof (induction bs arbitrary: ps ends)
  case Nil
  then show ?case by (intro exI [of _ ps]) (simp add: lane_inv_def)
next
  case (Cons b bs)
  define l where "l = free_lane ends (ba_Col b)"
  define ps1 where "ps1 = ps @ [(b, l)]"
  let ?e = "ba_Col b + ba_Span b"
  have le: "\<forall>g\<in>set (map bivl ps). fst g \<le> ba_Col b" using Cons.prems(3) by (auto simp: sorted_append bivl_def)
  have "lane_inv (map bivl ps @ [(ba_Col b, ?e, l)]) (take_lane ends l ?e)"
    using lane_inv_step [OF Cons.prems(1) le, of ?e] Cons.prems(4) by (simp add: l_def)
  then have inv1: "lane_inv (map bivl ps1) (take_lane ends l ?e)" by (simp add: ps1_def bivl_def)
  have cr1: "crowded ml ps1" unfolding ps1_def
  proof (rule crowded_step [OF Cons.prems(2)])
    assume "ml \<le> l"
    then have "ml \<le> length (filter (in_span (ba_Col b)) (filter (\<lambda>g. snd (snd g) < ml) (map bivl ps)))"
      by (intro lanes_taken [OF Cons.prems(1) le]) (simp add: l_def)
    also have "\<dots> = length (filter (\<lambda>r. snd r < ml \<and> bcovers (ba_Col b) (fst r)) ps)"
      by (simp add: filter_map o_def in_span_def bivl_def bcovers_def conj_commute)
    finally show "ml \<le> length (filter (\<lambda>r. snd r < ml \<and> bcovers (ba_Col b) (fst r)) ps)" .
  qed
  have sorted1: "sorted (map ba_Col (map fst ps1 @ bs))" using Cons.prems(3) by (simp add: ps1_def)
  have step: "bars_loop cols ml off (b # bs) ends (shown ml off ps) (concealed cols ml ps) =
      bars_loop cols ml off bs (take_lane ends l ?e) (shown ml off ps1) (concealed cols ml ps1)"
  proof (cases "ml \<le> l")
    case True
    have "hide cols b (concealed cols ml ps) = concealed cols ml ps1"
      using True by (auto simp: hide_def concealed_def ps1_def bcovers_def)
    then show ?thesis using True by (simp add: l_def [symmetric] Let_def shown_def ps1_def)
  next
    case False
    then show ?thesis by (simp add: l_def [symmetric] Let_def shown_def concealed_def ps1_def)
  qed
  have "\<forall>b\<in>set bs. 0 < ba_Span b" using Cons.prems(4) by simp
  from Cons.IH [OF inv1 cr1 sorted1 this] show ?case unfolding step by (simp add: ps1_def)
qed

definition row_disjoint :: "Bar \<Rightarrow> Bar \<Rightarrow> bool" where
  "row_disjoint a b \<longleftrightarrow> (ba_Row a = ba_Row b \<longrightarrow> (\<forall>c. \<not> (bcovers c a \<and> bcovers c b)))"

text \<open>A bar without its row.\<close>

definition unrowed :: "Bar \<Rightarrow> Bar" where
  "unrowed b = b\<lparr>ba_Row := 0\<rparr>"

lemma sort_bars_mset: "mset (sort_bars bs) = mset bs"
  by (simp add: sort_bars_def)

lemma sort_bars_sorted: "sorted (map ba_Col (sort_bars bs))"
  by (simp add: sort_bars_def)

lemma filter_split: "length (filter P xs) = length (filter (\<lambda>x. Q x \<and> P x) xs) + length (filter (\<lambda>x. \<not> Q x \<and> P x) xs)"
  by (induction xs) auto

lemma layoutBars_sound:
  assumes "\<forall>b\<in>set bs. 0 < ba_Span b" and "layoutBars bs cols ml off = (vis, hidden)"
  shows "sorted_wrt row_disjoint vis" and "\<forall>b\<in>set vis. off \<le> ba_Row b \<and> ba_Row b < off + int ml"
    and "length hidden = cols"
    and "c < cols \<Longrightarrow> int (length (filter (bcovers (int c)) vis)) + hidden ! c = int (length (filter (bcovers (int c)) bs))"
    and "c < cols \<Longrightarrow> 0 \<le> hidden ! c"
    and "mset (map unrowed vis) \<subseteq># mset (map unrowed bs)"
    and "b \<in> set bs \<Longrightarrow> unrowed b \<in> unrowed ` set vis \<or> ml \<le> length (filter (bcovers (ba_Col b)) vis)"
proof -
  have "\<forall>b\<in>set (sort_bars bs). 0 < ba_Span b" using assms(1) mset_eq_setD [OF sort_bars_mset [of bs]] by simp
  then obtain ps where ps: "bars_loop cols ml off (sort_bars bs) [] (shown ml off []) (concealed cols ml []) = (shown ml off ps, concealed cols ml ps)"
      "map fst ps = sort_bars bs" "sorted_wrt apart (map bivl ps)" "crowded ml ps"
    using bars_loop_sound [of "[]" "[]" ml "sort_bars bs" cols off] sort_bars_sorted [of bs] by (auto simp: crowded_def)
  have "shown ml off [] = []" "concealed cols ml [] = replicate cols 0"
    by (simp_all add: shown_def concealed_def map_replicate_const)
  then have vis: "vis = shown ml off ps" "hidden = concealed cols ml ps"
    using assms(2) ps(1) by (simp_all add: layoutBars_def)
  have fields [simp]: "bcovers c (a\<lparr>ba_Row := r\<rparr>) = bcovers c a" for c a r by (simp add: bcovers_def)
  have "sorted_wrt (\<lambda>p q. apart (bivl p) (bivl q)) (filter (\<lambda>p. snd p < ml) ps)"
    using ps(3) by (simp add: sorted_wrt_map sorted_wrt_filter)
  then show "sorted_wrt row_disjoint vis"
    unfolding vis(1) shown_def sorted_wrt_map
    by (rule sorted_wrt_mono_rel [rotated]) (auto simp: apart_def bivl_def row_disjoint_def bcovers_def)
  show "\<forall>b\<in>set vis. off \<le> ba_Row b \<and> ba_Row b < off + int ml" unfolding vis(1) shown_def by auto
  show "length hidden = cols" by (simp add: vis(2) concealed_def)
  have same: "mset (map fst ps) = mset bs" using ps(2) sort_bars_mset by metis
  show "int (length (filter (bcovers (int c)) vis)) + hidden ! c = int (length (filter (bcovers (int c)) bs))" if "c < cols"
  proof -
    have "mset (filter (bcovers (int c)) bs) = mset (filter (bcovers (int c)) (map fst ps))" using same by simp
    then have "length (filter (bcovers (int c)) bs) = length (filter (bcovers (int c)) (map fst ps))" by (rule mset_eq_length)
    also have "\<dots> = length (filter (\<lambda>p. bcovers (int c) (fst p)) ps)" by (simp add: filter_map o_def)
    also have "\<dots> = length (filter (\<lambda>p. snd p < ml \<and> bcovers (int c) (fst p)) ps) + length (filter (\<lambda>p. \<not> snd p < ml \<and> bcovers (int c) (fst p)) ps)"
      by (rule filter_split)
    finally show ?thesis using that unfolding vis
      by (simp add: concealed_def shown_def filter_map o_def not_less conj_commute)
  qed
  show "0 \<le> hidden ! c" if "c < cols" using that by (simp add: vis(2) concealed_def)
  have "mset (map unrowed vis) = image_mset (unrowed \<circ> fst) (mset (filter (\<lambda>p. snd p < ml) ps))"
    unfolding vis(1) shown_def mset_map multiset.map_comp by (rule image_mset_cong) (simp add: unrowed_def)
  also have "\<dots> \<subseteq># image_mset (unrowed \<circ> fst) (mset ps)" by (rule image_mset_subseteq_mono) simp
  also have "\<dots> = image_mset unrowed (mset (map fst ps))" by (simp add: multiset.map_comp)
  finally show "mset (map unrowed vis) \<subseteq># mset (map unrowed bs)" unfolding same by simp
  show "unrowed b \<in> unrowed ` set vis \<or> ml \<le> length (filter (bcovers (ba_Col b)) vis)" if "b \<in> set bs"
  proof -
    have "b \<in> set (map fst ps)" using that mset_eq_setD [OF same] by simp
    then obtain l where bl: "(b, l) \<in> set ps" by auto
    show ?thesis
    proof (cases "l < ml")
      case True
      then have "b\<lparr>ba_Row := int l + off\<rparr> \<in> set vis" using bl unfolding vis(1) shown_def by force
      moreover have "unrowed (b\<lparr>ba_Row := int l + off\<rparr>) = unrowed b" by (simp add: unrowed_def)
      ultimately show ?thesis by (metis image_eqI)
    next
      case False
      then have "ml \<le> length (filter (\<lambda>r. snd r < ml \<and> bcovers (ba_Col b) (fst r)) ps)"
        using ps(4) bl unfolding crowded_def by fastforce
      then show ?thesis unfolding vis(1) shown_def by (simp add: filter_map o_def conj_commute)
    qed
  qed
qed

text \<open>The days an item touches, as day numbers.\<close>

definition first_day :: "Item \<Rightarrow> location \<Rightarrow> int" where
  "first_day i loc = (if it_AllDay i then local_days UTC (it_Start i) else local_days loc (it_Start i))"

definition last_day :: "Item \<Rightarrow> location \<Rightarrow> int" where
  "last_day i loc = max (first_day i loc)
     (if it_AllDay i then local_days UTC (it_End i) - 1
      else local_days loc (if it_End i > it_Start i then it_End i - 1 else it_End i))"

lemma day_less [simp]: "a * day < b * day \<longleftrightarrow> a < b" "a * day \<le> b * day \<longleftrightarrow> a \<le> b" "a * day = b * day \<longleftrightarrow> a = b"
  by (simp_all add: duration_defs)

lemma dates_days: "dates i loc = (first_day i loc * day, last_day i loc * day)"
proof -
  have "local_days UTC t * day + - 1 * day = (local_days UTC t - 1) * day" for t by (simp add: left_diff_distrib)
  then show ?thesis
    by (simp add: dates_def Let_def date_of_midnight add_date_UTC first_day_def last_day_def max_def not_le)
qed

lemma first_last: "first_day i loc \<le> last_day i loc"
  by (simp add: last_day_def)

lemma dayIndex_days:
  assumes "0 \<le> y - x" "y - x \<le> 1000"
  shows "dayIndex (x * day) (y * day) = y - x"
proof -
  have d: "time_sub (y * day) (x * day) = (y - x) * day"
    using assms by (simp add: time_sub_def sat64_def min_int64_def max_int64_def duration_defs)
  have "(2 * ((y - x) * day) + day) div (2 * day) = y - x"
    using div_mult_self2 [of "2 * day" day "y - x"] by (simp add: duration_defs)
  moreover have "0 \<le> (y - x) * day" using assms by (simp add: duration_defs)
  ultimately show ?thesis unfolding dayIndex_def Let_def d by simp
qed

text \<open>A bar covers the columns of the days its item touches.\<close>

lemma toBar_spec:
  assumes days: "days = map (\<lambda>k. (a + int k) * day) [0..<n]" and n: "0 < n" "n \<le> 1000"
  shows "(toBar i days loc = None \<longleftrightarrow> last_day i loc < a \<or> a + int n \<le> first_day i loc) \<and>
         (\<forall>b. toBar i days loc = Some b \<longrightarrow>
            ba_Item b = i \<and> 0 \<le> ba_Col b \<and> 0 < ba_Span b \<and> ba_Col b + ba_Span b \<le> int n \<and>
            (\<forall>c<n. bcovers (int c) b \<longleftrightarrow> first_day i loc \<le> a + int c \<and> a + int c \<le> last_day i loc))"
proof -
  define f where "f = first_day i loc"
  define l where "l = last_day i loc"
  have fl: "f \<le> l" by (simp add: f_def l_def first_last)
  have ne: "days \<noteq> []" and hd: "hd days = a * day" using n by (simp_all add: days hd_map)
  have lst: "last days = (a + int n - 1) * day" using n by (simp add: days last_map last_upt)
  have tb: "toBar i days loc = (if l < a \<or> a + int n - 1 < f then None else
      Some \<lparr>ba_Item = i, ba_Col = dayIndex (a * day) (max f a * day),
        ba_Span = dayIndex (a * day) (min l (a + int n - 1) * day) - dayIndex (a * day) (max f a * day) + 1, ba_Row = 0,
        ba_Before = f < a, ba_After = l > a + int n - 1, ba_TimeLabel = []\<rparr>)"
    by (simp add: toBar_def ne hd lst dates_days f_def [symmetric] l_def [symmetric] Let_def max_def min_def not_less)
  have c: "dayIndex (a * day) (max f a * day) = max f a - a" if "f \<le> a + int n - 1"
    using that n by (intro dayIndex_days) auto
  have e: "dayIndex (a * day) (min l (a + int n - 1) * day) = min l (a + int n - 1) - a" if "a \<le> l"
    using that n by (intro dayIndex_days) auto
  show ?thesis unfolding f_def [symmetric] l_def [symmetric]
    using c e fl n by (auto simp: tb bcovers_def max_def min_def)
qed

end
