(* ===== verification/Markdown.thy ===== *)
theory Markdown
  imports Prelude
begin

text \<open>
  The plain-text excerpt of a markdown body (\<open>internal/markdown/markdown.go\<close>, function \<open>Plain\<close>).  Texts are
  byte lists; the two regular expressions of the source are written out as functions.  The HTML rendering is
  the work of two libraries and is not modelled.
\<close>

definition plainScan :: nat where
  "plainScan = 4000"

text \<open>The bytes up to the first one that satisfies a test, and the rest after it.\<close>

fun until :: "char \<Rightarrow> string \<Rightarrow> (string \<times> string) option" where
  "until x [] = None"
| "until x (c # s) = (if c = x then Some ([], s) else map_option (\<lambda>(a, b). (c # a, b)) (until x s))"

text \<open>\<open>!?\[([^\]]*)\]\([^)]*\)\<close> at the start of a text: the text of the link and what follows the match.\<close>

definition match_link :: "string \<Rightarrow> (string \<times> string) option" where
  "match_link s =
     (let s1 = (case s of c # t \<Rightarrow> if c = CHR ''!'' then t else s | [] \<Rightarrow> s) in
      case s1 of
        c # t \<Rightarrow> if c = CHR ''['' then
            (case until CHR '']'' t of
               Some (lbl, d # u) \<Rightarrow> if d = CHR ''('' then map_option (\<lambda>(_, r). (lbl, r)) (until CHR '')'' u) else None
             | _ \<Rightarrow> None) else None
      | [] \<Rightarrow> None)"

lemma until_length: "until x s = Some (a, b) \<Longrightarrow> length a + length b < length s"
  by (induction s arbitrary: a b) (auto split: if_splits)

lemma match_link_length: "match_link s = Some (a, b) \<Longrightarrow> length a + length b < length s"
  by (auto simp: match_link_def Let_def dest!: until_length split: list.splits if_splits option.splits)

function strip_links :: "string \<Rightarrow> string" where
  "strip_links s =
     (case match_link s of
        Some (lbl, r) \<Rightarrow> lbl @ strip_links r
      | None \<Rightarrow> (case s of [] \<Rightarrow> [] | c # t \<Rightarrow> c # strip_links t))"
  by pat_completeness auto
termination
  by (relation "measure length") (auto dest: match_link_length)

declare strip_links.simps [simp del]

definition is_mark :: "char \<Rightarrow> bool" where
  "is_mark c \<longleftrightarrow> c \<in> set ''*_`#>~|''"

text \<open>A run of marks becomes one blank.\<close>

fun blank_marks :: "bool \<Rightarrow> string \<Rightarrow> string" where
  "blank_marks inside [] = []"
| "blank_marks inside (c # s) =
     (if is_mark c then (if inside then blank_marks True s else CHR '' '' # blank_marks True s)
      else c # blank_marks False s)"

fun fields_loop :: "string \<Rightarrow> (bool \<times> string) list \<Rightarrow> string list" where
  "fields_loop cur [] = (if cur = [] then [] else [cur])"
| "fields_loop cur (p # ps) =
     (if snd p \<in> set space_seqs then (if cur = [] then fields_loop [] ps else cur # fields_loop [] ps)
      else fields_loop (cur @ snd p) ps)"

definition Fields :: "string \<Rightarrow> string list" where
  "Fields s = fields_loop [] (utf8_pieces s)"

definition ellipsis :: string where
  "ellipsis = [CHR 0xE2, CHR 0x80, CHR 0xA6]"

definition Plain :: "string \<Rightarrow> int \<Rightarrow> string" where
  "Plain src limit =
     (let s0 = (if length src > plainScan then to_valid_utf8 (take plainScan src) else src);
          s = join (Fields (blank_marks False (strip_links s0))) '' ''
      in if rune_count s \<le> limit then s else trim_space (concat (take (nat limit) (runes s))) @ ellipsis)"

lemma blank_marks_none: "c \<in> set (blank_marks b s) \<Longrightarrow> \<not> is_mark c"
  by (induction b s rule: blank_marks.induct) (auto simp: is_mark_def split: if_splits)

lemma Plain_demo: "Plain ''# Title **Agenda** and [notes](https://x.test)'' 100 = ''Title Agenda and notes''"
  by code_simp

end
