(* ===== verification/View_Pages.thy ===== *)
theory View_Pages
  imports View_Layout Markdown Timeparse
begin

text \<open>
  The pages of the calendar: which items a page shows (\<open>internal/view/convert.go\<close>), and the month, year, agenda
  and time-grid pages built from them (\<open>month.go\<close>, \<open>agenda.go\<close>, \<open>grid.go\<close>, \<open>render.go\<close>).
\<close>

subsection \<open>Items from events and todos\<close>

definition ExcerptRunes :: int where
  "ExcerptRunes = 200"

definition Hex :: "string \<Rightarrow> string" where
  "Hex color = trim_prefix color ''#''"

definition InstanceParam :: "Event \<Rightarrow> go_time \<Rightarrow> string" where
  "InstanceParam e t = (if ev_AllDay e then Domain.format_date (time_date UTC t) else format_rfc3339 t)"

text \<open>The last calendar with an id wins, as in the loop that fills the map.\<close>

definition by_id :: "('a \<Rightarrow> go_id) \<Rightarrow> 'a list \<Rightarrow> go_id \<Rightarrow> 'a option" where
  "by_id key xs i = find (\<lambda>x. key x = i) (rev xs)"

definition item_of_occurrence :: "(go_id \<Rightarrow> string) \<Rightarrow> Calendar list \<Rightarrow> Occurrence \<Rightarrow> Item" where
  "item_of_occurrence id_text cals o1 =
     (let e = oc_Event o1; c = by_id cal_ID cals (ev_CalendarID e);
          color = (if ev_Color e = [] then (case c of None \<Rightarrow> [] | Some x \<Rightarrow> cal_Color x) else ev_Color e)
      in \<lparr>it_ID = id_text (ev_ID e),
          it_Instance = (case oc_Instance o1 of None \<Rightarrow> [] | Some t \<Rightarrow> if IsOverride e then [] else InstanceParam e t),
          it_Title = ev_Title e, it_Location = ev_Location e, it_Excerpt = Plain (ev_Body e) ExcerptRunes, it_Color = Hex color,
          it_CalendarName = (case c of None \<Rightarrow> [] | Some x \<Rightarrow> cal_Name x), it_AllDay = ev_AllDay e,
          it_Tentative = (ev_Status e = ''tentative''), it_Private = (ev_Visibility e = ''private''), it_Todo = False, it_Done = False,
          it_Static = False, it_ReadOnly = ((case c of None \<Rightarrow> False | Some x \<Rightarrow> cal_ReadOnly x) \<or> ev_ReadOnly e),
          it_ChecksDone = 0, it_ChecksTotal = 0, it_Start = ev_Start e, it_End = ev_End e\<rparr>)"

definition FromOccurrences :: "(go_id \<Rightarrow> string) \<Rightarrow> Occurrence list \<Rightarrow> Calendar list \<Rightarrow> Item list" where
  "FromOccurrences id_text occs1 cals = map (item_of_occurrence id_text cals) occs1"

definition item_of_todo :: "(go_id \<Rightarrow> string) \<Rightarrow> zoneinfo \<Rightarrow> TodoList list \<Rightarrow> Todo \<Rightarrow> Item option" where
  "item_of_todo id_text zi lsts t =
     (case Domain.Span zi t of
        None \<Rightarrow> None
      | Some (start, fin, allDay) \<Rightarrow>
          let l = by_id tl_ID lsts (td_ListID t) in
          Some \<lparr>it_ID = id_text (td_ID t), it_Instance = [], it_Title = td_Title t, it_Location = [],
            it_Excerpt = Plain (td_Body t) ExcerptRunes, it_Color = Hex (case l of None \<Rightarrow> [] | Some x \<Rightarrow> tl_Color x),
            it_CalendarName = (case l of None \<Rightarrow> [] | Some x \<Rightarrow> tl_Name x), it_AllDay = allDay, it_Tentative = False, it_Private = False,
            it_Todo = True, it_Done = Done t, it_Static = False, it_ReadOnly = False, it_ChecksDone = int (ChecksDone t),
            it_ChecksTotal = int (length (td_Checks t)), it_Start = start, it_End = fin\<rparr>)"

definition FromTodos :: "(go_id \<Rightarrow> string) \<Rightarrow> zoneinfo \<Rightarrow> Todo list \<Rightarrow> TodoList list \<Rightarrow> Item list" where
  "FromTodos id_text zi todos lsts = List.map_filter (item_of_todo id_text zi lsts) todos"

definition redact_item :: "string \<Rightarrow> Item \<Rightarrow> Item" where
  "redact_item detail i =
     (let i1 = i\<lparr>it_Static := True\<rparr> in
      if detail = ''full'' then i1
      else if detail = ''titles'' then i1\<lparr>it_Location := [], it_Excerpt := []\<rparr>
      else i1\<lparr>it_Title := ''Busy'', it_Location := [], it_Excerpt := [], it_CalendarName := [],
              it_ChecksDone := 0, it_ChecksTotal := 0, it_Tentative := False\<rparr>)"

definition Redact :: "Item list \<Rightarrow> string \<Rightarrow> Item list" where
  "Redact items detail = map (redact_item detail) (filter (\<lambda>i. \<not> it_Private i) items)"

subsection \<open>The month page\<close>

definition monthLanes :: nat where
  "monthLanes = 4"

record MonthDay =
  md_Col :: int
  md_Num :: int
  md_Date :: go_time
  md_Label :: string
  md_Today :: bool
  md_Outside :: bool
  md_Href :: string
  md_NewHref :: string

record MonthWeek =
  mw_Days :: "MonthDay list"
  mw_Bars :: "Bar list"
  mw_More :: "More list"

record MonthView =
  mv_Weekdays :: "string list"
  mv_Weeks :: "MonthWeek list"

definition month_num :: "go_time \<Rightarrow> int" where
  "month_num t = fst (snd (time_date UTC t))"

definition day_num :: "go_time \<Rightarrow> int" where
  "day_num t = snd (snd (time_date UTC t))"

definition month_bar :: "View_Options \<Rightarrow> go_time list \<Rightarrow> Item \<Rightarrow> Bar option" where
  "month_bar o1 week i =
     (case toBar i week (op_loc o1) of None \<Rightarrow> None
      | Some b \<Rightarrow> Some (if \<not> Long i then b\<lparr>ba_TimeLabel := op_clock o1 (it_Start i)\<rparr> else b))"

definition month_day :: "Period \<Rightarrow> View_Options \<Rightarrow> nat \<Rightarrow> go_time \<Rightarrow> MonthDay" where
  "month_day p o1 i d =
     \<lparr>md_Col = int i + 1, md_Num = day_num d, md_Date = d, md_Label = fmt_d_month False d @ '' '' @ fmt_year d,
      md_Today = (d = today o1), md_Outside = (month_num d \<noteq> month_num (pe_Anchor p)), md_Href = op_link o1 Day d,
      md_NewHref = op_newLink o1 d 0 True\<rparr>"

definition month_week :: "Period \<Rightarrow> Item list \<Rightarrow> View_Options \<Rightarrow> go_time list \<Rightarrow> MonthWeek" where
  "month_week p items o1 week =
     (case layoutBars (List.map_filter (month_bar o1 week) items) 7 monthLanes 2 of
        (visible, hidden) \<Rightarrow>
          \<lparr>mw_Days = map2 (month_day p o1) [0..<length week] week, mw_Bars = visible,
           mw_More = moreCells hidden (int monthLanes + 2) week o1\<rparr>)"

text \<open>The days in groups of seven; what does not fill a week is left out.\<close>

definition weeks_of :: "'a list \<Rightarrow> 'a list list" where
  "weeks_of ds = map (\<lambda>w. take 7 (drop (7 * w) ds)) [0..<length ds div 7]"

definition BuildMonth :: "Period \<Rightarrow> Item list \<Rightarrow> View_Options \<Rightarrow> MonthView" where
  "BuildMonth p items o1 =
     \<lparr>mv_Weekdays = map (\<lambda>d. take 3 (weekday_name (time_weekday UTC d))) (take 7 (Days p)),
      mv_Weeks = map (month_week p items o1) (weeks_of (Days p))\<rparr>"

subsection \<open>The days an item touches in a period\<close>

function days_to :: "go_time \<Rightarrow> go_time \<Rightarrow> go_time list" where
  "days_to d lst = (if d \<le> lst then d # days_to (add_date UTC d 0 0 1) lst else [])"
  by pat_completeness auto
termination
proof (relation "measure (\<lambda>(d, lst). nat (lst + 1 - d))")
  fix d lst :: go_time assume "d \<le> lst"
  then show "((add_date UTC d 0 0 1, lst), d, lst) \<in> measure (\<lambda>(d, lst). nat (lst + 1 - d))"
    by (simp add: add_date_UTC duration_defs)
qed simp

declare days_to.simps [simp del]

definition touched :: "Period \<Rightarrow> location \<Rightarrow> Item \<Rightarrow> go_time list" where
  "touched p loc i =
     (let lst = add_date UTC (pe_End p) 0 0 (-1) in
      case dates i loc of (first, fin) \<Rightarrow>
        days_to (if first < pe_Start p then pe_Start p else first) (if fin > lst then lst else fin))"

subsection \<open>The agenda page\<close>

record AgendaItem =
  ai_Item :: Item
  ai_TimeLabel :: string

record AgendaDay =
  ad_Date :: go_time
  ad_Label :: string
  ad_Today :: bool
  ad_Href :: string
  ad_Items :: "AgendaItem list"

text \<open>A map of lists as the association list in the order of first use; the keys are sorted afterwards.\<close>

fun append_at :: "'k \<Rightarrow> 'v \<Rightarrow> ('k \<times> 'v list) list \<Rightarrow> ('k \<times> 'v list) list" where
  "append_at k v [] = [(k, [v])]"
| "append_at k v (e # es) = (if fst e = k then (k, snd e @ [v]) # es else e # append_at k v es)"

definition agenda_item :: "View_Options \<Rightarrow> Item \<Rightarrow> AgendaItem" where
  "agenda_item o1 i = \<lparr>ai_Item = i, ai_TimeLabel = (if it_AllDay i then ''All day'' else TimeRange (it_Start i) (it_End i) o1)\<rparr>"

definition agenda_map :: "Period \<Rightarrow> Item list \<Rightarrow> View_Options \<Rightarrow> (go_time \<times> AgendaItem list) list" where
  "agenda_map p items o1 =
     fold (\<lambda>i by1. fold (\<lambda>d. append_at d (agenda_item o1 i)) (touched p (op_loc o1) i) by1) items []"

definition sort_agenda :: "AgendaItem list \<Rightarrow> AgendaItem list" where
  "sort_agenda xs = sort_key (\<lambda>a. if it_AllDay (ai_Item a) then 0 else 1 :: nat) (sort_key (\<lambda>a. it_Start (ai_Item a)) xs)"

definition agenda_day :: "View_Options \<Rightarrow> go_time \<times> AgendaItem list \<Rightarrow> AgendaDay" where
  "agenda_day o1 e =
     (case e of (d, xs) \<Rightarrow>
        \<lparr>ad_Date = d, ad_Label = take 3 (weekday_name (time_weekday UTC d)) @ '' '' @ fmt_d_month True d,
         ad_Today = (d = today o1), ad_Href = op_link o1 Day d, ad_Items = sort_agenda xs\<rparr>)"

definition BuildAgenda :: "Period \<Rightarrow> Item list \<Rightarrow> View_Options \<Rightarrow> AgendaDay list" where
  "BuildAgenda p items o1 = map (agenda_day o1) (sort_key fst (agenda_map p items o1))"

subsection \<open>The year page\<close>

record MiniDay =
  yd_Num :: int
  yd_Count :: int
  yd_Date :: go_time
  yd_Outside :: bool
  yd_Today :: bool
  yd_Href :: string

record MiniMonth =
  mm_Title :: string
  mm_Href :: string
  mm_Weekdays :: "string list"
  mm_Days :: "MiniDay list"

text \<open>The counts per day.\<close>

definition year_counts :: "Period \<Rightarrow> Item list \<Rightarrow> location \<Rightarrow> go_time \<Rightarrow> int" where
  "year_counts p items loc =
     fold (\<lambda>i counts. fold (\<lambda>d f. f(d := f d + 1)) (touched p loc i) counts) items (\<lambda>_. 0)"

definition mini_day :: "View_Options \<Rightarrow> int \<Rightarrow> (go_time \<Rightarrow> int) \<Rightarrow> go_time \<Rightarrow> MiniDay" where
  "mini_day o1 mo counts d =
     (if month_num d \<noteq> mo
      then \<lparr>yd_Num = 0, yd_Count = 0, yd_Date = d, yd_Outside = True, yd_Today = False, yd_Href = []\<rparr>
      else \<lparr>yd_Num = day_num d, yd_Count = counts d, yd_Date = d, yd_Outside = False, yd_Today = (d = today o1), yd_Href = op_link o1 Day d\<rparr>)"

definition mini_month :: "Period \<Rightarrow> View_Options \<Rightarrow> (go_time \<Rightarrow> int) \<Rightarrow> int \<Rightarrow> MiniMonth" where
  "mini_month p o1 counts mo =
     (let first = go_date UTC (fst (time_date UTC (pe_Start p))) mo 1 0 0 0 0;
          days = Days (NewPeriod Month first (op_WeekStart o1))
      in \<lparr>mm_Title = month_name mo, mm_Href = op_link o1 Month first,
          mm_Weekdays = map (\<lambda>d. take 2 (weekday_name (time_weekday UTC d))) (take 7 days),
          mm_Days = map (mini_day o1 mo counts) days\<rparr>)"

definition BuildYear :: "Period \<Rightarrow> Item list \<Rightarrow> View_Options \<Rightarrow> MiniMonth list" where
  "BuildYear p items o1 = map (mini_month p o1 (year_counts p items (op_loc o1))) [1, 2, 3, 4, 5, 6, 7, 8, 9, 10, 11, 12]"

definition heat_level :: "int \<Rightarrow> int" where
  "heat_level n = (if n = 0 then 0 else if n = 1 then 1 else if n \<le> 3 then 2 else if n \<le> 6 then 3 else 4)"

definition MiniDay_Class :: "MiniDay \<Rightarrow> string" where
  "MiniDay_Class d = ''d-'' @ itoa (heat_level (yd_Count d)) @ (if yd_Today d then '' today'' else [])"

definition MiniDay_Title :: "MiniDay \<Rightarrow> string" where
  "MiniDay_Title d = countLabel (yd_Count d)"

subsection \<open>The time grid\<close>

definition allDayLanes :: nat where
  "allDayLanes = 3"

record Hour =
  hr_Label :: string
  hr_Row :: int

record Slot =
  sl_Row :: int
  sl_Label :: string
  sl_Href :: string

record Column =
  co_Date :: go_time
  co_Weekday :: string
  co_Num :: int
  co_Today :: bool
  co_Weekend :: bool
  co_Href :: string
  co_Slots :: "Slot list"
  co_Blocks :: "Block list"
  co_Sleep :: "Band list"
  co_NowRow :: int

record Grid =
  gr_Columns :: "Column list"
  gr_Bars :: "Bar list"
  gr_More :: "More list"
  gr_Hours :: "Hour list"
  gr_ScrollHour :: int
  gr_Today :: string
  gr_TZ :: string

definition grid_hours :: "View_Options \<Rightarrow> Hour list" where
  "grid_hours o1 = map (\<lambda>h. \<lparr>hr_Label = hourLabel (int h) (op_Clock24 o1), hr_Row = int h * SlotsPerHour + 1\<rparr>) [0..<24]"

definition grid_column :: "Item list \<Rightarrow> View_Options \<Rightarrow> go_time \<Rightarrow> Column" where
  "grid_column items o1 d =
     \<lparr>co_Date = d, co_Weekday = take 3 (weekday_name (time_weekday UTC d)), co_Num = day_num d, co_Today = (d = today o1),
      co_Weekend = (time_weekday UTC d = 6 \<or> time_weekday UTC d = 0), co_Href = op_link o1 Day d,
      co_Slots = map (\<lambda>h. \<lparr>sl_Row = hr_Row h, sl_Label = hr_Label h, sl_Href = op_newLink o1 d ((hr_Row h - 1) * SlotMinutes) False\<rparr>) (grid_hours o1),
      co_Blocks = dayBlocks d items o1, co_Sleep = sleepBands d (op_Sleep o1),
      co_NowRow = (if d = today o1 then go_div (minuteOf (op_loc o1) (op_Now o1)) SlotMinutes + 1 else 0)\<rparr>"

text \<open>The page scrolls to the wake-up hour of today, or of the first day.  The name of the zone is an argument.\<close>

definition BuildGrid :: "string \<Rightarrow> Period \<Rightarrow> Item list \<Rightarrow> View_Options \<Rightarrow> Grid" where
  "BuildGrid tz p items o1 =
     (let days = Days p;
          bars = List.map_filter (\<lambda>i. if Long i then toBar i days (op_loc o1) else None) items;
          focus = fold (\<lambda>d acc. if d = today o1 then d else acc) days (hd days)
      in case layoutBars bars (length days) allDayLanes 1 of
           (visible, hidden) \<Rightarrow>
             \<lparr>gr_Columns = map (grid_column items o1) days, gr_Bars = visible,
              gr_More = moreCells hidden (int allDayLanes + 1) days o1, gr_Hours = grid_hours o1,
              gr_ScrollHour = scrollHour focus (op_Sleep o1), gr_Today = Domain.format_date (time_date UTC (today o1)), gr_TZ = tz\<rparr>)"

datatype Rendered = RGrid Grid | RMonth MonthView | RYear "MiniMonth list" | RAgenda "AgendaDay list"

definition Render :: "string \<Rightarrow> Period \<Rightarrow> Item list \<Rightarrow> View_Options \<Rightarrow> Rendered" where
  "Render tz p items o1 =
     (case pe_Kind p of Month \<Rightarrow> RMonth (BuildMonth p items o1) | Year \<Rightarrow> RYear (BuildYear p items o1)
      | Agenda \<Rightarrow> RAgenda (BuildAgenda p items o1) | _ \<Rightarrow> RGrid (BuildGrid tz p items o1))"

subsection \<open>The days an item touches\<close>

definition on_day :: "location \<Rightarrow> go_time \<Rightarrow> Item \<Rightarrow> bool" where
  "on_day loc d i \<longleftrightarrow> fst (dates i loc) \<le> d \<and> d \<le> snd (dates i loc)"

lemma on_day_midnight: "on_day loc (q * day) i \<longleftrightarrow> first_day i loc \<le> q \<and> q \<le> last_day i loc"
  by (simp add: on_day_def dates_days)

lemma days_to_midnights: "days_to (a * day) (b * day) = map (\<lambda>k. (a + int k) * day) [0..<nat (b + 1 - a)]"
proof (induction "nat (b + 1 - a)" arbitrary: a)
  case 0
  then show ?case by (simp add: days_to.simps)
next
  case (Suc n)
  then have le: "a \<le> b" and n: "n = nat (b + 1 - (a + 1))" by linarith+
  have "days_to (a * day) (b * day) = a * day # days_to ((a + 1) * day) (b * day)"
    using le by (subst days_to.simps) (simp add: add_date_UTC distrib_right)
  also have "\<dots> = a * day # map (\<lambda>k. (a + 1 + int k) * day) [0..<n]" using Suc(1) [OF n] n by simp
  also have "\<dots> = map (\<lambda>k. (a + int k) * day) [0..<Suc n]" by (simp add: map_upt_Suc algebra_simps del: upt_Suc)
  finally show ?case by (simp add: Suc(2))
qed

lemma touched_spec:
  assumes "pe_Start p = a * day" "pe_End p = (a + int n) * day"
  shows "distinct (touched p loc i)"
    and "d \<in> set (touched p loc i) \<longleftrightarrow> (\<exists>q. d = q * day \<and> a \<le> q \<and> q < a + int n \<and> on_day loc d i)"
proof -
  define f where "f = max a (first_day i loc)"
  define l where "l = min (a + int n - 1) (last_day i loc)"
  have "add_date UTC (pe_End p) 0 0 (-1) = (a + int n - 1) * day"
    unfolding assms(2) add_date_UTC by (simp add: left_diff_distrib)
  moreover have "f = (if first_day i loc < a then a else first_day i loc)"
    "l = (if last_day i loc > a + int n - 1 then a + int n - 1 else last_day i loc)"
    by (auto simp: f_def l_def)
  ultimately have "touched p loc i = days_to (f * day) (l * day)"
    by (simp add: touched_def assms(1) dates_days if_distrib [of "\<lambda>x. x * day"] Let_def)
  then have t: "touched p loc i = map (\<lambda>k. (f + int k) * day) [0..<nat (l + 1 - f)]" by (simp add: days_to_midnights)
  then show "distinct (touched p loc i)" by (simp add: distinct_map inj_on_def duration_defs)
  have "d \<in> set (touched p loc i) \<longleftrightarrow> (\<exists>q. d = q * day \<and> f \<le> q \<and> q \<le> l)"
  proof
    assume "d \<in> set (touched p loc i)"
    then obtain k where "k < nat (l + 1 - f)" "d = (f + int k) * day" by (auto simp: t)
    then show "\<exists>q. d = q * day \<and> f \<le> q \<and> q \<le> l" by (intro exI [of _ "f + int k"]) auto
  next
    assume "\<exists>q. d = q * day \<and> f \<le> q \<and> q \<le> l"
    then obtain q where "d = q * day" "f \<le> q" "q \<le> l" by blast
    then show "d \<in> set (touched p loc i)" by (auto simp: t intro!: image_eqI [where x = "nat (q - f)"])
  qed
  then show "d \<in> set (touched p loc i) \<longleftrightarrow> (\<exists>q. d = q * day \<and> a \<le> q \<and> q < a + int n \<and> on_day loc d i)"
    by (auto simp: on_day_midnight f_def l_def)
qed

subsection \<open>The agenda\<close>

lemma timed_items_stable:
  "filter (\<lambda>x. \<not> it_AllDay (ai_Item x)) (sort_agenda xs) = filter (\<lambda>x. \<not> it_AllDay (ai_Item x)) (sort_key (\<lambda>a. it_Start (ai_Item a)) xs)"
proof -
  let ?k = "\<lambda>x. if it_AllDay (ai_Item x) then 0 else 1 :: nat"
  have e: "?k x = 1 \<longleftrightarrow> \<not> it_AllDay (ai_Item x)" for x by simp
  show ?thesis unfolding sort_agenda_def using sort_key_stable [of ?k 1 "sort_key (\<lambda>a. it_Start (ai_Item a)) xs"] unfolding e .
qed

lemma append_at_get:
  "distinct (map fst es) \<Longrightarrow> map_of (append_at k v es) = (map_of es)(k \<mapsto> (case map_of es k of None \<Rightarrow> [v] | Some xs \<Rightarrow> xs @ [v]))"
  by (induction es) (auto simp: fun_eq_iff split: option.splits dest: map_of_SomeD)

lemma append_at_keys: "set (map fst (append_at k v es)) = insert k (set (map fst es))"
  by (induction es) auto

lemma append_at_distinct: "distinct (map fst es) \<Longrightarrow> distinct (map fst (append_at k v es))"
proof (induction es)
  case (Cons e es)
  then show ?case using append_at_keys [of k v es] by auto
qed simp

text \<open>The list kept at a key, empty when there is none.\<close>

definition kept_at :: "('k \<times> 'v list) list \<Rightarrow> 'k \<Rightarrow> 'v list" where
  "kept_at es k = (case map_of es k of None \<Rightarrow> [] | Some xs \<Rightarrow> xs)"

definition full_map :: "('k \<times> 'v list) list \<Rightarrow> bool" where
  "full_map es \<longleftrightarrow> distinct (map fst es) \<and> (\<forall>e\<in>set es. snd e \<noteq> [])"

lemma append_at_kept: "full_map es \<Longrightarrow> kept_at (append_at k v es) d = (if d = k then kept_at es d @ [v] else kept_at es d)"
  by (simp add: full_map_def kept_at_def append_at_get split: option.splits)

lemma append_at_full: "full_map es \<Longrightarrow> full_map (append_at k v es)"
proof -
  have "\<forall>e\<in>set es. snd e \<noteq> [] \<Longrightarrow> \<forall>e\<in>set (append_at k v es). snd e \<noteq> []" by (induction es) auto
  then show "full_map es \<Longrightarrow> full_map (append_at k v es)" by (simp add: full_map_def append_at_distinct)
qed

lemma append_days:
  assumes "full_map es" "distinct ds"
  shows "full_map (fold (\<lambda>d. append_at d v) ds es) \<and>
         kept_at (fold (\<lambda>d. append_at d v) ds es) d = kept_at es d @ (if d \<in> set ds then [v] else [])"
  using assms by (induction ds arbitrary: es) (auto simp: append_at_full append_at_kept)

lemma agenda_map_spec:
  assumes "\<And>i. distinct (touched p (op_loc o1) i)"
  shows "full_map (agenda_map p items o1) \<and>
         kept_at (agenda_map p items o1) d = map (agenda_item o1) (filter (\<lambda>i. d \<in> set (touched p (op_loc o1) i)) items)"
proof -
  have "full_map es \<Longrightarrow>
      full_map (fold (\<lambda>i by1. fold (\<lambda>d. append_at d (agenda_item o1 i)) (touched p (op_loc o1) i) by1) items es) \<and>
      kept_at (fold (\<lambda>i by1. fold (\<lambda>d. append_at d (agenda_item o1 i)) (touched p (op_loc o1) i) by1) items es) d =
        kept_at es d @ map (agenda_item o1) (filter (\<lambda>i. d \<in> set (touched p (op_loc o1) i)) items)" for es
  proof (induction items arbitrary: es)
    case (Cons i items)
    note A = append_days [OF Cons.prems assms, where v = "agenda_item o1 i"]
    show ?case using Cons.IH [OF conjunct1 [OF A]] conjunct2 [OF A, of i] by simp
  qed simp
  from this [of "[]"] show ?thesis by (simp add: agenda_map_def full_map_def kept_at_def)
qed

text \<open>
  The agenda lists the days of the period on which something happens, in order and each once; under a day
  stand exactly the items that touch it, those of the whole day first and the others by their start, and
  no such day is missing.
\<close>

theorem BuildAgenda_exact:
  assumes "0 \<le> ws" and "ws < 7" and "p = NewPeriod k t ws" and "page = BuildAgenda p items o1"
  shows "sorted_wrt (<) (map ad_Date page) \<and>
         (\<forall>a\<in>set page. ad_Date a \<in> set (Days p) \<and> ad_Items a \<noteq> [] \<and>
            mset (map ai_Item (ad_Items a)) = mset (filter (on_day (op_loc o1) (ad_Date a)) items) \<and>
            sorted (map (\<lambda>x. if it_AllDay (ai_Item x) then 0 else 1 :: nat) (ad_Items a)) \<and>
            sorted (map (\<lambda>x. it_Start (ai_Item x)) (filter (\<lambda>x. \<not> it_AllDay (ai_Item x)) (ad_Items a)))) \<and>
         (\<forall>d\<in>set (Days p). (\<exists>i\<in>set items. on_day (op_loc o1) d i) \<longrightarrow> d \<in> set (map ad_Date page))"
proof -
  obtain y m dd where c: "civil_of (local_days UTC t) = (y, m, dd)" by (cases "civil_of (local_days UTC t)")
  obtain a n where sh: "pe_Start p = a * day" "pe_End p = (a + int n) * day" and "a \<le> local_days UTC t" "local_days UTC t < a + int n"
    "day_span k (local_days UTC t) y m ws a n"
    by (rule NewPeriod_shape [OF assms(1,2) refl c, of k, folded assms(3)])
  note T = touched_spec [OF sh]
  let ?es = "agenda_map p items o1"
  have full: "full_map ?es" and kept: "kept_at ?es d = map (agenda_item o1) (filter (\<lambda>i. d \<in> set (touched p (op_loc o1) i)) items)" for d
    using agenda_map_spec [OF T(1)] by blast+
  have days: "d \<in> set (Days p) \<longleftrightarrow> (\<exists>q. d = q * day \<and> a \<le> q \<and> q < a + int n)" for d
  proof -
    have "d \<in> set (Days p) \<Longrightarrow> \<exists>q. d = q * day" unfolding Period_Contains_midnight(2) [OF sh] by auto
    then show ?thesis using Period_Contains_midnight(3) [OF sh] by blast
  qed
  have touch: "d \<in> set (touched p (op_loc o1) i) \<longleftrightarrow> d \<in> set (Days p) \<and> on_day (op_loc o1) d i" for d i
    unfolding days T(2) by blast
  have entry: "xs = map (agenda_item o1) (filter (\<lambda>i. d \<in> set (touched p (op_loc o1) i)) items) \<and> xs \<noteq> []" if "(d, xs) \<in> set ?es" for d xs
  proof -
    have "map_of ?es d = Some xs" using full that by (simp add: full_map_def)
    then have "kept_at ?es d = xs" by (simp add: kept_at_def)
    then show ?thesis using kept [of d] full that by (force simp: full_map_def)
  qed
  have dates: "map ad_Date page = sort (map fst ?es)"
  proof -
    have "map ad_Date page = map fst (sort_key fst ?es)" by (simp add: assms(4) BuildAgenda_def agenda_day_def case_prod_unfold)
    moreover have "map fst (sort_key fst ?es) = sort (map fst ?es)" by (rule properties_for_sort [symmetric]) simp_all
    ultimately show ?thesis by simp
  qed
  then have 1: "sorted_wrt (<) (map ad_Date page)" using full by (simp add: full_map_def strict_sorted_iff)
  have 2: "ad_Date x \<in> set (Days p) \<and> ad_Items x \<noteq> [] \<and>
            mset (map ai_Item (ad_Items x)) = mset (filter (on_day (op_loc o1) (ad_Date x)) items) \<and>
            sorted (map (\<lambda>x. if it_AllDay (ai_Item x) then 0 else 1 :: nat) (ad_Items x)) \<and>
            sorted (map (\<lambda>x. it_Start (ai_Item x)) (filter (\<lambda>x. \<not> it_AllDay (ai_Item x)) (ad_Items x)))" if "x \<in> set page" for x
  proof -
    have "x \<in> agenda_day o1 ` set ?es" using that by (simp add: assms(4) BuildAgenda_def)
    then obtain d xs where e: "(d, xs) \<in> set ?es" "x = agenda_day o1 (d, xs)" by force
    have x: "ad_Date x = d" "ad_Items x = sort_agenda xs" by (simp_all add: e(2) agenda_day_def)
    have xs: "xs = map (agenda_item o1) (filter (\<lambda>i. d \<in> set (touched p (op_loc o1) i)) items)" "xs \<noteq> []" using entry [OF e(1)] by blast+
    then have "d \<in> set (Days p)" using touch by (auto simp: filter_empty_conv)
    moreover from this have items: "map ai_Item xs = filter (on_day (op_loc o1) d) items"
      unfolding xs(1) by (simp add: o_def agenda_item_def touch)
    have "mset (map ai_Item (sort_agenda xs)) = mset (map ai_Item xs)" by (simp add: sort_agenda_def)
    then have "mset (map ai_Item (sort_agenda xs)) = mset (filter (on_day (op_loc o1) d) items)" unfolding items .
    moreover have "length (sort_agenda xs) = length xs" by (simp add: sort_agenda_def)
    then have "sort_agenda xs \<noteq> []" using xs(2) by fastforce
    moreover have "filter (\<lambda>x. \<not> it_AllDay (ai_Item x)) (sort_agenda xs) = filter (\<lambda>x. \<not> it_AllDay (ai_Item x)) (sort_key (\<lambda>a. it_Start (ai_Item a)) xs)"
      by (rule timed_items_stable)
    then have "sorted (map (\<lambda>x. it_Start (ai_Item x)) (filter (\<lambda>x. \<not> it_AllDay (ai_Item x)) (sort_agenda xs)))"
      by (simp add: sorted_filter)
    moreover have "sorted (map (\<lambda>x. if it_AllDay (ai_Item x) then 0 else 1 :: nat) (sort_agenda xs))" by (simp add: sort_agenda_def)
    ultimately show ?thesis unfolding x by blast
  qed
  have 3: "d \<in> set (map ad_Date page)" if "d \<in> set (Days p)" "i \<in> set items" "on_day (op_loc o1) d i" for d i
  proof -
    have "kept_at ?es d \<noteq> []" using that by (auto simp: kept filter_empty_conv touch)
    then have "d \<in> set (map fst ?es)" by (auto simp: kept_at_def split: option.splits dest!: map_of_SomeD) (metis fst_conv image_eqI)
    then show ?thesis unfolding dates by simp
  qed
  show ?thesis using 1 2 3 by blast
qed

lemma year_counts_spec:
  assumes "\<And>i. distinct (touched p loc i)"
  shows "year_counts p items loc d = int (length (filter (\<lambda>i. d \<in> set (touched p loc i)) items))"
proof -
  have one: "fold (\<lambda>d f. f(d := f d + 1)) ds f x = f x + (if x \<in> set ds then 1 else (0::int))" if "distinct ds" for ds f x
    using that by (induction ds arbitrary: f) auto
  have "fold (\<lambda>i counts. fold (\<lambda>d f. f(d := f d + 1)) (touched p loc i) counts) items f d
      = f d + int (length (filter (\<lambda>i. d \<in> set (touched p loc i)) items))" for f
    by (induction items arbitrary: f) (simp_all add: one [OF assms])
  then show ?thesis by (simp add: year_counts_def)
qed

subsection \<open>The month page\<close>

lemma weeks_concat: "7 dvd length ds \<Longrightarrow> concat (weeks_of ds) = ds"
proof -
  have "concat (map (\<lambda>w. take 7 (drop (7 * w) ds)) [0..<m]) = take (7 * m) ds" for m
  proof (induction m)
    case (Suc m)
    have "7 * Suc m = 7 * m + 7" by simp
    then show ?case using Suc by (simp only: take_add) simp
  qed simp
  then show "7 dvd length ds \<Longrightarrow> concat (weeks_of ds) = ds" by (simp add: weeks_of_def)
qed

lemma weeks_days:
  assumes "week \<in> set (weeks_of (map (\<lambda>k. (a + int k) * day) [0..<n]))"
  shows "\<exists>b. week = map (\<lambda>k. (b + int k) * day) [0..<7]"
proof -
  obtain w where w: "w < n div 7" "week = take 7 (drop (7 * w) (map (\<lambda>k. (a + int k) * day) [0..<n]))"
    using assms by (auto simp: weeks_of_def)
  then have "7 * w + 7 \<le> n" by linarith
  then have "week = map (\<lambda>k. (a + int k) * day) [7 * w..<7 * w + 7]"
    unfolding w(2) drop_map take_map drop_upt by (simp only: take_upt add_0)
  also have "[7 * w..<7 * w + 7] = map (\<lambda>k. k + 7 * w) [0..<7]" by (simp add: map_add_upt add.commute)
  finally have "week = map (\<lambda>k. (a + int (7 * w) + int k) * day) [0..<7]" by (simp add: algebra_simps del: upt_rec_numeral)
  then show ?thesis by blast
qed

lemma filter_one: "filter (\<lambda>k. k = c \<and> P k) [0..<n] = (if c < n \<and> P c then [c] else [])"
  by (induction n) auto

definition more_at :: "nat \<Rightarrow> More list \<Rightarrow> int" where
  "more_at c ms = sum_list (map mo_Count (filter (\<lambda>m. mo_Col m = int c) ms))"

lemma moreCells_count:
  assumes "c < length hidden" "0 \<le> hidden ! c"
  shows "more_at c (moreCells hidden row days o1) = hidden ! c"
proof -
  have "filter (\<lambda>m. mo_Col m = int c) (moreCells hidden row days o1) =
      map (\<lambda>c. \<lparr>mo_Col = int c, mo_Row = row, mo_Count = hidden ! c, mo_Href = op_link o1 Day (days ! c)\<rparr>)
        (filter (\<lambda>k. k = c \<and> hidden ! k > 0) [0..<length hidden])"
    by (simp add: moreCells_def filter_map o_def conj_commute)
  then show ?thesis using assms by (simp add: more_at_def filter_one)
qed

lemma bars_of_items:
  assumes "\<And>i. P i \<longleftrightarrow> f i \<noteq> None \<and> (\<exists>b. f i = Some b \<and> Q b)"
  shows "length (filter Q (List.map_filter f items)) = length (filter P items)"
  using assms by (induction items) (auto simp: List.map_filter_simps split: option.splits)

text \<open>A row of seven days: what is shown and what is counted as more is, on every day, what touches it.\<close>

lemma month_week_spec:
  assumes week: "week = map (\<lambda>k. (b + int k) * day) [0..<7]" and mw: "mw = month_week p items o1 week"
  shows "map md_Date (mw_Days mw) = week" and "sorted_wrt row_disjoint (mw_Bars mw)"
    and "\<forall>x\<in>set (mw_Bars mw). 2 \<le> ba_Row x \<and> ba_Row x < 2 + int monthLanes"
    and "c < 7 \<Longrightarrow> int (length (filter (bcovers (int c)) (mw_Bars mw))) + more_at c (mw_More mw) =
           int (length (filter (on_day (op_loc o1) (week ! c)) items))"
proof -
  let ?bars = "List.map_filter (month_bar o1 week) items"
  obtain vis hidden where lb: "layoutBars ?bars 7 monthLanes 2 = (vis, hidden)" by (cases "layoutBars ?bars 7 monthLanes 2")
  have mw_eq: "mw_Bars mw = vis" "mw_More mw = moreCells hidden (int monthLanes + 2) week o1"
    "mw_Days mw = map2 (month_day p o1) [0..<length week] week"
    by (simp_all add: mw month_week_def lb)
  note B = toBar_spec [OF week, of _ "op_loc o1", simplified]
  have bar: "month_bar o1 week i = Some x \<Longrightarrow> 0 < ba_Span x \<and>
      (\<forall>c<7. bcovers (int c) x \<longleftrightarrow> first_day i (op_loc o1) \<le> b + int c \<and> b + int c \<le> last_day i (op_loc o1))" for i x
    using B [of i] by (auto simp: month_bar_def bcovers_def split: option.splits if_splits)
  have span: "\<forall>x\<in>set ?bars. 0 < ba_Span x" using bar by (auto simp: List.map_filter_def)
  note L = layoutBars_sound [OF span lb]
  show "map md_Date (mw_Days mw) = week"
  proof -
    have "map md_Date (mw_Days mw) = map snd (zip [0..<length week] week)"
      unfolding mw_eq(3) map_map by (rule map_cong) (auto simp: month_day_def)
    then show ?thesis by simp
  qed
  show "sorted_wrt row_disjoint (mw_Bars mw)" unfolding mw_eq by (rule L(1))
  show "\<forall>x\<in>set (mw_Bars mw). 2 \<le> ba_Row x \<and> ba_Row x < 2 + int monthLanes" unfolding mw_eq by (rule L(2))
  show "int (length (filter (bcovers (int c)) (mw_Bars mw))) + more_at c (mw_More mw) =
           int (length (filter (on_day (op_loc o1) (week ! c)) items))" if c: "c < 7"
  proof -
    have "more_at c (mw_More mw) = hidden ! c"
      unfolding mw_eq using c L(3) L(5) [OF c] by (intro moreCells_count) simp_all
    moreover have "on_day (op_loc o1) (week ! c) i \<longleftrightarrow>
        month_bar o1 week i \<noteq> None \<and> (\<exists>x. month_bar o1 week i = Some x \<and> bcovers (int c) x)" for i
    proof -
      have "week ! c = (b + int c) * day" using c unfolding week by simp
      then have on: "on_day (op_loc o1) (week ! c) i \<longleftrightarrow> first_day i (op_loc o1) \<le> b + int c \<and> b + int c \<le> last_day i (op_loc o1)"
        by (simp only: on_day_midnight)
      have "month_bar o1 week i = None \<longleftrightarrow> toBar i week (op_loc o1) = None"
        by (simp add: month_bar_def split: option.splits)
      then have none: "month_bar o1 week i = None \<Longrightarrow> last_day i (op_loc o1) < b \<or> b + 7 \<le> first_day i (op_loc o1)"
        using B [of i] by simp
      show ?thesis
      proof (cases "month_bar o1 week i")
        case None
        then show ?thesis using none on c by auto
      next
        case (Some x)
        then show ?thesis using bar [OF Some] on c by auto
      qed
    qed
    then have "length (filter (bcovers (int c)) ?bars) = length (filter (on_day (op_loc o1) (week ! c)) items)"
      by (rule bars_of_items)
    ultimately show ?thesis using L(4) [OF c] unfolding mw_eq(1) by simp
  qed
qed


lemma demo_on_day: "on_day (op_loc demo_options) demo_day (demo_item 600 660)"
  by code_simp

lemma demo_in_agenda: "demo_day \<in> set (Days (NewPeriod Agenda demo_day 1))"
  by code_simp

lemma BuildAgenda_exact_witness:
  "demo_day \<in> set (map ad_Date (BuildAgenda (NewPeriod Agenda demo_day 1) [demo_item 600 660] demo_options)) \<and>
   sorted_wrt (<) (map ad_Date (BuildAgenda (NewPeriod Agenda demo_day 1) [demo_item 600 660] demo_options))"
proof -
  have "(0::int) \<le> 1" "(1::int) < 7" by simp_all
  note B = BuildAgenda_exact [OF this refl refl, of Agenda demo_day "[demo_item 600 660]" demo_options]
  have "\<exists>i\<in>set [demo_item 600 660]. on_day (op_loc demo_options) demo_day i" using demo_on_day by simp
  then show ?thesis using B demo_in_agenda by blast
qed


end
