(* ===== verification/Todo_Store.thy ===== *)
theory Todo_Store
  imports Event_Store Position
begin

text \<open>
  The tables behind todos, \<open>internal/store/pg/todos.go\<close> and \<open>todo_lists.go\<close>: one function per statement, with
  the checks, unique indexes, foreign keys and the depth trigger of \<open>migrations/000009_todos.up.sql\<close>.  The
  rws of \<open>todo_reminders\<close> are kept in the todo's own list; checklist items are a table of their own.  The
  change log and the outgoing queue are those of the events.
\<close>

subsection \<open>Tables\<close>

record todo_db =
  tb_cal :: cal_db
  tb_lists :: "TodoList list"
  tb_rows :: "Todo list"
  tb_checks :: "Check list"

datatype TodoOrder = OrderByID | OrderByPosition | OrderByDue | OrderByCompleted

record TodoFilter =
  tf_Lists :: "go_id list"
  tf_Parent :: "go_id option"
  tf_TopLevel :: bool
  tf_Status :: string
  tf_Scheduled :: bool
  tf_OnCalendar :: bool
  tf_DueFrom :: "go_time option"
  tf_DueTo :: "go_time option"
  tf_After :: "go_id option"
  tf_Order :: TodoOrder
  tf_Limit :: int

definition TodoFilter0 :: TodoFilter where
  "TodoFilter0 = \<lparr>tf_Lists = [], tf_Parent = None, tf_TopLevel = False, tf_Status = [], tf_Scheduled = False,
     tf_OnCalendar = False, tf_DueFrom = None, tf_DueTo = None, tf_After = None, tf_Order = OrderByID, tf_Limit = 0\<rparr>"

definition tb_now :: "todo_db \<Rightarrow> go_time" where
  "tb_now db = cd_now (tb_cal db)"

text \<open>A todo as its row gives it back: \<open>dueArgs\<close>, then \<open>setDue\<close> and the reminders of their table.\<close>

definition stored_todo :: "Todo \<Rightarrow> Todo" where
  "stored_todo t =
     t\<lparr>td_Priority := wrap16 (td_Priority t), td_DueDate := map_option db_date (td_DueDate t),
       td_Duration := (if td_Duration t > 0 then wrap32 (td_Duration t) else 0),
       td_CompletedAt := map_option db_time (td_CompletedAt t),
       td_Reminders := compact (=) (sort (td_Reminders t)), td_Checks := []\<rparr>"

definition live :: "Todo \<Rightarrow> bool" where
  "live t \<longleftrightarrow> td_DeletedAt t = None"

definition visible :: "go_id \<Rightarrow> Todo \<Rightarrow> bool" where
  "visible owner t \<longleftrightarrow> td_OwnerID t = owner \<and> live t"

subsection \<open>Constraints\<close>

definition todo_check :: "Todo \<Rightarrow> bool" where
  "todo_check t \<longleftrightarrow>
     td_ParentID t \<noteq> Some (td_ID t) \<and>
     (td_UID t = [] \<or> rune_count (td_UID t) \<le> 1000) \<and>
     rune_count (td_Title t) \<le> 1000 \<and> rune_count (td_Body t) \<le> 100000 \<and>
     td_Status t \<in> {''needs_action'', ''completed''} \<and>
     ((td_Status t = ''completed'') = (td_CompletedAt t \<noteq> None)) \<and>
     0 \<le> td_Priority t \<and> td_Priority t \<le> 3 \<and>
     1 \<le> rune_count (td_Position t) \<and> rune_count (td_Position t) \<le> 128 \<and>
     (td_DueTime t = None \<or> td_DueDate t \<noteq> None) \<and> (td_DueTime t = None \<or> td_TZ t \<noteq> []) \<and>
     (td_Duration t = 0 \<or> td_DueTime t \<noteq> None \<and> 1 \<le> td_Duration t \<and> td_Duration t \<le> 1440) \<and>
     (td_RRule t = [] \<or> td_DueDate t \<noteq> None \<and> rune_count (td_RRule t) \<le> 1000) \<and>
     list_all (\<lambda>m. 0 \<le> m \<and> m \<le> MaxReminderMinutes) (td_Reminders t)"

text \<open>The primary key, and the UIDs of a list among the live todos at its top level.\<close>

definition uid_rows :: "Todo list \<Rightarrow> (go_id \<times> string) list" where
  "uid_rows rws = map (\<lambda>t. (td_ListID t, td_UID t)) (filter (\<lambda>t. live t \<and> td_ParentID t = None \<and> td_UID t \<noteq> []) rws)"

definition todo_keys :: "Todo list \<Rightarrow> bool" where
  "todo_keys rws \<longleftrightarrow> distinct (map td_ID rws) \<and> distinct (uid_rows rws)"

definition todo_refs :: "TodoList list \<Rightarrow> Todo list \<Rightarrow> bool" where
  "todo_refs lsts rws \<longleftrightarrow> list_all (\<lambda>t.
     list_ex (\<lambda>l. tl_ID l = td_ListID t \<and> tl_OwnerID l = td_OwnerID t) lsts \<and>
     (case td_ParentID t of None \<Rightarrow> True
      | Some p \<Rightarrow> list_ex (\<lambda>x. td_ID x = p \<and> td_ListID x = td_ListID t) rws)) rws"

definition commit_todos :: "todo_db \<Rightarrow> Todo list \<Rightarrow> go_error + todo_db" where
  "commit_todos db rws =
     (if \<not> list_all todo_check rws then Inl (Wrap ErrInvalid ''check violation'')
      else if \<not> todo_keys rws then Inl (Wrap ErrConflict ''unique violation'')
      else if \<not> todo_refs (tb_lists db) rws then Inl (Wrap ErrNotFound ''foreign key violation'')
      else Inr (db\<lparr>tb_rows := rws\<rparr>))"

text \<open>The trigger \<open>todos_check_depth\<close> before an insert or an update of a row.\<close>

definition depth_ok :: "Todo list \<Rightarrow> Todo \<Rightarrow> bool" where
  "depth_ok rws t \<longleftrightarrow>
     (case td_ParentID t of None \<Rightarrow> True
      | Some p \<Rightarrow> \<not> live t \<or>
          \<not> list_ex (\<lambda>x. td_ID x = p \<and> td_ParentID x \<noteq> None) rws \<and>
          \<not> list_ex (\<lambda>x. td_ParentID x = Some (td_ID t) \<and> live x) rws)"

definition depth_error :: go_error where
  "depth_error = Wrap ErrInvalid ''check violation''"

definition check_check :: "Check \<Rightarrow> bool" where
  "check_check c \<longleftrightarrow> 1 \<le> rune_count (ck_Text c) \<and> rune_count (ck_Text c) \<le> 500 \<and>
     (ck_Done c = (ck_DoneAt c \<noteq> None)) \<and> 1 \<le> rune_count (ck_Position c) \<and> rune_count (ck_Position c) \<le> 128"

definition commit_checks :: "todo_db \<Rightarrow> Check list \<Rightarrow> go_error + todo_db" where
  "commit_checks db cs =
     (if \<not> list_all check_check cs then Inl (Wrap ErrInvalid ''check violation'')
      else if \<not> distinct (map ck_ID cs) then Inl (Wrap ErrConflict ''unique violation'')
      else if \<not> list_all (\<lambda>c. list_ex (\<lambda>t. td_ID t = ck_TodoID c) (tb_rows db)) cs then Inl (Wrap ErrNotFound ''foreign key violation'')
      else Inr (db\<lparr>tb_checks := cs\<rparr>))"

subsection \<open>Changes\<close>

definition todoRange :: "zoneinfo \<Rightarrow> Todo \<Rightarrow> (go_time \<times> go_time) option" where
  "todoRange zi t =
     (case Domain.Span zi t of None \<Rightarrow> None
      | Some (start, fin, allDay) \<Rightarrow>
          Some (if allDay then (start - 14 * hour, fin + 14 * hour) else (start, fin)))"

definition mergeRange :: "(go_time \<times> go_time) option \<Rightarrow> (go_time \<times> go_time) option \<Rightarrow> (go_time \<times> go_time) option" where
  "mergeRange a b =
     (case (a, b) of (None, _) \<Rightarrow> b | (_, None) \<Rightarrow> a
      | (Some (af, at), Some (bf, bt)) \<Rightarrow> Some (if bf < af then bf else af, if bt > at then bt else at))"

definition todo_change :: "tx_ctx \<Rightarrow> cal_db \<Rightarrow> Todo \<Rightarrow> string \<Rightarrow> (go_time \<times> go_time) option \<Rightarrow> cal_db" where
  "todo_change t db x op rng =
     (let db1 = recordChange t db (Change0\<lparr>ch_OwnerID := tx_owner t, ch_Entity := ''todo'', ch_EntityID := td_ID x, ch_Op := op,
                  ch_ListID := Some (td_ListID x), ch_From := map_option (\<lambda>r. db_time (fst r)) rng,
                  ch_To := map_option (\<lambda>r. db_time (snd r)) rng\<rparr>)
      in queueSync t db1 ''todo'' (td_ID x) op None (Some (td_ListID x)))"

definition with_change :: "tx_ctx \<Rightarrow> todo_db \<Rightarrow> Todo \<Rightarrow> string \<Rightarrow> (go_time \<times> go_time) option \<Rightarrow> todo_db" where
  "with_change t db x op rng = db\<lparr>tb_cal := todo_change t (tb_cal db) x op rng\<rparr>"

subsection \<open>Reading\<close>

definition load_extras :: "todo_db \<Rightarrow> Todo \<Rightarrow> Todo" where
  "load_extras db t =
     t\<lparr>td_Checks := sort_key ck_Position (sort_key ck_ID (filter (\<lambda>c. ck_TodoID c = td_ID t) (tb_checks db)))\<rparr>"

definition Todo_get :: "todo_db \<Rightarrow> go_id \<Rightarrow> go_id \<Rightarrow> go_error + Todo" where
  "Todo_get db owner i =
     (case find (\<lambda>t. td_ID t = i \<and> visible owner t) (tb_rows db) of
        None \<Rightarrow> Inl (Wrap ErrNotFound []) | Some t \<Rightarrow> Inr (load_extras db t))"

definition todo_matches :: "go_id \<Rightarrow> TodoFilter \<Rightarrow> Todo \<Rightarrow> bool" where
  "todo_matches owner f t \<longleftrightarrow> visible owner t \<and>
     (tf_Lists f = [] \<or> td_ListID t \<in> set (tf_Lists f)) \<and>
     (case tf_Parent f of Some p \<Rightarrow> td_ParentID t = Some p | None \<Rightarrow> tf_TopLevel f \<longrightarrow> td_ParentID t = None) \<and>
     (tf_Status f = [] \<or> td_Status t = tf_Status f) \<and>
     (tf_Scheduled f \<longrightarrow> td_DueDate t \<noteq> None) \<and> (tf_OnCalendar f \<longrightarrow> td_ShowOnCalendar t) \<and>
     (case tf_DueFrom f of None \<Rightarrow> True | Some d \<Rightarrow> (case td_DueDate t of None \<Rightarrow> False | Some x \<Rightarrow> db_date d \<le> x)) \<and>
     (case tf_DueTo f of None \<Rightarrow> True | Some d \<Rightarrow> (case td_DueDate t of None \<Rightarrow> False | Some x \<Rightarrow> x < db_date d)) \<and>
     (case tf_After f of None \<Rightarrow> True | Some i \<Rightarrow> i < td_ID t)"


definition sort_opt :: "bool \<Rightarrow> ('b \<Rightarrow> ('a::{linorder, zero}) option) \<Rightarrow> 'b list \<Rightarrow> 'b list" where
  "sort_opt first f xs =
     sort_key (\<lambda>x. if (f x = None) = first then 0 else 1 :: nat) (sort_key (\<lambda>x. case f x of None \<Rightarrow> 0 | Some v \<Rightarrow> v) xs)"

definition order_todos :: "TodoOrder \<Rightarrow> Todo list \<Rightarrow> Todo list" where
  "order_todos o1 ts =
     (let byid = sort_key td_ID ts in
      case o1 of
        OrderByID \<Rightarrow> byid
      | OrderByPosition \<Rightarrow> sort_key td_ListID (sort_opt True td_ParentID (sort_key td_Position byid))
      | OrderByDue \<Rightarrow> sort_opt False td_DueDate (sort_opt True td_DueTime (sort_key td_Position byid))
      | OrderByCompleted \<Rightarrow> sort_opt True (\<lambda>t. map_option uminus (td_CompletedAt t)) byid)"

definition Todos :: "todo_db \<Rightarrow> go_id \<Rightarrow> TodoFilter \<Rightarrow> Todo list" where
  "Todos db owner f =
     (let ts = order_todos (tf_Order f) (filter (todo_matches owner f) (tb_rows db))
      in map (load_extras db) (if tf_Limit f > 0 then take (nat (tf_Limit f)) ts else ts))"

definition HasChildren :: "todo_db \<Rightarrow> go_id \<Rightarrow> bool" where
  "HasChildren db i = list_ex (\<lambda>t. td_ParentID t = Some i \<and> live t) (tb_rows db)"

definition siblings :: "todo_db \<Rightarrow> go_id \<Rightarrow> go_id \<Rightarrow> go_id option \<Rightarrow> go_id \<Rightarrow> Todo list" where
  "siblings db owner lst parent exclude =
     filter (\<lambda>t. visible owner t \<and> td_ListID t = lst \<and> td_ParentID t = parent \<and> td_ID t \<noteq> exclude) (tb_rows db)"

text \<open>\<open>coalesce(max(position), '')\<close> and \<open>coalesce(min(position), '')\<close>.\<close>

definition LastPosition :: "todo_db \<Rightarrow> go_id \<Rightarrow> go_id \<Rightarrow> go_id option \<Rightarrow> go_id \<Rightarrow> string" where
  "LastPosition db owner lst parent exclude =
     (case map td_Position (siblings db owner lst parent exclude) of [] \<Rightarrow> [] | p # ps \<Rightarrow> fold max ps p)"

definition NextPosition :: "todo_db \<Rightarrow> go_id \<Rightarrow> go_id \<Rightarrow> go_id option \<Rightarrow> string \<Rightarrow> go_id \<Rightarrow> string" where
  "NextPosition db owner lst parent after exclude =
     (case filter (\<lambda>p. after < p) (map td_Position (siblings db owner lst parent exclude)) of
        [] \<Rightarrow> [] | p # ps \<Rightarrow> fold min ps p)"

subsection \<open>Writing\<close>

definition InsertCheck :: "todo_db \<Rightarrow> Check \<Rightarrow> go_error + Check \<times> todo_db" where
  "InsertCheck db c =
     (let row = c\<lparr>ck_DoneAt := map_option db_time (ck_DoneAt c), ck_CreatedAt := tb_now db\<rparr>
      in case commit_checks db (tb_checks db @ [row]) of Inl x \<Rightarrow> Inl x | Inr db1 \<Rightarrow> Inr (row, db1))"

definition Todo_UpdateCheck :: "todo_db \<Rightarrow> Check \<Rightarrow> go_error + Check \<times> todo_db" where
  "Todo_UpdateCheck db c =
     (case find (\<lambda>r. ck_ID r = ck_ID c \<and> ck_TodoID r = ck_TodoID c) (tb_checks db) of
        None \<Rightarrow> Inl (Wrap ErrNotFound [])
      | Some old \<Rightarrow>
          let row = old\<lparr>ck_Text := ck_Text c, ck_Done := ck_Done c, ck_Position := ck_Position c, ck_DoneAt := map_option db_time (ck_DoneAt c)\<rparr>
          in case commit_checks db (map (\<lambda>r. if ck_ID r = ck_ID c \<and> ck_TodoID r = ck_TodoID c then row else r) (tb_checks db)) of
               Inl x \<Rightarrow> Inl x | Inr db1 \<Rightarrow> Inr (row, db1))"

definition Todo_DeleteCheck :: "todo_db \<Rightarrow> go_id \<Rightarrow> go_id \<Rightarrow> go_error + todo_db" where
  "Todo_DeleteCheck db todo i =
     (if \<not> list_ex (\<lambda>c. ck_ID c = i \<and> ck_TodoID c = todo) (tb_checks db) then Inl (Wrap ErrNotFound [])
      else Inr (db\<lparr>tb_checks := filter (\<lambda>c. \<not> (ck_ID c = i \<and> ck_TodoID c = todo)) (tb_checks db)\<rparr>))"

fun insert_checks :: "todo_db \<Rightarrow> go_id \<Rightarrow> Check list \<Rightarrow> go_error + Check list \<times> todo_db" where
  "insert_checks db i [] = Inr ([], db)"
| "insert_checks db i (c # cs) =
     (case InsertCheck db (c\<lparr>ck_TodoID := i\<rparr>) of
        Inl x \<Rightarrow> Inl x
      | Inr (saved, db1) \<Rightarrow> (case insert_checks db1 i cs of Inl x \<Rightarrow> Inl x | Inr (rest, db2) \<Rightarrow> Inr (saved # rest, db2)))"

definition new_row :: "tx_ctx \<Rightarrow> todo_db \<Rightarrow> Todo \<Rightarrow> Todo" where
  "new_row t db x = (stored_todo x)\<lparr>td_OwnerID := tx_owner t, td_Version := 1, td_CreatedAt := tb_now db,
     td_UpdatedAt := tb_now db, td_DeletedAt := None\<rparr>"

definition Todo_Insert :: "tx_ctx \<Rightarrow> todo_db \<Rightarrow> Todo \<Rightarrow> go_error + Todo \<times> todo_db" where
  "Todo_Insert t db x =
     (let row = new_row t db x in
      if \<not> depth_ok (tb_rows db) row then Inl depth_error
      else case commit_todos db (tb_rows db @ [row]) of
        Inl e \<Rightarrow> Inl e
      | Inr db1 \<Rightarrow>
          (case insert_checks db1 (td_ID row) (td_Checks x) of
             Inl e \<Rightarrow> Inl e
           | Inr (cs, db2) \<Rightarrow>
               let out = row\<lparr>td_Checks := cs\<rparr>
               in Inr (out, with_change t db2 out ''create'' (todoRange (en_zones (tx_env t)) out))))"

text \<open>The new row of an update: the identity, the UID and the creation time stay.\<close>

definition updated_todo :: "todo_db \<Rightarrow> Todo \<Rightarrow> Todo \<Rightarrow> Todo" where
  "updated_todo db x old =
     (stored_todo x)\<lparr>td_ID := td_ID old, td_OwnerID := td_OwnerID old, td_UID := td_UID old, td_Version := td_Version old + 1,
       td_CreatedAt := td_CreatedAt old, td_UpdatedAt := tb_now db, td_DeletedAt := td_DeletedAt old\<rparr>"

text \<open>The subtasks follow their parent to another list (\<open>ON UPDATE CASCADE\<close>).\<close>

definition follow :: "Todo \<Rightarrow> go_id \<Rightarrow> Todo \<Rightarrow> Todo" where
  "follow old lst r = (if td_ParentID r = Some (td_ID old) \<and> td_ListID r = td_ListID old then r\<lparr>td_ListID := lst\<rparr> else r)"

definition is_row :: "go_id \<Rightarrow> go_id \<Rightarrow> Todo \<Rightarrow> bool" where
  "is_row owner i r \<longleftrightarrow> td_ID r = i \<and> visible owner r"

definition Todo_Update :: "tx_ctx \<Rightarrow> todo_db \<Rightarrow> Todo \<Rightarrow> go_error + Todo \<times> todo_db" where
  "Todo_Update t db x =
     (case find (is_row (tx_owner t) (td_ID x)) (tb_rows db) of
        None \<Rightarrow> Inl (Wrap ErrNotFound [])
      | Some old \<Rightarrow>
          let row = updated_todo db x old;
              rws = map (\<lambda>r. if is_row (tx_owner t) (td_ID x) r then row else follow old (td_ListID row) r) (tb_rows db)
          in if \<not> depth_ok (tb_rows db) row then Inl depth_error
             else case commit_todos db rws of
               Inl e \<Rightarrow> Inl e
             | Inr db1 \<Rightarrow>
                 let out = row\<lparr>td_Checks := td_Checks x\<rparr>;
                     db2 = (if td_ListID old \<noteq> td_ListID out
                            then db1\<lparr>tb_cal := queueSync t (tb_cal db1) ''todo'' (td_ID out) ''delete'' None (Some (td_ListID old))\<rparr> else db1);
                     was = Todo0\<lparr>td_DueDate := td_DueDate old, td_DueTime := td_DueTime old, td_Duration := td_Duration old, td_TZ := td_TZ old\<rparr>;
                     zi = en_zones (tx_env t)
                 in Inr (out, with_change t db2 out ''update'' (mergeRange (todoRange zi was) (todoRange zi out))))"

definition drops_row :: "go_id \<Rightarrow> go_id \<Rightarrow> Todo \<Rightarrow> bool" where
  "drops_row owner i r \<longleftrightarrow> visible owner r \<and> (td_ID r = i \<or> td_ParentID r = Some i)"

definition Todo_Delete :: "tx_ctx \<Rightarrow> todo_db \<Rightarrow> Todo \<Rightarrow> go_time \<Rightarrow> go_error + todo_db" where
  "Todo_Delete t db x at =
     (if \<not> list_ex (drops_row (tx_owner t) (td_ID x)) (tb_rows db) then Inl (Wrap ErrNotFound [])
      else
        let db1 = db\<lparr>tb_rows := map (\<lambda>r. if drops_row (tx_owner t) (td_ID x) r
                       then r\<lparr>td_DeletedAt := Some (db_time at), td_Version := td_Version r + 1, td_UpdatedAt := tb_now db\<rparr> else r) (tb_rows db)\<rparr>
        in Inr (with_change t db1 x ''delete'' (todoRange (en_zones (tx_env t)) x)))"

definition Todo_Touch :: "tx_ctx \<Rightarrow> todo_db \<Rightarrow> Todo \<Rightarrow> go_error + Todo \<times> todo_db" where
  "Todo_Touch t db x =
     (case find (is_row (tx_owner t) (td_ID x)) (tb_rows db) of
        None \<Rightarrow> Inl (Wrap ErrNotFound [])
      | Some old \<Rightarrow>
          let rws = map (\<lambda>r. if is_row (tx_owner t) (td_ID x) r
                       then r\<lparr>td_Version := td_Version r + 1, td_UpdatedAt := tb_now db\<rparr> else r) (tb_rows db);
              out = x\<lparr>td_Version := td_Version old + 1, td_UpdatedAt := tb_now db\<rparr>
          in Inr (out, with_change t (db\<lparr>tb_rows := rws\<rparr>) out ''update'' (todoRange (en_zones (tx_env t)) out)))"

text \<open>\<open>WithTodos\<close>: the work is kept when it succeeds and rolled back when it fails.\<close>

definition WithTodos :: "todo_db \<Rightarrow> (todo_db \<Rightarrow> go_error + 'a \<times> todo_db) \<Rightarrow> (go_error + 'a) \<times> todo_db" where
  "WithTodos db fn = (case fn db of Inl x \<Rightarrow> (Inl x, db) | Inr (r, db') \<Rightarrow> (Inr r, db'))"

subsection \<open>Lists\<close>

definition list_check :: "TodoList \<Rightarrow> bool" where
  "list_check l \<longleftrightarrow> 1 \<le> rune_count (tl_Name l) \<and> rune_count (tl_Name l) \<le> 100 \<and> colorPattern (tl_Color l)"

definition list_keys :: "TodoList list \<Rightarrow> bool" where
  "list_keys ls \<longleftrightarrow> distinct (map tl_ID ls) \<and> distinct (map tl_OwnerID (filter tl_IsDefault ls))"

definition commit_lists :: "todo_db \<Rightarrow> TodoList list \<Rightarrow> go_error + todo_db" where
  "commit_lists db ls =
     (if \<not> list_all list_check ls then Inl (Wrap ErrInvalid ''check violation'')
      else if \<not> list_keys ls then Inl (Wrap ErrConflict ''unique violation'')
      else Inr (db\<lparr>tb_lists := ls\<rparr>))"

definition ListTodoLists :: "todo_db \<Rightarrow> go_id \<Rightarrow> TodoList list" where
  "ListTodoLists db owner =
     sort_key tl_Position (sort_key tl_CreatedAt (sort_key tl_ID (filter (\<lambda>l. tl_OwnerID l = owner) (tb_lists db))))"

definition CountTodoLists :: "todo_db \<Rightarrow> go_id \<Rightarrow> int" where
  "CountTodoLists db owner = int (length (filter (\<lambda>l. tl_OwnerID l = owner) (tb_lists db)))"

definition TodoList_get :: "todo_db \<Rightarrow> go_id \<Rightarrow> go_id \<Rightarrow> go_error + TodoList" where
  "TodoList_get db owner i =
     (case find (\<lambda>l. tl_ID l = i \<and> tl_OwnerID l = owner) (tb_lists db) of None \<Rightarrow> Inl (Wrap ErrNotFound []) | Some l \<Rightarrow> Inr l)"

definition list_change :: "tx_ctx \<Rightarrow> todo_db \<Rightarrow> TodoList \<Rightarrow> string \<Rightarrow> todo_db" where
  "list_change t db l op =
     db\<lparr>tb_cal := recordChange t (tb_cal db) (Change0\<lparr>ch_OwnerID := tl_OwnerID l, ch_Entity := ''list'', ch_EntityID := tl_ID l, ch_Op := op,
       ch_ListID := Some (tl_ID l)\<rparr>)\<rparr>"

text \<open>\<open>coalesce(max(position), -1) + 1\<close>.\<close>

definition next_list_pos :: "todo_db \<Rightarrow> go_id \<Rightarrow> int" where
  "next_list_pos db owner =
     (case map tl_Position (filter (\<lambda>l. tl_OwnerID l = owner) (tb_lists db)) of [] \<Rightarrow> - 1 | p # ps \<Rightarrow> fold max ps p) + 1"

definition CreateTodoList :: "tx_ctx \<Rightarrow> todo_db \<Rightarrow> TodoList \<Rightarrow> (go_error + TodoList) \<times> todo_db" where
  "CreateTodoList t db l =
     WithTodos db (\<lambda>db.
       let pos = (if tl_Position l < 0 then next_list_pos db (tl_OwnerID l) else tl_Position l);
           row = l\<lparr>tl_Position := wrap32 pos, tl_IsDefault := False, tl_CreatedAt := tb_now db, tl_UpdatedAt := tb_now db\<rparr>
       in case commit_lists db (tb_lists db @ [row]) of Inl e \<Rightarrow> Inl e | Inr db1 \<Rightarrow> Inr (row, list_change t db1 row ''create''))"

definition UpdateTodoList ::
  "tx_ctx \<Rightarrow> todo_db \<Rightarrow> go_id \<Rightarrow> (TodoList \<Rightarrow> go_error + TodoList) \<Rightarrow> (go_error + TodoList) \<times> todo_db" where
  "UpdateTodoList t db i fn =
     WithTodos db (\<lambda>db.
       case TodoList_get db (tx_owner t) i of
         Inl e \<Rightarrow> Inl e
       | Inr l \<Rightarrow>
           (case fn l of
              Inl e \<Rightarrow> Inl e
            | Inr l1 \<Rightarrow>
                let row = l\<lparr>tl_Name := tl_Name l1, tl_Color := tl_Color l1, tl_Position := wrap32 (tl_Position l1), tl_UpdatedAt := tb_now db\<rparr>
                in case commit_lists db (map (\<lambda>r. if tl_ID r = i \<and> tl_OwnerID r = tx_owner t then row else r) (tb_lists db)) of
                     Inl e \<Rightarrow> Inl e | Inr db1 \<Rightarrow> Inr (row, list_change t db1 row ''update'')))"

text \<open>Deleting a list deletes its todos and their checklist items (\<open>ON DELETE CASCADE\<close>).\<close>

definition drop_list :: "todo_db \<Rightarrow> go_id \<Rightarrow> todo_db" where
  "drop_list db i =
     (let rws = filter (\<lambda>t. td_ListID t \<noteq> i) (tb_rows db)
      in db\<lparr>tb_lists := filter (\<lambda>l. tl_ID l \<noteq> i) (tb_lists db), tb_rows := rws,
            tb_checks := filter (\<lambda>c. ck_TodoID c \<in> td_ID ` set rws) (tb_checks db)\<rparr>)"

definition DeleteTodoList :: "tx_ctx \<Rightarrow> todo_db \<Rightarrow> go_id \<Rightarrow> (TodoList \<Rightarrow> go_error option) \<Rightarrow> (go_error + unit) \<times> todo_db" where
  "DeleteTodoList t db i fn =
     WithTodos db (\<lambda>db.
       case TodoList_get db (tx_owner t) i of
         Inl e \<Rightarrow> Inl e
       | Inr l \<Rightarrow>
           (case fn l of
              Some e \<Rightarrow> Inl e
            | None \<Rightarrow> if tl_IsDefault l then Inl (Wrap ErrNotFound []) else Inr ((), list_change t (drop_list db i) l ''delete'')))"

end
