(* ===== verification/Todo_Service.thy ===== *)
theory Todo_Service
  imports Todo_Store Events
begin

text \<open>
  The todo service: \<open>internal/service/todos.go\<close>, \<open>todo_apply.go\<close> and \<open>todo_lists.go\<close>, over the tables of
  \<open>Todo_Store\<close>.  A patch is validated field by field; a todo is placed in a list, under a parent and between
  its siblings; completing a repeating todo creates its next one.  Fresh ids come from a function of a
  counter, and the clock is an argument.
\<close>

subsection \<open>Patches\<close>

record CheckPatch =
  ckp_Text :: "string Opt"
  ckp_Done :: "bool Opt"

definition MaxChecks :: nat where
  "MaxChecks = 200"

definition MaxTodoLists :: int where
  "MaxTodoLists = 100"

definition MaxTodoPriority :: int where
  "MaxTodoPriority = 3"

definition DefaultListColor :: string where
  "DefaultListColor = ''#5b7c5a''"

type_synonym todo_state = "ValidationError \<times> Todo"

definition todo_title :: "TodoPatch \<Rightarrow> todo_state \<Rightarrow> todo_state" where
  "todo_title p s = (case s of (v, t) \<Rightarrow>
     case Value (tdp_Title p) v ''title'' of (v1, None) \<Rightarrow> (v1, t) | (v1, Some x) \<Rightarrow> (v1, t\<lparr>td_Title := trim_space x\<rparr>))"

definition todo_body :: "TodoPatch \<Rightarrow> todo_state \<Rightarrow> todo_state" where
  "todo_body p s = (case s of (v, t) \<Rightarrow> (v, t\<lparr>td_Body := setText (tdp_Body p) (td_Body t) False\<rparr>))"

definition todo_priority :: "TodoPatch \<Rightarrow> todo_state \<Rightarrow> todo_state" where
  "todo_priority p s = (case s of (v, t) \<Rightarrow>
     case Value (tdp_Priority p) v ''priority'' of
       (v1, None) \<Rightarrow> (v1, t)
     | (v1, Some x) \<Rightarrow>
         if x < 0 \<or> x > MaxTodoPriority then (Add v1 ''priority'' (''must be between 0 and '' @ itoa MaxTodoPriority), t)
         else (v1, t\<lparr>td_Priority := x\<rparr>))"

definition todo_due_date :: "TodoPatch \<Rightarrow> todo_state \<Rightarrow> todo_state" where
  "todo_due_date p s = (case s of (v, t) \<Rightarrow>
     let o1 = tdp_DueDate p; raw1 = trim_space (opt_V o1) in
     if \<not> opt_Set o1 then (v, t)
     else if opt_Null o1 \<or> raw1 = [] then (v, t\<lparr>td_DueDate := None, td_DueTime := None, td_Duration := 0, td_RRule := []\<rparr>)
     else case parseDate raw1 of
            Some d \<Rightarrow> (v, t\<lparr>td_DueDate := Some d\<rparr>)
          | None \<Rightarrow> (Add v ''due_date'' ''must be a date like 2026-09-12'', t))"

definition todo_due_time :: "TodoPatch \<Rightarrow> todo_state \<Rightarrow> todo_state" where
  "todo_due_time p s = (case s of (v, t) \<Rightarrow>
     let o1 = tdp_DueTime p; raw1 = trim_space (opt_V o1) in
     if \<not> opt_Set o1 then (v, t)
     else if opt_Null o1 \<or> raw1 = [] then (v, t\<lparr>td_DueTime := None, td_Duration := 0\<rparr>)
     else case ParseClock raw1 of
            Some m \<Rightarrow> (v, t\<lparr>td_DueTime := Some m\<rparr>)
          | None \<Rightarrow> (Add v ''due_time'' ''must be a time like 18:00'', t))"

definition todo_duration :: "TodoPatch \<Rightarrow> todo_state \<Rightarrow> todo_state" where
  "todo_duration p s = (case s of (v, t) \<Rightarrow>
     let o1 = tdp_DurationMin p in
     if \<not> opt_Set o1 then (v, t)
     else if opt_Null o1 then (v, t\<lparr>td_Duration := 0\<rparr>)
     else if opt_V o1 < 1 \<or> opt_V o1 > 1440 then (Add v ''duration_min'' ''must be between 1 and 1440'', t)
     else (v, t\<lparr>td_Duration := opt_V o1\<rparr>))"

definition todo_timezone :: "service_env \<Rightarrow> TodoPatch \<Rightarrow> todo_state \<Rightarrow> todo_state" where
  "todo_timezone env p s = (case s of (v, t) \<Rightarrow>
     let o1 = tdp_Timezone p; tz = trim_space (opt_V o1) in
     if \<not> opt_Set o1 then (v, t)
     else if opt_Null o1 \<or> tz = [] then (v, t\<lparr>td_TZ := []\<rparr>)
     else if ValidTimezone (en_zones env) tz then (v, t\<lparr>td_TZ := tz\<rparr>)
     else (Add v ''timezone'' ''unknown timezone'', t))"

definition todo_rrule :: "service_env \<Rightarrow> TodoPatch \<Rightarrow> todo_state \<Rightarrow> todo_state" where
  "todo_rrule env p s = (case s of (v, t) \<Rightarrow>
     let o1 = tdp_RRule p; rule = trim_space (opt_V o1) in
     if \<not> opt_Set o1 then (v, t)
     else if opt_Null o1 \<or> rule = [] then (v, t\<lparr>td_RRule := []\<rparr>)
     else case Normalize (en_lib env) rule (Todo_Zone (en_zones env) t) of
            Inl x \<Rightarrow> (Add v ''rrule'' (error_text x), t)
          | Inr norm \<Rightarrow> (v, t\<lparr>td_RRule := norm\<rparr>))"

definition todo_show :: "TodoPatch \<Rightarrow> bool \<Rightarrow> todo_state \<Rightarrow> todo_state" where
  "todo_show p isNew s = (case s of (v, t) \<Rightarrow>
     case Value (tdp_ShowOnCalendar p) v ''show_on_calendar'' of
       (v1, Some x) \<Rightarrow> (v1, t\<lparr>td_ShowOnCalendar := x\<rparr>)
     | (v1, None) \<Rightarrow>
         if isNew \<and> \<not> opt_Set (tdp_ShowOnCalendar p) then (v1, t\<lparr>td_ShowOnCalendar := (td_DueTime t \<noteq> None)\<rparr>) else (v1, t))"

definition todo_reminders :: "TodoPatch \<Rightarrow> todo_state \<Rightarrow> todo_state" where
  "todo_reminders p s = (case s of (v, t) \<Rightarrow>
     if \<not> opt_Set (tdp_Reminders p) then (v, t)
     else case NormalizeReminders v ''reminders'' (opt_V (tdp_Reminders p)) of (v1, out) \<Rightarrow> (v1, t\<lparr>td_Reminders := out\<rparr>))"

text \<open>\<open>i\<close> is the index of the input and \<open>prev\<close> the key of the last item kept.\<close>

fun newChecks :: "(nat \<Rightarrow> go_id) \<Rightarrow> ValidationError \<Rightarrow> go_id \<Rightarrow> go_time \<Rightarrow> nat \<Rightarrow> string \<Rightarrow> CheckInput list \<Rightarrow> ValidationError \<times> Check list" where
  "newChecks fresh v todo now i prev [] = (v, [])"
| "newChecks fresh v todo now i prev (c # cs) =
     (let txt = trim_space (ci_Text c); n = rune_count txt in
      if n < 1 \<or> n > 500
      then newChecks fresh (Add v ''checks'' (''item '' @ itoa (int i + 1) @ '' must be 1 to 500 characters'')) todo now (i + 1) prev cs
      else let pos = KeyBetween prev [];
               ch = \<lparr>ck_ID = fresh i, ck_TodoID = todo, ck_Text = txt, ck_Done = ci_Done c, ck_Position = pos,
                     ck_DoneAt = (if ci_Done c then Some now else None), ck_CreatedAt = zero_time\<rparr>
           in case newChecks fresh v todo now (i + 1) pos cs of (v1, out) \<Rightarrow> (v1, ch # out))"

definition todo_checks :: "(nat \<Rightarrow> go_id) \<Rightarrow> TodoPatch \<Rightarrow> bool \<Rightarrow> go_time \<Rightarrow> todo_state \<Rightarrow> todo_state" where
  "todo_checks fresh p isNew now s = (case s of (v, t) \<Rightarrow>
     if \<not> opt_Set (tdp_Checks p) then (v, t)
     else if \<not> isNew then (Add v ''checks'' ''change checklist items with the checks endpoints'', t)
     else if length (opt_V (tdp_Checks p)) > MaxChecks
     then (Add v ''checks'' (''must have at most '' @ itoa (int MaxChecks) @ '' items''), t)
     else case newChecks fresh v (td_ID t) now 0 [] (opt_V (tdp_Checks p)) of (v1, out) \<Rightarrow> (v1, t\<lparr>td_Checks := out\<rparr>))"

definition todo_rules :: "todo_state \<Rightarrow> ValidationError" where
  "todo_rules s = (case s of (v, t) \<Rightarrow>
     let v1 = Length v ''title'' (td_Title t) 1 1000;
         v2 = Length v1 ''body'' (td_Body t) 0 100000;
         v3 = (if td_DueTime t \<noteq> None \<and> td_DueDate t = None then Add v2 ''due_time'' ''requires due_date''
               else if td_DueTime t \<noteq> None \<and> td_TZ t = [] then Add v2 ''timezone'' ''is required when due_time is set'' else v2);
         v4 = (if td_Duration t > 0 \<and> td_DueTime t = None then Add v3 ''duration_min'' ''requires due_time'' else v3)
     in if td_RRule t \<noteq> [] \<and> td_DueDate t = None then Add v4 ''rrule'' ''requires due_date'' else v4)"

definition applyTodo :: "service_env \<Rightarrow> (nat \<Rightarrow> go_id) \<Rightarrow> Todo \<Rightarrow> TodoPatch \<Rightarrow> bool \<Rightarrow> go_time \<Rightarrow> go_error + Todo" where
  "applyTodo env fresh t p isNew now =
     (let s = todo_checks fresh p isNew now (todo_reminders p (todo_show p isNew (todo_rrule env p (todo_timezone env p
                (todo_duration p (todo_due_time p (todo_due_date p (todo_priority p (todo_body p (todo_title p ([], t)))))))))))
      in case Domain.Err (todo_rules s) of Some e \<Rightarrow> Inl e | None \<Rightarrow> Inr (snd s))"

definition applyCheck :: "Check \<Rightarrow> CheckPatch \<Rightarrow> bool \<Rightarrow> go_time \<Rightarrow> go_error + Check" where
  "applyCheck c p isNew now =
     (case Value (ckp_Text p) [] ''text'' of (v1, x) \<Rightarrow>
      let c1 = (case x of None \<Rightarrow> c | Some s \<Rightarrow> c\<lparr>ck_Text := trim_space s\<rparr>) in
      case Value (ckp_Done p) v1 ''done'' of (v2, y) \<Rightarrow>
      let c2 = (case y of None \<Rightarrow> c1
                | Some d \<Rightarrow> if d \<noteq> ck_Done c1 then c1\<lparr>ck_Done := d, ck_DoneAt := (if d then Some now else None)\<rparr> else c1);
          v3 = (if hasField v2 ''text'' then v2 else Length v2 ''text'' (ck_Text c2) 1 500)
      in case Domain.Err v3 of Some e \<Rightarrow> Inl e | None \<Rightarrow> Inr c2)"

subsection \<open>Placement\<close>

definition listMap :: "todo_db \<Rightarrow> go_id \<Rightarrow> (go_id \<rightharpoonup> TodoList) \<times> TodoList" where
  "listMap db owner =
     indexByID \<lparr>tl_ID = NilID, tl_OwnerID = NilID, tl_Name = [], tl_Color = [], tl_Position = 0, tl_IsDefault = False,
       tl_CreatedAt = zero_time, tl_UpdatedAt = zero_time\<rparr> (ListTodoLists db owner) (\<lambda>l. (tl_ID l, tl_IsDefault l))"

definition fail_field :: "string \<Rightarrow> string \<Rightarrow> go_error" where
  "fail_field f m = Validation (Add [] f m)"

definition lookupTodo :: "tx_ctx \<Rightarrow> todo_db \<Rightarrow> string \<Rightarrow> go_error + Todo" where
  "lookupTodo t db raw1 =
     (case en_ParseID (tx_env t) raw1 of None \<Rightarrow> Inl (Wrap ErrNotFound []) | Some i \<Rightarrow> Todo_get db (tx_owner t) i)"

definition positionAfter ::
  "tx_ctx \<Rightarrow> todo_db \<Rightarrow> go_id \<Rightarrow> go_id \<Rightarrow> go_id option \<Rightarrow> string Opt \<Rightarrow> go_error + string" where
  "positionAfter t db self lst parent after =
     (let raw1 = trim_space (opt_V after) in
      if opt_Null after \<or> raw1 = []
      then Inr (KeyBetween [] (NextPosition db (tx_owner t) lst parent [] self))
      else case lookupTodo t db raw1 of
             Inl e \<Rightarrow> if err_is e ErrNotFound then Inl (fail_field ''after_id'' ''must be a todo in the same list and under the same parent'') else Inl e
           | Inr a \<Rightarrow>
               if td_ID a = self \<or> td_ListID a \<noteq> lst \<or> td_ParentID a \<noteq> parent
               then Inl (fail_field ''after_id'' ''must be a todo in the same list and under the same parent'')
               else Inr (KeyBetween (td_Position a) (NextPosition db (tx_owner t) lst parent (td_Position a) self)))"

text \<open>The list the patch names, if it names one.\<close>

definition chosen_list :: "tx_ctx \<Rightarrow> (go_id \<rightharpoonup> TodoList) \<Rightarrow> string Opt \<Rightarrow> go_error + go_id option" where
  "chosen_list t lsts o1 =
     (let raw1 = trim_space (opt_V o1) in
      if opt_Set o1 \<and> \<not> opt_Null o1 \<and> raw1 \<noteq> []
      then (case en_ParseID (tx_env t) raw1 of
              None \<Rightarrow> Inl (fail_field ''list_id'' ''unknown list'')
            | Some i \<Rightarrow> if lsts i = None then Inl (fail_field ''list_id'' ''unknown list'') else Inr (Some i))
      else Inr None)"

text \<open>The list and the parent a todo goes to.\<close>

definition chosen_parent :: "tx_ctx \<Rightarrow> todo_db \<Rightarrow> Todo \<Rightarrow> go_id option \<Rightarrow> string Opt \<Rightarrow> go_error + go_id \<times> go_id option" where
  "chosen_parent t db x given o1 =
     (let lst = (case given of None \<Rightarrow> td_ListID x | Some l \<Rightarrow> l); raw1 = trim_space (opt_V o1) in
      if opt_Set o1 then
        (if opt_Null o1 \<or> raw1 = [] then Inr (lst, None)
         else case lookupTodo t db raw1 of
                Inl e \<Rightarrow> if err_is e ErrNotFound then Inl (fail_field ''parent_id'' ''unknown todo'') else Inl e
              | Inr p \<Rightarrow>
                  if td_ID p = td_ID x then Inl (fail_field ''parent_id'' ''must not be the todo itself'')
                  else if td_ParentID p \<noteq> None then Inl (fail_field ''parent_id'' ''must be a todo without a parent, subtasks go one level deep'')
                  else if given \<noteq> None \<and> lst \<noteq> td_ListID p then Inl (fail_field ''list_id'' ''must match the list of the parent'')
                  else Inr (td_ListID p, Some (td_ID p)))
      else if td_ParentID x \<noteq> None \<and> lst \<noteq> td_ListID x
      then Inl (fail_field ''list_id'' ''subtasks move with their parent, set parent_id to null to move this todo alone'')
      else Inr (lst, td_ParentID x))"

definition relocate ::
  "tx_ctx \<Rightarrow> todo_db \<Rightarrow> Todo \<Rightarrow> (go_id \<rightharpoonup> TodoList) \<Rightarrow> string Opt \<Rightarrow> string Opt \<Rightarrow> string Opt option \<Rightarrow> bool \<Rightarrow> go_error + Todo" where
  "relocate t db x lsts listOpt parentOpt after isNew =
     (case chosen_list t lsts listOpt of
        Inl e \<Rightarrow> Inl e
      | Inr given \<Rightarrow>
          (case chosen_parent t db x given parentOpt of
             Inl e \<Rightarrow> Inl e
           | Inr (lst, parent) \<Rightarrow>
               if parent \<noteq> None \<and> \<not> isNew \<and> HasChildren db (td_ID x)
               then Inl (fail_field ''parent_id'' ''a todo with subtasks cannot become a subtask'')
               else
                 let place = (\<lambda>pos. x\<lparr>td_ListID := lst, td_ParentID := parent, td_Position := pos\<rparr>) in
                 case after of
                   Some a \<Rightarrow> (case positionAfter t db (td_ID x) lst parent a of Inl e \<Rightarrow> Inl e | Inr p \<Rightarrow> Inr (place p))
                 | None \<Rightarrow>
                     if isNew \<or> lst \<noteq> td_ListID x \<or> parent \<noteq> td_ParentID x
                     then Inr (place (KeyBetween (LastPosition db (tx_owner t) lst parent (td_ID x)) []))
                     else Inr (place (td_Position x))))"

subsection \<open>Operations\<close>

definition withTodo ::
  "tx_ctx \<Rightarrow> todo_db \<Rightarrow> go_id \<Rightarrow> string \<Rightarrow> (todo_db \<Rightarrow> Todo \<Rightarrow> go_error + 'a \<times> todo_db) \<Rightarrow> (go_error + 'a) \<times> todo_db" where
  "withTodo t db i ifMatch fn =
     WithTodos db (\<lambda>db.
       case Todo_get db (tx_owner t) i of
         Inl e \<Rightarrow> Inl e
       | Inr x \<Rightarrow> (case CheckIfMatch ifMatch (Todo_ETag x) of Some e \<Rightarrow> Inl e | None \<Rightarrow> fn db x))"

definition Todos_Create :: "tx_ctx \<Rightarrow> todo_db \<Rightarrow> (nat \<Rightarrow> go_id) \<Rightarrow> go_time \<Rightarrow> TodoPatch \<Rightarrow> (go_error + Todo) \<times> todo_db" where
  "Todos_Create t db fresh now p =
     (case listMap db (tx_owner t) of (lsts, def1) \<Rightarrow>
      case userZone (tx_env t) (tb_cal db) (tx_owner t) of
        Inl e \<Rightarrow> (Inl e, db)
      | Inr (tz, loc) \<Rightarrow>
          let x0 = Todo0\<lparr>td_ID := fresh 0, td_OwnerID := tx_owner t, td_ListID := tl_ID def1, td_Status := ''needs_action'', td_TZ := tz, td_Version := 1\<rparr>
          in case applyTodo (tx_env t) (\<lambda>i. fresh (i + 1)) x0 p True now of
               Inl e \<Rightarrow> (Inl e, db)
             | Inr x \<Rightarrow>
                 if tl_ID def1 = NilID \<and> \<not> opt_Set (tdp_ListID p) then (Inl (Wrap ErrConflict ''the account has no todo list''), db)
                 else WithTodos db (\<lambda>db.
                   case relocate t db x lsts (tdp_ListID p) (tdp_ParentID p) None True of
                     Inl e \<Rightarrow> Inl e | Inr y \<Rightarrow> Todo_Insert t db y))"

definition Todos_Update ::
  "tx_ctx \<Rightarrow> todo_db \<Rightarrow> go_id \<Rightarrow> (nat \<Rightarrow> go_id) \<Rightarrow> go_time \<Rightarrow> TodoPatch \<Rightarrow> string \<Rightarrow> (go_error + Todo) \<times> todo_db" where
  "Todos_Update t db i fresh now p ifMatch =
     (case listMap db (tx_owner t) of (lsts, def1) \<Rightarrow>
        withTodo t db i ifMatch (\<lambda>db x.
          case applyTodo (tx_env t) fresh x p False now of
            Inl e \<Rightarrow> Inl e
          | Inr y \<Rightarrow>
              if opt_Set (tdp_ListID p) \<or> opt_Set (tdp_ParentID p)
              then (case relocate t db y lsts (tdp_ListID p) (tdp_ParentID p) None False of
                      Inl e \<Rightarrow> Inl e | Inr z \<Rightarrow> Todo_Update t db z)
              else Todo_Update t db y))"

definition Todos_Move :: "tx_ctx \<Rightarrow> todo_db \<Rightarrow> go_id \<Rightarrow> TodoMove \<Rightarrow> string \<Rightarrow> (go_error + Todo) \<times> todo_db" where
  "Todos_Move t db i m ifMatch =
     (case listMap db (tx_owner t) of (lsts, def1) \<Rightarrow>
        withTodo t db i ifMatch (\<lambda>db x.
          case relocate t db x lsts (tdm_ListID m) (tdm_ParentID m) (if opt_Set (tdm_AfterID m) then Some (tdm_AfterID m) else None) False of
            Inl e \<Rightarrow> Inl e | Inr y \<Rightarrow> Todo_Update t db y))"

text \<open>The next todo of a repetition: a copy with fresh ids, a new date and the rule that is left, placed right
  after the one completed.\<close>

definition copy_check :: "go_id \<Rightarrow> go_id \<Rightarrow> Check \<Rightarrow> Check" where
  "copy_check i todo c = \<lparr>ck_ID = i, ck_TodoID = todo, ck_Text = ck_Text c, ck_Done = False, ck_Position = ck_Position c,
     ck_DoneAt = None, ck_CreatedAt = zero_time\<rparr>"

definition next_copy :: "tx_ctx \<Rightarrow> todo_db \<Rightarrow> (nat \<Rightarrow> go_id) \<Rightarrow> Todo \<Rightarrow> go_time \<Rightarrow> string \<Rightarrow> Todo" where
  "next_copy t db fresh x dd rule =
     x\<lparr>td_ID := fresh 0, td_Status := ''needs_action'', td_CompletedAt := None, td_Version := 1,
       td_DueDate := Some dd, td_RRule := rule,
       td_Checks := map2 (\<lambda>i c. copy_check (fresh (i + 1)) (fresh 0) c) [0..<length (td_Checks x)] (td_Checks x),
       td_Position := KeyBetween (td_Position x) (NextPosition db (tx_owner t) (td_ListID x) (td_ParentID x) (td_Position x) (td_ID x))\<rparr>"

definition nextTodo :: "tx_ctx \<Rightarrow> todo_db \<Rightarrow> (nat \<Rightarrow> go_id) \<Rightarrow> Todo \<Rightarrow> go_error + Todo option \<times> todo_db" where
  "nextTodo t db fresh x =
     (let start = (case DueStart (en_zones (tx_env t)) x of None \<Rightarrow> zero_time | Some s \<Rightarrow> s);
          loc = (if td_DueTime x = None then UTC else Todo_Zone (en_zones (tx_env t)) x)
      in case Next (en_lib (tx_env t)) (td_RRule x) start loc of
           Inl e \<Rightarrow> Inl e
         | Inr None \<Rightarrow> Inr (None, db)
         | Inr (Some (at, rule)) \<Rightarrow>
             (case Todo_Insert t db (next_copy t db fresh x (midnight loc at) rule) of
                Inl e \<Rightarrow> Inl e | Inr (created, db1) \<Rightarrow> Inr (Some created, db1)))"

definition Complete ::
  "tx_ctx \<Rightarrow> todo_db \<Rightarrow> go_id \<Rightarrow> (nat \<Rightarrow> go_id) \<Rightarrow> go_time \<Rightarrow> string \<Rightarrow> (go_error + Todo \<times> Todo option) \<times> todo_db" where
  "Complete t db i fresh now ifMatch =
     withTodo t db i ifMatch (\<lambda>db x.
       if Done x then Inr ((x, None), db)
       else
         case (if td_RRule x \<noteq> [] \<and> td_DueDate x \<noteq> None
               then (case nextTodo t db fresh x of Inl e \<Rightarrow> Inl e | Inr (n, db1) \<Rightarrow> Inr (n, x\<lparr>td_RRule := []\<rparr>, db1))
               else Inr (None, x, db)) of
           Inl e \<Rightarrow> Inl e
         | Inr (n, y, db1) \<Rightarrow>
             (case Todo_Update t db1 (y\<lparr>td_Status := ''completed'', td_CompletedAt := Some now\<rparr>) of
                Inl e \<Rightarrow> Inl e | Inr (out, db2) \<Rightarrow> Inr ((out, n), db2)))"

definition Reopen :: "tx_ctx \<Rightarrow> todo_db \<Rightarrow> go_id \<Rightarrow> string \<Rightarrow> (go_error + Todo) \<times> todo_db" where
  "Reopen t db i ifMatch =
     withTodo t db i ifMatch (\<lambda>db x.
       if \<not> Done x then Inr (x, db)
       else Todo_Update t db (x\<lparr>td_Status := ''needs_action'', td_CompletedAt := None\<rparr>))"

definition Todos_Delete :: "tx_ctx \<Rightarrow> todo_db \<Rightarrow> go_id \<Rightarrow> go_time \<Rightarrow> string \<Rightarrow> (go_error + unit) \<times> todo_db" where
  "Todos_Delete t db i now ifMatch =
     withTodo t db i ifMatch (\<lambda>db x. case Todo_Delete t db x now of Inl e \<Rightarrow> Inl e | Inr db1 \<Rightarrow> Inr ((), db1))"

subsection \<open>Checklists\<close>

text \<open>Every change of a checklist is a new version of its todo.\<close>

definition touched_todo :: "tx_ctx \<Rightarrow> Todo \<Rightarrow> 'a \<Rightarrow> todo_db \<Rightarrow> go_error + 'a \<times> todo_db" where
  "touched_todo t x out db = (case Todo_Touch t db x of Inl e \<Rightarrow> Inl e | Inr (y, db1) \<Rightarrow> Inr (out, db1))"

definition AddCheck :: "tx_ctx \<Rightarrow> todo_db \<Rightarrow> go_id \<Rightarrow> go_id \<Rightarrow> go_time \<Rightarrow> CheckPatch \<Rightarrow> (go_error + Check) \<times> todo_db" where
  "AddCheck t db i fresh now p =
     withTodo t db i [] (\<lambda>db x.
       if length (td_Checks x) \<ge> MaxChecks
       then Inl (Wrap ErrConflict (''a todo can have at most '' @ itoa (int MaxChecks) @ '' checklist items''))
       else if \<not> opt_Set (ckp_Text p) then Inl (fail_field ''text'' ''is required'')
       else case applyCheck \<lparr>ck_ID = fresh, ck_TodoID = td_ID x, ck_Text = [], ck_Done = False, ck_Position = [], ck_DoneAt = None,
                    ck_CreatedAt = zero_time\<rparr> p True now of
              Inl e \<Rightarrow> Inl e
            | Inr c \<Rightarrow>
                let prev = (if td_Checks x = [] then [] else ck_Position (last (td_Checks x)))
                in case InsertCheck db (c\<lparr>ck_Position := KeyBetween prev []\<rparr>) of
                     Inl e \<Rightarrow> Inl e | Inr (out, db1) \<Rightarrow> touched_todo t x out db1)"

definition UpdateCheck :: "tx_ctx \<Rightarrow> todo_db \<Rightarrow> go_id \<Rightarrow> go_id \<Rightarrow> go_time \<Rightarrow> CheckPatch \<Rightarrow> (go_error + Check) \<times> todo_db" where
  "UpdateCheck t db i cid now p =
     withTodo t db i [] (\<lambda>db x.
       case find (\<lambda>c. ck_ID c = cid) (td_Checks x) of
         None \<Rightarrow> Inl (Wrap ErrNotFound [])
       | Some c \<Rightarrow>
           (case applyCheck c p False now of
              Inl e \<Rightarrow> Inl e
            | Inr c1 \<Rightarrow> (case Todo_UpdateCheck db c1 of Inl e \<Rightarrow> Inl e | Inr (out, db1) \<Rightarrow> touched_todo t x out db1)))"

definition DeleteCheck :: "tx_ctx \<Rightarrow> todo_db \<Rightarrow> go_id \<Rightarrow> go_id \<Rightarrow> (go_error + unit) \<times> todo_db" where
  "DeleteCheck t db i cid =
     withTodo t db i [] (\<lambda>db x.
       case Todo_DeleteCheck db (td_ID x) cid of Inl e \<Rightarrow> Inl e | Inr db1 \<Rightarrow> touched_todo t x () db1)"

text \<open>The checks the ids name, up to the first id that is unknown or comes again, with those left over.\<close>

fun pick_checks :: "service_env \<Rightarrow> Check list \<Rightarrow> string list \<Rightarrow> Check list \<times> Check list" where
  "pick_checks env left [] = ([], left)"
| "pick_checks env left (raw1 # ids) =
     (case en_ParseID env raw1 of
        None \<Rightarrow> ([], left)
      | Some i \<Rightarrow>
          (case find (\<lambda>c. ck_ID c = i) left of
             None \<Rightarrow> ([], left)
           | Some c \<Rightarrow> (case pick_checks env (filter (\<lambda>d. ck_ID d \<noteq> i) left) ids of (order, rest) \<Rightarrow> (c # order, rest))))"

fun reposition :: "todo_db \<Rightarrow> string \<Rightarrow> Check list \<Rightarrow> go_error + Check list \<times> todo_db" where
  "reposition db prev [] = Inr ([], db)"
| "reposition db prev (c # cs) =
     (let pos = KeyBetween prev [] in
      case Todo_UpdateCheck db (c\<lparr>ck_Position := pos\<rparr>) of
        Inl e \<Rightarrow> Inl e
      | Inr (saved, db1) \<Rightarrow>
          (case reposition db1 pos cs of Inl e \<Rightarrow> Inl e | Inr (out, db2) \<Rightarrow> Inr (saved # out, db2)))"

definition ReorderChecks :: "tx_ctx \<Rightarrow> todo_db \<Rightarrow> go_id \<Rightarrow> string list \<Rightarrow> (go_error + Check list) \<times> todo_db" where
  "ReorderChecks t db i ids =
     withTodo t db i [] (\<lambda>db x.
       case pick_checks (tx_env t) (td_Checks x) ids of (order, left) \<Rightarrow>
         if length order \<noteq> length ids \<or> left \<noteq> [] then Inl (fail_field ''ids'' ''must list every checklist item exactly once'')
         else case reposition db [] order of
                Inl e \<Rightarrow> Inl e | Inr (out, db1) \<Rightarrow> touched_todo t x out db1)"

subsection \<open>Listing\<close>

record TodoQuery =
  tq_Lists :: "string list"
  tq_Parent :: string
  tq_Status :: string
  tq_DueFrom :: string
  tq_DueTo :: string
  tq_Cursor :: string
  tq_Limit :: int

definition optionalDate :: "ValidationError \<Rightarrow> string \<Rightarrow> string \<Rightarrow> ValidationError \<times> go_time option" where
  "optionalDate v field s =
     (if s = [] then (v, None)
      else case parseDate s of None \<Rightarrow> (Add v field ''must be a date like 2026-09-12'', None) | Some d \<Rightarrow> (v, Some d))"

definition optional_id :: "service_env \<Rightarrow> ValidationError \<Rightarrow> string \<Rightarrow> string \<Rightarrow> string \<Rightarrow> ValidationError \<times> go_id option" where
  "optional_id env v field msg s =
     (if s = [] then (v, None) else case en_ParseID env s of None \<Rightarrow> (Add v field msg, None) | Some i \<Rightarrow> (v, Some i))"

definition query_lists :: "service_env \<Rightarrow> (go_id \<rightharpoonup> TodoList) \<Rightarrow> ValidationError \<Rightarrow> string list \<Rightarrow> ValidationError \<times> go_id list" where
  "query_lists env lsts v ids =
     fold (\<lambda>raw1 (w, out).
       case en_ParseID env raw1 of
         None \<Rightarrow> (Add w ''list_id'' (''unknown list \"'' @ raw1 @ ''\"''), out)
       | Some i \<Rightarrow> if lsts i = None then (Add w ''list_id'' (''unknown list \"'' @ raw1 @ ''\"''), out) else (w, out @ [i])) ids (v, [])"

definition defaultTodoLimit :: int where
  "defaultTodoLimit = 100"

definition maxTodoLimit :: int where
  "maxTodoLimit = 500"

definition Todos_List :: "service_env \<Rightarrow> todo_db \<Rightarrow> go_id \<Rightarrow> TodoQuery \<Rightarrow> go_error + Todo list \<times> string" where
  "Todos_List env db owner q =
     (case query_lists env (fst (listMap db owner)) [] (tq_Lists q) of (v1, ls) \<Rightarrow>
      case optional_id env v1 ''parent_id'' ''must be a todo id'' (tq_Parent q) of (v2, parent) \<Rightarrow>
      let status = (if tq_Status q \<in> {'''', ''open''} then Some ''needs_action'' else if tq_Status q = ''completed'' then Some ''completed''
                    else if tq_Status q = ''all'' then Some [] else None);
          v3 = (if status = None then Add v2 ''status'' ''must be open, completed or all'' else v2) in
      case optionalDate v3 ''due_from'' (tq_DueFrom q) of (v4, from) \<Rightarrow>
      case optionalDate v4 ''due_to'' (tq_DueTo q) of (v5, to) \<Rightarrow>
      case optional_id env v5 ''cursor'' ''is not a valid cursor'' (tq_Cursor q) of (v6, after) \<Rightarrow>
      let limit = (if tq_Limit q = 0 then defaultTodoLimit else tq_Limit q);
          v7 = (if tq_Limit q \<noteq> 0 \<and> (tq_Limit q < 1 \<or> tq_Limit q > maxTodoLimit)
                then Add v6 ''limit'' (''must be between 1 and '' @ itoa maxTodoLimit) else v6) in
      case Domain.Err v7 of
        Some e \<Rightarrow> Inl e
      | None \<Rightarrow>
          let found = Todos db owner (TodoFilter0\<lparr>tf_Lists := ls, tf_Parent := parent,
                        tf_Status := (case status of None \<Rightarrow> ''needs_action'' | Some s \<Rightarrow> s), tf_DueFrom := from, tf_DueTo := to,
                        tf_After := after, tf_Limit := limit + 1\<rparr>)
          in if int (length found) > limit
             then let page = take (nat limit) found in Inr (page, en_id_text env (td_ID (last page)))
             else Inr (found, []))"

definition Scheduled :: "todo_db \<Rightarrow> go_id \<Rightarrow> go_time \<Rightarrow> go_time \<Rightarrow> Todo list" where
  "Scheduled db owner from to =
     Todos db owner (TodoFilter0\<lparr>tf_OnCalendar := True, tf_Scheduled := True, tf_DueFrom := Some from, tf_DueTo := Some to, tf_Order := OrderByDue\<rparr>)"

subsection \<open>Lists\<close>

definition MaxCalendarPosition :: int where
  "MaxCalendarPosition = 10000"

text \<open>\<open>applyNamed\<close> on the name, the colour and the position.\<close>

definition applyNamed ::
  "ValidationError \<Rightarrow> string Opt \<Rightarrow> string Opt \<Rightarrow> int Opt \<Rightarrow> string \<times> string \<times> int \<Rightarrow> ValidationError \<times> string \<times> string \<times> int" where
  "applyNamed v name color position s =
     (case s of (n, c, pos) \<Rightarrow>
      case Value name v ''name'' of (v1, x) \<Rightarrow>
      let n1 = (case x of None \<Rightarrow> n | Some s \<Rightarrow> trim_space s) in
      case Value color v1 ''color'' of (v2, y) \<Rightarrow>
      case (case y of None \<Rightarrow> (v2, c)
            | Some s \<Rightarrow> (case NormalizeColor s of (col, valid) \<Rightarrow>
                if valid then (v2, col) else (Add v2 ''color'' ''must be a hex color like #3b6ea5'', c))) of (v3, c1) \<Rightarrow>
      case Value position v3 ''position'' of (v4, z) \<Rightarrow>
      case (case z of None \<Rightarrow> (v4, pos)
            | Some k \<Rightarrow> if k < 0 \<or> k > MaxCalendarPosition
                then (Add v4 ''position'' (''must be between 0 and '' @ itoa MaxCalendarPosition), pos) else (v4, k)) of (v5, p1) \<Rightarrow>
      (v5, n1, c1, p1))"

definition applyList :: "TodoList \<Rightarrow> TodoListPatch \<Rightarrow> go_error + TodoList" where
  "applyList l p =
     (case applyNamed [] (tlp_Name p) (tlp_Color p) (tlp_Position p) (tl_Name l, tl_Color l, tl_Position l) of (v, n, c, pos) \<Rightarrow>
      case Domain.Err (Length v ''name'' n 1 100) of
        Some e \<Rightarrow> Inl e | None \<Rightarrow> Inr (l\<lparr>tl_Name := n, tl_Color := c, tl_Position := pos\<rparr>))"

definition Lists_Create :: "tx_ctx \<Rightarrow> todo_db \<Rightarrow> go_id \<Rightarrow> TodoListPatch \<Rightarrow> (go_error + TodoList) \<times> todo_db" where
  "Lists_Create t db fresh p =
     (if CountTodoLists db (tx_owner t) \<ge> MaxTodoLists
      then (Inl (Wrap ErrConflict (''an account can have at most '' @ itoa MaxTodoLists @ '' lists'')), db)
      else case applyList \<lparr>tl_ID = fresh, tl_OwnerID = tx_owner t, tl_Name = [], tl_Color = DefaultListColor, tl_Position = - 1,
                   tl_IsDefault = False, tl_CreatedAt = zero_time, tl_UpdatedAt = zero_time\<rparr> p of
             Inl e \<Rightarrow> (Inl e, db)
           | Inr l \<Rightarrow> CreateTodoList t db l)"

definition Lists_Update :: "tx_ctx \<Rightarrow> todo_db \<Rightarrow> go_id \<Rightarrow> TodoListPatch \<Rightarrow> string \<Rightarrow> (go_error + TodoList) \<times> todo_db" where
  "Lists_Update t db i p ifMatch =
     UpdateTodoList t db i (\<lambda>l. case CheckIfMatch ifMatch (TodoList_ETag l) of Some e \<Rightarrow> Inl e | None \<Rightarrow> applyList l p)"

definition Lists_Delete :: "tx_ctx \<Rightarrow> todo_db \<Rightarrow> go_id \<Rightarrow> string \<Rightarrow> (go_error + unit) \<times> todo_db" where
  "Lists_Delete t db i ifMatch =
     DeleteTodoList t db i (\<lambda>l. if tl_IsDefault l then Some (Wrap ErrConflict ''the default list cannot be deleted'')
       else CheckIfMatch ifMatch (TodoList_ETag l))"

end
