(* ===== verification/Todo_Safety.thy ===== *)
theory Todo_Safety
  imports Todo_Service
begin

text \<open>
  What the todo service keeps of its tables: the constraints, one level of subtasks under live parents of the
  same list and owner, and distinct valid position keys among siblings, whatever requests arrive; and that a
  request of one account leaves the todos of the others alone.
\<close>

subsection \<open>The invariant\<close>

definition tree_ok :: "Todo list \<Rightarrow> bool" where
  "tree_ok rws \<longleftrightarrow>
     (\<forall>r\<in>set rws. \<forall>p. live r \<and> td_ParentID r = Some p \<longrightarrow>
        (\<exists>s\<in>set rws. td_ID s = p \<and> live s \<and> td_ParentID s = None \<and> td_ListID s = td_ListID r \<and> td_OwnerID s = td_OwnerID r))"

definition order_ok :: "Todo list \<Rightarrow> bool" where
  "order_ok rws \<longleftrightarrow>
     (\<forall>r\<in>set rws. live r \<longrightarrow> valid_key (td_Position r)) \<and>
     (\<forall>r\<in>set rws. \<forall>s\<in>set rws. live r \<and> live s \<and> td_ListID r = td_ListID s \<and> td_ParentID r = td_ParentID s \<and>
        td_Position r = td_Position s \<longrightarrow> td_ID r = td_ID s)"

definition rows_ok :: "TodoList list \<Rightarrow> Todo list \<Rightarrow> bool" where
  "rows_ok ls rws \<longleftrightarrow> list_keys ls \<and> list_all todo_check rws \<and> todo_keys rws \<and> todo_refs ls rws \<and> tree_ok rws \<and> order_ok rws"

definition todos_ok :: "todo_db \<Rightarrow> bool" where
  "todos_ok db \<longleftrightarrow> rows_ok (tb_lists db) (tb_rows db)"

lemma rows_okD:
  assumes "rows_ok ls rws"
  shows "list_keys ls" "list_all todo_check rws" "todo_keys rws" "todo_refs ls rws" "tree_ok rws" "order_ok rws"
  using assms by (simp_all add: rows_ok_def)

lemma row_unique: "todo_keys rws \<Longrightarrow> r \<in> set rws \<Longrightarrow> s \<in> set rws \<Longrightarrow> td_ID r = td_ID s \<Longrightarrow> r = s"
  by (simp add: todo_keys_def distinct_map inj_on_def)

lemma list_owner:
  assumes "list_keys ls" "todo_refs ls rws" "r \<in> set rws" "s \<in> set rws" "td_ListID r = td_ListID s"
  shows "td_OwnerID r = td_OwnerID s"
proof -
  have "\<exists>l\<in>set ls. tl_ID l = td_ListID r \<and> tl_OwnerID l = td_OwnerID r" "\<exists>l\<in>set ls. tl_ID l = td_ListID s \<and> tl_OwnerID l = td_OwnerID s"
    using assms(2-4) by (auto simp: todo_refs_def list_all_iff list_ex_iff)
  then obtain a b where ab: "a \<in> set ls" "tl_ID a = td_ListID r" "tl_OwnerID a = td_OwnerID r" "b \<in> set ls" "tl_ID b = td_ListID s" "tl_OwnerID b = td_OwnerID s"
    by blast
  then have "a = b" using assms(1,5) by (auto simp: list_keys_def distinct_map inj_on_def)
  then show ?thesis using ab by simp
qed

lemma tree_parent:
  assumes "tree_ok rws" "r \<in> set rws" "live r" "td_ParentID r = Some p"
  obtains s where "s \<in> set rws" "td_ID s = p" "live s" "td_ParentID s = None" "td_ListID s = td_ListID r" "td_OwnerID s = td_OwnerID r"
  using assms unfolding tree_ok_def by blast

lemma order_unique:
  "order_ok rws \<Longrightarrow> r \<in> set rws \<Longrightarrow> s \<in> set rws \<Longrightarrow> live r \<Longrightarrow> live s \<Longrightarrow> td_ListID r = td_ListID s \<Longrightarrow> td_ParentID r = td_ParentID s \<Longrightarrow>
     td_Position r = td_Position s \<Longrightarrow> td_ID r = td_ID s"
  unfolding order_ok_def by blast

lemma order_valid: "order_ok rws \<Longrightarrow> r \<in> set rws \<Longrightarrow> live r \<Longrightarrow> valid_key (td_Position r)"
  unfolding order_ok_def by blast

text \<open>A place a todo may take: the parent is a live todo at the top of the list, and no sibling has the key.\<close>

definition place_ok :: "todo_db \<Rightarrow> go_id \<Rightarrow> Todo \<Rightarrow> bool" where
  "place_ok db owner x \<longleftrightarrow>
     valid_key (td_Position x) \<and>
     (\<forall>r\<in>set (siblings db owner (td_ListID x) (td_ParentID x) (td_ID x)). td_Position r \<noteq> td_Position x) \<and>
     (\<forall>p. td_ParentID x = Some p \<longrightarrow> p \<noteq> td_ID x \<and>
        (\<exists>s\<in>set (tb_rows db). td_ID s = p \<and> visible owner s \<and> td_ParentID s = None \<and> td_ListID s = td_ListID x))"

lemma siblings_iff:
  "r \<in> set (siblings db owner lst parent ex) \<longleftrightarrow>
     r \<in> set (tb_rows db) \<and> visible owner r \<and> td_ListID r = lst \<and> td_ParentID r = parent \<and> td_ID r \<noteq> ex"
  by (simp add: siblings_def)

lemma visible_live: "visible owner r \<Longrightarrow> live r" "visible owner r \<Longrightarrow> td_OwnerID r = owner"
  by (simp_all add: visible_def)

lemma commit_todosD:
  assumes "commit_todos db rws = Inr db1"
  shows "db1 = db\<lparr>tb_rows := rws\<rparr>" "list_all todo_check rws" "todo_keys rws" "todo_refs (tb_lists db) rws"
  using assms by (auto simp: commit_todos_def split: if_splits)

subsection \<open>Inserting a row\<close>

lemma insert_row_ok:
  assumes ok: "todos_ok db" and place: "place_ok db owner row" and row: "visible owner row"
    and c: "commit_todos db (tb_rows db @ [row]) = Inr db1"
  shows "rows_ok (tb_lists db) (tb_rows db @ [row])"
proof -
  let ?rws = "tb_rows db @ [row]"
  note C = commit_todosD [OF c]
  note R = rows_okD [OF ok [unfolded todos_ok_def]]
  have fresh: "td_ID r \<noteq> td_ID row" if "r \<in> set (tb_rows db)" for r
  proof -
    have "td_ID row \<notin> td_ID ` set (tb_rows db)" using C(3) by (simp add: todo_keys_def)
    then show ?thesis using that by (metis imageI)
  qed
  have "tree_ok ?rws" unfolding tree_ok_def
  proof (intro ballI allI impI)
    fix r p assume r: "r \<in> set ?rws" "live r \<and> td_ParentID r = Some p"
    show "\<exists>s\<in>set ?rws. td_ID s = p \<and> live s \<and> td_ParentID s = None \<and> td_ListID s = td_ListID r \<and> td_OwnerID s = td_OwnerID r"
    proof (cases "r = row")
      case True
      then obtain s where "s \<in> set (tb_rows db)" "td_ID s = p" "visible owner s" "td_ParentID s = None" "td_ListID s = td_ListID row"
        using place r(2) unfolding place_ok_def by blast
      then show ?thesis using True row by (auto simp: visible_def)
    next
      case False
      then have "r \<in> set (tb_rows db)" using r(1) by simp
      then obtain s where "s \<in> set (tb_rows db)" "td_ID s = p" "live s" "td_ParentID s = None" "td_ListID s = td_ListID r" "td_OwnerID s = td_OwnerID r"
        using tree_parent [OF R(5)] r(2) by blast
      then show ?thesis by auto
    qed
  qed
  moreover have "order_ok ?rws" unfolding order_ok_def
  proof (intro conjI ballI impI)
    fix r assume "r \<in> set ?rws" "live r"
    then show "valid_key (td_Position r)" using R(6) place unfolding order_ok_def place_ok_def by auto
  next
    have new: False if "r \<in> set (tb_rows db)" "live r" "td_ListID r = td_ListID row" "td_ParentID r = td_ParentID row" "td_Position r = td_Position row" for r
    proof -
      have "td_OwnerID r = td_OwnerID row" using list_owner [OF R(1) C(4), of r row] that by simp
      then have "r \<in> set (siblings db owner (td_ListID row) (td_ParentID row) (td_ID row))"
        using that fresh [OF that(1)] row by (simp add: siblings_iff visible_def)
      then show False using place that(5) unfolding place_ok_def by blast
    qed
    fix r s assume rs: "r \<in> set ?rws" "s \<in> set ?rws" and e: "live r \<and> live s \<and> td_ListID r = td_ListID s \<and> td_ParentID r = td_ParentID s \<and> td_Position r = td_Position s"
    consider "r \<in> set (tb_rows db)" "s \<in> set (tb_rows db)" | "r = row" "s = row" | "r \<in> set (tb_rows db)" "s = row" | "r = row" "s \<in> set (tb_rows db)"
      using rs by auto
    then show "td_ID r = td_ID s"
    proof cases
      case 1 then show ?thesis using order_unique [OF R(6)] e by blast
    next
      case 2 then show ?thesis by simp
    next
      case 3 then show ?thesis using new e by blast
    next
      case 4 then show ?thesis using new e by metis
    qed
  qed
  ultimately show ?thesis using C R(1) by (simp add: rows_ok_def)
qed

subsection \<open>Updating a row\<close>

lemma follow_fields [simp]:
  "td_ID (follow old lst r) = td_ID r" "td_OwnerID (follow old lst r) = td_OwnerID r" "td_ParentID (follow old lst r) = td_ParentID r"
  "td_Position (follow old lst r) = td_Position r" "live (follow old lst r) = live r" "visible owner (follow old lst r) = visible owner r"
  by (simp_all add: follow_def live_def visible_def)

lemma follow_id: "td_ParentID r \<noteq> Some (td_ID old) \<Longrightarrow> follow old lst r = r"
  by (simp add: follow_def)

lemma update_row_ok:
  assumes ok: "todos_ok db" and place: "place_ok db owner row" and row: "visible owner row"
    and old: "old \<in> set (tb_rows db)" "is_row owner (td_ID row) old"
    and kids: "td_ParentID row \<noteq> None \<longrightarrow> \<not> HasChildren db (td_ID row)"
    and rws: "rws = map (\<lambda>r. if is_row owner (td_ID row) r then row else follow old (td_ListID row) r) (tb_rows db)"
    and c: "commit_todos db rws = Inr db1"
  shows "rows_ok (tb_lists db) rws"
proof -
  note C = commit_todosD [OF c]
  note R = rows_okD [OF ok [unfolded todos_ok_def]]
  define f where "f r = (if is_row owner (td_ID row) r then row else follow old (td_ListID row) r)" for r
  have set: "set rws = f ` set (tb_rows db)" by (simp add: rws f_def)
  have ids: "td_ID old = td_ID row" "visible owner old" using old(2) by (simp_all add: is_row_def)
  have f_old: "f old = row" using old(2) by (simp add: f_def)
  have f_other: "f r = follow old (td_ListID row) r" "td_ID r \<noteq> td_ID row" if "r \<in> set (tb_rows db)" "r \<noteq> old" for r
    using row_unique [OF R(3) that(1) old(1)] that(2) ids by (auto simp: f_def is_row_def)
  have kid: "td_ParentID row = None" if "r \<in> set (tb_rows db)" "live r" "td_ParentID r = Some (td_ID row)" for r
    using kids that by (auto simp: HasChildren_def list_ex_iff)
  have par: "td_ListID r = td_ListID old" if r: "r \<in> set (tb_rows db)" "live r" "td_ParentID r = Some (td_ID row)" for r
  proof -
    obtain s where "s \<in> set (tb_rows db)" "td_ID s = td_ID row" "td_ListID s = td_ListID r" using tree_parent [OF R(5) r] by metis
    then show ?thesis using row_unique [OF R(3) _ old(1)] ids by metis
  qed
  have "tree_ok rws" unfolding tree_ok_def set
  proof (intro ballI allI impI)
    fix r' p assume "r' \<in> f ` set (tb_rows db)" and r': "live r' \<and> td_ParentID r' = Some p"
    then obtain r where r: "r \<in> set (tb_rows db)" "r' = f r" by blast
    show "\<exists>s\<in>f ` set (tb_rows db). td_ID s = p \<and> live s \<and> td_ParentID s = None \<and> td_ListID s = td_ListID r' \<and> td_OwnerID s = td_OwnerID r'"
    proof (cases "r = old")
      case True
      then have "td_ParentID row = Some p" using r' r f_old by simp
      then obtain s where s: "s \<in> set (tb_rows db)" "td_ID s = p" "p \<noteq> td_ID row" "visible owner s" "td_ParentID s = None" "td_ListID s = td_ListID row"
        using place unfolding place_ok_def by blast
      then have "s \<noteq> old" using ids by auto
      then have "f s = s" using f_other [OF s(1)] s(5) by (simp add: follow_id)
      then have "s \<in> f ` set (tb_rows db)" using s(1) by (metis image_eqI)
      then show ?thesis using s r True f_old row by (intro bexI [of _ s]) (simp_all add: visible_def)
    next
      case False
      note F = f_other [OF r(1) False]
      have live: "live r" "td_ParentID r = Some p" using r' r(2) F(1) by simp_all
      obtain s where s: "s \<in> set (tb_rows db)" "td_ID s = p" "live s" "td_ParentID s = None" "td_ListID s = td_ListID r" "td_OwnerID s = td_OwnerID r"
        using tree_parent [OF R(5) r(1) live] by blast
      show ?thesis
      proof (cases "s = old")
        case True
        then have "td_ParentID r = Some (td_ID old)" using s live by simp
        then have "td_ListID r' = td_ListID row" "td_ParentID row = None"
          using kid [OF r(1) live(1)] s True ids unfolding r(2) F(1) by (simp_all add: follow_def)
        moreover have "row \<in> f ` set (tb_rows db)" using f_old old(1) by (metis image_eqI)
        moreover have "td_OwnerID r' = td_OwnerID row" using s(6) True F(1) r(2) row ids by (simp add: visible_def)
        ultimately show ?thesis using s(2) True row ids by (intro bexI [of _ row]) (simp_all add: visible_def)
      next
        case False
        then have "td_ID s \<noteq> td_ID old" using row_unique [OF R(3) s(1) old(1)] by blast
        then have "f r = r" "f s = s" using F(1) f_other(1) [OF s(1) False] s(2,4) live(2) by (auto simp: follow_id)
        then have "s \<in> f ` set (tb_rows db)" using s(1) by (metis image_eqI)
        then show ?thesis using r(2) s \<open>f r = r\<close> by (intro bexI [of _ s]) simp_all
      qed
    qed
  qed
  moreover have "order_ok rws" unfolding order_ok_def set
  proof (intro conjI ballI impI)
    fix r' assume "r' \<in> f ` set (tb_rows db)" "live r'"
    then obtain r where r: "r \<in> set (tb_rows db)" "r' = f r" "live r'" by blast
    show "valid_key (td_Position r')"
    proof (cases "r = old")
      case True then show ?thesis using r f_old place by (simp add: place_ok_def)
    next
      case False 
      have "live r" using r f_other(1) [OF r(1) False] by simp
      then have "valid_key (td_Position r)" by (rule order_valid [OF R(6) r(1)])
      then show ?thesis using r(2) f_other(1) [OF r(1) False] by simp
    qed
  next
    have own: False if s: "s \<in> set (tb_rows db)" "s \<noteq> old" "live (f s)" "td_ListID (f s) = td_ListID row" "td_ParentID (f s) = td_ParentID row" "td_Position (f s) = td_Position row" for s
    proof -
      note F = f_other [OF s(1,2)]
      have "td_ParentID row \<noteq> Some (td_ID row)" using place unfolding place_ok_def by blast
      then have "f s = s" using F s(5) ids by (simp add: follow_id)
      moreover have "td_OwnerID (f s) = td_OwnerID row"
        using list_owner [OF R(1) C(4)] s(1,4) old(1) f_old set by (metis image_eqI)
      ultimately have "s \<in> set (siblings db owner (td_ListID row) (td_ParentID row) (td_ID row))"
        using s F(2) row by (simp add: siblings_iff visible_def)
      then show False using place s(6) \<open>f s = s\<close> unfolding place_ok_def by auto
    qed
    fix r' s' assume rs: "r' \<in> f ` set (tb_rows db)" "s' \<in> f ` set (tb_rows db)"
      and e: "live r' \<and> live s' \<and> td_ListID r' = td_ListID s' \<and> td_ParentID r' = td_ParentID s' \<and> td_Position r' = td_Position s'"
    obtain r s where r: "r \<in> set (tb_rows db)" "r' = f r" and s: "s \<in> set (tb_rows db)" "s' = f s" using rs by blast
    consider "r = old" "s = old" | "r = old" "s \<noteq> old" | "r \<noteq> old" "s = old" | "r \<noteq> old" "s \<noteq> old" by blast
    then show "td_ID r' = td_ID s'"
    proof cases
      case 1 then show ?thesis using r s by simp
    next
      case 2 then show ?thesis using own [OF s(1)] e r s f_old by metis
    next
      case 3 then show ?thesis using own [OF r(1)] e r s f_old by metis
    next
      case 4
      note Fr = f_other(1) [OF r(1) 4(1)] and Fs = f_other(1) [OF s(1) 4(2)]
      have same: "live r" "live s" "td_ParentID r = td_ParentID s" "td_Position r = td_Position s" using e r s Fr Fs by simp_all
      have "td_ListID r = td_ListID s"
      proof (cases "td_ParentID r = Some (td_ID row)")
        case True then show ?thesis using par r s same by metis
      next
        case False
        then have "f r = r" "f s = s" using Fr Fs same ids by (simp_all add: follow_id)
        then show ?thesis using e r s by simp
      qed
      then show ?thesis using order_unique [OF R(6) r(1) s(1)] same r s Fr Fs by simp
    qed
  qed
  ultimately show ?thesis using C R(1) by (simp add: rows_ok_def)
qed

text \<open>A row that stays where it is has a place.\<close>

lemma place_kept:
  assumes ok: "todos_ok db" and r: "r \<in> set (tb_rows db)" "visible owner r"
    and x: "td_ID x = td_ID r" "td_ListID x = td_ListID r" "td_ParentID x = td_ParentID r" "td_Position x = td_Position r"
  shows "place_ok db owner x" and "td_ParentID x \<noteq> None \<longrightarrow> \<not> HasChildren db (td_ID x)"
proof -
  note R = rows_okD [OF ok [unfolded todos_ok_def]]
  have lr: "live r" using r(2) by (simp add: visible_def)
  show "place_ok db owner x" unfolding place_ok_def
  proof (intro conjI allI impI ballI)
    show "valid_key (td_Position x)" using order_valid [OF R(6) r(1) lr] x(4) by simp
    fix s assume "s \<in> set (siblings db owner (td_ListID x) (td_ParentID x) (td_ID x))"
    then have s: "s \<in> set (tb_rows db)" "visible owner s" "td_ListID s = td_ListID r" "td_ParentID s = td_ParentID r" "td_ID s \<noteq> td_ID r"
      using x by (simp_all add: siblings_iff)
    show "td_Position s \<noteq> td_Position x"
      using order_unique [OF R(6) s(1) r(1) visible_live(1) [OF s(2)] lr s(3,4)] s(5) x(4) by metis
  next
    fix p assume p: "td_ParentID x = Some p"
    have "td_ParentID r = Some p" using p x by simp
    then obtain s where "s \<in> set (tb_rows db)" "td_ID s = p" "live s" "td_ParentID s = None" "td_ListID s = td_ListID r" "td_OwnerID s = td_OwnerID r"
      by (rule tree_parent [OF R(5) r(1) lr])
    then show "\<exists>s\<in>set (tb_rows db). td_ID s = p \<and> visible owner s \<and> td_ParentID s = None \<and> td_ListID s = td_ListID x"
      using r x by (auto simp: visible_def)
    have "todo_check r" using R(2) r(1) by (simp add: list_all_iff)
    then show "p \<noteq> td_ID x" using p x by (auto simp: todo_check_def)
  qed
  show "td_ParentID x \<noteq> None \<longrightarrow> \<not> HasChildren db (td_ID x)"
  proof (intro impI notI)
    assume n: "td_ParentID x \<noteq> None" and "HasChildren db (td_ID x)"
    then obtain c where c: "c \<in> set (tb_rows db)" "live c" "td_ParentID c = Some (td_ID r)" using x by (auto simp: HasChildren_def list_ex_iff)
    then obtain s where s: "s \<in> set (tb_rows db)" "td_ID s = td_ID r" "td_ParentID s = None" by (rule tree_parent [OF R(5)])
    have "s = r" by (rule row_unique [OF R(3) s(1) r(1) s(2)])
    then show False using n x s(3) by simp
  qed
qed

subsection \<open>Keys between siblings\<close>

lemma LastPosition_bound: "r \<in> set (siblings db owner lst parent ex) \<Longrightarrow> td_Position r \<le> LastPosition db owner lst parent ex"
proof -
  assume "r \<in> set (siblings db owner lst parent ex)"
  then have "td_Position r \<in> set (map td_Position (siblings db owner lst parent ex))" by simp
  then show ?thesis unfolding LastPosition_def
    by (cases "map td_Position (siblings db owner lst parent ex)")
      (simp_all only: list.case Max.set_eq_fold [symmetric] list.set finite.intros finite_set Max_ge, simp)
qed

lemma LastPosition_in:
  "LastPosition db owner lst parent ex = [] \<or> (\<exists>r\<in>set (siblings db owner lst parent ex). td_Position r = LastPosition db owner lst parent ex)"
proof (cases "map td_Position (siblings db owner lst parent ex)")
  case Nil
  then show ?thesis by (simp add: LastPosition_def)
next
  case (Cons p ps)
  have "Max (set (p # ps)) \<in> set (p # ps)" by (rule Max_in) simp_all
  then have "LastPosition db owner lst parent ex \<in> set (map td_Position (siblings db owner lst parent ex))"
    unfolding LastPosition_def Cons list.case Max.set_eq_fold .
  then show ?thesis by auto
qed

lemma NextPosition_cases:
  obtains "NextPosition db owner lst parent after ex = []" "\<forall>r\<in>set (siblings db owner lst parent ex). \<not> after < td_Position r"
  | s where "s \<in> set (siblings db owner lst parent ex)" "td_Position s = NextPosition db owner lst parent after ex" "after < td_Position s"
      "\<forall>r\<in>set (siblings db owner lst parent ex). after < td_Position r \<longrightarrow> td_Position s \<le> td_Position r"
proof (cases "filter (\<lambda>p. after < p) (map td_Position (siblings db owner lst parent ex))")
  case Nil
  show thesis
    by (rule that(1)) (use Nil in \<open>auto simp: NextPosition_def filter_empty_conv\<close>)
next
  case (Cons p ps)
  let ?n = "NextPosition db owner lst parent after ex"
  have n: "?n = Min (set (p # ps))" unfolding NextPosition_def Cons list.case Min.set_eq_fold ..
  have set: "set (p # ps) = {q \<in> td_Position ` set (siblings db owner lst parent ex). after < q}"
    unfolding Cons [symmetric] by auto
  have "?n \<in> set (p # ps)" unfolding n by (rule Min_in) simp_all
  then obtain s where s: "s \<in> set (siblings db owner lst parent ex)" "td_Position s = ?n" "after < td_Position s" unfolding set by auto
  have "?n \<le> q" if "q \<in> set (p # ps)" for q unfolding n using that by (intro Min_le) simp_all
  then have "\<forall>r\<in>set (siblings db owner lst parent ex). after < td_Position r \<longrightarrow> td_Position s \<le> td_Position r"
    unfolding s(2) set by blast
  with s show thesis by (rule that(2))
qed

lemma valid_digits: "valid_key k \<Longrightarrow> digits_only k"
  by (simp add: valid_key_def)

text \<open>A key after the last sibling.\<close>

lemma key_after_last:
  assumes "\<forall>r\<in>set (siblings db owner lst parent ex). valid_key (td_Position r)"
  shows "valid_key (KeyBetween (LastPosition db owner lst parent ex) [])"
    and "r \<in> set (siblings db owner lst parent ex) \<Longrightarrow> td_Position r < KeyBetween (LastPosition db owner lst parent ex) []"
proof -
  let ?l = "LastPosition db owner lst parent ex"
  have "digits_only ?l" using LastPosition_in [of db owner lst parent ex] assms valid_digits by (metis digits_only_simps(1))
  then have k: "?l < KeyBetween ?l [] \<and> valid_key (KeyBetween ?l [])" by (rule KeyBetween_after)
  then show "valid_key (KeyBetween ?l [])" by blast
  show "r \<in> set (siblings db owner lst parent ex) \<Longrightarrow> td_Position r < KeyBetween ?l []"
    using k LastPosition_bound [of r db owner lst parent ex] by (meson order_le_less_trans)
qed

text \<open>A key right after a given one: nothing lies between them.\<close>

lemma key_after:
  assumes "\<forall>r\<in>set (siblings db owner lst parent ex). valid_key (td_Position r)" and "digits_only a"
  shows "valid_key (KeyBetween a (NextPosition db owner lst parent a ex))"
    and "a < KeyBetween a (NextPosition db owner lst parent a ex)"
    and "r \<in> set (siblings db owner lst parent ex) \<Longrightarrow>
           (if td_Position r \<le> a then td_Position r < KeyBetween a (NextPosition db owner lst parent a ex)
            else KeyBetween a (NextPosition db owner lst parent a ex) < td_Position r)"
proof -
  let ?n = "NextPosition db owner lst parent a ex"
  have "valid_key (KeyBetween a ?n) \<and> a < KeyBetween a ?n \<and> (\<forall>r\<in>set (siblings db owner lst parent ex). a < td_Position r \<longrightarrow> KeyBetween a ?n < td_Position r)"
  proof (cases rule: NextPosition_cases [of db owner lst parent a ex])
    case 1
    then show ?thesis using KeyBetween_after [OF assms(2)] by simp
  next
    case (2 s)
    then have "valid_key ?n" "a < ?n" using assms(1) by auto
    then have "a < KeyBetween a ?n \<and> KeyBetween a ?n < ?n \<and> valid_key (KeyBetween a ?n)"
      using KeyBetween_bounded [OF assms(2)] by blast
    then show ?thesis using 2 by (metis order_less_le_trans)
  qed
  then show "valid_key (KeyBetween a ?n)" "a < KeyBetween a ?n"
    "r \<in> set (siblings db owner lst parent ex) \<Longrightarrow>
           (if td_Position r \<le> a then td_Position r < KeyBetween a ?n else KeyBetween a ?n < td_Position r)"
    by (auto simp: not_le)
qed

subsection \<open>Placing a todo\<close>

lemma load_extras_fields [simp]:
  "td_ID (load_extras db r) = td_ID r" "td_OwnerID (load_extras db r) = td_OwnerID r" "td_ListID (load_extras db r) = td_ListID r"
  "td_ParentID (load_extras db r) = td_ParentID r" "td_Position (load_extras db r) = td_Position r"
  "td_DeletedAt (load_extras db r) = td_DeletedAt r" "td_UID (load_extras db r) = td_UID r" "td_Status (load_extras db r) = td_Status r"
  "td_RRule (load_extras db r) = td_RRule r" "td_DueDate (load_extras db r) = td_DueDate r"
  by (simp_all add: load_extras_def)

lemma Todo_getD:
  assumes "Todo_get db owner i = Inr x"
  obtains r where "r \<in> set (tb_rows db)" "td_ID r = i" "visible owner r" "x = load_extras db r"
proof -
  obtain r where r: "find (\<lambda>t. td_ID t = i \<and> visible owner t) (tb_rows db) = Some r" "x = load_extras db r"
    using assms by (auto simp: Todo_get_def split: option.splits)
  then have "r \<in> set (tb_rows db)" "td_ID r = i \<and> visible owner r" by (auto simp: find_Some_iff)
  then show thesis using that r(2) by blast
qed

text \<open>The todo a request works on: a new one without a parent, or the image of a row.\<close>

definition starts_at :: "todo_db \<Rightarrow> go_id \<Rightarrow> bool \<Rightarrow> Todo \<Rightarrow> bool" where
  "starts_at db owner isNew x \<longleftrightarrow>
     isNew \<and> td_ParentID x = None \<or>
     (\<exists>r\<in>set (tb_rows db). visible owner r \<and> td_ID x = td_ID r \<and> td_ListID x = td_ListID r \<and> td_ParentID x = td_ParentID r \<and> td_Position x = td_Position r)"

lemma lookupTodoD:
  assumes "lookupTodo t db raw1 = Inr p"
  obtains r where "r \<in> set (tb_rows db)" "visible (tx_owner t) r" "p = load_extras db r"
  using assms by (auto simp: lookupTodo_def split: option.splits elim: Todo_getD)

lemma chosen_parentD:
  assumes ok: "todos_ok db" and ch: "chosen_parent t db x given o1 = Inr (lst, parent)" and st: "starts_at db (tx_owner t) isNew x"
    and p: "parent = Some p"
  shows "p \<noteq> td_ID x \<and> (\<exists>s\<in>set (tb_rows db). td_ID s = p \<and> visible (tx_owner t) s \<and> td_ParentID s = None \<and> td_ListID s = lst)"
proof (cases "opt_Set o1")
  case True
  then have "\<not> (opt_Null o1 \<or> trim_space (opt_V o1) = [])" using ch p by (auto simp: chosen_parent_def Let_def)
  then obtain q where q: "lookupTodo t db (trim_space (opt_V o1)) = Inr q"
    using True ch by (auto simp: chosen_parent_def Let_def split: sum.splits if_splits)
  then have f: "td_ID q \<noteq> td_ID x" "td_ParentID q = None" "lst = td_ListID q" "parent = Some (td_ID q)"
    using True ch p by (auto simp: chosen_parent_def Let_def split: if_splits)
  obtain r where "r \<in> set (tb_rows db)" "visible (tx_owner t) r" "q = load_extras db r" by (rule lookupTodoD [OF q])
  then show ?thesis using f p by auto
next
  case False
  then have same: "parent = td_ParentID x" "lst = td_ListID x"
    using ch p by (auto simp: chosen_parent_def Let_def split: if_splits)
  then have "td_ParentID x = Some p" using p by simp
  then obtain r where r: "r \<in> set (tb_rows db)" "visible (tx_owner t) r" "td_ID x = td_ID r" "td_ListID x = td_ListID r" "td_ParentID x = td_ParentID r" "td_Position x = td_Position r"
    using st unfolding starts_at_def by auto
  have "place_ok db (tx_owner t) x" by (rule place_kept(1) [OF ok r])
  then show ?thesis using same p unfolding place_ok_def by metis
qed

lemma siblings_valid:
  assumes "todos_ok db"
  shows "\<forall>r\<in>set (siblings db owner lst parent ex). valid_key (td_Position r)"
  using order_valid [OF rows_okD(6) [OF assms [unfolded todos_ok_def]]] by (auto simp: siblings_iff visible_def)

lemma positionAfterD:
  assumes ok: "todos_ok db" and pos: "positionAfter t db self lst parent a = Inr k"
  shows "valid_key k" and "r \<in> set (siblings db (tx_owner t) lst parent self) \<Longrightarrow> td_Position r \<noteq> k"
proof -
  note V = siblings_valid [OF ok, of "tx_owner t" lst parent self]
  obtain b where b: "k = KeyBetween b (NextPosition db (tx_owner t) lst parent b self)" "digits_only b"
  proof (cases "opt_Null a \<or> trim_space (opt_V a) = []")
    case True
    then show thesis using pos that [of "[]"] by (auto simp: positionAfter_def Let_def)
  next
    case False
    then obtain q where q: "lookupTodo t db (trim_space (opt_V a)) = Inr q" "k = KeyBetween (td_Position q) (NextPosition db (tx_owner t) lst parent (td_Position q) self)"
      using pos by (auto simp: positionAfter_def Let_def split: sum.splits if_splits)
    obtain r where r: "r \<in> set (tb_rows db)" "visible (tx_owner t) r" "q = load_extras db r" by (rule lookupTodoD [OF q(1)])
    have "valid_key (td_Position r)" using order_valid [OF rows_okD(6) [OF ok [unfolded todos_ok_def]] r(1)] r(2) by (simp add: visible_def)
    then show thesis using that q(2) r(3) valid_digits by simp
  qed
  note K = key_after [OF V b(2)]
  show "valid_key k" unfolding b(1) by (rule K(1))
  show "r \<in> set (siblings db (tx_owner t) lst parent self) \<Longrightarrow> td_Position r \<noteq> k"
    using K(3) [of r] unfolding b(1) by (auto split: if_splits)
qed

lemma relocateD:
  assumes ok: "todos_ok db" and rl: "relocate t db x lsts lo po after isNew = Inr y" and st: "starts_at db (tx_owner t) isNew x"
  shows "place_ok db (tx_owner t) y" and "\<not> isNew \<Longrightarrow> td_ParentID y \<noteq> None \<longrightarrow> \<not> HasChildren db (td_ID y)"
    and "\<exists>l p q. y = x\<lparr>td_ListID := l, td_ParentID := p, td_Position := q\<rparr>"
proof -
  obtain given where given: "chosen_list t lsts lo = Inr given" using rl by (auto simp: relocate_def split: sum.splits)
  obtain lst parent where cp: "chosen_parent t db x given po = Inr (lst, parent)"
    using rl given by (auto simp: relocate_def split: sum.splits prod.splits)
  have kids: "\<not> (parent \<noteq> None \<and> \<not> isNew \<and> HasChildren db (td_ID x))" using rl given cp by (auto simp: relocate_def)
  have rest: "(case after of
                   Some a \<Rightarrow> (case positionAfter t db (td_ID x) lst parent a of Inl e \<Rightarrow> Inl e
                     | Inr p \<Rightarrow> Inr (x\<lparr>td_ListID := lst, td_ParentID := parent, td_Position := p\<rparr>))
                 | None \<Rightarrow>
                     if isNew \<or> lst \<noteq> td_ListID x \<or> parent \<noteq> td_ParentID x
                     then Inr (x\<lparr>td_ListID := lst, td_ParentID := parent, td_Position := KeyBetween (LastPosition db (tx_owner t) lst parent (td_ID x)) []\<rparr>)
                     else Inr (x\<lparr>td_ListID := lst, td_ParentID := parent, td_Position := td_Position x\<rparr>)) = Inr y"
    using rl unfolding relocate_def given cp sum.case prod.case if_not_P [OF kids] Let_def .
  note V = siblings_valid [OF ok, of "tx_owner t" lst parent "td_ID x"]
  have "\<exists>k. y = x\<lparr>td_ListID := lst, td_ParentID := parent, td_Position := k\<rparr> \<and> valid_key k \<and>
      (\<forall>r\<in>set (siblings db (tx_owner t) lst parent (td_ID x)). td_Position r \<noteq> k)"
  proof (cases after)
    case (Some a)
    then obtain k where k: "positionAfter t db (td_ID x) lst parent a = Inr k" "y = x\<lparr>td_ListID := lst, td_ParentID := parent, td_Position := k\<rparr>"
      using rest by (auto split: sum.splits)
    then show ?thesis using positionAfterD [OF ok k(1)] by blast
  next
    case None
    show ?thesis
    proof (cases "isNew \<or> lst \<noteq> td_ListID x \<or> parent \<noteq> td_ParentID x")
      case True
      then have "y = x\<lparr>td_ListID := lst, td_ParentID := parent, td_Position := KeyBetween (LastPosition db (tx_owner t) lst parent (td_ID x)) []\<rparr>"
        using rest None by simp
      then show ?thesis using key_after_last [OF V] by fastforce
    next
      case False
      then have y: "y = x\<lparr>td_ListID := lst, td_ParentID := parent, td_Position := td_Position x\<rparr>" using rest None by simp
      obtain r where r: "r \<in> set (tb_rows db)" "visible (tx_owner t) r" "td_ID x = td_ID r" "td_ListID x = td_ListID r" "td_ParentID x = td_ParentID r" "td_Position x = td_Position r"
        using st False unfolding starts_at_def by blast
      have "place_ok db (tx_owner t) x" by (rule place_kept(1) [OF ok r])
      then show ?thesis using y False unfolding place_ok_def by (intro exI [of _ "td_Position x"]) auto
    qed
  qed
  then obtain k where k: "y = x\<lparr>td_ListID := lst, td_ParentID := parent, td_Position := k\<rparr>" "valid_key k"
      "\<forall>r\<in>set (siblings db (tx_owner t) lst parent (td_ID x)). td_Position r \<noteq> k" by blast
  show "place_ok db (tx_owner t) y" unfolding place_ok_def k(1) using k(2,3) chosen_parentD [OF ok cp st] by simp
  show "\<not> isNew \<Longrightarrow> td_ParentID y \<noteq> None \<longrightarrow> \<not> HasChildren db (td_ID y)" using kids by (auto simp: k(1))
  show "\<exists>l p q. y = x\<lparr>td_ListID := l, td_ParentID := p, td_Position := q\<rparr>" using k(1) by blast
qed

subsection \<open>The statements keep the invariant\<close>

text \<open>What a patch leaves as it is.\<close>

definition place_key :: "Todo \<Rightarrow> go_id \<times> go_id \<times> go_id \<times> go_id option \<times> string \<times> go_time option \<times> string" where
  "place_key t = (td_ID t, td_OwnerID t, td_ListID t, td_ParentID t, td_Position t, td_DeletedAt t, td_UID t)"

lemma stored_todo_place [simp]: "place_key (stored_todo t) = place_key t"
  by (simp add: place_key_def stored_todo_def)

lemma updated_todo_fields [simp]:
  "td_ID (updated_todo db x old) = td_ID old" "td_OwnerID (updated_todo db x old) = td_OwnerID old"
  "td_ListID (updated_todo db x old) = td_ListID x" "td_ParentID (updated_todo db x old) = td_ParentID x"
  "td_Position (updated_todo db x old) = td_Position x" "td_DeletedAt (updated_todo db x old) = td_DeletedAt old"
  "td_UID (updated_todo db x old) = td_UID old"
  by (simp_all add: updated_todo_def stored_todo_def)

lemma new_row_fields [simp]:
  "td_ID (new_row t db x) = td_ID x" "td_OwnerID (new_row t db x) = tx_owner t" "td_ListID (new_row t db x) = td_ListID x"
  "td_ParentID (new_row t db x) = td_ParentID x" "td_Position (new_row t db x) = td_Position x" "td_DeletedAt (new_row t db x) = None"
  "td_UID (new_row t db x) = td_UID x"
  by (simp_all add: new_row_def stored_todo_def)

text \<open>The rows of the other accounts.\<close>

definition others :: "go_id \<Rightarrow> todo_db \<Rightarrow> Todo list" where
  "others owner db = filter (\<lambda>r. td_OwnerID r \<noteq> owner) (tb_rows db)"

definition keeps :: "go_id \<Rightarrow> todo_db \<Rightarrow> todo_db \<Rightarrow> bool" where
  "keeps owner db db' \<longleftrightarrow> (todos_ok db \<longrightarrow> todos_ok db' \<and> others owner db' = others owner db)"

lemma keeps_refl [simp]: "keeps owner db db"
  by (simp add: keeps_def)

lemma keeps_trans: "keeps owner a b \<Longrightarrow> keeps owner b c \<Longrightarrow> keeps owner a c"
  by (simp add: keeps_def)

text \<open>Checklists, the change log and the queue are not part of it.\<close>

lemma keeps_rows: "tb_lists db' = tb_lists db \<Longrightarrow> tb_rows db' = tb_rows db \<Longrightarrow> keeps owner db db'"
  by (simp add: keeps_def todos_ok_def others_def)

lemma with_change_rows [simp]: "tb_rows (with_change t db x op r) = tb_rows db" "tb_lists (with_change t db x op r) = tb_lists db"
  "tb_checks (with_change t db x op r) = tb_checks db"
  by (simp_all add: with_change_def)

lemma InsertCheck_rows: "InsertCheck db c = Inr (out, db') \<Longrightarrow> tb_rows db' = tb_rows db \<and> tb_lists db' = tb_lists db"
  by (auto simp: InsertCheck_def commit_checks_def Let_def split: if_splits)

lemma insert_checks_rows: "insert_checks db i cs = Inr (out, db') \<Longrightarrow> tb_rows db' = tb_rows db \<and> tb_lists db' = tb_lists db"
proof (induction cs arbitrary: db out)
  case (Cons c cs)
  obtain saved db1 rest where "InsertCheck db (c\<lparr>ck_TodoID := i\<rparr>) = Inr (saved, db1)" "insert_checks db1 i cs = Inr (rest, db')"
    using Cons.prems by (auto split: sum.splits)
  then show ?case using Cons.IH InsertCheck_rows by metis
qed simp

lemma Todo_InsertD:
  assumes "Todo_Insert t db x = Inr (out, db')"
  shows "tb_rows db' = tb_rows db @ [new_row t db x]" "tb_lists db' = tb_lists db"
    and "\<exists>db1. commit_todos db (tb_rows db @ [new_row t db x]) = Inr db1"
    and "\<exists>cs. out = (new_row t db x)\<lparr>td_Checks := cs\<rparr>"
proof -
  obtain db1 where c: "commit_todos db (tb_rows db @ [new_row t db x]) = Inr db1"
    using assms by (auto simp: Todo_Insert_def Let_def split: sum.splits if_splits)
  obtain cs db2 where i: "insert_checks db1 (td_ID (new_row t db x)) (td_Checks x) = Inr (cs, db2)"
    using assms c by (auto simp: Todo_Insert_def Let_def split: sum.splits if_splits)
  have o: "db' = with_change t db2 ((new_row t db x)\<lparr>td_Checks := cs\<rparr>) ''create'' (todoRange (en_zones (tx_env t)) ((new_row t db x)\<lparr>td_Checks := cs\<rparr>))"
    "out = (new_row t db x)\<lparr>td_Checks := cs\<rparr>"
    using assms c i by (auto simp: Todo_Insert_def Let_def split: if_splits)
  have "tb_rows db2 = tb_rows db1 \<and> tb_lists db2 = tb_lists db1" by (rule insert_checks_rows [OF i])
  then show "tb_rows db' = tb_rows db @ [new_row t db x]" "tb_lists db' = tb_lists db"
    using commit_todosD(1) [OF c] by (simp_all add: o(1))
  show "\<exists>db1. commit_todos db (tb_rows db @ [new_row t db x]) = Inr db1" using c by blast
  show "\<exists>cs. out = (new_row t db x)\<lparr>td_Checks := cs\<rparr>" using o(2) by blast
qed

lemma Todo_Insert_keeps:
  assumes "Todo_Insert t db x = Inr (out, db')" and "place_ok db (tx_owner t) x"
  shows "keeps (tx_owner t) db db'"
  unfolding keeps_def
proof
  assume ok: "todos_ok db"
  note I = Todo_InsertD [OF assms(1)]
  obtain db1 where c: "commit_todos db (tb_rows db @ [new_row t db x]) = Inr db1" using I(3) by blast
  have "place_ok db (tx_owner t) (new_row t db x)" using assms(2) by (simp add: place_ok_def)
  moreover have "visible (tx_owner t) (new_row t db x)" by (simp add: visible_def live_def)
  ultimately have "rows_ok (tb_lists db) (tb_rows db @ [new_row t db x])" by (rule insert_row_ok [OF ok _ _ c])
  then show "todos_ok db' \<and> others (tx_owner t) db' = others (tx_owner t) db" using I(1,2) by (simp add: todos_ok_def others_def)
qed

lemma Todo_UpdateD:
  assumes "Todo_Update t db x = Inr (out, db')"
  obtains old db1 rws where "old \<in> set (tb_rows db)" "is_row (tx_owner t) (td_ID x) old"
    "rws = map (\<lambda>r. if is_row (tx_owner t) (td_ID x) r then updated_todo db x old else follow old (td_ListID x) r) (tb_rows db)"
    "commit_todos db rws = Inr db1" "tb_rows db' = rws" "tb_lists db' = tb_lists db"
    "out = (updated_todo db x old)\<lparr>td_Checks := td_Checks x\<rparr>"
proof -
  obtain old where f: "find (is_row (tx_owner t) (td_ID x)) (tb_rows db) = Some old"
    using assms by (auto simp: Todo_Update_def split: option.splits)
  then have old: "old \<in> set (tb_rows db)" "is_row (tx_owner t) (td_ID x) old" by (auto simp: find_Some_iff)
  define rws where "rws = map (\<lambda>r. if is_row (tx_owner t) (td_ID x) r then updated_todo db x old else follow old (td_ListID x) r) (tb_rows db)"
  note u = assms [unfolded Todo_Update_def f option.case Let_def updated_todo_fields, folded rws_def]
  have d: "depth_ok (tb_rows db) (updated_todo db x old)" using u by (simp split: if_splits)
  then obtain db1 where c: "commit_todos db rws = Inr db1" using u by (auto split: sum.splits)
  show thesis
  proof (rule that [OF old rws_def c])
    show "tb_rows db' = rws" "tb_lists db' = tb_lists db" "out = (updated_todo db x old)\<lparr>td_Checks := td_Checks x\<rparr>"
      using u d c commit_todosD(1) [OF c] by (auto split: if_splits)
  qed
qed

lemma Todo_Update_keeps:
  assumes u: "Todo_Update t db x = Inr (out, db')" and place: "place_ok db (tx_owner t) x"
    and kids: "td_ParentID x \<noteq> None \<longrightarrow> \<not> HasChildren db (td_ID x)"
  shows "keeps (tx_owner t) db db'"
  unfolding keeps_def
proof
  assume ok: "todos_ok db"
  note R = rows_okD [OF ok [unfolded todos_ok_def]]
  obtain old db1 rws where U: "old \<in> set (tb_rows db)" "is_row (tx_owner t) (td_ID x) old"
    "rws = map (\<lambda>r. if is_row (tx_owner t) (td_ID x) r then updated_todo db x old else follow old (td_ListID x) r) (tb_rows db)"
    "commit_todos db rws = Inr db1" "tb_rows db' = rws" "tb_lists db' = tb_lists db" by (rule Todo_UpdateD [OF u])
  have i: "td_ID old = td_ID x" "visible (tx_owner t) old" using U(2) by (simp_all add: is_row_def)
  have "rows_ok (tb_lists db) rws"
  proof (rule update_row_ok [OF ok _ _ U(1) _ _ _ U(4)])
    show "place_ok db (tx_owner t) (updated_todo db x old)" using place i by (simp add: place_ok_def)
    show "visible (tx_owner t) (updated_todo db x old)" using i by (simp add: visible_def live_def)
    show "is_row (tx_owner t) (td_ID (updated_todo db x old)) old" using U(2) i by simp
    show "td_ParentID (updated_todo db x old) \<noteq> None \<longrightarrow> \<not> HasChildren db (td_ID (updated_todo db x old))" using kids i by simp
    show "rws = map (\<lambda>r. if is_row (tx_owner t) (td_ID (updated_todo db x old)) r then updated_todo db x old
            else follow old (td_ListID (updated_todo db x old)) r) (tb_rows db)" using U(3) i by simp
  qed
  moreover have "others (tx_owner t) db' = others (tx_owner t) db"
  proof -
    have same: "(if is_row (tx_owner t) (td_ID x) r then updated_todo db x old else follow old (td_ListID x) r) = r"
      if r: "r \<in> set (tb_rows db)" "td_OwnerID r \<noteq> tx_owner t" for r
    proof -
      have "\<not> is_row (tx_owner t) (td_ID x) r" using r(2) by (simp add: is_row_def visible_def)
      moreover have "follow old (td_ListID x) r = r"
      proof (rule ccontr)
        assume "follow old (td_ListID x) r \<noteq> r"
        then have "td_ListID r = td_ListID old" by (auto simp: follow_def split: if_splits)
        then show False using list_owner [OF R(1,4) r(1) U(1)] r(2) i by (simp add: visible_def)
      qed
      ultimately show ?thesis by simp
    qed
    have own: "td_OwnerID (if is_row (tx_owner t) (td_ID x) r then updated_todo db x old else follow old (td_ListID x) r) = td_OwnerID r"
      for r using i by (auto simp: is_row_def visible_def)
    show ?thesis unfolding others_def U(5,3) filter_map o_def own using same by (intro map_idI) auto
  qed
  ultimately show "todos_ok db' \<and> others (tx_owner t) db' = others (tx_owner t) db" by (simp add: todos_ok_def U(5,6))
qed

text \<open>A change of rows that leaves what the constraints speak of.\<close>

lemma rows_same_shape:
  assumes ok: "rows_ok ls rws"
    and g: "\<And>r. r \<in> set rws \<Longrightarrow> place_key (g r) = place_key r \<and> todo_check (g r)"
  shows "rows_ok ls (map g rws)"
proof -
  note R = rows_okD [OF ok]
  have k: "td_ID (g r) = td_ID r" "td_OwnerID (g r) = td_OwnerID r" "td_ListID (g r) = td_ListID r" "td_ParentID (g r) = td_ParentID r"
    "td_Position (g r) = td_Position r" "live (g r) = live r" "td_UID (g r) = td_UID r" if "r \<in> set rws" for r
    using g [OF that] by (simp_all add: place_key_def live_def)
  have "map td_ID (map g rws) = map td_ID rws" using k by simp
  moreover have "uid_rows (map g rws) = uid_rows rws"
    unfolding uid_rows_def filter_map map_map o_def using k by (auto intro!: map_cong filter_cong)
  ultimately have "todo_keys (map g rws)" using R(3) unfolding todo_keys_def by (simp only:)
  moreover have "todo_refs ls (map g rws)"
    using R(4) k unfolding todo_refs_def list_all_iff list_ex_iff by (auto split: option.splits)
  moreover have "tree_ok (map g rws)" unfolding tree_ok_def
  proof (intro ballI allI impI)
    fix r' p assume "r' \<in> set (map g rws)" and e: "live r' \<and> td_ParentID r' = Some p"
    then obtain r where r: "r \<in> set rws" "r' = g r" by auto
    then obtain s where "s \<in> set rws" "td_ID s = p" "live s" "td_ParentID s = None" "td_ListID s = td_ListID r" "td_OwnerID s = td_OwnerID r"
      using tree_parent [OF R(5) r(1)] e k [OF r(1)] by metis
    then show "\<exists>s\<in>set (map g rws). td_ID s = p \<and> live s \<and> td_ParentID s = None \<and> td_ListID s = td_ListID r' \<and> td_OwnerID s = td_OwnerID r'"
      using k r by (intro bexI [of _ "g s"]) simp_all
  qed
  moreover have "order_ok (map g rws)" unfolding order_ok_def
  proof (intro conjI ballI impI)
    fix r' assume "r' \<in> set (map g rws)" "live r'"
    then obtain r where "r \<in> set rws" "r' = g r" "live r'" by auto
    then show "valid_key (td_Position r')" using k order_valid [OF R(6)] by simp
  next
    fix r' s' assume "r' \<in> set (map g rws)" "s' \<in> set (map g rws)"
      and e: "live r' \<and> live s' \<and> td_ListID r' = td_ListID s' \<and> td_ParentID r' = td_ParentID s' \<and> td_Position r' = td_Position s'"
    then obtain r s where rs: "r \<in> set rws" "r' = g r" "s \<in> set rws" "s' = g s" by auto
    then show "td_ID r' = td_ID s'" using k [OF rs(1)] k [OF rs(3)] e order_unique [OF R(6) rs(1,3)] by simp
  qed
  moreover have "list_all todo_check (map g rws)" using g by (auto simp: list_all_iff)
  ultimately show ?thesis using R(1) by (simp add: rows_ok_def)
qed

lemma others_map:
  "(\<And>r. r \<in> set rws \<Longrightarrow> td_OwnerID (g r) = td_OwnerID r \<and> (td_OwnerID r \<noteq> owner \<longrightarrow> g r = r)) \<Longrightarrow>
     filter (\<lambda>r. td_OwnerID r \<noteq> owner) (map g rws) = filter (\<lambda>r. td_OwnerID r \<noteq> owner) rws"
  by (induction rws) auto

lemma todo_check_touch: "todo_check (r\<lparr>td_Version := v, td_UpdatedAt := u\<rparr>) = todo_check r"
  by (simp add: todo_check_def)

lemma Todo_Touch_keeps:
  assumes "Todo_Touch t db x = Inr (out, db')"
  shows "keeps (tx_owner t) db db'"
  unfolding keeps_def
proof
  assume ok: "todos_ok db"
  define g where "g r = (if is_row (tx_owner t) (td_ID x) r then r\<lparr>td_Version := td_Version r + 1, td_UpdatedAt := tb_now db\<rparr> else r)" for r
  have d: "tb_rows db' = map g (tb_rows db)" "tb_lists db' = tb_lists db"
    using assms by (auto simp: Todo_Touch_def Let_def g_def split: option.splits)
  have "rows_ok (tb_lists db) (map g (tb_rows db))"
  proof (rule rows_same_shape [OF ok [unfolded todos_ok_def]])
    fix r assume "r \<in> set (tb_rows db)"
    then have "todo_check r" using rows_okD(2) [OF ok [unfolded todos_ok_def]] by (simp add: list_all_iff)
    then show "place_key (g r) = place_key r \<and> todo_check (g r)" by (simp add: g_def place_key_def todo_check_touch)
  qed
  moreover have "others (tx_owner t) db' = others (tx_owner t) db"
    unfolding others_def d by (rule others_map) (simp add: g_def is_row_def visible_def)
  ultimately show "todos_ok db' \<and> others (tx_owner t) db' = others (tx_owner t) db" by (simp add: todos_ok_def d)
qed

lemma Todo_Delete_keeps:
  assumes "Todo_Delete t db x at = Inr db'"
  shows "keeps (tx_owner t) db db'"
  unfolding keeps_def
proof
  assume ok: "todos_ok db"
  note R = rows_okD [OF ok [unfolded todos_ok_def]]
  define g where "g r = (if drops_row (tx_owner t) (td_ID x) r
      then r\<lparr>td_DeletedAt := Some (db_time at), td_Version := td_Version r + 1, td_UpdatedAt := tb_now db\<rparr> else r)" for r
  have d: "tb_rows db' = map g (tb_rows db)" "tb_lists db' = tb_lists db"
    using assms by (auto simp: Todo_Delete_def Let_def g_def split: if_splits)
  have k: "td_ID (g r) = td_ID r" "td_OwnerID (g r) = td_OwnerID r" "td_ListID (g r) = td_ListID r" "td_ParentID (g r) = td_ParentID r"
    "td_Position (g r) = td_Position r" "td_UID (g r) = td_UID r" "todo_check (g r) = todo_check r" for r
    by (simp_all add: g_def todo_check_def)
  have liv: "live (g r) \<longleftrightarrow> live r \<and> \<not> drops_row (tx_owner t) (td_ID x) r" for r
    by (auto simp: g_def live_def drops_row_def visible_def)
  have "uid_rows (map g (tb_rows db)) = map (\<lambda>t. (td_ListID t, td_UID t))
      (filter (\<lambda>r. \<not> drops_row (tx_owner t) (td_ID x) r) (filter (\<lambda>r. live r \<and> td_ParentID r = None \<and> td_UID r \<noteq> []) (tb_rows db)))"
    unfolding uid_rows_def filter_map map_map o_def filter_filter k liv by (rule arg_cong) (auto intro!: filter_cong)
  moreover have "distinct (map (\<lambda>t. (td_ListID t, td_UID t)) (filter (\<lambda>r. live r \<and> td_ParentID r = None \<and> td_UID r \<noteq> []) (tb_rows db)))"
    using R(3) by (simp add: todo_keys_def uid_rows_def)
  ultimately have "distinct (uid_rows (map g (tb_rows db)))" by (simp only: distinct_map_filter)
  moreover have "map td_ID (map g (tb_rows db)) = map td_ID (tb_rows db)" by (simp add: k)
  ultimately have "todo_keys (map g (tb_rows db))" using R(3) unfolding todo_keys_def by (simp only:)
  moreover have "todo_refs (tb_lists db) (map g (tb_rows db))"
    using R(4) k unfolding todo_refs_def list_all_iff list_ex_iff by (auto split: option.splits)
  moreover have "tree_ok (map g (tb_rows db))" unfolding tree_ok_def
  proof (intro ballI allI impI)
    fix r' p assume "r' \<in> set (map g (tb_rows db))" and e: "live r' \<and> td_ParentID r' = Some p"
    then obtain r where r: "r \<in> set (tb_rows db)" "r' = g r" by auto
    then have lr: "live r" "td_ParentID r = Some p" "\<not> drops_row (tx_owner t) (td_ID x) r" using e liv k by simp_all
    obtain s where s: "s \<in> set (tb_rows db)" "td_ID s = p" "live s" "td_ParentID s = None" "td_ListID s = td_ListID r" "td_OwnerID s = td_OwnerID r"
      by (rule tree_parent [OF R(5) r(1) lr(1,2)])
    have "\<not> drops_row (tx_owner t) (td_ID x) s" using lr s by (auto simp: drops_row_def visible_def)
    then show "\<exists>s\<in>set (map g (tb_rows db)). td_ID s = p \<and> live s \<and> td_ParentID s = None \<and> td_ListID s = td_ListID r' \<and> td_OwnerID s = td_OwnerID r'"
      using s r liv k by (intro bexI [of _ "g s"]) simp_all
  qed
  moreover have "order_ok (map g (tb_rows db))" unfolding order_ok_def
  proof (intro conjI ballI impI)
    fix r' assume "r' \<in> set (map g (tb_rows db))" "live r'"
    then show "valid_key (td_Position r')" using k liv order_valid [OF R(6)] by auto
  next
    fix r' s' assume "r' \<in> set (map g (tb_rows db))" "s' \<in> set (map g (tb_rows db))"
      and e: "live r' \<and> live s' \<and> td_ListID r' = td_ListID s' \<and> td_ParentID r' = td_ParentID s' \<and> td_Position r' = td_Position s'"
    then obtain r s where rs: "r \<in> set (tb_rows db)" "r' = g r" "s \<in> set (tb_rows db)" "s' = g s" by auto
    then show "td_ID r' = td_ID s'" using k liv e order_unique [OF R(6) rs(1,3)] by simp
  qed
  moreover have "list_all todo_check (map g (tb_rows db))" using R(2) k by (simp add: list_all_iff)
  ultimately have "rows_ok (tb_lists db) (map g (tb_rows db))" using R(1) by (simp add: rows_ok_def)
  moreover have "others (tx_owner t) db' = others (tx_owner t) db"
    unfolding others_def d by (rule others_map) (simp add: g_def drops_row_def visible_def)
  ultimately show "todos_ok db' \<and> others (tx_owner t) db' = others (tx_owner t) db" by (simp add: todos_ok_def d)
qed

subsection \<open>The requests keep the invariant\<close>

lemma patch_steps_place [simp]:
  "place_key (snd (todo_title p s)) = place_key (snd s)" "place_key (snd (todo_body p s)) = place_key (snd s)"
  "place_key (snd (todo_priority p s)) = place_key (snd s)" "place_key (snd (todo_due_date p s)) = place_key (snd s)"
  "place_key (snd (todo_due_time p s)) = place_key (snd s)" "place_key (snd (todo_duration p s)) = place_key (snd s)"
  "place_key (snd (todo_timezone env p s)) = place_key (snd s)" "place_key (snd (todo_rrule env p s)) = place_key (snd s)"
  "place_key (snd (todo_show p n s)) = place_key (snd s)" "place_key (snd (todo_reminders p s)) = place_key (snd s)"
  "place_key (snd (todo_checks fresh p n now s)) = place_key (snd s)"
  by (simp_all add: place_key_def todo_title_def todo_body_def todo_priority_def todo_due_date_def todo_due_time_def todo_duration_def
      todo_timezone_def todo_rrule_def todo_show_def todo_reminders_def todo_checks_def Let_def
      split: prod.split option.split sum.split)

lemma applyTodo_place: "applyTodo env fresh x p n now = Inr y \<Longrightarrow> place_key y = place_key x"
  by (auto simp: applyTodo_def Let_def split: option.splits)

lemma place_keyD:
  "place_key y = place_key x \<Longrightarrow> td_ID y = td_ID x \<and> td_OwnerID y = td_OwnerID x \<and> td_ListID y = td_ListID x \<and>
     td_ParentID y = td_ParentID x \<and> td_Position y = td_Position x"
  by (simp add: place_key_def)

lemma withTodo_keeps:
  assumes "\<And>x r out db'. todos_ok db \<Longrightarrow> r \<in> set (tb_rows db) \<Longrightarrow> visible (tx_owner t) r \<Longrightarrow> x = load_extras db r \<Longrightarrow> fn db x = Inr (out, db') \<Longrightarrow>
             keeps (tx_owner t) db db'"
  shows "keeps (tx_owner t) db (snd (withTodo t db i ifMatch fn))"
proof (cases "todos_ok db")
  case False
  then show ?thesis by (simp add: keeps_def)
next
  case True
  show ?thesis
  proof (cases "Todo_get db (tx_owner t) i")
    case (Inl e)
    then show ?thesis by (simp add: withTodo_def WithTodos_def)
  next
    case (Inr x)
    obtain r where r: "r \<in> set (tb_rows db)" "visible (tx_owner t) r" "x = load_extras db r" using Todo_getD [OF Inr] by metis
    show ?thesis
    proof (cases "CheckIfMatch ifMatch (Todo_ETag x)")
      case (Some e)
      then show ?thesis using Inr by (simp add: withTodo_def WithTodos_def)
    next
      case None
      then show ?thesis using Inr assms [OF True r] by (auto simp: withTodo_def WithTodos_def split: sum.split)
    qed
  qed
qed

lemma starts_row: "r \<in> set (tb_rows db) \<Longrightarrow> visible owner r \<Longrightarrow> place_key y = place_key (load_extras db r) \<Longrightarrow> starts_at db owner n y"
  unfolding starts_at_def by (auto simp: place_key_def)

lemma Todo_Update_same_place:
  assumes ok: "todos_ok db" and r: "r \<in> set (tb_rows db)" "visible (tx_owner t) r"
    and y: "td_ID y = td_ID r" "td_ListID y = td_ListID r" "td_ParentID y = td_ParentID r" "td_Position y = td_Position r"
    and u: "Todo_Update t db y = Inr (out, db')"
  shows "keeps (tx_owner t) db db'"
  by (rule Todo_Update_keeps [OF u place_kept [OF ok r y]])

lemma Create_keeps: "keeps (tx_owner t) db (snd (Todos_Create t db fresh now p))"
proof (cases "todos_ok db")
  case ok: True
  show ?thesis
  proof (cases "fst (Todos_Create t db fresh now p)")
    case (Inl e)
    then have "snd (Todos_Create t db fresh now p) = db"
      by (auto simp: Todos_Create_def WithTodos_def Let_def split: prod.splits sum.splits if_splits)
    then show ?thesis by simp
  next
    case (Inr out)
    obtain lsts def1 where lm: "listMap db (tx_owner t) = (lsts, def1)" by (cases "listMap db (tx_owner t)")
    obtain tz loc where uz: "userZone (tx_env t) (tb_cal db) (tx_owner t) = Inr (tz, loc)"
      using Inr lm by (auto simp: Todos_Create_def split: sum.splits)
    define x0 where "x0 = Todo0\<lparr>td_ID := fresh 0, td_OwnerID := tx_owner t, td_ListID := tl_ID def1, td_Status := ''needs_action'', td_TZ := tz, td_Version := 1\<rparr>"
    obtain x where x: "applyTodo (tx_env t) (\<lambda>i. fresh (i + 1)) x0 p True now = Inr x"
      using Inr lm uz by (auto simp: Todos_Create_def Let_def x0_def [symmetric] split: sum.splits)
    obtain y db' where y: "relocate t db x lsts (tdp_ListID p) (tdp_ParentID p) None True = Inr y" "Todo_Insert t db y = Inr (out, db')"
      "snd (Todos_Create t db fresh now p) = db'"
      using Inr lm uz x by (auto simp: Todos_Create_def WithTodos_def Let_def x0_def [symmetric] split: sum.splits if_splits)
    have "td_ParentID x = None" using place_keyD [OF applyTodo_place [OF x]] by (simp add: x0_def Todo0_def)
    then have "starts_at db (tx_owner t) True x" by (simp add: starts_at_def)
    then have "place_ok db (tx_owner t) y" by (rule relocateD(1) [OF ok y(1)])
    then show ?thesis unfolding y(3) by (rule Todo_Insert_keeps [OF y(2)])
  qed
qed (simp add: keeps_def)

lemma Update_keeps: "keeps (tx_owner t) db (snd (Todos_Update t db i fresh now p ifMatch))"
proof -
  obtain lsts def1 where lm: "listMap db (tx_owner t) = (lsts, def1)" by (cases "listMap db (tx_owner t)")
  show ?thesis unfolding Todos_Update_def lm prod.case
  proof (rule withTodo_keeps)
    fix x r out db'
    assume ok: "todos_ok db" and r: "r \<in> set (tb_rows db)" "visible (tx_owner t) r" and x: "x = load_extras db r"
      and f: "(case applyTodo (tx_env t) fresh x p False now of Inl e \<Rightarrow> Inl e
          | Inr y \<Rightarrow> if opt_Set (tdp_ListID p) \<or> opt_Set (tdp_ParentID p)
              then (case relocate t db y lsts (tdp_ListID p) (tdp_ParentID p) None False of Inl e \<Rightarrow> Inl e | Inr z \<Rightarrow> Todo_Update t db z)
              else Todo_Update t db y) = Inr (out, db')"
    obtain y where y: "applyTodo (tx_env t) fresh x p False now = Inr y" using f by (auto split: sum.splits)
    have pk: "place_key y = place_key (load_extras db r)" using applyTodo_place [OF y] x by simp
    show "keeps (tx_owner t) db db'"
    proof (cases "opt_Set (tdp_ListID p) \<or> opt_Set (tdp_ParentID p)")
      case True
      then obtain z where z: "relocate t db y lsts (tdp_ListID p) (tdp_ParentID p) None False = Inr z" "Todo_Update t db z = Inr (out, db')"
        using f y by (auto split: sum.splits)
      note P = relocateD [OF ok z(1) starts_row [OF r pk]]
      show ?thesis by (rule Todo_Update_keeps [OF z(2) P(1) P(2)]) simp
    next
      case False
      then have u: "Todo_Update t db y = Inr (out, db')" using f y by simp
      show ?thesis by (rule Todo_Update_same_place [OF ok r _ _ _ _ u]) (use place_keyD [OF pk] in simp_all)
    qed
  qed
qed

lemma Move_keeps: "keeps (tx_owner t) db (snd (Todos_Move t db i m ifMatch))"
proof -
  obtain lsts def1 where lm: "listMap db (tx_owner t) = (lsts, def1)" by (cases "listMap db (tx_owner t)")
  show ?thesis unfolding Todos_Move_def lm prod.case
  proof (rule withTodo_keeps)
    fix x r out db'
    assume ok: "todos_ok db" and r: "r \<in> set (tb_rows db)" "visible (tx_owner t) r" and x: "x = load_extras db r"
      and f: "(case relocate t db x lsts (tdm_ListID m) (tdm_ParentID m) (if opt_Set (tdm_AfterID m) then Some (tdm_AfterID m) else None) False of
            Inl e \<Rightarrow> Inl e | Inr y \<Rightarrow> Todo_Update t db y) = Inr (out, db')"
    obtain z where z: "relocate t db x lsts (tdm_ListID m) (tdm_ParentID m) (if opt_Set (tdm_AfterID m) then Some (tdm_AfterID m) else None) False = Inr z"
      "Todo_Update t db z = Inr (out, db')" using f by (auto split: sum.splits)
    have "place_key x = place_key (load_extras db r)" by (simp add: x)
    note P = relocateD [OF ok z(1) starts_row [OF r this]]
    show "keeps (tx_owner t) db db'" by (rule Todo_Update_keeps [OF z(2) P(1) P(2)]) simp
  qed
qed

lemma next_copy_place:
  assumes ok: "todos_ok db" and r: "r \<in> set (tb_rows db)" "visible (tx_owner t) r"
    and ins: "Todo_Insert t db (next_copy t db fresh (load_extras db r) dd rule) = Inr (out, db')"
  shows "place_ok db (tx_owner t) (next_copy t db fresh (load_extras db r) dd rule)"
proof -
  let ?c = "next_copy t db fresh (load_extras db r) dd rule"
  let ?k = "KeyBetween (td_Position r) (NextPosition db (tx_owner t) (td_ListID r) (td_ParentID r) (td_Position r) (td_ID r))"
  note R = rows_okD [OF ok [unfolded todos_ok_def]]
  have c: "td_ID ?c = fresh 0" "td_ListID ?c = td_ListID r" "td_ParentID ?c = td_ParentID r" "td_Position ?c = ?k"
    by (simp_all add: next_copy_def)
  have lr: "live r" using r(2) by (simp add: visible_def)
  have dig: "digits_only (td_Position r)" by (rule valid_digits [OF order_valid [OF R(6) r(1) lr]])
  note K = key_after [OF siblings_valid [OF ok, of "tx_owner t" "td_ListID r" "td_ParentID r" "td_ID r"] dig]
  have keep: "place_ok db (tx_owner t) r" by (rule place_kept(1) [OF ok r]) simp_all
  show ?thesis unfolding place_ok_def c
  proof (intro conjI ballI allI impI)
    show "valid_key ?k" by (rule K(1))
    fix s assume "s \<in> set (siblings db (tx_owner t) (td_ListID r) (td_ParentID r) (fresh 0))"
    then have s: "s \<in> set (tb_rows db)" "visible (tx_owner t) s" "td_ListID s = td_ListID r" "td_ParentID s = td_ParentID r" by (simp_all add: siblings_iff)
    show "td_Position s \<noteq> ?k"
    proof (cases "td_ID s = td_ID r")
      case True
      then have "s = r" by (rule row_unique [OF R(3) s(1) r(1)])
      then show ?thesis using K(2) by auto
    next
      case False
      then have "s \<in> set (siblings db (tx_owner t) (td_ListID r) (td_ParentID r) (td_ID r))" using s by (simp add: siblings_iff)
      from K(3) [OF this] show ?thesis by (auto split: if_splits)
    qed
  next
    fix p assume p: "td_ParentID r = Some p"
    then show par: "\<exists>s\<in>set (tb_rows db). td_ID s = p \<and> visible (tx_owner t) s \<and> td_ParentID s = None \<and> td_ListID s = td_ListID r"
      using keep unfolding place_ok_def by blast
    obtain db1 where "commit_todos db (tb_rows db @ [new_row t db ?c]) = Inr db1" using Todo_InsertD(3) [OF ins] by blast
    then have "fresh 0 \<notin> td_ID ` set (tb_rows db)" using commit_todosD(3) by (fastforce simp: todo_keys_def c)
    then show "p \<noteq> fresh 0" using par by (metis imageI)
  qed
qed

lemma Complete_keeps: "keeps (tx_owner t) db (snd (Complete t db i fresh now ifMatch))"
  unfolding Complete_def
proof (rule withTodo_keeps)
  fix x r out db'
  assume ok: "todos_ok db" and r: "r \<in> set (tb_rows db)" "visible (tx_owner t) r" and x: "x = load_extras db r"
    and f: "(if Done x then Inr ((x, None), db)
       else
         case (if td_RRule x \<noteq> [] \<and> td_DueDate x \<noteq> None
               then (case nextTodo t db fresh x of Inl e \<Rightarrow> Inl e | Inr (n, db1) \<Rightarrow> Inr (n, x\<lparr>td_RRule := []\<rparr>, db1))
               else Inr (None, x, db)) of
           Inl e \<Rightarrow> Inl e
         | Inr (n, y, db1) \<Rightarrow>
             (case Todo_Update t db1 (y\<lparr>td_Status := ''completed'', td_CompletedAt := Some now\<rparr>) of
                Inl e \<Rightarrow> Inl e | Inr (out, db2) \<Rightarrow> Inr ((out, n), db2))) = Inr (out, db')"
  show "keeps (tx_owner t) db db'"
  proof (cases "Done x")
    case True
    then show ?thesis using f by simp
  next
    case False
    obtain n y db1 out1 where m: "(if td_RRule x \<noteq> [] \<and> td_DueDate x \<noteq> None
               then (case nextTodo t db fresh x of Inl e \<Rightarrow> Inl e | Inr (n, db1) \<Rightarrow> Inr (n, x\<lparr>td_RRule := []\<rparr>, db1))
               else Inr (None, x, db)) = Inr (n, y, db1)"
        and u: "Todo_Update t db1 (y\<lparr>td_Status := ''completed'', td_CompletedAt := Some now\<rparr>) = Inr (out1, db')"
      using f False by (auto split: sum.splits)
    have y: "td_ID y = td_ID r" "td_ListID y = td_ListID r" "td_ParentID y = td_ParentID r" "td_Position y = td_Position r"
      using m x by (auto split: if_splits sum.splits)
    have 1: "keeps (tx_owner t) db db1 \<and> r \<in> set (tb_rows db1)"
    proof (cases "td_RRule x \<noteq> [] \<and> td_DueDate x \<noteq> None")
      case False
      then show ?thesis using m r by auto
    next
      case True
      then have nt: "nextTodo t db fresh x = Inr (n, db1)" using m by (auto split: sum.splits)
      then consider "db1 = db" | dd rule created where "Todo_Insert t db (next_copy t db fresh x dd rule) = Inr (created, db1)"
        by (auto simp: nextTodo_def Let_def split: sum.splits option.splits)
      then show ?thesis
      proof cases
        case 1
        then show ?thesis using r by simp
      next
        case 2
        show ?thesis using Todo_Insert_keeps [OF 2 next_copy_place [OF ok r 2 [unfolded x], folded x]] Todo_InsertD(1) [OF 2] r by simp
      qed
    qed
    then have ok1: "todos_ok db1" using ok by (simp add: keeps_def)
    have "keeps (tx_owner t) db1 db'"
      by (rule Todo_Update_same_place [OF ok1 conjunct2 [OF 1] r(2) _ _ _ _ u]) (use y in simp_all)
    then show ?thesis using 1 keeps_trans by blast
  qed
qed

lemma Reopen_keeps: "keeps (tx_owner t) db (snd (Reopen t db i ifMatch))"
  unfolding Reopen_def
proof (rule withTodo_keeps)
  fix x r out db'
  assume ok: "todos_ok db" and r: "r \<in> set (tb_rows db)" "visible (tx_owner t) r" and x: "x = load_extras db r"
    and f: "(if \<not> Done x then Inr (x, db) else Todo_Update t db (x\<lparr>td_Status := ''needs_action'', td_CompletedAt := None\<rparr>)) = Inr (out, db')"
  show "keeps (tx_owner t) db db'"
  proof (cases "Done x")
    case False
    then show ?thesis using f by simp
  next
    case True
    then have u: "Todo_Update t db (x\<lparr>td_Status := ''needs_action'', td_CompletedAt := None\<rparr>) = Inr (out, db')" using f by simp
    show ?thesis by (rule Todo_Update_same_place [OF ok r _ _ _ _ u]) (simp_all add: x)
  qed
qed

lemma Delete_keeps: "keeps (tx_owner t) db (snd (Todos_Delete t db i now ifMatch))"
  unfolding Todos_Delete_def by (rule withTodo_keeps) (auto split: sum.splits intro: Todo_Delete_keeps)

lemma touched_keeps:
  "touched_todo t x out db1 = Inr (r, db') \<Longrightarrow> tb_rows db1 = tb_rows db \<Longrightarrow> tb_lists db1 = tb_lists db \<Longrightarrow> keeps (tx_owner t) db db'"
  unfolding touched_todo_def by (auto split: sum.splits intro: keeps_trans [OF keeps_rows Todo_Touch_keeps])

lemma UpdateCheck_rows: "Todo_UpdateCheck db c = Inr (out, db') \<Longrightarrow> tb_rows db' = tb_rows db \<and> tb_lists db' = tb_lists db"
  by (auto simp: Todo_UpdateCheck_def commit_checks_def Let_def split: option.splits if_splits)

lemma DeleteCheck_rows: "Todo_DeleteCheck db x c = Inr db' \<Longrightarrow> tb_rows db' = tb_rows db \<and> tb_lists db' = tb_lists db"
  by (auto simp: Todo_DeleteCheck_def split: if_splits)

lemma reposition_rows: "reposition db prev cs = Inr (out, db') \<Longrightarrow> tb_rows db' = tb_rows db \<and> tb_lists db' = tb_lists db"
proof (induction cs arbitrary: db prev out)
  case (Cons c cs)
  obtain saved db1 rest where "Todo_UpdateCheck db (c\<lparr>ck_Position := KeyBetween prev []\<rparr>) = Inr (saved, db1)"
    "reposition db1 (KeyBetween prev []) cs = Inr (rest, db')"
    using Cons.prems by (auto simp: Let_def split: sum.splits)
  then show ?case using Cons.IH UpdateCheck_rows by metis
qed simp

lemma checks_keep:
  "keeps (tx_owner t) db (snd (AddCheck t db i cid now cp))"
  "keeps (tx_owner t) db (snd (UpdateCheck t db i cid now cp))"
  "keeps (tx_owner t) db (snd (DeleteCheck t db i cid))"
  "keeps (tx_owner t) db (snd (ReorderChecks t db i ids))"
  unfolding AddCheck_def UpdateCheck_def DeleteCheck_def ReorderChecks_def
  by (rule withTodo_keeps, auto simp: Let_def split: sum.splits if_splits option.splits prod.splits
      dest!: InsertCheck_rows UpdateCheck_rows DeleteCheck_rows reposition_rows intro: touched_keeps)+

subsection \<open>Lists\<close>

lemma commit_listsD: "commit_lists db ls = Inr db1 \<Longrightarrow> db1 = db\<lparr>tb_lists := ls\<rparr> \<and> list_keys ls"
  by (auto simp: commit_lists_def split: if_splits)

lemma list_change_rows [simp]: "tb_rows (list_change t db l op) = tb_rows db" "tb_lists (list_change t db l op) = tb_lists db"
  by (simp_all add: list_change_def)

lemma new_lists_ok:
  assumes "todos_ok db" "list_keys ls"
    and "\<And>l. l \<in> set (tb_lists db) \<Longrightarrow> \<exists>k\<in>set ls. tl_ID k = tl_ID l \<and> tl_OwnerID k = tl_OwnerID l"
  shows "rows_ok ls (tb_rows db)"
proof -
  note R = rows_okD [OF assms(1) [unfolded todos_ok_def]]
  have "\<exists>k\<in>set ls. tl_ID k = td_ListID r \<and> tl_OwnerID k = td_OwnerID r"
    if r: "r \<in> set (tb_rows db)" for r
  proof -
    obtain l where "l \<in> set (tb_lists db)" "tl_ID l = td_ListID r" "tl_OwnerID l = td_OwnerID r"
      using R(4) r by (auto simp: todo_refs_def list_all_iff list_ex_iff)
    then show ?thesis using assms(3) by metis
  qed
  then have "todo_refs ls (tb_rows db)" using R(4) by (simp add: todo_refs_def list_all_iff list_ex_iff)
  then show ?thesis using R assms(2) by (simp add: rows_ok_def)
qed

lemma keeps_lists:
  assumes "\<And>l. l \<in> set (tb_lists db) \<Longrightarrow> \<exists>k\<in>set ls. tl_ID k = tl_ID l \<and> tl_OwnerID k = tl_OwnerID l"
    and "commit_lists db ls = Inr db1" and "db' = list_change t db1 l op"
  shows "keeps owner db db'"
  using commit_listsD [OF assms(2)] new_lists_ok [OF _ _ assms(1)]
  by (simp add: keeps_def todos_ok_def others_def assms(3))

lemma Lists_Create_keeps: "keeps (tx_owner t) db (snd (Lists_Create t db fresh p))"
proof -
  have "keeps (tx_owner t) db (snd (CreateTodoList t db l))" for l
    unfolding CreateTodoList_def WithTodos_def Let_def
    by (auto split: sum.splits intro!: keeps_lists [OF _ _ refl, where ls = "tb_lists db @ [r]" for r])
  then show ?thesis by (auto simp: Lists_Create_def split: sum.split)
qed

lemma Lists_Update_keeps: "keeps (tx_owner t) db (snd (Lists_Update t db i p ifMatch))"
proof -
  have "keeps (tx_owner t) db (snd (UpdateTodoList t db i fn))" for fn
  proof (cases "TodoList_get db (tx_owner t) i")
    case (Inl e)
    then show ?thesis by (simp add: UpdateTodoList_def WithTodos_def)
  next
    case (Inr l)
    then have l: "l \<in> set (tb_lists db)" "tl_ID l = i" "tl_OwnerID l = tx_owner t"
      by (auto simp: TodoList_get_def find_Some_iff split: option.splits)
    show ?thesis
    proof (cases "fn l")
      case (Inl e)
      then show ?thesis using Inr by (simp add: UpdateTodoList_def WithTodos_def)
    next
      case (Inr l1)
      define row where "row = l\<lparr>tl_Name := tl_Name l1, tl_Color := tl_Color l1, tl_Position := wrap32 (tl_Position l1), tl_UpdatedAt := tb_now db\<rparr>"
      define g where "g r = (if tl_ID r = i \<and> tl_OwnerID r = tx_owner t then row else r)" for r
      have own: "\<exists>k\<in>set (map g (tb_lists db)). tl_ID k = tl_ID r \<and> tl_OwnerID k = tl_OwnerID r" if "r \<in> set (tb_lists db)" for r
        using that l by (intro bexI [of _ "g r"]) (auto simp: g_def row_def)
      have u: "UpdateTodoList t db i fn = WithTodos db (\<lambda>db. case commit_lists db (map g (tb_lists db)) of Inl e \<Rightarrow> Inl e
          | Inr db1 \<Rightarrow> Inr (row, list_change t db1 row ''update''))"
        using \<open>TodoList_get db (tx_owner t) i = Inr l\<close> Inr
        unfolding UpdateTodoList_def WithTodos_def Let_def g_def [abs_def] row_def by simp
      show ?thesis
      proof (cases "commit_lists db (map g (tb_lists db))")
        case (Inl e)
        then show ?thesis by (simp add: u WithTodos_def)
      next
        case (Inr db1)
        have "keeps (tx_owner t) db (list_change t db1 row ''update'')" by (rule keeps_lists [OF own Inr refl])
        then show ?thesis using Inr by (simp add: u WithTodos_def)
      qed
    qed
  qed
  then show ?thesis by (simp add: Lists_Update_def)
qed

lemma drop_list_keeps:
  assumes l: "l \<in> set (tb_lists db)" "tl_ID l = i" "tl_OwnerID l = owner"
  shows "keeps owner db (drop_list db i)"
  unfolding keeps_def
proof
  assume ok: "todos_ok db"
  note R = rows_okD [OF ok [unfolded todos_ok_def]]
  let ?ls = "filter (\<lambda>l. tl_ID l \<noteq> i) (tb_lists db)" and ?rws = "filter (\<lambda>t. td_ListID t \<noteq> i) (tb_rows db)"
  have d: "tb_lists (drop_list db i) = ?ls" "tb_rows (drop_list db i) = ?rws" by (simp_all add: drop_list_def Let_def)
  have "list_keys ?ls" using R(1) by (auto simp: list_keys_def distinct_map_filter filter_filter conj_commute
      intro: distinct_map_filter [of tl_OwnerID "filter tl_IsDefault (tb_lists db)" "\<lambda>l. tl_ID l \<noteq> i", simplified filter_filter])
  moreover have "uid_rows ?rws = map (\<lambda>t. (td_ListID t, td_UID t)) (filter (\<lambda>t. td_ListID t \<noteq> i)
      (filter (\<lambda>t. live t \<and> td_ParentID t = None \<and> td_UID t \<noteq> []) (tb_rows db)))"
    unfolding uid_rows_def filter_filter by (rule arg_cong) (auto intro!: filter_cong)
  then have "todo_keys ?rws"
    using R(3) distinct_map_filter [of "\<lambda>t. (td_ListID t, td_UID t)"] by (simp only: todo_keys_def uid_rows_def distinct_map_filter)
  moreover have "todo_refs ?ls ?rws"
    using R(4) by (auto simp: todo_refs_def list_all_iff list_ex_iff split: option.splits) fastforce+
  moreover have "tree_ok ?rws" using R(5) unfolding tree_ok_def by fastforce
  moreover have "order_ok ?rws" using R(6) unfolding order_ok_def by auto
  moreover have "list_all todo_check ?rws" using R(2) by (simp add: list_all_iff)
  ultimately have "todos_ok (drop_list db i)" by (simp add: todos_ok_def rows_ok_def d)
  moreover have "td_OwnerID r = owner" if r: "r \<in> set (tb_rows db)" "td_ListID r = i" for r
  proof -
    obtain k where "k \<in> set (tb_lists db)" "tl_ID k = td_ListID r" "tl_OwnerID k = td_OwnerID r"
      using R(4) r by (auto simp: todo_refs_def list_all_iff list_ex_iff)
    moreover from this have "k = l" using R(1) l r by (auto simp: list_keys_def distinct_map inj_on_def)
    ultimately show ?thesis using l by simp
  qed
  then have "others owner (drop_list db i) = others owner db" by (auto simp: others_def d filter_filter intro!: filter_cong)
  ultimately show "todos_ok (drop_list db i) \<and> others owner (drop_list db i) = others owner db" by blast
qed

lemma Lists_Delete_keeps: "keeps (tx_owner t) db (snd (Lists_Delete t db i ifMatch))"
proof -
  have "keeps (tx_owner t) db (snd (DeleteTodoList t db i fn))" for fn
  proof (cases "TodoList_get db (tx_owner t) i")
    case (Inl e)
    then show ?thesis by (simp add: DeleteTodoList_def WithTodos_def)
  next
    case (Inr l)
    then have l: "l \<in> set (tb_lists db)" "tl_ID l = i" "tl_OwnerID l = tx_owner t"
      by (auto simp: TodoList_get_def find_Some_iff split: option.splits)
    have "keeps (tx_owner t) db (list_change t (drop_list db i) l ''delete'')"
      by (rule keeps_trans [OF drop_list_keeps [OF l] keeps_rows]) simp_all
    then show ?thesis using Inr by (simp add: DeleteTodoList_def WithTodos_def split: option.split)
  qed
  then show ?thesis by (simp add: Lists_Delete_def)
qed

subsection \<open>All requests\<close>

datatype todo_request =
    R_Create "nat \<Rightarrow> go_id" go_time TodoPatch
  | R_Update go_id "nat \<Rightarrow> go_id" go_time TodoPatch string
  | R_Move go_id TodoMove string
  | R_Complete go_id "nat \<Rightarrow> go_id" go_time string
  | R_Reopen go_id string
  | R_Delete go_id go_time string
  | R_AddCheck go_id go_id go_time CheckPatch
  | R_UpdateCheck go_id go_id go_time CheckPatch
  | R_DeleteCheck go_id go_id
  | R_ReorderChecks go_id "string list"
  | R_CreateList go_id TodoListPatch
  | R_UpdateList go_id TodoListPatch string
  | R_DeleteList go_id string

fun serve_todo :: "tx_ctx \<Rightarrow> todo_db \<Rightarrow> todo_request \<Rightarrow> todo_db" where
  "serve_todo t db (R_Create fresh now p) = snd (Todos_Create t db fresh now p)"
| "serve_todo t db (R_Update i fresh now p m) = snd (Todos_Update t db i fresh now p m)"
| "serve_todo t db (R_Move i mv m) = snd (Todos_Move t db i mv m)"
| "serve_todo t db (R_Complete i fresh now m) = snd (Complete t db i fresh now m)"
| "serve_todo t db (R_Reopen i m) = snd (Reopen t db i m)"
| "serve_todo t db (R_Delete i now m) = snd (Todos_Delete t db i now m)"
| "serve_todo t db (R_AddCheck i c now p) = snd (AddCheck t db i c now p)"
| "serve_todo t db (R_UpdateCheck i c now p) = snd (UpdateCheck t db i c now p)"
| "serve_todo t db (R_DeleteCheck i c) = snd (DeleteCheck t db i c)"
| "serve_todo t db (R_ReorderChecks i ids) = snd (ReorderChecks t db i ids)"
| "serve_todo t db (R_CreateList i p) = snd (Lists_Create t db i p)"
| "serve_todo t db (R_UpdateList i p m) = snd (Lists_Update t db i p m)"
| "serve_todo t db (R_DeleteList i m) = snd (Lists_Delete t db i m)"

definition serve_todos :: "(tx_ctx \<times> todo_request) list \<Rightarrow> todo_db \<Rightarrow> todo_db" where
  "serve_todos reqs db = fold (\<lambda>(t, q) db. serve_todo t db q) reqs db"

lemma serve_keeps: "keeps (tx_owner t) db (serve_todo t db q)"
  by (cases q) (simp_all add: Create_keeps Update_keeps Move_keeps Complete_keeps Reopen_keeps Delete_keeps checks_keep
      Lists_Create_keeps Lists_Update_keeps Lists_Delete_keeps)

lemma filter_owner: "a \<noteq> b \<Longrightarrow> filter (\<lambda>r. td_OwnerID r = a) (filter (\<lambda>r. td_OwnerID r \<noteq> b) rws) = filter (\<lambda>r. td_OwnerID r = a) rws"
  by (induction rws) auto


end
