(* ===== verification/Todo_Order.thy ===== *)
theory Todo_Order
  imports Todo_Safety "HOL-Library.Multiset"
begin

text \<open>
  The order of todos.  The specification keeps, for every list and parent, the plain list of the ids in the
  order the user sees; the position keys implement it.  Moving a todo refines "take it out, put it after the
  other one", and completing a repeating todo puts its successor right after it.
\<close>

subsection \<open>Ids in order\<close>

definition group_rows :: "todo_db \<Rightarrow> go_id \<Rightarrow> go_id \<Rightarrow> go_id option \<Rightarrow> Todo list" where
  "group_rows db owner lst parent = filter (\<lambda>r. visible owner r \<and> td_ListID r = lst \<and> td_ParentID r = parent) (tb_rows db)"

definition sibling_ids :: "todo_db \<Rightarrow> go_id \<Rightarrow> go_id \<Rightarrow> go_id option \<Rightarrow> go_id list" where
  "sibling_ids db owner lst parent = map td_ID (sort_key td_Position (group_rows db owner lst parent))"

text \<open>The subtasks of a todo, in order.\<close>

definition subtask_rows :: "todo_db \<Rightarrow> go_id \<Rightarrow> go_id \<Rightarrow> Todo list" where
  "subtask_rows db owner i = filter (\<lambda>r. visible owner r \<and> td_ParentID r = Some i) (tb_rows db)"

definition subtask_ids :: "todo_db \<Rightarrow> go_id \<Rightarrow> go_id \<Rightarrow> go_id list" where
  "subtask_ids db owner i = map td_ID (sort_key td_Position (subtask_rows db owner i))"

fun insert_after :: "go_id \<Rightarrow> go_id \<Rightarrow> go_id list \<Rightarrow> go_id list" where
  "insert_after a i [] = []"
| "insert_after a i (x # xs) = (if x = a then x # i # xs else x # insert_after a i xs)"

text \<open>The place a request names: the front, or after a todo.\<close>

definition put_at :: "go_id option \<Rightarrow> go_id \<Rightarrow> go_id list \<Rightarrow> go_id list" where
  "put_at a i ids = (case a of None \<Rightarrow> i # ids | Some x \<Rightarrow> insert_after x i ids)"

definition without :: "go_id \<Rightarrow> go_id list \<Rightarrow> go_id list" where
  "without i ids = filter (\<lambda>j. j \<noteq> i) ids"

lemma insert_after_split: "a \<notin> set xs \<Longrightarrow> insert_after a i (xs @ a # ys) = xs @ a # i # ys"
  by (induction xs) auto

subsection \<open>Sorting by distinct keys\<close>

lemma sort_key_unique:
  assumes "mset ys = mset xs" "sorted (map f ys)" "inj_on f (set xs)"
  shows "sort_key f xs = ys"
proof (rule properties_for_sort_key)
  show "filter (\<lambda>x. f k = f x) ys = filter (\<lambda>x. f k = f x) xs" if k: "k \<in> set ys" for k
  proof -
    have s: "set ys = set xs" using assms(1) by (rule mset_eq_setD)
    have e: "filter (\<lambda>x. f k = f x) zs = filter (\<lambda>x. x = k) zs" if "set zs = set xs" for zs
      using that k s assms(3) by (intro filter_cong refl) (auto simp: inj_on_def)
    have r: "filter (\<lambda>x. x = k) zs = replicate (count (mset zs) k) k" for zs
      by (induction zs) auto
    show ?thesis using assms(1) by (simp only: e [OF refl] e [OF s] r)
  qed
qed (use assms in simp_all)

lemma sort_key_mset: "mset xs = mset ys \<Longrightarrow> inj_on f (set xs) \<Longrightarrow> sort_key f xs = sort_key f ys"
  by (rule sort_key_unique) simp_all

lemma sort_key_filter:
  assumes "inj_on f (set xs)"
  shows "filter P (sort_key f xs) = sort_key f (filter P xs)"
proof (rule sort_key_unique [symmetric])
  show "mset (filter P (sort_key f xs)) = mset (filter P xs)" by (simp add: mset_filter)
  show "sorted (map f (filter P (sort_key f xs)))" by (rule sorted_filter) simp
  show "inj_on f (set (filter P xs))" by (rule inj_on_subset [OF assms]) auto
qed

lemma sort_key_map_inj:
  assumes "\<And>x. x \<in> set xs \<Longrightarrow> f (g x) = f x" "inj_on f (set xs)"
  shows "sort_key f (map g xs) = map g (sort_key f xs)"
proof (rule sort_key_unique)
  show "mset (map g (sort_key f xs)) = mset (map g xs)" by simp
  have "map f (map g (sort_key f xs)) = map f (sort_key f xs)" using assms(1) by simp
  then show "sorted (map f (map g (sort_key f xs)))" by (simp only: sorted_sort_key)
  show "inj_on f (set (map g xs))" using assms by (auto simp: inj_on_def)
qed

lemma sort_key_front:
  assumes "\<forall>y\<in>set xs. f x < f y" "inj_on f (set xs)"
  shows "sort_key f (x # xs) = x # sort_key f xs"
proof (rule sort_key_unique)
  show "inj_on f (set (x # xs))" using assms by (fastforce simp: inj_on_def)
  show "sorted (map f (x # sort_key f xs))" using assms(1) by auto
qed simp

lemma sort_key_back:
  assumes "\<forall>y\<in>set xs. f y < f x" "inj_on f (set xs)"
  shows "sort_key f (x # xs) = sort_key f xs @ [x]"
proof (rule sort_key_unique)
  show "inj_on f (set (x # xs))" using assms by (fastforce simp: inj_on_def)
  show "sorted (map f (sort_key f xs @ [x]))" using assms(1) by (auto simp: sorted_append)
qed simp

text \<open>A new key right after one of the others.\<close>

lemma sort_key_after:
  assumes s: "s \<in> set xs" and inj: "inj_on f (set xs)" and d: "distinct xs"
    and k: "\<And>y. y \<in> set xs \<Longrightarrow> if f y \<le> f s then f y < f x else f x < f y"
    and ids: "inj_on g (set xs)"
  shows "map g (sort_key f (x # xs)) = insert_after (g s) (g x) (map g (sort_key f xs))"
proof -
  have "s \<in> set (sort_key f xs)" using s by simp
  then obtain A B where AB: "sort_key f xs = A @ s # B" "s \<notin> set A" by (metis split_list_first)
  have set: "set xs = set A \<union> {s} \<union> set B" using arg_cong [OF AB(1), of set] by auto
  have "distinct (sort_key f xs)" using d by simp
  then have sB: "s \<notin> set B" unfolding AB(1) by simp
  have sorted: "sorted (map f (A @ s # B))" unfolding AB(1) [symmetric] by simp
  have le: "f y \<le> f s" if "y \<in> set A" for y using sorted that by (auto simp: sorted_append)
  have gt: "f s < f y" if y: "y \<in> set B" for y
  proof -
    have "f s \<le> f y" "y \<noteq> s" using sorted y sB by (auto simp: sorted_append)
    moreover have "y \<in> set xs" using set y by blast
    ultimately show ?thesis using inj s by (metis inj_onD order_le_less)
  qed
  have kA: "f y < f x" if "y \<in> set A" for y using k [of y] le [OF that] set that by simp
  have ks: "f s < f x" using k [OF s] by simp
  have kB: "f x < f y" if y: "y \<in> set B" for y
  proof -
    have "y \<in> set xs" using set y by blast
    then show ?thesis using k [of y] gt [OF y] by (simp split: if_splits)
  qed
  have "sort_key f (x # xs) = A @ s # x # B"
  proof (rule sort_key_unique)
    show "mset (A @ s # x # B) = mset (x # xs)" using arg_cong [OF AB(1), of mset] by simp
    show "sorted (map f (A @ s # x # B))" using sorted kA ks kB by (auto simp: sorted_append less_imp_le)
    have "f y \<noteq> f x" if "y \<in> set xs" for y using k [OF that] by (auto split: if_splits)
    then show "inj_on f (set (x # xs))" using inj by (fastforce simp: inj_on_def)
  qed
  moreover have "g s \<notin> set (map g A)" using ids AB(2) set by (fastforce simp: inj_on_def)
  ultimately show ?thesis by (simp add: AB(1) insert_after_split)
qed

lemma distinct_filter_one: "distinct xs \<Longrightarrow> x \<in> set xs \<Longrightarrow> filter (\<lambda>y. y = x) xs = [x]"
  by (induction xs) (auto simp: filter_empty_conv)

subsection \<open>Groups of a good table\<close>

definition in_group :: "go_id \<Rightarrow> go_id \<Rightarrow> go_id option \<Rightarrow> Todo \<Rightarrow> bool" where
  "in_group owner lst parent r \<longleftrightarrow> visible owner r \<and> td_ListID r = lst \<and> td_ParentID r = parent"

lemma group_in_group: "group_rows db owner lst parent = filter (in_group owner lst parent) (tb_rows db)"
  by (simp add: group_rows_def in_group_def [abs_def])

lemma group_distinct: "todos_ok db \<Longrightarrow> distinct (group_rows db owner lst parent)"
  using rows_okD(3) [of "tb_lists db" "tb_rows db"] by (simp add: todos_ok_def group_rows_def todo_keys_def distinct_map)

lemma group_inj_id: "todos_ok db \<Longrightarrow> inj_on td_ID (set (group_rows db owner lst parent))"
  using row_unique [OF rows_okD(3) [of "tb_lists db" "tb_rows db"]] by (auto simp: todos_ok_def group_rows_def inj_on_def)

lemma group_inj_pos:
  assumes "todos_ok db"
  shows "inj_on td_Position (set (group_rows db owner lst parent))"
proof (rule inj_onI)
  note R = rows_okD [OF assms [unfolded todos_ok_def]]
  fix r s assume "r \<in> set (group_rows db owner lst parent)" "s \<in> set (group_rows db owner lst parent)" and e: "td_Position r = td_Position s"
  then have m: "r \<in> set (tb_rows db)" "s \<in> set (tb_rows db)" "live r" "live s" "td_ListID r = td_ListID s" "td_ParentID r = td_ParentID s"
    by (simp_all add: group_rows_def visible_def)
  then show "r = s" using order_unique [OF R(6) m e] row_unique [OF R(3) m(1,2)] by blast
qed

lemma subtask_inj_pos:
  assumes "todos_ok db"
  shows "inj_on td_Position (set (subtask_rows db owner i))"
proof (rule inj_onI)
  note R = rows_okD [OF assms [unfolded todos_ok_def]]
  fix r s assume "r \<in> set (subtask_rows db owner i)" "s \<in> set (subtask_rows db owner i)" and e: "td_Position r = td_Position s"
  then have m: "r \<in> set (tb_rows db)" "s \<in> set (tb_rows db)" "live r" "live s" "td_ParentID r = Some i" "td_ParentID s = Some i"
    by (simp_all add: subtask_rows_def visible_def)
  obtain a where a: "a \<in> set (tb_rows db)" "td_ID a = i" "td_ListID a = td_ListID r" by (rule tree_parent [OF R(5) m(1,3,5)])
  obtain b where b: "b \<in> set (tb_rows db)" "td_ID b = i" "td_ListID b = td_ListID s" by (rule tree_parent [OF R(5) m(2,4,6)])
  have "a = b" using row_unique [OF R(3) a(1) b(1)] a(2) b(2) by simp
  then have "td_ListID r = td_ListID s" using a b by simp
  then show "r = s" using order_unique [OF R(6) m(1-4)] m(5,6) e row_unique [OF R(3) m(1,2)] by simp
qed

lemma siblings_group: "siblings db owner lst parent i = filter (\<lambda>r. td_ID r \<noteq> i) (group_rows db owner lst parent)"
  by (simp add: siblings_def group_rows_def conj_ac filter_filter)

lemma sibling_ids_without:
  "todos_ok db \<Longrightarrow> map td_ID (sort_key td_Position (siblings db owner lst parent i)) = without i (sibling_ids db owner lst parent)"
  by (simp add: siblings_group sibling_ids_def without_def filter_map o_def flip: sort_key_filter [OF group_inj_pos])

subsection \<open>A row changed in place\<close>

text \<open>The table after an update of the row \<open>i\<close>.\<close>

definition row_step :: "go_id \<Rightarrow> go_id \<Rightarrow> Todo \<Rightarrow> Todo \<Rightarrow> Todo \<Rightarrow> Todo" where
  "row_step owner i old row r = (if is_row owner i r then row else follow old (td_ListID row) r)"

definition moved :: "todo_db \<Rightarrow> todo_db \<Rightarrow> go_id \<Rightarrow> go_id \<Rightarrow> Todo \<Rightarrow> Todo \<Rightarrow> bool" where
  "moved db db' owner i old row \<longleftrightarrow>
     todos_ok db \<and> todos_ok db' \<and> old \<in> set (tb_rows db) \<and> is_row owner i old \<and> td_ID row = i \<and> visible owner row \<and>
     tb_rows db' = map (row_step owner i old row) (tb_rows db)"

lemma movedD:
  assumes "moved db db' owner i old row"
  shows "todos_ok db" "todos_ok db'" "old \<in> set (tb_rows db)" "is_row owner i old" "td_ID row = i" "visible owner row"
    "tb_rows db' = map (row_step owner i old row) (tb_rows db)" "td_ID old = i" "visible owner old"
    "row_step owner i old row old = row"
  using assms by (simp_all add: moved_def is_row_def row_step_def)

lemma step_other:
  assumes mv: "moved db db' owner i old row"
    and as: "r \<in> set (tb_rows db)" "r \<noteq> old"
  shows "td_ID r \<noteq> i" "row_step owner i old row r = follow old (td_ListID row) r"
proof -
  note ok = movedD(1) [OF mv] and ok' = movedD(2) [OF mv] and old = movedD(3,4) [OF mv] and row = movedD(5,6) [OF mv]
    and rws = movedD(7) [OF mv] and old_id = movedD(8,9) [OF mv] and step_old = movedD(10) [OF mv]
  show n: "td_ID r \<noteq> i" using row_unique [OF rows_okD(3) [OF ok [unfolded todos_ok_def]] as(1) old(1)] as(2) old_id(1) by auto
  then show "row_step owner i old row r = follow old (td_ListID row) r" by (simp add: row_step_def is_row_def)
qed

lemma step_id: "moved db db' owner i old row \<Longrightarrow> td_ID (row_step owner i old row r) = td_ID r"
  by (simp add: row_step_def is_row_def movedD(5))

lemma group_of_others:
  assumes mv: "moved db db' owner i old row"
    and as: "p \<noteq> Some i"
  shows "filter (\<lambda>r. td_ID r \<noteq> i) (group_rows db' owner lst p) = siblings db owner lst p i"
proof -
  note ok = movedD(1) [OF mv] and ok' = movedD(2) [OF mv] and old = movedD(3,4) [OF mv] and row = movedD(5,6) [OF mv]
    and rws = movedD(7) [OF mv] and old_id = movedD(8,9) [OF mv] and step_old = movedD(10) [OF mv]
    and step_other = step_other [OF mv]
  have e: "(td_ID (row_step owner i old row r) \<noteq> i \<and> in_group owner lst p (row_step owner i old row r)) \<longleftrightarrow> td_ID r \<noteq> i \<and> in_group owner lst p r"
    and s: "td_ID r \<noteq> i \<and> in_group owner lst p r \<longrightarrow> row_step owner i old row r = r" if r: "r \<in> set (tb_rows db)" for r
  proof -
    show "(td_ID (row_step owner i old row r) \<noteq> i \<and> in_group owner lst p (row_step owner i old row r)) \<longleftrightarrow> td_ID r \<noteq> i \<and> in_group owner lst p r"
    proof (cases "r = old")
      case True
      then show ?thesis by (simp add: step_old row(1) old_id)
    next
      case False
      have "in_group owner lst p (follow old (td_ListID row) r) = in_group owner lst p r"
        using as old_id by (auto simp: in_group_def follow_def visible_def live_def)
      then show ?thesis using step_other [OF r False] by simp
    qed
    show "td_ID r \<noteq> i \<and> in_group owner lst p r \<longrightarrow> row_step owner i old row r = r"
      using as old_id by (auto simp: row_step_def is_row_def in_group_def follow_def)
  qed
  have "filter (\<lambda>r. td_ID r \<noteq> i) (group_rows db' owner lst p)
      = map (row_step owner i old row) (filter (\<lambda>r. td_ID r \<noteq> i \<and> in_group owner lst p r) (tb_rows db))"
    unfolding group_in_group rws filter_map filter_filter o_def
    by (rule arg_cong [where f = "map (row_step owner i old row)"]) (rule filter_cong [OF refl], subst conj_commute, rule e)
  also have "\<dots> = filter (\<lambda>r. td_ID r \<noteq> i \<and> in_group owner lst p r) (tb_rows db)" using s by (intro map_idI) auto
  finally show ?thesis by (simp add: siblings_group group_in_group filter_filter conj_commute)
qed

text \<open>The other groups lose the todo, or never had it.\<close>

lemma other_group:
  assumes mv: "moved db db' owner i old row"
    and as: "p \<noteq> Some i" "(lst, p) \<noteq> (td_ListID row, td_ParentID row)"
  shows "sibling_ids db' owner lst p = without i (sibling_ids db owner lst p)"
proof -
  note ok = movedD(1) [OF mv] and ok' = movedD(2) [OF mv] and old = movedD(3,4) [OF mv] and row = movedD(5,6) [OF mv]
    and rws = movedD(7) [OF mv] and old_id = movedD(8,9) [OF mv] and step_old = movedD(10) [OF mv]
    and step_other = step_other [OF mv] and step_id = step_id [OF mv] and group_of_others = group_of_others [OF mv]
  have "td_ID r \<noteq> i" if r: "r \<in> set (group_rows db' owner lst p)" for r
  proof
    assume "td_ID r = i"
    moreover obtain s where s: "s \<in> set (tb_rows db)" "r = row_step owner i old row s" using r by (auto simp: group_rows_def rws)
    ultimately have "s = old" using step_id step_other(1) [OF s(1)] by metis
    then have "r = row" using s(2) step_old by simp
    then show False using r as(2) by (simp add: group_rows_def)
  qed
  then have "group_rows db' owner lst p = filter (\<lambda>r. td_ID r \<noteq> i) (group_rows db' owner lst p)" by (simp add: filter_id_conv)
  then have "sibling_ids db' owner lst p = map td_ID (sort_key td_Position (siblings db owner lst p i))"
    unfolding sibling_ids_def using group_of_others [OF as(1)] by metis
  then show ?thesis by (simp add: sibling_ids_without [OF ok])
qed

lemma row_in:
  assumes mv: "moved db db' owner i old row"
  shows "row \<in> set (group_rows db' owner (td_ListID row) (td_ParentID row))"
proof -
  have "row \<in> row_step owner i old row ` set (tb_rows db)" by (rule image_eqI [of _ _ old]) (simp_all add: movedD(3,10) [OF mv])
  then show ?thesis using movedD(6) [OF mv] by (simp add: group_rows_def movedD(7) [OF mv])
qed

lemma own_group:
  assumes mv: "moved db db' owner i old row"
    and as: "td_ParentID row \<noteq> Some i"
  shows "sibling_ids db' owner (td_ListID row) (td_ParentID row) =
           map td_ID (sort_key td_Position (row # siblings db owner (td_ListID row) (td_ParentID row) i))"
    and "inj_on td_Position (set (row # siblings db owner (td_ListID row) (td_ParentID row) i))"
proof -
  note ok = movedD(1) [OF mv] and ok' = movedD(2) [OF mv] and old = movedD(3,4) [OF mv] and row = movedD(5,6) [OF mv]
    and rws = movedD(7) [OF mv] and old_id = movedD(8,9) [OF mv] and step_old = movedD(10) [OF mv]
    and row_in = row_in [OF mv] and group_of_others = group_of_others [OF mv]
  let ?g = "group_rows db' owner (td_ListID row) (td_ParentID row)"
  have "filter (\<lambda>r. td_ID r = i) ?g = [row]"
  proof -
    have "filter (\<lambda>r. td_ID r = i) ?g = filter (\<lambda>r. r = row) ?g"
      using group_inj_id [OF ok'] row_in row(1) by (intro filter_cong refl) (auto simp: inj_on_def)
    then show ?thesis using distinct_filter_one [OF group_distinct [OF ok'] row_in] by simp
  qed
  then have m: "mset ?g = mset (row # siblings db owner (td_ListID row) (td_ParentID row) i)"
    using multiset_partition [of "mset ?g" "\<lambda>r. td_ID r = i"] group_of_others [OF as, of "td_ListID row"]
    by (simp flip: mset_filter)
  show "sibling_ids db' owner (td_ListID row) (td_ParentID row) =
           map td_ID (sort_key td_Position (row # siblings db owner (td_ListID row) (td_ParentID row) i))"
    unfolding sibling_ids_def using sort_key_mset [OF m group_inj_pos [OF ok']] by simp
  show "inj_on td_Position (set (row # siblings db owner (td_ListID row) (td_ParentID row) i))"
    using group_inj_pos [OF ok', of owner "td_ListID row" "td_ParentID row"] unfolding mset_eq_setD [OF m] .
qed

text \<open>A row that keeps its place keeps the order.\<close>

lemma same_place:
  assumes mv: "moved db db' owner i old row"
    and as: "td_ListID row = td_ListID old" "td_ParentID row = td_ParentID old" "td_Position row = td_Position old"
  shows "sibling_ids db' owner lst p = sibling_ids db owner lst p"
proof -
  note ok = movedD(1) [OF mv] and ok' = movedD(2) [OF mv] and old = movedD(3,4) [OF mv] and row = movedD(5,6) [OF mv]
    and rws = movedD(7) [OF mv] and old_id = movedD(8,9) [OF mv] and step_old = movedD(10) [OF mv]
    and step_other = step_other [OF mv] and step_id = step_id [OF mv]
  have f: "follow old (td_ListID row) r = r" for r by (simp add: follow_def as(1))
  have g: "in_group owner lst p (row_step owner i old row r) = in_group owner lst p r"
    and k: "td_Position (row_step owner i old row r) = td_Position r" if r: "r \<in> set (tb_rows db)" for r
  proof -
    show "in_group owner lst p (row_step owner i old row r) = in_group owner lst p r"
    proof (cases "r = old")
      case True
      then show ?thesis using row(2) old_id(2) by (simp add: step_old in_group_def as)
    next
      case False
      then show ?thesis using step_other [OF r False] by (simp add: f)
    qed
    show "td_Position (row_step owner i old row r) = td_Position r"
      using step_other [OF r] step_old as(3) by (cases "r = old") auto
  qed
  have "group_rows db' owner lst p = map (row_step owner i old row) (group_rows db owner lst p)"
    unfolding group_in_group rws filter_map o_def
    by (rule arg_cong [where f = "map (row_step owner i old row)"]) (rule filter_cong [OF refl g])
  moreover have "sort_key td_Position (map (row_step owner i old row) (group_rows db owner lst p))
      = map (row_step owner i old row) (sort_key td_Position (group_rows db owner lst p))"
    by (rule sort_key_map_inj [OF k group_inj_pos [OF ok]]) (simp add: group_rows_def)
  ultimately show ?thesis unfolding sibling_ids_def using step_id by (simp add: group_rows_def)
qed

text \<open>The subtasks keep their order, to whichever list they follow.\<close>

lemma subtasks_follow:
  assumes mv: "moved db db' owner i old row"
    and as: "td_ParentID row \<noteq> Some i"
  shows "subtask_ids db' owner i = subtask_ids db owner i"
proof -
  note ok = movedD(1) [OF mv] and ok' = movedD(2) [OF mv] and old = movedD(3,4) [OF mv] and row = movedD(5,6) [OF mv]
    and rws = movedD(7) [OF mv] and old_id = movedD(8,9) [OF mv] and step_old = movedD(10) [OF mv]
    and step_other = step_other [OF mv] and step_id = step_id [OF mv]
  let ?s = "row_step owner i old row"
  have "todo_check old" using rows_okD(2) [OF ok [unfolded todos_ok_def]] old(1) by (simp add: list_all_iff)
  then have po: "td_ParentID old \<noteq> Some i" using old_id by (auto simp: todo_check_def)
  have g: "(visible owner (?s r) \<and> td_ParentID (?s r) = Some i) = (visible owner r \<and> td_ParentID r = Some i)"
    and k: "visible owner r \<and> td_ParentID r = Some i \<Longrightarrow> td_Position (?s r) = td_Position r" if r: "r \<in> set (tb_rows db)" for r
    using step_other [OF r] step_old as po by (cases "r = old"; simp)+
  have "subtask_rows db' owner i = map ?s (subtask_rows db owner i)"
    unfolding subtask_rows_def rws filter_map o_def
    by (rule arg_cong [where f = "map ?s"]) (rule filter_cong [OF refl g])
  moreover have "sort_key td_Position (map ?s (subtask_rows db owner i)) = map ?s (sort_key td_Position (subtask_rows db owner i))"
    by (rule sort_key_map_inj [OF k subtask_inj_pos [OF ok]]) (auto simp: subtask_rows_def)
  ultimately show ?thesis unfolding subtask_ids_def using step_id by (simp add: subtask_rows_def)
qed

subsection \<open>Moving a todo\<close>

text \<open>The todo the request names as the one before, if it names one.\<close>

definition named_after :: "tx_ctx \<Rightarrow> string Opt \<Rightarrow> go_id option" where
  "named_after t o1 =
     (let raw1 = trim_space (opt_V o1) in if opt_Null o1 \<or> raw1 = [] then None else en_ParseID (tx_env t) raw1)"

text \<open>What a move does to the ids of the group it moves into; \<open>stays\<close>: the todo is in it already.\<close>

definition move_spec :: "tx_ctx \<Rightarrow> TodoMove \<Rightarrow> go_id \<Rightarrow> bool \<Rightarrow> go_id list \<Rightarrow> go_id list" where
  "move_spec t m i stays ids =
     (if opt_Set (tdm_AfterID m) then put_at (named_after t (tdm_AfterID m)) i (without i ids)
      else if stays then ids else without i ids @ [i])"

lemma relocate_pos:
  assumes "relocate t db x lsts lo po after isNew = Inr y"
  shows "td_ID y = td_ID x"
    and "case after of
           Some a \<Rightarrow> positionAfter t db (td_ID x) (td_ListID y) (td_ParentID y) a = Inr (td_Position y)
         | None \<Rightarrow> td_Position y =
             (if isNew \<or> td_ListID y \<noteq> td_ListID x \<or> td_ParentID y \<noteq> td_ParentID x
              then KeyBetween (LastPosition db (tx_owner t) (td_ListID y) (td_ParentID y) (td_ID x)) [] else td_Position x)"
proof -
  obtain given where given: "chosen_list t lsts lo = Inr given" using assms by (auto simp: relocate_def split: sum.splits)
  obtain lst parent where cp: "chosen_parent t db x given po = Inr (lst, parent)"
    using assms given by (auto simp: relocate_def split: sum.splits prod.splits)
  have kids: "\<not> (parent \<noteq> None \<and> \<not> isNew \<and> HasChildren db (td_ID x))" using assms given cp by (auto simp: relocate_def)
  note r = assms [unfolded relocate_def given cp sum.case prod.case if_not_P [OF kids] Let_def]
  show "td_ID y = td_ID x"
    using r by (auto split: option.splits sum.splits if_splits)
  show "case after of
           Some a \<Rightarrow> positionAfter t db (td_ID x) (td_ListID y) (td_ParentID y) a = Inr (td_Position y)
         | None \<Rightarrow> td_Position y =
             (if isNew \<or> td_ListID y \<noteq> td_ListID x \<or> td_ParentID y \<noteq> td_ParentID x
              then KeyBetween (LastPosition db (tx_owner t) (td_ListID y) (td_ParentID y) (td_ID x)) [] else td_Position x)"
    using r by (cases after) (auto split: sum.splits if_splits)
qed

text \<open>A key right after a place of the group puts the row right after it.\<close>

lemma placed_after:
  assumes ok: "todos_ok db" and pos: "positionAfter t db i lst parent a = Inr (td_Position row)" and id: "td_ID row = i"
    and inj: "inj_on td_Position (set (row # siblings db (tx_owner t) lst parent i))"
  shows "map td_ID (sort_key td_Position (row # siblings db (tx_owner t) lst parent i))
       = put_at (named_after t a) i (without i (sibling_ids db (tx_owner t) lst parent))"
proof -
  let ?sib = "siblings db (tx_owner t) lst parent i"
  note V = siblings_valid [OF ok, of "tx_owner t" lst parent i]
  have inj1: "inj_on td_Position (set ?sib)" by (rule inj_on_subset [OF inj]) auto
  show ?thesis
  proof (cases "opt_Null a \<or> trim_space (opt_V a) = []")
    case True
    then have k: "td_Position row = KeyBetween [] (NextPosition db (tx_owner t) lst parent [] i)"
      using pos by (auto simp: positionAfter_def Let_def)
    have "td_Position row < td_Position s" if s: "s \<in> set ?sib" for s
    proof -
      have "\<not> td_Position s \<le> []" using V s by (cases "td_Position s") (auto simp: valid_key_def)
      then show ?thesis using key_after(3) [OF V _ s, of "[]"] k by simp
    qed
    then have "sort_key td_Position (row # ?sib) = row # sort_key td_Position ?sib" using inj1 by (intro sort_key_front) auto
    then show ?thesis using True id by (simp add: put_at_def named_after_def Let_def sibling_ids_without [OF ok])
  next
    case False
    then obtain q where q: "lookupTodo t db (trim_space (opt_V a)) = Inr q"
      using pos by (auto simp: positionAfter_def Let_def split: sum.splits if_splits)
    then have f: "td_ID q \<noteq> i" "td_ListID q = lst" "td_ParentID q = parent"
        "td_Position row = KeyBetween (td_Position q) (NextPosition db (tx_owner t) lst parent (td_Position q) i)"
      using pos False by (auto simp: positionAfter_def Let_def split: if_splits)
    obtain j where j: "en_ParseID (tx_env t) (trim_space (opt_V a)) = Some j" "Todo_get db (tx_owner t) j = Inr q"
      using q by (auto simp: lookupTodo_def split: option.splits)
    obtain s where s: "s \<in> set (tb_rows db)" "td_ID s = j" "visible (tx_owner t) s" "q = load_extras db s" by (rule Todo_getD [OF j(2)])
    have sib: "s \<in> set ?sib" using s f by (simp add: siblings_iff)
    have dig: "digits_only (td_Position s)" using V sib valid_digits by blast
    have "map td_ID (sort_key td_Position (row # ?sib)) = insert_after (td_ID s) (td_ID row) (map td_ID (sort_key td_Position ?sib))"
    proof (rule sort_key_after [OF sib inj1])
      show "distinct ?sib" using group_distinct [OF ok] by (simp add: siblings_group)
      show "inj_on td_ID (set ?sib)" by (rule inj_on_subset [OF group_inj_id [OF ok]]) (auto simp: siblings_group)
      show "if td_Position y \<le> td_Position s then td_Position y < td_Position row else td_Position row < td_Position y"
        if "y \<in> set ?sib" for y using key_after(3) [OF V dig that] f(4) s(4) by simp
    qed
    then show ?thesis using False id s(2) j(1) by (simp add: put_at_def named_after_def Let_def sibling_ids_without [OF ok])
  qed
qed

text \<open>What a successful update of a todo leaves.\<close>

lemma Update_moved:
  assumes ok: "todos_ok db" and u: "Todo_Update t db z = Inr (out, db')" and k: "keeps (tx_owner t) db db'"
  obtains old where "moved db db' (tx_owner t) (td_ID z) old (updated_todo db z old)"
    "out = (updated_todo db z old)\<lparr>td_Checks := td_Checks z\<rparr>"
proof -
  obtain old db1 rws where U: "old \<in> set (tb_rows db)" "is_row (tx_owner t) (td_ID z) old"
    "rws = map (\<lambda>r. if is_row (tx_owner t) (td_ID z) r then updated_todo db z old else follow old (td_ListID z) r) (tb_rows db)"
    "commit_todos db rws = Inr db1" "tb_rows db' = rws" "tb_lists db' = tb_lists db"
    "out = (updated_todo db z old)\<lparr>td_Checks := td_Checks z\<rparr>" by (rule Todo_UpdateD [OF u])
  have "td_ID old = td_ID z" "visible (tx_owner t) old" using U(2) by (simp_all add: is_row_def)
  moreover have "todos_ok db'" using k ok by (simp add: keeps_def)
  ultimately have "moved db db' (tx_owner t) (td_ID z) old (updated_todo db z old)"
    using ok U(1-3,5) by (simp add: moved_def row_step_def [abs_def] visible_def live_def)
  then show thesis using U(7) that by blast
qed

lemma withTodoD: "withTodo t db i ifMatch fn = (Inr out, db') \<Longrightarrow> Todo_get db (tx_owner t) i = Inr x \<Longrightarrow> fn db x = Inr (out, db')"
  by (auto simp: withTodo_def WithTodos_def split: option.splits sum.splits)

lemma Move_parts:
  assumes "Todos_Move t db i m ifMatch = (Inr out, db')" and "Todo_get db (tx_owner t) i = Inr x"
  obtains lsts z where "relocate t db x lsts (tdm_ListID m) (tdm_ParentID m) (if opt_Set (tdm_AfterID m) then Some (tdm_AfterID m) else None) False = Inr z"
    "Todo_Update t db z = Inr (out, db')"
proof -
  obtain lsts def1 where lm: "listMap db (tx_owner t) = (lsts, def1)" by (cases "listMap db (tx_owner t)")
  have f: "(case relocate t db x lsts (tdm_ListID m) (tdm_ParentID m) (if opt_Set (tdm_AfterID m) then Some (tdm_AfterID m) else None) False of
            Inl e \<Rightarrow> Inl e | Inr y \<Rightarrow> Todo_Update t db y) = Inr (out, db')"
    using withTodoD [OF assms(1) [unfolded Todos_Move_def lm prod.case] assms(2)] .
  then show thesis using that by (auto split: sum.splits)
qed

lemma moved_place: "moved db db' owner i old row \<Longrightarrow> td_ParentID row \<noteq> Some i"
proof -
  assume mv: "moved db db' owner i old row"
  have "row \<in> set (tb_rows db')" using row_in [OF mv] by (simp add: group_rows_def)
  then have "todo_check row" using rows_okD(2) [OF movedD(2) [OF mv, unfolded todos_ok_def]] by (simp add: list_all_iff)
  then show ?thesis using movedD(5) [OF mv] by (auto simp: todo_check_def)
qed

text \<open>The group a todo moved into.\<close>

lemma moved_group:
  assumes mv: "moved db db' (tx_owner t) i old row" and x: "td_ID x = i" "td_ListID x = td_ListID old" "td_ParentID x = td_ParentID old" "td_Position x = td_Position old"
    and rl: "relocate t db x lsts (tdm_ListID m) (tdm_ParentID m) (if opt_Set (tdm_AfterID m) then Some (tdm_AfterID m) else None) False = Inr z"
    and z: "td_ListID row = td_ListID z" "td_ParentID row = td_ParentID z" "td_Position row = td_Position z"
  shows "sibling_ids db' (tx_owner t) (td_ListID z) (td_ParentID z) =
           move_spec t m i ((td_ListID z, td_ParentID z) = (td_ListID x, td_ParentID x)) (sibling_ids db (tx_owner t) (td_ListID z) (td_ParentID z))"
proof -
  let ?sib = "siblings db (tx_owner t) (td_ListID z) (td_ParentID z) i"
  note ok = movedD(1) [OF mv] and P = relocate_pos(2) [OF rl] and id = movedD(5) [OF mv]
  note G = own_group [OF mv moved_place [OF mv], unfolded z]
  show ?thesis
  proof (cases "opt_Set (tdm_AfterID m)")
    case True
    then have "positionAfter t db i (td_ListID z) (td_ParentID z) (tdm_AfterID m) = Inr (td_Position row)" using P x(1) z(3) by simp
    then show ?thesis using G(1) placed_after [OF ok _ id G(2)] True by (simp add: move_spec_def)
  next
    case False
    show ?thesis
    proof (cases "td_ListID z = td_ListID x \<and> td_ParentID z = td_ParentID x")
      case True
      then have "td_Position z = td_Position x" using P False by simp
      then show ?thesis using same_place [OF mv] True False x z by (simp add: move_spec_def)
    next
      case n: False
      then have k: "td_Position row = KeyBetween (LastPosition db (tx_owner t) (td_ListID z) (td_ParentID z) i) []"
        using P False x(1) z(3) by auto
      have inj: "inj_on td_Position (set ?sib)" by (rule inj_on_subset [OF G(2)]) auto
      have "\<forall>s\<in>set ?sib. td_Position s < td_Position row"
        using key_after_last(2) [OF siblings_valid [OF ok]] k by simp
      then have "sort_key td_Position (row # ?sib) = sort_key td_Position ?sib @ [row]" using inj by (rule sort_key_back)
      then show ?thesis using n False G(1) id by (auto simp: move_spec_def sibling_ids_without [OF ok])
    qed
  qed
qed

text \<open>
  C13.  Moving a todo, against the plain lists of ids.  In the group it goes to it stands where the request says:
  at the front, right after the todo named, at the end, or where it was, and the others keep their order;
  every other group only loses it; and its own subtasks follow it in the order they had.
\<close>

theorem move_refines:
  assumes "todos_ok db" and "Todo_get db (tx_owner t) i = Inr x" and "Todos_Move t db i m ifMatch = (Inr out, db')"
  shows "td_ID out = i \<and>
    sibling_ids db' (tx_owner t) (td_ListID out) (td_ParentID out) =
      move_spec t m i ((td_ListID out, td_ParentID out) = (td_ListID x, td_ParentID x))
        (sibling_ids db (tx_owner t) (td_ListID out) (td_ParentID out)) \<and>
    (\<forall>lst p. (lst, p) \<noteq> (td_ListID out, td_ParentID out) \<and> p \<noteq> Some i \<longrightarrow>
       sibling_ids db' (tx_owner t) lst p = without i (sibling_ids db (tx_owner t) lst p)) \<and>
    subtask_ids db' (tx_owner t) i = subtask_ids db (tx_owner t) i"
proof -
  obtain lsts z where rl: "relocate t db x lsts (tdm_ListID m) (tdm_ParentID m) (if opt_Set (tdm_AfterID m) then Some (tdm_AfterID m) else None) False = Inr z"
    and u: "Todo_Update t db z = Inr (out, db')" by (rule Move_parts [OF assms(3,2)])
  obtain r where r: "r \<in> set (tb_rows db)" "td_ID r = i" "visible (tx_owner t) r" "x = load_extras db r" by (rule Todo_getD [OF assms(2)])
  have zi: "td_ID z = i" using relocate_pos(1) [OF rl] r by simp
  have "keeps (tx_owner t) db db'" using Move_keeps [of t db i m ifMatch] assms(3) by simp
  then obtain old where mv: "moved db db' (tx_owner t) i old (updated_todo db z old)" and out: "out = (updated_todo db z old)\<lparr>td_Checks := td_Checks z\<rparr>"
    using Update_moved [OF assms(1) u] zi by blast
  note M = movedD [OF mv]
  have "old = r" using row_unique [OF rows_okD(3) [OF assms(1) [unfolded todos_ok_def]] M(3) r(1)] M(8) r(2) by simp
  then have x: "td_ID x = i" "td_ListID x = td_ListID old" "td_ParentID x = td_ParentID old" "td_Position x = td_Position old" using r by simp_all
  have o: "td_ID out = i" "td_ListID out = td_ListID z" "td_ParentID out = td_ParentID z" using M(8) by (simp_all add: out)
  note G = moved_group [OF mv x rl, unfolded updated_todo_fields, OF refl refl refl]
  have "sibling_ids db' (tx_owner t) lst p = without i (sibling_ids db (tx_owner t) lst p)"
    if "(lst, p) \<noteq> (td_ListID z, td_ParentID z)" "p \<noteq> Some i" for lst p
    by (rule other_group [OF mv that(2)]) (use that(1) in simp)
  then show ?thesis using G subtasks_follow [OF mv moved_place [OF mv]] unfolding o by blast
qed

subsection \<open>Completing a repeating todo\<close>

lemma Insert_after:
  assumes ok: "todos_ok db" and r: "r \<in> set (tb_rows db)" "visible (tx_owner t) r"
    and ins: "Todo_Insert t db (next_copy t db fresh (load_extras db r) dd rule) = Inr (n, db1)"
  shows "sibling_ids db1 (tx_owner t) (td_ListID r) (td_ParentID r)
       = insert_after (td_ID r) (fresh 0) (sibling_ids db (tx_owner t) (td_ListID r) (td_ParentID r))"
proof -
  let ?c = "new_row t db (next_copy t db fresh (load_extras db r) dd rule)" and ?g = "group_rows db (tx_owner t) (td_ListID r) (td_ParentID r)"
  have c: "td_ID ?c = fresh 0" "visible (tx_owner t) ?c" "td_ListID ?c = td_ListID r" "td_ParentID ?c = td_ParentID r"
    "td_Position ?c = KeyBetween (td_Position r) (NextPosition db (tx_owner t) (td_ListID r) (td_ParentID r) (td_Position r) (td_ID r))"
    by (simp_all add: next_copy_def visible_def live_def)
  note I = Todo_InsertD [OF ins]
  have ok1: "todos_ok db1" using Todo_Insert_keeps [OF ins next_copy_place [OF ok r ins]] ok by (simp add: keeps_def)
  have rg: "r \<in> set ?g" using r by (simp add: group_rows_def)
  have g: "group_rows db1 (tx_owner t) (td_ListID r) (td_ParentID r) = ?g @ [?c]"
    using c by (simp add: group_rows_def I(1))
  have "sort_key td_Position (?g @ [?c]) = sort_key td_Position (?c # ?g)"
    by (rule sort_key_mset) (use group_inj_pos [OF ok1] g in \<open>metis mset_append union_commute mset.simps add_mset_add_single\<close>)+
  moreover have "map td_ID (sort_key td_Position (?c # ?g)) = insert_after (td_ID r) (td_ID ?c) (map td_ID (sort_key td_Position ?g))"
  proof (rule sort_key_after [OF rg group_inj_pos [OF ok] group_distinct [OF ok] _ group_inj_id [OF ok]])
    fix y assume y: "y \<in> set ?g"
    have dig: "digits_only (td_Position r)"
      using order_valid [OF rows_okD(6) [OF ok [unfolded todos_ok_def]] r(1) visible_live(1) [OF r(2)]] by (rule valid_digits)
    note K = key_after [OF siblings_valid [OF ok, of "tx_owner t" "td_ListID r" "td_ParentID r" "td_ID r"] dig, folded c(5)]
    show "if td_Position y \<le> td_Position r then td_Position y < td_Position ?c else td_Position ?c < td_Position y"
    proof (cases "td_ID y = td_ID r")
      case True
      then have "y = r" using group_inj_id [OF ok] y rg by (auto dest: inj_onD)
      then show ?thesis using K(2) by simp
    next
      case False
      then show ?thesis using K(3) [of y] y by (simp add: siblings_group)
    qed
  qed
  ultimately show ?thesis unfolding sibling_ids_def g using c(1) by simp
qed

lemma Complete_parts:
  assumes "Complete t db i fresh now ifMatch = (Inr (out, Some n), db')" and "Todo_get db (tx_owner t) i = Inr x"
  obtains at rule db1 where "\<not> Done x"
    "Next (en_lib (tx_env t)) (td_RRule x) (case DueStart (en_zones (tx_env t)) x of None \<Rightarrow> zero_time | Some s \<Rightarrow> s)
       (if td_DueTime x = None then UTC else Todo_Zone (en_zones (tx_env t)) x) = Inr (Some (at, rule))"
    "Todo_Insert t db (next_copy t db fresh x (midnight (if td_DueTime x = None then UTC else Todo_Zone (en_zones (tx_env t)) x) at) rule) = Inr (n, db1)"
    "Todo_Update t db1 (x\<lparr>td_RRule := [], td_Status := ''completed'', td_CompletedAt := Some now\<rparr>) = Inr (out, db')"
proof -
  note f = withTodoD [OF assms(1) [unfolded Complete_def] assms(2)]
  then have nd: "\<not> Done x" by (auto split: if_splits)
  obtain db1 where nt: "nextTodo t db fresh x = Inr (Some n, db1)"
    and u: "Todo_Update t db1 (x\<lparr>td_RRule := [], td_Status := ''completed'', td_CompletedAt := Some now\<rparr>) = Inr (out, db')"
    using f nd by (auto split: sum.splits if_splits)
  show thesis
    using nt that [OF nd _ _ u] by (auto simp: nextTodo_def Let_def split: sum.splits option.splits)
qed

text \<open>The time and the rule that come after this todo.\<close>

definition due_zone :: "tx_ctx \<Rightarrow> Todo \<Rightarrow> location" where
  "due_zone t x = (if td_DueTime x = None then UTC else Todo_Zone (en_zones (tx_env t)) x)"

definition coming :: "tx_ctx \<Rightarrow> Todo \<Rightarrow> go_error + (go_time \<times> string) option" where
  "coming t x = Next (en_lib (tx_env t)) (td_RRule x) (case DueStart (en_zones (tx_env t)) x of None \<Rightarrow> zero_time | Some s \<Rightarrow> s) (due_zone t x)"

lemma insert_checks_texts:
  "insert_checks db i cs = Inr (out, db') \<Longrightarrow> map (\<lambda>c. (ck_Text c, ck_Done c)) out = map (\<lambda>c. (ck_Text c, ck_Done c)) cs"
proof (induction cs arbitrary: db out)
  case (Cons c cs)
  obtain saved db1 rest where "InsertCheck db (c\<lparr>ck_TodoID := i\<rparr>) = Inr (saved, db1)" "insert_checks db1 i cs = Inr (rest, db')" "out = saved # rest"
    using Cons.prems by (auto split: sum.splits)
  moreover from this have "ck_Text saved = ck_Text c" "ck_Done saved = ck_Done c"
    by (auto simp: InsertCheck_def Let_def split: sum.splits)
  ultimately show ?case using Cons.IH by simp
qed simp

lemma Insert_checks_texts:
  assumes "Todo_Insert t db x = Inr (out, db')"
  shows "map (\<lambda>c. (ck_Text c, ck_Done c)) (td_Checks out) = map (\<lambda>c. (ck_Text c, ck_Done c)) (td_Checks x)"
proof -
  obtain db1 cs db2 where "insert_checks db1 (td_ID (new_row t db x)) (td_Checks x) = Inr (cs, db2)" "td_Checks out = cs"
    using assms by (auto simp: Todo_Insert_def Let_def split: sum.splits if_splits)
  then show ?thesis using insert_checks_texts by blast
qed

lemma next_copy_checks:
  "map (\<lambda>c. (ck_Text c, ck_Done c)) (td_Checks (next_copy t db fresh x dd rule)) = map (\<lambda>c. (ck_Text c, False)) (td_Checks x)"
proof -
  have "map (\<lambda>c. (ck_Text c, ck_Done c)) (map2 (\<lambda>k c. copy_check (fresh (k + 1)) (fresh 0) c) [a..<a + length cs] cs) = map (\<lambda>c. (ck_Text c, False)) cs"
    for a and cs :: "Check list"
  proof (induction cs arbitrary: a)
    case (Cons c cs)
    have "[a..<a + length (c # cs)] = a # [Suc a..<Suc a + length cs]" by (simp add: upt_rec)
    then show ?case using Cons [of "Suc a"] by (simp add: copy_check_def)
  qed simp
  from this [of 0 "td_Checks x"] show ?thesis by (simp add: next_copy_def)
qed

text \<open>
  C15.  Completing a repeating todo.  The todo is done and repeats no more; a new open todo, with its title and its
  checklist reset, is due on the day the rule gives next and carries the rule that is left, and it stands
  right after the one completed among the todos of the same list and parent.
\<close>

theorem complete_repeats:
  assumes "todos_ok db" and "Todo_get db (tx_owner t) i = Inr x" and "Complete t db i fresh now ifMatch = (Inr (out, Some n), db')"
  shows "td_ID out = i \<and> Done out \<and> td_CompletedAt out = Some (db_time now) \<and> td_RRule out = [] \<and>
    td_ID n = fresh 0 \<and> \<not> Done n \<and> td_Title n = td_Title x \<and>
    map (\<lambda>c. (ck_Text c, ck_Done c)) (td_Checks n) = map (\<lambda>c. (ck_Text c, False)) (td_Checks x) \<and>
    (\<exists>at rule. coming t x = Inr (Some (at, rule)) \<and> td_RRule n = rule \<and> td_DueDate n = Some (db_date (midnight (due_zone t x) at))) \<and>
    sibling_ids db' (tx_owner t) (td_ListID x) (td_ParentID x) =
      insert_after i (fresh 0) (sibling_ids db (tx_owner t) (td_ListID x) (td_ParentID x))"
proof -
  obtain at rule db1 where C: "coming t x = Inr (Some (at, rule))"
    and ins: "Todo_Insert t db (next_copy t db fresh x (midnight (due_zone t x) at) rule) = Inr (n, db1)"
    and u: "Todo_Update t db1 (x\<lparr>td_RRule := [], td_Status := ''completed'', td_CompletedAt := Some now\<rparr>) = Inr (out, db')"
    using Complete_parts [OF assms(3,2)] unfolding coming_def due_zone_def by metis
  let ?z = "x\<lparr>td_RRule := [], td_Status := ''completed'', td_CompletedAt := Some now\<rparr>"
  obtain r where r: "r \<in> set (tb_rows db)" "td_ID r = i" "visible (tx_owner t) r" and x: "x = load_extras db r" by (rule Todo_getD [OF assms(2)])
  note I = Todo_InsertD [OF ins]
  obtain cs where n: "n = (new_row t db (next_copy t db fresh x (midnight (due_zone t x) at) rule))\<lparr>td_Checks := cs\<rparr>" using I(4) by blast
  have ok1: "todos_ok db1"
    using Todo_Insert_keeps [OF ins next_copy_place [OF assms(1) r(1,3) ins [unfolded x], folded x]] assms(1) by (simp add: keeps_def)
  have r1: "r \<in> set (tb_rows db1)" using I(1) r(1) by simp
  have "keeps (tx_owner t) db1 db'" by (rule Todo_Update_same_place [OF ok1 r1 r(3) _ _ _ _ u]) (simp_all add: x)
  moreover have zi: "td_ID ?z = i" using r(2) by (simp add: x)
  ultimately obtain old where mv: "moved db1 db' (tx_owner t) i old (updated_todo db1 ?z old)" and out: "out = (updated_todo db1 ?z old)\<lparr>td_Checks := td_Checks ?z\<rparr>"
    using Update_moved [OF ok1 u] unfolding zi by blast
  have "old = r" using row_unique [OF rows_okD(3) [OF ok1 [unfolded todos_ok_def]] movedD(3) [OF mv] r1] movedD(8) [OF mv] r(2) by simp
  then have "sibling_ids db' (tx_owner t) (td_ListID x) (td_ParentID x) = sibling_ids db1 (tx_owner t) (td_ListID x) (td_ParentID x)"
    by (intro same_place [OF mv]) (simp_all add: x)
  moreover have "sibling_ids db1 (tx_owner t) (td_ListID x) (td_ParentID x) = insert_after i (fresh 0) (sibling_ids db (tx_owner t) (td_ListID x) (td_ParentID x))"
    using Insert_after [OF assms(1) r(1,3) ins [unfolded x], folded x] r(2) by (simp add: x)
  moreover have "td_ID out = i" "Done out" "td_CompletedAt out = Some (db_time now)" "td_RRule out = []"
    using movedD(8) [OF mv] by (simp_all add: out Done_def updated_todo_def stored_todo_def)
  moreover have "td_ID n = fresh 0" "\<not> Done n" "td_Title n = td_Title x" "td_RRule n = rule" "td_DueDate n = Some (db_date (midnight (due_zone t x) at))"
    by (simp_all add: n Done_def new_row_def stored_todo_def next_copy_def)
  moreover have "map (\<lambda>c. (ck_Text c, ck_Done c)) (td_Checks n) = map (\<lambda>c. (ck_Text c, False)) (td_Checks x)"
    using Insert_checks_texts [OF ins] next_copy_checks by metis
  ultimately show ?thesis using C by simp
qed


subsection \<open>Witnesses\<close>

definition demo_todo_ctx :: tx_ctx where
  "demo_todo_ctx = \<lparr>tx_env = demo_env\<lparr>en_ParseID := (\<lambda>s. if s = ''1'' then Some 1 else if s = ''3'' then Some 3 else None)\<rparr>,
     tx_owner = 1, tx_origin = []\<rparr>"

definition demo_todo :: "go_id \<Rightarrow> string \<Rightarrow> go_id option \<Rightarrow> string \<Rightarrow> string \<Rightarrow> Todo" where
  "demo_todo i pos parent uid rule = Todo0\<lparr>td_ID := i, td_OwnerID := 1, td_ListID := 7, td_ParentID := parent, td_UID := uid,
     td_Title := ''t'', td_Status := ''needs_action'', td_Position := pos, td_DueDate := Some 0, td_RRule := rule\<rparr>"

definition demo_todos :: "string \<Rightarrow> todo_db" where
  "demo_todos uid =
     \<lparr>tb_cal = \<lparr>cd_users = [], cd_calendars = [], cd_events = [], cd_bindings = [], cd_mappings = [], cd_outbox = [], cd_outbox_next = 1,
                cd_jobs = \<lparr>rows = [], next_id = 1\<rparr>, cd_changes = [], cd_now = 0\<rparr>,
      tb_lists = [\<lparr>tl_ID = 7, tl_OwnerID = 1, tl_Name = ''home'', tl_Color = DefaultListColor, tl_Position = 0, tl_IsDefault = True,
                   tl_CreatedAt = 0, tl_UpdatedAt = 0\<rparr>],
      tb_rows = [demo_todo 1 ''a'' None uid ''FREQ=DAILY;COUNT=3'', demo_todo 2 ''k'' None [] [], demo_todo 3 ''u'' None [] [],
                 demo_todo 4 ''k'' (Some 2) [] []],
      tb_checks = [\<lparr>ck_ID = 9, ck_TodoID = 1, ck_Text = ''milk'', ck_Done = True, ck_Position = ''k'', ck_DoneAt = Some 0, ck_CreatedAt = 0\<rparr>]\<rparr>"

definition demo_todo_move :: TodoMove where
  "demo_todo_move = \<lparr>tdm_ListID = Opt_unset [], tdm_ParentID = Opt_unset [], tdm_AfterID = Opt_Some ''3''\<rparr>"

lemma tree_ok_iff:
  "tree_ok rws \<longleftrightarrow> list_all (\<lambda>r. \<not> live r \<or> (case td_ParentID r of None \<Rightarrow> True | Some p \<Rightarrow>
     list_ex (\<lambda>s. td_ID s = p \<and> live s \<and> td_ParentID s = None \<and> td_ListID s = td_ListID r \<and> td_OwnerID s = td_OwnerID r) rws)) rws"
  unfolding tree_ok_def list_all_iff list_ex_iff by (auto split: option.splits)

lemma demo_todos_ok: "todos_ok (demo_todos [])"
  unfolding todos_ok_def rows_ok_def tree_ok_iff by (intro conjI; code_simp)


lemma demo_move_runs:
  "\<exists>out. fst (Todos_Move demo_todo_ctx (demo_todos []) 1 demo_todo_move []) = Inr out \<and> td_ListID out = 7 \<and> td_ParentID out = None"
  "sibling_ids (demo_todos []) 1 7 None = [1, 2, 3]" "tx_owner demo_todo_ctx = 1" "named_after demo_todo_ctx (Opt_Some ''3'') = Some 3"
  "\<exists>x. Todo_get (demo_todos []) 1 1 = Inr x"
proof -
  have "(case fst (Todos_Move demo_todo_ctx (demo_todos []) 1 demo_todo_move []) of Inl e \<Rightarrow> False | Inr out \<Rightarrow> td_ListID out = 7 \<and> td_ParentID out = None)"
    by code_simp
  then show "\<exists>out. fst (Todos_Move demo_todo_ctx (demo_todos []) 1 demo_todo_move []) = Inr out \<and> td_ListID out = 7 \<and> td_ParentID out = None"
    by (auto split: sum.splits)
  have "\<not> isl (Todo_get (demo_todos []) 1 1)" by code_simp
  then show "\<exists>x. Todo_get (demo_todos []) 1 1 = Inr x" by (cases "Todo_get (demo_todos []) 1 1") auto
qed code_simp+

lemma move_refines_witness: "sibling_ids (snd (Todos_Move demo_todo_ctx (demo_todos []) 1 demo_todo_move [])) 1 7 None = [2, 3, 1]"
proof -
  obtain out x where o: "fst (Todos_Move demo_todo_ctx (demo_todos []) 1 demo_todo_move []) = Inr out" "td_ListID out = 7" "td_ParentID out = None"
    and x: "Todo_get (demo_todos []) 1 1 = Inr x" using demo_move_runs by blast
  have "Todos_Move demo_todo_ctx (demo_todos []) 1 demo_todo_move [] = (Inr out, snd (Todos_Move demo_todo_ctx (demo_todos []) 1 demo_todo_move []))"
    using o(1) by (simp add: prod_eq_iff)
  note R = conjunct1 [OF conjunct2 [OF move_refines [OF demo_todos_ok _ this, unfolded demo_move_runs(3), OF x]], unfolded o]
  have "move_spec demo_todo_ctx demo_todo_move 1 b (sibling_ids (demo_todos []) 1 7 None) = [2, 3, 1]" for b
  proof -
    have "move_spec demo_todo_ctx demo_todo_move 1 b ids = move_spec demo_todo_ctx demo_todo_move 1 True ids" for ids
      by (simp add: move_spec_def demo_todo_move_def Opt_Some_def)
    moreover have "move_spec demo_todo_ctx demo_todo_move 1 True (sibling_ids (demo_todos []) 1 7 None) = [2, 3, 1]" by code_simp
    ultimately show ?thesis by simp
  qed
  with R show ?thesis by (rule trans)
qed

lemma demo_complete_runs:
  "case Complete demo_todo_ctx (demo_todos []) 1 (\<lambda>k. 20 + k) 5000 [] of (Inr (out, Some n), db') \<Rightarrow> True | _ \<Rightarrow> False"
  "case Todo_get (demo_todos []) 1 1 of Inr x \<Rightarrow> td_ListID x = 7 \<and> td_ParentID x = None | _ \<Rightarrow> False"
  "insert_after 1 20 (sibling_ids (demo_todos []) 1 7 None) = [1, 20, 2, 3]"
  by code_simp+

lemma complete_repeats_witness:
  "\<exists>out n db'. Complete demo_todo_ctx (demo_todos []) 1 (\<lambda>k. 20 + k) 5000 [] = (Inr (out, Some n), db') \<and>
     Done out \<and> \<not> Done n \<and> sibling_ids db' 1 7 None = [1, 20, 2, 3]"
proof -
  obtain out n db' where c: "Complete demo_todo_ctx (demo_todos []) 1 (\<lambda>k. 20 + k) 5000 [] = (Inr (out, Some n), db')"
    using demo_complete_runs(1) by (auto split: prod.splits sum.splits option.splits)
  obtain x where x: "Todo_get (demo_todos []) 1 1 = Inr x" "td_ListID x = 7" "td_ParentID x = None"
    using demo_complete_runs(2) by (auto split: sum.splits)
  note R = complete_repeats [OF demo_todos_ok _ c, unfolded demo_move_runs(3), OF x(1), unfolded x(2,3)]
  have "sibling_ids db' 1 7 None = insert_after 1 20 (sibling_ids (demo_todos []) 1 7 None)" using R by simp
  then have "sibling_ids db' 1 7 None = [1, 20, 2, 3]" unfolding demo_complete_runs(3) .
  moreover have "Done out" "\<not> Done n" using R by blast+
  ultimately show ?thesis using c by blast
qed

lemma demo_uid_todo:
  "case Todo_get (demo_todos ''u@x'') 1 1 of Inr x \<Rightarrow>
     \<not> Done x \<and> td_RRule x \<noteq> [] \<and> td_DueDate x \<noteq> None \<and> td_UID x \<noteq> [] \<and> td_ParentID x = None \<and>
     coming demo_todo_ctx x = Inr (Some (day, ''FREQ=DAILY;COUNT=2'')) | _ \<Rightarrow> False"
  by code_simp


end
