(* ===== verification/Dedup.thy ===== *)
theory Dedup
  imports Complex_Main Todo_Service Timeparse
begin

text \<open>
  Duplicates: \<open>internal/dedup\<close> over the table of \<open>internal/store/pg/dedup.go\<close>.  A scan pairs items with the same
  UID or fingerprint and events whose titles are alike, deletes the copies the user's policy allows and
  flags the rest; a flagged pair is then kept, merged or dismissed.  The similarity of titles (\<open>pg_trgm\<close>),
  the hash of the fingerprints, the order in which Go walks a map and the order of equal starts after its
  sort are arguments.  Ids stand for UUIDs, whose text has the order of the ids.
\<close>

subsection \<open>The table of pairs\<close>

record Snapshot =
  sn_ID :: go_id
  sn_Title :: string
  sn_When :: string
  sn_Body :: string
  sn_Location :: string
  sn_Extra :: "string list"
  sn_Created :: string

record Duplicate =
  du_ID :: go_id
  du_OwnerID :: go_id
  du_Entity :: string
  du_AID :: go_id
  du_BID :: go_id
  du_Reason :: string
  du_Score :: rat
  du_Status :: string
  du_A :: Snapshot
  du_B :: Snapshot
  du_CreatedAt :: go_time
  du_ResolvedAt :: "go_time option"

definition Pending :: "Duplicate \<Rightarrow> bool" where
  "Pending d \<longleftrightarrow> du_Status d = ''pending''"

definition Auto :: "Duplicate \<Rightarrow> string \<Rightarrow> bool" where
  "Auto d policy =
     (if policy = ''auto_fingerprint'' then du_Reason d = ''uid'' \<or> du_Reason d = ''fingerprint''
      else if policy = ''auto_exact'' then du_Reason d = ''uid''
      else False)"

text \<open>The database of todos and events with the pairs.\<close>

record dedup_db =
  dd_items :: todo_db
  dd_pairs :: "Duplicate list"

definition dd_cal :: "dedup_db \<Rightarrow> cal_db" where
  "dd_cal db = tb_cal (dd_items db)"

definition set_cal :: "dedup_db \<Rightarrow> cal_db \<Rightarrow> dedup_db" where
  "set_cal db c = db\<lparr>dd_items := (dd_items db)\<lparr>tb_cal := c\<rparr>\<rparr>"

definition dup_check :: "Duplicate \<Rightarrow> bool" where
  "dup_check d \<longleftrightarrow> du_AID d < du_BID d \<and> du_Entity d \<in> {''event'', ''todo''} \<and>
     du_Reason d \<in> {''uid'', ''fingerprint'', ''fuzzy''} \<and> 0 \<le> du_Score d \<and> du_Score d \<le> 1 \<and>
     du_Status d \<in> {''pending'', ''merged'', ''deleted'', ''dismissed''} \<and> ((du_Status d = ''pending'') = (du_ResolvedAt d = None))"

definition dup_keys :: "Duplicate list \<Rightarrow> bool" where
  "dup_keys ds \<longleftrightarrow> distinct (map du_ID ds) \<and> distinct (map (\<lambda>d. (du_OwnerID d, du_Entity d, du_AID d, du_BID d)) ds)"

definition commit_pairs :: "dedup_db \<Rightarrow> Duplicate list \<Rightarrow> go_error + dedup_db" where
  "commit_pairs db ds =
     (if \<not> list_all dup_check ds then Inl (Wrap ErrInvalid ''check violation'')
      else if \<not> dup_keys ds then Inl (Wrap ErrConflict ''unique violation'')
      else Inr (db\<lparr>dd_pairs := ds\<rparr>))"

definition Duplicate_get :: "dedup_db \<Rightarrow> go_id \<Rightarrow> go_id \<Rightarrow> go_error + Duplicate" where
  "Duplicate_get db owner i =
     (case find (\<lambda>d. du_ID d = i \<and> du_OwnerID d = owner) (dd_pairs db) of None \<Rightarrow> Inl (Wrap ErrNotFound []) | Some d \<Rightarrow> Inr d)"

definition same_pair :: "go_id \<Rightarrow> string \<Rightarrow> go_id \<Rightarrow> go_id \<Rightarrow> Duplicate \<Rightarrow> bool" where
  "same_pair owner entity a b d \<longleftrightarrow> du_OwnerID d = owner \<and> du_Entity d = entity \<and> du_AID d = a \<and> du_BID d = b"

text \<open>A pair seen again is refreshed while it is pending, and left alone once it was handled.\<close>

definition SaveDuplicate :: "tx_ctx \<Rightarrow> dedup_db \<Rightarrow> Duplicate \<Rightarrow> go_error + dedup_db" where
  "SaveDuplicate t db d =
     (let x = (if du_BID d < du_AID d then d\<lparr>du_AID := du_BID d, du_BID := du_AID d, du_A := du_B d, du_B := du_A d\<rparr> else d);
          hit = same_pair (tx_owner t) (du_Entity x) (du_AID x) (du_BID x)
      in if list_ex hit (dd_pairs db)
         then commit_pairs db (map (\<lambda>r. if hit r \<and> Pending r
                then r\<lparr>du_Reason := du_Reason x, du_Score := du_Score x, du_A := du_A x, du_B := du_B x\<rparr> else r) (dd_pairs db))
         else commit_pairs db (dd_pairs db @ [x\<lparr>du_OwnerID := tx_owner t, du_Status := ''pending'',
                du_CreatedAt := tb_now (dd_items db), du_ResolvedAt := None\<rparr>]))"

definition ResolveDuplicate :: "dedup_db \<Rightarrow> go_id \<Rightarrow> go_id \<Rightarrow> string \<Rightarrow> go_time \<Rightarrow> go_error + dedup_db" where
  "ResolveDuplicate db owner i status now =
     (let hit = (\<lambda>d. du_ID d = i \<and> du_OwnerID d = owner \<and> Pending d) in
      if \<not> list_ex hit (dd_pairs db) then Inl (Wrap ErrNotFound [])
      else commit_pairs db (map (\<lambda>d. if hit d then d\<lparr>du_Status := status, du_ResolvedAt := Some (db_time now)\<rparr> else d) (dd_pairs db)))"

definition DropDuplicates :: "dedup_db \<Rightarrow> go_id \<Rightarrow> string \<Rightarrow> go_id \<Rightarrow> dedup_db" where
  "DropDuplicates db owner entity i =
     db\<lparr>dd_pairs := filter (\<lambda>d. \<not> (du_OwnerID d = owner \<and> du_Entity d = entity \<and> (du_AID d = i \<or> du_BID d = i))) (dd_pairs db)\<rparr>"

definition Resolved :: "dedup_db \<Rightarrow> go_id \<Rightarrow> string \<Rightarrow> go_id \<Rightarrow> go_id \<Rightarrow> bool" where
  "Resolved db owner entity a b = list_ex (\<lambda>d. same_pair owner entity (min a b) (max a b) d \<and> \<not> Pending d) (dd_pairs db)"

definition Duplicates :: "dedup_db \<Rightarrow> go_id \<Rightarrow> string \<Rightarrow> int \<Rightarrow> Duplicate list" where
  "Duplicates db owner status limit =
     take (nat limit) (sort_key (\<lambda>d. - du_CreatedAt d) (sort_key du_ID
       (filter (\<lambda>d. du_OwnerID d = owner \<and> du_Status d = status) (dd_pairs db))))"

definition CountDuplicates :: "dedup_db \<Rightarrow> go_id \<Rightarrow> int" where
  "CountDuplicates db owner = int (length (filter (\<lambda>d. du_OwnerID d = owner \<and> Pending d) (dd_pairs db)))"

definition Owners :: "dedup_db \<Rightarrow> go_id list" where
  "Owners db = sort (map us_ID (filter (\<lambda>u. us_DisabledAt u = None) (cd_users (dd_cal db))))"

text \<open>The masters and single events of an account that touch a span, and its open todos without a parent.\<close>

definition EventsInSpan :: "dedup_db \<Rightarrow> go_id \<Rightarrow> go_time \<Rightarrow> go_time \<Rightarrow> Event list" where
  "EventsInSpan db owner from to =
     sort_key ev_ID (map fst (filter (\<lambda>(e, s). event_visible owner e \<and> ev_SeriesID e = None \<and> range_overlaps s from to) (cd_events (dd_cal db))))"

definition OpenTodos :: "dedup_db \<Rightarrow> go_id \<Rightarrow> int \<Rightarrow> Todo list" where
  "OpenTodos db owner limit =
     map (load_extras (dd_items db)) (take (nat limit) (sort_key td_ID
       (filter (\<lambda>t. visible owner t \<and> td_ParentID t = None \<and> td_Status t = ''needs_action'') (tb_rows (dd_items db)))))"

definition WithDedup :: "dedup_db \<Rightarrow> (dedup_db \<Rightarrow> go_error + 'a \<times> dedup_db) \<Rightarrow> (go_error + 'a) \<times> dedup_db" where
  "WithDedup db fn = (case fn db of Inl x \<Rightarrow> (Inl x, db) | Inr (r, db') \<Rightarrow> (Inr r, db'))"

subsection \<open>Finding pairs\<close>

definition fuzzyWindow :: go_time where
  "fuzzyWindow = 15 * minute"

definition fuzzyThreshold :: rat where
  "fuzzyThreshold = 8 / 10"

definition scanBack :: go_time where
  "scanBack = 180 * 24 * hour"

definition scanAhead :: go_time where
  "scanAhead = 400 * 24 * hour"

definition maxTodos :: int where
  "maxTodos = 5000"

definition maxPairs :: int where
  "maxPairs = 500"

definition reviewLimit :: int where
  "reviewLimit = 200"

definition fullScanSpan :: go_time where
  "fullScanSpan = 100 * 365 * 24 * hour"

record scan_env =
  se_sha256 :: "string \<Rightarrow> string"
  se_similarity :: "string \<Rightarrow> string \<Rightarrow> rat option"
  se_walk :: "string list \<Rightarrow> string list"
  se_sort :: "Event list \<Rightarrow> Event list"

text \<open>\<open>hex.EncodeToString\<close>.\<close>

definition hex_text :: "string \<Rightarrow> string" where
  "hex_text s = concat (map (\<lambda>c. let n = of_char c :: nat in [digit36 (n div 16), digit36 (n mod 16)]) s)"

definition pairKey :: "go_id \<Rightarrow> go_id \<Rightarrow> go_id \<times> go_id" where
  "pairKey a b = (if b < a then (b, a) else (a, b))"

definition duplicate :: "go_id \<Rightarrow> string \<Rightarrow> go_id \<Rightarrow> go_id \<Rightarrow> string \<Rightarrow> rat \<Rightarrow> Snapshot \<Rightarrow> Snapshot \<Rightarrow> Duplicate" where
  "duplicate owner entity a b reason score sa sb =
     (let d = \<lparr>du_ID = NilID, du_OwnerID = owner, du_Entity = entity, du_AID = a, du_BID = b, du_Reason = reason, du_Score = score,
               du_Status = [], du_A = sa, du_B = sb, du_CreatedAt = zero_time, du_ResolvedAt = None\<rparr>
      in if b < a then d\<lparr>du_AID := b, du_BID := a, du_A := sb, du_B := sa\<rparr> else d)"

definition eventSnapshot :: "zoneinfo \<Rightarrow> Event \<Rightarrow> Snapshot" where
  "eventSnapshot zi e =
     \<lparr>sn_ID = ev_ID e, sn_Title = ev_Title e,
      sn_When = (if ev_AllDay e then Domain.format_date (time_date UTC (ev_Start e))
                 else let loc = Event_Zone zi e in Domain.format_date (time_date loc (ev_Start e)) @ '' '' @
                        FormatClock (60 * time_hour loc (ev_Start e) + time_minute loc (ev_Start e))),
      sn_Body = ev_Body e, sn_Location = ev_Location e,
      sn_Extra = (if ev_RRule e \<noteq> [] then [''repeats''] else []) @
                 (if ev_Reminders e \<noteq> [] then [itoa (int (length (ev_Reminders e))) @ '' reminders''] else []),
      sn_Created = format_rfc3339 (ev_CreatedAt e)\<rparr>"

definition todoSnapshot :: "Todo \<Rightarrow> Snapshot" where
  "todoSnapshot t =
     \<lparr>sn_ID = td_ID t, sn_Title = td_Title t,
      sn_When = (case td_DueDate t of None \<Rightarrow> []
                 | Some d \<Rightarrow> Domain.format_date (time_date UTC d) @ (case td_DueTime t of None \<Rightarrow> [] | Some m \<Rightarrow> '' '' @ FormatClock m)),
      sn_Body = td_Body t, sn_Location = [],
      sn_Extra = (if td_Checks t \<noteq> [] then [itoa (int (length (td_Checks t))) @ '' checklist items''] else []),
      sn_Created = format_rfc3339 (td_CreatedAt t)\<rparr>"

text \<open>What a scan has seen and found so far; every step says whether to go on.\<close>

type_synonym scan_state = "(go_id \<times> go_id) list \<times> Duplicate list"

definition add_pair :: "dedup_db \<Rightarrow> go_id \<Rightarrow> Duplicate list \<Rightarrow> Duplicate \<Rightarrow> bool \<times> Duplicate list" where
  "add_pair db owner out d =
     (if Resolved db owner (du_Entity d) (du_AID d) (du_BID d) then (True, out)
      else (int (length (out @ [d])) < maxPairs, out @ [d]))"

definition try_pair :: "dedup_db \<Rightarrow> go_id \<Rightarrow> scan_state \<Rightarrow> Duplicate \<Rightarrow> bool \<times> scan_state" where
  "try_pair db owner st d =
     (case st of (seen, out) \<Rightarrow>
        let k = pairKey (du_AID d) (du_BID d) in
        if k \<in> set seen then (True, st)
        else (case add_pair db owner out d of (go, out1) \<Rightarrow> (go, k # seen, out1)))"

fun each_while :: "('s \<Rightarrow> 'a \<Rightarrow> bool \<times> 's) \<Rightarrow> 's \<Rightarrow> 'a list \<Rightarrow> bool \<times> 's" where
  "each_while f st [] = (True, st)"
| "each_while f st (x # xs) = (case f st x of (go, st1) \<Rightarrow> if go then each_while f st1 xs else (False, st1))"

text \<open>The keys in the order they are first met, and the group of a key in the order of the items.\<close>

definition group_keys :: "('a \<Rightarrow> string) \<Rightarrow> 'a list \<Rightarrow> string list" where
  "group_keys key xs = remdups (map key xs)"

definition group_of :: "('a \<Rightarrow> string) \<Rightarrow> 'a list \<Rightarrow> string \<Rightarrow> 'a list" where
  "group_of key xs k = filter (\<lambda>x. key x = k) xs"

definition pair_groups ::
  "scan_env \<Rightarrow> dedup_db \<Rightarrow> go_id \<Rightarrow> ('a \<Rightarrow> 'a \<Rightarrow> Duplicate) \<Rightarrow> ('a \<Rightarrow> string) \<Rightarrow> 'a list \<Rightarrow> scan_state \<Rightarrow> bool \<times> scan_state" where
  "pair_groups env db owner mk key xs st =
     each_while (\<lambda>st k. let g = group_of key xs k in each_while (\<lambda>st x. try_pair db owner st (mk (hd g) x)) st (tl g))
       st (se_walk env (group_keys key xs))"

definition mk_event :: "zoneinfo \<Rightarrow> go_id \<Rightarrow> string \<Rightarrow> rat \<Rightarrow> Event \<Rightarrow> Event \<Rightarrow> Duplicate" where
  "mk_event zi owner reason score a b = duplicate owner ''event'' (ev_ID a) (ev_ID b) reason score (eventSnapshot zi a) (eventSnapshot zi b)"

definition mk_todo :: "go_id \<Rightarrow> string \<Rightarrow> Todo \<Rightarrow> Todo \<Rightarrow> Duplicate" where
  "mk_todo owner reason a b = duplicate owner ''todo'' (td_ID a) (td_ID b) reason 1 (todoSnapshot a) (todoSnapshot b)"

text \<open>The events after \<open>a\<close> in the order of their starts, while they start within the window.\<close>

fun fuzzy_from :: "scan_env \<Rightarrow> dedup_db \<Rightarrow> zoneinfo \<Rightarrow> go_id \<Rightarrow> Event \<Rightarrow> scan_state \<Rightarrow> Event list \<Rightarrow> bool \<times> scan_state" where
  "fuzzy_from env db zi owner a st [] = (True, st)"
| "fuzzy_from env db zi owner a st (b # bs) =
     (if time_sub (ev_Start b) (ev_Start a) > fuzzyWindow then (True, st)
      else if ev_AllDay a \<noteq> ev_AllDay b \<or> trim_space (ev_Title b) = [] \<or> pairKey (ev_ID a) (ev_ID b) \<in> set (fst st)
      then fuzzy_from env db zi owner a st bs
      else case se_similarity env (ev_Title a) (ev_Title b) of
        None \<Rightarrow> fuzzy_from env db zi owner a st bs
      | Some score \<Rightarrow>
          if score < fuzzyThreshold then fuzzy_from env db zi owner a st bs
          else (case try_pair db owner st (mk_event zi owner ''fuzzy'' score a b) of
                  (go, st1) \<Rightarrow> if go then fuzzy_from env db zi owner a st1 bs else (False, st1)))"

fun fuzzy_pairs :: "scan_env \<Rightarrow> dedup_db \<Rightarrow> zoneinfo \<Rightarrow> go_id \<Rightarrow> scan_state \<Rightarrow> Event list \<Rightarrow> bool \<times> scan_state" where
  "fuzzy_pairs env db zi owner st [] = (True, st)"
| "fuzzy_pairs env db zi owner st (a # rest) =
     (if trim_space (ev_Title a) = [] then fuzzy_pairs env db zi owner st rest
      else case fuzzy_from env db zi owner a st rest of
        (go, st1) \<Rightarrow> if go then fuzzy_pairs env db zi owner st1 rest else (False, st1))"

definition event_pairs :: "scan_env \<Rightarrow> dedup_db \<Rightarrow> zoneinfo \<Rightarrow> go_id \<Rightarrow> Duplicate list \<Rightarrow> Event list \<Rightarrow> bool \<times> Duplicate list" where
  "event_pairs env db zi owner out evs =
     (case pair_groups env db owner (mk_event zi owner ''uid'' 1) ev_UID (filter (\<lambda>e. ev_UID e \<noteq> []) evs) ([], out) of
        (go, st) \<Rightarrow>
          if \<not> go then (False, snd st)
          else case pair_groups env db owner (mk_event zi owner ''fingerprint'' 1) (\<lambda>e. hex_text (EventFingerprint (se_sha256 env) e)) evs st of
            (go1, st1) \<Rightarrow>
              if \<not> go1 then (False, snd st1)
              else case fuzzy_pairs env db zi owner st1 (se_sort env evs) of (go2, st2) \<Rightarrow> (go2, snd st2))"

definition todo_print :: "scan_env \<Rightarrow> (go_id \<Rightarrow> string) \<Rightarrow> Todo \<Rightarrow> string" where
  "todo_print env id_text t = hex_text (TodoFingerprint (se_sha256 env) t) @ [CHR 0x00] @ id_text (td_ListID t)"

definition todo_pairs :: "scan_env \<Rightarrow> dedup_db \<Rightarrow> (go_id \<Rightarrow> string) \<Rightarrow> go_id \<Rightarrow> Duplicate list \<Rightarrow> Todo list \<Rightarrow> Duplicate list" where
  "todo_pairs env db id_text owner out ts =
     (case pair_groups env db owner (mk_todo owner ''uid'') td_UID (filter (\<lambda>t. td_UID t \<noteq> []) ts) ([], out) of
        (go, st) \<Rightarrow>
          if \<not> go then snd st
          else snd (snd (pair_groups env db owner (mk_todo owner ''fingerprint'') (todo_print env id_text) ts st)))"

definition find_pairs :: "scan_env \<Rightarrow> service_env \<Rightarrow> dedup_db \<Rightarrow> go_id \<Rightarrow> bool \<Rightarrow> go_time \<Rightarrow> Duplicate list" where
  "find_pairs env sv db owner full now =
     (let back = (if full then fullScanSpan else scanBack); ahead = (if full then fullScanSpan else scanAhead)
      in case event_pairs env db (en_zones sv) owner [] (EventsInSpan db owner (now - back) (now + ahead)) of
           (go, out) \<Rightarrow> if \<not> go then out else todo_pairs env db (en_id_text sv) owner out (OpenTodos db owner maxTodos))"

subsection \<open>Removing and merging\<close>

definition set_items :: "dedup_db \<Rightarrow> todo_db \<Rightarrow> dedup_db" where
  "set_items db x = db\<lparr>dd_items := x\<rparr>"

definition remove_item :: "tx_ctx \<Rightarrow> dedup_db \<Rightarrow> Duplicate \<Rightarrow> go_id \<Rightarrow> go_time \<Rightarrow> go_error + dedup_db" where
  "remove_item t db d i now =
     (if du_Entity d = ''todo''
      then (case Todo_get (dd_items db) (tx_owner t) i of
              Inl e \<Rightarrow> Inl e
            | Inr x \<Rightarrow> (case Todo_Delete t (dd_items db) x now of
                Inl e \<Rightarrow> Inl e | Inr db1 \<Rightarrow> Inr (DropDuplicates (set_items db db1) (tx_owner t) ''todo'' i)))
      else (case Event_get (dd_cal db) (tx_owner t) i of
              Inl e \<Rightarrow> Inl e
            | Inr x \<Rightarrow> (case Event_Delete t (dd_cal db) x now of
                Inl e \<Rightarrow> Inl e | Inr c1 \<Rightarrow> Inr (DropDuplicates (set_cal db c1) (tx_owner t) ''event'' i))))"

text \<open>What the kept item takes from the dropped one.\<close>

definition merged_event :: "Event \<Rightarrow> Event \<Rightarrow> Event" where
  "merged_event keep drop1 =
     (let k = keep\<lparr>ev_Title := (if ev_Title keep = [] then ev_Title drop1 else ev_Title keep),
                   ev_Body := (if ev_Body keep = [] then ev_Body drop1 else ev_Body keep),
                   ev_Location := (if ev_Location keep = [] then ev_Location drop1 else ev_Location keep),
                   ev_URL := (if ev_URL keep = [] then ev_URL drop1 else ev_URL keep),
                   ev_Reminders := (if ev_Reminders keep = [] then ev_Reminders drop1 else ev_Reminders keep)\<rparr>
      in if ev_RRule k = [] \<and> ev_RRule drop1 \<noteq> [] \<and> ev_Start k = ev_Start drop1
         then k\<lparr>ev_RRule := ev_RRule drop1, ev_RDate := ev_RDate drop1, ev_ExDate := ev_ExDate drop1\<rparr> else k)"

definition merged_todo :: "Todo \<Rightarrow> Todo \<Rightarrow> Todo" where
  "merged_todo keep drop1 =
     (let k = keep\<lparr>td_Body := (if td_Body keep = [] then td_Body drop1 else td_Body keep),
                   td_Priority := (if td_Priority keep = 0 then td_Priority drop1 else td_Priority keep),
                   td_Reminders := (if td_Reminders keep = [] then td_Reminders drop1 else td_Reminders keep)\<rparr>
      in if td_DueTime k = None \<and> td_DueTime drop1 \<noteq> None
         then k\<lparr>td_DueTime := td_DueTime drop1, td_Duration := td_Duration drop1, td_TZ := td_TZ drop1\<rparr> else k)"

text \<open>The checklist items the kept todo lacks go to its end; \<open>i\<close> counts the fresh ids.\<close>

fun merge_checks :: "todo_db \<Rightarrow> (nat \<Rightarrow> go_id) \<Rightarrow> nat \<Rightarrow> string \<Rightarrow> Todo \<Rightarrow> Check list \<Rightarrow> go_error + Todo \<times> todo_db" where
  "merge_checks db fresh i prev saved [] = Inr (saved, db)"
| "merge_checks db fresh i prev saved (c # cs) =
     (if ck_Text c \<in> set (map ck_Text (td_Checks saved)) \<or> length (td_Checks saved) \<ge> MaxChecks
      then merge_checks db fresh i prev saved cs
      else
        let pos = KeyBetween prev [] in
        case InsertCheck db (c\<lparr>ck_ID := fresh i, ck_TodoID := td_ID saved, ck_Position := pos\<rparr>) of
          Inl e \<Rightarrow> Inl e
        | Inr (added, db1) \<Rightarrow> merge_checks db1 fresh (i + 1) pos (saved\<lparr>td_Checks := td_Checks saved @ [added]\<rparr>) cs)"

definition mergeTodos :: "tx_ctx \<Rightarrow> dedup_db \<Rightarrow> (nat \<Rightarrow> go_id) \<Rightarrow> Duplicate \<Rightarrow> go_time \<Rightarrow> go_error + dedup_db" where
  "mergeTodos t db fresh d now =
     (case Todo_get (dd_items db) (tx_owner t) (du_AID d) of
        Inl e \<Rightarrow> Inl e
      | Inr keep \<Rightarrow>
     (case Todo_get (dd_items db) (tx_owner t) (du_BID d) of
        Inl e \<Rightarrow> Inl e
      | Inr drop1 \<Rightarrow>
     (case Todo_Update t (dd_items db) (merged_todo keep drop1) of
        Inl e \<Rightarrow> Inl e
      | Inr (saved, db1) \<Rightarrow>
     (case merge_checks db1 fresh 0 (if td_Checks saved = [] then [] else ck_Position (last (td_Checks saved))) saved (td_Checks drop1) of
        Inl e \<Rightarrow> Inl e
      | Inr (saved1, db2) \<Rightarrow>
     (case Todo_Touch t db2 saved1 of
        Inl e \<Rightarrow> Inl e
      | Inr (out, db3) \<Rightarrow> remove_item t (set_items db db3) d (td_ID drop1) now)))))"

definition merge :: "tx_ctx \<Rightarrow> dedup_db \<Rightarrow> (nat \<Rightarrow> go_id) \<Rightarrow> Duplicate \<Rightarrow> go_time \<Rightarrow> go_error + dedup_db" where
  "merge t db fresh d now =
     (if du_Entity d = ''todo'' then mergeTodos t db fresh d now
      else
        (case Event_get (dd_cal db) (tx_owner t) (du_AID d) of
           Inl e \<Rightarrow> Inl e
         | Inr keep \<Rightarrow>
        (case Event_get (dd_cal db) (tx_owner t) (du_BID d) of
           Inl e \<Rightarrow> Inl e
         | Inr drop1 \<Rightarrow>
        (case Event_Update t (dd_cal db) (merged_event keep drop1) of
           Inl e \<Rightarrow> Inl e
         | Inr (out, c1) \<Rightarrow> remove_item t (set_cal db c1) d (ev_ID drop1) now))))"

subsection \<open>The review\<close>

definition Dedup_Actions :: "string list" where
  "Dedup_Actions = [''keep_a'', ''keep_b'', ''merge'', ''dismiss'']"

definition dedup_ctx :: "tx_ctx \<Rightarrow> tx_ctx" where
  "dedup_ctx t = t\<lparr>tx_origin := ''dedup''\<rparr>"

definition resolve_pair :: "tx_ctx \<Rightarrow> dedup_db \<Rightarrow> (nat \<Rightarrow> go_id) \<Rightarrow> go_id \<Rightarrow> string \<Rightarrow> go_time \<Rightarrow> go_error + dedup_db" where
  "resolve_pair t db fresh i action now =
     (case Duplicate_get db (tx_owner t) i of
        Inl e \<Rightarrow> Inl e
      | Inr d \<Rightarrow>
          if \<not> Pending d then Inl (Wrap ErrConflict ''this pair was already handled'')
          else if action = ''dismiss'' then ResolveDuplicate db (tx_owner t) i ''dismissed'' now
          else if action = ''merge''
          then (case merge t db fresh d now of Inl e \<Rightarrow> Inl e | Inr db1 \<Rightarrow> ResolveDuplicate db1 (tx_owner t) i ''merged'' now)
          else
            let gone = (if action = ''keep_b'' then du_AID d else du_BID d) in
            case (case remove_item t db d gone now of
                    Inl e \<Rightarrow> if err_is e ErrNotFound then Inr db else Inl e
                  | Inr db1 \<Rightarrow> Inr db1) of
              Inl e \<Rightarrow> Inl e
            | Inr db1 \<Rightarrow>
                (case ResolveDuplicate db1 (tx_owner t) i ''deleted'' now of
                   Inl e \<Rightarrow> if err_is e ErrNotFound then Inr db1 else Inl e
                 | Inr db2 \<Rightarrow> Inr db2))"

definition Resolve :: "tx_ctx \<Rightarrow> dedup_db \<Rightarrow> (nat \<Rightarrow> go_id) \<Rightarrow> go_id \<Rightarrow> string \<Rightarrow> go_time \<Rightarrow> go_error option \<times> dedup_db" where
  "Resolve t db fresh i action now =
     (if action \<notin> set Dedup_Actions then (Some (Validation (Add [] ''action'' ''must be keep_a, keep_b, merge or dismiss'')), db)
      else case resolve_pair (dedup_ctx t) db fresh i action now of Inl e \<Rightarrow> (Some e, db) | Inr db1 \<Rightarrow> (None, db1))"

definition Dedup_List :: "dedup_db \<Rightarrow> go_id \<Rightarrow> string \<Rightarrow> Duplicate list" where
  "Dedup_List db owner status = Duplicates db owner (if status = [] then ''pending'' else status) reviewLimit"

subsection \<open>Scans\<close>

text \<open>The pairs of a scan: delete the second item where the policy allows it, flag the pair otherwise.\<close>

fun handle_pairs :: "tx_ctx \<Rightarrow> (nat \<Rightarrow> go_id) \<Rightarrow> nat \<Rightarrow> string \<Rightarrow> go_time \<Rightarrow> dedup_db \<Rightarrow> Duplicate list \<Rightarrow> go_error + dedup_db" where
  "handle_pairs t fresh k policy now db [] = Inr db"
| "handle_pairs t fresh k policy now db (d # ds) =
     (if \<not> Auto d policy
      then (case SaveDuplicate t db (d\<lparr>du_ID := fresh k\<rparr>) of
              Inl e \<Rightarrow> Inl e | Inr db1 \<Rightarrow> handle_pairs t fresh (k + 1) policy now db1 ds)
      else (case remove_item t db d (du_BID d) now of
              Inl e \<Rightarrow> if err_is e ErrNotFound then handle_pairs t fresh k policy now db ds else Inl e
            | Inr db1 \<Rightarrow> handle_pairs t fresh k policy now db1 ds))"

definition user_by_id :: "dedup_db \<Rightarrow> go_id \<Rightarrow> User option" where
  "user_by_id db i = find (\<lambda>u. us_ID u = i) (cd_users (dd_cal db))"

definition HandleScan :: "scan_env \<Rightarrow> tx_ctx \<Rightarrow> dedup_db \<Rightarrow> (nat \<Rightarrow> go_id) \<Rightarrow> bool \<Rightarrow> go_time \<Rightarrow> go_error option \<times> dedup_db" where
  "HandleScan env t db fresh full now =
     (case user_by_id db (tx_owner t) of
        None \<Rightarrow> (None, db)
      | Some u \<Rightarrow>
          if us_DedupPolicy u = ''off'' then (None, db)
          else
            let pairs = find_pairs env (tx_env t) db (tx_owner t) full now in
            if pairs = [] then (None, db)
            else case handle_pairs (dedup_ctx t) fresh 0 (us_DedupPolicy u) now db pairs of
                   Inl e \<Rightarrow> (Some e, db) | Inr db1 \<Rightarrow> (None, db1))"

definition Scan :: "service_env \<Rightarrow> dedup_db \<Rightarrow> go_id \<Rightarrow> sql_error + dedup_db" where
  "Scan env db owner =
     (let txt = en_id_text env owner; c = dd_cal db in
      case Enqueue (cd_jobs c) (cd_now c) ''dedup_scan'' (Some (''{\"owner\":\"'' @ txt @ ''\"}''))
             \<lparr>opt_UniqueKey = txt, opt_RunAt = zero_time, opt_Priority = 0, opt_MaxAttempts = 0\<rparr> of
        Inl e \<Rightarrow> Inl e | Inr j \<Rightarrow> Inr (set_cal db (c\<lparr>cd_jobs := j\<rparr>)))"

text \<open>The sweep queues a scan for every account that wants one; it stops at the first error.\<close>

fun sweep_owners :: "service_env \<Rightarrow> dedup_db \<Rightarrow> go_id list \<Rightarrow> (go_error + sql_error) option \<times> dedup_db" where
  "sweep_owners env db [] = (None, db)"
| "sweep_owners env db (i # is) =
     (case user_by_id db i of
        None \<Rightarrow> (Some (Inl (Wrap ErrNotFound [])), db)
      | Some u \<Rightarrow>
          if us_DedupPolicy u = ''off'' then sweep_owners env db is
          else (case Scan env db i of Inl e \<Rightarrow> (Some (Inr e), db) | Inr db1 \<Rightarrow> sweep_owners env db1 is))"

definition HandleSweep :: "service_env \<Rightarrow> dedup_db \<Rightarrow> (go_error + sql_error) option \<times> dedup_db" where
  "HandleSweep env db = sweep_owners env db (Owners db)"

end
