(* ===== verification/Dedup_Safety.thy ===== *)
theory Dedup_Safety
  imports Dedup Events_Safety Todo_Order
begin

text \<open>
  What duplicate handling does to an account's data: a scan only pairs real duplicates, it never deletes the
  last copy of anything, keeping one side of a pair removes the other, and merging a pair never works.
\<close>

subsection \<open>Pairs under the statements\<close>

definition pairs_ok :: "dedup_db \<Rightarrow> bool" where
  "pairs_ok db \<longleftrightarrow> list_all dup_check (dd_pairs db) \<and> dup_keys (dd_pairs db)"

definition names :: "go_id \<Rightarrow> string \<Rightarrow> go_id \<Rightarrow> Duplicate \<Rightarrow> bool" where
  "names owner entity i d \<longleftrightarrow> du_OwnerID d = owner \<and> du_Entity d = entity \<and> (du_AID d = i \<or> du_BID d = i)"

definition entity_of :: "Duplicate \<Rightarrow> string" where
  "entity_of d = (if du_Entity d = ''todo'' then ''todo'' else ''event'')"

lemma set_items_pairs [simp]: "dd_pairs (set_items db x) = dd_pairs db" "dd_pairs (set_cal db c) = dd_pairs db"
  by (simp_all add: set_items_def set_cal_def)

lemma remove_item_pairs:
  "remove_item t db d i now = Inr db' \<Longrightarrow> dd_pairs db' = filter (\<lambda>x. \<not> names (tx_owner t) (entity_of d) i x) (dd_pairs db)"
  by (auto simp: remove_item_def DropDuplicates_def names_def [abs_def] entity_of_def split: sum.splits if_splits)

lemma Event_getD: "Event_get c owner i = Inr e \<Longrightarrow> ev_ID e = i \<and> event_visible owner e \<and> e \<in> fst ` set (cd_events c)"
  by (auto simp: Event_get_def find_Some_iff split: option.splits)

lemma Todo_get_ID: "Todo_get db owner i = Inr x \<Longrightarrow> td_ID x = i"
  by (metis Todo_getD load_extras_fields(1))

lemma merge_pairs:
  assumes "merge t db fresh d now = Inr db'"
  shows "dd_pairs db' = filter (\<lambda>x. \<not> names (tx_owner t) (entity_of d) (du_BID d) x) (dd_pairs db)"
proof (cases "du_Entity d = ''todo''")
  case True
  then obtain x db3 where "Todo_get (dd_items db) (tx_owner t) (du_BID d) = Inr x" "remove_item t (set_items db db3) d (td_ID x) now = Inr db'"
    using assms by (auto simp: merge_def mergeTodos_def split: sum.splits)
  then show ?thesis using remove_item_pairs [of t "set_items db db3" d "du_BID d" now db'] Todo_get_ID by simp
next
  case False
  then obtain x c1 where "Event_get (dd_cal db) (tx_owner t) (du_BID d) = Inr x" "remove_item t (set_cal db c1) d (ev_ID x) now = Inr db'"
    using assms by (auto simp: merge_def split: sum.splits)
  then show ?thesis using remove_item_pairs [of t "set_cal db c1" d "du_BID d" now db'] Event_getD by simp
qed

text \<open>
  C18.  Merging a pair never works.  The merge deletes the second item, which drops every pair that names it, the
  one being merged included; the statement that then marks the pair as merged finds no row, its error is
  returned, and the transaction rolls everything back.
\<close>

theorem merge_never_succeeds:
  assumes "pairs_ok db"
  shows "\<exists>e. Resolve t db fresh i ''merge'' now = (Some e, db)"
proof (rule ccontr)
  assume n: "\<not> ?thesis"
  then obtain db' where r: "resolve_pair (dedup_ctx t) db fresh i ''merge'' now = Inr db'"
    by (auto simp: Resolve_def Dedup_Actions_def split: sum.splits)
  then obtain d where d: "Duplicate_get db (tx_owner (dedup_ctx t)) i = Inr d" by (auto simp: resolve_pair_def split: sum.splits)
  obtain db1 where m: "merge (dedup_ctx t) db fresh d now = Inr db1" and s: "ResolveDuplicate db1 (tx_owner (dedup_ctx t)) i ''merged'' now = Inr db'"
    using r d by (auto simp: resolve_pair_def split: sum.splits if_splits)
  have dd: "d \<in> set (dd_pairs db)" "du_ID d = i" "du_OwnerID d = tx_owner (dedup_ctx t)"
    using d by (auto simp: Duplicate_get_def find_Some_iff split: option.splits)
  have "du_Entity d \<in> {''event'', ''todo''}" using assms dd(1) by (auto simp: pairs_ok_def list_all_iff dup_check_def)
  then have nd: "names (tx_owner (dedup_ctx t)) (entity_of d) (du_BID d) d" using dd by (auto simp: names_def entity_of_def)
  have "list_ex (\<lambda>x. du_ID x = i \<and> du_OwnerID x = tx_owner (dedup_ctx t) \<and> Pending x) (dd_pairs db1)"
    using s by (auto simp: ResolveDuplicate_def Let_def split: if_splits)
  then obtain x where "x \<in> set (dd_pairs db1)" "du_ID x = i" by (auto simp: list_ex_iff)
  then have "x \<in> set (dd_pairs db)" "\<not> names (tx_owner (dedup_ctx t)) (entity_of d) (du_BID d) x" "du_ID x = du_ID d"
    using dd(2) by (auto simp: merge_pairs [OF m])
  moreover have "inj_on du_ID (set (dd_pairs db))" using assms by (simp add: pairs_ok_def dup_keys_def distinct_map)
  ultimately have "x = d" using dd(1) by (auto dest: inj_onD)
  then show False using nd \<open>\<not> names (tx_owner (dedup_ctx t)) (entity_of d) (du_BID d) x\<close> by simp
qed

subsection \<open>What a scan pairs\<close>

definition same_print :: "scan_env \<Rightarrow> Event \<Rightarrow> Event \<Rightarrow> bool" where
  "same_print env a b \<longleftrightarrow> hex_text (EventFingerprint (se_sha256 env) a) = hex_text (EventFingerprint (se_sha256 env) b)"

definition alike :: "scan_env \<Rightarrow> Event \<Rightarrow> Event \<Rightarrow> bool" where
  "alike env a b \<longleftrightarrow> ev_AllDay a = ev_AllDay b \<and> time_sub (ev_Start b) (ev_Start a) \<le> fuzzyWindow \<and>
     (\<exists>score. se_similarity env (ev_Title a) (ev_Title b) = Some score \<and> score \<ge> fuzzyThreshold)"

text \<open>A reason for a pair of events, and for a pair of todos.\<close>

definition event_reason :: "scan_env \<Rightarrow> string \<Rightarrow> Event \<Rightarrow> Event \<Rightarrow> bool" where
  "event_reason env why a b \<longleftrightarrow>
     (why = ''uid'' \<and> ev_UID a = ev_UID b \<and> ev_UID a \<noteq> []) \<or> (why = ''fingerprint'' \<and> same_print env a b) \<or>
     (why = ''fuzzy'' \<and> (alike env a b \<or> alike env b a))"

definition todo_reason :: "scan_env \<Rightarrow> (go_id \<Rightarrow> string) \<Rightarrow> string \<Rightarrow> Todo \<Rightarrow> Todo \<Rightarrow> bool" where
  "todo_reason env id_text why a b \<longleftrightarrow>
     (why = ''uid'' \<and> td_UID a = td_UID b \<and> td_UID a \<noteq> []) \<or> (why = ''fingerprint'' \<and> todo_print env id_text a = todo_print env id_text b)"

text \<open>A pair that a scan may report for these events and todos.\<close>

definition pair_of_events :: "scan_env \<Rightarrow> Event list \<Rightarrow> Duplicate \<Rightarrow> bool" where
  "pair_of_events env evs d \<longleftrightarrow> du_Entity d = ''event'' \<and>
     (\<exists>a\<in>set evs. \<exists>b\<in>set evs. ev_ID a = du_AID d \<and> ev_ID b = du_BID d \<and> event_reason env (du_Reason d) a b)"

definition pair_of_todos :: "scan_env \<Rightarrow> (go_id \<Rightarrow> string) \<Rightarrow> Todo list \<Rightarrow> Duplicate \<Rightarrow> bool" where
  "pair_of_todos env id_text ts d \<longleftrightarrow> du_Entity d = ''todo'' \<and>
     (\<exists>a\<in>set ts. \<exists>b\<in>set ts. td_ID a = du_AID d \<and> td_ID b = du_BID d \<and> todo_reason env id_text (du_Reason d) a b)"

text \<open>What the arguments that stand for Go's map and sort guarantee.\<close>

definition scan_env_ok :: "scan_env \<Rightarrow> bool" where
  "scan_env_ok env \<longleftrightarrow> (\<forall>ks. set (se_walk env ks) = set ks) \<and> (\<forall>xs. mset (se_sort env xs) = mset xs \<and> sorted (map ev_Start (se_sort env xs)))"

lemma each_while_inv:
  assumes "Inv True st" and "\<And>st x. x \<in> set xs \<Longrightarrow> Inv True st \<Longrightarrow> Inv (fst (f st x)) (snd (f st x))"
  shows "Inv (fst (each_while f st xs)) (snd (each_while f st xs))"
  using assms
proof (induction xs arbitrary: st)
  case (Cons x xs)
  have "Inv (fst (f st x)) (snd (f st x))" using Cons.prems by simp
  then show ?case using Cons.IH [of "snd (f st x)"] Cons.prems(2) by (cases "fst (f st x)") (auto simp: split_beta)
qed simp

text \<open>What holds of the pairs found so far: \<open>P\<close>, in order, each once, not handled before, and few enough.\<close>

definition pair_id :: "Duplicate \<Rightarrow> string \<times> go_id \<times> go_id" where
  "pair_id d = (du_Entity d, du_AID d, du_BID d)"

definition found_ok :: "dedup_db \<Rightarrow> go_id \<Rightarrow> (Duplicate \<Rightarrow> bool) \<Rightarrow> Duplicate list \<Rightarrow> bool" where
  "found_ok db owner P out \<longleftrightarrow> distinct (map pair_id out) \<and> int (length out) \<le> maxPairs \<and>
     (\<forall>d\<in>set out. P d \<and> du_AID d < du_BID d \<and> \<not> Resolved db owner (du_Entity d) (du_AID d) (du_BID d))"

definition scan_inv :: "dedup_db \<Rightarrow> go_id \<Rightarrow> (Duplicate \<Rightarrow> bool) \<Rightarrow> string \<Rightarrow> bool \<Rightarrow> scan_state \<Rightarrow> bool" where
  "scan_inv db owner P entity go st \<longleftrightarrow> found_ok db owner P (snd st) \<and> (go \<longrightarrow> int (length (snd st)) < maxPairs) \<and>
     (\<forall>d\<in>set (snd st). du_Entity d = entity \<longrightarrow> (du_AID d, du_BID d) \<in> set (fst st))"

lemma try_pair_inv:
  assumes "scan_inv db owner P entity True st" and "P d" "du_AID d < du_BID d" "du_Entity d = entity"
  shows "scan_inv db owner P entity (fst (try_pair db owner st d)) (snd (try_pair db owner st d))"
proof -
  obtain seen out where st: "st = (seen, out)" by (cases st)
  have k: "pairKey (du_AID d) (du_BID d) = (du_AID d, du_BID d)" using assms(3) by (simp add: pairKey_def)
  show ?thesis
  proof (cases "(du_AID d, du_BID d) \<in> set seen")
    case True
    then show ?thesis using assms(1) by (simp add: try_pair_def st k)
  next
    case new: False
    show ?thesis
    proof (cases "Resolved db owner (du_Entity d) (du_AID d) (du_BID d)")
      case True
      then show ?thesis using assms(1) new by (auto simp: try_pair_def add_pair_def st k scan_inv_def)
    next
      case False
      have "pair_id d \<notin> pair_id ` set out" using assms(1,4) new by (auto simp: scan_inv_def st pair_id_def)
      then show ?thesis using assms new False by (auto simp: try_pair_def add_pair_def st k scan_inv_def found_ok_def)
    qed
  qed
qed

lemma pair_groups_inv:
  assumes inv: "scan_inv db owner P entity True st" and walk: "\<forall>ks. set (se_walk env ks) = set ks" and ids: "distinct (map idf xs)"
    and mk: "\<And>a b. a \<in> set xs \<Longrightarrow> b \<in> set xs \<Longrightarrow> key a = key b \<Longrightarrow> idf a \<noteq> idf b \<Longrightarrow>
               P (mk a b) \<and> du_AID (mk a b) < du_BID (mk a b) \<and> du_Entity (mk a b) = entity"
  shows "scan_inv db owner P entity (fst (pair_groups env db owner mk key xs st)) (snd (pair_groups env db owner mk key xs st))"
  unfolding pair_groups_def
proof (rule each_while_inv [where Inv = "scan_inv db owner P entity", OF inv])
  fix st k assume k: "k \<in> set (se_walk env (group_keys key xs))" and i: "scan_inv db owner P entity True st"
  let ?g = "group_of key xs k"
  have "k \<in> key ` set xs" using k walk by (simp add: group_keys_def)
  then have ne: "?g \<noteq> []" by (auto simp: group_of_def filter_empty_conv)
  have d: "distinct (map idf ?g)" using ids by (simp add: group_of_def distinct_map_filter)
  show "scan_inv db owner P entity (fst (let g = ?g in each_while (\<lambda>st x. try_pair db owner st (mk (hd g) x)) st (tl g)))
     (snd (let g = ?g in each_while (\<lambda>st x. try_pair db owner st (mk (hd g) x)) st (tl g)))"
    unfolding Let_def
  proof (rule each_while_inv [where Inv = "scan_inv db owner P entity", OF i])
    fix st x assume x: "x \<in> set (tl ?g)" and i: "scan_inv db owner P entity True st"
    have g: "?g = hd ?g # tl ?g" using ne by simp
    then have "set ?g = insert (hd ?g) (set (tl ?g))" by (metis list.simps(15))
    then have m: "hd ?g \<in> set ?g" "x \<in> set ?g" using x by auto
    have "idf (hd ?g) \<notin> idf ` set (tl ?g)" using d by (subst (asm) g) simp
    then have "idf (hd ?g) \<noteq> idf x" using x by (metis imageI)
    then have "P (mk (hd ?g) x) \<and> du_AID (mk (hd ?g) x) < du_BID (mk (hd ?g) x) \<and> du_Entity (mk (hd ?g) x) = entity"
      using m by (intro mk) (auto simp: group_of_def)
    then show "scan_inv db owner P entity (fst (try_pair db owner st (mk (hd ?g) x))) (snd (try_pair db owner st (mk (hd ?g) x)))"
      using try_pair_inv [OF i] by blast
  qed
qed

lemma duplicate_fields:
  "a \<noteq> b \<Longrightarrow> du_AID (duplicate owner en a b why sc sa sb) = min a b \<and> du_BID (duplicate owner en a b why sc sa sb) = max a b \<and>
     du_Entity (duplicate owner en a b why sc sa sb) = en \<and> du_Reason (duplicate owner en a b why sc sa sb) = why"
  by (auto simp: duplicate_def Let_def min_def max_def)

lemma event_reason_sym: "event_reason env why a b \<Longrightarrow> event_reason env why b a"
  by (auto simp: event_reason_def same_print_def)

lemma todo_reason_sym: "todo_reason env idt why a b \<Longrightarrow> todo_reason env idt why b a"
  by (auto simp: todo_reason_def)

lemma mk_event_ok:
  assumes "a \<in> set evs" "b \<in> set evs" "ev_ID a \<noteq> ev_ID b" "event_reason env why a b"
  shows "pair_of_events env evs (mk_event zi owner why sc a b) \<and> du_AID (mk_event zi owner why sc a b) < du_BID (mk_event zi owner why sc a b) \<and>
         du_Entity (mk_event zi owner why sc a b) = ''event''"
proof -
  note D = duplicate_fields [OF assms(3), of owner "''event''" why sc "eventSnapshot zi a" "eventSnapshot zi b", folded mk_event_def]
  have "\<exists>x\<in>set evs. \<exists>y\<in>set evs. ev_ID x = min (ev_ID a) (ev_ID b) \<and> ev_ID y = max (ev_ID a) (ev_ID b) \<and> event_reason env why x y"
    using assms event_reason_sym [OF assms(4)] by (cases "ev_ID a < ev_ID b") (auto simp: min_def max_def)
  then show ?thesis using D assms(3) by (simp add: pair_of_events_def)
qed

lemma mk_todo_ok:
  assumes "a \<in> set ts" "b \<in> set ts" "td_ID a \<noteq> td_ID b" "todo_reason env idt why a b"
  shows "pair_of_todos env idt ts (mk_todo owner why a b) \<and> du_AID (mk_todo owner why a b) < du_BID (mk_todo owner why a b) \<and>
         du_Entity (mk_todo owner why a b) = ''todo''"
proof -
  note D = duplicate_fields [OF assms(3), of owner "''todo''" why 1 "todoSnapshot a" "todoSnapshot b", folded mk_todo_def]
  have "\<exists>x\<in>set ts. \<exists>y\<in>set ts. td_ID x = min (td_ID a) (td_ID b) \<and> td_ID y = max (td_ID a) (td_ID b) \<and> todo_reason env idt why x y"
    using assms todo_reason_sym [OF assms(4)] by (cases "td_ID a < td_ID b") (auto simp: min_def max_def)
  then show ?thesis using D assms(3) by (simp add: pair_of_todos_def)
qed

lemma fuzzy_from_inv:
  assumes "scan_inv db owner (pair_of_events env evs) ''event'' True st" and "a \<in> set evs" "set bs \<subseteq> set evs" "ev_ID a \<notin> ev_ID ` set bs"
  shows "scan_inv db owner (pair_of_events env evs) ''event'' (fst (fuzzy_from env db zi owner a st bs)) (snd (fuzzy_from env db zi owner a st bs))"
  using assms
proof (induction bs arbitrary: st)
  case (Cons b bs)
  note IH = Cons.IH [OF _ Cons.prems(2)]
  have sub: "set bs \<subseteq> set evs" "ev_ID a \<notin> ev_ID ` set bs" "b \<in> set evs" "ev_ID a \<noteq> ev_ID b" using Cons.prems by auto
  show ?case
  proof (cases "time_sub (ev_Start b) (ev_Start a) > fuzzyWindow \<or> (ev_AllDay a \<noteq> ev_AllDay b \<or> trim_space (ev_Title b) = [] \<or> pairKey (ev_ID a) (ev_ID b) \<in> set (fst st)) \<or>
      (case se_similarity env (ev_Title a) (ev_Title b) of None \<Rightarrow> True | Some sc \<Rightarrow> sc < fuzzyThreshold)")
    case True
    then show ?thesis using IH [OF Cons.prems(1) sub(1,2)] Cons.prems(1) by (auto split: option.splits)
  next
    case False
    then obtain sc where sc: "se_similarity env (ev_Title a) (ev_Title b) = Some sc" "\<not> sc < fuzzyThreshold" by (auto split: option.splits)
    have "alike env a b" using False sc by (auto simp: alike_def)
    then have "event_reason env ''fuzzy'' a b" by (simp add: event_reason_def)
    note M = mk_event_ok [OF Cons.prems(2) sub(3,4) this, of zi owner sc]
    have "scan_inv db owner (pair_of_events env evs) ''event'' (fst (try_pair db owner st (mk_event zi owner ''fuzzy'' sc a b)))
        (snd (try_pair db owner st (mk_event zi owner ''fuzzy'' sc a b)))"
      using try_pair_inv [OF Cons.prems(1)] M by blast
    then show ?thesis using False sc IH [OF _ sub(1,2)]
      by (cases "fst (try_pair db owner st (mk_event zi owner ''fuzzy'' sc a b))") (auto simp: split_beta)
  qed
qed simp

lemma fuzzy_pairs_inv:
  assumes "scan_inv db owner (pair_of_events env evs) ''event'' True st" and "set xs \<subseteq> set evs" "distinct (map ev_ID xs)"
  shows "scan_inv db owner (pair_of_events env evs) ''event'' (fst (fuzzy_pairs env db zi owner st xs)) (snd (fuzzy_pairs env db zi owner st xs))"
  using assms
proof (induction xs arbitrary: st)
  case (Cons a rest)
  have 1: "scan_inv db owner (pair_of_events env evs) ''event'' (fst (fuzzy_from env db zi owner a st rest)) (snd (fuzzy_from env db zi owner a st rest))"
    by (rule fuzzy_from_inv [OF Cons.prems(1)]) (use Cons.prems in auto)
  show ?case using Cons.IH Cons.prems 1
    by (cases "trim_space (ev_Title a) = []"; cases "fst (fuzzy_from env db zi owner a st rest)") (auto simp: split_beta)
qed simp

lemma event_pairs_ok:
  assumes env: "scan_env_ok env" and ids: "distinct (map ev_ID evs)"
  shows "found_ok db owner (pair_of_events env evs) (snd (event_pairs env db zi owner [] evs)) \<and>
         (fst (event_pairs env db zi owner [] evs) \<longrightarrow> int (length (snd (event_pairs env db zi owner [] evs))) < maxPairs)"
proof -
  let ?I = "scan_inv db owner (pair_of_events env evs) ''event''"
  have walk: "\<forall>ks. set (se_walk env ks) = set ks" using env by (simp add: scan_env_ok_def)
  have start: "?I True ([], [])" by (simp add: scan_inv_def found_ok_def maxPairs_def)
  define u where "u = pair_groups env db owner (mk_event zi owner ''uid'' 1) ev_UID (filter (\<lambda>e. ev_UID e \<noteq> []) evs) ([], [])"
  have 1: "?I (fst u) (snd u)" unfolding u_def
  proof (rule pair_groups_inv [OF start walk, where idf = ev_ID])
    show "distinct (map ev_ID (filter (\<lambda>e. ev_UID e \<noteq> []) evs))" using ids by (simp add: distinct_map_filter)
    fix a b assume "a \<in> set (filter (\<lambda>e. ev_UID e \<noteq> []) evs)" "b \<in> set (filter (\<lambda>e. ev_UID e \<noteq> []) evs)" "ev_UID a = ev_UID b" "ev_ID a \<noteq> ev_ID b"
    then show "pair_of_events env evs (mk_event zi owner ''uid'' 1 a b) \<and> du_AID (mk_event zi owner ''uid'' 1 a b) < du_BID (mk_event zi owner ''uid'' 1 a b) \<and>
        du_Entity (mk_event zi owner ''uid'' 1 a b) = ''event''"
      by (intro mk_event_ok) (auto simp: event_reason_def)
  qed
  define f where "f = pair_groups env db owner (mk_event zi owner ''fingerprint'' 1) (\<lambda>e. hex_text (EventFingerprint (se_sha256 env) e)) evs (snd u)"
  have 2: "?I (fst f) (snd f)" if "fst u" unfolding f_def
  proof (rule pair_groups_inv [OF _ walk ids])
    show "?I True (snd u)" using 1 that by simp
    fix a b assume "a \<in> set evs" "b \<in> set evs" "hex_text (EventFingerprint (se_sha256 env) a) = hex_text (EventFingerprint (se_sha256 env) b)" "ev_ID a \<noteq> ev_ID b"
    then show "pair_of_events env evs (mk_event zi owner ''fingerprint'' 1 a b) \<and>
        du_AID (mk_event zi owner ''fingerprint'' 1 a b) < du_BID (mk_event zi owner ''fingerprint'' 1 a b) \<and>
        du_Entity (mk_event zi owner ''fingerprint'' 1 a b) = ''event''"
      by (intro mk_event_ok) (auto simp: event_reason_def same_print_def)
  qed
  define z where "z = fuzzy_pairs env db zi owner (snd f) (se_sort env evs)"
  have m: "mset (se_sort env evs) = mset evs" using env by (simp add: scan_env_ok_def)
  have 3: "?I (fst z) (snd z)" if "fst u" "fst f" unfolding z_def
  proof (rule fuzzy_pairs_inv)
    show "?I True (snd f)" using 2 that by simp
    show "set (se_sort env evs) \<subseteq> set evs" using mset_eq_setD [OF m] by simp
    have "mset (map ev_ID (se_sort env evs)) = mset (map ev_ID evs)" using m by simp
    then show "distinct (map ev_ID (se_sort env evs))" using ids by (metis mset_eq_imp_distinct_iff)
  qed
  have "event_pairs env db zi owner [] evs = (if \<not> fst u then (False, snd (snd u)) else if \<not> fst f then (False, snd (snd f)) else (fst z, snd (snd z)))"
    by (simp add: event_pairs_def u_def f_def z_def split_beta)
  then show ?thesis using 1 2 3 by (auto simp: scan_inv_def)
qed

lemma todo_pairs_ok:
  assumes env: "scan_env_ok env" and ids: "distinct (map td_ID ts)" and out: "found_ok db owner P out" "int (length out) < maxPairs"
    and P: "\<And>d. P d \<Longrightarrow> du_Entity d = ''event''"
  shows "found_ok db owner (\<lambda>d. P d \<or> pair_of_todos env idt ts d) (todo_pairs env db idt owner out ts)"
proof -
  let ?I = "scan_inv db owner (\<lambda>d. P d \<or> pair_of_todos env idt ts d) ''todo''"
  have walk: "\<forall>ks. set (se_walk env ks) = set ks" using env by (simp add: scan_env_ok_def)
  have start: "?I True ([], out)" using out P by (auto simp: scan_inv_def found_ok_def)
  define u where "u = pair_groups env db owner (mk_todo owner ''uid'') td_UID (filter (\<lambda>t. td_UID t \<noteq> []) ts) ([], out)"
  have 1: "?I (fst u) (snd u)" unfolding u_def
  proof (rule pair_groups_inv [OF start walk, where idf = td_ID])
    show "distinct (map td_ID (filter (\<lambda>t. td_UID t \<noteq> []) ts))" using ids by (simp add: distinct_map_filter)
    fix a b assume "a \<in> set (filter (\<lambda>t. td_UID t \<noteq> []) ts)" "b \<in> set (filter (\<lambda>t. td_UID t \<noteq> []) ts)" "td_UID a = td_UID b" "td_ID a \<noteq> td_ID b"
    then have "pair_of_todos env idt ts (mk_todo owner ''uid'' a b) \<and> du_AID (mk_todo owner ''uid'' a b) < du_BID (mk_todo owner ''uid'' a b) \<and>
        du_Entity (mk_todo owner ''uid'' a b) = ''todo''"
      by (intro mk_todo_ok) (auto simp: todo_reason_def)
    then show "(P (mk_todo owner ''uid'' a b) \<or> pair_of_todos env idt ts (mk_todo owner ''uid'' a b)) \<and>
        du_AID (mk_todo owner ''uid'' a b) < du_BID (mk_todo owner ''uid'' a b) \<and> du_Entity (mk_todo owner ''uid'' a b) = ''todo''" by blast
  qed
  define f where "f = pair_groups env db owner (mk_todo owner ''fingerprint'') (todo_print env idt) ts (snd u)"
  have 2: "?I (fst f) (snd f)" if "fst u" unfolding f_def
  proof (rule pair_groups_inv [OF _ walk ids])
    show "?I True (snd u)" using 1 that by simp
    fix a b assume "a \<in> set ts" "b \<in> set ts" "todo_print env idt a = todo_print env idt b" "td_ID a \<noteq> td_ID b"
    then have "pair_of_todos env idt ts (mk_todo owner ''fingerprint'' a b) \<and>
        du_AID (mk_todo owner ''fingerprint'' a b) < du_BID (mk_todo owner ''fingerprint'' a b) \<and> du_Entity (mk_todo owner ''fingerprint'' a b) = ''todo''"
      by (intro mk_todo_ok) (auto simp: todo_reason_def)
    then show "(P (mk_todo owner ''fingerprint'' a b) \<or> pair_of_todos env idt ts (mk_todo owner ''fingerprint'' a b)) \<and>
        du_AID (mk_todo owner ''fingerprint'' a b) < du_BID (mk_todo owner ''fingerprint'' a b) \<and> du_Entity (mk_todo owner ''fingerprint'' a b) = ''todo''" by blast
  qed
  have "todo_pairs env db idt owner out ts = (if \<not> fst u then snd (snd u) else snd (snd f))"
    by (simp add: todo_pairs_def u_def f_def split_beta)
  then show ?thesis using 1 2 by (auto simp: scan_inv_def)
qed

text \<open>The items of an account have ids of their own.\<close>

definition ids_ok :: "dedup_db \<Rightarrow> bool" where
  "ids_ok db \<longleftrightarrow> distinct (map (ev_ID \<circ> fst) (cd_events (dd_cal db))) \<and> distinct (map td_ID (tb_rows (dd_items db)))"

lemma distinct_sort_map: "distinct (map g (sort_key f xs)) = distinct (map g xs)"
  by (rule mset_eq_imp_distinct_iff) (simp only: mset_map mset_sort)

lemma EventsInSpan_ids: "ids_ok db \<Longrightarrow> distinct (map ev_ID (EventsInSpan db owner f u))"
  unfolding EventsInSpan_def distinct_sort_map by (simp add: ids_ok_def distinct_map_filter)

lemma OpenTodos_ids:
  assumes "ids_ok db"
  shows "distinct (map td_ID (OpenTodos db owner n))"
proof -
  let ?xs = "filter (\<lambda>t. visible owner t \<and> td_ParentID t = None \<and> td_Status t = ''needs_action'') (tb_rows (dd_items db))"
  have "distinct (map td_ID (sort_key td_ID ?xs))"
    unfolding distinct_sort_map using assms by (simp add: ids_ok_def distinct_map_filter)
  then have "distinct (take (nat n) (map td_ID (sort_key td_ID ?xs)))" by (rule distinct_take)
  moreover have "map td_ID (OpenTodos db owner n) = take (nat n) (map td_ID (sort_key td_ID ?xs))"
    unfolding OpenTodos_def by (simp add: take_map o_def)
  ultimately show ?thesis by (simp only:)
qed

definition scan_from :: "bool \<Rightarrow> go_time \<Rightarrow> go_time" where
  "scan_from full now = now - (if full then fullScanSpan else scanBack)"

definition scan_to :: "bool \<Rightarrow> go_time \<Rightarrow> go_time" where
  "scan_to full now = now + (if full then fullScanSpan else scanAhead)"

lemma scan_pairs_ok:
  assumes "scan_env_ok env" and "ids_ok db"
  shows "found_ok db owner
     (\<lambda>d. pair_of_events env (EventsInSpan db owner (scan_from full now) (scan_to full now)) d \<or>
          pair_of_todos env (en_id_text sv) (OpenTodos db owner maxTodos) d)
     (find_pairs env sv db owner full now)"
proof -
  let ?evs = "EventsInSpan db owner (scan_from full now) (scan_to full now)"
  define r where "r = event_pairs env db (en_zones sv) owner [] ?evs"
  note E = event_pairs_ok [OF assms(1) EventsInSpan_ids [OF assms(2)], of db owner owner "scan_from full now" "scan_to full now" "en_zones sv", folded r_def]
  have "find_pairs env sv db owner full now = (if \<not> fst r then snd r else todo_pairs env db (en_id_text sv) owner (snd r) (OpenTodos db owner maxTodos))"
    unfolding find_pairs_def Let_def r_def scan_from_def scan_to_def by (simp add: split_beta)
  moreover have "found_ok db owner (\<lambda>d. pair_of_events env ?evs d \<or> pair_of_todos env (en_id_text sv) (OpenTodos db owner maxTodos) d) (snd r)"
    using E by (auto simp: found_ok_def)
  moreover have "found_ok db owner (\<lambda>d. pair_of_events env ?evs d \<or> pair_of_todos env (en_id_text sv) (OpenTodos db owner maxTodos) d)
      (todo_pairs env db (en_id_text sv) owner (snd r) (OpenTodos db owner maxTodos))" if "fst r"
    using todo_pairs_ok [OF assms(1) OpenTodos_ids [OF assms(2)] conjunct1 [OF E]] E that by (auto simp: pair_of_events_def)
  ultimately show ?thesis by simp
qed

text \<open>
  What a scan reports: at most 500 pairs, none twice and none that was handled before, each with the
  smaller id first, and each of two events of the account in the window of the scan, or of two of its open
  todos, that have the reason the pair names: the same UID, the same fingerprint (for todos in the same
  list), or, for events, titles that are alike and starts within 15 minutes.
\<close>

theorem scan_pairs_sound:
  assumes "scan_env_ok env" and "ids_ok db"
  shows "let out = find_pairs env sv db owner full now in
     int (length out) \<le> 500 \<and> distinct (map pair_id out) \<and>
     (\<forall>d\<in>set out. du_AID d < du_BID d \<and> \<not> Resolved db owner (du_Entity d) (du_AID d) (du_BID d) \<and>
        (pair_of_events env (EventsInSpan db owner (scan_from full now) (scan_to full now)) d \<or>
         pair_of_todos env (en_id_text sv) (OpenTodos db owner maxTodos) d))"
  using scan_pairs_ok [OF assms, of owner full now sv] by (auto simp: found_ok_def maxPairs_def Let_def)

subsection \<open>A scan keeps a copy of everything\<close>

lemma todo_change_events: "cd_events (todo_change t c x op r) = cd_events c"
  by (simp add: todo_change_def Let_def queueSync_keeps recordChange_def)

lemma Todo_Delete_events: "Todo_Delete t db x now = Inr db' \<Longrightarrow> cd_events (tb_cal db') = cd_events (tb_cal db)"
  by (auto simp: Todo_Delete_def Let_def with_change_def todo_change_events split: if_splits)

lemma Todo_Delete_row:
  assumes "Todo_Delete t db x now = Inr db'" "r \<in> set (tb_rows db)" "\<not> drops_row (tx_owner t) (td_ID x) r"
  shows "r \<in> set (tb_rows db')"
proof -
  have "tb_rows db' = map (\<lambda>r. if drops_row (tx_owner t) (td_ID x) r
      then r\<lparr>td_DeletedAt := Some (db_time now), td_Version := td_Version r + 1, td_UpdatedAt := tb_now db\<rparr> else r) (tb_rows db)"
    using assms(1) by (auto simp: Todo_Delete_def Let_def split: if_splits)
  then show ?thesis using assms(2,3) by (force intro: rev_image_eqI)
qed

lemma Event_Delete_row:
  assumes "Event_Delete t c x now = Inr c'" "r \<in> set (cd_events c)" "\<not> deletes_row (tx_owner t) (ev_ID x) r"
  shows "r \<in> set (cd_events c')"
proof -
  have "cd_events c' = map (\<lambda>r. if deletes_row (tx_owner t) (ev_ID x) r
      then ((fst r)\<lparr>ev_DeletedAt := Some (db_time now), ev_Version := ev_Version (fst r) + 1, ev_UpdatedAt := cd_now c\<rparr>, snd r) else r) (cd_events c)"
    using assms(1) by (auto simp: Event_Delete_def Let_def event_change_keeps split: if_splits prod.splits)
  then show ?thesis using assms(2,3) by (force intro: rev_image_eqI)
qed

lemma remove_keeps_event:
  assumes "remove_item t db d i now = Inr db'" "r \<in> set (cd_events (dd_cal db))" "ev_SeriesID (fst r) = None"
    and "du_Entity d \<noteq> ''todo'' \<longrightarrow> ev_ID (fst r) \<noteq> i"
  shows "r \<in> set (cd_events (dd_cal db'))"
proof (cases "du_Entity d = ''todo''")
  case True
  then obtain x db1 where "Todo_Delete t (dd_items db) x now = Inr db1" "db' = DropDuplicates (set_items db db1) (tx_owner t) ''todo'' i"
    using assms(1) by (auto simp: remove_item_def split: sum.splits)
  then show ?thesis using Todo_Delete_events assms(2) by (simp add: dd_cal_def DropDuplicates_def set_items_def)
next
  case False
  then obtain x c1 where x: "Event_get (dd_cal db) (tx_owner t) i = Inr x" "Event_Delete t (dd_cal db) x now = Inr c1"
      "db' = DropDuplicates (set_cal db c1) (tx_owner t) ''event'' i"
    using assms(1) by (auto simp: remove_item_def split: sum.splits)
  have "\<not> deletes_row (tx_owner t) (ev_ID x) r" using Event_getD [OF x(1)] assms(3,4) False by (auto simp: deletes_row_def)
  then show ?thesis using Event_Delete_row [OF x(2) assms(2)] x(3) by (simp add: dd_cal_def DropDuplicates_def set_cal_def)
qed

lemma remove_keeps_todo:
  assumes "remove_item t db d i now = Inr db'" "r \<in> set (tb_rows (dd_items db))" "td_ParentID r = None"
    and "du_Entity d = ''todo'' \<longrightarrow> td_ID r \<noteq> i"
  shows "r \<in> set (tb_rows (dd_items db'))"
proof (cases "du_Entity d = ''todo''")
  case True
  then obtain x db1 where x: "Todo_get (dd_items db) (tx_owner t) i = Inr x" "Todo_Delete t (dd_items db) x now = Inr db1"
      "db' = DropDuplicates (set_items db db1) (tx_owner t) ''todo'' i"
    using assms(1) by (auto simp: remove_item_def split: sum.splits)
  have "\<not> drops_row (tx_owner t) (td_ID x) r" using Todo_get_ID [OF x(1)] assms(3,4) True by (auto simp: drops_row_def)
  then show ?thesis using Todo_Delete_row [OF x(2) assms(2)] x(3) by (simp add: DropDuplicates_def set_items_def)
next
  case False
  then show ?thesis using assms(1,2) by (auto simp: remove_item_def DropDuplicates_def set_cal_def split: sum.splits)
qed

lemma SaveDuplicate_items: "SaveDuplicate t db d = Inr db' \<Longrightarrow> dd_items db' = dd_items db"
  by (auto simp: SaveDuplicate_def commit_pairs_def Let_def split: if_splits)

definition removes_event :: "string \<Rightarrow> go_id \<Rightarrow> Duplicate \<Rightarrow> bool" where
  "removes_event policy i d \<longleftrightarrow> Auto d policy \<and> du_Entity d \<noteq> ''todo'' \<and> du_BID d = i"

definition removes_todo :: "string \<Rightarrow> go_id \<Rightarrow> Duplicate \<Rightarrow> bool" where
  "removes_todo policy i d \<longleftrightarrow> Auto d policy \<and> du_Entity d = ''todo'' \<and> du_BID d = i"

lemma handle_pairs_keep:
  assumes "handle_pairs t fresh k policy now db ds = Inr db'"
  shows "r \<in> set (cd_events (dd_cal db)) \<Longrightarrow> ev_SeriesID (fst r) = None \<Longrightarrow> \<not> list_ex (removes_event policy (ev_ID (fst r))) ds \<Longrightarrow>
           r \<in> set (cd_events (dd_cal db'))"
    and "q \<in> set (tb_rows (dd_items db)) \<Longrightarrow> td_ParentID q = None \<Longrightarrow> \<not> list_ex (removes_todo policy (td_ID q)) ds \<Longrightarrow>
           q \<in> set (tb_rows (dd_items db'))"
  using assms
proof (induction ds arbitrary: db k)
  case Nil
  { case 1 then show ?case by simp next case 2 then show ?case by simp }
next
  case (Cons d ds)
  have step: "\<exists>k1 db1. handle_pairs t fresh k1 policy now db1 ds = Inr db' \<and>
      (dd_items db1 = dd_items db \<or> Auto d policy \<and> remove_item t db d (du_BID d) now = Inr db1)"
    if "handle_pairs t fresh k policy now db (d # ds) = Inr db'" for k db
    using that SaveDuplicate_items by (auto split: if_splits sum.splits) blast+
  { case 1
    obtain k1 db1 where h: "handle_pairs t fresh k1 policy now db1 ds = Inr db'"
      and r: "dd_items db1 = dd_items db \<or> Auto d policy \<and> remove_item t db d (du_BID d) now = Inr db1" using step [OF 1(4)] by blast
    have "r \<in> set (cd_events (dd_cal db1))"
      using r remove_keeps_event [OF _ 1(1,2)] 1(1,3) by (auto simp: dd_cal_def removes_event_def)
    then show ?case using Cons.IH(1) [OF _ 1(2) _ h] 1(3) by simp
  next case 2
    obtain k1 db1 where h: "handle_pairs t fresh k1 policy now db1 ds = Inr db'"
      and r: "dd_items db1 = dd_items db \<or> Auto d policy \<and> remove_item t db d (du_BID d) now = Inr db1" using step [OF 2(4)] by blast
    have "q \<in> set (tb_rows (dd_items db1))"
      using r remove_keeps_todo [OF _ 2(1,2)] 2(1,3) by (auto simp: removes_todo_def)
    then show ?case using Cons.IH(2) [OF _ 2(2) _ h] 2(3) by simp }
qed

definition event_copy :: "scan_env \<Rightarrow> Event \<Rightarrow> Event \<Rightarrow> bool" where
  "event_copy env a b \<longleftrightarrow> event_reason env ''uid'' a b \<or> event_reason env ''fingerprint'' a b"

definition todo_copy :: "scan_env \<Rightarrow> (go_id \<Rightarrow> string) \<Rightarrow> Todo \<Rightarrow> Todo \<Rightarrow> bool" where
  "todo_copy env idt a b \<longleftrightarrow> todo_reason env idt ''uid'' a b \<or> todo_reason env idt ''fingerprint'' a b"

definition live_master :: "go_id \<Rightarrow> event_row \<Rightarrow> bool" where
  "live_master owner r \<longleftrightarrow> event_visible owner (fst r) \<and> ev_SeriesID (fst r) = None"

definition live_top :: "go_id \<Rightarrow> Todo \<Rightarrow> bool" where
  "live_top owner q \<longleftrightarrow> visible owner q \<and> td_ParentID q = None"

lemma todo_reason_extras:
  "todo_reason env idt why (load_extras x a) b = todo_reason env idt why a b" "todo_reason env idt why a (load_extras x b) = todo_reason env idt why a b"
  by (simp_all add: todo_reason_def todo_print_def TodoFingerprint_def todo_preimage_def load_extras_def)

lemma Auto_reason: "Auto d policy \<Longrightarrow> du_Reason d = ''uid'' \<or> du_Reason d = ''fingerprint''"
  by (auto simp: Auto_def split: if_splits)

text \<open>An item whose deletion a scan orders has a smaller copy.\<close>

lemma removed_event_copy:
  assumes f: "found_ok db owner (\<lambda>d. pair_of_events env (EventsInSpan db owner from to) d \<or> pair_of_todos env idt ts d) out" and ids: "ids_ok db"
    and r: "r \<in> set (cd_events (dd_cal db))" and d: "list_ex (removes_event policy (ev_ID (fst r))) out"
  obtains a where "a \<in> set (cd_events (dd_cal db))" "live_master owner a" "ev_ID (fst a) < ev_ID (fst r)" "event_copy env (fst r) (fst a)"
proof -
  obtain p where p: "p \<in> set out" "Auto p policy" "du_Entity p \<noteq> ''todo''" "du_BID p = ev_ID (fst r)"
    using d by (auto simp: list_ex_iff removes_event_def)
  then have "pair_of_events env (EventsInSpan db owner from to) p" "du_AID p < du_BID p" using f by (auto simp: found_ok_def pair_of_todos_def)
  then obtain x y where xy: "x \<in> set (EventsInSpan db owner from to)" "y \<in> set (EventsInSpan db owner from to)" "ev_ID x = du_AID p" "ev_ID y = du_BID p"
      "event_reason env (du_Reason p) x y" "ev_ID x < ev_ID y" by (auto simp: pair_of_events_def)
  obtain s where s: "(x, s) \<in> set (cd_events (dd_cal db))" "live_master owner (x, s)" using xy(1) by (auto simp: EventsInSpan_def live_master_def)
  obtain u where u: "(y, u) \<in> set (cd_events (dd_cal db))" using xy(2) by (auto simp: EventsInSpan_def)
  have "inj_on (ev_ID \<circ> fst) (set (cd_events (dd_cal db)))" using ids by (simp add: ids_ok_def distinct_map)
  then have "(y, u) = r" by (rule inj_onD [OF _ _ u r]) (use xy(4) p(4) in simp)
  then have "fst r = y" by auto
  then have "event_copy env (fst r) x" using event_reason_sym [OF xy(5)] Auto_reason [OF p(2)] by (auto simp: event_copy_def)
  then show thesis using that [OF s] xy(6) \<open>fst r = y\<close> by simp
qed

lemma removed_todo_copy:
  assumes f: "found_ok db owner (\<lambda>d. pair_of_events env evs d \<or> pair_of_todos env idt (OpenTodos db owner n) d) out" and ids: "ids_ok db"
    and q: "q \<in> set (tb_rows (dd_items db))" and d: "list_ex (removes_todo policy (td_ID q)) out"
  obtains a where "a \<in> set (tb_rows (dd_items db))" "live_top owner a" "td_ID a < td_ID q" "todo_copy env idt q a"
proof -
  obtain p where p: "p \<in> set out" "Auto p policy" "du_Entity p = ''todo''" "du_BID p = td_ID q"
    using d by (auto simp: list_ex_iff removes_todo_def)
  then have "pair_of_todos env idt (OpenTodos db owner n) p" "du_AID p < du_BID p" using f by (auto simp: found_ok_def pair_of_events_def)
  then obtain x y where xy: "x \<in> set (OpenTodos db owner n)" "y \<in> set (OpenTodos db owner n)" "td_ID x = du_AID p" "td_ID y = du_BID p"
      "todo_reason env idt (du_Reason p) x y" "td_ID x < td_ID y" by (auto simp: pair_of_todos_def)
  have row: "\<exists>a\<in>set (tb_rows (dd_items db)). live_top owner a \<and> z = load_extras (dd_items db) a" if "z \<in> set (OpenTodos db owner n)" for z
    using that by (auto simp: OpenTodos_def live_top_def dest!: in_set_takeD)
  obtain a where a: "a \<in> set (tb_rows (dd_items db))" "live_top owner a" "x = load_extras (dd_items db) a" using row [OF xy(1)] by blast
  obtain b where b: "b \<in> set (tb_rows (dd_items db))" "y = load_extras (dd_items db) b" using row [OF xy(2)] by blast
  have "inj_on td_ID (set (tb_rows (dd_items db)))" using ids by (simp add: ids_ok_def distinct_map)
  then have "b = q" using b q xy(4) p(4) by (auto dest: inj_onD)
  then have "todo_reason env idt (du_Reason p) a q" using xy(5) a(3) b(2) by (simp add: todo_reason_extras)
  then have "todo_copy env idt q a" using todo_reason_sym Auto_reason [OF p(2)] by (auto simp: todo_copy_def)
  then show thesis using that a xy(6) b \<open>b = q\<close> by simp
qed


subsection \<open>Witnesses\<close>

definition demo_scan :: scan_env where
  "demo_scan = \<lparr>se_sha256 = (\<lambda>s. s), se_similarity = (\<lambda>a b. if a = b then Some 1 else None), se_walk = (\<lambda>ks. ks), se_sort = sort_key ev_Start\<rparr>"

definition demo_snapshot :: Snapshot where
  "demo_snapshot = \<lparr>sn_ID = 0, sn_Title = [], sn_When = [], sn_Body = [], sn_Location = [], sn_Extra = [], sn_Created = []\<rparr>"

definition demo_pair :: Duplicate where
  "demo_pair = \<lparr>du_ID = 90, du_OwnerID = 1, du_Entity = ''event'', du_AID = 10, du_BID = 11, du_Reason = ''uid'', du_Score = 1,
     du_Status = ''pending'', du_A = demo_snapshot, du_B = demo_snapshot, du_CreatedAt = 0, du_ResolvedAt = None\<rparr>"

definition demo_copy :: "go_id \<Rightarrow> go_id \<Rightarrow> event_row" where
  "demo_copy i cal = (demo_plain\<lparr>ev_ID := i, ev_OwnerID := 1, ev_CalendarID := cal, ev_UID := ''u'', ev_Start := zero_time, ev_End := zero_time + day,
     ev_CreatedAt := zero_time\<rparr>, (zero_time, Some (zero_time + day, False)))"

text \<open>Two events with one UID in two calendars of an account that deletes exact copies, and a pair that was flagged.\<close>

definition demo_dups :: dedup_db where
  "demo_dups = \<lparr>dd_items = (demo_todos [])\<lparr>tb_rows := [], tb_cal := demo_db\<lparr>
       cd_users := [(demo_user 1)\<lparr>us_DedupPolicy := ''auto_exact''\<rparr>],
       cd_calendars := [demo_calendar 5 1, (demo_calendar 7 1)\<lparr>cal_IsDefault := False\<rparr>],
       cd_events := [demo_copy 10 5, demo_copy 11 7]\<rparr>\<rparr>, dd_pairs = [demo_pair]\<rparr>"

lemma demo_scan_ok: "scan_env_ok demo_scan"
  by (simp add: scan_env_ok_def demo_scan_def)

lemma demo_dups_ok: "ids_ok demo_dups" "pairs_ok demo_dups"
  by (simp add: ids_ok_def demo_dups_def dd_cal_def demo_copy_def demo_todos_def)
    (simp add: pairs_ok_def demo_dups_def demo_pair_def dup_check_def dup_keys_def)

lemma two_copies:
  assumes "ev_UID a = ev_UID b" "ev_UID a \<noteq> []" "same_print demo_scan a b" "trim_space (ev_Title a) = []" "trim_space (ev_Title b) = []"
    and "ev_ID a < ev_ID b" "ev_Start a = ev_Start b" "\<not> Resolved db owner ''event'' (ev_ID a) (ev_ID b)"
  shows "event_pairs demo_scan db zi owner [] [a, b] = (True, [mk_event zi owner ''uid'' 1 a b])"
proof -
  have ne: "ev_ID a \<noteq> ev_ID b" using assms(6) by simp
  note D = duplicate_fields [OF ne, of owner "''event''" _ 1 "eventSnapshot zi a" "eventSnapshot zi b", folded mk_event_def]
  have m: "min (ev_ID a) (ev_ID b) = ev_ID a" "max (ev_ID a) (ev_ID b) = ev_ID b" using assms(6) by simp_all
  have k: "pairKey (ev_ID a) (ev_ID b) = (ev_ID a, ev_ID b)" using assms(6) by (simp add: pairKey_def)
  have p: "hex_text (EventFingerprint (se_sha256 demo_scan) a) = hex_text (EventFingerprint (se_sha256 demo_scan) b)" using assms(3) by (simp add: same_print_def)
  have w: "se_walk demo_scan = (\<lambda>ks. ks)" "se_sort demo_scan [a, b] = [a, b]" using assms(7) by (simp_all add: demo_scan_def)
  have u: "pair_groups demo_scan db owner (mk_event zi owner ''uid'' 1) ev_UID [a, b] ([], []) = (True, [(ev_ID a, ev_ID b)], [mk_event zi owner ''uid'' 1 a b])"
    using assms(1,8) by (simp add: pair_groups_def group_keys_def group_of_def w try_pair_def add_pair_def D m k maxPairs_def)
  have f: "pair_groups demo_scan db owner (mk_event zi owner ''fingerprint'' 1) (\<lambda>e. hex_text (EventFingerprint (se_sha256 demo_scan) e)) [a, b]
      ([(ev_ID a, ev_ID b)], [mk_event zi owner ''uid'' 1 a b]) = (True, [(ev_ID a, ev_ID b)], [mk_event zi owner ''uid'' 1 a b])"
    by (simp add: pair_groups_def group_keys_def group_of_def w try_pair_def D m k p)
  have ne_uid: "filter (\<lambda>e. ev_UID e \<noteq> []) [a, b] = [a, b]" using assms(1,2) by simp
  show ?thesis unfolding event_pairs_def ne_uid u by (simp add: f w assms(4,5))
qed

lemma demo_scan_runs:
  "find_pairs demo_scan demo_env demo_dups 1 False zero_time = [mk_event (en_zones demo_env) 1 ''uid'' 1 (fst (demo_copy 10 5)) (fst (demo_copy 11 7))]"
  "fst (HandleScan demo_scan demo_todo_ctx demo_dups (\<lambda>k. 50 + k) False zero_time) = None"
proof -
  have e: "EventsInSpan demo_dups 1 (zero_time - scanBack) (zero_time + scanAhead) = [fst (demo_copy 10 5), fst (demo_copy 11 7)]" by code_simp
  have t: "OpenTodos demo_dups 1 maxTodos = []" by (simp add: OpenTodos_def demo_dups_def)
  have p: "event_pairs demo_scan demo_dups zi 1 [] [fst (demo_copy 10 5), fst (demo_copy 11 7)] =
      (True, [mk_event zi 1 ''uid'' 1 (fst (demo_copy 10 5)) (fst (demo_copy 11 7))])" for zi
  proof (rule two_copies)
    show "same_print demo_scan (fst (demo_copy 10 5)) (fst (demo_copy 11 7))"
      by (simp add: same_print_def EventFingerprint_def event_preimage_def demo_copy_def)
    show "\<not> Resolved demo_dups 1 ''event'' (ev_ID (fst (demo_copy 10 5))) (ev_ID (fst (demo_copy 11 7)))" by code_simp
    show "trim_space (ev_Title (fst (demo_copy 10 5))) = []" "trim_space (ev_Title (fst (demo_copy 11 7))) = []" by code_simp+
  qed (simp_all add: demo_copy_def)
  have tp: "todo_pairs demo_scan db idt owner out [] = out" for db idt owner out
    by (simp add: todo_pairs_def pair_groups_def group_keys_def demo_scan_def)
  show f: "find_pairs demo_scan demo_env demo_dups 1 False zero_time = [mk_event (en_zones demo_env) 1 ''uid'' 1 (fst (demo_copy 10 5)) (fst (demo_copy 11 7))]"
    by (simp add: find_pairs_def e p t tp del: One_nat_def)
  have "duplicate 1 ''event'' 10 11 ''uid'' 1 sa sb = demo_pair\<lparr>du_ID := NilID, du_Status := [], du_A := sa, du_B := sb, du_CreatedAt := zero_time\<rparr>" for sa sb
    by (simp add: duplicate_def demo_pair_def)
  then have d: "mk_event zi 1 ''uid'' 1 (fst (demo_copy 10 5)) (fst (demo_copy 11 7)) =
      demo_pair\<lparr>du_ID := NilID, du_Status := [], du_A := eventSnapshot zi (fst (demo_copy 10 5)), du_B := eventSnapshot zi (fst (demo_copy 11 7)), du_CreatedAt := zero_time\<rparr>" for zi
    by (simp add: mk_event_def demo_copy_def del: One_nat_def)
  have "\<not> isl (remove_item (dedup_ctx demo_todo_ctx) demo_dups demo_pair 11 zero_time)" by code_simp
  then obtain db1 where r: "remove_item (dedup_ctx demo_todo_ctx) demo_dups demo_pair 11 zero_time = Inr db1"
    by (cases "remove_item (dedup_ctx demo_todo_ctx) demo_dups demo_pair 11 zero_time") simp_all
  have bid: "du_BID (demo_pair\<lparr>du_ID := i, du_Status := st, du_A := sa, du_B := sb, du_CreatedAt := w\<rparr>) = 11" for i st sa sb w
    by (simp add: demo_pair_def)
  have re: "remove_item c db (demo_pair\<lparr>du_ID := i, du_Status := st, du_A := sa, du_B := sb, du_CreatedAt := w\<rparr>) k now = remove_item c db demo_pair k now" for c db i st sa sb w k now
    by (simp add: remove_item_def)
  have a: "Auto (demo_pair\<lparr>du_ID := i, du_Status := st, du_A := sa, du_B := sb, du_CreatedAt := w\<rparr>) ''auto_exact''" for i st sa sb w
    by (simp add: Auto_def demo_pair_def)
  have u: "user_by_id demo_dups 1 = Some ((demo_user 1)\<lparr>us_DedupPolicy := ''auto_exact''\<rparr>)" by (simp add: user_by_id_def demo_dups_def dd_cal_def demo_user_def)
  have o: "tx_owner demo_todo_ctx = 1" "find_pairs demo_scan (tx_env demo_todo_ctx) demo_dups 1 False zero_time = find_pairs demo_scan demo_env demo_dups 1 False zero_time"
    by (simp_all add: demo_todo_ctx_def find_pairs_def e p t tp del: One_nat_def)
  show "fst (HandleScan demo_scan demo_todo_ctx demo_dups (\<lambda>k. 50 + k) False zero_time) = None"
    by (simp add: HandleScan_def o u f d a re bid r Let_def del: One_nat_def)
qed

lemma merge_never_succeeds_witness: "\<exists>e. Resolve demo_todo_ctx demo_dups (\<lambda>k. 50 + k) 90 ''merge'' 0 = (Some e, demo_dups)"
  by (rule merge_never_succeeds [OF demo_dups_ok(2)])

lemma scan_pairs_sound_witness:
  "let out = find_pairs demo_scan demo_env demo_dups 1 False zero_time in length out = 1 \<and> distinct (map pair_id out)"
  using scan_pairs_sound [OF demo_scan_ok demo_dups_ok(1), of demo_env 1 False zero_time] demo_scan_runs(1) by (simp add: Let_def)


end
