(* ===== verification/Search.thy ===== *)
theory Search
  imports Timeparse Tokens View_Period Markdown
begin

text \<open>
  The search language and the statement it becomes (\<open>internal/search\<close>): the tokens of a query, its
  filters, the text for the full-text index and the SQL text with its arguments.  The loops of the
  tokenizer are written as loops that might not return, so that returning is something to prove.
  \<open>%q\<close> of a warning is an argument (\<open>qt\<close>), so is the store that runs the statement.
\<close>

definition TypeAny :: string where "TypeAny = ''''"
definition TypeEvent :: string where "TypeEvent = ''event''"
definition TypeTodo :: string where "TypeTodo = ''todo''"
definition typeNone :: string where "typeNone = ''none''"

definition maxTerms :: nat where "maxTerms = 32"
definition maxTermLen :: nat where "maxTermLen = 100"
definition maxQueryLen :: nat where "maxQueryLen = 500"
definition MaxTodoPriority :: int where "MaxTodoPriority = 3"

record Term =
  te_Text :: string
  te_Phrase :: bool
  te_Negate :: bool

record Compare =
  cm_Op :: string
  cm_Value :: int

record Query =
  qu_Raw :: string
  qu_Terms :: "Term list"
  qu_Type :: string
  qu_In :: "string list"
  qu_Is :: "string list"
  qu_Has :: "string list"
  qu_After :: "go_time option"
  qu_Before :: "go_time option"
  qu_Priority :: "Compare option"
  qu_Warnings :: "string list"

definition Query0 :: Query where
  "Query0 = \<lparr>qu_Raw = [], qu_Terms = [], qu_Type = [], qu_In = [], qu_Is = [], qu_Has = [],
     qu_After = None, qu_Before = None, qu_Priority = None, qu_Warnings = []\<rparr>"

definition flags :: "string list" where
  "flags = [''done'', ''open'', ''overdue'', ''recurring'', ''private'']"

definition features :: "string list" where
  "features = [''time'', ''checks'', ''body'', ''location'', ''reminders'']"

definition types :: "string \<Rightarrow> string option" where
  "types = map_of [(''event'', TypeEvent), (''events'', TypeEvent), (''todo'', TypeTodo), (''todos'', TypeTodo),
     (''any'', TypeAny), (''all'', TypeAny)]"

definition Query_Empty :: "Query \<Rightarrow> bool" where
  "Query_Empty q \<longleftrightarrow> qu_Terms q = [] \<and> qu_In q = [] \<and> qu_Is q = [] \<and> qu_Has q = [] \<and>
     qu_After q = None \<and> qu_Before q = None \<and> qu_Priority q = None \<and> qu_Type q = TypeAny"

definition Query_Text :: "Query \<Rightarrow> bool" where
  "Query_Text q \<longleftrightarrow> list_ex (\<lambda>t. \<not> te_Negate t) (qu_Terms q)"

definition Wants :: "Query \<Rightarrow> string \<Rightarrow> bool" where
  "Wants q kind \<longleftrightarrow> qu_Type q = TypeAny \<or> qu_Type q = kind"

definition warn :: "string \<Rightarrow> Query \<Rightarrow> Query" where
  "warn msg q = (if msg \<in> set (qu_Warnings q) then q else q\<lparr>qu_Warnings := qu_Warnings q @ [msg]\<rparr>)"

subsection \<open>Tokens\<close>

text \<open>
  The position in the text is the suffix that is left.  \<open>quoted\<close> is the loop inside quotes, \<open>read_word\<close>
  the loop over one token and \<open>tokens\<close> the outer loop; each is the value \<open>None\<close> if it never returns.
\<close>

record token =
  tk_text :: string
  tk_phrase :: bool
  tk_negate :: bool

definition blank :: "char \<Rightarrow> bool" where
  "blank c \<longleftrightarrow> c = CHR '' '' \<or> c = CHR 0x09 \<or> c = CHR 0x0A \<or> c = CHR 0x0D"

partial_function (option) quoted :: "string \<Rightarrow> string \<Rightarrow> (string \<times> string) option" where
  "quoted b s =
     (case s of [] \<Rightarrow> Some (b, s)
      | c # r \<Rightarrow> if c = CHR 0x22 then Some (b, s) else quoted (b @ [c]) r)"

partial_function (option) read_word :: "bool \<Rightarrow> string \<Rightarrow> string \<Rightarrow> (bool \<times> string \<times> string) option" where
  "read_word phrase b s =
     (case s of [] \<Rightarrow> Some (phrase, b, s)
      | c # r \<Rightarrow>
          if c = CHR 0x22 then
            Option.bind (quoted b r) (\<lambda>(b1, r1). read_word True b1 (case r1 of [] \<Rightarrow> r1 | _ # r2 \<Rightarrow> r2))
          else if blank c then Some (phrase, b, s) else read_word phrase (b @ [c]) r)"

partial_function (option) tokens :: "token list \<Rightarrow> string \<Rightarrow> token list option" where
  "tokens acc s =
     (case s of [] \<Rightarrow> Some acc
      | c # r \<Rightarrow>
          if blank c then tokens acc r
          else let negate = (c = CHR ''-'' \<and> r \<noteq> [] \<and> hd r \<noteq> CHR '' '');
                   start = (if negate then r else s)
               in Option.bind (read_word False [] start) (\<lambda>(phrase, b, rest).
                    tokens (if trim_space b \<noteq> [] then acc @ [\<lparr>tk_text = b, tk_phrase = phrase, tk_negate = negate\<rparr>] else acc)
                      (if rest = start then tl rest else rest)))"

definition tokenize :: "string \<Rightarrow> token list option" where
  "tokenize s = tokens [] s"

subsection \<open>Filters\<close>

text \<open>\<open>strconv.Atoi\<close>.\<close>

definition atoi :: "string \<Rightarrow> int option" where
  "atoi s =
     (let neg = (s \<noteq> [] \<and> hd s = CHR ''-'');
          ds = (if s \<noteq> [] \<and> (hd s = CHR ''-'' \<or> hd s = CHR ''+'') then tl s else s);
          n = (if neg then - int (digits_value ds) else int (digits_value ds))
      in if ds = [] \<or> \<not> list_all is_digit ds \<or> n < min_int64 \<or> max_int64 < n then None else Some n)"

definition compare_prefixes :: "string list" where
  "compare_prefixes = [''>='', ''<='', ''>'', ''<'', ''='']"

definition parseCompare :: "string \<Rightarrow> Compare option" where
  "parseCompare v =
     (let (op, rest) = (case find (has_prefix v) compare_prefixes of
                          Some p \<Rightarrow> (p, drop (length p) v) | None \<Rightarrow> (''='', v))
      in case atoi (trim_space rest) of None \<Rightarrow> None
         | Some n \<Rightarrow> if n < 0 \<or> MaxTodoPriority < n then None else Some \<lparr>cm_Op = op, cm_Value = n\<rparr>)"

definition parseOffset :: "string \<Rightarrow> go_time \<Rightarrow> go_time option" where
  "parseOffset v today =
     (if v = [] \<or> (hd v \<noteq> CHR ''+'' \<and> hd v \<noteq> CHR ''-'') then None
      else let sign = (if hd v = CHR ''-'' then -1 else 1); w = tl v in
        if length w < 2 then None
        else case atoi (butlast w) of None \<Rightarrow> None
        | Some n \<Rightarrow>
            if n < 0 \<or> 3650 < n then None
            else let k = n * sign; c = last w in
              if c = CHR ''d'' then Some (add_date UTC today 0 0 k)
              else if c = CHR ''w'' then Some (add_date UTC today 0 0 (7 * k))
              else if c = CHR ''m'' then Some (add_date UTC today 0 k 0)
              else if c = CHR ''y'' then Some (add_date UTC today k 0 0) else None)"

definition parseWhen :: "string \<Rightarrow> go_time \<Rightarrow> go_time option" where
  "parseWhen v today =
     (if v = ''today'' then Some today
      else if v = ''tomorrow'' then Some (add_date UTC today 0 0 1)
      else if v = ''yesterday'' then Some (add_date UTC today 0 0 (-1))
      else case parse_date_layout v of
        Some (y, m, d) \<Rightarrow> Some (go_date UTC y m d 0 0 0 0)
      | None \<Rightarrow> parseOffset v today)"

definition add_term :: "token \<Rightarrow> Query \<Rightarrow> Query" where
  "add_term t q =
     (let text = trim_space (tk_text t) in
      if text = [] then q
      else q\<lparr>qu_Terms := qu_Terms q @ [\<lparr>te_Text = (if length text > maxTermLen then to_valid_utf8 (take maxTermLen text) else text),
               te_Phrase = tk_phrase t, te_Negate = tk_negate t\<rparr>]\<rparr>)"

definition add_once :: "string \<Rightarrow> string list \<Rightarrow> string list" where
  "add_once v xs = (if v \<in> set xs then xs else xs @ [v])"

text \<open>The end of the switch: a filter that was not understood is a warning and a plain word.\<close>

definition misread :: "string \<Rightarrow> token \<Rightarrow> Query \<Rightarrow> Query" where
  "misread msg t q = add_term \<lparr>tk_text = tk_text t, tk_phrase = False, tk_negate = tk_negate t\<rparr> (warn msg q)"

definition read_token :: "(string \<Rightarrow> string) \<Rightarrow> go_time \<Rightarrow> token \<Rightarrow> Query \<Rightarrow> Query" where
  "read_token qt today t q =
     (case cut (tk_text t) (CHR '':'') of
        None \<Rightarrow> add_term t q
      | Some (key0, value0) \<Rightarrow>
        if tk_phrase t \<or> value0 = [] then add_term t q
        else let key = to_lower key0; value = to_lower (trim_space value0) in
          if key = ''type'' then
            (case types value of
               Some kind \<Rightarrow> q\<lparr>qu_Type := kind\<rparr>
             | None \<Rightarrow> misread (qt value @ '' is not a type, use type:event or type:todo.'') t q)
          else if key = ''in'' then q\<lparr>qu_In := qu_In q @ [value]\<rparr>
          else if key = ''is'' then
            (if value \<in> set flags then q\<lparr>qu_Is := add_once value (qu_Is q)\<rparr>
             else misread (qt value @ '' is not something to filter on, try is:'' @ join flags '', is:'' @ ''.'') t q)
          else if key = ''has'' then
            (if value \<in> set features then q\<lparr>qu_Has := add_once value (qu_Has q)\<rparr>
             else misread (qt value @ '' cannot be filtered with has:, try has:'' @ join features '', has:'' @ ''.'') t q)
          else if key = ''after'' \<or> key = ''before'' then
            (case parseWhen value today of
               Some d \<Rightarrow> if key = ''after'' then q\<lparr>qu_After := Some d\<rparr> else q\<lparr>qu_Before := Some d\<rparr>
             | None \<Rightarrow> misread (qt value @ '' is not a date, use '' @ key @ '':2026-09-10, '' @ key @ '':today or '' @ key @ '':+7d.'') t q)
          else if key = ''priority'' then
            (case parseCompare value of
               Some c \<Rightarrow> q\<lparr>qu_Priority := Some c\<rparr>
             | None \<Rightarrow> misread (qt value @ '' is not a priority, use priority:2 or priority:>=2.'') t q)
          else add_term t q)"

definition Parse :: "(string \<Rightarrow> string) \<Rightarrow> string \<Rightarrow> go_time \<Rightarrow> Query option" where
  "Parse qt txt0 today =
     (let r = trim_space txt0;
          q0 = Query0\<lparr>qu_Raw := r\<rparr>;
          q1 = (if length r > maxQueryLen
                then warn (''The query was cut to '' @ itoa (int maxQueryLen) @ '' characters.'') (q0\<lparr>qu_Raw := take maxQueryLen r\<rparr>)
                else q0)
      in map_option (\<lambda>ts.
           let q2 = fold (read_token qt today) ts q1 in
           if length (qu_Terms q2) > maxTerms
           then warn (''Only the first '' @ itoa (int maxTerms) @ '' words were used.'') (q2\<lparr>qu_Terms := take maxTerms (qu_Terms q2)\<rparr>)
           else q2) (tokenize (qu_Raw q1)))"

subsection \<open>The text for the index\<close>

definition special_runes :: "string list" where
  "special_runes = map (\<lambda>c. [c]) [CHR 0x22, CHR 0x27, CHR 0x5C, CHR ''('', CHR '')'', CHR ''|'', CHR ''&'', CHR ''!'',
     CHR ''<'', CHR ''>'', CHR '':'']"

definition normalize :: "string \<Rightarrow> string" where
  "normalize s = join (Fields (concat (map (\<lambda>r. if r \<in> set special_runes then '' '' else r) (runes s)))) '' ''"

definition quote :: "string \<Rightarrow> bool \<Rightarrow> string" where
  "quote s phrase = (if phrase \<or> list_ex (\<lambda>c. c = CHR '' '' \<or> c = CHR 0x09) s then [CHR 0x22] @ s @ [CHR 0x22] else s)"

fun ts_parts :: "Term list \<Rightarrow> string list" where
  "ts_parts [] = []"
| "ts_parts (t # ts) =
     (let w = normalize (te_Text t) in
      if w = [] then ts_parts ts
      else (if te_Negate t then ''-'' @ quote w (te_Phrase t) else quote w (te_Phrase t)) # ts_parts ts)"

definition TSQuery :: "Query \<Rightarrow> string" where
  "TSQuery q = join (ts_parts (qu_Terms q)) '' ''"

definition Prefix :: "Query \<Rightarrow> string" where
  "Prefix q = (case find (\<lambda>t. \<not> te_Negate t \<and> \<not> te_Phrase t) (rev (qu_Terms q)) of
     Some t \<Rightarrow> normalize (te_Text t) | None \<Rightarrow> [])"

definition Blocks :: "Query \<Rightarrow> string \<Rightarrow> string" where
  "Blocks q kind =
     (let fl = (if kind = TypeEvent then [''done'', ''open'', ''overdue''] else [''private'']);
          fe = (if kind = TypeEvent then [''checks''] else [''location''])
      in case find (\<lambda>f. f \<in> set fl) (qu_Is q) of
           Some f \<Rightarrow> ''is:'' @ f
         | None \<Rightarrow>
           (case find (\<lambda>f. f \<in> set fe) (qu_Has q) of
              Some f \<Rightarrow> ''has:'' @ f
            | None \<Rightarrow> if kind = TypeEvent \<and> qu_Priority q \<noteq> None then ''priority:'' else []))"

definition Excludes :: "Query \<Rightarrow> bool" where
  "Excludes q \<longleftrightarrow> list_ex (\<lambda>t. te_Negate t \<and> normalize (te_Text t) \<noteq> []) (qu_Terms q)"

subsection \<open>The statement\<close>

text \<open>A builder is the text written so far with the arguments of its placeholders.\<close>

datatype arg = A_id go_id | A_text string | A_texts "string list" | A_time go_time | A_int int

record builder =
  bu_sql :: string
  bu_args :: "arg list"

definition add_arg :: "arg \<Rightarrow> builder \<Rightarrow> string \<times> builder" where
  "add_arg v b = (let b1 = b\<lparr>bu_args := bu_args b @ [v]\<rparr> in (''$'' @ itoa (int (length (bu_args b1))), b1))"

definition write_sql :: "string \<Rightarrow> builder \<Rightarrow> builder" where
  "write_sql s b = b\<lparr>bu_sql := bu_sql b @ s\<rparr>"

record Search_Params =
  sp_Owner :: go_id
  sp_Query :: Query
  sp_Now :: go_time
  sp_Today :: go_time
  sp_Limit :: int
  sp_Offset :: int

record tsRefs =
  ts_english :: string
  ts_simple :: string
  ts_prefix :: string
  ts_fuzzy :: bool

definition tsRefs0 :: tsRefs where
  "tsRefs0 = \<lparr>ts_english = [], ts_simple = [], ts_prefix = [], ts_fuzzy = False\<rparr>"

text \<open>A quote of SQL, and the text of a constant in quotes.\<close>

abbreviation sq :: string where "sq \<equiv> [CHR 0x27]"

definition tsArgs :: "Query \<Rightarrow> builder \<Rightarrow> (tsRefs \<times> bool) \<times> builder" where
  "tsArgs q b =
     (let text = TSQuery q in
      if text = [] then ((tsRefs0, False), b)
      else case add_arg (A_text text) b of (txt0, b1) \<Rightarrow>
        let refs = \<lparr>ts_english = ''websearch_to_tsquery('' @ sq @ ''english'' @ sq @ ''::regconfig, f_unaccent('' @ txt0 @ ''))'',
                    ts_simple = ''websearch_to_tsquery('' @ sq @ ''simple'' @ sq @ ''::regconfig, f_unaccent('' @ txt0 @ ''))'',
                    ts_prefix = [], ts_fuzzy = False\<rparr>;
            pre = Prefix q
        in if pre \<noteq> [] \<and> \<not> Excludes q
           then (case add_arg (A_text (to_lower pre)) b1 of (p, b2) \<Rightarrow> ((refs\<lparr>ts_prefix := p, ts_fuzzy := True\<rparr>, True), b2))
           else ((refs, True), b1))"

definition matchClause :: "tsRefs \<Rightarrow> string \<Rightarrow> string" where
  "matchClause refs titleCol =
     ''(search @@ '' @ ts_english refs @ '' OR search @@ '' @ ts_simple refs @
     (if ts_fuzzy refs then '' OR lower(f_unaccent('' @ titleCol @ '')) LIKE '' @ ts_prefix refs @ '' || '' @ sq @ ''%'' @ sq else []) @ '')''"

definition rankExpr :: "tsRefs \<Rightarrow> string \<Rightarrow> bool \<Rightarrow> string \<Rightarrow> string" where
  "rankExpr refs titleCol hasText recency =
     (if \<not> hasText then ''(1 + '' @ recency @ '')''
      else ''(ts_rank_cd(search, '' @ ts_english refs @ '') + ts_rank_cd(search, '' @ ts_simple refs @ '')'' @
        (if ts_fuzzy refs then '' + similarity(lower(f_unaccent('' @ titleCol @ '')), '' @ ts_prefix refs @ '') * 0.4'' else []) @
        '' + '' @ recency @ '')'')"

definition recencyExpr :: "go_time \<Rightarrow> string \<Rightarrow> builder \<Rightarrow> string \<times> builder" where
  "recencyExpr now col b =
     (case add_arg (A_time now) b of (ref, b1) \<Rightarrow>
        (''greatest(0.0, 0.3 - abs(extract(epoch FROM ('' @ col @ '' - '' @ ref @ ''))) / 100000000.0)'', b1))"

text \<open>A clause whose only variable part is the placeholder of its argument.\<close>

definition write_arg :: "string \<Rightarrow> arg \<Rightarrow> string \<Rightarrow> builder \<Rightarrow> builder" where
  "write_arg before v after b = (case add_arg v b of (ref, b1) \<Rightarrow> write_sql (before @ ref @ after) b1)"

definition event_flag :: "string \<Rightarrow> builder \<Rightarrow> builder" where
  "event_flag flag b =
     (if flag = ''recurring'' then write_sql '' AND (e.rrule IS NOT NULL OR cardinality(e.rdate) > 0)'' b
      else if flag = ''private'' then write_sql ('' AND e.visibility = '' @ sq @ ''private'' @ sq) b
      else b)"

definition event_feature :: "string \<Rightarrow> builder \<Rightarrow> builder" where
  "event_feature feature b =
     (if feature = ''body'' then write_sql ('' AND e.body <> '' @ sq @ sq) b
      else if feature = ''location'' then write_sql ('' AND e.location <> '' @ sq @ sq) b
      else if feature = ''time'' then write_sql '' AND NOT e.all_day'' b
      else if feature = ''reminders'' then write_sql '' AND EXISTS (SELECT 1 FROM event_reminders r WHERE r.event_id = e.id)'' b
      else b)"

definition write_opt :: "string \<Rightarrow> arg option \<Rightarrow> builder \<Rightarrow> builder" where
  "write_opt before v b = (case v of None \<Rightarrow> b | Some a \<Rightarrow> write_arg before a [] b)"

definition snippet_sql :: "string \<Rightarrow> string" where
  "snippet_sql alias = '' left(regexp_replace('' @ alias @ ''.body, '' @ sq @ [CHR 0x5C] @ ''s+'' @ sq @ '', '' @ sq @ '' '' @ sq @ '', '' @ sq @ ''g'' @ sq @ ''), 200) AS snippet,''"

definition event_head :: "string \<Rightarrow> tsRefs \<Rightarrow> bool \<Rightarrow> string \<Rightarrow> string" where
  "event_head owner refs hasText recency =
     ''SELECT '' @ sq @ ''event'' @ sq @ ''::text AS kind, e.id, e.title,'' @ snippet_sql ''e'' @
     '' e.start_at AS starts, e.end_at AS ends, e.all_day, c.name AS container, c.color AS color,'' @
     '' false AS done, '' @ rankExpr refs ''e.title'' hasText recency @ ''::float8 AS rank'' @
     '' FROM events e JOIN calendars c ON c.id = e.calendar_id'' @
     '' WHERE e.owner_id = '' @ owner @ '' AND e.deleted_at IS NULL AND e.series_id IS NULL''"

definition event_where :: "Query \<Rightarrow> tsRefs \<Rightarrow> bool \<Rightarrow> builder \<Rightarrow> builder" where
  "event_where q refs hasText b2 =
     (let b3 = (if hasText then write_sql ('' AND '' @ matchClause refs ''e.title'') b2 else b2);
          b4 = (if qu_In q \<noteq> [] then write_arg '' AND lower(c.name) = ANY('' (A_texts (qu_In q)) '')'' b3 else b3);
          b5 = fold event_flag (qu_Is q) b4;
          b6 = fold event_feature (qu_Has q) b5;
          b7 = write_opt '' AND upper(e.span) > '' (map_option A_time (qu_After q)) b6
      in write_opt '' AND lower(e.span) < '' (map_option A_time (qu_Before q)) b7)"

definition buildEvents :: "Search_Params \<Rightarrow> string \<Rightarrow> tsRefs \<Rightarrow> bool \<Rightarrow> builder \<Rightarrow> builder" where
  "buildEvents p owner refs hasText b0 =
     (case recencyExpr (sp_Now p) ''e.start_at'' b0 of (recency, b1) \<Rightarrow>
        event_where (sp_Query p) refs hasText (write_sql (event_head owner refs hasText recency) b1))"

definition todo_flag :: "go_time \<Rightarrow> string \<Rightarrow> builder \<Rightarrow> builder" where
  "todo_flag today flag b =
     (if flag = ''done'' then write_sql ('' AND t.status = '' @ sq @ ''completed'' @ sq) b
      else if flag = ''open'' then write_sql ('' AND t.status = '' @ sq @ ''needs_action'' @ sq) b
      else if flag = ''overdue''
        then write_arg ('' AND t.status = '' @ sq @ ''needs_action'' @ sq @ '' AND t.due_date IS NOT NULL AND t.due_date < '') (A_time today) [] b
      else if flag = ''recurring'' then write_sql '' AND t.rrule IS NOT NULL'' b
      else b)"

definition todo_feature :: "string \<Rightarrow> builder \<Rightarrow> builder" where
  "todo_feature feature b =
     (if feature = ''body'' then write_sql ('' AND t.body <> '' @ sq @ sq) b
      else if feature = ''time'' then write_sql '' AND t.due_time IS NOT NULL'' b
      else if feature = ''checks'' then write_sql '' AND EXISTS (SELECT 1 FROM todo_checks ch WHERE ch.todo_id = t.id)'' b
      else if feature = ''reminders'' then write_sql '' AND EXISTS (SELECT 1 FROM todo_reminders r WHERE r.todo_id = t.id)'' b
      else b)"

definition compareOp :: "string \<Rightarrow> string" where
  "compareOp op = (if op \<in> set [''>'', ''>='', ''<'', ''<=''] then op else ''='')"

definition todo_head :: "string \<Rightarrow> tsRefs \<Rightarrow> bool \<Rightarrow> string \<Rightarrow> string" where
  "todo_head owner refs hasText recency =
     ''SELECT '' @ sq @ ''todo'' @ sq @ ''::text AS kind, t.id, t.title,'' @ snippet_sql ''t'' @
     '' t.due_date::timestamptz AS starts, NULL::timestamptz AS ends, (t.due_time IS NULL) AS all_day,'' @
     '' l.name AS container, l.color AS color, t.status = '' @ sq @ ''completed'' @ sq @ '' AS done,'' @
     '' '' @ rankExpr refs ''t.title'' hasText recency @ ''::float8 AS rank'' @
     '' FROM todos t JOIN todo_lists l ON l.id = t.list_id'' @
     '' WHERE t.owner_id = '' @ owner @ '' AND t.deleted_at IS NULL''"

definition write_priority :: "Compare option \<Rightarrow> builder \<Rightarrow> builder" where
  "write_priority c b =
     (case c of None \<Rightarrow> b
      | Some k \<Rightarrow> write_arg ('' AND t.priority '' @ compareOp (cm_Op k) @ '' '') (A_int (cm_Value k)) [] b)"

definition todo_where :: "Query \<Rightarrow> go_time \<Rightarrow> tsRefs \<Rightarrow> bool \<Rightarrow> builder \<Rightarrow> builder" where
  "todo_where q today refs hasText b2 =
     (let b3 = (if hasText then write_sql ('' AND '' @ matchClause refs ''t.title'') b2 else b2);
          b4 = (if qu_In q \<noteq> [] then write_arg '' AND lower(l.name) = ANY('' (A_texts (qu_In q)) '')'' b3 else b3);
          b5 = fold (todo_flag today) (qu_Is q) b4;
          b6 = fold todo_feature (qu_Has q) b5;
          b7 = write_priority (qu_Priority q) b6;
          b8 = write_opt '' AND t.due_date >= '' (map_option A_time (qu_After q)) b7
      in write_opt '' AND t.due_date < '' (map_option A_time (qu_Before q)) b8)"

definition buildTodos :: "Search_Params \<Rightarrow> string \<Rightarrow> tsRefs \<Rightarrow> bool \<Rightarrow> builder \<Rightarrow> builder" where
  "buildTodos p owner refs hasText b0 =
     (case recencyExpr (sp_Now p) ''t.due_date::timestamptz'' b0 of (recency, b1) \<Rightarrow>
        todo_where (sp_Query p) (sp_Today p) refs hasText (write_sql (todo_head owner refs hasText recency) b1))"

definition nl :: string where "nl = [CHR 0x0A]"

definition selectHead :: string where
  "selectHead = ''SELECT kind, id, title, snippet, starts, ends, all_day, container, color, done, rank''"

definition Build :: "Search_Params \<Rightarrow> string \<times> arg list" where
  "Build p =
     (case add_arg (A_id (sp_Owner p)) \<lparr>bu_sql = [], bu_args = []\<rparr> of (owner, b0) \<Rightarrow>
      case tsArgs (sp_Query p) b0 of ((ts, hasText), b1) \<Rightarrow>
      let b2 = write_sql (''WITH results AS ('' @ nl) b1;
          ev = Wants (sp_Query p) TypeEvent;
          b3 = (if ev then buildEvents p owner ts hasText b2 else b2);
          b4 = (if Wants (sp_Query p) TypeTodo
                then buildTodos p owner ts hasText (if ev then write_sql (nl @ ''UNION ALL'' @ nl) b3 else b3) else b3);
          b5 = write_sql (nl @ '')'' @ nl @ selectHead @ '' FROM results ORDER BY rank DESC, starts DESC NULLS LAST, id DESC'') b4
      in case add_arg (A_int (sp_Limit p)) b5 of (l, b6) \<Rightarrow>
         case add_arg (A_int (sp_Offset p)) b6 of (off, b7) \<Rightarrow>
         let b8 = write_sql ('' LIMIT '' @ l @ '' OFFSET '' @ off) b7 in (bu_sql b8, bu_args b8))"

subsection \<open>The service\<close>

record Hit =
  hi_Kind :: string
  hi_ID :: go_id
  hi_Title :: string
  hi_Snippet :: string
  hi_Container :: string
  hi_Color :: string
  hi_AllDay :: bool
  hi_Done :: bool
  hi_Start :: "go_time option"
  hi_End :: "go_time option"

record Result =
  rs_Query :: Query
  rs_Hits :: "Hit list"
  rs_More :: bool
  rs_Offset :: int
  rs_Limit :: int
  rs_Warnings :: "string list"

definition Result_Next :: "Result \<Rightarrow> int" where
  "Result_Next r = rs_Offset r + rs_Limit r"

definition Result_Prev :: "Result \<Rightarrow> int" where
  "Result_Prev r = max 0 (rs_Offset r - rs_Limit r)"

definition DefaultLimit :: int where "DefaultLimit = 25"
definition MaxLimit :: int where "MaxLimit = 100"
definition snippetRunes :: int where "snippetRunes = 160"

definition narrow :: "Query \<Rightarrow> Query" where
  "narrow q =
     (let events = Wants q TypeEvent; todos = Wants q TypeTodo; be = Blocks q TypeEvent; bt = Blocks q TypeTodo in
      if events \<and> todos \<and> be \<noteq> [] \<and> bt \<noteq> []
        then warn (be @ '' and '' @ bt @ '' cannot both hold for one entry.'') (q\<lparr>qu_Type := typeNone\<rparr>)
      else if events \<and> be \<noteq> []
        then warn (be @ '' applies to todos, so events were left out.'') (q\<lparr>qu_Type := (if todos then TypeTodo else typeNone)\<rparr>)
      else if todos \<and> bt \<noteq> []
        then warn (bt @ '' applies to events, so todos were left out.'') (q\<lparr>qu_Type := (if events then TypeEvent else typeNone)\<rparr>)
      else q)"

record Search_Request =
  sr_Raw :: string
  sr_Type :: string
  sr_Limit :: int
  sr_Offset :: int

text \<open>The user and the store are arguments; the value \<open>None\<close> would be a search that never returns.\<close>

definition Search :: "(string \<Rightarrow> string) \<Rightarrow> zoneinfo \<Rightarrow> (go_id \<Rightarrow> go_error + User) \<Rightarrow> (Search_Params \<Rightarrow> go_error + Hit list) \<Rightarrow>
    go_time \<Rightarrow> go_id \<Rightarrow> Search_Request \<Rightarrow> (go_error + Result) option" where
  "Search qt zi users repo now owner req =
     (case users owner of Inl e \<Rightarrow> Some (Inl e)
      | Inr u \<Rightarrow>
        let today = date_of (User_Location zi u) now in
        map_option (\<lambda>q0.
          let q1 = (if sr_Type req \<noteq> [] \<and> qu_Type q0 = TypeAny
                    then (case types (to_lower (sr_Type req)) of Some kind \<Rightarrow> q0\<lparr>qu_Type := kind\<rparr> | None \<Rightarrow> q0) else q0);
              limit = min (if sr_Limit req \<le> 0 then DefaultLimit else sr_Limit req) MaxLimit;
              offset = max (sr_Offset req) 0;
              res = \<lparr>rs_Query = q1, rs_Hits = [], rs_More = False, rs_Offset = offset, rs_Limit = limit, rs_Warnings = []\<rparr>
          in if Query_Empty q1 then Inr (res\<lparr>rs_Warnings := qu_Warnings q1\<rparr>)
             else let q2 = narrow q1; res2 = res\<lparr>rs_Query := q2, rs_Warnings := qu_Warnings q2\<rparr> in
               if qu_Type q2 = typeNone then Inr res2
               else case repo \<lparr>sp_Owner = owner, sp_Query = q2, sp_Now = now, sp_Today = today, sp_Limit = limit + 1, sp_Offset = offset\<rparr> of
                 Inl e \<Rightarrow> Inl e
               | Inr hits \<Rightarrow>
                   Inr (res2\<lparr>rs_Hits := map (\<lambda>h. h\<lparr>hi_Snippet := Plain (hi_Snippet h) snippetRunes\<rparr>) (take (nat limit) hits),
                             rs_More := int (length hits) > limit\<rparr>))
          (Parse qt (sr_Raw req) today))"

end
