(* ===== verification/Search_Safety.thy ===== *)
theory Search_Safety
  imports Search
begin

text \<open>
  What the search promises: reading a query returns, whatever the text, within the bounds of the source; the
  text of the statement depends only on which filters are present, never on what the user typed; and a
  page never holds more than its limit.
\<close>

subsection \<open>Reading a query returns\<close>

lemma quoted_takeWhile:
  "quoted b s = Some (b @ takeWhile (\<lambda>c. c \<noteq> CHR 0x22) s, dropWhile (\<lambda>c. c \<noteq> CHR 0x22) s)"
proof (induction s arbitrary: b)
  case Nil
  then show ?case by (simp add: quoted.simps)
next
  case (Cons c s)
  then show ?case by (subst quoted.simps) simp
qed

lemma quoted_lengths:
  assumes "quoted b s = Some (b1, s1)"
  shows "length b1 + length s1 = length b + length s"
proof -
  have "length (takeWhile P s) + length (dropWhile P s) = length s" for P
    by (metis length_append takeWhile_dropWhile_id)
  then show ?thesis using assms by (auto simp: quoted_takeWhile)
qed

lemma read_word_returns:
  "\<exists>p b1 r. read_word phrase b s = Some (p, b1, r) \<and> length b1 + length r \<le> length b + length s \<and>
     length r \<le> length s \<and> (s \<noteq> [] \<and> \<not> blank (hd s) \<longrightarrow> length r < length s)"
proof (induction s arbitrary: phrase b rule: length_induct)
  case (1 s)
  show ?case
  proof (cases s)
    case Nil
    then show ?thesis by (simp add: read_word.simps)
  next
    case (Cons c r)
    consider "c = CHR 0x22" | "c \<noteq> CHR 0x22" "blank c" | "c \<noteq> CHR 0x22" "\<not> blank c" by blast
    then show ?thesis
    proof cases
      case 1
      define b1 where "b1 = b @ takeWhile (\<lambda>c. c \<noteq> CHR 0x22) r"
      define r1 where "r1 = dropWhile (\<lambda>c. c \<noteq> CHR 0x22) r"
      have q: "quoted b r = Some (b1, r1)" by (simp add: quoted_takeWhile b1_def r1_def)
      have ln: "length b1 + length r1 = length b + length r" using quoted_lengths [OF q] .
      have r1: "length r1 \<le> length r" by (simp add: r1_def length_dropWhile_le)
      let ?r2 = "case r1 of [] \<Rightarrow> r1 | _ # r2 \<Rightarrow> r2"
      have r2: "length ?r2 \<le> length r1" by (cases r1) auto
      then have "length ?r2 < length s" using r1 Cons by simp
      then obtain p b2 r3 where ih: "read_word True b1 ?r2 = Some (p, b2, r3)" "length b2 + length r3 \<le> length b1 + length ?r2"
          "length r3 \<le> length ?r2"
        using "1.IH" by blast
      have "read_word phrase b s = Some (p, b2, r3)"
        by (subst read_word.simps) (simp add: Cons 1 q ih(1))
      then show ?thesis using ih r1 r2 ln Cons by auto
    next
      case 2
      then show ?thesis by (subst read_word.simps) (simp add: Cons)
    next
      case 3
      have "length r < length s" by (simp add: Cons)
      then obtain p b2 r3 where ih: "read_word phrase (b @ [c]) r = Some (p, b2, r3)"
          "length b2 + length r3 \<le> length (b @ [c]) + length r" "length r3 \<le> length r"
        using "1.IH" by blast
      have "read_word phrase b s = Some (p, b2, r3)"
        by (subst read_word.simps) (simp add: Cons 3 ih(1))
      then show ?thesis using ih Cons by auto
    qed
  qed
qed

definition text_size :: "token list \<Rightarrow> nat" where
  "text_size ts = sum_list (map (\<lambda>t. length (tk_text t)) ts)"

lemma text_size_simps [simp]: "text_size [] = 0" "text_size (ts @ [t]) = text_size ts + length (tk_text t)"
  by (simp_all add: text_size_def)

lemma tokens_Cons:
  "tokens acc (c # r) =
     (if blank c then tokens acc r
      else let negate = (c = CHR ''-'' \<and> r \<noteq> [] \<and> hd r \<noteq> CHR '' '');
               start = (if negate then r else c # r)
           in Option.bind (read_word False [] start) (\<lambda>(phrase, b, rest).
                tokens (if trim_space b \<noteq> [] then acc @ [\<lparr>tk_text = b, tk_phrase = phrase, tk_negate = negate\<rparr>] else acc)
                  (if rest = start then tl rest else rest)))"
  by (subst tokens.simps) simp

lemma tokens_returns:
  assumes "\<forall>t \<in> set acc. trim_space (tk_text t) \<noteq> []"
  shows "\<exists>ts. tokens acc s = Some ts \<and> text_size ts \<le> text_size acc + length s \<and>
     length ts \<le> length acc + length s \<and> (\<forall>t \<in> set ts. trim_space (tk_text t) \<noteq> [])"
  using assms
proof (induction s arbitrary: acc rule: length_induct)
  case (1 s)
  show ?case
  proof (cases s)
    case Nil
    then show ?thesis using 1 by (simp add: tokens.simps)
  next
    case (Cons c r)
    show ?thesis
    proof (cases "blank c")
      case True
      have "length r < length s" by (simp add: Cons)
      then obtain ts where ts: "tokens acc r = Some ts" "text_size ts \<le> text_size acc + length r"
          "length ts \<le> length acc + length r" "\<forall>t \<in> set ts. trim_space (tk_text t) \<noteq> []"
        using "1.IH" "1.prems" by blast
      have "tokens acc s = Some ts" by (subst tokens.simps) (simp add: Cons True ts(1))
      then show ?thesis using ts Cons by auto
    next
      case False
      define neg where "neg = (c = CHR ''-'' \<and> r \<noteq> [] \<and> hd r \<noteq> CHR '' '')"
      define start where "start = (if neg then r else s)"
      have sl: "length start \<le> length s" "start \<noteq> []" by (auto simp: start_def Cons neg_def)
      obtain p b rest where w: "read_word False [] start = Some (p, b, rest)" "length b + length rest \<le> length start"
          "length rest \<le> length start" "\<not> blank (hd start) \<longrightarrow> length rest < length start"
        using read_word_returns [of False "[]" start] sl by auto
      define t where "t = \<lparr>tk_text = b, tk_phrase = p, tk_negate = neg\<rparr>"
      define acc1 where "acc1 = (if trim_space b \<noteq> [] then acc @ [t] else acc)"
      define rest1 where "rest1 = (if rest = start then tl rest else rest)"
      have rl: "length rest1 < length s"
      proof (cases "rest = start")
        case True
        then have "length rest1 < length start" using sl by (simp add: rest1_def)
        then show ?thesis using sl by linarith
      next
        case False
        have "length rest < length s"
        proof (cases neg)
          case True
          then show ?thesis using w(3) by (simp add: start_def Cons)
        next
          case f: False
          then have "hd start = c" by (simp add: start_def Cons)
          then show ?thesis using w(4) \<open>\<not> blank c\<close> sl by simp
        qed
        then show ?thesis using False by (simp add: rest1_def)
      qed
      have rb: "length rest1 \<le> length rest" by (simp add: rest1_def)
      have a1: "\<forall>t \<in> set acc1. trim_space (tk_text t) \<noteq> []" using "1.prems" by (auto simp: acc1_def t_def)
      have a2: "text_size acc1 \<le> text_size acc + length b" by (simp add: acc1_def t_def)
      have a3: "length acc1 \<le> length acc + 1" by (simp add: acc1_def)
      from "1.IH" rl a1 obtain ts where ts: "tokens acc1 rest1 = Some ts" "text_size ts \<le> text_size acc1 + length rest1"
          "length ts \<le> length acc1 + length rest1" "\<forall>t \<in> set ts. trim_space (tk_text t) \<noteq> []"
        by blast
      have "tokens acc (c # r) = tokens acc1 rest1"
        unfolding acc1_def rest1_def t_def tokens_Cons
        using False w(1) by (simp add: Let_def neg_def [symmetric] start_def [unfolded Cons, symmetric])
      then have "tokens acc s = Some ts" using ts(1) Cons by simp
      moreover have "text_size ts \<le> text_size acc + length s" using ts(2) a2 w(2) rb sl by linarith
      moreover have "length ts \<le> length acc + length s" using ts(3) a3 rl by linarith
      ultimately show ?thesis using ts(4) by blast
    qed
  qed
qed

text \<open>C31.
  Termination of the tokenizer: its nested loops return on every text (open quotes, lone dashes and blanks
  included), and the tokens are not blank, no more than the text has bytes, and together no longer than it.
\<close>

theorem tokenize_returns:
  "\<exists>ts. tokenize s = Some ts \<and> sum_list (map (\<lambda>t. length (tk_text t)) ts) \<le> length s \<and> length ts \<le> length s \<and>
     (\<forall>t \<in> set ts. trim_space (tk_text t) \<noteq> [])"
  using tokens_returns [of "[]" s] by (simp add: tokenize_def text_size_def)

lemma tokenize_returns_witness: "\<exists>ts. tokenize ''a -b'' = Some ts \<and> length ts \<le> 4"
  using tokenize_returns [of "''a -b''"] by auto

subsection \<open>Bounds\<close>

lemma utf8_pieces_n_Nil [simp]: "utf8_pieces_n n [] = []"
  by (cases n) simp_all

lemma utf8_pieces_n_length: "length (concat (map snd (utf8_pieces_n n s))) \<le> length s"
proof (induction n arbitrary: s)
  case (Suc n)
  define w where "w = utf8_width (map of_char s)"
  show ?case
  proof (cases "s = []")
    case False
    have "length (concat (map snd (utf8_pieces_n n (drop k s)))) \<le> length s - k" for k
      using Suc.IH [of "drop k s"] by simp
    from this [of 1] this [of w] show ?thesis
      using False by (auto simp: Let_def w_def [symmetric] not_le min_def simp del: length_concat)
  qed simp
qed simp

lemma to_valid_utf8_length: "length (to_valid_utf8 s) \<le> length s"
proof -
  have "length (concat (map snd (filter P xs))) \<le> length (concat (map snd xs))" for P and xs :: "(bool \<times> string) list"
    by (induction xs) auto
  then show ?thesis
    unfolding to_valid_utf8_def utf8_pieces_def using utf8_pieces_n_length le_trans by blast
qed

definition query_ok :: "Query \<Rightarrow> bool" where
  "query_ok q \<longleftrightarrow> length (qu_Raw q) \<le> maxQueryLen \<and> list_all (\<lambda>t. length (te_Text t) \<le> maxTermLen) (qu_Terms q) \<and>
     qu_Type q \<in> {TypeAny, TypeEvent, TypeTodo} \<and> set (qu_Is q) \<subseteq> set flags \<and> distinct (qu_Is q) \<and>
     set (qu_Has q) \<subseteq> set features \<and> distinct (qu_Has q) \<and>
     (case qu_Priority q of None \<Rightarrow> True
      | Some c \<Rightarrow> cm_Op c \<in> set compare_prefixes \<and> 0 \<le> cm_Value c \<and> cm_Value c \<le> MaxTodoPriority)"

lemma query_ok_warn [simp]: "query_ok (warn msg q) \<longleftrightarrow> query_ok q"
  by (simp add: warn_def query_ok_def)

lemma query_ok_add_term [simp]: "query_ok q \<Longrightarrow> query_ok (add_term t q)"
proof -
  assume q: "query_ok q"
  have "length (if length x > maxTermLen then to_valid_utf8 (take maxTermLen x) else x) \<le> maxTermLen" for x
    using to_valid_utf8_length [of "take maxTermLen x"] by auto
  then show "query_ok (add_term t q)"
    using q unfolding add_term_def Let_def query_ok_def by simp
qed

lemma query_ok_misread [simp]: "query_ok q \<Longrightarrow> query_ok (misread msg t q)"
  by (simp add: misread_def)

lemma types_kinds: "types v = Some k \<Longrightarrow> k \<in> {TypeAny, TypeEvent, TypeTodo}"
  by (auto simp: types_def split: if_splits)

lemma parseCompare_ok:
  assumes "parseCompare v = Some c"
  shows "cm_Op c \<in> set compare_prefixes \<and> 0 \<le> cm_Value c \<and> cm_Value c \<le> MaxTodoPriority"
proof -
  have f: "find (has_prefix v) compare_prefixes = Some p \<Longrightarrow> p \<in> set compare_prefixes" for p
    by (auto simp: find_Some_iff)
  have e: "''='' \<in> set compare_prefixes" by (simp add: compare_prefixes_def)
  show ?thesis
    using assms f e unfolding parseCompare_def by (auto split: option.splits if_splits)
qed

lemma add_once_ok: "set xs \<subseteq> A \<Longrightarrow> distinct xs \<Longrightarrow> v \<in> A \<Longrightarrow> set (add_once v xs) \<subseteq> A \<and> distinct (add_once v xs)"
  by (simp add: add_once_def)

lemma query_ok_read_token:
  assumes q: "query_ok q"
  shows "query_ok (read_token qt today t q)"
proof -
  have k: "query_ok (q\<lparr>qu_Type := k\<rparr>)" if "types v = Some k" for v k
    using q types_kinds [OF that] by (simp add: query_ok_def)
  have i: "query_ok (q\<lparr>qu_Is := add_once v (qu_Is q)\<rparr>)" if "v \<in> set flags" for v
    using q add_once_ok [of "qu_Is q" "set flags" v] that by (simp add: query_ok_def)
  have h: "query_ok (q\<lparr>qu_Has := add_once v (qu_Has q)\<rparr>)" if "v \<in> set features" for v
    using q add_once_ok [of "qu_Has q" "set features" v] that by (simp add: query_ok_def)
  have p: "query_ok (q\<lparr>qu_Priority := Some c\<rparr>)" if "parseCompare v = Some c" for v c
    using q parseCompare_ok [OF that] by (simp add: query_ok_def)
  have r: "query_ok (q\<lparr>qu_In := x\<rparr>)" "query_ok (q\<lparr>qu_After := y\<rparr>)" "query_ok (q\<lparr>qu_Before := y\<rparr>)" for x y
    using q by (simp_all add: query_ok_def)
  show ?thesis
    unfolding read_token_def Let_def
    by (simp add: q k i h p r split: option.split prod.split)
qed

lemma query_ok_fold: "query_ok q \<Longrightarrow> query_ok (fold (read_token qt today) ts q)"
  by (induction ts arbitrary: q) (simp_all add: query_ok_read_token)

text \<open>Whatever the text, reading it returns a query within the bounds of the source: at most 500 bytes are
  read, at most 32 words of at most 100 bytes each are kept, the kind, the flags and the features are known
  ones and named once, and a priority is a known comparison with a value between 0 and 3.
\<close>

theorem parse_bounds:
  "\<exists>q. Parse qt src today = Some q \<and> length (qu_Raw q) \<le> maxQueryLen \<and> length (qu_Terms q) \<le> maxTerms \<and>
     (\<forall>t \<in> set (qu_Terms q). length (te_Text t) \<le> maxTermLen) \<and> qu_Type q \<in> {TypeAny, TypeEvent, TypeTodo} \<and>
     set (qu_Is q) \<subseteq> set flags \<and> distinct (qu_Is q) \<and> set (qu_Has q) \<subseteq> set features \<and> distinct (qu_Has q) \<and>
     (case qu_Priority q of None \<Rightarrow> True
      | Some c \<Rightarrow> cm_Op c \<in> set compare_prefixes \<and> 0 \<le> cm_Value c \<and> cm_Value c \<le> MaxTodoPriority)"
proof -
  define r where "r = trim_space src"
  define q1 where "q1 = (if length r > maxQueryLen
      then warn (''The query was cut to '' @ itoa (int maxQueryLen) @ '' characters.'')
        (Query0\<lparr>qu_Raw := r, qu_Raw := take maxQueryLen r\<rparr>)
      else Query0\<lparr>qu_Raw := r\<rparr>)"
  obtain ts where ts: "tokenize (qu_Raw q1) = Some ts"
    using tokens_returns [of "[]" "qu_Raw q1"] by (auto simp: tokenize_def)
  have q1: "query_ok q1" by (simp add: q1_def) (simp add: query_ok_def Query0_def TypeAny_def)
  define q2 where "q2 = fold (read_token qt today) ts q1"
  have q2: "query_ok q2" using query_ok_fold [OF q1] by (simp add: q2_def)
  define q where "q = (if length (qu_Terms q2) > maxTerms
      then warn (''Only the first '' @ itoa (int maxTerms) @ '' words were used.'') (q2\<lparr>qu_Terms := take maxTerms (qu_Terms q2)\<rparr>)
      else q2)"
  have P: "Parse qt src today = Some q"
  proof -
    have "Parse qt src today = map_option (\<lambda>ts. let q2 = fold (read_token qt today) ts q1 in
        if length (qu_Terms q2) > maxTerms
        then warn (''Only the first '' @ itoa (int maxTerms) @ '' words were used.'') (q2\<lparr>qu_Terms := take maxTerms (qu_Terms q2)\<rparr>)
        else q2) (tokenize (qu_Raw q1))"
      unfolding Parse_def Let_def r_def [symmetric] q1_def by (rule refl)
    then show ?thesis unfolding ts q_def q2_def Let_def by simp
  qed
  have ok: "query_ok q"
  proof (cases "length (qu_Terms q2) > maxTerms")
    case True
    have "list_all P (take n xs)" if "list_all P xs" for P n and xs :: "Term list"
      using that by (auto simp: list_all_iff dest: in_set_takeD)
    then have "query_ok (q2\<lparr>qu_Terms := take maxTerms (qu_Terms q2)\<rparr>)" using q2 by (simp add: query_ok_def)
    then show ?thesis by (simp add: q_def True)
  qed (simp add: q_def q2)
  have ln: "length (qu_Terms q) \<le> maxTerms"
    by (auto simp: q_def warn_def)
  show ?thesis
    by (rule exI [of _ q]) (use P ok ln in \<open>simp add: query_ok_def list_all_iff\<close>)
qed

lemma parse_bounds_witness: "\<exists>q. Parse (\<lambda>x. x) ''is:done tea'' 0 = Some q \<and> length (qu_Terms q) \<le> maxTerms"
  using parse_bounds [of "\<lambda>x. x" "''is:done tea''" 0] by blast


subsection \<open>The text of the statement\<close>

text \<open>
  What the text of the statement may depend on: which parts and filters there are.  The words, names,
  dates and limits of the query are arguments of the statement.
\<close>

record shape =
  sh_Text :: bool
  sh_Fuzzy :: bool
  sh_Events :: bool
  sh_Todos :: bool
  sh_In :: bool
  sh_Is :: "string list"
  sh_Has :: "string list"
  sh_After :: bool
  sh_Before :: bool
  sh_Priority :: "string option"

definition shape_of :: "Query \<Rightarrow> shape" where
  "shape_of q =
     \<lparr>sh_Text = TSQuery q \<noteq> [], sh_Fuzzy = (Prefix q \<noteq> [] \<and> \<not> Excludes q),
      sh_Events = Wants q TypeEvent, sh_Todos = Wants q TypeTodo, sh_In = (qu_In q \<noteq> []),
      sh_Is = qu_Is q, sh_Has = qu_Has q, sh_After = (qu_After q \<noteq> None), sh_Before = (qu_Before q \<noteq> None),
      sh_Priority = map_option (\<lambda>c. compareOp (cm_Op c)) (qu_Priority q)\<rparr>"

text \<open>Two builders that have written the same text and hold as many arguments.\<close>

definition alike :: "builder \<Rightarrow> builder \<Rightarrow> bool" where
  "alike a b \<longleftrightarrow> bu_sql a = bu_sql b \<and> length (bu_args a) = length (bu_args b)"

named_theorems alike

lemma alike_refl [alike]: "alike b b"
  by (simp add: alike_def)

lemma alike_write [alike]: "alike a b \<Longrightarrow> alike (write_sql s a) (write_sql s b)"
  by (simp add: alike_def write_sql_def)

lemma alike_add_arg:
  "alike a b \<Longrightarrow> fst (add_arg u a) = fst (add_arg v b) \<and> alike (snd (add_arg u a)) (snd (add_arg v b))"
  by (simp add: alike_def add_arg_def Let_def)

lemma alike_write_arg [alike]: "alike a b \<Longrightarrow> alike (write_arg x u y a) (write_arg x v y b)"
  using alike_add_arg [of a b u v] by (auto simp: write_arg_def alike_write split: prod.split)

lemma alike_write_opt [alike]: "alike a b \<Longrightarrow> (u = None) = (v = None) \<Longrightarrow> alike (write_opt x u a) (write_opt x v b)"
  by (auto simp: write_opt_def alike_write_arg split: option.split)

lemma alike_fold:
  "(\<And>x a b. alike a b \<Longrightarrow> alike (f x a) (g x b)) \<Longrightarrow> alike a b \<Longrightarrow> alike (fold f xs a) (fold g xs b)"
  by (induction xs arbitrary: a b) simp_all

lemma alike_flags [alike]:
  "alike a b \<Longrightarrow> alike (event_flag f a) (event_flag f b)"
  "alike a b \<Longrightarrow> alike (event_feature f a) (event_feature f b)"
  "alike a b \<Longrightarrow> alike (todo_flag d f a) (todo_flag d' f b)"
  "alike a b \<Longrightarrow> alike (todo_feature f a) (todo_feature f b)"
  by (simp_all add: event_flag_def event_feature_def todo_flag_def todo_feature_def alike)

lemma alike_recency:
  "alike a b \<Longrightarrow> fst (recencyExpr t col a) = fst (recencyExpr t' col b) \<and>
     alike (snd (recencyExpr t col a)) (snd (recencyExpr t' col b))"
  using alike_add_arg [of a b "A_time t" "A_time t'"] by (auto simp: recencyExpr_def split: prod.split)

lemma alike_ts:
  assumes "alike a b" and "shape_of q = shape_of r"
  shows "fst (tsArgs q a) = fst (tsArgs r b) \<and> alike (snd (tsArgs q a)) (snd (tsArgs r b))"
proof -
  have s: "TSQuery q = [] \<longleftrightarrow> TSQuery r = []"
      "(Prefix q \<noteq> [] \<and> \<not> Excludes q) = (Prefix r \<noteq> [] \<and> \<not> Excludes r)"
    using assms(2) by (auto simp: shape_of_def)
  obtain x1 a1 x2 b1 where e: "add_arg (A_text (TSQuery q)) a = (x1, a1)" "add_arg (A_text (TSQuery r)) b = (x2, b1)"
    by fastforce
  have 1: "x1 = x2" "alike a1 b1" using alike_add_arg [OF assms(1), of "A_text (TSQuery q)" "A_text (TSQuery r)"] e by auto
  obtain y1 a2 y2 b2 where f: "add_arg (A_text (to_lower (Prefix q))) a1 = (y1, a2)"
      "add_arg (A_text (to_lower (Prefix r))) b1 = (y2, b2)"
    by fastforce
  have 2: "y1 = y2" "alike a2 b2"
    using alike_add_arg [OF 1(2), of "A_text (to_lower (Prefix q))" "A_text (to_lower (Prefix r))"] f by auto
  show ?thesis
    unfolding tsArgs_def Let_def e prod.case f s(2) using assms(1) s(1) 1 2 by simp
qed

lemma alike_priority:
  "map_option (\<lambda>c. compareOp (cm_Op c)) u = map_option (\<lambda>c. compareOp (cm_Op c)) v \<Longrightarrow> alike a b \<Longrightarrow>
     alike (write_priority u a) (write_priority v b)"
  by (cases u; cases v) (simp_all add: write_priority_def alike_write_arg)

lemma alike_if: "p = q \<Longrightarrow> alike a b \<Longrightarrow> alike c d \<Longrightarrow> alike (if p then a else c) (if q then b else d)"
  by simp

lemma shape_parts:
  assumes "shape_of q = shape_of r"
  shows "(qu_In q \<noteq> []) = (qu_In r \<noteq> [])" "qu_Is q = qu_Is r" "qu_Has q = qu_Has r"
    "(map_option A_time (qu_After q) = None) = (map_option A_time (qu_After r) = None)"
    "(map_option A_time (qu_Before q) = None) = (map_option A_time (qu_Before r) = None)"
    "map_option (\<lambda>c. compareOp (cm_Op c)) (qu_Priority q) = map_option (\<lambda>c. compareOp (cm_Op c)) (qu_Priority r)"
  using arg_cong [OF assms, of sh_In] arg_cong [OF assms, of sh_Is] arg_cong [OF assms, of sh_Has]
    arg_cong [OF assms, of sh_After] arg_cong [OF assms, of sh_Before] arg_cong [OF assms, of sh_Priority]
  by (simp_all add: shape_of_def del: not_None_eq)

lemma alike_event_where:
  assumes "shape_of q = shape_of r" and "alike a b"
  shows "alike (event_where q refs ht a) (event_where r refs ht b)"
  unfolding event_where_def Let_def shape_parts(2,3) [OF assms(1)]
  by (intro alike_write_opt alike_fold alike_if alike_write alike_write_arg shape_parts [OF assms(1)] assms(2) refl alike_flags)

lemma alike_todo_where:
  assumes "shape_of q = shape_of r" and "alike a b"
  shows "alike (todo_where q d refs ht a) (todo_where r d' refs ht b)"
  unfolding todo_where_def Let_def shape_parts(2,3) [OF assms(1)]
  by (intro alike_write_opt alike_priority alike_fold alike_if alike_write alike_write_arg shape_parts [OF assms(1)] assms(2) refl alike_flags)

lemma alike_events:
  assumes "alike a b" and "shape_of (sp_Query p) = shape_of (sp_Query p')"
  shows "alike (buildEvents p owner refs ht a) (buildEvents p' owner refs ht b)"
proof -
  obtain x a1 x' b1 where e: "recencyExpr (sp_Now p) ''e.start_at'' a = (x, a1)" "recencyExpr (sp_Now p') ''e.start_at'' b = (x', b1)"
    by fastforce
  have "x = x'" "alike a1 b1" using alike_recency [OF assms(1), of "sp_Now p" "''e.start_at''" "sp_Now p'"] e by auto
  then show ?thesis
    unfolding buildEvents_def e prod.case by (simp only: alike_event_where [OF assms(2)] alike_write)
qed

lemma alike_todos:
  assumes "alike a b" and "shape_of (sp_Query p) = shape_of (sp_Query p')"
  shows "alike (buildTodos p owner refs ht a) (buildTodos p' owner refs ht b)"
proof -
  obtain x a1 x' b1 where e: "recencyExpr (sp_Now p) ''t.due_date::timestamptz'' a = (x, a1)"
      "recencyExpr (sp_Now p') ''t.due_date::timestamptz'' b = (x', b1)"
    by fastforce
  have "x = x'" "alike a1 b1" using alike_recency [OF assms(1), of "sp_Now p" "''t.due_date::timestamptz''" "sp_Now p'"] e by auto
  then show ?thesis
    unfolding buildTodos_def e prod.case by (simp only: alike_todo_where [OF assms(2)] alike_write)
qed

text \<open>C32.
  The words, names, dates, limits and ids of a search never enter the text of the SQL statement: two
  searches with the same filters present give the same text and as many arguments, so what a user types
  reaches the database only as the value of a placeholder.
\<close>

theorem search_text_fixed:
  assumes "shape_of (sp_Query p) = shape_of (sp_Query p')"
  shows "fst (Build p) = fst (Build p') \<and> length (snd (Build p)) = length (snd (Build p'))"
proof -
  have s: "Wants (sp_Query p) TypeEvent = Wants (sp_Query p') TypeEvent" "Wants (sp_Query p) TypeTodo = Wants (sp_Query p') TypeTodo"
    using assms by (auto simp: shape_of_def)
  let ?z = "\<lparr>bu_sql = [], bu_args = []\<rparr> :: builder"
  obtain o1 a0 o2 b0 where e0: "add_arg (A_id (sp_Owner p)) ?z = (o1, a0)" "add_arg (A_id (sp_Owner p')) ?z = (o2, b0)"
    by fastforce
  have 0: "o1 = o2" "alike a0 b0"
    using alike_add_arg [OF alike_refl, of "A_id (sp_Owner p)" ?z "A_id (sp_Owner p')"] e0 by auto
  obtain r1 h1 a1 r2 h2 b1 where e1: "tsArgs (sp_Query p) a0 = ((r1, h1), a1)" "tsArgs (sp_Query p') b0 = ((r2, h2), b1)"
    by (metis surj_pair)
  have 1: "r1 = r2" "h1 = h2" "alike a1 b1" using alike_ts [OF 0(2) assms] e1 by auto
  define f where "f = (\<lambda>(p :: Search_Params) c. write_sql (nl @ '')'' @ nl @ selectHead @ '' FROM results ORDER BY rank DESC, starts DESC NULLS LAST, id DESC'')
     (let b3 = (if Wants (sp_Query p) TypeEvent then buildEvents p o2 r2 h2 (write_sql (''WITH results AS ('' @ nl) c) else write_sql (''WITH results AS ('' @ nl) c)
      in if Wants (sp_Query p) TypeTodo
         then buildTodos p o2 r2 h2 (if Wants (sp_Query p) TypeEvent then write_sql (nl @ ''UNION ALL'' @ nl) b3 else b3) else b3))"
  have f: "alike (f p a1) (f p' b1)"
    unfolding f_def Let_def s
    by (intro alike_write) (simp add: alike_todos [OF _ assms] alike_events [OF _ assms] alike_write 1(3))
  obtain l1 a2 l2 b2 where e2: "add_arg (A_int (sp_Limit p)) (f p a1) = (l1, a2)" "add_arg (A_int (sp_Limit p')) (f p' b1) = (l2, b2)"
    by fastforce
  have 2: "l1 = l2" "alike a2 b2" using alike_add_arg [OF f, of "A_int (sp_Limit p)" "A_int (sp_Limit p')"] e2 by auto
  obtain k1 a3 k2 b3 where e3: "add_arg (A_int (sp_Offset p)) a2 = (k1, a3)" "add_arg (A_int (sp_Offset p')) b2 = (k2, b3)"
    by fastforce
  have 3: "k1 = k2" "alike a3 b3" using alike_add_arg [OF 2(2), of "A_int (sp_Offset p)" "A_int (sp_Offset p')"] e3 by auto
  have "Build p = (bu_sql (write_sql ('' LIMIT '' @ l2 @ '' OFFSET '' @ k2) a3), bu_args (write_sql ('' LIMIT '' @ l2 @ '' OFFSET '' @ k2) a3))"
    using e0(1) e1(1) e2(1) e3(1) unfolding Build_def f_def 0(1) 1(1,2) 2(1) 3(1) Let_def by simp
  moreover have "Build p' = (bu_sql (write_sql ('' LIMIT '' @ l2 @ '' OFFSET '' @ k2) b3), bu_args (write_sql ('' LIMIT '' @ l2 @ '' OFFSET '' @ k2) b3))"
    using e0(2) e1(2) e2(2) e3(2) unfolding Build_def f_def Let_def by simp
  ultimately show ?thesis using 3(2) by (simp add: alike_def write_sql_def)
qed


lemma search_text_fixed_witness:
  "fst (Build \<lparr>sp_Owner = 1, sp_Query = Query0\<lparr>qu_Terms := [\<lparr>te_Text = ''a) OR 1=1'', te_Phrase = False, te_Negate = False\<rparr>],
        qu_In := [''work'']\<rparr>, sp_Now = 0, sp_Today = 0, sp_Limit = 26, sp_Offset = 0\<rparr>) =
   fst (Build \<lparr>sp_Owner = 2, sp_Query = Query0\<lparr>qu_Terms := [\<lparr>te_Text = ''b'', te_Phrase = False, te_Negate = False\<rparr>],
        qu_In := [''home'', ''x'']\<rparr>, sp_Now = 5, sp_Today = 0, sp_Limit = 11, sp_Offset = 10\<rparr>)"
  by (rule search_text_fixed [THEN conjunct1]) code_simp

end
