(* ===== verification/Accounts.thy ===== *)
theory Accounts
  imports Todo_Service Events View_Layout
begin

text \<open>
  Calendars, settings and share links: \<open>internal/service/calendars.go\<close>, \<open>settings.go\<close> and \<open>shares.go\<close> with
  their statements in \<open>internal/store/pg\<close> and the constraints of the migrations.  The tables of events
  and todos stand beside those of the share links and of the sleep schedule, because deleting a
  calendar reaches them all.  Fresh ids, tokens and nonces, the hash and the clock are arguments.
\<close>

subsection \<open>Tables\<close>

text \<open>A share keeps the calendars of \<open>share_link_calendars\<close> in its own list; its token is not stored.\<close>

record account_db =
  ad_todo :: todo_db
  ad_shares :: "Share list"
  ad_sleep :: "(go_id \<times> SleepWindow) list"

definition ad_cal :: "account_db \<Rightarrow> cal_db" where
  "ad_cal db = tb_cal (ad_todo db)"

definition set_ad_cal :: "account_db \<Rightarrow> cal_db \<Rightarrow> account_db" where
  "set_ad_cal db c = db\<lparr>ad_todo := (ad_todo db)\<lparr>tb_cal := c\<rparr>\<rparr>"

definition ad_now :: "account_db \<Rightarrow> go_time" where
  "ad_now db = cd_now (ad_cal db)"

definition ad_change :: "tx_ctx \<Rightarrow> account_db \<Rightarrow> Change \<Rightarrow> account_db" where
  "ad_change t db c = set_ad_cal db (recordChange t (ad_cal db) c)"

definition WithAccount :: "account_db \<Rightarrow> (account_db \<Rightarrow> go_error + 'a \<times> account_db) \<Rightarrow> (go_error + 'a) \<times> account_db" where
  "WithAccount db fn = (case fn db of Inl x \<Rightarrow> (Inl x, db) | Inr (r, db') \<Rightarrow> (Inr r, db'))"

subsection \<open>Calendars\<close>

definition CalendarLocal :: string where "CalendarLocal = ''local''"
definition CalendarSubscription :: string where "CalendarSubscription = ''subscription''"
definition DefaultCalendarColor :: string where "DefaultCalendarColor = ''#3b6ea5''"
definition MaxCalendars :: int where "MaxCalendars = 100"

definition calendar_check :: "Calendar \<Rightarrow> bool" where
  "calendar_check c \<longleftrightarrow> 1 \<le> rune_count (cal_Name c) \<and> rune_count (cal_Name c) \<le> 100 \<and> colorPattern (cal_Color c) \<and>
     rune_count (cal_Description c) \<le> 2000 \<and> cal_Kind c \<in> {CalendarLocal, CalendarSubscription} \<and>
     length (cal_DefaultReminders c) \<le> MaxReminders \<and>
     list_all (\<lambda>m. 0 \<le> m \<and> m \<le> MaxReminderMinutes) (cal_DefaultReminders c) \<and>
     (cal_IsDefault c \<longrightarrow> cal_Kind c = CalendarLocal \<and> \<not> cal_ReadOnly c)"

definition calendar_keys :: "Calendar list \<Rightarrow> bool" where
  "calendar_keys cs \<longleftrightarrow> distinct (map cal_ID cs) \<and> distinct (map cal_OwnerID (filter cal_IsDefault cs))"

definition calendar_refs :: "User list \<Rightarrow> Calendar list \<Rightarrow> bool" where
  "calendar_refs users cs \<longleftrightarrow> list_all (\<lambda>c. cal_OwnerID c \<in> us_ID ` set users) cs"

definition commit_calendars :: "account_db \<Rightarrow> Calendar list \<Rightarrow> go_error + account_db" where
  "commit_calendars db cs =
     (if \<not> list_all calendar_check cs then Inl (Wrap ErrInvalid ''check violation'')
      else if \<not> calendar_keys cs then Inl (Wrap ErrConflict ''unique violation'')
      else if \<not> calendar_refs (cd_users (ad_cal db)) cs then Inl (Wrap ErrNotFound ''foreign key violation'')
      else Inr (set_ad_cal db ((ad_cal db)\<lparr>cd_calendars := cs\<rparr>)))"

definition CountCalendars :: "account_db \<Rightarrow> go_id \<Rightarrow> int" where
  "CountCalendars db owner = int (length (filter (\<lambda>c. cal_OwnerID c = owner) (cd_calendars (ad_cal db))))"

definition Calendar_get :: "account_db \<Rightarrow> go_id \<Rightarrow> go_id \<Rightarrow> go_error + Calendar" where
  "Calendar_get db owner i =
     (case find (\<lambda>c. cal_ID c = i \<and> cal_OwnerID c = owner) (cd_calendars (ad_cal db)) of
        None \<Rightarrow> Inl (Wrap ErrNotFound []) | Some c \<Rightarrow> Inr c)"

text \<open>\<open>coalesce(max(position), -1) + 1\<close>.\<close>

definition NextCalendarPosition :: "account_db \<Rightarrow> go_id \<Rightarrow> int" where
  "NextCalendarPosition db owner =
     (case map cal_Position (filter (\<lambda>c. cal_OwnerID c = owner) (cd_calendars (ad_cal db))) of
        [] \<Rightarrow> - 1 | p # ps \<Rightarrow> fold max ps p) + 1"

definition calendarChange :: "Calendar \<Rightarrow> string \<Rightarrow> Change" where
  "calendarChange c op = Change0\<lparr>ch_OwnerID := cal_OwnerID c, ch_Entity := ''calendar'', ch_EntityID := cal_ID c, ch_Op := op,
     ch_CalendarID := Some (cal_ID c)\<rparr>"

definition CreateCalendar :: "tx_ctx \<Rightarrow> account_db \<Rightarrow> Calendar \<Rightarrow> (go_error + Calendar) \<times> account_db" where
  "CreateCalendar t db c =
     WithAccount db (\<lambda>db.
       let pos = (if cal_Position c < 0 then NextCalendarPosition db (cal_OwnerID c) else cal_Position c);
           row = c\<lparr>cal_Position := wrap32 pos, cal_DefaultReminders := map wrap32 (cal_DefaultReminders c), cal_IsDefault := False,
                   cal_CreatedAt := ad_now db, cal_UpdatedAt := ad_now db\<rparr>
       in case commit_calendars db (cd_calendars (ad_cal db) @ [row]) of
            Inl e \<Rightarrow> Inl e | Inr db1 \<Rightarrow> Inr (row, ad_change t db1 (calendarChange row ''create'')))"

definition calendar_row :: "account_db \<Rightarrow> Calendar \<Rightarrow> Calendar \<Rightarrow> Calendar" where
  "calendar_row db c c1 =
     c\<lparr>cal_Name := cal_Name c1, cal_Color := cal_Color c1, cal_Description := cal_Description c1, cal_Timezone := cal_Timezone c1,
       cal_Hidden := cal_Hidden c1, cal_Position := wrap32 (cal_Position c1),
       cal_DefaultReminders := map wrap32 (cal_DefaultReminders c1), cal_UpdatedAt := ad_now db\<rparr>"

definition UpdateCalendar ::
  "tx_ctx \<Rightarrow> account_db \<Rightarrow> go_id \<Rightarrow> (Calendar \<Rightarrow> go_error + Calendar) \<Rightarrow> (go_error + Calendar) \<times> account_db" where
  "UpdateCalendar t db i fn =
     WithAccount db (\<lambda>db.
       case Calendar_get db (tx_owner t) i of
         Inl e \<Rightarrow> Inl e
       | Inr c \<Rightarrow>
           (case fn c of
              Inl e \<Rightarrow> Inl e
            | Inr c1 \<Rightarrow>
                let row = calendar_row db c c1
                in case commit_calendars db (map (\<lambda>r. if cal_ID r = i \<and> cal_OwnerID r = tx_owner t then row else r) (cd_calendars (ad_cal db))) of
                     Inl e \<Rightarrow> Inl e | Inr db1 \<Rightarrow> Inr (row, ad_change t db1 (calendarChange row ''update''))))"

text \<open>
  \<open>ON DELETE CASCADE\<close>: the events of the calendar go with it, its place in every share link, and the
  bindings that synchronise it with their mappings and queue.
\<close>

definition drop_calendar :: "account_db \<Rightarrow> go_id \<Rightarrow> account_db" where
  "drop_calendar db i =
     (let c = ad_cal db;
          gone = sb_ID ` set (filter (\<lambda>b. sb_CalendarID b = Some i) (cd_bindings c));
          c1 = c\<lparr>cd_calendars := filter (\<lambda>x. cal_ID x \<noteq> i) (cd_calendars c),
                 cd_events := filter (\<lambda>(e, s). ev_CalendarID e \<noteq> i) (cd_events c),
                 cd_bindings := filter (\<lambda>b. sb_ID b \<notin> gone) (cd_bindings c),
                 cd_mappings := filter (\<lambda>m. sm_BindingID m \<notin> gone) (cd_mappings c),
                 cd_outbox := filter (\<lambda>x. ob_BindingID x \<notin> gone) (cd_outbox c)\<rparr>
      in (set_ad_cal db c1)\<lparr>ad_shares := map (\<lambda>s. s\<lparr>sh_Calendars := filter (\<lambda>x. x \<noteq> i) (sh_Calendars s)\<rparr>) (ad_shares db)\<rparr>)"

definition DeleteCalendar :: "tx_ctx \<Rightarrow> account_db \<Rightarrow> go_id \<Rightarrow> (Calendar \<Rightarrow> go_error option) \<Rightarrow> (go_error + unit) \<times> account_db" where
  "DeleteCalendar t db i fn =
     WithAccount db (\<lambda>db.
       case Calendar_get db (tx_owner t) i of
         Inl e \<Rightarrow> Inl e
       | Inr c \<Rightarrow>
           (case fn c of
              Some e \<Rightarrow> Inl e
            | None \<Rightarrow> if cal_IsDefault c then Inl (Wrap ErrNotFound [])
                     else Inr ((), ad_change t (drop_calendar db i) (calendarChange c ''delete''))))"

definition applyCalendar :: "service_env \<Rightarrow> Calendar \<Rightarrow> CalendarPatch \<Rightarrow> go_error + Calendar" where
  "applyCalendar env c p =
     (case applyNamed [] (calp_Name p) (calp_Color p) (calp_Position p) (cal_Name c, cal_Color c, cal_Position c) of (v0, n, col, pos) \<Rightarrow>
      case Value (calp_Description p) v0 ''description'' of (v1, d) \<Rightarrow>
      let desc = (case d of None \<Rightarrow> cal_Description c | Some x \<Rightarrow> trim_space x);
          tz0 = trim_space (opt_V (calp_Timezone p)) in
      case (if \<not> opt_Set (calp_Timezone p) then (v1, cal_Timezone c)
            else if opt_Null (calp_Timezone p) \<or> tz0 = [] then (v1, [])
            else if ValidTimezone (en_zones env) tz0 then (v1, tz0)
            else (Add v1 ''timezone'' ''unknown timezone'', cal_Timezone c)) of (v2, tz) \<Rightarrow>
      case Value (calp_Hidden p) v2 ''hidden'' of (v3, h) \<Rightarrow>
      case Value (calp_DefaultReminders p) v3 ''default_reminders'' of (v4, r) \<Rightarrow>
      case (case r of None \<Rightarrow> (v4, cal_DefaultReminders c) | Some x \<Rightarrow> NormalizeReminders v4 ''default_reminders'' x) of (v5, rem) \<Rightarrow>
      case Domain.Err (Length (Length v5 ''name'' n 1 100) ''description'' desc 0 2000) of
        Some e \<Rightarrow> Inl e
      | None \<Rightarrow> Inr (c\<lparr>cal_Name := n, cal_Color := col, cal_Position := pos, cal_Description := desc, cal_Timezone := tz,
                  cal_Hidden := (case h of None \<Rightarrow> cal_Hidden c | Some x \<Rightarrow> x), cal_DefaultReminders := rem\<rparr>))"

definition Calendars_Create :: "tx_ctx \<Rightarrow> account_db \<Rightarrow> go_id \<Rightarrow> CalendarPatch \<Rightarrow> (go_error + Calendar) \<times> account_db" where
  "Calendars_Create t db fresh p =
     (if CountCalendars db (tx_owner t) \<ge> MaxCalendars
      then (Inl (Wrap ErrConflict (''an account can have at most '' @ itoa MaxCalendars @ '' calendars'')), db)
      else case applyCalendar (tx_env t) (Calendar0\<lparr>cal_ID := fresh, cal_OwnerID := tx_owner t, cal_Color := DefaultCalendarColor,
                   cal_Kind := CalendarLocal, cal_Position := - 1, cal_DefaultReminders := []\<rparr>) p of
             Inl e \<Rightarrow> (Inl e, db)
           | Inr c \<Rightarrow> CreateCalendar t db c)"

definition Calendars_Update :: "tx_ctx \<Rightarrow> account_db \<Rightarrow> go_id \<Rightarrow> CalendarPatch \<Rightarrow> string \<Rightarrow> (go_error + Calendar) \<times> account_db" where
  "Calendars_Update t db i p ifMatch =
     UpdateCalendar t db i (\<lambda>c. case CheckIfMatch ifMatch (Calendar_ETag c) of Some e \<Rightarrow> Inl e | None \<Rightarrow> applyCalendar (tx_env t) c p)"

definition Calendars_Delete :: "tx_ctx \<Rightarrow> account_db \<Rightarrow> go_id \<Rightarrow> string \<Rightarrow> (go_error + unit) \<times> account_db" where
  "Calendars_Delete t db i ifMatch =
     DeleteCalendar t db i (\<lambda>c. if cal_IsDefault c then Some (Wrap ErrConflict ''the default calendar cannot be deleted'')
       else CheckIfMatch ifMatch (Calendar_ETag c))"

subsection \<open>Settings\<close>

definition TimeFormats :: "string list" where "TimeFormats = [''12h'', ''24h'']"
definition Views :: "string list" where "Views = [''day'', ''3day'', ''week'', ''month'', ''year'', ''agenda'']"
definition DedupPolicies :: "string list" where "DedupPolicies = [''off'', ''flag'', ''auto_exact'', ''auto_fingerprint'']"

record SleepWindowInput =
  wi_Weekday :: int
  wi_Start :: string
  wi_End :: string

record SleepInput =
  si_Enabled :: bool
  si_Windows :: "SleepWindowInput list"

record SettingsPatch =
  stp_DisplayName :: "string Opt"
  stp_Timezone :: "string Opt"
  stp_WeekStart :: "int Opt"
  stp_TimeFormat :: "string Opt"
  stp_DefaultView :: "string Opt"
  stp_DedupPolicy :: "string Opt"
  stp_DateOnlyReminder :: "string Opt"
  stp_Sleep :: "SleepInput Opt"

text \<open>The loop over the windows of the input, \<open>k\<close> counting from 1.\<close>

fun sleep_loop :: "ValidationError \<Rightarrow> int \<Rightarrow> int list \<Rightarrow> SleepWindow list \<Rightarrow> SleepWindowInput list \<Rightarrow> ValidationError \<times> SleepWindow list" where
  "sleep_loop v k seen out [] = (v, out)"
| "sleep_loop v k seen out (w # ws) =
     (let fail = (\<lambda>msg. Add v ''sleep'' (''window '' @ itoa k @ '': '' @ msg)); d = wi_Weekday w in
      if d < 0 \<or> d > 6 then sleep_loop (fail ''weekday must be between 0 and 6'') (k + 1) seen out ws
      else if d \<in> set seen then sleep_loop (fail (''weekday '' @ itoa d @ '' is listed twice'')) (k + 1) seen out ws
      else case (ParseClock (wi_Start w), ParseClock (wi_End w)) of
        (Some a, Some b) \<Rightarrow>
          if a = b then sleep_loop (fail ''start and end must differ'') (k + 1) seen out ws
          else sleep_loop v (k + 1) (d # seen) (out @ [\<lparr>sw_Weekday = d, sw_Start = a, sw_End = b\<rparr>]) ws
      | _ \<Rightarrow> sleep_loop (fail ''start and end must be times like 23:30'') (k + 1) seen out ws)"

definition sleepWindows :: "ValidationError \<Rightarrow> SleepWindowInput list \<Rightarrow> ValidationError \<times> SleepWindow list" where
  "sleepWindows v ws = (case sleep_loop v 1 [] [] ws of (v1, out) \<Rightarrow> (v1, sort_key sw_Weekday out))"

definition applySettings :: "service_env \<Rightarrow> User \<times> SleepWindow list \<Rightarrow> SettingsPatch \<Rightarrow> go_error + User \<times> SleepWindow list" where
  "applySettings env uw p =
     (case uw of (u, ws) \<Rightarrow>
      case Value (stp_DisplayName p) [] ''display_name'' of (v1, dn) \<Rightarrow>
      let u1 = (case dn of None \<Rightarrow> u | Some x \<Rightarrow> u\<lparr>us_DisplayName := trim_space x\<rparr>) in
      case Value (stp_Timezone p) v1 ''timezone'' of (v2, tz) \<Rightarrow>
      case (case tz of None \<Rightarrow> (v2, u1)
            | Some x \<Rightarrow> if ValidTimezone (en_zones env) (trim_space x) then (v2, u1\<lparr>us_Timezone := trim_space x\<rparr>)
                       else (Add v2 ''timezone'' ''unknown timezone'', u1)) of (v3, u2) \<Rightarrow>
      case Value (stp_WeekStart p) v3 ''week_start'' of (v4, wk) \<Rightarrow>
      case (case wk of None \<Rightarrow> (v4, u2)
            | Some x \<Rightarrow> if x < 0 \<or> x > 6 then (Add v4 ''week_start'' ''must be between 0 for Sunday and 6 for Saturday'', u2)
                       else (v4, u2\<lparr>us_WeekStart := x\<rparr>)) of (v5, u3) \<Rightarrow>
      case choice v5 (stp_TimeFormat p) ''time_format'' (us_TimeFormat u3) TimeFormats of (v6, tf) \<Rightarrow>
      case choice v6 (stp_DefaultView p) ''default_view'' (us_DefaultView u3) Views of (v7, dv) \<Rightarrow>
      case choice v7 (stp_DedupPolicy p) ''dedup_policy'' (us_DedupPolicy u3) DedupPolicies of (v8, dp) \<Rightarrow>
      let u4 = u3\<lparr>us_TimeFormat := tf, us_DefaultView := dv, us_DedupPolicy := dp\<rparr> in
      case Value (stp_DateOnlyReminder p) v8 ''date_only_reminder'' of (v9, rm) \<Rightarrow>
      case (case rm of None \<Rightarrow> (v9, u4)
            | Some x \<Rightarrow> (case ParseClock x of Some m \<Rightarrow> (v9, u4\<lparr>us_DateOnlyReminder := m\<rparr>)
                       | None \<Rightarrow> (Add v9 ''date_only_reminder'' ''must be a time like 09:00'', u4))) of (v10, u5) \<Rightarrow>
      case Value (stp_Sleep p) v10 ''sleep'' of (v11, sl) \<Rightarrow>
      case (case sl of None \<Rightarrow> (v11, u5, ws)
            | Some x \<Rightarrow> (case sleepWindows v11 (si_Windows x) of (w, out) \<Rightarrow> (w, u5\<lparr>us_SleepEnabled := si_Enabled x\<rparr>, out))) of (v12, u6, ws1) \<Rightarrow>
      let v13 = Length v12 ''display_name'' (us_DisplayName u6) 0 100;
          v14 = (if us_SleepEnabled u6 \<and> ws1 = [] \<and> \<not> hasField v13 ''sleep''
                 then Add v13 ''sleep'' ''needs at least one window when enabled'' else v13)
      in case Domain.Err v14 of Some e \<Rightarrow> Inl e | None \<Rightarrow> Inr (u6, ws1))"

definition user_check :: "User \<Rightarrow> bool" where
  "user_check u \<longleftrightarrow> 3 \<le> rune_count (us_Email u) \<and> rune_count (us_Email u) \<le> 254 \<and> rune_count (us_DisplayName u) \<le> 100 \<and>
     0 \<le> us_WeekStart u \<and> us_WeekStart u \<le> 6 \<and> us_TimeFormat u \<in> set TimeFormats \<and> us_DefaultView u \<in> set Views \<and>
     us_DedupPolicy u \<in> set DedupPolicies"

definition sleep_check :: "go_id \<times> SleepWindow \<Rightarrow> bool" where
  "sleep_check w \<longleftrightarrow> 0 \<le> sw_Weekday (snd w) \<and> sw_Weekday (snd w) \<le> 6 \<and> sw_Start (snd w) \<noteq> sw_End (snd w)"

definition sleep_keys :: "(go_id \<times> SleepWindow) list \<Rightarrow> bool" where
  "sleep_keys ws \<longleftrightarrow> distinct (map (\<lambda>(u, w). (u, sw_Weekday w)) ws)"

definition SleepSchedule :: "account_db \<Rightarrow> go_id \<Rightarrow> SleepWindow list" where
  "SleepSchedule db user = sort_key sw_Weekday (map snd (filter (\<lambda>(u, w). u = user) (ad_sleep db)))"

definition replaceSleep :: "account_db \<Rightarrow> go_id \<Rightarrow> SleepWindow list \<Rightarrow> go_error + account_db" where
  "replaceSleep db user ws =
     (let rws = filter (\<lambda>(u, w). u \<noteq> user) (ad_sleep db) @ map (Pair user) ws in
      if \<not> list_all sleep_check rws then Inl (Wrap ErrInvalid ''check violation'')
      else if \<not> sleep_keys rws then Inl (Wrap ErrConflict ''unique violation'')
      else Inr (db\<lparr>ad_sleep := rws\<rparr>))"

definition settings_row :: "account_db \<Rightarrow> User \<Rightarrow> User \<Rightarrow> User" where
  "settings_row db row u =
     row\<lparr>us_DisplayName := us_DisplayName u, us_Timezone := us_Timezone u, us_WeekStart := wrap16 (us_WeekStart u),
         us_TimeFormat := us_TimeFormat u, us_DefaultView := us_DefaultView u, us_SleepEnabled := us_SleepEnabled u,
         us_DedupPolicy := us_DedupPolicy u, us_DateOnlyReminder := us_DateOnlyReminder u, us_UpdatedAt := ad_now db\<rparr>"

definition UpdateSettings ::
  "tx_ctx \<Rightarrow> account_db \<Rightarrow> (User \<times> SleepWindow list \<Rightarrow> go_error + User \<times> SleepWindow list) \<Rightarrow>
     (go_error + User \<times> SleepWindow list) \<times> account_db" where
  "UpdateSettings t db fn =
     WithAccount db (\<lambda>db.
       case find (\<lambda>u. us_ID u = tx_owner t) (cd_users (ad_cal db)) of
         None \<Rightarrow> Inl (Wrap ErrNotFound [])
       | Some row \<Rightarrow>
           let cur = SleepSchedule db (tx_owner t) in
           (case fn (row, cur) of
              Inl e \<Rightarrow> Inl e
            | Inr (u, ws) \<Rightarrow>
                let row1 = settings_row db row u in
                if \<not> user_check row1 then Inl (Wrap ErrInvalid ''check violation'')
                else let db1 = set_ad_cal db ((ad_cal db)\<lparr>cd_users := map (\<lambda>x. if us_ID x = tx_owner t then row1 else x) (cd_users (ad_cal db))\<rparr>)
                in (case (if cur = ws then Inr db1 else replaceSleep db1 (tx_owner t) ws) of
                      Inl e \<Rightarrow> Inl e
                    | Inr db2 \<Rightarrow> Inr ((u\<lparr>us_UpdatedAt := ad_now db\<rparr>, ws),
                        ad_change t db2 (Change0\<lparr>ch_OwnerID := tx_owner t, ch_Entity := ''settings'', ch_EntityID := tx_owner t, ch_Op := ''update''\<rparr>)))))"

definition Settings_Update :: "tx_ctx \<Rightarrow> account_db \<Rightarrow> SettingsPatch \<Rightarrow> string \<Rightarrow> (go_error + User \<times> SleepWindow list) \<times> account_db" where
  "Settings_Update t db p ifMatch =
     UpdateSettings t db (\<lambda>(u, ws). case CheckIfMatch ifMatch (User_ETag u) of Some e \<Rightarrow> Inl e | None \<Rightarrow> applySettings (tx_env t) (u, ws) p)"

end
