(* ===== verification/Shares.thy ===== *)
theory Shares
  imports Accounts View_Pages Crypto
begin

text \<open>
  Share links: the table of \<open>internal/store/pg/shares.go\<close> with the constraints of
  \<open>migrations/000011_shares.up.sql\<close> and the service of \<open>internal/service/shares.go\<close>.  Random tokens and
  nonces, the hash of a token and the cipher are arguments.
\<close>

definition DetailBusy :: string where "DetailBusy = ''busy''"
definition DetailTitles :: string where "DetailTitles = ''titles''"
definition DetailFull :: string where "DetailFull = ''full''"
definition ShareTZOwner :: string where "ShareTZOwner = ''owner''"
definition ShareTZViewer :: string where "ShareTZViewer = ''viewer''"
definition MaxShares :: int where "MaxShares = 100"
definition ShareViews :: "string list" where "ShareViews = Views"
definition ShareDetails :: "string list" where "ShareDetails = [DetailBusy, DetailTitles, DetailFull]"
definition ShareTZModes :: "string list" where "ShareTZModes = [ShareTZOwner, ShareTZViewer]"

record SharePatch =
  shp_Name :: "string Opt"
  shp_View :: "string Opt"
  shp_Period :: "string Opt"
  shp_Calendars :: "string list Opt"
  shp_Detail :: "string Opt"
  shp_IncludeTodos :: "bool Opt"
  shp_ShowSleep :: "bool Opt"
  shp_TZMode :: "string Opt"

subsection \<open>The table\<close>

definition share_check :: "Share \<Rightarrow> bool" where
  "share_check s \<longleftrightarrow> 1 \<le> rune_count (sh_Name s) \<and> rune_count (sh_Name s) \<le> 100 \<and> sh_View s \<in> set Views \<and>
     sh_Detail s \<in> set ShareDetails \<and> sh_TZMode s \<in> set ShareTZModes"

definition share_keys :: "Share list \<Rightarrow> bool" where
  "share_keys ss \<longleftrightarrow> distinct (map sh_ID ss) \<and> distinct (map sh_TokenHash ss) \<and> list_all (\<lambda>s. distinct (sh_Calendars s)) ss"

definition share_refs :: "User list \<Rightarrow> Calendar list \<Rightarrow> Share list \<Rightarrow> bool" where
  "share_refs users cals ss \<longleftrightarrow> list_all (\<lambda>s. sh_OwnerID s \<in> us_ID ` set users \<and>
     list_all (\<lambda>i. list_ex (\<lambda>c. cal_ID c = i \<and> cal_OwnerID c = sh_OwnerID s) cals) (sh_Calendars s)) ss"

definition commit_shares :: "account_db \<Rightarrow> Share list \<Rightarrow> go_error + account_db" where
  "commit_shares db ss =
     (if \<not> list_all share_check ss then Inl (Wrap ErrInvalid ''check violation'')
      else if \<not> share_keys ss then Inl (Wrap ErrConflict ''unique violation'')
      else if \<not> share_refs (cd_users (ad_cal db)) (cd_calendars (ad_cal db)) ss then Inl (Wrap ErrNotFound ''foreign key violation'')
      else Inr (db\<lparr>ad_shares := ss\<rparr>))"

definition ListShares :: "account_db \<Rightarrow> go_id \<Rightarrow> Share list" where
  "ListShares db owner = sort_key (\<lambda>s. - sh_CreatedAt s) (sort_key sh_ID (filter (\<lambda>s. sh_OwnerID s = owner) (ad_shares db)))"

definition CountShares :: "account_db \<Rightarrow> go_id \<Rightarrow> int" where
  "CountShares db owner = int (length (filter (\<lambda>s. sh_OwnerID s = owner) (ad_shares db)))"

definition Share_get :: "account_db \<Rightarrow> go_id \<Rightarrow> go_id \<Rightarrow> go_error + Share" where
  "Share_get db owner i =
     (case find (\<lambda>s. sh_ID s = i \<and> sh_OwnerID s = owner) (ad_shares db) of None \<Rightarrow> Inl (Wrap ErrNotFound []) | Some s \<Rightarrow> Inr s)"

definition user_enabled :: "account_db \<Rightarrow> go_id \<Rightarrow> bool" where
  "user_enabled db i = list_ex (\<lambda>u. us_ID u = i \<and> us_DisabledAt u = None) (cd_users (ad_cal db))"

definition ShareByTokenHash :: "account_db \<Rightarrow> string \<Rightarrow> go_error + Share" where
  "ShareByTokenHash db h =
     (case find (\<lambda>s. sh_TokenHash s = h \<and> sh_RevokedAt s = None \<and> user_enabled db (sh_OwnerID s)) (ad_shares db) of
        None \<Rightarrow> Inl (Wrap ErrNotFound []) | Some s \<Rightarrow> Inr s)"

definition shareChange :: "Share \<Rightarrow> string \<Rightarrow> Change" where
  "shareChange s op = Change0\<lparr>ch_OwnerID := sh_OwnerID s, ch_Entity := ''share'', ch_EntityID := sh_ID s, ch_Op := op\<rparr>"

definition CreateShare :: "tx_ctx \<Rightarrow> account_db \<Rightarrow> Share \<Rightarrow> (go_error + Share) \<times> account_db" where
  "CreateShare t db s =
     WithAccount db (\<lambda>db.
       let row = s\<lparr>sh_Token := [], sh_Period := db_date (sh_Period s), sh_Calendars := sort (sh_Calendars s), sh_Version := 1,
                   sh_AccessCount := 0, sh_LastAccessedAt := None, sh_CreatedAt := ad_now db, sh_UpdatedAt := ad_now db,
                   sh_RevokedAt := None\<rparr>
       in case commit_shares db (ad_shares db @ [row]) of
            Inl e \<Rightarrow> Inl e | Inr db1 \<Rightarrow> Inr (row, ad_change t db1 (shareChange s ''create'')))"

definition share_row :: "account_db \<Rightarrow> Share \<Rightarrow> Share \<Rightarrow> Share" where
  "share_row db s s1 =
     s\<lparr>sh_Name := sh_Name s1, sh_TokenHash := sh_TokenHash s1, sh_TokenEnc := sh_TokenEnc s1, sh_Detail := sh_Detail s1,
       sh_IncludeTodos := sh_IncludeTodos s1, sh_ShowSleep := sh_ShowSleep s1, sh_TZMode := sh_TZMode s1,
       sh_Calendars := sort (sh_Calendars s1), sh_RevokedAt := map_option db_time (sh_RevokedAt s1),
       sh_Version := wrap32 (sh_Version s + 1), sh_UpdatedAt := ad_now db\<rparr>"

definition UpdateShare ::
  "tx_ctx \<Rightarrow> account_db \<Rightarrow> go_id \<Rightarrow> (Share \<Rightarrow> go_error + Share) \<Rightarrow> (go_error + Share) \<times> account_db" where
  "UpdateShare t db i fn =
     WithAccount db (\<lambda>db.
       case Share_get db (tx_owner t) i of
         Inl e \<Rightarrow> Inl e
       | Inr s \<Rightarrow>
           (case fn s of
              Inl e \<Rightarrow> Inl e
            | Inr s1 \<Rightarrow>
                let row = share_row db s s1
                in case commit_shares db (map (\<lambda>r. if sh_ID r = i \<and> sh_OwnerID r = tx_owner t then row else r) (ad_shares db)) of
                     Inl e \<Rightarrow> Inl e | Inr db1 \<Rightarrow> Inr (row, ad_change t db1 (shareChange s1 ''update''))))"

definition TouchShare :: "account_db \<Rightarrow> go_id \<Rightarrow> go_time \<Rightarrow> account_db" where
  "TouchShare db i now =
     db\<lparr>ad_shares := map (\<lambda>s. if sh_ID s = i
          then s\<lparr>sh_AccessCount := sh_AccessCount s + 1, sh_LastAccessedAt := Some (db_time now)\<rparr> else s) (ad_shares db)\<rparr>"

subsection \<open>The service\<close>

definition shareTokenLen :: nat where "shareTokenLen = 43"

record share_env =
  sv_HashToken :: "string \<Rightarrow> string"
  sv_prims :: primitives
  sv_keys :: KeyRing

text \<open>What one issue draws at random: the token and the nonce of its sealed copy.\<close>

record share_fresh =
  sf_token :: string
  sf_nonce :: string

definition shareAAD :: "tx_ctx \<Rightarrow> go_id \<Rightarrow> string" where
  "shareAAD t i = AAD [''share_token'', en_id_text (tx_env t) i]"

definition issue_share :: "share_env \<Rightarrow> tx_ctx \<Rightarrow> share_fresh \<Rightarrow> Share \<Rightarrow> Share" where
  "issue_share v t f s =
     s\<lparr>sh_Token := sf_token f, sh_TokenHash := sv_HashToken v (sf_token f),
       sh_TokenEnc := Seal (sv_prims v) (sv_keys v) (sf_nonce f) (sf_token f) (shareAAD t (sh_ID s))\<rparr>"

definition reveal :: "share_env \<Rightarrow> tx_ctx \<Rightarrow> Share \<Rightarrow> Share" where
  "reveal v t s =
     (if \<not> Share_Active s \<or> sh_TokenEnc s = [] then s
      else case Crypto.Open (sv_prims v) (sv_keys v) (sh_TokenEnc s) (shareAAD t (sh_ID s)) of
             Inl e \<Rightarrow> s | Inr tok \<Rightarrow> s\<lparr>sh_Token := tok\<rparr>)"

definition ValidShareToken :: "string \<Rightarrow> bool" where
  "ValidShareToken s \<longleftrightarrow> length s = shareTokenLen \<and>
     list_all (\<lambda>c. CHR ''0'' \<le> c \<and> c \<le> CHR ''9'' \<or> CHR ''A'' \<le> c \<and> c \<le> CHR ''Z'' \<or> CHR ''a'' \<le> c \<and> c \<le> CHR ''z'' \<or>
                    c = CHR ''-'' \<or> c = CHR ''_'') s"

text \<open>The ids of the request, in their order and once each; \<open>None\<close> when one is not a calendar of the owner.\<close>

fun known_ids :: "(string \<Rightarrow> go_id option) \<Rightarrow> go_id set \<Rightarrow> go_id list \<Rightarrow> string list \<Rightarrow> go_id list option" where
  "known_ids parse known out [] = Some out"
| "known_ids parse known out (r # rs) =
     (case parse (trim_space r) of
        None \<Rightarrow> None
      | Some i \<Rightarrow> if i \<notin> known then None
                 else known_ids parse known (if i \<in> set out then out else out @ [i]) rs)"

definition calendarIDs :: "tx_ctx \<Rightarrow> account_db \<Rightarrow> go_id \<Rightarrow> string list \<Rightarrow> go_id list option" where
  "calendarIDs t db owner ids = known_ids (en_ParseID (tx_env t)) (cal_ID ` set (ListCalendars (ad_cal db) owner)) [] ids"

definition share_period :: "ValidationError \<Rightarrow> SharePatch \<Rightarrow> bool \<Rightarrow> Share \<Rightarrow> ValidationError \<times> Share" where
  "share_period v p isNew s =
     (if isNew then
        let kind = trim_space (opt_V (shp_View p)) in
        case (if kind \<in> set ShareViews then (v, s\<lparr>sh_View := kind\<rparr>)
              else (Add v ''view'' (''must be one of '' @ join ShareViews '', ''), s)) of (v1, s1) \<Rightarrow>
        (case parseDate (opt_V (shp_Period p)) of
           Some d \<Rightarrow> (v1, s1\<lparr>sh_Period := d\<rparr>)
         | None \<Rightarrow> (Add v1 ''period'' ''must be a date like 2026-09-07'', s1))
      else if opt_Set (shp_View p) \<or> opt_Set (shp_Period p)
        then (Add v ''view'' ''cannot be changed, create a new link for another period'', s)
      else (v, s))"

definition share_calendars :: "tx_ctx \<Rightarrow> account_db \<Rightarrow> ValidationError \<Rightarrow> SharePatch \<Rightarrow> Share \<Rightarrow> ValidationError \<times> Share" where
  "share_calendars t db v p s =
     (case Value (shp_Calendars p) v ''calendars'' of
        (v1, None) \<Rightarrow> (v1, s)
      | (v1, Some ids) \<Rightarrow>
          (case calendarIDs t db (sh_OwnerID s) ids of
             Some out \<Rightarrow> (v1, s\<lparr>sh_Calendars := out\<rparr>)
           | None \<Rightarrow> (Add v1 ''calendars'' ''contains an unknown calendar'', s)))"

definition apply_share :: "tx_ctx \<Rightarrow> account_db \<Rightarrow> Share \<Rightarrow> SharePatch \<Rightarrow> bool \<Rightarrow> go_error + Share" where
  "apply_share t db s p isNew =
     (case Value (shp_Name p) [] ''name'' of (v1, n) \<Rightarrow>
      let s1 = (case n of None \<Rightarrow> s | Some x \<Rightarrow> s\<lparr>sh_Name := trim_space x\<rparr>) in
      case share_period v1 p isNew s1 of (v2, s2) \<Rightarrow>
      case choice v2 (shp_Detail p) ''detail'' (sh_Detail s2) ShareDetails of (v3, det) \<Rightarrow>
      case choice v3 (shp_TZMode p) ''tz_mode'' (sh_TZMode s2) ShareTZModes of (v4, tzm) \<Rightarrow>
      case Value (shp_IncludeTodos p) v4 ''include_todos'' of (v5, inc) \<Rightarrow>
      case Value (shp_ShowSleep p) v5 ''show_sleep'' of (v6, slp) \<Rightarrow>
      let s3 = s2\<lparr>sh_Detail := det, sh_TZMode := tzm,
                  sh_IncludeTodos := (case inc of None \<Rightarrow> sh_IncludeTodos s2 | Some x \<Rightarrow> x),
                  sh_ShowSleep := (case slp of None \<Rightarrow> sh_ShowSleep s2 | Some x \<Rightarrow> x)\<rparr> in
      case share_calendars t db v6 p s3 of (v7, s4) \<Rightarrow>
      let v8 = Length v7 ''name'' (sh_Name s4) 1 100;
          v9 = (if sh_Calendars s4 = [] \<and> \<not> sh_IncludeTodos s4 \<and> \<not> hasField v8 ''calendars''
                then Add v8 ''calendars'' ''choose at least one calendar or include todos'' else v8)
      in case Domain.Err v9 of Some e \<Rightarrow> Inl e | None \<Rightarrow> Inr s4)"

definition Share0 :: "go_id \<Rightarrow> go_id \<Rightarrow> Share" where
  "Share0 fresh owner = \<lparr>sh_ID = fresh, sh_OwnerID = owner, sh_Name = [], sh_Token = [], sh_TokenHash = [], sh_TokenEnc = [],
     sh_View = [], sh_Period = zero_time, sh_Detail = DetailTitles, sh_IncludeTodos = False, sh_ShowSleep = True,
     sh_TZMode = ShareTZOwner, sh_Calendars = [], sh_Version = 1, sh_AccessCount = 0, sh_LastAccessedAt = None,
     sh_CreatedAt = zero_time, sh_UpdatedAt = zero_time, sh_RevokedAt = None\<rparr>"

definition Shares_List :: "share_env \<Rightarrow> tx_ctx \<Rightarrow> account_db \<Rightarrow> Share list" where
  "Shares_List v t db = map (reveal v t) (ListShares db (tx_owner t))"

definition Shares_Get :: "share_env \<Rightarrow> tx_ctx \<Rightarrow> account_db \<Rightarrow> go_id \<Rightarrow> go_error + Share" where
  "Shares_Get v t db i = (case Share_get db (tx_owner t) i of Inl e \<Rightarrow> Inl e | Inr s \<Rightarrow> Inr (reveal v t s))"

definition Shares_Create :: "share_env \<Rightarrow> tx_ctx \<Rightarrow> share_fresh \<Rightarrow> account_db \<Rightarrow> go_id \<Rightarrow> SharePatch \<Rightarrow> (go_error + Share) \<times> account_db" where
  "Shares_Create v t f db fresh p =
     (if CountShares db (tx_owner t) \<ge> MaxShares
      then (Inl (Wrap ErrConflict (''an account can have at most '' @ itoa MaxShares @ '' share links'')), db)
      else case apply_share t db (Share0 fresh (tx_owner t)) p True of
        Inl e \<Rightarrow> (Inl e, db)
      | Inr s \<Rightarrow>
          let s1 = issue_share v t f s in
          (case CreateShare t db s1 of
             (Inl e, db1) \<Rightarrow> (Inl e, db1)
           | (Inr out, db1) \<Rightarrow> (Inr (out\<lparr>sh_Token := sh_Token s1\<rparr>), db1)))"

definition revoked_error :: go_error where
  "revoked_error = Wrap ErrConflict ''the link is revoked''"

definition Shares_Update :: "share_env \<Rightarrow> tx_ctx \<Rightarrow> account_db \<Rightarrow> go_id \<Rightarrow> SharePatch \<Rightarrow> string \<Rightarrow> (go_error + Share) \<times> account_db" where
  "Shares_Update v t db i p ifMatch =
     (case UpdateShare t db i (\<lambda>s.
             if \<not> Share_Active s then Inl revoked_error
             else case CheckIfMatch ifMatch (Share_ETag s) of Some e \<Rightarrow> Inl e | None \<Rightarrow> apply_share t db s p False) of
        (Inl e, db1) \<Rightarrow> (Inl e, db1)
      | (Inr out, db1) \<Rightarrow> (Inr (reveal v t out), db1))"

definition Shares_Regenerate :: "share_env \<Rightarrow> tx_ctx \<Rightarrow> share_fresh \<Rightarrow> account_db \<Rightarrow> go_id \<Rightarrow> (go_error + Share) \<times> account_db" where
  "Shares_Regenerate v t f db i =
     (case UpdateShare t db i (\<lambda>s. if \<not> Share_Active s then Inl revoked_error else Inr (issue_share v t f s)) of
        (Inl e, db1) \<Rightarrow> (Inl e, db1)
      | (Inr out, db1) \<Rightarrow> (Inr (reveal v t out), db1))"

definition Shares_Revoke :: "tx_ctx \<Rightarrow> account_db \<Rightarrow> go_id \<Rightarrow> go_time \<Rightarrow> go_error option \<times> account_db" where
  "Shares_Revoke t db i now =
     (case UpdateShare t db i (\<lambda>s. Inr (if Share_Active s then s\<lparr>sh_RevokedAt := Some now\<rparr> else s)) of
        (Inl e, db1) \<Rightarrow> (Some e, db1) | (Inr out, db1) \<Rightarrow> (None, db1))"

definition Shares_Open :: "share_env \<Rightarrow> account_db \<Rightarrow> string \<Rightarrow> bool \<Rightarrow> go_time \<Rightarrow> (go_error + Share) \<times> account_db" where
  "Shares_Open v db tok cnt now =
     (if \<not> ValidShareToken tok then (Inl (Wrap ErrNotFound []), db)
      else case ShareByTokenHash db (sv_HashToken v tok) of
        Inl e \<Rightarrow> (Inl e, db)
      | Inr s \<Rightarrow> (Inr s, if cnt then TouchShare db (sh_ID s) now else db))"

end
