(* ===== verification/Feed.thy ===== *)
theory Feed
  imports Shares
begin

text \<open>
  What a share link shows: the page of \<open>internal/web/shares/public.go\<close> with \<open>internal/web/timeline\<close>, the
  calendar feed with \<open>exporter.Range\<close>, and the components that \<open>internal/ical/encode.go\<close> hands to the
  iCalendar library.  The library writes properties as text, and may refuse an empty calendar; here a
  property keeps its value, and a feed is the calendar handed over.
\<close>

subsection \<open>Transfer sets\<close>

record TSeries =
  trs_Master :: Event
  trs_Overrides :: "Event list"
  trs_Modified :: go_time
  trs_Where :: string

record TCalendar =
  trc_Name :: string
  trc_Color :: string
  trc_Timezone :: string
  trc_Description :: string
  trc_Hidden :: bool
  trc_Reminders :: "int list"
  trc_Series :: "TSeries list"

record TSub =
  tru_Todo :: Todo
  tru_Modified :: go_time
  tru_Where :: string

record TodoNode = TSub +
  trn_Subtasks :: "TSub list"

record TList =
  trl_Name :: string
  trl_Color :: string
  trl_Todos :: "TodoNode list"

text \<open>The settings and problems of a set belong to its import and are left out.\<close>

record TSet =
  tr_Calendars :: "TCalendar list"
  tr_Lists :: "TList list"

text \<open>\<open>ORDER BY series_id NULLS FIRST, id\<close>.\<close>

definition CalendarEvents :: "cal_db \<Rightarrow> go_id \<Rightarrow> go_id \<Rightarrow> Event list" where
  "CalendarEvents db owner i =
     sort_opt True ev_SeriesID (sort_key ev_ID (filter (\<lambda>e. event_visible owner e \<and> ev_CalendarID e = i) (map fst (cd_events db))))"

lemma CalendarEvents_set:
  "set (CalendarEvents db owner i) = {e. event_visible owner e \<and> ev_CalendarID e = i \<and> e \<in> fst ` set (cd_events db)}"
  by (auto simp: CalendarEvents_def sort_opt_def)

text \<open>The overrides of a master follow it; one whose master is not in the list is dropped.  Ids are a primary key.\<close>

definition group :: "Event list \<Rightarrow> TSeries list" where
  "group evs = map (\<lambda>m. \<lparr>trs_Master = m, trs_Overrides = filter (\<lambda>e. ev_SeriesID e = Some (ev_ID m)) evs, trs_Modified = ev_UpdatedAt m, trs_Where = []\<rparr>)
     (filter (\<lambda>e. ev_SeriesID e = None) evs)"

definition nest :: "Todo list \<Rightarrow> TodoNode list" where
  "nest ts = map (\<lambda>t. \<lparr>tru_Todo = t, tru_Modified = td_UpdatedAt t, tru_Where = [],
       trn_Subtasks = map (\<lambda>x. \<lparr>tru_Todo = x, tru_Modified = td_UpdatedAt x, tru_Where = []\<rparr>) (filter (\<lambda>x. td_ParentID x = Some (td_ID t)) ts)\<rparr>)
     (filter (\<lambda>t. td_ParentID t = None) ts)"

definition event_overlaps :: "service_env \<Rightarrow> Event \<Rightarrow> go_time \<Rightarrow> go_time \<Rightarrow> bool" where
  "event_overlaps env e from to =
     (case event_Span (en_lib env) (en_zones env) e of (start, fin) \<Rightarrow>
        start < to \<and> (case fin of None \<Rightarrow> True | Some x \<Rightarrow> x > from))"

definition tcalendar :: "Calendar \<Rightarrow> Event list \<Rightarrow> TCalendar" where
  "tcalendar c evs = \<lparr>trc_Name = cal_Name c, trc_Color = cal_Color c, trc_Timezone = cal_Timezone c,
     trc_Description = cal_Description c, trc_Hidden = cal_Hidden c, trc_Reminders = cal_DefaultReminders c, trc_Series = group evs\<rparr>"

definition wanted :: "go_id list \<Rightarrow> go_id \<Rightarrow> bool" where
  "wanted ids i \<longleftrightarrow> \<not> (length ids > 0 \<and> i \<notin> set ids)"

definition Export_Calendars :: "cal_db \<Rightarrow> go_id \<Rightarrow> go_id list \<Rightarrow> TSet" where
  "Export_Calendars db owner ids =
     \<lparr>tr_Calendars = map (\<lambda>c. tcalendar c (CalendarEvents db owner (cal_ID c))) (filter (\<lambda>c. wanted ids (cal_ID c)) (ListCalendars db owner)),
       tr_Lists = []\<rparr>"

definition Export_Lists :: "todo_db \<Rightarrow> go_id \<Rightarrow> go_id list \<Rightarrow> TSet" where
  "Export_Lists db owner ids =
     \<lparr>tr_Calendars = [],
      tr_Lists = map (\<lambda>l. \<lparr>trl_Name = tl_Name l, trl_Color = tl_Color l,
          trl_Todos = nest (Todos db owner (TodoFilter0\<lparr>tf_Lists := [tl_ID l], tf_Order := OrderByPosition\<rparr>))\<rparr>)
        (filter (\<lambda>l. wanted ids (tl_ID l)) (ListTodoLists db owner))\<rparr>"

text \<open>The calendars of the feed, then its lists; the dates of the window are those of its own zone.\<close>

definition range_calendar :: "service_env \<Rightarrow> cal_db \<Rightarrow> go_id \<Rightarrow> go_time \<Rightarrow> go_time \<Rightarrow> Calendar \<Rightarrow> TCalendar option" where
  "range_calendar env db owner from to c =
     (let kept = filter (\<lambda>e. \<not> (ev_Visibility e = ''private'' \<or> \<not> event_overlaps env e from to)) (CalendarEvents db owner (cal_ID c))
      in if kept = [] then None else Some (tcalendar c kept))"

definition range_list :: "todo_db \<Rightarrow> go_id \<Rightarrow> go_time \<Rightarrow> go_time \<Rightarrow> TodoList \<Rightarrow> TList option" where
  "range_list db owner from to l =
     (let items = Todos db owner (TodoFilter0\<lparr>tf_Lists := [tl_ID l], tf_Scheduled := True, tf_DueFrom := Some from,
                    tf_DueTo := Some to, tf_Order := OrderByDue\<rparr>)
      in if items = [] then None else Some \<lparr>trl_Name = tl_Name l, trl_Color = tl_Color l, trl_Todos = nest items\<rparr>)"

definition Export_Range :: "service_env \<Rightarrow> todo_db \<Rightarrow> location \<Rightarrow> go_id \<Rightarrow> go_id list \<Rightarrow> go_time \<Rightarrow> go_time \<Rightarrow> bool \<Rightarrow> TSet" where
  "Export_Range env db loc owner ids from to todos =
     \<lparr>tr_Calendars = List.map_filter (range_calendar env (tb_cal db) owner from to)
        (filter (\<lambda>c. wanted ids (cal_ID c)) (ListCalendars (tb_cal db) owner)),
      tr_Lists = (if \<not> todos then []
        else List.map_filter (range_list db owner (date_of loc from) (date_of loc to)) (ListTodoLists db owner))\<rparr>"

definition blank_event :: "Event \<Rightarrow> Event" where
  "blank_event e = e\<lparr>ev_Title := ''Busy'', ev_Body := [], ev_Location := [], ev_URL := []\<rparr>"

definition redactSet :: "TSet \<Rightarrow> TSet" where
  "redactSet s =
     \<lparr>tr_Calendars = map (\<lambda>c. c\<lparr>trc_Series := map (\<lambda>x. x\<lparr>trs_Master := blank_event (trs_Master x),
          trs_Overrides := map blank_event (trs_Overrides x)\<rparr>) (trc_Series c)\<rparr>) (tr_Calendars s),
      tr_Lists = []\<rparr>"

subsection \<open>Components\<close>

datatype prop_value = P_text string | P_time go_time | P_raw string "(string \<times> string) list"

datatype component = Component string "(string \<times> prop_value) list" "component list"

definition comp_name :: "component \<Rightarrow> string" where
  "comp_name c = (case c of Component n ps cs \<Rightarrow> n)"

definition comp_props :: "component \<Rightarrow> (string \<times> prop_value) list" where
  "comp_props c = (case c of Component n ps cs \<Rightarrow> ps)"

definition comp_children :: "component \<Rightarrow> component list" where
  "comp_children c = (case c of Component n ps cs \<Rightarrow> cs)"

text \<open>\<open>Format("20060102")\<close> and \<open>Format("20060102T150405")\<close> for the years 0 to 9999.\<close>

definition ics_date :: "location \<Rightarrow> go_time \<Rightarrow> string" where
  "ics_date loc t = (case time_date loc t of (y, m, d) \<Rightarrow> pad4 y @ pad2 m @ pad2 d)"

definition ics_stamp :: "location \<Rightarrow> go_time \<Rightarrow> string" where
  "ics_stamp loc t = (case time_clock loc t of (h, mi, s) \<Rightarrow> ics_date loc t @ ''T'' @ pad2 h @ pad2 mi @ pad2 s)"

definition stampProps :: "string \<Rightarrow> go_time \<Rightarrow> (string \<times> prop_value) list" where
  "stampProps uid at = [(''UID'', P_text uid), (''DTSTAMP'', P_time at)]"

definition setWhen :: "zoneinfo \<Rightarrow> string \<Rightarrow> go_time \<Rightarrow> Event \<Rightarrow> (string \<times> prop_value) list" where
  "setWhen zi name t e =
     (if ev_AllDay e then [(name, P_raw (ics_date UTC t) [(''VALUE'', ''DATE'')])]
      else if ev_TZ e = [] \<or> ev_TZ e = ''UTC'' then [(name, P_raw (ics_stamp UTC t @ ''Z'') [])]
      else [(name, P_raw (ics_stamp (Event_Zone zi e) t) [(''TZID'', ev_TZ e)])])"

definition setDates :: "zoneinfo \<Rightarrow> string \<Rightarrow> go_time list \<Rightarrow> Event \<Rightarrow> (string \<times> prop_value) list" where
  "setDates zi name ts e =
     (if ts = [] then []
      else if ev_AllDay e then [(name, P_raw (join (map (ics_date UTC) ts) '','') [(''VALUE'', ''DATE'')])]
      else if ev_TZ e = [] \<or> ev_TZ e = ''UTC'' then [(name, P_raw (join (map (\<lambda>t. ics_stamp UTC t @ ''Z'') ts) '','') [])]
      else [(name, P_raw (join (map (ics_stamp (Event_Zone zi e)) ts) '','') [(''TZID'', ev_TZ e)])])"

definition text_prop :: "string \<Rightarrow> string \<Rightarrow> (string \<times> prop_value) list" where
  "text_prop name v = (if v = [] then [] else [(name, P_text v)])"

definition time_prop :: "string \<Rightarrow> go_time \<Rightarrow> (string \<times> prop_value) list" where
  "time_prop name t = (if t = zero_time then [] else [(name, P_time t)])"

definition addAlarms :: "int list \<Rightarrow> string \<Rightarrow> component list" where
  "addAlarms rs title = map (\<lambda>m. Component ''VALARM'' [(''ACTION'', P_text ''DISPLAY''), (''DESCRIPTION'', P_text title),
     (''TRIGGER'', P_raw (''-PT'' @ itoa m @ ''M'') [(''VALUE'', ''DURATION'')])] []) rs"

definition encodeEvent :: "zoneinfo \<Rightarrow> go_time \<Rightarrow> Event \<Rightarrow> component" where
  "encodeEvent zi stamp e =
     Component ''VEVENT''
       (stampProps (ev_UID e) stamp @ time_prop ''CREATED'' (ev_CreatedAt e) @ time_prop ''LAST-MODIFIED'' (ev_UpdatedAt e) @
        [(''SUMMARY'', P_text (ev_Title e))] @ text_prop ''DESCRIPTION'' (ev_Body e) @ text_prop ''LOCATION'' (ev_Location e) @
        (if ev_URL e \<noteq> [] then [(''URL'', P_raw (ev_URL e) [])] else []) @
        setWhen zi ''DTSTART'' (ev_Start e) e @ setWhen zi ''DTEND'' (ev_End e) e @
        (if ev_RRule e \<noteq> [] then [(''RRULE'', P_raw (ev_RRule e) [])] else []) @
        setDates zi ''RDATE'' (ev_RDate e) e @ setDates zi ''EXDATE'' (ev_ExDate e) e @
        (case ev_RecurrenceID e of None \<Rightarrow> [] | Some r \<Rightarrow> setWhen zi ''RECURRENCE-ID'' r e) @
        [(''STATUS'', P_text (to_upper (ev_Status e)))] @
        (if ev_Transparency e = ''transparent'' then [(''TRANSP'', P_text ''TRANSPARENT'')] else []) @
        (if ev_Visibility e = ''private'' then [(''CLASS'', P_text ''PRIVATE'')] else []) @
        (if ev_Sequence e > 0 then [(''SEQUENCE'', P_text (itoa (ev_Sequence e)))] else []))
       (addAlarms (ev_Reminders e) (ev_Title e))"

definition trim_right_set :: "char list \<Rightarrow> string \<Rightarrow> string" where
  "trim_right_set cs s = rev (dropWhile (\<lambda>c. c \<in> set cs) (rev s))"

definition todoNotes :: "Todo \<Rightarrow> string" where
  "todoNotes t =
     (if td_Checks t = [] then td_Body t
      else let b = trim_right_set [CHR '' '', CHR 0x09, CHR 0x0A] (td_Body t)
           in b @ (if b \<noteq> [] then [CHR 0x0A, CHR 0x0A] else []) @ ''---'' @
              concat (map (\<lambda>c. [CHR 0x0A] @ ''['' @ (if ck_Done c then ''x'' else '' '') @ ''] '' @ ck_Text c) (td_Checks t)))"

definition encodeTodo :: "service_env \<Rightarrow> go_time \<Rightarrow> string \<Rightarrow> Todo \<Rightarrow> component" where
  "encodeTodo env stamp parent t =
     Component ''VTODO''
       (stampProps (if td_UID t = [] then en_id_text env (td_ID t) else td_UID t) stamp @
        time_prop ''CREATED'' (td_CreatedAt t) @ time_prop ''LAST-MODIFIED'' (td_UpdatedAt t) @
        [(''SUMMARY'', P_text (td_Title t))] @ text_prop ''DESCRIPTION'' (todoNotes t) @ text_prop ''RELATED-TO'' parent @
        (case td_DueDate t of None \<Rightarrow> []
         | Some d \<Rightarrow>
             setWhen (en_zones env) ''DUE'' (case DueStart (en_zones env) t of None \<Rightarrow> zero_time | Some at \<Rightarrow> at)
               (Event0\<lparr>ev_AllDay := (td_DueTime t = None), ev_TZ := td_TZ t\<rparr>) @
             (if td_RRule t \<noteq> [] then [(''RRULE'', P_raw (td_RRule t) [])] else [])) @
        (if Done t then [(''STATUS'', P_text ''COMPLETED''), (''PERCENT-COMPLETE'', P_text ''100'')] @
             (case td_CompletedAt t of None \<Rightarrow> [] | Some c \<Rightarrow> [(''COMPLETED'', P_time c)])
         else [(''STATUS'', P_text ''NEEDS-ACTION'')]) @
        (if td_Priority t = 1 then [(''PRIORITY'', P_text ''9'')]
         else if td_Priority t = 2 then [(''PRIORITY'', P_text ''5'')]
         else if td_Priority t = 3 then [(''PRIORITY'', P_text ''1'')] else []))
       (addAlarms (td_Reminders t) (td_Title t))"

definition Encode :: "service_env \<Rightarrow> go_time \<Rightarrow> string \<Rightarrow> TSet \<Rightarrow> string \<Rightarrow> component" where
  "Encode env stamp product s name =
     Component ''VCALENDAR''
       ([(''PRODID'', P_text product), (''VERSION'', P_text ''2.0''), (''CALSCALE'', P_text ''GREGORIAN''), (''METHOD'', P_text ''PUBLISH'')] @
        text_prop ''X-WR-CALNAME'' name)
       (concat (map (\<lambda>c. concat (map (\<lambda>x. encodeEvent (en_zones env) stamp (trs_Master x) #
             map (encodeEvent (en_zones env) stamp) (trs_Overrides x)) (trc_Series c))) (tr_Calendars s)) @
        concat (map (\<lambda>l. concat (map (\<lambda>n. encodeTodo env stamp [] (tru_Todo n) #
             map (\<lambda>x. encodeTodo env stamp (td_UID (tru_Todo n)) (tru_Todo x)) (trn_Subtasks n)) (trl_Todos l))) (tr_Lists s)))"

subsection \<open>The feed and the page\<close>

definition user_of :: "account_db \<Rightarrow> go_id \<Rightarrow> go_error + User" where
  "user_of db i = (case find (\<lambda>u. us_ID u = i) (cd_users (ad_cal db)) of None \<Rightarrow> Inl (Wrap ErrNotFound []) | Some u \<Rightarrow> Inr u)"

definition sharePeriod :: "Share \<Rightarrow> User \<Rightarrow> Period" where
  "sharePeriod s owner =
     NewPeriod (case ParseKind (sh_View s) of None \<Rightarrow> Week | Some k \<Rightarrow> k) (sh_Period s) (us_WeekStart owner)"

definition feed_set :: "service_env \<Rightarrow> account_db \<Rightarrow> Share \<Rightarrow> User \<Rightarrow> TSet" where
  "feed_set env db s owner =
     (let loc = User_Location (en_zones env) owner in
      case Range (sharePeriod s owner) loc of (from, to) \<Rightarrow>
      let x = Export_Range env (ad_todo db) loc (sh_OwnerID s) (sh_Calendars s) from to (sh_IncludeTodos s)
      in if sh_Detail s = DetailBusy then redactSet x else x)"

definition feed :: "share_env \<Rightarrow> service_env \<Rightarrow> string \<Rightarrow> account_db \<Rightarrow> string \<Rightarrow> go_time \<Rightarrow> (go_error + component) \<times> account_db" where
  "feed v env product db tok now =
     (case Shares_Open v db tok True now of
        (Inl e, db1) \<Rightarrow> (Inl e, db1)
      | (Inr s, db1) \<Rightarrow>
          (case user_of db1 (sh_OwnerID s) of
             Inl e \<Rightarrow> (Inl e, db1)
           | Inr owner \<Rightarrow> (Inr (Encode env now product (feed_set env db1 s owner) (sh_Name s)), db1)))"

record timeline_query =
  tq_Owner :: User
  tq_Loc :: location
  tq_Period :: Period
  tq_Calendars :: "Calendar list"
  tq_Selected :: "go_id list"
  tq_Todos :: bool
  tq_Sleep :: bool

record timeline_result =
  tlr_Items :: "Item list"
  tlr_Sleep :: "SleepWindow list"
  tlr_Seq :: int
  tlr_Notice :: string

definition LatestSeq :: "cal_db \<Rightarrow> go_id \<Rightarrow> int" where
  "LatestSeq db owner = fold max (map ch_Seq (filter (\<lambda>c. ch_OwnerID c = owner) (cd_changes db))) 0"

text \<open>The window is passed as text, as the page does; \<open>mx\<close> is the limit of the expansion.\<close>

definition Load :: "service_env \<Rightarrow> int \<Rightarrow> account_db \<Rightarrow> timeline_query \<Rightarrow> go_error + timeline_result" where
  "Load env mx db q =
     (let owner = us_ID (tq_Owner q);
          res0 = \<lparr>tlr_Items = [], tlr_Sleep = [], tlr_Seq = LatestSeq (ad_cal db) owner, tlr_Notice = []\<rparr>;
          res1 = (if tq_Selected q = [] then Inr res0
            else case Range (tq_Period q) (tq_Loc q) of (from, to) \<Rightarrow>
              (case Events_List env mx (ad_cal db) owner \<lparr>eq_From = format_rfc3339 from, eq_To = format_rfc3339 to,
                      eq_Calendars = map (en_id_text env) (tq_Selected q), eq_Expand = True\<rparr> of
                 Inl e \<Rightarrow> if e = ErrTooMany then Inr (res0\<lparr>tlr_Notice := ''This period has too many events to show. Pick a shorter view.''\<rparr>) else Inl e
               | Inr occs1 \<Rightarrow> Inr (res0\<lparr>tlr_Items := FromOccurrences (en_id_text env) occs1 (tq_Calendars q)\<rparr>)))
      in case res1 of Inl e \<Rightarrow> Inl e
         | Inr r \<Rightarrow>
             let r1 = (if tq_Todos q
                       then r\<lparr>tlr_Items := tlr_Items r @ FromTodos (en_id_text env) (en_zones env)
                              (Scheduled (ad_todo db) owner (pe_Start (tq_Period q)) (pe_End (tq_Period q))) (ListTodoLists (ad_todo db) owner)\<rparr>
                       else r)
             in Inr (if tq_Sleep q \<and> us_SleepEnabled (tq_Owner q) \<and> Timed (pe_Kind (tq_Period q))
                     then r1\<lparr>tlr_Sleep := SleepSchedule db owner\<rparr> else r1))"

definition share_zone :: "service_env \<Rightarrow> Share \<Rightarrow> User \<Rightarrow> string \<Rightarrow> location" where
  "share_zone env s owner tz =
     (if sh_TZMode s = ShareTZViewer \<and> ValidTimezone (en_zones env) tz
      then (case LoadLocation (en_zones env) tz of Some l \<Rightarrow> l | None \<Rightarrow> User_Location (en_zones env) owner)
      else User_Location (en_zones env) owner)"

text \<open>The items of the page, with the sleep windows; \<open>fragment\<close> is a partial reload, which is not counted.\<close>

definition public :: "share_env \<Rightarrow> service_env \<Rightarrow> int \<Rightarrow> account_db \<Rightarrow> string \<Rightarrow> bool \<Rightarrow> string \<Rightarrow> go_time \<Rightarrow>
    (go_error + Item list \<times> SleepWindow list) \<times> account_db" where
  "public v env mx db tok fragment tz now =
     (case Shares_Open v db tok (\<not> fragment) now of
        (Inl e, db1) \<Rightarrow> (Inl e, db1)
      | (Inr s, db1) \<Rightarrow>
          (case user_of db1 (sh_OwnerID s) of
             Inl e \<Rightarrow> (Inl e, db1)
           | Inr owner \<Rightarrow>
               (case Load env mx db1 \<lparr>tq_Owner = owner, tq_Loc = share_zone env s owner tz, tq_Period = sharePeriod s owner,
                       tq_Calendars = ListCalendars (ad_cal db1) (sh_OwnerID s), tq_Selected = sh_Calendars s,
                       tq_Todos = sh_IncludeTodos s, tq_Sleep = sh_ShowSleep s\<rparr> of
                  Inl e \<Rightarrow> (Inl e, db1)
                | Inr r \<Rightarrow> (Inr (Redact (tlr_Items r) (sh_Detail s), tlr_Sleep r), db1))))"

end
