(* ===== verification/Shares_Safety.thy ===== *)
theory Shares_Safety
  imports Feed
begin

text \<open>
  What share links and accounts promise: the tables stay well formed and each owner's rows apart,
  a link opens only while it is live, and what its page and its feed show.
\<close>

subsection \<open>Tables\<close>

named_theorems account_simps

lemma ad_access [account_simps]:
  "ad_cal (set_ad_cal db c) = c" "ad_shares (set_ad_cal db c) = ad_shares db" "ad_sleep (set_ad_cal db c) = ad_sleep db"
  "ad_cal (ad_shares_update f db) = ad_cal db" "ad_cal (ad_sleep_update g db) = ad_cal db"
  "ad_shares (ad_change t db k) = ad_shares db" "ad_sleep (ad_change t db k) = ad_sleep db"
  "cd_calendars (ad_cal (ad_change t db k)) = cd_calendars (ad_cal db)"
  "cd_events (ad_cal (ad_change t db k)) = cd_events (ad_cal db)"
  "cd_users (ad_cal (ad_change t db k)) = cd_users (ad_cal db)"
  by (simp_all add: ad_cal_def set_ad_cal_def ad_change_def recordChange_def)

definition accounts_ok :: "account_db \<Rightarrow> bool" where
  "accounts_ok db \<longleftrightarrow>
     (let c = ad_cal db in
      list_all user_check (cd_users c) \<and> list_all sleep_check (ad_sleep db) \<and> sleep_keys (ad_sleep db) \<and>
      list_all calendar_check (cd_calendars c) \<and> calendar_keys (cd_calendars c) \<and> calendar_refs (cd_users c) (cd_calendars c) \<and>
      event_refs (cd_calendars c) (cd_events c) \<and>
      list_all share_check (ad_shares db) \<and> share_keys (ad_shares db) \<and> share_refs (cd_users c) (cd_calendars c) (ad_shares db))"

text \<open>What belongs to others, and the default calendars of everyone.\<close>

definition strangers :: "go_id \<Rightarrow> account_db \<Rightarrow> User list \<times> Calendar list \<times> event_row list \<times> Share list \<times> (go_id \<times> SleepWindow) list" where
  "strangers owner db =
     (filter (\<lambda>u. us_ID u \<noteq> owner) (cd_users (ad_cal db)), filter (\<lambda>c. cal_OwnerID c \<noteq> owner) (cd_calendars (ad_cal db)),
      filter (\<lambda>(e, s). ev_OwnerID e \<noteq> owner) (cd_events (ad_cal db)), filter (\<lambda>s. sh_OwnerID s \<noteq> owner) (ad_shares db),
      filter (\<lambda>(u, w). u \<noteq> owner) (ad_sleep db))"

definition defaults :: "account_db \<Rightarrow> (go_id \<times> go_id) list" where
  "defaults db = map (\<lambda>c. (cal_OwnerID c, cal_ID c)) (filter cal_IsDefault (cd_calendars (ad_cal db)))"

definition keeps_accounts :: "go_id \<Rightarrow> account_db \<Rightarrow> account_db \<Rightarrow> bool" where
  "keeps_accounts owner db d \<longleftrightarrow>
     (accounts_ok db \<longrightarrow> accounts_ok d \<and> strangers owner d = strangers owner db \<and> defaults d = defaults db)"

lemma keeps_accounts_refl [simp]: "keeps_accounts owner db db"
  by (simp add: keeps_accounts_def)

lemma keeps_WithAccount:
  "(\<And>r d. fn db = Inr (r, d) \<Longrightarrow> keeps_accounts owner db d) \<Longrightarrow> keeps_accounts owner db (snd (WithAccount db fn))"
  by (auto simp: WithAccount_def split: sum.split)

lemma filter_map_other:
  "(\<And>r. P r \<Longrightarrow> \<not> Q r \<and> \<not> Q (f r)) \<Longrightarrow> filter Q (map (\<lambda>r. if P r then f r else r) xs) = filter Q xs"
  by (induction xs) auto

lemma list_ex_replaced:
  "list_ex Q xs \<Longrightarrow> (\<And>r. P r \<Longrightarrow> Q r \<Longrightarrow> Q row) \<Longrightarrow> list_ex Q (map (\<lambda>r. if P r then row else r) xs)"
  by (induction xs) auto

lemma list_all_replaced: "list_all Q xs \<Longrightarrow> Q row \<Longrightarrow> list_all Q (map (\<lambda>r. if P r then row else r) xs)"
  by (induction xs) auto

lemma share_refs_mono:
  assumes "share_refs us cs ss" and "us_ID ` set us \<subseteq> us_ID ` set us'"
    and "\<And>i u. list_ex (\<lambda>c. cal_ID c = i \<and> cal_OwnerID c = u) cs \<Longrightarrow> list_ex (\<lambda>c. cal_ID c = i \<and> cal_OwnerID c = u) cs'"
  shows "share_refs us' cs' ss"
  using assms unfolding share_refs_def list_all_iff by blast

lemma event_refs_mono:
  assumes "event_refs cs evs"
    and "\<And>i u. list_ex (\<lambda>c. cal_ID c = i \<and> cal_OwnerID c = u) cs \<Longrightarrow> list_ex (\<lambda>c. cal_ID c = i \<and> cal_OwnerID c = u) cs'"
  shows "event_refs cs' evs"
  using assms unfolding event_refs_def list_all_iff by fastforce

lemma commit_calendarsD:
  assumes "commit_calendars db cs = Inr d"
  shows "d = set_ad_cal db ((ad_cal db)\<lparr>cd_calendars := cs\<rparr>)" "list_all calendar_check cs" "calendar_keys cs"
    "calendar_refs (cd_users (ad_cal db)) cs"
  using assms by (simp_all add: commit_calendars_def split: if_splits)

text \<open>A new table of calendars that still names every pair of id and owner.\<close>

lemma keeps_calendars:
  assumes c: "commit_calendars db cs = Inr d"
    and sub: "\<And>i u. list_ex (\<lambda>c. cal_ID c = i \<and> cal_OwnerID c = u) (cd_calendars (ad_cal db)) \<Longrightarrow>
        list_ex (\<lambda>c. cal_ID c = i \<and> cal_OwnerID c = u) cs"
    and others: "filter (\<lambda>c. cal_OwnerID c \<noteq> owner) cs = filter (\<lambda>c. cal_OwnerID c \<noteq> owner) (cd_calendars (ad_cal db))"
    and def: "map (\<lambda>c. (cal_OwnerID c, cal_ID c)) (filter cal_IsDefault cs) =
        map (\<lambda>c. (cal_OwnerID c, cal_ID c)) (filter cal_IsDefault (cd_calendars (ad_cal db)))"
  shows "keeps_accounts owner db (ad_change t d k)"
proof -
  note d = commit_calendarsD [OF c]
  show ?thesis
    unfolding keeps_accounts_def
  proof
    assume ok: "accounts_ok db"
    have "share_refs (cd_users (ad_cal db)) cs (ad_shares db)"
      by (rule share_refs_mono [of "cd_users (ad_cal db)" "cd_calendars (ad_cal db)"])
        (use ok sub in \<open>simp_all add: accounts_ok_def Let_def\<close>)
    moreover have "event_refs cs (cd_events (ad_cal db))"
      by (rule event_refs_mono [of "cd_calendars (ad_cal db)"]) (use ok sub in \<open>simp_all add: accounts_ok_def Let_def\<close>)
    ultimately have "accounts_ok (ad_change t d k)"
      using ok d unfolding accounts_ok_def Let_def by (simp add: account_simps)
    then show "accounts_ok (ad_change t d k) \<and> strangers owner (ad_change t d k) = strangers owner db \<and>
        defaults (ad_change t d k) = defaults db"
      using others def unfolding d(1) by (simp add: strangers_def defaults_def account_simps)
  qed
qed

lemma keeps_CreateCalendar:
  assumes "cal_OwnerID c = tx_owner t"
  shows "keeps_accounts (tx_owner t) db (snd (CreateCalendar t db c))"
  unfolding CreateCalendar_def Let_def
proof (rule keeps_WithAccount)
  fix r d
  assume "(case commit_calendars db (cd_calendars (ad_cal db) @
        [c\<lparr>cal_Position := wrap32 (if cal_Position c < 0 then NextCalendarPosition db (cal_OwnerID c) else cal_Position c),
           cal_DefaultReminders := map wrap32 (cal_DefaultReminders c), cal_IsDefault := False,
           cal_CreatedAt := ad_now db, cal_UpdatedAt := ad_now db\<rparr>]) of
      Inl e \<Rightarrow> Inl e
    | Inr db1 \<Rightarrow> Inr (c\<lparr>cal_Position := wrap32 (if cal_Position c < 0 then NextCalendarPosition db (cal_OwnerID c) else cal_Position c),
           cal_DefaultReminders := map wrap32 (cal_DefaultReminders c), cal_IsDefault := False,
           cal_CreatedAt := ad_now db, cal_UpdatedAt := ad_now db\<rparr>,
         ad_change t db1 (calendarChange (c\<lparr>cal_Position := wrap32 (if cal_Position c < 0 then NextCalendarPosition db (cal_OwnerID c) else cal_Position c),
           cal_DefaultReminders := map wrap32 (cal_DefaultReminders c), cal_IsDefault := False,
           cal_CreatedAt := ad_now db, cal_UpdatedAt := ad_now db\<rparr>) ''create''))) = Inr (r, d)"
  then obtain d1 k where d: "d = ad_change t d1 k"
      "commit_calendars db (cd_calendars (ad_cal db) @
        [c\<lparr>cal_Position := wrap32 (if cal_Position c < 0 then NextCalendarPosition db (cal_OwnerID c) else cal_Position c),
           cal_DefaultReminders := map wrap32 (cal_DefaultReminders c), cal_IsDefault := False,
           cal_CreatedAt := ad_now db, cal_UpdatedAt := ad_now db\<rparr>]) = Inr d1"
    by (auto split: sum.splits)
  show "keeps_accounts (tx_owner t) db d"
    unfolding d(1) by (rule keeps_calendars [OF d(2)]) (use assms in auto)
qed

lemma keeps_UpdateCalendar: "keeps_accounts (tx_owner t) db (snd (UpdateCalendar t db i fn))"
  unfolding UpdateCalendar_def Let_def
proof (rule keeps_WithAccount)
  let ?cs = "\<lambda>row. map (\<lambda>r. if cal_ID r = i \<and> cal_OwnerID r = tx_owner t then row else r) (cd_calendars (ad_cal db))"
  fix r d
  assume "(case Calendar_get db (tx_owner t) i of Inl e \<Rightarrow> Inl e
      | Inr c \<Rightarrow> (case fn c of Inl e \<Rightarrow> Inl e
          | Inr c1 \<Rightarrow> (case commit_calendars db (?cs (calendar_row db c c1)) of Inl e \<Rightarrow> Inl e
              | Inr db1 \<Rightarrow> Inr (calendar_row db c c1, ad_change t db1 (calendarChange (calendar_row db c c1) ''update''))))) = Inr (r, d)"
  then obtain c c1 d1 k where g: "Calendar_get db (tx_owner t) i = Inr c" and d: "d = ad_change t d1 k"
      and cm: "commit_calendars db (?cs (calendar_row db c c1)) = Inr d1"
    by (auto split: sum.splits)
  from g have c: "c \<in> set (cd_calendars (ad_cal db))" "cal_ID c = i" "cal_OwnerID c = tx_owner t"
    by (auto simp: Calendar_get_def find_Some_iff split: option.splits)
  let ?row = "calendar_row db c c1"
  have row: "cal_ID ?row = i" "cal_OwnerID ?row = tx_owner t" "cal_IsDefault ?row = cal_IsDefault c"
    using c by (simp_all add: calendar_row_def)
  have def: "accounts_ok db \<Longrightarrow> map (\<lambda>c. (cal_OwnerID c, cal_ID c)) (filter cal_IsDefault (?cs ?row)) =
        map (\<lambda>c. (cal_OwnerID c, cal_ID c)) (filter cal_IsDefault (cd_calendars (ad_cal db)))"
  proof -
    assume ok: "accounts_ok db"
    have u: "cal_IsDefault r = cal_IsDefault c" if "r \<in> set (cd_calendars (ad_cal db))" "cal_ID r = i" for r
      using ok c that unfolding accounts_ok_def Let_def calendar_keys_def by (metis inj_on_eq_iff distinct_map)
    have "map (\<lambda>c. (cal_OwnerID c, cal_ID c)) (filter cal_IsDefault (map (\<lambda>r. if cal_ID r = i \<and> cal_OwnerID r = tx_owner t then ?row else r) xs)) =
        map (\<lambda>c. (cal_OwnerID c, cal_ID c)) (filter cal_IsDefault xs)" if "\<forall>r \<in> set xs. cal_ID r = i \<longrightarrow> cal_IsDefault r = cal_IsDefault c" for xs
      using that by (induction xs) (auto simp: row)
    then show ?thesis using u by blast
  qed
  show "keeps_accounts (tx_owner t) db d"
  proof (cases "accounts_ok db")
    case True
    show ?thesis unfolding d
    proof (rule keeps_calendars [OF cm _ _ def [OF True]])
      show "list_ex (\<lambda>c. cal_ID c = i' \<and> cal_OwnerID c = u) (?cs ?row)"
        if "list_ex (\<lambda>c. cal_ID c = i' \<and> cal_OwnerID c = u) (cd_calendars (ad_cal db))" for i' u
        by (rule list_ex_replaced [OF that]) (use row in auto)
      show "filter (\<lambda>c. cal_OwnerID c \<noteq> tx_owner t) (?cs ?row) = filter (\<lambda>c. cal_OwnerID c \<noteq> tx_owner t) (cd_calendars (ad_cal db))"
        by (rule filter_map_other) (use row in auto)
    qed
  qed (simp add: keeps_accounts_def)
qed


subsection \<open>Deleting a calendar\<close>

lemma list_ex_filter_keep:
  "list_ex Q xs \<Longrightarrow> (\<And>x. Q x \<Longrightarrow> P x) \<Longrightarrow> list_ex Q (filter P xs)"
  by (induction xs) auto

lemma distinct_map_filter2: "distinct (map f (filter P xs)) \<Longrightarrow> distinct (map f (filter (\<lambda>x. Q x \<and> P x) xs))"
  by (induction xs) (auto split: if_splits)

lemma drop_calendar_parts [account_simps]:
  "cd_users (ad_cal (drop_calendar db i)) = cd_users (ad_cal db)"
  "cd_calendars (ad_cal (drop_calendar db i)) = filter (\<lambda>x. cal_ID x \<noteq> i) (cd_calendars (ad_cal db))"
  "cd_events (ad_cal (drop_calendar db i)) = filter (\<lambda>(e, s). ev_CalendarID e \<noteq> i) (cd_events (ad_cal db))"
  "ad_shares (drop_calendar db i) = map (\<lambda>s. s\<lparr>sh_Calendars := filter (\<lambda>x. x \<noteq> i) (sh_Calendars s)\<rparr>) (ad_shares db)"
  "ad_sleep (drop_calendar db i) = ad_sleep db"
  by (simp_all add: drop_calendar_def Let_def account_simps)

lemma drop_event_refs:
  assumes "event_refs cs evs"
  shows "event_refs (filter (\<lambda>x. cal_ID x \<noteq> i) cs) (filter (\<lambda>(e, s). ev_CalendarID e \<noteq> i) evs)"
proof -
  have "list_ex (\<lambda>c. cal_ID c = ev_CalendarID e \<and> cal_OwnerID c = ev_OwnerID e) (filter (\<lambda>x. cal_ID x \<noteq> i) cs)"
      "(case ev_SeriesID e of None \<Rightarrow> True
        | Some m \<Rightarrow> list_ex (\<lambda>(x, s). ev_ID x = m \<and> ev_CalendarID x = ev_CalendarID e) (filter (\<lambda>(e, s). ev_CalendarID e \<noteq> i) evs))"
    if "(e, s) \<in> set evs" "ev_CalendarID e \<noteq> i" for e s
  proof -
    have a: "list_ex (\<lambda>c. cal_ID c = ev_CalendarID e \<and> cal_OwnerID c = ev_OwnerID e) cs"
        "(case ev_SeriesID e of None \<Rightarrow> True | Some m \<Rightarrow> list_ex (\<lambda>(x, s). ev_ID x = m \<and> ev_CalendarID x = ev_CalendarID e) evs)"
      using assms that(1) by (auto simp: event_refs_def list_all_iff)
    show "list_ex (\<lambda>c. cal_ID c = ev_CalendarID e \<and> cal_OwnerID c = ev_OwnerID e) (filter (\<lambda>x. cal_ID x \<noteq> i) cs)"
      by (rule list_ex_filter_keep [OF a(1)]) (use that(2) in auto)
    show "(case ev_SeriesID e of None \<Rightarrow> True
        | Some m \<Rightarrow> list_ex (\<lambda>(x, s). ev_ID x = m \<and> ev_CalendarID x = ev_CalendarID e) (filter (\<lambda>(e, s). ev_CalendarID e \<noteq> i) evs))"
    proof (cases "ev_SeriesID e")
      case (Some m)
      then have "list_ex (\<lambda>(x, s). ev_ID x = m \<and> ev_CalendarID x = ev_CalendarID e) evs" using a(2) by simp
      then show ?thesis using Some that(2) by (auto intro: list_ex_filter_keep)
    qed simp
  qed
  then show ?thesis unfolding event_refs_def list_all_iff by auto
qed

lemma drop_accounts_ok:
  assumes ok: "accounts_ok db"
  shows "accounts_ok (drop_calendar db i)"
proof -
  note o = ok [unfolded accounts_ok_def Let_def]
  have c: "list_all calendar_check (filter (\<lambda>x. cal_ID x \<noteq> i) (cd_calendars (ad_cal db)))"
    using o by (auto simp: list_all_iff)
  have k: "calendar_keys (filter (\<lambda>x. cal_ID x \<noteq> i) (cd_calendars (ad_cal db)))"
    using o by (simp add: calendar_keys_def distinct_map_filter distinct_map_filter2)
  have r: "calendar_refs (cd_users (ad_cal db)) (filter (\<lambda>x. cal_ID x \<noteq> i) (cd_calendars (ad_cal db)))"
    using o by (auto simp: calendar_refs_def list_all_iff)
  let ?s = "map (\<lambda>s. s\<lparr>sh_Calendars := filter (\<lambda>x. x \<noteq> i) (sh_Calendars s)\<rparr>) (ad_shares db)"
  have sc: "list_all share_check ?s" using o by (simp add: list_all_iff share_check_def)
  have sk: "share_keys ?s" using o by (simp add: share_keys_def list_all_iff comp_def)
  have sr: "share_refs (cd_users (ad_cal db)) (filter (\<lambda>x. cal_ID x \<noteq> i) (cd_calendars (ad_cal db))) ?s"
  proof -
    have "share_refs (cd_users (ad_cal db)) (cd_calendars (ad_cal db)) (ad_shares db)" using o by simp
    then show ?thesis
      unfolding share_refs_def list_all_iff by (auto simp: list_all_iff intro!: list_ex_filter_keep)
  qed
  show ?thesis
    using o c k r sc sk sr drop_event_refs [of "cd_calendars (ad_cal db)" "cd_events (ad_cal db)" i]
    unfolding accounts_ok_def Let_def by (simp add: account_simps)
qed

lemma keeps_DeleteCalendar: "keeps_accounts (tx_owner t) db (snd (DeleteCalendar t db i fn))"
  unfolding DeleteCalendar_def
proof (rule keeps_WithAccount)
  fix r d
  assume "(case Calendar_get db (tx_owner t) i of Inl e \<Rightarrow> Inl e
      | Inr c \<Rightarrow> (case fn c of Some e \<Rightarrow> Inl e
          | None \<Rightarrow> if cal_IsDefault c then Inl (Wrap ErrNotFound [])
                   else Inr ((), ad_change t (drop_calendar db i) (calendarChange c ''delete'')))) = Inr (r, d)"
  then obtain c k where g: "Calendar_get db (tx_owner t) i = Inr c" and nd: "\<not> cal_IsDefault c" and d: "d = ad_change t (drop_calendar db i) k"
    by (auto split: sum.splits option.splits if_splits)
  from g have c: "c \<in> set (cd_calendars (ad_cal db))" "cal_ID c = i" "cal_OwnerID c = tx_owner t"
    by (auto simp: Calendar_get_def find_Some_iff split: option.splits)
  show "keeps_accounts (tx_owner t) db d"
    unfolding keeps_accounts_def
  proof
    assume ok: "accounts_ok db"
    have u: "r = c" if "r \<in> set (cd_calendars (ad_cal db))" "cal_ID r = i" for r
      using ok c that unfolding accounts_ok_def Let_def calendar_keys_def by (metis inj_on_eq_iff distinct_map)
    have er: "event_refs (cd_calendars (ad_cal db)) (cd_events (ad_cal db))"
        and sr: "share_refs (cd_users (ad_cal db)) (cd_calendars (ad_cal db)) (ad_shares db)"
      using ok by (simp_all add: accounts_ok_def Let_def)
    have n1: "cal_ID r \<noteq> i" if "r \<in> set (cd_calendars (ad_cal db))" "cal_OwnerID r \<noteq> tx_owner t" for r
      using u [OF that(1)] that(2) c(3) by blast
    have n2: "cal_ID r \<noteq> i" if "r \<in> set (cd_calendars (ad_cal db))" "cal_IsDefault r" for r
      using u [OF that(1)] that(2) nd by blast
    have n3: "o1 = tx_owner t" if "list_ex (\<lambda>c. cal_ID c = i \<and> cal_OwnerID c = o1) (cd_calendars (ad_cal db))" for o1
      using that n1 by (auto simp: list_ex_iff)
    have 1: "filter (\<lambda>c. cal_OwnerID c \<noteq> tx_owner t) (filter (\<lambda>x. cal_ID x \<noteq> i) (cd_calendars (ad_cal db))) =
        filter (\<lambda>c. cal_OwnerID c \<noteq> tx_owner t) (cd_calendars (ad_cal db))"
      unfolding filter_filter using n1 by (intro filter_cong) blast+
    have 2: "filter cal_IsDefault (filter (\<lambda>x. cal_ID x \<noteq> i) (cd_calendars (ad_cal db))) = filter cal_IsDefault (cd_calendars (ad_cal db))"
      unfolding filter_filter using n2 by (intro filter_cong) blast+
    have "ev_OwnerID e = tx_owner t" if "(e, s) \<in> set (cd_events (ad_cal db))" "ev_CalendarID e = i" for e s
      by (rule n3) (use er that in \<open>auto simp: event_refs_def list_all_iff\<close>)
    then have 3: "filter (\<lambda>(e, s). ev_OwnerID e \<noteq> tx_owner t) (filter (\<lambda>(e, s). ev_CalendarID e \<noteq> i) (cd_events (ad_cal db))) =
        filter (\<lambda>(e, s). ev_OwnerID e \<noteq> tx_owner t) (cd_events (ad_cal db))"
      unfolding filter_filter by (intro filter_cong) auto
    have o: "sh_OwnerID s = tx_owner t" if "s \<in> set (ad_shares db)" "i \<in> set (sh_Calendars s)" for s
      by (rule n3) (use sr that in \<open>auto simp: share_refs_def list_all_iff\<close>)
    have m: "s\<lparr>sh_Calendars := filter (\<lambda>x. x \<noteq> i) (sh_Calendars s)\<rparr> = s" if "s \<in> set (ad_shares db)" "sh_OwnerID s \<noteq> tx_owner t" for s
    proof -
      have "i \<notin> set (sh_Calendars s)" using o that by blast
      then have "filter (\<lambda>x. x \<noteq> i) (sh_Calendars s) = sh_Calendars s" by (intro filter_True) auto
      then show ?thesis by simp
    qed
    have 4: "filter (\<lambda>s. sh_OwnerID s \<noteq> tx_owner t) (map (\<lambda>s. s\<lparr>sh_Calendars := filter (\<lambda>x. x \<noteq> i) (sh_Calendars s)\<rparr>) (ad_shares db)) =
        filter (\<lambda>s. sh_OwnerID s \<noteq> tx_owner t) (ad_shares db)"
      unfolding filter_map comp_def by simp (use m in \<open>auto intro!: map_idI\<close>)
    show "accounts_ok d \<and> strangers (tx_owner t) d = strangers (tx_owner t) db \<and> defaults d = defaults db"
      using drop_accounts_ok [OF ok, of i] 1 2 3 4 unfolding d
      by (simp add: accounts_ok_def Let_def strangers_def defaults_def account_simps)
  qed
qed

lemma keeps_calendar_ops:
  "keeps_accounts (tx_owner t) db (snd (Calendars_Create t db i p))"
  "keeps_accounts (tx_owner t) db (snd (Calendars_Update t db i p m))"
  "keeps_accounts (tx_owner t) db (snd (Calendars_Delete t db i m))"
proof -
  have own: "cal_OwnerID c1 = cal_OwnerID c" if "applyCalendar e c p = Inr c1" for e c c1
    using that by (auto simp: applyCalendar_def Let_def split: prod.splits option.splits)
  show "keeps_accounts (tx_owner t) db (snd (Calendars_Create t db i p))"
    unfolding Calendars_Create_def by (auto split: sum.split dest!: own intro: keeps_CreateCalendar)
qed (simp_all add: Calendars_Update_def Calendars_Delete_def keeps_UpdateCalendar keeps_DeleteCalendar)


subsection \<open>Settings\<close>

lemma replaceSleepD:
  assumes "replaceSleep db u ws = Inr d"
  shows "d = db\<lparr>ad_sleep := filter (\<lambda>(v, w). v \<noteq> u) (ad_sleep db) @ map (Pair u) ws\<rparr>"
    "list_all sleep_check (ad_sleep d)" "sleep_keys (ad_sleep d)"
  using assms by (auto simp: replaceSleep_def Let_def split: if_splits)

lemma keeps_Settings: "keeps_accounts (tx_owner t) db (snd (Settings_Update t db p m))"
  unfolding Settings_Update_def UpdateSettings_def
proof (rule keeps_WithAccount)
  fix r d
  let ?f = "\<lambda>(u, ws). case CheckIfMatch m (User_ETag u) of Some e \<Rightarrow> Inl e | None \<Rightarrow> applySettings (tx_env t) (u, ws) p"
  let ?us = "\<lambda>row. map (\<lambda>x. if us_ID x = tx_owner t then row else x) (cd_users (ad_cal db))"
  assume "(case find (\<lambda>u. us_ID u = tx_owner t) (cd_users (ad_cal db)) of None \<Rightarrow> Inl (Wrap ErrNotFound [])
       | Some row \<Rightarrow>
           let cur = SleepSchedule db (tx_owner t) in
           (case ?f (row, cur) of
              Inl e \<Rightarrow> Inl e
            | Inr (u, ws) \<Rightarrow>
                let row1 = settings_row db row u in
                if \<not> user_check row1 then Inl (Wrap ErrInvalid ''check violation'')
                else let db1 = set_ad_cal db ((ad_cal db)\<lparr>cd_users := ?us row1\<rparr>)
                in (case (if cur = ws then Inr db1 else replaceSleep db1 (tx_owner t) ws) of
                      Inl e \<Rightarrow> Inl e
                    | Inr db2 \<Rightarrow> Inr ((u\<lparr>us_UpdatedAt := ad_now db\<rparr>, ws),
                        ad_change t db2 (Change0\<lparr>ch_OwnerID := tx_owner t, ch_Entity := ''settings'', ch_EntityID := tx_owner t, ch_Op := ''update''\<rparr>))))) = Inr (r, d)"
  then obtain row row1 u ws db1 db2 k where f: "find (\<lambda>u. us_ID u = tx_owner t) (cd_users (ad_cal db)) = Some row"
      and row1: "row1 = settings_row db row u" "user_check row1"
      and db1: "db1 = set_ad_cal db ((ad_cal db)\<lparr>cd_users := ?us row1\<rparr>)"
      and db2: "db2 = db1 \<or> replaceSleep db1 (tx_owner t) ws = Inr db2" and d: "d = ad_change t db2 k"
    unfolding Let_def by (force split: option.splits sum.splits if_splits prod.splits)
  have id: "us_ID row1 = tx_owner t" using f by (auto simp: row1 settings_row_def find_Some_iff)
  have ids: "us_ID ` set (?us row1) = us_ID ` set (cd_users (ad_cal db))" 
  proof -
    have "map us_ID (map (\<lambda>x. if us_ID x = tx_owner t then row1 else x) xs) = map us_ID xs" for xs
      using id by (induction xs) auto
    then show ?thesis by (metis set_map)
  qed
  have sl: "filter (\<lambda>(u, w). u \<noteq> tx_owner t) (ad_sleep db2) = filter (\<lambda>(u, w). u \<noteq> tx_owner t) (ad_sleep db)"
    using db2 by (auto simp: db1 account_simps dest!: replaceSleepD(1) simp: filter_map comp_def)
  have sc: "accounts_ok db \<Longrightarrow> list_all sleep_check (ad_sleep db2) \<and> sleep_keys (ad_sleep db2)"
    using db2 by (auto simp: db1 account_simps accounts_ok_def Let_def dest: replaceSleepD(2,3))
  have cal: "ad_cal db2 = (ad_cal db)\<lparr>cd_users := ?us row1\<rparr>" "ad_shares db2 = ad_shares db"
    using db2 by (auto simp: db1 account_simps dest!: replaceSleepD(1))
  show "keeps_accounts (tx_owner t) db d"
    unfolding keeps_accounts_def
  proof
    assume ok: "accounts_ok db"
    have u: "list_all user_check (?us row1)"
      by (rule list_all_replaced) (use ok row1 in \<open>simp_all add: accounts_ok_def Let_def\<close>)
    have "calendar_refs (?us row1) (cd_calendars (ad_cal db))"
      using ok unfolding accounts_ok_def Let_def calendar_refs_def ids by simp
    moreover have "share_refs (?us row1) (cd_calendars (ad_cal db)) (ad_shares db)"
      by (rule share_refs_mono [of "cd_users (ad_cal db)" "cd_calendars (ad_cal db)"]) (use ok ids in \<open>simp_all add: accounts_ok_def Let_def\<close>)
    ultimately have "accounts_ok d"
      using ok u sc [OF ok] unfolding d accounts_ok_def Let_def by (simp add: account_simps cal)
    moreover have "filter (\<lambda>u. us_ID u \<noteq> tx_owner t) (?us row1) = filter (\<lambda>u. us_ID u \<noteq> tx_owner t) (cd_users (ad_cal db))"
      by (rule filter_map_other) (use id in auto)
    ultimately show "accounts_ok d \<and> strangers (tx_owner t) d = strangers (tx_owner t) db \<and> defaults d = defaults db"
      unfolding d by (simp add: strangers_def defaults_def account_simps cal sl)
  qed
qed

subsection \<open>Shares\<close>

lemma commit_sharesD:
  assumes "commit_shares db ss = Inr d"
  shows "d = db\<lparr>ad_shares := ss\<rparr>" "list_all share_check ss" "share_keys ss"
    "share_refs (cd_users (ad_cal db)) (cd_calendars (ad_cal db)) ss"
  using assms by (simp_all add: commit_shares_def split: if_splits)

lemma keeps_shares:
  assumes c: "commit_shares db ss = Inr d"
    and others: "filter (\<lambda>s. sh_OwnerID s \<noteq> owner) ss = filter (\<lambda>s. sh_OwnerID s \<noteq> owner) (ad_shares db)"
  shows "keeps_accounts owner db (ad_change t d k)"
  using others commit_sharesD [OF c]
  by (simp add: keeps_accounts_def accounts_ok_def Let_def strangers_def defaults_def account_simps)

lemma keeps_CreateShare: "sh_OwnerID s = tx_owner t \<Longrightarrow> keeps_accounts (tx_owner t) db (snd (CreateShare t db s))"
  unfolding CreateShare_def Let_def
  by (rule keeps_WithAccount) (auto split: sum.splits intro!: keeps_shares)

lemma keeps_UpdateShare: "keeps_accounts (tx_owner t) db (snd (UpdateShare t db i fn))"
  unfolding UpdateShare_def Let_def
proof (rule keeps_WithAccount)
  let ?ss = "\<lambda>row. map (\<lambda>r. if sh_ID r = i \<and> sh_OwnerID r = tx_owner t then row else r) (ad_shares db)"
  fix r d
  assume "(case Share_get db (tx_owner t) i of Inl e \<Rightarrow> Inl e
      | Inr s \<Rightarrow> (case fn s of Inl e \<Rightarrow> Inl e
          | Inr s1 \<Rightarrow> (case commit_shares db (?ss (share_row db s s1)) of Inl e \<Rightarrow> Inl e
              | Inr db1 \<Rightarrow> Inr (share_row db s s1, ad_change t db1 (shareChange s1 ''update''))))) = Inr (r, d)"
  then obtain s s1 d1 k where g: "Share_get db (tx_owner t) i = Inr s" and d: "d = ad_change t d1 k"
      and cm: "commit_shares db (?ss (share_row db s s1)) = Inr d1"
    by (auto split: sum.splits)
  have "sh_OwnerID (share_row db s s1) = tx_owner t"
    using g by (auto simp: share_row_def Share_get_def find_Some_iff split: option.splits)
  then have "filter (\<lambda>s. sh_OwnerID s \<noteq> tx_owner t) (?ss (share_row db s s1)) = filter (\<lambda>s. sh_OwnerID s \<noteq> tx_owner t) (ad_shares db)"
    by (intro filter_map_other) auto
  then show "keeps_accounts (tx_owner t) db d" unfolding d by (rule keeps_shares [OF cm])
qed

lemma share_period_same: "share_period v p b s = (v1, s1) \<Longrightarrow> sh_OwnerID s1 = sh_OwnerID s \<and> sh_ID s1 = sh_ID s"
  by (auto simp: share_period_def Let_def split: if_splits option.splits)

lemma share_calendars_same: "share_calendars t db v p s = (v1, s1) \<Longrightarrow> sh_OwnerID s1 = sh_OwnerID s \<and> sh_ID s1 = sh_ID s"
  by (auto simp: share_calendars_def split: prod.splits option.splits)

lemma apply_share_owner:
  assumes "apply_share t db s p b = Inr s1"
  shows "sh_OwnerID s1 = sh_OwnerID s \<and> sh_ID s1 = sh_ID s"
  using assms unfolding apply_share_def Let_def
  by (auto split: prod.splits option.splits if_splits dest!: share_calendars_same share_period_same)

lemma keeps_share_ops:
  "keeps_accounts (tx_owner t) db (snd (Shares_Create v t f db i p))"
  "keeps_accounts (tx_owner t) db (snd (Shares_Update v t db i p m))"
  "keeps_accounts (tx_owner t) db (snd (Shares_Regenerate v t f db i))"
  "keeps_accounts (tx_owner t) db (snd (Shares_Revoke t db i now))"
proof -
  have "keeps_accounts (tx_owner t) db (snd (CreateShare t db (issue_share v t f s)))"
    if "apply_share t db (Share0 i (tx_owner t)) p True = Inr s" for s
    using apply_share_owner [OF that] by (intro keeps_CreateShare) (simp add: issue_share_def Share0_def)
  then show "keeps_accounts (tx_owner t) db (snd (Shares_Create v t f db i p))"
    unfolding Shares_Create_def Let_def by (auto split: sum.split prod.split)
  have u: "keeps_accounts (tx_owner t) db d" if "UpdateShare t db i fn = (r, d)" for fn r d
    using keeps_UpdateShare [of t db i fn] that by simp
  show "keeps_accounts (tx_owner t) db (snd (Shares_Update v t db i p m))"
    "keeps_accounts (tx_owner t) db (snd (Shares_Regenerate v t f db i))"
    "keeps_accounts (tx_owner t) db (snd (Shares_Revoke t db i now))"
    unfolding Shares_Update_def Shares_Regenerate_def Shares_Revoke_def
    by (auto split: prod.split sum.split intro: u)
qed

subsection \<open>Opening a link\<close>

lemma ShareByTokenHash_iff:
  "ShareByTokenHash db h = Inr s \<Longrightarrow> s \<in> set (ad_shares db) \<and> sh_TokenHash s = h \<and> sh_RevokedAt s = None \<and> user_enabled db (sh_OwnerID s)"
  by (auto simp: ShareByTokenHash_def find_Some_iff split: option.splits)

lemma keeps_Touch: "accounts_ok db \<Longrightarrow> accounts_ok (TouchShare db i now)"
proof -
  assume ok: "accounts_ok db"
  let ?f = "\<lambda>s. if sh_ID s = i then s\<lparr>sh_AccessCount := sh_AccessCount s + 1, sh_LastAccessedAt := Some (db_time now)\<rparr> else s"
  have c: "map sh_ID (map ?f ss) = map sh_ID ss" "map sh_TokenHash (map ?f ss) = map sh_TokenHash ss"
      "list_all (\<lambda>s. distinct (sh_Calendars s)) (map ?f ss) = list_all (\<lambda>s. distinct (sh_Calendars s)) ss"
      "list_all share_check (map ?f ss) = list_all share_check ss"
      "share_refs us cs (map ?f ss) = share_refs us cs ss" for ss us cs
    by (induction ss) (auto simp: share_check_def share_refs_def)
  show ?thesis
    using ok unfolding accounts_ok_def Let_def TouchShare_def by (simp add: account_simps share_keys_def c del: map_map)
qed

text \<open>The operations of an owner, as steps.\<close>

inductive account_step :: "share_env \<Rightarrow> tx_ctx \<Rightarrow> account_db \<Rightarrow> account_db \<Rightarrow> bool" for v t where
  cal_create: "account_step v t db (snd (Calendars_Create t db i cp))"
| cal_update: "account_step v t db (snd (Calendars_Update t db i cp m))"
| cal_delete: "account_step v t db (snd (Calendars_Delete t db i m))"
| settings: "account_step v t db (snd (Settings_Update t db stp m))"
| share_create: "account_step v t db (snd (Shares_Create v t f db i sp))"
| share_update: "account_step v t db (snd (Shares_Update v t db i sp m))"
| share_regenerate: "account_step v t db (snd (Shares_Regenerate v t f db i))"
| share_revoke: "account_step v t db (snd (Shares_Revoke t db i now))"

lemma account_step_keeps: "account_step v t db d \<Longrightarrow> keeps_accounts (tx_owner t) db d"
  by (induction rule: account_step.induct) (rule keeps_calendar_ops keeps_Settings keeps_share_ops)+

text \<open>C19.
  The tables of an account stay well formed, and its owner touches nobody else's.  Whatever sequence of
  operations on calendars, settings and share links an owner runs, failed ones included, every row keeps
  its constraints, every share link still names only calendars of its own owner, every event and link
  still has its calendar, the default calendars of everyone are still there, and the users, calendars,
  events, links and sleep windows of other owners are unchanged.
\<close>

theorem accounts_invariant:
  assumes "(account_step v t)\<^sup>*\<^sup>* db d" and "accounts_ok db"
  shows "accounts_ok d \<and> strangers (tx_owner t) d = strangers (tx_owner t) db \<and> defaults d = defaults db \<and>
    (\<forall>s \<in> set (ad_shares d). \<forall>i \<in> set (sh_Calendars s). \<exists>c \<in> set (cd_calendars (ad_cal d)). cal_ID c = i \<and> cal_OwnerID c = sh_OwnerID s)"
proof -
  have k: "accounts_ok d \<and> strangers (tx_owner t) d = strangers (tx_owner t) db \<and> defaults d = defaults db"
    using assms
  proof (induction rule: rtranclp_induct)
    case (step y z)
    then show ?case using account_step_keeps [OF step(2)] by (simp add: keeps_accounts_def)
  qed simp
  then have "\<forall>s \<in> set (ad_shares d). \<forall>i \<in> set (sh_Calendars s). \<exists>c \<in> set (cd_calendars (ad_cal d)). cal_ID c = i \<and> cal_OwnerID c = sh_OwnerID s"
    by (auto simp: accounts_ok_def Let_def share_refs_def list_all_iff list_ex_iff)
  with k show ?thesis by blast
qed

subsection \<open>Dead links\<close>

text \<open>Any owner's step, or a visit.\<close>

inductive any_step :: "share_env \<Rightarrow> account_db \<Rightarrow> account_db \<Rightarrow> bool" for v where
  owner_step: "account_step v t db d \<Longrightarrow> any_step v db d"
| visit: "any_step v db (snd (Shares_Open v db tok cnt now))"

definition dead :: "string \<Rightarrow> go_id \<Rightarrow> account_db \<Rightarrow> bool" where
  "dead h i db \<longleftrightarrow> (\<exists>r \<in> set (ad_shares db). sh_ID r = i \<and> sh_TokenHash r = h \<and> sh_RevokedAt r \<noteq> None)"

lemma dead_cong: "ad_shares d = ad_shares db \<Longrightarrow> dead h i db \<Longrightarrow> dead h i d"
  by (simp add: dead_def)

lemma dead_map:
  assumes "\<And>r. sh_ID (f r) = sh_ID r \<and> sh_TokenHash (f r) = sh_TokenHash r \<and> (sh_RevokedAt (f r) = None) = (sh_RevokedAt r = None)"
    and "ad_shares d = map f (ad_shares db)" and "dead h i db"
  shows "dead h i d"
  using assms unfolding dead_def by fastforce

lemma dead_WithAccount:
  "(\<And>r d. fn db = Inr (r, d) \<Longrightarrow> dead h i d) \<Longrightarrow> dead h i db \<Longrightarrow> dead h i (snd (WithAccount db fn))"
  by (auto simp: WithAccount_def split: sum.split)

lemma set_ad_cal_shares: "commit_calendars db cs = Inr d \<Longrightarrow> ad_shares d = ad_shares db"
  by (drule commit_calendarsD(1)) (simp add: account_simps)

lemma dead_change [simp]: "dead h i (ad_change t d k) = dead h i d"
  by (simp add: dead_def account_simps)

lemma dead_calendars:
  assumes "dead h i db"
  shows "dead h i (snd (CreateCalendar t db c))" "dead h i (snd (UpdateCalendar t db j fn))" "dead h i (snd (DeleteCalendar t db j gn))"
proof -
  show "dead h i (snd (CreateCalendar t db c))" unfolding CreateCalendar_def Let_def
    by (rule dead_WithAccount [OF _ assms]) (auto split: sum.splits dest: set_ad_cal_shares intro!: dead_cong [OF _ assms])
  show "dead h i (snd (UpdateCalendar t db j fn))" unfolding UpdateCalendar_def Let_def
    by (rule dead_WithAccount [OF _ assms]) (auto split: sum.splits dest: set_ad_cal_shares intro!: dead_cong [OF _ assms])
  have "dead h i (drop_calendar db j)"
    by (rule dead_map [OF _ drop_calendar_parts(4) assms]) simp
  then show "dead h i (snd (DeleteCalendar t db j gn))" unfolding DeleteCalendar_def
    by (intro dead_WithAccount [OF _ assms]) (auto split: sum.splits option.splits if_splits)
qed

lemma dead_settings: "dead h i db \<Longrightarrow> dead h i (snd (UpdateSettings t db fn))"
proof -
  assume a: "dead h i db"
  have d: "dead h i (set_ad_cal db x)" for x using a by (simp add: dead_def account_simps)
  have "dead h i e" if "replaceSleep (set_ad_cal db x) u ws = Inr e" for x u ws e
    using d by (simp add: replaceSleepD(1) [OF that] dead_def)
  then show ?thesis
    unfolding UpdateSettings_def Let_def
    by (intro dead_WithAccount [OF _ a]) (auto split: option.splits sum.splits prod.splits if_splits intro: d)
qed

lemma dead_CreateShare: "dead h i db \<Longrightarrow> dead h i (snd (CreateShare t db s))"
proof -
  assume a: "dead h i db"
  have "dead h i (ad_change t d k)" if "commit_shares db (ad_shares db @ [row]) = Inr d" for row d k
    using a by (auto simp: dead_def commit_sharesD(1) [OF that] account_simps)
  then show ?thesis
    unfolding CreateShare_def Let_def by (intro dead_WithAccount [OF _ a]) (auto split: sum.splits)
qed

text \<open>A change that refuses revoked links, or leaves their token and date alone, keeps them dead.\<close>

lemma dead_UpdateShare:
  assumes a: "dead h i db" and ok: "accounts_ok db"
    and fn: "\<And>s s1. fn s = Inr s1 \<Longrightarrow> sh_RevokedAt s \<noteq> None \<Longrightarrow> sh_RevokedAt s1 \<noteq> None \<and> sh_TokenHash s1 = sh_TokenHash s"
  shows "dead h i (snd (UpdateShare t db j fn))"
  unfolding UpdateShare_def Let_def
proof (rule dead_WithAccount [OF _ a])
  let ?ss = "\<lambda>row. map (\<lambda>r. if sh_ID r = j \<and> sh_OwnerID r = tx_owner t then row else r) (ad_shares db)"
  fix r d
  assume "(case Share_get db (tx_owner t) j of Inl e \<Rightarrow> Inl e
      | Inr s \<Rightarrow> (case fn s of Inl e \<Rightarrow> Inl e
          | Inr s1 \<Rightarrow> (case commit_shares db (?ss (share_row db s s1)) of Inl e \<Rightarrow> Inl e
              | Inr db1 \<Rightarrow> Inr (share_row db s s1, ad_change t db1 (shareChange s1 ''update''))))) = Inr (r, d)"
  then obtain s s1 d1 k where g: "Share_get db (tx_owner t) j = Inr s" and f: "fn s = Inr s1" and d: "d = ad_change t d1 k"
      and cm: "commit_shares db (?ss (share_row db s s1)) = Inr d1"
    by (auto split: sum.splits)
  have s: "s \<in> set (ad_shares db)" "sh_ID s = j" using g by (auto simp: Share_get_def find_Some_iff split: option.splits)
  from a obtain x where x: "x \<in> set (ad_shares db)" "sh_ID x = i" "sh_TokenHash x = h" "sh_RevokedAt x \<noteq> None"
    by (auto simp: dead_def)
  define y where "y = (if sh_ID x = j \<and> sh_OwnerID x = tx_owner t then share_row db s s1 else x)"
  have "y \<in> set (?ss (share_row db s s1))" using x(1) by (auto simp: y_def)
  then have yi: "y \<in> set (ad_shares d)" unfolding d commit_sharesD(1) [OF cm] by (simp add: account_simps)
  have "sh_ID y = i \<and> sh_TokenHash y = h \<and> sh_RevokedAt y \<noteq> None"
  proof (cases "sh_ID x = j \<and> sh_OwnerID x = tx_owner t")
    case True
    have "distinct (map sh_ID (ad_shares db))" using ok by (simp add: accounts_ok_def Let_def share_keys_def)
    then have "x = s" using True x(1) s by (metis inj_on_eq_iff distinct_map)
    then show ?thesis using fn [OF f] x True by (simp add: y_def share_row_def)
  next
    case False
    then have "y = x" by (simp only: y_def if_False)
    then show ?thesis using x by simp
  qed
  then show "dead h i d" using yi unfolding dead_def by blast
qed

lemma dead_step:
  assumes "account_step v t db d" and "dead h i db" and "accounts_ok db"
  shows "dead h i d"
  using assms
proof (induction rule: account_step.induct)
  case (cal_create db j cp)
  then show ?case unfolding Calendars_Create_def by (auto split: sum.split intro: dead_calendars)
next
  case (share_create db f j sp)
  have u: "dead h i d" if "CreateShare t db s = (r, d)" for s r d
    using dead_CreateShare [OF share_create(1), of t s] that by simp
  show ?case unfolding Shares_Create_def Let_def
    using share_create(1) by (auto split: sum.split prod.split intro: u)
next
  case (share_update db j sp m)
  have u: "dead h i d" if "UpdateShare t db j (\<lambda>s. if \<not> Share_Active s then Inl revoked_error
      else case CheckIfMatch m (Share_ETag s) of Some e \<Rightarrow> Inl e | None \<Rightarrow> apply_share t db s sp False) = (r, d)" for r d
    using dead_UpdateShare [OF share_update, where t = t and j = j and fn = "\<lambda>s. if \<not> Share_Active s then Inl revoked_error
      else case CheckIfMatch m (Share_ETag s) of Some e \<Rightarrow> Inl e | None \<Rightarrow> apply_share t db s sp False"] that
    by (auto simp: Share_Active_def)
  show ?case unfolding Shares_Update_def by (auto split: prod.split sum.split intro: u)
next
  case (share_regenerate db f j)
  have u: "dead h i d" if "UpdateShare t db j (\<lambda>s. if \<not> Share_Active s then Inl revoked_error else Inr (issue_share v t f s)) = (r, d)" for r d
    using dead_UpdateShare [OF share_regenerate, where t = t and j = j and
        fn = "\<lambda>s. if \<not> Share_Active s then Inl revoked_error else Inr (issue_share v t f s)"] that
    by (auto simp: Share_Active_def)
  show ?case unfolding Shares_Regenerate_def by (auto split: prod.split sum.split intro: u)
next
  case (share_revoke db j now)
  have u: "dead h i d" if "UpdateShare t db j (\<lambda>s. Inr (if Share_Active s then s\<lparr>sh_RevokedAt := Some now\<rparr> else s)) = (r, d)" for r d
    using dead_UpdateShare [OF share_revoke, where t = t and j = j and
        fn = "\<lambda>s. Inr (if Share_Active s then s\<lparr>sh_RevokedAt := Some now\<rparr> else s)"] that
    by (auto simp: Share_Active_def split: if_splits)
  show ?case unfolding Shares_Revoke_def by (auto split: prod.split sum.split intro: u)
qed (simp_all add: Calendars_Update_def Calendars_Delete_def Settings_Update_def dead_calendars dead_settings)

lemma any_step_dead:
  assumes "any_step v db d" and "dead h i db" and "accounts_ok db"
  shows "dead h i d \<and> accounts_ok d"
  using assms
proof (cases rule: any_step.cases)
  case (owner_step t)
  then show ?thesis
    using dead_step [OF owner_step assms(2,3)] account_step_keeps [OF owner_step] assms(3) by (simp add: keeps_accounts_def)
next
  case (visit tok cnt now)
  have "dead h i (TouchShare db j now)" for j
    by (rule dead_map [where f = "\<lambda>s. if sh_ID s = j then s\<lparr>sh_AccessCount := sh_AccessCount s + 1, sh_LastAccessedAt := Some (db_time now)\<rparr> else s"
          and db = db]) (use assms(2) in \<open>auto simp: TouchShare_def\<close>)
  then show ?thesis using assms(2,3) visit keeps_Touch by (auto simp: Shares_Open_def split: sum.split)
qed

lemma dead_refused:
  assumes "dead h i db" and "accounts_ok db" and "sv_HashToken v tok = h"
  shows "Shares_Open v db tok cnt at = (Inl (Wrap ErrNotFound []), db)"
proof -
  from assms(1) obtain x where x: "x \<in> set (ad_shares db)" "sh_TokenHash x = h" "sh_RevokedAt x \<noteq> None" by (auto simp: dead_def)
  have "distinct (map sh_TokenHash (ad_shares db))" using assms(2) by (simp add: accounts_ok_def Let_def share_keys_def)
  then have "y = x" if "y \<in> set (ad_shares db)" "sh_TokenHash y = h" for y
    using that x by (metis inj_on_eq_iff distinct_map)
  then have "ShareByTokenHash db h = Inl (Wrap ErrNotFound [])"
    using x(3) unfolding ShareByTokenHash_def by (auto split: option.split simp: find_Some_iff dest!: nth_mem)
  then show ?thesis using assms(3) by (simp add: Shares_Open_def)
qed


text \<open>Revoking a link always succeeds.\<close>

lemma revoke_succeeds:
  assumes ok: "accounts_ok db" and r: "r \<in> set (ad_shares db)" "sh_OwnerID r = tx_owner t"
  shows "\<exists>d. Shares_Revoke t db (sh_ID r) now = (None, d) \<and> dead (sh_TokenHash r) (sh_ID r) d"
proof -
  have o: "list_all share_check (ad_shares db)" "distinct (map sh_ID (ad_shares db))" "distinct (map sh_TokenHash (ad_shares db))"
      "list_all (\<lambda>s. distinct (sh_Calendars s)) (ad_shares db)" "share_refs (cd_users (ad_cal db)) (cd_calendars (ad_cal db)) (ad_shares db)"
    using ok by (simp_all add: accounts_ok_def Let_def share_keys_def)
  have u: "y = r" if "y \<in> set (ad_shares db)" "sh_ID y = sh_ID r" for y
    using o(2) r(1) that by (metis inj_on_eq_iff distinct_map)
  have g: "Share_get db (tx_owner t) (sh_ID r) = Inr r"
  proof (cases "find (\<lambda>s. sh_ID s = sh_ID r \<and> sh_OwnerID s = tx_owner t) (ad_shares db)")
    case None
    then show ?thesis using r by (auto simp: find_None_iff)
  next
    case (Some x)
    then have "x \<in> set (ad_shares db)" "sh_ID x = sh_ID r" by (auto simp: find_Some_iff)
    then show ?thesis using u Some by (simp add: Share_get_def)
  qed
  define s1 where "s1 = (if Share_Active r then r\<lparr>sh_RevokedAt := Some now\<rparr> else r)"
  define row where "row = share_row db r s1"
  define ss where "ss = map (\<lambda>y. if sh_ID y = sh_ID r \<and> sh_OwnerID y = tx_owner t then row else y) (ad_shares db)"
  have row: "sh_ID row = sh_ID r" "sh_OwnerID row = sh_OwnerID r" "sh_TokenHash row = sh_TokenHash r" "sh_Name row = sh_Name r"
      "sh_View row = sh_View r" "sh_Detail row = sh_Detail r" "sh_TZMode row = sh_TZMode r" "set (sh_Calendars row) = set (sh_Calendars r)"
      "distinct (sh_Calendars row) = distinct (sh_Calendars r)" "sh_RevokedAt row \<noteq> None"
    by (simp_all add: row_def share_row_def s1_def Share_Active_def)
  have ss: "map f ss = map f (ad_shares db)" if "f row = f r" for f :: "Share \<Rightarrow> 'a"
    unfolding ss_def map_map comp_def using that u by (intro map_cong) auto
  have "list_all share_check ss" unfolding ss_def
    by (rule list_all_replaced [OF o(1)]) (use o(1) r(1) row in \<open>auto simp: list_all_iff share_check_def\<close>)
  moreover have "share_keys ss"
  proof -
    have "list_all (\<lambda>s. distinct (sh_Calendars s)) ss" unfolding ss_def
      by (rule list_all_replaced [OF o(4)]) (use o(4) r(1) row in \<open>auto simp: list_all_iff\<close>)
    then show ?thesis using o row by (simp add: share_keys_def ss)
  qed
  moreover have "share_refs (cd_users (ad_cal db)) (cd_calendars (ad_cal db)) ss"
    unfolding share_refs_def ss_def
    by (rule list_all_replaced) (use o(5) r(1) row in \<open>auto simp: share_refs_def list_all_iff\<close>)
  ultimately have cm: "commit_shares db ss = Inr (db\<lparr>ad_shares := ss\<rparr>)" by (simp add: commit_shares_def)
  have "UpdateShare t db (sh_ID r) (\<lambda>s. Inr (if Share_Active s then s\<lparr>sh_RevokedAt := Some now\<rparr> else s)) =
      (Inr row, ad_change t (db\<lparr>ad_shares := ss\<rparr>) (shareChange s1 ''update''))"
    unfolding UpdateShare_def WithAccount_def g Let_def
    by (simp add: s1_def [symmetric] row_def [symmetric] ss_def [unfolded row_def, symmetric] cm [unfolded row_def])
  moreover have "dead (sh_TokenHash r) (sh_ID r) (db\<lparr>ad_shares := ss\<rparr>)"
    using r row unfolding dead_def ss_def by (auto intro!: bexI [of _ row] simp: image_iff)
  ultimately show ?thesis by (simp add: Shares_Revoke_def)
qed

text \<open>C20.
  A revoked link stays dead.  Revoking a link of one's own always succeeds, and from then on, whatever any
  owner does with calendars, settings and links and however often links are visited, the token of that
  link is answered as not found and changes nothing.
\<close>

theorem revoked_link_stays_dead:
  assumes ok: "accounts_ok db" and r: "r \<in> set (ad_shares db)" "sh_OwnerID r = tx_owner t"
    and tok: "sv_HashToken v tok = sh_TokenHash r"
  shows "\<exists>d. Shares_Revoke t db (sh_ID r) now = (None, d) \<and>
    (\<forall>e cnt at. (any_step v)\<^sup>*\<^sup>* d e \<longrightarrow> Shares_Open v e tok cnt at = (Inl (Wrap ErrNotFound []), e))"
proof -
  obtain d where d: "Shares_Revoke t db (sh_ID r) now = (None, d)" "dead (sh_TokenHash r) (sh_ID r) d"
    using revoke_succeeds [OF ok r] by blast
  have dok: "accounts_ok d"
    using keeps_share_ops(4) [of t db "sh_ID r" now] ok d(1) by (simp add: keeps_accounts_def)
  have "dead (sh_TokenHash r) (sh_ID r) e \<and> accounts_ok e" if "(any_step v)\<^sup>*\<^sup>* d e" for e
    using that
  proof (induction rule: rtranclp_induct)
    case (step y z)
    then show ?case using any_step_dead by blast
  qed (simp add: d dok)
  then show ?thesis using d(1) dead_refused tok by blast
qed

subsection \<open>What a link shows\<close>

lemma page_cases:
  assumes o: "Shares_Open v db tok True now = (Inr s, db1)" and u: "user_of db1 (sh_OwnerID s) = Inr owner"
  shows "feed v env product db tok now = (Inr (Encode env now product (feed_set env db1 s owner) (sh_Name s)), db1)"
  by (simp add: feed_def o u)

lemma FromTodos_todo: "i \<in> set (FromTodos f zi ts ls) \<Longrightarrow> it_Todo i"
  by (auto simp: FromTodos_def item_of_todo_def map_filter_def Let_def split: option.splits prod.splits if_splits)

lemma Redact_mem:
  "i \<in> set (Redact items det) \<Longrightarrow> \<exists>x \<in> set items. i = redact_item det x \<and> \<not> it_Private x"
  by (auto simp: Redact_def)

lemma redact_item_Todo [simp]: "it_Todo (redact_item det x) = it_Todo x"
  by (simp add: redact_item_def Let_def)

lemma public_items:
  assumes "public v env mx db tok fr tz now = (Inr (items, sl), d)"
  obtains s owner r where "Shares_Open v db tok (\<not> fr) now = (Inr s, d)" "user_of d (sh_OwnerID s) = Inr owner"
    "Load env mx d \<lparr>tq_Owner = owner, tq_Loc = share_zone env s owner tz, tq_Period = sharePeriod s owner,
       tq_Calendars = ListCalendars (ad_cal d) (sh_OwnerID s), tq_Selected = sh_Calendars s,
       tq_Todos = sh_IncludeTodos s, tq_Sleep = sh_ShowSleep s\<rparr> = Inr r"
    "items = Redact (tlr_Items r) (sh_Detail s)"
  using assms by (auto simp: public_def split: prod.splits sum.splits)

lemma public_opens:
  assumes "public v env mx db tok fr tz now = (Inr (items, sl), d)"
  shows "\<exists>s (r :: timeline_result). Shares_Open v db tok (\<not> fr) now = (Inr s, d) \<and> items = Redact (tlr_Items r) (sh_Detail s)"
  by (rule public_items [OF assms]) blast

lemma Open_same_share:
  assumes "Shares_Open v db tok a now = (Inr s, d)" and "Shares_Open v db tok b now' = (Inr s', d')"
  shows "s' = s"
  using assms by (auto simp: Shares_Open_def split: if_splits sum.splits)

text \<open>The events of a calendar in the feed of a link that is not reduced to busy times.\<close>

lemma group_master: "m \<in> set evs \<Longrightarrow> ev_SeriesID m = None \<Longrightarrow> \<exists>x \<in> set (group evs). trs_Master x = m"
  by (force simp: group_def)

lemma Encode_children:
  "c \<in> set (tr_Calendars s) \<Longrightarrow> x \<in> set (trc_Series c) \<Longrightarrow>
     encodeEvent (en_zones env) now (trs_Master x) \<in> set (comp_children (Encode env now product s name))"
  by (force simp: Encode_def comp_children_def)

lemma feed_shows:
  assumes det: "sh_Detail s \<noteq> DetailBusy" and rg: "Range (sharePeriod s owner) (User_Location (en_zones env) owner) = (from, to)"
    and c: "c \<in> set (cd_calendars (ad_cal db))" "cal_OwnerID c = sh_OwnerID s" "wanted (sh_Calendars s) (cal_ID c)"
    and e: "e \<in> fst ` set (cd_events (ad_cal db))" "event_visible (sh_OwnerID s) e" "ev_CalendarID e = cal_ID c" "ev_SeriesID e = None"
      "ev_Visibility e \<noteq> ''private''" "event_overlaps env e from to"
  shows "encodeEvent (en_zones env) now e \<in> set (comp_children (Encode env now product (feed_set env db s owner) (sh_Name s)))"
proof -
  define kept where "kept = filter (\<lambda>e. \<not> (ev_Visibility e = ''private'' \<or> \<not> event_overlaps env e from to)) (CalendarEvents (ad_cal db) (sh_OwnerID s) (cal_ID c))"
  have k: "e \<in> set kept" using e by (simp add: kept_def CalendarEvents_set)
  then have rc: "range_calendar env (ad_cal db) (sh_OwnerID s) from to c = Some (tcalendar c kept)"
  proof -
    assume "e \<in> set kept"
    then have "kept \<noteq> []" by auto
    then show ?thesis unfolding range_calendar_def kept_def [symmetric] Let_def by simp
  qed
  have cl: "c \<in> set (ListCalendars (ad_cal db) (sh_OwnerID s))" using c by (simp add: ListCalendars_def)
  have fs: "feed_set env db s owner = Export_Range env (ad_todo db) (User_Location (en_zones env) owner) (sh_OwnerID s) (sh_Calendars s) from to (sh_IncludeTodos s)"
    using det by (simp add: feed_set_def rg Let_def)
  have "tcalendar c kept \<in> set (tr_Calendars (feed_set env db s owner))"
    unfolding fs using rc cl c(3) by (force simp: Export_Range_def map_filter_def ad_cal_def [symmetric] image_iff)
  moreover obtain x where "x \<in> set (trc_Series (tcalendar c kept))" "trs_Master x = e"
    using group_master [OF k e(4)] by (auto simp: tcalendar_def)
  ultimately show ?thesis using Encode_children by metis
qed



lemma encodeEvent_texts:
  "ev_Body e \<noteq> [] \<Longrightarrow> (''DESCRIPTION'', P_text (ev_Body e)) \<in> set (comp_props (encodeEvent zi now e))"
  "ev_Location e \<noteq> [] \<Longrightarrow> (''LOCATION'', P_text (ev_Location e)) \<in> set (comp_props (encodeEvent zi now e))"
  by (simp_all add: encodeEvent_def comp_props_def text_prop_def)

text \<open>C22.
  The feed of a link that shares titles shows descriptions and places.  The page of a link whose detail is
  titles has no place and no excerpt on any item; the feed of the same link contains the description and
  the place of every event it shows.
\<close>

theorem titles_link_leaks:
  assumes o: "Shares_Open v db tok True now = (Inr s, db1)" and u: "user_of db1 (sh_OwnerID s) = Inr owner"
    and det: "sh_Detail s = DetailTitles"
    and rg: "Range (sharePeriod s owner) (User_Location (en_zones env) owner) = (from, to)"
    and c: "c \<in> set (cd_calendars (ad_cal db1))" "cal_OwnerID c = sh_OwnerID s" "cal_ID c \<in> set (sh_Calendars s)"
    and e: "e \<in> fst ` set (cd_events (ad_cal db1))" "event_visible (sh_OwnerID s) e" "ev_CalendarID e = cal_ID c" "ev_SeriesID e = None"
      "ev_Visibility e \<noteq> ''private''" "event_overlaps env e from to"
    and tx: "ev_Body e \<noteq> []" "ev_Location e \<noteq> []"
  shows "(\<exists>k x. feed v env product db tok now = (Inr k, db1) \<and> x \<in> set (comp_children k) \<and>
      (''DESCRIPTION'', P_text (ev_Body e)) \<in> set (comp_props x) \<and> (''LOCATION'', P_text (ev_Location e)) \<in> set (comp_props x)) \<and>
    (\<forall>mx fr tz items sl d. public v env mx db tok fr tz now = (Inr (items, sl), d) \<longrightarrow>
      (\<forall>i \<in> set items. it_Location i = [] \<and> it_Excerpt i = []))"
proof (intro conjI allI impI ballI)
  have nb: "sh_Detail s \<noteq> DetailBusy" using det by (simp add: DetailTitles_def DetailBusy_def)
  have w: "wanted (sh_Calendars s) (cal_ID c)" using c(3) by (simp add: wanted_def)
  show "\<exists>k x. feed v env product db tok now = (Inr k, db1) \<and> x \<in> set (comp_children k) \<and>
      (''DESCRIPTION'', P_text (ev_Body e)) \<in> set (comp_props x) \<and> (''LOCATION'', P_text (ev_Location e)) \<in> set (comp_props x)"
    using page_cases [OF o u] feed_shows [OF nb rg c(1,2) w e] encodeEvent_texts tx by blast
next
  fix mx fr tz items sl d i
  assume p: "public v env mx db tok fr tz now = (Inr (items, sl), d)" and i: "i \<in> set items"
  obtain s' and r :: timeline_result where q: "Shares_Open v db tok (\<not> fr) now = (Inr s', d)" "items = Redact (tlr_Items r) (sh_Detail s')"
    using public_opens [OF p] by blast
  have "sh_Detail s' = DetailTitles" using Open_same_share [OF o q(1)] det by simp
  then have "it_Location (redact_item (sh_Detail s') x) = []" "it_Excerpt (redact_item (sh_Detail s') x) = []" for x
    by (simp_all add: redact_item_def DetailTitles_def)
  then show "it_Location i = []" "it_Excerpt i = []" using i q(2) Redact_mem by blast+
qed

lemma blank_component:
  "comp_name (encodeEvent zi now (blank_event e)) = ''VEVENT'' \<and>
   (''SUMMARY'', P_text ''Busy'') \<in> set (comp_props (encodeEvent zi now (blank_event e))) \<and>
   {''DESCRIPTION'', ''LOCATION'', ''URL''} \<inter> fst ` set (comp_props (encodeEvent zi now (blank_event e))) = {} \<and>
   (\<forall>a \<in> set (comp_children (encodeEvent zi now (blank_event e))). (''DESCRIPTION'', P_text ''Busy'') \<in> set (comp_props a))"
  by (auto simp: encodeEvent_def comp_name_def comp_props_def comp_children_def blank_event_def text_prop_def stampProps_def
      time_prop_def setWhen_def setDates_def addAlarms_def split: option.splits if_splits)

text \<open>C23.
  A link that shares busy times gives nothing else away: every component of its feed is an event called
  Busy without description, place or URL, alarms included, no todo is in it, and every item of its page
  is called Busy, with no place, excerpt, calendar name or checklist.
\<close>

theorem busy_link_hides:
  assumes o: "Shares_Open v db tok True now = (Inr s, db1)" and u: "user_of db1 (sh_OwnerID s) = Inr owner"
    and det: "sh_Detail s = DetailBusy"
  shows "(\<exists>k. feed v env product db tok now = (Inr k, db1) \<and>
      (\<forall>x \<in> set (comp_children k). comp_name x = ''VEVENT'' \<and> (''SUMMARY'', P_text ''Busy'') \<in> set (comp_props x) \<and>
         {''DESCRIPTION'', ''LOCATION'', ''URL''} \<inter> fst ` set (comp_props x) = {} \<and>
         (\<forall>a \<in> set (comp_children x). (''DESCRIPTION'', P_text ''Busy'') \<in> set (comp_props a)))) \<and>
    (\<forall>mx fr tz items sl d. public v env mx db tok fr tz now = (Inr (items, sl), d) \<longrightarrow>
      (\<forall>i \<in> set items. it_Title i = ''Busy'' \<and> it_Location i = [] \<and> it_Excerpt i = [] \<and> it_CalendarName i = [] \<and>
         it_ChecksTotal i = 0 \<and> \<not> it_Private i))"
proof (intro conjI allI impI)
  define y where "y = feed_set env db1 s owner"
  have l: "tr_Lists y = []" and b: "x \<in> set (tr_Calendars y) \<Longrightarrow> w \<in> set (trc_Series x) \<Longrightarrow>
      (\<exists>e. trs_Master w = blank_event e) \<and> (\<exists>es. trs_Overrides w = map blank_event es)" for x w
    using det by (fastforce simp: y_def feed_set_def Let_def redactSet_def split: prod.splits)+
  have "\<exists>e. x = encodeEvent (en_zones env) now (blank_event e)" if "x \<in> set (comp_children (Encode env now product y (sh_Name s)))" for x
  proof -
    from that obtain c w where cw: "c \<in> set (tr_Calendars y)" "w \<in> set (trc_Series c)"
        "x = encodeEvent (en_zones env) now (trs_Master w) \<or> x \<in> encodeEvent (en_zones env) now ` set (trs_Overrides w)"
      by (auto simp: Encode_def comp_children_def l)
    then show ?thesis using b [OF cw(1,2)] by auto
  qed
  then have ch: "\<forall>x \<in> set (comp_children (Encode env now product y (sh_Name s))). comp_name x = ''VEVENT'' \<and>
      (''SUMMARY'', P_text ''Busy'') \<in> set (comp_props x) \<and> {''DESCRIPTION'', ''LOCATION'', ''URL''} \<inter> fst ` set (comp_props x) = {} \<and>
      (\<forall>a \<in> set (comp_children x). (''DESCRIPTION'', P_text ''Busy'') \<in> set (comp_props a))"
    using blank_component by metis
  show "\<exists>k. feed v env product db tok now = (Inr k, db1) \<and>
      (\<forall>x \<in> set (comp_children k). comp_name x = ''VEVENT'' \<and> (''SUMMARY'', P_text ''Busy'') \<in> set (comp_props x) \<and>
         {''DESCRIPTION'', ''LOCATION'', ''URL''} \<inter> fst ` set (comp_props x) = {} \<and>
         (\<forall>a \<in> set (comp_children x). (''DESCRIPTION'', P_text ''Busy'') \<in> set (comp_props a)))"
    using page_cases [OF o u, of env product] ch unfolding y_def by blast
next
  fix mx fr tz items sl d
  assume p: "public v env mx db tok fr tz now = (Inr (items, sl), d)"
  obtain s' and r :: timeline_result where q: "Shares_Open v db tok (\<not> fr) now = (Inr s', d)" "items = Redact (tlr_Items r) (sh_Detail s')"
    using public_opens [OF p] by blast
  have "sh_Detail s' = DetailBusy" using Open_same_share [OF o q(1)] det by simp
  then show "\<forall>i \<in> set items. it_Title i = ''Busy'' \<and> it_Location i = [] \<and> it_Excerpt i = [] \<and> it_CalendarName i = [] \<and>
      it_ChecksTotal i = 0 \<and> \<not> it_Private i"
    using q(2) by (auto simp: Redact_def redact_item_def DetailBusy_def)
qed

subsection \<open>Witnesses\<close>

definition fd_user :: User where
  "fd_user = \<lparr>us_ID = 1, us_Email = ''a@b.org'', us_EmailVerifiedAt = None, us_PasswordHash = [], us_DisplayName = [], us_Timezone = [],
     us_WeekStart = 1, us_TimeFormat = ''24h'', us_DefaultView = ''day'', us_SleepEnabled = False, us_DedupPolicy = ''off'',
     us_DateOnlyReminder = 540, us_CreatedAt = 0, us_UpdatedAt = 0, us_DisabledAt = None\<rparr>"

definition fd_calendar :: Calendar where
  "fd_calendar = Calendar0\<lparr>cal_ID := 5, cal_OwnerID := 1, cal_Name := ''home'', cal_Color := ''#3b6ea5'', cal_Kind := ''local'', cal_IsDefault := True\<rparr>"

definition fd_event :: Event where
  "fd_event = demo_plain\<lparr>ev_ID := 10, ev_OwnerID := 1, ev_CalendarID := 5, ev_UID := ''u'', ev_Title := ''trip'', ev_Body := ''room 4'',
     ev_Location := ''Bonn'', ev_Version := 1\<rparr>"

definition fd_token :: string where "fd_token = replicate 43 (CHR ''a'')"

definition fd_share :: "string \<Rightarrow> go_id list \<Rightarrow> Share" where
  "fd_share det cals = (Share0 7 1)\<lparr>sh_Name := ''plan'', sh_TokenHash := fd_token, sh_View := ''day'', sh_Period := 0, sh_Detail := det,
     sh_IncludeTodos := True, sh_Calendars := cals\<rparr>"

definition fd_db :: "Share \<Rightarrow> account_db" where
  "fd_db s = \<lparr>ad_todo = \<lparr>tb_cal = \<lparr>cd_users = [fd_user], cd_calendars = [fd_calendar], cd_events = [(fd_event, (0, Some (day, False)))],
       cd_bindings = [], cd_mappings = [], cd_outbox = [], cd_outbox_next = 1, cd_jobs = \<lparr>rows = [], next_id = 1\<rparr>, cd_changes = [], cd_now = 0\<rparr>,
       tb_lists = [], tb_rows = [], tb_checks = []\<rparr>, ad_shares = [s], ad_sleep = []\<rparr>"

definition fd_env :: share_env where
  "fd_env = \<lparr>sv_HashToken = (\<lambda>x. x), sv_prims = demo_primitives, sv_keys = \<lparr>raw = [(1, ''k'')], active = 1\<rparr>\<rparr>"

definition fd_ctx :: tx_ctx where
  "fd_ctx = \<lparr>tx_env = demo_env, tx_owner = 1, tx_origin = []\<rparr>"

lemma fd_ok: "accounts_ok (fd_db (fd_share ''full'' []))"
  by code_simp

lemma accounts_invariant_witness:
  "accounts_ok (snd (Shares_Revoke fd_ctx (fd_db (fd_share ''full'' [])) 7 0))"
proof -
  have "account_step fd_env fd_ctx (fd_db (fd_share ''full'' [])) (snd (Shares_Revoke fd_ctx (fd_db (fd_share ''full'' [])) 7 0))"
    by (rule account_step.share_revoke)
  then show ?thesis using accounts_invariant [OF r_into_rtranclp fd_ok] by blast
qed

lemma fd_at: "sh_ID (fd_share det cals) = 7" "sh_OwnerID (fd_share det cals) = tx_owner fd_ctx" "sh_Detail (fd_share det cals) = det"
  "sh_Calendars (fd_share det cals) = cals" "sv_HashToken fd_env fd_token = sh_TokenHash (fd_share det cals)"
  "fd_share det cals \<in> set (ad_shares (fd_db (fd_share det cals)))"
  by (simp_all add: fd_share_def fd_ctx_def Share0_def fd_env_def fd_db_def)

lemma revoked_link_stays_dead_witness:
  "\<exists>d. Shares_Revoke fd_ctx (fd_db (fd_share ''full'' [])) 7 0 = (None, d) \<and>
     Shares_Open fd_env d fd_token True 5 = (Inl (Wrap ErrNotFound []), d)"
  using revoked_link_stays_dead [OF fd_ok fd_at(6,2,5), of 0] by (auto simp: fd_at)

lemma fd_opens:
  "Shares_Open fd_env (fd_db (fd_share det cals)) fd_token True 0 = (Inr (fd_share det cals), TouchShare (fd_db (fd_share det cals)) 7 0)"
  "ad_cal (TouchShare db i now) = ad_cal db" "user_of (TouchShare (fd_db s) 7 0) 1 = Inr fd_user"
proof -
  have "ValidShareToken fd_token" by code_simp
  then show "Shares_Open fd_env (fd_db (fd_share det cals)) fd_token True 0 = (Inr (fd_share det cals), TouchShare (fd_db (fd_share det cals)) 7 0)"
    by (simp add: Shares_Open_def ShareByTokenHash_def fd_env_def fd_db_def fd_share_def Share0_def user_enabled_def ad_cal_def fd_user_def)
  show "ad_cal (TouchShare db i now) = ad_cal db" by (simp add: TouchShare_def ad_cal_def)
  show "user_of (TouchShare (fd_db s) 7 0) 1 = Inr fd_user"
    by (simp add: user_of_def TouchShare_def ad_cal_def fd_db_def fd_user_def)
qed

lemma fd_window: "Range (sharePeriod (fd_share det cals) fd_user) (User_Location (en_zones demo_env) fd_user) = (0, day)"
proof -
  have "sharePeriod (fd_share det cals) fd_user = sharePeriod (fd_share [] []) fd_user" by (simp add: sharePeriod_def fd_share_def)
  moreover have "Range (sharePeriod (fd_share [] []) fd_user) (User_Location (en_zones demo_env) fd_user) = (0, day)" by code_simp
  ultimately show ?thesis by simp
qed

lemma fd_events: "event_overlaps demo_env fd_event 0 day" "ev_SeriesID fd_event = None" "ev_Visibility fd_event \<noteq> ''private''"
  "event_visible 1 fd_event" "ev_CalendarID fd_event = cal_ID fd_calendar" "ev_Body fd_event \<noteq> []" "ev_Location fd_event \<noteq> []"
  "cal_OwnerID fd_calendar = 1" "cal_ID fd_calendar = 5"
  "fd_event \<in> fst ` set (cd_events (ad_cal (fd_db s)))" "fd_calendar \<in> set (cd_calendars (ad_cal (fd_db s)))"
  by (code_simp, code_simp, code_simp, code_simp, code_simp, code_simp, code_simp, code_simp, code_simp, simp_all add: fd_db_def ad_cal_def)


lemma titles_link_leaks_witness:
  "\<exists>k x. feed fd_env demo_env ''p'' (fd_db (fd_share ''titles'' [5])) fd_token 0 = (Inr k, TouchShare (fd_db (fd_share ''titles'' [5])) 7 0) \<and>
     x \<in> set (comp_children k) \<and> (''DESCRIPTION'', P_text ''room 4'') \<in> set (comp_props x)"
proof -
  have "ev_Body fd_event = ''room 4''" by (simp add: fd_event_def)
  then show ?thesis
    using titles_link_leaks [where c = fd_calendar and e = fd_event, OF fd_opens(1), of "''titles''" "[5]" fd_user demo_env 0 day "''p''"]
    by (simp add: fd_opens fd_window fd_events fd_at fd_ctx_def DetailTitles_def del: One_nat_def) blast
qed

lemma busy_link_hides_witness:
  "\<exists>k. feed fd_env demo_env ''p'' (fd_db (fd_share ''busy'' [5])) fd_token 0 = (Inr k, TouchShare (fd_db (fd_share ''busy'' [5])) 7 0)"
  using busy_link_hides [OF fd_opens(1), of "''busy''" "[5]" fd_user demo_env "''p''"]
  by (simp add: fd_opens fd_at fd_ctx_def DetailBusy_def del: One_nat_def) blast

end
