(* ===== verification/Netx.thy ===== *)
theory Netx
  imports Prelude "HOL-Library.Word"
begin

unbundle bit_operations_syntax

text \<open>
  The guard on outgoing requests (\<open>internal/netx\<close>) and the address of a client behind proxies
  (\<open>internal/httpx/clientip.go\<close>), over the addresses of Go's \<open>net/netip\<close>.  The resolver, the proxy rules of
  \<open>httpproxy\<close> and the addresses that a dial finds are arguments.
\<close>

subsection \<open>Addresses\<close>

text \<open>The zero \<open>netip.Addr\<close> is not valid; an IPv6 address keeps its zone.\<close>

datatype Addr = NoAddr | Addr4 "32 word" | Addr6 "128 word" string

definition IsValid :: "Addr \<Rightarrow> bool" where
  "IsValid a \<longleftrightarrow> a \<noteq> NoAddr"

definition Is4 :: "Addr \<Rightarrow> bool" where
  "Is4 a = (case a of Addr4 w \<Rightarrow> True | _ \<Rightarrow> False)"

definition Is6 :: "Addr \<Rightarrow> bool" where
  "Is6 a = (case a of Addr6 w z \<Rightarrow> True | _ \<Rightarrow> False)"

definition WithoutZone :: "Addr \<Rightarrow> Addr" where
  "WithoutZone a = (case a of Addr6 w z \<Rightarrow> Addr6 w [] | _ \<Rightarrow> a)"

definition Unmap :: "Addr \<Rightarrow> Addr" where
  "Unmap a = (case a of Addr6 w z \<Rightarrow> if drop_bit 32 w = 0xffff then Addr4 (ucast w) else a | _ \<Rightarrow> a)"

text \<open>A prefix is an address without zone and a number of bits.\<close>

record Prefix =
  px_addr :: Addr
  px_bits :: nat

definition Prefix_Contains :: "Prefix \<Rightarrow> Addr \<Rightarrow> bool" where
  "Prefix_Contains p a =
     (case (px_addr p, a) of
        (Addr4 x, Addr4 w) \<Rightarrow> drop_bit (32 - px_bits p) (w XOR x) = 0
      | (Addr6 x y, Addr6 w z) \<Rightarrow> z = [] \<and> drop_bit (128 - px_bits p) (w XOR x) = 0
      | _ \<Rightarrow> False)"

text \<open>\<open>ParseAddr\<close>.  A dotted quad has four fields of at most 255, without leading zeros.\<close>

definition digit_of :: "char \<Rightarrow> nat" where
  "digit_of c = of_char c - of_char CHR ''0''"

definition octet :: "string \<Rightarrow> nat option" where
  "octet s =
     (if s = [] \<or> \<not> list_all is_digit s \<or> (length s > 1 \<and> hd s = CHR ''0'') then None
      else let n = foldl (\<lambda>a c. a * 10 + digit_of c) 0 s in if n > 255 then None else Some n)"

definition parseIPv4 :: "string \<Rightarrow> nat list option" where
  "parseIPv4 s =
     (let fs = split s CHR ''.'' in
      if length fs = 4 \<and> list_all (\<lambda>f. octet f \<noteq> None) fs then Some (map (\<lambda>f. the (octet f)) fs) else None)"

definition hex_digit :: "char \<Rightarrow> nat option" where
  "hex_digit c =
     (if is_digit c then Some (digit_of c)
      else if CHR ''a'' \<le> c \<and> c \<le> CHR ''f'' then Some (of_char c - of_char CHR ''a'' + 10)
      else if CHR ''A'' \<le> c \<and> c \<le> CHR ''F'' then Some (of_char c - of_char CHR ''A'' + 10)
      else None)"

definition hex_group :: "string \<Rightarrow> nat" where
  "hex_group s = foldl (\<lambda>a c. a * 16 + the (hex_digit c)) 0 s"

text \<open>
  The loop over the groups: \<open>n\<close> bounds the rounds, \<open>bs\<close> are the bytes so far and \<open>ell\<close> the place of the
  ellipsis.  The answer is the bytes, the ellipsis and what is left of the text.
\<close>

fun groups6 :: "nat \<Rightarrow> nat list \<Rightarrow> nat option \<Rightarrow> string \<Rightarrow> (nat list \<times> nat option \<times> string) option" where
  "groups6 0 bs ell s = Some (bs, ell, s)"
| "groups6 (Suc n) bs ell s =
     (let h = takeWhile (\<lambda>c. hex_digit c \<noteq> None) s; r = dropWhile (\<lambda>c. hex_digit c \<noteq> None) s in
      if length h > 4 \<or> h = [] then None
      else if r \<noteq> [] \<and> hd r = CHR ''.'' then
        (if ell = None \<and> length bs \<noteq> 12 \<or> length bs + 4 > 16 then None
         else case parseIPv4 s of None \<Rightarrow> None | Some q \<Rightarrow> Some (bs @ q, ell, []))
      else let bs1 = bs @ [hex_group h div 256, hex_group h mod 256] in
      if r = [] then Some (bs1, ell, [])
      else if hd r \<noteq> CHR '':'' \<or> length r = 1 then None
      else let r1 = tl r in
      if hd r1 = CHR '':'' then
        (if ell \<noteq> None then None
         else if tl r1 = [] then Some (bs1, Some (length bs1), [])
         else groups6 n bs1 (Some (length bs1)) (tl r1))
      else groups6 n bs1 ell r1)"

definition word_of_bytes :: "nat list \<Rightarrow> 'a::len word" where
  "word_of_bytes bs = of_nat (foldl (\<lambda>a b. a * 256 + b) 0 bs)"

definition parseIPv6 :: "string \<Rightarrow> Addr option" where
  "parseIPv6 t =
     (case (case cut t CHR ''%'' of None \<Rightarrow> Some (t, []) | Some (s, z) \<Rightarrow> if z = [] then None else Some (s, z)) of
        None \<Rightarrow> None
      | Some (s, zone) \<Rightarrow>
          if s = ''::'' then Some (Addr6 0 zone)
          else (case (if has_prefix s ''::'' then groups6 8 [] (Some 0) (drop 2 s) else groups6 8 [] None s) of
             None \<Rightarrow> None
           | Some (bs, ell, r) \<Rightarrow>
               if r \<noteq> [] then None
               else if length bs < 16 then
                 (case ell of None \<Rightarrow> None
                  | Some k \<Rightarrow> Some (Addr6 (word_of_bytes (take k bs @ replicate (16 - length bs) 0 @ drop k bs)) zone))
               else if ell \<noteq> None then None
               else Some (Addr6 (word_of_bytes bs) zone)))"

definition ParseAddr :: "string \<Rightarrow> Addr option" where
  "ParseAddr s =
     (case find (\<lambda>c. c \<in> {CHR ''.'', CHR '':'', CHR ''%''}) s of
        None \<Rightarrow> None
      | Some c \<Rightarrow> if c = CHR ''.'' then map_option (\<lambda>q. Addr4 (word_of_bytes q)) (parseIPv4 s)
                 else if c = CHR '':'' then parseIPv6 s else None)"

definition last_cut :: "string \<Rightarrow> char \<Rightarrow> (string \<times> string) option" where
  "last_cut s c = map_option (\<lambda>(a, b). (rev b, rev a)) (cut (rev s) c)"

definition parse_port :: "string \<Rightarrow> nat option" where
  "parse_port s =
     (if s = [] \<or> \<not> list_all is_digit s then None
      else let n = foldl (\<lambda>a c. a * 10 + digit_of c) 0 s in if n > 65535 then None else Some n)"

definition ParseAddrPort :: "string \<Rightarrow> (Addr \<times> nat) option" where
  "ParseAddrPort s =
     (case last_cut s CHR '':'' of
        None \<Rightarrow> None
      | Some (ip, port) \<Rightarrow>
          let v6 = (ip \<noteq> [] \<and> hd ip = CHR ''['') in
          if ip = [] \<or> port = [] \<or> (v6 \<and> (length ip < 2 \<or> last ip \<noteq> CHR '']'')) then None
          else case (parse_port port, ParseAddr (if v6 then butlast (tl ip) else ip)) of
            (Some n, Some a) \<Rightarrow> if v6 \<and> Is4 a \<or> \<not> v6 \<and> Is6 a then None else Some (a, n)
          | _ \<Rightarrow> None)"

subsection \<open>Public addresses\<close>

definition cidr4 :: "nat \<Rightarrow> nat \<Rightarrow> nat \<Rightarrow> nat \<Rightarrow> nat \<Rightarrow> Prefix" where
  "cidr4 a b c d n = \<lparr>px_addr = Addr4 (word_of_bytes [a, b, c, d]), px_bits = n\<rparr>"

definition cidr6 :: "128 word \<Rightarrow> nat \<Rightarrow> Prefix" where
  "cidr6 w n = \<lparr>px_addr = Addr6 w [], px_bits = n\<rparr>"

definition nat64 :: Prefix where "nat64 = cidr6 0x0064ff9b000000000000000000000000 96"
definition sixToFour :: Prefix where "sixToFour = cidr6 0x20020000000000000000000000000000 16"

definition blocked :: "Prefix list" where
  "blocked =
     [cidr4 0 0 0 0 8, cidr4 10 0 0 0 8, cidr4 100 64 0 0 10, cidr4 127 0 0 0 8, cidr4 169 254 0 0 16, cidr4 172 16 0 0 12,
      cidr4 192 0 0 0 24, cidr4 192 0 2 0 24, cidr4 192 88 99 0 24, cidr4 192 168 0 0 16, cidr4 198 18 0 0 15,
      cidr4 198 51 100 0 24, cidr4 203 0 113 0 24, cidr4 224 0 0 0 4, cidr4 240 0 0 0 4,
      cidr6 0 96, cidr6 0x0000000000000000ffff000000000000 96, cidr6 0x0064ff9b000100000000000000000000 48,
      cidr6 0x01000000000000000000000000000000 64, cidr6 0x20010000000000000000000000000000 23,
      cidr6 0x20010db8000000000000000000000000 32, cidr6 0x3fff0000000000000000000000000000 20,
      cidr6 0xfc000000000000000000000000000000 7, cidr6 0xfe800000000000000000000000000000 10,
      cidr6 0xfec00000000000000000000000000000 10, cidr6 0xff000000000000000000000000000000 8]"

text \<open>The recursion ends after one step: the address inside an IPv6 address is IPv4.\<close>

definition unblocked :: "Addr \<Rightarrow> bool" where
  "unblocked a \<longleftrightarrow> list_all (\<lambda>p. \<not> Prefix_Contains p a) blocked"

definition inner4 :: "Addr \<Rightarrow> Addr" where
  "inner4 a =
     (case a of
        Addr6 w z \<Rightarrow> if Prefix_Contains nat64 a then Addr4 (ucast w)
                    else if Prefix_Contains sixToFour a then Addr4 (ucast (drop_bit 80 w)) else a
      | _ \<Rightarrow> a)"

definition IsPublic :: "Addr \<Rightarrow> bool" where
  "IsPublic a \<longleftrightarrow> IsValid a \<and> unblocked (inner4 (Unmap (WithoutZone a)))"

subsection \<open>Guarded requests\<close>

datatype net_error = Blocked string Addr | NetErr string

definition guardControl :: "string \<Rightarrow> net_error option" where
  "guardControl address =
     (case ParseAddrPort address of
        None \<Rightarrow> Some (NetErr ''unexpected dial address'')
      | Some (a, p) \<Rightarrow> if \<not> IsPublic a then Some (Blocked [] a) else None)"

definition checkHost :: "(string \<Rightarrow> net_error + Addr list) \<Rightarrow> string \<Rightarrow> net_error option" where
  "checkHost res host =
     (case ParseAddr host of
        Some a \<Rightarrow> if \<not> IsPublic a then Some (Blocked host a) else None
      | None \<Rightarrow>
          (case res host of
             Inl e \<Rightarrow> Some e
           | Inr as \<Rightarrow> if as = [] then Some (NetErr ''no addresses'')
                      else (case find (\<lambda>a. \<not> IsPublic a) as of None \<Rightarrow> None | Some a \<Rightarrow> Some (Blocked host a))))"

datatype Purpose = Google | Push | Sentry | Fetch | Weather

text \<open>A URL by what the code asks of it: \<open>Scheme\<close>, \<open>Hostname()\<close> and \<open>Port()\<close>.\<close>

record url =
  u_Scheme :: string
  u_Host :: string
  u_Port :: string

definition defaultPorts :: "string \<Rightarrow> string option" where
  "defaultPorts = [''http'' \<mapsto> ''80'', ''https'' \<mapsto> ''443'', ''socks5'' \<mapsto> ''1080'', ''socks5h'' \<mapsto> ''1080'']"

definition JoinHostPort :: "string \<Rightarrow> string \<Rightarrow> string" where
  "JoinHostPort host port =
     (if CHR '':'' \<in> set host \<or> CHR ''%'' \<in> set host then ''['' @ host @ '']:'' @ port else host @ '':'' @ port)"

definition canonicalAddr :: "url \<Rightarrow> net_error + string" where
  "canonicalAddr u =
     (let host = to_lower (u_Host u) in
      if host = [] then Inl (NetErr ''missing host'')
      else if u_Port u \<noteq> [] then Inr (JoinHostPort host (u_Port u))
      else case defaultPorts (u_Scheme u) of None \<Rightarrow> Inl (NetErr ''unsupported scheme'') | Some p \<Rightarrow> Inr (JoinHostPort host p))"

text \<open>
  The options that matter here and the network they give.  The rules of the proxy, built by \<open>httpproxy\<close> from
  the proxy and the hosts to leave out, are an argument of each request.
\<close>

record net_options =
  no_Proxy :: "url option"
  no_ProxyFor :: "Purpose list"
  no_AllowPrivate :: bool

record Network =
  nw_proxyAddr :: string
  nw_proxied :: "Purpose list"
  nw_guarded :: "Purpose \<Rightarrow> bool"

definition guards :: "net_options \<Rightarrow> Purpose \<Rightarrow> bool" where
  "guards o' p \<longleftrightarrow> p = Push \<or> (p = Fetch \<and> \<not> no_AllowPrivate o')"

definition New_network :: "net_options \<Rightarrow> net_error + Network" where
  "New_network o' =
     (case no_Proxy o' of
        None \<Rightarrow> Inr \<lparr>nw_proxyAddr = [], nw_proxied = [], nw_guarded = guards o'\<rparr>
      | Some u \<Rightarrow>
          (case canonicalAddr u of
             Inl e \<Rightarrow> Inl e
           | Inr addr \<Rightarrow> Inr \<lparr>nw_proxyAddr = addr, nw_proxied = no_ProxyFor o', nw_guarded = guards o'\<rparr>))"

definition EqualFold :: "string \<Rightarrow> string \<Rightarrow> bool" where
  "EqualFold a b \<longleftrightarrow> to_lower a = to_lower b"

text \<open>What the check of a guarded transport says before anything is sent.\<close>

definition check_request ::
  "Network \<Rightarrow> Purpose \<Rightarrow> (url \<Rightarrow> net_error + url option) \<Rightarrow> (string \<Rightarrow> net_error + Addr list) \<Rightarrow> url \<Rightarrow> net_error option" where
  "check_request n p rules res u =
     (if u_Host u = [] then Some (NetErr ''request has no host'')
      else let direct = (if nw_proxyAddr n \<noteq> [] then
              (case canonicalAddr u of
                 Inr addr \<Rightarrow> if EqualFold addr (nw_proxyAddr n) then Some (NetErr ''is the outbound proxy'') else None
               | Inl e \<Rightarrow> None) else None)
      in if p \<in> set (nw_proxied n) then
           (case rules u of
              Inl e \<Rightarrow> Some e
            | Inr (Some q) \<Rightarrow> checkHost res (u_Host u)
            | Inr None \<Rightarrow> direct)
         else direct)"

text \<open>
  A dial: \<open>sockets\<close> gives the socket addresses behind a host and port at that moment, and the result are those
  that may be connected to, the ones the control function of the safe dialer lets through.
\<close>

definition dial :: "Network \<Rightarrow> Purpose \<Rightarrow> (string \<Rightarrow> string list) \<Rightarrow> string \<Rightarrow> string list" where
  "dial n p sockets addr =
     (if \<not> nw_guarded n p then sockets addr
      else if p \<in> set (nw_proxied n) \<and> EqualFold addr (nw_proxyAddr n) then sockets addr
      else filter (\<lambda>s. guardControl s = None) (sockets addr))"

text \<open>
  A round trip of the client of a purpose: the error of the check, or the socket addresses it may connect to.
  The transport dials the proxy when the rules name one, and the host of the URL otherwise.
\<close>

definition round_trip ::
  "Network \<Rightarrow> Purpose \<Rightarrow> (url \<Rightarrow> net_error + url option) \<Rightarrow> (string \<Rightarrow> net_error + Addr list) \<Rightarrow> (string \<Rightarrow> string list) \<Rightarrow> url \<Rightarrow>
     net_error + string list" where
  "round_trip n p rules res sockets u =
     (case (if nw_guarded n p then check_request n p rules res u else None) of
        Some e \<Rightarrow> Inl e
      | None \<Rightarrow>
          (case (if p \<in> set (nw_proxied n) then rules u else Inr None) of
             Inl e \<Rightarrow> Inl e
           | Inr t \<Rightarrow>
               (case canonicalAddr (case t of None \<Rightarrow> u | Some q \<Rightarrow> q) of
                  Inl e \<Rightarrow> Inl e
                | Inr addr \<Rightarrow> Inr (dial n p sockets addr))))"

subsection \<open>Addresses of clients\<close>

definition parseHostAddr :: "string \<Rightarrow> Addr" where
  "parseHostAddr s0 =
     (let s = trim_space s0 in
      if s = [] then NoAddr
      else case ParseAddrPort s of
        Some (a, p) \<Rightarrow> Unmap a
      | None \<Rightarrow>
          let t = trim_prefix s ''['';
              b = (if t \<noteq> [] \<and> last t = CHR '']'' then butlast t else t)
          in (case ParseAddr b of Some a \<Rightarrow> Unmap a | None \<Rightarrow> NoAddr))"

definition isTrusted :: "Prefix list \<Rightarrow> Addr \<Rightarrow> bool" where
  "isTrusted trusted a \<longleftrightarrow> list_ex (\<lambda>p. Prefix_Contains p a) trusted"

definition forwardedHops :: "string list \<Rightarrow> string list" where
  "forwardedHops vs = concat (map (\<lambda>v. filter (\<lambda>x. x \<noteq> []) (map trim_space (split v CHR '',''))) vs)"

text \<open>The hops from the last to the first; \<open>None\<close> when every hop is trusted.\<close>

fun walk_hops :: "Prefix list \<Rightarrow> Addr \<Rightarrow> string list \<Rightarrow> Addr option" where
  "walk_hops trusted remote [] = None"
| "walk_hops trusted remote (h # hs) =
     (let a = parseHostAddr h in
      if \<not> IsValid a then Some remote else if \<not> isTrusted trusted a then Some a else walk_hops trusted remote hs)"

definition ResolveIP :: "Prefix list \<Rightarrow> string \<Rightarrow> string list \<Rightarrow> string \<Rightarrow> Addr" where
  "ResolveIP trusted remoteAddr forwarded realIP =
     (let remote = parseHostAddr remoteAddr in
      if \<not> IsValid remote \<or> \<not> isTrusted trusted remote then remote
      else let hops = forwardedHops forwarded in
      if hops \<noteq> [] then
        (case walk_hops trusted remote (rev hops) of
           Some a \<Rightarrow> a
         | None \<Rightarrow> let first = parseHostAddr (hd hops) in if IsValid first then first else remote)
      else let real = parseHostAddr realIP in if IsValid real then real else remote)"


end
