(* ===== verification/Netx_Safety.thy ===== *)
theory Netx_Safety
  imports Netx
begin

text \<open>
  What the guard and the client address promise: the public addresses are exactly those outside the reserved
  ranges, a guarded request connects to nothing else but the configured proxy, and the address of a client
  behind trusted proxies is the one the outermost of them saw, whatever the client sent itself.
\<close>

subsection \<open>Reserved ranges\<close>

definition within :: "(nat \<times> nat) list \<Rightarrow> nat \<Rightarrow> bool" where
  "within rs n \<longleftrightarrow> list_ex (\<lambda>(lo, hi). lo \<le> n \<and> n \<le> hi) rs"

text \<open>The ranges by their first and last address: this host, private networks, loopback, link-local and so on.\<close>

definition quad :: "nat \<Rightarrow> nat \<Rightarrow> nat \<Rightarrow> nat \<Rightarrow> nat" where
  "quad a b c d = ((a * 256 + b) * 256 + c) * 256 + d"

definition reserved4 :: "nat \<Rightarrow> bool" where
  "reserved4 = within
     [(quad 0 0 0 0, quad 0 255 255 255), (quad 10 0 0 0, quad 10 255 255 255), (quad 100 64 0 0, quad 100 127 255 255),
      (quad 127 0 0 0, quad 127 255 255 255), (quad 169 254 0 0, quad 169 254 255 255), (quad 172 16 0 0, quad 172 31 255 255),
      (quad 192 0 0 0, quad 192 0 0 255), (quad 192 0 2 0, quad 192 0 2 255), (quad 192 88 99 0, quad 192 88 99 255),
      (quad 192 168 0 0, quad 192 168 255 255), (quad 198 18 0 0, quad 198 19 255 255), (quad 198 51 100 0, quad 198 51 100 255),
      (quad 203 0 113 0, quad 203 0 113 255), (quad 224 0 0 0, quad 239 255 255 255),
      (quad 240 0 0 0, quad 255 255 255 255)]"

definition reserved6 :: "nat \<Rightarrow> bool" where
  "reserved6 = within
     [(0, 0xffffffff), (0xffff000000000000, 0xffff0000ffffffff),
      (0x0064ff9b000100000000000000000000, 0x0064ff9b0001ffffffffffffffffffff),
      (0x01000000000000000000000000000000, 0x0100000000000000ffffffffffffffff),
      (0x20010000000000000000000000000000, 0x200101ffffffffffffffffffffffffff),
      (0x20010db8000000000000000000000000, 0x20010db8ffffffffffffffffffffffff),
      (0x3fff0000000000000000000000000000, 0x3fff0fffffffffffffffffffffffffff),
      (0xfc000000000000000000000000000000, 0xfdffffffffffffffffffffffffffffff),
      (0xfe800000000000000000000000000000, 0xfebfffffffffffffffffffffffffffff),
      (0xfec00000000000000000000000000000, 0xfeffffffffffffffffffffffffffffff),
      (0xff000000000000000000000000000000, 0xffffffffffffffffffffffffffffffff)]"

text \<open>The IPv4 host at the end of an address: written directly, mapped, through NAT64 or by 6to4.\<close>

definition host4 :: "Addr \<Rightarrow> nat option" where
  "host4 a =
     (case a of
        NoAddr \<Rightarrow> None
      | Addr4 w \<Rightarrow> Some (unat w)
      | Addr6 w z \<Rightarrow>
          if unat w div 2 ^ 32 = 0xffff \<or> unat w div 2 ^ 32 = 0x64ff9b0000000000000000 then Some (unat w mod 2 ^ 32)
          else if unat w div 2 ^ 112 = 0x2002 then Some (unat w div 2 ^ 80 mod 2 ^ 32)
          else None)"

lemma contains_unat:
  fixes w x :: "'a::len word"
  shows "drop_bit k (Bit_Operations.xor w x) = 0 \<longleftrightarrow> unat w div 2 ^ k = unat x div 2 ^ k"
proof -
  have "drop_bit k (Bit_Operations.xor w x) = Bit_Operations.xor (drop_bit k w) (drop_bit k x)"
    by (simp add: drop_bit_xor)
  then have "drop_bit k (Bit_Operations.xor w x) = 0 \<longleftrightarrow> drop_bit k w = drop_bit k x"
    by (auto simp: bit_eq_iff bit_xor_iff)
  also have "\<dots> \<longleftrightarrow> unat (drop_bit k w) = unat (drop_bit k x)" by (simp add: word_unat_eq_iff)
  finally have "drop_bit k (Bit_Operations.xor w x) = 0 \<longleftrightarrow> unat (drop_bit k w) = unat (drop_bit k x)" .
  moreover have "unat (drop_bit k v) = unat v div 2 ^ k" for v :: "'a word"
    by (subst unat_drop_bit_eq) (rule drop_bit_eq_div)
  ultimately show ?thesis by simp
qed

lemma div_range: "0 < d \<Longrightarrow> n div d = q \<longleftrightarrow> q * d \<le> n \<and> n \<le> q * d + (d - 1)" for n d q :: nat
proof
  assume d: "0 < d" and q: "n div d = q"
  have "n < n div d * d + d" using dividend_less_div_times [OF d, of n] by simp
  then show "q * d \<le> n \<and> n \<le> q * d + (d - 1)" using d q div_times_less_eq_dividend [of n d] by simp
next
  assume "0 < d" and "q * d \<le> n \<and> n \<le> q * d + (d - 1)"
  then show "n div d = q" by (intro div_nat_eqI) (auto simp: mult.commute)
qed

lemma contains4: "Prefix_Contains (cidr4 a b c d n) (Addr4 w) \<longleftrightarrow>
    unat w div 2 ^ (32 - n) = unat (word_of_bytes [a, b, c, d] :: 32 word) div 2 ^ (32 - n)"
  by (simp only: Prefix_Contains_def cidr4_def contains_unat Prefix.simps prod.case Addr.case)

lemma contains6: "Prefix_Contains (cidr6 x n) (Addr6 w z) \<longleftrightarrow> z = [] \<and> unat w div 2 ^ (128 - n) = unat x div 2 ^ (128 - n)"
  by (simp only: Prefix_Contains_def cidr6_def contains_unat Prefix.simps prod.case Addr.case)

lemma contains_mixed [simp]:
  "\<not> Prefix_Contains (cidr6 x n) (Addr4 w)" "\<not> Prefix_Contains (cidr4 a b c d n) (Addr6 v z)"
  by (simp_all add: Prefix_Contains_def cidr6_def cidr4_def)

lemma unblocked4: "unblocked (Addr4 w) \<longleftrightarrow> \<not> reserved4 (unat w)"
  by (simp add: unblocked_def blocked_def contains4 word_of_bytes_def reserved4_def within_def quad_def div_range unat_of_nat take_bit_eq_mod)

lemma unblocked6: "unblocked (Addr6 w []) \<longleftrightarrow> \<not> reserved6 (unat w)"
  by (simp add: unblocked_def blocked_def contains6 reserved6_def within_def div_range)

lemma unat_ucast32: "unat (ucast (w :: 128 word) :: 32 word) = unat w mod 2 ^ 32"
  by (simp add: unsigned_ucast_eq take_bit_eq_mod)

lemma word_unat_of_nat: "(word_of_nat (unat w) :: 'a::len word) = w"
  by simp

lemma drop_bit_is:
  fixes w :: "128 word"
  assumes "k < 128" and "c < 2 ^ 128"
  shows "drop_bit k w = word_of_nat c \<longleftrightarrow> unat w div 2 ^ k = c"
proof -
  have "unat (drop_bit k w) = unat w div 2 ^ k" by (subst unat_drop_bit_eq) (rule drop_bit_eq_div)
  moreover have "unat (word_of_nat c :: 128 word) = c" using assms(2) by (simp add: unat_of_nat take_bit_eq_mod)
  ultimately show ?thesis by (metis word_unat_eq_iff)
qed

text \<open>The address that the guard looks at is the IPv4 host, when there is one.\<close>

lemma guard_target:
  "a \<noteq> NoAddr \<Longrightarrow> inner4 (Unmap (WithoutZone a)) =
     (case host4 a of Some n \<Rightarrow> Addr4 (word_of_nat n) | None \<Rightarrow> (case a of Addr6 w z \<Rightarrow> Addr6 w [] | _ \<Rightarrow> a))"
proof (cases a)
  case (Addr6 w z)
  have m: "drop_bit 32 w = 0xffff \<longleftrightarrow> unat w div 2 ^ 32 = 0xffff" using drop_bit_is [of 32 "0xffff" w] by simp
  have n: "Prefix_Contains nat64 (Addr6 w []) \<longleftrightarrow> unat w div 2 ^ 32 = 0x64ff9b0000000000000000"
    by (simp add: nat64_def contains6)
  have s: "Prefix_Contains sixToFour (Addr6 w []) \<longleftrightarrow> unat w div 2 ^ 112 = 0x2002"
    by (simp add: sixToFour_def contains6)
  have u: "ucast w = (word_of_nat (unat w mod 2 ^ 32) :: 32 word)"
    by (simp only: unat_ucast32 [symmetric] word_unat_of_nat)
  have v: "ucast (drop_bit 80 w) = (word_of_nat (unat w div 2 ^ 80 mod 2 ^ 32) :: 32 word)"
  proof -
    have "unat (drop_bit 80 w) = unat w div 2 ^ 80" by (subst unat_drop_bit_eq) (rule drop_bit_eq_div)
    then show ?thesis using unat_ucast32 [of "drop_bit 80 w"] by (metis word_unat_of_nat)
  qed
  show ?thesis
    using Addr6 m n s u v by (auto simp: WithoutZone_def Unmap_def inner4_def host4_def)
qed (simp_all add: WithoutZone_def Unmap_def inner4_def host4_def)

text \<open>C34.
  The guard lets exactly the public addresses through.  An address is public precisely when the IPv4 host it
  leads to, written directly, as a mapped address, through NAT64 or as 6to4, lies in none of the reserved
  IPv4 ranges, or, when it leads to none, when it lies in none of the reserved IPv6 ranges, whatever its zone.
\<close>

theorem public_exact:
  "IsPublic a \<longleftrightarrow>
     (case host4 a of
        Some n \<Rightarrow> \<not> reserved4 n
      | None \<Rightarrow> (case a of NoAddr \<Rightarrow> False | Addr4 w \<Rightarrow> False | Addr6 w z \<Rightarrow> \<not> reserved6 (unat w)))"
proof (cases "a = NoAddr")
  case True
  then show ?thesis by (simp add: IsPublic_def IsValid_def host4_def)
next
  case False
  have b: "n < 2 ^ 32" if "host4 a = Some n" for n
    using that unsigned_less [where 'b = 32] by (auto simp: host4_def split: Addr.splits if_splits)
  have w: "unat (word_of_nat n :: 32 word) = n" if "host4 a = Some n" for n
    using b [OF that] by (simp add: unat_of_nat take_bit_eq_mod)
  show ?thesis
    using False w unfolding IsPublic_def guard_target [OF False]
    by (auto simp: IsValid_def unblocked4 unblocked6 split: option.split Addr.split) (auto simp: host4_def)
qed

subsection \<open>Guarded requests\<close>

lemma JoinHostPort_not_Nil: "JoinHostPort h p \<noteq> []"
  by (simp add: JoinHostPort_def)

lemma canonicalAddr_not_Nil: "canonicalAddr u = Inr a \<Longrightarrow> a \<noteq> []"
  by (auto simp: canonicalAddr_def Let_def JoinHostPort_not_Nil split: if_splits option.splits)

lemma guardControl_public: "guardControl s = None \<longleftrightarrow> (\<exists>a port. ParseAddrPort s = Some (a, port) \<and> IsPublic a)"
  by (auto simp: guardControl_def split: option.splits)

lemma checkHost_public:
  "checkHost res h = None \<longleftrightarrow>
     (case ParseAddr h of Some a \<Rightarrow> IsPublic a
      | None \<Rightarrow> (\<exists>as. res h = Inr as \<and> as \<noteq> [] \<and> (\<forall>a \<in> set as. IsPublic a)))"
  by (auto simp: checkHost_def find_None_iff find_Some_iff split: option.splits sum.splits dest: nth_mem)


subsection \<open>Addresses of clients\<close>

text \<open>A proxy appends the address of its peer to the last line of the header, or adds the header.\<close>

definition add_hop :: "string \<Rightarrow> string list \<Rightarrow> string list" where
  "add_hop h vs = (if vs = [] then [h] else butlast vs @ [last vs @ '', '' @ h])"

definition hop_text :: "string \<Rightarrow> bool" where
  "hop_text h \<longleftrightarrow> h \<noteq> [] \<and> CHR '','' \<notin> set h \<and> plain (hd h) \<and> plain (last h)"

lemma trim_space_blank:
  assumes "hop_text h"
  shows "trim_space (CHR '' '' # h) = h"
proof -
  have p: "h = [] \<or> plain (hd h) \<and> plain (last h)" using assms by (simp add: hop_text_def)
  have "\<not> has_prefix h q" if "q \<in> set space_seqs" for q
    using has_prefix_hd [of h q] space_seqs_hd [OF that] p by auto
  then have l: "trim_left (CHR '' '' # h) = h" "trim_left h = h"
    by (simp_all add: trim_left_def strip_none) (simp add: space_seqs_def strip_none)
  then have "trim_space (CHR '' '' # h) = trim_space h" by (simp add: trim_space_def)
  then show ?thesis using trim_space_plain [OF p] by simp
qed

lemma split_last: "c \<notin> set t \<Longrightarrow> split (s @ c # t) c = split s c @ [t]"
  by (induction s) (auto simp: split_no_sep Let_def split: list.split)

lemma forwardedHops_add:
  assumes "hop_text h"
  shows "forwardedHops (add_hop h vs) = forwardedHops vs @ [h]"
proof (cases vs rule: rev_cases)
  case Nil
  have "trim_space h = h" using assms trim_space_plain by (simp add: hop_text_def)
  then show ?thesis using Nil assms by (simp add: forwardedHops_def add_hop_def hop_text_def split_no_sep)
next
  case (snoc us v)
  have "split (v @ '', '' @ h) CHR '','' = split v CHR '','' @ [CHR '' '' # h]"
    using assms split_last [of "CHR '',''" "CHR '' '' # h" v] by (simp add: hop_text_def)
  then show ?thesis
    using snoc trim_space_blank [OF assms] assms by (simp add: forwardedHops_def add_hop_def hop_text_def)
qed

lemma forwardedHops_fold:
  "\<forall>h \<in> set hs. hop_text h \<Longrightarrow> forwardedHops (fold add_hop hs vs) = forwardedHops vs @ hs"
  by (induction hs arbitrary: vs) (simp_all add: forwardedHops_add)

lemma walk_hops_trusted:
  "\<forall>h \<in> set hs. IsValid (parseHostAddr h) \<and> isTrusted T (parseHostAddr h) \<Longrightarrow> walk_hops T r (hs @ rest) = walk_hops T r rest"
  by (induction hs) (simp_all add: Let_def)

text \<open>C35.
  A client cannot choose its address.  Behind trusted proxies that each append the address of their peer,
  the address of an untrusted client is the one that the outermost proxy saw, whatever lines of the header
  and whatever X-Real-IP the client sent itself; a client that connects directly is known by its connection.
\<close>

theorem client_address_unforged:
  assumes c: "hop_text c" "IsValid (parseHostAddr c)" "\<not> isTrusted T (parseHostAddr c)"
    and ps: "\<forall>h \<in> set ps. hop_text h \<and> IsValid (parseHostAddr h) \<and> isTrusted T (parseHostAddr h)"
    and r: "IsValid (parseHostAddr remote)" "isTrusted T (parseHostAddr remote)"
  shows "ResolveIP T remote (fold add_hop (c # ps) forged) realIP = parseHostAddr c \<and>
    ResolveIP T c forged realIP = parseHostAddr c"
proof
  have "forwardedHops (fold add_hop (c # ps) forged) = forwardedHops forged @ c # ps"
    using c(1) ps by (intro forwardedHops_fold) simp
  moreover have "walk_hops T x (rev ps @ c # rev (forwardedHops forged)) = Some (parseHostAddr c)" for x
    using walk_hops_trusted [of "rev ps" T x "c # rev (forwardedHops forged)"] ps c by (simp add: Let_def)
  ultimately show "ResolveIP T remote (fold add_hop (c # ps) forged) realIP = parseHostAddr c"
    using r by (simp add: ResolveIP_def Let_def)
  show "ResolveIP T c forged realIP = parseHostAddr c" using c by (simp add: ResolveIP_def)
qed

subsection \<open>Witnesses\<close>

definition demo_url :: url where
  "demo_url = \<lparr>u_Scheme = ''https'', u_Host = ''a.org'', u_Port = []\<rparr>"

definition demo_network :: Network where
  "demo_network = \<lparr>nw_proxyAddr = [], nw_proxied = [], nw_guarded = guards \<lparr>no_Proxy = None, no_ProxyFor = [], no_AllowPrivate = False\<rparr>\<rparr>"

lemmas parse_defs = parseHostAddr_def ParseAddrPort_def last_cut_def ParseAddr_def parseIPv4_def octet_def parse_port_def
  digit_of_def is_digit_def Let_def Is4_def Is6_def Unmap_def trim_space_def trim_left_def trim_right_def space_seqs_def trim_prefix_def


lemma client_address_unforged_witness:
  "ResolveIP [cidr4 10 0 0 0 8] ''10.0.0.2:80'' (fold add_hop [''9.8.7.6'', ''10.0.0.1''] [''1.2.3.4, 10.0.0.9'']) ''5.5.5.5'' = parseHostAddr ''9.8.7.6''"
proof -
  have p: "parseHostAddr ''9.8.7.6'' = Addr4 (word_of_bytes [9, 8, 7, 6])" "parseHostAddr ''10.0.0.1'' = Addr4 (word_of_bytes [10, 0, 0, 1])"
    "parseHostAddr ''10.0.0.2:80'' = Addr4 (word_of_bytes [10, 0, 0, 2])" by (simp_all add: parse_defs)
  have "hop_text ''9.8.7.6''" "hop_text ''10.0.0.1''" by (simp_all add: hop_text_def plain_def)
  moreover have "\<not> isTrusted [cidr4 10 0 0 0 8] (parseHostAddr ''9.8.7.6'')" "isTrusted [cidr4 10 0 0 0 8] (parseHostAddr ''10.0.0.1'')"
    "isTrusted [cidr4 10 0 0 0 8] (parseHostAddr ''10.0.0.2:80'')"
    by (simp_all add: p isTrusted_def contains4 word_of_bytes_def unat_of_nat take_bit_eq_mod)
  ultimately show ?thesis
    using client_address_unforged [of "''9.8.7.6''" "[cidr4 10 0 0 0 8]" "[''10.0.0.1'']" "''10.0.0.2:80''" "[''1.2.3.4, 10.0.0.9'']" "''5.5.5.5''"]
    by (simp add: p IsValid_def)
qed

end
