(* ===== verification/Idempotency.thy ===== *)
theory Idempotency
  imports Domain
begin

text \<open>
  Replies of repeated requests: \<open>internal/api/idempotency.go\<close> with the statements of
  \<open>internal/store/pg/idempotency.go\<close>.  Requests run concurrently, so the middleware is cut at the points where
  it talks to the store: the claim of the key, the reading of a reply that is already there, and the end of
  the handler.  The hash and what the handler answers are arguments.
\<close>

subsection \<open>The table\<close>

definition maxKeyLength :: nat where "maxKeyLength = 255"

record idem_row =
  ir_User :: go_id
  ir_Key :: string
  ir_Method :: string
  ir_Path :: string
  ir_RequestHash :: string
  ir_Status :: "int option"
  ir_ContentType :: "string option"
  ir_Body :: string

text \<open>What is read back: no status is 0, no content type is empty.\<close>

record IdempotentRecord =
  id_RequestHash :: string
  id_Status :: int
  id_ContentType :: string
  id_Body :: string

definition row_of_key :: "go_id \<Rightarrow> string \<Rightarrow> idem_row \<Rightarrow> bool" where
  "row_of_key u k r \<longleftrightarrow> ir_User r = u \<and> ir_Key r = k"

definition ClaimIdempotency :: "idem_row list \<Rightarrow> go_id \<Rightarrow> string \<Rightarrow> string \<Rightarrow> string \<Rightarrow> string \<Rightarrow> bool \<times> idem_row list" where
  "ClaimIdempotency t u k m p h =
     (if list_ex (row_of_key u k) t then (False, t)
      else (True, t @ [\<lparr>ir_User = u, ir_Key = k, ir_Method = m, ir_Path = p, ir_RequestHash = h, ir_Status = None,
                        ir_ContentType = None, ir_Body = []\<rparr>]))"

definition Idempotency_read :: "idem_row list \<Rightarrow> go_id \<Rightarrow> string \<Rightarrow> go_error + IdempotentRecord" where
  "Idempotency_read t u k =
     (case find (row_of_key u k) t of
        None \<Rightarrow> Inl (Wrap ErrNotFound [])
      | Some r \<Rightarrow> Inr \<lparr>id_RequestHash = ir_RequestHash r, id_Status = (case ir_Status r of None \<Rightarrow> 0 | Some s \<Rightarrow> s),
                       id_ContentType = (case ir_ContentType r of None \<Rightarrow> [] | Some c \<Rightarrow> c), id_Body = ir_Body r\<rparr>)"

definition SaveIdempotency :: "idem_row list \<Rightarrow> go_id \<Rightarrow> string \<Rightarrow> int \<Rightarrow> string \<Rightarrow> string \<Rightarrow> idem_row list" where
  "SaveIdempotency t u k status ctype body =
     map (\<lambda>r. if row_of_key u k r
              then r\<lparr>ir_Status := Some status, ir_ContentType := (if ctype = [] then None else Some ctype), ir_Body := body\<rparr> else r) t"

definition DropIdempotency :: "idem_row list \<Rightarrow> go_id \<Rightarrow> string \<Rightarrow> idem_row list" where
  "DropIdempotency t u k = filter (\<lambda>r. \<not> row_of_key u k r) t"

subsection \<open>The middleware\<close>

record idem_request =
  iq_Owner :: go_id
  iq_Key :: string
  iq_Method :: string
  iq_Path :: string
  iq_Body :: string

text \<open>The method, the path and the body are hashed one after the other.\<close>

definition request_hash :: "(string \<Rightarrow> string) \<Rightarrow> idem_request \<Rightarrow> string" where
  "request_hash H r = H (iq_Method r @ iq_Path r @ iq_Body r)"

definition errKeyReused :: go_error where
  "errKeyReused = Wrap ErrInvalid ''Idempotency-Key was already used with a different request''"
definition errInFlight :: go_error where
  "errInFlight = Wrap ErrConflict ''the original request is still in flight''"
definition errKeyTooLong :: go_error where
  "errKeyTooLong = Wrap ErrInvalid ''Idempotency-Key must be 1 to 255 characters''"

text \<open>
  What the middleware does with a request at each of its points: hand it to the handler unwatched, fail,
  replay a stored reply, go on to run the handler, or go on to read the stored reply.
\<close>

datatype idem_answer = Pass | Refuse go_error | Replay int string string | Run | Read

definition begin_request :: "(string \<Rightarrow> string) \<Rightarrow> idem_row list \<Rightarrow> idem_request \<Rightarrow> idem_answer \<times> idem_row list" where
  "begin_request H t r =
     (if iq_Key r = [] then (Pass, t)
      else if length (iq_Key r) > maxKeyLength then (Refuse errKeyTooLong, t)
      else if iq_Owner r = NilID then (Pass, t)
      else case ClaimIdempotency t (iq_Owner r) (iq_Key r) (iq_Method r) (iq_Path r) (request_hash H r) of
        (fresh, t1) \<Rightarrow> (if fresh then Run else Read, t1))"

definition read_reply :: "(string \<Rightarrow> string) \<Rightarrow> idem_row list \<Rightarrow> idem_request \<Rightarrow> idem_answer" where
  "read_reply H t r =
     (case Idempotency_read t (iq_Owner r) (iq_Key r) of
        Inl e \<Rightarrow> Refuse e
      | Inr rec \<Rightarrow>
          if id_RequestHash rec \<noteq> request_hash H r then Refuse errKeyReused
          else if id_Status rec = 0 then Refuse errInFlight
          else Replay (id_Status rec) (id_ContentType rec) (id_Body rec))"

definition succeeded :: "int \<Rightarrow> bool" where
  "succeeded status \<longleftrightarrow> \<not> (status < 200 \<or> status > 299)"

definition end_request :: "idem_row list \<Rightarrow> idem_request \<Rightarrow> int \<Rightarrow> string \<Rightarrow> string \<Rightarrow> idem_row list" where
  "end_request t r status ctype body =
     (if \<not> succeeded status then DropIdempotency t (iq_Owner r) (iq_Key r)
      else SaveIdempotency t (iq_Owner r) (iq_Key r) status ctype body)"

subsection \<open>Requests side by side\<close>

text \<open>The replies that clients got: from the handler, or replayed.\<close>

datatype idem_event =
    Handled (ie_request: idem_request) (ie_status: int) (ie_type: string) (ie_body: string)
  | Replayed (ie_request: idem_request) (ie_status: int) (ie_type: string) (ie_body: string)

record idem_state =
  is_table :: "idem_row list"
  is_running :: "idem_request list"
  is_reading :: "idem_request list"
  is_log :: "idem_event list"

text \<open>A handler that panics, or a process that stops, leaves its key claimed.\<close>

inductive idem_step :: "(string \<Rightarrow> string) \<Rightarrow> idem_state \<Rightarrow> idem_state \<Rightarrow> bool" for H where
  claims: "begin_request H (is_table st) r = (Run, t) \<Longrightarrow> idem_step H st (st\<lparr>is_table := t, is_running := r # is_running st\<rparr>)"
| repeats: "begin_request H (is_table st) r = (Read, t) \<Longrightarrow> idem_step H st (st\<lparr>is_table := t, is_reading := r # is_reading st\<rparr>)"
| replays: "r \<in> set (is_reading st) \<Longrightarrow> read_reply H (is_table st) r = Replay s c b \<Longrightarrow>
    idem_step H st (st\<lparr>is_reading := remove1 r (is_reading st), is_log := is_log st @ [Replayed r s c b]\<rparr>)"
| refuses: "r \<in> set (is_reading st) \<Longrightarrow> read_reply H (is_table st) r = Refuse e \<Longrightarrow>
    idem_step H st (st\<lparr>is_reading := remove1 r (is_reading st)\<rparr>)"
| ends: "r \<in> set (is_running st) \<Longrightarrow> idem_step H st
    (st\<lparr>is_table := end_request (is_table st) r s c b, is_running := remove1 r (is_running st), is_log := is_log st @ [Handled r s c b]\<rparr>)"
| stops: "r \<in> set (is_running st) \<Longrightarrow> idem_step H st (st\<lparr>is_running := remove1 r (is_running st)\<rparr>)"

definition idem_start :: idem_state where
  "idem_start = \<lparr>is_table = [], is_running = [], is_reading = [], is_log = []\<rparr>"

inductive_cases idem_stepE: "idem_step H st st'"

subsection \<open>One success per key\<close>

definition same_key :: "go_id \<Rightarrow> string \<Rightarrow> idem_request \<Rightarrow> bool" where
  "same_key u k r \<longleftrightarrow> iq_Owner r = u \<and> iq_Key r = k"

definition success :: "go_id \<Rightarrow> string \<Rightarrow> idem_event \<Rightarrow> bool" where
  "success u k e = (case e of Handled r s c b \<Rightarrow> same_key u k r \<and> succeeded s | Replayed r s c b \<Rightarrow> False)"

definition answers :: "(string \<Rightarrow> string) \<Rightarrow> idem_row \<Rightarrow> idem_event \<Rightarrow> bool" where
  "answers H row e = (case e of Handled r s c b \<Rightarrow> row_of_key (iq_Owner r) (iq_Key r) row \<and> succeeded s \<and>
      ir_RequestHash row = request_hash H r \<and> ir_Status row = Some s \<and> ir_ContentType row = (if c = [] then None else Some c) \<and> ir_Body row = b
    | Replayed r s c b \<Rightarrow> False)"

text \<open>The state of one key: free, claimed by at most one running request, or answered for good.\<close>

definition key_ok :: "(string \<Rightarrow> string) \<Rightarrow> idem_state \<Rightarrow> go_id \<Rightarrow> string \<Rightarrow> bool" where
  "key_ok H st u k \<longleftrightarrow>
     (let rs = filter (row_of_key u k) (is_table st); run = filter (same_key u k) (is_running st);
          won = filter (success u k) (is_log st) in
      rs = [] \<and> run = [] \<and> won = [] \<or>
      (\<exists>row. rs = [row] \<and> ir_Status row = None \<and> won = [] \<and> (run = [] \<or> (\<exists>r. run = [r] \<and> ir_RequestHash row = request_hash H r))) \<or>
      (\<exists>row e. rs = [row] \<and> run = [] \<and> won = [e] \<and> answers H row e))"

definition replay_ok :: "(string \<Rightarrow> string) \<Rightarrow> idem_state \<Rightarrow> bool" where
  "replay_ok H st \<longleftrightarrow> (\<forall>r s c b. Replayed r s c b \<in> set (is_log st) \<longrightarrow>
     (\<exists>r'. Handled r' s c b \<in> set (is_log st) \<and> same_key (iq_Owner r) (iq_Key r) r' \<and> succeeded s \<and> request_hash H r' = request_hash H r))"

lemma key_ok_claims:
  assumes "key_ok H st u k" and "begin_request H (is_table st) r = (Run, t)"
  shows "key_ok H (st\<lparr>is_table := t, is_running := r # is_running st\<rparr>) u k"
proof -
  let ?row = "\<lparr>ir_User = iq_Owner r, ir_Key = iq_Key r, ir_Method = iq_Method r, ir_Path = iq_Path r, ir_RequestHash = request_hash H r,
      ir_Status = None, ir_ContentType = None, ir_Body = []\<rparr>"
  from assms(2) have t: "t = is_table st @ [?row]" and none: "\<not> list_ex (row_of_key (iq_Owner r) (iq_Key r)) (is_table st)"
    by (auto simp: begin_request_def ClaimIdempotency_def split: if_splits prod.splits)
  show ?thesis
  proof (cases "same_key u k r")
    case True
    then have "filter (row_of_key u k) (is_table st) = []" using none by (auto simp: same_key_def list_ex_iff filter_empty_conv)
    then show ?thesis using assms(1) True t by (auto simp: key_ok_def Let_def row_of_key_def same_key_def)
  next
    case False
    then show ?thesis using assms(1) t by (auto simp: key_ok_def Let_def row_of_key_def same_key_def)
  qed
qed

lemma filter_remove1: "filter P (remove1 x xs) = (if P x then remove1 x (filter P xs) else filter P xs)"
  by (induction xs) auto

lemma filter_DropIdempotency:
  "filter (row_of_key u k) (DropIdempotency t u' k') = (if u' = u \<and> k' = k then [] else filter (row_of_key u k) t)"
proof (cases "u' = u \<and> k' = k")
  case False
  then have "row_of_key u k r \<Longrightarrow> \<not> row_of_key u' k' r" for r by (auto simp: row_of_key_def)
  then have "filter (row_of_key u k) (filter (\<lambda>r. \<not> row_of_key u' k' r) t) = filter (row_of_key u k) t"
    by (simp only: filter_filter) (rule filter_cong, auto)
  then show ?thesis using False by (simp only: DropIdempotency_def if_False)
qed (simp add: DropIdempotency_def filter_empty_conv)

lemma filter_SaveIdempotency:
  "filter (row_of_key u k) (SaveIdempotency t u' k' s c b) =
     (if u' = u \<and> k' = k then map (\<lambda>r. r\<lparr>ir_Status := Some s, ir_ContentType := (if c = [] then None else Some c), ir_Body := b\<rparr>) (filter (row_of_key u k) t)
      else filter (row_of_key u k) t)"
proof -
  define g where "g = (\<lambda>r :: idem_row. r\<lparr>ir_Status := Some s, ir_ContentType := (if c = [] then None else Some c), ir_Body := b\<rparr>)"
  define f where "f = (\<lambda>r. if row_of_key u' k' r then g r else r)"
  have "row_of_key u k (f r) = row_of_key u k r" for r by (simp add: f_def g_def row_of_key_def)
  then have "filter (row_of_key u k) (map f t) = map f (filter (row_of_key u k) t)" by (simp add: filter_map comp_def)
  moreover have "map f (filter (row_of_key u k) t) = (if u' = u \<and> k' = k then map g (filter (row_of_key u k) t) else filter (row_of_key u k) t)"
  proof (cases "u' = u \<and> k' = k")
    case True
    then show ?thesis by (simp add: f_def)
  next
    case False
    then have "row_of_key u k r \<Longrightarrow> f r = r" for r by (auto simp: f_def row_of_key_def)
    then have "map f (filter (row_of_key u k) t) = filter (row_of_key u k) t" by (intro map_idI) simp
    then show ?thesis using False by (simp only: if_False)
  qed
  ultimately show ?thesis unfolding SaveIdempotency_def f_def g_def by simp
qed

lemma key_ok_ends:
  assumes ok: "key_ok H st u k" and r: "r \<in> set (is_running st)"
  shows "key_ok H (st\<lparr>is_table := end_request (is_table st) r s c b, is_running := remove1 r (is_running st), is_log := is_log st @ [Handled r s c b]\<rparr>) u k"
proof (cases "same_key u k r")
  case True
  define run where "run = filter (same_key u k) (is_running st)"
  have "r \<in> set run" using True r by (simp add: run_def)
  then obtain row where "filter (row_of_key u k) (is_table st) = [row]" "ir_Status row = None" "filter (success u k) (is_log st) = []"
      "run = [r]" "ir_RequestHash row = request_hash H r"
    using ok unfolding key_ok_def Let_def run_def [symmetric] by auto
  note this [unfolded run_def]
  moreover from this have "row_of_key u k row" by (metis list.set_intros(1) mem_Collect_eq set_filter)
  ultimately show ?thesis using True
    by (auto simp: key_ok_def Let_def end_request_def filter_DropIdempotency filter_SaveIdempotency filter_remove1 success_def answers_def
        same_key_def row_of_key_def)
next
  case False
  then show ?thesis using ok
    by (auto simp: key_ok_def Let_def end_request_def filter_DropIdempotency filter_SaveIdempotency filter_remove1 success_def same_key_def)
qed

lemma key_ok_step:
  assumes "idem_step H st st'" and "key_ok H st u k"
  shows "key_ok H st' u k"
  using assms
proof (cases rule: idem_step.cases)
  case (repeats r t)
  then have "t = is_table st" by (auto simp: begin_request_def ClaimIdempotency_def split: if_splits prod.splits)
  then show ?thesis using assms(2) repeats by (simp add: key_ok_def)
next
  case (replays r s c b)
  then show ?thesis using assms(2) by (simp add: key_ok_def success_def)
next
  case (stops r)
  then show ?thesis using assms(2) by (auto simp: key_ok_def Let_def filter_remove1 split: if_splits)
qed (use assms(2) key_ok_claims key_ok_ends in \<open>auto simp: key_ok_def\<close>)

lemma replay_ok_step:
  assumes s: "idem_step H st st'" and ok: "replay_ok H st" and keys: "\<And>u k. key_ok H st u k"
  shows "replay_ok H st'"
  using s
proof (cases rule: idem_step.cases)
  case (replays r s c b)
  obtain row where row: "find (row_of_key (iq_Owner r) (iq_Key r)) (is_table st) = Some row" "ir_RequestHash row = request_hash H r"
      "ir_Status row = Some s" "s \<noteq> 0" "c = (case ir_ContentType row of None \<Rightarrow> [] | Some x \<Rightarrow> x)" "b = ir_Body row"
    using replays(3) by (auto simp: read_reply_def Idempotency_read_def split: option.splits sum.splits if_splits)
  define rs where "rs = filter (row_of_key (iq_Owner r) (iq_Key r)) (is_table st)"
  have "row \<in> set rs" using row(1) by (auto simp: find_Some_iff rs_def)
  then obtain e where e: "filter (success (iq_Owner r) (iq_Key r)) (is_log st) = [e]" "answers H row e"
    using keys [of "iq_Owner r" "iq_Key r"] row(3) unfolding key_ok_def Let_def rs_def [symmetric] by auto
  then obtain r' c' where "e = Handled r' s c' b" "request_hash H r' = request_hash H r" "c' = c" "succeeded s"
    using row by (auto simp: answers_def split: idem_event.splits if_splits)
  moreover have "e \<in> set (is_log st)" "success (iq_Owner r) (iq_Key r) e" using e(1) by (metis list.set_intros(1) mem_Collect_eq set_filter)+
  ultimately have "\<exists>r'. Handled r' s c b \<in> set (is_log st) \<and> same_key (iq_Owner r) (iq_Key r) r' \<and> succeeded s \<and> request_hash H r' = request_hash H r"
    by (auto simp: success_def)
  then show ?thesis using ok replays by (auto simp: replay_ok_def)
next
  case (ends r s c b)
  have "set (is_log st) \<subseteq> set (is_log st')" "Replayed r s c b \<in> set (is_log st') \<Longrightarrow> Replayed r s c b \<in> set (is_log st)" for r s c b
    using ends by auto
  then show ?thesis using ok unfolding replay_ok_def by blast
qed (use ok in \<open>simp_all add: replay_ok_def\<close>)


definition idem_demo :: idem_request where
  "idem_demo = \<lparr>iq_Owner = 1, iq_Key = ''k'', iq_Method = ''POST'', iq_Path = ''/events'', iq_Body = ''x''\<rparr>"


end
