(* ===== verification/Reminders.thy ===== *)
theory Reminders
  imports Todo_Service View_Layout Events
begin

text \<open>
  Reminders: the tick of \<open>internal/reminders/reminders.go\<close>, the statements of \<open>internal/store/pg/reminders.go\<close>
  and \<open>push.go\<close>, and the table of deliveries with its key.  What a push service answers, whether a notice
  reaches the database and whether the devices of an owner can be read are arguments; what devices and open
  pages were given is kept in the state.
\<close>

definition lookback :: duration where "lookback = 5 * minute"
definition maxItems :: nat where "maxItems = 2000"
definition maxOccurs :: int where "maxOccurs = 200"

subsection \<open>Tables\<close>

record PushSubscription =
  ps_ID :: go_id
  ps_UserID :: go_id
  ps_Endpoint :: string
  ps_P256dh :: string
  ps_Auth :: string
  ps_UserAgent :: string
  ps_CreatedAt :: go_time
  ps_LastOKAt :: "go_time option"
  ps_Failures :: int

record Reminder =
  rm_OwnerID :: go_id
  rm_Entity :: string
  rm_EntityID :: go_id
  rm_OccurrenceAt :: go_time
  rm_MinutesBefore :: int
  rm_FireAt :: go_time

record Message =
  ms_Title :: string
  ms_Body :: string
  ms_URL :: string
  ms_Tag :: string

record delivery =
  de_Reminder :: Reminder
  de_PushSent :: int

record remind_db =
  rd_todo :: todo_db
  rd_rows :: "delivery list"
  rd_subs :: "PushSubscription list"
  rd_pushes :: "(Reminder \<times> go_id) list"
  rd_notices :: "(Reminder \<times> Notice) list"

text \<open>The primary key of a delivery, as the columns keep it.\<close>

definition reminder_key :: "Reminder \<Rightarrow> string \<times> go_id \<times> go_time \<times> int" where
  "reminder_key r = (rm_Entity r, rm_EntityID r, db_time (rm_OccurrenceAt r), wrap32 (rm_MinutesBefore r))"

definition reminder_check :: "User list \<Rightarrow> Reminder \<Rightarrow> bool" where
  "reminder_check users r \<longleftrightarrow> rm_Entity r \<in> {''event'', ''todo''} \<and> 0 \<le> wrap32 (rm_MinutesBefore r) \<and>
     wrap32 (rm_MinutesBefore r) \<le> 40320 \<and> rm_OwnerID r \<in> us_ID ` set users"

definition rd_cal :: "remind_db \<Rightarrow> cal_db" where
  "rd_cal db = tb_cal (rd_todo db)"

definition ClaimReminder :: "remind_db \<Rightarrow> Reminder \<Rightarrow> go_error + bool \<times> remind_db" where
  "ClaimReminder db r =
     (if \<not> reminder_check (cd_users (rd_cal db)) r then Inl (Wrap ErrInvalid ''check violation'')
      else if list_ex (\<lambda>d. reminder_key (de_Reminder d) = reminder_key r) (rd_rows db) then Inr (False, db)
      else Inr (True, db\<lparr>rd_rows := rd_rows db @ [\<lparr>de_Reminder = r, de_PushSent = 0\<rparr>]\<rparr>))"

definition MarkReminderSent :: "remind_db \<Rightarrow> Reminder \<Rightarrow> int \<Rightarrow> remind_db" where
  "MarkReminderSent db r sent =
     db\<lparr>rd_rows := map (\<lambda>d. if reminder_key (de_Reminder d) = reminder_key r then d\<lparr>de_PushSent := wrap32 sent\<rparr> else d) (rd_rows db)\<rparr>"

definition PushSubscriptions :: "remind_db \<Rightarrow> go_id \<Rightarrow> PushSubscription list" where
  "PushSubscriptions db user = sort_key (\<lambda>s. - ps_CreatedAt s) (filter (\<lambda>s. ps_UserID s = user) (rd_subs db))"

definition AddPushSubscription :: "remind_db \<Rightarrow> PushSubscription \<Rightarrow> go_time \<Rightarrow> remind_db" where
  "AddPushSubscription db p now =
     (if list_ex (\<lambda>s. ps_Endpoint s = ps_Endpoint p) (rd_subs db)
      then db\<lparr>rd_subs := map (\<lambda>s. if ps_Endpoint s = ps_Endpoint p
             then s\<lparr>ps_UserID := ps_UserID p, ps_P256dh := ps_P256dh p, ps_Auth := ps_Auth p, ps_UserAgent := ps_UserAgent p, ps_Failures := 0\<rparr>
             else s) (rd_subs db)\<rparr>
      else db\<lparr>rd_subs := rd_subs db @ [p\<lparr>ps_CreatedAt := now, ps_LastOKAt := None, ps_Failures := 0\<rparr>]\<rparr>)"

definition DeletePushSubscription :: "remind_db \<Rightarrow> go_id \<Rightarrow> go_id \<Rightarrow> go_error option \<times> remind_db" where
  "DeletePushSubscription db user i =
     (if list_ex (\<lambda>s. ps_ID s = i \<and> ps_UserID s = user) (rd_subs db)
      then (None, db\<lparr>rd_subs := filter (\<lambda>s. \<not> (ps_ID s = i \<and> ps_UserID s = user)) (rd_subs db)\<rparr>)
      else (Some (Wrap ErrNotFound []), db))"

definition DropPushSubscription :: "remind_db \<Rightarrow> go_id \<Rightarrow> remind_db" where
  "DropPushSubscription db i = db\<lparr>rd_subs := filter (\<lambda>s. ps_ID s \<noteq> i) (rd_subs db)\<rparr>"

definition TouchPushSubscription :: "remind_db \<Rightarrow> go_id \<Rightarrow> go_time \<Rightarrow> bool \<Rightarrow> remind_db" where
  "TouchPushSubscription db i at good =
     db\<lparr>rd_subs := map (\<lambda>s. if ps_ID s = i
        then (if good then s\<lparr>ps_LastOKAt := Some (db_time at), ps_Failures := 0\<rparr> else s\<lparr>ps_Failures := ps_Failures s + 1\<rparr>)
        else s) (rd_subs db)\<rparr>"

text \<open>What may need reminding between two moments: live events by their span, open todos by their day.\<close>

definition remindable_events :: "cal_db \<Rightarrow> go_time \<Rightarrow> go_time \<Rightarrow> Event list" where
  "remindable_events db from to =
     sort_key ev_ID (map fst (filter (\<lambda>(e, s). ev_DeletedAt e = None \<and> ev_Status e \<noteq> ''cancelled'' \<and> range_overlaps s from to \<and>
        ev_Reminders e \<noteq> []) (cd_events db)))"

definition RemindableEvents :: "cal_db \<Rightarrow> go_time \<Rightarrow> go_time \<Rightarrow> nat \<Rightarrow> Event list" where
  "RemindableEvents db from to limit = take limit (remindable_events db from to)"

definition RemindableTodos :: "todo_db \<Rightarrow> go_time \<Rightarrow> go_time \<Rightarrow> nat \<Rightarrow> Todo list" where
  "RemindableTodos db from to limit =
     map (load_extras db) (take limit (sort_key td_ID (filter (\<lambda>t. td_DeletedAt t = None \<and> td_Status t = ''needs_action'' \<and>
        (case td_DueDate t of None \<Rightarrow> False | Some d \<Rightarrow> db_date from \<le> d \<and> d \<le> db_date to) \<and> td_Reminders t \<noteq> []) (tb_rows db))))"

subsection \<open>Due times and texts\<close>

definition minutes_of :: "int \<Rightarrow> duration" where
  "minutes_of m = wrap64 (m * minute)"

definition starts :: "service_env \<Rightarrow> Event \<Rightarrow> go_time \<Rightarrow> go_time \<Rightarrow> go_time list" where
  "starts env e lo hi =
     (if \<not> IsMaster e then (if ev_Start e > lo \<and> \<not> ev_Start e > hi then [ev_Start e] else [])
      else case FromEvent (en_lib env) (en_zones env) e of
        Inl x \<Rightarrow> []
      | Inr ser \<Rightarrow>
          (case Between (en_lib env) ser (lo - Duration e) (hi + second) maxOccurs of
             Inl x \<Rightarrow> []
           | Inr ts \<Rightarrow> filter (\<lambda>t. t > lo \<and> \<not> t > hi) ts))"

definition dueAt :: "service_env \<Rightarrow> Todo \<Rightarrow> User \<Rightarrow> go_time option" where
  "dueAt env t u =
     (case td_DueDate t of
        None \<Rightarrow> None
      | Some d \<Rightarrow> if td_DueTime t \<noteq> None then DueStart (en_zones env) t
                 else (case time_date UTC d of (y, mo, dd) \<Rightarrow>
                         Some (go_date (User_Location (en_zones env) u) y mo dd 0 (us_DateOnlyReminder u) 0 0)))"

definition title_of :: "string \<Rightarrow> string" where
  "title_of s = (if s = [] then ''(no title)'' else s)"

definition plural :: "int \<Rightarrow> string \<Rightarrow> string" where
  "plural n word = (if n = 1 then ''1 '' @ word else itoa n @ '' '' @ word @ ''s'')"

definition humanMinutes :: "int \<Rightarrow> string" where
  "humanMinutes m =
     (if go_mod m 1440 = 0 then plural (go_div m 1440) ''day''
      else if go_mod m 60 = 0 then plural (go_div m 60) ''hour''
      else plural m ''minute'')"

text \<open>\<open>Format("Mon 2 Jan")\<close> is the short weekday and the day with its short month.\<close>

definition when_text :: "service_env \<Rightarrow> Event \<Rightarrow> go_time \<Rightarrow> int \<Rightarrow> string" where
  "when_text env e start m =
     (if ev_AllDay e then take 3 (weekday_name (time_weekday UTC start)) @ '' '' @ fmt_d_month True start
      else let at = Clock (Event_Zone (en_zones env) e) start True
           in if m = 0 then ''Starting now, '' @ at else ''In '' @ humanMinutes m @ '', at '' @ at)"

subsection \<open>Delivery\<close>

datatype push_result = Sent | Gone | PushFailed

record remind_env =
  rv_env :: service_env
  rv_base :: string
  rv_push :: "(PushSubscription \<Rightarrow> Message \<Rightarrow> push_result) option"
  rv_devices :: "go_id \<Rightarrow> go_error option"
  rv_notify :: "Notice \<Rightarrow> bool"

text \<open>A run keeps the devices and users that it has read.\<close>

record remind_run =
  rr_db :: remind_db
  rr_subs :: "go_id \<Rightarrow> PushSubscription list option"
  rr_users :: "go_id \<Rightarrow> User option"

definition set_rr_db :: "remind_run \<Rightarrow> remind_db \<Rightarrow> remind_run" where
  "set_rr_db r db = r\<lparr>rr_db := db\<rparr>"

definition subscriptions :: "remind_env \<Rightarrow> remind_run \<Rightarrow> go_id \<Rightarrow> go_error + PushSubscription list \<times> remind_run" where
  "subscriptions v r owner =
     (case rr_subs r owner of
        Some devs \<Rightarrow> Inr (devs, r)
      | None \<Rightarrow>
          (case rv_devices v owner of
             Some e \<Rightarrow> Inl e
           | None \<Rightarrow> let devs = PushSubscriptions (rr_db r) owner in Inr (devs, r\<lparr>rr_subs := (rr_subs r)(owner \<mapsto> devs)\<rparr>)))"

definition user_of_run :: "remind_run \<Rightarrow> go_id \<Rightarrow> go_error + User \<times> remind_run" where
  "user_of_run r i =
     (case rr_users r i of
        Some u \<Rightarrow> Inr (u, r)
      | None \<Rightarrow>
          (case find (\<lambda>u. us_ID u = i) (cd_users (rd_cal (rr_db r))) of
             None \<Rightarrow> Inl (Wrap ErrNotFound [])
           | Some u \<Rightarrow> Inr (u, r\<lparr>rr_users := (rr_users r)(i \<mapsto> u)\<rparr>)))"

definition inPage :: "remind_env \<Rightarrow> remind_db \<Rightarrow> Reminder \<Rightarrow> Message \<Rightarrow> remind_db" where
  "inPage v db rem msg =
     (let n = \<lparr>no_OwnerID = rm_OwnerID rem, no_Title = ms_Title msg, no_Body = ms_Body msg, no_URL = ms_URL msg, no_Tag = ms_Tag msg\<rparr>
      in if rv_notify v n then db\<lparr>rd_notices := rd_notices db @ [(rem, n)]\<rparr> else db)"

fun send_each :: "(PushSubscription \<Rightarrow> Message \<Rightarrow> push_result) \<Rightarrow> go_time \<Rightarrow> Reminder \<Rightarrow> Message \<Rightarrow> PushSubscription list \<Rightarrow> int \<Rightarrow> remind_db \<Rightarrow>
    int \<times> remind_db" where
  "send_each push now rem msg [] n db = (n, db)"
| "send_each push now rem msg (s # ss) n db =
     (case push s msg of
        Sent \<Rightarrow> send_each push now rem msg ss (n + 1)
                 (TouchPushSubscription (db\<lparr>rd_pushes := rd_pushes db @ [(rem, ps_ID s)]\<rparr>) (ps_ID s) now True)
      | Gone \<Rightarrow> send_each push now rem msg ss n (DropPushSubscription db (ps_ID s))
      | PushFailed \<Rightarrow> send_each push now rem msg ss n (TouchPushSubscription db (ps_ID s) now False))"

definition remind_deliver :: "remind_env \<Rightarrow> go_time \<Rightarrow> Reminder \<times> Message \<Rightarrow> remind_run \<Rightarrow> go_error option \<times> remind_run" where
  "remind_deliver v now x r =
     (case x of (rem, msg) \<Rightarrow>
      case ClaimReminder (rr_db r) rem of
        Inl e \<Rightarrow> (Some e, r)
      | Inr (fresh, db) \<Rightarrow>
          if \<not> fresh then (None, r)
          else let r1 = set_rr_db r db in
          (case rv_push v of
             None \<Rightarrow> (None, set_rr_db r1 (MarkReminderSent (inPage v db rem msg) rem 0))
           | Some push \<Rightarrow>
               (case subscriptions v r1 (rm_OwnerID rem) of
                  Inl e \<Rightarrow> (Some e, r1)
                | Inr (devs, r2) \<Rightarrow>
                    (case send_each push now rem msg devs 0 (rr_db r2) of
                       (sent, db1) \<Rightarrow>
                         let db2 = (if sent = 0 then inPage v db1 rem msg else db1)
                         in (None, set_rr_db r2 (MarkReminderSent db2 rem sent))))))"

text \<open>A loop that ends with the first error.\<close>

fun each_until :: "('a \<Rightarrow> 's \<Rightarrow> go_error option \<times> 's) \<Rightarrow> 'a list \<Rightarrow> 's \<Rightarrow> go_error option \<times> 's" where
  "each_until f [] s = (None, s)"
| "each_until f (x # xs) s = (case f x s of (Some e, s1) \<Rightarrow> (Some e, s1) | (None, s1) \<Rightarrow> each_until f xs s1)"

definition event_reminders :: "remind_env \<Rightarrow> Event \<Rightarrow> go_time \<Rightarrow> go_time \<Rightarrow> (Reminder \<times> Message) list" where
  "event_reminders v e from to =
     concat (map (\<lambda>m. map (\<lambda>start.
         (\<lparr>rm_OwnerID = ev_OwnerID e, rm_Entity = ''event'', rm_EntityID = ev_ID e, rm_OccurrenceAt = start, rm_MinutesBefore = m,
           rm_FireAt = start - minutes_of m\<rparr>,
          \<lparr>ms_Title = title_of (ev_Title e), ms_Body = when_text (rv_env v) e start m,
           ms_URL = rv_base v @ ''/events/'' @ en_id_text (rv_env v) (ev_ID e), ms_Tag = ''event-'' @ en_id_text (rv_env v) (ev_ID e)\<rparr>))
       (starts (rv_env v) e (from + minutes_of m) (to + minutes_of m))) (ev_Reminders e))"

definition remind_event :: "remind_env \<Rightarrow> go_time \<Rightarrow> go_time \<Rightarrow> go_time \<Rightarrow> Event \<Rightarrow> remind_run \<Rightarrow> go_error option \<times> remind_run" where
  "remind_event v now from to e r = each_until (remind_deliver v now) (event_reminders v e from to) r"

definition todo_due_reminders :: "remind_env \<Rightarrow> Todo \<Rightarrow> User \<Rightarrow> go_time \<Rightarrow> go_time \<Rightarrow> go_time \<Rightarrow> (Reminder \<times> Message) list" where
  "todo_due_reminders v t u start from to =
     map (\<lambda>m. (\<lparr>rm_OwnerID = td_OwnerID t, rm_Entity = ''todo'', rm_EntityID = td_ID t, rm_OccurrenceAt = start, rm_MinutesBefore = m,
                rm_FireAt = start - minutes_of m\<rparr>,
               \<lparr>ms_Title = title_of (td_Title t),
                ms_Body = ''Due '' @ Clock (User_Location (en_zones (rv_env v)) u) start (us_TimeFormat u \<noteq> ''12h''),
                ms_URL = rv_base v @ ''/todos/'' @ en_id_text (rv_env v) (td_ID t), ms_Tag = ''todo-'' @ en_id_text (rv_env v) (td_ID t)\<rparr>))
       (filter (\<lambda>m. \<not> (\<not> start - minutes_of m > from \<or> start - minutes_of m > to)) (td_Reminders t))"

definition remind_todo :: "remind_env \<Rightarrow> go_time \<Rightarrow> go_time \<Rightarrow> go_time \<Rightarrow> Todo \<Rightarrow> remind_run \<Rightarrow> go_error option \<times> remind_run" where
  "remind_todo v now from to t r =
     (case user_of_run r (td_OwnerID t) of
        Inl e \<Rightarrow> (Some e, r)
      | Inr (u, r1) \<Rightarrow>
          (case dueAt (rv_env v) t u of
             None \<Rightarrow> (None, r1)
           | Some start \<Rightarrow> each_until (remind_deliver v now) (todo_due_reminders v t u start from to) r1))"

text \<open>One tick; a clock that stands still during it.\<close>

definition Handle :: "remind_env \<Rightarrow> remind_db \<Rightarrow> go_time \<Rightarrow> go_error option \<times> remind_db" where
  "Handle v db now =
     (let from = now - lookback; to = now; ahead = wrap64 (MaxReminderMinutes * minute);
          r0 = \<lparr>rr_db = db, rr_subs = (\<lambda>i. None), rr_users = (\<lambda>i. None)\<rparr> in
      case each_until (remind_event v now from to) (RemindableEvents (rd_cal db) (from - hour) (to + ahead) maxItems) r0 of
        (Some e, r1) \<Rightarrow> (Some e, rr_db r1)
      | (None, r1) \<Rightarrow>
          (case each_until (remind_todo v now from to)
              (RemindableTodos (rd_todo (rr_db r1)) (add_date UTC from 0 0 (- 1)) (add_date UTC (to + ahead) 0 0 1) maxItems) r1 of
             (e, r2) \<Rightarrow> (e, rr_db r2)))"

end
