(* ===== verification/Reminders_Safety.thy ===== *)
theory Reminders_Safety
  imports Reminders Events_Expand
begin

text \<open>
  What reminders promise: each that falls due is delivered once, by the tick after it, and no tick delivers
  one again; and where they fall short: an occurrence that was moved or cancelled is reminded of all the same.
\<close>

subsection \<open>Loops\<close>

lemma each_until_mem:
  assumes refl: "\<And>s. R s s" and trans: "\<And>a b c. R a b \<Longrightarrow> R b c \<Longrightarrow> R a c"
    and step: "\<And>x s e s'. x \<in> set xs \<Longrightarrow> f x s = (e, s') \<Longrightarrow> R s s'"
  shows "each_until f xs s = (e, s') \<Longrightarrow> R s s' \<and> (e = None \<longrightarrow> (\<forall>x \<in> set xs. \<exists>a b. R s a \<and> f x a = (None, b) \<and> R b s'))"
  using step
proof (induction xs arbitrary: s)
  case Nil
  then show ?case using refl by simp
next
  case (Cons y ys)
  obtain e1 s1 where f: "f y s = (e1, s1)" by fastforce
  have r1: "R s s1" by (rule Cons(3) [OF _ f]) simp
  show ?case
  proof (cases e1)
    case None
    then have "each_until f ys s1 = (e, s')" using Cons(2) f by simp
    then have ih: "R s1 s' \<and> (e = None \<longrightarrow> (\<forall>x \<in> set ys. \<exists>a b. R s1 a \<and> f x a = (None, b) \<and> R b s'))"
      by (rule Cons(1)) (rule Cons(3), auto)
    then show ?thesis using trans r1 f None refl by (metis set_ConsD)
  next
    case (Some x)
    then show ?thesis using Cons(2) f r1 by auto
  qed
qed

subsection \<open>What was told\<close>

definition rd_keys :: "remind_db \<Rightarrow> (string \<times> go_id \<times> go_time \<times> int) set" where
  "rd_keys db = set (map (\<lambda>d. reminder_key (de_Reminder d)) (rd_rows db))"

definition pushed :: "remind_db \<Rightarrow> ((string \<times> go_id \<times> go_time \<times> int) \<times> go_id) list" where
  "pushed db = map (\<lambda>(r, d). (reminder_key r, d)) (rd_pushes db)"

definition noticed :: "remind_db \<Rightarrow> (string \<times> go_id \<times> go_time \<times> int) list" where
  "noticed db = map (\<lambda>(r, n). reminder_key r) (rd_notices db)"

text \<open>Every delivery was told, to devices at most once each or else on one notice, and nothing else was.\<close>

definition told_ok :: "remind_db \<Rightarrow> bool" where
  "told_ok db \<longleftrightarrow> distinct (map ps_ID (rd_subs db)) \<and> distinct (pushed db) \<and> distinct (noticed db) \<and>
     fst ` set (pushed db) \<inter> set (noticed db) = {} \<and> fst ` set (pushed db) \<union> set (noticed db) = rd_keys db"

definition run_ok :: "remind_run \<Rightarrow> bool" where
  "run_ok r \<longleftrightarrow> told_ok (rr_db r) \<and> (\<forall>u devs. rr_subs r u = Some devs \<longrightarrow> distinct (map ps_ID devs))"

definition keeps_told :: "remind_run \<Rightarrow> remind_run \<Rightarrow> bool" where
  "keeps_told r r' \<longleftrightarrow> (run_ok r \<longrightarrow> run_ok r') \<and> rd_keys (rr_db r) \<subseteq> rd_keys (rr_db r') \<and> rd_todo (rr_db r') = rd_todo (rr_db r)"

lemma keeps_told_refl: "keeps_told r r"
  by (simp add: keeps_told_def)

lemma keeps_told_trans: "keeps_told a b \<Longrightarrow> keeps_told b c \<Longrightarrow> keeps_told a c"
  by (auto simp: keeps_told_def)

lemma send_each_result:
  "send_each push now rem msg devs n db = (n', db') \<Longrightarrow>
     n' = n + int (length (filter (\<lambda>s. push s msg = Sent) devs)) \<and>
     rd_pushes db' = rd_pushes db @ map (\<lambda>s. (rem, ps_ID s)) (filter (\<lambda>s. push s msg = Sent) devs) \<and>
     rd_rows db' = rd_rows db \<and> rd_notices db' = rd_notices db \<and> rd_todo db' = rd_todo db \<and>
     (distinct (map ps_ID (rd_subs db)) \<longrightarrow> distinct (map ps_ID (rd_subs db')))"
proof (induction push now rem msg devs n db rule: send_each.induct)
  case (2 push now rem msg s ss n db)
  have t: "map ps_ID (map (\<lambda>x. if ps_ID x = i then (if g then x\<lparr>ps_LastOKAt := a, ps_Failures := 0\<rparr> else x\<lparr>ps_Failures := ps_Failures x + 1\<rparr>) else x) xs) = map ps_ID xs"
    for i g a and xs :: "PushSubscription list" by (induction xs) auto
  show ?case
  proof (cases "push s msg")
    case Sent
    then show ?thesis using 2(1) 2(4) t by (auto simp: TouchPushSubscription_def simp del: map_map)
  next
    case Gone
    then show ?thesis using 2(2) 2(4) by (auto simp: DropPushSubscription_def distinct_map_filter)
  next
    case PushFailed
    then show ?thesis using 2(3) 2(4) t by (auto simp: TouchPushSubscription_def simp del: map_map)
  qed
qed simp

lemma mark_facts:
  "rd_keys (MarkReminderSent db r n) = rd_keys db" "pushed (MarkReminderSent db r n) = pushed db" "noticed (MarkReminderSent db r n) = noticed db"
  "rd_subs (MarkReminderSent db r n) = rd_subs db" "rd_todo (MarkReminderSent db r n) = rd_todo db"
proof -
  have "map (\<lambda>d. reminder_key (de_Reminder d)) (map (\<lambda>d. if reminder_key (de_Reminder d) = k then d\<lparr>de_PushSent := x\<rparr> else d) ds) =
      map (\<lambda>d. reminder_key (de_Reminder d)) ds" for k x and ds :: "delivery list" by (induction ds) auto
  then show "rd_keys (MarkReminderSent db r n) = rd_keys db" unfolding rd_keys_def MarkReminderSent_def by (simp del: map_map set_map)
qed (simp_all add: pushed_def noticed_def MarkReminderSent_def)

lemma told_mark: "told_ok (MarkReminderSent db r n) = told_ok db"
  by (simp add: told_ok_def mark_facts)

lemma devices_distinct: "distinct (map ps_ID (rd_subs db)) \<Longrightarrow> distinct (map ps_ID (PushSubscriptions db u))"
  by (auto simp: PushSubscriptions_def distinct_map inj_on_def)

lemma keys_after:
  assumes "rd_rows x = rd_rows db @ [\<lparr>de_Reminder = rem, de_PushSent = 0\<rparr>]"
  shows "rd_keys x = insert (reminder_key rem) (rd_keys db)"
  using assms by (simp add: rd_keys_def)

text \<open>A fresh reminder, told to a set of devices or on one notice.\<close>

lemma told_fresh:
  assumes ok: "told_ok db" and fresh: "reminder_key rem \<notin> rd_keys db"
    and rws: "rd_rows db' = rd_rows db @ [\<lparr>de_Reminder = rem, de_PushSent = 0\<rparr>]" and devs: "distinct (map ps_ID (rd_subs db'))"
    and p: "rd_pushes db' = rd_pushes db @ map (\<lambda>i. (rem, i)) is" "distinct is"
    and n: "rd_notices db' = rd_notices db @ (if is = [] then [(rem, nt)] else [])"
  shows "told_ok db'"
proof -
  have k: "rd_keys db' = insert (reminder_key rem) (rd_keys db)" by (simp add: rd_keys_def rws)
  have q: "pushed db' = pushed db @ map (Pair (reminder_key rem)) is" by (simp add: pushed_def p(1))
  have m: "noticed db' = noticed db @ (if is = [] then [reminder_key rem] else [])" by (simp add: noticed_def n)
  have o: "distinct (pushed db)" "distinct (noticed db)" "fst ` set (pushed db) \<inter> set (noticed db) = {}"
      "fst ` set (pushed db) \<union> set (noticed db) = rd_keys db" using ok by (simp_all add: told_ok_def)
  have np: "reminder_key rem \<notin> fst ` set (pushed db)" and nn: "reminder_key rem \<notin> set (noticed db)" using o(4) fresh by blast+
  have dp: "distinct (pushed db')"
  proof -
    have "(reminder_key rem, x) \<notin> set (pushed db)" for x using np by (metis fst_conv image_eqI)
    then have "set (pushed db) \<inter> set (map (Pair (reminder_key rem)) is) = {}" by fastforce
    moreover have "distinct (map (Pair (reminder_key rem)) is)" using p(2) by (simp add: distinct_map inj_on_def)
    ultimately show ?thesis unfolding q distinct_append using o(1) by blast
  qed
  have dn: "distinct (noticed db')" unfolding m using o(2) nn by simp
  have fp: "fst ` set (pushed db') = fst ` set (pushed db) \<union> (if is = [] then {} else {reminder_key rem})"
    unfolding q by (cases "is") (auto simp: image_Un image_image)
  show ?thesis
    unfolding told_ok_def
  proof (intro conjI devs dp dn)
    show "fst ` set (pushed db') \<inter> set (noticed db') = {}" unfolding fp m using o(3) np nn by auto
    show "fst ` set (pushed db') \<union> set (noticed db') = rd_keys db'" unfolding fp m k using o(4) by auto
  qed
qed

lemma remind_deliver_keeps:
  assumes run: "remind_deliver v now (rem, msg) r = (e, r')" and dev: "\<forall>u. rv_devices v u = None" and nt: "\<forall>n. rv_notify v n"
  shows "keeps_told r r' \<and> (e = None \<longrightarrow> reminder_key rem \<in> rd_keys (rr_db r'))"
proof (cases "ClaimReminder (rr_db r) rem")
  case (Inl x)
  then show ?thesis using run by (auto simp: remind_deliver_def keeps_told_refl)
next
  case (Inr a)
  then obtain fresh db where c: "ClaimReminder (rr_db r) rem = Inr (fresh, db)" by (cases a) simp
  show ?thesis
  proof (cases fresh)
    case False
    then have "list_ex (\<lambda>d. reminder_key (de_Reminder d) = reminder_key rem) (rd_rows (rr_db r))" "db = rr_db r"
      using c by (auto simp: ClaimReminder_def split: if_splits)
    then have "reminder_key rem \<in> rd_keys (rr_db r)" unfolding rd_keys_def list_ex_iff by (metis image_eqI set_map)
    then show ?thesis using run c False by (auto simp: remind_deliver_def keeps_told_refl)
  next
    case True
    have db: "db = (rr_db r)\<lparr>rd_rows := rd_rows (rr_db r) @ [\<lparr>de_Reminder = rem, de_PushSent = 0\<rparr>]\<rparr>"
        and new: "reminder_key rem \<notin> rd_keys (rr_db r)"
      using c True by (auto simp: ClaimReminder_def rd_keys_def list_ex_iff split: if_splits)
    show ?thesis
    proof (cases "rv_push v")
      case None
      then have r': "e = None" "r' = set_rr_db (set_rr_db r db) (MarkReminderSent (inPage v db rem msg) rem 0)"
        using run c True by (auto simp: remind_deliver_def)
      define x where "x = inPage v db rem msg"
      have x: "rd_rows x = rd_rows (rr_db r) @ [\<lparr>de_Reminder = rem, de_PushSent = 0\<rparr>]" "rd_todo x = rd_todo (rr_db r)"
        using db by (simp_all add: x_def inPage_def Let_def)
      have told: "told_ok (rr_db r) \<Longrightarrow> told_ok x"
        by (rule told_fresh [of "rr_db r" rem _ "[]"]) (use new db nt in \<open>auto simp: x_def inPage_def Let_def told_ok_def\<close>)
      have r'': "rr_db r' = MarkReminderSent x rem 0" "rr_subs r' = rr_subs r" using r' by (simp_all add: set_rr_db_def x_def)
      show ?thesis
        using told x r'' by (simp add: keeps_told_def run_ok_def told_mark keys_after mark_facts subset_insertI)
    next
      case (Some push)
      obtain devs r2 where s: "subscriptions v (set_rr_db r db) (rm_OwnerID rem) = Inr (devs, r2)"
        using dev by (cases "rr_subs (set_rr_db r db) (rm_OwnerID rem)") (simp_all add: subscriptions_def Let_def)
      have pd: "run_ok r \<Longrightarrow> distinct (map ps_ID (PushSubscriptions db (rm_OwnerID rem)))"
        by (rule devices_distinct) (simp add: db run_ok_def told_ok_def)
      have r2: "rr_db r2 = db" "run_ok r \<Longrightarrow> distinct (map ps_ID devs)"
          "\<And>u l. run_ok r \<Longrightarrow> rr_subs r2 u = Some l \<Longrightarrow> distinct (map ps_ID l)"
        using s dev pd by (auto simp: subscriptions_def Let_def set_rr_db_def run_ok_def split: option.splits if_splits)
      obtain n db1 where e1: "send_each push now rem msg devs 0 db = (n, db1)" by fastforce
      note sr = send_each_result [OF e1]
      let ?is = "map ps_ID (filter (\<lambda>s. push s msg = Sent) devs)"
      define db2 where "db2 = (if n = 0 then inPage v db1 rem msg else db1)"
      have r': "e = None" "r' = set_rr_db r2 (MarkReminderSent db2 rem n)"
        using run c True Some s r2(1) e1 by (auto simp: remind_deliver_def db2_def)
      have f: "rd_rows db2 = rd_rows (rr_db r) @ [\<lparr>de_Reminder = rem, de_PushSent = 0\<rparr>]" "rd_todo db2 = rd_todo (rr_db r)"
        using sr nt by (auto simp: db2_def inPage_def Let_def db)
      have "told_ok db2" if ok: "run_ok r"
      proof (rule told_fresh [of "rr_db r" rem db2 ?is])
        show "told_ok (rr_db r)" "reminder_key rem \<notin> rd_keys (rr_db r)" using ok new by (simp_all add: run_ok_def)
        show "rd_rows db2 = rd_rows (rr_db r) @ [\<lparr>de_Reminder = rem, de_PushSent = 0\<rparr>]" by (rule f)
        show "distinct (map ps_ID (rd_subs db2))"
          using sr ok nt by (auto simp: db2_def inPage_def Let_def db run_ok_def told_ok_def)
        show "rd_pushes db2 = rd_pushes (rr_db r) @ map (\<lambda>i. (rem, i)) ?is"
          using sr nt by (auto simp: db2_def inPage_def Let_def db)
        show "distinct ?is" using r2(2) [OF ok] by (rule distinct_map_filter)
        show "rd_notices db2 = rd_notices (rr_db r) @ (if ?is = [] then [(rem, \<lparr>no_OwnerID = rm_OwnerID rem, no_Title = ms_Title msg,
            no_Body = ms_Body msg, no_URL = ms_URL msg, no_Tag = ms_Tag msg\<rparr>)] else [])"
          using sr nt by (auto simp: db2_def inPage_def Let_def db)
      qed
      moreover have "rr_db r' = MarkReminderSent db2 rem n" "rr_subs r' = rr_subs r2" using r' by (simp_all add: set_rr_db_def)
      ultimately show ?thesis
        using f r2(3) by (simp add: keeps_told_def run_ok_def told_mark keys_after mark_facts subset_insertI)
    qed
  qed
qed

subsection \<open>Ticks\<close>

text \<open>Ticks whose devices can be read and whose notices are put, the outside faults aside.\<close>

definition sound_env :: "remind_env \<Rightarrow> bool" where
  "sound_env v \<longleftrightarrow> (\<forall>u. rv_devices v u = None) \<and> (\<forall>n. rv_notify v n)"

lemma deliveries_keep:
  assumes "sound_env v" and "each_until (remind_deliver v now) xs r = (e, r')"
  shows "keeps_told r r' \<and> (e = None \<longrightarrow> (\<forall>(rem, msg) \<in> set xs. reminder_key rem \<in> rd_keys (rr_db r')))"
proof -
  have d: "keeps_told a b \<and> (e = None \<longrightarrow> reminder_key (fst x) \<in> rd_keys (rr_db b))" if "remind_deliver v now x a = (e, b)" for x a b e
    by (rule remind_deliver_keeps [where msg = "snd x"]) (use that assms(1) in \<open>auto simp: sound_env_def\<close>)
  have m: "keeps_told r r' \<and> (e = None \<longrightarrow> (\<forall>x \<in> set xs. \<exists>a b. keeps_told r a \<and> remind_deliver v now x a = (None, b) \<and> keeps_told b r'))"
    by (rule each_until_mem [OF keeps_told_refl keeps_told_trans _ assms(2)]) (use d in blast)+
  have "reminder_key rem \<in> rd_keys (rr_db r')" if n: "e = None" and x: "(rem, msg) \<in> set xs" for rem msg
  proof -
    obtain a b where "remind_deliver v now (rem, msg) a = (None, b)" "keeps_told b r'" using m n x by blast
    then show ?thesis using d [of "(rem, msg)" a None b] by (auto simp: keeps_told_def)
  qed
  then show ?thesis using m by blast
qed

lemma todos_keep:
  assumes "sound_env v" and "remind_todo v now lo hi t r = (e, r')"
  shows "keeps_told r r'"
proof -
  have u: "keeps_told r r1" if "user_of_run r i = Inr (u, r1)" for i u r1
    using that by (auto simp: user_of_run_def keeps_told_def run_ok_def split: option.splits)
  show ?thesis
    using assms(2) u deliveries_keep [OF assms(1)] keeps_told_trans keeps_told_refl
    by (fastforce simp: remind_todo_def split: sum.splits option.splits prod.splits)
qed

lemma Handle_keeps:
  assumes env: "sound_env v" and run: "Handle v db now = (e, db')"
  shows "(told_ok db \<longrightarrow> told_ok db') \<and> rd_keys db \<subseteq> rd_keys db' \<and> rd_todo db' = rd_todo db \<and>
    (e = None \<longrightarrow> (\<forall>x \<in> set (RemindableEvents (rd_cal db) (now - lookback - hour) (now + wrap64 (MaxReminderMinutes * minute)) maxItems).
       \<forall>(rem, msg) \<in> set (event_reminders v x (now - lookback) now). reminder_key rem \<in> rd_keys db'))"
proof -
  define r0 where "r0 = \<lparr>rr_db = db, rr_subs = (\<lambda>i :: go_id. None), rr_users = (\<lambda>i :: go_id. None)\<rparr>"
  define xs where "xs = RemindableEvents (rd_cal db) (now - lookback - hour) (now + wrap64 (MaxReminderMinutes * minute)) maxItems"
  obtain e1 r1 where l1: "each_until (remind_event v now (now - lookback) now) xs r0 = (e1, r1)" by fastforce
  have ev: "keeps_told a b" if "remind_event v now lo hi x a = (e, b)" for lo hi x a e b
    using deliveries_keep [OF env] that by (simp add: remind_event_def)
  have m1: "keeps_told r0 r1 \<and> (e1 = None \<longrightarrow> (\<forall>x \<in> set xs. \<exists>a b. keeps_told r0 a \<and> remind_event v now (now - lookback) now x a = (None, b) \<and> keeps_told b r1))"
    by (rule each_until_mem [OF keeps_told_refl keeps_told_trans _ l1]) (use ev in blast)+
  have k1: "reminder_key rem \<in> rd_keys (rr_db r1)"
    if n: "e1 = None" and x: "x \<in> set xs" and y: "(rem, msg) \<in> set (event_reminders v x (now - lookback) now)" for x rem msg
  proof -
    obtain a b where "remind_event v now (now - lookback) now x a = (None, b)" and kb: "keeps_told b r1" using m1 n x by blast
    then have "\<forall>(rem, msg) \<in> set (event_reminders v x (now - lookback) now). reminder_key rem \<in> rd_keys (rr_db b)"
      using deliveries_keep [OF env, of now _ a None b] unfolding remind_event_def by blast
    then show ?thesis using y kb unfolding keeps_told_def by blast
  qed
  obtain r2 where r2: "keeps_told r1 r2" "db' = rr_db r2" "e = None \<longrightarrow> e1 = None"
  proof (cases e1)
    case None
    then obtain ts r2 where "each_until (remind_todo v now (now - lookback) now) ts r1 = (e, r2)" "db' = rr_db r2"
      using run l1 by (auto simp: Handle_def Let_def r0_def xs_def split: prod.splits)
    moreover from this(1) have "keeps_told r1 r2 \<and> (e = None \<longrightarrow> (\<forall>x \<in> set ts. \<exists>a b. keeps_told r1 a \<and> remind_todo v now (now - lookback) now x a = (None, b) \<and> keeps_told b r2))"
      by (intro each_until_mem [OF keeps_told_refl keeps_told_trans]) (use todos_keep [OF env] in blast)+
    ultimately show thesis using that None by blast
  next
    case (Some x)
    then have "e = Some x" "db' = rr_db r1" using run l1 by (auto simp: Handle_def Let_def r0_def xs_def)
    then show thesis using that keeps_told_refl Some by blast
  qed
  have t: "keeps_told r0 r2" using m1 r2(1) keeps_told_trans by blast
  have "run_ok r0 = told_ok db" by (simp add: run_ok_def r0_def)
  then have "told_ok db \<longrightarrow> told_ok db'" "rd_keys db \<subseteq> rd_keys db'" "rd_todo db' = rd_todo db"
    using t r2(2) by (auto simp: keeps_told_def run_ok_def r0_def)
  moreover have "reminder_key rem \<in> rd_keys db'"
    if "e = None" "x \<in> set xs" "(rem, msg) \<in> set (event_reminders v x (now - lookback) now)" for x rem msg
    using k1 [OF _ that(2,3)] r2 that(1) unfolding keeps_told_def by blast
  ultimately show ?thesis unfolding xs_def by blast
qed

subsection \<open>Due reminders\<close>

definition due_start :: "service_env \<Rightarrow> Event \<Rightarrow> go_time \<Rightarrow> bool" where
  "due_start env e t \<longleftrightarrow>
     (if IsMaster e then (\<exists>ser. FromEvent (en_lib env) (en_zones env) e = Inr ser \<and> t \<in> occs (en_lib env) ser) else t = ev_Start e)"

text \<open>The expansion of a series may refuse; a tick then skips the event.\<close>

definition expands :: "service_env \<Rightarrow> Event \<Rightarrow> go_time \<Rightarrow> go_time \<Rightarrow> bool" where
  "expands env e lo hi \<longleftrightarrow>
     (IsMaster e \<longrightarrow> (\<forall>ser. FromEvent (en_lib env) (en_zones env) e = Inr ser \<longrightarrow>
        (\<exists>ts. Between (en_lib env) ser (lo - Duration e) (hi + second) maxOccurs = Inr ts)))"

lemma starts_due:
  assumes lib: "rrule_ok (en_lib env)" and d: "due_start env e t" and x: "expands env e lo hi" and dur: "0 \<le> Duration e"
    and t: "lo < t" "t \<le> hi"
  shows "t \<in> set (starts env e lo hi)"
proof (cases "IsMaster e")
  case True
  then obtain ser ts where s: "FromEvent (en_lib env) (en_zones env) e = Inr ser" "t \<in> occs (en_lib env) ser"
      "Between (en_lib env) ser (lo - Duration e) (hi + second) maxOccurs = Inr ts"
    using d x by (auto simp: due_start_def expands_def)
  have "Overlaps_times t (t + sr_Duration ser) (lo - Duration e) (hi + second)"
    using t dur FromEvent_facts(2) [OF s(1)] by (simp add: Overlaps_times_def second_def)
  then have "t \<in> set ts"
    using Between_spec [OF lib FromEvent_sorted [OF s(1)], of maxOccurs "lo - Duration e" "hi + second"] s by (simp add: maxOccurs_def)
  then show ?thesis using True s t by (simp add: starts_def)
qed (use d t in \<open>simp add: due_start_def starts_def\<close>)

lemma due_in_span:
  assumes lib: "rrule_ok (en_lib env)" and d: "due_start env e t" and dur: "ev_Start e \<le> ev_End e"
    and b: "f < t" "t + 1000 \<le> u" "f + hour \<le> u"
  shows "range_overlaps (row_span env e) (f - hour) u"
proof -
  obtain lo hi where sp: "event_Span (en_lib env) (en_zones env) e = (lo, hi)" by fastforce
  have dr: "0 \<le> Duration e" using dur by (simp add: Duration_def time_sub_def sat64_nonneg_iff)
  have "lo \<le> t \<and> (\<forall>h. hi = Some h \<longrightarrow> t \<le> h)"
  proof (cases "IsMaster e")
    case True
    then obtain ser where s: "FromEvent (en_lib env) (en_zones env) e = Inr ser" "t \<in> occs (en_lib env) ser"
      using d by (auto simp: due_start_def)
    show ?thesis using Span_spec [OF lib True s(1) sp s(2)] dr by auto
  next
    case False
    then show ?thesis using d sp dur by (auto simp: due_start_def event_Span_def Let_def allDayMargin_def duration_defs split: if_splits)
  qed
  then have lt: "lo \<le> t" "\<And>h. hi = Some h \<Longrightarrow> t \<le> h" by blast+
  have r: "db_time x \<le> x \<and> x < db_time x + 1000" for x unfolding db_time_def by presburger
  have hr: "1000 < hour" by (simp add: duration_defs)
  have "db_time (f - hour) < db_time u" "db_time lo < db_time u"
    using r [of "f - hour"] r [of u] r [of lo] b lt(1) hr by linarith+
  moreover have "db_time (f - hour) < db_time h" if "hi = Some h" for h
    using r [of "f - hour"] r [of h] b lt(2) [OF that] hr by linarith
  ultimately show ?thesis
    by (cases hi) (auto simp: range_overlaps_def row_span_def sp tstzrange_def less_imp_le)
qed

subsection \<open>Exactly once\<close>

fun ticking :: "go_time \<Rightarrow> go_time list \<Rightarrow> bool" where
  "ticking t [] = True"
| "ticking t (n # ns) = (t \<le> n \<and> n - t \<le> lookback \<and> ticking n ns)"

lemma ticking_hits:
  "ticking t ns \<Longrightarrow> t < fire \<Longrightarrow> ns \<noteq> [] \<Longrightarrow> fire \<le> last ns \<Longrightarrow>
     \<exists>prev n post. ns = prev @ n # post \<and> n - lookback < fire \<and> fire \<le> n"
proof (induction t ns rule: ticking.induct)
  case (2 t n ns)
  show ?case
  proof (cases "fire \<le> n")
    case True
    then show ?thesis using 2(2,3) by (intro exI [of _ "[]"] exI [of _ n] exI [of _ ns]) simp
  next
    case False
    then have "\<exists>prev m post. ns = prev @ m # post \<and> m - lookback < fire \<and> fire \<le> m"
      using 2 by (cases "ns = []") auto
    then show ?thesis by (metis append_Cons)
  qed
qed simp

fun run_ticks :: "remind_env \<Rightarrow> remind_db \<Rightarrow> go_time list \<Rightarrow> go_error option list \<times> remind_db" where
  "run_ticks v db [] = ([], db)"
| "run_ticks v db (n # ns) = (case Handle v db n of (e, db1) \<Rightarrow> case run_ticks v db1 ns of (es, db2) \<Rightarrow> (e # es, db2))"

definition told_once :: "remind_db \<Rightarrow> string \<times> go_id \<times> go_time \<times> int \<Rightarrow> bool" where
  "told_once db k \<longleftrightarrow>
     (let ps = filter (\<lambda>p. fst p = k) (pushed db); ns = filter (\<lambda>x. x = k) (noticed db)
      in ps = [] \<and> ns = [k] \<or> ps \<noteq> [] \<and> distinct ps \<and> ns = [])"

lemma told_once_key:
  assumes "told_ok db" and "k \<in> rd_keys db"
  shows "told_once db k"
proof -
  have o: "distinct (pushed db)" "distinct (noticed db)" "fst ` set (pushed db) \<inter> set (noticed db) = {}"
      "fst ` set (pushed db) \<union> set (noticed db) = rd_keys db" using assms(1) by (simp_all add: told_ok_def)
  have one: "distinct xs \<Longrightarrow> filter (\<lambda>x. x = k) xs = (if k \<in> set xs then [k] else [])" for xs
    by (induction xs) auto
  show ?thesis
  proof (cases "k \<in> set (noticed db)")
    case True
    then have "k \<notin> fst ` set (pushed db)" using o(3) by blast
    then have "filter (\<lambda>p. fst p = k) (pushed db) = []" by (force simp: filter_empty_conv)
    then show ?thesis using one [OF o(2)] True by (simp add: told_once_def)
  next
    case False
    then have "k \<in> fst ` set (pushed db)" using o(4) assms(2) by blast
    then have "filter (\<lambda>p. fst p = k) (pushed db) \<noteq> []" by (force simp: filter_empty_conv)
    then show ?thesis using one [OF o(2)] False o(1) by (simp add: told_once_def)
  qed
qed

lemma run_ticks_keep:
  assumes env: "sound_env v"
  shows "run_ticks v db ns = (es, db') \<Longrightarrow> (told_ok db \<longrightarrow> told_ok db') \<and> rd_keys db \<subseteq> rd_keys db' \<and> rd_todo db' = rd_todo db"
proof (induction ns arbitrary: db es)
  case (Cons n ns)
  obtain e db1 where h: "Handle v db n = (e, db1)" by fastforce
  obtain es1 where "run_ticks v db1 ns = (es1, db')" using Cons(2) h by (auto split: prod.splits)
  then show ?case using Cons(1) Handle_keeps [OF env h] by fastforce
qed simp

lemma run_ticks_split:
  "run_ticks v db (prev @ n # post) = (es, db') \<Longrightarrow> set es \<subseteq> {None} \<Longrightarrow>
     \<exists>es1 db1 db2 es2. run_ticks v db prev = (es1, db1) \<and> Handle v db1 n = (None, db2) \<and> run_ticks v db2 post = (es2, db')"
proof (induction prev arbitrary: db es)
  case Nil
  then show ?case by (auto split: prod.splits)
next
  case (Cons b bs)
  obtain e d where h: "Handle v db b = (e, d)" by fastforce
  obtain es3 where r: "run_ticks v d (bs @ n # post) = (es3, db')" "es = e # es3" using Cons(2) h by (auto split: prod.splits)
  obtain es1 db1 db2 es2 where "run_ticks v d bs = (es1, db1)" "Handle v db1 n = (None, db2)" "run_ticks v db2 post = (es2, db')"
    using Cons(1) [OF r(1)] Cons(3) r(2) by auto
  then show ?case using h by (intro exI [of _ "e # es1"]) auto
qed

lemma tick_delivers:
  assumes env: "sound_env v" "rrule_ok (en_lib (rv_env v))" and h: "Handle v db n = (None, db')"
    and row: "(e, row_span (rv_env v) e) \<in> set (cd_events (rd_cal db))" "ev_DeletedAt e = None" "ev_Status e \<noteq> ''cancelled''" "ev_Start e \<le> ev_End e"
    and m: "m \<in> set (ev_Reminders e)" "0 \<le> m" "m < MaxReminderMinutes"
    and occ: "due_start (rv_env v) e t" "n - lookback < t - m * minute" "t - m * minute \<le> n"
    and exp: "expands (rv_env v) e (n - lookback + m * minute) (n + m * minute)"
    and few: "length (remindable_events (rd_cal db) (n - lookback - hour) (n + MaxReminderMinutes * minute)) \<le> maxItems"
  shows "(''event'', ev_ID e, db_time t, m) \<in> rd_keys db'"
proof -
  have w: "wrap64 (MaxReminderMinutes * minute) = MaxReminderMinutes * minute" "minutes_of m = m * minute"
    using m(2,3) by (simp_all add: minutes_of_def MaxReminderMinutes_def duration_defs wrap64_id min_int64_def max_int64_def)
  have w32: "wrap32 m = m" using m(2,3) by (simp add: wrap32_def MaxReminderMinutes_def)
  have d: "0 \<le> Duration e" using row(4) by (simp add: Duration_def time_sub_def sat64_nonneg_iff)
  have "m * minute + minute \<le> MaxReminderMinutes * minute" using m(3) by (simp add: MaxReminderMinutes_def duration_defs)
  then have u: "t + 1000 \<le> n + MaxReminderMinutes * minute" using occ(3) by (simp add: duration_defs)
  have l: "n - lookback < t" "n - lookback + hour \<le> n + MaxReminderMinutes * minute"
    using occ(2) m(2) by (simp_all add: lookback_def MaxReminderMinutes_def duration_defs)
  have "e \<in> set (remindable_events (rd_cal db) (n - lookback - hour) (n + MaxReminderMinutes * minute))"
    using row(1-3) m(1) due_in_span [OF env(2) occ(1) row(4) l(1) u l(2)] by (force simp: remindable_events_def)
  then have e: "e \<in> set (RemindableEvents (rd_cal db) (n - lookback - hour) (n + wrap64 (MaxReminderMinutes * minute)) maxItems)"
    using few w by (simp add: RemindableEvents_def)
  have "t \<in> set (starts (rv_env v) e (n - lookback + minutes_of m) (n + minutes_of m))"
    by (rule starts_due [OF env(2) occ(1) _ d]) (use exp w occ(2,3) in simp_all)
  then obtain rem msg where "(rem, msg) \<in> set (event_reminders v e (n - lookback) n)" "rm_Entity rem = ''event''" "rm_EntityID rem = ev_ID e"
      "rm_OccurrenceAt rem = t" "rm_MinutesBefore rem = m"
    using m(1) by (fastforce simp: event_reminders_def)
  then show ?thesis using Handle_keeps [OF env(1) h] e w32 by (fastforce simp: reminder_key_def)
qed

lemma reminder_once:
  assumes env: "sound_env v" "rrule_ok (en_lib (rv_env v))" and db: "told_ok db"
    and row: "(e, row_span (rv_env v) e) \<in> set (cd_events (rd_cal db))" "ev_DeletedAt e = None" "ev_Status e \<noteq> ''cancelled''" "ev_Start e \<le> ev_End e"
    and m: "m \<in> set (ev_Reminders e)" "0 \<le> m" "m < MaxReminderMinutes" and occ: "due_start (rv_env v) e t"
    and ticks: "ticking t0 ns" "ns \<noteq> []" "t0 < t - m * minute" "t - m * minute \<le> last ns"
    and run: "run_ticks v db ns = (es, db')" "set es \<subseteq> {None}"
    and seen: "\<forall>n \<in> set ns. expands (rv_env v) e (n - lookback + m * minute) (n + m * minute) \<and>
        length (remindable_events (rd_cal db) (n - lookback - hour) (n + MaxReminderMinutes * minute)) \<le> maxItems"
  shows "told_once db' (''event'', ev_ID e, db_time t, m)"
proof -
  obtain prev n post where n: "ns = prev @ n # post" "n - lookback < t - m * minute" "t - m * minute \<le> n"
    using ticking_hits [OF ticks(1,3,2,4)] by blast
  obtain es1 db1 db2 es2 where s: "run_ticks v db prev = (es1, db1)" "Handle v db1 n = (None, db2)" "run_ticks v db2 post = (es2, db')"
    using run_ticks_split run n(1) by blast
  have c: "rd_cal db1 = rd_cal db" using run_ticks_keep [OF env(1) s(1)] by (simp add: rd_cal_def)
  have "(''event'', ev_ID e, db_time t, m) \<in> rd_keys db2"
    by (rule tick_delivers [OF env s(2) _ row(2-4) m occ n(2,3)]) (use row(1) seen n(1) c in auto)
  then show ?thesis
    using run_ticks_keep [OF env(1) s(3)] run_ticks_keep [OF env(1) run(1)] db told_once_key by blast
qed


lemma override_hides:
  assumes out: "occurrences env mx db w evs win = Inr out" and lib: "rrule_ok (en_lib env)" "ids_ok env" "tables_ok db"
    and evs: "distinct evs" "\<forall>x \<in> set evs. x \<in> set (map fst (cd_events db)) \<and> event_visible w x"
    and e: "ev_SeriesID e = None"
    and ov: "o1 \<in> set (map fst (cd_events db))" "event_visible w o1" "ev_SeriesID o1 = Some (ev_ID e)" "ev_RecurrenceID o1 = Some (db_time t)"
  shows "instance_of e t \<notin> set out"
proof
  assume "instance_of e t \<in> set out"
  then have "instance_of e t \<in> shown env db w win evs" using listing_spec [OF out lib evs] by simp
  then consider x where "instance_of e t = \<lparr>oc_Event = x, oc_Instance = None\<rparr>"
    | x where "instance_of e t = \<lparr>oc_Event = x, oc_Instance = ev_RecurrenceID x\<rparr>" "x \<in> relevant_overrides db w evs"
    | m st where "instance_of e t = instance_of m st" "m \<in> set evs" "IsMaster m"
        "\<not> (\<exists>o1 \<in> relevant_overrides db w evs. ev_SeriesID o1 = Some (ev_ID m) \<and> UnixMicro (the (ev_RecurrenceID o1)) = UnixMicro st)"
    unfolding shown_def by blast
  then show False
  proof cases
    case 1
    then show ?thesis by (simp add: instance_of_def)
  next
    case 2
    then have "ev_SeriesID x = None" using e by (auto simp: instance_of_def)
    moreover have "ev_SeriesID x \<noteq> None" using 2(2) by (auto simp: relevant_overrides_def IsOverride_def)
    ultimately show ?thesis by simp
  next
    case 3
    have same: "t = st" "ev_ID e = ev_ID m" using instance_inject [OF 3(1)] by simp_all
    have "o1 \<in> relevant_overrides db w evs" using ov(1,2,3) 3(2,3) same by (auto simp: relevant_overrides_def)
    then show ?thesis using 3(4) ov(3,4) same by auto
  qed
qed

text \<open>C40.
  Reminders ignore overrides.  An occurrence of a series that an override moves elsewhere or cancels is in no
  listing any more, under whatever window, and yet its reminder is delivered at the old moment.
\<close>

theorem moved_occurrence_reminded:
  assumes env: "sound_env v" "rrule_ok (en_lib (rv_env v))" "ids_ok (rv_env v)" and db: "told_ok db" "tables_ok (rd_cal db)"
    and row: "(e, row_span (rv_env v) e) \<in> set (cd_events (rd_cal db))" "ev_DeletedAt e = None" "ev_Status e \<noteq> ''cancelled''" "ev_Start e \<le> ev_End e"
    and m: "m \<in> set (ev_Reminders e)" "0 \<le> m" "m < MaxReminderMinutes" and occ: "IsMaster e" "due_start (rv_env v) e t"
    and ov: "o1 \<in> set (map fst (cd_events (rd_cal db)))" "event_visible w o1" "ev_SeriesID o1 = Some (ev_ID e)"
      "ev_RecurrenceID o1 = Some (db_time t)"
    and ticks: "ticking t0 ns" "ns \<noteq> []" "t0 < t - m * minute" "t - m * minute \<le> last ns"
    and run: "run_ticks v db ns = (es, db')" "set es \<subseteq> {None}"
    and seen: "\<forall>n \<in> set ns. expands (rv_env v) e (n - lookback + m * minute) (n + m * minute) \<and>
        length (remindable_events (rd_cal db) (n - lookback - hour) (n + MaxReminderMinutes * minute)) \<le> maxItems"
  shows "told_once db' (''event'', ev_ID e, db_time t, m) \<and>
    (\<forall>mx evs win out. occurrences (rv_env v) mx (rd_cal db) w evs win = Inr out \<longrightarrow> distinct evs \<longrightarrow>
       (\<forall>x \<in> set evs. x \<in> set (map fst (cd_events (rd_cal db))) \<and> event_visible w x) \<longrightarrow> instance_of e t \<notin> set out)"
proof -
  have "ev_SeriesID e = None" using occ(1) by (simp add: IsMaster_def)
  then show ?thesis
    using reminder_once [OF env(1,2) db(1) row m occ(2) ticks run seen] override_hides [OF _ env(2,3) db(2) _ _ _ ov] by blast
qed

subsection \<open>Ticks without error\<close>

lemma each_until_fine: "(\<And>x s. x \<in> set xs \<Longrightarrow> I s \<Longrightarrow> fst (f x s) = None \<and> I (snd (f x s))) \<Longrightarrow> I s \<Longrightarrow> fst (each_until f xs s) = None \<and> I (snd (each_until f xs s))"
proof (induction xs arbitrary: s)
  case (Cons x xs)
  obtain e s1 where f: "f x s = (e, s1)" by fastforce
  have "e = None" "I s1" using Cons(2) [of x s] Cons(3) f by simp_all
  then show ?case using Cons(1) [of s1] Cons(2) f by simp
qed simp

text \<open>Owners that are there and reminders in their range are all that a tick over events asks for.\<close>

definition tick_fine :: "User list \<Rightarrow> remind_db \<Rightarrow> bool" where
  "tick_fine us db \<longleftrightarrow> cd_users (rd_cal db) = us \<and> tb_rows (rd_todo db) = [] \<and>
     (\<forall>(e, s) \<in> set (cd_events (rd_cal db)). ev_OwnerID e \<in> us_ID ` set us \<and> (\<forall>m \<in> set (ev_Reminders e). 0 \<le> m \<and> m \<le> 40320))"

lemma Handle_fine:
  assumes env: "sound_env v" and fine: "tick_fine us db"
  shows "fst (Handle v db n) = None \<and> tick_fine us (snd (Handle v db n))"
proof -
  let ?I = "\<lambda>r :: remind_run. rd_todo (rr_db r) = rd_todo db"
  define r0 :: remind_run where "r0 = \<lparr>rr_db = db, rr_subs = (\<lambda>i :: go_id. None), rr_users = (\<lambda>i :: go_id. None)\<rparr>"
  define xs where "xs = RemindableEvents (rd_cal db) (n - lookback - hour) (n + wrap64 (MaxReminderMinutes * minute)) maxItems"
  have d: "fst (remind_deliver v n (rem, msg) r) = None \<and> ?I (snd (remind_deliver v n (rem, msg) r))"
    if "?I r" "reminder_check us rem" for rem msg and r :: remind_run
  proof -
    have i: "?I (snd (remind_deliver v n (rem, msg) r))"
      using remind_deliver_keeps [of v n rem msg r] env that(1)
      by (cases "remind_deliver v n (rem, msg) r") (auto simp: sound_env_def keeps_told_def)
    have "cd_users (rd_cal (rr_db r)) = us" using that(1) fine by (simp add: rd_cal_def tick_fine_def)
    then show ?thesis
      using i that(2) env
      by (auto simp: remind_deliver_def ClaimReminder_def subscriptions_def sound_env_def Let_def split: option.split prod.split)
  qed
  have ok: "reminder_check us rem" if "e \<in> set xs" "(rem, msg) \<in> set (event_reminders v e lo hi)" for e rem msg lo hi
  proof -
    have "e \<in> set (map fst (cd_events (rd_cal db)))"
      using that(1) set_take_subset by (fastforce simp: xs_def RemindableEvents_def remindable_events_def)
    then show ?thesis using that(2) fine by (fastforce simp: tick_fine_def event_reminders_def reminder_check_def wrap32_def)
  qed
  have "fst (each_until (remind_event v n (n - lookback) n) xs r0) = None \<and> ?I (snd (each_until (remind_event v n (n - lookback) n) xs r0))"
  proof (rule each_until_fine [where I = ?I])
    fix e and r :: remind_run assume "e \<in> set xs" "?I r"
    then show "fst (remind_event v n (n - lookback) n e r) = None \<and> ?I (snd (remind_event v n (n - lookback) n e r))"
      unfolding remind_event_def using d ok by (intro each_until_fine [where I = ?I]) auto
  qed (simp add: r0_def)
  then obtain r1 where "each_until (remind_event v n (n - lookback) n) xs r0 = (None, r1)" "?I r1"
    by (metis prod.collapse)
  moreover have "tb_rows (rd_todo db) = []" using fine by (simp add: tick_fine_def)
  ultimately have "Handle v db n = (None, rr_db r1)" "rd_todo (rr_db r1) = rd_todo db"
    by (simp_all add: Handle_def Let_def r0_def xs_def RemindableTodos_def)
  then show ?thesis using fine by (simp add: tick_fine_def rd_cal_def)
qed

lemma run_ticks_fine:
  "sound_env v \<Longrightarrow> tick_fine us db \<Longrightarrow> set (fst (run_ticks v db ns)) \<subseteq> {None}"
proof (induction ns arbitrary: db)
  case (Cons n ns)
  obtain e db1 where h: "Handle v db n = (e, db1)" by fastforce
  then have "e = None" "tick_fine us db1" using Handle_fine [OF Cons(2,3), of n] by simp_all
  then show ?case using h Cons(1) [OF Cons(2)] by (cases "run_ticks v db1 ns") fastforce
qed simp

subsection \<open>Witnesses\<close>

definition reminded :: Event where
  "reminded = rd_master\<lparr>ev_Reminders := [10]\<rparr>"

definition moved_away :: Event where
  "moved_away = demo_plain\<lparr>ev_ID := 1, ev_UID := ''u'', ev_SeriesID := Some 0, ev_RecurrenceID := Some day, ev_Start := 5 * day,
     ev_End := 6 * day, ev_Version := 1\<rparr>"

definition reminded_db :: remind_db where
  "reminded_db =
     \<lparr>rd_todo = \<lparr>tb_cal = demo_db\<lparr>cd_users := [demo_user 0], cd_calendars := [demo_calendar 0 0],
          cd_events := [(reminded, row_span demo_env reminded), (moved_away, row_span demo_env moved_away)]\<rparr>,
        tb_lists = [], tb_rows = [], tb_checks = []\<rparr>,
      rd_rows = [], rd_subs = [], rd_pushes = [], rd_notices = []\<rparr>"

definition quiet_env :: remind_env where
  "quiet_env = \<lparr>rv_env = demo_env, rv_base = [], rv_push = None, rv_devices = (\<lambda>u. None), rv_notify = (\<lambda>n. True)\<rparr>"

lemma reminded_rows: "cd_events (rd_cal reminded_db) = [(reminded, row_span demo_env reminded), (moved_away, row_span demo_env moved_away)]"
  by (simp add: reminded_db_def rd_cal_def)

lemma reminded_event:
  "IsMaster reminded" "ev_DeletedAt reminded = None" "ev_Status reminded \<noteq> ''cancelled''" "ev_Start reminded \<le> ev_End reminded"
  "ev_Reminders reminded = [10]" "ev_ID reminded = 0"
  by (simp_all add: reminded_def rd_master_def demo_plain_def Event0_def NilID_def IsMaster_def duration_defs)

lemma moved_event: "event_visible 0 moved_away" "ev_SeriesID moved_away = Some 0" "ev_RecurrenceID moved_away = Some (db_time day)"
  by code_simp+

lemma reminded_told: "told_ok reminded_db" "tick_fine [demo_user 0] reminded_db"
  by (simp_all add: told_ok_def pushed_def noticed_def rd_keys_def tick_fine_def rd_cal_def reminded_db_def reminded_def rd_master_def
      demo_plain_def moved_away_def Event0_def NilID_def demo_user_def)

lemma reminded_tables: "tables_ok (rd_cal reminded_db)"
  by code_simp

lemma reminded_from: "FromEvent demo_lib zi reminded = Inr rd_series"
  by (simp add: FromEvent_def Let_def reminded_def rd_master_def demo_plain_def Event0_def Duration_def dtstart_loc_def rd_series_def
      time_sub_def sat64_def min_int64_def max_int64_def duration_defs)

lemma rd_between:
  assumes "3 \<le> limit"
  shows "\<exists>ts. Between demo_lib rd_series lo hi limit = Inr ts \<and> int (length ts) \<le> limit"
proof -
  let ?S = "{t \<in> occs demo_lib rd_series. Overlaps_times t (t + sr_Duration rd_series) lo hi}"
  have no: "\<not> (\<exists>xs. set xs \<subseteq> ?S \<and> distinct xs \<and> int (length xs) > limit)"
  proof safe
    fix xs :: "go_time list" assume xs: "set xs \<subseteq> ?S" "distinct xs" "int (length xs) > limit"
    have "card (set xs) \<le> card {0, day, 2 * day}" using xs(1) rd_occs by (intro card_mono) auto
    moreover have "card {0, day, 2 * day} \<le> 3" by (simp add: card_insert_if)
    ultimately show False using xs(2,3) assms distinct_card [of xs] by linarith
  qed
  have s: "sorted (sr_extra rd_series)" "rule_times demo_lib rd_series (maxIterations - 1) = None"
    by (simp_all add: rd_series_def rule_times_def duration_defs)
  show ?thesis using Between_spec [OF demo_lib_ok s(1), of limit lo hi] no s(2) assms by (auto split: sum.splits)
qed

lemma reminded_expands: "expands demo_env reminded lo hi"
  using reminded_from rd_between [of maxOccurs] by (fastforce simp: expands_def demo_env_def maxOccurs_def)

lemma reminded_listed: "\<exists>out. occurrences demo_env 10 (rd_cal reminded_db) 0 [reminded] demo_window = Inr out"
proof -
  have kinds: "\<not> IsOverride reminded" "IsOverride moved_away" "ev_AllDay moved_away" "ev_Start moved_away = 5 * day" "ev_AllDay reminded"
    by (simp_all add: reminded_def rd_master_def moved_away_def demo_plain_def Event0_def IsOverride_def)
  have ov: "OverridesOf (rd_cal reminded_db) 0 [ev_ID reminded] = [moved_away]"
    using kinds moved_event reminded_event
    by (simp add: OverridesOf_def reminded_rows) (simp add: reminded_def rd_master_def demo_plain_def Event0_def)
  have put: "put_override moved_away [] = [moved_away]" by (simp add: put_override_def)
  have out: "\<not> window_overlaps demo_window moved_away"
    using kinds by (simp add: window_overlaps_def bounds_def demo_window_def Overlaps_times_def duration_defs)
  obtain ts where ts: "Between demo_lib rd_series 0 (3 * day) 10 = Inr ts" "int (length ts) \<le> 10" using rd_between [of 10] by auto
  have lib: "en_lib demo_env = demo_lib" by (simp add: demo_env_def)
  define keep where "keep = (\<lambda>taken. filter (\<lambda>st. occurrenceKey demo_env (ev_ID reminded) st \<notin> taken) ts)"
  have ex: "expand_masters demo_env 10 demo_window taken [reminded] [] = Inr (map (instance_of reminded) (keep taken))" for taken
    using kinds reminded_event reminded_from ts lib by (simp add: Let_def bounds_def demo_window_def keep_def)
  have few: "int (length (keep taken)) \<le> 10" for taken
    using ts(2) length_filter_le [of _ ts] unfolding keep_def by (metis of_nat_mono order_trans)
  show ?thesis
    using kinds reminded_event ov out moved_event ex few put
    by (simp add: occurrences_def Let_def not_less [symmetric] del: expand_masters.simps)
qed

lemma reminded_runs: "run_ticks quiet_env reminded_db ns = (fst (run_ticks quiet_env reminded_db ns), snd (run_ticks quiet_env reminded_db ns))"
    "set (fst (run_ticks quiet_env reminded_db ns)) \<subseteq> {None}" "sound_env quiet_env" "rv_env quiet_env = demo_env" "rrule_ok (en_lib demo_env)"
proof -
  show env: "sound_env quiet_env" by (simp add: sound_env_def quiet_env_def)
  show "set (fst (run_ticks quiet_env reminded_db ns)) \<subseteq> {None}" by (rule run_ticks_fine [OF env reminded_told(2)])
qed (use demo_lib_ok in \<open>simp_all add: quiet_env_def demo_env_def\<close>)

lemma reminded_due: "due_start demo_env reminded day"
  using reminded_event(1) reminded_from rd_occs by (simp add: due_start_def demo_env_def)

lemma reminded_ticks: "ticking (day - 12 * minute) [day - 9 * minute]" "day - 12 * minute < day - 10 * minute" "day - 10 * minute \<le> last [day - 9 * minute]"
  by (simp_all add: lookback_def duration_defs)

lemma reminded_few: "length (remindable_events (rd_cal reminded_db) lo hi) \<le> maxItems"
proof -
  have "length (remindable_events (rd_cal reminded_db) lo hi) \<le> length (cd_events (rd_cal reminded_db))"
    by (simp add: remindable_events_def)
  also have "\<dots> = 2" by (simp add: reminded_rows)
  finally show ?thesis by (simp add: maxItems_def)
qed


lemma moved_occurrence_reminded_witness:
  "told_once (snd (run_ticks quiet_env reminded_db [day - 9 * minute])) (''event'', 0, db_time day, 10) \<and>
   (\<exists>out. occurrences demo_env 10 (rd_cal reminded_db) 0 [reminded] demo_window = Inr out \<and> instance_of reminded day \<notin> set out)"
proof -
  have seen: "reminded \<in> set (map fst (cd_events (rd_cal reminded_db))) \<and> event_visible 0 reminded"
    by (simp add: reminded_rows) code_simp
  have "told_once (snd (run_ticks quiet_env reminded_db [day - 9 * minute])) (''event'', ev_ID reminded, db_time day, 10) \<and>
      (\<forall>mx evs win out. occurrences (rv_env quiet_env) mx (rd_cal reminded_db) 0 evs win = Inr out \<longrightarrow> distinct evs \<longrightarrow>
       (\<forall>x \<in> set evs. x \<in> set (map fst (cd_events (rd_cal reminded_db))) \<and> event_visible 0 x) \<longrightarrow> instance_of reminded day \<notin> set out)"
    by (rule moved_occurrence_reminded [OF reminded_runs(3) _ _ reminded_told(1) reminded_tables _ reminded_event(2-4) _ _ _ reminded_event(1) _ _
          moved_event(1) _ _ reminded_ticks(1) _ _ _ reminded_runs(1,2)])
      (use reminded_event moved_event reminded_rows reminded_due reminded_ticks reminded_expands reminded_few reminded_runs(4,5) demo_ids
        in \<open>simp_all add: MaxReminderMinutes_def\<close>)
  moreover obtain out where "occurrences demo_env 10 (rd_cal reminded_db) 0 [reminded] demo_window = Inr out" using reminded_listed by blast
  moreover have "distinct [reminded]" "\<forall>x \<in> set [reminded]. x \<in> set (map fst (cd_events (rd_cal reminded_db))) \<and> event_visible 0 x"
    using seen by simp_all
  ultimately show ?thesis unfolding reminded_runs(4) reminded_event(6) by blast
qed

end
