(* ===== verification/Subscriptions.thy ===== *)
theory Subscriptions
  imports Feed "HOL-Library.AList"
begin

text \<open>
  Subscribed calendars: \<open>internal/subscription\<close> with the statements of \<open>internal/store/pg/subscriptions.go\<close> and
  the constraints of \<open>migrations/000012\<close>.  A refresh fetches the feed and merges it into the calendar in one
  transaction.  The client, the decoder of feeds, the parser of URLs, the redaction of messages, the hash and
  fresh ids are arguments, and so is the order in which Go walks over a map.
\<close>

definition maxFailures :: int where "maxFailures = 5"
definition maxErrorLen :: nat where "maxErrorLen = 500"
definition dueBatch :: nat where "dueBatch = 200"

subsection \<open>Tables\<close>

record Subscription =
  su_ID :: go_id
  su_OwnerID :: go_id
  su_CalendarID :: go_id
  su_URLEnc :: string
  su_Host :: string
  su_Interval :: duration
  su_NextRefreshAt :: go_time
  su_Status :: string
  su_ETag :: string
  su_LastModified :: string
  su_ContentHash :: string
  su_Failures :: int
  su_LastAttemptAt :: "go_time option"
  su_LastOKAt :: "go_time option"
  su_LastError :: string

text \<open>The tables, with the rows of the subscriptions in the order they were created.\<close>

record feed_db =
  fe_accounts :: account_db
  fe_subs :: "Subscription list"

definition fe_cal :: "feed_db \<Rightarrow> cal_db" where
  "fe_cal db = ad_cal (fe_accounts db)"

definition set_fe_cal :: "feed_db \<Rightarrow> cal_db \<Rightarrow> feed_db" where
  "set_fe_cal db c = db\<lparr>fe_accounts := set_ad_cal (fe_accounts db) c\<rparr>"

definition sub_check :: "Subscription \<Rightarrow> bool" where
  "sub_check s \<longleftrightarrow> su_Status s \<in> {''ok'', ''error'', ''paused''} \<and> su_Interval s \<ge> minute \<and> wrap32 (su_Failures s) \<ge> 0"

definition commit_subs :: "feed_db \<Rightarrow> Subscription list \<Rightarrow> go_error + feed_db" where
  "commit_subs db ss =
     (if \<not> list_all sub_check ss then Inl (Wrap ErrInvalid ''check violation'')
      else if \<not> distinct (map su_ID ss) \<or> \<not> distinct (map su_CalendarID ss) then Inl (Wrap ErrConflict ''unique violation'')
      else if \<not> list_all (\<lambda>s. list_ex (\<lambda>c. cal_ID c = su_CalendarID s \<and> cal_OwnerID c = su_OwnerID s)
          (cd_calendars (fe_cal db))) ss then Inl (Wrap ErrNotFound ''foreign key violation'')
      else Inr (db\<lparr>fe_subs := ss\<rparr>))"

text \<open>The interval comes back as whole seconds.\<close>

definition CreateSubscription :: "tx_ctx \<Rightarrow> feed_db \<Rightarrow> Subscription \<Rightarrow> Calendar \<Rightarrow> go_error option \<times> feed_db" where
  "CreateSubscription t db sub cal =
     (case CreateCalendar t (fe_accounts db) cal of
        (Inl e, a) \<Rightarrow> (Some e, db)
      | (Inr c, a) \<Rightarrow>
          let row = sub\<lparr>su_Interval := (su_Interval sub + second div 2) div second * second,
                        su_NextRefreshAt := db_time (su_NextRefreshAt sub), su_LastAttemptAt := map_option db_time (su_LastAttemptAt sub),
                        su_ContentHash := [], su_Failures := 0, su_LastOKAt := None, su_LastError := []\<rparr>
          in (case commit_subs (db\<lparr>fe_accounts := a\<rparr>) (fe_subs db @ [row]) of
                Inl e \<Rightarrow> (Some e, db) | Inr db1 \<Rightarrow> (None, db1)))"

definition SubscriptionByID :: "feed_db \<Rightarrow> go_id \<Rightarrow> go_error + Subscription" where
  "SubscriptionByID db i = (case find (\<lambda>s. su_ID s = i) (fe_subs db) of None \<Rightarrow> Inl (Wrap ErrNotFound []) | Some s \<Rightarrow> Inr s)"

definition Subscription_get :: "feed_db \<Rightarrow> go_id \<Rightarrow> go_id \<Rightarrow> go_error + Subscription" where
  "Subscription_get db owner i =
     (case find (\<lambda>s. su_ID s = i \<and> su_OwnerID s = owner) (fe_subs db) of None \<Rightarrow> Inl (Wrap ErrNotFound []) | Some s \<Rightarrow> Inr s)"

definition SubscriptionsOf :: "feed_db \<Rightarrow> go_id \<Rightarrow> Subscription list" where
  "SubscriptionsOf db owner = filter (\<lambda>s. su_OwnerID s = owner) (fe_subs db)"

definition SaveSubscriptionState :: "feed_db \<Rightarrow> Subscription \<Rightarrow> go_error option \<times> feed_db" where
  "SaveSubscriptionState db s =
     (case commit_subs db (map (\<lambda>r. if su_ID r = su_ID s then
         r\<lparr>su_NextRefreshAt := db_time (su_NextRefreshAt s), su_Status := su_Status s, su_ETag := su_ETag s,
           su_LastModified := su_LastModified s, su_ContentHash := su_ContentHash s, su_Failures := wrap32 (su_Failures s),
           su_LastAttemptAt := map_option db_time (su_LastAttemptAt s), su_LastOKAt := map_option db_time (su_LastOKAt s),
           su_LastError := su_LastError s\<rparr> else r) (fe_subs db)) of
        Inl e \<Rightarrow> (Some e, db) | Inr db1 \<Rightarrow> (None, db1))"

definition DueSubscriptions :: "feed_db \<Rightarrow> go_time \<Rightarrow> nat \<Rightarrow> go_id list" where
  "DueSubscriptions db now limit =
     map su_ID (take limit (sort_key su_NextRefreshAt (filter (\<lambda>s. su_Status s \<noteq> ''paused'' \<and> su_NextRefreshAt s \<le> db_time now) (fe_subs db))))"

text \<open>A calendar takes its subscription with it (\<open>ON DELETE CASCADE\<close>).\<close>

definition DeleteFeedCalendar :: "tx_ctx \<Rightarrow> feed_db \<Rightarrow> go_id \<Rightarrow> go_error option \<times> feed_db" where
  "DeleteFeedCalendar t db i =
     (case DeleteCalendar t (fe_accounts db) i (\<lambda>c. None) of
        (Inl e, a) \<Rightarrow> (Some e, db)
      | (Inr u, a) \<Rightarrow> (None, db\<lparr>fe_accounts := a, fe_subs := filter (\<lambda>s. su_CalendarID s \<noteq> i) (fe_subs db)\<rparr>))"

subsection \<open>The merge\<close>

definition item_preimage :: "Event \<Rightarrow> go_time \<Rightarrow> string" where
  "item_preimage e modified =
     ev_Title e @ [CHR 0x00] @ ev_Body e @ [CHR 0x00] @ ev_Location e @ [CHR 0x00] @ ev_URL e @ [CHR 0x00] @
     ev_RRule e @ [CHR 0x00] @ ev_TZ e @ [CHR 0x00] @ ev_Status e @ ev_Transparency e @ ev_Visibility e @
     concat (map (\<lambda>t. put_uint64 (unix t)) ([ev_Start e, ev_End e] @ ev_RDate e @ ev_ExDate e)) @
     concat (map put_uint64 (ev_Reminders e)) @ (if ev_AllDay e then [CHR 0x01] else []) @
     put_uint64 (ev_Sequence e) @ put_uint64 (unix modified)"

definition itemHash :: "(string \<Rightarrow> string) \<Rightarrow> Event \<Rightarrow> go_time \<Rightarrow> string" where
  "itemHash sha256 e modified = take 16 (sha256 (item_preimage e modified))"

definition feed_key :: "string \<Rightarrow> go_time option \<Rightarrow> string" where
  "feed_key uid rid = (case rid of None \<Rightarrow> uid | Some t \<Rightarrow> uid @ CHR 0x00 # format_rfc3339 t)"

definition row_key :: "Event \<Rightarrow> string" where
  "row_key e = feed_key (ev_UID e) (ev_RecurrenceID e)"

record incoming =
  in_event :: Event
  in_modified :: go_time
  in_master :: string

text \<open>The wanted items under their keys, in the order they were seen first.\<close>

definition feed_uid :: "(string \<Rightarrow> string) \<Rightarrow> Event \<Rightarrow> string" where
  "feed_uid sha256 e = (if ev_UID e = [] then ''fp:'' @ EventFingerprint sha256 e else ev_UID e)"

definition want :: "string \<Rightarrow> incoming \<Rightarrow> (string \<times> incoming) list \<Rightarrow> (string \<times> incoming) list" where
  "want k i ws = (if k \<in> fst ` set ws then ws else ws @ [(k, i)])"

definition want_series :: "(string \<Rightarrow> string) \<Rightarrow> TSeries \<Rightarrow> (string \<times> incoming) list \<Rightarrow> (string \<times> incoming) list" where
  "want_series sha256 sr ws =
     (let uid = feed_uid sha256 (trs_Master sr); k = feed_key uid None in
      if k \<in> fst ` set ws then ws
      else fold (\<lambda>ov. want (feed_key uid (ev_RecurrenceID ov))
                  \<lparr>in_event = ov\<lparr>ev_UID := uid\<rparr>, in_modified = trs_Modified sr, in_master = k\<rparr>)
             (trs_Overrides sr)
             (ws @ [(k, \<lparr>in_event = (trs_Master sr)\<lparr>ev_UID := uid\<rparr>, in_modified = trs_Modified sr, in_master = []\<rparr>)]))"

definition wanted_items :: "(string \<Rightarrow> string) \<Rightarrow> TSet \<Rightarrow> (string \<times> incoming) list" where
  "wanted_items sha256 s = fold (want_series sha256) (concat (map trc_Series (tr_Calendars s))) []"

text \<open>What an item becomes before it is stored, and an override besides.\<close>

definition adopt_item :: "(string \<Rightarrow> string) \<Rightarrow> Subscription \<Rightarrow> incoming \<Rightarrow> Event" where
  "adopt_item sha256 sub i =
     (let e1 = (in_event i)\<lparr>ev_OwnerID := su_OwnerID sub, ev_CalendarID := su_CalendarID sub, ev_ReadOnly := True\<rparr>;
          e2 = (if ev_TZ e1 = [] \<and> \<not> ev_AllDay e1 then e1\<lparr>ev_TZ := ''UTC''\<rparr> else e1);
          e3 = (if \<not> ev_End e2 > ev_Start e2 \<and> ev_AllDay e2 then e2\<lparr>ev_End := add_date UTC (ev_Start e2) 0 0 1\<rparr> else e2)
      in e3\<lparr>ev_SourceHash := itemHash sha256 e3 (in_modified i)\<rparr>)"

definition adopt_override :: "go_id \<Rightarrow> Event \<Rightarrow> Event" where
  "adopt_override sid e = e\<lparr>ev_SeriesID := Some sid, ev_RRule := [], ev_RDate := [], ev_ExDate := []\<rparr>"

text \<open>
  The state of the transaction.  A statement that the server refuses aborts it: every later statement is refused,
  and so is the commit.  An update that finds no row is no such refusal.
\<close>

record merge_state =
  ms_db :: cal_db
  ms_have :: "(string \<times> Event) list"
  ms_ids :: "string \<Rightarrow> go_id option"
  ms_aborted :: bool

definition statement :: "merge_state \<Rightarrow> go_error + Event \<times> cal_db \<Rightarrow> Event option \<times> merge_state" where
  "statement st r =
     (if ms_aborted st then (None, st)
      else case r of
        Inl e \<Rightarrow> (None, st\<lparr>ms_aborted := (e \<noteq> Wrap ErrNotFound [])\<rparr>)
      | Inr (x, db) \<Rightarrow> (Some x, st\<lparr>ms_db := db\<rparr>))"

definition merge_store :: "tx_ctx \<Rightarrow> (string \<Rightarrow> go_id) \<Rightarrow> string \<Rightarrow> Event \<Rightarrow> merge_state \<Rightarrow> merge_state" where
  "merge_store t fresh k e st =
     (case map_of (ms_have st) k of
        None \<Rightarrow>
          (case statement st (Event_Insert t (ms_db st) (e\<lparr>ev_ID := fresh k, ev_Version := 1\<rparr>)) of
             (None, st1) \<Rightarrow> st1
           | (Some saved, st1) \<Rightarrow> st1\<lparr>ms_ids := (ms_ids st1)(k \<mapsto> ev_ID saved)\<rparr>)
      | Some cur \<Rightarrow>
          let st1 = st\<lparr>ms_ids := (ms_ids st)(k \<mapsto> ev_ID cur), ms_have := AList.delete k (ms_have st)\<rparr> in
          if ev_SourceHash cur = ev_SourceHash e then st1
          else snd (statement st1 (Event_Update t (ms_db st1)
                 (e\<lparr>ev_ID := ev_ID cur, ev_Version := ev_Version cur, ev_CreatedAt := ev_CreatedAt cur\<rparr>))))"

definition merge_item ::
  "tx_ctx \<Rightarrow> (string \<Rightarrow> string) \<Rightarrow> (string \<Rightarrow> go_id) \<Rightarrow> Subscription \<Rightarrow> string \<times> incoming \<Rightarrow> merge_state \<Rightarrow> merge_state" where
  "merge_item t sha256 fresh sub x st =
     (case x of (k, i) \<Rightarrow>
      if in_master i = [] then merge_store t fresh k (adopt_item sha256 sub i) st
      else case ms_ids st (in_master i) of
        None \<Rightarrow> st
      | Some sid \<Rightarrow> merge_store t fresh k (adopt_override sid (adopt_item sha256 sub i)) st)"

fun merge_gone :: "tx_ctx \<Rightarrow> go_time \<Rightarrow> Event list \<Rightarrow> cal_db \<Rightarrow> go_error + cal_db" where
  "merge_gone t now [] db = Inr db"
| "merge_gone t now (e # es) db =
     (if ev_SeriesID e \<noteq> None then merge_gone t now es db
      else case Event_Delete t db e now of Inl x \<Rightarrow> Inl x | Inr db1 \<Rightarrow> merge_gone t now es db1)"

definition merge_have :: "Event list \<Rightarrow> (string \<times> Event) list" where
  "merge_have evs = fold (\<lambda>e. AList.update (row_key e) e) evs []"

definition txAborted :: go_error where
  "txAborted = Other ''current transaction is aborted''"

definition feed_merge ::
  "service_env \<Rightarrow> (string \<Rightarrow> string) \<Rightarrow> (string \<Rightarrow> go_id) \<Rightarrow> (Event list \<Rightarrow> Event list) \<Rightarrow> Subscription \<Rightarrow> TSet \<Rightarrow> go_time \<Rightarrow> cal_db \<Rightarrow>
     go_error + cal_db" where
  "feed_merge env sha256 fresh walk sub s now db =
     (let t = \<lparr>tx_env = env, tx_owner = su_OwnerID sub, tx_origin = ''subscription''\<rparr>;
          st = fold (merge_item t sha256 fresh sub) (wanted_items sha256 s)
                 \<lparr>ms_db = db, ms_have = merge_have (CalendarEvents db (su_OwnerID sub) (su_CalendarID sub)), ms_ids = Map.empty,
                  ms_aborted = False\<rparr>
      in if ms_aborted st then Inl txAborted else merge_gone t now (walk (map snd (ms_have st))) (ms_db st))"

subsection \<open>The service\<close>

record http_reply =
  hr_Status :: int
  hr_StatusText :: string
  hr_ETag :: string
  hr_LastModified :: string
  hr_Body :: string

text \<open>\<open>se_Parse\<close> gives the scheme and the host of a URL and its text without the fragment.\<close>

record sub_env =
  se_env :: service_env
  se_sha256 :: "string \<Rightarrow> string"
  se_prims :: primitives
  se_keys :: KeyRing
  se_Parse :: "string \<Rightarrow> (string \<times> string \<times> string) option"
  se_Do :: "string \<Rightarrow> string \<Rightarrow> string \<Rightarrow> go_error + http_reply"
  se_Decode :: "string \<Rightarrow> string \<Rightarrow> int \<Rightarrow> go_error + TSet"
  se_scrub :: "go_error \<Rightarrow> string"
  se_fresh :: "string \<Rightarrow> go_id"
  se_walk :: "Event list \<Rightarrow> Event list"
  se_interval :: duration
  se_minEvery :: duration
  se_maxSize :: int
  se_maxItems :: int

definition Clip :: "string \<Rightarrow> nat \<Rightarrow> string" where
  "Clip s n = (let r = runes s in if length r \<le> n then s else concat (take n r))"

definition urlAAD :: "service_env \<Rightarrow> go_id \<Rightarrow> string" where
  "urlAAD env i = AAD [''subscription_url'', en_id_text env i]"

definition badURL :: go_error where
  "badURL = Validation [\<lparr>fe_Field = ''url'', fe_Message = ''must be an http, https or webcal link to an .ics file''\<rparr>]"

definition Normalize_url :: "sub_env \<Rightarrow> string \<Rightarrow> go_error + string \<times> string" where
  "Normalize_url v raw0 =
     (let raw1 = trim_space raw0;
          raw = (if has_prefix (to_lower raw1) ''webcal://''
                 then ''https://'' @ drop (length raw1 - (length (to_lower raw1) - 9)) raw1 else raw1)
      in case se_Parse v raw of
           None \<Rightarrow> Inl badURL
         | Some (scheme, host, txt) \<Rightarrow> if host = [] \<or> scheme \<noteq> ''http'' \<and> scheme \<noteq> ''https'' then Inl badURL else Inr (host, txt))"

definition queue_refresh :: "sub_env \<Rightarrow> feed_db \<Rightarrow> go_id \<Rightarrow> go_error option \<times> feed_db" where
  "queue_refresh v db i =
     (let c = fe_cal db; id_txt = en_id_text (se_env v) i in
      case Enqueue (cd_jobs c) (cd_now c) ''subscription_refresh'' (Some (''{\"subscription\":\"'' @ id_txt @ ''\"}''))
          \<lparr>opt_UniqueKey = id_txt, opt_RunAt = zero_time, opt_Priority = 0, opt_MaxAttempts = 0\<rparr> of
        Inl e \<Rightarrow> (Some (Other ''enqueue''), db) | Inr j \<Rightarrow> (None, set_fe_cal db (c\<lparr>cd_jobs := j\<rparr>)))"

definition Subs_Create ::
  "sub_env \<Rightarrow> feed_db \<Rightarrow> go_id \<Rightarrow> string \<Rightarrow> string \<Rightarrow> string \<Rightarrow> duration \<Rightarrow> go_id \<Rightarrow> go_id \<Rightarrow> string \<Rightarrow> go_time \<Rightarrow>
     (go_error + Subscription) \<times> feed_db" where
  "Subs_Create v db owner origin link name every newID newCal nonce now =
     (case Normalize_url v link of
        Inl e \<Rightarrow> (Inl e, db)
      | Inr (host, url) \<Rightarrow>
          if CountCalendars (fe_accounts db) owner \<ge> MaxCalendars
          then (Inl (Wrap ErrConflict (''an account can have at most '' @ itoa MaxCalendars @ '' calendars'')), db)
          else
            let every1 = max (if every \<le> 0 then se_interval v else every) (se_minEvery v);
                name1 = (if trim_space name = [] then host else trim_space name);
                sub = \<lparr>su_ID = newID, su_OwnerID = owner, su_CalendarID = newCal,
                       su_URLEnc = Seal (se_prims v) (se_keys v) nonce url (urlAAD (se_env v) newID), su_Host = Clip host 200,
                       su_Interval = every1, su_NextRefreshAt = now, su_Status = ''ok'', su_ETag = [], su_LastModified = [],
                       su_ContentHash = [], su_Failures = 0, su_LastAttemptAt = None, su_LastOKAt = None, su_LastError = []\<rparr>;
                cal = Calendar0\<lparr>cal_ID := newCal, cal_OwnerID := owner, cal_Name := Clip name1 100, cal_Color := DefaultCalendarColor,
                       cal_Kind := CalendarSubscription, cal_ReadOnly := True, cal_Position := - 1, cal_DefaultReminders := []\<rparr>
            in (case CreateSubscription \<lparr>tx_env = se_env v, tx_owner = owner, tx_origin = origin\<rparr> db sub cal of
                  (Some e, db1) \<Rightarrow> (Inl e, db1)
                | (None, db1) \<Rightarrow> (case queue_refresh v db1 newID of (Some e, db2) \<Rightarrow> (Inl e, db2) | (None, db2) \<Rightarrow> (Inr sub, db2))))"

definition Subs_Refresh :: "sub_env \<Rightarrow> feed_db \<Rightarrow> go_id \<Rightarrow> go_id \<Rightarrow> go_time \<Rightarrow> go_error option \<times> feed_db" where
  "Subs_Refresh v db owner i now =
     (case Subscription_get db owner i of
        Inl e \<Rightarrow> (Some e, db)
      | Inr sub \<Rightarrow>
          (case SaveSubscriptionState db (sub\<lparr>su_Status := ''ok'', su_Failures := 0, su_NextRefreshAt := now\<rparr>) of
             (Some e, db1) \<Rightarrow> (Some e, db1)
           | (None, db1) \<Rightarrow> queue_refresh v db1 (su_ID sub)))"

definition Subs_Delete :: "sub_env \<Rightarrow> feed_db \<Rightarrow> go_id \<Rightarrow> string \<Rightarrow> go_id \<Rightarrow> go_error option \<times> feed_db" where
  "Subs_Delete v db owner origin i =
     (case Subscription_get db owner i of
        Inl e \<Rightarrow> (Some e, db)
      | Inr sub \<Rightarrow>
          (case DeleteFeedCalendar \<lparr>tx_env = se_env v, tx_owner = owner, tx_origin = origin\<rparr> db (su_CalendarID sub) of
             (Some e, db1) \<Rightarrow> (if err_is e ErrNotFound then None else Some e, db1)
           | (None, db1) \<Rightarrow> (None, db1)))"

fun queue_all :: "sub_env \<Rightarrow> go_id list \<Rightarrow> feed_db \<Rightarrow> go_error option \<times> feed_db" where
  "queue_all v [] db = (None, db)"
| "queue_all v (i # is) db = (case queue_refresh v db i of (Some e, db1) \<Rightarrow> (Some e, db1) | (None, db1) \<Rightarrow> queue_all v is db1)"

definition HandleDue :: "sub_env \<Rightarrow> feed_db \<Rightarrow> go_time \<Rightarrow> go_error option \<times> feed_db" where
  "HandleDue v db now = queue_all v (DueSubscriptions db now dueBatch) db"

text \<open>The interval doubles with each failure, up to 32 times and to a day.\<close>

definition sub_backoff :: "duration \<Rightarrow> int \<Rightarrow> duration" where
  "sub_backoff every failures = min (wrap64 (every * 2 ^ nat (min (max (failures - 1) 0) 5))) (24 * hour)"

definition set_tags :: "http_reply \<Rightarrow> Subscription \<Rightarrow> Subscription" where
  "set_tags r sub = sub\<lparr>su_ETag := hr_ETag r, su_LastModified := hr_LastModified r\<rparr>"

definition refresh_sub :: "sub_env \<Rightarrow> Subscription \<Rightarrow> go_time \<Rightarrow> feed_db \<Rightarrow> (go_error + Subscription) \<times> feed_db" where
  "refresh_sub v sub now db =
     (case Open (se_prims v) (se_keys v) (su_URLEnc sub) (urlAAD (se_env v) (su_ID sub)) of
        Inl e \<Rightarrow> (Inl (Other ''crypto''), db)
      | Inr url \<Rightarrow>
     (case se_Do v url (su_ETag sub) (su_LastModified sub) of
        Inl e \<Rightarrow> (Inl e, db)
      | Inr r \<Rightarrow>
          if hr_Status r = 304 then (Inr sub, db)
          else if hr_Status r \<noteq> 200 then (Inl (Other (''the feed answered '' @ hr_StatusText r)), db)
          else if int (length (hr_Body r)) > se_maxSize v then (Inl (Other (''the feed is larger than '' @ itoa (se_maxSize v) @ '' bytes'')), db)
          else let sum = se_sha256 v (hr_Body r) in
          if sum = su_ContentHash sub then (Inr (set_tags r sub), db)
          else (case find (\<lambda>u. us_ID u = su_OwnerID sub) (cd_users (fe_cal db)) of
             None \<Rightarrow> (Inl (Wrap ErrNotFound []), db)
           | Some u \<Rightarrow>
          (case se_Decode v (hr_Body r) (us_Timezone u) (se_maxItems v) of
             Inl e \<Rightarrow> (Inl e, db)
           | Inr s \<Rightarrow>
          (case feed_merge (se_env v) (se_sha256 v) (se_fresh v) (se_walk v) sub s now (fe_cal db) of
             Inl e \<Rightarrow> (Inl e, db)
           | Inr c \<Rightarrow> (Inr ((set_tags r sub)\<lparr>su_ContentHash := sum\<rparr>), set_fe_cal db c))))))"

definition refresh_ok :: "go_time \<Rightarrow> Subscription \<Rightarrow> Subscription" where
  "refresh_ok now s =
     s\<lparr>su_Status := ''ok'', su_Failures := 0, su_LastError := [], su_LastOKAt := Some now, su_NextRefreshAt := now + su_Interval s\<rparr>"

definition refresh_failed :: "sub_env \<Rightarrow> go_time \<Rightarrow> go_error \<Rightarrow> Subscription \<Rightarrow> Subscription" where
  "refresh_failed v now e s =
     (let n = su_Failures s + 1 in
      s\<lparr>su_Failures := n, su_LastError := Clip (se_scrub v e) maxErrorLen,
        su_NextRefreshAt := now + sub_backoff (su_Interval s) n,
        su_Status := (if n \<ge> maxFailures then ''error'' else su_Status s)\<rparr>)"

definition HandleRefresh :: "sub_env \<Rightarrow> feed_db \<Rightarrow> go_id \<Rightarrow> go_time \<Rightarrow> go_error option \<times> feed_db" where
  "HandleRefresh v db i now =
     (case SubscriptionByID db i of
        Inl e \<Rightarrow> (None, db)
      | Inr sub \<Rightarrow>
          if su_Status sub = ''paused'' then (None, db)
          else let sub1 = sub\<lparr>su_LastAttemptAt := Some now\<rparr> in
          (case refresh_sub v sub1 now db of
             (Inr s, db1) \<Rightarrow> SaveSubscriptionState db1 (refresh_ok now s)
           | (Inl e, db1) \<Rightarrow> SaveSubscriptionState db1 (refresh_failed v now e sub1)))"

end
