(* ===== verification/Subscriptions_Safety.thy ===== *)
theory Subscriptions_Safety
  imports Subscriptions Events_Safety
begin

text \<open>
  What a refresh does to the calendar: the series are those of the feed and every item has its latest content;
  but an override that left the feed stays.
\<close>

subsection \<open>Keys\<close>

lemma feed_key_inject:
  assumes "CHR 0x00 \<notin> set u" "CHR 0x00 \<notin> set v" "feed_key u r = feed_key v r'"
  shows "u = v \<and> (r = None \<longleftrightarrow> r' = None)"
proof (cases r; cases r')
  fix a b assume "r = Some a" "r' = Some b"
  then show ?thesis using split_at_nul [OF assms(1,2), of "format_rfc3339 a" "format_rfc3339 b"] assms(3) by (simp add: feed_key_def)
qed (use assms in \<open>auto simp: feed_key_def\<close>)

lemma feed_key_db_time: "feed_key u (map_option db_time r) = feed_key u r"
proof -
  have "unix (db_time t) = unix t" for t by (simp add: unix_def db_time_def duration_defs)
  then have "format_rfc3339 (db_time t) = format_rfc3339 t" for t
    by (simp add: format_rfc3339_def time_clock_def time_date_def local_days_def local_sec_def)
  then show ?thesis by (cases r) (simp_all add: feed_key_def)
qed

subsection \<open>The rows of a calendar\<close>

definition shown_rows :: "go_id \<Rightarrow> go_id \<Rightarrow> cal_db \<Rightarrow> Event set" where
  "shown_rows w cal db = {x. event_visible w x \<and> ev_CalendarID x = cal \<and> x \<in> fst ` set (cd_events db)}"

text \<open>Every override has the master with its UID beside it, and no UID holds a NUL (a text column takes none).\<close>

definition mirrored :: "go_id \<Rightarrow> go_id \<Rightarrow> cal_db \<Rightarrow> bool" where
  "mirrored w cal db \<longleftrightarrow> (\<forall>x \<in> shown_rows w cal db. CHR 0x00 \<notin> set (ev_UID x) \<and>
     (\<forall>s. ev_SeriesID x = Some s \<longrightarrow> (\<exists>m \<in> shown_rows w cal db. ev_ID m = s \<and> ev_UID m = ev_UID x)))"

lemma row_id_unique:
  assumes "tables_ok db" "x \<in> fst ` set (cd_events db)" "y \<in> fst ` set (cd_events db)" "ev_ID x = ev_ID y"
  shows "x = y"
proof -
  have "inj_on (ev_ID \<circ> fst) (set (cd_events db))"
    using tables_okD(1) [OF assms(1)] by (simp add: event_keys_def distinct_map)
  then show ?thesis using assms(2-4) by (force simp: inj_on_def)
qed

lemma live_uid_unique:
  assumes "tables_ok db" "x \<in> shown_rows w cal db" "y \<in> shown_rows w cal db" "ev_SeriesID x = None" "ev_SeriesID y = None" "ev_UID x = ev_UID y"
  shows "x = y"
proof -
  let ?ms = "filter (\<lambda>e. ev_SeriesID e = None) (live_rows (cd_events db))"
  have "inj_on (\<lambda>e. (ev_CalendarID e, ev_UID e)) (set ?ms)"
    using tables_okD(1) [OF assms(1)] by (simp add: event_keys_def distinct_map)
  moreover have "x \<in> set ?ms" "y \<in> set ?ms" using assms(2-5) by (auto simp: shown_rows_def live_rows_def event_visible_def)
  ultimately show ?thesis using assms(2,3,6) by (auto simp: inj_on_def shown_rows_def)
qed

lemma live_series_recurrence:
  assumes "tables_ok db" "x \<in> shown_rows w cal db"
  shows "ev_SeriesID x = None \<longleftrightarrow> ev_RecurrenceID x = None"
  using tables_okD(4) [OF assms(1)] assms(2) by (fastforce simp: shown_rows_def list_all_iff event_check_def)

lemma row_link:
  assumes "tables_ok db" "x \<in> shown_rows w cal db" "(ev_ID x, s, v) \<in> set (links (cd_events db))"
  shows "s = ev_SeriesID x \<and> v = w"
proof -
  obtain y where y: "y \<in> fst ` set (cd_events db)" "ev_ID y = ev_ID x" "s = ev_SeriesID y" "v = ev_OwnerID y"
    using assms(3) unfolding links_def by force
  then have "y = x" using row_id_unique [OF assms(1)] assms(2) by (auto simp: shown_rows_def)
  then show ?thesis using y assms(2) by (simp add: shown_rows_def event_visible_def)
qed

lemma Insert_live:
  assumes "Event_Insert t db e = Inr (out, db')" "tables_ok db" "ev_CalendarID e = cal"
    and "\<forall>s. ev_SeriesID e = Some s \<longrightarrow> (\<exists>m \<in> shown_rows (tx_owner t) cal db. ev_ID m = s \<and> ev_SeriesID m = None)"
  shows "shown_rows (tx_owner t) cal db' = shown_rows (tx_owner t) cal db \<union> {out}" "tables_ok db'" "ev_ID out = ev_ID e" "ev_UID out = ev_UID e"
    "ev_SeriesID out = ev_SeriesID e" "row_key out = row_key e" "ev_SourceHash out = ev_SourceHash e"
proof -
  obtain s where r: "out = (stored_event e)\<lparr>ev_OwnerID := tx_owner t, ev_Version := 1, ev_CreatedAt := cd_now db, ev_UpdatedAt := cd_now db, ev_DeletedAt := None\<rparr>"
    "cd_events db' = cd_events db @ [(out, s)]" by (rule Event_Insert_rows [OF assms(1)])
  have "\<forall>(i, s, w) \<in> set (links (cd_events db)). ev_SeriesID e = Some i \<longrightarrow> s = None \<and> w = tx_owner t"
    using assms(4) row_link [OF assms(2)] by fastforce
  then show "tables_ok db'" using Event_Insert_kept [OF assms(1,2), of UNIV] kept_ok by blast
  have o: "event_visible (tx_owner t) out" "ev_CalendarID out = cal" "fst ` set (cd_events db') = fst ` set (cd_events db) \<union> {out}"
    by (simp_all add: r event_visible_def assms(3) stored_event_def)
  show "shown_rows (tx_owner t) cal db' = shown_rows (tx_owner t) cal db \<union> {out}"
    unfolding shown_rows_def o(3) using o(1,2) by auto
  show "ev_ID out = ev_ID e" "ev_UID out = ev_UID e" "ev_SeriesID out = ev_SeriesID e" "ev_SourceHash out = ev_SourceHash e"
    "row_key out = row_key e" by (simp_all add: r(1) stored_event_def row_key_def feed_key_db_time)
qed

lemma Update_live:
  assumes "Event_Update t db e = Inr (out, db')" "tables_ok db" "ev_CalendarID e = cal" "cur \<in> shown_rows (tx_owner t) cal db"
    and "ev_ID e = ev_ID cur" "ev_SeriesID e = ev_SeriesID cur"
  shows "shown_rows (tx_owner t) cal db' = shown_rows (tx_owner t) cal db - {cur} \<union> {out}" "tables_ok db'" "ev_ID out = ev_ID cur"
    "ev_UID out = ev_UID cur" "ev_SeriesID out = ev_SeriesID e" "row_key out = feed_key (ev_UID cur) (ev_RecurrenceID e)"
    "ev_SourceHash out = ev_SourceHash e"
proof -
  let ?w = "tx_owner t"
  obtain old os s where r: "(old, os) \<in> set (cd_events db)" "updates_row ?w (ev_ID e) (old, os)" "out = updated_event db e old"
    and evs: "cd_events db' = map (\<lambda>r. if updates_row ?w (ev_ID e) r then (out, s) else cascade old (ev_CalendarID out) r) (cd_events db)"
    by (rule Event_Update_rows [OF assms(1)])
  have "old \<in> fst ` set (cd_events db)" using r(1) by force
  then have old: "old = cur" using row_id_unique [OF assms(2)] r(2) assms(4,5) by (auto simp: shown_rows_def updates_row_def)
  have outs: "ev_ID out = ev_ID cur" "ev_UID out = ev_UID cur" "ev_SeriesID out = ev_SeriesID e" "ev_CalendarID out = cal"
      "ev_SourceHash out = ev_SourceHash e" "event_visible ?w out"
    using r(3) old assms(3,4) by (auto simp: updated_event_def stored_event_def shown_rows_def event_visible_def)
  then show "ev_ID out = ev_ID cur" "ev_UID out = ev_UID cur" "ev_SeriesID out = ev_SeriesID e" "ev_SourceHash out = ev_SourceHash e"
    by simp_all
  show "row_key out = feed_key (ev_UID cur) (ev_RecurrenceID e)"
    using r(3) old by (simp add: row_key_def updated_event_def stored_event_def feed_key_db_time)
  have same: "cascade old (ev_CalendarID out) r = r" for r
    using outs(4) old assms(4) by (cases r) (auto simp: cascade_def shown_rows_def)
  have up: "updates_row ?w (ev_ID e) r \<longleftrightarrow> fst r = cur" if "r \<in> set (cd_events db)" for r
    using row_id_unique [OF assms(2), of "fst r" cur] that assms(4,5) by (auto simp: updates_row_def shown_rows_def)
  have "fst ` set (cd_events db') = (fst ` set (cd_events db) - {cur}) \<union> {out}"
  proof -
    have "fst ` set (cd_events db') = (\<lambda>r. if fst r = cur then out else fst r) ` set (cd_events db)"
      unfolding evs set_map image_image using up by (intro image_cong refl) (simp add: same)
    moreover have "cur \<in> fst ` set (cd_events db)" using assms(4) by (simp add: shown_rows_def)
    ultimately show ?thesis by (auto simp: image_iff)
  qed
  then show "shown_rows ?w cal db' = shown_rows ?w cal db - {cur} \<union> {out}" using outs by (auto simp: shown_rows_def)
  have "\<forall>(i, s, w) \<in> set (links (cd_events db)). i = ev_ID e \<longrightarrow> s = ev_SeriesID e"
    using row_link [OF assms(2,4)] assms(5,6) by fastforce
  then show "tables_ok db'" using Event_Update_kept [OF assms(1,2), of UNIV] kept_ok by blast
qed

subsection \<open>The wanted items\<close>

text \<open>The feed as the decoder gives it: masters are no overrides, and no UID holds a NUL.\<close>

definition plain_feed :: "(string \<Rightarrow> string) \<Rightarrow> TSet \<Rightarrow> bool" where
  "plain_feed sha256 s \<longleftrightarrow> (\<forall>c \<in> set (tr_Calendars s). \<forall>sr \<in> set (trc_Series c).
     ev_SeriesID (trs_Master sr) = None \<and> CHR 0x00 \<notin> set (feed_uid sha256 (trs_Master sr)))"

text \<open>An item is a master under its UID, or an override whose master comes before it.\<close>

definition item_ok :: "(string \<times> incoming) list \<Rightarrow> string \<times> incoming \<Rightarrow> bool" where
  "item_ok ws x \<longleftrightarrow> (let uid = ev_UID (in_event (snd x)) in CHR 0x00 \<notin> set uid \<and> uid \<noteq> [] \<and>
     (if in_master (snd x) = [] then fst x = uid \<and> ev_SeriesID (in_event (snd x)) = None
      else in_master (snd x) = uid \<and> uid \<in> fst ` set ws \<and>
        fst x = feed_key uid (ev_RecurrenceID (in_event (snd x))) \<and> ev_RecurrenceID (in_event (snd x)) \<noteq> None))"

inductive feed_list :: "(string \<times> incoming) list \<Rightarrow> bool" where
  empty: "feed_list []"
| item: "feed_list ws \<Longrightarrow> fst x \<notin> fst ` set ws \<Longrightarrow> item_ok ws x \<Longrightarrow> feed_list (ws @ [x])"

lemma feed_list_keys: "feed_list ws \<Longrightarrow> distinct (map fst ws)"
  by (induction rule: feed_list.induct) auto

lemma feed_list_item: "feed_list ws \<Longrightarrow> x \<in> set ws \<Longrightarrow> item_ok ws x"
  by (induction rule: feed_list.induct) (fastforce simp: item_ok_def Let_def split: if_splits)+

lemma want_list:
  assumes "feed_list ws" "item_ok ws (k, i)"
  shows "feed_list (want k i ws) \<and> fst ` set ws \<subseteq> fst ` set (want k i ws)"
  using feed_list.item [OF assms(1) _ assms(2)] assms(1) by (auto simp: want_def)

lemma want_overrides:
  assumes "feed_list ws" "uid \<in> fst ` set ws" "CHR 0x00 \<notin> set uid" "uid \<noteq> []"
  shows "feed_list (fold (\<lambda>ov. want (feed_key uid (ev_RecurrenceID ov)) \<lparr>in_event = ov\<lparr>ev_UID := uid\<rparr>, in_modified = m, in_master = uid\<rparr>) ovs ws)"
  using assms(1,2)
proof (induction ovs arbitrary: ws)
  case (Cons ov ovs)
  let ?i = "\<lparr>in_event = ov\<lparr>ev_UID := uid\<rparr>, in_modified = m, in_master = uid\<rparr>"
  have "feed_list (want (feed_key uid (ev_RecurrenceID ov)) ?i ws) \<and> fst ` set ws \<subseteq> fst ` set (want (feed_key uid (ev_RecurrenceID ov)) ?i ws)"
  proof (cases "ev_RecurrenceID ov")
    case None
    then have "want (feed_key uid (ev_RecurrenceID ov)) ?i ws = ws" using Cons.prems(2) by (simp add: want_def feed_key_def)
    then show ?thesis using Cons.prems by simp
  next
    case (Some r)
    then show ?thesis using Cons.prems assms(3,4) by (intro want_list) (simp_all add: item_ok_def)
  qed
  then show ?case using Cons by auto
qed simp

lemma want_series_list:
  assumes "feed_list ws" "ev_SeriesID (trs_Master sr) = None" "CHR 0x00 \<notin> set (feed_uid sha256 (trs_Master sr))"
  shows "feed_list (want_series sha256 sr ws)"
proof (cases "feed_uid sha256 (trs_Master sr) \<in> fst ` set ws")
  case True
  then show ?thesis using assms(1) by (simp add: want_series_def feed_key_def)
next
  case False
  let ?u = "feed_uid sha256 (trs_Master sr)"
  let ?x = "(?u, \<lparr>in_event = (trs_Master sr)\<lparr>ev_UID := ?u\<rparr>, in_modified = trs_Modified sr, in_master = []\<rparr>)"
  have u: "?u \<noteq> []" by (simp add: feed_uid_def)
  have "feed_list (ws @ [?x])" using assms False u by (intro feed_list.item) (simp_all add: item_ok_def)
  then have "feed_list (fold (\<lambda>ov. want (feed_key ?u (ev_RecurrenceID ov)) \<lparr>in_event = ov\<lparr>ev_UID := ?u\<rparr>, in_modified = trs_Modified sr, in_master = ?u\<rparr>)
      (trs_Overrides sr) (ws @ [?x]))" by (rule want_overrides) (simp_all add: u assms(3))
  moreover have "feed_key ?u None = ?u" by (simp add: feed_key_def)
  ultimately show ?thesis using False unfolding want_series_def Let_def by simp
qed

lemma want_all_list:
  "feed_list ws \<Longrightarrow> \<forall>sr \<in> set srs. ev_SeriesID (trs_Master sr) = None \<and> CHR 0x00 \<notin> set (feed_uid sha256 (trs_Master sr)) \<Longrightarrow>
     feed_list (fold (want_series sha256) srs ws)"
  by (induction srs arbitrary: ws) (simp_all add: want_series_list)

lemma wanted_list: "plain_feed sha256 s \<Longrightarrow> feed_list (wanted_items sha256 s)"
  unfolding wanted_items_def by (rule want_all_list) (auto simp: plain_feed_def feed_list.empty)

subsection \<open>What the calendar had\<close>

lemma merge_have_facts:
  "distinct (map fst (merge_have evs))"
  "map_of (merge_have evs) k = Some e \<Longrightarrow> e \<in> set evs \<and> row_key e = k"
  "x \<in> set evs \<Longrightarrow> \<exists>e. map_of (merge_have evs) (row_key x) = Some e"
proof -
  have "distinct (map fst (merge_have evs)) \<and> (\<forall>k e. map_of (merge_have evs) k = Some e \<longrightarrow> e \<in> set evs \<and> row_key e = k) \<and>
      (\<forall>x \<in> set evs. \<exists>e. map_of (merge_have evs) (row_key x) = Some e)"
  proof (induction evs rule: rev_induct)
    case (snoc y ys)
    have "merge_have (ys @ [y]) = AList.update (row_key y) y (merge_have ys)" by (simp add: merge_have_def)
    then show ?case using snoc by (auto simp: update_conv' distinct_update)
  qed (simp add: merge_have_def)
  then show "distinct (map fst (merge_have evs))" "map_of (merge_have evs) k = Some e \<Longrightarrow> e \<in> set evs \<and> row_key e = k"
    "x \<in> set evs \<Longrightarrow> \<exists>e. map_of (merge_have evs) (row_key x) = Some e" by blast+
qed

subsection \<open>The loop over the items\<close>

definition merge_inv ::
  "(string \<Rightarrow> string) \<Rightarrow> Subscription \<Rightarrow> cal_db \<Rightarrow> (string \<times> incoming) list \<Rightarrow> merge_state \<Rightarrow> bool" where
  "merge_inv sha256 sub db0 ws st \<longleftrightarrow>
     (let w = su_OwnerID sub; cal = su_CalendarID sub; L = shown_rows w cal (ms_db st); K = fst ` set ws;
          had = map_of (merge_have (CalendarEvents db0 w cal)) in
      tables_ok (ms_db st) \<and> mirrored w cal (ms_db st) \<and>
      (\<forall>(k, i) \<in> set ws. \<exists>x \<in> L. row_key x = k \<and> ms_ids st k = Some (ev_ID x) \<and> ev_SourceHash x = ev_SourceHash (adopt_item sha256 sub i)) \<and>
      (\<forall>x \<in> L. row_key x \<in> K \<or> x \<in> shown_rows w cal db0) \<and>
      (\<forall>x \<in> shown_rows w cal db0. row_key x \<notin> K \<longrightarrow> x \<in> L) \<and>
      distinct (map fst (ms_have st)) \<and> (\<forall>k. map_of (ms_have st) k = (if k \<in> K then None else had k)))"

text \<open>One row comes in place of the one that had the key, if any had.\<close>

lemma merge_inv_step:
  assumes inv: "merge_inv sha256 sub db0 ws st" and new: "k \<notin> fst ` set ws"
    and ok: "tables_ok db1" and L: "shown_rows (su_OwnerID sub) (su_CalendarID sub) db1 = shown_rows (su_OwnerID sub) (su_CalendarID sub) (ms_db st) - R \<union> {out}"
    and R: "\<forall>x \<in> R. row_key x = k \<and> ev_ID x = ev_ID out \<and> ev_UID x = ev_UID out"
    and out: "row_key out = k" "CHR 0x00 \<notin> set (ev_UID out)" "ev_SourceHash out = ev_SourceHash (adopt_item sha256 sub i)"
      "\<forall>s. ev_SeriesID out = Some s \<longrightarrow> (\<exists>m \<in> shown_rows (su_OwnerID sub) (su_CalendarID sub) (ms_db st). ev_ID m = s \<and> ev_UID m = ev_UID out)"
    and st: "ms_db st' = db1" "ms_ids st' = (ms_ids st)(k \<mapsto> ev_ID out)" "distinct (map fst (ms_have st'))"
      "map_of (ms_have st') = (map_of (ms_have st))(k := None)"
  shows "merge_inv sha256 sub db0 (ws @ [(k, i)]) st'"
proof -
  let ?w = "su_OwnerID sub" and ?cal = "su_CalendarID sub"
  let ?L = "shown_rows ?w ?cal (ms_db st)"
  note I = inv [unfolded merge_inv_def Let_def]
  have master: "\<exists>m' \<in> shown_rows ?w ?cal db1. ev_ID m' = ev_ID m \<and> ev_UID m' = ev_UID m" if "m \<in> ?L" for m
    using that L R by (cases "m \<in> R") auto
  have mir: "mirrored ?w ?cal db1"
    unfolding mirrored_def
  proof (intro ballI conjI allI impI)
    fix x assume x: "x \<in> shown_rows ?w ?cal db1"
    then have c: "x = out \<or> x \<in> ?L" using L by blast
    then show "CHR 0x00 \<notin> set (ev_UID x)" using out(2) I by (auto simp: mirrored_def)
    fix s assume "ev_SeriesID x = Some s"
    then have "\<exists>m \<in> ?L. ev_ID m = s \<and> ev_UID m = ev_UID x" using c out(4) I by (auto simp: mirrored_def)
    then show "\<exists>m \<in> shown_rows ?w ?cal db1. ev_ID m = s \<and> ev_UID m = ev_UID x" using master by metis
  qed
  have old: "\<exists>x \<in> shown_rows ?w ?cal db1. row_key x = k1 \<and> ms_ids st' k1 = Some (ev_ID x) \<and> ev_SourceHash x = ev_SourceHash (adopt_item sha256 sub i1)"
    if "(k1, i1) \<in> set ws" for k1 i1
  proof -
    have k1: "(k1, i1) \<in> set ws" by (rule that)
    obtain x where x: "x \<in> ?L" "row_key x = k1" "ms_ids st k1 = Some (ev_ID x)" "ev_SourceHash x = ev_SourceHash (adopt_item sha256 sub i1)"
      using bspec [OF conjunct1 [OF conjunct2 [OF conjunct2 [OF I]]] k1] unfolding prod.case by blast
    have "k1 \<in> fst ` set ws" using that by (simp add: image_iff) (metis fst_conv)
    then have "k1 \<noteq> k" using new by blast
    moreover from this have "x \<in> shown_rows ?w ?cal db1" using x(1,2) L R by blast
    moreover have "ms_ids st' k1 = Some (ev_ID x)" using x(3) st(2) \<open>k1 \<noteq> k\<close> by simp
    ultimately show ?thesis using x(2,4) by blast
  qed
  have seen: "row_key x \<in> fst ` set (ws @ [(k, i)]) \<or> x \<in> shown_rows ?w ?cal db0" if "x \<in> shown_rows ?w ?cal db1" for x
    using that L out(1) I by auto
  have rest: "x \<in> shown_rows ?w ?cal db1" if "x \<in> shown_rows ?w ?cal db0" "row_key x \<notin> fst ` set (ws @ [(k, i)])" for x
    using that L R I by auto
  have have1: "map_of (ms_have st') k1 = (if k1 \<in> fst ` set (ws @ [(k, i)]) then None else map_of (merge_have (CalendarEvents db0 ?w ?cal)) k1)" for k1
    using I st(4) by simp
  have "out \<in> shown_rows ?w ?cal db1" using L by blast
  then have all: "\<forall>(k1, i1) \<in> set (ws @ [(k, i)]). \<exists>x \<in> shown_rows ?w ?cal db1. row_key x = k1 \<and> ms_ids st' k1 = Some (ev_ID x) \<and>
      ev_SourceHash x = ev_SourceHash (adopt_item sha256 sub i1)"
    using old out(1,3) st(2) by fastforce
  have seen1: "\<forall>x \<in> shown_rows ?w ?cal db1. row_key x \<in> fst ` set (ws @ [(k, i)]) \<or> x \<in> shown_rows ?w ?cal db0" using seen by blast
  have rest1: "\<forall>x \<in> shown_rows ?w ?cal db0. row_key x \<notin> fst ` set (ws @ [(k, i)]) \<longrightarrow> x \<in> shown_rows ?w ?cal db1" using rest by blast
  show ?thesis
    unfolding merge_inv_def Let_def st(1) by (intro conjI ok mir all seen1 rest1 st(3) allI have1)
qed

lemma Insert_error: "Event_Insert t db e \<noteq> Inl (Wrap ErrNotFound [])"
  by (auto simp: Event_Insert_def Let_def badRange_def commit_events_def split: sum.splits prod.splits if_splits)

lemma Update_error:
  assumes "cur \<in> shown_rows (tx_owner t) cal db" "ev_ID e = ev_ID cur"
  shows "Event_Update t db e \<noteq> Inl (Wrap ErrNotFound [])"
proof -
  obtain s where "(cur, s) \<in> set (cd_events db)" "updates_row (tx_owner t) (ev_ID e) (cur, s)"
    using assms by (auto simp: shown_rows_def updates_row_def)
  then have "find (updates_row (tx_owner t) (ev_ID e)) (cd_events db) \<noteq> None" unfolding find_None_iff by blast
  then show ?thesis
    by (auto simp: Event_Update_def Let_def badRange_def commit_events_def split: sum.splits prod.splits if_splits option.splits)
qed

lemma master_plain:
  assumes "tables_ok db" "x \<in> shown_rows w cal db" "m \<in> shown_rows w cal db" "ev_SeriesID x = Some (ev_ID m)"
  shows "ev_SeriesID m = None"
proof -
  have "(ev_ID y, ev_SeriesID y, ev_OwnerID y) \<in> set (links (cd_events db))" if "y \<in> shown_rows w cal db" for y
    using that unfolding shown_rows_def links_def by force
  note l = this [OF assms(2), unfolded assms(4)] this [OF assms(3)]
  show ?thesis using bspec [OF bspec [OF tables_okD(3) [OF assms(1), unfolded flat_def] l(1), unfolded prod.case] l(2), unfolded prod.case] by simp
qed

lemma merge_store_inv:
  assumes inv: "merge_inv sha256 sub db0 ws st" and new: "k \<notin> fst ` set ws"
    and t: "tx_owner t = su_OwnerID sub" and cal: "ev_CalendarID e = su_CalendarID sub"
    and k: "k = feed_key (ev_UID e) r" "r = None \<longleftrightarrow> ev_SeriesID e = None" "r \<noteq> None \<longrightarrow> ev_RecurrenceID e = r"
    and e: "CHR 0x00 \<notin> set (ev_UID e)" "ev_SourceHash e = ev_SourceHash (adopt_item sha256 sub i)"
    and m: "\<forall>s. ev_SeriesID e = Some s \<longrightarrow> (\<exists>m \<in> shown_rows (su_OwnerID sub) (su_CalendarID sub) (ms_db st).
        ev_ID m = s \<and> ev_UID m = ev_UID e \<and> ev_SeriesID m = None)"
    and run: "\<not> ms_aborted st" "\<not> ms_aborted (merge_store t fresh k e st)"
  shows "merge_inv sha256 sub db0 (ws @ [(k, i)]) (merge_store t fresh k e st)"
proof -
  let ?w = "su_OwnerID sub" and ?cal = "su_CalendarID sub"
  let ?L = "shown_rows ?w ?cal (ms_db st)"
  note I = inv [unfolded merge_inv_def Let_def]
  have ok: "tables_ok (ms_db st)" and mir: "mirrored ?w ?cal (ms_db st)" and dist: "distinct (map fst (ms_have st))"
    and had: "\<And>k. map_of (ms_have st) k = (if k \<in> fst ` set ws then None else map_of (merge_have (CalendarEvents db0 ?w ?cal)) k)"
    using I by simp_all
  have key: "row_key out = k" if "tables_ok db1" "out \<in> shown_rows ?w ?cal db1" "ev_UID out = ev_UID e" "ev_SeriesID out = ev_SeriesID e"
      "row_key out = feed_key (ev_UID e) (ev_RecurrenceID e)" for db1 out
    using live_series_recurrence [OF that(1,2)] that(3-5) k by (cases "r = None") (simp_all add: row_key_def)
  show ?thesis
  proof (cases "map_of (ms_have st) k")
    case None
    let ?e = "e\<lparr>ev_ID := fresh k, ev_Version := 1\<rparr>"
    obtain out db1 where ins: "Event_Insert t (ms_db st) ?e = Inr (out, db1)"
      using run None Insert_error [of t "ms_db st" ?e]
      by (cases "Event_Insert t (ms_db st) ?e") (auto simp: merge_store_def statement_def split: if_splits)
    have ser: "\<forall>s. ev_SeriesID ?e = Some s \<longrightarrow> (\<exists>m \<in> shown_rows (tx_owner t) ?cal (ms_db st). ev_ID m = s \<and> ev_SeriesID m = None)"
      using m t by auto
    have calE: "ev_CalendarID ?e = ?cal" by (simp add: cal)
    note L = Insert_live [OF ins ok calE ser, unfolded t]
    have "row_key out = k" by (rule key [OF L(2)]) (use L in \<open>simp_all add: row_key_def\<close>)
    moreover have "merge_store t fresh k e st = st\<lparr>ms_db := db1, ms_ids := (ms_ids st)(k \<mapsto> ev_ID out)\<rparr>"
      using None ins run(1) by (simp add: merge_store_def statement_def)
    ultimately show ?thesis
      by (intro merge_inv_step [OF inv new L(2), where R = "{}" and out = out]) (use L m e dist None in auto)
  next
    case (Some cur)
    have new1: "map_of (merge_have (CalendarEvents db0 ?w ?cal)) k = Some cur" using Some had [of k] new by simp
    have cur0: "cur \<in> shown_rows ?w ?cal db0" "row_key cur = k"
      using merge_have_facts(2) [OF new1] by (auto simp: CalendarEvents_set shown_rows_def)
    then have cur: "cur \<in> ?L" using I new by blast
    have nul: "CHR 0x00 \<notin> set (ev_UID cur)" using mir cur by (simp add: mirrored_def)
    have uid: "ev_UID cur = ev_UID e" "ev_RecurrenceID cur = None \<longleftrightarrow> r = None"
      using feed_key_inject [OF nul e(1), of "ev_RecurrenceID cur" r] cur0(2) k(1) by (simp_all add: row_key_def)
    have sid: "ev_SeriesID e = ev_SeriesID cur"
    proof (cases "ev_SeriesID cur")
      case None
      then show ?thesis using live_series_recurrence [OF ok cur] uid(2) k(2) by simp
    next
      case (Some s)
      obtain m1 where m1: "m1 \<in> ?L" "ev_ID m1 = s" "ev_UID m1 = ev_UID cur" using mir cur Some by (auto simp: mirrored_def)
      have "ev_SeriesID e \<noteq> None" using live_series_recurrence [OF ok cur] Some uid(2) k(2) by simp
      then obtain m2 where m2: "m2 \<in> ?L" "ev_SeriesID e = Some (ev_ID m2)" "ev_UID m2 = ev_UID e" "ev_SeriesID m2 = None" using m by auto
      have "ev_SeriesID m1 = None" using master_plain [OF ok cur m1(1)] Some m1(2) by simp
      then have "m1 = m2" using live_uid_unique [OF ok m1(1) m2(1)] m1(3) m2(3,4) uid(1) by simp
      then show ?thesis using m1(2) m2(2) Some by simp
    qed
    have del: "map_of (AList.delete k (ms_have st)) = (map_of (ms_have st))(k := None)" "distinct (map fst (AList.delete k (ms_have st)))"
      using dist by (simp_all add: delete_conv' distinct_delete)
    show ?thesis
    proof (cases "ev_SourceHash cur = ev_SourceHash e")
      case True
      have st1: "merge_store t fresh k e st = st\<lparr>ms_ids := (ms_ids st)(k \<mapsto> ev_ID cur), ms_have := AList.delete k (ms_have st)\<rparr>"
        using Some True by (simp add: merge_store_def)
      show ?thesis
        unfolding st1
        by (rule merge_inv_step [OF inv new ok, where R = "{}" and out = cur]) (use cur cur0 nul mir del True e(2) in \<open>auto simp: mirrored_def\<close>)
    next
      case False
      let ?e = "e\<lparr>ev_ID := ev_ID cur, ev_Version := ev_Version cur, ev_CreatedAt := ev_CreatedAt cur\<rparr>"
      obtain out db1 where up: "Event_Update t (ms_db st) ?e = Inr (out, db1)"
        using run Some False Update_error [of cur t ?cal "ms_db st" ?e] cur t
        by (cases "Event_Update t (ms_db st) ?e") (auto simp: merge_store_def statement_def Let_def split: if_splits)
      have facts: "ev_CalendarID ?e = ?cal" "cur \<in> shown_rows (tx_owner t) ?cal (ms_db st)" "ev_ID ?e = ev_ID cur" "ev_SeriesID ?e = ev_SeriesID cur"
        using cal cur t sid by simp_all
      note L = Update_live [OF up ok facts, unfolded t]
      have outL: "out \<in> shown_rows ?w ?cal db1" unfolding L(1) by blast
      have "row_key out = k" by (rule key [OF L(2) outL]) (use L uid in simp_all)
      moreover have st1: "merge_store t fresh k e st =
          st\<lparr>ms_db := db1, ms_ids := (ms_ids st)(k \<mapsto> ev_ID cur), ms_have := AList.delete k (ms_have st)\<rparr>"
        using Some False up run(1) by (simp add: merge_store_def statement_def Let_def)
      moreover have "\<forall>s. ev_SeriesID out = Some s \<longrightarrow> (\<exists>m \<in> ?L. ev_ID m = s \<and> ev_UID m = ev_UID out)"
        using m L(4,5) uid(1) by auto
      ultimately show ?thesis
        unfolding st1 by (intro merge_inv_step [OF inv new L(2,1)]) (use L cur0 nul uid e del in auto)
    qed
  qed
qed

lemma adopt_item_facts:
  "ev_UID (adopt_item sha256 sub i) = ev_UID (in_event i)" "ev_SeriesID (adopt_item sha256 sub i) = ev_SeriesID (in_event i)"
  "ev_RecurrenceID (adopt_item sha256 sub i) = ev_RecurrenceID (in_event i)" "ev_CalendarID (adopt_item sha256 sub i) = su_CalendarID sub"
  by (simp_all add: adopt_item_def Let_def)

lemma merge_item_inv:
  assumes inv: "merge_inv sha256 sub db0 ws st" and new: "fst x \<notin> fst ` set ws" and item: "item_ok ws x"
    and t: "tx_owner t = su_OwnerID sub" and run: "\<not> ms_aborted st" "\<not> ms_aborted (merge_item t sha256 fresh sub x st)"
  shows "merge_inv sha256 sub db0 (ws @ [x]) (merge_item t sha256 fresh sub x st)"
proof -
  obtain k i where x: "x = (k, i)" by fastforce
  let ?uid = "ev_UID (in_event i)"
  note I = inv [unfolded merge_inv_def Let_def]
  have nul: "CHR 0x00 \<notin> set ?uid" using item by (simp add: item_ok_def x Let_def)
  show ?thesis
  proof (cases "in_master i = []")
    case True
    then have k: "k = feed_key ?uid None" "ev_SeriesID (in_event i) = None" using item by (simp_all add: item_ok_def x Let_def feed_key_def)
    have s: "merge_item t sha256 fresh sub x st = merge_store t fresh k (adopt_item sha256 sub i) st" using True by (simp add: merge_item_def x)
    show ?thesis
      unfolding s unfolding x
      by (rule merge_store_inv [OF inv _ t, where r = None]) (use new k nul run s in \<open>simp_all add: x adopt_item_facts\<close>)
  next
    case False
    then have k: "in_master i = ?uid" "?uid \<in> fst ` set ws" "k = feed_key ?uid (ev_RecurrenceID (in_event i))" "ev_RecurrenceID (in_event i) \<noteq> None"
      using item by (simp_all add: item_ok_def x Let_def split: if_splits)
    then obtain j where j: "(?uid, j) \<in> set ws" by auto
    have "\<exists>m \<in> shown_rows (su_OwnerID sub) (su_CalendarID sub) (ms_db st). row_key m = ?uid \<and> ms_ids st ?uid = Some (ev_ID m) \<and>
        ev_SourceHash m = ev_SourceHash (adopt_item sha256 sub j)"
      using bspec [OF conjunct1 [OF conjunct2 [OF conjunct2 [OF I]]] j] unfolding prod.case .
    then obtain m where m: "m \<in> shown_rows (su_OwnerID sub) (su_CalendarID sub) (ms_db st)" "row_key m = ?uid" "ms_ids st ?uid = Some (ev_ID m)"
      by blast
    have ok: "tables_ok (ms_db st)" and "mirrored (su_OwnerID sub) (su_CalendarID sub) (ms_db st)" using I by simp_all
    then have "CHR 0x00 \<notin> set (ev_UID m)" using m(1) by (simp add: mirrored_def)
    then have "ev_UID m = ?uid \<and> ev_RecurrenceID m = None"
      using feed_key_inject [of "ev_UID m" ?uid "ev_RecurrenceID m" None] nul m(2) by (simp add: row_key_def) (simp add: feed_key_def)
    then have plain: "ev_UID m = ?uid" "ev_SeriesID m = None" using live_series_recurrence [OF ok m(1)] by simp_all
    have s: "merge_item t sha256 fresh sub x st = merge_store t fresh k (adopt_override (ev_ID m) (adopt_item sha256 sub i)) st"
      using False k(1) m(3) by (simp add: merge_item_def x)
    show ?thesis
      unfolding s unfolding x
      by (rule merge_store_inv [OF inv _ t, where r = "ev_RecurrenceID (in_event i)"])
        (use new k nul run s m plain in \<open>auto simp: x adopt_item_facts adopt_override_def\<close>)
  qed
qed

lemma merge_item_aborted:
  assumes "ms_aborted st"
  shows "ms_aborted (merge_item t sha256 fresh sub x st)"
proof -
  have "ms_aborted (merge_store t fresh k e st)" for k e
    using assms by (simp add: merge_store_def statement_def Let_def split: option.split)
  then show ?thesis using assms by (simp add: merge_item_def split: prod.split option.split)
qed

lemma merge_loop_inv:
  assumes ws: "feed_list ws" and t: "tx_owner t = su_OwnerID sub"
    and db: "tables_ok db" "mirrored (su_OwnerID sub) (su_CalendarID sub) db"
    and st0: "st0 = \<lparr>ms_db = db, ms_have = merge_have (CalendarEvents db (su_OwnerID sub) (su_CalendarID sub)), ms_ids = Map.empty, ms_aborted = False\<rparr>"
  shows "\<not> ms_aborted (fold (merge_item t sha256 fresh sub) ws st0) \<Longrightarrow>
     merge_inv sha256 sub db ws (fold (merge_item t sha256 fresh sub) ws st0)"
  using ws
proof (induction rule: feed_list.induct)
  case empty
  then show ?case using db by (simp add: merge_inv_def Let_def st0 merge_have_facts(1))
next
  case (item ws x)
  let ?st = "fold (merge_item t sha256 fresh sub) ws st0"
  have f: "fold (merge_item t sha256 fresh sub) (ws @ [x]) st0 = merge_item t sha256 fresh sub x ?st" by simp
  have "\<not> ms_aborted ?st" using item.prems merge_item_aborted [of ?st] unfolding f by blast
  then show ?case using merge_item_inv [OF item.IH item.hyps(2,3) t] item.prems unfolding f by blast
qed

subsection \<open>What is gone\<close>

lemma Delete_shown:
  assumes del: "Event_Delete t db e at = Inr db'" and ok: "tables_ok db"
    and sid: "\<forall>(i, s, w) \<in> set (links (cd_events db)). i = ev_ID e \<longrightarrow> s = ev_SeriesID e"
  shows "shown_rows (tx_owner t) cal db' = {x \<in> shown_rows (tx_owner t) cal db. ev_ID x \<noteq> ev_ID e \<and> ev_SeriesID x \<noteq> Some (ev_ID e)}"
    "tables_ok db'" "links (cd_events db') = links (cd_events db)"
proof -
  let ?f = "\<lambda>r. if deletes_row (tx_owner t) (ev_ID e) r then deleted_row db at r else r"
  have evs: "cd_events db' = map ?f (cd_events db)" by (rule Event_Delete_rows(1) [OF del])
  have "(x \<in> fst ` set (cd_events db') \<and> event_visible (tx_owner t) x) \<longleftrightarrow>
      (x \<in> fst ` set (cd_events db) \<and> event_visible (tx_owner t) x \<and> ev_ID x \<noteq> ev_ID e \<and> ev_SeriesID x \<noteq> Some (ev_ID e))" for x
  proof
    assume x: "x \<in> fst ` set (cd_events db') \<and> event_visible (tx_owner t) x"
    then obtain r where r: "r \<in> set (cd_events db)" "x = fst (?f r)" unfolding evs by auto
    have "\<not> deletes_row (tx_owner t) (ev_ID e) r"
    proof
      assume "deletes_row (tx_owner t) (ev_ID e) r"
      then show False using x r(2) by (simp add: deleted_row_def event_visible_def)
    qed
    then show "x \<in> fst ` set (cd_events db) \<and> event_visible (tx_owner t) x \<and> ev_ID x \<noteq> ev_ID e \<and> ev_SeriesID x \<noteq> Some (ev_ID e)"
      using r x by (auto simp: deletes_row_def)
  next
    assume x: "x \<in> fst ` set (cd_events db) \<and> event_visible (tx_owner t) x \<and> ev_ID x \<noteq> ev_ID e \<and> ev_SeriesID x \<noteq> Some (ev_ID e)"
    then have "x \<in> fst ` set (cd_events db)" by blast
    then obtain r where "r \<in> set (cd_events db)" "x = fst r" by blast
    then have "(x, snd r) \<in> set (cd_events db)" by simp
    moreover have "\<not> deletes_row (tx_owner t) (ev_ID e) (x, snd r)" using x unfolding deletes_row_def fst_conv by blast
    then have "?f (x, snd r) = (x, snd r)" by (rule if_not_P)
    ultimately have "(x, snd r) \<in> set (cd_events db')" unfolding evs set_map by (rule rev_image_eqI [OF _ sym])
    then have "x \<in> fst ` set (cd_events db')" by (rule image_eqI [rotated]) simp
    then show "x \<in> fst ` set (cd_events db') \<and> event_visible (tx_owner t) x" using x by blast
  qed
  then show "shown_rows (tx_owner t) cal db' = {x \<in> shown_rows (tx_owner t) cal db. ev_ID x \<noteq> ev_ID e \<and> ev_SeriesID x \<noteq> Some (ev_ID e)}"
    unfolding shown_rows_def by blast
  show "tables_ok db'" "links (cd_events db') = links (cd_events db)"
    using Event_Delete_kept [OF del ok, of UNIV] sid kept_ok by blast+
qed

lemma merge_gone_shown:
  assumes "merge_gone t now es db = Inr db'" "tables_ok db"
    and "\<forall>e \<in> set es. \<forall>(i, s, w) \<in> set (links (cd_events db)). i = ev_ID e \<longrightarrow> s = ev_SeriesID e"
  shows "tables_ok db' \<and> shown_rows (tx_owner t) cal db' =
    {x \<in> shown_rows (tx_owner t) cal db. \<forall>e \<in> set es. ev_SeriesID e = None \<longrightarrow> ev_ID x \<noteq> ev_ID e \<and> ev_SeriesID x \<noteq> Some (ev_ID e)}"
  using assms
proof (induction es arbitrary: db)
  case (Cons e es)
  show ?case
  proof (cases "ev_SeriesID e = None")
    case False
    then show ?thesis using Cons by auto
  next
    case True
    then obtain db1 where d: "Event_Delete t db e now = Inr db1" "merge_gone t now es db1 = Inr db'"
      using Cons.prems(1) by (auto split: sum.splits)
    have D: "shown_rows (tx_owner t) cal db1 = {x \<in> shown_rows (tx_owner t) cal db. ev_ID x \<noteq> ev_ID e \<and> ev_SeriesID x \<noteq> Some (ev_ID e)}"
        "tables_ok db1" "links (cd_events db1) = links (cd_events db)"
      by (rule Delete_shown [OF d(1) Cons.prems(2)], use Cons.prems(3) in simp)+
    have "tables_ok db' \<and> shown_rows (tx_owner t) cal db' =
        {x \<in> shown_rows (tx_owner t) cal db1. \<forall>e \<in> set es. ev_SeriesID e = None \<longrightarrow> ev_ID x \<noteq> ev_ID e \<and> ev_SeriesID x \<noteq> Some (ev_ID e)}"
      by (rule Cons.IH [OF d(2) D(2)]) (use Cons.prems(3) D(3) in simp)
    then show ?thesis using D(1) True by auto
  qed
qed simp

subsection \<open>The calendar after a refresh\<close>

lemma merge_spec:
  assumes run: "feed_merge env sha256 fresh walk sub s now db = Inr db'" and walk: "\<And>xs. set (walk xs) = set xs"
    and feed: "plain_feed sha256 s" and db: "tables_ok db" "mirrored (su_OwnerID sub) (su_CalendarID sub) db"
  defines "ws \<equiv> wanted_items sha256 s"
  shows "tables_ok db' \<and> mirrored (su_OwnerID sub) (su_CalendarID sub) db' \<and>
    (\<forall>(k, i) \<in> set ws. \<exists>x \<in> shown_rows (su_OwnerID sub) (su_CalendarID sub) db'.
       row_key x = k \<and> ev_SourceHash x = ev_SourceHash (adopt_item sha256 sub i)) \<and>
    (\<forall>x \<in> shown_rows (su_OwnerID sub) (su_CalendarID sub) db'. ev_SeriesID x = None \<longrightarrow> row_key x \<in> fst ` set ws) \<and>
    (\<forall>x \<in> shown_rows (su_OwnerID sub) (su_CalendarID sub) db. row_key x \<notin> fst ` set ws \<longrightarrow> ev_UID x \<in> fst ` set ws \<longrightarrow>
       ev_SeriesID x \<noteq> None \<longrightarrow> x \<in> shown_rows (su_OwnerID sub) (su_CalendarID sub) db')"
proof -
  let ?w = "su_OwnerID sub" and ?cal = "su_CalendarID sub"
  define t where "t = \<lparr>tx_env = env, tx_owner = ?w, tx_origin = ''subscription''\<rparr>"
  define st where "st = fold (merge_item t sha256 fresh sub) ws
      \<lparr>ms_db = db, ms_have = merge_have (CalendarEvents db ?w ?cal), ms_ids = Map.empty, ms_aborted = False\<rparr>"
  let ?L = "shown_rows ?w ?cal (ms_db st)" and ?K = "fst ` set ws"
  have t: "tx_owner t = ?w" by (simp add: t_def)
  have fl: "feed_list ws" using wanted_list [OF feed] by (simp add: ws_def)
  have gone: "\<not> ms_aborted st" "merge_gone t now (walk (map snd (ms_have st))) (ms_db st) = Inr db'"
    using run unfolding feed_merge_def Let_def t_def [symmetric] ws_def [symmetric] st_def [symmetric] by (auto split: if_splits)
  have inv: "merge_inv sha256 sub db ws st"
    using merge_loop_inv [OF fl t db refl] gone(1) unfolding st_def by blast
  note I = inv [unfolded merge_inv_def Let_def]
  have ok: "tables_ok (ms_db st)" and mir: "mirrored ?w ?cal (ms_db st)" using I by simp_all
  have dist: "distinct (map fst (ms_have st))" using I by blast
  have hadk: "map_of (ms_have st) k = (if k \<in> ?K then None else map_of (merge_have (CalendarEvents db ?w ?cal)) k)" for k using I by blast
  define G where "G = {e \<in> set (map snd (ms_have st)). ev_SeriesID e = None}"
  have had: "e \<in> shown_rows ?w ?cal db \<and> row_key e \<notin> ?K \<and> e \<in> ?L" if "e \<in> set (map snd (ms_have st))" for e
  proof -
    obtain k where "(k, e) \<in> set (ms_have st)" using \<open>e \<in> set (map snd (ms_have st))\<close> by auto
    then have "map_of (ms_have st) k = Some e" using dist by simp
    then have "k \<notin> ?K" "map_of (merge_have (CalendarEvents db ?w ?cal)) k = Some e" using hadk [of k] by (simp_all split: if_splits)
    then have "e \<in> shown_rows ?w ?cal db" "row_key e = k"
      using merge_have_facts(2) [of "CalendarEvents db ?w ?cal" k e] by (simp_all add: CalendarEvents_set shown_rows_def)
    then show ?thesis using I \<open>k \<notin> ?K\<close> by blast
  qed
  have lk: "\<forall>e \<in> set (walk (map snd (ms_have st))). \<forall>(i, s, w) \<in> set (links (cd_events (ms_db st))). i = ev_ID e \<longrightarrow> s = ev_SeriesID e"
    using had row_link [OF ok] unfolding walk by blast
  have fin: "tables_ok db'" "shown_rows ?w ?cal db' = {x \<in> ?L. \<forall>e \<in> G. ev_ID x \<noteq> ev_ID e \<and> ev_SeriesID x \<noteq> Some (ev_ID e)}"
    using merge_gone_shown [OF gone(2) ok lk, of ?cal] unfolding t walk by (auto simp: G_def)
  have keyG: "ev_UID e \<notin> ?K" if "e \<in> G" for e
  proof -
    have e: "e \<in> ?L" "row_key e \<notin> ?K" "ev_SeriesID e = None" using that had by (auto simp: G_def)
    then show ?thesis using live_series_recurrence [OF ok e(1)] by (simp add: row_key_def feed_key_def)
  qed
  have stays: "x \<in> shown_rows ?w ?cal db'" if x: "x \<in> ?L" "ev_UID x \<in> ?K" for x
  proof -
    have "ev_ID x \<noteq> ev_ID e \<and> ev_SeriesID x \<noteq> Some (ev_ID e)" if e: "e \<in> G" for e
    proof (intro conjI notI)
      have eL: "e \<in> ?L" using e had by (simp add: G_def)
      {
        assume "ev_ID x = ev_ID e"
        then have "x = e" using row_id_unique [OF ok] x(1) eL by (simp add: shown_rows_def)
        then show False using keyG e x(2) by blast
      }
      assume "ev_SeriesID x = Some (ev_ID e)"
      then obtain m where m: "m \<in> ?L" "ev_ID m = ev_ID e" "ev_UID m = ev_UID x" using mir x(1) by (auto simp: mirrored_def)
      then have "m = e" using row_id_unique [OF ok] eL by (simp add: shown_rows_def)
      then show False using keyG e m(3) x(2) by metis
    qed
    then show ?thesis using x(1) fin(2) by simp
  qed
  have uidK: "ev_UID x \<in> ?K" if "x \<in> ?L" "row_key x = k" "(k, i) \<in> set ws" for x k i
  proof -
    let ?u = "ev_UID (in_event i)"
    have it: "item_ok ws (k, i)" by (rule feed_list_item [OF fl that(3)])
    have "k \<in> ?K" using that(3) by (rule rev_image_eqI) simp
    moreover have nul: "CHR 0x00 \<notin> set ?u" "CHR 0x00 \<notin> set (ev_UID x)"
      using it mir that(1) by (simp_all add: item_ok_def Let_def mirrored_def)
    moreover have "\<exists>r. k = feed_key ?u r" "?u \<in> ?K \<or> k = ?u"
      using it by (auto simp: item_ok_def Let_def feed_key_def split: if_splits intro: exI [of _ None])
    moreover from this(1) have "ev_UID x = ?u" using feed_key_inject [OF nul(2,1)] that(2) by (auto simp: row_key_def)
    ultimately show ?thesis by metis
  qed
  have items: "\<forall>(k, i) \<in> set ws. \<exists>x \<in> shown_rows ?w ?cal db'. row_key x = k \<and> ev_SourceHash x = ev_SourceHash (adopt_item sha256 sub i)"
  proof clarify
    fix k i assume ki: "(k, i) \<in> set ws"
    have "\<exists>x \<in> ?L. row_key x = k \<and> ms_ids st k = Some (ev_ID x) \<and> ev_SourceHash x = ev_SourceHash (adopt_item sha256 sub i)"
      using bspec [OF conjunct1 [OF conjunct2 [OF conjunct2 [OF I]]] ki] unfolding prod.case .
    then show "\<exists>x \<in> shown_rows ?w ?cal db'. row_key x = k \<and> ev_SourceHash x = ev_SourceHash (adopt_item sha256 sub i)"
      using stays uidK ki by blast
  qed
  have only: "\<forall>x \<in> shown_rows ?w ?cal db'. ev_SeriesID x = None \<longrightarrow> row_key x \<in> ?K"
  proof (intro ballI impI, rule ccontr)
    fix x assume x: "x \<in> shown_rows ?w ?cal db'" "ev_SeriesID x = None" "row_key x \<notin> ?K"
    then have x0: "x \<in> shown_rows ?w ?cal db" using I fin(2) by blast
    then have "x \<in> set (CalendarEvents db ?w ?cal)" by (simp add: CalendarEvents_set shown_rows_def)
    then obtain e where e: "map_of (merge_have (CalendarEvents db ?w ?cal)) (row_key x) = Some e" using merge_have_facts(3) by blast
    then have "map_of (ms_have st) (row_key x) = Some e" using I x(3) by simp
    then have eh: "e \<in> set (map snd (ms_have st))" using map_of_SomeD by force
    have ek: "e \<in> shown_rows ?w ?cal db" "row_key e = row_key x" using merge_have_facts(2) [OF e] by (auto simp: CalendarEvents_set shown_rows_def)
    have nul: "CHR 0x00 \<notin> set (ev_UID e)" "CHR 0x00 \<notin> set (ev_UID x)" using db(2) ek(1) x0 by (simp_all add: mirrored_def)
    have "ev_UID e = ev_UID x" "ev_SeriesID e = None"
      using feed_key_inject [OF nul] ek x(2) live_series_recurrence [OF db(1)] x0 by (simp_all add: row_key_def)
    then have "e = x" using live_uid_unique [OF db(1) ek(1) x0] x(2) by simp
    then have "x \<in> G" using eh x(2) by (simp add: G_def)
    then show False using x(1) fin(2) by blast
  qed
  have mir': "mirrored ?w ?cal db'"
    unfolding mirrored_def
  proof (intro ballI conjI allI impI)
    fix x assume x: "x \<in> shown_rows ?w ?cal db'"
    then have xL: "x \<in> ?L" using fin(2) by blast
    then show "CHR 0x00 \<notin> set (ev_UID x)" using mir by (simp add: mirrored_def)
    fix s assume s: "ev_SeriesID x = Some s"
    then obtain m where m: "m \<in> ?L" "ev_ID m = s" "ev_UID m = ev_UID x" using mir xL by (auto simp: mirrored_def)
    have "ev_SeriesID m = None" using master_plain [OF ok xL m(1)] s m(2) by simp
    then have "m \<in> shown_rows ?w ?cal db'" using m x s fin(2) by auto
    then show "\<exists>m \<in> shown_rows ?w ?cal db'. ev_ID m = s \<and> ev_UID m = ev_UID x" using m by blast
  qed
  have "\<forall>x \<in> shown_rows ?w ?cal db. row_key x \<notin> ?K \<longrightarrow> ev_UID x \<in> ?K \<longrightarrow> ev_SeriesID x \<noteq> None \<longrightarrow> x \<in> shown_rows ?w ?cal db'"
    using I stays by blast
  then show ?thesis using fin(1) mir' items only by blast
qed



subsection \<open>Witnesses\<close>

definition fm_sub :: Subscription where
  "fm_sub = \<lparr>su_ID = 0, su_OwnerID = 0, su_CalendarID = 0, su_URLEnc = [], su_Host = [], su_Interval = hour, su_NextRefreshAt = 0,
     su_Status = ''ok'', su_ETag = [], su_LastModified = [], su_ContentHash = [], su_Failures = 0, su_LastAttemptAt = None,
     su_LastOKAt = None, su_LastError = []\<rparr>"

definition fm_row :: "go_id \<Rightarrow> string \<Rightarrow> Event" where
  "fm_row i uid = demo_plain\<lparr>ev_ID := i, ev_UID := uid, ev_Version := 1, ev_SourceHash := ''h''\<rparr>"

definition fm_change :: Event where
  "fm_change = (fm_row 1 ''u'')\<lparr>ev_SeriesID := Some 0, ev_RecurrenceID := Some day, ev_Start := 5 * day, ev_End := 6 * day\<rparr>"

definition fm_db :: cal_db where
  "fm_db = demo_db\<lparr>cd_users := [demo_user 0], cd_calendars := [demo_calendar 0 0],
     cd_events := [(fm_row 0 ''u'', (0, Some (day, False))), (fm_change, (5 * day, Some (6 * day, False))), (fm_row 2 ''v'', (0, Some (day, False)))]\<rparr>"

definition fm_feed :: TSet where
  "fm_feed = \<lparr>tr_Calendars = [\<lparr>trc_Name = [], trc_Color = [], trc_Timezone = [], trc_Description = [], trc_Hidden = False, trc_Reminders = [],
     trc_Series = [\<lparr>trs_Master = demo_plain\<lparr>ev_UID := ''u'', ev_Title := ''new''\<rparr>, trs_Overrides = [], trs_Modified = 0, trs_Where = []\<rparr>]\<rparr>],
     tr_Lists = []\<rparr>"

definition fm_result :: "go_error + cal_db" where
  "fm_result = feed_merge demo_env (\<lambda>s. ''h'') (\<lambda>k. 9) (\<lambda>xs. xs) fm_sub fm_feed 0 fm_db"

lemma fm_adopt: "ev_SourceHash (adopt_item (\<lambda>s. ''h'') sub i) = ''h''"
  by (simp add: adopt_item_def Let_def itemHash_def)

lemma fm_items: "\<exists>i. wanted_items (\<lambda>s. ''h'') fm_feed = [(''u'', i)] \<and> in_master i = []"
  by (simp add: wanted_items_def fm_feed_def want_series_def feed_uid_def feed_key_def demo_plain_def Event0_def Let_def)

lemma fm_have: "merge_have (CalendarEvents fm_db 0 0) =
    [(''u'', fm_row 0 ''u''), (''v'', fm_row 2 ''v''), (row_key fm_change, fm_change)]"
proof -
  have "CalendarEvents fm_db 0 0 = [fm_row 0 ''u'', fm_row 2 ''v'', fm_change]" by code_simp
  moreover have "row_key (fm_row 0 ''u'') = ''u''" "row_key (fm_row 2 ''v'') = ''v''" "row_key fm_change \<noteq> ''u''" "row_key fm_change \<noteq> ''v''"
    by (simp_all add: row_key_def feed_key_def fm_change_def fm_row_def demo_plain_def Event0_def)
  ultimately show ?thesis by (simp add: merge_have_def)
qed

lemma fm_deletes: "\<exists>d. Event_Delete \<lparr>tx_env = demo_env, tx_owner = 0, tx_origin = ''subscription''\<rparr> fm_db (fm_row 2 ''v'') 0 = Inr d"
proof -
  have "case Event_Delete \<lparr>tx_env = demo_env, tx_owner = 0, tx_origin = ''subscription''\<rparr> fm_db (fm_row 2 ''v'') 0 of Inl e \<Rightarrow> False | Inr d \<Rightarrow> True"
    by code_simp
  then show ?thesis by (auto split: sum.splits)
qed

lemma fm_runs: "\<exists>db'. fm_result = Inr db'"
proof -
  obtain i where i: "wanted_items (\<lambda>s. ''h'') fm_feed = [(''u'', i)]" "in_master i = []" using fm_items by blast
  have s: "su_OwnerID fm_sub = 0" "su_CalendarID fm_sub = 0" by (simp_all add: fm_sub_def)
  have f: "ev_SourceHash (fm_row 0 ''u'') = ''h''" "ev_SeriesID (fm_row 2 ''v'') = None" "ev_SeriesID fm_change \<noteq> None" "row_key fm_change \<noteq> ''u''"
    by (simp_all add: row_key_def feed_key_def fm_change_def fm_row_def demo_plain_def Event0_def)
  obtain d where d: "Event_Delete \<lparr>tx_env = demo_env, tx_owner = 0, tx_origin = ''subscription''\<rparr> fm_db (fm_row 2 ''v'') 0 = Inr d"
    using fm_deletes by blast
  show ?thesis
    unfolding fm_result_def feed_merge_def Let_def s i(1) fm_have
    using i(2) f d by (simp add: merge_item_def merge_store_def fm_adopt Let_def)
qed

lemma fm_plain: "plain_feed (\<lambda>s. ''h'') fm_feed"
  by (simp add: plain_feed_def fm_feed_def feed_uid_def demo_plain_def Event0_def)

lemma fm_wanted: "fst ` set (wanted_items (\<lambda>s. ''h'') fm_feed) = {''u''}"
  using fm_items by auto

lemma fm_ok: "tables_ok fm_db"
  by code_simp

lemma fm_shown: "shown_rows 0 0 fm_db = {fm_row 0 ''u'', fm_change, fm_row 2 ''v''}"
  by (auto simp: shown_rows_def fm_db_def event_visible_def fm_change_def fm_row_def demo_plain_def Event0_def NilID_def)

lemma fm_mirrored: "mirrored (su_OwnerID fm_sub) (su_CalendarID fm_sub) fm_db"
proof -
  have "su_OwnerID fm_sub = 0" "su_CalendarID fm_sub = 0" by (simp_all add: fm_sub_def)
  then show ?thesis
    unfolding mirrored_def using fm_shown by (simp add: fm_change_def fm_row_def demo_plain_def Event0_def NilID_def)
qed



end
